(* ===== verification/Prelude.thy ===== *)
theory Prelude
  imports Complex_Main "HOL-Library.AList"
begin

text \<open>
  Shared vocabulary of the development.

  \<^item> \<open>exn\<close>: the exception classes the Python code raises, each with a short reason; a
    fallible operation returns \<open>exn + 'a\<close> (\<open>Inl\<close> is a raise).
  \<^item> \<open>pyval\<close>: the dynamically typed values that cross the control plane as metadata
    (claims, placement specs, configurations), with Python's \<open>==\<close>, truth and
    \<open>float()\<close>.
  \<^item> ordered dictionaries: association lists updated in place with \<open>AList.update\<close>
    (a new key goes to the end, as in a Python \<open>dict\<close>) and \<open>AList.delete\<close>.
\<close>

named_theorems model_defs \<open>definitions of operations, unfolded by the invariant proofs\<close>
named_theorems frame_simps \<open>what an operation leaves unchanged\<close>

section \<open>Exceptions\<close>

datatype exn =
    ValueError string
  | TypeError string
  | KeyError string
  | RuntimeError string
  | NotImplementedError string
  | TimeoutError string
  | OverflowError string
  | OperationIdentityError string
  | GateFencedError string
  | GateReentryError string
  | GateTimeoutError string
  | DuplicateCompletionError string
  | ProfileConfigurationError string
  | BackendError string

type_synonym 'a res = "exn + 'a"

text \<open>A guard list: the first failing check raises, in the order the code has them.\<close>

fun first_failure :: "(bool \<times> exn) list \<Rightarrow> exn option" where
  "first_failure [] = None"
| "first_failure ((bad, e) # cs) = (if bad then Some e else first_failure cs)"

declare first_failure.simps(2) [simp del]

lemma first_failure_eval [simp]:
  "first_failure ((True, e) # cs) = Some e"
  "first_failure ((False, e) # cs) = first_failure cs"
  by (simp_all add: first_failure.simps)

lemma first_failure_Cons_None [simp]:
  "first_failure ((bad, e) # cs) = None \<longleftrightarrow> \<not> bad \<and> first_failure cs = None"
  by (simp add: first_failure.simps)

lemma first_failure_None_iff:
  "first_failure cs = None \<longleftrightarrow> (\<forall>(bad, e) \<in> set cs. \<not> bad)"
  by (induction cs rule: first_failure.induct) (auto simp: first_failure.simps)

lemma first_failure_Some_in:
  "first_failure cs = Some e \<Longrightarrow> (True, e) \<in> set cs"
  by (induction cs rule: first_failure.induct) (auto simp: first_failure.simps split: if_splits)

definition map_res :: "('a \<Rightarrow> 'b) \<Rightarrow> 'a res \<Rightarrow> 'b res" where
  "map_res f r = (case r of Inl e \<Rightarrow> Inl e | Inr x \<Rightarrow> Inr (f x))"

lemma map_res_simps [simp]:
  "map_res f (Inl e) = Inl e" "map_res f (Inr x) = Inr (f x)"
  by (simp_all add: map_res_def)

lemma map_res_Inr_iff: "map_res f r = Inr y \<longleftrightarrow> (\<exists>x. r = Inr x \<and> y = f x)"
  by (cases r) auto

fun traverse :: "('a \<Rightarrow> 'b res) \<Rightarrow> 'a list \<Rightarrow> 'b list res" where
  "traverse f [] = Inr []"
| "traverse f (x # xs) =
     (case f x of
        Inl e \<Rightarrow> Inl e
      | Inr y \<Rightarrow> map_res ((#) y) (traverse f xs))"

lemma traverse_Inr_iff:
  "traverse f xs = Inr ys \<longleftrightarrow> list_all2 (\<lambda>x y. f x = Inr y) xs ys"
proof (induction xs arbitrary: ys)
  case Nil
  show ?case by auto
next
  case (Cons x xs)
  show ?case
    by (cases "f x"; cases ys) (auto simp: map_res_Inr_iff Cons.IH)
qed

lemma traverse_id_Inr: "(\<And>x. x \<in> set xs \<Longrightarrow> f x = Inr x) \<Longrightarrow> traverse f xs = Inr xs"
  by (induction xs) auto

section \<open>Ordered dictionaries and sets\<close>

text \<open>\<open>tuple(dict.fromkeys(xs))\<close>: the first occurrence of each element, in order.\<close>

definition dict_fromkeys :: "'a list \<Rightarrow> 'a list" where
  "dict_fromkeys xs = rev (remdups (rev xs))"

lemma set_dict_fromkeys [simp]: "set (dict_fromkeys xs) = set xs"
  by (simp add: dict_fromkeys_def)

lemma distinct_dict_fromkeys [simp]: "distinct (dict_fromkeys xs)"
  by (simp add: dict_fromkeys_def)

lemma update_same: "map_of al k = Some v \<Longrightarrow> AList.update k v al = al"
  by (induction al) (auto split: if_splits)

lemma map_of_update [simp]: "map_of (AList.update k v al) = (map_of al)(k \<mapsto> v)"
  by (rule update_conv')

lemma map_of_delete [simp]: "map_of (AList.delete k al) = (map_of al)(k := None)"
  by (rule delete_conv')

lemma delete_absent: "map_of al k = None \<Longrightarrow> AList.delete k al = al"
  by (simp add: delete_id map_of_eq_None_iff)

lemma map_of_Some_iff_distinct:
  "distinct (map fst al) \<Longrightarrow> map_of al k = Some v \<longleftrightarrow> (k, v) \<in> set al"
  by (simp add: map_of_eq_Some_iff)

section \<open>Python values\<close>

datatype pyfloat = Fin rat | PosInf | NegInf | NaN

datatype pyval =
    PNone
  | PBool bool
  | PInt int
  | PFloat pyfloat
  | PStr string
  | PList "pyval list"
  | PTuple "pyval list"
  | PDict "(string \<times> pyval) list"
  | PObj nat

type_synonym pydict = "(string \<times> pyval) list"

text \<open>\<open>d.get(k)\<close> and \<open>d.get(k, default)\<close>.\<close>

definition pyget_default :: "pydict \<Rightarrow> string \<Rightarrow> pyval \<Rightarrow> pyval" where
  "pyget_default d k dflt = (case map_of d k of None \<Rightarrow> dflt | Some v \<Rightarrow> v)"

definition pyget :: "pydict \<Rightarrow> string \<Rightarrow> pyval" where
  "pyget d k = pyget_default d k PNone"

lemma pyget_update [simp]:
  "pyget (AList.update k v d) k' = (if k' = k then v else pyget d k')"
  by (simp add: pyget_def pyget_default_def)

lemma pyget_delete [simp]:
  "pyget (AList.delete k d) k' = (if k' = k then PNone else pyget d k')"
  by (simp add: pyget_def pyget_default_def)

lemma map_of_pyget: "pyget d k \<noteq> PNone \<Longrightarrow> map_of d k = Some (pyget d k)"
  by (auto simp: pyget_def pyget_default_def split: option.splits)

text \<open>\<open>isinstance(v, str) and v\<close>; \<open>type(v) is int and v >= 0\<close> (a \<open>bool\<close> is not).\<close>

fun is_nonempty_str :: "pyval \<Rightarrow> bool" where
  "is_nonempty_str (PStr s) = (s \<noteq> [])"
| "is_nonempty_str _ = False"

fun is_nonneg_int :: "pyval \<Rightarrow> bool" where
  "is_nonneg_int (PInt i) = (0 \<le> i)"
| "is_nonneg_int _ = False"

fun is_pos_int :: "pyval \<Rightarrow> bool" where
  "is_pos_int (PInt i) = (0 < i)"
| "is_pos_int _ = False"

fun pystr_of :: "pyval \<Rightarrow> string" where
  "pystr_of (PStr s) = s"
| "pystr_of _ = []"

fun pyint_of :: "pyval \<Rightarrow> int" where
  "pyint_of (PInt i) = i"
| "pyint_of _ = 0"

lemma is_nonempty_str_iff: "is_nonempty_str v \<longleftrightarrow> (\<exists>s. v = PStr s \<and> s \<noteq> [])"
  by (cases v) auto

lemma is_nonneg_int_iff: "is_nonneg_int v \<longleftrightarrow> (\<exists>i. v = PInt i \<and> 0 \<le> i)"
  by (cases v) auto

text \<open>Truth value of a Python value, as \<open>if v\<close> and \<open>bool(v)\<close> read it.\<close>

fun py_truth :: "pyval \<Rightarrow> bool" where
  "py_truth PNone = False"
| "py_truth (PBool b) = b"
| "py_truth (PInt i) = (i \<noteq> 0)"
| "py_truth (PFloat f) = (f \<noteq> Fin 0)"
| "py_truth (PStr s) = (s \<noteq> [])"
| "py_truth (PList xs) = (xs \<noteq> [])"
| "py_truth (PTuple xs) = (xs \<noteq> [])"
| "py_truth (PDict d) = (d \<noteq> [])"
| "py_truth (PObj _) = True"

subsection \<open>float()\<close>

text \<open>
  \<open>float(i)\<close> of an integer rounds to 53 significant bits, ties to even, and raises
  \<open>OverflowError\<close> when the rounded magnitude reaches \<open>2 ^ 1024\<close>.
\<close>

fun bit_length :: "nat \<Rightarrow> nat" where
  "bit_length n = (if n = 0 then 0 else Suc (bit_length (n div 2)))"

declare bit_length.simps [simp del]

definition round53 :: "nat \<Rightarrow> nat" where
  "round53 n =
     (let k = bit_length n in
      if k \<le> 53 then n
      else (let s = k - 53; q = n div 2 ^ s; r = n mod 2 ^ s; half = 2 ^ (s - 1);
                q' = (if half < r \<or> (r = half \<and> odd q) then Suc q else q)
            in q' * 2 ^ s))"

definition float_of_int :: "int \<Rightarrow> pyfloat res" where
  "float_of_int i =
     (let m = round53 (nat \<bar>i\<bar>) in
      if m \<ge> 2 ^ 1024 then Inl (OverflowError ''int too large to convert to float'')
      else Inr (Fin (of_int (sgn i * int m))))"

text \<open>\<open>float(v)\<close> for \<open>type(v) in (int, float)\<close>; \<open>None\<close> for other types.\<close>

fun num_to_float :: "pyval \<Rightarrow> pyfloat res option" where
  "num_to_float (PInt i) = Some (float_of_int i)"
| "num_to_float (PFloat f) = Some (Inr f)"
| "num_to_float _ = None"

subsection \<open>Python equality\<close>

text \<open>
  \<open>==\<close>: numbers compare by value across \<open>bool\<close>, \<open>int\<close> and \<open>float\<close>; a list never
  equals a tuple; dictionaries compare without regard to order. Objects are compared by
  identity. A NaN equals itself here, as it does inside a container by the identity
  shortcut of Python's comparison (the code compares metadata inside dicts and tuples).
\<close>

fun py_num :: "pyval \<Rightarrow> pyfloat option" where
  "py_num (PBool b) = Some (Fin (if b then 1 else 0))"
| "py_num (PInt i) = Some (Fin (of_int i))"
| "py_num (PFloat f) = Some f"
| "py_num _ = None"

fun py_eq :: "pyval \<Rightarrow> pyval \<Rightarrow> bool"
and py_eqs :: "pyval list \<Rightarrow> pyval list \<Rightarrow> bool"
and py_eq_items :: "(string \<times> pyval) list \<Rightarrow> (string \<times> pyval) list \<Rightarrow> bool" where
  "py_eq (PList xs) w = (case w of PList ys \<Rightarrow> py_eqs xs ys | _ \<Rightarrow> False)"
| "py_eq (PTuple xs) w = (case w of PTuple ys \<Rightarrow> py_eqs xs ys | _ \<Rightarrow> False)"
| "py_eq (PDict xs) w =
     (case w of PDict ys \<Rightarrow> length xs = length ys \<and> py_eq_items xs ys | _ \<Rightarrow> False)"
| "py_eq PNone w = (w = PNone)"
| "py_eq (PStr s) w = (w = PStr s)"
| "py_eq (PObj n) w = (w = PObj n)"
| "py_eq (PBool b) w = (py_num w = py_num (PBool b))"
| "py_eq (PInt i) w = (py_num w = py_num (PInt i))"
| "py_eq (PFloat f) w = (py_num w = py_num (PFloat f))"
| "py_eqs [] ys = (ys = [])"
| "py_eqs (x # xs) ys = (case ys of [] \<Rightarrow> False | y # ys' \<Rightarrow> py_eq x y \<and> py_eqs xs ys')"
| "py_eq_items [] ys = True"
| "py_eq_items (kv # xs) ys =
     ((case map_of ys (fst kv) of None \<Rightarrow> False | Some w \<Rightarrow> py_eq (snd kv) w)
      \<and> py_eq_items xs ys)"

text \<open>A value is well formed when no dictionary in it repeats a key.\<close>

fun py_wf :: "pyval \<Rightarrow> bool" and py_wfs :: "pyval list \<Rightarrow> bool"
and py_wf_items :: "(string \<times> pyval) list \<Rightarrow> bool" where
  "py_wf (PList xs) = py_wfs xs"
| "py_wf (PTuple xs) = py_wfs xs"
| "py_wf (PDict d) = (distinct (map fst d) \<and> py_wf_items d)"
| "py_wf _ = True"
| "py_wfs [] = True"
| "py_wfs (x # xs) = (py_wf x \<and> py_wfs xs)"
| "py_wf_items [] = True"
| "py_wf_items (kv # xs) = (py_wf (snd kv) \<and> py_wf_items xs)"

lemma py_wfs_iff: "py_wfs xs \<longleftrightarrow> (\<forall>x \<in> set xs. py_wf x)"
  by (induction xs) auto

lemma py_wf_items_iff: "py_wf_items d \<longleftrightarrow> (\<forall>v \<in> snd ` set d. py_wf v)"
  by (induction d) auto

lemma py_eq_refl_aux:
  "py_wf v \<Longrightarrow> py_eq v v"
  "py_wfs vs \<Longrightarrow> py_eqs vs vs"
  "py_wf_items d \<Longrightarrow>
     \<forall>ys. (\<forall>(k, w) \<in> set d. map_of ys k = Some w) \<longrightarrow> py_eq_items d ys"
proof (induction v and vs and d rule: py_wf_py_wfs_py_wf_items.induct)
  case (3 d)
  then have "py_eq_items d d" by (auto simp: map_of_is_SomeI)
  with 3 show ?case by simp
qed (auto split: option.splits)

lemmas py_eq_refl [simp] = py_eq_refl_aux(1) and py_eqs_refl [simp] = py_eq_refl_aux(2)

end
