(* ===== verification/Interfaces.thy ===== *)
theory Interfaces
  imports Prelude
begin

text \<open>
  The contracts that several components share, each proved useful once here and
  interpreted on the model of every component that offers it.
\<close>

text \<open>A component driven by a sequence of operations whose every step keeps an invariant.\<close>

locale invariant_machine =
  fixes inv :: "'s \<Rightarrow> bool"
    and step :: "'e \<Rightarrow> 's \<Rightarrow> 's"
  assumes step_inv: "inv s \<Longrightarrow> inv (step e s)"
begin

lemma run_inv: "inv s \<Longrightarrow> inv (fold step es s)"
  by (induction es arbitrary: s) (auto intro: step_inv)

end

text \<open>
  A component that also keeps a write-once ledger: an entry, once recorded, is neither
  changed nor dropped by any later operation. This is what makes an exact replay safe to
  answer from the ledger.
\<close>

locale write_once = invariant_machine inv step
  for inv :: "'s \<Rightarrow> bool" and step :: "'e \<Rightarrow> 's \<Rightarrow> 's" +
  fixes entry :: "'s \<Rightarrow> 'k \<Rightarrow> 'v option"
  assumes step_keeps: "inv s \<Longrightarrow> entry s k = Some v \<Longrightarrow> entry (step e s) k = Some v"
begin

lemma run_keeps: "inv s \<Longrightarrow> entry s k = Some v \<Longrightarrow> entry (fold step es s) k = Some v"
  by (induction es arbitrary: s) (auto intro: step_inv step_keeps)

text \<open>Two observations of one entry, at any two points of a run, agree.\<close>

lemma observations_agree:
  assumes "inv s" and "entry (fold step es s) k = Some v"
    and "entry (fold step (es @ fs) s) k = Some w"
  shows "w = v"
proof -
  have "inv (fold step es s)" by (rule run_inv [OF assms(1)])
  from run_keeps [OF this assms(2), of fs] assms(3) show ?thesis by simp
qed

end

text \<open>
  An operation whose successful effect is absorbed by an exact replay: the second call
  succeeds and changes nothing. A client that lost the reply may call it again.
\<close>

locale retryable =
  fixes call :: "'e \<Rightarrow> 's \<Rightarrow> 'r res \<times> 's"
  assumes replay: "call e s = (Inr r, s') \<Longrightarrow> \<exists>r'. call e s' = (Inr r', s')"
begin

text \<open>
  The client calls once, ignores the reply (it was lost), and calls again: when the first
  call succeeded, the state is that of a single call and the second call succeeds.
\<close>

lemma call_twice:
  assumes "call e s = (Inr r, s')"
  shows "\<exists>r'. call e (snd (call e s)) = (Inr r', s')"
  using replay [OF assms] assms by simp

text \<open>Any number of replays leaves the state of the first successful call.\<close>

lemma call_many:
  assumes "call e s = (Inr r, s')"
  shows "((snd \<circ> call e) ^^ n) s' = s'"
  using replay [OF assms] by (induction n) auto

end

end
