(* ===== verification/Contracts.thy ===== *)
theory Contracts
  imports Prelude
begin

text \<open>
  Model of \<open>orchestration/contracts.py\<close>: the only values that cross the ownership
  boundaries between the group scheduler, task runner, trainer, rollouter and manager.
  Enumerations are datatypes; a frozen dataclass is a record with a smart constructor
  \<open>mk_...\<close> that performs the checks of its \<open>__post_init__\<close> in order. Checks that a
  typed argument has its declared type (\<open>isinstance\<close> of a dataclass, an enum or a
  string) hold by typing; a \<^typ>\<open>pyval\<close> argument keeps its dynamic checks.
\<close>

section \<open>Enumerations\<close>

datatype replica_kind = NATIVE | BORROWED

datatype replica_state = CREATING | ACTIVE | DRAINING | DORMANT | RELEASED_STATE | QUARANTINED

datatype attempt_state = ADMITTED | TERMINATED | SETTLED

datatype op_kind = ADD | DONATE | REMOVE | RESTORE

datatype op_status = ACCEPTED | RUNNING | SUCCEEDED | FAILED | UNKNOWN

datatype evidence_type = WEIGHT_READY | EXIT_READY | SERVICE_COMMITTED | RELEASED

text \<open>
  Requests only move forward: an attempt is admitted, then terminated by a continuation
  hand-off, then settled. The order of the constructors is that progress order.
\<close>

fun attempt_rank :: "attempt_state \<Rightarrow> nat" where
  "attempt_rank ADMITTED = 0"
| "attempt_rank TERMINATED = 1"
| "attempt_rank SETTLED = 2"

instantiation attempt_state :: linorder
begin

definition less_eq_attempt_state :: "attempt_state \<Rightarrow> attempt_state \<Rightarrow> bool" where
  "less_eq_attempt_state a b \<longleftrightarrow> attempt_rank a \<le> attempt_rank b"

definition less_attempt_state :: "attempt_state \<Rightarrow> attempt_state \<Rightarrow> bool" where
  "less_attempt_state a b \<longleftrightarrow> attempt_rank a < attempt_rank b"

instance
proof
  fix a b :: attempt_state
  show "a \<le> b \<Longrightarrow> b \<le> a \<Longrightarrow> a = b"
    by (cases a; cases b) (simp_all add: less_eq_attempt_state_def)
qed (auto simp: less_eq_attempt_state_def less_attempt_state_def)

end

lemma SETTLED_greatest [simp]: "(s::attempt_state) \<le> SETTLED"
  by (cases s) (simp_all add: less_eq_attempt_state_def)

section \<open>Replica identity\<close>

datatype replica_key =
  ReplicaKey (task_session: string) (replica_id: string) (runtime_epoch: int)

definition mk_replica_key :: "string \<Rightarrow> string \<Rightarrow> int \<Rightarrow> replica_key res" where
  "mk_replica_key task rid epoch =
     (if task = [] then Inl (ValueError ''task_session'')
      else if rid = [] then Inl (ValueError ''replica_id'')
      else if epoch < 0 then Inl (ValueError ''runtime_epoch'')
      else Inr (ReplicaKey task rid epoch))"

text \<open>Decimal rendering of a nonnegative integer, as an f-string does it.\<close>

fun nat_str :: "nat \<Rightarrow> string" where
  "nat_str n =
     (if n < 10 then [char_of (48 + n)]
      else nat_str (n div 10) @ [char_of (48 + n mod 10)])"

declare nat_str.simps [simp del]

definition parse_digits :: "string \<Rightarrow> nat" where
  "parse_digits s = foldl (\<lambda>a c. 10 * a + (of_char c - 48)) 0 s"

lemma parse_nat_str: "parse_digits (nat_str n) = n"
proof (induction n rule: nat_str.induct)
  case (1 n)
  show ?case
  proof (cases "n < 10")
    case True
    then show ?thesis by (subst nat_str.simps) (simp add: parse_digits_def)
  next
    case False
    with 1 have "foldl (\<lambda>a c. 10 * a + (of_char c - 48)) 0 (nat_str (n div 10)) = n div 10"
      by (simp add: parse_digits_def)
    with False show ?thesis by (subst nat_str.simps) (simp add: parse_digits_def)
  qed
qed

lemma nat_str_inject [simp]: "nat_str m = nat_str n \<longleftrightarrow> m = n"
  using parse_nat_str by metis

definition native_replica_key :: "string \<Rightarrow> int \<Rightarrow> int \<Rightarrow> replica_key res" where
  "native_replica_key task rank epoch =
     (if rank < 0 then Inl (ValueError ''native replica_rank'')
      else mk_replica_key task (''native-'' @ nat_str (nat rank)) epoch)"

lemma native_replica_key_Inr_iff:
  "native_replica_key t r e = Inr k \<longleftrightarrow>
     0 \<le> r \<and> t \<noteq> [] \<and> 0 \<le> e \<and> k = ReplicaKey t (''native-'' @ nat_str (nat r)) e"
  by (auto simp: native_replica_key_def mk_replica_key_def)

section \<open>Commands, records and evidence\<close>

record op_command =
  c_operation_id :: string
  c_kind :: op_kind
  c_target :: replica_key
  c_lease_id :: string
  c_force :: "bool option"

definition mk_command ::
    "string \<Rightarrow> op_kind \<Rightarrow> replica_key \<Rightarrow> string \<Rightarrow> bool option \<Rightarrow> op_command res" where
  "mk_command oid kind target lid force =
     (if oid = [] then Inl (ValueError ''operation_id'')
      else if lid = [] then Inl (ValueError ''lease_id'')
      else if kind \<noteq> REMOVE \<and> force = Some True
           then Inl (ValueError ''force is valid only for REMOVE'')
      else Inr \<lparr>c_operation_id = oid, c_kind = kind, c_target = target,
                c_lease_id = lid, c_force = force\<rparr>)"

record op_record =
  r_operation_id :: string
  r_status :: op_status
  r_result :: "string option"

definition mk_record :: "string \<Rightarrow> op_status \<Rightarrow> string option \<Rightarrow> op_record res" where
  "mk_record oid status result =
     (if oid = [] then Inl (ValueError ''operation_id'')
      else Inr \<lparr>r_operation_id = oid, r_status = status, r_result = result\<rparr>)"

record op_evidence =
  e_operation_id :: string
  e_type :: evidence_type
  e_timestamp :: int
  e_gpu_uuids :: "string list"

definition mk_evidence ::
    "string \<Rightarrow> evidence_type \<Rightarrow> int \<Rightarrow> string list \<Rightarrow> op_evidence res" where
  "mk_evidence oid ty ts uuids =
     (if oid = [] then Inl (ValueError ''operation_id'')
      else if ts < 0 then Inl (ValueError ''timestamp'')
      else if \<not> distinct uuids then Inl (ValueError ''released_gpu_uuids duplicates'')
      else if [] \<in> set uuids then Inl (ValueError ''released_gpu_uuids empty'')
      else if ty = RELEASED \<and> uuids = []
           then Inl (ValueError ''RELEASED evidence requires explicit GPU uuids'')
      else if ty \<noteq> RELEASED \<and> uuids \<noteq> []
           then Inl (ValueError ''released_gpu_uuids are valid only for RELEASED'')
      else Inr \<lparr>e_operation_id = oid, e_type = ty, e_timestamp = ts, e_gpu_uuids = uuids\<rparr>)"

text \<open>\<open>OperationEvidence.now\<close>: the clock reading \<open>time.time_ns()\<close> is an argument.\<close>

definition evidence_now ::
    "int \<Rightarrow> string \<Rightarrow> evidence_type \<Rightarrow> string list \<Rightarrow> op_evidence res" where
  "evidence_now clock oid ty uuids = mk_evidence oid ty clock uuids"

definition wf_evidence :: "op_evidence \<Rightarrow> bool" where
  "wf_evidence ev \<longleftrightarrow> e_operation_id ev \<noteq> [] \<and> 0 \<le> e_timestamp ev
     \<and> distinct (e_gpu_uuids ev) \<and> [] \<notin> set (e_gpu_uuids ev)
     \<and> (e_type ev = RELEASED \<longleftrightarrow> e_gpu_uuids ev \<noteq> [])"

lemma mk_evidence_Inr_iff:
  "mk_evidence oid ty ts uuids = Inr ev \<longleftrightarrow>
     ev = \<lparr>e_operation_id = oid, e_type = ty, e_timestamp = ts, e_gpu_uuids = uuids\<rparr>
     \<and> wf_evidence ev"
  by (auto simp: mk_evidence_def wf_evidence_def)

lemma evidence_now_plain:
  "oid \<noteq> [] \<Longrightarrow> 0 \<le> clock \<Longrightarrow> ty \<noteq> RELEASED \<Longrightarrow>
   evidence_now clock oid ty [] =
     Inr \<lparr>e_operation_id = oid, e_type = ty, e_timestamp = clock, e_gpu_uuids = []\<rparr>"
  by (simp add: evidence_now_def mk_evidence_def)

definition require_evidence :: "op_evidence option \<Rightarrow> string \<Rightarrow> evidence_type \<Rightarrow> op_evidence res"
  \<comment> \<open>\<open>None\<close> stands for a value that is not an \<open>OperationEvidence\<close>\<close>
  where
  "require_evidence value oid expected =
     (case value of
        None \<Rightarrow> Inl (TypeError ''did not return OperationEvidence'')
      | Some ev \<Rightarrow>
          if e_operation_id ev \<noteq> oid
          then Inl (ValueError ''evidence belongs to another operation'')
          else if e_type ev \<noteq> expected then Inl (ValueError ''unexpected evidence type'')
          else Inr ev)"

lemma require_evidence_Inr_iff:
  "require_evidence value oid ty = Inr ev \<longleftrightarrow>
     value = Some ev \<and> e_operation_id ev = oid \<and> e_type ev = ty"
  by (auto simp: require_evidence_def split: option.splits)

section \<open>Leases\<close>

definition FIRST_RELEASE_MAX_COLOCATE_COUNT :: nat where
  "FIRST_RELEASE_MAX_COLOCATE_COUNT = 2"

definition FIRST_RELEASE_RAY_GPU_FRACTION :: rat where
  "FIRST_RELEASE_RAY_GPU_FRACTION = 1 / of_nat FIRST_RELEASE_MAX_COLOCATE_COUNT"

text \<open>
  \<open>type(v) in (int, float) and float(v) == x\<close>: either the wrong type, or an
  \<open>OverflowError\<close> of the conversion, or a comparison.
\<close>

definition float_is :: "pyval \<Rightarrow> rat \<Rightarrow> exn \<Rightarrow> pyfloat res" where
  "float_is v x err =
     (case num_to_float v of
        None \<Rightarrow> Inl err
      | Some (Inl e) \<Rightarrow> Inl e
      | Some (Inr f) \<Rightarrow> if f \<noteq> Fin x then Inl err else Inr f)"

text \<open>The claim checks that come before the two numeric shares, in the code's order.\<close>

definition claim_source :: "pydict \<Rightarrow> pyval" where
  "claim_source claim =
     (if pyget claim ''source_lease_id'' = PNone then pyget claim ''lease_id''
      else pyget claim ''source_lease_id'')"

definition claim_check :: "pydict \<Rightarrow> exn option" where
  "claim_check claim = first_failure
     [(claim = [], ValueError ''lease claims must be nonempty''),
      (\<not> is_nonempty_str (pyget claim ''claim_id''), ValueError ''claim_id''),
      (pyget claim ''source_lease_id'' \<noteq> PNone \<and> pyget claim ''lease_id'' \<noteq> PNone
         \<and> \<not> py_eq (pyget claim ''lease_id'') (pyget claim ''source_lease_id''),
       ValueError ''claim lease_id conflicts with source_lease_id''),
      (\<not> is_nonempty_str (claim_source claim), ValueError ''source_lease_id''),
      (\<not> is_nonempty_str (pyget claim ''donor_task_id''), ValueError ''donor_task_id''),
      (\<not> is_nonneg_int (pyget claim ''donor_replica_rank''), ValueError ''donor_replica_rank''),
      (\<not> is_nonempty_str (pyget claim ''pg_id''), ValueError ''pg_id''),
      (\<not> is_nonempty_str (pyget claim ''node_id''), ValueError ''node_id''),
      (\<not> is_nonempty_str (pyget claim ''gpu_uuid''), ValueError ''gpu_uuid''),
      (\<not> is_nonneg_int (pyget claim ''bundle_index''), ValueError ''bundle_index'')]"

definition normalize_claim :: "pydict \<Rightarrow> pydict res" where
  "normalize_claim claim =
     (case claim_check claim of
        Some e \<Rightarrow> Inl e
      | None \<Rightarrow>
          (case float_is (pyget_default claim ''gpu_fraction''
                            (PFloat (Fin FIRST_RELEASE_RAY_GPU_FRACTION)))
                  FIRST_RELEASE_RAY_GPU_FRACTION (ValueError ''gpu_fraction'') of
             Inl e \<Rightarrow> Inl e
           | Inr gpu \<Rightarrow>
               (case float_is (pyget_default claim ''cpu_request'' (PFloat (Fin 1))) 1
                       (ValueError ''cpu_request'') of
                  Inl e \<Rightarrow> Inl e
                | Inr cpu \<Rightarrow>
                    Inr (AList.delete ''lease_id''
                          (AList.update ''source_lease_id'' (claim_source claim)
                            (AList.update ''cpu_request'' (PFloat cpu)
                              (AList.update ''gpu_fraction'' (PFloat gpu) claim)))))))"

record lease =
  l_lease_id :: string
  l_claims :: "pydict list"
  l_expires_at :: rat

definition claim_ids :: "lease \<Rightarrow> string list" where
  "claim_ids l = map (\<lambda>c. pystr_of (pyget c ''claim_id'')) (l_claims l)"

definition source_lease_ids :: "lease \<Rightarrow> string list" where
  "source_lease_ids l = dict_fromkeys (map (\<lambda>c. pystr_of (pyget c ''source_lease_id'')) (l_claims l))"

definition bundle_keys :: "lease \<Rightarrow> (string \<times> int) list" where
  "bundle_keys l =
     map (\<lambda>c. (pystr_of (pyget c ''pg_id''), pyint_of (pyget c ''bundle_index''))) (l_claims l)"

definition gpu_uuids :: "lease \<Rightarrow> string list" where
  "gpu_uuids l = map (\<lambda>c. pystr_of (pyget c ''gpu_uuid'')) (l_claims l)"

definition claim_donor :: "pydict \<Rightarrow> string \<times> int" where
  "claim_donor c = (pystr_of (pyget c ''donor_task_id''), pyint_of (pyget c ''donor_replica_rank''))"

text \<open>\<open>expires_at\<close>: a finite, nonnegative \<open>int\<close> or \<open>float\<close>, stored as a float.\<close>

definition check_expiry :: "pyval \<Rightarrow> rat res" where
  "check_expiry v =
     (case num_to_float v of
        None \<Rightarrow> Inl (ValueError ''expires_at must be finite'')
      | Some (Inl e) \<Rightarrow> Inl e
      | Some (Inr (Fin q)) \<Rightarrow>
          if q < 0 then Inl (ValueError ''expires_at must be >= 0'') else Inr q
      | Some (Inr _) \<Rightarrow> Inl (ValueError ''expires_at must be finite''))"

definition mk_lease :: "string \<Rightarrow> pydict list \<Rightarrow> pyval \<Rightarrow> lease res" where
  "mk_lease lid claims expires =
     (if lid = [] then Inl (ValueError ''lease_id'')
      else if claims = [] then Inl (ValueError ''Lease requires at least one claim'')
      else
        (case traverse normalize_claim claims of
           Inl e \<Rightarrow> Inl e
         | Inr cs \<Rightarrow>
             (let l = \<lparr>l_lease_id = lid, l_claims = cs, l_expires_at = 0\<rparr> in
              if \<not> distinct (claim_ids l) then Inl (ValueError ''repeated claim_id'')
              else if \<not> distinct (gpu_uuids l) then Inl (ValueError ''repeated gpu_uuid'')
              else if \<not> distinct (bundle_keys l) then Inl (ValueError ''repeated PG bundle'')
              else if length (remdups (map claim_donor cs)) \<noteq> 1
                   then Inl (ValueError ''Lease must cover one complete donor replica'')
              else map_res (\<lambda>q. l\<lparr>l_expires_at := q\<rparr>) (check_expiry expires))))"

text \<open>Dataclass equality of two leases: claims compare with Python's \<open>==\<close>.\<close>

definition lease_eq :: "lease \<Rightarrow> lease \<Rightarrow> bool" where
  "lease_eq a b \<longleftrightarrow> l_lease_id a = l_lease_id b
     \<and> py_eq (PTuple (map PDict (l_claims a))) (PTuple (map PDict (l_claims b)))
     \<and> l_expires_at a = l_expires_at b"

section \<open>Normalised claims\<close>

definition wf_claim :: "pydict \<Rightarrow> bool" where
  "wf_claim c \<longleftrightarrow> is_nonempty_str (pyget c ''claim_id'')
     \<and> is_nonempty_str (pyget c ''source_lease_id'') \<and> map_of c ''lease_id'' = None
     \<and> is_nonempty_str (pyget c ''donor_task_id'')
     \<and> is_nonneg_int (pyget c ''donor_replica_rank'')
     \<and> is_nonempty_str (pyget c ''pg_id'') \<and> is_nonempty_str (pyget c ''node_id'')
     \<and> is_nonempty_str (pyget c ''gpu_uuid'') \<and> is_nonneg_int (pyget c ''bundle_index'')
     \<and> map_of c ''gpu_fraction'' = Some (PFloat (Fin FIRST_RELEASE_RAY_GPU_FRACTION))
     \<and> map_of c ''cpu_request'' = Some (PFloat (Fin 1))"

definition wf_lease :: "lease \<Rightarrow> bool" where
  "wf_lease l \<longleftrightarrow> l_lease_id l \<noteq> [] \<and> l_claims l \<noteq> [] \<and> (\<forall>c \<in> set (l_claims l). wf_claim c)
     \<and> distinct (claim_ids l) \<and> distinct (gpu_uuids l) \<and> distinct (bundle_keys l)
     \<and> length (remdups (map claim_donor (l_claims l))) = 1 \<and> 0 \<le> l_expires_at l"

lemma float_is_Inr_iff:
  "float_is v x err = Inr f \<longleftrightarrow> num_to_float v = Some (Inr (Fin x)) \<and> f = Fin x"
  by (auto simp: float_is_def split: option.splits sum.splits)

lemma normalize_claim_wf:
  assumes "normalize_claim c = Inr c'"
  shows "wf_claim c'"
proof -
  have chk: "claim_check c = None"
    using assms by (auto simp: normalize_claim_def split: option.splits)
  then show ?thesis
    using assms
    by (auto simp: normalize_claim_def wf_claim_def float_is_Inr_iff claim_check_def
        split: sum.splits)
qed

lemma wf_claim_normal:
  assumes "wf_claim c"
  shows "normalize_claim c = Inr c"
proof -
  have src: "claim_source c = pyget c ''source_lease_id''"
    using assms by (auto simp: claim_source_def wf_claim_def)
  have none: "pyget c ''lease_id'' = PNone"
    using assms by (simp add: wf_claim_def pyget_def pyget_default_def)
  have "c \<noteq> []" using assms by (auto simp: wf_claim_def)
  then have chk: "claim_check c = None"
    using assms by (simp add: claim_check_def src none wf_claim_def)
  have srcv: "map_of c ''source_lease_id'' = Some (claim_source c)"
    unfolding src using assms by (intro map_of_pyget) (auto simp: wf_claim_def)
  show ?thesis
    using assms chk srcv
    by (simp add: normalize_claim_def wf_claim_def pyget_default_def float_is_def update_same
        delete_absent)
qed

lemma mk_lease_wf:
  assumes "mk_lease lid cs ex = Inr l"
  shows "wf_lease l \<and> l_lease_id l = lid \<and> length (l_claims l) = length cs"
proof -
  obtain ns where ns: "traverse normalize_claim cs = Inr ns"
    using assms by (auto simp: mk_lease_def split: if_splits sum.splits)
  then have all: "list_all2 (\<lambda>x y. normalize_claim x = Inr y) cs ns"
    by (simp add: traverse_Inr_iff)
  have len: "length ns = length cs" using all by (simp add: list_all2_lengthD)
  have wf: "\<forall>c \<in> set ns. wf_claim c"
    using all normalize_claim_wf by (fastforce simp: list_all2_conv_all_nth in_set_conv_nth)
  have nonneg: "0 \<le> q" if "check_expiry ex = Inr q" for q
    using that by (auto simp: check_expiry_def split: option.splits sum.splits pyfloat.splits if_splits)
  have "cs \<noteq> []" using assms by (auto simp: mk_lease_def split: if_splits)
  then show ?thesis
    using assms ns wf len
    by (auto simp: mk_lease_def wf_lease_def Let_def map_res_Inr_iff claim_ids_def gpu_uuids_def
        bundle_keys_def nonneg split: if_splits)
qed

lemma wf_lease_normal:
  assumes "wf_lease l"
  shows "mk_lease (l_lease_id l) (l_claims l) (PFloat (Fin (l_expires_at l))) = Inr l"
proof -
  have tr: "traverse normalize_claim (l_claims l) = Inr (l_claims l)"
    using assms by (intro traverse_id_Inr) (simp add: wf_lease_def wf_claim_normal)
  have ids: "claim_ids \<lparr>l_lease_id = l_lease_id l, l_claims = l_claims l, l_expires_at = 0\<rparr> = claim_ids l"
    "gpu_uuids \<lparr>l_lease_id = l_lease_id l, l_claims = l_claims l, l_expires_at = 0\<rparr> = gpu_uuids l"
    "bundle_keys \<lparr>l_lease_id = l_lease_id l, l_claims = l_claims l, l_expires_at = 0\<rparr> = bundle_keys l"
    by (simp_all add: claim_ids_def gpu_uuids_def bundle_keys_def)
  show ?thesis
    using assms by (simp add: mk_lease_def tr wf_lease_def ids check_expiry_def Let_def)
qed

text \<open>A lease whose claims repeat no key inside any dictionary equals itself.\<close>

definition lease_keys_ok :: "lease \<Rightarrow> bool" where
  "lease_keys_ok l \<longleftrightarrow> py_wfs (map PDict (l_claims l))"

lemma lease_eq_refl: "lease_keys_ok l \<Longrightarrow> lease_eq l l"
  by (simp add: lease_eq_def lease_keys_ok_def)

lemma lease_eq_id: "lease_eq a b \<Longrightarrow> l_lease_id a = l_lease_id b"
  by (simp add: lease_eq_def)

lemma wf_lease_nonempty:
  assumes "wf_lease l"
  shows "gpu_uuids l \<noteq> []" "bundle_keys l \<noteq> []" "claim_ids l \<noteq> []"
  using assms by (simp_all add: wf_lease_def gpu_uuids_def bundle_keys_def claim_ids_def)

lemma wf_lease_uuid_nonempty: "wf_lease l \<Longrightarrow> [] \<notin> set (gpu_uuids l)"
  by (auto simp: wf_lease_def wf_claim_def gpu_uuids_def is_nonempty_str_iff)

section \<open>Decimal numerals in names\<close>

lemma nat_str_digit: "c \<in> set (nat_str n) \<Longrightarrow> 48 \<le> (of_char c :: nat) \<and> of_char c \<le> (57 :: nat)"
proof (induction n rule: nat_str.induct)
  case (1 n)
  have "(of_char (char_of (48 + m :: nat)) :: nat) = 48 + m" if "m < 10" for m using that by (simp add: take_bit_nat_eq_self)
  with 1 show ?case by (auto simp: nat_str.simps [of n] split: if_splits)
qed

lemma no_underscore: "CHR ''_'' \<notin> set (nat_str n)"
  using nat_str_digit by fastforce

lemma split_at_underscore:
  assumes "nat_str m @ CHR ''_'' # xs = nat_str n @ CHR ''_'' # ys"
  shows "m = n \<and> xs = ys"
proof -
  have tw: "takeWhile (\<lambda>c. c \<noteq> CHR ''_'') (nat_str k @ CHR ''_'' # zs) = nat_str k" for k zs
    using no_underscore by (subst takeWhile_append2) (auto simp: in_set_conv_decomp)
  from assms tw [of m xs] tw [of n ys] have "nat_str m = nat_str n" by metis
  with assms show ?thesis by simp
qed

end
