(* ===== verification/Operation_Journal.thy ===== *)
theory Operation_Journal
  imports Interfaces Contracts
begin

text \<open>
  Model of \<open>orchestration/operation_journal.py\<close>: the journal a task runner owns. Its
  three dictionaries are maps; the mutable \<open>OperationRecord\<close> a method returns is returned
  by value (every caller reads it under the journal lock before the next operation). An
  operation returns its result together with the journal, which is unchanged where it
  raises.
\<close>

section \<open>State and operations\<close>

record journal =
  j_records :: "string \<rightharpoonup> op_record"
  j_commands :: "string \<rightharpoonup> op_command"
  j_active_by_task :: "string \<rightharpoonup> string"

definition new_journal :: journal where
  "new_journal = \<lparr>j_records = Map.empty, j_commands = Map.empty, j_active_by_task = Map.empty\<rparr>"

fun is_terminal :: "op_status \<Rightarrow> bool" where
  "is_terminal SUCCEEDED = True"
| "is_terminal FAILED = True"
| "is_terminal UNKNOWN = True"
| "is_terminal _ = False"

fun is_resolved :: "op_status \<Rightarrow> bool" where
  "is_resolved SUCCEEDED = True"
| "is_resolved FAILED = True"
| "is_resolved _ = False"

lemma resolved_terminal [simp]: "is_resolved st \<Longrightarrow> is_terminal st"
  by (cases st) simp_all

definition journal_begin :: "op_command \<Rightarrow> journal \<Rightarrow> op_record res \<times> journal" where
  "journal_begin c j =
     (let oid = c_operation_id c; task = task_session (c_target c) in
      case j_records j oid of
        Some existing \<Rightarrow>
          (case j_commands j oid of
             None \<Rightarrow> (Inl (KeyError ''commands''), j)
           | Some previous \<Rightarrow>
               if previous \<noteq> c then (Inl (OperationIdentityError ''conflicting replay''), j)
               else (Inr existing, j))
      | None \<Rightarrow>
          (let blocked =
             (case j_active_by_task j task of
                None \<Rightarrow> None
              | Some active_id \<Rightarrow>
                  (case j_records j active_id of
                     None \<Rightarrow> Some (KeyError ''records'')
                   | Some active \<Rightarrow>
                       if \<not> is_resolved (r_status active)
                       then Some (OperationIdentityError ''another operation is active'')
                       else None)) in
           case blocked of
             Some e \<Rightarrow> (Inl e, j)
           | None \<Rightarrow>
               (case mk_record oid ACCEPTED None of
                  Inl e \<Rightarrow> (Inl e, j\<lparr>j_active_by_task := (j_active_by_task j)(task := None)\<rparr>)
                | Inr record \<Rightarrow>
                    (Inr record,
                     j\<lparr>j_commands := (j_commands j)(oid \<mapsto> c),
                       j_records := (j_records j)(oid \<mapsto> record),
                       j_active_by_task := (j_active_by_task j)(task \<mapsto> oid)\<rparr>))))"

definition journal_query :: "string \<Rightarrow> journal \<Rightarrow> op_record option" where
  "journal_query oid j = j_records j oid"

definition journal_command :: "string \<Rightarrow> journal \<Rightarrow> op_command res" where
  "journal_command oid j =
     (case j_commands j oid of None \<Rightarrow> Inl (KeyError oid) | Some c \<Rightarrow> Inr c)"

definition journal_mark_running ::
    "string \<Rightarrow> string option \<Rightarrow> journal \<Rightarrow> op_record res \<times> journal" where
  "journal_mark_running oid result j =
     (case j_records j oid of
        None \<Rightarrow> (Inl (KeyError oid), j)
      | Some record \<Rightarrow>
          if is_terminal (r_status record)
          then (Inl (OperationIdentityError ''terminal operation cannot return to RUNNING''), j)
          else (let record' = (if result = None then record\<lparr>r_status := RUNNING\<rparr>
                               else record\<lparr>r_status := RUNNING, r_result := result\<rparr>)
                in (Inr record', j\<lparr>j_records := (j_records j)(oid \<mapsto> record')\<rparr>)))"

definition journal_reopen_unknown :: "string \<Rightarrow> journal \<Rightarrow> op_record res \<times> journal" where
  "journal_reopen_unknown oid j =
     (case j_records j oid of
        None \<Rightarrow> (Inl (KeyError oid), j)
      | Some record \<Rightarrow>
          if r_status record \<noteq> UNKNOWN
          then (Inl (OperationIdentityError ''only UNKNOWN operation may be reconciled''), j)
          else (let record' = record\<lparr>r_status := RUNNING, r_result := None\<rparr>
                in (Inr record', j\<lparr>j_records := (j_records j)(oid \<mapsto> record')\<rparr>)))"

definition journal_finish ::
    "string \<Rightarrow> op_status \<Rightarrow> string option \<Rightarrow> journal \<Rightarrow> op_record res \<times> journal" where
  "journal_finish oid status result j =
     (if \<not> is_terminal status
      then (Inl (ValueError ''finish requires SUCCEEDED, FAILED, or UNKNOWN''), j)
      else
        (case j_records j oid of
           None \<Rightarrow> (Inl (KeyError oid), j)
         | Some record \<Rightarrow>
             if is_terminal (r_status record)
             then (if r_status record \<noteq> status \<or> r_result record \<noteq> result
                   then (Inl (OperationIdentityError ''conflicting terminal replay''), j)
                   else (Inr record, j))
             else
               (let record' = record\<lparr>r_status := status, r_result := result\<rparr>;
                    j' = j\<lparr>j_records := (j_records j)(oid \<mapsto> record')\<rparr> in
                case j_commands j oid of
                  None \<Rightarrow> (Inl (KeyError oid), j')
                | Some c \<Rightarrow>
                    (let task = task_session (c_target c) in
                     if is_resolved status \<and> j_active_by_task j task = Some oid
                     then (Inr record', j'\<lparr>j_active_by_task := (j_active_by_task j)(task := None)\<rparr>)
                     else (Inr record', j')))))"

section \<open>The journal as a machine\<close>

datatype journal_event =
    JBegin op_command
  | JRunning string "string option"
  | JReopen string
  | JFinish string op_status "string option"

fun journal_step :: "journal_event \<Rightarrow> journal \<Rightarrow> journal" where
  "journal_step (JBegin c) j = snd (journal_begin c j)"
| "journal_step (JRunning oid r) j = snd (journal_mark_running oid r j)"
| "journal_step (JReopen oid) j = snd (journal_reopen_unknown oid j)"
| "journal_step (JFinish oid st r) j = snd (journal_finish oid st r j)"

text \<open>
  Well-formedness: the two dictionaries have the same keys, entries carry their own key,
  the active entry of a task is a recorded operation of that task, and every operation
  that is not resolved is the active one of its task.
\<close>

definition journal_inv :: "journal \<Rightarrow> bool" where
  "journal_inv j \<longleftrightarrow>
     dom (j_records j) = dom (j_commands j)
     \<and> (\<forall>oid c. j_commands j oid = Some c \<longrightarrow> c_operation_id c = oid)
     \<and> (\<forall>oid r. j_records j oid = Some r \<longrightarrow> r_operation_id r = oid)
     \<and> (\<forall>task oid. j_active_by_task j task = Some oid \<longrightarrow>
          (\<exists>c. j_commands j oid = Some c \<and> task_session (c_target c) = task))
     \<and> (\<forall>oid r c. j_records j oid = Some r \<longrightarrow> j_commands j oid = Some c \<longrightarrow>
          \<not> is_resolved (r_status r) \<longrightarrow>
          j_active_by_task j (task_session (c_target c)) = Some oid)"

lemma journal_inv_new: "journal_inv new_journal"
  by (simp add: journal_inv_def new_journal_def)

lemma journal_inv_command:
  "journal_inv j \<Longrightarrow> j_records j oid = Some r \<Longrightarrow> \<exists>c. j_commands j oid = Some c"
  by (metis domD domI journal_inv_def)

lemma journal_inv_active:
  "journal_inv j \<Longrightarrow> j_records j oid = Some r \<Longrightarrow> j_commands j oid = Some c \<Longrightarrow>
   \<not> is_resolved (r_status r) \<Longrightarrow> j_active_by_task j (task_session (c_target c)) = Some oid"
  unfolding journal_inv_def by blast

text \<open>Replacing the record of an unresolved operation by another of the same id.\<close>

lemma journal_inv_set_record:
  assumes "journal_inv j" and "j_records j oid = Some r" and "r_operation_id r' = oid"
    and "\<not> is_resolved (r_status r') \<Longrightarrow> \<not> is_resolved (r_status r)"
  shows "journal_inv (j\<lparr>j_records := (j_records j)(oid \<mapsto> r')\<rparr>)"
  using assms unfolding journal_inv_def
  by (auto simp: dom_def)

text \<open>Releasing the active slot of an operation whose record is resolved.\<close>

lemma journal_inv_clear_active:
  assumes inv: "journal_inv j"
    and act: "\<And>oid. j_active_by_task j task = Some oid \<Longrightarrow>
      \<exists>r. j_records j oid = Some r \<and> is_resolved (r_status r)"
  shows "journal_inv (j\<lparr>j_active_by_task := (j_active_by_task j)(task := None)\<rparr>)"
proof -
  have "j_active_by_task j (task_session (c_target c)) = Some oid \<and> task_session (c_target c) \<noteq> task"
    if "j_records j oid = Some r" "j_commands j oid = Some c" "\<not> is_resolved (r_status r)" for oid r c
  proof -
    have a: "j_active_by_task j (task_session (c_target c)) = Some oid"
      by (rule journal_inv_active [OF inv that])
    with act [of oid] that show ?thesis by auto
  qed
  with inv show ?thesis unfolding journal_inv_def by auto
qed

text \<open>Admitting a new operation of a task whose active slot is free.\<close>

lemma journal_inv_insert:
  assumes inv: "journal_inv j" and new: "j_records j (c_operation_id c) = None"
    and act: "j_active_by_task j (task_session (c_target c)) = None"
    and r: "r_operation_id r = c_operation_id c"
  shows "journal_inv (j\<lparr>j_commands := (j_commands j)(c_operation_id c \<mapsto> c),
           j_records := (j_records j)(c_operation_id c \<mapsto> r),
           j_active_by_task := (j_active_by_task j)(task_session (c_target c) \<mapsto> c_operation_id c)\<rparr>)"
proof -
  have newc: "j_commands j (c_operation_id c) = None"
    using inv new by (metis domIff journal_inv_def)
  have dom: "dom (j_records j) = dom (j_commands j)" using inv by (simp add: journal_inv_def)
  have other: "task_session (c_target c') \<noteq> task_session (c_target c)"
    if "j_records j oid = Some r'" "j_commands j oid = Some c'" "\<not> is_resolved (r_status r')" for oid r' c'
    using journal_inv_active [OF inv that] act by auto
  have act_other: "oid \<noteq> c_operation_id c" if "j_active_by_task j t = Some oid" for t oid
    using inv that newc unfolding journal_inv_def by fastforce
  show ?thesis
    using inv other act_other newc r unfolding journal_inv_def by (auto simp: dom)
qed

lemma journal_begin_inv:
  assumes "journal_inv j"
  shows "journal_inv (snd (journal_begin c j))"
proof (cases "j_records j (c_operation_id c)")
  case Some
  then show ?thesis
    using assms by (auto simp: journal_begin_def Let_def split: option.splits)
next
  case None
  let ?task = "task_session (c_target c)"
  let ?j = "j\<lparr>j_active_by_task := (j_active_by_task j)(?task := None)\<rparr>"
  show ?thesis
  proof (cases "\<forall>oid. j_active_by_task j ?task = Some oid \<longrightarrow>
      (\<exists>r. j_records j oid = Some r \<and> is_resolved (r_status r))")
    case True
    then have inv': "journal_inv ?j" by (intro journal_inv_clear_active assms) auto
    from journal_inv_insert [OF inv', of c] None inv' True show ?thesis
      by (auto simp: journal_begin_def mk_record_def Let_def split: option.splits)
  next
    case False
    with None assms show ?thesis
      by (auto simp: journal_begin_def Let_def split: option.splits)
  qed
qed

lemma journal_inv_rid: "journal_inv j \<Longrightarrow> j_records j oid = Some r \<Longrightarrow> r_operation_id r = oid"
  by (simp add: journal_inv_def)

lemma journal_mark_running_inv:
  "journal_inv j \<Longrightarrow> journal_inv (snd (journal_mark_running oid res j))"
  by (auto simp: journal_mark_running_def Let_def journal_inv_rid
      intro!: journal_inv_set_record split: option.splits dest: resolved_terminal)

lemma journal_reopen_inv:
  "journal_inv j \<Longrightarrow> journal_inv (snd (journal_reopen_unknown oid j))"
  by (auto simp: journal_reopen_unknown_def Let_def journal_inv_rid
      intro!: journal_inv_set_record split: option.splits)

lemma journal_finish_inv:
  assumes inv: "journal_inv j"
  shows "journal_inv (snd (journal_finish oid st res j))"
proof (cases "j_records j oid")
  case None
  with inv show ?thesis by (simp add: journal_finish_def)
next
  case (Some r)
  define r' where "r' = r\<lparr>r_status := st, r_result := res\<rparr>"
  define j' where "j' = j\<lparr>j_records := (j_records j)(oid \<mapsto> r')\<rparr>"
  show ?thesis
  proof (cases "is_terminal st \<and> \<not> is_terminal (r_status r)")
    case True
    then have "\<not> is_resolved (r_status r)" by auto
    with inv Some have inv': "journal_inv j'"
      unfolding j'_def by (intro journal_inv_set_record) (auto simp: r'_def journal_inv_rid)
    obtain c where c: "j_commands j oid = Some c" using journal_inv_command [OF inv Some] by auto
    show ?thesis
    proof (cases "is_resolved st \<and> j_active_by_task j (task_session (c_target c)) = Some oid")
      case clear: True
      have "journal_inv (j'\<lparr>j_active_by_task :=
              (j_active_by_task j')(task_session (c_target c) := None)\<rparr>)"
        by (rule journal_inv_clear_active [OF inv']) (use clear in \<open>auto simp: j'_def r'_def\<close>)
      with True Some c clear show ?thesis
        by (simp add: journal_finish_def Let_def j'_def r'_def)
    next
      case False
      with True Some c inv' show ?thesis
        by (auto simp: journal_finish_def Let_def j'_def r'_def)
    qed
  next
    case False
    with Some inv show ?thesis by (auto simp: journal_finish_def)
  qed
qed

lemma journal_step_inv: "journal_inv j \<Longrightarrow> journal_inv (journal_step e j)"
  by (cases e) (simp_all add: journal_begin_inv journal_mark_running_inv journal_reopen_inv
      journal_finish_inv)

interpretation journal: invariant_machine journal_inv journal_step
  by unfold_locales (rule journal_step_inv)

text \<open>Journals reached from the empty one by any sequence of operations.\<close>

lemma journal_run_inv: "journal_inv (fold journal_step es new_journal)"
  by (rule journal.run_inv [OF journal_inv_new])

section \<open>Write-once facts\<close>

lemma journal_step_command:
  "journal_inv j \<Longrightarrow> j_commands j oid = Some c \<Longrightarrow> j_commands (journal_step e j) oid = Some c"
proof (cases e)
  case (JBegin c')
  assume "journal_inv j" "j_commands j oid = Some c"
  then have "j_records j oid \<noteq> None" by (auto simp: journal_inv_def dom_def set_eq_iff)
  with JBegin \<open>j_commands j oid = Some c\<close> show ?thesis
    by (auto simp: journal_begin_def Let_def split: option.splits sum.splits)
next
  case (JFinish o' st r)
  assume "journal_inv j" "j_commands j oid = Some c"
  with JFinish show ?thesis
    by (auto simp: journal_finish_def Let_def split: option.splits)
qed (auto simp: journal_mark_running_def journal_reopen_unknown_def Let_def split: option.splits)

interpretation journal_commands: write_once journal_inv journal_step "\<lambda>j. j_commands j"
  by unfold_locales (rule journal_step_command)

text \<open>A resolved record, SUCCEEDED or FAILED, is final.\<close>

definition resolved_record :: "journal \<Rightarrow> string \<Rightarrow> op_record option" where
  "resolved_record j oid =
     (case j_records j oid of
        Some r \<Rightarrow> if is_resolved (r_status r) then Some r else None | None \<Rightarrow> None)"

lemma resolved_record_Some:
  "resolved_record j oid = Some r \<longleftrightarrow> j_records j oid = Some r \<and> is_resolved (r_status r)"
  by (auto simp: resolved_record_def split: option.splits)

lemma journal_step_resolved:
  assumes "resolved_record j oid = Some r"
  shows "resolved_record (journal_step e j) oid = Some r"
proof -
  have r: "j_records j oid = Some r" "is_resolved (r_status r)" "is_terminal (r_status r)"
    "r_status r \<noteq> UNKNOWN"
    using assms by (auto simp: resolved_record_Some)
  then show ?thesis
    by (cases e) (auto simp: resolved_record_Some journal_begin_def journal_mark_running_def
        journal_reopen_unknown_def journal_finish_def Let_def split: option.splits sum.splits)
qed

interpretation journal_results: write_once journal_inv journal_step resolved_record
  by unfold_locales (rule journal_step_resolved)

section \<open>Status life cycle\<close>

text \<open>The abstract life cycle of one operation's status.\<close>

inductive status_step :: "op_status \<Rightarrow> op_status \<Rightarrow> bool" where
  run: "\<not> is_terminal s \<Longrightarrow> status_step s RUNNING"
| finish: "\<not> is_terminal s \<Longrightarrow> is_terminal t \<Longrightarrow> status_step s t"
| reopen: "status_step UNKNOWN RUNNING"

inductive_cases status_stepE: "status_step s t"
inductive_simps status_step_resolved: "status_step SUCCEEDED t"

code_pred status_step .

lemma journal_step_status:
  assumes "journal_inv j" and "j_records j oid = Some r" and "j_records (journal_step e j) oid = Some r'"
  shows "r_status r' = r_status r \<or> status_step (r_status r) (r_status r')"
  using assms
  by (cases e) (auto simp: journal_begin_def journal_mark_running_def journal_reopen_unknown_def
      journal_finish_def Let_def status_step.simps split: option.splits sum.splits if_splits)

section \<open>Properties\<close>

text \<open>C3: in every reachable journal, a task session has at most one lifecycle operation that
  is neither SUCCEEDED nor FAILED; an UNKNOWN operation keeps fencing its task.\<close>

theorem journal_one_unresolved:
  assumes "j_records (fold journal_step es new_journal) a = Some ra"
    and "j_records (fold journal_step es new_journal) b = Some rb"
    and "j_commands (fold journal_step es new_journal) a = Some ca"
    and "j_commands (fold journal_step es new_journal) b = Some cb"
    and "task_session (c_target ca) = task_session (c_target cb)"
    and "\<not> is_resolved (r_status ra)" and "\<not> is_resolved (r_status rb)"
  shows "a = b"
  using journal_inv_active [OF journal_run_inv assms(1,3,6)]
    journal_inv_active [OF journal_run_inv assms(2,4,7)] assms(5) by simp

definition demo_command :: "string \<Rightarrow> op_command" where
  "demo_command oid = \<lparr>c_operation_id = oid, c_kind = DONATE,
     c_target = ReplicaKey ''t'' ''native-0'' 0, c_lease_id = ''L'', c_force = None\<rparr>"

lemmas journal_eval = journal_begin_def journal_mark_running_def journal_reopen_unknown_def
  journal_finish_def new_journal_def mk_record_def demo_command_def Let_def

theorem journal_one_unresolved_witness:
  "\<exists>ra ca. j_records (fold journal_step [JBegin (demo_command ''a''), JFinish ''a'' UNKNOWN None]
        new_journal) ''a'' = Some ra \<and> \<not> is_resolved (r_status ra) \<and> ''a'' = (''a''::string)"
proof -
  let ?j = "fold journal_step [JBegin (demo_command ''a''), JFinish ''a'' UNKNOWN None] new_journal"
  let ?r = "\<lparr>r_operation_id = ''a'', r_status = UNKNOWN, r_result = None\<rparr>"
  have r: "j_records ?j ''a'' = Some ?r" and c: "j_commands ?j ''a'' = Some (demo_command ''a'')"
    by (simp_all add: journal_eval)
  from journal_one_unresolved [OF r r c c] r show ?thesis by auto
qed

text \<open>a replay of an accepted command is answered from the journal at any later point: the
  same command gets its current record and changes nothing, any other command under the same
  operation id is refused and changes nothing.\<close>

theorem journal_replay_idempotent:
  assumes "fst (journal_begin c (fold journal_step es new_journal)) = Inr r"
    and "c_operation_id c' = c_operation_id c"
    and "j = fold journal_step fs (snd (journal_begin c (fold journal_step es new_journal)))"
  shows "journal_begin c' j =
    (if c' = c then (Inr (the (journal_query (c_operation_id c) j)), j)
     else (Inl (OperationIdentityError ''conflicting replay''), j))"
proof -
  let ?js = "fold journal_step es new_journal" and ?jb = "snd (journal_begin c (fold journal_step es new_journal))"
  have inv1: "journal_inv ?jb" by (intro journal_begin_inv journal_run_inv)
  have com1: "j_commands ?jb (c_operation_id c) = Some c"
    using assms(1)
    by (auto simp: journal_begin_def Let_def split: option.splits if_splits sum.splits)
  have com: "j_commands j (c_operation_id c) = Some c"
    unfolding assms(3) by (rule journal_commands.run_keeps [OF inv1 com1])
  have "journal_inv j" unfolding assms(3) by (rule journal.run_inv [OF inv1])
  with com obtain rec where "j_records j (c_operation_id c) = Some rec"
    by (metis domD domI journal_inv_def)
  with com assms(2) show ?thesis by (auto simp: journal_begin_def journal_query_def)
qed

theorem journal_replay_idempotent_witness:
  "\<exists>j. journal_begin (demo_command ''a'') j =
      (Inr \<lparr>r_operation_id = ''a'', r_status = UNKNOWN, r_result = None\<rparr>, j)"
proof -
  let ?c = "demo_command ''a''"
  let ?js = "fold journal_step [] new_journal"
  let ?j = "fold journal_step [JFinish ''a'' UNKNOWN None] (snd (journal_begin ?c ?js))"
  have acc: "fst (journal_begin ?c ?js) =
      Inr \<lparr>r_operation_id = ''a'', r_status = ACCEPTED, r_result = None\<rparr>"
    by (simp add: journal_eval)
  have q: "journal_query (c_operation_id ?c) ?j =
      Some \<lparr>r_operation_id = ''a'', r_status = UNKNOWN, r_result = None\<rparr>"
    by (simp add: journal_query_def journal_eval)
  from journal_replay_idempotent [OF acc refl refl, of "[JFinish ''a'' UNKNOWN None]"] q
  have "journal_begin ?c ?j =
      (Inr \<lparr>r_operation_id = ''a'', r_status = UNKNOWN, r_result = None\<rparr>, ?j)" by simp
  then show ?thesis by blast
qed

text \<open>a SUCCEEDED or FAILED record never changes again, whatever operations follow.\<close>

theorem journal_result_final:
  assumes "j = fold journal_step es new_journal"
    and "j_records j oid = Some r" and "is_resolved (r_status r)"
  shows "j_records (fold journal_step fs j) oid = Some r"
proof -
  have "resolved_record j oid = Some r" using assms(2,3) by (simp add: resolved_record_Some)
  from journal_results.run_keeps [OF _ this] show ?thesis
    using assms(1) journal_run_inv by (simp add: resolved_record_Some)
qed

theorem journal_result_final_witness:
  "j_records (fold journal_step [JReopen ''a'', JFinish ''a'' FAILED None]
      (fold journal_step [JBegin (demo_command ''a''), JFinish ''a'' SUCCEEDED None] new_journal)) ''a''
    = Some \<lparr>r_operation_id = ''a'', r_status = SUCCEEDED, r_result = None\<rparr>"
  by (rule journal_result_final [OF refl]) (simp_all add: journal_eval)

text \<open>the journal admits a new operation of a task exactly when every earlier operation of
  that task is resolved: nothing else can lock a task out, and UNKNOWN always does.\<close>

theorem journal_admission:
  assumes "j = fold journal_step es new_journal"
    and "journal_query (c_operation_id c) j = None" and "c_operation_id c \<noteq> []"
  shows "(\<exists>r. fst (journal_begin c j) = Inr r) \<longleftrightarrow>
    (\<forall>oid r c'. j_records j oid = Some r \<longrightarrow> j_commands j oid = Some c' \<longrightarrow>
       task_session (c_target c') = task_session (c_target c) \<longrightarrow> is_resolved (r_status r))"
proof -
  have inv: "journal_inv j" using assms(1) journal_run_inv by simp
  have new: "j_records j (c_operation_id c) = None" using assms(2) by (simp add: journal_query_def)
  show ?thesis
  proof (cases "j_active_by_task j (task_session (c_target c))")
    case None
    then have "is_resolved (r_status r)"
      if "j_records j oid = Some r" "j_commands j oid = Some c'"
        "task_session (c_target c') = task_session (c_target c)" for oid r c'
      using journal_inv_active [OF inv that(1,2)] that(3) by auto
    moreover from None new assms(3) have "\<exists>r. fst (journal_begin c j) = Inr r"
      by (simp add: journal_begin_def mk_record_def Let_def)
    ultimately show ?thesis by blast
  next
    case (Some a)
    then obtain ca where ca: "j_commands j a = Some ca"
        "task_session (c_target ca) = task_session (c_target c)"
      using inv unfolding journal_inv_def by blast
    then obtain ra where ra: "j_records j a = Some ra"
      using inv by (metis domD domI journal_inv_def)
    have eq: "(\<exists>r. fst (journal_begin c j) = Inr r) \<longleftrightarrow> is_resolved (r_status ra)"
      using Some new ra assms(3) by (simp add: journal_begin_def mk_record_def Let_def)
    have "is_resolved (r_status r)"
      if "is_resolved (r_status ra)" "j_records j oid = Some r" "j_commands j oid = Some c'"
        "task_session (c_target c') = task_session (c_target c)" for oid r c'
    proof (rule ccontr)
      assume "\<not> is_resolved (r_status r)"
      from journal_inv_active [OF inv that(2,3) this] that Some ra show False
        using \<open>\<not> is_resolved (r_status r)\<close> by auto
    qed
    with ca ra show ?thesis unfolding eq by blast
  qed
qed

theorem journal_admission_witness:
  "\<not> (\<exists>r. fst (journal_begin (demo_command ''b'')
       (fold journal_step [JBegin (demo_command ''a''), JFinish ''a'' UNKNOWN None] new_journal)) = Inr r)"
proof -
  let ?j = "fold journal_step [JBegin (demo_command ''a''), JFinish ''a'' UNKNOWN None] new_journal"
  have q: "journal_query (c_operation_id (demo_command ''b'')) ?j = None"
    and n: "c_operation_id (demo_command ''b'') \<noteq> []"
    and r: "j_records ?j ''a'' = Some \<lparr>r_operation_id = ''a'', r_status = UNKNOWN, r_result = None\<rparr>"
    and c: "j_commands ?j ''a'' = Some (demo_command ''a'')"
    by (simp_all add: journal_query_def journal_eval)
  have t: "task_session (c_target (demo_command ''a'')) = task_session (c_target (demo_command ''b''))"
    by (simp add: demo_command_def)
  show ?thesis using journal_admission [OF refl q n] r c t by fastforce
qed

text \<open>the recorded status of an operation moves only along the life cycle
  ACCEPTED/RUNNING to RUNNING or a terminal status, and UNKNOWN back to RUNNING.\<close>

theorem journal_status_refines:
  assumes "j = fold journal_step es new_journal"
    and "j_records j oid = Some r" and "j_records (journal_step e j) oid = Some r'"
  shows "r_status r' = r_status r \<or> status_step (r_status r) (r_status r')"
  using journal_step_status assms journal_run_inv by blast

theorem journal_status_refines_witness: "status_step UNKNOWN RUNNING"
proof -
  let ?j = "fold journal_step [JBegin (demo_command ''a''), JFinish ''a'' UNKNOWN None] new_journal"
  have r: "j_records ?j ''a'' = Some \<lparr>r_operation_id = ''a'', r_status = UNKNOWN, r_result = None\<rparr>"
    and r': "j_records (journal_step (JReopen ''a'') ?j) ''a'' =
      Some \<lparr>r_operation_id = ''a'', r_status = RUNNING, r_result = None\<rparr>"
    by (simp_all add: journal_eval)
  from journal_status_refines [OF refl r r'] show ?thesis by simp
qed

end
