(* ===== verification/Sync_Gate.thy ===== *)
theory Sync_Gate
  imports Interfaces Contracts
begin

text \<open>
  Model of \<open>orchestration/replica_sync_gate.py\<close>: the gate G a trainer uses to serialize
  membership changes with native weight synchronization.

  The \<open>asyncio.Lock\<close> inside the gate is its flag \<open>g_locked\<close> and, in a
  configuration \<open>gate_cfg\<close>, the queue of coroutines suspended on it, served first in,
  first out. Each function below is one stretch of code between two suspension points; the
  relation \<open>gate_step\<close> interleaves these stretches for any number of coroutines.
\<close>

section \<open>State and operations\<close>

datatype gate_kind = GADD | GREMOVE | GRESTORE | NATIVE_SYNC | RECOVERY

record gate_owner =
  o_operation_id :: string
  o_kind :: gate_kind
  o_epoch :: nat
  o_acquired_at :: rat

record gate =
  g_locked :: bool
  g_owner :: "gate_owner option"
  g_epoch :: nat
  g_blocked_reason :: "string option"
  g_blocked_op :: "string option"

definition new_gate :: gate where
  "new_gate = \<lparr>g_locked = False, g_owner = None, g_epoch = 0,
               g_blocked_reason = None, g_blocked_op = None\<rparr>"

definition gate_healthy :: "gate \<Rightarrow> bool" where
  "gate_healthy g \<longleftrightarrow> g_blocked_reason g = None"

definition gate_is_active :: "gate_owner \<Rightarrow> gate \<Rightarrow> bool" where
  "gate_is_active ow g \<longleftrightarrow> g_owner g = Some ow \<and> g_locked g"

definition gate_block :: "gate_owner \<Rightarrow> string \<Rightarrow> gate \<Rightarrow> unit res \<times> gate" where
  "gate_block ow reason g =
     (if \<not> gate_is_active ow g
      then (Inl (GateFencedError ''Only the current gate owner may block synchronization''), g)
      else if reason = [] then (Inl (ValueError ''A blocked gate requires a reason''), g)
      else (Inr (), g\<lparr>g_blocked_reason := Some reason,
                     g_blocked_op := Some (o_operation_id ow)\<rparr>))"

text \<open>\<open>acquire\<close> up to the wait for the lock.\<close>

definition gate_acquire_entry :: "string \<Rightarrow> gate \<Rightarrow> exn option" where
  "gate_acquire_entry oid g = first_failure
     [(oid = [], ValueError ''operation_id''),
      (g_blocked_reason g \<noteq> None, GateFencedError ''Replica synchronization is BLOCKED''),
      (map_option o_operation_id (g_owner g) = Some oid,
       GateReentryError ''operation already owns the replica sync gate'')]"

text \<open>\<open>acquire\<close> after the lock was granted to this coroutine.\<close>

definition gate_acquire_granted ::
    "rat \<Rightarrow> string \<Rightarrow> gate_kind \<Rightarrow> gate \<Rightarrow> gate_owner res \<times> gate" where
  "gate_acquire_granted now oid kind g =
     (let g = g\<lparr>g_locked := True\<rparr> in
      if g_blocked_reason g \<noteq> None
      then (Inl (GateFencedError ''Replica synchronization is BLOCKED''), g\<lparr>g_locked := False\<rparr>)
      else (let ow = \<lparr>o_operation_id = oid, o_kind = kind, o_epoch = Suc (g_epoch g),
                      o_acquired_at = now\<rparr>
            in (Inr ow, g\<lparr>g_epoch := Suc (g_epoch g), g_owner := Some ow\<rparr>)))"

definition gate_release :: "gate_owner \<Rightarrow> gate \<Rightarrow> bool \<times> gate" where
  "gate_release ow g =
     (if \<not> gate_is_active ow g then (False, g)
      else (True, g\<lparr>g_owner := None, g_locked := False\<rparr>))"

text \<open>
  \<open>reconcile\<close> up to the wait for the lock: an error, an early \<open>return False\<close>, or
  (\<open>None\<close>) the wait itself.
\<close>

definition gate_reconcile_entry :: "string \<Rightarrow> gate \<Rightarrow> bool res option" where
  "gate_reconcile_entry oid g =
     (if oid = [] then Some (Inl (ValueError ''operation_id''))
      else if g_blocked_reason g = None then Some (Inr False)
      else if g_blocked_op g \<noteq> Some oid
           then Some (Inl (GateFencedError ''Only the operation that blocked may reconcile it''))
      else None)"

text \<open>
  \<open>reconcile\<close> with the lock granted: the two re-checks release the lock again; otherwise
  the recovery owner is installed and the callback starts.
\<close>

definition gate_reconcile_granted ::
    "rat \<Rightarrow> string \<Rightarrow> gate \<Rightarrow> bool res option \<times> gate" where
  "gate_reconcile_granted now oid g =
     (let g = g\<lparr>g_locked := True\<rparr> in
      if g_blocked_reason g = None then (Some (Inr False), g\<lparr>g_locked := False\<rparr>)
      else if g_blocked_op g \<noteq> Some oid
           then (Some (Inl (GateFencedError ''Blocked synchronization belongs to another operation'')),
                 g\<lparr>g_locked := False\<rparr>)
      else (None,
            g\<lparr>g_epoch := Suc (g_epoch g),
              g_owner := Some \<lparr>o_operation_id = oid, o_kind = RECOVERY,
                               o_epoch = Suc (g_epoch g), o_acquired_at = now\<rparr>\<rparr>))"

text \<open>The callback returned normally (\<open>Inr\<close>) or raised: the latch clears only if it returned.\<close>

definition gate_reconcile_end :: "unit res \<Rightarrow> gate \<Rightarrow> bool res \<times> gate" where
  "gate_reconcile_end outcome g =
     (case outcome of
        Inr _ \<Rightarrow> (Inr True, g\<lparr>g_blocked_reason := None, g_blocked_op := None,
                            g_owner := None, g_locked := False\<rparr>)
      | Inl e \<Rightarrow> (Inl e, g\<lparr>g_owner := None, g_locked := False\<rparr>))"

text \<open>
  \<open>GateLease.guard\<close>: the gate is checked before the call and again after it; between
  the two, the call and every coroutine it let run may have changed the gate, so the gate at
  the second check is an argument.
\<close>

definition gate_guard :: "gate_owner \<Rightarrow> gate \<Rightarrow> 'a res \<Rightarrow> gate \<Rightarrow> 'a res" where
  "gate_guard ow before outcome after =
     (if \<not> gate_is_active ow before
      then Inl (GateFencedError ''gate lease is no longer active'')
      else (case outcome of
              Inl e \<Rightarrow> Inl e
            | Inr x \<Rightarrow>
                if \<not> gate_is_active ow after \<or> \<not> gate_healthy after
                then Inl (GateFencedError ''Gate ownership or health changed'')
                else Inr x))"

text \<open>\<open>GateLease.__aenter__\<close>; a lease that was just granted can be entered.\<close>

definition gate_enter :: "gate_owner \<Rightarrow> gate \<Rightarrow> unit res" where
  "gate_enter ow g =
     (if gate_is_active ow g then Inr () else Inl (GateFencedError ''cannot enter an inactive gate lease''))"

lemma granted_enters: "gate_acquire_granted now oid kind g = (Inr ow, g') \<Longrightarrow> gate_enter ow g' = Inr ()"
  by (auto simp: gate_acquire_granted_def gate_enter_def gate_is_active_def Let_def split: if_splits)

section \<open>Interleaving of coroutines\<close>

datatype waiter = WAcquire string gate_kind | WReconcile string

record gate_cfg =
  cfg_gate :: gate
  cfg_queue :: "waiter list"

definition new_cfg :: gate_cfg where
  "new_cfg = \<lparr>cfg_gate = new_gate, cfg_queue = []\<rparr>"

datatype gate_event =
    EWait waiter
  | EGrant rat
  | EDrop nat
  | EBlock gate_owner string
  | ERelease gate_owner
  | EReconciled gate_owner "unit res"

inductive gate_step :: "gate_event \<Rightarrow> gate_cfg \<Rightarrow> gate_cfg \<Rightarrow> bool" where
  wait_acquire:
    "gate_acquire_entry oid (cfg_gate c) = None \<Longrightarrow> k \<noteq> RECOVERY \<Longrightarrow>
     gate_step (EWait (WAcquire oid k)) c (c\<lparr>cfg_queue := cfg_queue c @ [WAcquire oid k]\<rparr>)"
| wait_reconcile:
    "gate_reconcile_entry oid (cfg_gate c) = None \<Longrightarrow>
     gate_step (EWait (WReconcile oid)) c (c\<lparr>cfg_queue := cfg_queue c @ [WReconcile oid]\<rparr>)"
| grant_acquire:
    "\<not> g_locked (cfg_gate c) \<Longrightarrow> cfg_queue c = WAcquire oid k # ws \<Longrightarrow>
     gate_step (EGrant now) c
       (c\<lparr>cfg_gate := snd (gate_acquire_granted now oid k (cfg_gate c)), cfg_queue := ws\<rparr>)"
| grant_reconcile:
    "\<not> g_locked (cfg_gate c) \<Longrightarrow> cfg_queue c = WReconcile oid # ws \<Longrightarrow>
     gate_step (EGrant now) c
       (c\<lparr>cfg_gate := snd (gate_reconcile_granted now oid (cfg_gate c)), cfg_queue := ws\<rparr>)"
| drop_waiter:
    "n < length (cfg_queue c) \<Longrightarrow>
     gate_step (EDrop n) c (c\<lparr>cfg_queue := take n (cfg_queue c) @ drop (Suc n) (cfg_queue c)\<rparr>)"
| block:
    "gate_step (EBlock ow reason) c (c\<lparr>cfg_gate := snd (gate_block ow reason (cfg_gate c))\<rparr>)"
| release:
    "o_kind ow \<noteq> RECOVERY \<Longrightarrow>
     gate_step (ERelease ow) c (c\<lparr>cfg_gate := snd (gate_release ow (cfg_gate c))\<rparr>)"
| reconciled:
    "gate_is_active ow (cfg_gate c) \<Longrightarrow> o_kind ow = RECOVERY \<Longrightarrow>
     gate_step (EReconciled ow res) c (c\<lparr>cfg_gate := snd (gate_reconcile_end res (cfg_gate c))\<rparr>)"

inductive_cases gate_stepE: "gate_step e c c'"

inductive gate_steps :: "gate_cfg \<Rightarrow> gate_cfg \<Rightarrow> bool" where
  none: "gate_steps c c"
| more: "gate_steps c c' \<Longrightarrow> gate_step e c' c'' \<Longrightarrow> gate_steps c c''"

text \<open>
  Lock and metadata agree, the owner carries the newest epoch, the latch fields agree, and
  while the gate is BLOCKED its owner (the blocker before it releases, or a recovery) is the
  operation that latched it.
\<close>

definition gate_inv :: "gate \<Rightarrow> bool" where
  "gate_inv g \<longleftrightarrow>
     (g_blocked_reason g = None \<longleftrightarrow> g_blocked_op g = None)
     \<and> (case g_owner g of
           None \<Rightarrow> \<not> g_locked g
         | Some ow \<Rightarrow>
             g_locked g \<and> o_epoch ow = g_epoch g
             \<and> g_blocked_op g \<in> {None, Some (o_operation_id ow)}
             \<and> (o_kind ow = RECOVERY \<longrightarrow> g_blocked_op g = Some (o_operation_id ow)))"

lemma gate_inv_owner:
  assumes "gate_inv g" and "g_owner g = Some ow"
  shows "g_locked g" and "o_epoch ow = g_epoch g"
    and "g_blocked_op g = Some a \<Longrightarrow> o_operation_id ow = a"
    and "o_kind ow = RECOVERY \<Longrightarrow> g_blocked_op g = Some (o_operation_id ow)"
  using assms by (simp_all add: gate_inv_def)

lemma gate_inv_unlocked: "gate_inv g \<Longrightarrow> \<not> g_locked g \<Longrightarrow> g_owner g = None"
  by (simp add: gate_inv_def split: option.splits)

lemma gate_inv_blocked: "gate_inv g \<Longrightarrow> g_blocked_op g = Some a \<Longrightarrow> g_blocked_reason g \<noteq> None"
  by (simp add: gate_inv_def)

text \<open>No caller of \<open>acquire\<close> passes the kind RECOVERY, which \<open>reconcile\<close> installs itself.\<close>

definition queue_ok :: "waiter list \<Rightarrow> bool" where
  "queue_ok ws \<longleftrightarrow> (\<forall>oid k. WAcquire oid k \<in> set ws \<longrightarrow> k \<noteq> RECOVERY)"

definition cfg_inv :: "gate_cfg \<Rightarrow> bool" where
  "cfg_inv c \<longleftrightarrow> gate_inv (cfg_gate c) \<and> queue_ok (cfg_queue c)"

lemma cfg_inv_new: "cfg_inv new_cfg"
  by (simp add: cfg_inv_def gate_inv_def queue_ok_def new_cfg_def new_gate_def)

lemma gate_inv_block: "gate_inv g \<Longrightarrow> gate_inv (snd (gate_block ow reason g))"
  by (cases "gate_is_active ow g"; cases "reason = []")
    (simp_all add: gate_inv_def gate_block_def gate_is_active_def)

lemma gate_inv_release: "gate_inv g \<Longrightarrow> gate_inv (snd (gate_release ow g))"
  by (cases "gate_is_active ow g") (simp_all add: gate_inv_def gate_release_def)

lemma gate_inv_acquire:
  assumes "gate_inv g" "\<not> g_locked g" "k \<noteq> RECOVERY"
  shows "gate_inv (snd (gate_acquire_granted now oid k g))"
  using assms gate_inv_unlocked [OF assms(1,2)]
  by (simp add: gate_inv_def gate_acquire_granted_def Let_def)

lemma gate_inv_reconcile:
  assumes "gate_inv g" "\<not> g_locked g"
  shows "gate_inv (snd (gate_reconcile_granted now oid g))"
  using assms gate_inv_unlocked [OF assms]
  by (simp add: gate_inv_def gate_reconcile_granted_def Let_def)

lemma gate_inv_end: "gate_inv g \<Longrightarrow> gate_inv (snd (gate_reconcile_end res g))"
  by (cases res) (simp_all add: gate_inv_def gate_reconcile_end_def)

lemma queue_ok_drop:
  "queue_ok ws \<Longrightarrow> queue_ok (take n ws @ drop (Suc n) ws)"
  by (auto simp: queue_ok_def dest: in_set_takeD in_set_dropD)

lemma gate_step_inv: "gate_step e c c' \<Longrightarrow> cfg_inv c \<Longrightarrow> cfg_inv c'"
proof (induction rule: gate_step.induct)
  case (grant_acquire c oid k ws now)
  then have "k \<noteq> RECOVERY" by (simp add: cfg_inv_def queue_ok_def)
  with grant_acquire show ?case by (simp add: cfg_inv_def gate_inv_acquire queue_ok_def)
next
  case (grant_reconcile c oid ws now)
  then show ?case by (simp add: cfg_inv_def gate_inv_reconcile queue_ok_def)
next
  case (wait_acquire oid c k)
  then show ?case by (auto simp: cfg_inv_def queue_ok_def)
next
  case (wait_reconcile oid c)
  then show ?case by (auto simp: cfg_inv_def queue_ok_def)
qed (simp_all add: cfg_inv_def gate_inv_block gate_inv_release gate_inv_end queue_ok_drop)

lemma gate_steps_inv: "gate_steps c c' \<Longrightarrow> cfg_inv c \<Longrightarrow> cfg_inv c'"
  by (induction rule: gate_steps.induct) (auto intro: gate_step_inv)

section \<open>Epochs and fencing\<close>

text \<open>Each stretch of code leaves the epoch, or mints one owner with the next epoch.\<close>

lemma gate_epochs:
  "g_epoch (snd (gate_block ow reason g)) = g_epoch g"
  "g_epoch (snd (gate_release ow g)) = g_epoch g"
  "g_epoch (snd (gate_reconcile_end res g)) = g_epoch g"
  "g_epoch g \<le> g_epoch (snd (gate_acquire_granted now oid k g))"
  "g_epoch g \<le> g_epoch (snd (gate_reconcile_granted now oid g))"
  by (simp_all add: gate_block_def gate_release_def gate_acquire_granted_def
      gate_reconcile_granted_def gate_reconcile_end_def Let_def split: sum.split)

lemma gate_new_owners:
  "gate_is_active ow (snd (gate_block w reason g)) \<Longrightarrow> gate_is_active ow g"
  "gate_is_active ow (snd (gate_release w g)) \<Longrightarrow> gate_is_active ow g"
  "gate_is_active ow (snd (gate_reconcile_end res g)) \<Longrightarrow> False"
  "gate_is_active ow (snd (gate_acquire_granted now oid k g)) \<Longrightarrow>
     g_blocked_reason g = None \<and> o_epoch ow = Suc (g_epoch g)"
  "gate_is_active ow (snd (gate_reconcile_granted now oid g)) \<Longrightarrow>
     g_blocked_op g = Some oid \<and> o_operation_id ow = oid \<and> o_kind ow = RECOVERY
     \<and> o_epoch ow = Suc (g_epoch g)"
  by (auto simp: gate_is_active_def gate_block_def gate_release_def gate_acquire_granted_def
      gate_reconcile_granted_def gate_reconcile_end_def Let_def split: if_splits sum.splits)

lemma gate_step_epoch:
  "gate_step e c c' \<Longrightarrow> g_epoch (cfg_gate c) \<le> g_epoch (cfg_gate c')"
  by (induction rule: gate_step.induct) (simp_all add: gate_epochs)

text \<open>A step makes an owner active only by minting it with a fresh epoch.\<close>

lemma gate_step_new_owner:
  assumes "gate_step e c c'" and "gate_is_active ow (cfg_gate c')" and "\<not> gate_is_active ow (cfg_gate c)"
  shows "o_epoch ow = Suc (g_epoch (cfg_gate c))"
  using assms
  by (induction rule: gate_step.induct) (auto dest: gate_new_owners)

lemma gate_steps_epoch: "gate_steps c c' \<Longrightarrow> g_epoch (cfg_gate c) \<le> g_epoch (cfg_gate c')"
  by (induction rule: gate_steps.induct) (auto dest: gate_step_epoch)

lemma gate_steps_fenced:
  assumes "gate_steps c c'" and "\<not> gate_is_active ow (cfg_gate c)"
    and "o_epoch ow \<le> g_epoch (cfg_gate c)"
  shows "\<not> gate_is_active ow (cfg_gate c')"
  using assms
proof (induction rule: gate_steps.induct)
  case (more c c' e c'')
  have "o_epoch ow \<le> g_epoch (cfg_gate c')"
    using gate_steps_epoch [OF more.hyps(1)] more.prems by simp
  with gate_step_new_owner [OF more.hyps(2)] more show ?case by fastforce
qed simp

section \<open>The BLOCKED latch\<close>

text \<open>A step from a BLOCKED gate keeps the latch, or is the latching operation's own
  successful recovery.\<close>

lemma gate_latches:
  "g_blocked_op (snd (gate_release ow g)) = g_blocked_op g"
  "g_blocked_op (snd (gate_acquire_granted now oid k g)) = g_blocked_op g"
  "g_blocked_op (snd (gate_reconcile_granted now oid g)) = g_blocked_op g"
  "g_blocked_op (snd (gate_reconcile_end (Inl x) g)) = g_blocked_op g"
  by (simp_all add: gate_release_def gate_acquire_granted_def gate_reconcile_granted_def
      gate_reconcile_end_def Let_def)

lemma gate_block_latch:
  assumes "gate_inv g" and "g_blocked_op g = Some a"
  shows "g_blocked_op (snd (gate_block ow reason g)) = Some a"
  using assms gate_inv_owner(3) [OF assms(1), of ow a]
  by (simp add: gate_block_def gate_is_active_def)

lemma gate_step_latch:
  assumes "gate_step e c c'" and "cfg_inv c" and "g_blocked_op (cfg_gate c) = Some a"
  shows "g_blocked_op (cfg_gate c') = Some a \<or>
    (\<exists>ow. e = EReconciled ow (Inr ()) \<and> o_operation_id ow = a \<and> o_kind ow = RECOVERY)"
  using assms
proof (induction rule: gate_step.induct)
  case (reconciled ow c res)
  then have "o_operation_id ow = a"
    using gate_inv_owner(3) by (auto simp: cfg_inv_def gate_is_active_def)
  with reconciled show ?case by (cases res) (simp_all add: gate_latches)
qed (simp_all add: gate_latches gate_block_latch cfg_inv_def)

text \<open>An operation enters a BLOCKED gate only as the recovery of the latching operation.\<close>

lemma gate_step_blocked_entry:
  assumes "gate_step e c c'" and "cfg_inv c" and "g_blocked_op (cfg_gate c) = Some a"
    and "gate_is_active ow (cfg_gate c')" and "\<not> gate_is_active ow (cfg_gate c)"
  shows "o_kind ow = RECOVERY \<and> o_operation_id ow = a"
  using assms
  by (induction rule: gate_step.induct)
    (auto dest: gate_new_owners gate_inv_blocked simp: cfg_inv_def)

section \<open>Properties\<close>

text \<open>C24: fencing: once a lease has been issued and is no longer active, because it was
  released or superseded, it is inactive after any further interleaving, so every call it
  guards raises GateFencedError.\<close>

theorem gate_lease_fenced_forever:
  assumes "gate_steps c c'" and "o_epoch ow \<le> g_epoch (cfg_gate c)"
    and "\<not> gate_is_active ow (cfg_gate c)"
  shows "gate_guard ow (cfg_gate c') outcome after
    = Inl (GateFencedError ''gate lease is no longer active'')"
  using gate_steps_fenced [OF assms(1,3,2)] by (simp add: gate_guard_def)

definition demo_owner :: "string \<Rightarrow> gate_kind \<Rightarrow> nat \<Rightarrow> gate_owner" where
  "demo_owner oid k n = \<lparr>o_operation_id = oid, o_kind = k, o_epoch = n, o_acquired_at = 0\<rparr>"

theorem gate_lease_fenced_forever_witness:
  "\<exists>c'. gate_steps (new_cfg\<lparr>cfg_gate := new_gate\<lparr>g_epoch := 1\<rparr>\<rparr>) c'
     \<and> cfg_queue c' = [WAcquire ''op'' GADD]
     \<and> gate_guard (demo_owner ''op'' GADD 1) (cfg_gate c') (Inr ()) new_gate
        = Inl (GateFencedError ''gate lease is no longer active'')"
proof -
  let ?c = "new_cfg\<lparr>cfg_gate := new_gate\<lparr>g_epoch := 1\<rparr>\<rparr>"
  let ?d = "?c\<lparr>cfg_queue := cfg_queue ?c @ [WAcquire ''op'' GADD]\<rparr>"
  have "gate_step (EWait (WAcquire ''op'' GADD)) ?c ?d"
    by (rule gate_step.wait_acquire) (simp_all add: gate_acquire_entry_def new_gate_def)
  then have st: "gate_steps ?c ?d" by (blast intro: gate_steps.intros)
  have e: "o_epoch (demo_owner ''op'' GADD 1) \<le> g_epoch (cfg_gate ?c)"
    and a: "\<not> gate_is_active (demo_owner ''op'' GADD 1) (cfg_gate ?c)"
    by (simp_all add: demo_owner_def gate_is_active_def new_gate_def)
  show ?thesis
    using st gate_lease_fenced_forever [OF st e a] by (intro exI [of _ ?d]) (simp add: new_cfg_def)
qed

text \<open>in every reachable configuration the lock is held exactly while there is an owner, the
  owner is the newest one ever issued, and a BLOCKED gate is never owned by any operation
  other than the one that latched it.\<close>

theorem gate_exclusive:
  assumes "gate_steps new_cfg c"
  shows "(g_locked (cfg_gate c) \<longleftrightarrow> g_owner (cfg_gate c) \<noteq> None)
    \<and> (\<forall>ow. gate_is_active ow (cfg_gate c) \<longrightarrow>
         o_epoch ow = g_epoch (cfg_gate c)
         \<and> (\<forall>a. g_blocked_op (cfg_gate c) = Some a \<longrightarrow> o_operation_id ow = a))"
proof -
  have inv: "gate_inv (cfg_gate c)"
    using gate_steps_inv [OF assms cfg_inv_new] by (simp add: cfg_inv_def)
  have "g_locked (cfg_gate c) \<longleftrightarrow> g_owner (cfg_gate c) \<noteq> None"
    using inv by (cases "g_owner (cfg_gate c)") (simp_all add: gate_inv_def)
  with gate_inv_owner(2,3) [OF inv] show ?thesis unfolding gate_is_active_def by blast
qed

theorem gate_exclusive_witness:
  "\<exists>c ow. gate_steps new_cfg c \<and> gate_is_active ow (cfg_gate c) \<and> o_epoch ow = 1"
proof -
  let ?d = "new_cfg\<lparr>cfg_queue := cfg_queue new_cfg @ [WAcquire ''op'' GADD]\<rparr>"
  let ?e = "?d\<lparr>cfg_gate := snd (gate_acquire_granted 0 ''op'' GADD (cfg_gate ?d)), cfg_queue := []\<rparr>"
  have s: "gate_step (EWait (WAcquire ''op'' GADD)) new_cfg ?d"
    by (rule gate_step.wait_acquire) (simp_all add: gate_acquire_entry_def new_gate_def new_cfg_def)
  have t: "gate_step (EGrant 0) ?d ?e"
    by (rule gate_step.grant_acquire) (simp_all add: new_gate_def new_cfg_def)
  from gate_steps.more [OF gate_steps.more [OF gate_steps.none s] t]
  have r: "gate_steps new_cfg ?e" .
  have a: "gate_is_active (demo_owner ''op'' GADD 1) (cfg_gate ?e)"
    by (simp add: demo_owner_def gate_is_active_def gate_acquire_granted_def new_gate_def
        new_cfg_def Let_def)
  have "g_epoch (cfg_gate ?e) = 1"
    by (simp add: gate_acquire_granted_def new_gate_def new_cfg_def Let_def)
  with gate_exclusive [OF r] a have "o_epoch (demo_owner ''op'' GADD 1) = 1" by auto
  with r a show ?thesis by blast
qed

text \<open>the BLOCKED latch: whatever coroutines do, the latch of operation a stays with a until
  a's own recovery callback returns normally; a failed recovery, a release, a time-out and the
  requests of every other operation all keep it.\<close>

theorem gate_latch_cleared_only_by_owner:
  assumes "gate_steps new_cfg c" and "gate_step e c c'"
    and "g_blocked_op (cfg_gate c) = Some a" and "g_blocked_op (cfg_gate c') \<noteq> Some a"
  shows "\<exists>ow. e = EReconciled ow (Inr ()) \<and> o_operation_id ow = a \<and> o_kind ow = RECOVERY"
  using gate_step_latch [OF assms(2) gate_steps_inv [OF assms(1) cfg_inv_new] assms(3)] assms(4)
  by blast

definition demo_blocked :: gate_cfg where
  "demo_blocked = new_cfg\<lparr>cfg_gate := new_gate\<lparr>g_locked := True, g_epoch := 1,
     g_owner := Some (demo_owner ''op'' GADD 1)\<rparr>\<rparr>"

lemma demo_blocked_reachable: "gate_steps new_cfg demo_blocked"
proof -
  let ?d = "new_cfg\<lparr>cfg_queue := cfg_queue new_cfg @ [WAcquire ''op'' GADD]\<rparr>"
  have s: "gate_step (EWait (WAcquire ''op'' GADD)) new_cfg ?d"
    by (rule gate_step.wait_acquire) (simp_all add: gate_acquire_entry_def new_gate_def new_cfg_def)
  have "gate_step (EGrant 0) ?d
      (?d\<lparr>cfg_gate := snd (gate_acquire_granted 0 ''op'' GADD (cfg_gate ?d)), cfg_queue := []\<rparr>)"
    by (rule gate_step.grant_acquire) (simp_all add: new_gate_def new_cfg_def)
  then have "gate_step (EGrant 0) ?d demo_blocked"
    by (simp add: gate_acquire_granted_def Let_def new_cfg_def new_gate_def demo_blocked_def
        demo_owner_def)
  with s show ?thesis by (blast intro: gate_steps.intros)
qed

theorem gate_latch_cleared_only_by_owner_witness:
  "\<exists>c c' ow. gate_steps new_cfg c \<and> gate_step (EReconciled ow (Inr ())) c c'
     \<and> g_blocked_op (cfg_gate c) = Some ''op'' \<and> g_blocked_op (cfg_gate c') = None
     \<and> o_operation_id ow = ''op''"
proof -
  let ?b = "demo_blocked\<lparr>cfg_gate := snd (gate_block (demo_owner ''op'' GADD 1) ''lost ack''
      (cfg_gate demo_blocked))\<rparr>"
  let ?r = "?b\<lparr>cfg_gate := snd (gate_release (demo_owner ''op'' GADD 1) (cfg_gate ?b))\<rparr>"
  let ?w = "?r\<lparr>cfg_queue := cfg_queue ?r @ [WReconcile ''op'']\<rparr>"
  let ?g = "?w\<lparr>cfg_gate := snd (gate_reconcile_granted 0 ''op'' (cfg_gate ?w)), cfg_queue := []\<rparr>"
  let ?o = "demo_owner ''op'' RECOVERY 2"
  let ?f = "?g\<lparr>cfg_gate := snd (gate_reconcile_end (Inr ()) (cfg_gate ?g))\<rparr>"
  note ev = demo_blocked_def demo_owner_def new_cfg_def new_gate_def gate_block_def gate_release_def
    gate_is_active_def gate_reconcile_granted_def gate_reconcile_entry_def gate_reconcile_end_def
  have "gate_steps new_cfg ?b"
    by (rule gate_steps.more [OF demo_blocked_reachable gate_step.block])
  then have "gate_steps new_cfg ?r"
    by (rule gate_steps.more) (rule gate_step.release, simp add: demo_owner_def)
  then have "gate_steps new_cfg ?w"
    by (rule gate_steps.more) (rule gate_step.wait_reconcile, simp add: ev)
  then have g: "gate_steps new_cfg ?g"
    by (rule gate_steps.more) (rule gate_step.grant_reconcile, simp_all add: ev)
  have f: "gate_step (EReconciled ?o (Inr ())) ?g ?f"
    by (rule gate_step.reconciled) (simp_all add: ev Let_def)
  have b: "g_blocked_op (cfg_gate ?g) = Some ''op''" and n: "g_blocked_op (cfg_gate ?f) = None"
    by (simp_all add: ev Let_def)
  from gate_latch_cleared_only_by_owner [OF g f b] n
  have "o_operation_id ?o = ''op''" by auto
  with g f b n show ?thesis by blast
qed

text \<open>while the gate is BLOCKED nobody enters it but the recovery of the operation that
  latched it: no ADD, REMOVE, RESTORE or native weight sync runs over unreconciled state.\<close>

theorem gate_blocked_entry:
  assumes "gate_steps new_cfg c" and "gate_step e c c'" and "g_blocked_op (cfg_gate c) = Some a"
    and "gate_is_active ow (cfg_gate c')" and "\<not> gate_is_active ow (cfg_gate c)"
  shows "o_kind ow = RECOVERY \<and> o_operation_id ow = a"
  by (rule gate_step_blocked_entry [OF assms(2) gate_steps_inv [OF assms(1) cfg_inv_new] assms(3-5)])

theorem gate_blocked_entry_witness:
  "\<exists>c c'. gate_steps new_cfg c \<and> gate_step (EGrant 0) c c'
     \<and> gate_is_active (demo_owner ''op'' RECOVERY 2) (cfg_gate c')
     \<and> o_kind (demo_owner ''op'' RECOVERY 2) = RECOVERY"
proof -
  let ?b = "demo_blocked\<lparr>cfg_gate := snd (gate_block (demo_owner ''op'' GADD 1) ''lost ack''
      (cfg_gate demo_blocked))\<rparr>"
  let ?r = "?b\<lparr>cfg_gate := snd (gate_release (demo_owner ''op'' GADD 1) (cfg_gate ?b))\<rparr>"
  let ?w = "?r\<lparr>cfg_queue := cfg_queue ?r @ [WReconcile ''op'']\<rparr>"
  let ?g = "?w\<lparr>cfg_gate := snd (gate_reconcile_granted 0 ''op'' (cfg_gate ?w)), cfg_queue := []\<rparr>"
  note ev = demo_blocked_def demo_owner_def new_cfg_def new_gate_def gate_block_def gate_release_def
    gate_is_active_def gate_reconcile_granted_def gate_reconcile_entry_def
  have "gate_steps new_cfg ?b"
    by (rule gate_steps.more [OF demo_blocked_reachable gate_step.block])
  then have "gate_steps new_cfg ?r"
    by (rule gate_steps.more) (rule gate_step.release, simp add: demo_owner_def)
  then have w: "gate_steps new_cfg ?w"
    by (rule gate_steps.more) (rule gate_step.wait_reconcile, simp add: ev)
  have g: "gate_step (EGrant 0) ?w ?g"
    by (rule gate_step.grant_reconcile) (simp_all add: ev)
  have b: "g_blocked_op (cfg_gate ?w) = Some ''op''"
    and act: "gate_is_active (demo_owner ''op'' RECOVERY 2) (cfg_gate ?g)"
    and nact: "\<not> gate_is_active (demo_owner ''op'' RECOVERY 2) (cfg_gate ?w)"
    by (simp_all add: ev Let_def)
  from gate_blocked_entry [OF w g b act nact] w g act show ?thesis by blast
qed

end
