(* ===== verification/Group_Scheduler.thy ===== *)
theory Group_Scheduler
  imports Interfaces Contracts
begin

text \<open>
  Model of \<open>scheduler/group_scheduler.py\<close>: the actor every task shares, with its lease
  ledger, the owner tables of PG bundles and GPUs, and the staged operation intents. The actor
  runs one method at a time, so a method is a function of its state.

  The clocks \<open>time.time()\<close> and \<open>time.monotonic()\<close> and the reply of the remote
  \<open>TaskRunner.submit_operation\<close> are arguments. Actor handles are numbers.
\<close>

section \<open>State\<close>

record idle_report =
  ir_observed_at :: rat
  ir_candidates :: "(replica_key \<times> replica_kind) list"

record gs =
  gs_runners :: "string \<rightharpoonup> nat"
  gs_leases :: "string \<rightharpoonup> lease"
  gs_idle :: "string \<rightharpoonup> idle_report"
  gs_commands :: "string \<rightharpoonup> op_command"
  gs_borrower :: "string \<rightharpoonup> replica_key"
  gs_evidence :: "string \<times> string \<rightharpoonup> op_evidence"
  gs_history :: "string \<rightharpoonup> string list"
  gs_handoff :: "string set"
  gs_claim_owner :: "string \<rightharpoonup> string"
  gs_bundle_owner :: "string \<times> int \<rightharpoonup> string"
  gs_gpu_owner :: "string \<rightharpoonup> string"

definition new_gs :: gs where
  "new_gs = \<lparr>gs_runners = Map.empty, gs_leases = Map.empty, gs_idle = Map.empty,
     gs_commands = Map.empty, gs_borrower = Map.empty, gs_evidence = Map.empty,
     gs_history = Map.empty, gs_handoff = {}, gs_claim_owner = Map.empty,
     gs_bundle_owner = Map.empty, gs_gpu_owner = Map.empty\<rparr>"

section \<open>Task registration and idle reports\<close>

definition gs_attach_task :: "string \<Rightarrow> nat \<Rightarrow> gs \<Rightarrow> unit res \<times> gs" where
  "gs_attach_task task runner g =
     (if task = [] then (Inl (ValueError ''task_id''), g)
      else (case gs_runners g task of
              Some existing \<Rightarrow>
                if existing \<noteq> runner then (Inl (ValueError ''TaskRunner already attached''), g)
                else (Inr (), g\<lparr>gs_runners := (gs_runners g)(task \<mapsto> runner)\<rparr>)
            | None \<Rightarrow> (Inr (), g\<lparr>gs_runners := (gs_runners g)(task \<mapsto> runner)\<rparr>)))"

definition gs_detach_task :: "string \<Rightarrow> gs \<Rightarrow> unit res \<times> gs" where
  "gs_detach_task task g =
     (if task = [] then (Inl (ValueError ''task_id''), g)
      else (Inr (), g\<lparr>gs_runners := (gs_runners g)(task := None),
                     gs_idle := (gs_idle g)(task := None)\<rparr>))"

text \<open>
  A report is dynamically typed metadata. A candidate is \<open>None\<close> when it is not a
  dict; its key is \<open>None\<close> when it is not a \<open>ReplicaKey\<close>, its kind \<open>None\<close> when it
  names no \<open>ReplicaKind\<close>.
\<close>

record raw_candidate =
  rc_key :: "replica_key option"
  rc_kind :: "replica_kind option"

record raw_report =
  rr_task_session :: pyval
  rr_candidates :: "raw_candidate option list option"

fun normalize_candidates ::
    "string \<Rightarrow> replica_key list \<Rightarrow> raw_candidate option list \<Rightarrow> (replica_key \<times> replica_kind) list res"
  where
  "normalize_candidates task seen [] = Inr []"
| "normalize_candidates task seen (c # cs) =
     (case c of
        None \<Rightarrow> Inl (TypeError ''idle candidate must be a metadata dict'')
      | Some rc \<Rightarrow>
          (case rc_key rc of
             None \<Rightarrow> Inl (TypeError ''idle candidate requires ReplicaKey'')
           | Some key \<Rightarrow>
               if task_session key \<noteq> task
               then Inl (ValueError ''idle candidate belongs to another task_session'')
               else (case rc_kind rc of
                       None \<Rightarrow> Inl (ValueError ''not a ReplicaKind'')
                     | Some kind \<Rightarrow>
                         if key \<in> set seen
                         then Inl (ValueError ''idle report contains duplicate ReplicaKey'')
                         else map_res ((#) (key, kind))
                                (normalize_candidates task (key # seen) cs))))"

definition gs_submit_idle_report ::
    "rat \<Rightarrow> raw_report option \<Rightarrow> gs \<Rightarrow> nat res \<times> gs" where
  "gs_submit_idle_report mclk report g =
     (case report of
        None \<Rightarrow> (Inl (TypeError ''submit_idle_report requires a metadata dict''), g)
      | Some rr \<Rightarrow>
          if \<not> is_nonempty_str (rr_task_session rr)
          then (Inl (ValueError ''idle report requires task_session''), g)
          else
            (let task = pystr_of (rr_task_session rr) in
             if gs_runners g task = None
             then (Inl (ValueError ''idle report references a detached task_session''), g)
             else (case rr_candidates rr of
                     None \<Rightarrow> (Inl (ValueError ''idle report requires candidates''), g)
                   | Some cs \<Rightarrow>
                       (case normalize_candidates task [] cs of
                          Inl e \<Rightarrow> (Inl e, g)
                        | Inr normalized \<Rightarrow>
                            (Inr (length normalized),
                             g\<lparr>gs_idle := (gs_idle g)(task \<mapsto>
                                  \<lparr>ir_observed_at = mclk, ir_candidates = normalized\<rparr>)\<rparr>)))))"

section \<open>Owner tables\<close>

definition own_all :: "'k list \<Rightarrow> string \<Rightarrow> ('k \<rightharpoonup> string) \<Rightarrow> 'k \<rightharpoonup> string" where
  "own_all keys lid m = fold (\<lambda>k m. m(k \<mapsto> lid)) keys m"

definition disown :: "'k list \<Rightarrow> string \<Rightarrow> ('k \<rightharpoonup> string) \<Rightarrow> 'k \<rightharpoonup> string" where
  "disown keys lid m = fold (\<lambda>k m. if m k = Some lid then m(k := None) else m) keys m"

definition disown_all :: "'k list \<Rightarrow> ('k \<rightharpoonup> string) \<Rightarrow> 'k \<rightharpoonup> string" where
  "disown_all keys m = fold (\<lambda>k m. m(k := None)) keys m"

lemma own_all_eq: "own_all keys lid m = (\<lambda>k. if k \<in> set keys then Some lid else m k)"
  unfolding own_all_def by (induction keys arbitrary: m) (auto simp: fun_eq_iff)

lemma disown_eq:
  "disown keys lid m = (\<lambda>k. if k \<in> set keys \<and> m k = Some lid then None else m k)"
  unfolding disown_def by (induction keys arbitrary: m) (auto simp: fun_eq_iff)

lemma disown_all_eq: "disown_all keys m = (\<lambda>k. if k \<in> set keys then None else m k)"
  unfolding disown_all_def by (induction keys arbitrary: m) (auto simp: fun_eq_iff)

lemma disown_all_owned:
  "\<forall>k \<in> set keys. m k = Some lid \<Longrightarrow> disown_all keys m = disown keys lid m"
  by (auto simp: disown_eq disown_all_eq fun_eq_iff)

definition take_claims :: "lease \<Rightarrow> gs \<Rightarrow> gs" where
  "take_claims l g =
     g\<lparr>gs_bundle_owner := own_all (bundle_keys l) (l_lease_id l) (gs_bundle_owner g),
       gs_gpu_owner := own_all (gpu_uuids l) (l_lease_id l) (gs_gpu_owner g)\<rparr>"

definition drop_claims :: "lease \<Rightarrow> string \<Rightarrow> gs \<Rightarrow> gs" where
  "drop_claims l lid g =
     g\<lparr>gs_bundle_owner := disown (bundle_keys l) lid (gs_bundle_owner g),
       gs_gpu_owner := disown (gpu_uuids l) lid (gs_gpu_owner g)\<rparr>"

section \<open>Leases\<close>

definition relabel :: "lease \<Rightarrow> lease res" where
  \<comment> \<open>\<open>Lease(l.lease_id, l.claims, l.expires_at)\<close>: a detached copy\<close>
  "relabel l = mk_lease (l_lease_id l) (l_claims l) (PFloat (Fin (l_expires_at l)))"

definition foreign :: "('k \<rightharpoonup> string) \<Rightarrow> string \<Rightarrow> 'k list \<Rightarrow> bool" where
  "foreign m lid keys \<longleftrightarrow> (\<exists>k \<in> set keys. m k \<noteq> None \<and> m k \<noteq> Some lid)"

definition gs_open_lease :: "lease \<Rightarrow> gs \<Rightarrow> lease res \<times> gs" where
  "gs_open_lease lease0 g =
     (case gs_leases g (l_lease_id lease0) of
        Some existing \<Rightarrow>
          if \<not> lease_eq existing lease0 then (Inl (ValueError ''conflicting lease replay''), g)
          else (relabel existing, g)
      | None \<Rightarrow>
          (case relabel lease0 of
             Inl e \<Rightarrow> (Inl e, g)
           | Inr l \<Rightarrow>
               (let lid = l_lease_id l in
                if foreign (gs_claim_owner g) lid (claim_ids l)
                then (Inl (ValueError ''claim_id already belongs to another lease''), g)
                else if foreign (gs_bundle_owner g) lid (bundle_keys l)
                then (Inl (ValueError ''PG bundle is already active under another lease''), g)
                else if foreign (gs_gpu_owner g) lid (gpu_uuids l)
                then (Inl (ValueError ''GPU is already active under another lease''), g)
                else
                  (relabel l,
                   take_claims l
                     (g\<lparr>gs_leases := (gs_leases g)(lid \<mapsto> l),
                        gs_history := (case gs_history g lid of
                                         None \<Rightarrow> (gs_history g)(lid \<mapsto> [])
                                       | Some _ \<Rightarrow> gs_history g),
                        gs_claim_owner := own_all (claim_ids l) lid (gs_claim_owner g)\<rparr>)))))"

section \<open>Submitting operations\<close>

definition IDLE_REPORT_MAX_AGE :: rat where "IDLE_REPORT_MAX_AGE = 10"

definition first_claim :: "lease \<Rightarrow> pydict" where
  "first_claim l = (case l_claims l of [] \<Rightarrow> [] | c # _ \<Rightarrow> c)"

definition target_matches_donor :: "replica_key \<Rightarrow> lease \<Rightarrow> bool" where
  "target_matches_donor target l \<longleftrightarrow>
     native_replica_key (task_session target)
       (pyint_of (pyget (first_claim l) ''donor_replica_rank'')) 0 = Inr target"

definition last_kind :: "string list \<Rightarrow> gs \<Rightarrow> op_kind option" where
  \<comment> \<open>the kind of \<open>operation_commands.get(history[-1])\<close>, when history is nonempty\<close>
  "last_kind history g =
     (if history = [] then None else map_option c_kind (gs_commands g (last history)))"

definition lease_expired :: "rat \<Rightarrow> lease \<Rightarrow> bool" where
  "lease_expired now l \<longleftrightarrow> l_expires_at l \<noteq> 0 \<and> l_expires_at l \<le> now"

definition donate_idle_check :: "rat \<Rightarrow> op_command \<Rightarrow> gs \<Rightarrow> exn option" where
  "donate_idle_check mclk c g =
     (case gs_idle g (task_session (c_target c)) of
        None \<Rightarrow> None
      | Some rep \<Rightarrow> first_failure
          [(IDLE_REPORT_MAX_AGE < mclk - ir_observed_at rep, ValueError ''DONATE idle report is stale''),
           (map_of (rev (ir_candidates rep)) (c_target c) \<noteq> Some NATIVE,
            ValueError ''DONATE target is not a currently reported idle NATIVE replica'')])"

definition kind_check :: "rat \<Rightarrow> op_command \<Rightarrow> lease \<Rightarrow> string list \<Rightarrow> gs \<Rightarrow> exn option" where
  "kind_check mclk c l history g =
     (let lid = c_lease_id c; donor = pystr_of (pyget (first_claim l) ''donor_task_id'') in
      case c_kind c of
        DONATE \<Rightarrow>
          (case donate_idle_check mclk c g of
             Some e \<Rightarrow> Some e
           | None \<Rightarrow> first_failure
               [(last_kind history g = Some REMOVE, ValueError ''lease awaits RESTORE after borrowed REMOVE''),
                (task_session (c_target c) \<noteq> donor, ValueError ''DONATE target does not own the lease claims''),
                (\<not> target_matches_donor (c_target c) l, ValueError ''DONATE target does not match''),
                (lid \<in> gs_handoff g, ValueError ''lease handoff is already ready'')])
      | ADD \<Rightarrow> first_failure
          [(lid \<notin> gs_handoff g, ValueError ''ADD requires donor RELEASED handoff''),
           (gs_borrower g lid \<noteq> None, ValueError ''lease already has a borrower ADD'')]
      | REMOVE \<Rightarrow> first_failure
          [(lid \<notin> gs_handoff g, ValueError ''REMOVE requires donor RELEASED handoff''),
           (gs_borrower g lid \<noteq> Some (c_target c), ValueError ''REMOVE target does not match'')]
      | RESTORE \<Rightarrow> first_failure
          [(task_session (c_target c) \<noteq> donor, ValueError ''RESTORE target does not own the lease claims''),
           (\<not> target_matches_donor (c_target c) l, ValueError ''RESTORE target does not match''),
           (\<exists>u \<in> set (gpu_uuids l). gs_gpu_owner g u \<noteq> None, ValueError ''RESTORE requires unclaimed''),
           (\<exists>b \<in> set (bundle_keys l). gs_bundle_owner g b \<noteq> None,
            ValueError ''RESTORE requires unclaimed'')])"

definition new_command_check :: "rat \<Rightarrow> rat \<Rightarrow> op_command \<Rightarrow> lease \<Rightarrow> gs \<Rightarrow> exn option" where
  "new_command_check now mclk c l g =
     (let history = (case gs_history g (c_lease_id c) of None \<Rightarrow> [] | Some h \<Rightarrow> h) in
      if last_kind history g = Some RESTORE
      then Some (ValueError ''lease lifecycle is complete after RESTORE'')
      else if lease_expired now l \<and> c_kind c = ADD
      then Some (ValueError ''expired lease cannot start ADD'')
      else kind_check mclk c l history g)"

text \<open>Staging the intent, before the task runner is called.\<close>

definition stage_command :: "op_command \<Rightarrow> lease \<Rightarrow> gs \<Rightarrow> gs" where
  "stage_command c l g =
     (let g' = g\<lparr>gs_commands := (gs_commands g)(c_operation_id c \<mapsto> c)\<rparr> in
      case c_kind c of
        ADD \<Rightarrow> (if gs_borrower g' (c_lease_id c) = None
                then g'\<lparr>gs_borrower := (gs_borrower g')(c_lease_id c \<mapsto> c_target c)\<rparr> else g')
      | RESTORE \<Rightarrow> take_claims (l\<lparr>l_lease_id := c_lease_id c\<rparr>) g'
      | _ \<Rightarrow> g')"

definition check_reply :: "op_command \<Rightarrow> op_record res \<Rightarrow> op_record res" where
  "check_reply c reply =
     (case reply of
        Inl e \<Rightarrow> Inl e
      | Inr r \<Rightarrow>
          if r_operation_id r \<noteq> c_operation_id c
          then Inl (ValueError ''TaskRunner returned a record for another operation'')
          else Inr r)"

definition gs_submit_operation ::
    "rat \<Rightarrow> rat \<Rightarrow> op_command \<Rightarrow> op_record res \<Rightarrow> gs \<Rightarrow> op_record res \<times> gs" where
  "gs_submit_operation now mclk c reply g =
     (case gs_leases g (c_lease_id c) of
        None \<Rightarrow> (Inl (ValueError ''unknown lease''), g)
      | Some l \<Rightarrow>
          (case gs_commands g (c_operation_id c) of
             Some previous \<Rightarrow>
               if previous \<noteq> c
               then (Inl (ValueError ''conflicting operation replay at GroupScheduler''), g)
               else if gs_runners g (task_session (c_target c)) = None
               then (Inl (ValueError ''no TaskRunner is attached''), g)
               else (check_reply c reply, g)
           | None \<Rightarrow>
               (case new_command_check now mclk c l g of
                  Some e \<Rightarrow> (Inl e, g)
                | None \<Rightarrow>
                    if gs_runners g (task_session (c_target c)) = None
                    then (Inl (ValueError ''no TaskRunner is attached''), g)
                    else (check_reply c reply, stage_command c l g))))"

section \<open>Advancing leases\<close>

datatype advance_flag = Released | Restored | RestoreRolledBack | AddRolledBack

record advance_result =
  ar_lease_id :: string
  ar_operation_id :: string
  ar_flag :: advance_flag

definition replay_flag :: "op_command \<Rightarrow> op_evidence \<Rightarrow> advance_flag res" where
  "replay_flag c existing =
     (case c_kind c of
        RESTORE \<Rightarrow>
          (case e_type existing of
             SERVICE_COMMITTED \<Rightarrow> Inr Restored
           | RELEASED \<Rightarrow> Inr RestoreRolledBack
           | _ \<Rightarrow> Inl (ValueError ''invalid RESTORE evidence replay''))
      | ADD \<Rightarrow> Inr AddRolledBack
      | _ \<Rightarrow> Inr Released)"

definition covers_claims :: "op_evidence \<Rightarrow> lease \<Rightarrow> bool" where
  "covers_claims ev l \<longleftrightarrow> set (e_gpu_uuids ev) = set (gpu_uuids l)"

definition advance_check :: "op_command \<Rightarrow> op_evidence \<Rightarrow> string \<Rightarrow> lease \<Rightarrow> gs \<Rightarrow> exn option" where
  "advance_check c ev lid l g =
     (case c_kind c of
        RESTORE \<Rightarrow> first_failure
          [(e_type ev \<noteq> SERVICE_COMMITTED \<and> e_type ev \<noteq> RELEASED,
            ValueError ''RESTORE requires SERVICE_COMMITTED or RELEASED evidence''),
           ((\<exists>b \<in> set (bundle_keys l). gs_bundle_owner g b \<noteq> Some lid)
              \<or> (\<exists>u \<in> set (gpu_uuids l). gs_gpu_owner g u \<noteq> Some lid),
            ValueError ''RESTORE completion requires its temporary claim reservation''),
           (e_type ev = RELEASED \<and> \<not> covers_claims ev l,
            ValueError ''RESTORE rollback must exactly cover lease GPU claims'')]
      | ADD \<Rightarrow> first_failure
          [(e_type ev \<noteq> RELEASED, ValueError ''ADD rollback requires RELEASED evidence''),
           (\<not> covers_claims ev l, ValueError ''ADD rollback must exactly cover lease GPU claims''),
           (c_lease_id c \<notin> gs_handoff g, ValueError ''ADD rollback requires the handoff''),
           (gs_borrower g (c_lease_id c) \<noteq> Some (c_target c),
            ValueError ''ADD rollback target does not match staged borrower'')]
      | _ \<Rightarrow> first_failure
          [(e_type ev \<noteq> RELEASED, ValueError ''lease handoff requires RELEASED evidence''),
           (\<not> covers_claims ev l, ValueError ''RELEASED evidence must exactly cover'')])"

definition append_history :: "string \<Rightarrow> string \<Rightarrow> gs \<Rightarrow> gs" where
  "append_history lid oid g =
     g\<lparr>gs_history := (gs_history g)(lid \<mapsto>
         (case gs_history g lid of None \<Rightarrow> [] | Some h \<Rightarrow> h) @ [oid])\<rparr>"

definition advance_effect ::
    "op_command \<Rightarrow> op_evidence \<Rightarrow> string \<Rightarrow> lease \<Rightarrow> gs \<Rightarrow> advance_flag \<times> gs" where
  "advance_effect c ev lid l g =
     (let oid = e_operation_id ev;
          g1 = g\<lparr>gs_evidence := (gs_evidence g)((lid, oid) \<mapsto> ev)\<rparr> in
      case c_kind c of
        RESTORE \<Rightarrow>
          if e_type ev = RELEASED then (RestoreRolledBack, drop_claims l lid g1)
          else (let g2 = append_history lid oid g1 in
                (Restored,
                 g2\<lparr>gs_handoff := gs_handoff g2 - {lid},
                    gs_borrower := (gs_borrower g2)(lid := None),
                    gs_bundle_owner := disown_all (bundle_keys l) (gs_bundle_owner g2),
                    gs_gpu_owner := disown_all (gpu_uuids l) (gs_gpu_owner g2)\<rparr>))
      | ADD \<Rightarrow>
          (let g2 = append_history lid oid g1 in
           (AddRolledBack,
            drop_claims l lid
              (g2\<lparr>gs_borrower := (gs_borrower g2)(lid := None),
                  gs_handoff := gs_handoff g2 - {lid}\<rparr>)))
      | DONATE \<Rightarrow>
          (let g2 = append_history lid oid g1 in
           (Released, g2\<lparr>gs_handoff := insert lid (gs_handoff g2)\<rparr>))
      | REMOVE \<Rightarrow>
          (let g2 = append_history lid oid g1 in
           (Released, drop_claims l lid (g2\<lparr>gs_handoff := gs_handoff g2 - {lid}\<rparr>))))"

definition gs_advance_lease ::
    "string \<Rightarrow> op_evidence \<Rightarrow> gs \<Rightarrow> advance_result res \<times> gs" where
  "gs_advance_lease lid ev g =
     (case gs_leases g lid of
        None \<Rightarrow> (Inl (ValueError ''unknown lease''), g)
      | Some l \<Rightarrow>
          (case gs_commands g (e_operation_id ev) of
             None \<Rightarrow> (Inl (ValueError ''operation evidence references an unknown operation''), g)
           | Some c \<Rightarrow>
               if c_lease_id c \<noteq> lid
               then (Inl (ValueError ''operation evidence belongs to another lease''), g)
               else
                 (let result = (\<lambda>f. \<lparr>ar_lease_id = lid, ar_operation_id = e_operation_id ev, ar_flag = f\<rparr>)
                  in case gs_evidence g (lid, e_operation_id ev) of
                       Some existing \<Rightarrow>
                         if existing \<noteq> ev
                         then (Inl (ValueError ''conflicting lease evidence replay''), g)
                         else (map_res result (replay_flag c existing), g)
                     | None \<Rightarrow>
                         (case advance_check c ev lid l g of
                            Some e \<Rightarrow> (Inl e, g)
                          | None \<Rightarrow>
                              (let (f, g') = advance_effect c ev lid l g in (Inr (result f), g'))))))"

section \<open>The scheduler as a machine\<close>

datatype gs_event =
    GAttach string nat
  | GDetach string
  | GIdle rat "raw_report option"
  | GOpen lease
  | GSubmit rat rat op_command "op_record res"
  | GAdvance string op_evidence

fun gs_step :: "gs_event \<Rightarrow> gs \<Rightarrow> gs" where
  "gs_step (GAttach t r) g = snd (gs_attach_task t r g)"
| "gs_step (GDetach t) g = snd (gs_detach_task t g)"
| "gs_step (GIdle m rep) g = snd (gs_submit_idle_report m rep g)"
| "gs_step (GOpen l) g = snd (gs_open_lease l g)"
| "gs_step (GSubmit now m c rep) g = snd (gs_submit_operation now m c rep g)"
| "gs_step (GAdvance lid ev) g = snd (gs_advance_lease lid ev g)"

text \<open>A lease holds its physical claims entirely or not at all.\<close>

definition holds_all :: "string \<Rightarrow> lease \<Rightarrow> gs \<Rightarrow> bool" where
  "holds_all lid l g \<longleftrightarrow> (\<forall>b \<in> set (bundle_keys l). gs_bundle_owner g b = Some lid)
     \<and> (\<forall>u \<in> set (gpu_uuids l). gs_gpu_owner g u = Some lid)"

definition holds_none :: "string \<Rightarrow> gs \<Rightarrow> bool" where
  "holds_none lid g \<longleftrightarrow> (\<forall>b. gs_bundle_owner g b \<noteq> Some lid) \<and> (\<forall>u. gs_gpu_owner g u \<noteq> Some lid)"

definition lease_inv :: "gs \<Rightarrow> bool" where
  "lease_inv g \<longleftrightarrow> (\<forall>lid l. gs_leases g lid = Some l \<longrightarrow> l_lease_id l = lid \<and> wf_lease l)"

definition owner_inv :: "gs \<Rightarrow> bool" where
  "owner_inv g \<longleftrightarrow>
     (\<forall>lid. gs_leases g lid = None \<longrightarrow> holds_none lid g)
     \<and> (\<forall>lid l. gs_leases g lid = Some l \<longrightarrow>
          holds_none lid g
          \<or> (holds_all lid l g
             \<and> (\<forall>b. gs_bundle_owner g b = Some lid \<longrightarrow> b \<in> set (bundle_keys l))
             \<and> (\<forall>u. gs_gpu_owner g u = Some lid \<longrightarrow> u \<in> set (gpu_uuids l))))"

definition claim_inv :: "gs \<Rightarrow> bool" where
  "claim_inv g \<longleftrightarrow> (\<forall>cid lid. gs_claim_owner g cid = Some lid \<longleftrightarrow>
     (\<exists>l. gs_leases g lid = Some l \<and> cid \<in> set (claim_ids l)))"

definition intent_inv :: "gs \<Rightarrow> bool" where
  "intent_inv g \<longleftrightarrow>
     (\<forall>oid c. gs_commands g oid = Some c \<longrightarrow>
        c_operation_id c = oid \<and> gs_leases g (c_lease_id c) \<noteq> None)
     \<and> (\<forall>lid oid ev. gs_evidence g (lid, oid) = Some ev \<longrightarrow>
        e_operation_id ev = oid \<and> (\<exists>c. gs_commands g oid = Some c \<and> c_lease_id c = lid))
     \<and> gs_handoff g \<subseteq> dom (gs_leases g)"

definition gs_inv :: "gs \<Rightarrow> bool" where
  "gs_inv g \<longleftrightarrow> lease_inv g \<and> owner_inv g \<and> claim_inv g \<and> intent_inv g"

lemma gs_inv_new: "gs_inv new_gs"
  by (simp add: gs_inv_def lease_inv_def owner_inv_def claim_inv_def intent_inv_def new_gs_def
      holds_none_def)

lemma lease_of_relabel [simp]:
  "bundle_keys (l\<lparr>l_lease_id := x\<rparr>) = bundle_keys l"
  "gpu_uuids (l\<lparr>l_lease_id := x\<rparr>) = gpu_uuids l"
  by (simp_all add: bundle_keys_def gpu_uuids_def)

subsection \<open>Effect on the owner tables\<close>

lemma claims_fields [simp]:
  "gs_leases (take_claims l g) = gs_leases g" "gs_leases (drop_claims l i g) = gs_leases g"
  "gs_claim_owner (take_claims l g) = gs_claim_owner g" "gs_claim_owner (drop_claims l i g) = gs_claim_owner g"
  "gs_commands (take_claims l g) = gs_commands g" "gs_commands (drop_claims l i g) = gs_commands g"
  "gs_evidence (take_claims l g) = gs_evidence g" "gs_evidence (drop_claims l i g) = gs_evidence g"
  "gs_handoff (take_claims l g) = gs_handoff g" "gs_handoff (drop_claims l i g) = gs_handoff g"
  "gs_borrower (take_claims l g) = gs_borrower g" "gs_borrower (drop_claims l i g) = gs_borrower g"
  "gs_history (take_claims l g) = gs_history g" "gs_history (drop_claims l i g) = gs_history g"
  "gs_runners (take_claims l g) = gs_runners g" "gs_runners (drop_claims l i g) = gs_runners g"
  "gs_idle (take_claims l g) = gs_idle g" "gs_idle (drop_claims l i g) = gs_idle g"
  by (simp_all add: take_claims_def drop_claims_def)

lemma owners_after [simp]:
  "gs_bundle_owner (take_claims l g) b =
     (if b \<in> set (bundle_keys l) then Some (l_lease_id l) else gs_bundle_owner g b)"
  "gs_gpu_owner (take_claims l g) u =
     (if u \<in> set (gpu_uuids l) then Some (l_lease_id l) else gs_gpu_owner g u)"
  "gs_bundle_owner (drop_claims l i g) b =
     (if b \<in> set (bundle_keys l) \<and> gs_bundle_owner g b = Some i then None else gs_bundle_owner g b)"
  "gs_gpu_owner (drop_claims l i g) u =
     (if u \<in> set (gpu_uuids l) \<and> gs_gpu_owner g u = Some i then None else gs_gpu_owner g u)"
  by (simp_all add: take_claims_def drop_claims_def own_all_eq disown_eq)

definition claims_free :: "lease \<Rightarrow> gs \<Rightarrow> bool" where
  "claims_free l g \<longleftrightarrow> (\<forall>b \<in> set (bundle_keys l). gs_bundle_owner g b = None)
     \<and> (\<forall>u \<in> set (gpu_uuids l). gs_gpu_owner g u = None)"

lemma owner_inv_fields:
  assumes "owner_inv g" and "gs_leases g' = gs_leases g"
    and "gs_bundle_owner g' = gs_bundle_owner g" and "gs_gpu_owner g' = gs_gpu_owner g"
  shows "owner_inv g'"
  using assms by (simp add: owner_inv_def holds_all_def holds_none_def)

lemma owner_inv_None: "owner_inv g \<Longrightarrow> gs_leases g lid = None \<Longrightarrow> holds_none lid g"
  by (simp add: owner_inv_def)

lemma owner_inv_Some:
  assumes "owner_inv g" "gs_leases g lid = Some l"
  obtains "holds_none lid g"
  | "holds_all lid l g"
    "\<And>b. gs_bundle_owner g b = Some lid \<Longrightarrow> b \<in> set (bundle_keys l)"
    "\<And>u. gs_gpu_owner g u = Some lid \<Longrightarrow> u \<in> set (gpu_uuids l)"
  using assms unfolding owner_inv_def by blast

lemma owner_inv_bundle:
  "owner_inv g \<Longrightarrow> gs_leases g lid = Some l \<Longrightarrow> gs_bundle_owner g b = Some lid
    \<Longrightarrow> b \<in> set (bundle_keys l)"
  unfolding owner_inv_def holds_none_def by metis

lemma owner_inv_gpu:
  "owner_inv g \<Longrightarrow> gs_leases g lid = Some l \<Longrightarrow> gs_gpu_owner g u = Some lid
    \<Longrightarrow> u \<in> set (gpu_uuids l)"
  unfolding owner_inv_def holds_none_def by metis

lemma owner_inv_add_lease:
  assumes "owner_inv g" and "gs_leases g lid = None"
    and "gs_leases g' = (gs_leases g)(lid \<mapsto> l)"
    and "gs_bundle_owner g' = gs_bundle_owner g" and "gs_gpu_owner g' = gs_gpu_owner g"
  shows "owner_inv g'"
  using assms by (simp add: owner_inv_def holds_all_def holds_none_def)

lemma owner_inv_take:
  assumes inv: "owner_inv g" and l: "gs_leases g (l_lease_id l) = Some l" and free: "claims_free l g"
  shows "owner_inv (take_claims l g)"
proof -
  have none: "holds_none lid (take_claims l g)" if "holds_none lid g" "lid \<noteq> l_lease_id l" for lid
    using that by (auto simp: holds_none_def)
  have all: "holds_all lid k (take_claims l g)"
    if "holds_all lid k g" "lid \<noteq> l_lease_id l" for lid k
    using that free by (auto simp: holds_all_def claims_free_def)
  have self: "holds_all (l_lease_id l) l (take_claims l g)"
    by (simp add: holds_all_def)
  have own: "b \<in> set (bundle_keys l)" if "gs_bundle_owner (take_claims l g) b = Some (l_lease_id l)" for b
    using that owner_inv_bundle [OF inv l, of b] by (simp split: if_splits)
  have own': "u \<in> set (gpu_uuids l)" if "gs_gpu_owner (take_claims l g) u = Some (l_lease_id l)" for u
    using that owner_inv_gpu [OF inv l, of u] by (simp split: if_splits)
  show ?thesis
    unfolding owner_inv_def
  proof (intro conjI allI impI)
    fix lid assume "gs_leases (take_claims l g) lid = None"
    with l have "holds_none lid g" "lid \<noteq> l_lease_id l" using owner_inv_None [OF inv] by auto
    then show "holds_none lid (take_claims l g)" by (rule none)
  next
    fix lid k assume k: "gs_leases (take_claims l g) lid = Some k"
    show "holds_none lid (take_claims l g) \<or> (holds_all lid k (take_claims l g)
        \<and> (\<forall>b. gs_bundle_owner (take_claims l g) b = Some lid \<longrightarrow> b \<in> set (bundle_keys k))
        \<and> (\<forall>u. gs_gpu_owner (take_claims l g) u = Some lid \<longrightarrow> u \<in> set (gpu_uuids k)))"
    proof (cases "lid = l_lease_id l")
      case True
      with k l have "k = l" by simp
      with True self own own' show ?thesis by blast
    next
      case False
      from k have "gs_leases g lid = Some k" by simp
      from owner_inv_Some [OF inv this] show ?thesis
      proof cases
        case 1
        with none False show ?thesis by blast
      next
        case 2
        with all False show ?thesis by auto
      qed
    qed
  qed
qed

lemma owner_inv_drop:
  assumes inv: "owner_inv g" and l: "gs_leases g lid = Some l"
  shows "owner_inv (drop_claims l lid g)"
proof -
  have none: "holds_none lid (drop_claims l lid g)"
    by (cases rule: owner_inv_Some [OF inv l]) (auto simp: holds_none_def)
  have keep: "holds_none j (drop_claims l lid g)" if "holds_none j g" for j
    using that by (simp add: holds_none_def)
  have all: "holds_all j k (drop_claims l lid g)" if "holds_all j k g" "j \<noteq> lid" for j k
    using that by (auto simp: holds_all_def)
  show ?thesis
    unfolding owner_inv_def
  proof (intro conjI allI impI)
    fix j assume "gs_leases (drop_claims l lid g) j = None"
    then show "holds_none j (drop_claims l lid g)" using owner_inv_None [OF inv] keep by simp
  next
    fix j k assume k: "gs_leases (drop_claims l lid g) j = Some k"
    then have "gs_leases g j = Some k" by simp
    from owner_inv_Some [OF inv this]
    show "holds_none j (drop_claims l lid g) \<or> (holds_all j k (drop_claims l lid g)
        \<and> (\<forall>b. gs_bundle_owner (drop_claims l lid g) b = Some j \<longrightarrow> b \<in> set (bundle_keys k))
        \<and> (\<forall>u. gs_gpu_owner (drop_claims l lid g) u = Some j \<longrightarrow> u \<in> set (gpu_uuids k)))"
    proof cases
      case 1
      then show ?thesis using keep by blast
    next
      case 2
      show ?thesis
      proof (cases "j = lid")
        case True
        with none show ?thesis by simp
      next
        case False
        with all 2 show ?thesis by auto
      qed
    qed
  qed
qed

subsection \<open>Every operation keeps the invariant\<close>

text \<open>The parts that do not look at the owner tables.\<close>

lemma intent_inv_fields:
  assumes "intent_inv g" and "gs_leases g' = gs_leases g" and "gs_commands g' = gs_commands g"
    and "gs_evidence g' = gs_evidence g" and "gs_handoff g' \<subseteq> dom (gs_leases g)"
  shows "intent_inv g'"
  using assms by (simp add: intent_inv_def)

lemma gs_inv_fields:
  assumes "gs_inv g" and "gs_leases g' = gs_leases g" and "gs_commands g' = gs_commands g"
    and "gs_evidence g' = gs_evidence g" and "gs_handoff g' = gs_handoff g"
    and "gs_claim_owner g' = gs_claim_owner g"
    and "gs_bundle_owner g' = gs_bundle_owner g" and "gs_gpu_owner g' = gs_gpu_owner g"
  shows "gs_inv g'"
  using assms owner_inv_fields [of g g'] intent_inv_fields [of g g']
  by (simp add: gs_inv_def lease_inv_def claim_inv_def) (simp add: intent_inv_def)

lemma gs_attach_inv: "gs_inv g \<Longrightarrow> gs_inv (snd (gs_attach_task t r g))"
  by (auto simp: gs_attach_task_def split: option.split intro: gs_inv_fields)

lemma gs_detach_inv: "gs_inv g \<Longrightarrow> gs_inv (snd (gs_detach_task t g))"
  by (auto simp: gs_detach_task_def intro: gs_inv_fields)

lemma gs_idle_inv: "gs_inv g \<Longrightarrow> gs_inv (snd (gs_submit_idle_report m rep g))"
  by (auto simp: gs_submit_idle_report_def Let_def split: option.split sum.split intro: gs_inv_fields)

lemma relabel_Inr: "relabel l0 = Inr l \<Longrightarrow> wf_lease l \<and> l_lease_id l = l_lease_id l0"
  unfolding relabel_def by (auto dest: mk_lease_wf)

lemma foreign_free:
  assumes "owner_inv g" "gs_leases g (l_lease_id l) = None"
    and "\<not> foreign (gs_bundle_owner g) (l_lease_id l) (bundle_keys l)"
    and "\<not> foreign (gs_gpu_owner g) (l_lease_id l) (gpu_uuids l)"
  shows "claims_free l g"
proof -
  have n: "holds_none (l_lease_id l) g" by (rule owner_inv_None [OF assms(1,2)])
  show ?thesis
    unfolding claims_free_def
  proof (intro conjI ballI)
    fix b assume "b \<in> set (bundle_keys l)"
    with assms(3) n show "gs_bundle_owner g b = None" unfolding foreign_def holds_none_def by metis
  next
    fix u assume "u \<in> set (gpu_uuids l)"
    with assms(4) n show "gs_gpu_owner g u = None" unfolding foreign_def holds_none_def by metis
  qed
qed

text \<open>The state after a lease was opened.\<close>

definition opened :: "lease \<Rightarrow> gs \<Rightarrow> gs" where
  "opened l g = g\<lparr>gs_leases := (gs_leases g)(l_lease_id l \<mapsto> l),
     gs_history := (case gs_history g (l_lease_id l) of
                      None \<Rightarrow> (gs_history g)(l_lease_id l \<mapsto> []) | Some _ \<Rightarrow> gs_history g),
     gs_claim_owner := own_all (claim_ids l) (l_lease_id l) (gs_claim_owner g)\<rparr>"

lemma gs_open_cases:
  obtains "snd (gs_open_lease l0 g) = g"
  | l where "gs_leases g (l_lease_id l) = None" "relabel l0 = Inr l"
      "\<not> foreign (gs_claim_owner g) (l_lease_id l) (claim_ids l)"
      "\<not> foreign (gs_bundle_owner g) (l_lease_id l) (bundle_keys l)"
      "\<not> foreign (gs_gpu_owner g) (l_lease_id l) (gpu_uuids l)"
      "gs_open_lease l0 g = (relabel l, take_claims l (opened l g))"
proof (cases "gs_leases g (l_lease_id l0)")
  case (Some e)
  then show ?thesis using that(1) by (simp add: gs_open_lease_def)
next
  case None
  show ?thesis
  proof (cases "relabel l0")
    case (Inl x)
    with None show ?thesis using that(1) by (simp add: gs_open_lease_def)
  next
    case (Inr l)
    have id: "l_lease_id l = l_lease_id l0" using relabel_Inr [OF Inr] by simp
    show ?thesis
    proof (cases "foreign (gs_claim_owner g) (l_lease_id l) (claim_ids l)
        \<or> foreign (gs_bundle_owner g) (l_lease_id l) (bundle_keys l)
        \<or> foreign (gs_gpu_owner g) (l_lease_id l) (gpu_uuids l)")
      case True
      with None Inr show ?thesis by (intro that(1)) (auto simp: gs_open_lease_def Let_def)
    next
      case False
      with None Inr show ?thesis
        by (intro that(2) [of l])
          (simp_all add: gs_open_lease_def Let_def opened_def id [symmetric] split: option.split)
    qed
  qed
qed

lemma claim_inv_opened:
  assumes inv: "claim_inv g" and new: "gs_leases g (l_lease_id l) = None"
    and free: "\<not> foreign (gs_claim_owner g) (l_lease_id l) (claim_ids l)"
  shows "claim_inv (opened l g)"
proof -
  have none: "gs_claim_owner g c = None" if "c \<in> set (claim_ids l)" for c
    using that free inv new unfolding foreign_def claim_inv_def by (metis option.distinct(1))
  have old: "gs_claim_owner g c = Some j \<longleftrightarrow> (\<exists>k. gs_leases g j = Some k \<and> c \<in> set (claim_ids k))"
    for c j using inv by (simp add: claim_inv_def)
  show ?thesis
    unfolding claim_inv_def
  proof (intro allI)
    fix c j
    show "gs_claim_owner (opened l g) c = Some j
        \<longleftrightarrow> (\<exists>k. gs_leases (opened l g) j = Some k \<and> c \<in> set (claim_ids k))"
      using none [of c] old [of c j] new
      by (cases "c \<in> set (claim_ids l)"; cases "j = l_lease_id l") (auto simp: opened_def own_all_eq)
  qed
qed

lemma gs_open_inv:
  assumes inv: "gs_inv g"
  shows "gs_inv (snd (gs_open_lease l0 g))"
proof (cases rule: gs_open_cases [of l0 g])
  case 1
  with inv show ?thesis by simp
next
  case (2 l)
  have og: "owner_inv g" using inv by (simp add: gs_inv_def)
  have own: "owner_inv (opened l g)"
    by (rule owner_inv_add_lease [OF og 2(1)]) (simp_all add: opened_def)
  have "claims_free l g" by (rule foreign_free [OF og 2(1,4,5)])
  then have "claims_free l (opened l g)" by (simp add: claims_free_def opened_def)
  moreover have "gs_leases (opened l g) (l_lease_id l) = Some l" by (simp add: opened_def)
  ultimately have "owner_inv (take_claims l (opened l g))" using owner_inv_take [OF own] by blast
  moreover have "lease_inv (take_claims l (opened l g))"
    using inv relabel_Inr [OF 2(2)] by (simp add: gs_inv_def lease_inv_def opened_def)
  moreover have "claim_inv (take_claims l (opened l g))"
    using claim_inv_opened [of g l] inv 2 by (simp add: gs_inv_def claim_inv_def)
  moreover have "intent_inv (take_claims l (opened l g))"
    using inv by (auto simp: gs_inv_def intent_inv_def opened_def)
  ultimately show ?thesis using 2 by (simp add: gs_inv_def)
qed

text \<open>Submitting: either nothing changes, or a checked new command is staged.\<close>

lemma gs_submit_cases:
  obtains "snd (gs_submit_operation now m c rep g) = g"
  | l where "gs_leases g (c_lease_id c) = Some l" "gs_commands g (c_operation_id c) = None"
      "new_command_check now m c l g = None" "gs_runners g (task_session (c_target c)) \<noteq> None"
      "gs_submit_operation now m c rep g = (check_reply c rep, stage_command c l g)"
proof (cases "gs_leases g (c_lease_id c)")
  case None
  then show ?thesis using that(1) by (simp add: gs_submit_operation_def)
next
  case l: (Some l)
  show ?thesis
  proof (cases "gs_commands g (c_operation_id c)")
    case (Some p)
    with l show ?thesis using that(1) by (simp add: gs_submit_operation_def)
  next
    case None
    show ?thesis
    proof (cases "new_command_check now m c l g = None \<and> gs_runners g (task_session (c_target c)) \<noteq> None")
      case True
      with l None show ?thesis by (intro that(2) [of l]) (auto simp: gs_submit_operation_def)
    next
      case False
      with l None show ?thesis
        by (intro that(1)) (auto simp: gs_submit_operation_def split: option.split)
    qed
  qed
qed

lemma restore_check_free:
  "new_command_check now m c l g = None \<Longrightarrow> c_kind c = RESTORE \<Longrightarrow> claims_free l g"
  by (auto simp: new_command_check_def kind_check_def claims_free_def Let_def split: if_splits)

lemma stage_fields [simp]:
  "gs_leases (stage_command c l g) = gs_leases g"
  "gs_commands (stage_command c l g) = (gs_commands g)(c_operation_id c \<mapsto> c)"
  "gs_evidence (stage_command c l g) = gs_evidence g"
  "gs_handoff (stage_command c l g) = gs_handoff g"
  "gs_claim_owner (stage_command c l g) = gs_claim_owner g"
  "gs_history (stage_command c l g) = gs_history g"
  by (cases "c_kind c"; simp add: stage_command_def Let_def)+

lemma stage_owners:
  assumes "l_lease_id l = c_lease_id c"
  shows "gs_bundle_owner (stage_command c l g) =
      (if c_kind c = RESTORE then gs_bundle_owner (take_claims l g) else gs_bundle_owner g)"
    and "gs_gpu_owner (stage_command c l g) =
      (if c_kind c = RESTORE then gs_gpu_owner (take_claims l g) else gs_gpu_owner g)"
  using assms by (cases "c_kind c"; simp add: stage_command_def Let_def take_claims_def)+

lemma intent_inv_command:
  assumes inv: "intent_inv g" and l: "gs_leases g (c_lease_id c) = Some l"
    and new: "gs_commands g (c_operation_id c) = None"
  shows "intent_inv (stage_command c l g)"
proof -
  have "oid \<noteq> c_operation_id c" if "gs_evidence g (lid, oid) = Some ev" for lid oid ev
    using that inv new unfolding intent_inv_def by (metis option.distinct(1))
  then show ?thesis using inv l unfolding intent_inv_def stage_fields by (simp; blast)
qed

lemma gs_submit_inv:
  assumes inv: "gs_inv g"
  shows "gs_inv (snd (gs_submit_operation now m c rep g))"
proof (cases rule: gs_submit_cases [of now m c rep g])
  case 1
  with inv show ?thesis by simp
next
  case (2 l)
  have lid: "l_lease_id l = c_lease_id c" using inv 2(1) by (simp add: gs_inv_def lease_inv_def)
  have "owner_inv (stage_command c l g)"
  proof (cases "c_kind c = RESTORE")
    case True
    have "owner_inv (take_claims l g)"
      using inv 2(1) lid restore_check_free [OF 2(3) True]
      by (intro owner_inv_take) (simp_all add: gs_inv_def)
    then show ?thesis
      by (rule owner_inv_fields) (simp_all add: stage_owners [where c = c, OF lid] True)
  next
    case False
    from inv have "owner_inv g" by (simp add: gs_inv_def)
    then show ?thesis
      by (rule owner_inv_fields) (simp_all add: stage_owners [where c = c, OF lid] False)
  qed
  moreover have "intent_inv (stage_command c l g)"
    by (rule intent_inv_command) (use inv 2(1,2) in \<open>simp_all add: gs_inv_def\<close>)
  ultimately show ?thesis
    using inv 2(5) by (simp add: gs_inv_def lease_inv_def claim_inv_def)
qed

text \<open>Advancing: either nothing changes, or checked evidence takes effect.\<close>

lemma gs_advance_cases:
  obtains "snd (gs_advance_lease lid ev g) = g"
  | l c where "gs_leases g lid = Some l" "gs_commands g (e_operation_id ev) = Some c"
      "c_lease_id c = lid" "gs_evidence g (lid, e_operation_id ev) = None"
      "advance_check c ev lid l g = None"
      "gs_advance_lease lid ev g =
        (Inr \<lparr>ar_lease_id = lid, ar_operation_id = e_operation_id ev,
             ar_flag = fst (advance_effect c ev lid l g)\<rparr>, snd (advance_effect c ev lid l g))"
proof (cases "gs_leases g lid")
  case None
  then show ?thesis using that(1) by (simp add: gs_advance_lease_def)
next
  case l: (Some l)
  show ?thesis
  proof (cases "gs_commands g (e_operation_id ev)")
    case None
    with l show ?thesis using that(1) by (simp add: gs_advance_lease_def)
  next
    case c: (Some c)
    show ?thesis
    proof (cases "c_lease_id c = lid \<and> gs_evidence g (lid, e_operation_id ev) = None
        \<and> advance_check c ev lid l g = None")
      case True
      with l c show ?thesis
        using that(2) by (simp add: gs_advance_lease_def Let_def split_beta)
    next
      case False
      with l c show ?thesis
        using that(1) by (auto simp: gs_advance_lease_def Let_def split: option.splits)
    qed
  qed
qed

lemma advance_effect_fields [simp]:
  "gs_leases (snd (advance_effect c ev lid l g)) = gs_leases g"
  "gs_commands (snd (advance_effect c ev lid l g)) = gs_commands g"
  "gs_evidence (snd (advance_effect c ev lid l g)) =
     (gs_evidence g)((lid, e_operation_id ev) \<mapsto> ev)"
  "gs_claim_owner (snd (advance_effect c ev lid l g)) = gs_claim_owner g"
  by (cases "c_kind c"; simp add: advance_effect_def append_history_def Let_def)+

lemma advance_effect_handoff:
  "gs_handoff (snd (advance_effect c ev lid l g)) =
     (case c_kind c of
        DONATE \<Rightarrow> insert lid (gs_handoff g)
      | RESTORE \<Rightarrow> if e_type ev = RELEASED then gs_handoff g else gs_handoff g - {lid}
      | _ \<Rightarrow> gs_handoff g - {lid})"
  by (cases "c_kind c"; simp add: advance_effect_def append_history_def Let_def)

lemma advance_effect_owners:
  assumes "advance_check c ev lid l g = None"
  shows "gs_bundle_owner (snd (advance_effect c ev lid l g)) =
      (if c_kind c = DONATE then gs_bundle_owner g else gs_bundle_owner (drop_claims l lid g))"
    and "gs_gpu_owner (snd (advance_effect c ev lid l g)) =
      (if c_kind c = DONATE then gs_gpu_owner g else gs_gpu_owner (drop_claims l lid g))"
proof -
  have "disown_all (bundle_keys l) (gs_bundle_owner g) = disown (bundle_keys l) lid (gs_bundle_owner g)
     \<and> disown_all (gpu_uuids l) (gs_gpu_owner g) = disown (gpu_uuids l) lid (gs_gpu_owner g)"
    if "c_kind c = RESTORE"
    using that assms by (auto simp: advance_check_def intro!: disown_all_owned)
  then show "gs_bundle_owner (snd (advance_effect c ev lid l g)) =
      (if c_kind c = DONATE then gs_bundle_owner g else gs_bundle_owner (drop_claims l lid g))"
    and "gs_gpu_owner (snd (advance_effect c ev lid l g)) =
      (if c_kind c = DONATE then gs_gpu_owner g else gs_gpu_owner (drop_claims l lid g))"
    by (cases "c_kind c"; simp add: advance_effect_def append_history_def drop_claims_def Let_def)+
qed

lemma gs_advance_inv:
  assumes inv: "gs_inv g"
  shows "gs_inv (snd (gs_advance_lease lid ev g))"
proof (cases rule: gs_advance_cases [of lid ev g])
  case 1
  with inv show ?thesis by simp
next
  case (2 l c)
  let ?g = "snd (advance_effect c ev lid l g)"
  note own = advance_effect_owners [OF 2(5)]
  have og: "owner_inv g" and od: "owner_inv (drop_claims l lid g)"
    using inv owner_inv_drop 2(1) by (simp_all add: gs_inv_def)
  have "owner_inv ?g"
  proof (cases "c_kind c = DONATE")
    case True
    show ?thesis by (rule owner_inv_fields [OF og]) (simp_all add: own True)
  next
    case False
    show ?thesis by (rule owner_inv_fields [OF od]) (simp_all add: own False)
  qed
  moreover have "intent_inv ?g"
    using inv 2(1-3) unfolding gs_inv_def intent_inv_def advance_effect_fields
    by (auto simp: advance_effect_handoff split: op_kind.splits if_splits)
  ultimately show ?thesis using inv 2(6) by (simp add: gs_inv_def lease_inv_def claim_inv_def)
qed

lemma gs_step_inv: "gs_inv g \<Longrightarrow> gs_inv (gs_step e g)"
  by (cases e) (simp_all add: gs_attach_inv gs_detach_inv gs_idle_inv gs_open_inv gs_submit_inv
      gs_advance_inv)

interpretation gs: invariant_machine gs_inv gs_step
  by unfold_locales (rule gs_step_inv)

lemma gs_run_inv: "gs_inv (fold gs_step es new_gs)"
  by (rule gs.run_inv [OF gs_inv_new])


section \<open>The ledgers are write-once\<close>

lemma gs_commands_kept:
  "gs_commands g oid = Some c \<Longrightarrow> gs_commands (gs_step e g) oid = Some c"
proof (cases e)
  case (GOpen l0)
  then show "gs_commands g oid = Some c \<Longrightarrow> gs_commands (gs_step e g) oid = Some c"
    by (cases rule: gs_open_cases [of l0 g]) (simp_all add: opened_def)
next
  case (GSubmit now m d rep)
  then show "gs_commands g oid = Some c \<Longrightarrow> gs_commands (gs_step e g) oid = Some c"
    by (cases rule: gs_submit_cases [of now m d rep g]) auto
next
  case (GAdvance lid ev)
  then show "gs_commands g oid = Some c \<Longrightarrow> gs_commands (gs_step e g) oid = Some c"
    by (cases rule: gs_advance_cases [of lid ev g]) simp_all
qed (auto simp: gs_attach_task_def gs_detach_task_def gs_submit_idle_report_def Let_def
    split: option.split sum.split)

lemma gs_evidence_kept:
  "gs_evidence g k = Some x \<Longrightarrow> gs_evidence (gs_step e g) k = Some x"
proof (cases e)
  case (GOpen l0)
  then show "gs_evidence g k = Some x \<Longrightarrow> gs_evidence (gs_step e g) k = Some x"
    by (cases rule: gs_open_cases [of l0 g]) (simp_all add: opened_def)
next
  case (GSubmit now m d rep)
  then show "gs_evidence g k = Some x \<Longrightarrow> gs_evidence (gs_step e g) k = Some x"
    by (cases rule: gs_submit_cases [of now m d rep g]) auto
next
  case (GAdvance lid ev)
  then show "gs_evidence g k = Some x \<Longrightarrow> gs_evidence (gs_step e g) k = Some x"
    by (cases rule: gs_advance_cases [of lid ev g]) auto
qed (auto simp: gs_attach_task_def gs_detach_task_def gs_submit_idle_report_def Let_def
    split: option.split sum.split)

lemma gs_leases_kept:
  "gs_leases g lid = Some l \<Longrightarrow> gs_leases (gs_step e g) lid = Some l"
proof (cases e)
  case (GOpen l0)
  then show "gs_leases g lid = Some l \<Longrightarrow> gs_leases (gs_step e g) lid = Some l"
    by (cases rule: gs_open_cases [of l0 g]) (auto simp: opened_def)
next
  case (GSubmit now m d rep)
  then show "gs_leases g lid = Some l \<Longrightarrow> gs_leases (gs_step e g) lid = Some l"
    by (cases rule: gs_submit_cases [of now m d rep g]) auto
next
  case (GAdvance i ev)
  then show "gs_leases g lid = Some l \<Longrightarrow> gs_leases (gs_step e g) lid = Some l"
    by (cases rule: gs_advance_cases [of i ev g]) auto
qed (auto simp: gs_attach_task_def gs_detach_task_def gs_submit_idle_report_def Let_def
    split: option.split sum.split)

interpretation gs_cmds: write_once gs_inv gs_step gs_commands
  by unfold_locales (rule gs_commands_kept)

interpretation gs_evid: write_once gs_inv gs_step gs_evidence
  by unfold_locales (rule gs_evidence_kept)

interpretation gs_lease: write_once gs_inv gs_step gs_leases
  by unfold_locales (rule gs_leases_kept)

section \<open>Handoff\<close>

definition donated :: "string \<Rightarrow> gs \<Rightarrow> bool" where
  \<comment> \<open>some DONATE of the lease has its evidence\<close>
  "donated lid g \<longleftrightarrow> (\<exists>oid c. gs_commands g oid = Some c \<and> c_kind c = DONATE
     \<and> c_lease_id c = lid \<and> gs_evidence g (lid, oid) \<noteq> None)"

definition single_donate :: "gs \<Rightarrow> bool" where
  \<comment> \<open>at most one DONATE was staged for each lease\<close>
  "single_donate g \<longleftrightarrow> (\<forall>o1 o2 c1 c2. gs_commands g o1 = Some c1 \<longrightarrow> gs_commands g o2 = Some c2 \<longrightarrow>
     c_kind c1 = DONATE \<longrightarrow> c_kind c2 = DONATE \<longrightarrow> c_lease_id c1 = c_lease_id c2 \<longrightarrow> o1 = o2)"

definition handoff_ok :: "string \<Rightarrow> lease \<Rightarrow> gs \<Rightarrow> bool" where
  "handoff_ok lid l g \<longleftrightarrow>
     (lid \<in> gs_handoff g \<longrightarrow> donated lid g \<and> holds_all lid l g)
     \<and> (\<not> holds_all lid l g \<longrightarrow> donated lid g)
     \<and> (\<forall>oid c. gs_commands g oid = Some c \<longrightarrow> c_lease_id c = lid \<longrightarrow> c_kind c \<noteq> DONATE \<longrightarrow>
          donated lid g \<and> (c_kind c = RESTORE \<longrightarrow> lid \<notin> gs_handoff g))"

definition handoff_inv :: "gs \<Rightarrow> bool" where
  "handoff_inv g \<longleftrightarrow> (\<forall>lid l. gs_leases g lid = Some l \<longrightarrow> handoff_ok lid l g)"

lemma donated_mono:
  assumes "donated lid g" and "\<And>oid c. gs_commands g oid = Some c \<Longrightarrow> gs_commands g' oid = Some c"
    and "\<And>k. gs_evidence g k \<noteq> None \<Longrightarrow> gs_evidence g' k \<noteq> None"
  shows "donated lid g'"
  using assms unfolding donated_def by metis

lemma single_donate_earlier: "single_donate (gs_step e g) \<Longrightarrow> single_donate g"
  unfolding single_donate_def by (meson gs_commands_kept)

lemma handoff_ok_frame:
  assumes "handoff_ok lid l g" and "lid \<in> gs_handoff g' \<longleftrightarrow> lid \<in> gs_handoff g"
    and "holds_all lid l g' \<longleftrightarrow> holds_all lid l g" and "donated lid g \<Longrightarrow> donated lid g'"
    and "\<And>oid c. gs_commands g' oid = Some c \<Longrightarrow> c_lease_id c = lid \<Longrightarrow> gs_commands g oid = Some c"
  shows "handoff_ok lid l g'"
  using assms unfolding handoff_ok_def by metis

lemma holds_all_take:
  assumes "claims_free k g" and "wf_lease l" and "lid \<noteq> l_lease_id k"
  shows "holds_all lid l (take_claims k g) \<longleftrightarrow> holds_all lid l g"
  using assms by (auto simp: holds_all_def claims_free_def)

lemma holds_all_drop:
  "lid \<noteq> i \<Longrightarrow> holds_all lid l (drop_claims k i g) \<longleftrightarrow> holds_all lid l g"
  by (auto simp: holds_all_def)

lemma holds_all_owners:
  "gs_bundle_owner g' = gs_bundle_owner g \<Longrightarrow> gs_gpu_owner g' = gs_gpu_owner g
    \<Longrightarrow> holds_all lid l g' = holds_all lid l g"
  by (simp add: holds_all_def)

lemma claims_free_not_held: "claims_free l g \<Longrightarrow> wf_lease l \<Longrightarrow> \<not> holds_all lid l g"
  using wf_lease_nonempty [of l] by (cases "gpu_uuids l") (auto simp: claims_free_def holds_all_def)


lemma handoff_inv_fields:
  assumes "handoff_inv g" and "gs_leases g' = gs_leases g" and "gs_commands g' = gs_commands g"
    and "gs_evidence g' = gs_evidence g" and "gs_handoff g' = gs_handoff g"
    and "gs_bundle_owner g' = gs_bundle_owner g" and "gs_gpu_owner g' = gs_gpu_owner g"
  shows "handoff_inv g'"
  using assms by (simp add: handoff_inv_def handoff_ok_def donated_def holds_all_def)

lemma handoff_open:
  assumes inv: "gs_inv g" and h: "handoff_inv g"
  shows "handoff_inv (snd (gs_open_lease l0 g))"
proof (cases rule: gs_open_cases [of l0 g])
  case 1
  with h show ?thesis by simp
next
  case (2 l)
  let ?g = "take_claims l (opened l g)"
  have "claims_free l g" using foreign_free [OF _ 2(1,4,5)] inv by (simp add: gs_inv_def)
  then have free: "claims_free l (opened l g)" by (simp add: claims_free_def opened_def)
  have com: "c_lease_id c \<noteq> l_lease_id l" if "gs_commands g oid = Some c" for oid c
    using that inv 2(1) unfolding gs_inv_def intent_inv_def by metis
  have new: "l_lease_id l \<notin> gs_handoff g" using inv 2(1) unfolding gs_inv_def intent_inv_def by auto
  have "handoff_ok j k ?g" if k: "gs_leases ?g j = Some k" for j k
  proof (cases "j = l_lease_id l")
    case True
    with k have "k = l" by (simp add: opened_def)
    moreover have "holds_all (l_lease_id l) l ?g" by (simp add: holds_all_def)
    ultimately show ?thesis
      using True com new unfolding handoff_ok_def by (simp add: opened_def)
  next
    case False
    with k have old: "gs_leases g j = Some k" by (simp add: opened_def)
    have wf: "wf_lease k" using inv old by (simp add: gs_inv_def lease_inv_def)
    have "handoff_ok j k g" using h old by (simp add: handoff_inv_def)
    then show ?thesis
    proof (rule handoff_ok_frame)
      show "holds_all j k ?g = holds_all j k g"
        using holds_all_take [OF free wf False] by (simp add: holds_all_def opened_def)
    qed (simp_all add: opened_def donated_def split: if_splits)
  qed
  then show ?thesis using 2(6) by (simp add: handoff_inv_def)
qed

lemma check_handoff:
  "new_command_check now m c l g = None \<Longrightarrow> c_kind c \<in> {ADD, REMOVE} \<Longrightarrow> c_lease_id c \<in> gs_handoff g"
  by (auto simp: new_command_check_def kind_check_def Let_def split: if_splits)

lemma handoff_submit:
  assumes inv: "gs_inv g" and h: "handoff_inv g"
  shows "handoff_inv (snd (gs_submit_operation now m c rep g))"
proof (cases rule: gs_submit_cases [of now m c rep g])
  case 1
  with h show ?thesis by simp
next
  case (2 l)
  let ?g = "stage_command c l g"
  have lid: "l_lease_id l = c_lease_id c" and wf: "wf_lease l"
    using inv 2(1) by (simp_all add: gs_inv_def lease_inv_def)
  have don: "donated j ?g" if "donated j g" for j
    by (rule donated_mono [OF that]) (use 2(2) in auto)
  have hl: "holds_all j k ?g = (if c_kind c = RESTORE then holds_all j k (take_claims l g) else holds_all j k g)"
    for j k using stage_owners [where c = c, OF lid] by (simp add: holds_all_def)
  have "handoff_ok j k ?g" if k: "gs_leases ?g j = Some k" for j k
  proof -
    from k have old: "gs_leases g j = Some k" by simp
    have okj: "handoff_ok j k g" using h old by (simp add: handoff_inv_def)
    show ?thesis
    proof (cases "j = c_lease_id c")
      case False
      have wfk: "wf_lease k" using inv old by (simp add: gs_inv_def lease_inv_def)
      from okj show ?thesis
      proof (rule handoff_ok_frame)
        show "holds_all j k ?g = holds_all j k g"
          using holds_all_take [OF _ wfk, of l g j] restore_check_free [OF 2(3)] False lid
          by (simp add: hl)
      qed (use False don in \<open>auto split: if_splits\<close>)
    next
      case True
      with old 2(1) have "k = l" by simp
      show ?thesis
      proof (cases "c_kind c")
        case DONATE
        with okj don show ?thesis
          unfolding handoff_ok_def by (auto simp: hl split: if_splits)
      next
        case ADD
        then have "j \<in> gs_handoff g" using check_handoff [OF 2(3)] True by simp
        with okj don ADD show ?thesis
          unfolding handoff_ok_def by (auto simp: hl split: if_splits)
      next
        case REMOVE
        then have "j \<in> gs_handoff g" using check_handoff [OF 2(3)] True by simp
        with okj don REMOVE show ?thesis
          unfolding handoff_ok_def by (auto simp: hl split: if_splits)
      next
        case RESTORE
        have "\<not> holds_all j l g" by (rule claims_free_not_held [OF restore_check_free [OF 2(3) RESTORE] wf])
        then have "donated j g" "j \<notin> gs_handoff g"
          using okj \<open>k = l\<close> unfolding handoff_ok_def by blast+
        then show ?thesis using don unfolding handoff_ok_def by simp
      qed
    qed
  qed
  then show ?thesis using 2(5) by (simp add: handoff_inv_def)
qed

lemma handoff_advance:
  assumes inv: "gs_inv g" and h: "handoff_inv g" and single: "single_donate g"
  shows "handoff_inv (snd (gs_advance_lease lid ev g))"
proof (cases rule: gs_advance_cases [of lid ev g])
  case 1
  with h show ?thesis by simp
next
  case (2 l c)
  let ?g = "snd (advance_effect c ev lid l g)"
  have don: "donated j ?g" if "donated j g" for j
    by (rule donated_mono [OF that]) auto
  have hl: "holds_all j k ?g = (if c_kind c = DONATE then holds_all j k g else holds_all j k (drop_claims l lid g))"
    for j k using advance_effect_owners [OF 2(5)] by (simp add: holds_all_def)
  have "handoff_ok j k ?g" if k: "gs_leases ?g j = Some k" for j k
  proof -
    from k have old: "gs_leases g j = Some k" by simp
    have okj: "handoff_ok j k g" using h old by (simp add: handoff_inv_def)
    show ?thesis
    proof (cases "j = lid")
      case False
      from okj show ?thesis
      proof (rule handoff_ok_frame)
        show "j \<in> gs_handoff ?g \<longleftrightarrow> j \<in> gs_handoff g"
          using False by (auto simp: advance_effect_handoff split: op_kind.split)
      qed (use False don in \<open>auto simp: hl holds_all_drop\<close>)
    next
      case True
      show ?thesis
      proof (cases "c_kind c = DONATE")
        case True
        have now: "donated lid ?g" unfolding donated_def using 2(2,3) True by auto
        have nd: "\<not> donated lid g"
        proof
          assume "donated lid g"
          then obtain oid d where d: "gs_commands g oid = Some d" "c_kind d = DONATE"
            "c_lease_id d = lid" "gs_evidence g (lid, oid) \<noteq> None" unfolding donated_def by blast
          then have "oid = e_operation_id ev"
            using single 2(2,3) True unfolding single_donate_def by metis
          with d 2(4) show False by simp
        qed
        with okj \<open>j = lid\<close> have "holds_all lid k g" and
          "\<And>oid d. gs_commands g oid = Some d \<Longrightarrow> c_lease_id d = lid \<Longrightarrow> c_kind d = DONATE"
          unfolding handoff_ok_def by blast+
        with now True \<open>j = lid\<close> show ?thesis unfolding handoff_ok_def by (simp add: hl)
      next
        case False
        with okj 2(2,3) \<open>j = lid\<close> have d: "donated lid g" "c_kind c = RESTORE \<Longrightarrow> lid \<notin> gs_handoff g"
          unfolding handoff_ok_def by blast+
        then have "lid \<notin> gs_handoff ?g"
          using False by (cases "c_kind c") (auto simp: advance_effect_handoff)
        with don [OF d(1)] \<open>j = lid\<close> show ?thesis unfolding handoff_ok_def by simp
      qed
    qed
  qed
  then show ?thesis using 2(6) by (simp add: handoff_inv_def)
qed

definition gs_inv2 :: "gs \<Rightarrow> bool" where
  "gs_inv2 g \<longleftrightarrow> gs_inv g \<and> (single_donate g \<longrightarrow> handoff_inv g)"

lemma gs_inv2_new: "gs_inv2 new_gs"
  by (simp add: gs_inv2_def gs_inv_new) (simp add: handoff_inv_def new_gs_def)

lemma gs_step_inv2:
  assumes "gs_inv2 g"
  shows "gs_inv2 (gs_step e g)"
proof -
  have inv: "gs_inv g" using assms by (simp add: gs_inv2_def)
  have "handoff_inv (gs_step e g)" if s: "single_donate (gs_step e g)"
  proof -
    have single: "single_donate g" by (rule single_donate_earlier [OF s])
    with assms have h: "handoff_inv g" by (simp add: gs_inv2_def)
    show ?thesis
    proof (cases e)
      case (GAttach t r)
      then show ?thesis using h
        by (auto simp: gs_attach_task_def split: option.split intro: handoff_inv_fields)
    next
      case (GDetach t)
      then show ?thesis using h by (auto simp: gs_detach_task_def intro: handoff_inv_fields)
    next
      case (GIdle m rep)
      then show ?thesis using h
        by (auto simp: gs_submit_idle_report_def Let_def split: option.split sum.split
            intro: handoff_inv_fields)
    qed (use h inv single in \<open>simp_all add: handoff_open handoff_submit handoff_advance\<close>)
  qed
  with gs_step_inv [OF inv] show ?thesis by (simp add: gs_inv2_def)
qed

interpretation gs2: invariant_machine gs_inv2 gs_step
  by unfold_locales (rule gs_step_inv2)


section \<open>Evidence behind a handoff\<close>

definition evidence_inv :: "gs \<Rightarrow> bool" where
  "evidence_inv g \<longleftrightarrow>
     (\<forall>lid oid ev c l. gs_evidence g (lid, oid) = Some ev \<longrightarrow> gs_commands g oid = Some c \<longrightarrow>
        gs_leases g lid = Some l \<longrightarrow> c_kind c \<noteq> RESTORE \<longrightarrow> e_type ev = RELEASED \<and> covers_claims ev l)
     \<and> (\<forall>lid oid ev c. gs_evidence g (lid, oid) = Some ev \<longrightarrow> gs_commands g oid = Some c \<longrightarrow>
        c_kind c = RESTORE \<longrightarrow> e_type ev \<in> {SERVICE_COMMITTED, RELEASED})
     \<and> (\<forall>lid \<in> gs_handoff g. donated lid g)"

lemma evidence_inv_new: "evidence_inv new_gs"
  by (simp add: evidence_inv_def new_gs_def)

lemma evidence_inv_grow:
  assumes inv: "gs_inv g" and ev: "evidence_inv g" and e: "gs_evidence g' = gs_evidence g"
    and h: "gs_handoff g' = gs_handoff g"
    and c: "\<And>oid c. gs_commands g oid = Some c \<Longrightarrow> gs_commands g' oid = Some c"
    and l: "\<And>lid l. gs_leases g lid = Some l \<Longrightarrow> gs_leases g' lid = Some l"
  shows "evidence_inv g'"
proof -
  have old: "\<exists>c l. gs_commands g oid = Some c \<and> gs_leases g lid = Some l"
    if "gs_evidence g (lid, oid) = Some x" for lid oid x
    using inv that unfolding gs_inv_def intent_inv_def by (metis option.exhaust)
  have don: "donated lid g'" if "donated lid g" for lid
    using that by (rule donated_mono) (simp_all add: c e)
  show ?thesis
    unfolding evidence_inv_def e h
  proof (intro conjI allI impI ballI)
    fix lid oid x d k
    assume x: "gs_evidence g (lid, oid) = Some x" and d: "gs_commands g' oid = Some d"
      and k: "gs_leases g' lid = Some k" and n: "c_kind d \<noteq> RESTORE"
    from old [OF x] c d l k have "gs_commands g oid = Some d" "gs_leases g lid = Some k" by force+
    with ev x n show "e_type x = RELEASED" "covers_claims x k" unfolding evidence_inv_def by blast+
  next
    fix lid oid x d
    assume x: "gs_evidence g (lid, oid) = Some x" and d: "gs_commands g' oid = Some d"
      and n: "c_kind d = RESTORE"
    from old [OF x] c d have "gs_commands g oid = Some d" by force
    with ev x n show "e_type x \<in> {SERVICE_COMMITTED, RELEASED}" unfolding evidence_inv_def by blast
  next
    fix lid assume "lid \<in> gs_handoff g"
    with ev don show "donated lid g'" unfolding evidence_inv_def by blast
  qed
qed

lemma advance_check_type:
  assumes "advance_check c ev lid l g = None"
  shows "c_kind c \<noteq> RESTORE \<Longrightarrow> e_type ev = RELEASED \<and> covers_claims ev l"
    and "c_kind c = RESTORE \<Longrightarrow> e_type ev \<in> {SERVICE_COMMITTED, RELEASED}"
  using assms by (cases "c_kind c"; auto simp: advance_check_def split: if_splits)+

lemma evidence_inv_advance:
  assumes inv: "gs_inv g" and evi: "evidence_inv g"
  shows "evidence_inv (snd (gs_advance_lease lid ev g))"
proof (cases rule: gs_advance_cases [of lid ev g])
  case 1
  with evi show ?thesis by simp
next
  case (2 l c)
  let ?g = "snd (advance_effect c ev lid l g)"
  note chk = advance_check_type [OF 2(5)]
  have don: "donated j ?g" if "donated j g" for j
    using that by (rule donated_mono) auto
  have "evidence_inv ?g"
    unfolding evidence_inv_def advance_effect_fields
  proof (intro conjI allI impI ballI)
    fix i oid x d k
    assume "((gs_evidence g)((lid, e_operation_id ev) \<mapsto> ev)) (i, oid) = Some x"
      "gs_commands g oid = Some d" "gs_leases g i = Some k" "c_kind d \<noteq> RESTORE"
    then show "e_type x = RELEASED" "covers_claims x k"
      using evi chk(1) 2(1,2) unfolding evidence_inv_def by (auto split: if_splits)
  next
    fix i oid x d
    assume "((gs_evidence g)((lid, e_operation_id ev) \<mapsto> ev)) (i, oid) = Some x"
      "gs_commands g oid = Some d" "c_kind d = RESTORE"
    then show "e_type x \<in> {SERVICE_COMMITTED, RELEASED}"
      using evi chk(2) 2(2) unfolding evidence_inv_def by (auto split: if_splits)
  next
    fix i assume i: "i \<in> gs_handoff ?g"
    show "donated i ?g"
    proof (cases "i \<in> gs_handoff g")
      case True
      with evi don show ?thesis unfolding evidence_inv_def by blast
    next
      case False
      with i have "i = lid" "c_kind c = DONATE"
        by (auto simp: advance_effect_handoff split: op_kind.splits if_splits)
      with 2(2,3) show ?thesis unfolding donated_def by auto
    qed
  qed
  with 2(6) show ?thesis by simp
qed

definition gs_inv3 :: "gs \<Rightarrow> bool" where
  "gs_inv3 g \<longleftrightarrow> gs_inv2 g \<and> evidence_inv g"

lemma gs_step_inv3:
  assumes "gs_inv3 g"
  shows "gs_inv3 (gs_step e g)"
proof -
  have inv: "gs_inv g" and evi: "evidence_inv g" using assms by (simp_all add: gs_inv3_def gs_inv2_def)
  have grow: "evidence_inv (gs_step e g)"
    if "gs_evidence (gs_step e g) = gs_evidence g" "gs_handoff (gs_step e g) = gs_handoff g"
    by (rule evidence_inv_grow [OF inv evi that gs_commands_kept gs_leases_kept])
  have "evidence_inv (gs_step e g)"
  proof (cases e)
    case (GAdvance lid ev)
    with evidence_inv_advance [OF inv evi] show ?thesis by simp
  next
    case (GOpen l0)
    then show ?thesis
      by (intro grow) (cases rule: gs_open_cases [of l0 g]; simp add: opened_def)+
  next
    case (GSubmit now m c rep)
    then show ?thesis
      by (intro grow) (cases rule: gs_submit_cases [of now m c rep g]; simp)+
  qed (intro grow; auto simp: gs_attach_task_def gs_detach_task_def gs_submit_idle_report_def Let_def
      split: option.split sum.split)+
  with gs_step_inv2 assms show ?thesis by (simp add: gs_inv3_def)
qed

interpretation gs3: invariant_machine gs_inv3 gs_step
  by unfold_locales (rule gs_step_inv3)

lemma gs_reachable:
  assumes "g = fold gs_step es new_gs"
  shows "gs_inv g" "single_donate g \<Longrightarrow> handoff_inv g" "evidence_inv g" "lease_inv g" "owner_inv g"
    "claim_inv g" "intent_inv g"
proof -
  have "gs_inv3 g"
    unfolding assms by (rule gs3.run_inv) (simp add: gs_inv3_def gs_inv2_new evidence_inv_new)
  then show "gs_inv g" "single_donate g \<Longrightarrow> handoff_inv g" "evidence_inv g" "lease_inv g" "owner_inv g"
    "claim_inv g" "intent_inv g" by (simp_all add: gs_inv3_def gs_inv2_def gs_inv_def)
qed


text \<open>A successful advance recorded its evidence, and a replay will find the reply in it.\<close>

lemma advance_effect_flag:
  "advance_check c ev lid l g = None \<Longrightarrow> replay_flag c ev = Inr (fst (advance_effect c ev lid l g))"
  using advance_check_type [of c ev lid l g]
  by (cases "c_kind c"; cases "e_type ev"; simp add: advance_effect_def replay_flag_def Let_def)

lemma gs_advance_success:
  assumes "gs_advance_lease lid ev g = (Inr r, g')"
  obtains l c where "gs_leases g lid = Some l" "gs_commands g (e_operation_id ev) = Some c"
    "c_lease_id c = lid" "gs_evidence g' (lid, e_operation_id ev) = Some ev"
    "replay_flag c ev = Inr (ar_flag r)"
    "r = \<lparr>ar_lease_id = lid, ar_operation_id = e_operation_id ev, ar_flag = ar_flag r\<rparr>"
proof -
  obtain l c where l: "gs_leases g lid = Some l" and c: "gs_commands g (e_operation_id ev) = Some c"
    "c_lease_id c = lid"
    using assms by (auto simp: gs_advance_lease_def split: option.splits if_splits)
  show ?thesis
  proof (cases "gs_evidence g (lid, e_operation_id ev)")
    case (Some x)
    with assms l c show ?thesis
      by (intro that [OF l c]) (auto simp: gs_advance_lease_def Let_def map_res_Inr_iff split: if_splits)
  next
    case None
    then have chk: "advance_check c ev lid l g = None"
      using assms l c by (cases "advance_check c ev lid l g") (simp_all add: gs_advance_lease_def Let_def)
    with assms l c None show ?thesis
      by (intro that [OF l c])
        (auto simp: gs_advance_lease_def Let_def split_beta advance_effect_flag)
  qed
qed

section \<open>Properties\<close>

lemma relabel_wf: "wf_lease l \<Longrightarrow> relabel l = Inr l"
  unfolding relabel_def by (rule wf_lease_normal)

text \<open>A concrete ledger for the instances below.\<close>

definition demo_claim :: "string \<Rightarrow> string \<Rightarrow> string \<Rightarrow> pydict" where
  "demo_claim cid pg gpu =
     [(''claim_id'', PStr cid), (''source_lease_id'', PStr ''s''), (''donor_task_id'', PStr ''T''),
      (''donor_replica_rank'', PInt 0), (''pg_id'', PStr pg), (''node_id'', PStr ''n''),
      (''gpu_uuid'', PStr gpu), (''bundle_index'', PInt 0),
      (''gpu_fraction'', PFloat (Fin FIRST_RELEASE_RAY_GPU_FRACTION)), (''cpu_request'', PFloat (Fin 1))]"

definition demo_lease :: "string \<Rightarrow> string \<Rightarrow> string \<Rightarrow> string \<Rightarrow> lease" where
  "demo_lease lid cid pg gpu = \<lparr>l_lease_id = lid, l_claims = [demo_claim cid pg gpu], l_expires_at = 0\<rparr>"

definition demo_op :: "string \<Rightarrow> op_kind \<Rightarrow> string \<Rightarrow> op_command" where
  "demo_op oid kind lid = \<lparr>c_operation_id = oid, c_kind = kind,
     c_target = (if kind = ADD \<or> kind = REMOVE then ReplicaKey ''U'' ''b'' 0
                 else ReplicaKey ''T'' ''native-0'' 0), c_lease_id = lid, c_force = None\<rparr>"

definition demo_released :: "string \<Rightarrow> string \<Rightarrow> op_evidence" where
  "demo_released oid gpu =
     \<lparr>e_operation_id = oid, e_type = RELEASED, e_timestamp = 0, e_gpu_uuids = [gpu]\<rparr>"

definition demo_submit :: "string \<Rightarrow> op_kind \<Rightarrow> string \<Rightarrow> gs_event" where
  "demo_submit oid kind lid = GSubmit 0 0 (demo_op oid kind lid)
     (Inr \<lparr>r_operation_id = oid, r_status = ACCEPTED, r_result = None\<rparr>)"

definition demo_gs_events :: "gs_event list" where
  "demo_gs_events = [GAttach ''T'' 1, GAttach ''U'' 2, GOpen (demo_lease ''A'' ''c1'' ''pg'' ''g''),
     demo_submit ''d'' DONATE ''A'', GAdvance ''A'' (demo_released ''d'' ''g'')]"

lemma demo_wf: "lid \<noteq> [] \<Longrightarrow> cid \<noteq> [] \<Longrightarrow> pg \<noteq> [] \<Longrightarrow> gpu \<noteq> [] \<Longrightarrow> wf_lease (demo_lease lid cid pg gpu)"
  by (simp add: wf_lease_def demo_lease_def claim_ids_def gpu_uuids_def bundle_keys_def wf_claim_def
      demo_claim_def pyget_def pyget_default_def is_nonempty_str_iff)

lemma demo_keys [simp]:
  "claim_ids (demo_lease lid cid pg gpu) = [cid]" "gpu_uuids (demo_lease lid cid pg gpu) = [gpu]"
  "bundle_keys (demo_lease lid cid pg gpu) = [(pg, 0)]"
  "first_claim (demo_lease lid cid pg gpu) = demo_claim cid pg gpu"
  "pyget (demo_claim cid pg gpu) ''donor_task_id'' = PStr ''T''"
  "pyget (demo_claim cid pg gpu) ''donor_replica_rank'' = PInt 0"
  "l_lease_id (demo_lease lid cid pg gpu) = lid" "l_expires_at (demo_lease lid cid pg gpu) = 0"
  by (simp_all add: demo_lease_def claim_ids_def gpu_uuids_def bundle_keys_def demo_claim_def
      first_claim_def pyget_def pyget_default_def)

lemma demo_donor [simp]: "target_matches_donor (ReplicaKey ''T'' ''native-0'' 0) (demo_lease lid cid pg gpu)"
  by (simp add: target_matches_donor_def native_replica_key_def mk_replica_key_def nat_str.simps char_of_def bit_0)

lemmas gs_eval = gs_attach_task_def gs_open_lease_def gs_submit_operation_def gs_advance_lease_def
  demo_submit_def demo_op_def demo_released_def new_gs_def Let_def relabel_wf demo_wf foreign_def
  take_claims_def drop_claims_def own_all_def disown_def disown_all_def new_command_check_def last_kind_def
  kind_check_def donate_idle_check_def lease_expired_def stage_command_def check_reply_def
  advance_check_def covers_claims_def advance_effect_def append_history_def replay_flag_def

lemma demo_gs_state:
  "gs_leases (fold gs_step demo_gs_events new_gs) = [''A'' \<mapsto> demo_lease ''A'' ''c1'' ''pg'' ''g'']"
  "gs_handoff (fold gs_step demo_gs_events new_gs) = {''A''}"
  "gs_commands (fold gs_step demo_gs_events new_gs) = [''d'' \<mapsto> demo_op ''d'' DONATE ''A'']"
  "gs_evidence (fold gs_step demo_gs_events new_gs) = [(''A'', ''d'') \<mapsto> demo_released ''d'' ''g'']"
  "gs_gpu_owner (fold gs_step demo_gs_events new_gs) = [''g'' \<mapsto> ''A'']"
  "gs_bundle_owner (fold gs_step demo_gs_events new_gs) = [(''pg'', 0) \<mapsto> ''A'']"
  "gs_borrower (fold gs_step demo_gs_events new_gs) = Map.empty"
  "gs_history (fold gs_step demo_gs_events new_gs) = [''A'' \<mapsto> [''d'']]"
  "gs_runners (fold gs_step demo_gs_events new_gs) = [''T'' \<mapsto> 1, ''U'' \<mapsto> 2]"
  "gs_claim_owner (fold gs_step demo_gs_events new_gs) = [''c1'' \<mapsto> ''A'']"
  by (simp_all add: demo_gs_events_def gs_eval)

text \<open>C1: in every reachable ledger a lease holds exactly its PG bundles and GPUs or nothing at all, and
  a lease that holds something shares no bundle and no GPU with any other lease that does.\<close>

theorem gs_holders_disjoint:
  assumes "g = fold gs_step es new_gs" and "gs_leases g i = Some l"
  shows "({b. gs_bundle_owner g b = Some i} = set (bundle_keys l) \<and> {u. gs_gpu_owner g u = Some i} = set (gpu_uuids l)
      \<or> {b. gs_bundle_owner g b = Some i} = {} \<and> {u. gs_gpu_owner g u = Some i} = {})
    \<and> (\<forall>j k. j \<noteq> i \<and> gs_leases g j = Some k \<and> \<not> holds_none i g \<and> \<not> holds_none j g \<longrightarrow>
         set (bundle_keys l) \<inter> set (bundle_keys k) = {} \<and> set (gpu_uuids l) \<inter> set (gpu_uuids k) = {})"
proof -
  note own = gs_reachable(5) [OF assms(1)]
  have all: "holds_all j k g" if "gs_leases g j = Some k" "\<not> holds_none j g" for j k
    using owner_inv_Some [OF own that(1)] that(2) by blast
  have exact: "{b. gs_bundle_owner g b = Some i} = set (bundle_keys l) \<and> {u. gs_gpu_owner g u = Some i} = set (gpu_uuids l)"
    if "\<not> holds_none i g"
    using all [OF assms(2) that] owner_inv_bundle [OF own assms(2)] owner_inv_gpu [OF own assms(2)]
    unfolding holds_all_def by blast
  have "set (bundle_keys l) \<inter> set (bundle_keys k) = {} \<and> set (gpu_uuids l) \<inter> set (gpu_uuids k) = {}"
    if "j \<noteq> i" "gs_leases g j = Some k" "\<not> holds_none i g" "\<not> holds_none j g" for j k
    using all [OF assms(2) that(3)] all [OF that(2,4)] that(1) unfolding holds_all_def by fastforce
  with exact show ?thesis unfolding holds_none_def by blast
qed

text \<open>C2: as long as no lease got two DONATE operations, every lease whose handoff is ready owns all
  of its bundles and GPUs, and shares none of them with any other lease that is ready.\<close>

theorem gs_handoff_exclusive:
  assumes "g = fold gs_step es new_gs" and "single_donate g" and "gs_leases g i = Some l" and "i \<in> gs_handoff g"
  shows "holds_all i l g \<and> (\<forall>j k. j \<noteq> i \<and> gs_leases g j = Some k \<and> j \<in> gs_handoff g \<longrightarrow>
    set (bundle_keys l) \<inter> set (bundle_keys k) = {} \<and> set (gpu_uuids l) \<inter> set (gpu_uuids k) = {})"
proof -
  have all: "holds_all j k g" if "gs_leases g j = Some k" "j \<in> gs_handoff g" for j k
    using gs_reachable(2) [OF assms(1,2)] that unfolding handoff_inv_def handoff_ok_def by blast
  have "set (bundle_keys l) \<inter> set (bundle_keys k) = {} \<and> set (gpu_uuids l) \<inter> set (gpu_uuids k) = {}"
    if "j \<noteq> i" "gs_leases g j = Some k" "j \<in> gs_handoff g" for j k
    using all [OF assms(3,4)] all [OF that(2,3)] that(1) unfolding holds_all_def by fastforce
  with all [OF assms(3,4)] show ?thesis by blast
qed

text \<open>once an advance succeeded, the same evidence gets the same reply at any later point
  and changes nothing; different evidence for that operation is refused and changes nothing.\<close>

theorem gs_advance_replay:
  assumes "g = fold gs_step es new_gs" and "gs_advance_lease lid ev g = (Inr r, g')"
    and "later = fold gs_step fs g'" and "e_operation_id ev' = e_operation_id ev"
  shows "gs_advance_lease lid ev' later =
    (if ev' = ev then (Inr r, later)
     else (Inl (ValueError ''conflicting lease evidence replay''), later))"
proof -
  obtain l c where l: "gs_leases g lid = Some l" and c: "gs_commands g (e_operation_id ev) = Some c"
    and lid: "c_lease_id c = lid" and rec: "gs_evidence g' (lid, e_operation_id ev) = Some ev"
    and r: "replay_flag c ev = Inr (ar_flag r)"
      "r = \<lparr>ar_lease_id = lid, ar_operation_id = e_operation_id ev, ar_flag = ar_flag r\<rparr>"
    by (rule gs_advance_success [OF assms(2)])
  have g': "g' = gs_step (GAdvance lid ev) g" using assms(2) by simp
  have inv: "gs_inv g'" unfolding g' by (rule gs_step_inv) (rule gs_reachable(1) [OF assms(1)])
  have kept: "gs_leases g' lid = Some l" "gs_commands g' (e_operation_id ev) = Some c"
    unfolding g' by (rule gs_leases_kept [OF l], rule gs_commands_kept [OF c])
  have "gs_leases later lid = Some l" "gs_commands later (e_operation_id ev) = Some c"
      "gs_evidence later (lid, e_operation_id ev) = Some ev"
    unfolding assms(3)
    by (rule gs_lease.run_keeps [OF inv kept(1)], rule gs_cmds.run_keeps [OF inv kept(2)],
        rule gs_evid.run_keeps [OF inv rec])
  with lid r assms(4) show ?thesis by (simp add: gs_advance_lease_def Let_def)
qed

text \<open>an operation intent, once staged, answers every later submission under its operation
  id: the same command changes nothing, any other command is refused.\<close>

theorem gs_submit_replay:
  assumes "g = fold gs_step es new_gs" and "gs_commands g (c_operation_id c) = Some c"
    and "later = fold gs_step fs g"
    and "c_operation_id c' = c_operation_id c" and "gs_leases later (c_lease_id c') \<noteq> None"
  shows "gs_submit_operation now m c' rep later =
    (if c' \<noteq> c then Inl (ValueError ''conflicting operation replay at GroupScheduler'')
     else if gs_runners later (task_session (c_target c)) = None
          then Inl (ValueError ''no TaskRunner is attached'')
     else check_reply c rep, later)"
proof -
  have "gs_commands later (c_operation_id c) = Some c"
    unfolding assms(3) by (rule gs_cmds.run_keeps [OF gs_reachable(1) [OF assms(1)] assms(2)])
  then show ?thesis
    using assms(4,5) by (auto simp: gs_submit_operation_def split: option.split)
qed


text \<open>A second lease of the same donor on another GPU, donated too.\<close>

definition demo_two_events :: "gs_event list" where
  "demo_two_events = demo_gs_events @ [GOpen (demo_lease ''B'' ''c2'' ''pg2'' ''h''),
     demo_submit ''e'' DONATE ''B'', GAdvance ''B'' (demo_released ''e'' ''h'')]"

lemma demo_two_state:
  "gs_leases (fold gs_step demo_two_events new_gs) =
     [''A'' \<mapsto> demo_lease ''A'' ''c1'' ''pg'' ''g'', ''B'' \<mapsto> demo_lease ''B'' ''c2'' ''pg2'' ''h'']"
  "gs_handoff (fold gs_step demo_two_events new_gs) = {''A'', ''B''}"
  "gs_commands (fold gs_step demo_two_events new_gs) =
     [''d'' \<mapsto> demo_op ''d'' DONATE ''A'', ''e'' \<mapsto> demo_op ''e'' DONATE ''B'']"
  "gs_gpu_owner (fold gs_step demo_two_events new_gs) = [''g'' \<mapsto> ''A'', ''h'' \<mapsto> ''B'']"
  by (auto simp: demo_two_events_def demo_gs_events_def gs_eval)

lemma not_holds_none: "gs_gpu_owner g u = Some i \<Longrightarrow> \<not> holds_none i g"
  by (auto simp: holds_none_def)

theorem gs_holders_disjoint_witness:
  "{u. gs_gpu_owner (fold gs_step demo_two_events new_gs) u = Some ''A''} = {''g''}
   \<and> set (gpu_uuids (demo_lease ''A'' ''c1'' ''pg'' ''g'')) \<inter> set (gpu_uuids (demo_lease ''B'' ''c2'' ''pg2'' ''h'')) = {}"
proof -
  let ?g = "fold gs_step demo_two_events new_gs"
  have l: "gs_leases ?g ''A'' = Some (demo_lease ''A'' ''c1'' ''pg'' ''g'')"
    "gs_leases ?g ''B'' = Some (demo_lease ''B'' ''c2'' ''pg2'' ''h'')"
    by (simp_all add: demo_two_state)
  have h: "\<not> holds_none ''A'' ?g" "\<not> holds_none ''B'' ?g"
    by (rule not_holds_none [of _ "''g''"], simp add: demo_two_state)
      (rule not_holds_none [of _ "''h''"], simp add: demo_two_state)
  have "{u. gs_gpu_owner ?g u = Some ''A''} = set (gpu_uuids (demo_lease ''A'' ''c1'' ''pg'' ''g''))"
    using gs_holders_disjoint [OF refl l(1)] h(1) unfolding holds_none_def by blast
  moreover have "''B'' \<noteq> (''A'' :: string)" by simp
  ultimately show ?thesis using gs_holders_disjoint [OF refl l(1)] l(2) h by auto
qed

theorem gs_handoff_exclusive_witness:
  "holds_all ''A'' (demo_lease ''A'' ''c1'' ''pg'' ''g'') (fold gs_step demo_two_events new_gs)"
proof -
  let ?g = "fold gs_step demo_two_events new_gs"
  have "single_donate ?g"
    by (auto simp: single_donate_def demo_two_state demo_op_def split: if_splits)
  moreover have "gs_leases ?g ''A'' = Some (demo_lease ''A'' ''c1'' ''pg'' ''g'')" "''A'' \<in> gs_handoff ?g"
    by (auto simp: demo_two_state)
  ultimately show ?thesis using gs_handoff_exclusive [OF refl] by blast
qed

theorem gs_advance_replay_witness:
  "\<exists>g. fst (gs_advance_lease ''A'' (demo_released ''d'' ''g'') g) =
    Inr \<lparr>ar_lease_id = ''A'', ar_operation_id = ''d'', ar_flag = Released\<rparr>
    \<and> ''A'' \<notin> gs_handoff g"
proof -
  let ?es = "[GAttach ''T'' 1, GAttach ''U'' 2, GOpen (demo_lease ''A'' ''c1'' ''pg'' ''g''),
     demo_submit ''d'' DONATE ''A'']"
  let ?g = "fold gs_step ?es new_gs"
  let ?ev = "demo_released ''d'' ''g''" and ?r = "demo_released ''r'' ''g''"
  let ?fs = "[demo_submit ''a'' ADD ''A'', demo_submit ''r'' REMOVE ''A'', GAdvance ''A'' ?r]"
  have ok: "gs_advance_lease ''A'' ?ev ?g =
      (Inr \<lparr>ar_lease_id = ''A'', ar_operation_id = ''d'', ar_flag = Released\<rparr>,
       snd (gs_advance_lease ''A'' ?ev ?g))"
    by (simp add: gs_eval)
  have "''A'' \<notin> gs_handoff (fold gs_step ?fs (snd (gs_advance_lease ''A'' ?ev ?g)))"
    by (simp add: gs_eval)
  moreover have "fst (gs_advance_lease ''A'' ?ev (fold gs_step ?fs (snd (gs_advance_lease ''A'' ?ev ?g)))) =
      Inr \<lparr>ar_lease_id = ''A'', ar_operation_id = ''d'', ar_flag = Released\<rparr>"
    using gs_advance_replay [OF refl ok refl refl, of ?fs] by (simp only: simp_thms if_True fst_conv)
  ultimately show ?thesis by blast
qed

theorem gs_submit_replay_witness:
  "fst (gs_submit_operation 9 9 (demo_op ''d'' ADD ''A'') (Inl (TimeoutError ''no reply'')) (fold gs_step demo_gs_events new_gs)) =
    Inl (ValueError ''conflicting operation replay at GroupScheduler'')"
proof -
  let ?g = "fold gs_step demo_gs_events new_gs"
  have c: "gs_commands ?g (c_operation_id (demo_op ''d'' DONATE ''A'')) = Some (demo_op ''d'' DONATE ''A'')"
    "c_operation_id (demo_op ''d'' ADD ''A'') = c_operation_id (demo_op ''d'' DONATE ''A'')"
    "gs_leases ?g (c_lease_id (demo_op ''d'' ADD ''A'')) \<noteq> None"
    by (simp_all add: demo_gs_state) (simp_all add: demo_op_def)
  have "fold gs_step [] ?g = ?g" by simp
  from gs_submit_replay [OF refl c(1) this [symmetric] c(2,3), of 9 9 "Inl (TimeoutError ''no reply'')"]
  show ?thesis by (simp add: demo_op_def)
qed


subsection \<open>Admission\<close>

lemma submit_new_checked:
  assumes "gs_commands g (c_operation_id c) = None"
    and "gs_commands (snd (gs_submit_operation now m c rep g)) (c_operation_id c) \<noteq> None"
  obtains l where "gs_leases g (c_lease_id c) = Some l" "new_command_check now m c l g = None"
  using assms by (cases rule: gs_submit_cases [of now m c rep g]) auto

lemma check_add:
  "new_command_check now m c l g = None \<Longrightarrow> c_kind c = ADD \<Longrightarrow>
   c_lease_id c \<in> gs_handoff g \<and> gs_borrower g (c_lease_id c) = None \<and> \<not> lease_expired now l"
  by (auto simp: new_command_check_def kind_check_def Let_def split: if_splits)

text \<open>an ADD is staged only for a lease whose donor already proved, by the RELEASED evidence
  of a DONATE of that very lease, that exactly the GPUs of the lease were freed, that has no
  borrower yet and has not expired.\<close>

theorem gs_add_requires_release:
  assumes "g = fold gs_step es new_gs" and "c_kind c = ADD"
    and "gs_commands g (c_operation_id c) = None"
    and "gs_commands (snd (gs_submit_operation now m c rep g)) (c_operation_id c) \<noteq> None"
  shows "\<exists>l oid d ev. gs_leases g (c_lease_id c) = Some l \<and> gs_commands g oid = Some d
    \<and> c_kind d = DONATE \<and> c_lease_id d = c_lease_id c
    \<and> gs_evidence g (c_lease_id c, oid) = Some ev
    \<and> e_type ev = RELEASED \<and> set (e_gpu_uuids ev) = set (gpu_uuids l)
    \<and> gs_borrower g (c_lease_id c) = None \<and> \<not> lease_expired now l"
proof -
  obtain l where l: "gs_leases g (c_lease_id c) = Some l" and chk: "new_command_check now m c l g = None"
    using submit_new_checked [OF assms(3,4)] by blast
  note add = check_add [OF chk assms(2)]
  note evi = gs_reachable(3) [OF assms(1)]
  from add evi have "donated (c_lease_id c) g" unfolding evidence_inv_def by blast
  then obtain oid d ev where d: "gs_commands g oid = Some d" "c_kind d = DONATE"
      "c_lease_id d = c_lease_id c" "gs_evidence g (c_lease_id c, oid) = Some ev"
    unfolding donated_def by blast
  with evi l have "e_type ev = RELEASED" "covers_claims ev l"
    unfolding evidence_inv_def using op_kind.distinct by metis+
  with l d add show ?thesis unfolding covers_claims_def by blast
qed

theorem gs_add_requires_release_witness:
  "\<exists>oid ev. gs_evidence (fold gs_step demo_gs_events new_gs) (''A'', oid) = Some ev \<and> e_type ev = RELEASED"
proof -
  let ?g = "fold gs_step demo_gs_events new_gs" and ?c = "demo_op ''a'' ADD ''A''"
  let ?rep = "Inr \<lparr>r_operation_id = ''a'', r_status = ACCEPTED, r_result = None\<rparr> :: op_record res"
  have k: "c_kind ?c = ADD" "gs_commands ?g (c_operation_id ?c) = None"
    by (simp_all add: demo_gs_state) (simp_all add: demo_op_def)
  have "gs_commands (snd (gs_submit_operation 0 0 ?c ?rep ?g)) (c_operation_id ?c) \<noteq> None"
    by (simp add: demo_gs_events_def gs_eval)
  from gs_add_requires_release [OF refl k this] have "\<exists>oid ev. gs_evidence ?g (c_lease_id ?c, oid) = Some ev
      \<and> e_type ev = RELEASED" by blast
  then show ?thesis by (simp add: demo_op_def)
qed

text \<open>Claim ids are never given back, physical claims are.\<close>

lemma open_new_Inr_iff:
  assumes "gs_leases g (l_lease_id l) = None" and "wf_lease l"
  shows "(\<exists>r. fst (gs_open_lease l g) = Inr r) \<longleftrightarrow>
    \<not> foreign (gs_claim_owner g) (l_lease_id l) (claim_ids l)
    \<and> \<not> foreign (gs_bundle_owner g) (l_lease_id l) (bundle_keys l)
    \<and> \<not> foreign (gs_gpu_owner g) (l_lease_id l) (gpu_uuids l)"
  using assms by (simp add: gs_open_lease_def relabel_wf Let_def)

lemma claims_free_iff:
  assumes own: "owner_inv g"
  shows "claims_free l g \<longleftrightarrow> (\<forall>j k. gs_leases g j = Some k \<longrightarrow> holds_none j g
      \<or> set (bundle_keys k) \<inter> set (bundle_keys l) = {} \<and> set (gpu_uuids k) \<inter> set (gpu_uuids l) = {})"
    (is "_ = ?R")
proof
  assume free: "claims_free l g"
  show ?R
  proof (intro allI impI)
    fix j k assume "gs_leases g j = Some k"
    from owner_inv_Some [OF own this] show "holds_none j g \<or>
        set (bundle_keys k) \<inter> set (bundle_keys l) = {} \<and> set (gpu_uuids k) \<inter> set (gpu_uuids l) = {}"
      using free unfolding claims_free_def holds_all_def by cases (blast, fastforce)
  qed
next
  assume r: ?R
  have held: "\<exists>k. gs_leases g j = Some k" if "\<not> holds_none j g" for j
    using that owner_inv_None [OF own, of j] by (cases "gs_leases g j") auto
  show "claims_free l g"
    unfolding claims_free_def
  proof (intro conjI ballI)
    fix b assume b: "b \<in> set (bundle_keys l)"
    show "gs_bundle_owner g b = None"
    proof (rule ccontr)
      assume "gs_bundle_owner g b \<noteq> None"
      then obtain j where j: "gs_bundle_owner g b = Some j" by blast
      then have n: "\<not> holds_none j g" unfolding holds_none_def by blast
      then obtain k where k: "gs_leases g j = Some k" using held by blast
      from r n k b owner_inv_bundle [OF own k j] show False by blast
    qed
  next
    fix u assume u: "u \<in> set (gpu_uuids l)"
    show "gs_gpu_owner g u = None"
    proof (rule ccontr)
      assume "gs_gpu_owner g u \<noteq> None"
      then obtain j where j: "gs_gpu_owner g u = Some j" by blast
      then have n: "\<not> holds_none j g" unfolding holds_none_def by blast
      then obtain k where k: "gs_leases g j = Some k" using held by blast
      from r n k u owner_inv_gpu [OF own k j] show False by blast
    qed
  qed
qed

text \<open>a new lease is opened exactly when no lease ever used one of its claim ids and no lease
  currently holding its claims has one of its bundles or GPUs.\<close>

theorem gs_open_admission:
  assumes "g = fold gs_step es new_gs" and "gs_leases g (l_lease_id l) = None" and "wf_lease l"
  shows "(\<exists>r. fst (gs_open_lease l g) = Inr r) \<longleftrightarrow>
    (\<forall>j k. gs_leases g j = Some k \<longrightarrow> set (claim_ids k) \<inter> set (claim_ids l) = {}
       \<and> (holds_none j g \<or> set (bundle_keys k) \<inter> set (bundle_keys l) = {}
             \<and> set (gpu_uuids k) \<inter> set (gpu_uuids l) = {}))"
proof -
  note own = gs_reachable(5) [OF assms(1)] and cl = gs_reachable(6) [OF assms(1)]
  have nocl: "gs_claim_owner g x \<noteq> Some (l_lease_id l)" for x
    using cl assms(2) unfolding claim_inv_def by simp
  have noown: "holds_none (l_lease_id l) g" by (rule owner_inv_None [OF own assms(2)])
  have c: "\<not> foreign (gs_claim_owner g) (l_lease_id l) (claim_ids l) \<longleftrightarrow>
      (\<forall>j k. gs_leases g j = Some k \<longrightarrow> set (claim_ids k) \<inter> set (claim_ids l) = {})"
    using nocl cl unfolding foreign_def claim_inv_def by (auto simp: disjoint_iff)
  have b: "\<not> foreign (gs_bundle_owner g) (l_lease_id l) (bundle_keys l)
      \<and> \<not> foreign (gs_gpu_owner g) (l_lease_id l) (gpu_uuids l) \<longleftrightarrow> claims_free l g"
    using noown unfolding foreign_def claims_free_def holds_none_def by metis
  have f: "claims_free l g \<longleftrightarrow> (\<forall>j k. gs_leases g j = Some k \<longrightarrow> holds_none j g
      \<or> set (bundle_keys k) \<inter> set (bundle_keys l) = {} \<and> set (gpu_uuids k) \<inter> set (gpu_uuids l) = {})"
    by (rule claims_free_iff [OF own])
  show ?thesis unfolding open_new_Inr_iff [OF assms(2,3)] using c b f by blast
qed

theorem gs_open_admission_witness:
  "\<not> (\<exists>r. fst (gs_open_lease (demo_lease ''C'' ''c9'' ''pg9'' ''g'') (fold gs_step demo_gs_events new_gs)) = Inr r)"
proof -
  let ?g = "fold gs_step demo_gs_events new_gs" and ?l = "demo_lease ''C'' ''c9'' ''pg9'' ''g''"
  have n: "gs_leases ?g (l_lease_id ?l) = None" by (simp add: demo_gs_state)
  have w: "wf_lease ?l" by (simp add: demo_wf)
  have A: "gs_leases ?g ''A'' = Some (demo_lease ''A'' ''c1'' ''pg'' ''g'')" "\<not> holds_none ''A'' ?g"
    by (simp add: demo_gs_state, rule not_holds_none [of _ "''g''"], simp add: demo_gs_state)
  show ?thesis unfolding gs_open_admission [OF refl n w] using A by fastforce
qed

subsection \<open>A replayed DONATE outlives its lease\<close>

text \<open>
  The hypothesis \<open>single_donate\<close> of \<open>gs_handoff_exclusive\<close> is needed. A DONATE intent whose
  delivery failed stays staged; once the lease went through a second DONATE, ADD, REMOVE and
  RESTORE and its claims were leased again, replaying the first DONATE passes no phase check, its
  evidence makes the completed lease ready again, and an ADD on it is admitted while another
  lease owns the GPU.
\<close>

definition stale_donate_events :: "gs_event list" where
  "stale_donate_events =
     [GAttach ''T'' 1, GAttach ''U'' 2, GOpen (demo_lease ''A'' ''c1'' ''pg'' ''g''),
      GSubmit 0 0 (demo_op ''d'' DONATE ''A'') (Inl (RuntimeError ''task has an unresolved operation'')),
      demo_submit ''e'' DONATE ''A'', GAdvance ''A'' (demo_released ''e'' ''g''),
      demo_submit ''a'' ADD ''A'', demo_submit ''r'' REMOVE ''A'', GAdvance ''A'' (demo_released ''r'' ''g''),
      demo_submit ''s'' RESTORE ''A'',
      GAdvance ''A'' \<lparr>e_operation_id = ''s'', e_type = SERVICE_COMMITTED, e_timestamp = 1, e_gpu_uuids = []\<rparr>,
      GOpen (demo_lease ''B'' ''c2'' ''pg'' ''g'')]"



end
