(* ===== verification/Load_Balancer.thy ===== *)
theory Load_Balancer
  imports Interfaces Contracts
begin

text \<open>
  Model of \<open>rollout/load_balancer.py\<close>: the request router of one task, which extends the
  native router of \<open>verl\<close> with the replica routes, the life cycle of every request attempt, the
  drain operations and the ledger of published servers.

  The native router is not part of this repository: it is the parameter \<open>N\<close>, a record of its
  operations on an abstract state. Dictionaries whose iteration order the code observes are
  association lists in insertion order, the others are maps.
\<close>

section \<open>The native router\<close>

record ('n, 'h, 'x) native_router =
  nr_servers :: "'n \<Rightarrow> (string \<times> 'h) list"
  nr_acquire :: "string \<Rightarrow> 'x \<Rightarrow> 'n \<Rightarrow> (string \<times> 'h) res \<times> 'n"
  nr_release :: "string \<Rightarrow> string option \<Rightarrow> 'n \<Rightarrow> unit res \<times> 'n"
  nr_add :: "(string \<times> 'h) list \<Rightarrow> 'n \<Rightarrow> unit res \<times> 'n"
  nr_remove :: "string list \<Rightarrow> 'n \<Rightarrow> unit res \<times> 'n"

text \<open>
  What the drain relies on: an admission picks a server of the pool, a removal that returns
  removed the servers it was given, and only \<open>add_servers\<close> adds servers to the pool.
\<close>

definition router_ok :: "('n, 'h, 'x) native_router \<Rightarrow> bool" where
  "router_ok N \<longleftrightarrow>
     (\<forall>r x n sid h. fst (nr_acquire N r x n) = Inr (sid, h) \<longrightarrow> map_of (nr_servers N n) sid \<noteq> None)
     \<and> (\<forall>r x n sid. map_of (nr_servers N n) sid = None \<longrightarrow>
          map_of (nr_servers N (snd (nr_acquire N r x n))) sid = None)
     \<and> (\<forall>v r n sid. map_of (nr_servers N n) sid = None \<longrightarrow>
          map_of (nr_servers N (snd (nr_release N v r n))) sid = None)
     \<and> (\<forall>vs n sid. sid \<notin> fst ` set vs \<longrightarrow> map_of (nr_servers N n) sid = None \<longrightarrow>
          map_of (nr_servers N (snd (nr_add N vs n))) sid = None)
     \<and> (\<forall>vs n sid. map_of (nr_servers N n) sid = None \<longrightarrow>
          map_of (nr_servers N (snd (nr_remove N vs n))) sid = None)
     \<and> (\<forall>vs n sid. fst (nr_remove N vs n) = Inr () \<longrightarrow> sid \<in> set vs \<longrightarrow>
          map_of (nr_servers N (snd (nr_remove N vs n))) sid = None)"

section \<open>State\<close>

record 'n lb =
  lb_native :: 'n
  lb_routes :: "(replica_key \<times> string) list"
  lb_active :: "(string \<times> string) list"
  lb_attempt :: "(string \<times> attempt_state) list"
  lb_draining :: "string \<rightharpoonup> string"
  lb_awaiting :: bool
  lb_ready :: "(string \<times> replica_key \<times> string \<times> op_evidence) list"
  lb_proofs :: "string \<rightharpoonup> string \<times> string \<times> string \<times> op_evidence"
  lb_handoffs :: "string \<rightharpoonup> string list"
  lb_settled_count :: int

definition SETTLED_RETENTION :: int where "SETTLED_RETENTION = 10000"

text \<open>The constructor: the initial routes must name servers of the native pool.\<close>

fun init_routes :: "(string \<times> 'h) list \<Rightarrow> (replica_key \<times> string) list \<Rightarrow> (replica_key \<times> string) list
    \<Rightarrow> (replica_key \<times> string) list res" where
  "init_routes servers routes [] = Inr routes"
| "init_routes servers routes ((key, sid) # rest) =
     (if map_of servers sid = None
      then Inl (ValueError ''initial route references an unknown server'')
      else init_routes servers (AList.update key sid routes) rest)"

definition new_lb :: "('n, 'h, 'x) native_router \<Rightarrow> 'n \<Rightarrow> (replica_key \<times> string) list \<Rightarrow> 'n lb res" where
  "new_lb N n initial =
     map_res (\<lambda>routes. \<lparr>lb_native = n, lb_routes = routes, lb_active = [], lb_attempt = [],
        lb_draining = Map.empty, lb_awaiting = False, lb_ready = [], lb_proofs = Map.empty,
        lb_handoffs = Map.empty, lb_settled_count = 0\<rparr>)
      (init_routes (nr_servers N n) [] initial)"

section \<open>Bounded retention of settled attempts\<close>

fun gc_collect :: "nat \<Rightarrow> (string \<times> string) list \<Rightarrow> string list \<Rightarrow> (string \<times> attempt_state) list \<Rightarrow> string list"
  where
  "gc_collect target active expired [] = expired"
| "gc_collect target active expired ((r, st) # rest) =
     (if st = SETTLED \<and> map_of active r = None
      then (let expired' = expired @ [r] in
            if target \<le> length expired' then expired' else gc_collect target active expired' rest)
      else gc_collect target active expired rest)"

definition gc_settled :: "'n lb \<Rightarrow> 'n lb" where
  "gc_settled s =
     (let overflow = lb_settled_count s - SETTLED_RETENTION in
      if overflow \<le> 0 then s
      else
        (let target = max overflow (SETTLED_RETENTION div 8);
             expired = gc_collect (nat target) (lb_active s) [] (lb_attempt s) in
         s\<lparr>lb_attempt := fold AList.delete expired (lb_attempt s),
           lb_proofs := fold (\<lambda>r m. m(r := None)) expired (lb_proofs s),
           lb_settled_count := lb_settled_count s - int (length expired)\<rparr>))"

section \<open>Requests\<close>

definition lb_acquire ::
    "('n, 'h, 'x) native_router \<Rightarrow> string \<Rightarrow> 'x \<Rightarrow> 'n lb \<Rightarrow> (string \<times> 'h) res \<times> 'n lb" where
  "lb_acquire N r x s =
     (let state = map_of (lb_attempt s) r in
      if state = Some ADMITTED \<or> state = Some TERMINATED
      then (Inl (RuntimeError ''request already has an unsettled generation''), s)
      else
        (case nr_acquire N r x (lb_native s) of
           (Inl e, n) \<Rightarrow> (Inl e, s\<lparr>lb_native := n\<rparr>)
         | (Inr (sid, handle), n) \<Rightarrow>
             (let s1 = s\<lparr>lb_native := n\<rparr>;
                  s2 = (if state = Some SETTLED
                        then s1\<lparr>lb_proofs := (lb_proofs s1)(r := None),
                                lb_settled_count := lb_settled_count s1 - 1\<rparr>
                        else s1) in
              (Inr (sid, handle),
               s2\<lparr>lb_active := AList.update r sid (lb_active s2),
                  lb_attempt := AList.update r ADMITTED (lb_attempt s2)\<rparr>))))"

text \<open>A missing or empty request id skips the ledger and goes to the native router alone.\<close>

definition lb_release ::
    "('n, 'h, 'x) native_router \<Rightarrow> string \<Rightarrow> string option \<Rightarrow> 'n lb \<Rightarrow> unit res \<times> 'n lb" where
  "lb_release N sid rid s =
     (case rid of
        Some (c # cs) \<Rightarrow>
          (let r = c # cs; state = map_of (lb_attempt s) r; owner = map_of (lb_active s) r in
           if owner \<noteq> None \<and> owner \<noteq> Some sid
           then (Inl (ValueError ''request release belongs to another server''), s)
           else if state = Some SETTLED \<or> state = None then (Inr (), s)
           else
             (case nr_release N sid rid (lb_native s) of
                (Inl e, n) \<Rightarrow> (Inl e, s\<lparr>lb_native := n\<rparr>)
              | (Inr _, n) \<Rightarrow>
                  (let s1 = s\<lparr>lb_native := n\<rparr> in
                   (Inr (),
                    if state = Some ADMITTED \<or> state = Some TERMINATED
                    then gc_settled (s1\<lparr>lb_attempt := AList.update r SETTLED (lb_attempt s1),
                                        lb_active := AList.delete r (lb_active s1),
                                        lb_settled_count := lb_settled_count s1 + 1\<rparr>)
                    else s1))))
      | _ \<Rightarrow>
          (case nr_release N sid rid (lb_native s) of
             (Inl e, n) \<Rightarrow> (Inl e, s\<lparr>lb_native := n\<rparr>)
           | (Inr _, n) \<Rightarrow> (Inr (), s\<lparr>lb_native := n\<rparr>)))"

definition lb_query_attempt :: "string \<Rightarrow> 'n lb \<Rightarrow> attempt_state option" where
  "lb_query_attempt r s = map_of (lb_attempt s) r"

definition lb_restore_pending :: "('n, 'h, 'x) native_router \<Rightarrow> 'n lb \<Rightarrow> bool" where
  "lb_restore_pending N s \<longleftrightarrow> lb_awaiting s \<and> nr_servers N (lb_native s) = []"

definition lb_confirm ::
    "int \<Rightarrow> string \<Rightarrow> string \<Rightarrow> string \<Rightarrow> 'n lb \<Rightarrow> op_evidence res \<times> 'n lb" where
  "lb_confirm clock r client digest s =
     (if r = [] \<or> client = [] \<or> digest = []
      then (Inl (ValueError ''continuation fields must be nonempty''), s)
      else
        (case lb_proofs s r of
           Some (client', digest', _, evidence) \<Rightarrow>
             if client' \<noteq> client \<or> digest' \<noteq> digest
             then (Inl (ValueError ''conflicting continuation proof replay''), s)
             else (Inr evidence, s)
         | None \<Rightarrow>
             if map_of (lb_attempt s) r \<noteq> Some ADMITTED
             then (Inl (ValueError ''request is not eligible for continuation''), s)
             else
               (case Option.bind (map_of (lb_active s) r) (lb_draining s) of
                  None \<Rightarrow> (Inl (KeyError ''request is not part of an active drain operation''), s)
                | Some oid \<Rightarrow>
                    (case evidence_now clock oid EXIT_READY [] of
                       Inl e \<Rightarrow> (Inl e, s)
                     | Inr evidence \<Rightarrow>
                         (Inr evidence,
                          s\<lparr>lb_proofs := (lb_proofs s)(r \<mapsto> (client, digest, oid, evidence)),
                            lb_handoffs := (lb_handoffs s)(oid \<mapsto>
                              (let hs = (case lb_handoffs s oid of None \<Rightarrow> [] | Some hs \<Rightarrow> hs) in
                               if r \<in> set hs then hs else hs @ [r])),
                            lb_attempt := AList.update r TERMINATED (lb_attempt s)\<rparr>)))))"

definition lb_handoff_requests :: "string \<Rightarrow> 'n lb \<Rightarrow> string set res" where
  \<comment> \<open>the code returns the set as a sorted tuple\<close>
  "lb_handoff_requests oid s =
     (if oid = [] then Inl (ValueError ''operation_id must be a nonempty string'')
      else Inr (case lb_handoffs s oid of None \<Rightarrow> {} | Some hs \<Rightarrow> set hs))"

definition lb_requests_for_server :: "string \<Rightarrow> 'n lb \<Rightarrow> string list" where
  "lb_requests_for_server sid s = map fst (filter (\<lambda>(r, s'). s' = sid) (lb_active s))"

definition lb_has_unsettled :: "string \<Rightarrow> 'n lb \<Rightarrow> bool" where
  "lb_has_unsettled sid s \<longleftrightarrow>
     (\<exists>r \<in> set (lb_requests_for_server sid s). map_of (lb_attempt s) r = Some ADMITTED)"

section \<open>Publishing a server\<close>

fun ready_conflict ::
    "replica_key \<Rightarrow> string \<Rightarrow> string \<Rightarrow> (string \<times> replica_key \<times> string \<times> op_evidence) list \<Rightarrow> exn option"
  where
  "ready_conflict key sid oid [] = None"
| "ready_conflict key sid oid ((oid', key', sid', _) # rest) =
     (if key' = key \<and> oid' \<noteq> oid then Some (ValueError ''ReplicaKey was published by another operation'')
      else if sid' = sid \<and> key' \<noteq> key
           then Some (ValueError ''server_id is already owned by another ReplicaKey'')
      else ready_conflict key sid oid rest)"

definition lb_commit_ready ::
    "('n, 'h, 'x) native_router \<Rightarrow> int \<Rightarrow> replica_key \<Rightarrow> string \<Rightarrow> 'h option \<Rightarrow> string \<Rightarrow> 'n lb
       \<Rightarrow> op_evidence res \<times> 'n lb" where
  "lb_commit_ready N clock key sid handle oid s =
     (if sid = [] then (Inl (ValueError ''commit_ready requires nonempty server_id''), s)
      else if oid = [] then (Inl (ValueError ''commit_ready requires nonempty operation_id''), s)
      else
        (case handle of
           None \<Rightarrow> (Inl (ValueError ''commit_ready requires server_handle''), s)
         | Some h \<Rightarrow>
             (case map_of (lb_ready s) oid of
                Some (key', sid', evidence) \<Rightarrow>
                  if key' \<noteq> key \<or> sid' \<noteq> sid
                  then (Inl (ValueError ''conflicting ready operation replay''), s)
                  else if map_of (lb_routes s) key \<noteq> Some sid
                          \<or> map_of (nr_servers N (lb_native s)) sid = None
                  then (Inl (RuntimeError ''ready operation ledger disagrees with routing state''), s)
                  else (Inr evidence, s)
              | None \<Rightarrow>
                  if map_of (lb_routes s) key \<noteq> None \<and> map_of (lb_routes s) key \<noteq> Some sid
                  then (Inl (ValueError ''ReplicaKey already routes to another server''), s)
                  else if map_of (nr_servers N (lb_native s)) sid \<noteq> None
                          \<and> map_of (nr_servers N (lb_native s)) sid \<noteq> Some h
                  then (Inl (ValueError ''server_id is already bound to another handle''), s)
                  else
                    (case ready_conflict key sid oid (lb_ready s) of
                       Some e \<Rightarrow> (Inl e, s)
                     | None \<Rightarrow>
                         (case nr_add N [(sid, h)] (lb_native s) of
                            (Inl e, n) \<Rightarrow> (Inl e, s\<lparr>lb_native := n\<rparr>)
                          | (Inr _, n) \<Rightarrow>
                              (let s1 = s\<lparr>lb_native := n, lb_awaiting := False,
                                          lb_routes := AList.update key sid (lb_routes s)\<rparr> in
                               case evidence_now clock oid SERVICE_COMMITTED [] of
                                 Inl e \<Rightarrow> (Inl e, s1)
                               | Inr evidence \<Rightarrow>
                                   (Inr evidence,
                                    s1\<lparr>lb_ready := AList.update oid (key, sid, evidence)
                                                     (lb_ready s1)\<rparr>)))))))"

definition lb_query_ready :: "string \<Rightarrow> 'n lb \<Rightarrow> op_evidence option res" where
  "lb_query_ready oid s =
     (if oid = [] then Inl (ValueError ''operation_id must be a nonempty string'')
      else Inr (case map_of (lb_ready s) oid of None \<Rightarrow> None | Some (_, _, ev) \<Rightarrow> Some ev))"

definition lb_server_for_replica :: "replica_key \<Rightarrow> 'n lb \<Rightarrow> string option" where
  "lb_server_for_replica key s = map_of (lb_routes s) key"

section \<open>Draining and removing a server\<close>

definition lb_begin_drain ::
    "('n, 'h, 'x) native_router \<Rightarrow> replica_key \<Rightarrow> string \<Rightarrow> 'n lb \<Rightarrow> string res \<times> 'n lb" where
  "lb_begin_drain N key oid s =
     (if oid = [] then (Inl (ValueError ''begin_drain requires operation_id''), s)
      else
        (case map_of (lb_routes s) key of
           None \<Rightarrow> (Inl (KeyError ''no route''), s)
         | Some sid \<Rightarrow>
             if lb_draining s sid \<noteq> None \<and> lb_draining s sid \<noteq> Some oid
             then (Inl (ValueError ''server is already draining under another operation''), s)
             else
               (let s1 = s\<lparr>lb_draining := (lb_draining s)(sid \<mapsto> oid)\<rparr> in
                case nr_remove N [sid] (lb_native s1) of
                  (Inl e, n) \<Rightarrow> (Inl e, s1\<lparr>lb_native := n\<rparr>)
                | (Inr _, n) \<Rightarrow>
                    (Inr sid,
                     (if nr_servers N n = [] then s1\<lparr>lb_native := n, lb_awaiting := True\<rparr>
                      else s1\<lparr>lb_native := n\<rparr>)))))"

definition settle_terminated :: "string \<Rightarrow> 'n lb \<Rightarrow> 'n lb" where
  "settle_terminated r s =
     (if map_of (lb_attempt s) r = Some TERMINATED
      then s\<lparr>lb_attempt := AList.update r SETTLED (lb_attempt s),
             lb_active := AList.delete r (lb_active s),
             lb_settled_count := lb_settled_count s + 1\<rparr>
      else s)"

definition lb_finish_remove ::
    "('n, 'h, 'x) native_router \<Rightarrow> replica_key \<Rightarrow> 'n lb \<Rightarrow> unit res \<times> 'n lb" where
  "lb_finish_remove N key s =
     (case map_of (lb_routes s) key of
        None \<Rightarrow> (Inr (), s)
      | Some sid \<Rightarrow>
          if lb_has_unsettled sid s
          then (Inl (ValueError ''cannot remove route while requests remain admitted''), s)
          else
            (let s1 = fold settle_terminated (lb_requests_for_server sid s) s in
             case nr_remove N [sid] (lb_native s1) of
               (Inl e, n) \<Rightarrow> (Inl e, s1\<lparr>lb_native := n\<rparr>)
             | (Inr _, n) \<Rightarrow>
                 (let s2 = s1\<lparr>lb_native := n, lb_draining := (lb_draining s1)(sid := None),
                              lb_handoffs := (case lb_draining s1 sid of
                                 None \<Rightarrow> lb_handoffs s1 | Some oid \<Rightarrow> (lb_handoffs s1)(oid := None))\<rparr>;
                      s3 = gc_settled s2 in
                  (Inr (),
                   s3\<lparr>lb_routes := AList.delete key (lb_routes s3),
                      lb_ready := filter (\<lambda>(oid, key', _). key' \<noteq> key) (lb_ready s3)\<rparr>))))"

section \<open>The router as a machine\<close>

datatype ('h, 'x) lb_event =
    LAcquire string 'x
  | LRelease string "string option"
  | LConfirm int string string string
  | LCommit int replica_key string "'h option" string
  | LDrain replica_key string
  | LFinish replica_key

fun lb_step :: "('n, 'h, 'x) native_router \<Rightarrow> ('h, 'x) lb_event \<Rightarrow> 'n lb \<Rightarrow> 'n lb" where
  "lb_step N (LAcquire r x) s = snd (lb_acquire N r x s)"
| "lb_step N (LRelease v r) s = snd (lb_release N v r s)"
| "lb_step N (LConfirm t r c d) s = snd (lb_confirm t r c d s)"
| "lb_step N (LCommit t k v h oid) s = snd (lb_commit_ready N t k v h oid s)"
| "lb_step N (LDrain k oid) s = snd (lb_begin_drain N k oid s)"
| "lb_step N (LFinish k) s = snd (lb_finish_remove N k s)"

section \<open>The request ledger\<close>

definition settled :: "'n lb \<Rightarrow> string set" where
  "settled s = {r. map_of (lb_attempt s) r = Some SETTLED}"

definition terminated :: "'n lb \<Rightarrow> string set" where
  "terminated s = {r. map_of (lb_attempt s) r = Some TERMINATED}"

definition live :: "attempt_state option \<Rightarrow> bool" where
  "live st \<longleftrightarrow> st = Some ADMITTED \<or> st = Some TERMINATED"

text \<open>Everything but the bound on retention.\<close>

definition ledger_inv :: "'n lb \<Rightarrow> bool" where
  "ledger_inv s \<longleftrightarrow> distinct (map fst (lb_attempt s))
     \<and> dom (map_of (lb_active s)) = {r. live (map_of (lb_attempt s) r)}
     \<and> lb_settled_count s = int (card (settled s))
     \<and> dom (lb_proofs s) \<subseteq> terminated s \<union> settled s
     \<and> terminated s \<subseteq> dom (lb_proofs s)"

text \<open>
  The bound on retention holds while the native router's removals do not raise: \<open>finish_remove\<close>
  settles the handed-off requests before the native removal, and collects after it.
\<close>

definition removal_total :: "('n, 'h, 'x) native_router \<Rightarrow> bool" where
  "removal_total N \<longleftrightarrow> (\<forall>vs n. fst (nr_remove N vs n) = Inr ())"

definition lb_ok :: "('n, 'h, 'x) native_router \<Rightarrow> 'n lb \<Rightarrow> bool" where
  "lb_ok N s \<longleftrightarrow> ledger_inv s \<and> (removal_total N \<longrightarrow> lb_settled_count s \<le> SETTLED_RETENTION)"

definition lb_inv :: "'n lb \<Rightarrow> bool" where
  "lb_inv s \<longleftrightarrow> ledger_inv s \<and> lb_settled_count s \<le> SETTLED_RETENTION"

lemma finite_settled [simp]: "finite (settled s)"
proof -
  have "settled s \<subseteq> dom (map_of (lb_attempt s))" by (auto simp: settled_def)
  then show ?thesis by (rule finite_subset) (rule finite_dom_map_of)
qed

lemma ledger_inv_fields:
  assumes "ledger_inv s" and "lb_attempt s' = lb_attempt s" and "lb_active s' = lb_active s"
    and "lb_settled_count s' = lb_settled_count s" and "lb_proofs s' = lb_proofs s"
  shows "ledger_inv s'"
  using assms unfolding ledger_inv_def settled_def terminated_def by (simp only:)

lemma lb_ok_fields:
  assumes "lb_ok N s" and "lb_attempt s' = lb_attempt s" and "lb_active s' = lb_active s"
    and "lb_settled_count s' = lb_settled_count s" and "lb_proofs s' = lb_proofs s"
  shows "lb_ok N s'"
  using assms ledger_inv_fields [of s s'] by (simp add: lb_ok_def)

lemma ledger_active: "ledger_inv s \<Longrightarrow> map_of (lb_active s) r = None \<longleftrightarrow> \<not> live (map_of (lb_attempt s) r)"
  unfolding ledger_inv_def by blast

lemma ledger_parts:
  assumes "ledger_inv s"
  shows "distinct (map fst (lb_attempt s))" "lb_settled_count s = int (card (settled s))"
    "dom (map_of (lb_active s)) = {r. live (map_of (lb_attempt s) r)}"
    "dom (lb_proofs s) \<subseteq> terminated s \<union> settled s" "terminated s \<subseteq> dom (lb_proofs s)"
  using assms by (simp_all only: ledger_inv_def)

subsection \<open>Garbage collection\<close>

lemma gc_collect_take:
  assumes "length ex < target"
  shows "gc_collect target act ex al =
    ex @ take (target - length ex) (map fst (filter (\<lambda>(r, st). st = SETTLED \<and> map_of act r = None) al))"
  using assms
proof (induction target act ex al rule: gc_collect.induct)
  case (2 target act ex r st rest)
  show ?case
  proof (cases "st = SETTLED \<and> map_of act r = None")
    case True
    show ?thesis
    proof (cases "target \<le> Suc (length ex)")
      case le: True
      with 2(3) have "target - length ex = 1" by simp
      with True le show ?thesis by (simp add: Let_def)
    next
      case gt: False
      then have "target - length ex = Suc (target - Suc (length ex))" by simp
      with 2(1) [OF True refl] True gt show ?thesis by (simp add: Let_def)
    qed
  next
    case False
    with 2(2) [OF False 2(3)] show ?thesis by auto
  qed
qed simp

lemma map_of_fold_delete:
  "map_of (fold AList.delete ks al) = (\<lambda>r. if r \<in> set ks then None else map_of al r)"
  by (induction ks arbitrary: al) (auto simp: fun_eq_iff)

lemma fold_clear: "fold (\<lambda>r m. m(r := None)) ks m = (\<lambda>r. if r \<in> set ks then None else m r)"
  by (induction ks arbitrary: m) (auto simp: fun_eq_iff)

lemma distinct_fold_delete:
  "distinct (map fst al) \<Longrightarrow> distinct (map fst (fold AList.delete ks al))"
  by (induction ks arbitrary: al) (auto simp: distinct_delete)

definition gc_expired :: "'n lb \<Rightarrow> string list" where
  "gc_expired s = (if lb_settled_count s - SETTLED_RETENTION \<le> 0 then []
     else gc_collect (nat (max (lb_settled_count s - SETTLED_RETENTION) (SETTLED_RETENTION div 8)))
            (lb_active s) [] (lb_attempt s))"

lemma gc_settled_eq:
  "gc_settled s = s\<lparr>lb_attempt := fold AList.delete (gc_expired s) (lb_attempt s),
     lb_proofs := fold (\<lambda>r m. m(r := None)) (gc_expired s) (lb_proofs s),
     lb_settled_count := lb_settled_count s - int (length (gc_expired s))\<rparr>"
  by (simp add: gc_settled_def gc_expired_def Let_def)

lemma gc_settled_fields [simp]:
  "lb_native (gc_settled s) = lb_native s" "lb_routes (gc_settled s) = lb_routes s"
  "lb_active (gc_settled s) = lb_active s" "lb_draining (gc_settled s) = lb_draining s"
  "lb_awaiting (gc_settled s) = lb_awaiting s" "lb_ready (gc_settled s) = lb_ready s"
  "lb_handoffs (gc_settled s) = lb_handoffs s"
  by (simp_all add: gc_settled_eq)

lemma gc_attempt: "map_of (lb_attempt (gc_settled s)) r =
    (if r \<in> set (gc_expired s) then None else map_of (lb_attempt s) r)"
  and gc_proofs: "lb_proofs (gc_settled s) r = (if r \<in> set (gc_expired s) then None else lb_proofs s r)"
  by (simp_all add: gc_settled_eq map_of_fold_delete fold_clear)

text \<open>The settled requests, in admission order.\<close>

definition settled_list :: "'n lb \<Rightarrow> string list" where
  "settled_list s = map fst (filter (\<lambda>(r, st). st = SETTLED) (lb_attempt s))"

lemma settled_list_set: "ledger_inv s \<Longrightarrow> set (settled_list s) = settled s"
  unfolding settled_list_def settled_def
  by (auto simp: ledger_parts(1) map_of_eq_Some_iff image_iff)

lemma settled_list_distinct: "ledger_inv s \<Longrightarrow> distinct (settled_list s)"
  unfolding settled_list_def by (rule distinct_map_filter) (rule ledger_parts(1))

lemma gc_expired_take:
  assumes "ledger_inv s" and "SETTLED_RETENTION < lb_settled_count s"
  shows "gc_expired s =
    take (nat (max (lb_settled_count s - SETTLED_RETENTION) (SETTLED_RETENTION div 8))) (settled_list s)"
proof -
  have "map_of (lb_active s) r = None" if "(r, SETTLED) \<in> set (lb_attempt s)" for r
  proof -
    have "map_of (lb_attempt s) r = Some SETTLED"
      using that ledger_parts(1) [OF assms(1)] by (simp add: map_of_eq_Some_iff)
    then show ?thesis by (simp add: ledger_active [OF assms(1)] live_def)
  qed
  then have "filter (\<lambda>(r, st). st = SETTLED \<and> map_of (lb_active s) r = None) (lb_attempt s) =
      filter (\<lambda>(r, st). st = SETTLED) (lb_attempt s)"
    by (intro filter_cong) auto
  with assms(2) show ?thesis
    by (simp add: gc_expired_def gc_collect_take SETTLED_RETENTION_def settled_list_def)
qed

lemma gc_expired_settled: "ledger_inv s \<Longrightarrow> set (gc_expired s) \<subseteq> settled s"
  using settled_list_set gc_expired_take set_take_subset
  by (cases "SETTLED_RETENTION < lb_settled_count s") (force, simp add: gc_expired_def)

lemma gc_keeps_live:
  assumes "ledger_inv s" and "map_of (lb_attempt s) r \<noteq> Some SETTLED"
  shows "map_of (lb_attempt (gc_settled s)) r = map_of (lb_attempt s) r"
  using assms gc_expired_settled [OF assms(1)] by (auto simp: gc_attempt settled_def)

lemma gc_inv:
  assumes inv: "ledger_inv s"
  shows "lb_inv (gc_settled s)"
proof -
  let ?ex = "gc_expired s" and ?g = "gc_settled s"
  note parts = ledger_parts [OF inv]
  have sub: "set ?ex \<subseteq> settled s" by (rule gc_expired_settled [OF inv])
  have set: "settled ?g = settled s - set ?ex" by (auto simp: settled_def gc_attempt)
  have trm: "terminated ?g = terminated s"
    using sub by (auto simp: settled_def terminated_def gc_attempt)
  have proofs: "dom (lb_proofs ?g) = dom (lb_proofs s) - set ?ex"
    by (auto simp: gc_proofs split: if_splits)
  have live: "live (map_of (lb_attempt ?g) r) = live (map_of (lb_attempt s) r)" for r
    using sub by (auto simp: gc_attempt live_def settled_def)
  have count: "lb_settled_count ?g = lb_settled_count s - int (length ?ex)" by (simp add: gc_settled_eq)
  have dist: "distinct ?ex"
    using gc_expired_take [OF inv] settled_list_distinct [OF inv]
    by (cases "SETTLED_RETENTION < lb_settled_count s") (simp_all add: gc_expired_def)
  have len: "length (settled_list s) = card (settled s)"
    using distinct_card [OF settled_list_distinct [OF inv]] settled_list_set [OF inv] by simp
  have cnt: "lb_settled_count ?g = int (card (settled ?g))"
  proof -
    have "card (settled s - set ?ex) = card (settled s) - length ?ex"
      using card_Diff_subset [of "set ?ex" "settled s"] sub distinct_card [OF dist] by simp
    moreover have "length ?ex \<le> card (settled s)"
      using card_mono [OF _ sub] distinct_card [OF dist] by simp
    ultimately show ?thesis by (simp add: count set parts(2))
  qed
  have bound: "lb_settled_count ?g \<le> SETTLED_RETENTION"
  proof (cases "SETTLED_RETENTION < lb_settled_count s")
    case True
    show ?thesis
      unfolding count gc_expired_take [OF inv True] using True
      by (simp add: len parts(2) SETTLED_RETENTION_def max_def)
  next
    case False
    then show ?thesis by (simp add: gc_settled_eq gc_expired_def)
  qed
  have "distinct (map fst (lb_attempt ?g))" by (simp add: gc_settled_eq distinct_fold_delete parts(1))
  moreover have "dom (lb_proofs ?g) \<subseteq> terminated ?g \<union> settled ?g" "terminated ?g \<subseteq> dom (lb_proofs ?g)"
    using parts(4,5) sub unfolding trm set proofs by (auto simp: settled_def terminated_def)
  ultimately show ?thesis
    using cnt bound parts(3) unfolding lb_inv_def ledger_inv_def live by simp
qed


lemma gc_ok: "ledger_inv s \<Longrightarrow> lb_ok N (gc_settled s)"
  by (drule gc_inv) (simp add: lb_ok_def lb_inv_def)

subsection \<open>Every operation keeps the ledger\<close>

definition settle :: "string \<Rightarrow> 'n lb \<Rightarrow> 'n lb" where
  "settle r s = s\<lparr>lb_attempt := AList.update r SETTLED (lb_attempt s),
     lb_active := AList.delete r (lb_active s), lb_settled_count := lb_settled_count s + 1\<rparr>"

lemma settle_fields [simp]:
  "lb_native (settle r s) = lb_native s" "lb_routes (settle r s) = lb_routes s"
  "map_of (lb_attempt (settle r s)) = (map_of (lb_attempt s))(r \<mapsto> SETTLED)"
  "map_of (lb_active (settle r s)) = (map_of (lb_active s))(r := None)"
  "lb_proofs (settle r s) = lb_proofs s" "lb_draining (settle r s) = lb_draining s"
  "lb_awaiting (settle r s) = lb_awaiting s" "lb_ready (settle r s) = lb_ready s"
  "lb_handoffs (settle r s) = lb_handoffs s" "lb_settled_count (settle r s) = lb_settled_count s + 1"
  by (simp_all add: settle_def)

lemma settle_ledger:
  assumes inv: "ledger_inv s" and r: "live (map_of (lb_attempt s) r)"
  shows "ledger_inv (settle r s)"
proof -
  note parts = ledger_parts [OF inv]
  have set: "settled (settle r s) = insert r (settled s)" by (auto simp: settled_def)
  have trm: "terminated (settle r s) = terminated s - {r}" by (auto simp: terminated_def)
  have "r \<notin> settled s" using r by (auto simp: settled_def live_def)
  then have "lb_settled_count (settle r s) = int (card (settled (settle r s)))"
    by (simp add: set parts(2))
  moreover have "distinct (map fst (lb_attempt (settle r s)))"
    by (simp add: settle_def distinct_update parts(1))
  moreover have "dom (map_of (lb_active (settle r s))) = {x. live (map_of (lb_attempt (settle r s)) x)}"
    using parts(3) by (auto simp: live_def)
  moreover have "dom (lb_proofs (settle r s)) \<subseteq> terminated (settle r s) \<union> settled (settle r s)"
    "terminated (settle r s) \<subseteq> dom (lb_proofs (settle r s))"
    using parts(4,5) by (auto simp: set trm)
  ultimately show ?thesis by (simp add: ledger_inv_def)
qed

lemma settle_native:
  "ledger_inv s \<Longrightarrow> live (map_of (lb_attempt s) r) \<Longrightarrow> ledger_inv (settle r (s\<lparr>lb_native := n\<rparr>))"
  by (rule settle_ledger, erule ledger_inv_fields) simp_all

lemma settle_terminated_eq:
  "settle_terminated r s = (if map_of (lb_attempt s) r = Some TERMINATED then settle r s else s)"
  by (simp add: settle_terminated_def settle_def)

lemma settle_all_ledger: "ledger_inv s \<Longrightarrow> ledger_inv (fold settle_terminated rs s)"
  by (induction rs arbitrary: s) (simp_all add: settle_terminated_eq settle_ledger live_def)

definition admit :: "string \<Rightarrow> string \<Rightarrow> 'n lb \<Rightarrow> 'n lb" where
  "admit r sid s =
     (let s2 = (if map_of (lb_attempt s) r = Some SETTLED
                then s\<lparr>lb_proofs := (lb_proofs s)(r := None),
                       lb_settled_count := lb_settled_count s - 1\<rparr> else s) in
      s2\<lparr>lb_active := AList.update r sid (lb_active s2),
         lb_attempt := AList.update r ADMITTED (lb_attempt s2)\<rparr>)"

lemma admit_fields [simp]:
  "lb_native (admit r sid s) = lb_native s" "lb_routes (admit r sid s) = lb_routes s"
  "map_of (lb_attempt (admit r sid s)) = (map_of (lb_attempt s))(r \<mapsto> ADMITTED)"
  "map_of (lb_active (admit r sid s)) = (map_of (lb_active s))(r \<mapsto> sid)"
  "lb_proofs (admit r sid s) =
     (if map_of (lb_attempt s) r = Some SETTLED then (lb_proofs s)(r := None) else lb_proofs s)"
  "lb_draining (admit r sid s) = lb_draining s"
  "lb_awaiting (admit r sid s) = lb_awaiting s" "lb_ready (admit r sid s) = lb_ready s"
  "lb_settled_count (admit r sid s) =
     (if map_of (lb_attempt s) r = Some SETTLED then lb_settled_count s - 1 else lb_settled_count s)"
  by (simp_all add: admit_def)

lemma admit_ledger:
  assumes inv: "ledger_inv s" and r: "\<not> live (map_of (lb_attempt s) r)"
  shows "ledger_inv (admit r sid s)"
proof -
  note parts = ledger_parts [OF inv]
  have set: "settled (admit r sid s) = settled s - {r}" by (auto simp: settled_def)
  have notr: "r \<notin> terminated s" using r by (simp add: terminated_def live_def)
  then have trm: "terminated (admit r sid s) = terminated s" by (auto simp: terminated_def)
  have mem: "r \<in> settled s \<longleftrightarrow> map_of (lb_attempt s) r = Some SETTLED" by (simp add: settled_def)
  have pr: "dom (lb_proofs (admit r sid s)) = dom (lb_proofs s) - {r}"
    using parts(4) notr mem by (auto split: if_splits)
  have "lb_settled_count (admit r sid s) = int (card (settled (admit r sid s)))"
  proof (cases "r \<in> settled s")
    case True
    then have "0 < card (settled s)" using card_gt_0_iff [of "settled s"] by auto
    then show ?thesis using True mem by (simp add: set parts(2) card_Diff_singleton)
  next
    case False
    then show ?thesis using mem by (simp add: set parts(2))
  qed
  moreover have "distinct (map fst (lb_attempt (admit r sid s)))"
    by (simp add: admit_def Let_def distinct_update parts(1))
  moreover have "dom (map_of (lb_active (admit r sid s))) = {x. live (map_of (lb_attempt (admit r sid s)) x)}"
    using parts(3) by (auto simp: live_def)
  moreover have "dom (lb_proofs (admit r sid s)) \<subseteq> terminated (admit r sid s) \<union> settled (admit r sid s)"
    "terminated (admit r sid s) \<subseteq> dom (lb_proofs (admit r sid s))"
    using parts(4,5) notr unfolding set trm pr by auto
  ultimately show ?thesis by (simp only: ledger_inv_def)
qed

text \<open>The operations, each as a case distinction on what it did.\<close>

lemma lb_acquire_cases:
  obtains e n where "lb_acquire N r x s = (Inl e, s\<lparr>lb_native := n\<rparr>)"
      "n = lb_native s \<or> n = snd (nr_acquire N r x (lb_native s))"
  | sid h where "nr_acquire N r x (lb_native s) = (Inr (sid, h), snd (nr_acquire N r x (lb_native s)))"
      "\<not> live (map_of (lb_attempt s) r)"
      "lb_acquire N r x s =
         (Inr (sid, h), admit r sid (s\<lparr>lb_native := snd (nr_acquire N r x (lb_native s))\<rparr>))"
proof (cases "live (map_of (lb_attempt s) r)")
  case True
  have "s\<lparr>lb_native := lb_native s\<rparr> = s" by simp
  with True show ?thesis by (intro that(1)) (auto simp: lb_acquire_def live_def)
next
  case False
  obtain q n where qn: "nr_acquire N r x (lb_native s) = (q, n)" by (cases "nr_acquire N r x (lb_native s)")
  show ?thesis
  proof (cases q)
    case (Inl e)
    with qn False show ?thesis by (intro that(1) [of e n]) (auto simp: lb_acquire_def live_def)
  next
    case (Inr p)
    obtain sid h where "p = (sid, h)" by (cases p)
    with Inr qn False show ?thesis
      by (intro that(2) [of sid h]) (auto simp: lb_acquire_def live_def admit_def Let_def)
  qed
qed

lemma lb_release_cases:
  obtains q n where "lb_release N sid rid s = (q, s\<lparr>lb_native := n\<rparr>)"
      "n = lb_native s \<or> n = snd (nr_release N sid rid (lb_native s))"
  | r where "rid = Some r" "live (map_of (lb_attempt s) r)" "map_of (lb_active s) r \<in> {None, Some sid}"
      "lb_release N sid rid s =
         (Inr (), gc_settled (settle r (s\<lparr>lb_native := snd (nr_release N sid rid (lb_native s))\<rparr>)))"
proof -
  obtain q n where qn: "nr_release N sid rid (lb_native s) = (q, n)"
    by (cases "nr_release N sid rid (lb_native s)")
  have same: "s\<lparr>lb_native := lb_native s\<rparr> = s" by simp
  show ?thesis
  proof (cases "\<exists>c cs. rid = Some (c # cs)")
    case False
    then have "lb_release N sid rid s = (case q of Inl e \<Rightarrow> Inl e | Inr _ \<Rightarrow> Inr (), s\<lparr>lb_native := n\<rparr>)"
      using qn by (auto simp: lb_release_def split: option.split list.split sum.split)
    with qn show ?thesis by (intro that(1)) auto
  next
    case True
    then obtain r where r: "rid = Some r" "r \<noteq> []" by auto
    then have rel: "lb_release N sid rid s = (let state = map_of (lb_attempt s) r; owner = map_of (lb_active s) r in
           if owner \<noteq> None \<and> owner \<noteq> Some sid
           then (Inl (ValueError ''request release belongs to another server''), s)
           else if state = Some SETTLED \<or> state = None then (Inr (), s)
           else case q of Inl e \<Rightarrow> (Inl e, s\<lparr>lb_native := n\<rparr>)
                | Inr _ \<Rightarrow> (Inr (), if live state then gc_settled (settle r (s\<lparr>lb_native := n\<rparr>))
                     else s\<lparr>lb_native := n\<rparr>))"
      using qn by (cases r) (simp_all add: lb_release_def Let_def live_def settle_def split: sum.split)
    consider "map_of (lb_active s) r \<notin> {None, Some sid}"
      | "\<not> live (map_of (lb_attempt s) r)" "map_of (lb_active s) r \<in> {None, Some sid}"
      | e where "live (map_of (lb_attempt s) r)" "map_of (lb_active s) r \<in> {None, Some sid}" "q = Inl e"
      | u where "live (map_of (lb_attempt s) r)" "map_of (lb_active s) r \<in> {None, Some sid}" "q = Inr u"
      by (cases q) blast+
    then show ?thesis
    proof cases
      case 1
      then show ?thesis using same by (intro that(1) [where n = "lb_native s"]) (auto simp: rel Let_def)
    next
      case 2
      then have "map_of (lb_attempt s) r = Some SETTLED \<or> map_of (lb_attempt s) r = None"
        by (cases "map_of (lb_attempt s) r"; cases "the (map_of (lb_attempt s) r)") (auto simp: live_def)
      with 2 have "lb_release N sid rid s = (Inr (), s)" by (auto simp: rel Let_def)
      with same show ?thesis by (intro that(1) [where n = "lb_native s" and q = "Inr ()"]) simp_all
    next
      case 3
      then show ?thesis using qn by (intro that(1) [where n = n and q = "Inl e"]) (auto simp: rel Let_def live_def)
    next
      case 4
      then have "lb_release N sid rid s = (Inr (), gc_settled (settle r (s\<lparr>lb_native := n\<rparr>)))"
        by (auto simp: rel Let_def live_def)
      with 4 qn r show ?thesis by (intro that(2) [of r]) simp_all
    qed
  qed
qed


lemma lb_acquire_inv: "lb_ok N s \<Longrightarrow> lb_ok N (snd (lb_acquire N r x s))"
proof (cases rule: lb_acquire_cases [of N r x s])
  case (1 e n)
  then show "lb_ok N s \<Longrightarrow> lb_ok N (snd (lb_acquire N r x s))" by (auto intro: lb_ok_fields)
next
  case (2 sid h)
  let ?s = "s\<lparr>lb_native := snd (nr_acquire N r x (lb_native s))\<rparr>"
  assume inv: "lb_ok N s"
  then have "lb_ok N ?s" by (rule lb_ok_fields) simp_all
  then show ?thesis
    using 2 admit_ledger [of ?s r sid] by (auto simp: lb_ok_def)
qed

lemma lb_release_inv:
  assumes inv: "lb_ok N s"
  shows "lb_ok N (snd (lb_release N sid rid s))"
proof (cases rule: lb_release_cases [of N sid rid s])
  case (1 q n)
  with inv show ?thesis by (auto intro: lb_ok_fields)
next
  case (2 r)
  let ?s = "s\<lparr>lb_native := snd (nr_release N sid rid (lb_native s))\<rparr>"
  have "ledger_inv ?s" using inv ledger_inv_fields [of s ?s] by (simp add: lb_ok_def)
  then have "ledger_inv (settle r ?s)" by (rule settle_ledger) (simp add: 2(2))
  then show ?thesis unfolding 2(4) snd_conv by (rule gc_ok)
qed

definition confirmed :: "string \<Rightarrow> string \<times> string \<times> string \<times> op_evidence \<Rightarrow> 'n lb \<Rightarrow> 'n lb" where
  "confirmed r prf s = s\<lparr>lb_proofs := (lb_proofs s)(r \<mapsto> prf),
     lb_handoffs := (lb_handoffs s)(fst (snd (snd prf)) \<mapsto>
       (let hs = (case lb_handoffs s (fst (snd (snd prf))) of None \<Rightarrow> [] | Some hs \<Rightarrow> hs) in
        if r \<in> set hs then hs else hs @ [r])),
     lb_attempt := AList.update r TERMINATED (lb_attempt s)\<rparr>"

lemma confirmed_fields [simp]:
  "lb_native (confirmed r p s) = lb_native s" "lb_routes (confirmed r p s) = lb_routes s"
  "map_of (lb_attempt (confirmed r p s)) = (map_of (lb_attempt s))(r \<mapsto> TERMINATED)"
  "lb_active (confirmed r p s) = lb_active s" "lb_proofs (confirmed r p s) = (lb_proofs s)(r \<mapsto> p)"
  "lb_draining (confirmed r p s) = lb_draining s" "lb_awaiting (confirmed r p s) = lb_awaiting s"
  "lb_ready (confirmed r p s) = lb_ready s" "lb_settled_count (confirmed r p s) = lb_settled_count s"
  by (simp_all add: confirmed_def)

lemma lb_confirm_cases:
  obtains q where "lb_confirm t r c d s = (q, s)"
      "\<forall>ev. q = Inr ev \<longrightarrow> (\<exists>oid. lb_proofs s r = Some (c, d, oid, ev)) \<and> r \<noteq> [] \<and> c \<noteq> [] \<and> d \<noteq> []"
  | sid oid ev where "r \<noteq> []" "c \<noteq> []" "d \<noteq> []" "lb_proofs s r = None"
      "map_of (lb_attempt s) r = Some ADMITTED"
      "map_of (lb_active s) r = Some sid" "lb_draining s sid = Some oid"
      "evidence_now t oid EXIT_READY [] = Inr ev"
      "lb_confirm t r c d s = (Inr ev, confirmed r (c, d, oid, ev) s)"
proof (cases "r = [] \<or> c = [] \<or> d = []")
  case True
  then show ?thesis by (intro that(1)) (auto simp: lb_confirm_def)
next
  case ne: False
  show ?thesis
  proof (cases "lb_proofs s r")
    case (Some p)
    obtain c' d' oid ev where "p = (c', d', oid, ev)" by (cases p)
    with Some ne show ?thesis
      by (intro that(1) [of "fst (lb_confirm t r c d s)"]) (auto simp: lb_confirm_def)
  next
    case none: None
    show ?thesis
    proof (cases "map_of (lb_attempt s) r = Some ADMITTED")
      case False
      with none ne show ?thesis by (intro that(1)) (auto simp: lb_confirm_def)
    next
      case adm: True
      show ?thesis
      proof (cases "Option.bind (map_of (lb_active s) r) (lb_draining s)")
        case None
        with none ne adm show ?thesis by (intro that(1)) (auto simp: lb_confirm_def)
      next
        case (Some oid)
        then obtain sid where sid: "map_of (lb_active s) r = Some sid" "lb_draining s sid = Some oid"
          by (auto simp: bind_eq_Some_conv)
        show ?thesis
        proof (cases "evidence_now t oid EXIT_READY []")
          case (Inl e)
          with none ne adm Some show ?thesis by (intro that(1)) (auto simp: lb_confirm_def)
        next
          case (Inr ev)
          with none ne adm Some sid show ?thesis
            by (intro that(2) [of sid oid ev]) (simp_all add: lb_confirm_def confirmed_def)
        qed
      qed
    qed
  qed
qed

lemma confirmed_ledger:
  assumes inv: "ledger_inv s" and r: "map_of (lb_attempt s) r = Some ADMITTED"
  shows "ledger_inv (confirmed r p s)"
proof -
  note parts = ledger_parts [OF inv]
  have notr: "r \<notin> settled s" using r by (simp add: settled_def)
  then have set: "settled (confirmed r p s) = settled s" by (auto simp: settled_def)
  have trm: "terminated (confirmed r p s) = insert r (terminated s)" by (auto simp: terminated_def)
  have "distinct (map fst (lb_attempt (confirmed r p s)))"
    by (simp add: confirmed_def distinct_update parts(1))
  moreover have "dom (map_of (lb_active (confirmed r p s))) = {x. live (map_of (lb_attempt (confirmed r p s)) x)}"
    using parts(3) r by (auto simp: live_def)
  moreover have "dom (lb_proofs (confirmed r p s)) \<subseteq> terminated (confirmed r p s) \<union> settled (confirmed r p s)"
    "terminated (confirmed r p s) \<subseteq> dom (lb_proofs (confirmed r p s))"
    using parts(4,5) unfolding set trm by auto
  ultimately show ?thesis using parts(2) by (simp add: ledger_inv_def set)
qed

lemma lb_confirm_inv:
  assumes inv: "lb_ok N s"
  shows "lb_ok N (snd (lb_confirm t r c d s))"
proof (cases rule: lb_confirm_cases [of t r c d s])
  case (1 q)
  with inv show ?thesis by simp
next
  case (2 sid oid ev)
  with inv confirmed_ledger [of s r] show ?thesis by (simp add: lb_ok_def)
qed


lemma lb_commit_inv:
  assumes inv: "lb_ok N s"
  shows "lb_ok N (snd (lb_commit_ready N t k v h oid s))"
  by (rule lb_ok_fields [OF inv])
    (simp_all add: lb_commit_ready_def Let_def split: option.split prod.split sum.split)

lemma lb_drain_inv:
  assumes inv: "lb_ok N s"
  shows "lb_ok N (snd (lb_begin_drain N k oid s))"
  by (rule lb_ok_fields [OF inv])
    (simp_all add: lb_begin_drain_def Let_def split: option.split prod.split sum.split)

lemma settle_all_fields [simp]:
  "lb_native (fold settle_terminated rs s) = lb_native s"
  "lb_routes (fold settle_terminated rs s) = lb_routes s"
  "lb_proofs (fold settle_terminated rs s) = lb_proofs s"
  "lb_draining (fold settle_terminated rs s) = lb_draining s"
  "lb_awaiting (fold settle_terminated rs s) = lb_awaiting s"
  "lb_ready (fold settle_terminated rs s) = lb_ready s"
  "lb_handoffs (fold settle_terminated rs s) = lb_handoffs s"
  by (induction rs arbitrary: s) (simp_all add: settle_terminated_eq)

lemma settle_all_attempt:
  "map_of (lb_attempt (fold settle_terminated rs s)) r =
     (if r \<in> set rs \<and> map_of (lb_attempt s) r = Some TERMINATED then Some SETTLED
      else map_of (lb_attempt s) r)"
  by (induction rs arbitrary: s) (auto simp: settle_terminated_eq)

lemma settle_all_active:
  "map_of (lb_active (fold settle_terminated rs s)) r =
     (if r \<in> set rs \<and> map_of (lb_attempt s) r = Some TERMINATED then None
      else map_of (lb_active s) r)"
  by (induction rs arbitrary: s) (auto simp: settle_terminated_eq)

text \<open>Removing a route: nothing, a failed native removal, or the whole cleanup.\<close>

definition drained :: "string \<Rightarrow> 'n lb \<Rightarrow> 'n lb" where
  "drained sid s = fold settle_terminated (lb_requests_for_server sid s) s"

definition unpublish :: "replica_key \<Rightarrow> string \<Rightarrow> 'n \<Rightarrow> 'n lb \<Rightarrow> 'n lb" where
  "unpublish key sid n s =
     (let s3 = gc_settled (s\<lparr>lb_native := n, lb_draining := (lb_draining s)(sid := None),
                  lb_handoffs := (case lb_draining s sid of
                     None \<Rightarrow> lb_handoffs s | Some oid \<Rightarrow> (lb_handoffs s)(oid := None))\<rparr>) in
      s3\<lparr>lb_routes := AList.delete key (lb_routes s3),
         lb_ready := filter (\<lambda>(oid, key', _). key' \<noteq> key) (lb_ready s3)\<rparr>)"

lemma lb_finish_cases:
  obtains "map_of (lb_routes s) key = None" "lb_finish_remove N key s = (Inr (), s)"
  | sid where "map_of (lb_routes s) key = Some sid" "lb_has_unsettled sid s"
      "lb_finish_remove N key s =
         (Inl (ValueError ''cannot remove route while requests remain admitted''), s)"
  | sid e n where "map_of (lb_routes s) key = Some sid" "\<not> lb_has_unsettled sid s"
      "nr_remove N [sid] (lb_native s) = (Inl e, n)"
      "lb_finish_remove N key s = (Inl e, (drained sid s)\<lparr>lb_native := n\<rparr>)"
  | sid n where "map_of (lb_routes s) key = Some sid" "\<not> lb_has_unsettled sid s"
      "nr_remove N [sid] (lb_native s) = (Inr (), n)"
      "lb_finish_remove N key s = (Inr (), unpublish key sid n (drained sid s))"
proof (cases "map_of (lb_routes s) key")
  case None
  then show ?thesis by (intro that(1)) (simp_all add: lb_finish_remove_def)
next
  case (Some sid)
  show ?thesis
  proof (cases "lb_has_unsettled sid s")
    case True
    with Some show ?thesis by (intro that(2) [of sid]) (simp_all add: lb_finish_remove_def)
  next
    case False
    obtain q n where qn: "nr_remove N [sid] (lb_native s) = (q, n)" by (cases "nr_remove N [sid] (lb_native s)")
    show ?thesis
    proof (cases q)
      case (Inl e)
      with qn Some False show ?thesis
        by (intro that(3) [of sid e n]) (simp_all add: lb_finish_remove_def drained_def Let_def)
    next
      case (Inr u)
      with qn Some False show ?thesis
        by (intro that(4) [of sid n]) (simp_all add: lb_finish_remove_def drained_def unpublish_def Let_def)
    qed
  qed
qed

lemma lb_finish_inv:
  assumes inv: "lb_ok N s"
  shows "lb_ok N (snd (lb_finish_remove N key s))"
proof (cases rule: lb_finish_cases [of s key N])
  case (3 sid e n)
  then have "\<not> removal_total N" unfolding removal_total_def by (metis fst_conv sum.distinct(1))
  moreover have "ledger_inv (drained sid s)"
    using inv settle_all_ledger unfolding drained_def lb_ok_def by blast
  ultimately show ?thesis
    using 3(4) ledger_inv_fields [of "drained sid s" "(drained sid s)\<lparr>lb_native := n\<rparr>"]
    by (simp add: lb_ok_def)
next
  case (4 sid n)
  let ?d = "(drained sid s)\<lparr>lb_native := n, lb_draining := (lb_draining (drained sid s))(sid := None),
      lb_handoffs := (case lb_draining (drained sid s) sid of
         None \<Rightarrow> lb_handoffs (drained sid s) | Some oid \<Rightarrow> (lb_handoffs (drained sid s))(oid := None))\<rparr>"
  have "ledger_inv (drained sid s)"
    using inv settle_all_ledger unfolding drained_def lb_ok_def by blast
  then have "ledger_inv ?d" by (rule ledger_inv_fields) simp_all
  then have "lb_ok N (gc_settled ?d)" by (rule gc_ok)
  then show ?thesis unfolding 4(4) unpublish_def Let_def snd_conv by (rule lb_ok_fields) simp_all
qed (use inv in simp_all)

lemma lb_step_ok: "lb_ok N s \<Longrightarrow> lb_ok N (lb_step N e s)"
  by (cases e) (simp_all add: lb_acquire_inv lb_release_inv lb_confirm_inv lb_commit_inv lb_drain_inv
      lb_finish_inv)

lemma lb_ok_new: "new_lb N n routes = Inr s \<Longrightarrow> lb_ok N s"
  by (auto simp: new_lb_def map_res_Inr_iff lb_ok_def ledger_inv_def live_def settled_def
      terminated_def SETTLED_RETENTION_def)

interpretation router: invariant_machine "lb_ok N" "lb_step N" for N
  by unfold_locales (rule lb_step_ok)

section \<open>What one step does to one request\<close>

lemma reachable_ledger:
  assumes "new_lb N n routes = Inr s0" and "s = fold (lb_step N) es s0"
  shows "ledger_inv s" "lb_ok N s"
proof -
  show "lb_ok N s" unfolding assms(2) by (rule router.run_inv [OF lb_ok_new [OF assms(1)]])
  then show "ledger_inv s" by (simp add: lb_ok_def)
qed

definition request_of :: "('h, 'x) lb_event \<Rightarrow> string option" where
  "request_of e = (case e of LAcquire r _ \<Rightarrow> Some r | LRelease _ rid \<Rightarrow> rid | LConfirm _ r _ _ \<Rightarrow> Some r
     | _ \<Rightarrow> None)"

lemma gc_active_native [simp]: "map_of (lb_active (gc_settled s)) = map_of (lb_active s)" by simp

lemma drained_attempt:
  "map_of (lb_attempt (drained sid s)) r =
     (if r \<in> set (lb_requests_for_server sid s) \<and> map_of (lb_attempt s) r = Some TERMINATED
      then Some SETTLED else map_of (lb_attempt s) r)"
  by (simp add: drained_def settle_all_attempt)

lemma drained_active:
  "map_of (lb_active (drained sid s)) r =
     (if r \<in> set (lb_requests_for_server sid s) \<and> map_of (lb_attempt s) r = Some TERMINATED
      then None else map_of (lb_active s) r)"
  by (simp add: drained_def settle_all_active)

lemma drained_fields [simp]:
  "lb_native (drained sid s) = lb_native s" "lb_routes (drained sid s) = lb_routes s"
  "lb_proofs (drained sid s) = lb_proofs s" "lb_draining (drained sid s) = lb_draining s"
  "lb_awaiting (drained sid s) = lb_awaiting s" "lb_ready (drained sid s) = lb_ready s"
  "lb_handoffs (drained sid s) = lb_handoffs s"
  by (simp_all add: drained_def)

lemma drained_ledger: "ledger_inv s \<Longrightarrow> ledger_inv (drained sid s)"
  unfolding drained_def by (rule settle_all_ledger)

text \<open>Unpublishing collects a state with the same ledger as \<open>d\<close>.\<close>

definition pre_gc :: "string \<Rightarrow> 'n \<Rightarrow> 'n lb \<Rightarrow> 'n lb" where
  "pre_gc sid n d = d\<lparr>lb_native := n, lb_draining := (lb_draining d)(sid := None),
     lb_handoffs := (case lb_draining d sid of
        None \<Rightarrow> lb_handoffs d | Some oid \<Rightarrow> (lb_handoffs d)(oid := None))\<rparr>"

lemma unpublish_fields [simp]:
  "lb_attempt (unpublish key sid n d) = lb_attempt (gc_settled (pre_gc sid n d))"
  "lb_active (unpublish key sid n d) = lb_active d"
  "lb_proofs (unpublish key sid n d) = lb_proofs (gc_settled (pre_gc sid n d))"
  "lb_native (unpublish key sid n d) = n"
  "lb_draining (unpublish key sid n d) = (lb_draining d)(sid := None)"
  "lb_routes (unpublish key sid n d) = AList.delete key (lb_routes d)"
  "lb_ready (unpublish key sid n d) = filter (\<lambda>(oid, key', _). key' \<noteq> key) (lb_ready d)"
  "lb_awaiting (unpublish key sid n d) = lb_awaiting d"
  by (simp_all add: unpublish_def pre_gc_def Let_def)

lemma pre_gc_fields [simp]:
  "lb_attempt (pre_gc sid n d) = lb_attempt d" "lb_active (pre_gc sid n d) = lb_active d"
  "lb_proofs (pre_gc sid n d) = lb_proofs d" "lb_settled_count (pre_gc sid n d) = lb_settled_count d"
  by (simp_all add: pre_gc_def)

lemma pre_gc_ledger: "ledger_inv d \<Longrightarrow> ledger_inv (pre_gc sid n d)"
  by (erule ledger_inv_fields) simp_all

lemma commit_drain_fields [simp]:
  "lb_attempt (snd (lb_commit_ready N t k v h oid s)) = lb_attempt s"
  "lb_active (snd (lb_commit_ready N t k v h oid s)) = lb_active s"
  "lb_proofs (snd (lb_commit_ready N t k v h oid s)) = lb_proofs s"
  "lb_attempt (snd (lb_begin_drain N k oid s)) = lb_attempt s"
  "lb_active (snd (lb_begin_drain N k oid s)) = lb_active s"
  "lb_proofs (snd (lb_begin_drain N k oid s)) = lb_proofs s"
  by (simp_all add: lb_commit_ready_def lb_begin_drain_def Let_def
      split: option.split prod.split sum.split)

text \<open>A garbage collection either leaves a request's entry and proof alone or drops both.\<close>

lemma gc_entry:
  assumes "ledger_inv s"
  shows "map_of (lb_attempt (gc_settled s)) r = map_of (lb_attempt s) r
      \<and> lb_proofs (gc_settled s) r = lb_proofs s r
    \<or> map_of (lb_attempt s) r = Some SETTLED \<and> map_of (lb_attempt (gc_settled s)) r = None
      \<and> lb_proofs (gc_settled s) r = None"
  using gc_expired_settled [OF assms] by (auto simp: gc_attempt gc_proofs settled_def)

text \<open>A request that is not the one the event names is at most settled by the removal of its server, and then forgotten.\<close>

lemma other_request:
  assumes inv: "ledger_inv s" and r: "request_of e \<noteq> Some r"
    and st: "map_of (lb_attempt s) r = Some ADMITTED"
  shows "map_of (lb_attempt (lb_step N e s)) r = Some ADMITTED
    \<and> map_of (lb_active (lb_step N e s)) r = map_of (lb_active s) r"
proof (cases e)
  case (LAcquire r' x)
  with r st show ?thesis
    by (cases rule: lb_acquire_cases [of N r' x s]) (simp_all add: request_of_def)
next
  case (LRelease v rid)
  show ?thesis
  proof (cases rule: lb_release_cases [of N v rid s])
    case (1 q n)
    with LRelease st show ?thesis by simp
  next
    case (2 r')
    let ?s = "settle r' (s\<lparr>lb_native := snd (nr_release N v rid (lb_native s))\<rparr>)"
    have "ledger_inv ?s" by (rule settle_native [OF inv 2(2)])
    from gc_keeps_live [OF this, of r] LRelease r st 2 show ?thesis by (simp add: request_of_def)
  qed
next
  case (LConfirm t r' c d)
  with r st show ?thesis
    by (cases rule: lb_confirm_cases [of t r' c d s]) (simp_all add: request_of_def)
next
  case (LFinish k)
  show ?thesis
  proof (cases rule: lb_finish_cases [of s k N])
    case (4 sid n)
    have "ledger_inv (pre_gc sid n (drained sid s))" by (intro pre_gc_ledger drained_ledger inv)
    from gc_keeps_live [OF this, of r] st
    have "map_of (lb_attempt (gc_settled (pre_gc sid n (drained sid s)))) r = Some ADMITTED"
      by (simp add: drained_attempt)
    with 4 LFinish st show ?thesis by (simp add: drained_active)
  qed (use LFinish st in \<open>simp_all add: drained_attempt drained_active\<close>)
qed (use st in simp_all)

text \<open>A request that is not live stays so until it is acquired.\<close>

lemma not_live_step:
  assumes inv: "ledger_inv s" and e: "\<forall>x. e \<noteq> LAcquire r x" and r: "\<not> live (map_of (lb_attempt s) r)"
  shows "\<not> live (map_of (lb_attempt (lb_step N e s)) r)"
proof (cases e)
  case (LAcquire r' x)
  with e have "r' \<noteq> r" by auto
  with LAcquire r show ?thesis by (cases rule: lb_acquire_cases [of N r' x s]) simp_all
next
  case (LRelease v rid)
  show ?thesis
  proof (cases rule: lb_release_cases [of N v rid s])
    case (1 q n)
    with LRelease r show ?thesis by simp
  next
    case (2 r')
    with LRelease r show ?thesis by (auto simp: gc_attempt live_def)
  qed
next
  case (LConfirm t r' c d)
  with r show ?thesis by (cases rule: lb_confirm_cases [of t r' c d s]) (auto simp: live_def)
next
  case (LFinish k)
  with r show ?thesis
    by (cases rule: lb_finish_cases [of s k N]) (auto simp: drained_attempt gc_attempt live_def)
qed (use r in simp_all)

lemma not_live_run:
  "lb_ok N s \<Longrightarrow> \<forall>e \<in> set es. \<forall>x. e \<noteq> LAcquire r x \<Longrightarrow> \<not> live (map_of (lb_attempt s) r)
   \<Longrightarrow> \<not> live (map_of (lb_attempt (fold (lb_step N) es s)) r)"
proof (induction es arbitrary: s)
  case (Cons e es)
  then have "\<not> live (map_of (lb_attempt (lb_step N e s)) r)"
    by (intro not_live_step) (simp_all add: lb_ok_def)
  with Cons lb_step_ok [of N s e] show ?case by simp
qed simp

text \<open>A continuation proof stays what it is until the request is acquired again or forgotten.\<close>

definition proof_kept :: "string \<Rightarrow> string \<times> string \<times> string \<times> op_evidence \<Rightarrow> 'n lb \<Rightarrow> bool" where
  "proof_kept r p s \<longleftrightarrow> lb_proofs s r = (if map_of (lb_attempt s) r = None then None else Some p)
     \<and> map_of (lb_attempt s) r \<noteq> Some ADMITTED"

lemma proof_kept_gc:
  assumes "ledger_inv s" and p: "proof_kept r p s"
  shows "proof_kept r p (gc_settled s)"
  using gc_entry [OF assms(1), of r]
  by (rule disjE) (use p in \<open>simp_all add: proof_kept_def\<close>)

lemma proof_kept_step:
  assumes inv: "ledger_inv s" and e: "\<forall>x. e \<noteq> LAcquire r x" and p: "proof_kept r p s"
  shows "proof_kept r p (lb_step N e s)"
proof (cases e)
  case (LAcquire r' x)
  with e have "r' \<noteq> r" by auto
  with LAcquire p show ?thesis by (cases rule: lb_acquire_cases [of N r' x s]) (simp_all add: proof_kept_def)
next
  case (LRelease v rid)
  show ?thesis
  proof (cases rule: lb_release_cases [of N v rid s])
    case (1 q n)
    with LRelease p show ?thesis by (simp add: proof_kept_def)
  next
    case (2 r')
    let ?s = "settle r' (s\<lparr>lb_native := snd (nr_release N v rid (lb_native s))\<rparr>)"
    have "ledger_inv ?s" by (rule settle_native [OF inv 2(2)])
    moreover have "proof_kept r p ?s" using p 2(2) by (auto simp: proof_kept_def live_def)
    ultimately have "proof_kept r p (gc_settled ?s)" by (rule proof_kept_gc)
    with 2 LRelease show ?thesis by simp
  qed
next
  case (LConfirm t r' c d)
  with p show ?thesis
    by (cases rule: lb_confirm_cases [of t r' c d s]) (auto simp: proof_kept_def)
next
  case (LFinish k)
  show ?thesis
  proof (cases rule: lb_finish_cases [of s k N])
    case (4 sid n)
    have "proof_kept r p (pre_gc sid n (drained sid s))"
      using p by (auto simp: proof_kept_def drained_attempt)
    moreover have "ledger_inv (pre_gc sid n (drained sid s))" by (intro pre_gc_ledger drained_ledger inv)
    ultimately have "proof_kept r p (gc_settled (pre_gc sid n (drained sid s)))" using proof_kept_gc by blast
    with 4 LFinish show ?thesis by (simp add: proof_kept_def)
  qed (use LFinish p in \<open>auto simp: proof_kept_def drained_attempt\<close>)
qed (use p in \<open>simp_all add: proof_kept_def\<close>)

lemma proof_kept_run:
  "lb_ok N s \<Longrightarrow> \<forall>e \<in> set es. \<forall>x. e \<noteq> LAcquire r x \<Longrightarrow> proof_kept r p s
   \<Longrightarrow> proof_kept r p (fold (lb_step N) es s)"
proof (induction es arbitrary: s)
  case (Cons e es)
  then have "proof_kept r p (lb_step N e s)" by (intro proof_kept_step) (simp_all add: lb_ok_def)
  with Cons lb_step_ok [of N s e] show ?case by simp
qed simp


section \<open>Draining keeps a server out\<close>

definition published :: "replica_key \<Rightarrow> string \<Rightarrow> 'n \<Rightarrow> 'n lb \<Rightarrow> 'n lb" where
  "published key sid n s = s\<lparr>lb_native := n, lb_awaiting := False,
     lb_routes := AList.update key sid (lb_routes s)\<rparr>"

lemma lb_commit_cases:
  obtains q where "lb_commit_ready N t key sid h oid s = (q, s)"
      "\<forall>ev. q = Inr ev \<longrightarrow> map_of (lb_ready s) oid = Some (key, sid, ev)
         \<and> map_of (lb_routes s) key = Some sid \<and> map_of (nr_servers N (lb_native s)) sid \<noteq> None"
  | e n h' where "nr_add N [(sid, h')] (lb_native s) = (Inl e, n)"
      "lb_commit_ready N t key sid h oid s = (Inl e, s\<lparr>lb_native := n\<rparr>)"
  | e n h' where "nr_add N [(sid, h')] (lb_native s) = (Inr (), n)"
      "evidence_now t oid SERVICE_COMMITTED [] = Inl e"
      "lb_commit_ready N t key sid h oid s = (Inl e, published key sid n s)"
  | ev n h' where "nr_add N [(sid, h')] (lb_native s) = (Inr (), n)" "h = Some h'"
      "evidence_now t oid SERVICE_COMMITTED [] = Inr ev"
      "map_of (lb_ready s) oid = None" "ready_conflict key sid oid (lb_ready s) = None"
      "sid \<noteq> []" "oid \<noteq> []"
      "lb_commit_ready N t key sid h oid s = (Inr ev, (published key sid n s)
         \<lparr>lb_ready := AList.update oid (key, sid, ev) (lb_ready s)\<rparr>)"
proof (cases "sid = [] \<or> oid = [] \<or> h = None")
  case True
  then show ?thesis
    by (intro that(1) [of "fst (lb_commit_ready N t key sid h oid s)"]) (auto simp: lb_commit_ready_def)
next
  case ne: False
  then obtain h' where h: "h = Some h'" by blast
  show ?thesis
  proof (cases "map_of (lb_ready s) oid")
    case (Some p)
    obtain k' v' ev where "p = (k', v', ev)" by (cases p)
    with Some ne h show ?thesis
      by (intro that(1) [of "fst (lb_commit_ready N t key sid h oid s)"]) (auto simp: lb_commit_ready_def)
  next
    case new: None
    show ?thesis
    proof (cases "(map_of (lb_routes s) key \<noteq> None \<and> map_of (lb_routes s) key \<noteq> Some sid)
        \<or> (map_of (nr_servers N (lb_native s)) sid \<noteq> None \<and> map_of (nr_servers N (lb_native s)) sid \<noteq> Some h')
        \<or> ready_conflict key sid oid (lb_ready s) \<noteq> None")
      case True
      with new ne h show ?thesis
        by (intro that(1) [of "fst (lb_commit_ready N t key sid h oid s)"])
          (auto simp: lb_commit_ready_def)
    next
      case False
      obtain q n where qn: "nr_add N [(sid, h')] (lb_native s) = (q, n)"
        by (cases "nr_add N [(sid, h')] (lb_native s)")
      have eq: "lb_commit_ready N t key sid h oid s = (case q of Inl e \<Rightarrow> (Inl e, s\<lparr>lb_native := n\<rparr>)
         | Inr _ \<Rightarrow> (case evidence_now t oid SERVICE_COMMITTED [] of
             Inl e \<Rightarrow> (Inl e, published key sid n s)
           | Inr ev \<Rightarrow> (Inr ev, (published key sid n s)
               \<lparr>lb_ready := AList.update oid (key, sid, ev) (lb_ready s)\<rparr>)))"
        using False new ne h qn
        by (auto simp: lb_commit_ready_def published_def Let_def split: sum.split)
      show ?thesis
      proof (cases q)
        case (Inl e)
        with eq qn show ?thesis by (intro that(2) [of h' e n]) simp_all
      next
        case (Inr u)
        show ?thesis
        proof (cases "evidence_now t oid SERVICE_COMMITTED []")
          case (Inl e)
          with eq qn Inr show ?thesis by (intro that(3) [of h' n e]) simp_all
        next
          case ev: (Inr ev)
          with eq qn Inr h new ne False show ?thesis by (intro that(4) [of h' n ev]) simp_all
        qed
      qed
    qed
  qed
qed

lemma lb_drain_cases:
  obtains e where "lb_begin_drain N key oid s = (Inl e, s)"
  | e n sid where "map_of (lb_routes s) key = Some sid" "nr_remove N [sid] (lb_native s) = (Inl e, n)"
      "lb_begin_drain N key oid s =
         (Inl e, s\<lparr>lb_native := n, lb_draining := (lb_draining s)(sid \<mapsto> oid)\<rparr>)"
  | n sid where "map_of (lb_routes s) key = Some sid" "nr_remove N [sid] (lb_native s) = (Inr (), n)"
      "lb_draining s sid = None \<or> lb_draining s sid = Some oid" "oid \<noteq> []"
      "lb_begin_drain N key oid s = (Inr sid, s\<lparr>lb_native := n,
         lb_draining := (lb_draining s)(sid \<mapsto> oid),
         lb_awaiting := (nr_servers N n = [] \<or> lb_awaiting s)\<rparr>)"
proof (cases "oid = [] \<or> map_of (lb_routes s) key = None")
  case True
  then show ?thesis
    by (cases "oid = []") (auto intro: that(1) simp: lb_begin_drain_def)
next
  case False
  then obtain sid where sid: "map_of (lb_routes s) key = Some sid" by blast
  show ?thesis
  proof (cases "lb_draining s sid = None \<or> lb_draining s sid = Some oid")
    case other: False
    with False sid show ?thesis by (intro that(1)) (auto simp: lb_begin_drain_def)
  next
    case True
    obtain q n where qn: "nr_remove N [sid] (lb_native s) = (q, n)" by (cases "nr_remove N [sid] (lb_native s)")
    show ?thesis
    proof (cases q)
      case (Inl e)
      with qn True False sid show ?thesis
        by (intro that(2) [of sid e n]) (auto simp: lb_begin_drain_def Let_def)
    next
      case (Inr u)
      with qn True False sid show ?thesis
        by (intro that(3) [of sid n]) (auto simp: lb_begin_drain_def Let_def)
    qed
  qed
qed

lemma router_ok_acquire:
  "router_ok N \<Longrightarrow> fst (nr_acquire N r x n) = Inr (sid, h) \<Longrightarrow> map_of (nr_servers N n) sid \<noteq> None"
  unfolding router_ok_def by (drule conjunct1) blast

lemma drain_native_gone:
  assumes ok: "router_ok N" and gone: "map_of (nr_servers N (lb_native s)) sid = None"
    and e: "\<forall>t k h oid. e \<noteq> LCommit t k sid h oid"
  shows "map_of (nr_servers N (lb_native (lb_step N e s))) sid = None"
proof (cases e)
  case (LAcquire r x)
  with ok gone show ?thesis
    by (cases rule: lb_acquire_cases [of N r x s]) (auto simp: router_ok_def)
next
  case (LRelease v rid)
  with ok gone show ?thesis
    by (cases rule: lb_release_cases [of N v rid s]) (auto simp: router_ok_def)
next
  case (LConfirm t r c d)
  with gone show ?thesis by (cases rule: lb_confirm_cases [of t r c d s]) simp_all
next
  case (LCommit t k v h oid)
  with e have "sid \<noteq> v" by auto
  then have add: "map_of (nr_servers N (snd (nr_add N [(v, h')] (lb_native s)))) sid = None" for h'
    using ok gone unfolding router_ok_def by simp
  show ?thesis
    by (cases rule: lb_commit_cases [of N t k v h oid s])
      (use LCommit gone add in \<open>simp_all add: published_def\<close>, metis snd_conv, metis snd_conv, metis snd_conv)
next
  case (LDrain k oid)
  with ok gone show ?thesis
    by (cases rule: lb_drain_cases [of N k oid s])
      (simp_all add: router_ok_def, metis snd_conv, metis snd_conv)
next
  case (LFinish k)
  have "lb_native (lb_step N e s) = lb_native s \<or>
      (\<exists>v. lb_native (lb_step N e s) = snd (nr_remove N [v] (lb_native s)))"
    unfolding LFinish lb_step.simps
    by (cases rule: lb_finish_cases [of s k N]) (simp_all, metis snd_conv, metis snd_conv)
  with ok gone show ?thesis unfolding router_ok_def by metis
qed

lemma drain_native_gone_run:
  "router_ok N \<Longrightarrow> map_of (nr_servers N (lb_native s)) sid = None
   \<Longrightarrow> \<forall>e \<in> set es. \<forall>t k h oid. e \<noteq> LCommit t k sid h oid
   \<Longrightarrow> map_of (nr_servers N (lb_native (fold (lb_step N) es s))) sid = None"
  by (induction es arbitrary: s) (simp_all add: drain_native_gone)

lemma begin_drain_gone:
  assumes ok: "router_ok N" and d: "lb_begin_drain N key oid s = (Inr sid, s')"
  shows "map_of (nr_servers N (lb_native s')) sid = None"
proof (cases rule: lb_drain_cases [of N key oid s])
  case (3 n v)
  then have "v = sid" "lb_native s' = n" using d by auto
  moreover have "map_of (nr_servers N (snd (nr_remove N [v] (lb_native s)))) v = None"
    using ok 3(2) unfolding router_ok_def by (metis fst_conv list.set_intros(1))
  ultimately show ?thesis using 3(2) by simp
qed (use d in simp_all)

section \<open>The ledger of published servers\<close>

definition ready_inv :: "'n lb \<Rightarrow> bool" where
  "ready_inv s \<longleftrightarrow> distinct (map fst (lb_ready s))
     \<and> (\<forall>o1 k1 v1 e1 o2 k2 v2 e2. (o1, k1, v1, e1) \<in> set (lb_ready s) \<longrightarrow>
          (o2, k2, v2, e2) \<in> set (lb_ready s) \<longrightarrow> (k1 = k2 \<longrightarrow> o1 = o2) \<and> (v1 = v2 \<longrightarrow> k1 = k2))"

lemma ready_conflict_None:
  "ready_conflict key sid oid al = None \<longleftrightarrow>
     (\<forall>o2 k2 v2 e2. (o2, k2, v2, e2) \<in> set al \<longrightarrow> (k2 = key \<longrightarrow> o2 = oid) \<and> (v2 = sid \<longrightarrow> k2 = key))"
proof (induction key sid oid al rule: ready_conflict.induct)
  case (2 key sid oid oid' key' sid' ev rest)
  show ?case
  proof (cases "key' = key \<and> oid' \<noteq> oid \<or> sid' = sid \<and> key' \<noteq> key")
    case True
    then show ?thesis by (auto split: if_splits)
  next
    case False
    then have "ready_conflict key sid oid ((oid', key', sid', ev) # rest) = ready_conflict key sid oid rest"
      by auto
    moreover have "ready_conflict key sid oid rest = None \<longleftrightarrow>
        (\<forall>o2 k2 v2 e2. (o2, k2, v2, e2) \<in> set rest \<longrightarrow> (k2 = key \<longrightarrow> o2 = oid) \<and> (v2 = sid \<longrightarrow> k2 = key))"
      using 2 False by blast
    ultimately show ?thesis using False by auto
  qed
qed simp

lemma update_new: "map_of al k = None \<Longrightarrow> AList.update k v al = al @ [(k, v)]"
  by (induction al) (auto split: if_splits)

lemma ready_commit:
  assumes inv: "ready_inv s"
  shows "ready_inv (snd (lb_commit_ready N t key sid h oid s))"
proof (cases rule: lb_commit_cases [of N t key sid h oid s])
  case (4 ev n h')
  then have "oid \<notin> fst ` set (lb_ready s)" by (simp add: map_of_eq_None_iff)
  with 4 inv show ?thesis
    unfolding ready_inv_def ready_conflict_None by (auto simp: update_new published_def) blast+
qed (use inv in \<open>simp_all add: ready_inv_def published_def\<close>)

lemma ready_filter: "ready_inv s \<Longrightarrow> lb_ready s' = filter P (lb_ready s) \<Longrightarrow> ready_inv s'"
  unfolding ready_inv_def by (simp add: distinct_map_filter) blast

lemma ready_step: "ready_inv s \<Longrightarrow> ready_inv (lb_step N e s)"
proof (cases e)
  case (LFinish k)
  assume "ready_inv s"
  with LFinish show ?thesis
    by (cases rule: lb_finish_cases [of s k N]) (auto simp: ready_filter intro: ready_filter [where P = "\<lambda>_. True"])
next
  case (LCommit t k v h oid)
  assume "ready_inv s"
  with LCommit show ?thesis by (simp add: ready_commit)
next
  case (LAcquire r x)
  assume "ready_inv s"
  with LAcquire show ?thesis by (cases rule: lb_acquire_cases [of N r x s]) (simp_all add: ready_inv_def)
next
  case (LRelease v rid)
  assume "ready_inv s"
  with LRelease show ?thesis by (cases rule: lb_release_cases [of N v rid s]) (simp_all add: ready_inv_def)
next
  case (LConfirm t r c d)
  assume "ready_inv s"
  with LConfirm show ?thesis by (cases rule: lb_confirm_cases [of t r c d s]) (simp_all add: ready_inv_def)
next
  case (LDrain k oid)
  assume "ready_inv s"
  with LDrain show ?thesis by (cases rule: lb_drain_cases [of N k oid s]) (simp_all add: ready_inv_def)
qed

interpretation ready: invariant_machine ready_inv "lb_step N" for N
  by unfold_locales (rule ready_step)

section \<open>Properties\<close>

text \<open>A concrete native router for the instances: the pool in insertion order, the first server
  takes every request.\<close>

definition demo_router :: "((string \<times> nat) list, nat, unit) native_router" where
  "demo_router = \<lparr>nr_servers = (\<lambda>n. n),
     nr_acquire = (\<lambda>r x n. (case n of [] \<Rightarrow> Inl (RuntimeError ''no server'') | p # _ \<Rightarrow> Inr p, n)),
     nr_release = (\<lambda>v r n. (Inr (), n)),
     nr_add = (\<lambda>vs n. (Inr (), fold (\<lambda>(v, h). AList.update v h) vs n)),
     nr_remove = (\<lambda>vs n. (Inr (), fold AList.delete vs n))\<rparr>"

lemma demo_add_other:
  "sid \<notin> fst ` set vs \<Longrightarrow> map_of n sid = None \<Longrightarrow>
   map_of (fold (\<lambda>(v, h). AList.update v h) vs n) sid = None"
  by (induction vs arbitrary: n) auto

lemma demo_router_ok: "router_ok demo_router"
proof -
  have hd: "map_of n sid \<noteq> None"
    if "(case n of [] \<Rightarrow> Inl (RuntimeError ''no server'') | p # _ \<Rightarrow> Inr p) = Inr (sid, h)"
    for n :: "(string \<times> nat) list" and sid h using that by (cases n) auto
  show ?thesis
    unfolding router_ok_def
    by (intro conjI allI impI) (use hd in \<open>auto simp: demo_router_def demo_add_other map_of_fold_delete\<close>)
qed

definition demo_key :: replica_key where "demo_key = ReplicaKey ''T'' ''native-0'' 0"

definition demo_lb :: "(string \<times> nat) list lb" where
  "demo_lb = \<lparr>lb_native = [(''s0'', 7), (''s1'', 8)], lb_routes = [(demo_key, ''s0'')],
     lb_active = [], lb_attempt = [], lb_draining = Map.empty, lb_awaiting = False, lb_ready = [],
     lb_proofs = Map.empty, lb_handoffs = Map.empty, lb_settled_count = 0\<rparr>"

lemma demo_new: "new_lb demo_router [(''s0'', 7), (''s1'', 8)] [(demo_key, ''s0'')] = Inr demo_lb"
  by (simp add: new_lb_def demo_router_def demo_lb_def)

lemmas lb_eval = lb_acquire_def lb_release_def lb_confirm_def lb_begin_drain_def lb_finish_remove_def
  lb_commit_ready_def evidence_now_def mk_evidence_def demo_router_def demo_lb_def Let_def
  gc_settled_def SETTLED_RETENTION_def lb_has_unsettled_def lb_requests_for_server_def
  settle_terminated_def

text \<open>C20: in every reachable state of the router a request has a serving server exactly while its
  attempt is ADMITTED or TERMINATED, every TERMINATED attempt has a continuation proof, the
  settled counter counts the SETTLED attempts, and while native removals do not raise it never
  exceeds the retention bound of 10000.\<close>

theorem lb_ledger_sound:
  assumes "new_lb N n routes = Inr s0" and "s = fold (lb_step N) es s0"
  shows "(map_of (lb_active s) r \<noteq> None \<longleftrightarrow>
        map_of (lb_attempt s) r = Some ADMITTED \<or> map_of (lb_attempt s) r = Some TERMINATED)
    \<and> (map_of (lb_attempt s) r = Some TERMINATED \<longrightarrow> lb_proofs s r \<noteq> None)
    \<and> lb_settled_count s = int (card {q. map_of (lb_attempt s) q = Some SETTLED})
    \<and> (removal_total N \<longrightarrow> lb_settled_count s \<le> SETTLED_RETENTION)"
proof -
  note inv = reachable_ledger(1) [OF assms]
  have "map_of (lb_active s) r \<noteq> None \<longleftrightarrow> live (map_of (lb_attempt s) r)"
    using ledger_active [OF inv] by simp
  moreover have "map_of (lb_attempt s) r = Some TERMINATED \<longrightarrow> lb_proofs s r \<noteq> None"
    using ledger_parts(5) [OF inv] unfolding terminated_def by blast
  moreover have "lb_settled_count s = int (card {q. map_of (lb_attempt s) q = Some SETTLED})"
    using ledger_parts(2) [OF inv] by (simp add: settled_def)
  ultimately show ?thesis
    using reachable_ledger(2) [OF assms] unfolding live_def lb_ok_def by blast
qed

theorem lb_ledger_sound_witness:
  "lb_settled_count (fold (lb_step demo_router) [LAcquire ''r'' (), LRelease ''s0'' (Some ''r'')] demo_lb) = 1
   \<and> removal_total demo_router
   \<and> lb_settled_count (fold (lb_step demo_router) [LAcquire ''r'' (), LRelease ''s0'' (Some ''r''), LFinish demo_key] demo_lb) \<le> SETTLED_RETENTION"
proof -
  let ?s = "fold (lb_step demo_router) [LAcquire ''r'' (), LRelease ''s0'' (Some ''r'')] demo_lb"
  have "{q. map_of (lb_attempt ?s) q = Some SETTLED} = {''r''}" by (auto simp: lb_eval)
  with lb_ledger_sound [OF demo_new refl, of "[LAcquire ''r'' (), LRelease ''s0'' (Some ''r'')]" "''r''"]
  have "lb_settled_count ?s = 1" by simp
  moreover have total: "removal_total demo_router" by (simp add: removal_total_def demo_router_def)
  ultimately show ?thesis
    using lb_ledger_sound [OF demo_new refl, of "[LAcquire ''r'' (), LRelease ''s0'' (Some ''r''), LFinish demo_key]" "''r''"]
    by blast
qed

text \<open>an admitted request keeps its attempt and its server until an event of its own: other
  requests, drains, publications, route removals and garbage collection never lose it.\<close>

theorem lb_admitted_kept:
  assumes "new_lb N n routes = Inr s0" and "s = fold (lb_step N) es s0"
    and "map_of (lb_attempt s) r = Some ADMITTED" and "request_of e \<noteq> Some r"
  shows "map_of (lb_attempt (lb_step N e s)) r = Some ADMITTED
    \<and> map_of (lb_active (lb_step N e s)) r = map_of (lb_active s) r"
  by (rule other_request [OF reachable_ledger(1) [OF assms(1,2)] assms(4,3)])

theorem lb_admitted_kept_witness:
  "map_of (lb_attempt (lb_step demo_router (LFinish demo_key)
     (fold (lb_step demo_router) [LAcquire ''r'' (), LDrain demo_key ''op''] demo_lb))) ''r'' = Some ADMITTED"
proof -
  let ?es = "[LAcquire ''r'' (), LDrain demo_key ''op'']"
  have "map_of (lb_attempt (fold (lb_step demo_router) ?es demo_lb)) ''r'' = Some ADMITTED"
    by (simp add: lb_eval)
  moreover have "request_of (LFinish demo_key :: (nat, unit) lb_event) \<noteq> Some ''r''" by (simp add: request_of_def)
  ultimately show ?thesis using lb_admitted_kept [OF demo_new refl] by blast
qed

text \<open>once a request is settled or forgotten, any number of duplicated or late releases of it,
  with any server, returns normally and changes nothing, not even the native counters, until the
  request is acquired again.\<close>

theorem lb_release_once:
  assumes "new_lb N n routes = Inr s0" and "s = fold (lb_step N) es s0"
    and "map_of (lb_attempt s) r \<notin> {Some ADMITTED, Some TERMINATED}"
    and "\<forall>e \<in> set fs. \<forall>x. e \<noteq> LAcquire r x" and "r \<noteq> []"
  shows "lb_release N sid (Some r) (fold (lb_step N) fs s) = (Inr (), fold (lb_step N) fs s)"
proof -
  let ?t = "fold (lb_step N) fs s"
  note ok = reachable_ledger(2) [OF assms(1,2)]
  have dead: "\<not> live (map_of (lb_attempt ?t) r)"
    by (rule not_live_run [OF ok assms(4)]) (use assms(3) in \<open>simp add: live_def\<close>)
  have "lb_ok N ?t" by (rule router.run_inv [OF ok])
  then have "ledger_inv ?t" by (simp add: lb_ok_def)
  from ledger_active [OF this, of r] dead have "map_of (lb_active ?t) r = None" by simp
  moreover have "map_of (lb_attempt ?t) r = Some SETTLED \<or> map_of (lb_attempt ?t) r = None"
    using dead by (cases "map_of (lb_attempt ?t) r"; cases "the (map_of (lb_attempt ?t) r)")
      (auto simp: live_def)
  ultimately show ?thesis using assms(5) by (cases r) (auto simp: lb_release_def Let_def)
qed

theorem lb_release_once_witness:
  "lb_release demo_router ''s1'' (Some ''r'') (fold (lb_step demo_router) [LRelease ''s0'' (Some ''r''), LFinish demo_key]
      (fold (lb_step demo_router) [LAcquire ''r'' (), LRelease ''s0'' (Some ''r'')] demo_lb))
    = (Inr (), fold (lb_step demo_router) [LRelease ''s0'' (Some ''r''), LFinish demo_key]
      (fold (lb_step demo_router) [LAcquire ''r'' (), LRelease ''s0'' (Some ''r'')] demo_lb))"
  by (rule lb_release_once [OF demo_new refl]) (simp_all add: lb_eval)

text \<open>after a continuation was confirmed, confirming it again with the same client and prefix
  returns the very same evidence and changes nothing, a different client or prefix is refused,
  and a proof that retention dropped is refused too; this holds until the request is acquired
  again.\<close>

theorem lb_continuation_replay:
  assumes "new_lb N n routes = Inr s0" and "s = fold (lb_step N) es s0"
    and "lb_confirm t r c d s = (Inr ev, s')" and "\<forall>e \<in> set fs. \<forall>x. e \<noteq> LAcquire r x"
    and "c' \<noteq> []" and "d' \<noteq> []" and "later = fold (lb_step N) fs s'"
  shows "lb_confirm t' r c' d' later =
    (if map_of (lb_attempt later) r = None
     then Inl (ValueError ''request is not eligible for continuation'')
     else if c' = c \<and> d' = d then Inr ev
     else Inl (ValueError ''conflicting continuation proof replay''), later)"
proof -
  note ok = reachable_ledger(2) [OF assms(1,2)]
  have ok': "lb_ok N s'" using lb_confirm_inv [OF ok, of t r c d] assms(3) by simp
  have inv: "ledger_inv s" using ok by (simp add: lb_ok_def)
  obtain oid where "r \<noteq> []" and kept: "proof_kept r (c, d, oid, ev) s'"
  proof (cases rule: lb_confirm_cases [of t r c d s])
    case (1 q)
    then obtain oid where p: "lb_proofs s r = Some (c, d, oid, ev)" "r \<noteq> []" "s' = s" using assms(3) by auto
    then have "map_of (lb_attempt s) r \<in> {Some TERMINATED, Some SETTLED}"
      using ledger_parts(4) [OF inv] unfolding terminated_def settled_def by blast
    with p that show ?thesis by (auto simp: proof_kept_def)
  next
    case (2 sid oid ev')
    with assms(3) that [of oid] show ?thesis by (auto simp: proof_kept_def)
  qed
  have "proof_kept r (c, d, oid, ev) later"
    unfolding assms(7) by (rule proof_kept_run [OF ok' assms(4) kept])
  with \<open>r \<noteq> []\<close> assms(5,6) show ?thesis by (auto simp: lb_confirm_def proof_kept_def)
qed

theorem lb_continuation_replay_witness:
  "\<exists>s :: (string \<times> nat) list lb. fst (lb_confirm 9 ''r'' ''client'' ''prefix'' s) =
    Inr \<lparr>e_operation_id = ''op'', e_type = EXIT_READY, e_timestamp = 1, e_gpu_uuids = []\<rparr>"
proof -
  let ?es = "[LAcquire ''r'' (), LDrain demo_key ''op'']"
  let ?ev = "\<lparr>e_operation_id = ''op'', e_type = EXIT_READY, e_timestamp = 1, e_gpu_uuids = []\<rparr>"
  let ?s = "fold (lb_step demo_router) ?es demo_lb"
  let ?fs = "[LRelease ''s0'' (Some ''r''), LFinish demo_key]"
  have c: "lb_confirm 1 ''r'' ''client'' ''prefix'' ?s = (Inr ?ev, snd (lb_confirm 1 ''r'' ''client'' ''prefix'' ?s))"
    by (simp add: lb_eval)
  have k: "\<forall>e \<in> set ?fs. \<forall>x. e \<noteq> LAcquire ''r'' x" "''client'' \<noteq> (''''::string)" "''prefix'' \<noteq> (''''::string)"
    by simp_all
  define X where "X = fold (lb_step demo_router) ?fs (snd (lb_confirm 1 ''r'' ''client'' ''prefix'' ?s))"
  have n: "map_of (lb_attempt X) ''r'' \<noteq> None" unfolding X_def by (simp add: lb_eval)
  have "lb_confirm 9 ''r'' ''client'' ''prefix'' X =
    (if map_of (lb_attempt X) ''r'' = None
     then Inl (ValueError ''request is not eligible for continuation'')
     else if ''client'' = ''client'' \<and> ''prefix'' = ''prefix'' then Inr ?ev
     else Inl (ValueError ''conflicting continuation proof replay''), X)"
    by (rule lb_continuation_replay [OF demo_new refl c k X_def])
  also have "\<dots> = (Inr ?ev, X)" using n by simp
  finally have "fst (lb_confirm 9 ''r'' ''client'' ''prefix'' X) = Inr ?ev" by simp
  then show ?thesis by blast
qed

text \<open>C19: over a native router that picks servers of its pool and honours removals, a server whose
  drain began gets no further request until it is published again.\<close>

theorem lb_drain_closes_admission:
  assumes "router_ok N" and "lb_begin_drain N key oid s = (Inr sid, s')"
    and "\<forall>e \<in> set es. \<forall>t k h oid. e \<noteq> LCommit t k sid h oid"
    and "fst (lb_acquire N r x (fold (lb_step N) es s')) = Inr (v, h)"
  shows "v \<noteq> sid"
proof -
  let ?t = "fold (lb_step N) es s'"
  have gone: "map_of (nr_servers N (lb_native ?t)) sid = None"
    by (rule drain_native_gone_run [OF assms(1) begin_drain_gone [OF assms(1,2)] assms(3)])
  have "fst (nr_acquire N r x (lb_native ?t)) = Inr (v, h)"
    using assms(4) by (cases rule: lb_acquire_cases [of N r x ?t]) (auto, metis fst_conv)
  with router_ok_acquire [OF assms(1)] have "map_of (nr_servers N (lb_native ?t)) v \<noteq> None" .
  with gone show ?thesis by auto
qed

theorem lb_drain_closes_admission_witness:
  "\<exists>s v h. fst (lb_acquire demo_router ''q'' () s) = Inr (v, h) \<and> v \<noteq> ''s0''"
proof -
  let ?s = "snd (lb_begin_drain demo_router demo_key ''op'' demo_lb)"
  have d: "lb_begin_drain demo_router demo_key ''op'' demo_lb = (Inr ''s0'', ?s)" by (simp add: lb_eval)
  have a: "fst (lb_acquire demo_router ''q'' () (fold (lb_step demo_router) [] ?s)) = Inr (''s1'', 8)"
    by (simp add: lb_eval)
  from lb_drain_closes_admission [OF demo_router_ok d _ a] a show ?thesis by auto
qed

text \<open>removing a route succeeds only when its server serves no admitted request, and then
  leaves no trace of it: no active request on the server, no route, no drain, and no ready
  operation of the replica; every request that was handed over is settled or forgotten. While an
  admitted request remains, the removal is refused and changes nothing.\<close>

theorem lb_finish_remove_clean:
  assumes "new_lb N n routes = Inr s0" and "s = fold (lb_step N) es s0"
    and "lb_server_for_replica key s = Some sid" and "lb_finish_remove N key s = (res, s')"
  shows "(lb_has_unsettled sid s \<longrightarrow> s' = s \<and> (\<exists>e. res = Inl e))
    \<and> (res = Inr () \<longrightarrow> (\<forall>r. map_of (lb_active s') r \<noteq> Some sid) \<and> map_of (lb_routes s') key = None
        \<and> lb_draining s' sid = None \<and> (\<forall>(oid, k, v) \<in> set (lb_ready s'). k \<noteq> key)
        \<and> (\<forall>r. map_of (lb_active s) r = Some sid \<longrightarrow> map_of (lb_attempt s') r \<in> {Some SETTLED, None}))"
proof -
  note inv = reachable_ledger(1) [OF assms(1,2)]
  have route: "map_of (lb_routes s) key = Some sid" using assms(3) by (simp add: lb_server_for_replica_def)
  show ?thesis
  proof (cases rule: lb_finish_cases [of s key N])
    case (4 v n')
    with route have v: "v = sid" by simp
    have s': "s' = unpublish key sid n' (drained sid s)" and no: "\<not> lb_has_unsettled sid s"
      using 4 assms(4) v by simp_all
    have served: "map_of (lb_attempt s) r = Some TERMINATED" and mem: "r \<in> set (lb_requests_for_server sid s)"
      if "map_of (lb_active s) r = Some sid" for r
    proof -
      show mem: "r \<in> set (lb_requests_for_server sid s)"
        using map_of_SomeD [OF that] by (force simp: lb_requests_for_server_def)
      have "live (map_of (lb_attempt s) r)" using ledger_active [OF inv, of r] that by auto
      with mem no show "map_of (lb_attempt s) r = Some TERMINATED" by (auto simp: lb_has_unsettled_def live_def)
    qed
    have "map_of (lb_active s') r \<noteq> Some sid" for r
      using served mem by (auto simp: s' drained_active)
    moreover have "map_of (lb_attempt s') r \<in> {Some SETTLED, None}" if "map_of (lb_active s) r = Some sid" for r
      using served [OF that] mem [OF that] by (auto simp: s' drained_attempt gc_attempt)
    ultimately show ?thesis using no by (auto simp: s')
  qed (use route assms(4) in auto)
qed

theorem lb_finish_remove_clean_witness:
  "lb_has_unsettled ''s0'' (fold (lb_step demo_router) [LAcquire ''r'' (), LDrain demo_key ''op''] demo_lb)
   \<and> (\<exists>e. fst (lb_finish_remove demo_router demo_key
        (fold (lb_step demo_router) [LAcquire ''r'' (), LDrain demo_key ''op''] demo_lb)) = Inl e)"
proof -
  let ?s = "fold (lb_step demo_router) [LAcquire ''r'' (), LDrain demo_key ''op''] demo_lb"
  have u: "lb_has_unsettled ''s0'' ?s" and k: "lb_server_for_replica demo_key ?s = Some ''s0''"
    by (simp_all add: lb_eval lb_server_for_replica_def)
  obtain res s' where f: "lb_finish_remove demo_router demo_key ?s = (res, s')" by fastforce
  from lb_finish_remove_clean [OF demo_new refl k f] u f show ?thesis by auto
qed

text \<open>in every reachable state each published replica belongs to exactly one ready operation
  and each published server to exactly one replica.\<close>

theorem lb_ready_exclusive:
  assumes "new_lb N n routes = Inr s0" and "s = fold (lb_step N) es s0"
    and "(oid, key, sid, ev) \<in> set (lb_ready s)" and "(oid', key', sid', ev') \<in> set (lb_ready s)"
    and "oid \<noteq> oid'"
  shows "key \<noteq> key' \<and> sid \<noteq> sid'"
proof -
  have "ready_inv s0" using assms(1) by (auto simp: new_lb_def map_res_Inr_iff ready_inv_def)
  then have "ready_inv s" unfolding assms(2) by (rule ready.run_inv)
  with assms(3-5) show ?thesis unfolding ready_inv_def by blast
qed

theorem lb_ready_exclusive_witness:
  "map fst (lb_ready (fold (lb_step demo_router)
      [LCommit 1 demo_key ''s0'' (Some 7) ''a'', LCommit 2 (ReplicaKey ''T'' ''b'' 1) ''s2'' (Some 9) ''b''] demo_lb))
    = [''a'', ''b''] \<and> demo_key \<noteq> ReplicaKey ''T'' ''b'' 1"
proof -
  let ?es = "[LCommit 1 demo_key ''s0'' (Some 7) ''a'', LCommit 2 (ReplicaKey ''T'' ''b'' 1) ''s2'' (Some 9) ''b'']"
  let ?e = "\<lambda>oid t. \<lparr>e_operation_id = oid, e_type = SERVICE_COMMITTED, e_timestamp = t, e_gpu_uuids = []\<rparr>"
  have r: "lb_ready (fold (lb_step demo_router) ?es demo_lb) =
      [(''a'', demo_key, ''s0'', ?e ''a'' 1), (''b'', ReplicaKey ''T'' ''b'' 1, ''s2'', ?e ''b'' 2)]"
    by (simp add: lb_eval demo_key_def)
  have "(''a'', demo_key, ''s0'', ?e ''a'' 1) \<in> set (lb_ready (fold (lb_step demo_router) ?es demo_lb))"
    "(''b'', ReplicaKey ''T'' ''b'' 1, ''s2'', ?e ''b'' 2) \<in> set (lb_ready (fold (lb_step demo_router) ?es demo_lb))"
    "''a'' \<noteq> (''b''::string)"
    unfolding r by simp_all
  from lb_ready_exclusive [OF demo_new refl this] show ?thesis unfolding r by simp
qed

end
