(* ===== verification/Message_Queue.thy ===== *)
theory Message_Queue
  imports Interfaces
begin

text \<open>
  Model of \<open>integration/verl/experimental_fully_async/message_queue.py\<close>: the exactly-once
  ledger in front of the native sample queue. The ledger is the SQLite table, as a map from the
  logical sample id to its row; the lock serialises the calls, so one call is a function of the
  state.

  Parameters: the native queue, the decoding of a sample to its id and digest (cloudpickle and
  SHA-256), and what the database does. \<open>DbFailed visible\<close> is a statement or commit that raised,
  with its effect visible to later statements of the same connection or not.
\<close>

record completion =
  ce_task_session :: string
  ce_sample_id :: string
  ce_digest :: string
  ce_seq :: int
  ce_dropped :: bool

definition mk_completion :: "string \<Rightarrow> string \<Rightarrow> string \<Rightarrow> int \<Rightarrow> bool \<Rightarrow> completion res" where
  "mk_completion ts sid digest sq dropped =
     (if ts = [] \<or> sid = [] \<or> digest = []
      then Inl (ValueError ''CompletionEvidence identity/digest fields must be nonempty'')
      else if sq < 0 then Inl (ValueError ''enqueue_seq must be nonnegative'')
      else Inr \<lparr>ce_task_session = ts, ce_sample_id = sid, ce_digest = digest, ce_seq = sq,
                ce_dropped = dropped\<rparr>)"

record row =
  row_digest :: string
  row_seq :: int
  row_dropped :: "bool option"

record 'q mq =
  mq_session :: string
  mq_rows :: "string \<rightharpoonup> row"
  mq_next_seq :: int
  mq_native :: 'q

datatype db_outcome = DbOk | DbFailed bool

type_synonym ('m, 'q) native_put = "'m option \<Rightarrow> 'q \<Rightarrow> bool res \<times> 'q"

definition new_mq :: "string \<Rightarrow> 'q \<Rightarrow> 'q mq res" where
  "new_mq ts q =
     (if ts = [] then Inl (ValueError ''task_session must be a nonempty string'')
      else Inr \<lparr>mq_session = ts, mq_rows = Map.empty, mq_next_seq = 0, mq_native = q\<rparr>)"

definition mq_decode_identity :: "('m \<Rightarrow> (pyval \<times> string)) \<Rightarrow> 'm \<Rightarrow> (string \<times> string) res" where
  \<comment> \<open>the parameter gives the decoded \<open>sample_id\<close> attribute and the payload digest\<close>
  "mq_decode_identity decode sample =
     (let (sid, digest) = decode sample in
      if \<not> is_nonempty_str sid
      then Inl (ValueError ''completed rollout sample requires nonempty sample_id'')
      else Inr (pystr_of sid, digest))"

definition mq_lookup :: "string \<Rightarrow> 'q mq \<Rightarrow> completion option res" where
  "mq_lookup sid s =
     (case mq_rows s sid of
        None \<Rightarrow> Inr None
      | Some r \<Rightarrow>
          (case row_dropped r of
             None \<Rightarrow> Inl (RuntimeError ''completion ledger contains an unresolved enqueue'')
           | Some d \<Rightarrow> map_res Some (mk_completion (mq_session s) sid (row_digest r) (row_seq r) d)))"

definition mq_put_once ::
    "('m, 'q) native_put \<Rightarrow> ('m \<Rightarrow> (pyval \<times> string)) \<Rightarrow> db_outcome \<Rightarrow> db_outcome \<Rightarrow> 'm option \<Rightarrow> 'q mq
       \<Rightarrow> completion res \<times> 'q mq" where
  "mq_put_once put decode reserve finalize sample s =
     (case sample of
        None \<Rightarrow> (Inl (ValueError ''put_sample_once is for completed samples''), s)
      | Some m \<Rightarrow>
          (case mq_decode_identity decode m of
             Inl e \<Rightarrow> (Inl e, s)
           | Inr (sid, digest) \<Rightarrow>
               (case mq_lookup sid s of
                  Inl e \<Rightarrow> (Inl e, s)
                | Inr (Some existing) \<Rightarrow>
                    if ce_digest existing \<noteq> digest
                    then (Inl (DuplicateCompletionError ''conflicting payload digest for completion''), s)
                    else (Inr existing, s)
                | Inr None \<Rightarrow>
                    (let sq = mq_next_seq s;
                         provisional = \<lparr>row_digest = digest, row_seq = sq, row_dropped = None\<rparr>;
                         s1 = s\<lparr>mq_rows := (mq_rows s)(sid \<mapsto> provisional)\<rparr> in
                     case reserve of
                       DbFailed visible \<Rightarrow>
                         (Inl (BackendError ''reserving the completion row failed''), if visible then s1 else s)
                     | DbOk \<Rightarrow>
                         (let s2 = s1\<lparr>mq_next_seq := sq + 1\<rparr> in
                          case put sample (mq_native s2) of
                            (Inl e, q) \<Rightarrow> (Inl e, s2\<lparr>mq_native := q\<rparr>)
                          | (Inr original, q) \<Rightarrow>
                              (let s3 = s2\<lparr>mq_native := q\<rparr>;
                                   dropped = (\<not> original);
                                   s4 = s3\<lparr>mq_rows := (mq_rows s3)(sid \<mapsto>
                                          provisional\<lparr>row_dropped := Some dropped\<rparr>)\<rparr> in
                               case finalize of
                                 DbFailed visible \<Rightarrow>
                                   (Inl (RuntimeError ''sample was queued but completion evidence could not be finalized''),
                                    if visible then s4 else s3)
                               | DbOk \<Rightarrow> (mk_completion (mq_session s) sid digest sq dropped, s4)))))))"

definition mq_put_sample ::
    "('m, 'q) native_put \<Rightarrow> ('m \<Rightarrow> (pyval \<times> string)) \<Rightarrow> db_outcome \<Rightarrow> db_outcome \<Rightarrow> 'm option \<Rightarrow> 'q mq
       \<Rightarrow> bool res \<times> 'q mq" where
  "mq_put_sample put decode reserve finalize sample s =
     (case sample of
        None \<Rightarrow> (case put None (mq_native s) of (r, q) \<Rightarrow> (r, s\<lparr>mq_native := q\<rparr>))
      | Some m \<Rightarrow>
          (case mq_put_once put decode reserve finalize sample s of
             (Inl e, s') \<Rightarrow> (Inl e, s')
           | (Inr ev, s') \<Rightarrow> (Inr (\<not> ce_dropped ev), s')))"

section \<open>The queue as a machine\<close>

datatype 'm mq_event =
    MPutOnce db_outcome db_outcome "'m option"
  | MPut db_outcome db_outcome "'m option"

fun mq_step ::
    "('m, 'q) native_put \<Rightarrow> ('m \<Rightarrow> (pyval \<times> string)) \<Rightarrow> 'm mq_event \<Rightarrow> 'q mq \<Rightarrow> 'q mq" where
  "mq_step put decode (MPutOnce a b m) s = snd (mq_put_once put decode a b m s)"
| "mq_step put decode (MPut a b m) s = snd (mq_put_sample put decode a b m s)"

definition final_row :: "'q mq \<Rightarrow> string \<Rightarrow> row option" where
  "final_row s sid = (case mq_rows s sid of None \<Rightarrow> None
     | Some r \<Rightarrow> if row_dropped r = None then None else Some r)"

lemma final_row_Some: "final_row s sid = Some r \<longleftrightarrow> mq_rows s sid = Some r \<and> row_dropped r \<noteq> None"
  by (auto simp: final_row_def split: option.splits)

definition mq_inv :: "'q mq \<Rightarrow> bool" where
  "mq_inv s \<longleftrightarrow> mq_session s \<noteq> [] \<and> 0 \<le> mq_next_seq s
     \<and> (\<forall>sid r. mq_rows s sid = Some r \<longrightarrow> 0 \<le> row_seq r \<and> sid \<noteq> [])
     \<and> (\<forall>sid r. final_row s sid = Some r \<longrightarrow> row_seq r < mq_next_seq s)
     \<and> (\<forall>a b r q. final_row s a = Some r \<longrightarrow> final_row s b = Some q \<longrightarrow> row_seq r = row_seq q \<longrightarrow> a = b)"

text \<open>What one \<open>put_sample_once\<close> does: nothing, a reservation, a failed or a finished enqueue.\<close>

definition reserved :: "string \<Rightarrow> string \<Rightarrow> 'q mq \<Rightarrow> 'q mq" where
  "reserved sid digest s = s\<lparr>mq_rows := (mq_rows s)(sid \<mapsto>
     \<lparr>row_digest = digest, row_seq = mq_next_seq s, row_dropped = None\<rparr>)\<rparr>"

definition enqueued :: "string \<Rightarrow> string \<Rightarrow> bool option \<Rightarrow> 'q \<Rightarrow> 'q mq \<Rightarrow> 'q mq" where
  "enqueued sid digest dropped q s = s\<lparr>mq_native := q, mq_next_seq := mq_next_seq s + 1,
     mq_rows := (mq_rows s)(sid \<mapsto> \<lparr>row_digest = digest, row_seq = mq_next_seq s, row_dropped = dropped\<rparr>)\<rparr>"

lemma mq_put_once_cases:
  obtains res where "mq_put_once put decode a b sample s = (res, s)"
      "\<forall>ev. res = Inr ev \<longrightarrow> (\<exists>m sid digest. sample = Some m \<and> mq_decode_identity decode m = Inr (sid, digest)
         \<and> mq_lookup sid s = Inr (Some ev) \<and> ce_digest ev = digest)"
  | m sid digest e where "sample = Some m" "mq_decode_identity decode m = Inr (sid, digest)"
      "mq_rows s sid = None" "mq_put_once put decode a b sample s = (Inl e, reserved sid digest s)"
  | m sid digest e q dr where "sample = Some m" "mq_decode_identity decode m = Inr (sid, digest)"
      "mq_rows s sid = None" "q = snd (put sample (mq_native s))"
      "mq_put_once put decode a b sample s = (Inl e, enqueued sid digest dr q s)"
  | m sid digest q dr where "sample = Some m" "mq_decode_identity decode m = Inr (sid, digest)"
      "mq_rows s sid = None" "q = snd (put sample (mq_native s))"
      "mq_put_once put decode a b sample s =
        (mk_completion (mq_session s) sid digest (mq_next_seq s) dr, enqueued sid digest (Some dr) q s)"
proof (cases sample)
  case None
  then show ?thesis by (intro that(1)) (auto simp: mq_put_once_def)
next
  case m: (Some m)
  show ?thesis
  proof (cases "mq_decode_identity decode m")
    case (Inl e)
    with m show ?thesis by (intro that(1)) (auto simp: mq_put_once_def)
  next
    case (Inr p)
    then obtain sid digest where d: "mq_decode_identity decode m = Inr (sid, digest)" by (cases p) auto
    show ?thesis
    proof (cases "mq_lookup sid s")
      case (Inl e)
      with m d show ?thesis by (intro that(1)) (auto simp: mq_put_once_def)
    next
      case l: (Inr existing)
      show ?thesis
      proof (cases existing)
        case (Some ev)
        with m d l show ?thesis
          by (intro that(1) [of "fst (mq_put_once put decode a b sample s)"]) (auto simp: mq_put_once_def)
      next
        case None
        with l have none: "mq_rows s sid = None"
          by (auto simp: mq_lookup_def map_res_Inr_iff split: option.splits)
        obtain res q where put: "put (Some m) (mq_native s) = (res, q)"
          by (cases "put (Some m) (mq_native s)")
        show ?thesis
        proof (cases a)
          case (DbFailed v)
          show ?thesis
          proof (cases v)
            case True
            with DbFailed m d l None none show ?thesis
              by (intro that(2)) (auto simp: mq_put_once_def reserved_def Let_def)
          next
            case False
            with DbFailed m d l None show ?thesis
              by (intro that(1)) (auto simp: mq_put_once_def Let_def)
          qed
        next
          case DbOk
          show ?thesis
          proof (cases res)
            case (Inl e)
            with DbOk m d l None none put show ?thesis
              by (intro that(3) [of m sid digest q e None]) (auto simp: mq_put_once_def enqueued_def Let_def)
          next
            case (Inr orig)
            show ?thesis
            proof (cases b)
              case (DbFailed v)
              with Inr \<open>a = DbOk\<close> m d l None none put show ?thesis
                by (intro that(3) [of m sid digest q _ "if v then Some (\<not> orig) else None"])
                  (auto simp: mq_put_once_def enqueued_def Let_def)
            next
              case DbOk
              with Inr \<open>a = DbOk\<close> m d l None none put show ?thesis
                by (intro that(4) [of m sid digest q "\<not> orig"])
                  (auto simp: mq_put_once_def enqueued_def Let_def)
            qed
          qed
        qed
      qed
    qed
  qed
qed

lemma final_reserved:
  "mq_rows s sid = None \<Longrightarrow> final_row (reserved sid digest s) x = final_row s x"
  by (auto simp: final_row_def reserved_def)

lemma mq_inv_native: "mq_inv (s\<lparr>mq_native := q\<rparr>) = mq_inv s"
  by (simp add: mq_inv_def final_row_def)

lemma mq_inv_reserved:
  assumes "mq_inv s" and "mq_rows s sid = None" and "sid \<noteq> []"
  shows "mq_inv (reserved sid digest s)"
proof -
  have "final_row (reserved sid digest s) x = final_row s x" for x
    using assms(2) by (auto simp: final_row_def reserved_def)
  then show ?thesis using assms by (auto simp: mq_inv_def reserved_def)
qed

lemma final_enqueued:
  "mq_rows s sid = None \<Longrightarrow> final_row (enqueued sid digest dr q s) x =
     (if x = sid then (if dr = None then None
        else Some \<lparr>row_digest = digest, row_seq = mq_next_seq s, row_dropped = dr\<rparr>)
      else final_row s x)"
  by (auto simp: final_row_def enqueued_def)

lemma mq_inv_enqueued:
  assumes inv: "mq_inv s" and new: "mq_rows s sid = None" and "sid \<noteq> []"
  shows "mq_inv (enqueued sid digest dr q s)"
proof -
  have lt: "row_seq r < mq_next_seq s" if "final_row s x = Some r" for x r
    using inv that by (simp add: mq_inv_def)
  show ?thesis
    unfolding mq_inv_def
  proof (intro conjI allI impI)
    fix x r y r'
    assume "final_row (enqueued sid digest dr q s) x = Some r"
      "final_row (enqueued sid digest dr q s) y = Some r'" "row_seq r = row_seq r'"
    then show "x = y"
      using lt inv unfolding final_enqueued [OF new] mq_inv_def by (fastforce split: if_splits)
  next
    fix x r assume "final_row (enqueued sid digest dr q s) x = Some r"
    then show "row_seq r < mq_next_seq (enqueued sid digest dr q s)"
      using lt [of x r] unfolding final_enqueued [OF new] by (auto simp: enqueued_def split: if_splits)
  next
    fix x r assume "mq_rows (enqueued sid digest dr q s) x = Some r"
    then show "0 \<le> row_seq r" "x \<noteq> []"
      using inv assms(3) unfolding mq_inv_def by (auto simp: enqueued_def split: if_splits)
  qed (use inv in \<open>simp_all add: mq_inv_def enqueued_def\<close>)
qed

lemma decode_nonempty: "mq_decode_identity decode m = Inr (sid, digest) \<Longrightarrow> sid \<noteq> []"
  by (auto simp: mq_decode_identity_def is_nonempty_str_iff split: prod.splits if_splits)

lemma mq_put_once_inv:
  assumes inv: "mq_inv s"
  shows "mq_inv (snd (mq_put_once put decode a b m s))"
  by (cases rule: mq_put_once_cases [of put decode a b m s])
    (use inv in \<open>simp_all add: mq_inv_reserved mq_inv_enqueued decode_nonempty\<close>)

lemma mq_put_sample_state:
  "snd (mq_put_sample put decode a b m s) =
     (case m of None \<Rightarrow> s\<lparr>mq_native := snd (put None (mq_native s))\<rparr>
      | Some _ \<Rightarrow> snd (mq_put_once put decode a b m s))"
  by (simp add: mq_put_sample_def split: option.split prod.split sum.split)

lemma mq_native_irrelevant [simp]: "final_row (s\<lparr>mq_native := q\<rparr>) = final_row s"
  by (simp add: final_row_def fun_eq_iff)

lemma mq_step_inv: "mq_inv s \<Longrightarrow> mq_inv (mq_step put decode e s)"
  by (cases e) (simp_all add: mq_put_once_inv mq_put_sample_state mq_inv_native split: option.split)

lemma mq_step_final:
  "final_row s sid = Some r \<Longrightarrow> final_row (mq_step put decode e s) sid = Some r"
proof -
  assume r: "final_row s sid = Some r"
  then have "mq_rows s sid \<noteq> None" by (auto simp: final_row_Some)
  with r have "final_row (snd (mq_put_once put decode a b m s)) sid = Some r" for a b m
    by (cases rule: mq_put_once_cases [of put decode a b m s])
      (auto simp: final_enqueued final_reserved)
  with r show ?thesis by (cases e) (simp_all add: mq_put_sample_state split: option.split)
qed

interpretation mq: invariant_machine mq_inv "mq_step put decode" for put decode
  by unfold_locales (rule mq_step_inv)

interpretation mq_ledger: write_once mq_inv "mq_step put decode" final_row for put decode
  by unfold_locales (rule mq_step_final)

lemma new_mq_inv: "new_mq ts q = Inr s \<Longrightarrow> mq_inv s"
  by (auto simp: new_mq_def mq_inv_def final_row_def split: if_splits)

lemma mq_session_fixed: "mq_session (mq_step put decode e s) = mq_session s"
proof -
  have "mq_session (snd (mq_put_once put decode a b m s)) = mq_session s" for a b m
    by (cases rule: mq_put_once_cases [of put decode a b m s]) (simp_all add: reserved_def enqueued_def)
  then show ?thesis by (cases e) (simp_all add: mq_put_sample_state split: option.split)
qed

text \<open>A completion returned by one call is the finished row of its sample.\<close>

lemma put_once_row:
  assumes "mq_put_once put decode a b (Some m) s = (Inr ev, s')"
  obtains sid digest r where "mq_decode_identity decode m = Inr (sid, digest)" "final_row s' sid = Some r"
    "ev = \<lparr>ce_task_session = mq_session s', ce_sample_id = sid, ce_digest = digest, ce_seq = row_seq r,
           ce_dropped = the (row_dropped r)\<rparr>" "row_digest r = digest"
    "sid \<noteq> []" "digest \<noteq> []" "mq_session s' \<noteq> []" "0 \<le> row_seq r"
proof (cases rule: mq_put_once_cases [of put decode a b "Some m" s])
  case (1 res)
  have "res = Inr ev" and s': "s' = s" using 1(1) assms by simp_all
  with 1(2) obtain sid digest where d: "mq_decode_identity decode m = Inr (sid, digest)"
      "mq_lookup sid s = Inr (Some ev)" "ce_digest ev = digest" by blast
  then obtain r d' where "mq_rows s sid = Some r" "row_dropped r = Some d'"
      "mk_completion (mq_session s) sid (row_digest r) (row_seq r) d' = Inr ev"
    by (auto simp: mq_lookup_def map_res_Inr_iff split: option.splits)
  then have "ev = \<lparr>ce_task_session = mq_session s', ce_sample_id = sid, ce_digest = digest,
      ce_seq = row_seq r, ce_dropped = the (row_dropped r)\<rparr> \<and> row_digest r = digest
      \<and> sid \<noteq> [] \<and> digest \<noteq> [] \<and> mq_session s' \<noteq> [] \<and> 0 \<le> row_seq r \<and> final_row s' sid = Some r"
    using d(3) s' by (simp add: mk_completion_def final_row_Some split: if_splits) auto
  with d(1) show ?thesis by (intro that [of sid digest r]) blast+
next
  case (4 m' sid digest q dr)
  let ?r = "\<lparr>row_digest = digest, row_seq = mq_next_seq s, row_dropped = Some dr\<rparr>"
  have ev: "mk_completion (mq_session s) sid digest (mq_next_seq s) dr = Inr ev"
    "s' = enqueued sid digest (Some dr) q s" using 4 assms by auto
  then have "ev = \<lparr>ce_task_session = mq_session s', ce_sample_id = sid, ce_digest = digest,
      ce_seq = row_seq ?r, ce_dropped = the (row_dropped ?r)\<rparr>
      \<and> sid \<noteq> [] \<and> digest \<noteq> [] \<and> mq_session s' \<noteq> [] \<and> 0 \<le> row_seq ?r \<and> final_row s' sid = Some ?r"
    using 4(3) by (auto simp: mk_completion_def final_enqueued split: if_splits) (simp_all add: enqueued_def)
  with 4(1,2) show ?thesis by (intro that [of sid digest ?r]) auto
qed (use assms in simp_all)

lemma put_once_final:
  assumes "final_row s sid = Some r" and "mq_decode_identity decode m = Inr (sid, digest)"
    and "mq_session s \<noteq> []" "sid \<noteq> []" "row_digest r \<noteq> []" "0 \<le> row_seq r"
  shows "mq_put_once put decode a b (Some m) s =
    (if row_digest r \<noteq> digest
     then Inl (DuplicateCompletionError ''conflicting payload digest for completion'')
     else Inr \<lparr>ce_task_session = mq_session s, ce_sample_id = sid, ce_digest = digest,
               ce_seq = row_seq r, ce_dropped = the (row_dropped r)\<rparr>, s)"
proof -
  obtain d where "mq_rows s sid = Some r" "row_dropped r = Some d" using assms(1) by (auto simp: final_row_Some)
  with assms have "mq_lookup sid s = Inr (Some \<lparr>ce_task_session = mq_session s, ce_sample_id = sid,
      ce_digest = row_digest r, ce_seq = row_seq r, ce_dropped = d\<rparr>)"
    by (simp add: mq_lookup_def mk_completion_def)
  with assms(2) \<open>row_dropped r = Some d\<close> show ?thesis by (simp add: mq_put_once_def)
qed

text \<open>A producer that lost the reply calls again.\<close>

interpretation mq_put: retryable "\<lambda>(a, b, m). mq_put_once put decode a b m" for put decode
proof
  fix e s r s'
  assume call: "(case e of (a, b, m) \<Rightarrow> mq_put_once put decode a b m) s = (Inr r, s')"
  obtain a b x where e: "e = (a, b, x)" by (cases e)
  with call obtain m where m: "x = Some m" by (cases x) (auto simp: mq_put_once_def)
  with call e have "mq_put_once put decode a b (Some m) s = (Inr r, s')" by simp
  from put_once_row [OF this] obtain sid digest rw where "mq_decode_identity decode m = Inr (sid, digest)"
      "final_row s' sid = Some rw" "row_digest rw = digest" "sid \<noteq> []" "digest \<noteq> []" "mq_session s' \<noteq> []"
      "0 \<le> row_seq rw" by metis
  then have "mq_put_once put decode a b (Some m) s' = (Inr \<lparr>ce_task_session = mq_session s', ce_sample_id = sid,
      ce_digest = digest, ce_seq = row_seq rw, ce_dropped = the (row_dropped rw)\<rparr>, s')"
    by (simp add: put_once_final)
  with e m show "\<exists>r'. (case e of (a, b, m) \<Rightarrow> mq_put_once put decode a b m) s' = (Inr r', s')" by auto
qed

section \<open>How often the native queue is called\<close>

text \<open>
  \<open>cnt\<close> counts, in the native queue, the puts of each sample: a call with a sample counts one for
  its id, even a call that raises.
\<close>

definition counts_puts ::
    "('m, 'q) native_put \<Rightarrow> ('m \<Rightarrow> (pyval \<times> string)) \<Rightarrow> ('q \<Rightarrow> string \<Rightarrow> nat) \<Rightarrow> bool" where
  "counts_puts put decode cnt \<longleftrightarrow>
     (\<forall>q sid. cnt (snd (put None q)) sid = cnt q sid)
     \<and> (\<forall>m q sid. cnt (snd (put (Some m) q)) sid =
          cnt q sid + (if map_res fst (mq_decode_identity decode m) = Inr sid then 1 else 0))"

definition once_inv :: "('q \<Rightarrow> string \<Rightarrow> nat) \<Rightarrow> 'q \<Rightarrow> 'q mq \<Rightarrow> bool" where
  "once_inv cnt q0 s \<longleftrightarrow> (\<forall>sid. (mq_rows s sid = None \<longrightarrow> cnt (mq_native s) sid = cnt q0 sid)
     \<and> cnt (mq_native s) sid \<le> cnt q0 sid + 1
     \<and> (final_row s sid \<noteq> None \<longrightarrow> cnt (mq_native s) sid = cnt q0 sid + 1))"

lemma once_put_once:
  assumes cp: "counts_puts put decode cnt" and inv: "once_inv cnt q0 s"
  shows "once_inv cnt q0 (snd (mq_put_once put decode a b m s))"
proof -
  have enq: "once_inv cnt q0 (enqueued sid digest dr (snd (put (Some k) (mq_native s))) s)"
    if k: "mq_decode_identity decode k = Inr (sid, digest)" and new: "mq_rows s sid = None" for k sid digest dr
  proof -
    have c: "cnt (snd (put (Some k) (mq_native s))) x = cnt (mq_native s) x + (if x = sid then 1 else 0)" for x
      using cp k by (auto simp: counts_puts_def)
    have old: "cnt (mq_native s) sid = cnt q0 sid" using inv new by (simp add: once_inv_def)
    show ?thesis
      unfolding once_inv_def final_enqueued [OF new]
      using inv c old by (auto simp: once_inv_def enqueued_def)
  qed
  show ?thesis
  proof (cases rule: mq_put_once_cases [of put decode a b m s])
    case (2 k sid digest e)
    with inv show ?thesis by (auto simp: once_inv_def reserved_def final_row_def split: if_splits)
  qed (use inv enq in simp_all)
qed

lemma once_step:
  assumes cp: "counts_puts put decode cnt" and inv: "once_inv cnt q0 s"
  shows "once_inv cnt q0 (mq_step put decode e s)"
proof (cases e)
  case (MPut a b m)
  with once_put_once [OF cp inv] show ?thesis
    using cp inv by (cases m) (simp_all add: mq_put_sample_state once_inv_def counts_puts_def)
qed (simp add: once_put_once [OF cp inv])

interpretation once: invariant_machine
  "\<lambda>s. counts_puts put decode cnt \<longrightarrow> once_inv cnt q0 s" "mq_step put decode" for put decode cnt q0
  by unfold_locales (simp add: once_step)


lemma unresolved_step:
  assumes "\<exists>r. mq_rows s sid = Some r \<and> row_dropped r = None"
  shows "\<exists>r. mq_rows (mq_step put decode e s) sid = Some r \<and> row_dropped r = None"
proof -
  have "\<exists>r. mq_rows (snd (mq_put_once put decode a b m s)) sid = Some r \<and> row_dropped r = None" for a b m
    using assms by (cases rule: mq_put_once_cases [of put decode a b m s])
      (auto simp: reserved_def enqueued_def)
  with assms show ?thesis by (cases e) (auto simp: mq_put_sample_state split: option.split)
qed

section \<open>Properties\<close>

text \<open>A queue for the instances: it records the ids it was given, and fails on demand. A sample is
  its id and its digest.\<close>

definition demo_put :: "(string \<times> string, string list) native_put" where
  "demo_put m q = (case m of None \<Rightarrow> (Inr True, q)
     | Some (sid, digest) \<Rightarrow> (if digest = ''bad'' then Inl (RuntimeError ''queue full'') else Inr True,
        if sid = [] then q else q @ [sid]))"

definition demo_decode :: "string \<times> string \<Rightarrow> pyval \<times> string" where
  "demo_decode = (\<lambda>(sid, digest). (PStr sid, digest))"

definition demo_count :: "string list \<Rightarrow> string \<Rightarrow> nat" where
  "demo_count q sid = length (filter ((=) sid) q)"

definition demo_mq :: "string list mq" where
  "demo_mq = \<lparr>mq_session = ''T'', mq_rows = Map.empty, mq_next_seq = 0, mq_native = []\<rparr>"

lemma demo_new_mq: "new_mq ''T'' [] = Inr demo_mq" by (simp add: new_mq_def demo_mq_def)

lemma demo_decode_identity:
  "sid \<noteq> [] \<Longrightarrow> mq_decode_identity demo_decode (sid, digest) = Inr (sid, digest)"
  by (simp add: mq_decode_identity_def demo_decode_def is_nonempty_str_iff)

lemma demo_counts: "counts_puts demo_put demo_decode demo_count"
proof -
  have [simp]: "mq_decode_identity demo_decode (a, b) =
      (if a = [] then Inl (ValueError ''completed rollout sample requires nonempty sample_id'') else Inr (a, b))" for a b
    by (simp add: mq_decode_identity_def demo_decode_def is_nonempty_str_iff)
  show ?thesis
    unfolding counts_puts_def by (intro conjI allI) (auto simp: demo_put_def demo_count_def split: prod.split)
qed

lemmas mq_eval = mq_put_once_def mq_lookup_def demo_put_def demo_mq_def demo_decode_identity Let_def
  mk_completion_def

text \<open>C21: however often a sample is submitted, with whatever failures of the native queue and of the
  ledger, the native queue is called at most once for its id, and exactly once when the ledger
  holds its completion.\<close>

theorem mq_at_most_once:
  assumes "new_mq ts q = Inr s0" and "s = fold (mq_step put decode) es s0"
    and "counts_puts put decode cnt"
  shows "cnt (mq_native s) sid \<le> cnt q sid + 1
    \<and> (final_row s sid \<noteq> None \<longrightarrow> cnt (mq_native s) sid = cnt q sid + 1)"
proof -
  have "once_inv cnt q s0" using assms(1) by (auto simp: new_mq_def once_inv_def final_row_def split: if_splits)
  then have "once_inv cnt q s"
    using once.run_inv [of put decode cnt q s0 es] assms(2,3) by simp
  then show ?thesis by (simp add: once_inv_def)
qed

theorem mq_at_most_once_witness:
  "demo_count (mq_native (fold (mq_step demo_put demo_decode)
     [MPutOnce DbOk DbOk (Some (''x'', ''bad'')), MPut DbOk DbOk (Some (''x'', ''good''))] demo_mq)) ''x'' \<le> 1"
  using mq_at_most_once [OF demo_new_mq refl demo_counts, of "[MPutOnce DbOk DbOk (Some (''x'', ''bad'')),
      MPut DbOk DbOk (Some (''x'', ''good''))]" "''x''"]
  by (simp add: demo_count_def)

text \<open>once a submission returned its completion evidence, every later submission of the same
  sample id with the same payload returns the same evidence, one with a different payload is
  refused as a duplicate, and neither changes the ledger or the queue.\<close>

theorem mq_completion_replay:
  assumes "new_mq ts q = Inr s0" and "s = fold (mq_step put decode) es s0"
    and "mq_put_once put decode a b (Some m) s = (Inr ev, s')"
    and "later = fold (mq_step put decode) fs s'"
    and "mq_decode_identity decode m' = Inr (ce_sample_id ev, digest)"
  shows "mq_put_once put decode a' b' (Some m') later =
    (if digest = ce_digest ev then Inr ev
     else Inl (DuplicateCompletionError ''conflicting payload digest for completion''), later)"
proof -
  have inv: "mq_inv s" unfolding assms(2) by (rule mq.run_inv [OF new_mq_inv [OF assms(1)]])
  have inv': "mq_inv s'" using mq_put_once_inv [OF inv, of put decode a b "Some m"] assms(3) by simp
  obtain sid r where d: "final_row s' sid = Some r" "sid \<noteq> []" "row_digest r \<noteq> []" "mq_session s' \<noteq> []" "0 \<le> row_seq r"
    and ev: "ev = \<lparr>ce_task_session = mq_session s', ce_sample_id = sid, ce_digest = row_digest r,
      ce_seq = row_seq r, ce_dropped = the (row_dropped r)\<rparr>"
    using put_once_row [OF assms(3)] by metis
  have f: "final_row later sid = Some r" unfolding assms(4) by (rule mq_ledger.run_keeps [OF inv' d(1)])
  have "mq_session later = mq_session s'"
    unfolding assms(4) by (induction fs arbitrary: s') (simp_all add: mq_session_fixed)
  with put_once_final [OF f, of decode m' digest put a' b'] d assms(5) ev show ?thesis by auto
qed

theorem mq_completion_replay_witness:
  "\<exists>s :: string list mq. fst (mq_put_once demo_put demo_decode DbOk DbOk (Some (''x'', ''other'')) s) =
     Inl (DuplicateCompletionError ''conflicting payload digest for completion'')"
proof -
  let ?s = "fold (mq_step demo_put demo_decode) [] demo_mq"
  let ?ev = "\<lparr>ce_task_session = ''T'', ce_sample_id = ''x'', ce_digest = ''good'', ce_seq = 0, ce_dropped = False\<rparr>"
  define s' where "s' = snd (mq_put_once demo_put demo_decode DbOk DbOk (Some (''x'', ''good'')) ?s)"
  have c: "mq_put_once demo_put demo_decode DbOk DbOk (Some (''x'', ''good'')) ?s = (Inr ?ev, s')"
    by (simp add: s'_def mq_eval)
  have d: "mq_decode_identity demo_decode (''x'', ''other'') = Inr (ce_sample_id ?ev, ''other'')"
    by (simp add: demo_decode_identity)
  from mq_completion_replay [OF demo_new_mq refl c refl d, of DbOk DbOk "[]"]
  have "fst (mq_put_once demo_put demo_decode DbOk DbOk (Some (''x'', ''other'')) s') =
     Inl (DuplicateCompletionError ''conflicting payload digest for completion'')" by simp
  then show ?thesis by blast
qed

text \<open>when the native queue raised after the reservation, the outcome is unknown, and every
  later submission of that sample is refused without touching the queue or the ledger.\<close>

theorem mq_uncertain_put_fails_closed:
  assumes "mq_decode_identity decode m = Inr (sid, digest)" and "mq_rows s sid = None"
    and "fst (put (Some m) (mq_native s)) = Inl e"
    and "later = fold (mq_step put decode) fs (snd (mq_put_once put decode DbOk b (Some m) s))"
    and "mq_decode_identity decode m' = Inr (sid, digest')"
  shows "mq_put_once put decode a b' (Some m') later =
    (Inl (RuntimeError ''completion ledger contains an unresolved enqueue''), later)"
proof -
  let ?s' = "snd (mq_put_once put decode DbOk b (Some m) s)"
  have open_row: "\<exists>r. mq_rows ?s' sid = Some r \<and> row_dropped r = None"
    using assms(1-3) by (cases "put (Some m) (mq_native s)") (auto simp: mq_put_once_def mq_lookup_def Let_def)
  have "\<exists>r. mq_rows (fold (mq_step put decode) fs t) sid = Some r \<and> row_dropped r = None"
    if "\<exists>r. mq_rows t sid = Some r \<and> row_dropped r = None" for t
    using that
  proof (induction fs arbitrary: t)
    case (Cons e fs)
    have "\<exists>r. mq_rows (mq_step put decode e t) sid = Some r \<and> row_dropped r = None"
      by (rule unresolved_step [OF Cons.prems])
    with Cons.IH show ?case by simp
  qed simp
  from this [OF open_row] obtain r where "mq_rows later sid = Some r" "row_dropped r = None"
    using assms(4) by blast
  with assms(5) show ?thesis by (simp add: mq_put_once_def mq_lookup_def)
qed

theorem mq_uncertain_put_fails_closed_witness:
  "\<exists>s :: string list mq. mq_put_once demo_put demo_decode DbOk DbOk (Some (''x'', ''good'')) s =
     (Inl (RuntimeError ''completion ledger contains an unresolved enqueue''), s)"
proof -
  have d: "mq_decode_identity demo_decode (''x'', ''bad'') = Inr (''x'', ''bad'')"
    "mq_decode_identity demo_decode (''x'', ''good'') = Inr (''x'', ''good'')"
    by (simp_all add: demo_decode_identity)
  have n: "mq_rows demo_mq ''x'' = None" "fst (demo_put (Some (''x'', ''bad'')) (mq_native demo_mq)) = Inl (RuntimeError ''queue full'')"
    by (simp_all add: demo_mq_def demo_put_def)
  from mq_uncertain_put_fails_closed [where put = demo_put and m = "(''x'', ''bad'')" and fs = "[]",
      OF d(1) n refl d(2), of DbOk DbOk DbOk]
  show ?thesis by blast
qed

text \<open>two completions of different samples never carry the same sequence number.\<close>

theorem mq_sequence_unique:
  assumes "new_mq ts q = Inr s0" and "s = fold (mq_step put decode) es s0"
    and "mq_put_once put decode a b (Some m) s = (Inr ev, s')"
    and "mq_put_once put decode a' b' (Some m') (fold (mq_step put decode) fs s') = (Inr ev', s'')"
    and "ce_sample_id ev' \<noteq> ce_sample_id ev"
  shows "ce_seq ev' \<noteq> ce_seq ev"
proof -
  let ?t = "fold (mq_step put decode) fs s'"
  have inv: "mq_inv s" unfolding assms(2) by (rule mq.run_inv [OF new_mq_inv [OF assms(1)]])
  have inv': "mq_inv s'" using mq_put_once_inv [OF inv, of put decode a b "Some m"] assms(3) by simp
  have inv'': "mq_inv s''"
    using mq_put_once_inv [OF mq.run_inv [OF inv', of put decode fs], of put decode a' b' "Some m'"] assms(4) by simp
  obtain sid r where f: "final_row s' sid = Some r" and ev: "ce_sample_id ev = sid" "ce_seq ev = row_seq r"
    using put_once_row [OF assms(3)] by (metis completion.select_convs(2,4))
  obtain sid' r' where f': "final_row s'' sid' = Some r'" and ev': "ce_sample_id ev' = sid'" "ce_seq ev' = row_seq r'"
    using put_once_row [OF assms(4)] by (metis completion.select_convs(2,4))
  have s'': "s'' = mq_step put decode (MPutOnce a' b' (Some m')) ?t" using assms(4) by simp
  have "final_row s'' sid = Some r"
    unfolding s'' by (rule mq_step_final) (rule mq_ledger.run_keeps [OF inv' f])
  with f' inv'' ev ev' assms(5) show ?thesis unfolding mq_inv_def by metis
qed

theorem mq_sequence_unique_witness:
  "\<exists>(s :: string list mq) s' s'' ev ev'.
     mq_put_once demo_put demo_decode DbOk DbOk (Some (''x'', ''good'')) s = (Inr ev, s')
     \<and> mq_put_once demo_put demo_decode DbOk DbOk (Some (''y'', ''good'')) s' = (Inr ev', s'')
     \<and> ce_seq ev' \<noteq> ce_seq ev"
proof -
  let ?es = "[] :: (string \<times> string) mq_event list"
  let ?ev = "\<lambda>x i. \<lparr>ce_task_session = ''T'', ce_sample_id = x, ce_digest = ''good'', ce_seq = i, ce_dropped = False\<rparr>"
  define s' where "s' = snd (mq_put_once demo_put demo_decode DbOk DbOk (Some (''x'', ''good''))
    (fold (mq_step demo_put demo_decode) ?es demo_mq))"
  define s'' where "s'' = snd (mq_put_once demo_put demo_decode DbOk DbOk (Some (''y'', ''good'')) (fold (mq_step demo_put demo_decode) ?es s'))"
  have c: "mq_put_once demo_put demo_decode DbOk DbOk (Some (''x'', ''good''))
      (fold (mq_step demo_put demo_decode) ?es demo_mq) = (Inr (?ev ''x'' 0), s')"
    by (simp add: s'_def mq_eval)
  have c': "mq_put_once demo_put demo_decode DbOk DbOk (Some (''y'', ''good'')) (fold (mq_step demo_put demo_decode) ?es s') =
      (Inr (?ev ''y'' 1), s'')"
    by (simp add: s''_def s'_def mq_eval)
  have "ce_sample_id (?ev ''y'' 1) \<noteq> ce_sample_id (?ev ''x'' 0)" by simp
  from mq_sequence_unique [OF demo_new_mq refl c c' this] c c' show ?thesis
    unfolding fold.simps id_apply by blast
qed

end
