(* ===== verification/Replica_Manager.thy ===== *)
theory Replica_Manager
  imports Interfaces Contracts
begin

text \<open>
  Model of \<open>integration/verl/experimental_fully_async/llm_server_manager.py\<close>: the manager that
  owns the replica view M of one task: the life-cycle state and kind of every replica, the runtime
  inventory, the native service lists, the borrowed creations and the release evidence.

  Runtimes and server handles are numbers. A runtime's routable address and handle are read
  through the argument \<open>slot\<close>. The clock, the placement-group table of Ray and the outcome of
  awaited runtime calls are arguments. An operation that awaits is split at its awaits into a
  begin and an end, so that other operations can run in between.
\<close>

section \<open>State\<close>

record create_result =
  cr_operation_id :: pyval
  cr_lease_id :: string
  cr_rank :: int
  cr_address :: "string option"

record borrowed =
  b_spec :: pydict
  b_result :: "create_result option"
  b_error :: "exn option"
  b_destroy :: "op_evidence option"

record rmgr =
  m_session :: "string option"
  m_state :: "replica_key \<rightharpoonup> replica_state"
  m_kind :: "replica_key \<rightharpoonup> replica_kind"
  m_runtime :: "replica_key \<rightharpoonup> nat"
  m_next_rank :: int
  m_borrowed :: "(string \<times> borrowed) list"
  m_evidence :: "string \<rightharpoonup> replica_key \<times> op_evidence"
  m_replicas :: "nat list"
  m_addresses :: "string list"
  m_handles :: "nat list"

definition new_rmgr :: "string option \<Rightarrow> rmgr" where
  "new_rmgr ts = \<lparr>m_session = ts, m_state = Map.empty, m_kind = Map.empty, m_runtime = Map.empty,
     m_next_rank = 0, m_borrowed = [], m_evidence = Map.empty, m_replicas = [], m_addresses = [],
     m_handles = []\<rparr>"

section \<open>Life cycle\<close>

fun allowed :: "replica_state \<Rightarrow> replica_state set" where
  "allowed CREATING = {ACTIVE, RELEASED_STATE, QUARANTINED}"
| "allowed ACTIVE = {DRAINING}"
| "allowed DRAINING = {ACTIVE, DORMANT, RELEASED_STATE, QUARANTINED}"
| "allowed DORMANT = {ACTIVE, QUARANTINED}"
| "allowed RELEASED_STATE = {}"
| "allowed QUARANTINED = {}"

definition validate_kind_state :: "replica_kind \<Rightarrow> replica_state \<Rightarrow> exn option" where
  "validate_kind_state kind st =
     (if kind = BORROWED \<and> st = DORMANT then Some (ValueError ''borrowed replica cannot enter DORMANT'')
      else if kind = NATIVE \<and> st = RELEASED_STATE
           then Some (ValueError ''native replica must sleep instead of entering RELEASED'')
      else None)"

definition rm_register ::
    "replica_key \<Rightarrow> replica_kind \<Rightarrow> replica_state \<Rightarrow> nat option \<Rightarrow> rmgr \<Rightarrow> unit res \<times> rmgr" where
  "rm_register key kind st rt s =
     (case m_state s key of
        Some current \<Rightarrow>
          if m_kind s key \<noteq> Some kind \<or> current \<noteq> st
          then (Inl (ValueError ''conflicting lifecycle registration''), s)
          else (case rt of
                  None \<Rightarrow> (Inr (), s)
                | Some r \<Rightarrow>
                    (case m_runtime s key of
                       Some existing \<Rightarrow>
                         if existing \<noteq> r
                         then (Inl (ValueError ''ReplicaKey is already bound to another runtime''), s)
                         else (Inr (), s)
                     | None \<Rightarrow> (Inr (), s\<lparr>m_runtime := (m_runtime s)(key \<mapsto> r)\<rparr>)))
      | None \<Rightarrow>
          (case validate_kind_state kind st of
             Some e \<Rightarrow> (Inl e, s)
           | None \<Rightarrow>
               (Inr (), s\<lparr>m_kind := (m_kind s)(key \<mapsto> kind), m_state := (m_state s)(key \<mapsto> st),
                         m_runtime := (case rt of None \<Rightarrow> m_runtime s
                                       | Some r \<Rightarrow> (m_runtime s)(key \<mapsto> r))\<rparr>)))"

definition rm_transition :: "replica_key \<Rightarrow> replica_state \<Rightarrow> rmgr \<Rightarrow> replica_state res \<times> rmgr" where
  "rm_transition key new s =
     (case (m_state s key, m_kind s key) of
        (Some current, Some kind) \<Rightarrow>
          if new = current then (Inr current, s)
          else if new \<notin> allowed current then (Inl (ValueError ''illegal replica transition''), s)
          else (case validate_kind_state kind new of
                  Some e \<Rightarrow> (Inl e, s)
                | None \<Rightarrow>
                    (Inr new, s\<lparr>m_state := (m_state s)(key \<mapsto> new),
                               m_runtime := (if new = RELEASED_STATE then (m_runtime s)(key := None)
                                             else m_runtime s)\<rparr>))
      | _ \<Rightarrow> (Inl (KeyError ''unknown replica''), s))"

text \<open>Native replicas enter M as ACTIVE once the native servers are up.\<close>

fun rm_register_native :: "string \<Rightarrow> (int \<times> nat) list \<Rightarrow> rmgr \<Rightarrow> unit res \<times> rmgr" where
  "rm_register_native ts [] s = (Inr (), s)"
| "rm_register_native ts ((rank, rt) # rest) s =
     (case native_replica_key ts rank 0 of
        Inl e \<Rightarrow> (Inl e, s)
      | Inr key \<Rightarrow>
          (case rm_register key NATIVE ACTIVE (Some rt) s of
             (Inl e, s') \<Rightarrow> (Inl e, s')
           | (Inr _, s') \<Rightarrow>
               rm_register_native ts rest (s'\<lparr>m_next_rank := max (m_next_rank s') (rank + 1)\<rparr>)))"

text \<open>The native initialisation fills the service lists; they are arguments, as are the rank and the
  runtime of every native replica.\<close>

definition rm_initialize ::
    "(int \<times> nat) list \<Rightarrow> string list \<Rightarrow> nat list \<Rightarrow> rmgr \<Rightarrow> unit res \<times> rmgr" where
  "rm_initialize natives addresses handles s0 =
     (let s = s0\<lparr>m_replicas := map snd natives, m_addresses := addresses, m_handles := handles\<rparr> in
      case m_session s of
        Some (c # cs) \<Rightarrow> rm_register_native (c # cs) natives s
      | _ \<Rightarrow> (Inl (RuntimeError ''Manager requires task_session before replica initialization''), s))"

definition rm_initial_routes ::
    "(nat \<Rightarrow> string option \<times> nat option) \<Rightarrow> rmgr \<Rightarrow> replica_key \<rightharpoonup> string" where
  "rm_initial_routes slot s key =
     (case m_runtime s key of
        None \<Rightarrow> None
      | Some rt \<Rightarrow>
          (case fst (slot rt) of
             Some (c # cs) \<Rightarrow> if m_state s key = Some ACTIVE then Some (c # cs) else None
           | _ \<Rightarrow> None))"

section \<open>Native service lists\<close>

fun index_of :: "'a \<Rightarrow> 'a list \<Rightarrow> nat option" where
  "index_of x [] = None"
| "index_of x (y # ys) = (if y = x then Some 0 else map_option Suc (index_of x ys))"

definition rm_service_slot ::
    "(nat \<Rightarrow> string option \<times> nat option) \<Rightarrow> replica_key \<Rightarrow> bool \<Rightarrow> rmgr
       \<Rightarrow> (nat \<times> string option \<times> nat option \<times> nat option) res" where
  "rm_service_slot slot key require_route s =
     (case m_runtime s key of
        None \<Rightarrow> Inl (KeyError ''no runtime'')
      | Some rt \<Rightarrow>
          (let (address, handle) = slot rt in
           if require_route \<and> (address = None \<or> address = Some [] \<or> handle = None)
           then Inl (RuntimeError ''native runtime lacks a routable server identity'')
           else
             (let index = Option.bind address (\<lambda>a. index_of a (m_addresses s)) in
              case index of
                None \<Rightarrow> Inr (rt, address, handle, None)
              | Some i \<Rightarrow>
                  if length (m_handles s) \<le> i \<or> Some (m_handles s ! i) \<noteq> handle
                  then Inl (RuntimeError ''native service address/handle inventory is inconsistent'')
                  else Inr (rt, address, handle, Some i))))"

definition pop_at :: "nat \<Rightarrow> 'a list \<Rightarrow> 'a list" where
  "pop_at i xs = take i xs @ drop (Suc i) xs"

definition rm_deactivate ::
    "(nat \<Rightarrow> string option \<times> nat option) \<Rightarrow> replica_key \<Rightarrow> rmgr \<Rightarrow> nat res \<times> rmgr" where
  "rm_deactivate slot key s =
     (case rm_service_slot slot key False s of
        Inl e \<Rightarrow> (Inl e, s)
      | Inr (rt, _, _, index) \<Rightarrow>
          (let s1 = s\<lparr>m_replicas := remove1 rt (m_replicas s)\<rparr> in
           (Inr rt, case index of
                      None \<Rightarrow> s1
                    | Some i \<Rightarrow> s1\<lparr>m_addresses := pop_at i (m_addresses s1),
                                  m_handles := pop_at i (m_handles s1)\<rparr>)))"

definition rm_activate ::
    "(nat \<Rightarrow> string option \<times> nat option) \<Rightarrow> replica_key \<Rightarrow> rmgr \<Rightarrow> nat res \<times> rmgr" where
  "rm_activate slot key s =
     (case rm_service_slot slot key True s of
        Inl e \<Rightarrow> (Inl e, s)
      | Inr (rt, address, handle, index) \<Rightarrow>
          (let s1 = (if rt \<in> set (m_replicas s) then s else s\<lparr>m_replicas := m_replicas s @ [rt]\<rparr>) in
           (Inr rt, case (index, address, handle) of
                      (None, Some a, Some h) \<Rightarrow>
                        s1\<lparr>m_addresses := m_addresses s1 @ [a], m_handles := m_handles s1 @ [h]\<rparr>
                    | _ \<Rightarrow> s1)))"

section \<open>Borrowed placement\<close>

record parallel_config =
  tensor_parallel :: int
  data_parallel :: int
  pipeline_parallel :: int

fun required_fields :: "pydict \<Rightarrow> string list \<Rightarrow> exn option" where
  "required_fields spec [] = None"
| "required_fields spec (f # fs) =
     (if \<not> is_nonempty_str (pyget spec f)
      then Some (ValueError (''borrowed placement requires nonempty '' @ f))
      else required_fields spec fs)"

fun claim_items :: "pyval \<Rightarrow> pyval list option" where
  "claim_items (PList xs) = (if xs = [] then None else Some xs)"
| "claim_items (PTuple xs) = (if xs = [] then None else Some xs)"
| "claim_items _ = None"

text \<open>\<open>dict(claim)\<close>, for a claim that is a mapping.\<close>

fun as_dict :: "pyval \<Rightarrow> pydict res" where
  "as_dict (PDict d) = Inr d"
| "as_dict _ = Inl (TypeError ''claim is not a mapping'')"

definition borrowed_claim_ok :: "pydict \<Rightarrow> bool" where
  "borrowed_claim_ok claim \<longleftrightarrow> py_eq (pyget_default claim ''rank'' (PInt 0)) (PInt 0)
     \<and> py_eq (pyget claim ''node_rank'') (PInt 0) \<and> py_eq (pyget claim ''local_rank'') (PInt 0)"

definition normalized_spec :: "pydict \<Rightarrow> pydict \<Rightarrow> pyval \<Rightarrow> rat \<Rightarrow> pydict" where
  "normalized_spec spec claim epoch expires =
     AList.update ''expires_at'' (PFloat (Fin expires))
       (AList.update ''placement_epoch'' epoch
         (AList.update ''claims'' (PList [PDict (AList.update ''rank'' (PInt 0) claim)])
           (AList.delete ''replica_rank''
             (AList.delete ''max_colocate_count'' (AList.delete ''world_size'' spec)))))"

definition rm_validate_spec ::
    "parallel_config \<Rightarrow> string option \<Rightarrow> rat \<Rightarrow> pyval \<Rightarrow> pydict res" where
  "rm_validate_spec cfg session now value =
     (case value of
        PDict spec \<Rightarrow>
          (case required_fields spec
                  [''operation_id'', ''lease_id'', ''borrower_task_id'', ''borrower_replica_id''] of
             Some e \<Rightarrow> Inl e
           | None \<Rightarrow>
               if session \<noteq> None \<and> session \<noteq> Some []
                  \<and> Some (pystr_of (pyget spec ''borrower_task_id'')) \<noteq> session
               then Inl (ValueError ''borrowed placement targets another task_session'')
               else
                 (case claim_items (pyget spec ''claims'') of
                    None \<Rightarrow> Inl (ValueError ''borrowed placement requires nonempty claims'')
                  | Some raw \<Rightarrow>
                      if tensor_parallel cfg \<noteq> 1 \<or> data_parallel cfg \<noteq> 1 \<or> pipeline_parallel cfg \<noteq> 1
                      then Inl (ValueError ''current borrowed runtime requires TP=DP=PP=1'')
                      else if length raw \<noteq> 1
                      then Inl (ValueError ''current borrowed runtime requires one GPU claim'')
                      else
                        (let epoch = pyget_default spec ''placement_epoch'' (PInt 0) in
                         if \<not> is_nonneg_int epoch
                         then Inl (ValueError ''placement_epoch must be a nonnegative integer'')
                         else
                           (case traverse as_dict raw of
                              Inl e \<Rightarrow> Inl e
                            | Inr claims \<Rightarrow>
                                (case mk_lease (pystr_of (pyget spec ''lease_id'')) claims
                                        (pyget_default spec ''expires_at'' (PInt 0)) of
                                   Inl e \<Rightarrow> Inl e
                                 | Inr l \<Rightarrow>
                                     if l_expires_at l \<noteq> 0 \<and> l_expires_at l \<le> now
                                     then Inl (ValueError ''borrowed placement lease is expired'')
                                     else
                                       (case l_claims l of
                                          [] \<Rightarrow> Inl (ValueError ''Lease requires at least one claim'')
                                        | claim # _ \<Rightarrow>
                                            if \<not> borrowed_claim_ok claim
                                            then Inl (ValueError ''current borrowed claim requires rank=node_rank=local_rank=0'')
                                            else Inr (normalized_spec spec claim epoch (l_expires_at l))))))))
      | _ \<Rightarrow> Inl (TypeError ''borrowed placement spec must be a dict''))"

text \<open>
  The placement group of a claim, from Ray's table. Bundles are keyed by their index or by its
  decimal text.
\<close>

datatype bundle_id = BInt int | BStr string

record pg_info =
  pgi_state :: "string option"
  pgi_bundles :: "bundle_id \<rightharpoonup> pyval"
  pgi_nodes :: "bundle_id \<rightharpoonup> string"
  pgi_name :: "string option"

record pg_handle =
  pgh_id :: string
  pgh_bundle_count :: int

definition by_index :: "(bundle_id \<rightharpoonup> 'a) \<Rightarrow> int \<Rightarrow> 'a option" where
  "by_index m i = (case m (BInt i) of Some v \<Rightarrow> Some v | None \<Rightarrow> m (BStr (nat_str (nat i))))"

definition rm_resolve_pg ::
    "string \<Rightarrow> (string \<rightharpoonup> pg_info) \<Rightarrow> (string \<Rightarrow> pg_handle res) \<Rightarrow> pydict list \<Rightarrow> (string \<times> pg_handle) res"
  where
  "rm_resolve_pg namespace table get_pg claims =
     (case claims of
        [claim] \<Rightarrow>
          (let pg_id = pystr_of (pyget claim ''pg_id''); i = pyint_of (pyget claim ''bundle_index'');
               expected = pyget claim ''pg_namespace'' in
           if expected \<noteq> PNone \<and> \<not> is_nonempty_str expected
           then Inl (ValueError ''pg_namespace must be a nonempty string when provided'')
           else if expected \<noteq> PNone \<and> expected \<noteq> PStr namespace
           then Inl (ValueError ''claim placement group belongs to another Ray namespace'')
           else
             (case table pg_id of
                None \<Rightarrow> Inl (ValueError ''placement group is not present in Ray'')
              | Some info \<Rightarrow>
                  if pgi_state info \<noteq> Some ''CREATED''
                  then Inl (ValueError ''placement group is not CREATED'')
                  else if by_index (pgi_bundles info) i \<in> {None, Some PNone}
                  then Inl (ValueError ''placement group has no such bundle'')
                  else
                    (case by_index (pgi_nodes info) i of
                       Some (c # cs) \<Rightarrow>
                         if c # cs \<noteq> pystr_of (pyget claim ''node_id'')
                         then Inl (ValueError ''claim node_id does not match Ray placement'')
                         else
                           (case pgi_name info of
                              Some (n # ns) \<Rightarrow>
                                (case get_pg (n # ns) of
                                   Inl e \<Rightarrow> Inl e
                                 | Inr pg \<Rightarrow>
                                     if pgh_id pg \<noteq> pg_id
                                     then Inl (ValueError ''resolved placement group id mismatch'')
                                     else if pgh_bundle_count pg \<le> i
                                     then Inl (ValueError ''resolved placement group lacks bundle'')
                                     else Inr (pg_id, pg))
                            | _ \<Rightarrow> Inl (ValueError ''placement group must be named for safe handle recovery''))
                     | _ \<Rightarrow> Inl (ValueError ''placement group bundle has no node assignment''))))
      | _ \<Rightarrow> Inl (ValueError ''current borrowed runtime requires exactly one claim''))"

section \<open>Borrowed replicas\<close>

definition spec_key :: "pydict \<Rightarrow> replica_key" where
  "spec_key spec = ReplicaKey (pystr_of (pyget spec ''borrower_task_id''))
     (pystr_of (pyget spec ''borrower_replica_id'')) (pyint_of (pyget spec ''placement_epoch''))"

definition spec_rank :: "pydict \<Rightarrow> int" where
  "spec_rank spec = pyint_of (pyget spec ''replica_rank'')"

definition spec_claims :: "pydict \<Rightarrow> pydict list" where
  "spec_claims spec = (case pyget spec ''claims'' of
     PList xs \<Rightarrow> List.map_filter (\<lambda>x. case x of PDict d \<Rightarrow> Some d | _ \<Rightarrow> None) xs | _ \<Rightarrow> [])"

definition rm_borrowed_record :: "replica_key \<Rightarrow> rmgr \<Rightarrow> (string \<times> borrowed) res" where
  "rm_borrowed_record key s =
     (case filter (\<lambda>(lid, r). spec_key (b_spec r) = key) (m_borrowed s) of
        [p] \<Rightarrow> Inr p
      | _ \<Rightarrow> Inl (KeyError ''expected one borrowed operation''))"

fun exn_message :: "exn \<Rightarrow> string" where
  "exn_message (ValueError m) = m" | "exn_message (TypeError m) = m" | "exn_message (KeyError m) = m"
| "exn_message (RuntimeError m) = m" | "exn_message (NotImplementedError m) = m"
| "exn_message (TimeoutError m) = m" | "exn_message (OverflowError m) = m"
| "exn_message (OperationIdentityError m) = m" | "exn_message (GateFencedError m) = m"
| "exn_message (GateReentryError m) = m" | "exn_message (GateTimeoutError m) = m"
| "exn_message (DuplicateCompletionError m) = m" | "exn_message (ProfileConfigurationError m) = m"
| "exn_message (BackendError m) = m"

definition replay_error :: "exn \<Rightarrow> exn" where
  "replay_error e = (case e of NotImplementedError m \<Rightarrow> NotImplementedError m
     | _ \<Rightarrow> RuntimeError (exn_message e))"

text \<open>The first locked section: a replay is answered, a new lease gets its rank and its record.\<close>

datatype create_begin = CreateReplayed create_result | CreateStarted string replica_key int

definition rm_create_begin ::
    "parallel_config \<Rightarrow> rat \<Rightarrow> pyval \<Rightarrow> rmgr \<Rightarrow> create_begin res \<times> rmgr" where
  "rm_create_begin cfg now value s =
     (case rm_validate_spec cfg (m_session s) now value of
        Inl e \<Rightarrow> (Inl e, s)
      | Inr normalized \<Rightarrow>
          (let lid = pystr_of (pyget normalized ''lease_id'') in
           case map_of (m_borrowed s) lid of
             Some existing \<Rightarrow>
               if \<not> py_eq (PDict (AList.delete ''replica_rank'' (b_spec existing))) (PDict normalized)
               then (Inl (ValueError ''conflicting borrowed create replay''), s)
               else (case b_error existing of
                       Some e \<Rightarrow> (Inl (replay_error e), s)
                     | None \<Rightarrow>
                         (case b_result existing of
                            Some r \<Rightarrow> (Inr (CreateReplayed r), s)
                          | None \<Rightarrow> (Inl (RuntimeError ''borrowed create is already in progress''), s)))
           | None \<Rightarrow>
               (let key = spec_key normalized in
                if m_state s key \<noteq> None
                then (Inl (ValueError ''borrowed ReplicaKey is already registered; use a new runtime_epoch''), s)
                else
                  (let rank = m_next_rank s; s1 = s\<lparr>m_next_rank := rank + 1\<rparr>;
                       resolved = AList.update ''replica_rank'' (PInt rank) normalized in
                   case rm_register key BORROWED CREATING None s1 of
                     (Inl e, s2) \<Rightarrow> (Inl e, s2)
                   | (Inr _, s2) \<Rightarrow>
                       (Inr (CreateStarted lid key rank),
                        s2\<lparr>m_borrowed := AList.update lid
                             \<lparr>b_spec = resolved, b_result = None, b_error = None, b_destroy = None\<rparr>
                             (m_borrowed s2)\<rparr>)))))"

text \<open>
  How the runtime came up: it was never constructed (placement or constructor failed); its
  initialisation raised; or it returned a receipt. \<open>cleanup\<close> is whether the cleanup of the
  runtime is verified after a failure.
\<close>

record receipt =
  rc_state :: "string option"
  rc_rank :: "int option"
  rc_address :: "string option"

datatype create_outcome =
    NotConstructed exn
  | InitFailed nat exn bool
  | InitReturned nat receipt bool

definition create_failure :: "int \<Rightarrow> create_outcome \<Rightarrow> (exn \<times> bool) option" where
  "create_failure rank outcome =
     (case outcome of
        NotConstructed e \<Rightarrow> Some (e, True)
      | InitFailed _ e cleanup \<Rightarrow> Some (e, cleanup)
      | InitReturned _ receipt cleanup \<Rightarrow>
          if rc_state receipt \<noteq> Some ''RUNTIME_READY''
          then Some (RuntimeError ''borrowed runtime did not reach RUNTIME_READY'', cleanup)
          else if rc_rank receipt \<noteq> Some rank
          then Some (RuntimeError ''borrowed runtime returned a conflicting replica_rank'', cleanup)
          else None)"

definition rm_create_end ::
    "string \<Rightarrow> create_outcome \<Rightarrow> rmgr \<Rightarrow> create_result res \<times> rmgr" where
  "rm_create_end lid outcome s =
     (case map_of (m_borrowed s) lid of
        None \<Rightarrow> (Inl (KeyError ''no borrowed operation''), s)
      | Some current \<Rightarrow>
          (let key = spec_key (b_spec current) in
           case create_failure (spec_rank (b_spec current)) outcome of
             Some (e, cleanup) \<Rightarrow>
               (let s1 = (if m_state s key = Some CREATING
                          then snd (rm_transition key (if cleanup then RELEASED_STATE else QUARANTINED) s)
                          else s) in
                (Inl e, s1\<lparr>m_borrowed := AList.update lid (current\<lparr>b_error := Some e, b_result := None\<rparr>)
                             (m_borrowed s1)\<rparr>))
           | None \<Rightarrow>
               (case outcome of
                  InitReturned rt receipt _ \<Rightarrow>
                    (let r = \<lparr>cr_operation_id = pyget (b_spec current) ''operation_id'', cr_lease_id = lid,
                              cr_rank = spec_rank (b_spec current), cr_address = rc_address receipt\<rparr> in
                     (Inr r, s\<lparr>m_borrowed := AList.update lid (current\<lparr>b_result := Some r\<rparr>) (m_borrowed s),
                               m_runtime := (m_runtime s)(key \<mapsto> rt)\<rparr>))
                | _ \<Rightarrow> (Inl (RuntimeError ''borrowed create failed''), s))))"

section \<open>Release evidence\<close>

definition rm_query_release :: "replica_key \<Rightarrow> string \<Rightarrow> rmgr \<Rightarrow> op_evidence option res" where
  "rm_query_release key oid s =
     (if oid = [] then Inl (ValueError ''operation_id must be a nonempty string'')
      else
        (case m_kind s key of
           Some NATIVE \<Rightarrow>
             (case m_evidence s oid of
                None \<Rightarrow> Inr None
              | Some (previous, evidence) \<Rightarrow>
                  if previous \<noteq> key
                  then Inl (ValueError ''native release operation belongs to another replica'')
                  else Inr (Some evidence))
         | Some BORROWED \<Rightarrow>
             (case rm_borrowed_record key s of
                Inl _ \<Rightarrow> Inr None
              | Inr (_, r) \<Rightarrow>
                  (case b_destroy r of
                     None \<Rightarrow> Inr None
                   | Some evidence \<Rightarrow> if e_operation_id evidence \<noteq> oid then Inr None else Inr (Some evidence)))
         | None \<Rightarrow> Inr None))"

text \<open>\<open>sleep\<close> up to its first await: an answer, or the runtime to put to sleep.\<close>

definition rm_sleep_begin :: "replica_key \<Rightarrow> string \<Rightarrow> rmgr \<Rightarrow> (op_evidence + nat) res" where
  "rm_sleep_begin key oid s =
     (if oid = [] then Inl (ValueError ''sleep requires operation_id'')
      else if m_kind s key \<noteq> Some NATIVE then Inl (ValueError ''sleep is valid only for NATIVE replicas'')
      else
        (case m_evidence s oid of
           Some (previous, evidence) \<Rightarrow>
             if previous \<noteq> key
             then Inl (ValueError ''native release operation is bound to another replica'')
             else Inr (Inl evidence)
         | None \<Rightarrow>
             if m_state s key \<noteq> Some DRAINING
             then Inl (ValueError ''sleep requires a DRAINING native replica'')
             else (case m_runtime s key of
                     None \<Rightarrow> Inl (RuntimeError ''native runtime handle is unavailable for verified sleep'')
                   | Some rt \<Rightarrow> Inr (Inr rt))))"

text \<open>The rest of \<open>sleep\<close>: the GPU of the runtime's only placement, the native sleep, the evidence.\<close>

definition rm_sleep_end ::
    "int \<Rightarrow> replica_key \<Rightarrow> string \<Rightarrow> pyval res \<Rightarrow> unit res \<Rightarrow> rmgr \<Rightarrow> op_evidence res \<times> rmgr" where
  "rm_sleep_end clock key oid placement slept s =
     (case placement of
        Inl e \<Rightarrow> (Inl e, s)
      | Inr gpu \<Rightarrow>
          if \<not> is_nonempty_str gpu
          then (Inl (RuntimeError ''native runtime placement is missing physical GPU UUID''), s)
          else
            (case slept of
               Inl e \<Rightarrow> (Inl e, s)
             | Inr _ \<Rightarrow>
                 (case evidence_now clock oid RELEASED [pystr_of gpu] of
                    Inl e \<Rightarrow> (Inl e, s)
                  | Inr evidence \<Rightarrow>
                      (Inr evidence, s\<lparr>m_evidence := (m_evidence s)(oid \<mapsto> (key, evidence))\<rparr>))))"

definition rm_destroy_begin :: "replica_key \<Rightarrow> string \<Rightarrow> rmgr \<Rightarrow> (op_evidence + nat) res" where
  "rm_destroy_begin key oid s =
     (if oid = [] then Inl (ValueError ''destroy requires operation_id'')
      else if m_kind s key \<noteq> Some BORROWED then Inl (ValueError ''destroy is valid only for BORROWED replicas'')
      else
        (case rm_borrowed_record key s of
           Inl e \<Rightarrow> Inl e
         | Inr (_, r) \<Rightarrow>
             (case b_destroy r of
                Some previous \<Rightarrow>
                  if e_operation_id previous \<noteq> oid
                  then Inl (ValueError ''borrowed runtime was destroyed by another operation'')
                  else Inr (Inl previous)
              | None \<Rightarrow>
                  if m_state s key \<noteq> Some CREATING \<and> m_state s key \<noteq> Some DRAINING
                  then Inl (ValueError ''destroy requires CREATING or DRAINING borrowed replica'')
                  else (case m_runtime s key of
                          None \<Rightarrow> Inl (RuntimeError ''borrowed runtime handle is unavailable for verified destroy'')
                        | Some rt \<Rightarrow> Inr (Inr rt)))))"

definition rm_destroy_end ::
    "int \<Rightarrow> replica_key \<Rightarrow> string \<Rightarrow> unit res \<Rightarrow> rmgr \<Rightarrow> op_evidence res \<times> rmgr" where
  "rm_destroy_end clock key oid cleaned s =
     (case cleaned of
        Inl e \<Rightarrow> (Inl e, s)
      | Inr _ \<Rightarrow>
          (case rm_borrowed_record key s of
             Inl e \<Rightarrow> (Inl e, s)
           | Inr (lid, r) \<Rightarrow>
               (case evidence_now clock oid RELEASED
                       (map (\<lambda>c. pystr_of (pyget c ''gpu_uuid'')) (spec_claims (b_spec r))) of
                  Inl e \<Rightarrow> (Inl e, s)
                | Inr evidence \<Rightarrow>
                    (Inr evidence,
                     s\<lparr>m_borrowed := AList.update lid (r\<lparr>b_destroy := Some evidence\<rparr>) (m_borrowed s)\<rparr>))))"

section \<open>The manager as a machine\<close>

datatype rm_event =
    RRegister replica_key replica_kind replica_state "nat option"
  | RTransition replica_key replica_state
  | RInitialize "(int \<times> nat) list" "string list" "nat list"
  | RDeactivate "nat \<Rightarrow> string option \<times> nat option" replica_key
  | RActivate "nat \<Rightarrow> string option \<times> nat option" replica_key
  | RCreateBegin parallel_config rat pyval
  | RCreateEnd string create_outcome
  | RSleepEnd int replica_key string "pyval res" "unit res"
  | RDestroyEnd int replica_key string "unit res"

fun rm_step :: "rm_event \<Rightarrow> rmgr \<Rightarrow> rmgr" where
  "rm_step (RRegister k kd st rt) s = snd (rm_register k kd st rt s)"
| "rm_step (RTransition k st) s = snd (rm_transition k st s)"
| "rm_step (RInitialize ns as hs) s = snd (rm_initialize ns as hs s)"
| "rm_step (RDeactivate slot k) s = snd (rm_deactivate slot k s)"
| "rm_step (RActivate slot k) s = snd (rm_activate slot k s)"
| "rm_step (RCreateBegin cfg now v) s = snd (rm_create_begin cfg now v s)"
| "rm_step (RCreateEnd lid out) s = snd (rm_create_end lid out s)"
| "rm_step (RSleepEnd t k oid p sl) s = snd (rm_sleep_end t k oid p sl s)"
| "rm_step (RDestroyEnd t k oid c) s = snd (rm_destroy_end t k oid c s)"


section \<open>The life-cycle relation\<close>

text \<open>The transitions a replica of each kind may take.\<close>

inductive life_step :: "replica_kind \<Rightarrow> replica_state \<Rightarrow> replica_state \<Rightarrow> bool" where
  serve: "life_step kd CREATING ACTIVE"
| drain: "life_step kd ACTIVE DRAINING"
| resume: "life_step kd DRAINING ACTIVE"
| sleep: "life_step NATIVE DRAINING DORMANT"
| wake: "life_step NATIVE DORMANT ACTIVE"
| abandon: "life_step BORROWED CREATING RELEASED_STATE"
| give_back: "life_step BORROWED DRAINING RELEASED_STATE"
| lose: "st \<in> {CREATING, DRAINING, DORMANT} \<Longrightarrow> kd = NATIVE \<or> st \<noteq> DORMANT \<Longrightarrow> life_step kd st QUARANTINED"

inductive_cases life_stepE: "life_step kd st st'"
inductive_simps life_step_RELEASED [simp]: "life_step kd RELEASED_STATE st"
inductive_simps life_step_QUARANTINED [simp]: "life_step kd QUARANTINED st"

lemma allowed_life_step:
  "new \<in> allowed cur \<Longrightarrow> validate_kind_state kd new = None \<Longrightarrow> validate_kind_state kd cur = None
   \<Longrightarrow> life_step kd cur new"
  by (cases cur; cases kd) (auto simp: validate_kind_state_def intro: life_step.intros)

definition life_inv :: "rmgr \<Rightarrow> bool" where
  "life_inv s \<longleftrightarrow> (\<forall>key. m_kind s key = None \<longleftrightarrow> m_state s key = None)
     \<and> (\<forall>key kd st. m_kind s key = Some kd \<longrightarrow> m_state s key = Some st \<longrightarrow> validate_kind_state kd st = None)"

text \<open>What a step does to the life-cycle part: nothing, a registration, or one transition.\<close>

definition same_life :: "rmgr \<Rightarrow> rmgr \<Rightarrow> bool" where
  "same_life s s' \<longleftrightarrow> m_state s' = m_state s \<and> m_kind s' = m_kind s"

definition new_life :: "replica_key \<Rightarrow> replica_kind \<Rightarrow> replica_state \<Rightarrow> rmgr \<Rightarrow> rmgr \<Rightarrow> bool" where
  "new_life key kd st s s' \<longleftrightarrow> m_state s key = None \<and> validate_kind_state kd st = None
     \<and> m_state s' = (m_state s)(key \<mapsto> st) \<and> m_kind s' = (m_kind s)(key \<mapsto> kd)"

definition move_life :: "replica_key \<Rightarrow> replica_state \<Rightarrow> rmgr \<Rightarrow> rmgr \<Rightarrow> bool" where
  "move_life key new s s' \<longleftrightarrow> (\<exists>cur kd. m_state s key = Some cur \<and> m_kind s key = Some kd
     \<and> new \<in> allowed cur \<and> validate_kind_state kd new = None
     \<and> m_state s' = (m_state s)(key \<mapsto> new) \<and> m_kind s' = m_kind s)"

lemma rm_register_cases:
  obtains "same_life s (snd (rm_register key kd st rt s))" | "new_life key kd st s (snd (rm_register key kd st rt s))"
proof (cases "m_state s key")
  case (Some cur)
  then have "same_life s (snd (rm_register key kd st rt s))"
    by (auto simp: rm_register_def same_life_def split: option.split)
  then show ?thesis by (rule that(1))
next
  case None
  then show ?thesis
    by (cases "validate_kind_state kd st")
      (auto simp: rm_register_def same_life_def new_life_def intro: that)
qed

lemma rm_transition_cases:
  obtains "same_life s (snd (rm_transition key new s))" | "move_life key new s (snd (rm_transition key new s))"
proof (cases "\<exists>cur kd. m_state s key = Some cur \<and> m_kind s key = Some kd \<and> new \<noteq> cur
      \<and> new \<in> allowed cur \<and> validate_kind_state kd new = None")
  case True
  then have "move_life key new s (snd (rm_transition key new s))"
    by (auto simp: rm_transition_def move_life_def)
  then show ?thesis by (rule that(2))
next
  case False
  then have "same_life s (snd (rm_transition key new s))"
    by (auto simp: rm_transition_def same_life_def split: option.split)
  then show ?thesis by (rule that(1))
qed

lemma life_inv_same: "life_inv s \<Longrightarrow> same_life s s' \<Longrightarrow> life_inv s'"
  by (simp add: life_inv_def same_life_def)

lemma life_inv_new: "life_inv s \<Longrightarrow> new_life key kd st s s' \<Longrightarrow> life_inv s'"
  by (auto simp: life_inv_def new_life_def)

lemma life_inv_move: "life_inv s \<Longrightarrow> move_life key st s s' \<Longrightarrow> life_inv s'"
  unfolding life_inv_def move_life_def by (elim exE conjE) (auto split: if_splits)

lemma rm_register_life: "life_inv s \<Longrightarrow> life_inv (snd (rm_register key kd st rt s))"
  by (cases rule: rm_register_cases [of s key kd st rt]) (auto intro: life_inv_same life_inv_new)

lemma rm_transition_life: "life_inv s \<Longrightarrow> life_inv (snd (rm_transition key st s))"
  by (cases rule: rm_transition_cases [of s key st]) (auto intro: life_inv_same life_inv_move)

lemma rm_native_life: "life_inv s \<Longrightarrow> life_inv (snd (rm_register_native ts ns s))"
proof (induction ts ns s rule: rm_register_native.induct)
  case (2 ts rank rt rest s)
  show ?case
  proof (cases "native_replica_key ts rank 0")
    case (Inl e)
    with 2(2) show ?thesis by simp
  next
    case (Inr key)
    obtain r s' where reg: "rm_register key NATIVE ACTIVE (Some rt) s = (r, s')"
      by (cases "rm_register key NATIVE ACTIVE (Some rt) s")
    have "life_inv s'" using rm_register_life [OF 2(2), of key NATIVE ACTIVE "Some rt"] reg by simp
    then have l: "life_inv (s'\<lparr>m_next_rank := max (m_next_rank s') (rank + 1)\<rparr>)"
      by (simp add: life_inv_def)
    show ?thesis
    proof (cases r)
      case (Inl e)
      with Inr reg \<open>life_inv s'\<close> show ?thesis by simp
    next
      case ok: (Inr u)
      with 2(1) [OF Inr reg [symmetric] ok l] Inr reg show ?thesis by simp
    qed
  qed
qed simp

subsection \<open>What one step does to one replica\<close>

definition key_step :: "rmgr \<Rightarrow> rmgr \<Rightarrow> replica_key \<Rightarrow> bool" where
  "key_step s s' key \<longleftrightarrow>
     m_state s' key = m_state s key \<and> m_kind s' key = m_kind s key
     \<or> m_state s key = None
     \<or> (\<exists>kd cur new. m_state s key = Some cur \<and> m_kind s key = Some kd \<and> m_kind s' key = Some kd
          \<and> m_state s' key = Some new \<and> life_step kd cur new)"

lemma key_step_same: "same_life s s' \<Longrightarrow> key_step s s' key"
  by (simp add: same_life_def key_step_def)

lemma key_step_new: "new_life k kd st s s' \<Longrightarrow> key_step s s' key"
  by (cases "k = key") (auto simp: new_life_def key_step_def)

lemma key_step_move: "life_inv s \<Longrightarrow> move_life k st s s' \<Longrightarrow> key_step s s' key"
  by (cases "k = key") (auto simp: move_life_def key_step_def life_inv_def allowed_life_step)

lemma rm_register_step: "key_step s (snd (rm_register k kd st rt s)) key"
  by (cases rule: rm_register_cases [of s k kd st rt]) (auto intro: key_step_same key_step_new)

lemma rm_transition_step: "life_inv s \<Longrightarrow> key_step s (snd (rm_transition k st s)) key"
  by (cases rule: rm_transition_cases [of s k st]) (auto intro: key_step_same key_step_move)

lemma native_keeps_registered:
  "m_state s key \<noteq> None \<Longrightarrow> m_state (snd (rm_register_native ts ns s)) key = m_state s key
     \<and> m_kind (snd (rm_register_native ts ns s)) key = m_kind s key"
proof (induction ts ns s rule: rm_register_native.induct)
  case (2 ts rank rt rest s)
  show ?case
  proof (cases "native_replica_key ts rank 0")
    case (Inr k)
    obtain r s' where reg: "rm_register k NATIVE ACTIVE (Some rt) s = (r, s')"
      by (cases "rm_register k NATIVE ACTIVE (Some rt) s")
    have eq: "m_state s' key = m_state s key \<and> m_kind s' key = m_kind s key"
      using 2(2) reg
      by (cases rule: rm_register_cases [of s k NATIVE ACTIVE "Some rt"])
        (auto simp: same_life_def new_life_def)
    show ?thesis
    proof (cases r)
      case (Inl e)
      with Inr reg eq show ?thesis by simp
    next
      case ok: (Inr u)
      let ?t = "s'\<lparr>m_next_rank := max (m_next_rank s') (rank + 1)\<rparr>"
      have "m_state ?t key \<noteq> None" using eq 2(2) by simp
      from 2(1) [OF Inr reg [symmetric] ok this] Inr reg ok eq show ?thesis by simp
    qed
  qed (use 2(2) in simp)
qed simp

lemma service_slots_life:
  "same_life s (snd (rm_deactivate slot k s))" "same_life s (snd (rm_activate slot k s))"
  by (auto simp: same_life_def rm_deactivate_def rm_activate_def Let_def
      split: sum.split prod.split option.split)

lemma ends_life:
  "same_life s (snd (rm_sleep_end t k oid p sl s))" "same_life s (snd (rm_destroy_end t k oid c s))"
  by (auto simp: same_life_def rm_sleep_end_def rm_destroy_end_def split: sum.split prod.split)

text \<open>Creating: the first section starts nothing, or takes a rank and registers the replica.\<close>

definition started :: "string \<Rightarrow> pydict \<Rightarrow> rmgr \<Rightarrow> rmgr" where
  "started lid normalized s =
     (let s1 = s\<lparr>m_next_rank := m_next_rank s + 1\<rparr>; s2 = snd (rm_register (spec_key normalized) BORROWED CREATING None s1) in
      s2\<lparr>m_borrowed := AList.update lid \<lparr>b_spec = AList.update ''replica_rank'' (PInt (m_next_rank s)) normalized,
          b_result = None, b_error = None, b_destroy = None\<rparr> (m_borrowed s2)\<rparr>)"

lemma normalized_fields:
  "pyget (normalized_spec sp claim epoch q) ''claims'' = PList [PDict (AList.update ''rank'' (PInt 0) claim)]"
  "pyget (normalized_spec sp claim epoch q) ''lease_id'' = pyget sp ''lease_id''"
  "pyget (normalized_spec sp claim epoch q) ''placement_epoch'' = epoch"
  "pyget (normalized_spec sp claim epoch q) ''borrower_task_id'' = pyget sp ''borrower_task_id''"
  "pyget (normalized_spec sp claim epoch q) ''borrower_replica_id'' = pyget sp ''borrower_replica_id''"
  by (simp_all add: normalized_spec_def)

lemma rm_create_begin_cases:
  obtains res where "rm_create_begin cfg now v s = (res, s)"
      "\<forall>lid key rank. res \<noteq> Inr (CreateStarted lid key rank)"
  | normalized where "rm_validate_spec cfg (m_session s) now v = Inr normalized"
      "map_of (m_borrowed s) (pystr_of (pyget normalized ''lease_id'')) = None"
      "m_state s (spec_key normalized) = None"
      "rm_create_begin cfg now v s =
         (Inr (CreateStarted (pystr_of (pyget normalized ''lease_id'')) (spec_key normalized) (m_next_rank s)),
          started (pystr_of (pyget normalized ''lease_id'')) normalized s)"
proof (cases "rm_validate_spec cfg (m_session s) now v")
  case (Inl e)
  then show ?thesis by (intro that(1) [of "Inl e"]) (simp_all add: rm_create_begin_def)
next
  case (Inr n)
  let ?lid = "pystr_of (pyget n ''lease_id'')"
  show ?thesis
  proof (cases "map_of (m_borrowed s) ?lid")
    case (Some r)
    with Inr show ?thesis
      by (intro that(1) [of "fst (rm_create_begin cfg now v s)"])
        (auto simp: rm_create_begin_def Let_def split: option.split)
  next
    case None
    show ?thesis
    proof (cases "m_state s (spec_key n)")
      case (Some st)
      with Inr None show ?thesis
        by (intro that(1) [of "fst (rm_create_begin cfg now v s)"]) (simp_all add: rm_create_begin_def Let_def)
    next
      case new: None
      with Inr None show ?thesis
        by (intro that(2) [of n])
          (simp_all add: rm_create_begin_def started_def Let_def rm_register_def validate_kind_state_def)
    qed
  qed
qed

lemma started_fields:
  assumes "m_state s (spec_key n) = None"
  shows "m_state (started lid n s) = (m_state s)(spec_key n \<mapsto> CREATING)"
    "m_kind (started lid n s) = (m_kind s)(spec_key n \<mapsto> BORROWED)"
    "m_next_rank (started lid n s) = m_next_rank s + 1"
    "map_of (m_borrowed (started lid n s)) = (map_of (m_borrowed s))(lid \<mapsto>
       \<lparr>b_spec = AList.update ''replica_rank'' (PInt (m_next_rank s)) n, b_result = None, b_error = None, b_destroy = None\<rparr>)"
  using assms by (simp_all add: started_def Let_def rm_register_def validate_kind_state_def)

lemma started_life: "m_state s (spec_key n) = None \<Longrightarrow> new_life (spec_key n) BORROWED CREATING s (started lid n s)"
  by (simp add: new_life_def started_fields validate_kind_state_def)

lemma rm_create_end_cases:
  obtains "same_life s (snd (rm_create_end lid out s))"
  | key new where "move_life key new s (snd (rm_create_end lid out s))"
proof (cases "map_of (m_borrowed s) lid")
  case None
  then show ?thesis by (intro that(1)) (simp add: rm_create_end_def same_life_def)
next
  case (Some r)
  let ?key = "spec_key (b_spec r)"
  show ?thesis
  proof (cases "create_failure (spec_rank (b_spec r)) out")
    case None
    with Some show ?thesis
      by (intro that(1)) (auto simp: rm_create_end_def Let_def same_life_def split: create_outcome.split)
  next
    case fail: (Some p)
    obtain e cl where p: "p = (e, cl)" by (cases p)
    show ?thesis
    proof (cases "m_state s ?key = Some CREATING")
      case False
      with Some fail p show ?thesis
        by (intro that(1)) (simp add: rm_create_end_def Let_def same_life_def)
    next
      case True
      let ?st = "if cl then RELEASED_STATE else QUARANTINED"
      from rm_transition_cases [of s ?key ?st] show ?thesis
      proof cases
        case 1
        with True Some fail p show ?thesis
          by (intro that(1)) (simp add: rm_create_end_def Let_def same_life_def)
      next
        case 2
        with True Some fail p show ?thesis
          by (intro that(2) [of ?key ?st]) (simp add: rm_create_end_def Let_def move_life_def)
      qed
    qed
  qed
qed

lemma native_life:
  "life_inv s \<Longrightarrow> life_inv (snd (rm_initialize ns as hs s))"
proof -
  let ?t = "s\<lparr>m_replicas := map snd ns, m_addresses := as, m_handles := hs\<rparr>"
  assume "life_inv s"
  then have "life_inv ?t" by (simp add: life_inv_def)
  then show ?thesis using rm_native_life [of ?t]
    by (auto simp: rm_initialize_def Let_def split: option.split list.split)
qed

lemma rm_step_life:
  assumes inv: "life_inv s"
  shows "life_inv (rm_step e s)"
proof (cases e)
  case (RCreateBegin cfg now v)
  show ?thesis
    by (cases rule: rm_create_begin_cases [of cfg now v s])
      (use RCreateBegin inv started_life in \<open>auto intro: life_inv_new\<close>)
next
  case (RCreateEnd lid out)
  show ?thesis
    by (cases rule: rm_create_end_cases [of s lid out])
      (use RCreateEnd inv in \<open>auto intro: life_inv_same life_inv_move\<close>)
qed (use inv in \<open>simp_all add: rm_register_life rm_transition_life native_life
    life_inv_same [OF inv service_slots_life(1)] life_inv_same [OF inv service_slots_life(2)]
    life_inv_same [OF inv ends_life(1)] life_inv_same [OF inv ends_life(2)]\<close>)

lemma rm_step_key:
  assumes inv: "life_inv s"
  shows "key_step s (rm_step e s) key"
proof (cases e)
  case (RCreateBegin cfg now v)
  show ?thesis
    by (cases rule: rm_create_begin_cases [of cfg now v s])
      (use RCreateBegin in \<open>auto intro: key_step_new started_life key_step_same simp: same_life_def\<close>)
next
  case (RCreateEnd lid out)
  show ?thesis
    by (cases rule: rm_create_end_cases [of s lid out])
      (use RCreateEnd inv in \<open>auto intro: key_step_same key_step_move\<close>)
next
  case (RInitialize ns as hs)
  let ?s = "s\<lparr>m_replicas := map snd ns, m_addresses := as, m_handles := hs\<rparr>"
  show ?thesis
  proof (cases "m_state s key = None")
    case True
    then show ?thesis by (simp add: key_step_def)
  next
    case False
    have "m_state (snd (rm_initialize ns as hs s)) key = m_state s key
        \<and> m_kind (snd (rm_initialize ns as hs s)) key = m_kind s key"
      using native_keeps_registered [of ?s key] False
      by (simp add: rm_initialize_def Let_def split: option.split list.split)
    then show ?thesis by (simp add: RInitialize key_step_def)
  qed
qed (use inv in \<open>simp_all add: rm_register_step rm_transition_step
    key_step_same [OF service_slots_life(1)] key_step_same [OF service_slots_life(2)]
    key_step_same [OF ends_life(1)] key_step_same [OF ends_life(2)]\<close>)

definition terminal_state :: "rmgr \<Rightarrow> replica_key \<Rightarrow> replica_state option" where
  "terminal_state s key = (case m_state s key of
     Some RELEASED_STATE \<Rightarrow> Some RELEASED_STATE | Some QUARANTINED \<Rightarrow> Some QUARANTINED | _ \<Rightarrow> None)"

lemma terminal_state_Some:
  "terminal_state s key = Some st \<longleftrightarrow> m_state s key = Some st \<and> st \<in> {RELEASED_STATE, QUARANTINED}"
  by (auto simp: terminal_state_def split: option.splits replica_state.splits)

lemma rm_step_terminal:
  "life_inv s \<Longrightarrow> terminal_state s key = Some st \<Longrightarrow> terminal_state (rm_step e s) key = Some st"
  using rm_step_key [of s e key] by (auto simp: terminal_state_Some key_step_def)

interpretation rmgr: invariant_machine life_inv rm_step
  by unfold_locales (rule rm_step_life)

interpretation rmgr_terminal: write_once life_inv rm_step terminal_state
  by unfold_locales (rule rm_step_terminal)

lemma rm_step_kind: "life_inv s \<Longrightarrow> m_kind s key = Some kd \<Longrightarrow> m_kind (rm_step e s) key = Some kd"
proof -
  assume inv: "life_inv s" and kd: "m_kind s key = Some kd"
  then have "m_state s key \<noteq> None" unfolding life_inv_def by (metis option.distinct(1))
  with rm_step_key [OF inv, of e key] kd show ?thesis by (auto simp: key_step_def)
qed

interpretation rmgr_kind: write_once life_inv rm_step m_kind
  by unfold_locales (rule rm_step_kind)

section \<open>Borrowed operations own their rank and their key\<close>

definition spec_of :: "rmgr \<Rightarrow> string \<Rightarrow> pydict option" where
  "spec_of s lid = map_option b_spec (map_of (m_borrowed s) lid)"

definition borrow_inv :: "rmgr \<Rightarrow> bool" where
  "borrow_inv s \<longleftrightarrow> life_inv s \<and> distinct (map fst (m_borrowed s))
     \<and> (\<forall>lid sp. spec_of s lid = Some sp \<longrightarrow> spec_rank sp < m_next_rank s \<and> m_state s (spec_key sp) \<noteq> None)
     \<and> (\<forall>lid lid' sp sp'. spec_of s lid = Some sp \<longrightarrow> spec_of s lid' = Some sp' \<longrightarrow>
          spec_rank sp = spec_rank sp' \<or> spec_key sp = spec_key sp' \<longrightarrow> lid = lid')"

lemma borrow_inv_same_specs:
  assumes inv: "borrow_inv s" and "life_inv s'" and "distinct (map fst (m_borrowed s'))"
    and specs: "spec_of s' = spec_of s" and "m_next_rank s \<le> m_next_rank s'"
    and "\<And>key. m_state s key \<noteq> None \<Longrightarrow> m_state s' key \<noteq> None"
  shows "borrow_inv s'"
  unfolding borrow_inv_def specs
proof (intro conjI allI impI)
  fix lid sp assume "spec_of s lid = Some sp"
  with inv have "spec_rank sp < m_next_rank s" "m_state s (spec_key sp) \<noteq> None"
    unfolding borrow_inv_def by blast+
  with assms(5,6) show "spec_rank sp < m_next_rank s'" "m_state s' (spec_key sp) \<noteq> None" by auto
next
  fix lid lid' sp sp'
  assume "spec_of s lid = Some sp" "spec_of s lid' = Some sp'" "spec_rank sp = spec_rank sp' \<or> spec_key sp = spec_key sp'"
  with inv show "lid = lid'" unfolding borrow_inv_def by blast
qed (fact assms)+

lemma spec_fields [simp]:
  "spec_key (AList.update ''replica_rank'' v n) = spec_key n"
  "spec_rank (AList.update ''replica_rank'' (PInt i) n) = i"
  by (simp_all add: spec_key_def spec_rank_def pyget_def pyget_default_def)

lemma borrow_inv_started:
  assumes inv: "borrow_inv s" and new: "map_of (m_borrowed s) lid = None" and key: "m_state s (spec_key n) = None"
  shows "borrow_inv (started lid n s)"
proof -
  let ?s = "started lid n s"
  have sp: "spec_of ?s x = (if x = lid then Some (AList.update ''replica_rank'' (PInt (m_next_rank s)) n) else spec_of s x)" for x
    by (simp add: spec_of_def started_fields(4) [OF key])
  have old: "spec_rank q < m_next_rank s" "m_state s (spec_key q) \<noteq> None" if "spec_of s x = Some q" for x q
    using inv that unfolding borrow_inv_def by blast+
  have "distinct (map fst (m_borrowed ?s))"
    using inv by (simp add: started_def Let_def rm_register_def validate_kind_state_def key distinct_update borrow_inv_def)
  moreover have "life_inv ?s"
    using inv life_inv_new [OF _ started_life [OF key]] by (simp add: borrow_inv_def)
  moreover have "spec_rank q < m_next_rank ?s \<and> m_state ?s (spec_key q) \<noteq> None" if "spec_of ?s x = Some q" for x q
    using that old [of x q] by (auto simp: sp started_fields [OF key] split: if_splits)
  moreover have "x = y" if "spec_of ?s x = Some q" "spec_of ?s y = Some q'"
    "spec_rank q = spec_rank q' \<or> spec_key q = spec_key q'" for x y q q'
  proof -
    have d: "spec_rank q \<noteq> m_next_rank s" "spec_key q \<noteq> spec_key n" if "spec_of s x = Some q" for x q
      using old [OF that] key by auto
    show ?thesis
    proof (cases "x = lid \<or> y = lid")
      case True
      with that d [of x q] d [of y q'] show ?thesis by (auto simp: sp split: if_splits)
    next
      case False
      with that have "spec_of s x = Some q" "spec_of s y = Some q'" by (simp_all add: sp)
      with that(3) inv show ?thesis unfolding borrow_inv_def by blast
    qed
  qed
  ultimately show ?thesis unfolding borrow_inv_def by blast
qed

lemma key_step_registered: "key_step s s' key \<Longrightarrow> m_state s key \<noteq> None \<Longrightarrow> m_state s' key \<noteq> None"
  by (auto simp: key_step_def)

lemma native_borrowed [simp]:
  "m_borrowed (snd (rm_register_native ts ns s)) = m_borrowed s \<and> m_next_rank s \<le> m_next_rank (snd (rm_register_native ts ns s))"
proof (induction ts ns s rule: rm_register_native.induct)
  case (2 ts rank rt rest s)
  show ?case
  proof (cases "native_replica_key ts rank 0")
    case (Inr k)
    obtain r s' where reg: "rm_register k NATIVE ACTIVE (Some rt) s = (r, s')"
      by (cases "rm_register k NATIVE ACTIVE (Some rt) s")
    have eq: "m_borrowed s' = m_borrowed s \<and> m_next_rank s' = m_next_rank s"
      using reg by (auto simp: rm_register_def split: option.splits if_splits)
    show ?thesis
    proof (cases r)
      case (Inl e)
      with Inr reg eq show ?thesis by simp
    next
      case ok: (Inr u)
      from 2 [OF Inr reg [symmetric] ok] Inr reg ok eq show ?thesis by simp
    qed
  qed simp
qed simp

lemma rm_borrowed_record_map:
  assumes "rm_borrowed_record key s = Inr (lid, r)" and "distinct (map fst (m_borrowed s))"
  shows "map_of (m_borrowed s) lid = Some r"
proof -
  have "filter (\<lambda>(lid, r). spec_key (b_spec r) = key) (m_borrowed s) = [(lid, r)]"
    using assms(1) by (auto simp: rm_borrowed_record_def split: list.splits)
  then have "(lid, r) \<in> set (m_borrowed s)" by (metis filter_is_subset list.set_intros(1) subsetD)
  with assms(2) show ?thesis by simp
qed

text \<open>Events that keep every specification.\<close>

lemma specs_kept:
  assumes inv: "borrow_inv s" and e: "\<forall>cfg now v. e \<noteq> RCreateBegin cfg now v"
  shows "spec_of (rm_step e s) = spec_of s \<and> distinct (map fst (m_borrowed (rm_step e s)))
    \<and> m_next_rank s \<le> m_next_rank (rm_step e s)"
proof -
  have dist: "distinct (map fst (m_borrowed s))" using inv by (simp add: borrow_inv_def)
  have upd: "(\<lambda>x. map_option b_spec (((map_of (m_borrowed s))(lid \<mapsto> r')) x)) = (\<lambda>x. map_option b_spec (map_of (m_borrowed s) x))"
    if "map_of (m_borrowed s) lid = Some r" "b_spec r' = b_spec r" for lid r r'
    using that by (auto simp: fun_eq_iff)
  show ?thesis
  proof (cases e)
    case (RCreateEnd lid out)
    show ?thesis
    proof (cases "map_of (m_borrowed s) lid")
      case None
      with RCreateEnd dist show ?thesis by (simp add: rm_create_end_def)
    next
      case (Some r)
      have tr: "m_borrowed (snd (rm_transition k st s)) = m_borrowed s" "m_next_rank (snd (rm_transition k st s)) = m_next_rank s" for k st
        by (auto simp: rm_transition_def split: option.split)
      show ?thesis
        using RCreateEnd Some dist upd [OF Some] tr
        by (auto simp: rm_create_end_def Let_def spec_of_def fun_eq_iff distinct_update
            split: option.split create_outcome.split)
    qed
  next
    case (RDestroyEnd t k oid c)
    show ?thesis
    proof (cases "rm_borrowed_record k s")
      case (Inl x)
      with RDestroyEnd dist show ?thesis by (simp add: rm_destroy_end_def split: sum.split)
    next
      case (Inr p)
      obtain lid r where p: "p = (lid, r)" by (cases p)
      have "map_of (m_borrowed s) lid = Some r" using rm_borrowed_record_map Inr p dist by blast
      with RDestroyEnd Inr p dist show ?thesis
        by (auto simp: rm_destroy_end_def spec_of_def fun_eq_iff distinct_update split: sum.split)
    qed
  next
    case (RInitialize ns as hs)
    let ?t = "s\<lparr>m_replicas := map snd ns, m_addresses := as, m_handles := hs\<rparr>"
    have "m_next_rank ?t \<le> m_next_rank (snd (rm_register_native x ns ?t))" for x
      using native_borrowed [of x ns ?t] by blast
    with RInitialize dist show ?thesis
      by (auto simp: rm_initialize_def Let_def spec_of_def split: option.split list.split)
  next
    case (RRegister k kd st rt)
    with dist show ?thesis by (auto simp: rm_register_def spec_of_def fun_eq_iff split: option.split)
  next
    case (RTransition k st)
    with dist show ?thesis by (auto simp: rm_transition_def spec_of_def fun_eq_iff split: option.split)
  next
    case (RDeactivate slot k)
    with dist show ?thesis
      by (auto simp: rm_deactivate_def Let_def spec_of_def fun_eq_iff split: sum.split prod.split option.split)
  next
    case (RActivate slot k)
    with dist show ?thesis
      by (auto simp: rm_activate_def Let_def spec_of_def fun_eq_iff split: sum.split prod.split option.split)
  next
    case (RSleepEnd t k oid p sl)
    with dist show ?thesis by (auto simp: rm_sleep_end_def spec_of_def fun_eq_iff split: sum.split)
  qed (use e in blast)
qed

lemma rm_step_borrow:
  assumes inv: "borrow_inv s"
  shows "borrow_inv (rm_step e s)"
proof -
  have life: "life_inv s" using inv by (simp add: borrow_inv_def)
  show ?thesis
  proof (cases "\<exists>cfg now v. e = RCreateBegin cfg now v")
    case True
    then obtain cfg now v where e: "e = RCreateBegin cfg now v" by blast
    show ?thesis
      by (cases rule: rm_create_begin_cases [of cfg now v s]) (use e inv borrow_inv_started in auto)
  next
    case False
    then have k: "spec_of (rm_step e s) = spec_of s" "distinct (map fst (m_borrowed (rm_step e s)))"
      "m_next_rank s \<le> m_next_rank (rm_step e s)"
      using specs_kept [OF inv, of e] by blast+
    show ?thesis
      by (rule borrow_inv_same_specs [OF inv rm_step_life [OF life] k(2,1,3)])
        (rule key_step_registered [OF rm_step_key [OF life]])
  qed
qed

lemma rm_step_spec: "borrow_inv s \<Longrightarrow> spec_of s lid = Some sp \<Longrightarrow> spec_of (rm_step e s) lid = Some sp"
proof (cases "\<exists>cfg now v. e = RCreateBegin cfg now v")
  case True
  then obtain cfg now v where e: "e = RCreateBegin cfg now v" by blast
  show "borrow_inv s \<Longrightarrow> spec_of s lid = Some sp \<Longrightarrow> spec_of (rm_step e s) lid = Some sp"
    by (cases rule: rm_create_begin_cases [of cfg now v s])
      (use e in \<open>auto simp: spec_of_def started_fields\<close>)
next
  case False
  then show "borrow_inv s \<Longrightarrow> spec_of s lid = Some sp \<Longrightarrow> spec_of (rm_step e s) lid = Some sp"
    using specs_kept [of s e] by auto
qed

interpretation borrows: invariant_machine borrow_inv rm_step
  by unfold_locales (rule rm_step_borrow)

interpretation borrow_specs: write_once borrow_inv rm_step spec_of
  by unfold_locales (rule rm_step_spec)

lemma new_rmgr_inv: "borrow_inv (new_rmgr ts)"
  by (simp add: borrow_inv_def life_inv_def new_rmgr_def spec_of_def)


section \<open>Properties\<close>

definition demo_placement :: "string \<Rightarrow> pyval" where
  "demo_placement lid = PDict
     [(''operation_id'', PStr ''op''), (''expires_at'', PFloat (Fin 0)), (''lease_id'', PStr lid), (''borrower_task_id'', PStr ''U''),
      (''borrower_replica_id'', PStr lid),
      (''claims'', PList [PDict
        [(''claim_id'', PStr ''c''), (''source_lease_id'', PStr ''s''), (''donor_task_id'', PStr ''T''),
         (''donor_replica_rank'', PInt 0), (''pg_id'', PStr ''pg''), (''node_id'', PStr ''n''),
         (''gpu_uuid'', PStr ''g''), (''bundle_index'', PInt 0), (''node_rank'', PInt 0), (''local_rank'', PInt 0),
         (''gpu_fraction'', PFloat (Fin FIRST_RELEASE_RAY_GPU_FRACTION)), (''cpu_request'', PFloat (Fin 1))]])]"

definition demo_parallel :: parallel_config where
  "demo_parallel = \<lparr>tensor_parallel = 1, data_parallel = 1, pipeline_parallel = 1\<rparr>"

lemmas rm_eval = rm_validate_spec_def demo_placement_def demo_parallel_def Let_def mk_lease_def normalize_claim_def
  claim_check_def claim_source_def pyget_def pyget_default_def is_nonempty_str_iff claim_ids_def gpu_uuids_def
  bundle_keys_def claim_donor_def check_expiry_def float_is_def map_res_def borrowed_claim_ok_def normalized_spec_def

lemma demo_validate:
  assumes "lid \<noteq> []"
  obtains n where "rm_validate_spec demo_parallel None 0 (demo_placement lid) = Inr n"
    "pyget n ''lease_id'' = PStr lid" "spec_key n = ReplicaKey ''U'' lid 0"
proof -
  have "\<exists>n. rm_validate_spec demo_parallel None 0 (demo_placement lid) = Inr n
      \<and> pyget n ''lease_id'' = PStr lid \<and> spec_key n = ReplicaKey ''U'' lid 0"
    using assms by (simp add: rm_eval spec_key_def)
  then show ?thesis using that by blast
qed

text \<open>C33: in every reachable state of the manager a registered replica keeps its kind, and a step
  leaves its state alone or moves it along the life cycle of its kind; in particular a borrowed
  replica never becomes DORMANT and a native one never RELEASED.\<close>

theorem rm_lifecycle:
  assumes "s = fold rm_step es (new_rmgr ts)"
    and "m_state s key = Some cur" and "m_kind s key = Some kd"
  shows "m_kind (rm_step e s) key = Some kd
    \<and> (\<exists>new. m_state (rm_step e s) key = Some new \<and> (new = cur \<or> life_step kd cur new))
    \<and> (kd = BORROWED \<longrightarrow> cur \<noteq> DORMANT) \<and> (kd = NATIVE \<longrightarrow> cur \<noteq> RELEASED_STATE)"
proof -
  have inv: "life_inv s"
    unfolding assms(1) by (rule rmgr.run_inv) (use new_rmgr_inv in \<open>simp add: borrow_inv_def\<close>)
  then have "validate_kind_state kd cur = None" using assms(2,3) unfolding life_inv_def by blast
  then have "(kd = BORROWED \<longrightarrow> cur \<noteq> DORMANT) \<and> (kd = NATIVE \<longrightarrow> cur \<noteq> RELEASED_STATE)"
    by (auto simp: validate_kind_state_def split: if_splits)
  moreover from rm_step_key [OF inv, of e key] assms(2,3) rm_step_kind [OF inv assms(3), of e]
  have "\<exists>new. m_state (rm_step e s) key = Some new \<and> (new = cur \<or> life_step kd cur new)"
    by (auto simp: key_step_def)
  ultimately show ?thesis using rm_step_kind [OF inv assms(3)] by blast
qed

theorem rm_lifecycle_witness: "life_step NATIVE DRAINING DORMANT"
proof -
  let ?k = "ReplicaKey ''T'' ''native-0'' 0"
  let ?s = "fold rm_step [RRegister ?k NATIVE ACTIVE None, RTransition ?k DRAINING] (new_rmgr None)"
  have "m_state ?s ?k = Some DRAINING" "m_kind ?s ?k = Some NATIVE"
    by (simp_all add: rm_register_def rm_transition_def new_rmgr_def validate_kind_state_def)
  from rm_lifecycle [OF refl this, of "RTransition ?k DORMANT"] show ?thesis
    by (simp add: rm_register_def rm_transition_def new_rmgr_def validate_kind_state_def)
qed

text \<open>a replica that is RELEASED or QUARANTINED stays so whatever happens afterwards.\<close>

theorem rm_terminal_forever:
  assumes "s = fold rm_step es (new_rmgr ts)" and "m_state s key = Some st"
    and "st = RELEASED_STATE \<or> st = QUARANTINED"
  shows "m_state (fold rm_step fs s) key = Some st"
proof -
  have inv: "life_inv s"
    unfolding assms(1) by (rule rmgr.run_inv) (use new_rmgr_inv in \<open>simp add: borrow_inv_def\<close>)
  have "terminal_state s key = Some st" using assms(2,3) by (auto simp: terminal_state_Some)
  from rmgr_terminal.run_keeps [OF inv this] show ?thesis by (simp add: terminal_state_Some)
qed

theorem rm_terminal_forever_witness:
  "m_state (fold rm_step [RTransition (ReplicaKey ''U'' ''b'' 0) ACTIVE]
     (fold rm_step [RRegister (ReplicaKey ''U'' ''b'' 0) BORROWED CREATING None,
        RTransition (ReplicaKey ''U'' ''b'' 0) QUARANTINED] (new_rmgr None))) (ReplicaKey ''U'' ''b'' 0)
    = Some QUARANTINED"
  by (rule rm_terminal_forever [OF refl])
    (simp_all add: rm_register_def rm_transition_def new_rmgr_def validate_kind_state_def)

text \<open>a borrower lease that was given a rank keeps its specification and that rank for ever: a
  later request for the same lease changes nothing and starts nothing, and is refused when its
  specification differs; no other lease ever gets that rank or that replica key.\<close>

theorem rm_create_once:
  assumes "s = fold rm_step es (new_rmgr ts)"
    and "rm_create_begin cfg now v s = (Inr (CreateStarted lid key rank), s')"
    and "later = fold rm_step fs s'"
    and "rm_validate_spec cfg' (m_session later) now' v' = Inr n'"
    and "pystr_of (pyget n' ''lease_id'') = lid"
  shows "\<exists>sp. spec_of later lid = Some sp \<and> spec_rank sp = rank \<and> spec_key sp = key
    \<and> (\<exists>res. rm_create_begin cfg' now' v' later = (res, later) \<and> (\<forall>l k r. res \<noteq> Inr (CreateStarted l k r))
         \<and> (\<not> py_eq (PDict (AList.delete ''replica_rank'' sp)) (PDict n') \<longrightarrow>
              res = Inl (ValueError ''conflicting borrowed create replay'')))
    \<and> (\<forall>other sp'. other \<noteq> lid \<longrightarrow> spec_of later other = Some sp' \<longrightarrow> spec_rank sp' \<noteq> rank \<and> spec_key sp' \<noteq> key)"
proof -
  have inv: "borrow_inv s" unfolding assms(1) by (rule borrows.run_inv [OF new_rmgr_inv])
  obtain n where n: "m_state s (spec_key n) = None" "lid = pystr_of (pyget n ''lease_id'')" "key = spec_key n"
      "rank = m_next_rank s" "s' = started lid n s" "map_of (m_borrowed s) lid = None"
    using assms(2) by (cases rule: rm_create_begin_cases [of cfg now v s]) auto
  let ?sp = "AList.update ''replica_rank'' (PInt rank) n"
  have sp': "spec_of s' lid = Some ?sp" by (simp add: spec_of_def n started_fields(4) [OF n(1)])
  have inv': "borrow_inv s'" using borrow_inv_started [OF inv n(6,1)] n(5) by simp
  have sp: "spec_of later lid = Some ?sp" unfolding assms(3) by (rule borrow_specs.run_keeps [OF inv' sp'])
  have invl: "borrow_inv later" unfolding assms(3) by (rule borrows.run_inv [OF inv'])
  obtain r where r: "map_of (m_borrowed later) lid = Some r" "b_spec r = ?sp"
    using sp by (auto simp: spec_of_def)
  have "\<exists>res. rm_create_begin cfg' now' v' later = (res, later) \<and> (\<forall>l k r. res \<noteq> Inr (CreateStarted l k r))
      \<and> (\<not> py_eq (PDict (AList.delete ''replica_rank'' ?sp)) (PDict n') \<longrightarrow>
              res = Inl (ValueError ''conflicting borrowed create replay''))"
    using assms(4,5) r by (auto simp: rm_create_begin_def Let_def split: option.split)
  moreover have "spec_rank ?sp = rank" "spec_key ?sp = key" by (simp_all add: n(3))
  moreover have "spec_rank q \<noteq> rank \<and> spec_key q \<noteq> key" if "other \<noteq> lid" "spec_of later other = Some q" for other q
    using invl sp that calculation(2,3) unfolding borrow_inv_def by blast
  ultimately show ?thesis using sp by blast
qed

theorem rm_create_once_witness:
  "\<exists>later res. rm_create_begin demo_parallel 0 (demo_placement ''L'') later = (res, later)
     \<and> (\<exists>sp. spec_of later ''L'' = Some sp \<and> spec_rank sp = 0)"
proof -
  let ?s = "fold rm_step [] (new_rmgr None)"
  obtain n where n: "rm_validate_spec demo_parallel None 0 (demo_placement ''L'') = Inr n"
      "pyget n ''lease_id'' = PStr ''L''" "spec_key n = ReplicaKey ''U'' ''L'' 0"
    using demo_validate [of "''L''"] by auto
  have b: "rm_create_begin demo_parallel 0 (demo_placement ''L'') ?s =
      (Inr (CreateStarted ''L'' (ReplicaKey ''U'' ''L'' 0) 0), started ''L'' n ?s)"
    using n by (simp add: rm_create_begin_def new_rmgr_def started_def rm_register_def validate_kind_state_def Let_def)
  define later where "later = fold rm_step [] (started ''L'' n ?s)"
  have "m_session later = None"
    by (simp add: later_def started_def new_rmgr_def rm_register_def validate_kind_state_def Let_def)
  with n have v: "rm_validate_spec demo_parallel (m_session later) 0 (demo_placement ''L'') = Inr n"
    "pystr_of (pyget n ''lease_id'') = ''L''" by simp_all
  from rm_create_once [OF refl b later_def v] show ?thesis by blast
qed

text \<open>taking a replica out of the native service lists and putting it back are inverse: after
  activating a replica that was not listed, deactivating it restores the lists exactly, and both
  keep addresses and handles aligned.\<close>

theorem rm_service_roundtrip:
  assumes "m_runtime s key = Some rt" and "slot rt = (Some a, Some h)" and "a \<noteq> []"
    and "rt \<notin> set (m_replicas s)" and "a \<notin> set (m_addresses s)"
    and "length (m_addresses s) = length (m_handles s)"
  shows "rm_deactivate slot key (snd (rm_activate slot key s)) = (Inr rt, s)
    \<and> fst (rm_activate slot key s) = Inr rt
    \<and> zip (m_addresses (snd (rm_activate slot key s))) (m_handles (snd (rm_activate slot key s)))
        = zip (m_addresses s) (m_handles s) @ [(a, h)]"
proof -
  have none: "index_of x xs = None \<longleftrightarrow> x \<notin> set xs" for x and xs :: "string list"
    by (induction xs) auto
  have last: "index_of x (xs @ [x]) = Some (length xs)" if "x \<notin> set xs" for x and xs :: "string list"
    using that by (induction xs) auto
  have act: "rm_activate slot key s = (Inr rt, s\<lparr>m_replicas := m_replicas s @ [rt],
      m_addresses := m_addresses s @ [a], m_handles := m_handles s @ [h]\<rparr>)"
    using assms none [of a "m_addresses s"] by (simp add: rm_activate_def rm_service_slot_def Let_def)
  have "rm_deactivate slot key (snd (rm_activate slot key s)) = (Inr rt, s)"
    unfolding act using assms last [of a "m_addresses s"]
    by (simp add: rm_deactivate_def rm_service_slot_def Let_def pop_at_def remove1_append)
  moreover have "zip (m_addresses s @ [a]) (m_handles s @ [h]) = zip (m_addresses s) (m_handles s) @ [(a, h)]"
    using assms(6) by simp
  ultimately show ?thesis unfolding act by simp
qed

theorem rm_service_roundtrip_witness:
  "\<exists>s. m_replicas s = [1] \<and> rm_deactivate (\<lambda>_. (Some ''h:1'', Some 5)) (ReplicaKey ''T'' ''b'' 0)
     (snd (rm_activate (\<lambda>_. (Some ''h:1'', Some 5)) (ReplicaKey ''T'' ''b'' 0) s)) = (Inr 2, s)"
proof -
  let ?k = "ReplicaKey ''T'' ''b'' 0"
  let ?s = "(new_rmgr None)\<lparr>m_runtime := [?k \<mapsto> 2], m_replicas := [1], m_addresses := [''h:0''], m_handles := [4]\<rparr>"
  have "m_runtime ?s ?k = Some 2" "(\<lambda>_::nat. (Some ''h:1'', Some (5::nat))) 2 = (Some ''h:1'', Some 5)"
    "''h:1'' \<noteq> ([]::string)" "2 \<notin> set (m_replicas ?s)" "''h:1'' \<notin> set (m_addresses ?s)"
    "length (m_addresses ?s) = length (m_handles ?s)"
    by (simp_all add: new_rmgr_def)
  from rm_service_roundtrip [OF this] have "rm_deactivate (\<lambda>_. (Some ''h:1'', Some 5)) ?k
      (snd (rm_activate (\<lambda>_. (Some ''h:1'', Some 5)) ?k ?s)) = (Inr 2, ?s)" by blast
  moreover have "m_replicas ?s = [1]" by simp
  ultimately show ?thesis by blast
qed

end
