(* ===== verification/Checkpoint_Manager.thy ===== *)
theory Checkpoint_Manager
  imports Interfaces Contracts "HOL-Library.List_Lexorder" "HOL-Library.Char_ord" "HOL-Library.Multiset"
    "HOL-Library.Countable"
begin

text \<open>
  Model of \<open>checkpoint/checkpoint_engine_manager.py\<close>: the owner of the receiver membership E.
  A target is first pending, is bootstrapped with the current weights under the trainer's gate,
  and becomes effective only with the WEIGHT_READY evidence of that bootstrap.

  Parameters: the native manager (its member list and its \<open>add_replicas\<close> and
  \<open>remove_replicas\<close>), the outcome of every call to workers and servers, and the digest function.
  Runtimes are numbers.
\<close>

section \<open>Membership\<close>

record 'n native_ce =
  nc_replicas :: "'n \<Rightarrow> nat list"
  nc_add :: "nat list \<Rightarrow> 'n \<Rightarrow> unit res \<times> 'n"
  nc_remove :: "nat list \<Rightarrow> 'n \<Rightarrow> unit res \<times> 'n"

record 'n ce =
  ce_native :: 'n
  ce_effective :: "(replica_key \<times> nat list \<times> int) list"
  ce_pending :: "(replica_key \<times> nat list \<times> string) list"
  ce_ready :: "replica_key \<rightharpoonup> string \<times> int \<times> op_evidence"

definition new_ce :: "'n \<Rightarrow> 'n ce" where
  "new_ce n = \<lparr>ce_native = n, ce_effective = [], ce_pending = [], ce_ready = Map.empty\<rparr>"

definition shares :: "replica_key \<Rightarrow> nat list \<Rightarrow> (replica_key \<times> nat list \<times> 'a) list \<Rightarrow> bool" where
  "shares key replicas entries \<longleftrightarrow>
     (\<exists>(other, rs, _) \<in> set entries. other \<noteq> key \<and> (\<exists>r \<in> set replicas. r \<in> set rs))"

definition ce_validate_membership :: "replica_key \<Rightarrow> nat list \<Rightarrow> 'n ce \<Rightarrow> exn option" where
  "ce_validate_membership key replicas s = first_failure
     [(\<not> distinct replicas, ValueError ''duplicate runtime in CE membership''),
      (shares key replicas (ce_effective s), ValueError ''runtime already belongs to another ReplicaKey''),
      (shares key replicas (ce_pending s), ValueError ''runtime already belongs to another ReplicaKey'')]"

definition ce_register_pending ::
    "'n native_ce \<Rightarrow> replica_key \<Rightarrow> nat list \<Rightarrow> string \<Rightarrow> 'n ce \<Rightarrow> unit res \<times> 'n ce" where
  "ce_register_pending N key replicas oid s =
     (if oid = [] then (Inl (ValueError ''operation_id must be a nonempty string''), s)
      else if replicas = [] then (Inl (ValueError ''pending bootstrap requires at least one replica''), s)
      else
        (case ce_validate_membership key replicas s of
           Some e \<Rightarrow> (Inl e, s)
         | None \<Rightarrow>
             (case map_of (ce_effective s) key of
                Some (rs, _) \<Rightarrow>
                  if rs = replicas \<and> map_option fst (ce_ready s key) = Some oid then (Inr (), s)
                  else (Inl (ValueError ''ReplicaKey is already an effective CE member''), s)
              | None \<Rightarrow>
                  (case map_of (ce_pending s) key of
                     Some existing \<Rightarrow>
                       if existing \<noteq> (replicas, oid)
                       then (Inl (ValueError ''ReplicaKey already has conflicting pending bootstrap''), s)
                       else (Inr (), s)
                   | None \<Rightarrow>
                       if \<exists>r \<in> set replicas. r \<in> set (nc_replicas N (ce_native s))
                       then (Inl (ValueError ''pending replica is already part of native effective membership''), s)
                       else (Inr (), s\<lparr>ce_pending := AList.update key (replicas, oid) (ce_pending s)\<rparr>)))))"

definition ce_add_effective ::
    "'n native_ce \<Rightarrow> replica_key \<Rightarrow> nat list \<Rightarrow> pyval \<Rightarrow> 'n ce \<Rightarrow> unit res \<times> 'n ce" where
  "ce_add_effective N key replicas version s =
     (if \<not> is_nonneg_int version then (Inl (ValueError ''loaded_version must be a nonnegative integer''), s)
      else if replicas = [] then (Inl (ValueError ''effective membership requires at least one replica''), s)
      else
        (case ce_validate_membership key replicas s of
           Some e \<Rightarrow> (Inl e, s)
         | None \<Rightarrow>
             (let entry = (replicas, pyint_of version) in
              if map_of (ce_effective s) key \<noteq> None \<and> map_of (ce_effective s) key \<noteq> Some entry
              then (Inl (ValueError ''ReplicaKey already has conflicting CE membership''), s)
              else
                (case nc_add N (filter (\<lambda>r. r \<notin> set (nc_replicas N (ce_native s))) replicas) (ce_native s) of
                   (Inl e, n) \<Rightarrow> (Inl e, s\<lparr>ce_native := n\<rparr>)
                 | (Inr _, n) \<Rightarrow>
                     (Inr (), s\<lparr>ce_native := n, ce_effective := AList.update key entry (ce_effective s)\<rparr>)))))"

definition ce_discard_pending :: "replica_key \<Rightarrow> 'n ce \<Rightarrow> 'n ce" where
  "ce_discard_pending key s =
     s\<lparr>ce_pending := AList.delete key (ce_pending s), ce_ready := (ce_ready s)(key := None)\<rparr>"

definition ce_commit_pending ::
    "'n native_ce \<Rightarrow> replica_key \<Rightarrow> op_evidence option \<Rightarrow> pyval \<Rightarrow> 'n ce \<Rightarrow> unit res \<times> 'n ce" where
  "ce_commit_pending N key evidence version s =
     (case evidence of
        None \<Rightarrow> (Inl (TypeError ''commit_pending requires OperationEvidence''), s)
      | Some ev \<Rightarrow>
          if e_type ev \<noteq> WEIGHT_READY
          then (Inl (ValueError ''pending bootstrap may commit only from WEIGHT_READY''), s)
          else if \<not> is_nonneg_int version
          then (Inl (ValueError ''loaded_version must be a nonnegative integer''), s)
          else
            (let v = pyint_of version in
             case (map_of (ce_pending s) key, ce_ready s key, map_of (ce_effective s) key) of
               (None, Some confirmed, Some (_, member_version)) \<Rightarrow>
                 if confirmed \<noteq> (e_operation_id ev, v, ev)
                 then (Inl (ValueError ''WEIGHT_READY does not match confirmed bootstrap''), s)
                 else if member_version \<noteq> v
                 then (Inl (ValueError ''conflicting bootstrap commit replay''), s)
                 else (Inr (), s)
             | (None, _, _) \<Rightarrow> (Inl (KeyError ''no pending bootstrap''), s)
             | (Some (replicas, oid), _, _) \<Rightarrow>
                 if oid \<noteq> e_operation_id ev
                 then (Inl (ValueError ''WEIGHT_READY evidence belongs to another operation''), s)
                 else if ce_ready s key \<noteq> Some (oid, v, ev)
                 then (Inl (ValueError ''WEIGHT_READY does not match confirmed bootstrap''), s)
                 else
                   (case ce_add_effective N key replicas version s of
                      (Inl e, s') \<Rightarrow> (Inl e, s')
                    | (Inr _, s') \<Rightarrow> (Inr (), s'\<lparr>ce_pending := AList.delete key (ce_pending s')\<rparr>))))"

definition ce_remove_effective :: "'n native_ce \<Rightarrow> replica_key \<Rightarrow> 'n ce \<Rightarrow> unit res \<times> 'n ce" where
  "ce_remove_effective N key s =
     (case map_of (ce_effective s) key of
        None \<Rightarrow> (Inr (), ce_discard_pending key s)
      | Some (replicas, _) \<Rightarrow>
          (case nc_remove N replicas (ce_native s) of
             (Inl e, n) \<Rightarrow> (Inl e, s\<lparr>ce_native := n\<rparr>)
           | (Inr _, n) \<Rightarrow>
               (Inr (), ce_discard_pending key
                  (s\<lparr>ce_native := n, ce_effective := AList.delete key (ce_effective s)\<rparr>))))"

definition ce_mark_all :: "pyval \<Rightarrow> 'n ce \<Rightarrow> unit res \<times> 'n ce" where
  "ce_mark_all version s =
     (if \<not> is_nonneg_int version then (Inl (ValueError ''loaded_version must be a nonnegative integer''), s)
      else (Inr (), s\<lparr>ce_effective :=
              map (\<lambda>(key, rs, _). (key, rs, pyint_of version)) (ce_effective s)\<rparr>))"

section \<open>Parameter manifests\<close>

fun shape_items :: "pyval \<Rightarrow> pyval list option" where
  "shape_items (PList xs) = Some xs"
| "shape_items (PTuple xs) = Some xs"
| "shape_items _ = None"

definition shape_ints :: "pyval \<Rightarrow> int list option" where
  "shape_ints v = (case shape_items v of
     None \<Rightarrow> None
   | Some xs \<Rightarrow> if list_all is_nonneg_int xs then Some (map pyint_of xs) else None)"

definition entry_failure :: "string list \<Rightarrow> pydict \<Rightarrow> exn option" where
  "entry_failure names entry = first_failure
     [(\<not> is_nonempty_str (pyget entry ''name'') \<or> pystr_of (pyget entry ''name'') \<in> set names,
       RuntimeError ''parameter manifest names must be nonempty and unique''),
      (\<not> is_nonempty_str (pyget entry ''dtype'') \<or> \<not> is_nonempty_str (pyget entry ''sha256''),
       RuntimeError ''parameter manifest entry lacks dtype or sha256''),
      (shape_ints (pyget entry ''shape'') = None \<or> \<not> is_nonneg_int (pyget entry ''numel''),
       RuntimeError ''parameter manifest entry has invalid shape/numel''),
      (pyint_of (pyget entry ''numel'') \<noteq> prod_list (the (shape_ints (pyget entry ''shape''))),
       RuntimeError ''parameter manifest shape/numel mismatch'')]"

fun validate_entries :: "string list \<Rightarrow> int \<Rightarrow> pyval list \<Rightarrow> int res" where
  "validate_entries names tot [] = Inr tot"
| "validate_entries names tot (v # vs) =
     (case v of
        PDict entry \<Rightarrow>
          (case entry_failure names entry of
             Some e \<Rightarrow> Inl e
           | None \<Rightarrow> validate_entries (pystr_of (pyget entry ''name'') # names)
                       (tot + pyint_of (pyget entry ''numel'')) vs)
      | _ \<Rightarrow> Inl (RuntimeError ''parameter manifest entry must be a mapping''))"

definition ce_validate_manifest :: "pyval \<Rightarrow> pydict res" where
  \<comment> \<open>the manifest itself when it is valid\<close>
  "ce_validate_manifest v =
     (case v of
        PDict manifest \<Rightarrow>
          if pyget manifest ''complete'' \<noteq> PBool True
          then Inl (RuntimeError ''parameter manifest is incomplete'')
          else
            (case pyget manifest ''parameters'' of
               PList entries \<Rightarrow>
                 if entries = [] then Inl (RuntimeError ''parameter manifest must contain parameters'')
                 else
                   (case validate_entries [] 0 entries of
                      Inl e \<Rightarrow> Inl e
                    | Inr tot \<Rightarrow>
                        if pyget manifest ''parameter_count'' \<noteq> PInt (int (length entries))
                           \<or> pyget manifest ''total_numel'' \<noteq> PInt tot
                        then Inl (RuntimeError ''parameter manifest counts do not match its entries'')
                        else Inr manifest)
             | _ \<Rightarrow> Inl (RuntimeError ''parameter manifest must contain parameters''))
      | _ \<Rightarrow> Inl (RuntimeError ''parameter manifest is incomplete''))"

definition manifest_entries :: "pydict \<Rightarrow> pydict list" where
  "manifest_entries m = (case pyget m ''parameters'' of
     PList xs \<Rightarrow> List.map_filter (\<lambda>v. case v of PDict d \<Rightarrow> Some d | _ \<Rightarrow> None) xs | _ \<Rightarrow> [])"

definition entry_name :: "pydict \<Rightarrow> string" where
  "entry_name e = pystr_of (pyget e ''name'')"

text \<open>The canonical form that is hashed: sorted by name, the shape as a list.\<close>

type_synonym param = "string \<times> int list \<times> string \<times> int \<times> string"

definition canonical_entry :: "pydict \<Rightarrow> param" where
  "canonical_entry e = (entry_name e, the (shape_ints (pyget e ''shape'')), pystr_of (pyget e ''dtype''),
     pyint_of (pyget e ''numel''), pystr_of (pyget e ''sha256''))"

definition ce_manifest_digest :: "(param list \<Rightarrow> string) \<Rightarrow> pydict \<Rightarrow> string" where
  "ce_manifest_digest hash m = hash (sort_key fst (map canonical_entry (manifest_entries m)))"

definition lookup_entry :: "string \<Rightarrow> pydict \<Rightarrow> pydict option" where
  \<comment> \<open>\<open>{item["name"]: item for item in parameters}.get(name)\<close>: the last one wins\<close>
  "lookup_entry name m = map_of (rev (map (\<lambda>e. (entry_name e, e)) (manifest_entries m))) name"

definition entry_differs :: "pydict \<Rightarrow> pydict \<Rightarrow> bool" where
  "entry_differs source received \<longleftrightarrow>
     (\<exists>f \<in> {''shape'', ''dtype'', ''numel'', ''sha256''}. \<not> py_eq (pyget source f) (pyget received f))"

fun collect_mismatches :: "nat \<Rightarrow> string list \<Rightarrow> pydict \<Rightarrow> pydict \<Rightarrow> string list \<Rightarrow> string list" where
  "collect_mismatches limit acc expected actual [] = acc"
| "collect_mismatches limit acc expected actual (name # names) =
     (let bad = (case (lookup_entry name expected, lookup_entry name actual) of
                   (Some source, Some received) \<Rightarrow> entry_differs source received | _ \<Rightarrow> True);
          acc' = (if bad then acc @ [name] else acc) in
      if limit \<le> length acc' then acc' else collect_mismatches limit acc' expected actual names)"

definition ce_manifest_mismatches :: "pydict \<Rightarrow> pydict \<Rightarrow> string list" where
  \<comment> \<open>the names of the mismatches; the code also reports the differing fields\<close>
  "ce_manifest_mismatches expected actual = collect_mismatches 8 [] expected actual
     (sorted_list_of_set (entry_name ` set (manifest_entries expected) \<union> entry_name ` set (manifest_entries actual)))"

record validation =
  va_version :: pyval
  va_worker_count :: nat
  va_parameter_count :: pyval
  va_total_numel :: pyval
  va_digest :: string
  va_source_digest :: "string option"

text \<open>\<open>workers\<close>: how many CE workers each replica has. \<open>manifests\<close>: what the workers returned.\<close>

definition ce_validate_sync ::
    "(param list \<Rightarrow> string) \<Rightarrow> nat list \<Rightarrow> int option \<Rightarrow> pyval option \<Rightarrow> pyval list \<Rightarrow> validation res" where
  "ce_validate_sync hash workers expected source manifests =
     (if 0 \<in> set workers then Inl (RuntimeError ''parameter validation requires a CE Worker for every replica'')
      else if workers = [] then Inl (RuntimeError ''parameter validation requires at least one CE Worker'')
      else if length manifests \<noteq> sum_list workers
      then Inl (RuntimeError ''CE parameter manifest does not cover every worker'')
      else
        (case traverse ce_validate_manifest manifests of
           Inl e \<Rightarrow> Inl e
         | Inr ms \<Rightarrow>
             if \<exists>v \<in> set_option expected. \<exists>m \<in> set ms. \<not> py_eq (pyget m ''global_steps'') (PInt v)
             then Inl (RuntimeError ''CE parameter version mismatch'')
             else
               (let digests = map (ce_manifest_digest hash) ms;
                    finish = (\<lambda>src.
                      if length (remdups digests) \<noteq> 1
                      then Inl (RuntimeError ''CE workers received different parameter manifests'')
                      else Inr \<lparr>va_version = pyget (hd ms) ''global_steps'', va_worker_count = length ms,
                                va_parameter_count = pyget_default (hd ms) ''parameter_count'' (PInt 0),
                                va_total_numel = pyget_default (hd ms) ''total_numel'' (PInt 0),
                                va_digest = hd digests, va_source_digest = map_option (ce_manifest_digest hash) src\<rparr>) in
                case source of
                  None \<Rightarrow> finish None
                | Some sv \<Rightarrow>
                    (case ce_validate_manifest sv of
                       Inl e \<Rightarrow> Inl e
                     | Inr src \<Rightarrow>
                         if \<exists>v \<in> set_option expected. \<not> py_eq (pyget src ''global_steps'') (PInt v)
                         then Inl (RuntimeError ''actor source parameter version mismatch'')
                         else if \<exists>m \<in> set ms. ce_manifest_mismatches src m \<noteq> []
                         then Inl (RuntimeError ''CE worker differs from actor source manifest'')
                         else finish (Some src)))))"

section \<open>Bootstrapping one target\<close>

datatype boot_stage =
    Placements | WakeWeights | ReleaseKV | BuildTopology | Transfer | Finalize | ResumeKV | Health | Validate

definition boot_stages :: "bool \<Rightarrow> bool \<Rightarrow> boot_stage list" where
  "boot_stages native validation =
     (if native then [Placements, WakeWeights] else [ReleaseKV])
     @ [BuildTopology, Transfer, Finalize, ResumeKV, Health]
     @ (if validation then [Validate] else [])"

text \<open>The environment of one bootstrap: what every awaited call does.\<close>

record boot_env =
  be_workers :: nat
  be_kinds :: "replica_kind option list"
  be_raises :: "boot_stage \<Rightarrow> exn option"
  be_placements :: "pyval list"
  be_versions :: "pyval list"
  be_validation :: "validation res option"
  be_finalize_cleanup :: "exn option"
  be_sleep_cleanup :: "exn option"

definition released_uuids :: "boot_env \<Rightarrow> string list" where
  "released_uuids env = dict_fromkeys (map pystr_of (filter is_nonempty_str (be_placements env)))"

definition stage_failure :: "int \<Rightarrow> boot_env \<Rightarrow> boot_stage \<Rightarrow> exn option" where
  "stage_failure version env st =
     (case be_raises env st of
        Some e \<Rightarrow> Some e
      | None \<Rightarrow>
          (case st of
             Placements \<Rightarrow>
               if released_uuids env = []
               then Some (RuntimeError ''native RESTORE target has no verified physical accelerator id'') else None
           | Health \<Rightarrow>
               if \<exists>v \<in> set (be_versions env). \<not> py_eq v (PInt version)
               then Some (RuntimeError ''target server did not confirm the published parameter version'') else None
           | Validate \<Rightarrow>
               (case be_validation env of Some (Inl e) \<Rightarrow> Some e | _ \<Rightarrow> None)
           | _ \<Rightarrow> None))"

fun run_stages :: "(boot_stage \<Rightarrow> exn option) \<Rightarrow> boot_stage list \<Rightarrow> boot_stage list
    \<Rightarrow> boot_stage list \<times> (boot_stage \<times> exn) option" where
  "run_stages fails completed [] = (completed, None)"
| "run_stages fails completed (st # sts) =
     (case fails st of
        Some e \<Rightarrow> (completed, Some (st, e))
      | None \<Rightarrow> run_stages fails (completed @ [st]) sts)"

text \<open>The cleanup of a failed bootstrap: the topology is finalised when it was started and not
  finalised, a native target goes back to sleep; an unverified cleanup is an error.\<close>

definition boot_cleanup ::
    "int \<Rightarrow> string \<Rightarrow> bool \<Rightarrow> boot_env \<Rightarrow> boot_stage list \<Rightarrow> boot_stage \<times> exn \<Rightarrow> op_evidence res" where
  "boot_cleanup clock oid native env completed failure =
     (let (st, e) = failure;
          topology_started = (BuildTopology \<in> set completed \<or> st = BuildTopology);
          finalized = (Finalize \<in> set completed);
          error1 = (if topology_started \<and> \<not> finalized then be_finalize_cleanup env else None);
          error2 = (if native \<and> be_sleep_cleanup env \<noteq> None then be_sleep_cleanup env else error1) in
      if error2 \<noteq> None
      then Inl (RuntimeError ''target bootstrap failed and runtime cleanup is unverified'')
      else if native
      then evidence_now clock oid RELEASED (if Placements \<in> set completed then released_uuids env else [])
      else Inl e)"

definition ce_bootstrap_target ::
    "int \<Rightarrow> bool \<Rightarrow> bool \<Rightarrow> boot_env \<Rightarrow> replica_key \<Rightarrow> string \<Rightarrow> pyval \<Rightarrow> 'n ce \<Rightarrow> op_evidence res \<times> 'n ce" where
  "ce_bootstrap_target clock naive validation env key oid version s =
     (if oid = [] then (Inl (ValueError ''operation_id must be a nonempty string''), s)
      else if \<not> is_nonneg_int version
      then (Inl (ValueError ''loaded_version must be a nonnegative integer''), s)
      else if naive
      then (Inl (NotImplementedError ''first-release target-only bootstrap requires non-naive checkpoint engine''), s)
      else
        (let v = pyint_of version in
         case ce_ready s key of
           Some (ready_oid, ready_version, evidence) \<Rightarrow>
             if ready_oid \<noteq> oid \<or> ready_version \<noteq> v
             then (Inl (ValueError ''conflicting target bootstrap replay''), s)
             else (Inr evidence, s)
         | None \<Rightarrow>
             (case map_of (ce_pending s) key of
                None \<Rightarrow> (Inl (KeyError ''no pending bootstrap''), s)
              | Some (replicas, pending_oid) \<Rightarrow>
                  if pending_oid \<noteq> oid then (Inl (ValueError ''pending target belongs to another operation''), s)
                  else if be_workers env = 0
                  then (Inl (ValueError ''pending target has no checkpoint-engine workers''), s)
                  else if length (remdups (be_kinds env)) \<noteq> 1
                  then (Inl (ValueError ''pending target contains inconsistent replica kinds''), s)
                  else
                    (case hd (be_kinds env) of
                       None \<Rightarrow> (Inl (ValueError ''pending target has unsupported replica kind''), s)
                     | Some kind \<Rightarrow>
                         (let native = (kind = NATIVE) in
                          case run_stages (stage_failure v env) [] (boot_stages native validation) of
                            (completed, Some failure) \<Rightarrow> (boot_cleanup clock oid native env completed failure, s)
                          | (completed, None) \<Rightarrow>
                              (case evidence_now clock oid WEIGHT_READY [] of
                                 Inl e \<Rightarrow> (boot_cleanup clock oid native env completed (Validate, e), s)
                               | Inr evidence \<Rightarrow>
                                   (Inr evidence, s\<lparr>ce_ready := (ce_ready s)(key \<mapsto> (oid, v, evidence))\<rparr>)))))))"

section \<open>The membership as a machine\<close>

datatype ce_event =
    CRegister replica_key "nat list" string
  | CAdd replica_key "nat list" pyval
  | CCommit replica_key "op_evidence option" pyval
  | CDiscard replica_key
  | CRemove replica_key
  | CMark pyval
  | CBootstrap int bool bool boot_env replica_key string pyval

fun ce_step :: "'n native_ce \<Rightarrow> ce_event \<Rightarrow> 'n ce \<Rightarrow> 'n ce" where
  "ce_step N (CRegister k rs oid) s = snd (ce_register_pending N k rs oid s)"
| "ce_step N (CAdd k rs v) s = snd (ce_add_effective N k rs v s)"
| "ce_step N (CCommit k ev v) s = snd (ce_commit_pending N k ev v s)"
| "ce_step N (CDiscard k) s = ce_discard_pending k s"
| "ce_step N (CRemove k) s = snd (ce_remove_effective N k s)"
| "ce_step N (CMark v) s = snd (ce_mark_all v s)"
| "ce_step N (CBootstrap t nv vd env k oid v) s = snd (ce_bootstrap_target t nv vd env k oid v s)"

section \<open>A runtime belongs to one replica\<close>

definition belongs :: "'n ce \<Rightarrow> replica_key \<Rightarrow> nat \<Rightarrow> bool" where
  "belongs s k r \<longleftrightarrow> (\<exists>rs v. map_of (ce_effective s) k = Some (rs, v) \<and> r \<in> set rs)
     \<or> (\<exists>rs oid. map_of (ce_pending s) k = Some (rs, oid) \<and> r \<in> set rs)"

definition excl :: "'n ce \<Rightarrow> bool" where
  "excl s \<longleftrightarrow> (\<forall>k j r. belongs s k r \<longrightarrow> belongs s j r \<longrightarrow> k = j)"

lemma not_shares: "\<not> shares key rs entries \<Longrightarrow> map_of entries k = Some (qs, v) \<Longrightarrow> r \<in> set rs \<Longrightarrow> r \<in> set qs \<Longrightarrow> k = key"
  using map_of_SomeD [of entries k "(qs, v)"] by (force simp: shares_def)

lemma validated_membership:
  "ce_validate_membership key rs s = None \<Longrightarrow> r \<in> set rs \<Longrightarrow> belongs s k r \<Longrightarrow> k = key"
  by (auto simp: ce_validate_membership_def belongs_def dest: not_shares)

lemma excl_extend:
  assumes "excl s" and "ce_validate_membership key rs s = None"
    and "\<And>k r. belongs s' k r \<Longrightarrow> belongs s k r \<or> (k = key \<and> r \<in> set rs)"
  shows "excl s'"
  using assms validated_membership [OF assms(2)] unfolding excl_def by metis

lemma excl_shrink: "excl s \<Longrightarrow> (\<And>k r. belongs s' k r \<Longrightarrow> belongs s k r) \<Longrightarrow> excl s'"
  unfolding excl_def by blast

lemma ce_register_cases:
  obtains res where "ce_register_pending N key rs oid s = (res, s)"
  | "ce_validate_membership key rs s = None" "map_of (ce_effective s) key = None" "map_of (ce_pending s) key = None"
      "ce_register_pending N key rs oid s = (Inr (), s\<lparr>ce_pending := AList.update key (rs, oid) (ce_pending s)\<rparr>)"
proof (cases "oid = [] \<or> rs = [] \<or> ce_validate_membership key rs s \<noteq> None \<or> map_of (ce_effective s) key \<noteq> None
    \<or> map_of (ce_pending s) key \<noteq> None \<or> (\<exists>r \<in> set rs. r \<in> set (nc_replicas N (ce_native s)))")
  case True
  then have "snd (ce_register_pending N key rs oid s) = s"
    by (auto simp: ce_register_pending_def split: option.split)
  then show ?thesis using that(1) by (metis prod.collapse)
next
  case False
  then have "oid \<noteq> []" "rs \<noteq> []" "ce_validate_membership key rs s = None" "map_of (ce_effective s) key = None"
    "map_of (ce_pending s) key = None" "\<not> (\<exists>r \<in> set rs. r \<in> set (nc_replicas N (ce_native s)))"
    by blast+
  then show ?thesis by (intro that(2)) (simp_all add: ce_register_pending_def)
qed

lemma ce_add_cases:
  obtains e n where "ce_add_effective N key rs v s = (Inl e, s\<lparr>ce_native := n\<rparr>)"
  | n where "ce_validate_membership key rs s = None" "is_nonneg_int v" "rs \<noteq> []"
      "map_of (ce_effective s) key \<in> {None, Some (rs, pyint_of v)}"
      "nc_add N (filter (\<lambda>r. r \<notin> set (nc_replicas N (ce_native s))) rs) (ce_native s) = (Inr (), n)"
      "ce_add_effective N key rs v s = (Inr (), s\<lparr>ce_native := n,
         ce_effective := AList.update key (rs, pyint_of v) (ce_effective s)\<rparr>)"
proof -
  have same: "s\<lparr>ce_native := ce_native s\<rparr> = s" by simp
  show ?thesis
  proof (cases "\<not> is_nonneg_int v \<or> rs = [] \<or> ce_validate_membership key rs s \<noteq> None
      \<or> map_of (ce_effective s) key \<notin> {None, Some (rs, pyint_of v)}")
    case True
    then have "\<exists>e. ce_add_effective N key rs v s = (Inl e, s)"
      by (auto simp: ce_add_effective_def Let_def split: option.split)
    then show ?thesis using that(1) same by metis
  next
    case False
    then have g: "is_nonneg_int v" "rs \<noteq> []" "ce_validate_membership key rs s = None"
      "map_of (ce_effective s) key = None \<or> map_of (ce_effective s) key = Some (rs, pyint_of v)" by blast+
    obtain q n where qn: "nc_add N (filter (\<lambda>r. r \<notin> set (nc_replicas N (ce_native s))) rs) (ce_native s) = (q, n)"
      by (cases "nc_add N (filter (\<lambda>r. r \<notin> set (nc_replicas N (ce_native s))) rs) (ce_native s)")
    show ?thesis
    proof (cases q)
      case (Inl e)
      from g(4) have "ce_add_effective N key rs v s = (Inl e, s\<lparr>ce_native := n\<rparr>)"
        by (rule disjE) (use qn Inl g(1-3) in \<open>simp_all add: ce_add_effective_def Let_def\<close>)
      then show ?thesis by (rule that(1))
    next
      case (Inr u)
      from g(4) have "ce_add_effective N key rs v s = (Inr (), s\<lparr>ce_native := n,
         ce_effective := AList.update key (rs, pyint_of v) (ce_effective s)\<rparr>)"
        by (rule disjE) (use qn Inr g(1-3) in \<open>simp_all add: ce_add_effective_def Let_def\<close>)
      with g qn Inr show ?thesis by (intro that(2) [of n]) auto
    qed
  qed
qed

lemma ce_commit_cases:
  obtains res n where "ce_commit_pending N key ev v s = (res, s\<lparr>ce_native := n\<rparr>)"
      "res = Inr () \<longrightarrow> n = ce_native s \<and> map_of (ce_pending s) key = None \<and> (\<exists>e rs. ev = Some e
         \<and> ce_ready s key = Some (e_operation_id e, pyint_of v, e) \<and> map_of (ce_effective s) key = Some (rs, pyint_of v))"
  | e rs n where "ev = Some e" "map_of (ce_pending s) key = Some (rs, e_operation_id e)" "e_type e = WEIGHT_READY"
      "ce_ready s key = Some (e_operation_id e, pyint_of v, e)" "is_nonneg_int v"
      "ce_validate_membership key rs s = None"
      "ce_commit_pending N key ev v s = (Inr (), s\<lparr>ce_native := n,
         ce_effective := AList.update key (rs, pyint_of v) (ce_effective s),
         ce_pending := AList.delete key (ce_pending s)\<rparr>)"
proof -
  have same: "s\<lparr>ce_native := ce_native s\<rparr> = s" by simp
  show ?thesis
  proof (cases "\<exists>e rs. ev = Some e \<and> e_type e = WEIGHT_READY \<and> is_nonneg_int v
      \<and> map_of (ce_pending s) key = Some (rs, e_operation_id e)
      \<and> ce_ready s key = Some (e_operation_id e, pyint_of v, e)")
    case True
    then obtain e rs where g: "ev = Some e" "e_type e = WEIGHT_READY" "is_nonneg_int v"
      "map_of (ce_pending s) key = Some (rs, e_operation_id e)"
      "ce_ready s key = Some (e_operation_id e, pyint_of v, e)" by blast
    show ?thesis
    proof (cases rule: ce_add_cases [of N key rs v s])
      case (1 x n)
      with g show ?thesis by (intro that(1) [of "Inl x" n]) (simp_all add: ce_commit_pending_def Let_def)
    next
      case (2 n)
      with g show ?thesis by (intro that(2) [of e rs n]) (simp_all add: ce_commit_pending_def Let_def)
    qed
  next
    case False
    then have "snd (ce_commit_pending N key ev v s) = s \<and> (fst (ce_commit_pending N key ev v s) = Inr () \<longrightarrow>
        map_of (ce_pending s) key = None \<and> (\<exists>e rs. ev = Some e
         \<and> ce_ready s key = Some (e_operation_id e, pyint_of v, e) \<and> map_of (ce_effective s) key = Some (rs, pyint_of v)))"
      by (auto simp: ce_commit_pending_def Let_def split: option.split)
    then show ?thesis
      by (intro that(1) [of "fst (ce_commit_pending N key ev v s)" "ce_native s"]) (simp_all add: same prod_eq_iff)
  qed
qed

definition rolled_back :: "int \<Rightarrow> bool \<Rightarrow> boot_env \<Rightarrow> string \<Rightarrow> int \<Rightarrow> op_evidence \<Rightarrow> bool" where
  \<comment> \<open>a native bootstrap failed in some stage and its cleanup was verified\<close>
  "rolled_back t vd env oid v ev \<longleftrightarrow> hd (be_kinds env) = Some NATIVE
     \<and> (\<exists>failure. boot_cleanup t oid True env
            (fst (run_stages (stage_failure v env) [] (boot_stages True vd))) failure = Inr ev)"

lemma cleanup_Inr:
  assumes "boot_cleanup t oid native env completed failure = Inr ev"
  shows "native \<and> be_sleep_cleanup env = None \<and> e_type ev = RELEASED \<and> e_operation_id ev = oid
    \<and> e_gpu_uuids ev = released_uuids env \<and> e_gpu_uuids ev \<noteq> []
    \<and> (BuildTopology \<in> set completed \<or> fst failure = BuildTopology \<longrightarrow>
        Finalize \<notin> set completed \<longrightarrow> be_finalize_cleanup env = None)"
proof -
  have n: native using assms by (auto simp: boot_cleanup_def Let_def split: prod.splits if_splits)
  then have c: "be_sleep_cleanup env = None"
    "(BuildTopology \<in> set completed \<or> fst failure = BuildTopology) \<and> Finalize \<notin> set completed
       \<longrightarrow> be_finalize_cleanup env = None"
    using assms by (auto simp: boot_cleanup_def Let_def split: prod.splits if_splits)
  then have "evidence_now t oid RELEASED (if Placements \<in> set completed then released_uuids env else []) = Inr ev"
    using assms n by (auto simp: boot_cleanup_def Let_def split: prod.splits if_splits)
  then have "e_type ev = RELEASED \<and> e_operation_id ev = oid \<and> e_gpu_uuids ev = released_uuids env \<and> e_gpu_uuids ev \<noteq> []"
    by (auto simp: evidence_now_def mk_evidence_Inr_iff wf_evidence_def split: if_splits)
  with n c show ?thesis by blast
qed

lemma run_stages_completed:
  "run_stages f acc sts = (completed, None) \<Longrightarrow> completed = acc @ sts \<and> (\<forall>st \<in> set sts. f st = None)"
  by (induction f acc sts rule: run_stages.induct) (auto split: option.splits)

lemma ce_bootstrap_cases:
  obtains e where "ce_bootstrap_target t nv vd env key oid v s = (Inl e, s)"
  | ev where "ce_bootstrap_target t nv vd env key oid v s = (Inr ev, s)" "ce_ready s key = Some (oid, pyint_of v, ev)"
  | ev where "ce_bootstrap_target t nv vd env key oid v s = (Inr ev, s)" "ce_ready s key = None"
      "rolled_back t vd env oid (pyint_of v) ev"
  | rs kind ev where "ce_ready s key = None" "map_of (ce_pending s) key = Some (rs, oid)" "is_nonneg_int v"
      "hd (be_kinds env) = Some kind" "\<forall>st \<in> set (boot_stages (kind = NATIVE) vd). stage_failure (pyint_of v) env st = None"
      "evidence_now t oid WEIGHT_READY [] = Inr ev"
      "ce_bootstrap_target t nv vd env key oid v s =
         (Inr ev, s\<lparr>ce_ready := (ce_ready s)(key \<mapsto> (oid, pyint_of v, ev))\<rparr>)"
proof -
  note outcome = that
  let ?b = "ce_bootstrap_target t nv vd env key oid v s"
  show ?thesis
  proof (cases "oid = [] \<or> \<not> is_nonneg_int v \<or> nv")
    case True
    then have "\<exists>e. ?b = (Inl e, s)" by (auto simp: ce_bootstrap_target_def)
    then show ?thesis using outcome(1) by blast
  next
    case pre: False
    show ?thesis
    proof (cases "ce_ready s key")
      case (Some p)
      obtain o' v' ev where p: "p = (o', v', ev)" by (cases p)
      show ?thesis
      proof (cases "o' = oid \<and> v' = pyint_of v")
        case True
        with pre Some p show ?thesis by (intro outcome(2) [of ev]) (simp_all add: ce_bootstrap_target_def Let_def)
      next
        case False
        with pre Some p show ?thesis by (intro outcome(1)) (auto simp: ce_bootstrap_target_def Let_def)
      qed
    next
      case none: None
      show ?thesis
      proof (cases "\<exists>rs. map_of (ce_pending s) key = Some (rs, oid) \<and> be_workers env \<noteq> 0
          \<and> length (remdups (be_kinds env)) = 1 \<and> hd (be_kinds env) \<noteq> None")
        case False
        then have "\<exists>e. ?b = (Inl e, s)" using pre none
          by (cases "map_of (ce_pending s) key"; cases "hd (be_kinds env)") (auto simp: ce_bootstrap_target_def Let_def)
        then show ?thesis using outcome(1) by blast
      next
        case True
        then obtain rs kind where g: "map_of (ce_pending s) key = Some (rs, oid)" "be_workers env \<noteq> 0"
          "length (remdups (be_kinds env)) = 1" "hd (be_kinds env) = Some kind" by blast
        let ?run = "run_stages (stage_failure (pyint_of v) env) [] (boot_stages (kind = NATIVE) vd)"
        have b: "?b = (case ?run of
            (completed, Some failure) \<Rightarrow> (boot_cleanup t oid (kind = NATIVE) env completed failure, s)
          | (completed, None) \<Rightarrow>
              (case evidence_now t oid WEIGHT_READY [] of
                 Inl e \<Rightarrow> (boot_cleanup t oid (kind = NATIVE) env completed (Validate, e), s)
               | Inr evidence \<Rightarrow> (Inr evidence, s\<lparr>ce_ready := (ce_ready s)(key \<mapsto> (oid, pyint_of v, evidence))\<rparr>)))"
          using pre none g by (simp add: ce_bootstrap_target_def Let_def)
        have fin: ?thesis if c: "?b = (boot_cleanup t oid (kind = NATIVE) env completed failure, s)"
          and r: "?run = (completed, Some failure) \<or> ?run = (completed, None)" for completed failure
        proof (cases "boot_cleanup t oid (kind = NATIVE) env completed failure")
          case (Inl e)
          with c show ?thesis by (intro outcome(1) [of e]) simp
        next
          case (Inr ev)
          from cleanup_Inr [OF Inr] have k: "kind = NATIVE" by blast
          moreover from r have "fst ?run = completed" by auto
          ultimately have "rolled_back t vd env oid (pyint_of v) ev"
            using Inr g unfolding rolled_back_def by (intro conjI exI [of _ failure]) simp_all
          with c Inr none show ?thesis by (intro outcome(3) [of ev]) simp_all
        qed
        obtain completed f where run: "?run = (completed, f)" by (cases ?run)
        show ?thesis
        proof (cases f)
          case (Some failure)
          with b run fin [of completed failure] show ?thesis by simp
        next
          case None
          show ?thesis
          proof (cases "evidence_now t oid WEIGHT_READY []")
            case (Inl e)
            with b run None fin [of completed "(Validate, e)"] show ?thesis by simp
          next
            case (Inr ev)
            have ok: "\<forall>st \<in> set (boot_stages (kind = NATIVE) vd). stage_failure (pyint_of v) env st = None"
              using run_stages_completed run None by blast
            have "is_nonneg_int v" using pre by blast
            with b run None Inr none g ok show ?thesis by (intro outcome(4) [of rs kind ev]) simp_all
          qed
        qed
      qed
    qed
  qed
qed

lemma ce_step_excl: "excl s \<Longrightarrow> excl (ce_step N e s)"
proof (cases e)
  case (CRegister k rs oid)
  assume a: "excl s"
  show ?thesis
  proof (cases rule: ce_register_cases [of N k rs oid s])
    case (1 res)
    with a CRegister show ?thesis by simp
  next
    case 2
    then show ?thesis unfolding CRegister
      by (intro excl_extend [OF a, of k rs]) (auto simp: belongs_def update_conv' split: if_splits)
  qed
next
  case (CAdd k rs v)
  assume a: "excl s"
  show ?thesis
  proof (cases rule: ce_add_cases [of N k rs v s])
    case (1 x n)
    then show ?thesis unfolding CAdd by (intro excl_shrink [OF a]) (auto simp: belongs_def)
  next
    case (2 n)
    then show ?thesis unfolding CAdd
      by (intro excl_extend [OF a, of k rs]) (auto simp: belongs_def update_conv' split: if_splits)
  qed
next
  case (CCommit k ev v)
  assume a: "excl s"
  show ?thesis
  proof (cases rule: ce_commit_cases [of N k ev v s])
    case (1 res n)
    then show ?thesis unfolding CCommit by (intro excl_shrink [OF a]) (auto simp: belongs_def)
  next
    case (2 x rs n)
    then show ?thesis unfolding CCommit
      by (intro excl_extend [OF a, of k rs]) (auto simp: belongs_def update_conv' delete_conv' split: if_splits)
  qed
next
  case (CDiscard k)
  assume a: "excl s"
  from CDiscard show ?thesis
    by (intro excl_shrink [OF a]) (auto simp: belongs_def ce_discard_pending_def delete_conv' split: if_splits)
next
  case (CRemove k)
  assume a: "excl s"
  from CRemove show ?thesis
    by (intro excl_shrink [OF a])
      (auto simp: belongs_def ce_remove_effective_def ce_discard_pending_def delete_conv'
            split: if_splits option.splits prod.splits sum.splits)
next
  case (CMark v)
  assume a: "excl s"
  have m: "map_of (map (\<lambda>(key, rs, _). (key, rs, w)) xs) k = map_option (\<lambda>(rs, _). (rs, w)) (map_of xs k)" for xs :: "(replica_key \<times> nat list \<times> int) list" and w k
    by (induction xs) auto
  from CMark show ?thesis
    by (intro excl_shrink [OF a]) (auto simp: belongs_def ce_mark_all_def m split: if_splits)
next
  case (CBootstrap t nv vd env k oid v)
  assume a: "excl s"
  show ?thesis
    by (cases rule: ce_bootstrap_cases [of t nv vd env k oid v s])
      (use a CBootstrap in \<open>auto simp: excl_def belongs_def\<close>)
qed

interpretation ce: invariant_machine excl "ce_step N" for N
  by unfold_locales (rule ce_step_excl)

lemma new_ce_excl: "excl (new_ce n)"
  by (simp add: excl_def belongs_def new_ce_def)

text \<open>
  A runtime never belongs to two replica keys: after any sequence of membership operations,
  whatever the native manager, the workers and the servers answer, a runtime listed as pending or
  effective under one key is listed under no other, so no runtime receives two weight streams.
\<close>

theorem ce_runtime_exclusive:
  assumes "belongs (fold (ce_step N) es (new_ce n)) k r"
    and "belongs (fold (ce_step N) es (new_ce n)) j r"
  shows "k = j"
  using assms ce.run_inv [OF new_ce_excl, of N es n] unfolding excl_def by blast

definition list_native :: "nat list native_ce" where
  "list_native = \<lparr>nc_replicas = (\<lambda>xs. xs), nc_add = (\<lambda>rs xs. (Inr (), xs @ rs)),
     nc_remove = (\<lambda>rs xs. (Inr (), filter (\<lambda>x. x \<notin> set rs) xs))\<rparr>"

theorem ce_runtime_exclusive_witness:
  "{k. belongs (fold (ce_step list_native) [CRegister (ReplicaKey ''T'' ''b'' 0) [3] ''op''] (new_ce [])) k 3}
     = {ReplicaKey ''T'' ''b'' 0}"
proof -
  let ?s = "fold (ce_step list_native) [CRegister (ReplicaKey ''T'' ''b'' 0) [3] ''op''] (new_ce [])"
  have b: "belongs ?s (ReplicaKey ''T'' ''b'' 0) 3"
    by (simp add: belongs_def ce_register_pending_def new_ce_def list_native_def ce_validate_membership_def shares_def)
  then have "k = ReplicaKey ''T'' ''b'' 0" if "belongs ?s k 3" for k
    using ce_runtime_exclusive [OF that] by blast
  with b show ?thesis by blast
qed

section \<open>Only a bootstrapped target becomes effective\<close>

definition passed :: "bool \<Rightarrow> boot_env \<Rightarrow> int \<Rightarrow> bool" where
  \<comment> \<open>every stage of the bootstrap completed\<close>
  "passed vd env v \<longleftrightarrow> (\<exists>kind. hd (be_kinds env) = Some kind
     \<and> (\<forall>st \<in> set (boot_stages (kind = NATIVE) vd). stage_failure v env st = None))"

definition custody :: "'n ce \<Rightarrow> replica_key \<Rightarrow> nat list \<Rightarrow> string \<Rightarrow> bool" where
  \<comment> \<open>the bootstrapped runtimes are still the ones pending, or effective\<close>
  "custody s k rs oid \<longleftrightarrow> map_of (ce_pending s) k = Some (rs, oid)
     \<or> map_of (ce_pending s) k = None \<and> (\<exists>v. map_of (ce_effective s) k = Some (rs, v))"

lemma map_of_mark:
  "map_of (map (\<lambda>(key, rs, _). (key, rs, w)) xs) k = map_option (\<lambda>(rs, _). (rs, w)) (map_of xs k)"
  by (induction xs) auto

lemma ce_step_keeps_ready:
  assumes "\<forall>t nv vd env oid v. e \<noteq> CBootstrap t nv vd env k oid v"
    and "ce_ready (ce_step N e s) k = Some x"
  shows "ce_ready s k = Some x \<and> (custody s k rs oid \<longrightarrow> custody (ce_step N e s) k rs oid)"
proof (cases e)
  case (CRegister j qs o')
  show ?thesis
    by (cases rule: ce_register_cases [of N j qs o' s]) (use assms CRegister in \<open>auto simp: custody_def\<close>)
next
  case (CAdd j qs v)
  show ?thesis
    by (cases rule: ce_add_cases [of N j qs v s]) (use assms CAdd in \<open>auto simp: custody_def\<close>)
next
  case (CCommit j ev v)
  show ?thesis
    by (cases rule: ce_commit_cases [of N j ev v s]) (use assms CCommit in \<open>auto simp: custody_def\<close>)
next
  case (CDiscard j)
  with assms show ?thesis by (auto simp: custody_def ce_discard_pending_def split: if_splits)
next
  case (CRemove j)
  with assms show ?thesis
    by (auto simp: custody_def ce_remove_effective_def ce_discard_pending_def
          split: if_splits option.splits prod.splits sum.splits)
next
  case (CMark v)
  with assms show ?thesis by (auto simp: custody_def ce_mark_all_def map_of_mark)
next
  case (CBootstrap t nv vd env j o' v)
  show ?thesis
    by (cases rule: ce_bootstrap_cases [of t nv vd env j o' v s])
      (use assms CBootstrap in \<open>auto simp: custody_def split: if_splits\<close>)
qed

lemma ce_boot_ready:
  assumes "ce_ready (snd (ce_bootstrap_target t nv vd env k o' w s)) k = Some (oid, v, ev)"
  shows "ce_ready s k = Some (oid, v, ev) \<and> snd (ce_bootstrap_target t nv vd env k o' w s) = s
    \<or> (\<exists>rs. o' = oid \<and> pyint_of w = v \<and> passed vd env v \<and> map_of (ce_pending s) k = Some (rs, oid)
         \<and> snd (ce_bootstrap_target t nv vd env k o' w s) = s\<lparr>ce_ready := (ce_ready s)(k \<mapsto> (oid, v, ev))\<rparr>)"
  by (cases rule: ce_bootstrap_cases [of t nv vd env k o' w s])
    (use assms in \<open>auto simp: passed_def\<close>)

definition bootstrapped ::
    "'n native_ce \<Rightarrow> 'n \<Rightarrow> ce_event list \<Rightarrow> replica_key \<Rightarrow> nat list \<Rightarrow> string \<Rightarrow> int \<Rightarrow> bool" where
  \<comment> \<open>one event of the run bootstrapped exactly these runtimes for this operation and version\<close>
  "bootstrapped N n es k rs oid v \<longleftrightarrow> (\<exists>before after t nv vd env w.
     es = before @ CBootstrap t nv vd env k oid w # after \<and> pyint_of w = v \<and> passed vd env v
     \<and> map_of (ce_pending (fold (ce_step N) before (new_ce n))) k = Some (rs, oid))"

lemma bootstrapped_later: "bootstrapped N n es k rs oid v \<Longrightarrow> bootstrapped N n (es @ [e]) k rs oid v"
  unfolding bootstrapped_def by force

lemma ready_provenance:
  "ce_ready (fold (ce_step N) es (new_ce n)) k = Some (oid, v, ev) \<Longrightarrow>
     \<exists>rs. bootstrapped N n es k rs oid v \<and> custody (fold (ce_step N) es (new_ce n)) k rs oid"
proof (induction es rule: rev_induct)
  case Nil
  then show ?case by (simp add: new_ce_def)
next
  case (snoc e es)
  let ?s = "fold (ce_step N) es (new_ce n)"
  from snoc.prems have r: "ce_ready (ce_step N e ?s) k = Some (oid, v, ev)" by simp
  show ?case
  proof (cases "\<exists>t nv vd env o' w. e = CBootstrap t nv vd env k o' w")
    case False
    then have f: "\<forall>t nv vd env o' w. e \<noteq> CBootstrap t nv vd env k o' w" by blast
    note step = ce_step_keeps_ready [OF f r]
    from step snoc.IH obtain rs where "bootstrapped N n es k rs oid v" "custody ?s k rs oid" by blast
    with step bootstrapped_later show ?thesis by fastforce
  next
    case True
    then obtain t nv vd env o' w where e: "e = CBootstrap t nv vd env k o' w" by blast
    from ce_boot_ready r e consider "ce_ready ?s k = Some (oid, v, ev)" "ce_step N e ?s = ?s"
      | rs where "o' = oid" "pyint_of w = v" "passed vd env v" "map_of (ce_pending ?s) k = Some (rs, oid)"
        "ce_step N e ?s = ?s\<lparr>ce_ready := (ce_ready ?s)(k \<mapsto> (oid, v, ev))\<rparr>" by fastforce
    then show ?thesis
    proof cases
      case 1
      with snoc.IH bootstrapped_later show ?thesis by fastforce
    next
      case 2
      then have "bootstrapped N n (es @ [e]) k rs oid v" unfolding bootstrapped_def e by blast
      moreover from 2 have "custody (ce_step N e ?s) k rs oid" by (simp add: custody_def)
      ultimately show ?thesis by auto
    qed
  qed
qed

text \<open>
  C28: After any run, a successful commit leaves exactly the runtimes effective, at the committed
  version, that an earlier bootstrap of the same key, operation and version brought through every
  stage (transfer, finalize, KV resume, health and, when enabled, parameter validation) while they
  were pending; the key is no longer pending.
\<close>

theorem ce_commit_requires_bootstrap:
  assumes "s = fold (ce_step N) es (new_ce n)"
    and "ce_commit_pending N k ev v s = (Inr (), s')"
  shows "\<exists>e rs. ev = Some e \<and> bootstrapped N n es k rs (e_operation_id e) (pyint_of v)
    \<and> map_of (ce_effective s') k = Some (rs, pyint_of v) \<and> map_of (ce_pending s') k = None"
proof (cases rule: ce_commit_cases [of N k ev v s])
  case (1 res m)
  with assms(2) have r: "res = Inr ()" "s' = s" by auto
  with 1 obtain e rs where e: "ev = Some e" "ce_ready s k = Some (e_operation_id e, pyint_of v, e)"
    "map_of (ce_effective s) k = Some (rs, pyint_of v)" "map_of (ce_pending s) k = None" by blast
  from ready_provenance [of N es n] e(2) assms(1) obtain qs where
    "bootstrapped N n es k qs (e_operation_id e) (pyint_of v)" "custody s k qs (e_operation_id e)" by blast
  moreover from this e have "qs = rs" by (simp add: custody_def)
  ultimately show ?thesis using e r by blast
next
  case (2 e rs m)
  from ready_provenance [of N es n] 2(4) assms(1) obtain qs where
    b: "bootstrapped N n es k qs (e_operation_id e) (pyint_of v)" "custody s k qs (e_operation_id e)" by blast
  with 2 have "qs = rs" by (simp add: custody_def)
  with b 2 assms(2) show ?thesis by auto
qed

definition demo_env :: boot_env where
  "demo_env = \<lparr>be_workers = 1, be_kinds = [Some BORROWED], be_raises = (\<lambda>_. None), be_placements = [],
     be_versions = [PInt 4], be_validation = None, be_finalize_cleanup = None, be_sleep_cleanup = None\<rparr>"

definition demo_join :: "ce_event list" where
  "demo_join = [CRegister (ReplicaKey ''T'' ''b'' 0) [3] ''op'',
     CBootstrap 9 False False demo_env (ReplicaKey ''T'' ''b'' 0) ''op'' (PInt 4)]"

theorem ce_commit_requires_bootstrap_witness:
  "\<exists>s' e. ce_commit_pending list_native (ReplicaKey ''T'' ''b'' 0) (Some e) (PInt 4)
        (fold (ce_step list_native) demo_join (new_ce [])) = (Inr (), s')
     \<and> bootstrapped list_native [] demo_join (ReplicaKey ''T'' ''b'' 0) [3] ''op'' 4
     \<and> map_of (ce_effective s') (ReplicaKey ''T'' ''b'' 0) = Some ([3], 4)"
proof -
  let ?k = "ReplicaKey ''T'' ''b'' 0"
  let ?e = "\<lparr>e_operation_id = ''op'', e_type = WEIGHT_READY, e_timestamp = 9, e_gpu_uuids = []\<rparr>"
  have ev: "evidence_now 9 ''op'' WEIGHT_READY [] = Inr ?e" by (simp add: evidence_now_plain)
  have reg: "fold (ce_step list_native) demo_join (new_ce []) =
      (new_ce [])\<lparr>ce_pending := [(?k, [3], ''op'')], ce_ready := [?k \<mapsto> (''op'', 4, ?e)]\<rparr>"
    by (simp add: demo_join_def new_ce_def ce_register_pending_def ce_validate_membership_def shares_def
          list_native_def ce_bootstrap_target_def demo_env_def boot_stages_def stage_failure_def ev Let_def)
  define s' where "s' = snd (ce_commit_pending list_native ?k (Some ?e) (PInt 4)
      (fold (ce_step list_native) demo_join (new_ce [])))"
  have c: "ce_commit_pending list_native ?k (Some ?e) (PInt 4)
      (fold (ce_step list_native) demo_join (new_ce [])) = (Inr (), s')
      \<and> map_of (ce_effective s') ?k = Some ([3], 4)"
    unfolding s'_def reg by (simp add: ce_commit_pending_def ce_add_effective_def new_ce_def list_native_def
        ce_validate_membership_def shares_def Let_def)
  from ce_commit_requires_bootstrap [OF refl conjunct1 [OF c]] c
  have "bootstrapped list_native [] demo_join ?k [3] ''op'' 4" by auto
  with c show ?thesis by blast
qed

section \<open>A failed bootstrap\<close>

text \<open>
  The outcome of a bootstrap that starts (nothing is confirmed for the key yet): an error leaves
  the records untouched; WEIGHT_READY is recorded and means that every stage passed; RELEASED leaves
  the records untouched and is only ever reported for a native target, with exactly its physical
  GPUs, after the runtime was put back to sleep and a started transfer topology was finalized.
\<close>

theorem ce_bootstrap_failure_safe:
  assumes "ce_ready s key = None"
  shows "case ce_bootstrap_target t nv vd env key oid v s of
      (Inl e, s') \<Rightarrow> s' = s
    | (Inr ev, s') \<Rightarrow> e_operation_id ev = oid \<and>
        (e_type ev = WEIGHT_READY \<and> passed vd env (pyint_of v)
            \<and> s' = s\<lparr>ce_ready := (ce_ready s)(key \<mapsto> (oid, pyint_of v, ev))\<rparr>
         \<or> e_type ev = RELEASED \<and> s' = s \<and> hd (be_kinds env) = Some NATIVE
            \<and> e_gpu_uuids ev = released_uuids env \<and> be_sleep_cleanup env = None
            \<and> (let completed = fst (run_stages (stage_failure (pyint_of v) env) [] (boot_stages True vd)) in
                 BuildTopology \<in> set completed \<longrightarrow> Finalize \<notin> set completed \<longrightarrow> be_finalize_cleanup env = None))"
proof (cases rule: ce_bootstrap_cases [of t nv vd env key oid v s])
  case (1 e)
  then show ?thesis by simp
next
  case (2 ev)
  with assms show ?thesis by simp
next
  case (3 ev)
  then obtain failure where "boot_cleanup t oid True env
      (fst (run_stages (stage_failure (pyint_of v) env) [] (boot_stages True vd))) failure = Inr ev"
    "hd (be_kinds env) = Some NATIVE" unfolding rolled_back_def by blast
  with cleanup_Inr [OF this(1)] 3(1) show ?thesis by (simp add: Let_def)
next
  case (4 rs kind ev)
  then have "e_operation_id ev = oid \<and> e_type ev = WEIGHT_READY"
    by (auto simp: evidence_now_def mk_evidence_Inr_iff)
  with 4 show ?thesis by (auto simp: passed_def)
qed

theorem ce_bootstrap_failure_safe_witness:
  "\<exists>s ev. ce_bootstrap_target 9 False False
       (demo_env\<lparr>be_kinds := [Some NATIVE], be_placements := [PStr ''u1''],
          be_raises := (\<lambda>st. if st = Transfer then Some (RuntimeError ''link'') else None)\<rparr>)
       (ReplicaKey ''T'' ''native-0'' 0) ''op'' (PInt 4) (s :: nat list ce) = (Inr ev, s)
     \<and> e_type ev = RELEASED \<and> e_gpu_uuids ev = [''u1'']"
proof -
  let ?k = "ReplicaKey ''T'' ''native-0'' 0"
  let ?env = "demo_env\<lparr>be_kinds := [Some NATIVE], be_placements := [PStr ''u1''],
          be_raises := (\<lambda>st. if st = Transfer then Some (RuntimeError ''link'') else None)\<rparr>"
  let ?s = "(new_ce ([] :: nat list))\<lparr>ce_pending := [(?k, [3], ''op'')]\<rparr>"
  have none: "ce_ready ?s ?k = None" by (simp add: new_ce_def)
  have u: "released_uuids ?env = [''u1'']" by (simp add: released_uuids_def dict_fromkeys_def demo_env_def)
  have f: "stage_failure 4 ?env Placements = None" by (simp add: stage_failure_def u) 
  have run: "run_stages (stage_failure 4 ?env) [] (boot_stages True False) =
      ([Placements, WakeWeights, BuildTopology], Some (Transfer, RuntimeError ''link''))"
    using f by (simp add: boot_stages_def) (simp add: stage_failure_def)
  have call: "\<exists>ev. ce_bootstrap_target 9 False False ?env ?k ''op'' (PInt 4) ?s = (Inr ev, ?s) \<and> e_type ev = RELEASED"
    by (simp add: ce_bootstrap_target_def new_ce_def demo_env_def Let_def)
      (use run in \<open>simp add: demo_env_def boot_cleanup_def evidence_now_def mk_evidence_def released_uuids_def dict_fromkeys_def\<close>)
  then obtain ev where c: "ce_bootstrap_target 9 False False ?env ?k ''op'' (PInt 4) ?s = (Inr ev, ?s)" "e_type ev = RELEASED"
    by blast
  from ce_bootstrap_failure_safe [OF none, where t = 9 and nv = False and vd = False and env = ?env
      and oid = "''op''" and v = "PInt 4"] c u
  have "e_gpu_uuids ev = [''u1'']" by simp
  with c show ?thesis by blast
qed

section \<open>What parameter validation guarantees\<close>

lemma validate_entries_Inr:
  "validate_entries names tot vs = Inr T \<Longrightarrow> \<exists>ds. vs = map PDict ds \<and> distinct (map entry_name ds)
     \<and> set names \<inter> entry_name ` set ds = {} \<and> (\<forall>d \<in> set ds. entry_failure [] d = None)"
proof (induction names tot vs rule: validate_entries.induct)
  case (1 names tot)
  then show ?case by simp
next
  case (2 names tot v vs)
  then obtain d where v: "v = PDict d" by (cases v) auto
  with 2(2) have ok: "entry_failure names d = None" by (auto split: option.splits)
  with v 2(2) have "validate_entries (pystr_of (pyget d ''name'') # names) (tot + pyint_of (pyget d ''numel'')) vs = Inr T"
    by simp
  from 2(1) [OF v ok this, folded entry_name_def] obtain ds where ds: "vs = map PDict ds" "distinct (map entry_name ds)"
    "set (entry_name d # names) \<inter> entry_name ` set ds = {}" "\<forall>d \<in> set ds. entry_failure [] d = None"
    by blast
  have "entry_failure [] d = None" "entry_name d \<notin> set names"
    using ok by (auto simp: entry_failure_def entry_name_def)
  with v ds show ?case by (intro exI [of _ "d # ds"]) auto
qed

definition wf_manifest :: "pydict \<Rightarrow> bool" where
  "wf_manifest m \<longleftrightarrow> distinct (map entry_name (manifest_entries m))
     \<and> (\<forall>d \<in> set (manifest_entries m). entry_failure [] d = None)"

lemma map_filter_PDict: "List.map_filter (\<lambda>v. case v of PDict d \<Rightarrow> Some d | _ \<Rightarrow> None) (map PDict ds) = ds"
  by (induction ds) (auto simp: List.map_filter_simps)

lemma ce_validate_manifest_Inr:
  "ce_validate_manifest v = Inr m \<Longrightarrow> v = PDict m \<and> wf_manifest m"
proof -
  assume a: "ce_validate_manifest v = Inr m"
  then obtain entries tot where m: "v = PDict m" "pyget m ''parameters'' = PList entries"
    and e: "validate_entries [] 0 entries = Inr tot"
    by (auto simp: ce_validate_manifest_def split: pyval.splits if_splits sum.splits)
  from validate_entries_Inr [OF e] obtain ds where "entries = map PDict ds" "distinct (map entry_name ds)"
    "\<forall>d \<in> set ds. entry_failure [] d = None" by blast
  with m show ?thesis by (simp add: wf_manifest_def manifest_entries_def map_filter_PDict)
qed

lemma lookup_entry_Some:
  "lookup_entry name m = Some d \<Longrightarrow> d \<in> set (manifest_entries m) \<and> entry_name d = name"
  unfolding lookup_entry_def by (drule map_of_SomeD) auto

lemma lookup_entry_None: "lookup_entry name m = None \<longleftrightarrow> name \<notin> entry_name ` set (manifest_entries m)"
  by (simp add: lookup_entry_def map_of_eq_None_iff image_image)

lemma py_eqs_ints:
  "list_all is_nonneg_int xs \<Longrightarrow> list_all is_nonneg_int ys \<Longrightarrow> py_eqs xs ys \<Longrightarrow> map pyint_of xs = map pyint_of ys"
proof (induction xs arbitrary: ys)
  case (Cons x xs)
  then obtain i y zs j where "x = PInt i" "ys = y # zs" "y = PInt j"
    by (cases x; cases ys; cases "hd ys") auto
  with Cons show ?case by auto
qed (cases ys; simp)

lemma entry_same:
  assumes "entry_failure [] a = None" and "entry_failure [] b = None" and "entry_name a = entry_name b"
    and "\<not> entry_differs a b"
  shows "canonical_entry a = canonical_entry b"
proof -
  have eq: "py_eq (pyget a f) (pyget b f)" if "f \<in> {''shape'', ''dtype'', ''numel'', ''sha256''}" for f
    using assms(4) that unfolding entry_differs_def by blast
  have str: "pystr_of v = pystr_of w" if "is_nonempty_str v" "is_nonempty_str w" "py_eq v w" for v w
    using that by (cases v) auto
  have int: "pyint_of v = pyint_of w" if "is_nonneg_int v" "is_nonneg_int w" "py_eq v w" for v w
    using that by (cases v; cases w) auto
  have shape: "shape_ints v = shape_ints w" if "shape_ints v \<noteq> None" "shape_ints w \<noteq> None" "py_eq v w" for v w
    using that by (cases v; cases w) (auto simp: shape_ints_def dest: py_eqs_ints split: if_splits)
  have ok: "is_nonempty_str (pyget d ''dtype'')" "is_nonempty_str (pyget d ''sha256'')"
    "shape_ints (pyget d ''shape'') \<noteq> None" "is_nonneg_int (pyget d ''numel'')" if "entry_failure [] d = None" for d
    using that by (auto simp: entry_failure_def)
  note oa = ok [OF assms(1)] and ob = ok [OF assms(2)]
  have "pystr_of (pyget a ''dtype'') = pystr_of (pyget b ''dtype'')"
    "pystr_of (pyget a ''sha256'') = pystr_of (pyget b ''sha256'')"
    "shape_ints (pyget a ''shape'') = shape_ints (pyget b ''shape'')"
    "pyint_of (pyget a ''numel'') = pyint_of (pyget b ''numel'')"
    using str [OF oa(1) ob(1) eq] str [OF oa(2) ob(2) eq] shape [OF oa(3) ob(3) eq] int [OF oa(4) ob(4) eq]
    by blast+
  with assms(3) show ?thesis by (simp add: canonical_entry_def)
qed

lemma collect_mismatches_prefix: "\<exists>ys. collect_mismatches limit acc e a names = acc @ ys"
proof (induction names arbitrary: acc)
  case (Cons n names)
  from Cons.IH [of acc] Cons.IH [of "acc @ [n]"] show ?case by (auto simp: Let_def)
qed simp

lemma collect_mismatches_empty:
  "collect_mismatches 8 [] e a names = [] \<Longrightarrow> name \<in> set names \<Longrightarrow>
     \<exists>x y. lookup_entry name e = Some x \<and> lookup_entry name a = Some y \<and> \<not> entry_differs x y"
proof (induction names)
  case (Cons n names)
  let ?bad = "(case (lookup_entry n e, lookup_entry n a) of
     (Some source, Some received) \<Rightarrow> entry_differs source received | _ \<Rightarrow> True)"
  have "\<not> ?bad"
  proof
    assume ?bad
    then have "\<exists>ys. collect_mismatches 8 [] e a (n # names) = [n] @ ys"
      using collect_mismatches_prefix [of 8 "[n]" e a names] by (simp add: Let_def)
    with Cons.prems(1) show False by auto
  qed
  with Cons show ?case by (auto split: option.splits)
qed simp

lemma no_mismatch_same:
  assumes "wf_manifest src" and "wf_manifest m" and "ce_manifest_mismatches src m = []"
  shows "map_option canonical_entry (lookup_entry name m) = map_option canonical_entry (lookup_entry name src)"
proof (cases "name \<in> entry_name ` set (manifest_entries src) \<union> entry_name ` set (manifest_entries m)")
  case True
  with assms(3) obtain x y where xy: "lookup_entry name src = Some x" "lookup_entry name m = Some y" "\<not> entry_differs x y"
    unfolding ce_manifest_mismatches_def by (auto dest!: collect_mismatches_empty)
  with lookup_entry_Some [of name] assms(1,2) have "canonical_entry x = canonical_entry y"
    by (intro entry_same) (auto simp: wf_manifest_def)
  with xy show ?thesis by simp
next
  case False
  then have "lookup_entry name src = None" "lookup_entry name m = None" by (simp_all add: lookup_entry_None)
  then show ?thesis by simp
qed

lemma one_digest: "length (remdups xs) = 1 \<Longrightarrow> x \<in> set xs \<Longrightarrow> y \<in> set xs \<Longrightarrow> x = y"
  by (metis One_nat_def length_0_conv length_Suc_conv set_ConsD set_remdups singletonD empty_iff empty_set)

text \<open>
  When parameter validation succeeds (against an expected version, with a digest function that
  has no collision), every worker of every replica delivered a complete well-formed manifest of the
  expected version, all workers hold the same parameters, and when the actor's own manifest is given
  each worker agrees with it parameter by parameter: same names, shape, dtype, size and content hash.
\<close>

theorem ce_validate_sync_sound:
  assumes "inj hash"
    and "ce_validate_sync hash ws (Some v) source ms = Inr r"
  shows "\<exists>ds. ms = map PDict ds \<and> length ds = sum_list ws \<and> 0 \<notin> set ws
    \<and> (\<forall>d \<in> set ds. wf_manifest d \<and> py_eq (pyget d ''global_steps'') (PInt v))
    \<and> (\<forall>d \<in> set ds. \<forall>d' \<in> set ds.
         mset (map canonical_entry (manifest_entries d)) = mset (map canonical_entry (manifest_entries d')))
    \<and> (case source of None \<Rightarrow> True | Some sv \<Rightarrow> (\<exists>src. sv = PDict src \<and> wf_manifest src
         \<and> py_eq (pyget src ''global_steps'') (PInt v)
         \<and> (\<forall>d \<in> set ds. \<forall>name. map_option canonical_entry (lookup_entry name d)
              = map_option canonical_entry (lookup_entry name src))))"
proof -
  obtain ds where t: "traverse ce_validate_manifest ms = Inr ds"
    and len: "length ms = sum_list ws" "0 \<notin> set ws"
    using assms(2) by (auto simp: ce_validate_sync_def split: if_splits sum.splits)
  from t have rel: "list_all2 (\<lambda>x y. ce_validate_manifest x = Inr y) ms ds" by (simp add: traverse_Inr_iff)
  then have dicts: "ms = map PDict ds \<and> (\<forall>d \<in> set ds. wf_manifest d)"
    by (induction rule: list_all2_induct) (auto dest: ce_validate_manifest_Inr)
  have vers: "\<forall>d \<in> set ds. py_eq (pyget d ''global_steps'') (PInt v)"
    using assms(2) t by (auto simp: ce_validate_sync_def split: if_splits)
  have one: "length (remdups (map (ce_manifest_digest hash) ds)) = 1"
    using assms(2) t by (auto simp: ce_validate_sync_def Let_def split: if_splits option.splits sum.splits)
  have same: "mset (map canonical_entry (manifest_entries d)) = mset (map canonical_entry (manifest_entries d'))"
    if "d \<in> set ds" "d' \<in> set ds" for d d'
  proof -
    have "ce_manifest_digest hash d = ce_manifest_digest hash d'"
      using one_digest [OF one] that by auto
    then have "sort_key fst (map canonical_entry (manifest_entries d)) = sort_key fst (map canonical_entry (manifest_entries d'))"
      unfolding ce_manifest_digest_def by (rule injD [OF assms(1)])
    then have "mset (sort_key fst (map canonical_entry (manifest_entries d)))
        = mset (sort_key fst (map canonical_entry (manifest_entries d')))" by simp
    then show ?thesis by (simp only: mset_sort)
  qed
  have src: "\<exists>src. sv = PDict src \<and> wf_manifest src \<and> py_eq (pyget src ''global_steps'') (PInt v)
      \<and> (\<forall>d \<in> set ds. \<forall>name. map_option canonical_entry (lookup_entry name d)
              = map_option canonical_entry (lookup_entry name src))" if "source = Some sv" for sv
  proof -
    from that assms(2) t obtain src where s: "ce_validate_manifest sv = Inr src"
      "py_eq (pyget src ''global_steps'') (PInt v)" "\<forall>d \<in> set ds. ce_manifest_mismatches src d = []"
      by (auto simp: ce_validate_sync_def Let_def split: if_splits sum.splits)
    from ce_validate_manifest_Inr [OF s(1)] s dicts show ?thesis
      by (intro exI [of _ src]) (auto intro: no_mismatch_same)
  qed
  have final: "case source of None \<Rightarrow> True | Some sv \<Rightarrow> (\<exists>src. sv = PDict src \<and> wf_manifest src
         \<and> py_eq (pyget src ''global_steps'') (PInt v)
         \<and> (\<forall>d \<in> set ds. \<forall>name. map_option canonical_entry (lookup_entry name d)
              = map_option canonical_entry (lookup_entry name src)))"
  proof (cases source)
    case None
    then show ?thesis by simp
  next
    case (Some sv)
    show ?thesis unfolding Some option.case by (rule src [OF Some])
  qed
  from dicts len have "length ds = sum_list ws" by auto
  with dicts len vers same final show ?thesis by blast
qed

definition demo_manifest :: pyval where
  "demo_manifest = PDict [(''complete'', PBool True), (''global_steps'', PInt 4), (''parameter_count'', PInt 1),
     (''total_numel'', PInt 6), (''parameters'', PList [PDict [(''name'', PStr ''w''),
       (''shape'', PList [PInt 2, PInt 3]), (''dtype'', PStr ''f''), (''numel'', PInt 6), (''sha256'', PStr ''ab'')]])]"

theorem ce_validate_sync_sound_witness:
  "\<exists>hash :: param list \<Rightarrow> string. inj hash \<and>
     (\<exists>r. ce_validate_sync hash [1, 1] (Some 4) (Some demo_manifest) [demo_manifest, demo_manifest] = Inr r)
     \<and> (\<exists>ds. [demo_manifest, demo_manifest] = map PDict ds \<and> length ds = 2 \<and> (\<forall>d \<in> set ds. wf_manifest d))"
proof -
  define hash :: "param list \<Rightarrow> string" where "hash = (\<lambda>xs. replicate (to_nat xs) (CHR ''a''))"
  have inj: "inj hash" unfolding hash_def by (rule injI) (metis inj_to_nat injD length_replicate)
  have entry: "entry_failure [] [(''name'', PStr ''w''), (''shape'', PList [PInt 2, PInt 3]),
      (''dtype'', PStr ''f''), (''numel'', PInt 6), (''sha256'', PStr ''ab'')] = None"
    by (simp add: entry_failure_def pyget_def pyget_default_def shape_ints_def)
  have valid: "\<exists>m. ce_validate_manifest demo_manifest = Inr m \<and> demo_manifest = PDict m \<and> ce_manifest_mismatches m m = []
      \<and> py_eq (pyget m ''global_steps'') (PInt 4)"
    unfolding demo_manifest_def using entry
    by (simp add: ce_validate_manifest_def pyget_def pyget_default_def ce_manifest_mismatches_def manifest_entries_def
        List.map_filter_simps entry_name_def lookup_entry_def entry_differs_def)
  then obtain m where m: "ce_validate_manifest demo_manifest = Inr m" "ce_manifest_mismatches m m = []"
    "py_eq (pyget m ''global_steps'') (PInt 4)" by blast
  then have ex: "\<exists>r. ce_validate_sync hash [1, 1] (Some 4) (Some demo_manifest) [demo_manifest, demo_manifest] = Inr r"
    by (simp add: ce_validate_sync_def Let_def)
  then obtain r where r: "ce_validate_sync hash [1, 1] (Some 4) (Some demo_manifest) [demo_manifest, demo_manifest] = Inr r"
    by blast
  from ce_validate_sync_sound [OF inj r]
  have "\<exists>ds. [demo_manifest, demo_manifest] = map PDict ds \<and> length ds = 2 \<and> (\<forall>d \<in> set ds. wf_manifest d)"
  proof (rule ex_forward, elim conjE, intro conjI)
    fix ds :: "pydict list"
    assume "length ds = sum_list [1, 1]"
    then show "length ds = 2" by simp
  qed blast+
  with inj ex show ?thesis by (intro exI [of _ hash] conjI)
qed

section \<open>Retrying a lost reply\<close>

lemma ce_commit_replay:
  assumes "ce_commit_pending N k ev v s = (Inr (), s')"
  shows "ce_commit_pending N k ev v s' = (Inr (), s')"
proof (cases rule: ce_commit_cases [of N k ev v s])
  case (1 res n)
  with assms have "s' = s" by auto
  with assms show ?thesis by simp
next
  case (2 e rs n)
  then have s': "s' = s\<lparr>ce_native := n, ce_effective := AList.update k (rs, pyint_of v) (ce_effective s),
         ce_pending := AList.delete k (ce_pending s)\<rparr>" using assms by simp
  from 2 show ?thesis by (simp add: s' ce_commit_pending_def Let_def)
qed

lemma ce_bootstrap_replay:
  assumes "ce_bootstrap_target t nv vd env k oid v s = (Inr ev, s')"
  shows "ce_bootstrap_target t nv vd env k oid v s' = (Inr ev, s')"
proof (cases rule: ce_bootstrap_cases [of t nv vd env k oid v s])
  case (4 rs kind e)
  with assms have s': "s' = s\<lparr>ce_ready := (ce_ready s)(k \<mapsto> (oid, pyint_of v, ev))\<rparr>" "e = ev" by auto
  have "oid \<noteq> [] \<and> \<not> nv"
    using 4 assms by (auto simp: ce_bootstrap_target_def split: if_splits)
  with 4(3) show ?thesis by (simp add: s' ce_bootstrap_target_def Let_def)
qed (use assms in auto)

interpretation ce_commit: retryable "\<lambda>(k, ev, v). ce_commit_pending N k ev v" for N :: "'n native_ce"
  by unfold_locales (auto dest: ce_commit_replay)

interpretation ce_bootstrap: retryable "\<lambda>(t, nv, vd, env, k, oid, v). ce_bootstrap_target t nv vd env k oid v"
  by unfold_locales (auto dest: ce_bootstrap_replay)

text \<open>
  A commit that succeeded can be repeated any number of times, for instance after a lost reply:
  every repetition leaves the membership of the first one.
\<close>

theorem ce_commit_repeatable:
  assumes "ce_commit_pending N k ev v s = (Inr (), s')"
  shows "((snd \<circ> ce_commit_pending N k ev v) ^^ n) s' = s'"
  using ce_commit.call_many [of N "(k, ev, v)" s "()" s' n] assms by simp

theorem ce_commit_repeatable_witness:
  "\<exists>e s'. fst (ce_commit_pending list_native (ReplicaKey ''T'' ''b'' 0) (Some e) (PInt 4)
        (fold (ce_step list_native) demo_join (new_ce []))) = Inr ()
     \<and> ce_native s' = [3]
     \<and> ((snd \<circ> ce_commit_pending list_native (ReplicaKey ''T'' ''b'' 0) (Some e) (PInt 4)) ^^ 3) s' = s'"
proof -
  let ?k = "ReplicaKey ''T'' ''b'' 0"
  let ?e = "\<lparr>e_operation_id = ''op'', e_type = WEIGHT_READY, e_timestamp = 9, e_gpu_uuids = []\<rparr>"
  have ev: "evidence_now 9 ''op'' WEIGHT_READY [] = Inr ?e" by (simp add: evidence_now_plain)
  have reg: "fold (ce_step list_native) demo_join (new_ce []) =
      (new_ce [])\<lparr>ce_pending := [(?k, [3], ''op'')], ce_ready := [?k \<mapsto> (''op'', 4, ?e)]\<rparr>"
    by (simp add: demo_join_def new_ce_def ce_register_pending_def ce_validate_membership_def shares_def
          list_native_def ce_bootstrap_target_def demo_env_def boot_stages_def stage_failure_def ev Let_def)
  have "\<exists>s'. ce_commit_pending list_native ?k (Some ?e) (PInt 4)
      (fold (ce_step list_native) demo_join (new_ce [])) = (Inr (), s') \<and> ce_native s' = [3]"
    unfolding reg by (simp add: ce_commit_pending_def ce_add_effective_def new_ce_def list_native_def
        ce_validate_membership_def shares_def Let_def)
  then obtain s' where c: "ce_commit_pending list_native ?k (Some ?e) (PInt 4)
      (fold (ce_step list_native) demo_join (new_ce [])) = (Inr (), s')" "ce_native s' = [3]" by blast
  from ce_commit_repeatable [OF c(1), of 3] c show ?thesis by (metis fst_conv)
qed

end
