(* ===== verification/Http_Server.thy ===== *)
theory Http_Server
  imports Interfaces Contracts
begin

text \<open>
  Model of \<open>rollout/http_server.py\<close>: the sleep and wake protocol of one inference server. The
  inference engine is a parameter: a state with the operations the code awaits. The stage ledger
  and the two halves of the admission gate (\<open>_submission_paused\<close>, \<open>_resume_event\<close>) are the state.
\<close>

section \<open>Engine and state\<close>

record 'e engine_ops =
  en_sleeping :: "'e \<Rightarrow> bool res \<times> 'e"
  en_sleep :: "nat \<Rightarrow> string option \<Rightarrow> 'e \<Rightarrow> unit res \<times> 'e"
  en_has_mode :: bool
  en_wake :: "string list option \<Rightarrow> 'e \<Rightarrow> unit res \<times> 'e"
  en_drain :: "'e \<Rightarrow> unit res \<times> 'e"
  en_reset :: "'e \<Rightarrow> unit res \<times> 'e"
  en_health :: "'e \<Rightarrow> unit res \<times> 'e"
  en_resume_kv :: "'e \<Rightarrow> unit res \<times> 'e"
  en_shutdown :: "'e \<Rightarrow> unit res \<times> 'e"

record hs_config =
  cf_nnodes :: int
  cf_node_rank :: int
  cf_sleep_mode :: bool
  cf_free_cache :: bool
  cf_sleep_level :: nat
  cf_resource :: string

datatype stage = Awake | Level1 | Level2 | Weights

record 'e http =
  hs_engine :: "'e option"
  hs_stage :: stage
  hs_paused :: bool
  hs_resume :: bool
  hs_steps :: pyval
  hs_port :: "int option"
  hs_task_running :: bool

record hs_receipt =
  hr_steps :: pyval
  hr_sleep_level :: "nat option"
  hr_sleeping :: bool
  hr_fully_awake :: "bool option"

definition gate_open :: "'e http \<Rightarrow> bool" where
  "gate_open s \<longleftrightarrow> \<not> hs_paused s \<and> hs_resume s"

definition hs_close :: "'e http \<Rightarrow> 'e http" where
  "hs_close s = s\<lparr>hs_paused := True, hs_resume := False\<rparr>"

definition with_engine :: "('e \<Rightarrow> 'a res \<times> 'e) \<Rightarrow> ('a \<Rightarrow> 'e http \<Rightarrow> 'r res \<times> 'e http) \<Rightarrow> 'e http \<Rightarrow> 'r res \<times> 'e http" where
  "with_engine call k s =
     (case hs_engine s of
        None \<Rightarrow> (Inl (RuntimeError ''vLLM engine is not initialized''), s)
      | Some e \<Rightarrow>
          (case call e of
             (Inl x, e') \<Rightarrow> (Inl x, s\<lparr>hs_engine := Some e'\<rparr>)
           | (Inr v, e') \<Rightarrow> k v (s\<lparr>hs_engine := Some e'\<rparr>)))"

section \<open>The admission barrier\<close>

text \<open>
  \<open>_wait_admission_barrier\<close>: polls the number of requests between the gate and the engine until it
  is zero or the deadline has passed. \<open>admitting\<close> and \<open>clock\<close> are what the \<open>i\<close>-th poll reads; fuel
  bounds the polls and \<open>None\<close> means that the loop is still waiting.
\<close>

fun hs_barrier :: "nat \<Rightarrow> rat \<Rightarrow> (nat \<Rightarrow> nat) \<Rightarrow> (nat \<Rightarrow> rat) \<Rightarrow> nat \<Rightarrow> unit res option" where
  "hs_barrier 0 deadline admitting clock i = None"
| "hs_barrier (Suc fuel) deadline admitting clock i =
     (if admitting i = 0 then Some (Inr ())
      else if deadline \<le> clock i then Some (Inl (RuntimeError ''local admission barrier timed out''))
      else hs_barrier fuel deadline admitting clock (Suc i))"

section \<open>Health and shutdown\<close>

definition required_apis :: "string list" where
  "required_apis = [''check_health'', ''is_sleeping'', ''sleep'', ''wake_up'',
     ''wait_for_requests_to_drain'', ''reset_prefix_cache'']"

text \<open>\<open>apis\<close>: the callable attributes of the engine; \<open>parameters\<close>: those of its \<open>sleep\<close>, \<open>None\<close> when
  they cannot be inspected.\<close>

definition hs_capabilities :: "string set \<Rightarrow> string list option \<Rightarrow> exn option" where
  "hs_capabilities apis parameters =
     (if \<not> list_all (\<lambda>name. name \<in> apis) required_apis
      then Some (RuntimeError ''vLLM engine lacks MultiTask-required API(s)'')
      else (case parameters of
              None \<Rightarrow> Some (RuntimeError ''cannot inspect vLLM engine.sleep signature'')
            | Some ps \<Rightarrow> if ''level'' \<notin> set ps
                then Some (RuntimeError ''MultiTask requires vLLM engine.sleep(level=...)'') else None))"

definition hs_health ::
    "hs_config \<Rightarrow> 'e engine_ops \<Rightarrow> string set \<Rightarrow> string list option \<Rightarrow> 'e http \<Rightarrow> (int \<times> pyval) res \<times> 'e http" where
  \<comment> \<open>the port and the parameter version of the report\<close>
  "hs_health cfg E apis parameters s =
     (if cf_nnodes cfg \<noteq> 1 \<or> cf_node_rank cfg \<noteq> 0
      then (Inl (NotImplementedError ''first release runtime health supports one-node servers only''), s)
      else if hs_engine s = None then (Inl (RuntimeError ''vLLM engine is not initialized''), s)
      else if \<not> hs_task_running s then (Inl (RuntimeError ''uvicorn server task is not running''), s)
      else
        (case hs_port s of
           None \<Rightarrow> (Inl (RuntimeError ''HTTP server port is not initialized''), s)
         | Some port \<Rightarrow>
             (case hs_capabilities apis parameters of
                Some e \<Rightarrow> (Inl e, s)
              | None \<Rightarrow> with_engine (en_health E) (\<lambda>_ s. (Inr (port, hs_steps s), s)) s)))"

definition hs_shutdown :: "hs_config \<Rightarrow> 'e engine_ops \<Rightarrow> unit res \<Rightarrow> 'e http \<Rightarrow> unit res \<times> 'e http" where
  \<comment> \<open>the argument is the outcome of the barrier\<close>
  "hs_shutdown cfg E barrier s0 =
     (if cf_nnodes cfg \<noteq> 1 \<or> cf_node_rank cfg \<noteq> 0
      then (Inl (NotImplementedError ''first release runtime shutdown supports one-node servers only''), s0)
      else
        (let s = hs_close s0 in
         case barrier of
           Inl e \<Rightarrow> (Inl e, s)
         | Inr _ \<Rightarrow>
             if hs_engine s = None then (Inr (), s\<lparr>hs_task_running := False, hs_port := None\<rparr>)
             else
               with_engine (en_drain E) (\<lambda>_ s.
                 with_engine (en_shutdown E)
                   (\<lambda>_ s. (Inr (), s\<lparr>hs_engine := None, hs_port := None\<rparr>))
                   (s\<lparr>hs_task_running := False\<rparr>)) s))"

section \<open>Sleep\<close>

definition hs_require_engine :: "hs_config \<Rightarrow> 'e http \<Rightarrow> exn option" where
  "hs_require_engine cfg s = first_failure
     [(cf_nnodes cfg \<noteq> 1 \<or> cf_node_rank cfg \<noteq> 0,
       NotImplementedError ''first release native sleep/wake supports one-node servers only''),
      (\<not> cf_sleep_mode cfg, RuntimeError ''native sleep/wake requires rollout.enable_sleep_mode=true''),
      (\<not> cf_free_cache cfg, RuntimeError ''native sleep/wake requires rollout.free_cache_engine=true''),
      (hs_engine s = None, RuntimeError ''vLLM engine is not initialized'')]"

definition sleep_receipt :: "nat \<Rightarrow> 'e http \<Rightarrow> hs_receipt" where
  "sleep_receipt level s =
     \<lparr>hr_steps = hs_steps s, hr_sleep_level = Some level, hr_sleeping = True, hr_fully_awake = None\<rparr>"

definition wake_receipt :: "bool \<Rightarrow> 'e http \<Rightarrow> hs_receipt" where
  "wake_receipt awake s =
     \<lparr>hr_steps = hs_steps s, hr_sleep_level = None, hr_sleeping = (\<not> awake), hr_fully_awake = Some awake\<rparr>"

fun level_stage :: "nat \<Rightarrow> stage" where
  "level_stage n = (if n = 1 then Level1 else Level2)"

definition hs_enter_sleep ::
    "hs_config \<Rightarrow> 'e engine_ops \<Rightarrow> unit res \<Rightarrow> 'e http \<Rightarrow> hs_receipt res \<times> 'e http" where
  "hs_enter_sleep cfg E barrier s0 =
     (case (if cf_resource cfg = ''GPU'' then Some 2 else if cf_resource cfg = ''NPU'' then Some 1 else None) of
        None \<Rightarrow> (Inl (NotImplementedError ''native sleep is unsupported for Ray resource''), s0)
      | Some expected \<Rightarrow>
          if cf_sleep_level cfg \<noteq> expected
          then (Inl (NotImplementedError ''DONATE requires another vLLM sleep level''), s0)
          else
            (let s = hs_close s0; level = cf_sleep_level cfg in
             case barrier of
               Inl e \<Rightarrow> (Inl e, s)
             | Inr _ \<Rightarrow>
                 with_engine (en_drain E) (\<lambda>_.
                   with_engine (en_sleep E level (if en_has_mode E then Some ''abort'' else None)) (\<lambda>_.
                     with_engine (en_sleeping E) (\<lambda>asleep s.
                       if \<not> asleep then (Inl (RuntimeError ''vLLM engine did not enter sleep''), s)
                       else (Inr (sleep_receipt level s), s\<lparr>hs_stage := level_stage level\<rparr>)))) s))"

definition hs_sleep ::
    "hs_config \<Rightarrow> 'e engine_ops \<Rightarrow> unit res \<Rightarrow> 'e http \<Rightarrow> hs_receipt res \<times> 'e http" where
  "hs_sleep cfg E barrier s =
     (case hs_require_engine cfg s of
        Some e \<Rightarrow> (Inl e, s)
      | None \<Rightarrow>
          if hs_stage s \<in> {Level1, Level2}
          then with_engine (en_sleeping E) (\<lambda>asleep s.
                 if \<not> asleep then (Inl (RuntimeError ''sleep ledger disagrees with vLLM engine''), s)
                 else (Inr (sleep_receipt (if hs_stage s = Level1 then 1 else 2) s), hs_close s)) s
          else if hs_stage s = Weights
          then with_engine (en_sleeping E) (\<lambda>asleep s.
                 if \<not> asleep then hs_enter_sleep cfg E barrier s
                 else with_engine (en_resume_kv E) (\<lambda>_.
                        with_engine (en_sleeping E) (\<lambda>asleep s.
                          if asleep
                          then (Inl (RuntimeError ''RESTORE rollback could not restore KV before sleep''), s)
                          else hs_enter_sleep cfg E barrier s)) s) (hs_close s)
          else hs_enter_sleep cfg E barrier s)"

section \<open>Wake\<close>

definition hs_wake_end ::
    "'e engine_ops \<Rightarrow> string list option \<Rightarrow> bool \<Rightarrow> 'e http \<Rightarrow> hs_receipt res \<times> 'e http" where
  "hs_wake_end E tags kv_already_reset =
     with_engine (en_sleeping E) (\<lambda>asleep s.
       if tags = Some [''weights''] \<and> \<not> asleep
       then (Inl (RuntimeError ''weights-only wake unexpectedly made the vLLM engine fully awake''), s)
       else if asleep
       then (let s' = (if tags = Some [''weights''] then s\<lparr>hs_stage := Weights\<rparr> else s) in
             (Inr (wake_receipt False s'), s'))
       else
         (let commit = with_engine (en_health E) (\<lambda>_ s.
                (Inr (wake_receipt True s), s\<lparr>hs_stage := Awake, hs_paused := False, hs_resume := True\<rparr>)) in
          if kv_already_reset then commit s else with_engine (en_reset E) (\<lambda>_. commit) s))"

definition hs_wake ::
    "hs_config \<Rightarrow> 'e engine_ops \<Rightarrow> string list option \<Rightarrow> 'e http \<Rightarrow> hs_receipt res \<times> 'e http" where
  "hs_wake cfg E tags s =
     (case hs_require_engine cfg s of
        Some e \<Rightarrow> (Inl e, s)
      | None \<Rightarrow>
          (let stage = hs_stage s in
           with_engine (en_sleeping E) (\<lambda>before s.
             if tags = Some [''weights''] \<and> stage = Weights
             then (if \<not> before then (Inl (RuntimeError ''weights-wake ledger disagrees with vLLM engine''), s)
                   else (Inr (wake_receipt False s), s))
             else if tags = None \<and> stage \<in> {Level1, Level2}
             then (Inl (RuntimeError ''full native wake requires weights-only RESTORE preparation''), s)
             else if tags = None \<and> stage = Weights \<and> before
             then (Inl (RuntimeError ''full native wake requires CE KV restore before admission commit''), s)
             else if \<not> before
             then (if tags \<noteq> None
                   then (Inl (RuntimeError ''tagged native wake requires a sleeping vLLM engine''), s)
                   else if stage \<notin> {Weights, Awake}
                   then (Inl (RuntimeError ''native wake ledger disagrees with vLLM engine''), s)
                   else hs_wake_end E tags (stage = Weights) s)
             else with_engine (en_wake E tags) (\<lambda>_. hs_wake_end E tags False) s) (hs_close s)))"

section \<open>The server as a machine\<close>

datatype hs_event =
    HSleep "unit res"
  | HWake "string list option"
  | HShutdown "unit res"
  | HHealth "string set" "string list option"

fun hs_step :: "hs_config \<Rightarrow> 'e engine_ops \<Rightarrow> hs_event \<Rightarrow> 'e http \<Rightarrow> 'e http" where
  "hs_step cfg E (HSleep b) s = snd (hs_sleep cfg E b s)"
| "hs_step cfg E (HWake tags) s = snd (hs_wake cfg E tags s)"
| "hs_step cfg E (HShutdown b) s = snd (hs_shutdown cfg E b s)"
| "hs_step cfg E (HHealth apis ps) s = snd (hs_health cfg E apis ps s)"

definition new_http :: "'e \<Rightarrow> int \<Rightarrow> 'e http" where
  "new_http e port = \<lparr>hs_engine = Some e, hs_stage = Awake, hs_paused = False, hs_resume = True,
     hs_steps = PNone, hs_port = Some port, hs_task_running = True\<rparr>"

text \<open>
  What the protocol relies on: \<open>is_sleeping\<close> reports whether the engine sleeps, and the query, the
  cache reset and the health check do not put it to sleep or wake it. Nothing is assumed about what
  sleeping, waking, draining or resuming do, or which calls fail.
\<close>

definition engine_ok :: "'e engine_ops \<Rightarrow> ('e \<Rightarrow> bool) \<Rightarrow> bool" where
  "engine_ok E asleep \<longleftrightarrow> (\<forall>e. asleep (snd (en_sleeping E e)) = asleep e
     \<and> (\<forall>b. fst (en_sleeping E e) = Inr b \<longrightarrow> b = asleep e)
     \<and> asleep (snd (en_reset E e)) = asleep e \<and> asleep (snd (en_health E e)) = asleep e)"

definition admission_inv :: "('e \<Rightarrow> bool) \<Rightarrow> 'e http \<Rightarrow> bool" where
  "admission_inv asleep s \<longleftrightarrow>
     (gate_open s \<longrightarrow> hs_stage s = Awake \<and> (\<forall>e. hs_engine s = Some e \<longrightarrow> \<not> asleep e))"

lemma gate_closed [simp]: "\<not> gate_open (hs_close s)" "hs_stage (hs_close s) = hs_stage s"
  "hs_engine (hs_close s) = hs_engine s"
  by (simp_all add: hs_close_def gate_open_def)

lemma gate_open_update [simp]: "gate_open (s\<lparr>hs_engine := x\<rparr>) = gate_open s"
  "gate_open (s\<lparr>hs_stage := st\<rparr>) = gate_open s" "gate_open (s\<lparr>hs_task_running := b\<rparr>) = gate_open s"
  "gate_open (s\<lparr>hs_port := p\<rparr>) = gate_open s"
  by (simp_all add: gate_open_def)

lemma admission_inv_closed: "\<not> gate_open s \<Longrightarrow> admission_inv asleep s"
  by (simp add: admission_inv_def)

text \<open>An engine call never opens the gate by itself.\<close>

definition shut :: "'e http \<Rightarrow> bool" where
  "shut s \<longleftrightarrow> hs_paused s \<or> \<not> hs_resume s"

lemma gate_open_shut: "gate_open s \<longleftrightarrow> \<not> shut s"
  by (auto simp: gate_open_def shut_def)

lemma shut_update [simp]: "shut (hs_close s)" "shut (s\<lparr>hs_engine := x\<rparr>) = shut s" "shut (s\<lparr>hs_stage := st\<rparr>) = shut s"
  "shut (s\<lparr>hs_task_running := b\<rparr>) = shut s" "shut (s\<lparr>hs_port := p\<rparr>) = shut s"
  by (simp_all add: shut_def hs_close_def)

lemma shut_with_engine:
  assumes "shut s" and "\<And>v s'. shut s' \<Longrightarrow> hs_stage s' = hs_stage s \<Longrightarrow> shut (snd (k v s'))"
  shows "shut (snd (with_engine call k s))"
  using assms by (simp add: with_engine_def split: option.split prod.split sum.split)

lemma enter_sleep_gate:
  "snd (hs_enter_sleep cfg E barrier s) = s \<or> shut (snd (hs_enter_sleep cfg E barrier s))"
proof (cases "cf_resource cfg = ''GPU'' \<and> cf_sleep_level cfg = 2 \<or> cf_resource cfg = ''NPU'' \<and> cf_sleep_level cfg = 1")
  case False
  then have "snd (hs_enter_sleep cfg E barrier s) = s" by (auto simp: hs_enter_sleep_def)
  then show ?thesis ..
next
  case True
  have "shut (snd (with_engine (en_drain E) (\<lambda>_.
      with_engine (en_sleep E level (if en_has_mode E then Some ''abort'' else None)) (\<lambda>_.
        with_engine (en_sleeping E) (\<lambda>asleep s.
          if \<not> asleep then (Inl (RuntimeError ''vLLM engine did not enter sleep''), s)
          else (Inr (sleep_receipt level s), s\<lparr>hs_stage := level_stage level\<rparr>)))) (hs_close s)))" for level
    by (intro shut_with_engine) simp_all
  with True have "shut (snd (hs_enter_sleep cfg E barrier s))"
    by (cases barrier) (auto simp: hs_enter_sleep_def Let_def)
  then show ?thesis ..
qed

lemma enter_sleep_shut: "shut s \<Longrightarrow> shut (snd (hs_enter_sleep cfg E barrier s))"
  using enter_sleep_gate [of cfg E barrier s] by (elim disjE) simp_all

lemma sleep_inv:
  assumes inv: "admission_inv asleep s"
  shows "admission_inv asleep (snd (hs_sleep cfg E barrier s))"
proof (cases "hs_require_engine cfg s")
  case (Some e)
  with inv show ?thesis by (simp add: hs_sleep_def)
next
  case req: None
  show ?thesis
  proof (cases "hs_stage s = Awake")
    case True
    with req have "hs_sleep cfg E barrier s = hs_enter_sleep cfg E barrier s" by (simp add: hs_sleep_def)
    with enter_sleep_gate [of cfg E barrier s] inv show ?thesis by (auto simp: admission_inv_def gate_open_shut)
  next
    case False
    with inv have c: "shut s" by (simp add: admission_inv_def gate_open_shut)
    have "shut (snd (hs_sleep cfg E barrier s))"
    proof (cases "hs_stage s = Weights")
      case True
      have "shut (snd (with_engine (en_resume_kv E) (\<lambda>_. with_engine (en_sleeping E) (\<lambda>asleep s.
          if asleep then (Inl (RuntimeError ''RESTORE rollback could not restore KV before sleep''), s)
          else hs_enter_sleep cfg E barrier s)) s'))" if "shut s'" for s' :: "'a http"
        by (intro shut_with_engine that) (simp_all add: enter_sleep_shut)
      with True show ?thesis unfolding hs_sleep_def req
        by (simp, intro shut_with_engine) (simp_all add: enter_sleep_shut)
    next
      case w: False
      with False have "hs_stage s \<in> {Level1, Level2}" by (cases "hs_stage s") auto
      then show ?thesis unfolding hs_sleep_def req
        by (simp, intro shut_with_engine c) simp
    qed
    then show ?thesis by (simp add: admission_inv_def gate_open_shut)
  qed
qed

text \<open>The only opening of the gate: the end of a wake that found the engine awake and healthy.\<close>

lemma wake_end_gate:
  assumes "\<not> gate_open s" and "gate_open (snd (hs_wake_end E tags kv s))"
  shows "tags \<noteq> Some [''weights''] \<and> hs_stage (snd (hs_wake_end E tags kv s)) = Awake
    \<and> (\<exists>r. fst (hs_wake_end E tags kv s) = Inr r \<and> hr_fully_awake r = Some True)
    \<and> (\<exists>e e' e''. hs_engine s = Some e \<and> en_sleeping E e = (Inr False, e')
         \<and> e'' \<in> {e', snd (en_reset E e')} \<and> hs_engine (snd (hs_wake_end E tags kv s)) = Some (snd (en_health E e'')))"
proof (cases "hs_engine s")
  case None
  with assms show ?thesis by (simp add: hs_wake_end_def with_engine_def)
next
  case (Some e)
  obtain r e' where q: "en_sleeping E e = (r, e')" by (cases "en_sleeping E e")
  show ?thesis
  proof (cases r)
    case (Inl x)
    with assms Some q show ?thesis by (simp add: hs_wake_end_def with_engine_def)
  next
    case (Inr asleep)
    with assms Some q show ?thesis
      by (auto simp: hs_wake_end_def with_engine_def Let_def wake_receipt_def
          split: if_splits prod.splits sum.splits option.splits)
  qed
qed

lemma wake_gate:
  assumes "hs_require_engine cfg s = None" and "gate_open (snd (hs_wake cfg E tags s))"
  shows "\<exists>s1 kv. \<not> gate_open s1 \<and> hs_wake cfg E tags s = hs_wake_end E tags kv s1
    \<and> (tags = None \<longrightarrow> hs_stage s \<in> {Weights, Awake})"
proof -
  obtain e where e: "hs_engine s = Some e" using assms(1) by (auto simp: hs_require_engine_def)
  obtain r e' where q: "en_sleeping E e = (r, e')" by (cases "en_sleeping E e")
  show ?thesis
  proof (cases r)
    case (Inl x)
    with assms e q show ?thesis by (simp add: hs_wake_def with_engine_def Let_def)
  next
    case (Inr before)
    let ?s1 = "(hs_close s)\<lparr>hs_engine := Some e'\<rparr>"
    let ?w = "hs_wake cfg E tags s"
    obtain w e2 where w: "en_wake E tags e' = (w, e2)" by (cases "en_wake E tags e'")
    have "?w = hs_wake_end E tags (hs_stage s = Weights) ?s1 \<and> (tags = None \<longrightarrow> hs_stage s \<in> {Weights, Awake})
        \<or> ?w = hs_wake_end E tags False (?s1\<lparr>hs_engine := Some e2\<rparr>) \<and> (tags = None \<longrightarrow> hs_stage s \<in> {Weights, Awake})
        \<or> \<not> gate_open (snd ?w)"
      using assms(1) e q Inr w
      by (cases w; cases before; cases "hs_stage s") (auto simp: hs_wake_def with_engine_def Let_def)
    moreover have "\<not> gate_open ?s1" "\<not> gate_open (?s1\<lparr>hs_engine := Some e2\<rparr>)" by simp_all
    ultimately show ?thesis using assms(2) by blast
  qed
qed

lemma wake_inv:
  assumes ok: "engine_ok E asleep" and inv: "admission_inv asleep s"
  shows "admission_inv asleep (snd (hs_wake cfg E tags s))"
proof (cases "hs_require_engine cfg s = None \<and> gate_open (snd (hs_wake cfg E tags s))")
  case True
  then obtain s1 kv where w: "\<not> gate_open s1" "hs_wake cfg E tags s = hs_wake_end E tags kv s1"
    using wake_gate by blast
  with True wake_end_gate [of s1 E tags kv] obtain e e' e'' where e:
    "hs_stage (snd (hs_wake cfg E tags s)) = Awake" "en_sleeping E e = (Inr False, e')"
    "e'' \<in> {e', snd (en_reset E e')}" "hs_engine (snd (hs_wake cfg E tags s)) = Some (snd (en_health E e''))"
    by (metis (no_types, lifting))
  have "\<not> asleep e \<and> asleep e' = asleep e" using ok e(2) unfolding engine_ok_def by (metis fst_conv snd_conv)
  then have "\<not> asleep (snd (en_health E e''))" using ok e(3) unfolding engine_ok_def by auto
  with e show ?thesis by (simp add: admission_inv_def)
next
  case False
  then show ?thesis using inv
    by (cases "hs_require_engine cfg s") (auto simp: hs_wake_def admission_inv_def)
qed

lemma shutdown_inv: "admission_inv asleep s \<Longrightarrow> admission_inv asleep (snd (hs_shutdown cfg E barrier s))"
proof (cases "cf_nnodes cfg \<noteq> 1 \<or> cf_node_rank cfg \<noteq> 0")
  case False
  have "shut (snd (with_engine (en_drain E) (\<lambda>_ s. with_engine (en_shutdown E)
      (\<lambda>_ s. (Inr (), s\<lparr>hs_engine := None, hs_port := None\<rparr>)) (s\<lparr>hs_task_running := False\<rparr>)) (hs_close s)))"
    by (intro shut_with_engine) simp_all
  with False have "shut (snd (hs_shutdown cfg E barrier s))"
    by (cases barrier) (simp_all add: hs_shutdown_def Let_def shut_def hs_close_def)
  then show ?thesis by (simp add: admission_inv_def gate_open_shut)
qed (simp add: hs_shutdown_def)

lemma health_inv:
  assumes "engine_ok E asleep" and "admission_inv asleep s"
  shows "admission_inv asleep (snd (hs_health cfg E apis ps s))"
proof -
  have "asleep (snd (en_health E e)) = asleep e" for e using assms(1) by (simp add: engine_ok_def)
  then have "asleep e' = asleep e" if "en_health E e = (r, e')" for e r e' using that by (metis snd_conv)
  with assms(2) show ?thesis
    by (auto simp: hs_health_def with_engine_def admission_inv_def split: option.split prod.split sum.split)
qed

lemma hs_step_inv: "engine_ok E asleep \<and> admission_inv asleep s \<Longrightarrow> engine_ok E asleep \<and> admission_inv asleep (hs_step cfg E e s)"
  by (cases e) (auto intro: sleep_inv wake_inv shutdown_inv health_inv)

interpretation server: invariant_machine "\<lambda>s. engine_ok E asleep \<and> admission_inv asleep s" "hs_step cfg E"
  for E :: "'e engine_ops" and asleep :: "'e \<Rightarrow> bool" and cfg
  by unfold_locales (rule hs_step_inv)

text \<open>
  C26: The server admits no request while its engine sleeps: starting from a served, awake engine and
  after any sequence of sleeps, wakes, health checks and shutdowns, whichever engine calls fail, an
  open admission gate means that the stage ledger says awake and the engine is not asleep. The engine
  is only assumed to answer its sleep query truthfully and not to fall asleep in the health check or
  the cache reset.
\<close>

theorem hs_no_admission_while_asleep:
  assumes "engine_ok E asleep" and "\<not> asleep e" and "s = fold (hs_step cfg E) es (new_http e port)"
    and "gate_open s"
  shows "hs_stage s = Awake \<and> (\<forall>e'. hs_engine s = Some e' \<longrightarrow> \<not> asleep e')"
proof -
  have "engine_ok E asleep \<and> admission_inv asleep (new_http e port)"
    using assms(1,2) by (simp add: admission_inv_def new_http_def)
  from server.run_inv [OF this, of cfg es] assms(3,4) show ?thesis by (simp add: admission_inv_def)
qed

text \<open>
  A wake that was called with no tags or with the weights tag opens the gate only at the end of
  the RESTORE protocol: it carries no tags, the weights were prepared (or the server was awake), the
  engine answered that it is not asleep, and the receipt says fully awake. A wake that fails leaves
  the gate closed.
\<close>

theorem hs_wake_opens_last:
  assumes "hs_require_engine cfg s = None" and "tags \<in> {None, Some [''weights'']}"
    and "hs_wake cfg E tags s = (r, s')"
  shows "if gate_open s' then tags = None \<and> hs_stage s \<in> {Weights, Awake} \<and> hs_stage s' = Awake
      \<and> (\<exists>receipt. r = Inr receipt \<and> hr_fully_awake receipt = Some True)
    else \<not> (\<exists>receipt. r = Inr receipt \<and> hr_fully_awake receipt = Some True)"
proof (cases "gate_open s'")
  case True
  with assms wake_gate [of cfg s E tags] obtain s1 kv where
    w: "\<not> gate_open s1" "(r, s') = hs_wake_end E tags kv s1" "tags = None \<longrightarrow> hs_stage s \<in> {Weights, Awake}"
    by auto
  from w(2) have "r = fst (hs_wake_end E tags kv s1)" "s' = snd (hs_wake_end E tags kv s1)" by (metis fst_conv, metis snd_conv)
  with wake_end_gate [OF w(1), of E tags kv] True w(3) assms(2) show ?thesis by auto
next
  case False
  have c: "hr_fully_awake receipt \<noteq> Some True" if "hs_wake_end E tags kv t = (Inr receipt, s')" for kv t receipt
    using that False by (auto simp: hs_wake_end_def with_engine_def wake_receipt_def Let_def gate_open_def
        split: if_splits option.splits prod.splits sum.splits)
  have "hr_fully_awake receipt \<noteq> Some True" if r: "r = Inr receipt" for receipt
  proof -
    obtain e where e: "hs_engine s = Some e" using assms(1) by (auto simp: hs_require_engine_def)
    obtain q e' where q: "en_sleeping E e = (q, e')" by (cases "en_sleeping E e")
    obtain w e2 where w: "en_wake E tags e' = (w, e2)" by (cases "en_wake E tags e'")
    have "hs_wake cfg E tags s = hs_wake_end E tags (hs_stage s = Weights) ((hs_close s)\<lparr>hs_engine := Some e'\<rparr>)
        \<or> hs_wake cfg E tags s = hs_wake_end E tags False ((hs_close s)\<lparr>hs_engine := Some e2\<rparr>)
        \<or> (\<exists>x. fst (hs_wake cfg E tags s) = Inl x)
        \<or> (\<exists>rc. fst (hs_wake cfg E tags s) = Inr rc \<and> hr_fully_awake rc = Some False)"
      using assms(1) e q w
      by (cases w; cases q; cases "hs_stage s") (auto simp: hs_wake_def with_engine_def Let_def wake_receipt_def)
    with c r assms(3) show ?thesis by auto
  qed
  with False show ?thesis by auto
qed

section \<open>The guard against an unprepared wake\<close>

text \<open>
  The guard that a full wake needs the weights-only preparation looks only at a missing tag list:
  a wake that names its tags (other than the weights alone) takes a level-2 sleeping server straight
  to awake with an open gate, although no parameters were loaded since the sleep discarded them.
\<close>

theorem hs_tagged_wake_skips_preparation:
  assumes "hs_require_engine cfg s = None" and "hs_stage s \<in> {Level1, Level2}" and "hs_engine s = Some e"
    and "tags \<noteq> [''weights'']"
    and "en_sleeping E e = (Inr True, e1)" and "en_wake E (Some tags) e1 = (Inr (), e2)"
    and "en_sleeping E e2 = (Inr False, e3)" and "en_reset E e3 = (Inr (), e4)" and "en_health E e4 = (Inr (), e5)"
  shows "\<exists>receipt. fst (hs_wake cfg E (Some tags) s) = Inr receipt \<and> hr_fully_awake receipt = Some True
    \<and> gate_open (snd (hs_wake cfg E (Some tags) s)) \<and> hs_engine (snd (hs_wake cfg E (Some tags) s)) = Some e5"
  using assms by (simp add: hs_wake_def hs_wake_end_def with_engine_def Let_def wake_receipt_def gate_open_def)

section \<open>The barrier ends\<close>

lemma barrier_waiting:
  "hs_barrier fuel deadline admitting clock i = None \<Longrightarrow> k < fuel \<Longrightarrow> clock (i + k) < deadline"
proof (induction fuel arbitrary: i k)
  case (Suc fuel)
  then have h: "hs_barrier fuel deadline admitting clock (Suc i) = None" "clock i < deadline"
    by (auto split: if_splits)
  show ?case
  proof (cases k)
    case 0
    with h show ?thesis by simp
  next
    case (Suc k')
    with Suc.IH [OF h(1), of k'] Suc.prems(2) show ?thesis by simp
  qed
qed simp

lemma barrier_result:
  "hs_barrier fuel deadline admitting clock i = Some r \<Longrightarrow>
     \<exists>j. i \<le> j \<and> j < i + fuel \<and> (if r = Inr () then admitting j = 0 else 0 < admitting j \<and> deadline \<le> clock j)"
proof (induction fuel arbitrary: i)
  case (Suc fuel)
  show ?case
  proof (cases "admitting i = 0 \<or> deadline \<le> clock i")
    case True
    with Suc.prems show ?thesis by (intro exI [of _ i]) (auto split: if_splits)
  next
    case False
    with Suc.prems have "hs_barrier fuel deadline admitting clock (Suc i) = Some r" by simp
    from Suc.IH [OF this] show ?thesis by (metis Suc_leD add_Suc_shift)
  qed
qed simp

text \<open>
  The admission barrier always returns: polling every hundredth of a second against a deadline ten
  seconds away it takes at most 1001 polls, it succeeds only when a poll saw no request on its way
  to the engine, and it fails only when the deadline has passed with a request still on its way.
\<close>

theorem hs_barrier_returns:
  assumes "\<forall>j. clock j + 1 / 100 \<le> clock (Suc j)" and "deadline \<le> clock 0 + 10"
  shows "\<exists>r. hs_barrier 1001 deadline admitting clock 0 = Some r
    \<and> (\<exists>j < 1001. if r = Inr () then admitting j = 0 else 0 < admitting j \<and> deadline \<le> clock j)"
proof -
  have grow: "clock 0 + of_nat k / 100 \<le> clock k" for k
  proof (induction k)
    case (Suc k)
    with assms(1) [rule_format, of k] show ?case by (simp add: add_divide_distrib)
  qed simp
  show ?thesis
  proof (cases "hs_barrier 1001 deadline admitting clock 0")
    case None
    from barrier_waiting [OF None, of 1000] grow [of 1000] assms(2) show ?thesis by simp
  next
    case (Some r)
    from barrier_result [OF this] Some show ?thesis by auto
  qed
qed

section \<open>Witnesses\<close>

definition bool_engine :: "bool engine_ops" where
  "bool_engine = \<lparr>en_sleeping = (\<lambda>e. (Inr e, e)), en_sleep = (\<lambda>_ _ _. (Inr (), True)), en_has_mode = True,
     en_wake = (\<lambda>tags e. (Inr (), tags = Some [''weights''])), en_drain = (\<lambda>e. (Inr (), e)),
     en_reset = (\<lambda>e. (Inr (), e)), en_health = (\<lambda>e. (Inr (), e)), en_resume_kv = (\<lambda>e. (Inr (), False)),
     en_shutdown = (\<lambda>e. (Inr (), e))\<rparr>"

definition gpu_config :: hs_config where
  "gpu_config = \<lparr>cf_nnodes = 1, cf_node_rank = 0, cf_sleep_mode = True, cf_free_cache = True,
     cf_sleep_level = 2, cf_resource = ''GPU''\<rparr>"

lemmas hs_eval = bool_engine_def gpu_config_def new_http_def hs_sleep_def hs_enter_sleep_def hs_require_engine_def
  with_engine_def hs_close_def sleep_receipt_def wake_receipt_def hs_wake_def hs_wake_end_def gate_open_def Let_def

theorem hs_no_admission_while_asleep_witness:
  "\<exists>s. s = fold (hs_step gpu_config bool_engine) [HSleep (Inr ()), HWake (Some [''weights'']), HSleep (Inr ())]
        (new_http False 80) \<and> hs_engine s = Some True \<and> \<not> gate_open s"
proof -
  define s where "s = fold (hs_step gpu_config bool_engine) [HSleep (Inr ()), HWake (Some [''weights'']), HSleep (Inr ())]
        (new_http False 80)"
  have ok: "engine_ok bool_engine (\<lambda>b. b)" by (simp add: engine_ok_def bool_engine_def)
  have e: "hs_engine s = Some True" unfolding s_def by (simp add: hs_eval)
  have "\<not> gate_open s"
  proof
    assume "gate_open s"
    from hs_no_admission_while_asleep [OF ok _ s_def this] e show False by blast
  qed
  with e s_def show ?thesis by blast
qed

theorem hs_wake_opens_last_witness:
  "\<exists>r s'. hs_wake gpu_config bool_engine None (new_http False 80) = (r, s') \<and> gate_open s' \<and> hs_stage s' = Awake"
proof -
  have req: "hs_require_engine gpu_config (new_http False 80) = None" by (simp add: hs_eval)
  obtain r s' where w: "hs_wake gpu_config bool_engine None (new_http False 80) = (r, s')" "gate_open s'"
    by (simp add: hs_eval)
  from hs_wake_opens_last [OF req _ w(1)] w show ?thesis by auto
qed

theorem hs_tagged_wake_skips_preparation_witness:
  "\<exists>s. hs_stage s = Level2 \<and> gate_open (snd (hs_wake gpu_config bool_engine (Some [''weights'', ''kv_cache'']) s))"
proof -
  let ?s = "(new_http True 80)\<lparr>hs_stage := Level2, hs_paused := True, hs_resume := False\<rparr>"
  have c: "hs_require_engine gpu_config ?s = None" "hs_stage ?s \<in> {Level1, Level2}" "hs_engine ?s = Some True"
    "[''weights'', ''kv_cache''] \<noteq> [''weights'']" "en_sleeping bool_engine True = (Inr True, True)"
    "en_wake bool_engine (Some [''weights'', ''kv_cache'']) True = (Inr (), False)"
    "en_sleeping bool_engine False = (Inr False, False)" "en_reset bool_engine False = (Inr (), False)"
    "en_health bool_engine False = (Inr (), False)"
    by (simp_all add: bool_engine_def gpu_config_def hs_require_engine_def new_http_def)
  have "hs_stage ?s = Level2" by simp
  with hs_tagged_wake_skips_preparation [OF c] show ?thesis by blast
qed

theorem hs_barrier_returns_witness:
  "\<exists>r. hs_barrier 1001 10 (\<lambda>_. 1) (\<lambda>j. of_nat j / 100) 0 = Some r \<and> r \<noteq> Inr ()"
proof -
  have "\<forall>j. of_nat j / 100 + 1 / 100 \<le> (of_nat (Suc j) / 100 :: rat)" "(10::rat) \<le> of_nat 0 / 100 + 10"
    by (simp_all add: add_divide_distrib)
  from hs_barrier_returns [OF this, of "\<lambda>_. 1"] show ?thesis by (auto split: if_splits)
qed

end
