(* ===== verification/Runtime_Profile.thy ===== *)
theory Runtime_Profile
  imports Contracts
begin

text \<open>
  Model of \<open>integration/verl/runtime_profile.py\<close>: the check that a configuration lies inside the
  supported boundary before the MultiTask runner replaces the native one. A configuration is a
  Python value; a dotted path is the list of its keys. A mapping is a \<open>dict\<close>.
\<close>

section \<open>Selecting\<close>

definition PROFILE_ID :: string where
  "PROFILE_ID = ''experimental_fully_async_standalone''"

definition profile_error :: "string \<Rightarrow> exn" where
  "profile_error m = ProfileConfigurationError m"

fun rp_select :: "pyval \<Rightarrow> string list \<Rightarrow> pyval option \<Rightarrow> pyval res" where
  \<comment> \<open>\<open>_select(config, path, default)\<close>; a missing default is \<open>None\<close>\<close>
  "rp_select v [] dflt = Inr v"
| "rp_select v (key # keys) dflt =
     (if v = PNone \<and> dflt \<noteq> None then Inr (the dflt)
      else
        (case v of
           PDict d \<Rightarrow>
             (case map_of d key of
                None \<Rightarrow> (case dflt of None \<Rightarrow> Inl (profile_error ''Missing configuration'') | Some x \<Rightarrow> Inr x)
              | Some w \<Rightarrow> rp_select w keys dflt)
         | _ \<Rightarrow> Inl (profile_error ''parent must be a mapping'')))"

text \<open>A check: the first error, or none. A check on a selected value fails where the selection does.\<close>

fun first_error :: "exn option list \<Rightarrow> exn option" where
  "first_error [] = None"
| "first_error (None # cs) = first_error cs"
| "first_error (Some e # cs) = Some e"

definition on_selected :: "pyval \<Rightarrow> string list \<Rightarrow> pyval option \<Rightarrow> (pyval \<Rightarrow> exn option) \<Rightarrow> exn option" where
  "on_selected cfg path dflt check =
     (case rp_select cfg path dflt of Inl e \<Rightarrow> Some e | Inr v \<Rightarrow> check v)"

definition require :: "bool \<Rightarrow> string \<Rightarrow> exn option" where
  "require ok msg = (if ok then None else Some (profile_error msg))"

fun is_mapping :: "pyval \<Rightarrow> bool" where
  "is_mapping (PDict _) = True"
| "is_mapping _ = False"

fun dict_items :: "pyval \<Rightarrow> pydict" where
  "dict_items (PDict d) = d"
| "dict_items _ = []"

fun unhashable :: "pyval \<Rightarrow> bool" where
  "unhashable (PList _) = True"
| "unhashable (PDict _) = True"
| "unhashable (PTuple xs) = list_ex unhashable xs"
| "unhashable _ = False"

section \<open>The checks\<close>

fun positive_number :: "pyval \<Rightarrow> bool" where
  \<comment> \<open>\<open>type(v) in (int, float) and not v <= 0\<close>\<close>
  "positive_number (PInt i) = (0 < i)"
| "positive_number (PFloat (Fin q)) = (0 < q)"
| "positive_number (PFloat PosInf) = True"
| "positive_number (PFloat NaN) = True"
| "positive_number _ = False"

definition required_settings :: "(string list \<times> pyval) list" where
  "required_settings =
     [([''actor_rollout_ref'', ''hybrid_engine''], PBool False),
      ([''async_training'', ''use_trainer_do_validate''], PBool False),
      ([''async_training'', ''use_dynamic_resource_scheduling''], PBool False),
      ([''actor_rollout_ref'', ''rollout'', ''mode''], PStr ''async''),
      ([''actor_rollout_ref'', ''rollout'', ''name''], PStr ''vllm''),
      ([''actor_rollout_ref'', ''rollout'', ''calculate_log_probs''], PBool True),
      ([''actor_rollout_ref'', ''rollout'', ''enable_sleep_mode''], PBool True),
      ([''actor_rollout_ref'', ''rollout'', ''free_cache_engine''], PBool True),
      ([''data'', ''train_batch_size''], PInt 0),
      ([''data'', ''gen_batch_size''], PInt 1)]"

definition rollout_path :: "string list \<Rightarrow> string list" where
  "rollout_path keys = [''actor_rollout_ref'', ''rollout''] @ keys"

definition check_profile :: "pyval \<Rightarrow> exn option" where
  "check_profile cfg = first_error
     [on_selected cfg [''multitask'', ''runtime'', ''profile''] (Some PNone) (\<lambda>profile.
        require (profile = PNone \<or> profile = PStr PROFILE_ID) ''Unknown multitask.runtime.profile''),
      on_selected cfg [''multitask'', ''runtime''] (Some PNone) (\<lambda>runtime.
        require (runtime = PNone \<or> fst ` set (dict_items runtime) \<subseteq> {''profile''})
          ''multitask.runtime accepts only profile''),
      on_selected cfg [''multitask'', ''rollout_deployment''] (Some PNone) (\<lambda>v.
        require (v = PNone) ''Use only multitask.runtime.profile to select the deployment'')]"

definition check_settings :: "pyval \<Rightarrow> exn option" where
  "check_settings cfg = first_error
     (map (\<lambda>(path, expected). on_selected cfg path None (\<lambda>v. require (v = expected) ''unsupported setting''))
        required_settings)"

definition check_device :: "pyval \<Rightarrow> exn option" where
  "check_device cfg = on_selected cfg [''trainer'', ''device''] None (\<lambda>device.
     if unhashable device then Some (TypeError ''unhashable type'')
     else require (device = PStr ''cuda'' \<or> device = PStr ''npu'') ''trainer.device must be cuda or npu'')"

definition lora_enabled :: "pydict \<Rightarrow> pydict \<Rightarrow> bool" where
  "lora_enabled model lora \<longleftrightarrow> is_pos_int (pyget_default model ''lora_rank'' (PInt 0))
     \<or> is_pos_int (pyget_default lora ''rank'' (PInt 0))"

definition check_features :: "pyval \<Rightarrow> exn option" where
  "check_features cfg = first_error
     [on_selected cfg (rollout_path [''disaggregation'']) (Some PNone) (\<lambda>v.
        require (v = PNone \<or> is_mapping v \<and> pyget_default (dict_items v) ''enabled'' (PBool False) = PBool False)
          ''first release does not support PD/disaggregated rollout''),
      on_selected cfg (rollout_path [''router_config_path'']) (Some PNone) (\<lambda>v.
        require (v = PNone \<or> v = PStr []) ''first release does not support router_config_path''),
      on_selected cfg (rollout_path [''mtp'']) (Some PNone) (\<lambda>v.
        if v = PNone then None
        else first_error
          [require (is_mapping v) ''mtp must be a mapping'',
           require (\<not> (py_truth (pyget_default (dict_items v) ''enable'' (PBool False))
              \<and> py_truth (pyget_default (dict_items v) ''enable_rollout'' (PBool False))))
             ''first release does not support MTP rollout'']),
      on_selected cfg [''actor_rollout_ref'', ''model''] (Some PNone) (\<lambda>v.
        if v = PNone then None
        else if \<not> is_mapping v then require False ''actor_rollout_ref.model must be a mapping''
        else
          (let lora0 = pyget_default (dict_items v) ''lora'' (PDict []);
               lora = (if py_truth lora0 then lora0 else PDict []) in
           first_error
             [require (is_mapping lora) ''actor_rollout_ref.model.lora must be a mapping'',
              require (lora_enabled (dict_items v) (dict_items lora)
                   \<longrightarrow> pyget_default (dict_items lora) ''merge'' (PBool False) = PBool True)
                ''first release does not support unmerged LoRA rollout'']))]"

definition selected_device :: "pyval \<Rightarrow> pyval" where
  "selected_device cfg = (case rp_select cfg [''trainer'', ''device''] None of Inr v \<Rightarrow> v | Inl _ \<Rightarrow> PNone)"

definition expected_backend :: "pyval \<Rightarrow> string" where
  "expected_backend cfg = (if selected_device cfg = PStr ''npu'' then ''multitask_hccl'' else ''nccl'')"

definition check_backend :: "pyval \<Rightarrow> exn option" where
  "check_backend cfg = first_error
     [on_selected cfg (rollout_path [''checkpoint_engine'', ''backend'']) None (\<lambda>v.
        require (v = PStr (expected_backend cfg)) ''trainer.device requires another checkpoint_engine.backend''),
      (if selected_device cfg = PStr ''npu''
       then on_selected cfg (rollout_path [''checkpoint_engine'', ''custom_backend_module'']) (Some PNone) (\<lambda>v.
              require (v = PStr ''multi_task_scheduler.checkpoint.hccl_checkpoint_engine'')
                ''NPU requires checkpoint_engine.custom_backend_module'')
       else None),
      on_selected cfg (rollout_path [''checkpoint_engine'', ''engine_kwargs'', expected_backend cfg, ''rebuild_group''])
        (Some (PBool False)) (\<lambda>v. require (v = PBool True) ''rebuild_group must be True'')]"

definition size_fields :: "string list" where
  "size_fields = [''nnodes'', ''n_gpus_per_node'', ''tensor_model_parallel_size'', ''data_parallel_size'',
     ''pipeline_model_parallel_size'']"

definition rp_size :: "pyval \<Rightarrow> string \<Rightarrow> int" where
  "rp_size cfg field = (case rp_select cfg (rollout_path [field]) None of Inr v \<Rightarrow> pyint_of v | Inl _ \<Rightarrow> 0)"

definition check_sizes :: "pyval \<Rightarrow> exn option" where
  "check_sizes cfg = first_error
     (map (\<lambda>field. on_selected cfg (rollout_path [field]) None (\<lambda>v.
         require (is_pos_int v) ''parallel size must be a positive integer'')) size_fields
      @ [require (rp_size cfg ''nnodes'' = 1) ''first release supports single-node rollout only'',
         require (rp_size cfg ''data_parallel_size'' = 1) ''first release requires data_parallel_size=1'',
         require (rp_size cfg ''pipeline_model_parallel_size'' = 1)
           ''first release requires pipeline_model_parallel_size=1'',
         require (rp_size cfg ''tensor_model_parallel_size'' = 1)
           ''current verified whole-GPU profile requires tensor_model_parallel_size=1'']
      @ map (\<lambda>field. on_selected cfg [''rollout'', field] None (\<lambda>v.
          require (v = PInt (rp_size cfg field)) ''Native main must map rollout sizes before selecting MultiTask''))
          [''nnodes'', ''n_gpus_per_node''])"

definition rp_validate :: "pyval \<Rightarrow> bool res" where
  "rp_validate cfg =
     (if \<not> is_mapping cfg then Inl (profile_error ''Configuration must be a mapping'')
      else
        (case rp_select cfg [''multitask''] (Some PNone) of
           Inl e \<Rightarrow> Inl e
         | Inr multitask \<Rightarrow>
             if multitask = PNone then Inr False
             else if \<not> is_mapping multitask then Inl (profile_error ''multitask must be a mapping'')
             else
               (case map_of (dict_items multitask) ''enabled'' of
                  None \<Rightarrow> Inr False
                | Some (PBool False) \<Rightarrow> Inr False
                | Some (PBool True) \<Rightarrow>
                    (case first_error
                        [require (positive_number (pyget_default (dict_items multitask) ''drain_timeout_s'' (PFloat (Fin 300))))
                           ''multitask.drain_timeout_s must be a positive number'',
                         check_profile cfg, check_settings cfg, check_device cfg, check_features cfg,
                         check_backend cfg, check_sizes cfg] of
                       Some e \<Rightarrow> Inl e
                     | None \<Rightarrow> Inr True)
                | Some _ \<Rightarrow> Inl (profile_error ''multitask.enabled must be a boolean''))))"

text \<open>\<open>resolve_runtime_profile\<close>: whether the MultiTask runner class is returned.\<close>

definition rp_resolve :: "pyval \<Rightarrow> bool res" where
  "rp_resolve cfg = rp_validate cfg"

section \<open>What acceptance means\<close>

lemma first_error_None: "first_error cs = None \<longleftrightarrow> (\<forall>c \<in> set cs. c = None)"
  by (induction cs rule: first_error.induct) auto

lemma require_None [simp]: "require ok msg = None \<longleftrightarrow> ok"
  by (simp add: require_def)

lemma on_selected_None:
  "on_selected cfg path dflt check = None \<longleftrightarrow> (\<exists>v. rp_select cfg path dflt = Inr v \<and> check v = None)"
  by (auto simp: on_selected_def split: sum.split)

lemma rp_accepted:
  assumes "rp_validate cfg = Inr True"
  shows "check_profile cfg = None" "check_settings cfg = None" "check_device cfg = None"
    "check_features cfg = None" "check_backend cfg = None" "check_sizes cfg = None"
  using assms by (auto simp: rp_validate_def first_error_None split: if_splits sum.splits option.splits pyval.splits bool.splits)

lemma accepted_setting:
  assumes "rp_validate cfg = Inr True" and "(path, expected) \<in> set required_settings"
  shows "rp_select cfg path None = Inr expected"
  using rp_accepted(2) [OF assms(1)] assms(2)
  by (force simp: check_settings_def first_error_None on_selected_None)

text \<open>
  An accepted configuration gives the other components what they rely on: one node, no tensor,
  data or pipeline parallelism, sleep mode and cache freeing switched on, asynchronous vLLM rollout,
  sampling without batches, a CUDA or NPU device with exactly its checkpoint backend, and a backend
  that rebuilds its groups when the membership changes.
\<close>

theorem rp_accepts_supported:
  assumes "rp_validate cfg = Inr True"
  shows "(\<forall>(path, expected) \<in> set required_settings. rp_select cfg path None = Inr expected)
    \<and> rp_size cfg ''nnodes'' = 1 \<and> rp_size cfg ''tensor_model_parallel_size'' = 1
    \<and> rp_size cfg ''data_parallel_size'' = 1 \<and> rp_size cfg ''pipeline_model_parallel_size'' = 1
    \<and> 0 < rp_size cfg ''n_gpus_per_node''
    \<and> rp_select cfg [''rollout'', ''n_gpus_per_node''] None = Inr (PInt (rp_size cfg ''n_gpus_per_node''))
    \<and> selected_device cfg \<in> {PStr ''cuda'', PStr ''npu''}
    \<and> rp_select cfg (rollout_path [''checkpoint_engine'', ''backend'']) None = Inr (PStr (expected_backend cfg))
    \<and> rp_select cfg (rollout_path [''checkpoint_engine'', ''engine_kwargs'', expected_backend cfg, ''rebuild_group''])
        (Some (PBool False)) = Inr (PBool True)"
proof -
  note acc = rp_accepted [OF assms]
  have s: "\<forall>(path, expected) \<in> set required_settings. rp_select cfg path None = Inr expected"
    using accepted_setting [OF assms] by blast
  have z: "rp_size cfg ''nnodes'' = 1" "rp_size cfg ''tensor_model_parallel_size'' = 1"
    "rp_size cfg ''data_parallel_size'' = 1" "rp_size cfg ''pipeline_model_parallel_size'' = 1"
    "on_selected cfg (rollout_path [''n_gpus_per_node'']) None (\<lambda>v.
         require (is_pos_int v) ''parallel size must be a positive integer'') = None"
    "rp_select cfg [''rollout'', ''n_gpus_per_node''] None = Inr (PInt (rp_size cfg ''n_gpus_per_node''))"
    using acc(6) by (simp_all add: check_sizes_def first_error_None size_fields_def)
      (auto simp: on_selected_None)
  have g: "0 < rp_size cfg ''n_gpus_per_node''"
  proof -
    from z(5) obtain v where "rp_select cfg (rollout_path [''n_gpus_per_node'']) None = Inr v" "is_pos_int v"
      by (auto simp: on_selected_None)
    then show ?thesis by (cases v) (simp_all add: rp_size_def)
  qed
  have d: "selected_device cfg \<in> {PStr ''cuda'', PStr ''npu''}"
    using acc(3) by (auto simp: check_device_def on_selected_None selected_device_def split: if_splits)
  have b: "rp_select cfg (rollout_path [''checkpoint_engine'', ''backend'']) None = Inr (PStr (expected_backend cfg))"
    "rp_select cfg (rollout_path [''checkpoint_engine'', ''engine_kwargs'', expected_backend cfg, ''rebuild_group''])
        (Some (PBool False)) = Inr (PBool True)"
    using acc(5) by (auto simp: check_backend_def first_error_None on_selected_None)
  show ?thesis by (intro conjI s z g d b)
qed

text \<open>
  Without the MultiTask switch nothing else is looked at: a configuration whose \<open>multitask\<close>
  section is missing, empty, without \<open>enabled\<close> or disabled selects the native runner, whatever the
  rest of it says.
\<close>

theorem rp_disabled_inert:
  "rp_resolve (PDict cfg) = Inr False \<longleftrightarrow>
     (case map_of cfg ''multitask'' of
        None \<Rightarrow> True
      | Some PNone \<Rightarrow> True
      | Some (PDict m) \<Rightarrow> map_of m ''enabled'' \<in> {None, Some (PBool False)}
      | Some _ \<Rightarrow> False)"
proof (cases "map_of cfg ''multitask''")
  case None
  then show ?thesis by (simp add: rp_resolve_def rp_validate_def)
next
  case (Some v)
  show ?thesis
  proof (cases v)
    case (PDict m)
    with Some show ?thesis
      by (auto simp: rp_resolve_def rp_validate_def split: option.splits pyval.splits bool.splits)
  qed (use Some in \<open>simp_all add: rp_resolve_def rp_validate_def\<close>)
qed

definition demo_profile :: pyval where
  "demo_profile = PDict
    [(''multitask'', PDict [(''enabled'', PBool True)]),
     (''async_training'', PDict [(''use_trainer_do_validate'', PBool False), (''use_dynamic_resource_scheduling'', PBool False)]),
     (''data'', PDict [(''train_batch_size'', PInt 0), (''gen_batch_size'', PInt 1)]),
     (''trainer'', PDict [(''device'', PStr ''cuda'')]),
     (''rollout'', PDict [(''nnodes'', PInt 1), (''n_gpus_per_node'', PInt 4)]),
     (''actor_rollout_ref'', PDict
        [(''hybrid_engine'', PBool False),
         (''rollout'', PDict
            [(''mode'', PStr ''async''), (''name'', PStr ''vllm''), (''calculate_log_probs'', PBool True),
             (''enable_sleep_mode'', PBool True), (''free_cache_engine'', PBool True),
             (''checkpoint_engine'', PDict [(''backend'', PStr ''nccl''),
                (''engine_kwargs'', PDict [(''nccl'', PDict [(''rebuild_group'', PBool True)])])]),
             (''nnodes'', PInt 1), (''n_gpus_per_node'', PInt 4), (''tensor_model_parallel_size'', PInt 1),
             (''data_parallel_size'', PInt 1), (''pipeline_model_parallel_size'', PInt 1)])])]"

lemma demo_accepted: "rp_validate demo_profile = Inr True"
  by code_simp

theorem rp_accepts_supported_witness:
  "rp_size demo_profile ''tensor_model_parallel_size'' = 1
   \<and> rp_select demo_profile (rollout_path [''checkpoint_engine'', ''backend'']) None = Inr (PStr (expected_backend demo_profile))"
  using rp_accepts_supported [OF demo_accepted] by blast

theorem rp_disabled_inert_witness: "rp_resolve (PDict [(''multitask'', PDict [(''enabled'', PBool False)])]) = Inr False"
  by (subst rp_disabled_inert) simp

end
