(* ===== verification/Task_Runner.thy ===== *)
theory Task_Runner
  imports Operation_Journal
begin

text \<open>
  Model of \<open>integration/verl/experimental_fully_async/task_runner.py\<close>: the control surface of one
  task. It accepts life-cycle operations, runs each on a worker thread that drives the Rollouter,
  the Trainer and the group scheduler in a fixed order, and records the outcome in its journal.

  What the remote calls return is an argument. The locked sections of a worker thread are separate
  steps, so that submissions and other workers interleave with them. A \<open>KeyError\<close> stands for
  itself and for a remote error caused by one. The best-effort notification that clears the
  Rollouter's binding after a terminal result changes no state of the runner and is left out.
\<close>

section \<open>Remote calls\<close>

text \<open>A reply: operation evidence, \<open>None\<close>, or another value.\<close>

datatype reply = Evid op_evidence | Absent | Alien

fun reply_evidence :: "reply \<Rightarrow> op_evidence option" where
  "reply_evidence (Evid ev) = Some ev"
| "reply_evidence _ = None"

record tr_env =
  ev_prepare :: "reply res"
  ev_bootstrap :: "reply res"
  ev_restore :: "reply res"
  ev_query_release :: "reply res"
  ev_reconcile_exit :: "reply res"
  ev_prepare_exit :: "reply res"
  ev_pending_target :: "unit res"
  ev_remove_commit :: "reply res"
  ev_finalize :: "reply res"
  ev_advance :: "unit res \<times> unit res"

datatype call =
    CallPrepare (spec: "pydict option")
  | CallBootstrap
  | CallRestore
  | CallQueryRelease
  | CallReconcileExit
  | CallPrepareExit
  | CallPendingTarget
  | CallRemoveCommit
  | CallFinalize
  | CallAdvance op_evidence

datatype outcome = Finished op_status "string option" | Raised exn

definition prefix_calls :: "call list \<Rightarrow> call list \<times> 'a \<Rightarrow> call list \<times> 'a" where
  "prefix_calls cs r = (cs @ fst r, snd r)"

definition emit :: "call \<Rightarrow> 'a res \<Rightarrow> ('a \<Rightarrow> call list \<times> outcome) \<Rightarrow> call list \<times> outcome" where
  "emit c r k = (case r of Inl e \<Rightarrow> ([c], Raised e) | Inr v \<Rightarrow> prefix_calls [c] (k v))"

fun evidence_value :: "evidence_type \<Rightarrow> string" where
  "evidence_value WEIGHT_READY = ''WEIGHT_READY''"
| "evidence_value EXIT_READY = ''EXIT_READY''"
| "evidence_value SERVICE_COMMITTED = ''SERVICE_COMMITTED''"
| "evidence_value RELEASED = ''RELEASED''"

fun exn_text :: "exn \<Rightarrow> string" where
  \<comment> \<open>\<open>f"{type(exc).__name__}: {exc}"\<close>, up to the quotes \<open>KeyError\<close> adds\<close>
  "exn_text (ValueError m) = ''ValueError: '' @ m"
| "exn_text (TypeError m) = ''TypeError: '' @ m"
| "exn_text (KeyError m) = ''KeyError: '' @ m"
| "exn_text (RuntimeError m) = ''RuntimeError: '' @ m"
| "exn_text (NotImplementedError m) = ''NotImplementedError: '' @ m"
| "exn_text (TimeoutError m) = ''TimeoutError: '' @ m"
| "exn_text (OverflowError m) = ''OverflowError: '' @ m"
| "exn_text (OperationIdentityError m) = ''OperationIdentityError: '' @ m"
| "exn_text (GateFencedError m) = ''GateFencedError: '' @ m"
| "exn_text (GateReentryError m) = ''GateReentryError: '' @ m"
| "exn_text (GateTimeoutError m) = ''GateTimeoutError: '' @ m"
| "exn_text (DuplicateCompletionError m) = ''DuplicateCompletionError: '' @ m"
| "exn_text (ProfileConfigurationError m) = ''ProfileConfigurationError: '' @ m"
| "exn_text (BackendError m) = ''BackendError: '' @ m"

section \<open>The body of an operation\<close>

definition borrowed_claim :: "nat \<Rightarrow> pydict \<Rightarrow> pydict" where
  "borrowed_claim rank claim =
     AList.update ''local_rank'' (PInt (int rank))
       (AList.update ''node_rank'' (PInt 0) (AList.update ''rank'' (PInt (int rank)) claim))"

definition tr_build_spec :: "op_command \<Rightarrow> lease \<Rightarrow> pydict res" where
  "tr_build_spec c l =
     (if c_kind c \<noteq> ADD then Inl (ValueError ''borrowed placement spec is valid only for ADD'')
      else if l_lease_id l \<noteq> c_lease_id c
      then Inl (ValueError ''operation lease snapshot does not match command.lease_id'')
      else Inr
        [(''operation_id'', PStr (c_operation_id c)),
         (''lease_id'', PStr (c_lease_id c)),
         (''borrower_task_id'', PStr (task_session (c_target c))),
         (''borrower_replica_id'', PStr (replica_id (c_target c))),
         (''claims'', PList (map (\<lambda>(rank, claim). PDict (borrowed_claim rank claim))
                              (zip [0..<length (l_claims l)] (l_claims l)))),
         (''expires_at'', PFloat (Fin (l_expires_at l))),
         (''placement_epoch'', PInt (runtime_epoch (c_target c)))])"

text \<open>The ledger write at the group scheduler, retried once.\<close>

definition tr_advance :: "tr_env \<Rightarrow> op_evidence \<Rightarrow> (unit \<Rightarrow> call list \<times> outcome) \<Rightarrow> call list \<times> outcome" where
  "tr_advance env ev k =
     (case fst (ev_advance env) of
        Inr _ \<Rightarrow> prefix_calls [CallAdvance ev] (k ())
      | Inl _ \<Rightarrow> prefix_calls [CallAdvance ev] (emit (CallAdvance ev) (snd (ev_advance env)) k))"

definition tr_require ::
    "op_command \<Rightarrow> reply \<Rightarrow> evidence_type \<Rightarrow> (op_evidence \<Rightarrow> call list \<times> outcome) \<Rightarrow> call list \<times> outcome" where
  "tr_require c r ty k =
     (case require_evidence (reply_evidence r) (c_operation_id c) ty of
        Inl e \<Rightarrow> ([], Raised e)
      | Inr ev \<Rightarrow> k ev)"

definition tr_failed_release ::
    "tr_env \<Rightarrow> op_command \<Rightarrow> reply \<Rightarrow> string \<Rightarrow> (unit \<Rightarrow> call list \<times> outcome) \<Rightarrow> call list \<times> outcome" where
  "tr_failed_release env c r msg k =
     (case reply_evidence r of
        None \<Rightarrow> k ()
      | Some ev \<Rightarrow>
          if e_type ev \<noteq> RELEASED then k ()
          else tr_require c r RELEASED (\<lambda>released.
                 tr_advance env released (\<lambda>_. ([], Finished FAILED (Some msg)))))"

definition succeeded :: "op_evidence \<Rightarrow> call list \<times> outcome" where
  "succeeded ev = ([], Finished SUCCEEDED (Some (evidence_value (e_type ev))))"

definition tr_add :: "tr_env \<Rightarrow> op_command \<Rightarrow> lease option \<Rightarrow> call list \<times> outcome" where
  "tr_add env c snapshot =
     (case snapshot of
        None \<Rightarrow> ([], Raised (RuntimeError ''ADD lost its immutable Lease snapshot''))
      | Some l \<Rightarrow>
          (case tr_build_spec c l of
             Inl e \<Rightarrow> ([], Finished FAILED (Some (''ADD placement validation failed: '' @ exn_text e)))
           | Inr sp \<Rightarrow>
               emit (CallPrepare (Some sp)) (ev_prepare env) (\<lambda>prepared.
                 tr_failed_release env c prepared ''ADD prepare failed; no borrower runtime remains'' (\<lambda>_.
                   emit CallBootstrap (ev_bootstrap env) (\<lambda>evidence.
                     tr_failed_release env c evidence
                       ''ADD bootstrap failed; hidden runtime was verified RELEASED'' (\<lambda>_.
                         tr_require c evidence SERVICE_COMMITTED succeeded))))))"

definition tr_release :: "tr_env \<Rightarrow> op_command \<Rightarrow> reply \<Rightarrow> call list \<times> outcome" where
  "tr_release env c service =
     tr_require c service SERVICE_COMMITTED (\<lambda>_.
       emit CallFinalize (ev_finalize env) (\<lambda>released.
         tr_require c released RELEASED (\<lambda>final.
           tr_advance env final (\<lambda>_. succeeded final))))"

definition tr_prepare_exit :: "tr_env \<Rightarrow> op_command \<Rightarrow> call list \<times> outcome" where
  "tr_prepare_exit env c =
     (case ev_prepare_exit env of
        Inl e \<Rightarrow>
          ([CallPrepareExit, CallPendingTarget],
           case ev_pending_target env of
             Inr _ \<Rightarrow> Raised e
           | Inl (KeyError _) \<Rightarrow>
               Finished FAILED (Some (''exit preflight rejected before owner mutation: '' @ exn_text e))
           | Inl _ \<Rightarrow> Raised (RuntimeError ''exit target binding query is inconclusive''))
      | Inr ready \<Rightarrow>
          prefix_calls [CallPrepareExit]
            (tr_require c ready EXIT_READY (\<lambda>_.
               emit CallRemoveCommit (ev_remove_commit env) (tr_release env c))))"

definition tr_exit :: "tr_env \<Rightarrow> op_command \<Rightarrow> bool \<Rightarrow> call list \<times> outcome" where
  "tr_exit env c reconciling =
     (if \<not> reconciling then tr_prepare_exit env c
      else emit CallQueryRelease (ev_query_release env) (\<lambda>prior.
        if prior \<noteq> Absent
        then tr_require c prior RELEASED (\<lambda>final. tr_advance env final (\<lambda>_. succeeded final))
        else emit CallReconcileExit (ev_reconcile_exit env) (\<lambda>service.
          if service = Absent then tr_prepare_exit env c else tr_release env c service)))"

definition tr_restore :: "tr_env \<Rightarrow> op_command \<Rightarrow> call list \<times> outcome" where
  "tr_restore env c =
     emit (CallPrepare None) (ev_prepare env) (\<lambda>_.
       emit CallRestore (ev_restore env) (\<lambda>evidence.
         tr_failed_release env c evidence ''RESTORE bootstrap failed; native runtime was verified re-slept'' (\<lambda>_.
           tr_require c evidence SERVICE_COMMITTED (\<lambda>final. tr_advance env final (\<lambda>_. succeeded final)))))"

definition tr_body :: "tr_env \<Rightarrow> op_command \<Rightarrow> lease option \<Rightarrow> bool \<Rightarrow> call list \<times> outcome" where
  "tr_body env c snapshot reconciling =
     (case c_kind c of
        ADD \<Rightarrow> tr_add env c snapshot
      | DONATE \<Rightarrow> tr_exit env c reconciling
      | REMOVE \<Rightarrow> tr_exit env c reconciling
      | RESTORE \<Rightarrow> tr_restore env c)"

section \<open>The runner\<close>

text \<open>
  A worker of \<open>_operation_threads\<close> is either about to read its command, executing (with the flag
  whether it reconciles an UNKNOWN operation), or past its journal entry and about to leave the map.
\<close>

datatype phase = Launched | Executing bool | Ending

record tr =
  tr_session :: "string option"
  tr_ready :: bool
  tr_attached :: bool
  tr_threads :: "string \<rightharpoonup> phase"
  tr_leases :: "string \<rightharpoonup> lease"
  tr_journal :: journal

definition new_tr :: "string option \<Rightarrow> tr" where
  "new_tr session = \<lparr>tr_session = session, tr_ready = False, tr_attached = False, tr_threads = Map.empty,
     tr_leases = Map.empty, tr_journal = new_journal\<rparr>"

subsection \<open>Start-up and shutdown\<close>

text \<open>
  Registering with the group scheduler. The one registration call is waited for three times; when
  no reply comes, the scheduler's ledger is read, and only an entry of this very actor counts. The
  ledger is \<open>None\<close> when its query failed; actor identities are numbers, absent when unknown.
\<close>

datatype wait = Acked | TimedOut | WaitFailed exn

record attach_env =
  at_self :: "nat option"
  at_waits :: "wait list"
  at_ledger :: "(string \<rightharpoonup> nat option) option"
  at_detach :: "unit res"

record attach_result =
  ar_attached :: bool
  ar_detached :: bool
  ar_error :: "exn option"

fun await_ack :: "wait list \<Rightarrow> wait" where
  "await_ack [] = TimedOut"
| "await_ack (TimedOut # ws) = await_ack ws"
| "await_ack (w # ws) = w"

definition tr_attach :: "string \<Rightarrow> attach_env \<Rightarrow> attach_result" where
  "tr_attach task env =
     (case await_ack (take 3 (at_waits env)) of
        Acked \<Rightarrow> \<lparr>ar_attached = True, ar_detached = False, ar_error = None\<rparr>
      | WaitFailed e \<Rightarrow> \<lparr>ar_attached = False, ar_detached = False, ar_error = Some e\<rparr>
      | TimedOut \<Rightarrow>
          (case Option.bind (at_ledger env) (\<lambda>ledger. ledger task) of
             Some actual \<Rightarrow>
               if at_self env \<noteq> None \<and> at_self env = actual
               then \<lparr>ar_attached = True, ar_detached = False, ar_error = None\<rparr>
               else \<lparr>ar_attached = False, ar_detached = False,
                     ar_error = Some (RuntimeError ''task_session is bound to a different ActorHandle'')\<rparr>
           | None \<Rightarrow>
               (case at_detach env of
                  Inl e \<Rightarrow> \<lparr>ar_attached = False, ar_detached = True, ar_error =
                    Some (RuntimeError ''attach_task unconfirmed; compensating detach also unconfirmed'')\<rparr>
                | Inr _ \<Rightarrow> \<lparr>ar_attached = False, ar_detached = True, ar_error =
                    Some (RuntimeError ''attach_task unconfirmed; compensating detach acknowledged'')\<rparr>)))"

text \<open>After the native initialisation, whose queue must still be empty when it is replaced.\<close>

definition tr_initialize :: "int \<Rightarrow> attach_env \<Rightarrow> tr \<Rightarrow> unit res \<times> tr" where
  "tr_initialize old_size env s =
     (if old_size \<noteq> 0
      then (Inl (RuntimeError ''cannot replace native MessageQueue after samples have been enqueued''), s)
      else
        (case tr_session s of
           None \<Rightarrow> (Inl (RuntimeError ''no task session''), s)
         | Some task \<Rightarrow>
             (let result = tr_attach task env; s1 = s\<lparr>tr_attached := ar_attached result\<rparr> in
              case ar_error result of
                Some e \<Rightarrow> (Inl e, s1)
              | None \<Rightarrow> (Inr (), s1\<lparr>tr_ready := True\<rparr>))))"

definition tr_stop :: "tr \<Rightarrow> tr" where
  "tr_stop s = s\<lparr>tr_ready := False, tr_attached := False\<rparr>"

subsection \<open>Operations\<close>

text \<open>The second half of a submission: the worker is started under the journal lock.\<close>

definition tr_launch :: "exn option \<Rightarrow> op_command \<Rightarrow> bool \<Rightarrow> op_record \<Rightarrow> tr \<Rightarrow> op_record res \<times> tr" where
  "tr_launch start c reconciliation snapshot s =
     (let oid = c_operation_id c in
      case start of
        None \<Rightarrow> (Inr snapshot, s\<lparr>tr_threads := (tr_threads s)(oid \<mapsto> Launched)\<rparr>)
      | Some e \<Rightarrow>
          (let s1 = s\<lparr>tr_threads := (tr_threads s)(oid := None)\<rparr> in
           if reconciliation then (Inl e, s1)
           else
             (case journal_finish oid FAILED (Some (''failed to launch lifecycle worker: '' @ exn_text e))
                     (tr_journal s1) of
                (Inl e', j) \<Rightarrow> (Inl e', s1\<lparr>tr_leases := (tr_leases s1)(oid := None), tr_journal := j\<rparr>)
              | (Inr _, j) \<Rightarrow> (Inl e, s1\<lparr>tr_leases := (tr_leases s1)(oid := None), tr_journal := j\<rparr>))))"

definition tr_submit :: "exn option \<Rightarrow> op_command \<Rightarrow> lease option \<Rightarrow> tr \<Rightarrow> op_record res \<times> tr" where
  \<comment> \<open>\<open>start\<close>: the error of starting the worker thread, if any\<close>
  "tr_submit start c snapshot s =
     (let oid = c_operation_id c in
      if snapshot \<noteq> None \<and> l_lease_id (the snapshot) \<noteq> c_lease_id c
      then (Inl (ValueError ''lease snapshot does not match command.lease_id''), s)
      else if c_kind c = ADD \<and> snapshot = None
      then (Inl (ValueError ''ADD requires the GS-resolved Lease snapshot''), s)
      else if \<not> tr_ready s \<or> tr_session s = None
      then (Inl (RuntimeError ''TaskRunner control plane is not ready''), s)
      else if Some (task_session (c_target c)) \<noteq> tr_session s
      then (Inl (ValueError ''operation targets another task session''), s)
      else
        (let existing = journal_query oid (tr_journal s) in
         case journal_begin c (tr_journal s) of
           (Inl e, j) \<Rightarrow> (Inl e, s\<lparr>tr_journal := j\<rparr>)
         | (Inr record, j) \<Rightarrow>
             (let s1 = s\<lparr>tr_journal := j\<rparr> in
              if c_kind c = ADD \<and> tr_leases s oid \<noteq> None
                 \<and> \<not> lease_eq (the (tr_leases s oid)) (the snapshot)
              then (Inl (ValueError ''conflicting lease snapshot replay''), s1)
              else
                (let s2 = (if c_kind c = ADD \<and> tr_leases s oid = None
                           then s1\<lparr>tr_leases := (tr_leases s)(oid := snapshot)\<rparr> else s1);
                     reconciliation = (existing \<noteq> None \<and> r_status (the existing) = UNKNOWN
                        \<and> tr_threads s oid = None) in
                 if existing = None \<or> reconciliation
                 then tr_launch start c reconciliation record s2
                 else (Inr record, s2)))))"

definition tr_query :: "string \<Rightarrow> tr \<Rightarrow> op_record res" where
  "tr_query oid s =
     (if oid = [] then Inl (ValueError ''operation_id must be a nonempty string'')
      else (case journal_query oid (tr_journal s) of
              Some record \<Rightarrow> Inr record
            | None \<Rightarrow> mk_record oid UNKNOWN None))"

text \<open>The handler of an escaping error: an operation that is not finished becomes UNKNOWN.\<close>

definition tr_abort :: "string \<Rightarrow> exn \<Rightarrow> journal \<Rightarrow> journal" where
  "tr_abort oid e j =
     (case journal_query oid j of
        Some record \<Rightarrow>
          if is_terminal (r_status record) then j
          else snd (journal_finish oid UNKNOWN (Some (exn_text e)) j)
      | None \<Rightarrow> j)"

text \<open>A worker's first locked section.\<close>

definition tr_start :: "string \<Rightarrow> tr \<Rightarrow> tr" where
  "tr_start oid s =
     (case journal_command oid (tr_journal s) of
        Inl e \<Rightarrow> s\<lparr>tr_threads := (tr_threads s)(oid \<mapsto> Ending), tr_journal := tr_abort oid e (tr_journal s)\<rparr>
      | Inr _ \<Rightarrow>
          (let reconciling = (case journal_query oid (tr_journal s) of
                                Some current \<Rightarrow> r_status current = UNKNOWN | None \<Rightarrow> False) in
           case (if reconciling then journal_reopen_unknown oid (tr_journal s)
                 else journal_mark_running oid None (tr_journal s)) of
             (Inl e, j) \<Rightarrow> s\<lparr>tr_threads := (tr_threads s)(oid \<mapsto> Ending), tr_journal := tr_abort oid e j\<rparr>
           | (Inr _, j) \<Rightarrow>
               s\<lparr>tr_threads := (tr_threads s)(oid \<mapsto> Executing reconciling), tr_journal := j\<rparr>))"

definition tr_conclude :: "string \<Rightarrow> outcome \<Rightarrow> journal \<Rightarrow> journal" where
  "tr_conclude oid out j =
     (case out of
        Raised e \<Rightarrow> tr_abort oid e j
      | Finished st result \<Rightarrow>
          (case journal_finish oid st result j of
             (Inl e, j') \<Rightarrow> tr_abort oid e j'
           | (Inr _, j') \<Rightarrow> j'))"

text \<open>The remote calls of a worker up to its journal entry.\<close>

definition tr_execute :: "string \<Rightarrow> tr_env \<Rightarrow> bool \<Rightarrow> tr \<Rightarrow> tr" where
  "tr_execute oid env reconciling s =
     (case journal_command oid (tr_journal s) of
        Inl e \<Rightarrow> s
      | Inr c \<Rightarrow>
          s\<lparr>tr_threads := (tr_threads s)(oid \<mapsto> Ending),
            tr_journal := tr_conclude oid (snd (tr_body env c (tr_leases s oid) reconciling)) (tr_journal s)\<rparr>)"

text \<open>The final locked section: the lease snapshot is kept only for an UNKNOWN operation.\<close>

definition tr_cleanup :: "string \<Rightarrow> tr \<Rightarrow> tr" where
  "tr_cleanup oid s =
     (let keep = (case journal_query oid (tr_journal s) of
                    Some current \<Rightarrow> r_status current = UNKNOWN | None \<Rightarrow> False) in
      s\<lparr>tr_threads := (tr_threads s)(oid := None),
        tr_leases := (if keep then tr_leases s else (tr_leases s)(oid := None))\<rparr>)"

datatype tr_event =
    TInitialize int attach_env
  | TStop
  | TSubmit "exn option" op_command "lease option"
  | TWorker string tr_env

text \<open>A worker takes its next step: start, the remote calls, or the cleanup.\<close>

fun tr_step :: "tr_event \<Rightarrow> tr \<Rightarrow> tr" where
  "tr_step (TInitialize n env) s = snd (tr_initialize n env s)"
| "tr_step TStop s = tr_stop s"
| "tr_step (TSubmit start c snapshot) s = snd (tr_submit start c snapshot s)"
| "tr_step (TWorker oid env) s =
     (case tr_threads s oid of
        None \<Rightarrow> s
      | Some Launched \<Rightarrow> tr_start oid s
      | Some (Executing reconciling) \<Rightarrow> tr_execute oid env reconciling s
      | Some Ending \<Rightarrow> tr_cleanup oid s)"

section \<open>Invariant\<close>

fun phase_status :: "phase option \<Rightarrow> op_status \<Rightarrow> bool" where
  "phase_status (Some Launched) st = (st = ACCEPTED \<or> st = UNKNOWN)"
| "phase_status (Some (Executing _)) st = (st = RUNNING)"
| "phase_status (Some Ending) st = is_terminal st"
| "phase_status None st = is_terminal st"

definition op_ok :: "tr \<Rightarrow> string \<Rightarrow> op_record \<Rightarrow> op_command \<Rightarrow> bool" where
  \<comment> \<open>the worker, the status and the lease snapshot of one recorded operation fit together\<close>
  "op_ok s oid r c \<longleftrightarrow> Some (task_session (c_target c)) = tr_session s
     \<and> phase_status (tr_threads s oid) (r_status r)
     \<and> (c_kind c = ADD \<longrightarrow> \<not> is_resolved (r_status r) \<longrightarrow>
          (\<exists>l. tr_leases s oid = Some l \<and> l_lease_id l = c_lease_id c))"

definition tr_inv :: "tr \<Rightarrow> bool" where
  "tr_inv s \<longleftrightarrow> journal_inv (tr_journal s)
     \<and> (\<forall>oid. tr_threads s oid \<noteq> None \<or> tr_leases s oid \<noteq> None \<longrightarrow> j_records (tr_journal s) oid \<noteq> None)
     \<and> (\<forall>oid r c. j_records (tr_journal s) oid = Some r \<longrightarrow> j_commands (tr_journal s) oid = Some c
          \<longrightarrow> op_ok s oid r c)"

lemma tr_inv_op:
  "tr_inv s \<Longrightarrow> j_records (tr_journal s) oid = Some r \<Longrightarrow>
     \<exists>c. j_commands (tr_journal s) oid = Some c \<and> op_ok s oid r c"
  unfolding tr_inv_def by (metis journal_inv_command)

lemma new_tr_inv: "tr_inv (new_tr session)"
  by (simp add: tr_inv_def new_tr_def journal_inv_new) (simp add: new_journal_def)

text \<open>A step that touches one operation.\<close>

lemma tr_inv_one:
  assumes inv: "tr_inv s" and j: "journal_inv (tr_journal s')"
    and cmd: "\<And>o'. o' \<noteq> oid \<Longrightarrow> j_commands (tr_journal s') o' = j_commands (tr_journal s) o'"
    and rec: "\<And>o'. o' \<noteq> oid \<Longrightarrow> j_records (tr_journal s') o' = j_records (tr_journal s) o'"
    and thr: "\<And>o'. o' \<noteq> oid \<Longrightarrow> tr_threads s' o' = tr_threads s o'"
    and lea: "\<And>o'. o' \<noteq> oid \<Longrightarrow> tr_leases s' o' = tr_leases s o'"
    and ses: "tr_session s' = tr_session s"
    and c: "j_commands (tr_journal s') oid = Some c"
    and r: "j_records (tr_journal s') oid = Some r" and ok: "op_ok s' oid r c"
  shows "tr_inv s'"
proof -
  have "op_ok s' o' r' c'" if "j_records (tr_journal s') o' = Some r'" "j_commands (tr_journal s') o' = Some c'" for o' r' c'
  proof (cases "o' = oid")
    case True
    with that c r ok show ?thesis by simp
  next
    case False
    with that inv rec cmd have "op_ok s o' r' c'" unfolding tr_inv_def by metis
    with False show ?thesis by (simp add: op_ok_def thr lea ses)
  qed
  moreover have "j_records (tr_journal s') o' \<noteq> None" if "tr_threads s' o' \<noteq> None \<or> tr_leases s' o' \<noteq> None" for o'
  proof (cases "o' = oid")
    case False
    with that inv rec thr lea show ?thesis unfolding tr_inv_def by metis
  qed (simp add: r)
  ultimately show ?thesis using j unfolding tr_inv_def by blast
qed

text \<open>What the journal operations do to an operation that is not finished.\<close>

lemma finish_open:
  assumes "journal_inv j" and "j_records j oid = Some r" and "\<not> is_terminal (r_status r)" and "is_terminal st"
  shows "fst (journal_finish oid st res j) = Inr (r\<lparr>r_status := st, r_result := res\<rparr>)
    \<and> j_records (snd (journal_finish oid st res j)) = (j_records j)(oid \<mapsto> r\<lparr>r_status := st, r_result := res\<rparr>)
    \<and> j_commands (snd (journal_finish oid st res j)) = j_commands j"
  using assms journal_inv_command [OF assms(1,2)] by (auto simp: journal_finish_def Let_def)

lemma abort_open:
  assumes "journal_inv j" and "j_records j oid = Some r" and "\<not> is_terminal (r_status r)"
  shows "journal_inv (tr_abort oid e j)
    \<and> j_records (tr_abort oid e j) = (j_records j)(oid \<mapsto> r\<lparr>r_status := UNKNOWN, r_result := Some (exn_text e)\<rparr>)
    \<and> j_commands (tr_abort oid e j) = j_commands j"
  using assms finish_open [OF assms, of UNKNOWN] journal_finish_inv [OF assms(1)]
  by (simp add: tr_abort_def journal_query_def)

lemma conclude_open:
  assumes "journal_inv j" and "j_records j oid = Some r" and "\<not> is_terminal (r_status r)"
  shows "journal_inv (tr_conclude oid out j) \<and> j_commands (tr_conclude oid out j) = j_commands j
    \<and> (\<exists>r'. j_records (tr_conclude oid out j) = (j_records j)(oid \<mapsto> r') \<and> is_terminal (r_status r'))"
proof (cases out)
  case (Raised e)
  with abort_open [OF assms] show ?thesis by (auto simp: tr_conclude_def)
next
  case (Finished st res)
  show ?thesis
  proof (cases "is_terminal st")
    case True
    note fin = finish_open [OF assms True, of res] journal_finish_inv [OF assms(1), of oid st res]
    show ?thesis
    proof (cases "journal_finish oid st res j")
      case (Pair x j')
      with fin have "x = Inr (r\<lparr>r_status := st, r_result := res\<rparr>)" by simp
      with Pair fin True Finished show ?thesis by (auto simp: tr_conclude_def)
    qed
  next
    case False
    then have "journal_finish oid st res j = (Inl (ValueError ''finish requires SUCCEEDED, FAILED, or UNKNOWN''), j)"
      by (simp add: journal_finish_def)
    with Finished abort_open [OF assms] show ?thesis by (auto simp: tr_conclude_def)
  qed
qed

lemma begin_cases:
  assumes "journal_inv j"
  obtains (known) "j_records (snd (journal_begin c j)) = j_records j" "j_commands (snd (journal_begin c j)) = j_commands j"
      "\<And>r. fst (journal_begin c j) = Inr r \<Longrightarrow>
         j_records j (c_operation_id c) = Some r \<and> j_commands j (c_operation_id c) = Some c"
  | (fresh) r where "j_records j (c_operation_id c) = None" "fst (journal_begin c j) = Inr r" "r_status r = ACCEPTED"
      "j_records (snd (journal_begin c j)) = (j_records j)(c_operation_id c \<mapsto> r)"
      "j_commands (snd (journal_begin c j)) = (j_commands j)(c_operation_id c \<mapsto> c)"
proof (cases "\<exists>r. j_records j (c_operation_id c) = None \<and> fst (journal_begin c j) = Inr r")
  case True
  then obtain r where r: "j_records j (c_operation_id c) = None" "fst (journal_begin c j) = Inr r" by blast
  then have "r_status r = ACCEPTED"
      "j_records (snd (journal_begin c j)) = (j_records j)(c_operation_id c \<mapsto> r)"
      "j_commands (snd (journal_begin c j)) = (j_commands j)(c_operation_id c \<mapsto> c)"
    by (auto simp: journal_begin_def mk_record_def Let_def split: option.splits if_splits sum.splits)
  with r fresh show ?thesis by blast
next
  case False
  then have "j_records (snd (journal_begin c j)) = j_records j \<and> j_commands (snd (journal_begin c j)) = j_commands j
     \<and> (\<forall>r. fst (journal_begin c j) = Inr r \<longrightarrow>
         j_records j (c_operation_id c) = Some r \<and> j_commands j (c_operation_id c) = Some c)"
    by (auto simp: journal_begin_def mk_record_def Let_def split: option.splits if_splits sum.splits)
  with known show ?thesis by blast
qed

lemma tr_start_inv:
  assumes "tr_inv s" and "tr_threads s oid = Some Launched"
  shows "tr_inv (tr_start oid s)"
proof -
  have j: "journal_inv (tr_journal s)" using assms(1) by (simp add: tr_inv_def)
  obtain r where r: "j_records (tr_journal s) oid = Some r" using assms unfolding tr_inv_def by auto
  obtain c where c: "j_commands (tr_journal s) oid = Some c" "op_ok s oid r c"
    using tr_inv_op [OF assms(1) r] by blast
  then have st: "r_status r = ACCEPTED \<or> r_status r = UNKNOWN" using assms(2) by (simp add: op_ok_def)
  define r' where "r' = (if r_status r = UNKNOWN then r\<lparr>r_status := RUNNING, r_result := None\<rparr> else r\<lparr>r_status := RUNNING\<rparr>)"
  have eq: "tr_start oid s = s\<lparr>tr_threads := (tr_threads s)(oid \<mapsto> Executing (r_status r = UNKNOWN)),
      tr_journal := (tr_journal s)\<lparr>j_records := (j_records (tr_journal s))(oid \<mapsto> r')\<rparr>\<rparr>"
    using st r c by (auto simp: tr_start_def journal_command_def journal_query_def journal_reopen_unknown_def
        journal_mark_running_def r'_def Let_def)
  have j': "journal_inv (tr_journal (tr_start oid s))"
    unfolding eq using journal_inv_set_record [OF j r, of r'] st journal_inv_rid [OF j r] by (auto simp: r'_def)
  show ?thesis
    by (rule tr_inv_one [OF assms(1) j', of oid c r'])
      (use eq r c st in \<open>auto simp: r'_def op_ok_def split: if_splits\<close>)
qed

lemma tr_execute_inv:
  assumes "tr_inv s" and "tr_threads s oid = Some (Executing b)"
  shows "tr_inv (tr_execute oid env b s)"
proof -
  have j: "journal_inv (tr_journal s)" using assms(1) by (simp add: tr_inv_def)
  obtain r where r: "j_records (tr_journal s) oid = Some r" using assms unfolding tr_inv_def by auto
  obtain c where c: "j_commands (tr_journal s) oid = Some c" "op_ok s oid r c"
    using tr_inv_op [OF assms(1) r] by blast
  then have st: "\<not> is_terminal (r_status r)" "\<not> is_resolved (r_status r)" using assms(2) by (simp_all add: op_ok_def)
  let ?out = "snd (tr_body env c (tr_leases s oid) b)"
  from conclude_open [OF j r st(1), of ?out] obtain r' where
    r': "journal_inv (tr_conclude oid ?out (tr_journal s))"
      "j_commands (tr_conclude oid ?out (tr_journal s)) = j_commands (tr_journal s)"
      "j_records (tr_conclude oid ?out (tr_journal s)) = (j_records (tr_journal s))(oid \<mapsto> r')" "is_terminal (r_status r')"
    by blast
  have eq: "tr_execute oid env b s = s\<lparr>tr_threads := (tr_threads s)(oid \<mapsto> Ending),
            tr_journal := tr_conclude oid ?out (tr_journal s)\<rparr>"
    using c by (simp add: tr_execute_def journal_command_def)
  show ?thesis
    by (rule tr_inv_one [OF assms(1), of _ oid c r']) (use eq r' c st in \<open>auto simp: op_ok_def\<close>)
qed

lemma unknown_or_resolved: "is_terminal st \<Longrightarrow> is_resolved st \<or> st = UNKNOWN"
  by (cases st) auto

lemma tr_cleanup_inv:
  assumes "tr_inv s" and "tr_threads s oid = Some Ending"
  shows "tr_inv (tr_cleanup oid s)"
proof -
  have j: "journal_inv (tr_journal s)" using assms(1) by (simp add: tr_inv_def)
  obtain r where r: "j_records (tr_journal s) oid = Some r" using assms unfolding tr_inv_def by auto
  obtain c where c: "j_commands (tr_journal s) oid = Some c" "op_ok s oid r c"
    using tr_inv_op [OF assms(1) r] by blast
  then have "is_terminal (r_status r)" using assms(2) by (simp add: op_ok_def)
  then have st: "is_resolved (r_status r) \<or> r_status r = UNKNOWN" by (rule unknown_or_resolved)
  show ?thesis
    by (rule tr_inv_one [OF assms(1), of _ oid c r])
      (use j r c st in \<open>auto simp: tr_cleanup_def Let_def op_ok_def journal_query_def\<close>)
qed

lemma tr_inv_journal_only:
  assumes "tr_inv s" and "journal_inv j" and "j_records j = j_records (tr_journal s)"
    and "j_commands j = j_commands (tr_journal s)"
  shows "tr_inv (s\<lparr>tr_journal := j\<rparr>)"
  using assms unfolding tr_inv_def op_ok_def by simp

lemma tr_submit_guarded:
  assumes "snapshot = None \<or> l_lease_id (the snapshot) = c_lease_id c" and "c_kind c = ADD \<longrightarrow> snapshot \<noteq> None"
    and "tr_ready s" and "tr_session s = Some (task_session (c_target c))"
  shows "tr_submit start c snapshot s =
    (let oid = c_operation_id c; existing = journal_query oid (tr_journal s) in
         case journal_begin c (tr_journal s) of
           (Inl e, j) \<Rightarrow> (Inl e, s\<lparr>tr_journal := j\<rparr>)
         | (Inr record, j) \<Rightarrow>
             (let s1 = s\<lparr>tr_journal := j\<rparr> in
              if c_kind c = ADD \<and> tr_leases s oid \<noteq> None
                 \<and> \<not> lease_eq (the (tr_leases s oid)) (the snapshot)
              then (Inl (ValueError ''conflicting lease snapshot replay''), s1)
              else
                (let s2 = (if c_kind c = ADD \<and> tr_leases s oid = None
                           then s1\<lparr>tr_leases := (tr_leases s)(oid := snapshot)\<rparr> else s1);
                     reconciliation = (existing \<noteq> None \<and> r_status (the existing) = UNKNOWN
                        \<and> tr_threads s oid = None) in
                 if existing = None \<or> reconciliation
                 then tr_launch start c reconciliation record s2
                 else (Inr record, s2))))"
proof -
  have "\<not> (snapshot \<noteq> None \<and> l_lease_id (the snapshot) \<noteq> c_lease_id c)" "\<not> (c_kind c = ADD \<and> snapshot = None)"
    "\<not> (\<not> tr_ready s \<or> tr_session s = None)" "\<not> Some (task_session (c_target c)) \<noteq> tr_session s"
    using assms by auto
  then show ?thesis unfolding tr_submit_def Let_def by (simp only: if_False)
qed

lemma tr_submit_inv:
  assumes inv: "tr_inv s"
  shows "tr_inv (snd (tr_submit start c snapshot s))"
proof (cases "snapshot \<noteq> None \<and> l_lease_id (the snapshot) \<noteq> c_lease_id c \<or> c_kind c = ADD \<and> snapshot = None
    \<or> \<not> tr_ready s \<or> tr_session s = None \<or> Some (task_session (c_target c)) \<noteq> tr_session s")
  case True
  then have "snd (tr_submit start c snapshot s) = s" by (auto simp: tr_submit_def Let_def)
  with inv show ?thesis by simp
next
  case False
  then have g: "snapshot = None \<or> l_lease_id (the snapshot) = c_lease_id c" "c_kind c = ADD \<longrightarrow> snapshot \<noteq> None"
    "tr_ready s" "tr_session s = Some (task_session (c_target c))" by auto
  let ?oid = "c_operation_id c" and ?j = "tr_journal s"
  have j: "journal_inv ?j" using inv by (simp add: tr_inv_def)
  have jb: "journal_inv (snd (journal_begin c ?j))" by (rule journal_begin_inv [OF j])
  obtain x j1 where b: "journal_begin c ?j = (x, j1)" by (cases "journal_begin c ?j")
  let ?existing = "journal_query ?oid ?j"
  let ?rec = "?existing \<noteq> None \<and> r_status (the ?existing) = UNKNOWN \<and> tr_threads s ?oid = None"
  let ?s1 = "s\<lparr>tr_journal := j1\<rparr>"
  let ?s2 = "if c_kind c = ADD \<and> tr_leases s ?oid = None then ?s1\<lparr>tr_leases := (tr_leases s)(?oid := snapshot)\<rparr> else ?s1"
  show ?thesis
  proof (cases rule: begin_cases [OF j, of c])
    case 1
    with b have k: "j_records j1 = j_records ?j" "j_commands j1 = j_commands ?j" by simp_all
    with jb b have s1: "tr_inv ?s1" by (intro tr_inv_journal_only [OF inv]) simp_all
    show ?thesis
    proof (cases x)
      case (Inl e)
      with b g s1 show ?thesis by (simp add: tr_submit_guarded [OF g] Let_def)
    next
      case (Inr r)
      with 1(3) b have rc: "j_records ?j ?oid = Some r" "j_commands ?j ?oid = Some c" by simp_all
      with tr_inv_op [OF inv rc(1)] have ok: "op_ok s ?oid r c" by auto
      have s2: "tr_inv ?s2"
        by (rule tr_inv_one [OF inv, of _ ?oid c r]) (use jb b k rc ok g in \<open>auto simp: op_ok_def\<close>)
      have ex: "?existing = Some r" using rc by (simp add: journal_query_def)
      show ?thesis
      proof (cases "c_kind c = ADD \<and> tr_leases s ?oid \<noteq> None \<and> \<not> lease_eq (the (tr_leases s ?oid)) (the snapshot)")
        case True
        with b g Inr s1 show ?thesis by (simp add: tr_submit_guarded [OF g] Let_def)
      next
        case False
        then have eq: "snd (tr_submit start c snapshot s) =
            (if ?rec then snd (tr_launch start c True r ?s2) else ?s2)"
          using b Inr ex by (auto simp: tr_submit_guarded [OF g] Let_def)
        have thr2: "tr_threads ?s2 = tr_threads s" by simp
        have launched: "tr_inv (?s2\<lparr>tr_threads := (tr_threads ?s2)(?oid := t)\<rparr>)"
          if "?rec" and t: "t = Some Launched \<or> t = None" for t
          by (rule tr_inv_one [OF s2, of _ ?oid c r])
            (use that jb b k rc ok g ex in \<open>auto simp: op_ok_def\<close>)
        show ?thesis unfolding eq
          using launched [of "Some Launched"] launched [of None] s2
          by (cases start) (simp_all add: tr_launch_def Let_def)
      qed
    qed
  next
    case (2 r)
    note fresh = 2
    with b have f: "x = Inr r" "j_records j1 = (j_records ?j)(?oid \<mapsto> r)" "j_commands j1 = (j_commands ?j)(?oid \<mapsto> c)"
      by simp_all
    have none: "tr_threads s ?oid = None" "tr_leases s ?oid = None" "?existing = None"
      using inv fresh(1) unfolding tr_inv_def journal_query_def by blast+
    have eq: "snd (tr_submit start c snapshot s) = snd (tr_launch start c False r ?s2)"
      using b g f none by (simp add: tr_submit_guarded [OF g] Let_def)
    have jj: "journal_inv j1" using jb b by simp
    have r1: "j_records j1 ?oid = Some r" "\<not> is_terminal (r_status r)" using f fresh by simp_all
    show ?thesis
    proof (cases start)
      case None
      show ?thesis unfolding eq
        by (rule tr_inv_one [OF inv, of _ ?oid c r])
          (use None jj f g none fresh in \<open>auto simp: tr_launch_def op_ok_def\<close>)
    next
      case (Some e)
      let ?m = "Some (''failed to launch lifecycle worker: '' @ exn_text e)"
      note fin = finish_open [OF jj r1, of FAILED ?m] journal_finish_inv [OF jj, of ?oid FAILED ?m]
      obtain y j2 where y: "journal_finish ?oid FAILED ?m j1 = (y, j2)" by (cases "journal_finish ?oid FAILED ?m j1")
      with fin have y': "y = Inr (r\<lparr>r_status := FAILED, r_result := ?m\<rparr>)" "journal_inv j2"
        "j_records j2 = (j_records j1)(?oid \<mapsto> r\<lparr>r_status := FAILED, r_result := ?m\<rparr>)" "j_commands j2 = j_commands j1"
        by simp_all
      have eq2: "snd (tr_launch start c False r ?s2) = s\<lparr>tr_journal := j2, tr_threads := (tr_threads s)(?oid := None),
          tr_leases := (tr_leases s)(?oid := None)\<rparr>"
        using Some y y'(1) none(2) by (cases "c_kind c = ADD") (simp_all add: tr_launch_def Let_def del: append.simps)
      show ?thesis unfolding eq eq2
        by (rule tr_inv_one [OF inv, of _ ?oid c "r\<lparr>r_status := FAILED, r_result := ?m\<rparr>"])
          (use y' f g in \<open>auto simp: op_ok_def\<close>)
    qed
  qed
qed

lemma tr_step_inv: "tr_inv s \<Longrightarrow> tr_inv (tr_step e s)"
proof (cases e)
  case (TInitialize n env)
  assume "tr_inv s"
  with TInitialize show ?thesis
    by (auto simp: tr_inv_def op_ok_def tr_initialize_def Let_def split: option.split)
next
  case TStop
  assume "tr_inv s"
  with TStop show ?thesis by (simp add: tr_inv_def op_ok_def tr_stop_def)
next
  case (TSubmit start c snapshot)
  assume "tr_inv s"
  with TSubmit show ?thesis by (simp add: tr_submit_inv)
next
  case (TWorker oid env)
  assume "tr_inv s"
  with TWorker show ?thesis
    by (auto intro: tr_start_inv tr_execute_inv tr_cleanup_inv split: option.split phase.split)
qed

interpretation runner: invariant_machine tr_inv tr_step
  by unfold_locales (rule tr_step_inv)

lemma tr_run_inv: "tr_inv (fold tr_step es (new_tr session))"
  by (rule runner.run_inv [OF new_tr_inv])

section \<open>Outcomes of the body\<close>

definition acked :: "tr_env \<Rightarrow> bool" where
  \<comment> \<open>the group scheduler confirmed the ledger write, at the first or the second attempt\<close>
  "acked env \<longleftrightarrow> fst (ev_advance env) = Inr () \<or> snd (ev_advance env) = Inr ()"

definition advance_calls :: "tr_env \<Rightarrow> op_evidence \<Rightarrow> call list" where
  "advance_calls env ev = (if fst (ev_advance env) = Inr () then [CallAdvance ev] else [CallAdvance ev, CallAdvance ev])"

lemma last_advance_calls [simp]: "last (advance_calls env ev) = CallAdvance ev" "advance_calls env ev \<noteq> []"
  "set (advance_calls env ev) = {CallAdvance ev}"
  by (simp_all add: advance_calls_def)

lemma prefix_Finished:
  "prefix_calls [c] r = (cs, Finished st m) \<longleftrightarrow> (\<exists>cs'. r = (cs', Finished st m) \<and> cs = c # cs')"
  by (cases r) (auto simp: prefix_calls_def)

lemma emit_Finished:
  "emit c r k = (cs, Finished st m) \<longleftrightarrow> (\<exists>v cs'. r = Inr v \<and> k v = (cs', Finished st m) \<and> cs = c # cs')"
  by (auto simp: emit_def prefix_Finished split: sum.splits)

lemma advance_Finished:
  "tr_advance env ev (\<lambda>_. ([], Finished st' m')) = (cs, Finished st m) \<longleftrightarrow>
     acked env \<and> st = st' \<and> m = m' \<and> cs = advance_calls env ev"
  by (cases "fst (ev_advance env)"; cases "snd (ev_advance env)")
    (auto simp: tr_advance_def emit_def prefix_calls_def acked_def advance_calls_def)

lemma reply_evidence_Some: "reply_evidence r = Some ev \<longleftrightarrow> r = Evid ev"
  by (cases r) auto

lemma require_Finished:
  "tr_require c r ty k = (cs, Finished st m) \<longleftrightarrow> (\<exists>ev. r = Evid ev \<and> e_operation_id ev = c_operation_id c
     \<and> e_type ev = ty \<and> k ev = (cs, Finished st m))"
  by (cases r) (auto simp: tr_require_def require_evidence_def)

lemma failed_release_Finished:
  "tr_failed_release env c r msg k = (cs, Finished st m) \<longleftrightarrow>
     (\<forall>ev. r = Evid ev \<longrightarrow> e_type ev \<noteq> RELEASED) \<and> k () = (cs, Finished st m)
     \<or> (\<exists>ev. r = Evid ev \<and> e_type ev = RELEASED \<and> e_operation_id ev = c_operation_id c
          \<and> acked env \<and> st = FAILED \<and> m = Some msg \<and> cs = advance_calls env ev)"
  by (cases r) (auto simp: tr_failed_release_def require_Finished advance_Finished)

lemma succeeded_Finished:
  "succeeded ev = (cs, Finished st m) \<longleftrightarrow> cs = [] \<and> st = SUCCEEDED \<and> m = Some (evidence_value (e_type ev))"
  by (auto simp: succeeded_def)

lemma advance_succeeded:
  "tr_advance env ev (\<lambda>_. succeeded ev) = (cs, Finished st m) \<longleftrightarrow>
     acked env \<and> st = SUCCEEDED \<and> m = Some (evidence_value (e_type ev)) \<and> cs = advance_calls env ev"
  by (simp add: succeeded_def advance_Finished)

lemmas finished_iffs = emit_Finished prefix_Finished require_Finished failed_release_Finished
  succeeded_Finished advance_succeeded

lemma release_Finished:
  "tr_release env c service = (cs, Finished st m) \<longleftrightarrow>
     (\<exists>sv ev. service = Evid sv \<and> e_type sv = SERVICE_COMMITTED \<and> e_operation_id sv = c_operation_id c
        \<and> ev_finalize env = Inr (Evid ev) \<and> e_type ev = RELEASED \<and> e_operation_id ev = c_operation_id c
        \<and> acked env \<and> st = SUCCEEDED \<and> m = Some ''RELEASED'' \<and> cs = CallFinalize # advance_calls env ev)"
  unfolding tr_release_def finished_iffs by (cases service) (auto simp: finished_iffs)

lemma prepare_exit_Finished:
  "tr_prepare_exit env c = (cs, Finished st m) \<longleftrightarrow>
     (\<exists>e k. ev_prepare_exit env = Inl e \<and> ev_pending_target env = Inl (KeyError k) \<and> st = FAILED
        \<and> m = Some (''exit preflight rejected before owner mutation: '' @ exn_text e) \<and> cs = [CallPrepareExit, CallPendingTarget])
     \<or> (\<exists>ready sv cs'. ev_prepare_exit env = Inr (Evid ready) \<and> e_type ready = EXIT_READY
        \<and> e_operation_id ready = c_operation_id c \<and> ev_remove_commit env = Inr sv
        \<and> tr_release env c sv = (cs', Finished st m) \<and> cs = CallPrepareExit # CallRemoveCommit # cs')"
proof (cases "ev_prepare_exit env")
  case (Inl e)
  then show ?thesis
    by (auto simp: tr_prepare_exit_def split: sum.split exn.split)
next
  case (Inr ready)
  then show ?thesis
    by (cases ready) (auto simp: tr_prepare_exit_def finished_iffs)
qed

lemma exit_Finished:
  "tr_exit env c reconciling = (cs, Finished st m) \<longleftrightarrow>
     \<not> reconciling \<and> tr_prepare_exit env c = (cs, Finished st m)
     \<or> reconciling \<and> (\<exists>ev. ev_query_release env = Inr (Evid ev) \<and> e_type ev = RELEASED
          \<and> e_operation_id ev = c_operation_id c \<and> acked env \<and> st = SUCCEEDED \<and> m = Some ''RELEASED''
          \<and> cs = CallQueryRelease # advance_calls env ev)
     \<or> reconciling \<and> ev_query_release env = Inr Absent \<and> (\<exists>sv cs'. ev_reconcile_exit env = Inr sv
          \<and> (if sv = Absent then tr_prepare_exit env c else tr_release env c sv) = (cs', Finished st m)
          \<and> cs = CallQueryRelease # CallReconcileExit # cs')"
proof (cases "ev_query_release env")
  case (Inl e)
  then show ?thesis by (simp add: tr_exit_def emit_def)
next
  case (Inr prior)
  then show ?thesis
    by (cases prior) (auto simp: tr_exit_def finished_iffs)
qed

text \<open>
  An operation is recorded SUCCEEDED only on the owners' evidence: an exit (DONATE or REMOVE)
  only after the group scheduler acknowledged the RELEASED evidence that the release of this
  operation produced, a RESTORE only after it acknowledged the SERVICE_COMMITTED evidence, an ADD
  only on the SERVICE_COMMITTED evidence of its bootstrap; the result is the type of that evidence.
\<close>

theorem tr_success_acknowledged:
  assumes "tr_body env c snapshot reconciling = (calls, Finished SUCCEEDED m)"
  shows "\<exists>ev. e_operation_id ev = c_operation_id c \<and> m = Some (evidence_value (e_type ev)) \<and>
    (case c_kind c of
       ADD \<Rightarrow> e_type ev = SERVICE_COMMITTED \<and> ev_bootstrap env = Inr (Evid ev) \<and> last calls = CallBootstrap
     | RESTORE \<Rightarrow> e_type ev = SERVICE_COMMITTED \<and> ev_restore env = Inr (Evid ev)
         \<and> last calls = CallAdvance ev \<and> acked env
     | _ \<Rightarrow> e_type ev = RELEASED \<and> last calls = CallAdvance ev \<and> acked env
         \<and> (ev_finalize env = Inr (Evid ev) \<or> reconciling \<and> ev_query_release env = Inr (Evid ev)))"
proof (cases "c_kind c")
  case ADD
  with assms show ?thesis
    by (auto simp: tr_body_def tr_add_def finished_iffs split: option.splits sum.splits)
next
  case RESTORE
  with assms show ?thesis
    by (auto simp: tr_body_def tr_restore_def finished_iffs)
next
  case DONATE
  with assms show ?thesis
    by (auto simp: tr_body_def exit_Finished prepare_exit_Finished release_Finished split: if_splits)
next
  case REMOVE
  with assms show ?thesis
    by (auto simp: tr_body_def exit_Finished prepare_exit_Finished release_Finished split: if_splits)
qed

text \<open>
  An operation is recorded FAILED only when nothing of it is left behind: an ADD whose lease
  snapshot was refused before any call; an ADD or RESTORE whose owner proved the runtime RELEASED
  and whose release the group scheduler acknowledged; or an exit that was rejected before the
  Rollouter bound it to a target, so that neither the membership nor the runtime was touched.
  Every other failure leaves the operation UNKNOWN.
\<close>

theorem tr_failure_resolved:
  assumes "tr_body env c snapshot reconciling = (calls, Finished FAILED m)"
  shows "c_kind c = ADD \<and> calls = []
    \<or> c_kind c \<in> {ADD, RESTORE} \<and> (\<exists>ev. last calls = CallAdvance ev \<and> e_type ev = RELEASED
         \<and> e_operation_id ev = c_operation_id c \<and> acked env
         \<and> Inr (Evid ev) \<in> {ev_prepare env, ev_bootstrap env, ev_restore env})
    \<or> c_kind c \<in> {DONATE, REMOVE} \<and> (\<exists>k. ev_pending_target env = Inl (KeyError k))
         \<and> set calls \<subseteq> {CallQueryRelease, CallReconcileExit, CallPrepareExit, CallPendingTarget}"
proof (cases "c_kind c")
  case ADD
  with assms show ?thesis
    by (auto simp: tr_body_def tr_add_def finished_iffs split: option.splits sum.splits)
next
  case RESTORE
  with assms show ?thesis
    by (auto simp: tr_body_def tr_restore_def finished_iffs)
next
  case DONATE
  with assms show ?thesis
    by (auto simp: tr_body_def exit_Finished prepare_exit_Finished release_Finished split: if_splits)
next
  case REMOVE
  with assms show ?thesis
    by (auto simp: tr_body_def exit_Finished prepare_exit_Finished release_Finished split: if_splits)
qed

section \<open>The protocol of an exit\<close>

text \<open>The abstract order of the remote calls of a DONATE or REMOVE.\<close>

inductive exit_next :: "call \<Rightarrow> call \<Rightarrow> bool" where
  "exit_next CallQueryRelease CallReconcileExit"
| "exit_next CallQueryRelease (CallAdvance ev)"
| "exit_next CallReconcileExit CallPrepareExit"
| "exit_next CallReconcileExit CallFinalize"
| "exit_next CallPrepareExit CallPendingTarget"
| "exit_next CallPrepareExit CallRemoveCommit"
| "exit_next CallRemoveCommit CallFinalize"
| "exit_next CallFinalize (CallAdvance ev)"
| "exit_next (CallAdvance ev) (CallAdvance ev)"

code_pred exit_next .

inductive_simps exit_next_iffs [simp]: "exit_next CallQueryRelease x" "exit_next CallReconcileExit x"
  "exit_next CallPrepareExit x" "exit_next CallRemoveCommit x" "exit_next CallFinalize x" "exit_next (CallAdvance ev) x"

definition proves :: "reply res \<Rightarrow> op_command \<Rightarrow> evidence_type \<Rightarrow> bool" where
  "proves r c ty \<longleftrightarrow> (\<exists>ev. r = Inr (Evid ev) \<and> e_type ev = ty \<and> e_operation_id ev = c_operation_id c)"

definition advance_run :: "call list \<Rightarrow> op_evidence \<Rightarrow> bool" where
  "advance_run cs ev \<longleftrightarrow> cs = [CallAdvance ev] \<or> cs = [CallAdvance ev, CallAdvance ev]"

lemma advance_calls_any: "advance_run (fst (tr_advance env ev (\<lambda>_. succeeded f))) ev"
  by (auto simp: tr_advance_def emit_def prefix_calls_def succeeded_def advance_run_def split: sum.split)

lemma require_any:
  "tr_require c r ty k = (cs, out) \<Longrightarrow> cs = [] \<or> (\<exists>ev. r = Evid ev \<and> e_operation_id ev = c_operation_id c
     \<and> e_type ev = ty \<and> k ev = (cs, out))"
  by (cases r) (auto simp: tr_require_def require_evidence_def split: if_splits)

lemma emit_any:
  "emit x r k = (cs, out) \<Longrightarrow> cs = [x] \<or> (\<exists>v cs'. r = Inr v \<and> k v = (cs', out) \<and> cs = x # cs')"
  by (auto simp: emit_def prefix_calls_def split: sum.splits)

text \<open>Calls after a point that already holds the service evidence.\<close>

lemma release_any:
  assumes "tr_release env c sv = (cs, out)"
  shows "cs = [] \<or> proves (Inr sv) c SERVICE_COMMITTED \<and>
    (cs = [CallFinalize] \<or> (\<exists>ev cs'. ev_finalize env = Inr (Evid ev) \<and> e_type ev = RELEASED
       \<and> e_operation_id ev = c_operation_id c \<and> cs = CallFinalize # cs' \<and> advance_run cs' ev))"
proof -
  from assms have "cs = [] \<or> proves (Inr sv) c SERVICE_COMMITTED \<and>
      emit CallFinalize (ev_finalize env) (\<lambda>released. tr_require c released RELEASED (\<lambda>final.
         tr_advance env final (\<lambda>_. succeeded final))) = (cs, out)"
    unfolding tr_release_def by (auto dest!: require_any simp: proves_def)
  then show ?thesis
  proof (elim disjE conjE)
    assume p: "proves (Inr sv) c SERVICE_COMMITTED" and "emit CallFinalize (ev_finalize env)
      (\<lambda>released. tr_require c released RELEASED (\<lambda>final. tr_advance env final (\<lambda>_. succeeded final))) = (cs, out)"
    from emit_any [OF this(2)] show ?thesis
    proof (elim disjE exE conjE)
      fix v cs' assume "ev_finalize env = Inr v" "cs = CallFinalize # cs'"
        "tr_require c v RELEASED (\<lambda>final. tr_advance env final (\<lambda>_. succeeded final)) = (cs', out)"
      with require_any [OF this(3)] p show ?thesis using advance_calls_any [of env] by (metis fst_conv)
    qed (use p in simp)
  qed simp
qed

lemma prepare_exit_any:
  assumes "tr_prepare_exit env c = (cs, out)"
  shows "cs = [CallPrepareExit, CallPendingTarget] \<or> cs = [CallPrepareExit]
    \<or> proves (ev_prepare_exit env) c EXIT_READY \<and> (cs = [CallPrepareExit, CallRemoveCommit] \<or>
        (\<exists>sv cs'. ev_remove_commit env = Inr sv \<and> tr_release env c sv = (cs', out) \<and> cs = CallPrepareExit # CallRemoveCommit # cs'))"
proof (cases "ev_prepare_exit env")
  case (Inl e)
  with assms show ?thesis by (auto simp: tr_prepare_exit_def)
next
  case (Inr ready)
  with assms obtain cs1 where c1: "cs = CallPrepareExit # cs1"
    "tr_require c ready EXIT_READY (\<lambda>_. emit CallRemoveCommit (ev_remove_commit env) (tr_release env c)) = (cs1, out)"
    by (auto simp: tr_prepare_exit_def prefix_calls_def prod_eq_iff)
  from require_any [OF c1(2)] show ?thesis
  proof (elim disjE exE conjE)
    fix ev assume e: "ready = Evid ev" "e_operation_id ev = c_operation_id c" "e_type ev = EXIT_READY"
      "emit CallRemoveCommit (ev_remove_commit env) (tr_release env c) = (cs1, out)"
    from emit_any [OF e(4)] e(1-3) Inr c1(1) show ?thesis by (auto simp: proves_def)
  qed (use c1 in simp)
qed

lemma exit_any:
  assumes "tr_exit env c reconciling = (cs, out)"
  obtains "\<not> reconciling" "tr_prepare_exit env c = (cs, out)"
  | "reconciling" "cs = [CallQueryRelease]"
  | ev cs' where "reconciling" "ev_query_release env = Inr (Evid ev)" "e_type ev = RELEASED"
      "e_operation_id ev = c_operation_id c" "cs = CallQueryRelease # cs'" "advance_run cs' ev"
  | "reconciling" "cs = [CallQueryRelease, CallReconcileExit]"
  | cs' where "reconciling" "tr_prepare_exit env c = (cs', out)" "cs = CallQueryRelease # CallReconcileExit # cs'"
  | sv cs' where "reconciling" "ev_reconcile_exit env = Inr sv" "tr_release env c sv = (cs', out)"
      "cs = CallQueryRelease # CallReconcileExit # cs'"
proof (cases reconciling)
  case False
  with assms that(1) show ?thesis by (simp add: tr_exit_def)
next
  case r: True
  note out = that
  from assms r have "emit CallQueryRelease (ev_query_release env) (\<lambda>prior.
        if prior \<noteq> Absent
        then tr_require c prior RELEASED (\<lambda>final. tr_advance env final (\<lambda>_. succeeded final))
        else emit CallReconcileExit (ev_reconcile_exit env) (\<lambda>service.
          if service = Absent then tr_prepare_exit env c else tr_release env c service)) = (cs, out)"
    by (simp add: tr_exit_def)
  from emit_any [OF this] show ?thesis
  proof (elim disjE exE conjE)
    fix prior cs1
    assume q: "ev_query_release env = Inr prior" and cs: "cs = CallQueryRelease # cs1"
      and k: "(if prior \<noteq> Absent
        then tr_require c prior RELEASED (\<lambda>final. tr_advance env final (\<lambda>_. succeeded final))
        else emit CallReconcileExit (ev_reconcile_exit env) (\<lambda>service.
          if service = Absent then tr_prepare_exit env c else tr_release env c service)) = (cs1, out)"
    show ?thesis
    proof (cases "prior = Absent")
      case False
      with k have "tr_require c prior RELEASED (\<lambda>final. tr_advance env final (\<lambda>_. succeeded final)) = (cs1, out)" by simp
      from require_any [OF this] show ?thesis
        using out(2,3) r q cs advance_calls_any [of env] by (metis fst_conv)
    next
      case True
      with k have "emit CallReconcileExit (ev_reconcile_exit env) (\<lambda>service.
          if service = Absent then tr_prepare_exit env c else tr_release env c service) = (cs1, out)" by simp
      from emit_any [OF this] show ?thesis
        using out(4,5,6) r cs by (auto split: if_splits)
    qed
  qed (use out(2) r in simp)
qed

lemma advance_run_path:
  "advance_run cs ev \<Longrightarrow> successively exit_next (c # cs) \<longleftrightarrow> exit_next c (CallAdvance ev)"
  "advance_run cs ev \<Longrightarrow> set cs = {CallAdvance ev}"
  by (auto simp: advance_run_def)

lemma release_path:
  assumes "tr_release env c sv = (cs, out)" and "exit_next x CallFinalize"
  shows "successively exit_next (x # cs)
    \<and> (CallFinalize \<in> set cs \<longrightarrow> proves (Inr sv) c SERVICE_COMMITTED)
    \<and> (\<forall>ev. CallAdvance ev \<in> set cs \<longrightarrow> ev_finalize env = Inr (Evid ev) \<and> proves (ev_finalize env) c RELEASED)
    \<and> CallRemoveCommit \<notin> set cs"
  using release_any [OF assms(1)] assms(2) by (auto simp: advance_run_path proves_def)

lemma prepare_exit_path:
  assumes "tr_prepare_exit env c = (cs, out)"
  shows "successively exit_next cs \<and> hd cs = CallPrepareExit \<and> cs \<noteq> []
    \<and> (CallRemoveCommit \<in> set cs \<longrightarrow> proves (ev_prepare_exit env) c EXIT_READY)
    \<and> (CallFinalize \<in> set cs \<longrightarrow> proves (ev_remove_commit env) c SERVICE_COMMITTED)
    \<and> (\<forall>ev. CallAdvance ev \<in> set cs \<longrightarrow> ev_finalize env = Inr (Evid ev) \<and> proves (ev_finalize env) c RELEASED)"
  using prepare_exit_any [OF assms]
proof (elim disjE exE conjE)
  fix sv cs' assume "proves (ev_prepare_exit env) c EXIT_READY" "ev_remove_commit env = Inr sv"
    "tr_release env c sv = (cs', out)" "cs = CallPrepareExit # CallRemoveCommit # cs'"
  with release_path [OF this(3), of CallRemoveCommit] show ?thesis by auto
qed auto

text \<open>
  C25: Whatever the remote calls return and however the operation ends, an exit makes its calls in
  the order of the abstract protocol, and no call is made without the evidence of the step before:
  the membership is changed only after this operation's EXIT_READY, the runtime is released only
  after its SERVICE_COMMITTED, and the ledger hears only of RELEASED evidence of this operation.
\<close>

theorem tr_exit_refines_protocol:
  assumes "c_kind c \<in> {DONATE, REMOVE}" and "tr_body env c snapshot reconciling = (calls, out)"
  shows "successively exit_next calls
    \<and> (CallRemoveCommit \<in> set calls \<longrightarrow> proves (ev_prepare_exit env) c EXIT_READY)
    \<and> (CallFinalize \<in> set calls \<longrightarrow> proves (ev_remove_commit env) c SERVICE_COMMITTED
         \<or> reconciling \<and> proves (ev_reconcile_exit env) c SERVICE_COMMITTED)
    \<and> (\<forall>ev. CallAdvance ev \<in> set calls \<longrightarrow> e_type ev = RELEASED \<and> e_operation_id ev = c_operation_id c
         \<and> (ev_finalize env = Inr (Evid ev) \<or> reconciling \<and> ev_query_release env = Inr (Evid ev)))"
proof -
  have "tr_exit env c reconciling = (calls, out)" using assms by (auto simp: tr_body_def)
  then show ?thesis
  proof (cases rule: exit_any)
    case 1
    from prepare_exit_path [OF 1(2)] show ?thesis by (auto simp: proves_def)
  next
    case (3 ev cs')
    then show ?thesis by (auto simp: advance_run_path)
  next
    case (5 cs')
    note p = prepare_exit_path [OF 5(2)]
    then obtain cs1 where "cs' = CallPrepareExit # cs1" by (cases cs') auto
    with p 5 show ?thesis by (auto simp: proves_def)
  next
    case (6 sv cs')
    from release_path [OF 6(3), of CallReconcileExit] 6 show ?thesis by (auto simp: proves_def)
  qed auto
qed

section \<open>Overlap and progress\<close>

text \<open>
  C29: A task never runs two life-cycle operations at once: in every reachable state of the runner, at
  most one operation has a worker that is about to start or that is executing remote calls.
\<close>

theorem tr_no_overlap:
  assumes "s = fold tr_step es (new_tr session)"
    and "tr_threads s a = Some pa" and "tr_threads s b = Some pb" and "pa \<noteq> Ending" and "pb \<noteq> Ending"
  shows "a = b"
proof -
  have inv: "tr_inv s" unfolding assms(1) by (rule tr_run_inv)
  have act: "j_active_by_task (tr_journal s) (the (tr_session s)) = Some o'"
    if "tr_threads s o' = Some p" "p \<noteq> Ending" for o' p
  proof -
    from that inv obtain r where r: "j_records (tr_journal s) o' = Some r" unfolding tr_inv_def by fastforce
    from tr_inv_op [OF inv r] obtain c where c: "j_commands (tr_journal s) o' = Some c" "op_ok s o' r c" by blast
    with that have "\<not> is_resolved (r_status r)" by (cases p) (auto simp: op_ok_def)
    moreover from c have "tr_session s = Some (task_session (c_target c))" by (simp add: op_ok_def)
    ultimately show ?thesis using journal_inv_active [of "tr_journal s" o' r c] inv r c by (simp add: tr_inv_def)
  qed
  from act [OF assms(2,4)] act [OF assms(3,5)] show ?thesis by simp
qed

text \<open>
  No accepted operation is lost: in every reachable state a recorded operation is SUCCEEDED,
  FAILED or UNKNOWN or has a worker whose next step moves it on, and an ADD that is not resolved
  still has the lease snapshot it was submitted with, so a retry can always reconcile it.
\<close>

theorem tr_operations_tracked:
  assumes "s = fold tr_step es (new_tr session)"
    and "j_records (tr_journal s) oid = Some r" and "j_commands (tr_journal s) oid = Some c"
  shows "(is_terminal (r_status r) \<or> (\<exists>ph. tr_threads s oid = Some ph \<and> ph \<noteq> Ending))
    \<and> (c_kind c = ADD \<longrightarrow> \<not> is_resolved (r_status r) \<longrightarrow>
         (\<exists>l. tr_leases s oid = Some l \<and> l_lease_id l = c_lease_id c))"
proof -
  have "tr_inv s" unfolding assms(1) by (rule tr_run_inv)
  with assms have "op_ok s oid r c" unfolding tr_inv_def by blast
  then show ?thesis
    by (cases "tr_threads s oid"; cases "the (tr_threads s oid)") (auto simp: op_ok_def)
qed

lemma tr_start_phase:
  assumes "tr_inv s" and "tr_threads s oid = Some Launched"
  shows "\<exists>b. tr_threads (tr_start oid s) oid = Some (Executing b)"
proof -
  obtain r where r: "j_records (tr_journal s) oid = Some r" using assms unfolding tr_inv_def by auto
  obtain c where c: "j_commands (tr_journal s) oid = Some c" "op_ok s oid r c"
    using tr_inv_op [OF assms(1) r] by blast
  then have "r_status r = ACCEPTED \<or> r_status r = UNKNOWN" using assms(2) by (simp add: op_ok_def)
  with r c show ?thesis
    by (auto simp: tr_start_def journal_command_def journal_query_def journal_reopen_unknown_def
        journal_mark_running_def Let_def)
qed

lemma tr_worker_step_phase:
  assumes "tr_inv s"
  shows "tr_threads (tr_step (TWorker oid env) s) oid = (case tr_threads s oid of
      Some Launched \<Rightarrow> Some (Executing (case tr_threads (tr_start oid s) oid of Some (Executing b) \<Rightarrow> b | _ \<Rightarrow> False))
    | Some (Executing _) \<Rightarrow> Some Ending | _ \<Rightarrow> None)"
proof (cases "tr_threads s oid")
  case (Some ph)
  show ?thesis
  proof (cases ph)
    case Launched
    with Some tr_start_phase [OF assms] show ?thesis by fastforce
  next
    case (Executing b)
    from assms Some obtain r where r: "j_records (tr_journal s) oid = Some r" unfolding tr_inv_def by auto
    with tr_inv_op [OF assms r] Some Executing show ?thesis
      by (auto simp: tr_execute_def journal_command_def)
  next
    case Ending
    with Some show ?thesis by (simp add: tr_cleanup_def Let_def)
  qed
qed simp

text \<open>
  A worker ends: from every reachable state, three steps of the worker of an operation, whatever
  its remote calls return, leave the operation SUCCEEDED, FAILED or UNKNOWN without a worker.
\<close>

theorem tr_worker_finishes:
  assumes "s = fold tr_step es (new_tr session)" and "j_records (tr_journal s) oid \<noteq> None"
    and "t = fold tr_step [TWorker oid e1, TWorker oid e2, TWorker oid e3] s"
    and "j_records (tr_journal t) oid = Some r"
  shows "tr_threads t oid = None \<and> is_terminal (r_status r)"
proof -
  have i0: "tr_inv s" unfolding assms(1) by (rule tr_run_inv)
  define s1 s2 where "s1 = tr_step (TWorker oid e1) s" and "s2 = tr_step (TWorker oid e2) s1"
  have i1: "tr_inv s1" and i2: "tr_inv s2" unfolding s1_def s2_def by (intro tr_step_inv i0)+
  have t: "t = tr_step (TWorker oid e3) s2" by (simp add: assms(3) s1_def s2_def)
  then have i3: "tr_inv t" using i2 tr_step_inv by blast
  have "tr_threads t oid = None"
    using tr_worker_step_phase [OF i0, of oid e1] tr_worker_step_phase [OF i1, of oid e2]
      tr_worker_step_phase [OF i2, of oid e3] unfolding t s1_def [symmetric] s2_def [symmetric]
    by (auto split: option.splits phase.splits)
  with tr_inv_op [OF i3 assms(4)] show ?thesis by (auto simp: op_ok_def)
qed

text \<open>
  The registration at start-up is never guessed: the runner counts as attached only after a reply
  within three waits or when the scheduler's ledger names this very actor; a compensating detach is
  sent only when neither holds and the ledger shows no other owner of the session; and whenever it is
  not attached, start-up fails.
\<close>

theorem tr_attach_safe:
  "(ar_attached (tr_attach task env) \<longrightarrow> Acked \<in> set (take 3 (at_waits env))
      \<or> (\<exists>ledger i. at_ledger env = Some ledger \<and> ledger task = Some (Some i) \<and> at_self env = Some i))
   \<and> (ar_detached (tr_attach task env) \<longrightarrow> \<not> ar_attached (tr_attach task env)
        \<and> Option.bind (at_ledger env) (\<lambda>ledger. ledger task) = None)
   \<and> (ar_error (tr_attach task env) = None \<longleftrightarrow> ar_attached (tr_attach task env))"
proof -
  have "await_ack ws = Acked \<Longrightarrow> Acked \<in> set ws" for ws
    by (induction ws rule: await_ack.induct) auto
  then show ?thesis
    by (auto simp: tr_attach_def Option.bind_eq_Some_conv split: wait.splits option.splits sum.splits)
qed

section \<open>Witnesses\<close>

definition demo_proof :: "evidence_type \<Rightarrow> op_evidence" where
  "demo_proof ty = \<lparr>e_operation_id = ''a'', e_type = ty, e_timestamp = 1,
     e_gpu_uuids = (if ty = RELEASED then [''u''] else [])\<rparr>"

definition demo_remote :: tr_env where
  "demo_remote = \<lparr>ev_prepare = Inr Absent, ev_bootstrap = Inr (Evid (demo_proof SERVICE_COMMITTED)),
     ev_restore = Inr Alien, ev_query_release = Inr Absent, ev_reconcile_exit = Inr Absent,
     ev_prepare_exit = Inr (Evid (demo_proof EXIT_READY)), ev_pending_target = Inr (),
     ev_remove_commit = Inr (Evid (demo_proof SERVICE_COMMITTED)),
     ev_finalize = Inr (Evid (demo_proof RELEASED)), ev_advance = (Inl (TimeoutError ''gs''), Inr ())\<rparr>"

lemmas demo_eval = demo_remote_def demo_proof_def demo_command_def tr_body_def tr_exit_def tr_prepare_exit_def
  tr_release_def tr_require_def tr_advance_def emit_def prefix_calls_def succeeded_def require_evidence_def

theorem tr_success_acknowledged_witness:
  "\<exists>calls m ev. tr_body demo_remote (demo_command ''a'') None False = (calls, Finished SUCCEEDED m)
     \<and> length calls = 5 \<and> e_type ev = RELEASED \<and> last calls = CallAdvance ev"
proof -
  obtain calls m where b: "tr_body demo_remote (demo_command ''a'') None False = (calls, Finished SUCCEEDED m)" "length calls = 5"
    by (simp add: demo_eval)
  from tr_success_acknowledged [OF b(1)] b show ?thesis by (auto simp: demo_command_def)
qed

theorem tr_failure_resolved_witness:
  "\<exists>calls m. tr_body (demo_remote\<lparr>ev_prepare_exit := Inl (ValueError ''x''), ev_pending_target := Inl (KeyError ''a'')\<rparr>)
       (demo_command ''a'') None False = (calls, Finished FAILED m)
     \<and> set calls \<subseteq> {CallQueryRelease, CallReconcileExit, CallPrepareExit, CallPendingTarget} \<and> length calls = 2"
proof -
  let ?env = "demo_remote\<lparr>ev_prepare_exit := Inl (ValueError ''x''), ev_pending_target := Inl (KeyError ''a'')\<rparr>"
  obtain calls m where b: "tr_body ?env (demo_command ''a'') None False = (calls, Finished FAILED m)" "length calls = 2"
    by (simp add: demo_eval)
  from tr_failure_resolved [OF b(1)] b show ?thesis by (auto simp: demo_command_def)
qed

theorem tr_exit_refines_protocol_witness:
  "\<exists>calls out. tr_body (demo_remote\<lparr>ev_finalize := Inl (RuntimeError ''lost'')\<rparr>) (demo_command ''a'') None True = (calls, out)
     \<and> successively exit_next calls \<and> calls = [CallQueryRelease, CallReconcileExit, CallPrepareExit, CallRemoveCommit, CallFinalize]"
proof -
  let ?env = "demo_remote\<lparr>ev_finalize := Inl (RuntimeError ''lost'')\<rparr>"
  obtain out where b: "tr_body ?env (demo_command ''a'') None True =
      ([CallQueryRelease, CallReconcileExit, CallPrepareExit, CallRemoveCommit, CallFinalize], out)"
    by (simp add: demo_eval)
  have "c_kind (demo_command ''a'') \<in> {DONATE, REMOVE}" by (simp add: demo_command_def)
  from tr_exit_refines_protocol [OF this b] b show ?thesis by blast
qed

definition demo_run :: "tr_event list" where
  "demo_run = [TInitialize 0 \<lparr>at_self = None, at_waits = [TimedOut, Acked], at_ledger = None, at_detach = Inr ()\<rparr>,
     TSubmit None (demo_command ''a'') None]"

lemma demo_run_state:
  "\<exists>s. s = fold tr_step demo_run (new_tr (Some ''t'')) \<and> tr_threads s = [''a'' \<mapsto> Launched]
     \<and> j_records (tr_journal s) ''a'' = Some \<lparr>r_operation_id = ''a'', r_status = ACCEPTED, r_result = None\<rparr>
     \<and> j_commands (tr_journal s) ''a'' = Some (demo_command ''a'') \<and> tr_ready s"
  by (simp add: demo_run_def tr_initialize_def tr_attach_def new_tr_def tr_submit_def tr_launch_def journal_query_def
      journal_eval)

theorem tr_no_overlap_witness:
  "{oid. tr_threads (fold tr_step demo_run (new_tr (Some ''t''))) oid = Some Launched} = {''a''}"
proof -
  obtain s where s: "s = fold tr_step demo_run (new_tr (Some ''t''))" "tr_threads s = [''a'' \<mapsto> Launched]"
    using demo_run_state by blast
  have a: "tr_threads s ''a'' = Some Launched" using s(2) by simp
  have "oid = ''a''" if "tr_threads s oid = Some Launched" for oid
    by (rule tr_no_overlap [OF s(1) that a]) simp_all
  with a s(1) show ?thesis by blast
qed

theorem tr_operations_tracked_witness:
  "\<exists>ph. tr_threads (fold tr_step demo_run (new_tr (Some ''t''))) ''a'' = Some ph \<and> ph \<noteq> Ending"
proof -
  obtain s where s: "s = fold tr_step demo_run (new_tr (Some ''t''))"
    "j_records (tr_journal s) ''a'' = Some \<lparr>r_operation_id = ''a'', r_status = ACCEPTED, r_result = None\<rparr>"
    "j_commands (tr_journal s) ''a'' = Some (demo_command ''a'')"
    using demo_run_state by blast
  from tr_operations_tracked [OF s] show ?thesis unfolding s(1) by simp
qed

theorem tr_worker_finishes_witness:
  "\<exists>t r. t = fold tr_step [TWorker ''a'' demo_remote, TWorker ''a'' demo_remote, TWorker ''a'' demo_remote]
        (fold tr_step demo_run (new_tr (Some ''t'')))
     \<and> j_records (tr_journal t) ''a'' = Some r \<and> is_terminal (r_status r)"
proof -
  obtain s where s: "s = fold tr_step demo_run (new_tr (Some ''t''))"
    "j_records (tr_journal s) ''a'' = Some \<lparr>r_operation_id = ''a'', r_status = ACCEPTED, r_result = None\<rparr>"
    "j_commands (tr_journal s) ''a'' = Some (demo_command ''a'')" "tr_threads s = [''a'' \<mapsto> Launched]"
    using demo_run_state by blast
  define t where "t = fold tr_step [TWorker ''a'' demo_remote, TWorker ''a'' demo_remote, TWorker ''a'' demo_remote] s"
  have "\<exists>r. j_records (tr_journal t) ''a'' = Some r"
    using s(2-4) by (simp add: t_def tr_start_def journal_command_def journal_query_def journal_mark_running_def
        tr_execute_def tr_conclude_def demo_eval journal_finish_def tr_cleanup_def Let_def)
  then obtain r where r: "j_records (tr_journal t) ''a'' = Some r" by blast
  have "j_records (tr_journal s) ''a'' \<noteq> None" using s(2) by simp
  from tr_worker_finishes [OF s(1) this t_def r] r show ?thesis unfolding t_def s(1) by blast
qed

theorem tr_attach_safe_witness:
  "ar_detached (tr_attach ''t'' \<lparr>at_self = Some 1, at_waits = [TimedOut], at_ledger = None, at_detach = Inr ()\<rparr>)
   \<and> \<not> ar_attached (tr_attach ''t'' \<lparr>at_self = Some 1, at_waits = [TimedOut], at_ledger = None, at_detach = Inr ()\<rparr>)"
proof -
  let ?env = "\<lparr>at_self = Some 1, at_waits = [TimedOut], at_ledger = None, at_detach = Inr ()\<rparr>"
  have d: "ar_detached (tr_attach ''t'' ?env)" by (simp add: tr_attach_def)
  with tr_attach_safe [of "''t''" ?env] show ?thesis by blast
qed

end
