(* ===== verification/Async.thy ===== *)
theory Async
  imports Prelude
begin

text \<open>
  Coroutines of a Ray actor. Between two awaits a coroutine runs alone on its actor; at an await the
  call is sent, and other coroutines and other actors run before the callee executes it and again
  before the caller resumes. What happens at each await is the argument of the run: a schedule of
  ticks, one per await, which say whether the call was executed and answered (\<open>fate\<close>), what everything
  else did meanwhile (\<open>tk_before\<close>, \<open>tk_after\<close>), what code outside the model answered, and how much
  time passed. A coroutine is a function from the run to its result and the run after it, so the
  models stay executable, and a theorem about it holds for every schedule.

  The second part states what a coroutine guarantees: \<open>triple R P m Q\<close> says that \<open>m\<close>, started where
  \<open>P\<close> holds, ends where \<open>Q\<close> holds of its result, whatever the others do within the relation \<open>R\<close>.
\<close>

section \<open>Runs\<close>

datatype fate = Answered | ReplyLost exn | NeverSent exn

record 'g tick =
  tk_fate :: fate
  tk_before :: "'g \<Rightarrow> 'g"
  tk_after :: "'g \<Rightarrow> 'g"
  tk_reply :: "pyval res"
  tk_elapsed :: rat

record 'g run =
  r_sched :: "nat \<Rightarrow> 'g tick"
  r_now :: 'g
  r_await :: nat
  r_time :: rat

type_synonym ('g, 'a) coro = "'g run \<Rightarrow> 'a res \<times> 'g run"

definition run_of :: "(nat \<Rightarrow> 'g tick) \<Rightarrow> 'g \<Rightarrow> 'g run" where
  "run_of S g = \<lparr>r_sched = S, r_now = g, r_await = 0, r_time = 0\<rparr>"

text \<open>The tick of the next await, and the others' turns around the call. The loop clock never goes
  back, so the elapsed time counts by its absolute value.\<close>

definition tick_of :: "'g run \<Rightarrow> 'g tick" where
  "tick_of r = r_sched r (r_await r)"

definition others_before :: "'g run \<Rightarrow> 'g run" where
  "others_before r = r\<lparr>r_now := tk_before (tick_of r) (r_now r), r_await := Suc (r_await r)\<rparr>"

definition others_after :: "'g tick \<Rightarrow> rat \<Rightarrow> 'g run \<Rightarrow> 'g run" where
  "others_after t d r = r\<lparr>r_now := tk_after t (r_now r), r_time := r_time r + d + \<bar>tk_elapsed t\<bar>\<rparr>"

section \<open>Statements\<close>

definition ret :: "'a \<Rightarrow> ('g, 'a) coro" where "ret x r = (Inr x, r)"

definition raise :: "exn \<Rightarrow> ('g, 'a) coro" where "raise e r = (Inl e, r)"

definition andthen :: "('g, 'a) coro \<Rightarrow> ('a \<Rightarrow> ('g, 'b) coro) \<Rightarrow> ('g, 'b) coro" where
  "andthen m k r = (case m r of (Inl e, r') \<Rightarrow> (Inl e, r') | (Inr x, r') \<Rightarrow> k x r')"

text \<open>\<open>try m except e: h e\<close>\<close>

definition rescue :: "('g, 'a) coro \<Rightarrow> (exn \<Rightarrow> ('g, 'a) coro) \<Rightarrow> ('g, 'a) coro" where
  "rescue m h r = (case m r of (Inl e, r') \<Rightarrow> h e r' | (Inr x, r') \<Rightarrow> (Inr x, r'))"

text \<open>Reading the state and running an operation of the own actor take no await.\<close>

definition look :: "('g \<Rightarrow> 'b) \<Rightarrow> ('b \<Rightarrow> ('g, 'a) coro) \<Rightarrow> ('g, 'a) coro" where
  "look f k r = k (f (r_now r)) r"

definition sync :: "('g \<Rightarrow> 'a res \<times> 'g) \<Rightarrow> ('g, 'a) coro" where
  "sync f r = (let (x, g) = f (r_now r) in (x, r\<lparr>r_now := g\<rparr>))"

definition guard_that :: "bool \<Rightarrow> exn \<Rightarrow> ('g, 'a) coro \<Rightarrow> ('g, 'a) coro" where
  "guard_that ok e m = (if ok then m else raise e)"

definition lift_res :: "'a res \<Rightarrow> ('g, 'a) coro" where
  "lift_res x = (case x of Inl e \<Rightarrow> raise e | Inr a \<Rightarrow> ret a)"

definition caught :: "('g, 'a) coro \<Rightarrow> ('a res \<Rightarrow> ('g, 'b) coro) \<Rightarrow> ('g, 'b) coro" where
  "caught m k r = (case m r of (x, r') \<Rightarrow> k x r')"

text \<open>A call of another actor, a call of code outside the model, and \<open>asyncio.sleep\<close>.\<close>

definition remote :: "('g, 'a) coro \<Rightarrow> ('g, 'a) coro" where
  "remote m r =
     (let t = tick_of r; r1 = others_before r in
      case tk_fate t of
        Answered \<Rightarrow> (let (x, r2) = m r1 in (x, others_after t 0 r2))
      | ReplyLost e \<Rightarrow> (Inl e, others_after t 0 (snd (m r1)))
      | NeverSent e \<Rightarrow> (Inl e, others_after t 0 r1))"

definition outside :: "('g, pyval) coro" where
  "outside r = (tk_reply (tick_of r), others_after (tick_of r) 0 (others_before r))"

definition pause :: "rat \<Rightarrow> ('g, unit) coro" where
  "pause d r = (Inr (), others_after (tick_of r) d (others_before r))"

section \<open>Time never goes back\<close>

definition steady :: "('g, 'a) coro \<Rightarrow> bool" where
  "steady m \<longleftrightarrow> (\<forall>r. r_time r \<le> r_time (snd (m r)))"

lemma others_time [simp]:
  "r_time (others_before r) = r_time r" "r_time (others_after t d r) = r_time r + d + \<bar>tk_elapsed t\<bar>"
  by (simp_all add: others_before_def others_after_def)

lemma steadyD: "steady m \<Longrightarrow> r_time r \<le> r_time (snd (m r))"
  by (simp add: steady_def)

lemma steady_basic [simp]:
  "steady (ret x)" "steady (raise e)" "steady (sync f)" "steady outside" "0 \<le> d \<Longrightarrow> steady (pause d)"
  by (simp_all add: steady_def ret_def raise_def sync_def outside_def pause_def split: prod.splits)

lemma steady_andthen [intro]: "steady m \<Longrightarrow> (\<And>x. steady (k x)) \<Longrightarrow> steady (andthen m k)"
  by (fastforce simp: steady_def andthen_def split: prod.splits sum.splits dest: spec intro: order_trans)

lemma steady_rescue [intro]: "steady m \<Longrightarrow> (\<And>e. steady (h e)) \<Longrightarrow> steady (rescue m h)"
  by (fastforce simp: steady_def rescue_def split: prod.splits sum.splits dest: spec intro: order_trans)

lemma steady_remote [intro]: "steady m \<Longrightarrow> steady (remote m)"
  unfolding steady_def
proof
  fix r assume m: "\<forall>r. r_time r \<le> r_time (snd (m r))"
  have "r_time r \<le> r_time (snd (m (others_before r)))" using m [rule_format, of "others_before r"] by simp
  then show "r_time r \<le> r_time (snd (remote m r))"
    by (simp add: remote_def Let_def split_beta split: fate.splits) (meson abs_ge_zero add_increasing2)
qed

lemma steady_caught: "steady m \<Longrightarrow> (\<And>x. steady (k x)) \<Longrightarrow> steady (caught m k)"
  by (fastforce simp: steady_def caught_def split: prod.splits dest: spec intro: order_trans)

text \<open>What makes a polling loop with a deadline end.\<close>

definition polls_left :: "rat \<Rightarrow> rat \<Rightarrow> rat \<Rightarrow> nat" where
  "polls_left gap deadline t = (if deadline \<le> t then 0 else Suc (nat \<lceil>(deadline - t) / gap\<rceil>))"

lemma polls_left_decreases:
  assumes "0 < gap" and "t < deadline" and "t + min gap (deadline - t) \<le> t'"
  shows "polls_left gap deadline t' < polls_left gap deadline t"
proof (cases "deadline \<le> t'")
  case True
  then show ?thesis using assms(2) by (simp add: polls_left_def)
next
  case False
  with assms(3) have "t + gap \<le> t'" by linarith
  then have "(deadline - t') / gap \<le> (deadline - t - gap) / gap"
    using assms(1) by (intro divide_right_mono) auto
  also have "\<dots> = (deadline - t) / gap - 1" using assms(1) by (simp add: diff_divide_distrib)
  finally have "\<lceil>(deadline - t') / gap\<rceil> \<le> \<lceil>(deadline - t) / gap\<rceil> - 1"
    by (metis ceiling_diff_one ceiling_mono)
  moreover have "0 < \<lceil>(deadline - t') / gap\<rceil>" using False assms(1) by simp
  ultimately show ?thesis using False assms(1,2) by (simp add: polls_left_def)
qed

section \<open>Read-only calls\<close>

text \<open>
  A query of another actor is retried with a doubled delay after every failure; the last failure is
  raised.
\<close>

fun retry_read :: "nat \<Rightarrow> rat \<Rightarrow> ('g, 'a) coro \<Rightarrow> ('g, 'a) coro" where
  "retry_read 0 d m = raise (ValueError ''read RPC attempts must be positive'')"
| "retry_read (Suc k) d m =
     rescue m (\<lambda>e. if k = 0 then raise e else andthen (pause d) (\<lambda>_. retry_read k (2 * d) m))"

lemma steady_retry_read: "0 \<le> d \<Longrightarrow> steady m \<Longrightarrow> steady (retry_read k d m)"
  by (induction k d m rule: retry_read.induct) (auto intro!: steady_rescue steady_andthen)

definition query :: "('g \<Rightarrow> 'a res) \<Rightarrow> ('g, 'a) coro" where
  "query f = remote (sync (\<lambda>g. (f g, g)))"

lemma steady_query [simp]: "steady (query f)"
  unfolding query_def by (rule steady_remote) simp

section \<open>What a coroutine guarantees\<close>

definition obeys :: "('g \<Rightarrow> 'g \<Rightarrow> bool) \<Rightarrow> 'g run \<Rightarrow> bool" where
  "obeys R r \<longleftrightarrow> (\<forall>n g. R g (tk_before (r_sched r n) g) \<and> R g (tk_after (r_sched r n) g))"

definition triple ::
    "('g \<Rightarrow> 'g \<Rightarrow> bool) \<Rightarrow> ('g \<Rightarrow> bool) \<Rightarrow> ('g, 'a) coro \<Rightarrow> ('a res \<Rightarrow> 'g \<Rightarrow> bool) \<Rightarrow> bool" where
  "triple R P m Q \<longleftrightarrow> (\<forall>r. obeys R r \<longrightarrow> P (r_now r) \<longrightarrow>
     obeys R (snd (m r)) \<and> Q (fst (m r)) (r_now (snd (m r))))"

definition stable :: "('g \<Rightarrow> 'g \<Rightarrow> bool) \<Rightarrow> ('g \<Rightarrow> bool) \<Rightarrow> bool" where
  "stable R P \<longleftrightarrow> (\<forall>g g'. R g g' \<longrightarrow> P g \<longrightarrow> P g')"

abbreviation after_res :: "('a \<Rightarrow> 'g \<Rightarrow> bool) \<Rightarrow> (exn \<Rightarrow> 'g \<Rightarrow> bool) \<Rightarrow> 'a res \<Rightarrow> 'g \<Rightarrow> bool" where
  "after_res S F x g \<equiv> (case x of Inl e \<Rightarrow> F e g | Inr a \<Rightarrow> S a g)"

lemma stable_ex [intro!]: "(\<And>x. stable R (P x)) \<Longrightarrow> stable R (\<lambda>g. \<exists>x. P x g)"
  by (auto simp: stable_def)

lemma stable_conj [intro!]: "stable R P \<Longrightarrow> stable R Q \<Longrightarrow> stable R (\<lambda>g. P g \<and> Q g)"
  by (auto simp: stable_def)

lemma stable_const [simp]: "stable R (\<lambda>_. b)"
  by (simp add: stable_def)

lemma stable_after_res: "(\<And>a. stable R (S a)) \<Longrightarrow> (\<And>e. stable R (F e)) \<Longrightarrow> stable R (after_res S F x)"
  by (cases x) simp_all

lemma stableD: "stable R P \<Longrightarrow> R g g' \<Longrightarrow> P g \<Longrightarrow> P g'"
  by (simp add: stable_def)

lemma tripleD:
  assumes "triple R P m Q" and "obeys R r" and "P (r_now r)" and "m r = (x, r')"
  shows "Q x (r_now r')" and "obeys R r'"
  using assms by (auto simp: triple_def)

lemma obeys_others [simp]:
  "obeys R (others_before r) = obeys R r" "obeys R (others_after t d r) = obeys R r"
  "obeys R (r\<lparr>r_now := g\<rparr>) = obeys R r"
  by (simp_all add: obeys_def others_before_def others_after_def)

lemma stable_before: "obeys R r \<Longrightarrow> stable R P \<Longrightarrow> P (r_now r) \<Longrightarrow> P (r_now (others_before r))"
  by (auto simp: obeys_def stable_def others_before_def tick_of_def)

lemma stable_after:
  "obeys R r \<Longrightarrow> stable R P \<Longrightarrow> P (r_now r') \<Longrightarrow> P (r_now (others_after (tick_of r) d r'))"
  by (auto simp: obeys_def stable_def others_after_def tick_of_def)

lemma triple_weaken:
  assumes "triple R P m Q" and "\<And>g. P' g \<Longrightarrow> P g" and "\<And>x g. Q x g \<Longrightarrow> Q' x g"
  shows "triple R P' m Q'"
  using assms unfolding triple_def by blast

lemma triple_pre: "triple R P m Q \<Longrightarrow> (\<And>g. P' g \<Longrightarrow> P g) \<Longrightarrow> triple R P' m Q"
  by (rule triple_weaken)

lemma triple_post: "triple R P m Q \<Longrightarrow> (\<And>x g. Q x g \<Longrightarrow> Q' x g) \<Longrightarrow> triple R P m Q'"
  by (rule triple_weaken)

text \<open>A fact the assertion implies of the parameters may be used for the rest of the program.\<close>

lemma triple_fact: "(\<And>g. P g \<Longrightarrow> F) \<Longrightarrow> (F \<Longrightarrow> triple R P m Q) \<Longrightarrow> triple R P m Q"
  unfolding triple_def by blast

lemma triple_if: "(b \<Longrightarrow> triple R P m Q) \<Longrightarrow> (\<not> b \<Longrightarrow> triple R P n Q) \<Longrightarrow> triple R P (if b then m else n) Q"
  by simp

lemma triple_ret: "(\<And>g. P g \<Longrightarrow> Q (Inr x) g) \<Longrightarrow> triple R P (ret x) Q"
  by (simp add: triple_def ret_def)

lemma triple_raise: "(\<And>g. P g \<Longrightarrow> Q (Inl e) g) \<Longrightarrow> triple R P (raise e) Q"
  by (simp add: triple_def raise_def)

lemma triple_guard:
  "(\<And>g. \<not> ok \<Longrightarrow> P g \<Longrightarrow> Q (Inl e) g) \<Longrightarrow> (ok \<Longrightarrow> triple R P m Q) \<Longrightarrow> triple R P (guard_that ok e m) Q"
  by (simp add: guard_that_def triple_raise)

lemma triple_andthen:
  assumes "triple R P m (after_res M (\<lambda>e. Q (Inl e)))" and "\<And>a. triple R (M a) (k a) Q"
  shows "triple R P (andthen m k) Q"
  unfolding triple_def
proof (intro allI impI)
  fix r assume r: "obeys R r" "P (r_now r)"
  obtain x r' where m: "m r = (x, r')" by fastforce
  from tripleD [OF assms(1) r m] assms(2)
  show "obeys R (snd (andthen m k r)) \<and> Q (fst (andthen m k r)) (r_now (snd (andthen m k r)))"
    by (cases x) (auto simp: andthen_def m triple_def)
qed

lemma triple_rescue:
  assumes "triple R P m (after_res (\<lambda>a. Q (Inr a)) M)" and "\<And>e. triple R (M e) (h e) Q"
  shows "triple R P (rescue m h) Q"
  unfolding triple_def
proof (intro allI impI)
  fix r assume r: "obeys R r" "P (r_now r)"
  obtain x r' where m: "m r = (x, r')" by fastforce
  from tripleD [OF assms(1) r m] assms(2)
  show "obeys R (snd (rescue m h r)) \<and> Q (fst (rescue m h r)) (r_now (snd (rescue m h r)))"
    by (cases x) (auto simp: rescue_def m triple_def)
qed

text \<open>The forms the proofs apply: one assertion for the result of the first part, one for its failure.\<close>

lemma triple_then:
  assumes "triple R P m (after_res M F)" and "\<And>e g. F e g \<Longrightarrow> Q (Inl e) g" and "\<And>a. triple R (M a) (k a) Q"
  shows "triple R P (andthen m k) Q"
  by (rule triple_andthen [OF triple_post [OF assms(1)] assms(3)]) (auto split: sum.splits intro: assms(2))

lemma triple_try:
  assumes "triple R P m (after_res S M)" and "\<And>a g. S a g \<Longrightarrow> Q (Inr a) g" and "\<And>e. triple R (M e) (h e) Q"
  shows "triple R P (rescue m h) Q"
  by (rule triple_rescue [OF triple_post [OF assms(1)] assms(3)]) (auto split: sum.splits intro: assms(2))

lemma triple_ex: "(\<And>x. triple R (P x) m Q) \<Longrightarrow> triple R (\<lambda>g. \<exists>x. P x g) m Q"
  unfolding triple_def by blast

lemma triple_some: "(b \<Longrightarrow> triple R P m Q) \<Longrightarrow> triple R (\<lambda>g. b \<and> P g) m Q"
  unfolding triple_def by blast

lemma triple_look: "(\<And>a. triple R (\<lambda>g. P g \<and> f g = a) (k a) Q) \<Longrightarrow> triple R P (look f k) Q"
  by (simp add: triple_def look_def)

lemma triple_sync: "(\<And>g. P g \<Longrightarrow> Q (fst (f g)) (snd (f g))) \<Longrightarrow> triple R P (sync f) Q"
  by (simp add: triple_def sync_def split_beta Let_def)

lemma triple_remote:
  assumes "stable R P" and "\<And>x. stable R (Q x)"
    and "triple R P m (\<lambda>x g. Q x g \<and> (\<forall>e. Q (Inl e) g))" and "\<And>g e. P g \<Longrightarrow> Q (Inl e) g"
  shows "triple R P (remote m) Q"
  unfolding triple_def
proof (intro allI impI)
  fix r assume r: "obeys R r" "P (r_now r)"
  let ?b = "others_before r"
  have b: "obeys R ?b" "P (r_now ?b)" using r stable_before [OF r(1) assms(1)] by simp_all
  have m: "obeys R (snd (m ?b)) \<and> Q (fst (m ?b)) (r_now (snd (m ?b))) \<and> (\<forall>e. Q (Inl e) (r_now (snd (m ?b))))"
    using assms(3) b unfolding triple_def by blast
  show "obeys R (snd (remote m r)) \<and> Q (fst (remote m r)) (r_now (snd (remote m r)))"
    by (cases "tk_fate (tick_of r)")
      (use b m assms(2,4) r in \<open>auto simp: remote_def Let_def split_beta intro: stable_after\<close>)
qed

lemma triple_pause: "stable R P \<Longrightarrow> triple R P (pause d) (after_res (\<lambda>_. P) F)"
  by (auto simp: triple_def pause_def intro: stable_before stable_after)

lemma triple_outside:
  "stable R P \<Longrightarrow> triple R P outside (\<lambda>_. P)"
  by (auto simp: triple_def outside_def intro: stable_before stable_after)

lemma triple_query:
  assumes "stable R P" and "\<And>a. stable R (S a)" and "\<And>g a. P g \<Longrightarrow> f g = Inr a \<Longrightarrow> S a g"
  shows "triple R P (query f) (after_res S (\<lambda>_. P))"
  unfolding query_def
proof (rule triple_remote [OF assms(1)])
  fix x show "stable R (after_res S (\<lambda>_. P) x)" using assms(1,2) by (cases x) simp_all
next
  show "triple R P (sync (\<lambda>g. (f g, g))) (\<lambda>x g. after_res S (\<lambda>_. P) x g \<and> (\<forall>e. after_res S (\<lambda>_. P) (Inl e) g))"
    by (rule triple_sync) (use assms(3) in \<open>auto split: sum.split\<close>)
qed simp

lemma triple_retry_read:
  assumes "stable R P" and "triple R P m (after_res S (\<lambda>_. P))"
  shows "triple R P (retry_read k d m) (after_res S (\<lambda>_. P))"
proof (induction k arbitrary: d)
  case 0
  show ?case by (simp add: triple_raise)
next
  case (Suc k)
  have "triple R P (if k = 0 then raise e else andthen (pause d) (\<lambda>_. retry_read k (2 * d) m)) (after_res S (\<lambda>_. P))" for e
    by (rule triple_if) (auto intro: triple_raise triple_andthen [OF triple_pause [OF assms(1)] Suc.IH])
  note handler = this
  have "triple R P m (after_res (\<lambda>a. after_res S (\<lambda>_. P) (Inr a)) (\<lambda>_. P))"
    using assms(2) by (rule triple_post) (simp split: sum.splits)
  then show ?case unfolding retry_read.simps by (rule triple_rescue) (rule handler)
qed

lemma triple_lift: "(\<And>g a. P g \<Longrightarrow> x = Inr a \<Longrightarrow> S a g) \<Longrightarrow> (\<And>g e. P g \<Longrightarrow> x = Inl e \<Longrightarrow> F e g)
    \<Longrightarrow> triple R P (lift_res x) (after_res S F)"
  by (cases x) (simp_all add: lift_res_def triple_ret triple_raise)

lemma lift_then:
  assumes "\<And>a. x = Inr a \<Longrightarrow> triple R P (k a) Q" and "\<And>g e. x = Inl e \<Longrightarrow> P g \<Longrightarrow> Q (Inl e) g"
  shows "triple R P (andthen (lift_res x) k) Q"
  using assms by (cases x) (auto simp: lift_res_def andthen_def raise_def ret_def triple_def)

lemma triple_at: "(\<And>t. triple R P (m t) Q) \<Longrightarrow> triple R P (\<lambda>r. m (f r) r) Q"
  by (simp add: triple_def)

lemma triple_cong: "triple R P m' Q \<Longrightarrow> (\<And>r. P (r_now r) \<Longrightarrow> m r = m' r) \<Longrightarrow> triple R P m Q"
  by (simp add: triple_def)

lemma triple_caught:
  assumes "triple R P m M" and "\<And>x. triple R (M x) (k x) Q"
  shows "triple R P (caught m k) Q"
  using assms unfolding triple_def caught_def by (fastforce split: prod.splits)

text \<open>A coroutine that keeps an assertion.\<close>

lemma triple_same: "triple R P m (after_res (\<lambda>_. Q) (\<lambda>_. Q)) = triple R P m (\<lambda>_. Q)"
  unfolding triple_def by (auto split: sum.splits)

definition keeps :: "('g \<Rightarrow> 'g \<Rightarrow> bool) \<Rightarrow> ('g \<Rightarrow> bool) \<Rightarrow> ('g, 'a) coro \<Rightarrow> bool" where
  "keeps R P m \<longleftrightarrow> triple R P m (\<lambda>_. P)"

lemma keeps_triple: "keeps R P m \<Longrightarrow> triple R P m (\<lambda>_. P)"
  by (simp add: keeps_def)

lemma keeps_basic [intro!]:
  "keeps R P (ret x)" "keeps R P (raise e)" "keeps R P (lift_res y)"
  "(ok \<Longrightarrow> keeps R P m) \<Longrightarrow> keeps R P (guard_that ok e m)"
  "(\<And>g. P g \<Longrightarrow> P (snd (f g))) \<Longrightarrow> keeps R P (sync f)"
  by (auto simp: keeps_def intro: triple_ret triple_raise triple_guard triple_sync
      triple_post [OF triple_lift [where S = "\<lambda>_. P" and F = "\<lambda>_. P"]] split: sum.splits)

lemma keeps_andthen [intro!]: "keeps R P m \<Longrightarrow> (\<And>x. keeps R P (k x)) \<Longrightarrow> keeps R P (andthen m k)"
  unfolding keeps_def by (rule triple_then [where M = "\<lambda>_. P" and F = "\<lambda>_. P"]) (simp_all add: triple_same)

lemma keeps_rescue [intro!]: "keeps R P m \<Longrightarrow> (\<And>e. keeps R P (h e)) \<Longrightarrow> keeps R P (rescue m h)"
  unfolding keeps_def by (rule triple_try [where S = "\<lambda>_. P" and M = "\<lambda>_. P"]) (simp_all add: triple_same)

lemma keeps_caught [intro!]: "keeps R P m \<Longrightarrow> (\<And>x. keeps R P (k x)) \<Longrightarrow> keeps R P (caught m k)"
  unfolding keeps_def by (rule triple_caught)

lemma keeps_look [intro!]: "(\<And>a. keeps R P (k a)) \<Longrightarrow> keeps R P (look f k)"
  unfolding keeps_def triple_def look_def by simp

lemma keeps_remote: "stable R P \<Longrightarrow> keeps R P m \<Longrightarrow> keeps R P (remote m)"
  unfolding keeps_def by (rule triple_remote) simp_all

lemma keeps_outside: "stable R P \<Longrightarrow> keeps R P outside"
  unfolding keeps_def by (rule triple_outside)

lemma keeps_pause: "stable R P \<Longrightarrow> keeps R P (pause d)"
  unfolding keeps_def by (rule triple_post [OF triple_pause [where F = "\<lambda>_. P"]]) (auto split: sum.splits)

lemma keeps_retry_read: "stable R P \<Longrightarrow> keeps R P m \<Longrightarrow> keeps R P (retry_read k d m)"
  by (induction k d m rule: retry_read.induct) (auto intro: keeps_pause)

section \<open>Polling loops\<close>

text \<open>
  The shape every polling loop of the program has: check; finish on what the check said or when the
  deadline has passed; otherwise sleep and check again.
\<close>

definition polling ::
    "('g, 'b) coro \<Rightarrow> ('b res \<Rightarrow> bool) \<Rightarrow> ('b res \<Rightarrow> 'a res) \<Rightarrow> ('g run \<Rightarrow> rat) \<Rightarrow> rat \<Rightarrow> ('g, 'a) coro \<Rightarrow> bool" where
  "polling check again final gap d W \<longleftrightarrow> (\<forall>r. W r =
     (case check r of (x, r1) \<Rightarrow>
        if again x \<and> r_time r1 < d then W (snd (pause (gap r1) r1)) else (final x, r1)))"

lemma pause_fields [simp]:
  "r_await (snd (pause k r)) = Suc (r_await r)" "r_time (snd (pause k r)) = r_time r + k + \<bar>tk_elapsed (tick_of r)\<bar>"
  by (simp_all add: pause_def others_before_def others_after_def)

lemma poll_progress:
  assumes "steady check" and "0 < g" and "check r = (x, r1)" and "r_time r1 < d" and "min g (d - r_time r1) \<le> k"
  shows "polls_left g d (r_time (snd (pause k r1))) < polls_left g d (r_time r)"
proof -
  have "r_time r \<le> r_time r1" using steadyD [OF assms(1), of r] assms(3) by simp
  then have "r_time r + min g (d - r_time r) \<le> r_time r1 + min g (d - r_time r1)" by (auto simp: min_def)
  with assms(5) abs_ge_zero [of "tk_elapsed (tick_of r1)"]
  have "r_time r + min g (d - r_time r) \<le> r_time (snd (pause k r1))" unfolding pause_fields by linarith
  moreover have "r_time r < d" using \<open>r_time r \<le> r_time r1\<close> assms(4) by simp
  ultimately show ?thesis by (intro polls_left_decreases [OF assms(2)])
qed

lemma poll_triple:
  assumes W: "polling check again final gap d W" and t: "steady check" "0 < g"
    and gap: "\<And>r. r_time r < d \<Longrightarrow> min g (d - r_time r) \<le> gap r"
    and P: "stable R P" and check: "triple R P check M"
    and "\<And>x h. again x \<Longrightarrow> M x h \<Longrightarrow> P h" and "\<And>x h. M x h \<Longrightarrow> Q (final x) h"
  shows "triple R P W Q"
proof -
  have "obeys R r \<Longrightarrow> P (r_now r) \<Longrightarrow> obeys R (snd (W r)) \<and> Q (fst (W r)) (r_now (snd (W r)))" for r
  proof (induction "polls_left g d (r_time r)" arbitrary: r rule: less_induct)
    case less
    obtain x r1 where u: "check r = (x, r1)" by fastforce
    note c = tripleD [OF check less(2,3) u]
    have step: "W r = (if again x \<and> r_time r1 < d then W (snd (pause (gap r1) r1)) else (final x, r1))"
      using W [unfolded polling_def, rule_format, of r] u by simp
    show ?case
    proof (cases "again x \<and> r_time r1 < d")
      case True
      let ?r2 = "snd (pause (gap r1) r1)"
      have "P (r_now r1)" using True c assms(7) by blast
      then have "P (r_now ?r2)" "obeys R ?r2"
        using keeps_pause [OF P, of "gap r1"] c(2) by (auto simp: keeps_def triple_def)
      moreover have "polls_left g d (r_time ?r2) < polls_left g d (r_time r)"
        by (rule poll_progress [OF t u]) (use True gap in auto)
      ultimately show ?thesis using less(1) step True by simp
    next
      case False
      then show ?thesis using c assms(8) unfolding step if_not_P [OF False] by simp
    qed
  qed
  then show ?thesis by (simp add: triple_def)
qed

text \<open>With at most \<open>n\<close> awaits in a check, the loop takes at most \<open>n + 1\<close> awaits per poll.\<close>

lemma poll_bound:
  assumes W: "polling check again final gap d W" and t: "steady check" "0 < g"
    and gap: "\<And>r. r_time r < d \<Longrightarrow> min g (d - r_time r) \<le> gap r"
    and n: "\<And>r. r_await (snd (check r)) \<le> r_await r + n"
  shows "r_await (snd (W r)) \<le> r_await r + Suc n * Suc (polls_left g d (r_time r))"
proof (induction "polls_left g d (r_time r)" arbitrary: r rule: less_induct)
  case less
  obtain x r1 where u: "check r = (x, r1)" by fastforce
  have c: "r_await r1 \<le> r_await r + n" using n [of r] u by simp
  have step: "W r = (if again x \<and> r_time r1 < d then W (snd (pause (gap r1) r1)) else (final x, r1))"
    using W [unfolded polling_def, rule_format, of r] u by simp
  show ?case
  proof (cases "again x \<and> r_time r1 < d")
    case True
    let ?r2 = "snd (pause (gap r1) r1)"
    have "polls_left g d (r_time ?r2) < polls_left g d (r_time r)"
      by (rule poll_progress [OF t u]) (use True gap in auto)
    then have "r_await (snd (W ?r2)) \<le> r_await ?r2 + Suc n * Suc (polls_left g d (r_time ?r2))"
      and "Suc n * Suc (polls_left g d (r_time ?r2)) \<le> Suc n * polls_left g d (r_time r)"
      by (rule less, intro mult_le_mono2 Suc_leI)
    moreover have "r_await ?r2 \<le> Suc (r_await r + n)" using c by simp
    moreover have "W r = W ?r2" using step True by simp
    ultimately show ?thesis by simp
  next
    case False
    with c step show ?thesis by simp
  qed
qed

lemma retry_read_awaits:
  assumes m: "\<And>r. r_await (snd (m r)) \<le> Suc (r_await r)"
  shows "r_await (snd (retry_read k d m r)) \<le> r_await r + 2 * k"
proof (induction k arbitrary: d r)
  case 0
  show ?case by (simp add: raise_def)
next
  case (Suc k)
  obtain x r1 where x: "m r = (x, r1)" by fastforce
  have c: "r_await r1 \<le> Suc (r_await r)" using m [of r] x by simp
  from Suc [of "2 * d" "snd (pause d r1)"] c
  have "r_await (snd (retry_read k (2 * d) m (snd (pause d r1)))) \<le> r_await r + 2 * Suc k" by simp
  with c x show ?case
    by (cases x) (auto simp: rescue_def andthen_def raise_def pause_def)
qed

lemma query_awaits: "r_await (snd (query f r)) = Suc (r_await r)"
  by (simp add: query_def remote_def sync_def others_before_def others_after_def Let_def split_beta split: fate.split)

text \<open>The number of awaits of a coroutine.\<close>

definition takes :: "('g, 'a) coro \<Rightarrow> nat \<Rightarrow> bool" where
  "takes m n \<longleftrightarrow> (\<forall>r. r_await (snd (m r)) \<le> r_await r + n)"

lemma takes_basic:
  "takes (ret x) n" "takes (raise e) n" "takes (lift_res y) n" "takes (sync f) n"
  by (simp_all add: takes_def ret_def raise_def lift_res_def sync_def split_beta Let_def split: sum.split)

lemma takes_look: "(\<And>a. takes (k a) n) \<Longrightarrow> takes (look f k) n"
  by (simp add: takes_def look_def)

lemma takes_guard: "takes m n \<Longrightarrow> takes (guard_that ok e m) n"
  by (simp add: guard_that_def takes_basic)

lemma takesD: "takes m n \<Longrightarrow> m r = (x, r') \<Longrightarrow> r_await r' \<le> r_await r + n"
  unfolding takes_def by (metis snd_conv)

lemma takes_andthen:
  assumes "takes m a" and "\<And>x. takes (k x) b"
  shows "takes (andthen m k) (a + b)"
  unfolding takes_def
proof
  fix r
  obtain x r1 where m: "m r = (x, r1)" by fastforce
  have k: "r_await (snd (k y r1)) \<le> r_await r1 + b" for y using assms(2) by (simp add: takes_def)
  show "r_await (snd (andthen m k r)) \<le> r_await r + (a + b)"
  proof (cases x)
    case (Inr y)
    with takesD [OF assms(1) m] k [of y] show ?thesis by (simp add: andthen_def m)
  qed (use takesD [OF assms(1) m] in \<open>simp add: andthen_def m\<close>)
qed

lemma takes_rescue:
  assumes "takes m a" and "\<And>e. takes (h e) b"
  shows "takes (rescue m h) (a + b)"
  unfolding takes_def
proof
  fix r
  obtain x r1 where m: "m r = (x, r1)" by fastforce
  have h: "r_await (snd (h e r1)) \<le> r_await r1 + b" for e using assms(2) by (simp add: takes_def)
  show "r_await (snd (rescue m h r)) \<le> r_await r + (a + b)"
  proof (cases x)
    case (Inl e)
    with takesD [OF assms(1) m] h [of e] show ?thesis by (simp add: rescue_def m)
  qed (use takesD [OF assms(1) m] in \<open>simp add: rescue_def m\<close>)
qed

lemma takes_remote:
  assumes "takes m n"
  shows "takes (remote m) (Suc n)"
  unfolding takes_def
proof
  fix r
  have b: "r_await (others_before r') = Suc (r_await r')" for r' :: "'a run" by (simp add: others_before_def)
  have "r_await (snd (m r')) \<le> r_await r' + n" for r' using assms by (simp add: takes_def)
  from this [of "others_before r"] b [of r] show "r_await (snd (remote m r)) \<le> r_await r + Suc n"
    by (auto simp: remote_def Let_def others_after_def split_beta split: fate.split)
qed

end
