(* ===== verification/Rollouter.thy ===== *)
theory Rollouter
  imports Async Replica_Manager Load_Balancer
begin

text \<open>
  Model of the life-cycle operations of \<open>integration/verl/experimental_fully_async/rollouter.py\<close>
  (\<open>MultiTaskFullyAsyncRollouter\<close>): preparing a replica, draining one before an exit, publishing or
  withdrawing its service, and releasing it. The operations are coroutines (theory \<open>Async\<close>) over the
  state the Rollouter works on: the replica manager M, which lives in its own process, the load
  balancer R, which is another actor, its own operation bindings, and the committed capacity.

  The native capacity update, the native router and the replica runtimes are not part of the models
  used here: the first two are fields of \<open>ro_config\<close>, a runtime's answers come with the schedule.
  \<open>ro_aborts\<close> is a history variable, the operations an abort was issued for.
\<close>

section \<open>State\<close>

record ('n, 'x) ro_config =
  rc_router :: "('n, nat, 'x) native_router"
  rc_slot :: "nat \<Rightarrow> string option \<times> nat option"
  rc_capacity :: "rmgr \<Rightarrow> int res"
  rc_outcome :: "pyval res \<Rightarrow> create_outcome"
  rc_parallel :: parallel_config
  rc_partial :: bool
  rc_drain_timeout :: rat

record 'n ro =
  ro_mgr :: rmgr
  ro_lb :: "'n lb"
  ro_targets :: "string \<rightharpoonup> replica_key"
  ro_force :: "string \<rightharpoonup> string list \<times> int option"
  ro_capacity :: int
  ro_clock :: int
  ro_aborts :: "string list"

definition new_ro :: "rmgr \<Rightarrow> 'n lb \<Rightarrow> 'n ro" where
  "new_ro m lb = \<lparr>ro_mgr = m, ro_lb = lb, ro_targets = Map.empty, ro_force = Map.empty, ro_capacity = 0,
     ro_clock = 0, ro_aborts = []\<rparr>"

definition FORCE_HANDOFF_TIMEOUT :: rat where "FORCE_HANDOFF_TIMEOUT = 30"

text \<open>Running an operation of M, calling R, reading R with retries, stamping evidence.\<close>

definition on_mgr :: "(rmgr \<Rightarrow> 'a res \<times> rmgr) \<Rightarrow> (('n, 'z) ro_scheme, 'a) coro" where
  "on_mgr f = sync (\<lambda>g. (fst (f (ro_mgr g)), g\<lparr>ro_mgr := snd (f (ro_mgr g))\<rparr>))"

definition call_lb :: "(int \<Rightarrow> 'n lb \<Rightarrow> 'a res \<times> 'n lb) \<Rightarrow> (('n, 'z) ro_scheme, 'a) coro" where
  "call_lb f = remote (sync (\<lambda>g. (fst (f (ro_clock g) (ro_lb g)), g\<lparr>ro_lb := snd (f (ro_clock g) (ro_lb g))\<rparr>)))"

definition read_lb :: "('n lb \<Rightarrow> 'a res) \<Rightarrow> (('n, 'z) ro_scheme, 'a) coro" where
  "read_lb f = retry_read 3 (1 / 20) (query (\<lambda>g. f (ro_lb g)))"

definition stamp :: "string \<Rightarrow> evidence_type \<Rightarrow> string list \<Rightarrow> (('n, 'z) ro_scheme, op_evidence) coro" where
  "stamp oid ty uuids = sync (\<lambda>g. (evidence_now (ro_clock g) oid ty uuids, g))"

definition bind_target :: "string \<Rightarrow> replica_key \<Rightarrow> (('n, 'z) ro_scheme, unit) coro" where
  "bind_target oid key = sync (\<lambda>g. (Inr (), g\<lparr>ro_targets := (ro_targets g)(oid \<mapsto> key)\<rparr>))"

definition unbind_target :: "string \<Rightarrow> (('n, 'z) ro_scheme, unit) coro" where
  "unbind_target oid = sync (\<lambda>g. (Inr (), g\<lparr>ro_targets := (ro_targets g)(oid := None)\<rparr>))"

definition drop_recovery :: "string \<Rightarrow> (('n, 'z) ro_scheme, unit) coro" where
  "drop_recovery oid = sync (\<lambda>g. (Inr (), g\<lparr>ro_force := (ro_force g)(oid := None)\<rparr>))"

definition set_state :: "replica_key \<Rightarrow> replica_state \<Rightarrow> (('n, 'z) ro_scheme, replica_state) coro" where
  "set_state key st = on_mgr (rm_transition key st)"

section \<open>Bindings\<close>

definition ro_pending_target :: "string \<Rightarrow> ('n, 'z) ro_scheme \<Rightarrow> replica_key res" where
  "ro_pending_target oid g =
     (if oid = [] then Inl (ValueError ''operation_id must be a nonempty string'')
      else case ro_targets g oid of
             None \<Rightarrow> Inl (KeyError ''no pending lifecycle target'')
           | Some key \<Rightarrow> Inr key)"

definition ro_pending_replicas :: "string \<Rightarrow> ('n, 'z) ro_scheme \<Rightarrow> nat list res" where
  "ro_pending_replicas oid g =
     (case ro_pending_target oid g of
        Inl e \<Rightarrow> Inl e
      | Inr target \<Rightarrow>
          (case m_runtime (ro_mgr g) target of
             None \<Rightarrow> Inl (RuntimeError ''pending lifecycle target has no runtime'')
           | Some rt \<Rightarrow> Inr [rt]))"

definition ro_clear_binding :: "string \<Rightarrow> ('n, 'z) ro_scheme \<Rightarrow> bool res \<times> ('n, 'z) ro_scheme" where
  "ro_clear_binding oid g =
     (if oid = [] then (Inl (ValueError ''operation_id must be a nonempty string''), g)
      else (Inr (ro_targets g oid \<noteq> None),
            g\<lparr>ro_targets := (ro_targets g)(oid := None), ro_force := (ro_force g)(oid := None)\<rparr>))"

definition rm_meta :: "replica_key \<Rightarrow> rmgr \<Rightarrow> (replica_kind \<times> replica_state) res" where
  "rm_meta key m =
     (case (m_kind m key, m_state m key) of
        (Some kind, Some st) \<Rightarrow> Inr (kind, st)
      | _ \<Rightarrow> Inl (KeyError ''unknown replica''))"

definition ro_query_release :: "replica_key \<Rightarrow> string \<Rightarrow> ('n, 'z) ro_scheme \<Rightarrow> op_evidence option res" where
  "ro_query_release key oid g = rm_query_release key oid (ro_mgr g)"

text \<open>An uncertain, partially awake RESTORE target leaves DORMANT for good.\<close>

definition ro_quarantine_dormant :: "string \<Rightarrow> (('n, 'z) ro_scheme, bool) coro" where
  "ro_quarantine_dormant oid = look (ro_pending_target oid) (\<lambda>t.
     andthen (lift_res t) (\<lambda>target. look (\<lambda>g. rm_meta target (ro_mgr g)) (\<lambda>meta.
       andthen (lift_res meta) (\<lambda>(kind, st).
         guard_that (kind = NATIVE) (ValueError ''RESTORE quarantine is valid only for NATIVE replicas'')
           (if st = QUARANTINED then ret True
            else if st = DORMANT then andthen (set_state target QUARANTINED) (\<lambda>_. ret True)
            else ret False)))))"

section \<open>Service publication\<close>

definition update_capacity :: "('n, 'x) ro_config \<Rightarrow> (('n, 'z) ro_scheme, unit) coro" where
  "update_capacity C = sync (\<lambda>g. case rc_capacity C (ro_mgr g) of
     Inl e \<Rightarrow> (Inl e, g) | Inr c \<Rightarrow> (Inr (), g\<lparr>ro_capacity := c\<rparr>))"

definition ro_service_identity ::
    "('n, 'x) ro_config \<Rightarrow> replica_key \<Rightarrow> ('n, 'z) ro_scheme \<Rightarrow> (string \<times> nat) res" where
  "ro_service_identity C target g =
     (case m_runtime (ro_mgr g) target of
        None \<Rightarrow> Inl (RuntimeError ''runtime is unavailable'')
      | Some rt \<Rightarrow>
          (case rc_slot C rt of
             (Some (c # cs), Some h) \<Rightarrow> Inr (c # cs, h)
           | _ \<Rightarrow> Inl (RuntimeError ''runtime lacks routable server identity'')))"

definition ro_activate :: "('n, 'x) ro_config \<Rightarrow> replica_key \<Rightarrow> (('n, 'z) ro_scheme, unit) coro" where
  "ro_activate C target =
     andthen (on_mgr (rm_activate (rc_slot C) target)) (\<lambda>_.
       rescue (andthen (update_capacity C) (\<lambda>_. andthen (set_state target ACTIVE) (\<lambda>_. ret ())))
         (\<lambda>e. andthen
            (rescue (andthen (on_mgr (rm_deactivate (rc_slot C) target)) (\<lambda>_. update_capacity C)) (\<lambda>_. ret ()))
            (\<lambda>_. raise e)))"

definition ro_retract :: "('n, 'x) ro_config \<Rightarrow> replica_key \<Rightarrow> (('n, 'z) ro_scheme, unit) coro" where
  "ro_retract C target =
     andthen (set_state target DRAINING) (\<lambda>_.
       andthen (on_mgr (rm_deactivate (rc_slot C) target)) (\<lambda>_. update_capacity C))"

definition ro_commit_ready ::
    "('n, 'x) ro_config \<Rightarrow> replica_key \<Rightarrow> string \<Rightarrow> nat \<Rightarrow> string \<Rightarrow> (('n, 'z) ro_scheme, op_evidence option) coro"
  where
  "ro_commit_ready C target sid h oid =
     rescue
       (andthen (call_lb (\<lambda>clock. lb_commit_ready (rc_router C) clock target sid (Some h) oid)) (\<lambda>ev.
          andthen (lift_res (require_evidence (Some ev) oid SERVICE_COMMITTED)) (\<lambda>ev. ret (Some ev))))
       (\<lambda>_. andthen
          (rescue (read_lb (lb_query_ready oid)) (\<lambda>_. raise (RuntimeError ''routing commit outcome is unknown'')))
          (\<lambda>found. case found of
             None \<Rightarrow> ret None
           | Some ev \<Rightarrow>
               andthen (lift_res (require_evidence (Some ev) oid SERVICE_COMMITTED)) (\<lambda>ev. ret (Some ev))))"

text \<open>What follows a commit attempt: withdraw when R has nothing, or drop the binding and return.\<close>

definition ro_conclude ::
    "('n, 'x) ro_config \<Rightarrow> replica_key \<Rightarrow> string \<Rightarrow> op_evidence option \<Rightarrow> (('n, 'z) ro_scheme, op_evidence option) coro"
  where
  "ro_conclude C target oid found =
     (case found of
        None \<Rightarrow> andthen (ro_retract C target) (\<lambda>_. ret None)
      | Some ev \<Rightarrow> andthen (unbind_target oid) (\<lambda>_. ret (Some ev)))"

definition quarantine_from :: "replica_state \<Rightarrow> replica_key \<Rightarrow> exn \<Rightarrow> (('n, 'z) ro_scheme, 'a) coro" where
  "quarantine_from st target e = look (\<lambda>g. m_state (ro_mgr g) target) (\<lambda>cur.
     if cur = Some st then andthen (set_state target QUARANTINED) (\<lambda>_. raise e) else raise e)"
definition ro_reconcile_active ::
    "('n, 'x) ro_config \<Rightarrow> replica_key \<Rightarrow> string \<Rightarrow> (('n, 'z) ro_scheme, op_evidence option) coro" where
  "ro_reconcile_active C target oid =
     andthen (rescue (read_lb (lb_query_ready oid))
        (\<lambda>_. raise (RuntimeError ''service publication remains unknown during reconciliation'')))
      (\<lambda>found. andthen
         (case found of
            None \<Rightarrow> ret None
          | Some ev \<Rightarrow> andthen (lift_res (require_evidence (Some ev) oid SERVICE_COMMITTED)) (\<lambda>ev. ret (Some ev)))
         (ro_conclude C target oid))"

definition ro_publish_borrowed ::
    "('n, 'x) ro_config \<Rightarrow> replica_key \<Rightarrow> replica_kind \<Rightarrow> string \<Rightarrow> (('n, 'z) ro_scheme, op_evidence option) coro"
  where
  "ro_publish_borrowed C target kind oid =
     guard_that (kind = BORROWED) (ValueError ''only BORROWED replicas may publish from CREATING'')
       (look (ro_service_identity C target) (\<lambda>identity. andthen (lift_res identity) (\<lambda>(sid, h).
          rescue
            (andthen (ro_activate C target) (\<lambda>_.
               andthen (ro_commit_ready C target sid h oid) (ro_conclude C target oid)))
            (quarantine_from CREATING target))))"

definition ro_publish_native ::
    "('n, 'x) ro_config \<Rightarrow> replica_key \<Rightarrow> replica_kind \<Rightarrow> string \<Rightarrow> (('n, 'z) ro_scheme, op_evidence option) coro"
  where
  "ro_publish_native C target kind oid =
     guard_that (kind = NATIVE) (ValueError ''only NATIVE replicas may restore from DORMANT'')
       (rescue
          (look (ro_service_identity C target) (\<lambda>identity. andthen (lift_res identity) (\<lambda>(sid, h).
             andthen outside (\<lambda>_.
               andthen (ro_activate C target) (\<lambda>_.
                 andthen
                   (rescue (ro_commit_ready C target sid h oid) (\<lambda>e. case e of
                      TypeError _ \<Rightarrow> raise (RuntimeError ''RESTORE routing ledger conflicts with the operation'')
                    | ValueError _ \<Rightarrow> raise (RuntimeError ''RESTORE routing ledger conflicts with the operation'')
                    | _ \<Rightarrow> raise e))
                   (ro_conclude C target oid))))))
          (quarantine_from DORMANT target))"

text \<open>The exit: R forgets the route, then M's service lists and the capacity follow.\<close>

definition ro_commit_exit ::
    "('n, 'x) ro_config \<Rightarrow> replica_key \<Rightarrow> string \<Rightarrow> (('n, 'z) ro_scheme, op_evidence option) coro" where
  "ro_commit_exit C target oid =
     andthen (read_lb (\<lambda>lb. Inr (lb_server_for_replica target lb))) (\<lambda>server.
       andthen (case server of None \<Rightarrow> ret False | Some sid \<Rightarrow> read_lb (\<lambda>lb. Inr (lb_has_unsettled sid lb)))
         (\<lambda>unsettled.
            guard_that (\<not> unsettled) (ValueError ''cannot commit service exit while requests remain unsettled'')
              (andthen (call_lb (\<lambda>_. lb_finish_remove (rc_router C) target)) (\<lambda>_.
                 andthen (on_mgr (rm_deactivate (rc_slot C) target)) (\<lambda>_.
                   andthen (update_capacity C) (\<lambda>_.
                     andthen (stamp oid SERVICE_COMMITTED []) (\<lambda>ev. ret (Some ev))))))))"

definition ro_commit_service ::
    "('n, 'x) ro_config \<Rightarrow> string \<Rightarrow> (('n, 'z) ro_scheme, op_evidence option) coro" where
  "ro_commit_service C oid = look (ro_pending_target oid) (\<lambda>t. andthen (lift_res t) (\<lambda>target.
     look (\<lambda>g. rm_meta target (ro_mgr g)) (\<lambda>meta. andthen (lift_res meta) (\<lambda>(kind, st).
       case st of
         ACTIVE \<Rightarrow> ro_reconcile_active C target oid
       | CREATING \<Rightarrow> ro_publish_borrowed C target kind oid
       | DORMANT \<Rightarrow> ro_publish_native C target kind oid
       | DRAINING \<Rightarrow> ro_commit_exit C target oid
       | _ \<Rightarrow> raise (ValueError ''service exit commit requires DRAINING replica'')))))"

section \<open>Release\<close>

text \<open>The manager's \<open>sleep\<close> and \<open>destroy\<close> around the awaited answers of the runtime.\<close>

definition void :: "'a res \<Rightarrow> unit res" where "void = map_res (\<lambda>_. ())"

definition ro_sleep :: "replica_key \<Rightarrow> string \<Rightarrow> (('n, 'z) ro_scheme, op_evidence) coro" where
  "ro_sleep key oid = look (\<lambda>g. rm_sleep_begin key oid (ro_mgr g)) (\<lambda>b. andthen (lift_res b) (\<lambda>start.
     case start of
       Inl ev \<Rightarrow> ret ev
     | Inr rt \<Rightarrow> caught outside (\<lambda>placement. look ro_clock (\<lambda>clock.
         case placement of
           Inr gpu \<Rightarrow>
             if is_nonempty_str gpu
             then caught outside (\<lambda>slept. look ro_clock (\<lambda>clock.
                    on_mgr (rm_sleep_end clock key oid placement (void slept))))
             else on_mgr (rm_sleep_end clock key oid placement (Inr ()))
         | Inl _ \<Rightarrow> on_mgr (rm_sleep_end clock key oid placement (Inr ()))))))"

definition ro_destroy :: "replica_key \<Rightarrow> string \<Rightarrow> (('n, 'z) ro_scheme, op_evidence) coro" where
  "ro_destroy key oid = look (\<lambda>g. rm_destroy_begin key oid (ro_mgr g)) (\<lambda>b. andthen (lift_res b) (\<lambda>start.
     case start of
       Inl ev \<Rightarrow> ret ev
     | Inr rt \<Rightarrow> caught outside (\<lambda>cleaned. look ro_clock (\<lambda>clock.
         on_mgr (rm_destroy_end clock key oid (void cleaned))))))"

definition ro_release :: "replica_key \<Rightarrow> replica_kind \<Rightarrow> string \<Rightarrow> (('n, 'z) ro_scheme, op_evidence) coro" where
  "ro_release target kind oid =
     andthen (if kind = NATIVE then ro_sleep target oid else ro_destroy target oid) (\<lambda>ev.
       andthen (lift_res (require_evidence (Some ev) oid RELEASED)) (\<lambda>ev.
         andthen (set_state target (if kind = NATIVE then DORMANT else RELEASED_STATE)) (\<lambda>_.
           andthen (unbind_target oid) (\<lambda>_. andthen (drop_recovery oid) (\<lambda>_. ret ev)))))"

definition ro_finalize :: "string \<Rightarrow> (('n, 'z) ro_scheme, op_evidence) coro" where
  "ro_finalize oid = look (ro_pending_target oid) (\<lambda>t. andthen (lift_res t) (\<lambda>target.
     look (\<lambda>g. rm_meta target (ro_mgr g)) (\<lambda>meta. andthen (lift_res meta) (\<lambda>(kind, st).
       guard_that (kind = BORROWED \<and> st = CREATING \<or> st = DRAINING)
         (ValueError ''finalize_release requires DRAINING or borrowed CREATING replica'')
         (rescue (ro_release target kind oid) (\<lambda>e. look (\<lambda>g. m_state (ro_mgr g) target) (\<lambda>cur.
            if cur = Some CREATING \<or> cur = Some DRAINING
            then andthen (set_state target QUARANTINED) (\<lambda>_. raise e) else raise e)))))))"

section \<open>Preparing a replica\<close>

definition spec_uuids :: "pydict \<Rightarrow> string list" where
  "spec_uuids spec = dict_fromkeys (List.map_filter
     (\<lambda>c. case pyget c ''gpu_uuid'' of PStr (u # us) \<Rightarrow> Some (u # us) | _ \<Rightarrow> None) (spec_claims spec))"

text \<open>The manager's \<open>create_borrowed_replica\<close>: what the runtime answered is read by \<open>rc_outcome\<close>.\<close>

definition ro_create ::
    "('n, 'x) ro_config \<Rightarrow> pydict \<Rightarrow> (('n, 'z) ro_scheme, create_result) coro" where
  "ro_create C spec = look ro_clock (\<lambda>clock.
     andthen (on_mgr (rm_create_begin (rc_parallel C) (of_int clock / 10 ^ 9) (PDict spec))) (\<lambda>b.
       case b of
         CreateReplayed r \<Rightarrow> ret r
       | CreateStarted lid key rank \<Rightarrow>
           caught outside (\<lambda>reply. on_mgr (rm_create_end lid (rc_outcome C reply)))))"

definition ro_prepare_restore ::
    "replica_key \<Rightarrow> string \<Rightarrow> replica_key option \<Rightarrow> (('n, 'z) ro_scheme, 'a option) coro" where
  "ro_prepare_restore key oid previous = look (\<lambda>g. rm_meta key (ro_mgr g)) (\<lambda>meta.
     andthen (lift_res meta) (\<lambda>(kind, st).
       guard_that (kind = NATIVE) (ValueError ''spec-free prepare_replica is valid only for native RESTORE'')
         (if st = DORMANT then andthen (bind_target oid key) (\<lambda>_. ret None)
          else if previous = Some key \<and> st = ACTIVE then ret None
          else raise (ValueError ''spec-free prepare_replica requires DORMANT or ACTIVE reconciliation''))))"

definition ro_failed_create ::
    "replica_key \<Rightarrow> string \<Rightarrow> pydict \<Rightarrow> exn \<Rightarrow> (('n, 'z) ro_scheme, (create_result + op_evidence) option) coro"
  where
  "ro_failed_create key oid spec e =
     look (\<lambda>g. (m_state (ro_mgr g) key, m_kind (ro_mgr g) key)) (\<lambda>(st, kind).
       if (st = None \<or> kind = Some BORROWED \<and> st = Some RELEASED_STATE) \<and> spec_uuids spec \<noteq> []
       then andthen (unbind_target oid) (\<lambda>_.
              andthen (stamp oid RELEASED (spec_uuids spec)) (\<lambda>ev. ret (Some (Inr ev))))
       else raise e)"

definition ro_prepare ::
    "('n, 'x) ro_config \<Rightarrow> replica_key \<Rightarrow> string \<Rightarrow> pydict option
       \<Rightarrow> (('n, 'z) ro_scheme, (create_result + op_evidence) option) coro" where
  "ro_prepare C key oid spec =
     guard_that (oid \<noteq> []) (ValueError ''prepare_replica requires operation_id'')
       (look (\<lambda>g. ro_targets g oid) (\<lambda>previous.
          guard_that (previous \<in> {None, Some key}) (ValueError ''operation_id is already bound to another replica'')
            (case spec of
               None \<Rightarrow> ro_prepare_restore key oid previous
             | Some sp \<Rightarrow>
                 guard_that (pyget sp ''operation_id'' = PStr oid) (ValueError ''placement spec belongs to another operation'')
                   (guard_that (pyget sp ''borrower_task_id'' = PStr (task_session key))
                      (ValueError ''placement spec belongs to another task_session'')
                      (guard_that (pyget sp ''borrower_replica_id'' = PStr (replica_id key))
                         (ValueError ''placement spec belongs to another replica'')
                         (andthen (bind_target oid key) (\<lambda>_.
                            rescue (andthen (ro_create C sp) (\<lambda>r. ret (Some (Inl r))))
                              (ro_failed_create key oid sp))))))))"
section \<open>Draining before an exit\<close>

text \<open>One exact replay when the reply to \<open>begin_drain\<close> is lost.\<close>

definition ro_begin_drain ::
    "('n, 'x) ro_config \<Rightarrow> replica_key \<Rightarrow> string \<Rightarrow> (('n, 'z) ro_scheme, string) coro" where
  "ro_begin_drain C key oid =
     (let call = call_lb (\<lambda>_. lb_begin_drain (rc_router C) key oid) in rescue call (\<lambda>_. call))"

definition ro_unsettled :: "string \<Rightarrow> (('n, 'z) ro_scheme, bool) coro" where
  "ro_unsettled sid = read_lb (\<lambda>lb. Inr (lb_has_unsettled sid lb))"

lemma steady_read_lb [simp]: "steady (read_lb f)"
  unfolding read_lb_def by (rule steady_retry_read) simp_all

lemma unsettled_time: "(x, r1) = ro_unsettled sid r \<Longrightarrow> r_time r \<le> r_time r1"
  using steadyD [OF steady_read_lb, of r] by (metis ro_unsettled_def snd_conv)

text \<open>The natural drain polls R until the server has no unsettled request or the deadline passes.\<close>

function ro_natural_wait :: "string \<Rightarrow> rat \<Rightarrow> (('n, 'z) ro_scheme, unit) coro" where
  "ro_natural_wait sid deadline r =
     (case ro_unsettled sid r of
        (Inl e, r1) \<Rightarrow> (Inl e, r1)
      | (Inr False, r1) \<Rightarrow> (Inr (), r1)
      | (Inr True, r1) \<Rightarrow>
          if deadline \<le> r_time r1
          then (Inl (TimeoutError ''natural drain did not settle before its deadline''), r1)
          else ro_natural_wait sid deadline (snd (pause (min (1 / 10) (max 0 (deadline - r_time r1))) r1)))"
  by pat_completeness auto
termination
  by (relation "measure (\<lambda>(sid, deadline, r). polls_left (1 / 10) deadline (r_time r))")
    (auto simp: pause_def dest!: unsettled_time intro!: polls_left_decreases)

text \<open>The hand-over of a FORCE exit: the continuation proofs R holds for the operation.\<close>

definition ro_handoff_state ::
    "string \<Rightarrow> string \<Rightarrow> (('n, 'z) ro_scheme, string set \<times> bool) coro" where
  "ro_handoff_state oid sid = andthen (read_lb (lb_handoff_requests oid)) (\<lambda>handoffs.
     andthen (ro_unsettled sid) (\<lambda>unsettled. ret (handoffs, unsettled)))"

definition handoff_complete :: "string list \<Rightarrow> int option \<Rightarrow> string set \<Rightarrow> bool" where
  "handoff_complete admitted aborted handoffs \<longleftrightarrow>
     (let confirmed = card (handoffs \<inter> set admitted) in
      case aborted of None \<Rightarrow> confirmed = length admitted | Some n \<Rightarrow> n \<le> int confirmed)"

lemma steady_handoff_state [simp]: "steady (ro_handoff_state oid sid)"
  unfolding ro_handoff_state_def ro_unsettled_def by (intro steady_andthen) simp_all

lemma handoff_time: "(x, r1) = ro_handoff_state oid sid r \<Longrightarrow> r_time r \<le> r_time r1"
  using steadyD [OF steady_handoff_state, of r oid sid] by (metis snd_conv)

function ro_force_wait ::
    "string \<Rightarrow> string \<Rightarrow> string list \<Rightarrow> int option \<Rightarrow> rat \<Rightarrow> (('n, 'z) ro_scheme, unit) coro" where
  "ro_force_wait oid sid admitted aborted deadline r =
     (case ro_handoff_state oid sid r of
        (Inl e, r1) \<Rightarrow> (Inl e, r1)
      | (Inr (handoffs, unsettled), r1) \<Rightarrow>
          if \<not> unsettled \<and> handoff_complete admitted aborted handoffs then (Inr (), r1)
          else if deadline \<le> r_time r1
          then (Inl (TimeoutError ''FORCE continuation handoff did not complete before timeout''), r1)
          else ro_force_wait oid sid admitted aborted deadline (snd (pause (1 / 20) r1)))"
  by pat_completeness auto
termination
  by (relation "measure (\<lambda>(oid, sid, admitted, aborted, deadline, r). polls_left (1 / 20) deadline (r_time r))")
    (auto simp: pause_def dest!: handoff_time intro!: polls_left_decreases)

declare ro_natural_wait.simps [simp del] and ro_force_wait.simps [simp del]

text \<open>The requests that are still ADMITTED on the target, and the abort of the runtime's requests.\<close>

fun ro_admitted :: "string list \<Rightarrow> (('n, 'z) ro_scheme, string list) coro" where
  "ro_admitted [] = ret []"
| "ro_admitted (r # rs) = andthen (read_lb (\<lambda>lb. Inr (lb_query_attempt r lb))) (\<lambda>st.
     andthen (ro_admitted rs) (\<lambda>rest. ret (if st = Some ADMITTED then r # rest else rest)))"

definition set_recovery :: "string \<Rightarrow> string list \<Rightarrow> int option \<Rightarrow> (('n, 'z) ro_scheme, unit) coro" where
  "set_recovery oid admitted aborted =
     sync (\<lambda>g. (Inr (), g\<lparr>ro_force := (ro_force g)(oid \<mapsto> (admitted, aborted))\<rparr>))"

definition ro_abort_all :: "string \<Rightarrow> (('n, 'z) ro_scheme, pyval) coro" where
  "ro_abort_all oid = andthen (sync (\<lambda>g. (Inr (), g\<lparr>ro_aborts := ro_aborts g @ [oid]\<rparr>))) (\<lambda>_. outside)"

definition ro_force_abort :: "string \<Rightarrow> string list \<Rightarrow> (('n, 'z) ro_scheme, string list \<times> int option) coro" where
  "ro_force_abort oid admitted =
     andthen (set_recovery oid admitted None) (\<lambda>_. andthen (ro_abort_all oid) (\<lambda>result.
       case result of
         PDict d \<Rightarrow>
           (case pyget d ''aborted_count'' of
              PInt n \<Rightarrow>
                if n < 0 then raise (RuntimeError ''FORCE abort did not report aborted_count'')
                else if int (length admitted) < n
                then raise (RuntimeError ''FORCE abort count exceeds LB requests owned by target'')
                else andthen (set_recovery oid admitted (Some n)) (\<lambda>_. ret (admitted, Some n))
            | _ \<Rightarrow> raise (RuntimeError ''FORCE abort did not report aborted_count''))
       | _ \<Rightarrow> raise (TypeError ''FORCE abort returned a non-dict result'')))"

text \<open>The recovery facts of the operation, or a first abort.\<close>

definition ro_recovery :: "string \<Rightarrow> string \<Rightarrow> (('n, 'z) ro_scheme, string list \<times> int option) coro" where
  "ro_recovery oid sid = look (\<lambda>g. ro_force g oid) (\<lambda>known.
     case known of
       Some recovery \<Rightarrow> ret recovery
     | None \<Rightarrow>
         andthen (read_lb (\<lambda>lb. Inr (lb_requests_for_server sid lb))) (\<lambda>requests.
           andthen (ro_admitted requests) (ro_force_abort oid)))"

definition ro_force_drain ::
    "('n, 'x) ro_config \<Rightarrow> replica_key \<Rightarrow> string \<Rightarrow> string \<Rightarrow> (('n, 'z) ro_scheme, op_evidence) coro" where
  "ro_force_drain C key oid sid =
     andthen (ro_begin_drain C key oid) (\<lambda>drained.
       guard_that (drained = sid) (RuntimeError ''FORCE drain bound a different server'')
         (andthen (ro_recovery oid sid) (\<lambda>(admitted, aborted).
            andthen (\<lambda>r. ro_force_wait oid sid admitted aborted (r_time r + FORCE_HANDOFF_TIMEOUT) r)
              (\<lambda>_. stamp oid EXIT_READY []))))"

definition ro_servers :: "('n, 'x) ro_config \<Rightarrow> 'n lb \<Rightarrow> string list" where
  "ro_servers C lb = map fst (nr_servers (rc_router C) (lb_native lb))"

definition ro_prepare_force ::
    "('n, 'x) ro_config \<Rightarrow> replica_key \<Rightarrow> replica_kind \<Rightarrow> replica_state \<Rightarrow> replica_key option \<Rightarrow> string
       \<Rightarrow> (('n, 'z) ro_scheme, op_evidence) coro" where
  "ro_prepare_force C key kind st previous oid =
     guard_that (kind = BORROWED) (ValueError ''FORCE REMOVE is borrowed-only'')
       (guard_that (st = ACTIVE \<or> st = DRAINING \<and> previous = Some key)
          (ValueError ''FORCE prepare_exit requires ACTIVE replica or same-operation DRAINING reconciliation'')
          (guard_that (rc_partial C) (ValueError ''FORCE REMOVE requires async_training.partial_rollout=true'')
             (andthen (read_lb (\<lambda>lb. Inr (lb_server_for_replica key lb))) (\<lambda>server.
                case server of
                  Some (c # cs) \<Rightarrow>
                    andthen (read_lb (\<lambda>lb. Inr (ro_servers C lb))) (\<lambda>servers.
                      guard_that (\<exists>s \<in> set servers. s \<noteq> c # cs)
                        (RuntimeError ''FORCE REMOVE requires another active rollout server'')
                        (look (\<lambda>g. m_runtime (ro_mgr g) key) (\<lambda>runtime.
                           guard_that (runtime \<noteq> None) (RuntimeError ''FORCE target runtime is unavailable'')
                             (andthen
                                (if st = ACTIVE
                                 then andthen (set_state key DRAINING) (\<lambda>_. bind_target oid key) else ret ())
                                (\<lambda>_. ro_force_drain C key oid (c # cs))))))
                | _ \<Rightarrow> raise (RuntimeError ''FORCE target has no active route'')))))"

definition ro_prepare_natural ::
    "('n, 'x) ro_config \<Rightarrow> replica_key \<Rightarrow> replica_state \<Rightarrow> string \<Rightarrow> (('n, 'z) ro_scheme, op_evidence) coro" where
  "ro_prepare_natural C key st oid =
     guard_that (st = ACTIVE \<or> st = DRAINING) (ValueError ''prepare_exit requires ACTIVE/DRAINING replica'')
       (andthen (if st = ACTIVE then andthen (set_state key DRAINING) (\<lambda>_. ret ()) else ret ()) (\<lambda>_.
          andthen (bind_target oid key) (\<lambda>_.
            andthen (ro_begin_drain C key oid) (\<lambda>sid.
              guard_that (0 < rc_drain_timeout C) (ValueError ''multitask.drain_timeout_s must be positive'')
                (andthen (\<lambda>r. ro_natural_wait sid (r_time r + rc_drain_timeout C) r)
                  (\<lambda>_. stamp oid EXIT_READY []))))))"

definition ro_prepare_exit ::
    "('n, 'x) ro_config \<Rightarrow> replica_key \<Rightarrow> string \<Rightarrow> bool \<Rightarrow> (('n, 'z) ro_scheme, op_evidence) coro" where
  "ro_prepare_exit C key oid force =
     guard_that (oid \<noteq> []) (ValueError ''prepare_exit requires operation_id'')
       (look (\<lambda>g. rm_meta key (ro_mgr g)) (\<lambda>meta. andthen (lift_res meta) (\<lambda>(kind, st).
          look (\<lambda>g. ro_targets g oid) (\<lambda>previous.
            guard_that (previous \<in> {None, Some key}) (ValueError ''operation_id is already bound to another replica'')
              (if force then ro_prepare_force C key kind st previous oid
               else ro_prepare_natural C key st oid)))))"
section \<open>What the others leave alone\<close>

text \<open>
  During an operation the other coroutines of the Rollouter and the other actors leave the operation
  what is its own: the life-cycle entry of its target, its binding, its FORCE record and its entry in
  the ledger of published replicas. Operations of one task run one at a time, so nobody else is bound
  to the target.
\<close>

definition published_as :: "string \<Rightarrow> ('n, 'z) ro_scheme \<Rightarrow> (replica_key \<times> string \<times> op_evidence) option" where
  "published_as oid g = map_of (lb_ready (ro_lb g)) oid"

definition draining_by ::
    "('n, 'h, 'x) native_router \<Rightarrow> string \<Rightarrow> replica_key \<Rightarrow> string \<Rightarrow> 'n lb \<Rightarrow> bool" where
  "draining_by N oid target sid lb \<longleftrightarrow>
     map_of (lb_routes lb) target = Some sid \<and> lb_draining lb sid = Some oid
     \<and> map_of (nr_servers N (lb_native lb)) sid = None"

definition ro_rely ::
    "('n, nat, 'x) native_router \<Rightarrow> string \<Rightarrow> replica_key \<Rightarrow> ('n, 'z) ro_scheme \<Rightarrow> ('n, 'z) ro_scheme \<Rightarrow> bool" where
  "ro_rely N oid target g g' \<longleftrightarrow>
     m_state (ro_mgr g') target = m_state (ro_mgr g) target \<and> m_kind (ro_mgr g') target = m_kind (ro_mgr g) target
     \<and> ro_targets g' oid = ro_targets g oid \<and> ro_force g' oid = ro_force g oid
     \<and> count_list (ro_aborts g') oid = count_list (ro_aborts g) oid
     \<and> published_as oid g' = published_as oid g
     \<and> (map_of (lb_routes (ro_lb g)) target = None \<longrightarrow> map_of (lb_routes (ro_lb g')) target = None)
     \<and> (\<forall>sid. draining_by N oid target sid (ro_lb g) \<longrightarrow> draining_by N oid target sid (ro_lb g')
          \<and> (\<not> lb_has_unsettled sid (ro_lb g) \<longrightarrow> \<not> lb_has_unsettled sid (ro_lb g')))"

definition sees ::
    "string \<Rightarrow> replica_key \<Rightarrow> replica_state \<Rightarrow> replica_kind \<Rightarrow> replica_key option
       \<Rightarrow> (replica_key \<times> string \<times> op_evidence) option \<Rightarrow> ('n, 'z) ro_scheme \<Rightarrow> bool" where
  "sees oid target st kd bound pub g \<longleftrightarrow>
     m_state (ro_mgr g) target = Some st \<and> m_kind (ro_mgr g) target = Some kd
     \<and> ro_targets g oid = bound \<and> published_as oid g = pub"

lemma sees_stable [simp]: "stable (ro_rely N oid target) (sees oid target st kd bound pub)"
  by (simp add: stable_def ro_rely_def sees_def)

section \<open>Guarantees of the steps\<close>

text \<open>Steps of M, R and the Rollouter that leave the operation's view alone.\<close>

lemma service_slots_view:
  "triple R (sees oid target st kd b pub) (on_mgr (rm_activate slot target))
     (after_res (\<lambda>_. sees oid target st kd b pub) (\<lambda>_. sees oid target st kd b pub))"
  "triple R (sees oid target st kd b pub) (on_mgr (rm_deactivate slot target))
     (after_res (\<lambda>_. sees oid target st kd b pub) (\<lambda>_. sees oid target st kd b pub))"
  unfolding on_mgr_def using service_slots_life
  by (auto intro!: triple_sync simp: sees_def published_as_def same_life_def split: sum.split)

lemma capacity_view:
  "triple R (sees oid target st kd b pub) (update_capacity C)
     (after_res (\<lambda>_. sees oid target st kd b pub) (\<lambda>_. sees oid target st kd b pub))"
  unfolding update_capacity_def
  by (rule triple_sync) (auto simp: sees_def published_as_def split: sum.splits)

lemma stamp_view:
  "triple R (sees oid target st kd b pub) (stamp oid ty us)
     (after_res (\<lambda>ev g. e_operation_id ev = oid \<and> e_type ev = ty \<and> sees oid target st kd b pub g)
        (\<lambda>_. sees oid target st kd b pub))"
  unfolding stamp_def
  by (rule triple_sync) (auto simp: evidence_now_def mk_evidence_Inr_iff split: sum.split)

lemma unbind_view:
  "triple R (sees oid target st kd b pub) (unbind_target oid) (after_res (\<lambda>_. sees oid target st kd None pub) F)"
  unfolding unbind_target_def by (rule triple_sync) (simp add: sees_def published_as_def)

lemma bind_view:
  "triple R (sees oid target st kd b pub) (bind_target oid key) (after_res (\<lambda>_. sees oid target st kd (Some key) pub) F)"
  unfolding bind_target_def by (rule triple_sync) (simp add: sees_def published_as_def)

lemma transition_view:
  assumes "new = st \<or> new \<in> allowed st \<and> validate_kind_state kd new = None"
  shows "triple R (sees oid target st kd b pub) (set_state target new)
    (after_res (\<lambda>_. sees oid target new kd b pub) F)"
  unfolding set_state_def on_mgr_def using assms
  by (intro triple_sync) (auto simp: sees_def published_as_def rm_transition_def)

lemmas view_steps = service_slots_view capacity_view unbind_view bind_view transition_view

text \<open>A query of R, with its retries, returns what R held at some moment of the call.\<close>

lemma read_lb_view:
  assumes "stable R P" and "\<And>a. stable R (S a)" and "\<And>g a. P g \<Longrightarrow> f (ro_lb g) = Inr a \<Longrightarrow> S a g"
  shows "triple R P (read_lb f) (after_res S (\<lambda>_. P))"
  unfolding read_lb_def
  by (rule triple_retry_read [OF assms(1) triple_query]) (use assms in auto)

lemma keeps_read_lb: "stable R P \<Longrightarrow> keeps R P (read_lb f)"
  unfolding read_lb_def query_def by (intro keeps_retry_read keeps_remote keeps_basic(5)) simp_all

lemma keeps_call_lb:
  "stable R P \<Longrightarrow> (\<And>g. P g \<Longrightarrow> P (g\<lparr>ro_lb := snd (f (ro_clock g) (ro_lb g))\<rparr>)) \<Longrightarrow> keeps R P (call_lb f)"
  unfolding call_lb_def by (auto intro: keeps_remote)

lemma commit_ready_published:
  assumes "lb_commit_ready N t key sid h oid lb = (x, lb')"
  shows "case x of
      Inr ev \<Rightarrow> map_of (lb_ready lb') oid = Some (key, sid, ev)
    | Inl e \<Rightarrow> map_of (lb_ready lb') oid = map_of (lb_ready lb) oid"
  using assms by (cases rule: lb_commit_cases [of N t key sid h oid lb]) (auto simp: published_def split: sum.split)

lemma evidence_of_oid:
  assumes "lb_commit_ready N t key sid h oid lb = (Inr ev, lb')" and "map_of (lb_ready lb) oid = None"
  shows "e_operation_id ev = oid \<and> e_type ev = SERVICE_COMMITTED"
  using assms
  by (cases rule: lb_commit_cases [of N t key sid h oid lb]) (auto simp: evidence_now_def mk_evidence_Inr_iff)

definition confirmed_by ::
    "string \<Rightarrow> replica_key \<Rightarrow> replica_state \<Rightarrow> replica_kind \<Rightarrow> replica_key option \<Rightarrow> op_evidence option
       \<Rightarrow> ('n, 'z) ro_scheme \<Rightarrow> bool" where
  "confirmed_by oid target st kd b found g \<longleftrightarrow>
     (case found of
        None \<Rightarrow> sees oid target st kd b None g
      | Some ev \<Rightarrow> e_operation_id ev = oid \<and> e_type ev = SERVICE_COMMITTED
          \<and> (\<exists>k s. sees oid target st kd b (Some (k, s, ev)) g))"

lemma confirmed_stable [simp]: "stable (ro_rely N oid target) (confirmed_by oid target st kd b found)"
  by (cases found) (auto simp: stable_def confirmed_by_def sees_def ro_rely_def)
lemma activate_view:
  assumes "ACTIVE \<in> allowed st"
  shows "triple R (sees oid target st kd b pub) (ro_activate C target)
    (after_res (\<lambda>_. sees oid target ACTIVE kd b pub) (\<lambda>_. sees oid target st kd b pub))"
proof -
  let ?V = "sees oid target st kd b pub" and ?A = "sees oid target ACTIVE kd b pub"
  let ?Q = "after_res (\<lambda>_. ?A) (\<lambda>_. ?V)"
  have a: "ACTIVE = st \<or> ACTIVE \<in> allowed st \<and> validate_kind_state kd ACTIVE = None"
    using assms by (simp add: validate_kind_state_def)
  have deact: "triple R ?V (andthen (on_mgr (rm_deactivate (rc_slot C) target)) (\<lambda>_. update_capacity C))
      (after_res (\<lambda>_. ?V) (\<lambda>_. ?V))"
    by (rule triple_then [OF view_steps(2) _ view_steps(3)]) simp
  have undo: "triple R ?V (andthen (rescue (andthen (on_mgr (rm_deactivate (rc_slot C) target)) (\<lambda>_. update_capacity C))
      (\<lambda>_. ret ())) (\<lambda>_. raise e)) ?Q" for e
    by (rule triple_then [where M = "\<lambda>_. ?V" and F = "\<lambda>_. ?V"])
      (rule triple_try [OF deact], auto intro: triple_ret triple_raise)
  have "triple R ?V (andthen (update_capacity C) (\<lambda>_. andthen (set_state target ACTIVE) (\<lambda>_. ret ()))) ?Q"
    by (rule triple_then [OF view_steps(3)], simp, rule triple_then [OF view_steps(6) [OF a, where F = "\<lambda>_. ?V"]])
      (auto intro: triple_ret)
  from triple_try [OF this _ undo]
  have "triple R ?V (rescue (andthen (update_capacity C) (\<lambda>_. andthen (set_state target ACTIVE) (\<lambda>_. ret ())))
        (\<lambda>e. andthen (rescue (andthen (on_mgr (rm_deactivate (rc_slot C) target)) (\<lambda>_. update_capacity C)) (\<lambda>_. ret ()))
          (\<lambda>_. raise e))) ?Q" by simp
  then show ?thesis unfolding ro_activate_def by (rule triple_then [OF view_steps(1), rotated]) simp
qed

lemma retract_view:
  "triple R (sees oid target ACTIVE kd b pub) (ro_retract C target)
     (after_res (\<lambda>_. sees oid target DRAINING kd b pub) (\<lambda>_. sees oid target DRAINING kd b pub))"
proof -
  let ?V = "sees oid target DRAINING kd b pub"
  have t: "DRAINING = ACTIVE \<or> DRAINING \<in> allowed ACTIVE \<and> validate_kind_state kd DRAINING = None"
    by (simp add: validate_kind_state_def)
  show ?thesis unfolding ro_retract_def
    by (rule triple_then [OF view_steps(6) [OF t, where F = "\<lambda>_. ?V"]], simp,
        rule triple_then [OF view_steps(2) _ view_steps(3)]) simp
qed

text \<open>Reading R's ledger for the operation.\<close>

definition found_in ::
    "string \<Rightarrow> replica_key \<Rightarrow> replica_state \<Rightarrow> replica_kind \<Rightarrow> replica_key option
       \<Rightarrow> (replica_key \<times> string \<times> op_evidence) option \<Rightarrow> op_evidence option \<Rightarrow> ('n, 'z) ro_scheme \<Rightarrow> bool" where
  "found_in oid target st kd b pub found g \<longleftrightarrow>
     found = map_option (\<lambda>(_, _, ev). ev) pub \<and> sees oid target st kd b pub g"

lemma found_stable: "stable (ro_rely N oid target) (found_in oid target st kd b pub found)"
  unfolding found_in_def by (intro stable_conj) simp_all

lemma query_ready_view:
  "triple (ro_rely N oid target) (sees oid target st kd b pub)
     (rescue (read_lb (lb_query_ready oid)) (\<lambda>_. raise e))
     (after_res (found_in oid target st kd b pub) (\<lambda>_. sees oid target st kd b pub))"
proof -
  have "triple (ro_rely N oid target) (sees oid target st kd b pub) (read_lb (lb_query_ready oid))
      (after_res (found_in oid target st kd b pub) (\<lambda>_. sees oid target st kd b pub))"
    by (rule read_lb_view [OF sees_stable found_stable])
      (auto simp: found_in_def lb_query_ready_def sees_def published_as_def split: if_splits option.splits)
  then show ?thesis by (rule triple_try) (auto intro: triple_raise)
qed

lemma require_view:
  "triple R (found_in oid target st kd b pub (Some ev))
     (andthen (lift_res (require_evidence (Some ev) oid SERVICE_COMMITTED)) (\<lambda>ev. ret (Some ev)))
     (after_res (confirmed_by oid target st kd b) (\<lambda>_. sees oid target st kd b pub))"
proof (rule triple_then)
  show "triple R (found_in oid target st kd b pub (Some ev)) (lift_res (require_evidence (Some ev) oid SERVICE_COMMITTED))
      (after_res (\<lambda>a. confirmed_by oid target st kd b (Some a)) (\<lambda>_. sees oid target st kd b pub))"
    by (rule triple_lift) (auto simp: require_evidence_Inr_iff confirmed_by_def found_in_def)
qed (auto intro: triple_ret)

lemma found_view:
  "triple R (found_in oid target st kd b pub found)
     (case found of
        None \<Rightarrow> ret None
      | Some ev \<Rightarrow> andthen (lift_res (require_evidence (Some ev) oid SERVICE_COMMITTED)) (\<lambda>ev. ret (Some ev)))
     (after_res (confirmed_by oid target st kd b) (\<lambda>_. sees oid target st kd b pub))"
  by (cases found) (auto intro!: triple_ret require_view simp: confirmed_by_def found_in_def)

text \<open>Whatever happens to the call and to its reply, a commit attempt ends with what R holds.\<close>

definition either_way ::
    "string \<Rightarrow> replica_key \<Rightarrow> replica_state \<Rightarrow> replica_kind \<Rightarrow> replica_key option \<Rightarrow> ('n, 'z) ro_scheme \<Rightarrow> bool" where
  "either_way oid target st kd b g \<longleftrightarrow> (\<exists>pub. sees oid target st kd b pub g)"

lemma either_stable [simp]: "stable (ro_rely N oid target) (either_way oid target st kd b)"
  unfolding either_way_def by (intro stable_ex) simp

lemma commit_effect:
  assumes "sees oid target ACTIVE kd b None g"
  shows "after_res (\<lambda>ev. found_in oid target ACTIVE kd b (Some (target, sid, ev)) (Some ev))
      (\<lambda>_. either_way oid target ACTIVE kd b) (fst (lb_commit_ready N t target sid h oid (ro_lb g)))
      (g\<lparr>ro_lb := snd (lb_commit_ready N t target sid h oid (ro_lb g))\<rparr>)"
    and "either_way oid target ACTIVE kd b (g\<lparr>ro_lb := snd (lb_commit_ready N t target sid h oid (ro_lb g))\<rparr>)"
proof -
  obtain x lb' where f: "lb_commit_ready N t target sid h oid (ro_lb g) = (x, lb')" by fastforce
  from commit_ready_published [OF f] assms
  show "after_res (\<lambda>ev. found_in oid target ACTIVE kd b (Some (target, sid, ev)) (Some ev))
      (\<lambda>_. either_way oid target ACTIVE kd b) (fst (lb_commit_ready N t target sid h oid (ro_lb g)))
      (g\<lparr>ro_lb := snd (lb_commit_ready N t target sid h oid (ro_lb g))\<rparr>)"
    and "either_way oid target ACTIVE kd b (g\<lparr>ro_lb := snd (lb_commit_ready N t target sid h oid (ro_lb g))\<rparr>)"
    by (auto simp: f sees_def published_as_def found_in_def either_way_def split: sum.splits)
qed

lemma commit_call_view:
  "triple (ro_rely N oid target) (sees oid target ACTIVE kd b None)
     (call_lb (\<lambda>clock. lb_commit_ready (rc_router C) clock target sid (Some h) oid))
     (after_res (\<lambda>ev. found_in oid target ACTIVE kd b (Some (target, sid, ev)) (Some ev))
        (\<lambda>_. either_way oid target ACTIVE kd b))"
  unfolding call_lb_def
  apply (rule triple_remote [OF sees_stable stable_after_res [OF found_stable either_stable] triple_sync])
   apply (simp only: fst_conv snd_conv sum.case)
   apply (intro conjI allI)
    apply (erule commit_effect(1))
   apply (erule commit_effect(2))
  apply (auto simp: either_way_def)
  done

lemma commit_ready_view:
  "triple (ro_rely N oid target) (sees oid target ACTIVE kd b None) (ro_commit_ready C target sid h oid)
     (after_res (confirmed_by oid target ACTIVE kd b) (\<lambda>_. either_way oid target ACTIVE kd b))"
proof -
  let ?R = "ro_rely N oid target" and ?E = "either_way oid target ACTIVE kd b"
  let ?Q = "after_res (confirmed_by oid target ACTIVE kd b) (\<lambda>_. ?E)"
  let ?found = "\<lambda>found. case found of None \<Rightarrow> ret None
      | Some ev \<Rightarrow> andthen (lift_res (require_evidence (Some ev) oid SERVICE_COMMITTED)) (\<lambda>ev. ret (Some ev))"
  have later: "triple ?R (found_in oid target ACTIVE kd b pub found) (?found found) ?Q" for pub found
    by (rule triple_post [OF found_view]) (auto simp: either_way_def split: sum.splits)
  have req: "triple ?R (found_in oid target ACTIVE kd b pub (Some ev))
      (andthen (lift_res (require_evidence (Some ev) oid SERVICE_COMMITTED)) (\<lambda>ev. ret (Some ev))) ?Q" for pub ev
    by (rule triple_post [OF require_view]) (auto simp: either_way_def split: sum.splits)
  have retry: "triple ?R ?E (andthen (rescue (read_lb (lb_query_ready oid)) (\<lambda>_. raise e)) ?found) ?Q" for e
    unfolding either_way_def
    by (rule triple_ex, rule triple_then [OF query_ready_view _ later [unfolded either_way_def]]) auto
  have "triple ?R (sees oid target ACTIVE kd b None)
      (andthen (call_lb (\<lambda>clock. lb_commit_ready (rc_router C) clock target sid (Some h) oid))
        (\<lambda>ev. andthen (lift_res (require_evidence (Some ev) oid SERVICE_COMMITTED)) (\<lambda>ev. ret (Some ev)))) ?Q"
    by (rule triple_then [OF commit_call_view _ req]) simp
  then show ?thesis unfolding ro_commit_ready_def by (rule triple_try [OF _ _ retry]) simp
qed
section \<open>Publication\<close>

text \<open>An operation that failed keeps its binding, and a published target is always ACTIVE.\<close>

definition unresolved :: "replica_state set \<Rightarrow> string \<Rightarrow> replica_key \<Rightarrow> replica_kind \<Rightarrow> ('n, 'z) ro_scheme \<Rightarrow> bool" where
  "unresolved S oid target kd g \<longleftrightarrow>
     (\<exists>st \<in> S. \<exists>pub. sees oid target st kd (Some target) pub g \<and> (pub \<noteq> None \<longrightarrow> st = ACTIVE))"

definition publish_post ::
    "replica_state set \<Rightarrow> string \<Rightarrow> replica_key \<Rightarrow> replica_kind \<Rightarrow> op_evidence option res \<Rightarrow> ('n, 'z) ro_scheme \<Rightarrow> bool"
  where
  "publish_post S oid target kd x g \<longleftrightarrow>
     (case x of
        Inr (Some ev) \<Rightarrow> confirmed_by oid target ACTIVE kd None (Some ev) g
      | Inr None \<Rightarrow> sees oid target DRAINING kd (Some target) None g
      | Inl e \<Rightarrow> unresolved S oid target kd g)"

lemma unresolvedI:
  "sees oid target st kd (Some target) pub g \<Longrightarrow> st \<in> S \<Longrightarrow> (pub \<noteq> None \<Longrightarrow> st = ACTIVE) \<Longrightarrow> unresolved S oid target kd g"
  unfolding unresolved_def by blast

lemma unresolved_mono: "unresolved S oid target kd g \<Longrightarrow> S \<subseteq> T \<Longrightarrow> unresolved T oid target kd g"
  unfolding unresolved_def by blast

lemma unresolved_hidden:
  assumes "unresolved S oid target kd g" and "m_state (ro_mgr g) target = Some st" and "st \<noteq> ACTIVE"
  shows "sees oid target st kd (Some target) None g"
proof -
  from assms(1) obtain st' pub where "sees oid target st' kd (Some target) pub g" "pub \<noteq> None \<longrightarrow> st' = ACTIVE"
    unfolding unresolved_def by blast
  with assms(2,3) show ?thesis by (cases pub) (auto simp: sees_def)
qed

lemma unresolved_stable [simp]: "stable (ro_rely N oid target) (unresolved S oid target kd)"
  by (auto simp: stable_def unresolved_def sees_def ro_rely_def)

lemma conclude_view:
  assumes "{ACTIVE, DRAINING} \<subseteq> S"
  shows "triple R (confirmed_by oid target ACTIVE kd (Some target) found) (ro_conclude C target oid found)
    (publish_post S oid target kd)"
proof (cases found)
  case None
  let ?D = "sees oid target DRAINING kd (Some target) None"
  have "triple R (sees oid target ACTIVE kd (Some target) None)
      (andthen (ro_retract C target) (\<lambda>_. ret None)) (publish_post S oid target kd)"
    by (rule triple_then [OF retract_view])
      (use assms in \<open>auto intro!: triple_ret simp: publish_post_def unresolved_def\<close>)
  then show ?thesis by (simp add: None ro_conclude_def confirmed_by_def [abs_def])
next
  case (Some ev)
  have "triple R (confirmed_by oid target ACTIVE kd (Some target) (Some ev)) (unbind_target oid)
      (after_res (\<lambda>_. confirmed_by oid target ACTIVE kd None (Some ev)) (\<lambda>_ _. False))"
    unfolding unbind_target_def
    by (rule triple_sync) (auto simp: confirmed_by_def sees_def published_as_def)
  then have "triple R (confirmed_by oid target ACTIVE kd (Some target) (Some ev))
      (andthen (unbind_target oid) (\<lambda>_. ret (Some ev))) (publish_post S oid target kd)"
    by (rule triple_then) (auto intro: triple_ret simp: publish_post_def)
  then show ?thesis by (simp add: Some ro_conclude_def)
qed

lemma quarantine_view:
  assumes "QUARANTINED \<in> allowed st" and "st \<noteq> ACTIVE" and "QUARANTINED \<in> S" and "T - {st} \<subseteq> S"
  shows "triple R (unresolved T oid target kd) (quarantine_from st target e) (publish_post S oid target kd)"
  unfolding quarantine_from_def
proof (rule triple_look)
  fix cur
  let ?P = "\<lambda>g. unresolved T oid target kd g \<and> m_state (ro_mgr g) target = cur"
  show "triple R ?P (if cur = Some st then andthen (set_state target QUARANTINED) (\<lambda>_. raise e) else raise e)
      (publish_post S oid target kd)"
  proof (rule triple_if)
    assume cur: "cur = Some st"
    have ok: "QUARANTINED = st \<or> QUARANTINED \<in> allowed st \<and> validate_kind_state kd QUARANTINED = None"
      using assms(1) by (simp add: validate_kind_state_def)
    have "triple R (sees oid target st kd (Some target) None) (andthen (set_state target QUARANTINED) (\<lambda>_. raise e))
        (publish_post S oid target kd)"
      by (rule triple_then [OF view_steps(6) [OF ok, where F = "\<lambda>_ _. False"]])
        (use assms(3) in \<open>auto intro!: triple_raise simp: publish_post_def intro: unresolvedI\<close>)
    then show "triple R ?P (andthen (set_state target QUARANTINED) (\<lambda>_. raise e)) (publish_post S oid target kd)"
      by (rule triple_pre) (use assms(2) cur in \<open>blast dest: unresolved_hidden\<close>)
  next
    assume "cur \<noteq> Some st"
    then show "triple R ?P (raise e) (publish_post S oid target kd)"
      by (intro triple_raise) (use assms(4) in \<open>auto simp: publish_post_def unresolved_def sees_def\<close>)
  qed
qed

lemma active_core:
  assumes "triple (ro_rely N oid target) (sees oid target ACTIVE kd (Some target) None) m
      (after_res (confirmed_by oid target ACTIVE kd (Some target)) (\<lambda>_. either_way oid target ACTIVE kd (Some target)))"
    and "ACTIVE \<in> allowed st" and "{ACTIVE, DRAINING, st} \<subseteq> S"
  shows "triple (ro_rely N oid target) (sees oid target st kd (Some target) None)
    (andthen (ro_activate C target) (\<lambda>_. andthen m (ro_conclude C target oid))) (publish_post S oid target kd)"
proof (rule triple_then [OF activate_view [OF assms(2)]])
  show "sees oid target st kd (Some target) None g \<Longrightarrow> publish_post S oid target kd (Inl e) g" for e g
    using assms(3) by (auto simp: publish_post_def unresolved_def)
  show "triple (ro_rely N oid target) (sees oid target ACTIVE kd (Some target) None)
      (andthen m (ro_conclude C target oid)) (publish_post S oid target kd)"
    by (rule triple_then [OF assms(1) _ conclude_view])
      (use assms(3) in \<open>auto simp: publish_post_def unresolved_def either_way_def\<close>)
qed

text \<open>A failed publication quarantines its target when it had not become ACTIVE.\<close>

lemma publish_failed:
  assumes "triple R P m (publish_post (insert st S) oid target kd)"
    and "QUARANTINED \<in> allowed st" and "st \<noteq> ACTIVE" and "QUARANTINED \<in> S"
  shows "triple R P (rescue m (quarantine_from st target)) (publish_post S oid target kd)"
proof (rule triple_try)
  show "triple R P m (after_res (\<lambda>a. publish_post S oid target kd (Inr a)) (\<lambda>_. unresolved (insert st S) oid target kd))"
    using assms(1) by (rule triple_post) (auto simp: publish_post_def split: sum.splits)
  show "triple R (unresolved (insert st S) oid target kd) (quarantine_from st target e) (publish_post S oid target kd)" for e
    by (rule quarantine_view) (use assms in auto)
qed

lemma publish_borrowed_view:
  "triple (ro_rely N oid target) (sees oid target CREATING BORROWED (Some target) None)
     (ro_publish_borrowed C target BORROWED oid)
     (publish_post {ACTIVE, DRAINING, QUARANTINED, CREATING} oid target BORROWED)"
  unfolding ro_publish_borrowed_def
proof (rule triple_guard)
  let ?V = "sees oid target CREATING BORROWED (Some target) None" and ?R = "ro_rely N oid target"
  let ?S = "{ACTIVE, DRAINING, QUARANTINED, CREATING}"
  have body: "triple ?R ?V (rescue (andthen (ro_activate C target)
      (\<lambda>_. andthen (ro_commit_ready C target sid h oid) (ro_conclude C target oid))) (quarantine_from CREATING target))
      (publish_post ?S oid target BORROWED)" for sid h
    by (rule publish_failed [OF active_core [OF commit_ready_view]]) auto
  have V: "?V g \<Longrightarrow> publish_post ?S oid target BORROWED (Inl e) g" for g e
    by (auto simp: publish_post_def unresolved_def)
  show "triple ?R ?V (look (ro_service_identity C target) (\<lambda>identity. andthen (lift_res identity) (\<lambda>(sid, h).
      rescue (andthen (ro_activate C target) (\<lambda>_. andthen (ro_commit_ready C target sid h oid) (ro_conclude C target oid)))
        (quarantine_from CREATING target)))) (publish_post ?S oid target BORROWED)"
    by (rule triple_look, rule lift_then) (auto intro: triple_pre [OF body] V)
qed auto

lemma publish_native_view:
  "triple (ro_rely N oid target) (sees oid target DORMANT NATIVE (Some target) None)
     (ro_publish_native C target NATIVE oid)
     (publish_post {ACTIVE, DRAINING, QUARANTINED} oid target NATIVE)"
  unfolding ro_publish_native_def
proof (rule triple_guard)
  let ?V = "sees oid target DORMANT NATIVE (Some target) None" and ?R = "ro_rely N oid target"
  let ?S = "{ACTIVE, DRAINING, QUARANTINED}"
  let ?Q = "publish_post (insert DORMANT ?S) oid target NATIVE"
  let ?commit = "\<lambda>sid h. rescue (ro_commit_ready C target sid h oid) (\<lambda>e. case e of
      TypeError _ \<Rightarrow> raise (RuntimeError ''RESTORE routing ledger conflicts with the operation'')
    | ValueError _ \<Rightarrow> raise (RuntimeError ''RESTORE routing ledger conflicts with the operation'')
    | _ \<Rightarrow> raise e)"
  have commit: "triple ?R (sees oid target ACTIVE NATIVE (Some target) None) (?commit sid h)
      (after_res (confirmed_by oid target ACTIVE NATIVE (Some target))
        (\<lambda>_. either_way oid target ACTIVE NATIVE (Some target)))" for sid h
    by (rule triple_try [OF commit_ready_view]) (auto intro: triple_raise split: exn.split)
  have core: "triple ?R ?V (andthen (ro_activate C target) (\<lambda>_. andthen (?commit sid h) (ro_conclude C target oid))) ?Q" for sid h
    by (rule active_core [OF commit]) auto
  have V: "?V g \<Longrightarrow> ?Q (Inl e) g" for g e
    by (auto simp: publish_post_def unresolved_def)
  have awake: "triple ?R ?V (andthen outside (\<lambda>_. andthen (ro_activate C target)
      (\<lambda>_. andthen (?commit sid h) (ro_conclude C target oid)))) ?Q" for sid h
    by (rule triple_then [OF triple_post [OF triple_outside [OF sees_stable]] _ core])
      (auto intro: V split: sum.split)
  show "triple ?R ?V (rescue (look (ro_service_identity C target) (\<lambda>identity. andthen (lift_res identity) (\<lambda>(sid, h).
      andthen outside (\<lambda>_. andthen (ro_activate C target) (\<lambda>_. andthen (?commit sid h) (ro_conclude C target oid))))))
      (quarantine_from DORMANT target)) (publish_post ?S oid target NATIVE)"
    by (rule publish_failed, rule triple_look, rule lift_then) (auto intro: triple_pre [OF awake] V)
qed auto

lemma reconcile_view:
  "triple (ro_rely N oid target) (sees oid target ACTIVE kd (Some target) pub)
     (ro_reconcile_active C target oid) (publish_post {ACTIVE, DRAINING} oid target kd)"
  unfolding ro_reconcile_active_def
proof (rule triple_then [OF query_ready_view])
  show "sees oid target ACTIVE kd (Some target) pub g \<Longrightarrow> publish_post {ACTIVE, DRAINING} oid target kd (Inl e) g" for e g
    by (auto simp: publish_post_def unresolved_def)
  show "triple (ro_rely N oid target) (found_in oid target ACTIVE kd (Some target) pub found)
      (andthen (case found of None \<Rightarrow> ret None
         | Some ev \<Rightarrow> andthen (lift_res (require_evidence (Some ev) oid SERVICE_COMMITTED)) (\<lambda>ev. ret (Some ev)))
        (ro_conclude C target oid)) (publish_post {ACTIVE, DRAINING} oid target kd)" for found
    by (rule triple_then [OF found_view _ conclude_view]) (auto simp: publish_post_def unresolved_def)
qed
section \<open>Exit and release\<close>

definition unrouted :: "replica_key \<Rightarrow> ('n, 'z) ro_scheme \<Rightarrow> bool" where
  "unrouted target g \<longleftrightarrow> map_of (lb_routes (ro_lb g)) target = None"

definition exit_post ::
    "string \<Rightarrow> replica_key \<Rightarrow> replica_kind \<Rightarrow> op_evidence option res \<Rightarrow> ('n, 'z) ro_scheme \<Rightarrow> bool" where
  "exit_post oid target kd x g \<longleftrightarrow> sees oid target DRAINING kd (Some target) None g \<and>
     (case x of
        Inr (Some ev) \<Rightarrow> e_operation_id ev = oid \<and> e_type ev = SERVICE_COMMITTED \<and> unrouted target g
      | Inr None \<Rightarrow> False
      | Inl e \<Rightarrow> True)"

lemma unrouted_stable [simp]: "stable (ro_rely N oid target) (unrouted target)"
  by (auto simp: stable_def unrouted_def ro_rely_def)

lemma filter_keeps_None: "map_of xs k = None \<Longrightarrow> map_of (filter P xs) k = None"
  by (auto simp: map_of_eq_None_iff)

lemma finish_effect:
  assumes "sees oid target DRAINING kd b None g"
  shows "sees oid target DRAINING kd b None (g\<lparr>ro_lb := snd (lb_finish_remove N target (ro_lb g))\<rparr>)"
    and "fst (lb_finish_remove N target (ro_lb g)) = Inr () \<Longrightarrow>
      unrouted target (g\<lparr>ro_lb := snd (lb_finish_remove N target (ro_lb g))\<rparr>)"
proof -
  have "(fst (lb_finish_remove N target (ro_lb g)) = Inr () \<longrightarrow>
        map_of (lb_routes (snd (lb_finish_remove N target (ro_lb g)))) target = None)
      \<and> map_of (lb_ready (snd (lb_finish_remove N target (ro_lb g)))) oid = None"
    using assms
    by (cases rule: lb_finish_cases [of "ro_lb g" target N])
      (auto simp: sees_def published_as_def filter_keeps_None)
  with assms show "sees oid target DRAINING kd b None (g\<lparr>ro_lb := snd (lb_finish_remove N target (ro_lb g))\<rparr>)"
    and "fst (lb_finish_remove N target (ro_lb g)) = Inr () \<Longrightarrow>
      unrouted target (g\<lparr>ro_lb := snd (lb_finish_remove N target (ro_lb g))\<rparr>)"
    by (auto simp: sees_def published_as_def unrouted_def)
qed

lemma commit_exit_view:
  "triple (ro_rely N oid target) (sees oid target DRAINING kd (Some target) None)
     (ro_commit_exit C target oid) (exit_post oid target kd)"
proof -
  let ?R = "ro_rely N oid target" and ?V = "sees oid target DRAINING kd (Some target) None" and ?Q = "exit_post oid target kd"
  have V: "?V g \<Longrightarrow> ?Q (Inl e) g" for e g by (simp add: exit_post_def)
  let ?W = "\<lambda>g. ?V g \<and> unrouted target g"
  have slots: "triple ?R ?W (on_mgr (rm_deactivate (rc_slot C) target)) (after_res (\<lambda>_. ?W) (\<lambda>_. ?W))"
    unfolding triple_same on_mgr_def using service_slots_life(1)
    by (auto intro!: triple_sync simp: sees_def published_as_def same_life_def unrouted_def)
  have capacity: "triple ?R ?W (update_capacity C) (after_res (\<lambda>_. ?W) (\<lambda>_. ?W))"
    unfolding triple_same update_capacity_def
    by (auto intro!: triple_sync simp: sees_def published_as_def unrouted_def split: sum.splits)
  have mark: "triple ?R ?W (stamp oid SERVICE_COMMITTED []) (after_res (\<lambda>ev g. ?Q (Inr (Some ev)) g) (\<lambda>_. ?V))"
    unfolding stamp_def by (rule triple_sync) (auto simp: exit_post_def evidence_now_def mk_evidence_Inr_iff split: sum.split)
  have tail: "triple ?R ?W (andthen (on_mgr (rm_deactivate (rc_slot C) target)) (\<lambda>_. andthen (update_capacity C)
      (\<lambda>_. andthen (stamp oid SERVICE_COMMITTED []) (\<lambda>ev. ret (Some ev))))) ?Q"
    by (rule triple_then [OF slots], simp add: V, rule triple_then [OF capacity], simp add: V,
        rule triple_then [OF mark]) (auto intro: triple_ret V)
  have call: "triple ?R ?V (call_lb (\<lambda>_. lb_finish_remove (rc_router C) target)) (after_res (\<lambda>_. ?W) (\<lambda>_. ?V))"
    unfolding call_lb_def
    by (rule triple_remote [OF sees_stable stable_after_res triple_sync])
      (auto simp: finish_effect split: sum.split)
  have read: "triple ?R ?V (case server of None \<Rightarrow> ret False | Some sid \<Rightarrow> read_lb (\<lambda>lb. Inr (lb_has_unsettled sid lb)))
      (after_res (\<lambda>_. ?V) (\<lambda>_. ?V))" for server
    unfolding triple_same keeps_def [symmetric] by (cases server) (auto intro: keeps_read_lb)
  show ?thesis unfolding ro_commit_exit_def
    by (rule triple_then [OF read_lb_view [where S = "\<lambda>_. ?V"]], simp_all add: V,
        rule triple_then [OF read], simp add: V, rule triple_guard, simp add: V, rule triple_then [OF call _ tail])
      (simp add: V)
qed

definition release_post ::
    "string \<Rightarrow> replica_key \<Rightarrow> replica_kind \<Rightarrow> op_evidence res \<Rightarrow> ('n, 'z) ro_scheme \<Rightarrow> bool" where
  "release_post oid target kd x g \<longleftrightarrow> (\<exists>pub. case x of
     Inr ev \<Rightarrow> e_operation_id ev = oid \<and> e_type ev = RELEASED \<and> ro_force g oid = None
       \<and> sees oid target (if kd = NATIVE then DORMANT else RELEASED_STATE) kd None pub g
   | Inl e \<Rightarrow> sees oid target QUARANTINED kd (Some target) pub g)"

lemma ends_view:
  "triple R (sees oid target st kd b pub) (on_mgr (rm_sleep_end t k o' p sl)) (\<lambda>_. sees oid target st kd b pub)"
  "triple R (sees oid target st kd b pub) (on_mgr (rm_destroy_end t k o' c)) (\<lambda>_. sees oid target st kd b pub)"
  unfolding on_mgr_def using ends_life
  by (auto intro!: triple_sync simp: sees_def published_as_def same_life_def)

lemma keeps_ends:
  "keeps R (sees oid target st kd b pub) (on_mgr (rm_sleep_end t k o' p sl))"
  "keeps R (sees oid target st kd b pub) (on_mgr (rm_destroy_end t k o' c))"
  using ends_view by (simp_all add: keeps_def)

lemma keeps_sleep_destroy:
  "keeps (ro_rely N oid target) (sees oid target st kd b pub) (ro_sleep key o')"
  "keeps (ro_rely N oid target) (sees oid target st kd b pub) (ro_destroy key o')"
  unfolding ro_sleep_def ro_destroy_def
  by (auto intro!: keeps_ends keeps_outside simp del: keeps_def split: sum.split)
lemma release_steps:
  assumes "st = DRAINING \<or> kd = BORROWED \<and> st = CREATING"
  shows "triple (ro_rely N oid target) (sees oid target st kd (Some target) pub) (ro_release target kd oid)
    (after_res (\<lambda>ev. release_post oid target kd (Inr ev)) (\<lambda>_. sees oid target st kd (Some target) pub))"
proof -
  let ?R = "ro_rely N oid target" and ?V = "sees oid target st kd (Some target) pub"
  let ?final = "if kd = NATIVE then DORMANT else RELEASED_STATE"
  let ?D = "sees oid target ?final kd (Some target) pub" and ?U = "sees oid target ?final kd None pub"
  let ?Q = "after_res (\<lambda>ev. release_post oid target kd (Inr ev)) (\<lambda>_. ?V)"
  have ok: "?final = st \<or> ?final \<in> allowed st \<and> validate_kind_state kd ?final = None"
    using assms by (cases kd) (auto simp: validate_kind_state_def)
  have body: "triple ?R ?V (if kd = NATIVE then ro_sleep target oid else ro_destroy target oid) (after_res (\<lambda>_. ?V) (\<lambda>_. ?V))"
    unfolding triple_same using keeps_sleep_destroy [unfolded keeps_def] by (cases kd) simp_all
  have req: "triple ?R ?V (lift_res (require_evidence (Some ev) oid RELEASED))
      (after_res (\<lambda>ev g. (e_operation_id ev = oid \<and> e_type ev = RELEASED) \<and> ?V g) (\<lambda>_. ?V))" for ev
    by (rule triple_lift) (auto simp: require_evidence_Inr_iff)
  have drop: "triple ?R ?U (drop_recovery oid) (after_res (\<lambda>_ g. ro_force g oid = None \<and> ?U g) (\<lambda>_ _. False))"
    unfolding drop_recovery_def by (rule triple_sync) (simp add: sees_def published_as_def)
  have tail: "triple ?R (\<lambda>g. (e_operation_id ev = oid \<and> e_type ev = RELEASED) \<and> ?V g)
      (andthen (set_state target ?final) (\<lambda>_. andthen (unbind_target oid)
        (\<lambda>_. andthen (drop_recovery oid) (\<lambda>_. ret ev)))) ?Q" for ev
    by (rule triple_some, rule triple_then [OF view_steps(6) [OF ok, where F = "\<lambda>_ _. False"]], simp,
        rule triple_then [OF view_steps(4) [where F = "\<lambda>_ _. False"]], simp, rule triple_then [OF drop])
      (auto intro!: triple_ret simp: release_post_def)
  show ?thesis unfolding ro_release_def
    by (rule triple_then [OF body], simp, rule triple_then [OF req _ tail]) simp
qed

lemma finalize_view:
  assumes "st = DRAINING \<or> kd = BORROWED \<and> st = CREATING"
  shows "triple (ro_rely N oid target) (sees oid target st kd (Some target) pub)
    (rescue (ro_release target kd oid) (\<lambda>e. look (\<lambda>g. m_state (ro_mgr g) target) (\<lambda>cur.
       if cur = Some CREATING \<or> cur = Some DRAINING
       then andthen (set_state target QUARANTINED) (\<lambda>_. raise e) else raise e)))
    (release_post oid target kd)"
proof (rule triple_try [OF release_steps [OF assms]])
  fix e
  let ?V = "sees oid target st kd (Some target) pub"
  have ok: "QUARANTINED = st \<or> QUARANTINED \<in> allowed st \<and> validate_kind_state kd QUARANTINED = None"
    using assms by (auto simp: validate_kind_state_def)
  have "triple (ro_rely N oid target) ?V (andthen (set_state target QUARANTINED) (\<lambda>_. raise e)) (release_post oid target kd)"
    by (rule triple_then [OF view_steps(6) [OF ok, where F = "\<lambda>_ _. False"]]) (auto intro!: triple_raise simp: release_post_def)
  with assms show "triple (ro_rely N oid target) ?V (look (\<lambda>g. m_state (ro_mgr g) target) (\<lambda>cur.
       if cur = Some CREATING \<or> cur = Some DRAINING
       then andthen (set_state target QUARANTINED) (\<lambda>_. raise e) else raise e)) (release_post oid target kd)"
    by (auto simp: triple_def look_def sees_def)
qed simp

section \<open>Properties\<close>

text \<open>The dispatch on the state of the bound target.\<close>

lemma commit_service_starts:
  assumes "oid \<noteq> []" and "sees oid target st kd (Some target) pub (r_now r)"
  shows "ro_commit_service C oid r = (case st of
       ACTIVE \<Rightarrow> ro_reconcile_active C target oid r
     | CREATING \<Rightarrow> ro_publish_borrowed C target kd oid r
     | DORMANT \<Rightarrow> ro_publish_native C target kd oid r
     | DRAINING \<Rightarrow> ro_commit_exit C target oid r
     | _ \<Rightarrow> (Inl (ValueError ''service exit commit requires DRAINING replica''), r))"
  using assms
  by (cases st) (simp_all add: ro_commit_service_def look_def andthen_def lift_res_def ret_def raise_def
      ro_pending_target_def rm_meta_def sees_def)

lemma finalize_starts:
  assumes "oid \<noteq> []" and "sees oid target st kd (Some target) pub (r_now r)"
    and "st = DRAINING \<or> kd = BORROWED \<and> st = CREATING"
  shows "ro_finalize oid r = rescue (ro_release target kd oid) (\<lambda>e. look (\<lambda>g. m_state (ro_mgr g) target) (\<lambda>cur.
       if cur = Some CREATING \<or> cur = Some DRAINING
       then andthen (set_state target QUARANTINED) (\<lambda>_. raise e) else raise e)) r"
  using assms
  by (auto simp: ro_finalize_def look_def andthen_def lift_res_def ret_def raise_def guard_that_def
      ro_pending_target_def rm_meta_def sees_def)

text \<open>
  C15: Publishing a replica (ADD, RESTORE, or the reconciliation of an unknown publication) ends with
  what the load balancer holds, whatever calls and replies are lost: SERVICE_COMMITTED evidence means
  that the balancer recorded this publication and the replica is ACTIVE, and only then is the binding
  dropped; "no route" means that the balancer has no record and the replica is withdrawn to DRAINING;
  after an error the operation keeps its binding and a replica the balancer may route to is ACTIVE.
\<close>

theorem ro_publish_sound:
  assumes "obeys (ro_rely (rc_router C) oid target) r" and "oid \<noteq> []"
    and "m_state (ro_mgr (r_now r)) target = Some st" and "m_kind (ro_mgr (r_now r)) target = Some kd"
    and "ro_targets (r_now r) oid = Some target"
    and "st = CREATING \<and> kd = BORROWED \<and> published_as oid (r_now r) = None
      \<or> st = DORMANT \<and> kd = NATIVE \<and> published_as oid (r_now r) = None \<or> st = ACTIVE"
    and "ro_commit_service C oid r = (x, r')"
  shows "case x of
      Inr (Some ev) \<Rightarrow> e_operation_id ev = oid \<and> e_type ev = SERVICE_COMMITTED
        \<and> (\<exists>key sid. published_as oid (r_now r') = Some (key, sid, ev))
        \<and> m_state (ro_mgr (r_now r')) target = Some ACTIVE \<and> ro_targets (r_now r') oid = None
    | Inr None \<Rightarrow> published_as oid (r_now r') = None \<and> m_state (ro_mgr (r_now r')) target = Some DRAINING
        \<and> ro_targets (r_now r') oid = Some target
    | Inl e \<Rightarrow> ro_targets (r_now r') oid = Some target
        \<and> m_state (ro_mgr (r_now r')) target \<in> {Some ACTIVE, Some DRAINING, Some QUARANTINED} \<union>
            (if st = CREATING then {Some CREATING} else {})
        \<and> (published_as oid (r_now r') \<noteq> None \<longrightarrow> m_state (ro_mgr (r_now r')) target = Some ACTIVE)"
proof -
  let ?S = "{ACTIVE, DRAINING, QUARANTINED} \<union> (if st = CREATING then {CREATING} else {})"
  have s: "sees oid target st kd (Some target) (published_as oid (r_now r)) (r_now r)"
    using assms(3-5) by (simp add: sees_def)
  note step = commit_service_starts [OF assms(2) s, of C] assms(7)
  have "publish_post ?S oid target kd x (r_now r')"
  proof -
    consider "st = CREATING" "kd = BORROWED" "published_as oid (r_now r) = None"
      | "st = DORMANT" "kd = NATIVE" "published_as oid (r_now r) = None" | "st = ACTIVE"
      using assms(6) by (elim disjE conjE) simp_all
    then show ?thesis
    proof cases
      case 1
      then have "ro_publish_borrowed C target BORROWED oid r = (x, r')" using step by simp
      from tripleD(1) [OF publish_borrowed_view assms(1) _ this] s 1 show ?thesis by (simp add: insert_commute)
    next
      case 2
      then have "ro_publish_native C target NATIVE oid r = (x, r')" using step by simp
      from tripleD(1) [OF publish_native_view assms(1) _ this] s 2 show ?thesis by simp
    next
      case 3
      then have "ro_reconcile_active C target oid r = (x, r')" using step by simp
      from tripleD(1) [OF reconcile_view assms(1) _ this] s 3
      have "publish_post {ACTIVE, DRAINING} oid target kd x (r_now r')" by simp
      then show ?thesis using 3
        by (auto simp: publish_post_def split: sum.splits option.splits intro: unresolved_mono)
    qed
  qed
  then show ?thesis
    by (auto simp: publish_post_def confirmed_by_def sees_def unresolved_def split: sum.splits option.splits if_splits)
qed

text \<open>
  Committing an exit never leaves a route behind: SERVICE_COMMITTED means that the load balancer
  has no route to the replica any more; whatever happened, the replica is still DRAINING and bound to
  the operation, so the exit can be repeated or released.
\<close>

theorem ro_exit_committed:
  assumes "obeys (ro_rely (rc_router C) oid target) r" and "oid \<noteq> []"
    and "m_state (ro_mgr (r_now r)) target = Some DRAINING" and "m_kind (ro_mgr (r_now r)) target = Some kd"
    and "ro_targets (r_now r) oid = Some target" and "published_as oid (r_now r) = None"
    and "ro_commit_service C oid r = (x, r')"
  shows "m_state (ro_mgr (r_now r')) target = Some DRAINING \<and> ro_targets (r_now r') oid = Some target
    \<and> (case x of
         Inr found \<Rightarrow> (\<exists>ev. found = Some ev \<and> e_operation_id ev = oid \<and> e_type ev = SERVICE_COMMITTED)
           \<and> map_of (lb_routes (ro_lb (r_now r'))) target = None
       | Inl _ \<Rightarrow> True)"
proof -
  have s: "sees oid target DRAINING kd (Some target) None (r_now r)" using assms(3-6) by (simp add: sees_def)
  have "ro_commit_exit C target oid r = (x, r')" using commit_service_starts [OF assms(2) s, of C] assms(7) by simp
  from tripleD(1) [OF commit_exit_view assms(1) s this] show ?thesis
    by (auto simp: exit_post_def sees_def unrouted_def split: sum.splits option.splits)
qed

text \<open>
  A release is closed only on evidence: RELEASED evidence of this operation leaves a native
  replica DORMANT and a borrowed one RELEASED and clears the operation's records; any failure leaves
  the replica QUARANTINED and the operation bound, never DRAINING as if it could be used again.
\<close>

theorem ro_release_verified:
  assumes "obeys (ro_rely N oid target) r" and "oid \<noteq> []"
    and "m_state (ro_mgr (r_now r)) target = Some st" and "m_kind (ro_mgr (r_now r)) target = Some kd"
    and "ro_targets (r_now r) oid = Some target" and "st = DRAINING \<or> kd = BORROWED \<and> st = CREATING"
    and "ro_finalize oid r = (x, r')"
  shows "case x of
      Inr ev \<Rightarrow> e_operation_id ev = oid \<and> e_type ev = RELEASED
        \<and> m_state (ro_mgr (r_now r')) target = Some (if kd = NATIVE then DORMANT else RELEASED_STATE)
        \<and> ro_targets (r_now r') oid = None \<and> ro_force (r_now r') oid = None
    | Inl e \<Rightarrow> m_state (ro_mgr (r_now r')) target = Some QUARANTINED \<and> ro_targets (r_now r') oid = Some target"
proof -
  have s: "sees oid target st kd (Some target) (published_as oid (r_now r)) (r_now r)"
    using assms(3-5) by (simp add: sees_def)
  note step = finalize_starts [OF assms(2) s assms(6)] assms(7)
  have "release_post oid target kd x (r_now r')"
    by (rule tripleD(1) [OF finalize_view [OF assms(6)] assms(1) s]) (use step in simp)
  then show ?thesis by (cases x) (simp_all add: release_post_def sees_def)
qed
text \<open>
  A concrete Rollouter: one native replica on server s0 next to server s1, over the demo router. The
  schedules lose the reply of their first call; the others do nothing.
\<close>

definition demo_config :: "((string \<times> nat) list, unit) ro_config" where
  "demo_config = \<lparr>rc_router = demo_router, rc_slot = (\<lambda>_. (Some ''s2'', Some 9)), rc_capacity = (\<lambda>m. Inr (int (length (m_replicas m)))),
     rc_outcome = (\<lambda>_. NotConstructed (RuntimeError ''none'')), rc_parallel = demo_parallel, rc_partial = True,
     rc_drain_timeout = 300\<rparr>"

definition demo_manager :: "replica_state \<Rightarrow> rmgr" where
  "demo_manager st = (new_rmgr (Some ''T''))\<lparr>m_state := [demo_key \<mapsto> st], m_kind := [demo_key \<mapsto> NATIVE],
     m_runtime := [demo_key \<mapsto> 0]\<rparr>"

definition demo_ro :: "replica_state \<Rightarrow> (string \<times> nat) list lb \<Rightarrow> (string \<times> nat) list ro" where
  "demo_ro st lb = (new_ro (demo_manager st) lb)\<lparr>ro_targets := [''op'' \<mapsto> demo_key]\<rparr>"

definition lossy :: "pyval \<Rightarrow> nat \<Rightarrow> 'g tick" where
  "lossy v n = \<lparr>tk_fate = (if n = 0 then ReplyLost (TimeoutError ''lost'') else Answered), tk_before = id,
     tk_after = id, tk_reply = Inr v, tk_elapsed = 0\<rparr>"

lemma ro_rely_refl [simp]: "ro_rely N oid target g g"
  by (simp add: ro_rely_def)

lemma lossy_obeys [simp]: "obeys (ro_rely N oid target) (run_of (lossy v) g)"
  by (simp add: obeys_def run_of_def lossy_def)

lemmas coro_eval = run_of_def look_def andthen_def rescue_def caught_def lift_res_def ret_def raise_def guard_that_def sync_def
  remote_def outside_def pause_def query_def tick_of_def others_before_def others_after_def lossy_def numeral_3_eq_3

lemmas ro_eval = ro_commit_service_def ro_reconcile_active_def ro_publish_native_def ro_commit_exit_def ro_conclude_def
  ro_commit_ready_def ro_activate_def ro_retract_def ro_pending_target_def rm_meta_def ro_service_identity_def call_lb_def
  read_lb_def on_mgr_def set_state_def update_capacity_def unbind_target_def bind_target_def stamp_def drop_recovery_def
  demo_config_def demo_manager_def demo_ro_def new_ro_def new_rmgr_def rm_activate_def rm_deactivate_def
  rm_service_slot_def rm_transition_def validate_kind_state_def lb_query_ready_def lb_server_for_replica_def
  require_evidence_def published_as_def

text \<open>A RESTORE whose commit reply is lost is confirmed from the balancer's ledger.\<close>

definition demo_hidden :: "(string \<times> nat) list ro" where
  "demo_hidden = demo_ro DORMANT (demo_lb\<lparr>lb_routes := []\<rparr>)"

definition lose_commit :: "nat \<Rightarrow> 'g tick" where
  "lose_commit n = (if n = 1 then lossy PNone 0 else lossy PNone 1)"

lemma lose_commit_obeys [simp]: "obeys (ro_rely N oid target) (run_of lose_commit g)"
  by (simp add: obeys_def run_of_def lose_commit_def lossy_def)

theorem ro_publish_sound_witness:
  "\<exists>ev r'. ro_commit_service demo_config ''op'' (run_of lose_commit demo_hidden) = (Inr (Some ev), r')
     \<and> m_state (ro_mgr (r_now r')) demo_key = Some ACTIVE"
proof -
  let ?r = "run_of lose_commit demo_hidden"
  have "\<exists>ev r'. ro_commit_service demo_config ''op'' ?r = (Inr (Some ev), r')"
    by (simp add: demo_hidden_def ro_eval coro_eval lose_commit_def lb_eval)
  then obtain ev r' where e: "ro_commit_service demo_config ''op'' ?r = (Inr (Some ev), r')" by blast
  have s: "m_state (ro_mgr (r_now ?r)) demo_key = Some DORMANT" "m_kind (ro_mgr (r_now ?r)) demo_key = Some NATIVE"
    "ro_targets (r_now ?r) ''op'' = Some demo_key" "published_as ''op'' (r_now ?r) = None"
    by (simp_all add: demo_hidden_def run_of_def ro_eval demo_lb_def)
  from ro_publish_sound [OF lose_commit_obeys _ s(1-3) _ e] s(4) e show ?thesis by auto
qed

theorem ro_exit_committed_witness:
  "\<exists>ev r'. ro_commit_service demo_config ''op'' (run_of (lossy PNone) (demo_ro DRAINING demo_lb)) = (Inr (Some ev), r')
     \<and> map_of (lb_routes (ro_lb (r_now r'))) demo_key = None"
proof -
  let ?r = "run_of (lossy PNone) (demo_ro DRAINING demo_lb)"
  have "\<exists>x r'. ro_commit_service demo_config ''op'' ?r = (Inr x, r')"
    by (simp add: ro_eval coro_eval lb_eval demo_key_def)
  then obtain x r' where e: "ro_commit_service demo_config ''op'' ?r = (Inr x, r')" by blast
  have s: "m_state (ro_mgr (r_now ?r)) demo_key = Some DRAINING" "m_kind (ro_mgr (r_now ?r)) demo_key = Some NATIVE"
    "ro_targets (r_now ?r) ''op'' = Some demo_key" "published_as ''op'' (r_now ?r) = None"
    by (simp_all add: run_of_def ro_eval demo_lb_def)
  from ro_exit_committed [OF lossy_obeys _ s e] e show ?thesis by auto
qed

theorem ro_release_verified_witness:
  "\<exists>ev r'. ro_finalize ''op'' (run_of (lossy (PStr ''g'')) (demo_ro DRAINING demo_lb)) = (Inr ev, r')
     \<and> e_type ev = RELEASED \<and> m_state (ro_mgr (r_now r')) demo_key = Some DORMANT"
proof -
  let ?r = "run_of (lossy (PStr ''g'')) (demo_ro DRAINING demo_lb)"
  have "\<exists>x r'. ro_finalize ''op'' ?r = (Inr x, r')"
    by (simp add: ro_finalize_def ro_release_def ro_sleep_def void_def rm_sleep_begin_def rm_sleep_end_def ro_eval coro_eval lb_eval)
  then obtain x r' where e: "ro_finalize ''op'' ?r = (Inr x, r')" by blast
  have s: "m_state (ro_mgr (r_now ?r)) demo_key = Some DRAINING" "m_kind (ro_mgr (r_now ?r)) demo_key = Some NATIVE"
    "ro_targets (r_now ?r) ''op'' = Some demo_key"
    by (simp_all add: run_of_def ro_eval)
  from ro_release_verified [OF lossy_obeys [of demo_router] _ s _ e] e show ?thesis by auto
qed

end
