(* ===== verification/Rollouter_Drain.thy ===== *)
theory Rollouter_Drain
  imports Rollouter
begin

text \<open>
  The drain of a replica before its exit (\<open>prepare_exit\<close> of the Rollouter): that the load balancer's
  own operations keep a drain, that EXIT_READY is only reported for a drained server, that a FORCE
  exit aborts at most once, and how long a natural drain can take.
\<close>

section \<open>R keeps a drain\<close>

text \<open>
  A server that is draining and out of the native pool stays so, and gets no new request, under every
  operation of R that neither publishes the server again nor removes its route.
\<close>
definition admitted_on :: "string \<Rightarrow> 'n lb \<Rightarrow> string set" where
  "admitted_on sid s = {r. (r, sid) \<in> set (lb_active s) \<and> map_of (lb_attempt s) r = Some ADMITTED}"

lemma unsettled_iff: "lb_has_unsettled sid s \<longleftrightarrow> admitted_on sid s \<noteq> {}"
  by (auto simp: lb_has_unsettled_def lb_requests_for_server_def admitted_on_def image_iff)

lemma delete_subset: "set (AList.delete k al) \<subseteq> set al"
  by (induction al) auto

lemma settle_all_subset: "set (lb_active (fold settle_terminated rs s)) \<subseteq> set (lb_active s)"
proof (induction rs arbitrary: s)
  case (Cons r rs)
  have "set (lb_active (settle_terminated r s)) \<subseteq> set (lb_active s)"
    using delete_subset [of r "lb_active s"] by (simp add: settle_terminated_def)
  with Cons.IH [of "settle_terminated r s"] show ?case by simp
qed simp

lemma gc_admitted: "map_of (lb_attempt (gc_settled s)) r = Some ADMITTED \<Longrightarrow> map_of (lb_attempt s) r = Some ADMITTED"
  by (simp add: gc_attempt split: if_splits)

lemma admitted_mono:
  "set (lb_active s') \<subseteq> set (lb_active s) \<Longrightarrow>
   (\<And>r. map_of (lb_attempt s') r = Some ADMITTED \<Longrightarrow> map_of (lb_attempt s) r = Some ADMITTED) \<Longrightarrow>
   admitted_on sid s' \<subseteq> admitted_on sid s"
  by (auto simp: admitted_on_def)

lemma admitted_step:
  assumes "ledger_inv s" and "\<And>r x v h. e = LAcquire r x \<Longrightarrow> fst (lb_acquire N r x s) = Inr (v, h) \<Longrightarrow> v \<noteq> sid"
  shows "admitted_on sid (lb_step N e s) \<subseteq> admitted_on sid s"
proof (cases e)
  case (LAcquire r x)
  show ?thesis
  proof (cases rule: lb_acquire_cases [of N r x s])
    case (2 v h)
    then have "v \<noteq> sid" using assms(2) [OF LAcquire] by (metis fst_conv)
    moreover have "map_of (lb_active s) r = None" using 2(2) ledger_active [OF assms(1)] by blast
    then have "set (lb_active (lb_step N e s)) = insert (r, v) (set (lb_active s))" "r \<notin> fst ` set (lb_active s)"
      using 2(3) LAcquire by (auto simp: admit_def Let_def update_new map_of_eq_None_iff)
    moreover have "map_of (lb_attempt (lb_step N e s)) = (map_of (lb_attempt s))(r \<mapsto> ADMITTED)"
      using 2(3) LAcquire by simp
    ultimately show ?thesis by (auto simp: admitted_on_def image_iff split: if_splits)
  qed (auto simp: LAcquire admitted_on_def)
next
  case (LRelease v rid)
  show ?thesis
  proof (cases rule: lb_release_cases [of N v rid s])
    case (2 r)
    show ?thesis
    proof (rule admitted_mono)
      show "set (lb_active (lb_step N e s)) \<subseteq> set (lb_active s)"
        using 2(4) delete_subset [of r "lb_active s"] by (simp add: LRelease settle_def)
    next
      fix r' assume "map_of (lb_attempt (lb_step N e s)) r' = Some ADMITTED"
      with 2(4) show "map_of (lb_attempt s) r' = Some ADMITTED"
        by (auto simp: LRelease dest!: gc_admitted split: if_splits)
    qed
  qed (simp add: LRelease admitted_on_def)
next
  case (LConfirm t r c d)
  show ?thesis
    by (cases rule: lb_confirm_cases [of t r c d s])
      (auto simp: LConfirm admitted_on_def split: if_splits)
next
  case (LFinish k)
  have d: "set (lb_active (drained v s)) \<subseteq> set (lb_active s)" for v
    unfolding drained_def by (rule settle_all_subset)
  show ?thesis
    by (cases rule: lb_finish_cases [of s k N])
      (use d in \<open>auto simp: LFinish admitted_on_def drained_attempt dest!: gc_admitted split: if_splits\<close>)
qed (auto simp: admitted_on_def)

lemma other_drain:
  assumes "map_of (lb_routes s) target = Some sid" and "lb_draining s sid = Some oid"
  shows "lb_draining (snd (lb_begin_drain N k oid' s)) sid = Some oid"
    and "lb_routes (snd (lb_begin_drain N k oid' s)) = lb_routes s"
  using assms by (auto simp: lb_begin_drain_def Let_def split: option.split prod.split sum.split)

lemma release_same:
  "lb_routes (snd (lb_release N v rid s)) = lb_routes s" "lb_draining (snd (lb_release N v rid s)) = lb_draining s"
  by (cases rule: lb_release_cases [of N v rid s], simp_all add: settle_def)+

lemma drain_kept:
  assumes "router_ok N" and "ledger_inv s" and "draining_by N oid target sid s"
    and "\<forall>t k h o'. e \<noteq> LCommit t k sid h o'" and "\<forall>t v h o'. e \<noteq> LCommit t target v h o'"
    and "\<forall>k. e = LFinish k \<longrightarrow> map_of (lb_routes s) k \<noteq> Some sid"
  shows "draining_by N oid target sid (lb_step N e s)
    \<and> (\<not> lb_has_unsettled sid s \<longrightarrow> \<not> lb_has_unsettled sid (lb_step N e s))"
proof -
  have d: "map_of (lb_routes s) target = Some sid" "lb_draining s sid = Some oid"
    "map_of (nr_servers N (lb_native s)) sid = None"
    using assms(3) by (simp_all add: draining_by_def)
  have gone: "map_of (nr_servers N (lb_native (lb_step N e s))) sid = None"
    by (rule drain_native_gone [OF assms(1) d(3) assms(4)])
  have other: "v \<noteq> sid" if "e = LAcquire r x" "fst (lb_acquire N r x s) = Inr (v, h)" for r x v h
  proof -
    have "fst (nr_acquire N r x (lb_native s)) = Inr (v, h)"
      using that(2) by (cases rule: lb_acquire_cases [of N r x s]) (auto, metis fst_conv)
    with router_ok_acquire [OF assms(1)] d(3) show ?thesis by metis
  qed
  have "admitted_on sid (lb_step N e s) \<subseteq> admitted_on sid s"
    by (rule admitted_step [OF assms(2)]) (rule other)
  then have "\<not> lb_has_unsettled sid s \<longrightarrow> \<not> lb_has_unsettled sid (lb_step N e s)"
    unfolding unsettled_iff by blast
  moreover have "map_of (lb_routes (lb_step N e s)) target = Some sid \<and> lb_draining (lb_step N e s) sid = Some oid"
  proof (cases e)
    case (LAcquire r x)
    with d show ?thesis by (cases rule: lb_acquire_cases [of N r x s]) simp_all
  next
    case (LRelease v rid)
    with d show ?thesis by (simp add: release_same)
  next
    case (LConfirm t r c dg)
    with d show ?thesis by (cases rule: lb_confirm_cases [of t r c dg s]) simp_all
  next
    case (LCommit t k v h o')
    with d assms(5) show ?thesis
      by (cases rule: lb_commit_cases [of N t k v h o' s]) (auto simp: published_def)
  next
    case (LDrain k o')
    with d show ?thesis by (simp add: other_drain)
  next
    case (LFinish k)
    with d assms(6) have "map_of (lb_routes s) k \<noteq> Some sid" "k \<noteq> target" by auto
    with d LFinish show ?thesis
      by (cases rule: lb_finish_cases [of s k N]) auto
  qed
  ultimately show ?thesis using gone by (simp add: draining_by_def)
qed
section \<open>Guarantees of the drain\<close>

lemma natural_polling:
  "polling (ro_unsettled sid) (\<lambda>x. x = Inr True)
     (\<lambda>x. case x of Inl e \<Rightarrow> Inl e | Inr u \<Rightarrow>
        if u then Inl (TimeoutError ''natural drain did not settle before its deadline'') else Inr ())
     (\<lambda>r1. min (1 / 10) (max 0 (d - r_time r1))) d (ro_natural_wait sid d)"
  unfolding polling_def
  by (intro allI, subst ro_natural_wait.simps) (auto split: prod.split sum.split bool.split)

lemma force_polling:
  "polling (ro_handoff_state oid sid)
     (\<lambda>x. case x of Inl _ \<Rightarrow> False | Inr (h, u) \<Rightarrow> u \<or> \<not> handoff_complete admitted aborted h)
     (\<lambda>x. case x of Inl e \<Rightarrow> Inl e | Inr (h, u) \<Rightarrow>
        if \<not> u \<and> handoff_complete admitted aborted h then Inr ()
        else Inl (TimeoutError ''FORCE continuation handoff did not complete before timeout''))
     (\<lambda>_. 1 / 20) d (ro_force_wait oid sid admitted aborted d)"
  unfolding polling_def
  by (intro allI, subst ro_force_wait.simps) (auto split: prod.split sum.split)

lemma steady_unsettled [simp]: "steady (ro_unsettled sid)"
  by (simp add: ro_unsettled_def)

lemma natural_wait_triple:
  assumes "stable R P" and "triple R P (ro_unsettled sid) (after_res (\<lambda>u g. P g \<and> (\<not> u \<longrightarrow> S g)) (\<lambda>_. P))"
  shows "triple R P (ro_natural_wait sid d) (after_res (\<lambda>_. S) (\<lambda>_. P))"
  by (rule poll_triple [OF natural_polling, where g = "1 / 10", OF _ _ _ assms]) (auto split: sum.splits if_splits)

lemma force_wait_triple:
  assumes "stable R P" and "triple R P (ro_handoff_state oid sid) (after_res (\<lambda>(_, u) g. P g \<and> (\<not> u \<longrightarrow> S g)) (\<lambda>_. P))"
  shows "triple R P (ro_force_wait oid sid admitted aborted d) (after_res (\<lambda>_. S) (\<lambda>_. P))"
  by (rule poll_triple [OF force_polling, where g = "1 / 20", OF _ _ _ assms]) (auto simp: min_def split: sum.splits if_splits)

lemma read_lb_awaits: "r_await (snd (read_lb f r)) \<le> r_await r + 6"
  using retry_read_awaits [of "query (\<lambda>g. f (ro_lb g))" 3 "1 / 20" r] by (simp add: read_lb_def query_awaits)

text \<open>What the drain knows of R, and what a poll adds.\<close>

definition drains ::
    "('n, nat, 'x) native_router \<Rightarrow> string \<Rightarrow> replica_key \<Rightarrow> string \<Rightarrow> ('n, 'z) ro_scheme \<Rightarrow> bool" where
  "drains N oid target sid g \<longleftrightarrow> m_state (ro_mgr g) target = Some DRAINING \<and> ro_targets g oid = Some target
     \<and> draining_by N oid target sid (ro_lb g)"

definition drained_off ::
    "('n, nat, 'x) native_router \<Rightarrow> string \<Rightarrow> replica_key \<Rightarrow> string \<Rightarrow> ('n, 'z) ro_scheme \<Rightarrow> bool" where
  "drained_off N oid target sid g \<longleftrightarrow> drains N oid target sid g \<and> \<not> lb_has_unsettled sid (ro_lb g)"

lemma drains_stable [simp]: "stable (ro_rely N oid target) (drains N oid target sid)"
  by (auto simp: stable_def drains_def ro_rely_def)

lemma drained_stable [simp]: "stable (ro_rely N oid target) (drained_off N oid target sid)"
  by (auto simp: stable_def drained_off_def drains_def ro_rely_def)

lemma unsettled_view:
  "triple (ro_rely N oid target) (drains N oid target sid) (ro_unsettled sid)
     (after_res (\<lambda>u g. drains N oid target sid g \<and> (\<not> u \<longrightarrow> drained_off N oid target sid g))
        (\<lambda>_. drains N oid target sid))"
  unfolding ro_unsettled_def
proof (rule read_lb_view)
  show "stable (ro_rely N oid target) (\<lambda>g. drains N oid target sid g \<and> (\<not> u \<longrightarrow> drained_off N oid target sid g))" for u
    by (cases u) auto
qed (auto simp: drained_off_def)

lemma keeps_handoffs: "keeps (ro_rely N oid target) (drains N oid target sid) (read_lb (lb_handoff_requests oid))"
  by (rule keeps_read_lb) simp

lemma handoff_view:
  "triple (ro_rely N oid target) (drains N oid target sid) (ro_handoff_state oid sid)
     (after_res (\<lambda>(_, u) g. drains N oid target sid g \<and> (\<not> u \<longrightarrow> drained_off N oid target sid g))
        (\<lambda>_. drains N oid target sid))"
  unfolding ro_handoff_state_def
  by (rule triple_then [where M = "\<lambda>_. drains N oid target sid" and F = "\<lambda>_. drains N oid target sid"],
      unfold triple_same, rule keeps_triple [OF keeps_handoffs], simp, rule triple_then [OF unsettled_view])
    (auto intro: triple_ret)

lemma begin_drain_effect:
  assumes "router_ok N" and "m_state (ro_mgr g) target = Some DRAINING" and "ro_targets g oid = Some target"
    and "lb_begin_drain N target oid (ro_lb g) = (Inr sid, lb')"
  shows "drains N oid target sid (g\<lparr>ro_lb := lb'\<rparr>)"
  using assms begin_drain_gone [OF assms(1,4)]
  by (cases rule: lb_drain_cases [of N target oid "ro_lb g"]) (auto simp: drains_def draining_by_def)

definition parked :: "string \<Rightarrow> replica_key \<Rightarrow> ('n, 'z) ro_scheme \<Rightarrow> bool" where
  "parked oid target g \<longleftrightarrow> m_state (ro_mgr g) target = Some DRAINING \<and> ro_targets g oid = Some target"

lemma parked_stable [simp]: "stable (ro_rely N oid target) (parked oid target)"
  by (auto simp: stable_def parked_def ro_rely_def)

lemma begin_drain_call:
  assumes "router_ok N" and "parked oid target g"
  shows "after_res (drains N oid target) (\<lambda>_. parked oid target)
    (fst (lb_begin_drain N target oid (ro_lb g))) (g\<lparr>ro_lb := snd (lb_begin_drain N target oid (ro_lb g))\<rparr>)"
  using assms begin_drain_effect [OF assms(1), of g target oid]
  by (cases "lb_begin_drain N target oid (ro_lb g)") (auto simp: parked_def split: sum.split)

lemma begin_drain_view:
  assumes "router_ok (rc_router C)"
  shows "triple (ro_rely (rc_router C) oid target) (parked oid target) (ro_begin_drain C target oid)
    (after_res (drains (rc_router C) oid target) (\<lambda>_. parked oid target))"
proof -
  let ?R = "ro_rely (rc_router C) oid target"
  have call: "triple ?R (parked oid target) (call_lb (\<lambda>_. lb_begin_drain (rc_router C) target oid))
      (after_res (drains (rc_router C) oid target) (\<lambda>_. parked oid target))"
    unfolding call_lb_def
    apply (rule triple_remote [OF parked_stable stable_after_res triple_sync])
       apply simp
      apply simp
     apply (simp only: fst_conv snd_conv sum.case)
     apply (intro conjI allI)
      apply (erule begin_drain_call [OF assms])
     apply (simp add: parked_def)
    apply simp
    done
  then show ?thesis unfolding ro_begin_drain_def Let_def by (rule triple_try) (auto intro: call)
qed
lemma keeps_admitted: "stable R P \<Longrightarrow> keeps R P (ro_admitted rs)"
  by (induction rs) (auto intro: keeps_read_lb)

lemma recovery_keeps_drains: "keeps (ro_rely N oid target) (drains N oid target sid) (ro_recovery oid sid')"
  unfolding ro_recovery_def ro_force_abort_def ro_abort_all_def set_recovery_def
  by (auto intro!: keeps_read_lb keeps_admitted keeps_outside simp: drains_def [of _ _ _ _ "ro_force_update _ _"]
      drains_def [of _ _ _ _ "ro_aborts_update _ _"] drains_def split: option.split pyval.split)

definition exit_ready ::
    "('n, nat, 'x) native_router \<Rightarrow> string \<Rightarrow> replica_key \<Rightarrow> op_evidence res \<Rightarrow> ('n, 'z) ro_scheme \<Rightarrow> bool" where
  "exit_ready N oid target x g \<longleftrightarrow> (case x of
     Inr ev \<Rightarrow> e_operation_id ev = oid \<and> e_type ev = EXIT_READY \<and> (\<exists>sid. drained_off N oid target sid g)
   | Inl _ \<Rightarrow> True)"

lemma exit_ready_failed [simp]: "exit_ready N oid target (Inl e) g"
  by (simp add: exit_ready_def)

lemma ready_stamp:
  "triple R (drained_off N oid target sid) (stamp oid EXIT_READY []) (exit_ready N oid target)"
  unfolding stamp_def
  by (rule triple_sync) (auto simp: exit_ready_def evidence_now_def mk_evidence_Inr_iff split: sum.split)

lemma force_drain_view:
  assumes "router_ok (rc_router C)"
  shows "triple (ro_rely (rc_router C) oid target) (parked oid target) (ro_force_drain C target oid sid)
    (exit_ready (rc_router C) oid target)"
proof -
  let ?N = "rc_router C" let ?R = "ro_rely ?N oid target"
  have wait: "triple ?R (drains ?N oid target sid)
      (\<lambda>r. ro_force_wait oid sid admitted aborted (r_time r + FORCE_HANDOFF_TIMEOUT) r)
      (after_res (\<lambda>_. drained_off ?N oid target sid) (\<lambda>_. drains ?N oid target sid))" for admitted aborted
    by (rule triple_at, rule force_wait_triple [OF drains_stable handoff_view])
  have rest: "triple ?R (drains ?N oid target sid) (andthen (ro_recovery oid sid) (\<lambda>(admitted, aborted).
      andthen (\<lambda>r. ro_force_wait oid sid admitted aborted (r_time r + FORCE_HANDOFF_TIMEOUT) r)
        (\<lambda>_. stamp oid EXIT_READY []))) (exit_ready ?N oid target)"
    by (rule triple_then [where M = "\<lambda>_. drains ?N oid target sid" and F = "\<lambda>_. drains ?N oid target sid"],
        unfold triple_same, rule keeps_triple [OF recovery_keeps_drains], simp)
      (auto intro: triple_then [OF wait _ ready_stamp])
  show ?thesis unfolding ro_force_drain_def
    by (rule triple_then [OF begin_drain_view [OF assms]], simp, rule triple_guard, simp) (simp add: rest)
qed

lemma natural_drain_view:
  assumes "router_ok (rc_router C)"
  shows "triple (ro_rely (rc_router C) oid target) (parked oid target)
    (andthen (ro_begin_drain C target oid) (\<lambda>sid.
       guard_that (0 < rc_drain_timeout C) (ValueError ''multitask.drain_timeout_s must be positive'')
         (andthen (\<lambda>r. ro_natural_wait sid (r_time r + rc_drain_timeout C) r) (\<lambda>_. stamp oid EXIT_READY []))))
    (exit_ready (rc_router C) oid target)"
proof -
  let ?N = "rc_router C" let ?R = "ro_rely ?N oid target"
  have wait: "triple ?R (drains ?N oid target sid) (\<lambda>r. ro_natural_wait sid (r_time r + rc_drain_timeout C) r)
      (after_res (\<lambda>_. drained_off ?N oid target sid) (\<lambda>_. drains ?N oid target sid))" for sid
    by (rule triple_at, rule natural_wait_triple [OF drains_stable unsettled_view])
  show ?thesis
    by (rule triple_then [OF begin_drain_view [OF assms]], simp, rule triple_guard, simp,
        rule triple_then [OF wait _ ready_stamp]) simp
qed

text \<open>The state and the binding the drain starts from.\<close>

definition meets :: "string \<Rightarrow> replica_key \<Rightarrow> replica_state \<Rightarrow> replica_kind \<Rightarrow> replica_key option \<Rightarrow> ('n, 'z) ro_scheme \<Rightarrow> bool" where
  "meets oid target st kd b g \<longleftrightarrow> (\<exists>pub. sees oid target st kd b pub g)"

lemma meets_stable [simp]: "stable (ro_rely N oid target) (meets oid target st kd b)"
  unfolding meets_def by (intro stable_ex) simp

lemma meets_draining:
  assumes "DRAINING \<in> allowed st"
  shows "triple R (meets oid target st kd b) (set_state target DRAINING)
     (after_res (\<lambda>_. meets oid target DRAINING kd b) F)"
proof -
  have ok: "DRAINING = st \<or> DRAINING \<in> allowed st \<and> validate_kind_state kd DRAINING = None"
    using assms by (simp add: validate_kind_state_def)
  show ?thesis unfolding meets_def [abs_def]
    by (rule triple_ex, rule triple_post [OF view_steps(6) [OF ok, where F = "\<lambda>_ _. False"]]) (auto split: sum.splits)
qed

lemma meets_bound:
  "triple R (meets oid target st kd b) (bind_target oid key) (after_res (\<lambda>_. meets oid target st kd (Some key)) F)"
  unfolding meets_def [abs_def]
  by (rule triple_ex, rule triple_post [OF view_steps(5) [where F = "\<lambda>_ _. False"]]) (auto split: sum.splits)

lemma meets_read:
  "triple (ro_rely N oid target) (meets oid target st kd b) (read_lb f)
     (after_res (\<lambda>_. meets oid target st kd b) (\<lambda>_. meets oid target st kd b))"
  unfolding triple_same by (rule keeps_triple [OF keeps_read_lb]) simp

lemma meets_parked: "meets oid target DRAINING kd (Some target) g \<Longrightarrow> parked oid target g"
  by (auto simp: meets_def sees_def parked_def)

lemma prepare_natural_view:
  assumes "router_ok (rc_router C)"
  shows "triple (ro_rely (rc_router C) oid target) (meets oid target st kd b)
    (ro_prepare_natural C target st oid) (exit_ready (rc_router C) oid target)"
proof -
  let ?N = "rc_router C" let ?R = "ro_rely ?N oid target"
  have start: "triple ?R (meets oid target st kd b)
      (if st = ACTIVE then andthen (set_state target DRAINING) (\<lambda>_. ret ()) else ret ())
      (after_res (\<lambda>_. meets oid target DRAINING kd b) (\<lambda>_ _. False))" if "st = ACTIVE \<or> st = DRAINING"
  proof (rule triple_if)
    assume st: "st = ACTIVE"
    show "triple ?R (meets oid target st kd b) (andthen (set_state target DRAINING) (\<lambda>_. ret ()))
        (after_res (\<lambda>_. meets oid target DRAINING kd b) (\<lambda>_ _. False))"
      by (rule triple_then [OF meets_draining [where F = "\<lambda>_ _. False"]]) (auto simp: st intro: triple_ret)
  qed (use that in \<open>auto intro: triple_ret\<close>)
  show ?thesis unfolding ro_prepare_natural_def
    by (rule triple_guard, simp, rule triple_then [OF start], assumption, simp,
        rule triple_then [OF meets_bound [where F = "\<lambda>_ _. False"]], simp,
        rule triple_pre [OF natural_drain_view [OF assms]], erule meets_parked)
qed
lemma prepare_force_view:
  assumes "router_ok (rc_router C)"
  shows "triple (ro_rely (rc_router C) oid target) (meets oid target st kd b)
    (ro_prepare_force C target kd st b oid) (exit_ready (rc_router C) oid target)"
proof -
  let ?N = "rc_router C" let ?R = "ro_rely ?N oid target"
  have start: "triple ?R (meets oid target st kd b)
      (if st = ACTIVE then andthen (set_state target DRAINING) (\<lambda>_. bind_target oid target) else ret ())
      (after_res (\<lambda>_. parked oid target) (\<lambda>_ _. False))" if "st = ACTIVE \<or> st = DRAINING \<and> b = Some target"
  proof (rule triple_if)
    assume st: "st = ACTIVE"
    have "triple ?R (meets oid target DRAINING kd b) (bind_target oid target) (after_res (\<lambda>_. parked oid target) (\<lambda>_ _. False))"
      by (rule triple_post [OF meets_bound [where F = "\<lambda>_ _. False"]]) (auto dest: meets_parked split: sum.splits)
    then show "triple ?R (meets oid target st kd b) (andthen (set_state target DRAINING) (\<lambda>_. bind_target oid target))
        (after_res (\<lambda>_. parked oid target) (\<lambda>_ _. False))"
      by (intro triple_then [OF meets_draining [where F = "\<lambda>_ _. False"]]) (simp_all add: st)
  qed (use that in \<open>auto intro!: triple_ret dest: meets_parked\<close>)
  have drain: "triple ?R (meets oid target st kd b)
      (andthen (if st = ACTIVE then andthen (set_state target DRAINING) (\<lambda>_. bind_target oid target) else ret ())
        (\<lambda>_. ro_force_drain C target oid sid)) (exit_ready ?N oid target)"
    if "st = ACTIVE \<or> st = DRAINING \<and> b = Some target" for sid
    by (rule triple_then [OF start [OF that] _ force_drain_view [OF assms]]) simp
  have inner: "triple ?R (meets oid target st kd b)
      (andthen (read_lb (\<lambda>lb. Inr (ro_servers C lb))) (\<lambda>servers.
         guard_that (\<exists>s \<in> set servers. s \<noteq> sid) (RuntimeError ''FORCE REMOVE requires another active rollout server'')
           (look (\<lambda>g. m_runtime (ro_mgr g) target) (\<lambda>runtime.
              guard_that (runtime \<noteq> None) (RuntimeError ''FORCE target runtime is unavailable'')
                (andthen (if st = ACTIVE then andthen (set_state target DRAINING) (\<lambda>_. bind_target oid target) else ret ())
                   (\<lambda>_. ro_force_drain C target oid sid)))))) (exit_ready ?N oid target)"
    if "st = ACTIVE \<or> st = DRAINING \<and> b = Some target" for sid
    by (rule triple_then [OF meets_read], simp, rule triple_guard, simp, rule triple_look, rule triple_guard, simp,
        rule triple_pre [OF drain [OF that]]) simp
  have route: "triple ?R (meets oid target st kd b) (case server of Some (c # cs) \<Rightarrow> m (c # cs)
      | _ \<Rightarrow> raise (RuntimeError ''FORCE target has no active route'')) (exit_ready ?N oid target)"
    if "\<And>sid. triple ?R (meets oid target st kd b) (m sid) (exit_ready ?N oid target)" for server m
    using that by (auto intro: triple_raise split: option.split list.split)
  show ?thesis unfolding ro_prepare_force_def
    by (rule triple_guard, simp, rule triple_guard, simp, rule triple_guard, simp, rule triple_then [OF meets_read], simp,
        rule route, rule inner)
qed

lemma prepare_exit_view:
  assumes "router_ok (rc_router C)"
  shows "triple (ro_rely (rc_router C) oid target) (\<lambda>_. True)
    (ro_prepare_exit C target oid force) (exit_ready (rc_router C) oid target)"
  unfolding ro_prepare_exit_def
proof (rule triple_guard, simp, rule triple_look, rule lift_then, clarify)
  fix meta kd st
  let ?N = "rc_router C" let ?R = "ro_rely ?N oid target"
  let ?P = "\<lambda>g. True \<and> rm_meta target (ro_mgr g) = Inr (kd, st)"
  show "triple ?R ?P (look (\<lambda>g. ro_targets g oid) (\<lambda>previous.
      guard_that (previous \<in> {None, Some target}) (ValueError ''operation_id is already bound to another replica'')
        (if force then ro_prepare_force C target kd st previous oid else ro_prepare_natural C target st oid)))
      (exit_ready ?N oid target)"
  proof (rule triple_look, rule triple_guard, simp)
    fix b
    have "triple ?R (meets oid target st kd b)
        (if force then ro_prepare_force C target kd st b oid else ro_prepare_natural C target st oid) (exit_ready ?N oid target)"
      by (simp add: prepare_force_view [OF assms] prepare_natural_view [OF assms])
    then show "triple ?R (\<lambda>g. ?P g \<and> ro_targets g oid = b)
        (if force then ro_prepare_force C target kd st b oid else ro_prepare_natural C target st oid) (exit_ready ?N oid target)"
      by (rule triple_pre) (auto simp: rm_meta_def meets_def sees_def split: option.splits)
  qed
qed simp

section \<open>FORCE aborts once\<close>

definition aborted_once :: "string \<Rightarrow> ('n, 'z) ro_scheme \<Rightarrow> bool" where
  "aborted_once oid g \<longleftrightarrow> count_list (ro_aborts g) oid \<le> (if ro_force g oid = None then 0 else 1)"

lemma once_stable [simp]: "stable (ro_rely N oid target) (aborted_once oid)"
  by (simp add: stable_def aborted_once_def ro_rely_def)

lemma once_fields [simp]:
  "aborted_once oid (g\<lparr>ro_mgr := m\<rparr>) = aborted_once oid g" "aborted_once oid (g\<lparr>ro_lb := l\<rparr>) = aborted_once oid g"
  "aborted_once oid (g\<lparr>ro_targets := t\<rparr>) = aborted_once oid g"
  by (simp_all add: aborted_once_def)

lemma once_steps [intro]:
  "keeps R (aborted_once oid) (on_mgr f)" "keeps R (aborted_once oid) (bind_target o' key)"
  "keeps R (aborted_once oid) (set_state key st)" "keeps R (aborted_once oid) (stamp o' ty us)"
  unfolding on_mgr_def bind_target_def set_state_def stamp_def by auto

definition abort_issued :: "string \<Rightarrow> ('n, 'z) ro_scheme \<Rightarrow> bool" where
  "abort_issued oid g \<longleftrightarrow> count_list (ro_aborts g) oid \<le> 1 \<and> ro_force g oid \<noteq> None"

lemma issued_once: "abort_issued oid g \<Longrightarrow> aborted_once oid g"
  by (auto simp: abort_issued_def aborted_once_def)

lemma issued_stable: "stable (ro_rely N oid target) (abort_issued oid)"
  by (simp add: stable_def abort_issued_def ro_rely_def)

lemma issued_recovery:
  "triple R (abort_issued oid) (andthen (set_recovery oid admitted n) (\<lambda>_. ret x)) (\<lambda>_. aborted_once oid)"
  unfolding set_recovery_def
  by (rule triple_then [where M = "\<lambda>_. abort_issued oid" and F = "\<lambda>_. abort_issued oid"], rule triple_sync,
      simp add: abort_issued_def, erule issued_once, rule triple_ret, erule issued_once)

lemma once_force_abort:
  "triple (ro_rely N oid target) (\<lambda>g. aborted_once oid g \<and> ro_force g oid = None) (ro_force_abort oid admitted)
     (\<lambda>_. aborted_once oid)"
proof -
  let ?R = "ro_rely N oid target"
  let ?Z = "\<lambda>g. count_list (ro_aborts g) oid = 0 \<and> ro_force g oid \<noteq> None"
  have set1: "triple ?R (\<lambda>g. aborted_once oid g \<and> ro_force g oid = None) (set_recovery oid admitted None)
      (after_res (\<lambda>_. ?Z) (\<lambda>_ _. False))"
    unfolding set_recovery_def by (rule triple_sync) (auto simp: aborted_once_def)
  have abort: "triple ?R ?Z (ro_abort_all oid) (after_res (\<lambda>_. abort_issued oid) (\<lambda>_. abort_issued oid))"
    unfolding ro_abort_all_def triple_same
    by (rule triple_then [where M = "\<lambda>_. abort_issued oid" and F = "\<lambda>_. abort_issued oid"], rule triple_sync,
        simp add: abort_issued_def, simp, rule triple_outside [OF issued_stable])
  show ?thesis unfolding ro_force_abort_def
    by (rule triple_then [OF set1], simp, rule triple_then [OF abort], erule issued_once)
      (auto intro!: triple_raise issued_recovery issued_once split: pyval.split)
qed

lemma once_recovery: "keeps (ro_rely N oid target) (aborted_once oid) (ro_recovery oid sid)"
  unfolding ro_recovery_def keeps_def
proof (rule triple_look)
  fix known
  let ?R = "ro_rely N oid target"
  let ?P = "\<lambda>g. aborted_once oid g \<and> ro_force g oid = known"
  have P: "stable ?R ?P" by (auto simp: stable_def ro_rely_def aborted_once_def)
  have read: "triple ?R ?P (read_lb (\<lambda>lb. Inr (lb_requests_for_server sid lb))) (after_res (\<lambda>_. ?P) (\<lambda>_. ?P))"
    unfolding triple_same by (rule keeps_triple [OF keeps_read_lb [OF P]])
  have collect: "triple ?R ?P (ro_admitted rs) (after_res (\<lambda>_. ?P) (\<lambda>_. ?P))" for rs
    unfolding triple_same by (rule keeps_triple [OF keeps_admitted [OF P]])
  show "triple ?R ?P (case known of
      Some recovery \<Rightarrow> ret recovery
    | None \<Rightarrow> andthen (read_lb (\<lambda>lb. Inr (lb_requests_for_server sid lb)))
        (\<lambda>requests. andthen (ro_admitted requests) (ro_force_abort oid))) (\<lambda>_. aborted_once oid)"
  proof (cases known)
    case None
    have "triple ?R ?P (andthen (read_lb (\<lambda>lb. Inr (lb_requests_for_server sid lb)))
        (\<lambda>requests. andthen (ro_admitted requests) (ro_force_abort oid))) (\<lambda>_. aborted_once oid)"
      by (rule triple_then [OF read], simp, rule triple_then [OF collect], simp)
        (use once_force_abort None in simp)
    then show ?thesis by (simp add: None)
  qed (auto intro: triple_ret)
qed

lemma keeps_natural_wait:
  assumes "stable R P"
  shows "keeps R P (\<lambda>r. ro_natural_wait sid (r_time r + d) r)"
  unfolding keeps_def triple_same [symmetric]
proof (rule triple_at, rule natural_wait_triple [OF assms])
  show "triple R P (ro_unsettled sid) (after_res (\<lambda>u g. P g \<and> (\<not> u \<longrightarrow> P g)) (\<lambda>_. P))"
    unfolding ro_unsettled_def
    by (rule triple_post [OF keeps_triple [OF keeps_read_lb [OF assms]]]) (simp split: sum.split)
qed

lemma keeps_force_wait:
  assumes "stable R P"
  shows "keeps R P (\<lambda>r. ro_force_wait oid sid admitted aborted (r_time r + d) r)"
  unfolding keeps_def triple_same [symmetric]
proof (rule triple_at, rule force_wait_triple [OF assms])
  have "keeps R P (ro_handoff_state oid sid)"
    unfolding ro_handoff_state_def ro_unsettled_def by (auto intro: keeps_read_lb assms)
  then show "triple R P (ro_handoff_state oid sid) (after_res (\<lambda>(_, u) g. P g \<and> (\<not> u \<longrightarrow> P g)) (\<lambda>_. P))"
    by (rule triple_post [OF keeps_triple]) (simp split: sum.split)
qed

lemma once_begin_drain: "keeps (ro_rely N oid target) (aborted_once oid) (ro_begin_drain C key o')"
  unfolding ro_begin_drain_def Let_def by (auto intro: keeps_call_lb)

lemma once_force_drain: "keeps (ro_rely N oid target) (aborted_once oid) (ro_force_drain C key oid sid)"
  unfolding ro_force_drain_def
  by (auto intro!: once_begin_drain once_recovery keeps_force_wait)

lemma once_prepare_force: "keeps (ro_rely N oid target) (aborted_once oid) (ro_prepare_force C key kd st b oid)"
  unfolding ro_prepare_force_def
  by (auto intro!: once_force_drain once_steps keeps_read_lb split: option.split list.split)

lemma once_prepare_exit: "keeps (ro_rely N oid target) (aborted_once oid) (ro_prepare_exit C key oid force)"
  unfolding ro_prepare_exit_def ro_prepare_natural_def
  by (auto intro!: once_prepare_force once_begin_drain once_steps keeps_natural_wait)
section \<open>Properties\<close>

text \<open>
  C16: EXIT_READY is only reported for a drained replica: when preparing an exit succeeds, naturally or
  by FORCE and whatever calls and replies were lost on the way, the replica is DRAINING and bound to
  the operation, its server drains for this operation, is out of the native pool and serves no
  unsettled request.
\<close>

theorem ro_exit_ready_drained:
  assumes "router_ok (rc_router C)" and "obeys (ro_rely (rc_router C) oid target) r"
    and "ro_prepare_exit C target oid force r = (Inr ev, r')"
  shows "e_operation_id ev = oid \<and> e_type ev = EXIT_READY
    \<and> m_state (ro_mgr (r_now r')) target = Some DRAINING \<and> ro_targets (r_now r') oid = Some target
    \<and> (\<exists>sid. map_of (lb_routes (ro_lb (r_now r'))) target = Some sid
         \<and> lb_draining (ro_lb (r_now r')) sid = Some oid
         \<and> map_of (nr_servers (rc_router C) (lb_native (ro_lb (r_now r')))) sid = None
         \<and> \<not> lb_has_unsettled sid (ro_lb (r_now r')))"
  using tripleD(1) [OF prepare_exit_view [OF assms(1)] assms(2) TrueI assms(3)]
  by (auto simp: exit_ready_def drained_off_def drains_def draining_by_def)

text \<open>
  A FORCE exit aborts the runtime's requests at most once: however often the operation is repeated
  after lost replies, timeouts and failures, and whichever of the repetitions use FORCE.
\<close>

theorem ro_force_aborts_once:
  assumes "obeys (ro_rely N oid target) r" and "oid \<notin> set (ro_aborts (r_now r))"
    and "r' = fold (\<lambda>force r. snd (ro_prepare_exit C target oid force r)) forces r"
  shows "count_list (ro_aborts (r_now r')) oid \<le> 1"
proof -
  have step: "obeys (ro_rely N oid target) (snd (ro_prepare_exit C target oid force r))
      \<and> aborted_once oid (r_now (snd (ro_prepare_exit C target oid force r)))"
    if "obeys (ro_rely N oid target) r" "aborted_once oid (r_now r)" for force r
    using once_prepare_exit [of N oid target C target force] that unfolding keeps_def triple_def by blast
  have "obeys (ro_rely N oid target) (fold (\<lambda>force r. snd (ro_prepare_exit C target oid force r)) forces r)
      \<and> aborted_once oid (r_now (fold (\<lambda>force r. snd (ro_prepare_exit C target oid force r)) forces r))"
    if "obeys (ro_rely N oid target) r" "aborted_once oid (r_now r)" for r
    using that by (induction forces arbitrary: r) (simp_all add: step)
  from this [of r] assms show ?thesis
    by (auto simp: aborted_once_def count_notin split: if_splits)
qed

text \<open>
  C40: A natural drain ends: with a drain timeout of at most T seconds, preparing an exit without
  FORCE returns after at most 70 T + 16 awaits, whatever the load balancer answers.
\<close>

theorem ro_natural_drain_bounded:
  fixes C :: "('n, 'x) ro_config" and r :: "('n, 'z) ro_scheme run"
  assumes "rc_drain_timeout C \<le> of_nat T"
  shows "r_await (snd (ro_prepare_exit C target oid False r)) \<le> r_await r + 70 * T + 16"
proof -
  have wait: "takes (\<lambda>r :: ('n, 'z) ro_scheme run. ro_natural_wait sid (r_time r + rc_drain_timeout C) r) (70 * T + 14)" for sid
    unfolding takes_def
  proof
    fix r :: "('n, 'z) ro_scheme run"
    have "\<lceil>rc_drain_timeout C * 10\<rceil> \<le> int (10 * T)" unfolding ceiling_le_iff using assms by simp
    then have "nat \<lceil>rc_drain_timeout C * 10\<rceil> \<le> 10 * T" by simp
    then have p: "polls_left (1 / 10) (r_time r + rc_drain_timeout C) (r_time r) \<le> Suc (10 * T)"
      by (simp add: polls_left_def)
    have "r_await (snd (ro_natural_wait sid (r_time r + rc_drain_timeout C) r)) \<le>
        r_await r + Suc 6 * Suc (polls_left (1 / 10) (r_time r + rc_drain_timeout C) (r_time r))"
      by (rule poll_bound [OF natural_polling]) (auto simp: ro_unsettled_def read_lb_awaits)
    with p show "r_await (snd (ro_natural_wait sid (r_time r + rc_drain_timeout C) r)) \<le> r_await r + (70 * T + 14)"
      by simp
  qed
  have drain: "takes (ro_begin_drain C target oid :: (('n, 'z) ro_scheme, string) coro) (1 + 1)"
    unfolding ro_begin_drain_def Let_def call_lb_def
    using takes_remote [OF takes_basic(4), where n = 0] by (intro takes_rescue) simp_all
  have first: "takes (if st = ACTIVE then andthen (set_state target DRAINING) (\<lambda>_. ret ()) else ret () :: (('n, 'z) ro_scheme, unit) coro) 0" for st
    using takes_andthen [of "set_state target DRAINING :: (('n, 'z) ro_scheme, replica_state) coro" 0 "\<lambda>_. ret ()" 0]
    by (simp add: takes_basic set_state_def on_mgr_def)
  have natural: "takes (ro_prepare_natural C target st oid :: (('n, 'z) ro_scheme, op_evidence) coro) (0 + (0 + (1 + 1 + (70 * T + 14 + 0))))" for st
    unfolding ro_prepare_natural_def
    by (intro takes_guard takes_andthen first drain wait) (simp_all add: bind_target_def stamp_def takes_basic)
  have "takes (ro_prepare_exit C target oid False :: (('n, 'z) ro_scheme, op_evidence) coro) (70 * T + 16)"
    unfolding ro_prepare_exit_def
    by (rule takes_guard, rule takes_look, rule takes_andthen [where a = 0 and b = "70 * T + 16", simplified])
      (use natural in \<open>auto intro!: takes_basic takes_look takes_guard simp: add_ac\<close>)
  then show ?thesis unfolding takes_def by (metis add.assoc)
qed
text \<open>The concrete Rollouter drains its replica naturally; FORCE is refused for a native replica.\<close>

theorem ro_exit_ready_drained_witness:
  "\<exists>ev r'. ro_prepare_exit demo_config demo_key ''op'' False (run_of (lossy PNone) (demo_ro ACTIVE demo_lb)) = (Inr ev, r')
     \<and> e_type ev = EXIT_READY \<and> (\<exists>sid. \<not> lb_has_unsettled sid (ro_lb (r_now r')))"
proof -
  let ?r = "run_of (lossy PNone) (demo_ro ACTIVE demo_lb)"
  have "\<exists>x r'. ro_prepare_exit demo_config demo_key ''op'' False ?r = (Inr x, r')"
    by (simp add: ro_prepare_exit_def ro_prepare_natural_def ro_begin_drain_def ro_natural_wait.simps [of _ _ "_::(_,unit) ro_scheme run"] ro_unsettled_def ro_eval coro_eval lb_eval demo_key_def)
  then obtain x r' where e: "ro_prepare_exit demo_config demo_key ''op'' False ?r = (Inr x, r')" by blast
  have "router_ok (rc_router demo_config)" using demo_router_ok by (simp add: demo_config_def)
  from ro_exit_ready_drained [OF this lossy_obeys e] e show ?thesis by blast
qed

theorem ro_force_aborts_once_witness:
  "count_list (ro_aborts (r_now (fold (\<lambda>force r. snd (ro_prepare_exit demo_config demo_key ''op'' force r))
     [True, False] (run_of (lossy PNone) (demo_ro ACTIVE demo_lb))))) ''op'' \<le> 1"
  by (rule ro_force_aborts_once [where N = demo_router and oid = "''op''" and target = demo_key, OF lossy_obeys _ refl])
    (simp add: run_of_def demo_ro_def new_ro_def)

theorem ro_natural_drain_bounded_witness:
  "r_await (snd (ro_prepare_exit demo_config demo_key ''op'' False (run_of (lossy PNone) (demo_ro ACTIVE demo_lb)))) \<le> 21016"
  using ro_natural_drain_bounded [of demo_config 300 demo_key "''op''" "run_of (lossy PNone) (demo_ro ACTIVE demo_lb)"]
  by (simp add: demo_config_def run_of_def)

end
