(* ===== verification/Rollouter_Prepare.thy ===== *)
theory Rollouter_Prepare
  imports Rollouter
begin

text \<open>
  What preparing a borrowed replica reports (\<open>prepare_replica\<close> of \<open>rollouter.py\<close>, defined in
  \<open>Rollouter\<close>): a creation that failed is answered with RELEASED evidence only while the manager has
  no runtime for the target, and then the operation is unbound; otherwise the operation stays bound
  to the target, so that its outcome can still be reconciled.
\<close>

section \<open>Steps that keep the binding\<close>

definition bound_to :: "string \<Rightarrow> replica_key \<Rightarrow> ('n, 'z) ro_scheme \<Rightarrow> bool" where
  "bound_to oid key g \<longleftrightarrow> ro_targets g oid = Some key"

lemma bound_to_stable [simp]: "stable (ro_rely N oid target) (bound_to oid key)"
  by (simp add: stable_def ro_rely_def bound_to_def)

lemma keeps_bound_mgr [intro!]: "keeps R (bound_to oid key) (on_mgr f)"
  unfolding on_mgr_def by (auto simp: bound_to_def)

lemma keeps_bound_create: "keeps (ro_rely N oid target) (bound_to oid key) (ro_create C sp)"
  unfolding ro_create_def by (auto intro!: keeps_outside split: create_begin.split)

text \<open>No runtime of the target is left: M has no entry for it, or its released borrowed one.\<close>

definition no_runtime :: "replica_key \<Rightarrow> ('n, 'z) ro_scheme \<Rightarrow> bool" where
  "no_runtime key g \<longleftrightarrow> m_state (ro_mgr g) key = None
     \<or> m_kind (ro_mgr g) key = Some BORROWED \<and> m_state (ro_mgr g) key = Some RELEASED_STATE"

definition prepared :: "string \<Rightarrow> replica_key \<Rightarrow> pydict \<Rightarrow> (create_result + op_evidence) option res \<Rightarrow> ('n, 'z) ro_scheme \<Rightarrow> bool" where
  "prepared oid key sp x g \<longleftrightarrow>
     (case x of
        Inr (Some (Inr ev)) \<Rightarrow> e_operation_id ev = oid \<and> e_type ev = RELEASED \<and> e_gpu_uuids ev = spec_uuids sp
          \<and> no_runtime key g \<and> ro_targets g oid = None
      | Inr _ \<Rightarrow> ro_targets g oid = Some key
      | Inl _ \<Rightarrow> ro_targets g oid = Some key \<or> no_runtime key g)"

lemma failed_create_view:
  "triple (ro_rely N oid key) (bound_to oid key) (ro_failed_create key oid sp e) (prepared oid key sp)"
  unfolding ro_failed_create_def
proof (rule triple_look, clarify, rule triple_if)
  fix st kd
  let ?P = "\<lambda>g. bound_to oid key g \<and> (m_state (ro_mgr g) key, m_kind (ro_mgr g) key) = (st, kd)"
  show "triple (ro_rely N oid key) ?P (raise e) (prepared oid key sp)"
    by (rule triple_raise) (simp add: prepared_def bound_to_def)
  assume gone: "(st = None \<or> kd = Some BORROWED \<and> st = Some RELEASED_STATE) \<and> spec_uuids sp \<noteq> []"
  let ?U = "\<lambda>g. ro_targets g oid = None \<and> no_runtime key g"
  have unbind: "triple (ro_rely N oid key) ?P (unbind_target oid) (after_res (\<lambda>_. ?U) (\<lambda>_ _. False))"
    unfolding unbind_target_def using gone by (intro triple_sync) (auto simp: no_runtime_def)
  have stamp: "triple (ro_rely N oid key) ?U (stamp oid RELEASED (spec_uuids sp))
      (after_res (\<lambda>ev g. prepared oid key sp (Inr (Some (Inr ev))) g) (\<lambda>_. ?U))"
    unfolding stamp_def
    by (rule triple_sync) (auto simp: evidence_now_def mk_evidence_Inr_iff prepared_def split: sum.split)
  show "triple (ro_rely N oid key) ?P
     (andthen (unbind_target oid) (\<lambda>_. andthen (stamp oid RELEASED (spec_uuids sp)) (\<lambda>ev. ret (Some (Inr ev)))))
     (prepared oid key sp)"
    by (rule triple_then [OF unbind], simp, rule triple_then [OF stamp], simp add: prepared_def)
      (rule triple_ret, simp)
qed

text \<open>A spec that names the operation and its target is accepted, and the target is bound first.\<close>

lemma prepare_starts:
  assumes "oid \<noteq> []" and "ro_targets (r_now r) oid \<in> {None, Some key}"
    and "pyget sp ''operation_id'' = PStr oid" and "pyget sp ''borrower_task_id'' = PStr (task_session key)"
    and "pyget sp ''borrower_replica_id'' = PStr (replica_id key)"
  shows "ro_prepare C key oid (Some sp) r = andthen (bind_target oid key) (\<lambda>_.
      rescue (andthen (ro_create C sp) (\<lambda>r. ret (Some (Inl r)))) (ro_failed_create key oid sp)) r"
  using assms by (simp add: ro_prepare_def guard_that_def look_def)

lemma prepare_view:
  assumes "obeys (ro_rely N oid key) r" and "oid \<noteq> []" and "ro_targets (r_now r) oid \<in> {None, Some key}"
    and "pyget sp ''operation_id'' = PStr oid" and "pyget sp ''borrower_task_id'' = PStr (task_session key)"
    and "pyget sp ''borrower_replica_id'' = PStr (replica_id key)"
    and "ro_prepare C key oid (Some sp) r = (x, r')"
  shows "prepared oid key sp x (r_now r')"
proof -
  let ?R = "ro_rely N oid key"
  have bind: "triple ?R (\<lambda>_. True) (bind_target oid key) (after_res (\<lambda>_. bound_to oid key) (\<lambda>_ _. False))"
    unfolding bind_target_def by (rule triple_sync) (simp add: bound_to_def)
  have made: "triple ?R (bound_to oid key) (andthen (ro_create C sp) (\<lambda>r. ret (Some (Inl r))))
      (after_res (\<lambda>a g. bound_to oid key g \<and> (\<exists>c. a = Some (Inl c))) (\<lambda>_. bound_to oid key))"
    by (rule triple_then [OF keeps_bound_create [unfolded keeps_def, folded triple_same]]) (auto intro: triple_ret)
  have "triple ?R (\<lambda>_. True) (andthen (bind_target oid key) (\<lambda>_.
      rescue (andthen (ro_create C sp) (\<lambda>r. ret (Some (Inl r)))) (ro_failed_create key oid sp))) (prepared oid key sp)"
    by (rule triple_then [OF bind], simp, rule triple_try [OF made _ failed_create_view])
      (auto simp: prepared_def bound_to_def)
  from tripleD(1) [OF this assms(1) TrueI] show ?thesis
    using assms(7) by (simp add: prepare_starts [OF assms(2-6)])
qed

end
