(* ===== verification/Trainer.thy ===== *)
theory Trainer
  imports Rollouter_Prepare Sync_Gate Checkpoint_Manager
begin

text \<open>
  Model of \<open>integration/verl/experimental_fully_async/trainer.py\<close> (\<open>MultiTaskFullyAsyncTrainer\<close>): the
  operations that change the receiver membership E and the service R in one step, under the gate G.
  They run on the trainer's actor and call the Rollouter's coroutines (theory \<open>Rollouter\<close>) on its
  actor, so their state extends the Rollouter's by G, E and the published parameter version.

  The calls a bootstrap makes to workers and servers are answered by the schedule and read by
  \<open>tc_boot\<close>. The native manager, the kind of a runtime and the native weight update are parameters.
\<close>

section \<open>State\<close>

record 'c tn_config =
  tc_native :: "'c native_ce"
  tc_kind :: "nat \<Rightarrow> replica_kind option"
  tc_boot :: "pyval res \<Rightarrow> boot_env"
  tc_workers :: "nat \<Rightarrow> nat"
  tc_hash :: "param list \<Rightarrow> string"
  tc_naive :: bool
  tc_validation :: bool
  tc_source :: bool
  tc_rollouter :: bool
  tc_manager :: bool

text \<open>\<open>tc_rollouter\<close> and \<open>tc_manager\<close>: the two references are set; every owner operation needs both.\<close>

definition tc_ready :: "'c tn_config \<Rightarrow> bool" where
  "tc_ready T \<longleftrightarrow> tc_rollouter T \<and> tc_manager T"

record ('n, 'c) tn = "'n ro" +
  tn_gate :: gate
  tn_ce :: "'c ce"
  tn_version :: pyval

definition on_gate :: "(gate \<Rightarrow> 'a res \<times> gate) \<Rightarrow> (('n, 'c, 'z) tn_scheme, 'a) coro" where
  "on_gate f = sync (\<lambda>g. (fst (f (tn_gate g)), g\<lparr>tn_gate := snd (f (tn_gate g))\<rparr>))"

definition on_ce :: "('c ce \<Rightarrow> 'a res \<times> 'c ce) \<Rightarrow> (('n, 'c, 'z) tn_scheme, 'a) coro" where
  "on_ce f = sync (\<lambda>g. (fst (f (tn_ce g)), g\<lparr>tn_ce := snd (f (tn_ce g))\<rparr>))"

section \<open>The gate in a coroutine\<close>

text \<open>
  The wait for the lock is one await: it ends when the lock was handed to this coroutine, which finds
  it free of any other owner, or because the waiting coroutine was cancelled.
\<close>

definition tn_wait_lock :: "(('n, 'c, 'z) tn_scheme, unit) coro" where
  "tn_wait_lock = andthen (pause 0) (\<lambda>_. look (\<lambda>g. g_locked (tn_gate g)) (\<lambda>locked.
     guard_that (\<not> locked) (BackendError ''cancelled while waiting for the gate'') (ret ())))"

definition tn_acquire :: "string \<Rightarrow> gate_kind \<Rightarrow> (('n, 'c, 'z) tn_scheme, gate_owner) coro" where
  "tn_acquire oid kind = look (\<lambda>g. gate_acquire_entry oid (tn_gate g)) (\<lambda>refused.
     case refused of
       Some e \<Rightarrow> raise e
     | None \<Rightarrow> andthen tn_wait_lock (\<lambda>_ r. on_gate (gate_acquire_granted (r_time r) oid kind) r))"

definition tn_guard :: "gate_owner \<Rightarrow> (('n, 'c, 'z) tn_scheme, 'a) coro \<Rightarrow> (('n, 'c, 'z) tn_scheme, 'a) coro" where
  "tn_guard ow m = look tn_gate (\<lambda>before.
     if gate_is_active ow before
     then caught m (\<lambda>x. look tn_gate (\<lambda>after. lift_res (gate_guard ow before x after)))
     else raise (GateFencedError ''gate lease is no longer active''))"

definition tn_release :: "gate_owner \<Rightarrow> (('n, 'c, 'z) tn_scheme, bool) coro" where
  "tn_release ow = on_gate (\<lambda>g. (Inr (fst (gate_release ow g)), snd (gate_release ow g)))"

definition tn_block :: "gate_owner \<Rightarrow> string \<Rightarrow> (('n, 'c, 'z) tn_scheme, unit) coro" where
  "tn_block ow reason = on_gate (gate_block ow reason)"

text \<open>\<open>try: body finally: await lease.release()\<close>\<close>

definition with_lease ::
    "string \<Rightarrow> gate_kind \<Rightarrow> (gate_owner \<Rightarrow> (('n, 'c, 'z) tn_scheme, 'a) coro) \<Rightarrow> (('n, 'c, 'z) tn_scheme, 'a) coro"
  where
  "with_lease oid kind body = andthen (tn_acquire oid kind) (\<lambda>ow.
     caught (body ow) (\<lambda>x. andthen (tn_release ow) (\<lambda>_. lift_res x)))"

text \<open>\<open>try m except e: h e\<close> where the rest \<open>k\<close> is only reached when \<open>m\<close> did not raise.\<close>

definition attempt ::
    "('g, 'a) coro \<Rightarrow> (exn \<Rightarrow> ('g, 'b) coro) \<Rightarrow> ('a \<Rightarrow> ('g, 'b) coro) \<Rightarrow> ('g, 'b) coro" where
  "attempt m h k r = (case m r of (Inl e, r') \<Rightarrow> h e r' | (Inr x, r') \<Rightarrow> k x r')"

definition block_and_raise :: "gate_owner \<Rightarrow> string \<Rightarrow> exn \<Rightarrow> (('n, 'c, 'z) tn_scheme, 'a) coro" where
  "block_and_raise ow reason e = andthen (tn_block ow reason) (\<lambda>_. raise e)"

text \<open>\<open>reconcile\<close> of the gate with a callback: nothing when the gate is healthy again.\<close>

definition tn_reconcile ::
    "string \<Rightarrow> (('n, 'c, 'z) tn_scheme, 'a) coro \<Rightarrow> (('n, 'c, 'z) tn_scheme, 'a option) coro" where
  "tn_reconcile oid m = look (\<lambda>g. gate_reconcile_entry oid (tn_gate g)) (\<lambda>entry.
     case entry of
       Some (Inl e) \<Rightarrow> raise e
     | Some (Inr _) \<Rightarrow> ret None
     | None \<Rightarrow> andthen tn_wait_lock (\<lambda>_ r. andthen
         (on_gate (\<lambda>g. case gate_reconcile_granted (r_time r) oid g of (x, g') \<Rightarrow> (Inr x, g')))
         (\<lambda>granted. case granted of
            Some (Inl e) \<Rightarrow> raise e
          | Some (Inr _) \<Rightarrow> ret None
          | None \<Rightarrow> caught m (\<lambda>x. andthen (on_gate (gate_reconcile_end (void x)))
              (\<lambda>_. andthen (lift_res x) (\<lambda>ev. ret (Some ev))))) r))"

section \<open>Calls of the Rollouter\<close>

definition tn_target :: "string \<Rightarrow> (('n, 'c, 'z) tn_scheme, replica_key) coro" where
  "tn_target oid = query (ro_pending_target oid)"

definition tn_commit_service ::
    "('n, 'x) ro_config \<Rightarrow> string \<Rightarrow> (('n, 'c, 'z) tn_scheme, op_evidence option) coro" where
  "tn_commit_service C oid = remote (ro_commit_service C oid)"

definition tn_finalize :: "string \<Rightarrow> (('n, 'c, 'z) tn_scheme, op_evidence) coro" where
  "tn_finalize oid = remote (ro_finalize oid)"

definition tn_require ::
    "op_evidence option \<Rightarrow> string \<Rightarrow> evidence_type \<Rightarrow> (('n, 'c, 'z) tn_scheme, op_evidence) coro" where
  "tn_require found oid ty = lift_res (require_evidence found oid ty)"

definition gate_fences :: "string \<Rightarrow> gate \<Rightarrow> bool" where
  "gate_fences oid g \<longleftrightarrow> \<not> gate_healthy g \<and> g_blocked_op g = Some oid"

section \<open>Reconciling a BLOCKED operation\<close>

definition tn_settle_publish ::
    "('n, 'x) ro_config \<Rightarrow> 'c tn_config \<Rightarrow> string \<Rightarrow> replica_key \<Rightarrow> nat list \<Rightarrow> bool
       \<Rightarrow> (('n, 'c, 'z) tn_scheme, op_evidence) coro" where
  "tn_settle_publish C T oid target replicas restore_native =
     andthen (tn_commit_service C oid) (\<lambda>found.
       case found of
         None \<Rightarrow>
           andthen (on_ce (ce_remove_effective (tc_native T) target)) (\<lambda>_.
             andthen (if restore_native then on_ce (ce_register_pending (tc_native T) target replicas oid) else ret ())
               (\<lambda>_. andthen (tn_finalize oid) (\<lambda>ev. tn_require (Some ev) oid RELEASED)))
       | Some ev \<Rightarrow>
           if e_type ev = RELEASED
           then andthen (on_ce (ce_remove_effective (tc_native T) target)) (\<lambda>_. tn_require (Some ev) oid RELEASED)
           else tn_require (Some ev) oid SERVICE_COMMITTED)"

definition tn_reconcile_publish ::
    "('n, 'x) ro_config \<Rightarrow> 'c tn_config \<Rightarrow> string \<Rightarrow> bool \<Rightarrow> (('n, 'c, 'z) tn_scheme, op_evidence option) coro" where
  "tn_reconcile_publish C T oid restore_native = look (\<lambda>g. gate_fences oid (tn_gate g)) (\<lambda>fenced.
     if \<not> fenced then ret None
     else andthen (tn_target oid) (\<lambda>target.
       look (\<lambda>g. map_of (ce_effective (tn_ce g)) target) (\<lambda>member.
         case member of
           None \<Rightarrow> ret None
         | Some (replicas, _) \<Rightarrow>
             andthen (tn_reconcile oid (tn_settle_publish C T oid target replicas restore_native)) (\<lambda>evidence.
               case evidence of
                 None \<Rightarrow> raise (RuntimeError ''publication reconciliation returned no evidence'')
               | Some ev \<Rightarrow> ret (Some ev)))))"

definition tn_reconcile_exit ::
    "('n, 'x) ro_config \<Rightarrow> 'c tn_config \<Rightarrow> string \<Rightarrow> (('n, 'c, 'z) tn_scheme, op_evidence option) coro" where
  "tn_reconcile_exit C T oid =
     guard_that (tc_ready T) (RuntimeError ''Trainer owner dependencies are not initialized'')
       (look (\<lambda>g. gate_fences oid (tn_gate g)) (\<lambda>fenced.
          if \<not> fenced then ret None
          else andthen (tn_target oid) (\<lambda>target.
            look (\<lambda>g. map_of (ce_effective (tn_ce g)) target) (\<lambda>member.
              if member \<noteq> None then ret None
              else andthen
                (tn_reconcile oid (andthen (tn_commit_service C oid) (\<lambda>found. tn_require found oid SERVICE_COMMITTED)))
                (\<lambda>evidence. case evidence of
                   None \<Rightarrow> raise (RuntimeError ''exit reconciliation returned no evidence'')
                 | Some ev \<Rightarrow> ret (Some ev))))))"

section \<open>ADD\<close>

definition tn_bootstrap ::
    "'c tn_config \<Rightarrow> replica_key \<Rightarrow> string \<Rightarrow> (('n, 'c, 'z) tn_scheme, op_evidence) coro" where
  "tn_bootstrap T target oid = look tn_version (\<lambda>version. caught outside (\<lambda>reply. look ro_clock (\<lambda>clock.
     on_ce (ce_bootstrap_target clock (tc_naive T) (tc_validation T) (tc_boot T reply) target oid version))))"

definition tn_commit_pending ::
    "'c tn_config \<Rightarrow> replica_key \<Rightarrow> op_evidence \<Rightarrow> (('n, 'c, 'z) tn_scheme, unit) coro" where
  "tn_commit_pending T target ev =
     look tn_version (\<lambda>version. on_ce (ce_commit_pending (tc_native T) target (Some ev) version))"

definition tn_discard :: "replica_key \<Rightarrow> (('n, 'c, 'z) tn_scheme, unit) coro" where
  "tn_discard target = on_ce (\<lambda>s. (Inr (), ce_discard_pending target s))"

text \<open>Up to the registration of the prepared runtime.\<close>

definition tn_add_register ::
    "'c tn_config \<Rightarrow> gate_owner \<Rightarrow> string \<Rightarrow> (('n, 'c, 'z) tn_scheme, replica_key) coro" where
  "tn_add_register T ow oid =
     andthen (tn_target oid) (\<lambda>target. andthen (query (ro_pending_replicas oid)) (\<lambda>replicas.
       guard_that (replicas \<noteq> []) (RuntimeError ''ADD target has no prepared runtime'')
         (guard_that (tc_kind T ` set replicas = {Some BORROWED}) (ValueError ''ADD requires a prepared BORROWED runtime'')
            (andthen (tn_guard ow (on_ce (ce_register_pending (tc_native T) target replicas oid)))
              (\<lambda>_. ret target)))))"

text \<open>From the registration to the effective membership.\<close>

definition tn_weights ::
    "'c tn_config \<Rightarrow> gate_owner \<Rightarrow> replica_key \<Rightarrow> string \<Rightarrow> (('n, 'c, 'z) tn_scheme, unit) coro" where
  "tn_weights T ow target oid =
     andthen (tn_guard ow (tn_bootstrap T target oid)) (\<lambda>ev.
       andthen (tn_require (Some ev) oid WEIGHT_READY) (\<lambda>_.
         tn_guard ow (tn_commit_pending T target ev)))"

text \<open>Opening the service, or taking the replica back when R has no route.\<close>

definition tn_add_service ::
    "('n, 'x) ro_config \<Rightarrow> 'c tn_config \<Rightarrow> gate_owner \<Rightarrow> replica_key \<Rightarrow> string
       \<Rightarrow> (('n, 'c, 'z) tn_scheme, op_evidence) coro" where
  "tn_add_service C T ow target oid =
     andthen (tn_guard ow (tn_commit_service C oid)) (\<lambda>found.
       case found of
         None \<Rightarrow>
           andthen (tn_guard ow (on_ce (ce_remove_effective (tc_native T) target))) (\<lambda>_.
             andthen (tn_guard ow (tn_finalize oid)) (\<lambda>ev. tn_require (Some ev) oid RELEASED))
       | Some ev \<Rightarrow>
           if e_type ev = RELEASED
           then andthen (tn_require (Some ev) oid RELEASED) (\<lambda>ev.
             andthen (tn_guard ow (on_ce (ce_remove_effective (tc_native T) target))) (\<lambda>_. ret ev))
           else tn_require (Some ev) oid SERVICE_COMMITTED)"

text \<open>Before E was committed: forget the pending runtime (when one was registered) and release it.\<close>

definition tn_add_rollback ::
    "gate_owner \<Rightarrow> string \<Rightarrow> replica_key option \<Rightarrow> exn \<Rightarrow> (('n, 'c, 'z) tn_scheme, op_evidence) coro" where
  "tn_add_rollback ow oid registered e =
     caught (case registered of None \<Rightarrow> ret () | Some target \<Rightarrow> tn_guard ow (tn_discard target)) (\<lambda>discarded.
       caught (andthen (tn_guard ow (tn_finalize oid)) (\<lambda>ev. tn_require (Some ev) oid RELEASED)) (\<lambda>released.
         case (released, discarded) of
           (Inr ev, Inr _) \<Rightarrow> ret ev
         | _ \<Rightarrow> block_and_raise ow ''ADD rollback outcome unknown''
             (RuntimeError ''ADD bootstrap failed and prepared runtime cleanup is unverified'')))"

definition tn_add :: "('n, 'x) ro_config \<Rightarrow> 'c tn_config \<Rightarrow> string \<Rightarrow> (('n, 'c, 'z) tn_scheme, op_evidence) coro" where
  "tn_add C T oid =
     guard_that (tc_ready T) (RuntimeError ''Trainer owner dependencies are not initialized'')
       (look tn_version (\<lambda>version.
          guard_that (is_nonneg_int version) (RuntimeError ''current parameter version is unavailable for ADD'')
            (andthen (tn_reconcile_publish C T oid False) (\<lambda>reconciled.
               case reconciled of
                 Some ev \<Rightarrow> ret ev
               | None \<Rightarrow> with_lease oid GADD (\<lambda>ow.
                   attempt (tn_add_register T ow oid) (tn_add_rollback ow oid None) (\<lambda>target.
                     attempt (tn_weights T ow target oid) (tn_add_rollback ow oid (Some target)) (\<lambda>_.
                       rescue (tn_add_service C T ow target oid)
                         (block_and_raise ow ''ADD publish outcome unknown'')))))))) "

section \<open>DONATE and REMOVE\<close>

text \<open>The checks and the removal from E; an exception here leaves the gate as it is.\<close>

definition tn_remove_member ::
    "'c tn_config \<Rightarrow> gate_owner \<Rightarrow> string \<Rightarrow> (('n, 'c, 'z) tn_scheme, replica_key \<times> nat list \<times> replica_kind) coro" where
  "tn_remove_member T ow oid = andthen (tn_target oid) (\<lambda>target.
     look (\<lambda>g. map_of (ce_effective (tn_ce g)) target) (\<lambda>member.
       case member of
         None \<Rightarrow> raise (KeyError ''replica is not an effective CE member'')
       | Some (replicas, _) \<Rightarrow>
           guard_that (card (tc_kind T ` set replicas) = 1) (ValueError ''CE member contains inconsistent replica kinds'')
             (case tc_kind T (hd replicas) of
                None \<Rightarrow> raise (ValueError ''CE member has unsupported replica kind'')
              | Some kind \<Rightarrow>
                  andthen (tn_guard ow (on_ce (ce_remove_effective (tc_native T) target)))
                    (\<lambda>_. ret (target, replicas, kind)))))"

definition tn_remove_service ::
    "('n, 'x) ro_config \<Rightarrow> 'c tn_config \<Rightarrow> gate_owner \<Rightarrow> string \<Rightarrow> replica_key \<Rightarrow> nat list \<Rightarrow> replica_kind
       \<Rightarrow> (('n, 'c, 'z) tn_scheme, op_evidence) coro" where
  "tn_remove_service C T ow oid target replicas kind =
     andthen (if kind = NATIVE then tn_guard ow (on_ce (ce_register_pending (tc_native T) target replicas oid)) else ret ())
       (\<lambda>_. andthen (tn_guard ow (tn_commit_service C oid)) (\<lambda>found. tn_require found oid SERVICE_COMMITTED))"

definition tn_remove :: "('n, 'x) ro_config \<Rightarrow> 'c tn_config \<Rightarrow> string \<Rightarrow> (('n, 'c, 'z) tn_scheme, op_evidence) coro" where
  "tn_remove C T oid =
     guard_that (tc_ready T) (RuntimeError ''Trainer owner dependencies are not initialized'')
       (with_lease oid GREMOVE (\<lambda>ow. andthen (tn_remove_member T ow oid) (\<lambda>(target, replicas, kind).
          rescue (tn_remove_service C T ow oid target replicas kind)
            (block_and_raise ow ''Exit service commit outcome unknown''))))"

section \<open>RESTORE\<close>

definition tn_unpark ::
    "'c tn_config \<Rightarrow> gate_owner \<Rightarrow> string \<Rightarrow> (('n, 'c, 'z) tn_scheme, replica_key \<times> nat list) coro" where
  "tn_unpark T ow oid = andthen (tn_target oid) (\<lambda>target.
     look (\<lambda>g. map_of (ce_pending (tn_ce g)) target) (\<lambda>parked.
       case parked of
         None \<Rightarrow> raise (KeyError ''no parked native CE runtime'')
       | Some (replicas, _) \<Rightarrow>
           guard_that (tc_kind T ` set replicas = {Some NATIVE}) (ValueError ''RESTORE requires a parked NATIVE CE runtime'')
             (andthen (tn_guard ow (tn_discard target)) (\<lambda>_. ret (target, replicas)))))"

definition tn_restore_service ::
    "('n, 'x) ro_config \<Rightarrow> 'c tn_config \<Rightarrow> gate_owner \<Rightarrow> string \<Rightarrow> replica_key \<Rightarrow> nat list
       \<Rightarrow> (('n, 'c, 'z) tn_scheme, op_evidence) coro" where
  "tn_restore_service C T ow oid target replicas =
     andthen (tn_guard ow (tn_commit_service C oid)) (\<lambda>found.
       case found of
         None \<Rightarrow>
           andthen (tn_guard ow (on_ce (ce_remove_effective (tc_native T) target))) (\<lambda>_.
             andthen (tn_guard ow (on_ce (ce_register_pending (tc_native T) target replicas oid))) (\<lambda>_.
               andthen (tn_guard ow (tn_finalize oid)) (\<lambda>ev. tn_require (Some ev) oid RELEASED)))
       | Some ev \<Rightarrow> tn_require (Some ev) oid SERVICE_COMMITTED)"

definition tn_restore_body ::
    "('n, 'x) ro_config \<Rightarrow> 'c tn_config \<Rightarrow> gate_owner \<Rightarrow> string \<Rightarrow> replica_key \<Rightarrow> nat list
       \<Rightarrow> (('n, 'c, 'z) tn_scheme, op_evidence) coro" where
  "tn_restore_body C T ow oid target replicas =
     andthen (tn_guard ow (on_ce (ce_register_pending (tc_native T) target replicas oid))) (\<lambda>_.
       andthen (tn_guard ow (tn_bootstrap T target oid)) (\<lambda>ev.
         if e_type ev = RELEASED then tn_require (Some ev) oid RELEASED
         else andthen (tn_require (Some ev) oid WEIGHT_READY) (\<lambda>_.
           andthen (tn_guard ow (tn_commit_pending T target ev)) (\<lambda>_.
             tn_restore_service C T ow oid target replicas))))"

definition tn_restore_failed :: "gate_owner \<Rightarrow> string \<Rightarrow> exn \<Rightarrow> (('n, 'c, 'z) tn_scheme, op_evidence) coro" where
  "tn_restore_failed ow oid e = caught (remote (ro_quarantine_dormant oid)) (\<lambda>q.
     block_and_raise ow ''RESTORE outcome unknown'' e)"

definition tn_restore :: "('n, 'x) ro_config \<Rightarrow> 'c tn_config \<Rightarrow> string \<Rightarrow> (('n, 'c, 'z) tn_scheme, op_evidence) coro" where
  "tn_restore C T oid =
     guard_that (tc_ready T) (RuntimeError ''Trainer owner dependencies are not initialized'')
       (look tn_version (\<lambda>version.
          guard_that (is_nonneg_int version) (RuntimeError ''current parameter version is unavailable for RESTORE'')
            (andthen (tn_reconcile_publish C T oid True) (\<lambda>reconciled.
               case reconciled of
                 Some ev \<Rightarrow> ret ev
               | None \<Rightarrow> with_lease oid GRESTORE (\<lambda>ow. andthen (tn_unpark T ow oid) (\<lambda>(target, replicas).
                   rescue (tn_restore_body C T ow oid target replicas) (tn_restore_failed ow oid)))))))"

section \<open>Native synchronisation\<close>

text \<open>The first complete manifest the actor workers answered.\<close>

definition tn_source_manifest :: "pyval \<Rightarrow> pyval res" where
  "tn_source_manifest reply =
     (case reply of
        PList ms \<Rightarrow>
          (case find (\<lambda>m. case m of PDict d \<Rightarrow> py_truth (pyget_default d ''complete'' (PBool False)) | _ \<Rightarrow> False) ms of
             Some m \<Rightarrow> Inr m
           | None \<Rightarrow> Inl (RuntimeError ''actor source manifest is unavailable or incomplete''))
      | _ \<Rightarrow> Inl (RuntimeError ''actor source manifest is unavailable or incomplete''))"

definition tn_validate ::
    "'c tn_config \<Rightarrow> nat list \<Rightarrow> pyval option \<Rightarrow> (('n, 'c, 'z) tn_scheme, validation) coro" where
  "tn_validate T effective source = look tn_version (\<lambda>version. andthen outside (\<lambda>manifests. lift_res
     (ce_validate_sync (tc_hash T) (map (tc_workers T) effective)
        (case version of PInt v \<Rightarrow> Some v | _ \<Rightarrow> None) source (case manifests of PList ms \<Rightarrow> ms | _ \<Rightarrow> []))))"

definition tn_check_sync :: "'c tn_config \<Rightarrow> gate_owner \<Rightarrow> (('n, 'c, 'z) tn_scheme, unit) coro" where
  "tn_check_sync T ow = look (\<lambda>g. concat (map (fst \<circ> snd) (ce_effective (tn_ce g)))) (\<lambda>effective.
     andthen
       (if tc_source T
        then andthen (tn_guard ow (andthen outside (\<lambda>ms. lift_res (tn_source_manifest ms)))) (\<lambda>m. ret (Some m))
        else ret None)
       (\<lambda>source. andthen (tn_guard ow (tn_validate T effective source)) (\<lambda>_. ret ())))"

definition tn_sync_body :: "'c tn_config \<Rightarrow> gate_owner \<Rightarrow> (('n, 'c, 'z) tn_scheme, pyval) coro" where
  "tn_sync_body T ow = andthen (tn_guard ow outside) (\<lambda>result.
     if result = PNone \<or> \<not> tc_manager T then ret result
     else andthen (if tc_validation T then tn_check_sync T ow else ret ())
       (\<lambda>_. look tn_version (\<lambda>version. andthen (tn_guard ow (on_ce (ce_mark_all version))) (\<lambda>_. ret result))))"

definition tn_sync :: "'c tn_config \<Rightarrow> bool \<Rightarrow> string \<Rightarrow> (('n, 'c, 'z) tn_scheme, pyval) coro" where
  \<comment> \<open>\<open>label\<close> is the gate's name of this synchronization, formed from the version it starts at\<close>
  "tn_sync T first_step label =
     (if \<not> first_step then ret PNone
      else with_lease label NATIVE_SYNC (\<lambda>ow.
        rescue (tn_sync_body T ow) (block_and_raise ow ''Native synchronization outcome unknown'')))"

end
