(* ===== verification/Trainer_Safety.thy ===== *)
theory Trainer_Safety
  imports Trainer
begin

text \<open>
  What the trainer's membership operations guarantee (theory \<open>Trainer\<close>), whatever calls and replies
  are lost and whatever the other coroutines do meanwhile: a published replica is always an effective
  receiver, evidence states what is the case, and an operation that fails after it changed anything
  leaves the gate BLOCKED in its own name.
\<close>

section \<open>What the others leave alone\<close>

text \<open>
  The Rollouter's part is \<open>ro_rely\<close>. While an operation owns the gate, nobody else changes the gate
  or the membership, which is only written under it; and only native synchronization writes the
  versions of other members, so the target's runtimes are the operation's own throughout.
\<close>

definition member :: "replica_key \<Rightarrow> 'c ce \<Rightarrow> nat list option" where
  "member target E = map_option fst (map_of (ce_effective E) target)"

definition parked :: "replica_key \<Rightarrow> 'c ce \<Rightarrow> nat list option" where
  "parked target E = map_option fst (map_of (ce_pending E) target)"

definition enrolled :: "replica_key \<Rightarrow> 'c ce \<Rightarrow> bool" where
  "enrolled target E \<longleftrightarrow> member target E \<noteq> None"

definition tn_rely ::
    "('n, nat, 'x) native_router \<Rightarrow> string \<Rightarrow> replica_key \<Rightarrow> ('n, 'c, 'z) tn_scheme \<Rightarrow> ('n, 'c, 'z) tn_scheme \<Rightarrow> bool"
  where
  "tn_rely N oid target g g' \<longleftrightarrow> ro_rely N oid target g g'
     \<and> (\<forall>ow. o_operation_id ow = oid \<longrightarrow> gate_is_active ow (tn_gate g) \<longrightarrow>
          tn_gate g' = tn_gate g \<and> tn_ce g' = tn_ce g)
     \<and> member target (tn_ce g') = member target (tn_ce g) \<and> parked target (tn_ce g') = parked target (tn_ce g)"

text \<open>The gate's own steps justify it: only its owner changes an owned gate.\<close>

definition by_owner :: "gate_owner \<Rightarrow> gate_event \<Rightarrow> bool" where
  "by_owner ow e \<longleftrightarrow> (case e of EBlock w _ \<Rightarrow> w = ow | ERelease w \<Rightarrow> w = ow | EReconciled w _ \<Rightarrow> w = ow | _ \<Rightarrow> False)"

lemma others_keep_gate:
  assumes "gate_step e c c'" and "gate_is_active ow (cfg_gate c)" and "\<not> by_owner ow e"
  shows "cfg_gate c' = cfg_gate c"
  using assms
  by (cases rule: gate_stepE)
    (auto simp: by_owner_def gate_is_active_def gate_block_def gate_release_def)

lemma tn_ro: "tn_rely N oid target g g' \<Longrightarrow> ro_rely N oid target g g'"
  by (simp add: tn_rely_def)

lemma tn_stable: "stable (ro_rely N oid target) P \<Longrightarrow> stable (tn_rely N oid target) P"
  unfolding stable_def by (blast dest: tn_ro)

lemma tn_obeys: "obeys (tn_rely N oid target) r \<Longrightarrow> obeys (ro_rely N oid target) r"
  by (simp add: obeys_def tn_rely_def)

text \<open>The operation owns a healthy gate (\<open>leased\<close>), or owns it to recover (\<open>owning\<close>), and E satisfies X.\<close>

definition owning :: "string \<Rightarrow> gate_owner \<Rightarrow> bool \<Rightarrow> ('c ce \<Rightarrow> bool) \<Rightarrow> ('n, 'c, 'z) tn_scheme \<Rightarrow> bool" where
  "owning oid ow ok X g \<longleftrightarrow> o_operation_id ow = oid \<and> gate_is_active ow (tn_gate g)
     \<and> (if ok then gate_healthy (tn_gate g) else gate_fences oid (tn_gate g)) \<and> X (tn_ce g)"

lemma owning_member: "owning oid ow ok X g \<Longrightarrow> X (tn_ce g)"
  by (simp add: owning_def)

lemma owning_stable [simp]: "stable (tn_rely N oid target) (owning oid ow ok X)"
  by (auto simp: stable_def owning_def tn_rely_def)

definition own_frame :: "(('n, 'z) ro_scheme \<Rightarrow> bool) \<Rightarrow> bool" where
  "own_frame P \<longleftrightarrow> (\<forall>g m t f c a. P (g\<lparr>ro_mgr := m\<rparr>) = P g \<and> P (g\<lparr>ro_targets := t\<rparr>) = P g
     \<and> P (g\<lparr>ro_force := f\<rparr>) = P g \<and> P (g\<lparr>ro_capacity := c\<rparr>) = P g \<and> P (g\<lparr>ro_aborts := a\<rparr>) = P g)"

definition lb_frame :: "(('n, 'z) ro_scheme \<Rightarrow> bool) \<Rightarrow> bool" where
  "lb_frame P \<longleftrightarrow> (\<forall>g l. P (g\<lparr>ro_lb := l\<rparr>) = P g)"

lemma owning_frame [simp]: "own_frame (owning oid ow ok X)" "lb_frame (owning oid ow ok X)"
  by (simp_all add: own_frame_def lb_frame_def owning_def)

lemma frame_conj [intro]:
  "own_frame P \<Longrightarrow> own_frame Q \<Longrightarrow> own_frame (\<lambda>g. P g \<and> Q g)" "lb_frame P \<Longrightarrow> lb_frame Q \<Longrightarrow> lb_frame (\<lambda>g. P g \<and> Q g)"
  by (simp_all add: own_frame_def lb_frame_def)

lemma unpublished_frame [simp]: "own_frame (\<lambda>g. published_as oid g = pub)"
  by (simp add: own_frame_def published_as_def)

text \<open>The Rollouter's coroutines keep whatever does not mention its state.\<close>

lemma keeps_own:
  assumes "own_frame P"
  shows "keeps R P (on_mgr f)" "keeps R P (set_state key st)" "keeps R P (bind_target oid key)" "keeps R P (unbind_target oid)"
    "keeps R P (drop_recovery oid)" "keeps R P (stamp oid ty us)" "keeps R P (update_capacity C)"
  using assms unfolding on_mgr_def set_state_def bind_target_def unbind_target_def drop_recovery_def stamp_def update_capacity_def
  by (auto simp: own_frame_def split: sum.split)

lemma keeps_finalize:
  assumes "stable R P" and "own_frame P"
  shows "keeps R P (ro_finalize oid)"
  using keeps_own [OF assms(2)] keeps_outside [OF assms(1)]
  unfolding ro_finalize_def ro_release_def ro_sleep_def ro_destroy_def
  by (auto split: sum.split)

lemma keeps_quarantine_dormant:
  assumes "own_frame P"
  shows "keeps R P (ro_quarantine_dormant oid)"
  using keeps_own [OF assms] unfolding ro_quarantine_dormant_def by auto

lemma keeps_commit_service:
  assumes "stable R P" and "own_frame P" and "lb_frame P"
  shows "keeps R P (ro_commit_service C oid)"
proof -
  note own = keeps_own [OF assms(2)] keeps_read_lb [OF assms(1)] keeps_outside [OF assms(1)]
  have lb: "keeps R P (call_lb f)" for f
    by (rule keeps_call_lb [OF assms(1)]) (use assms(3) in \<open>simp add: lb_frame_def\<close>)
  have retract: "keeps R P (ro_retract C target)" "keeps R P (ro_activate C target)" for target
    unfolding ro_retract_def ro_activate_def by (auto intro: own)
  have conclude: "keeps R P (ro_conclude C target oid found)" for target found
    unfolding ro_conclude_def by (auto intro: own retract split: option.split)
  have ready: "keeps R P (ro_commit_ready C target sid h oid)" for target sid h
    unfolding ro_commit_ready_def by (auto intro: own lb split: option.split)
  have quarantine: "keeps R P (quarantine_from st target e)" for st target e
    unfolding quarantine_from_def by (auto intro: own)
  show ?thesis
    unfolding ro_commit_service_def ro_reconcile_active_def ro_publish_borrowed_def ro_publish_native_def ro_commit_exit_def
    by (auto intro!: own lb retract conclude ready quarantine split: option.split replica_state.split exn.split)
qed
section \<open>Rules for the trainer's steps\<close>

text \<open>A Rollouter coroutine with its own guarantee, called from the trainer.\<close>

lemma triple_both:
  assumes "triple (ro_rely N oid target) P m Q" and "keeps (tn_rely N oid target) K m"
  shows "triple (tn_rely N oid target) (\<lambda>g. K g \<and> P g) m (\<lambda>x g. K g \<and> Q x g)"
  using assms tn_obeys unfolding keeps_def triple_def by blast

lemma triple_call:
  assumes "triple (ro_rely N oid target) P m Q" and "keeps (tn_rely N oid target) K m"
    and "stable (tn_rely N oid target) K" and "stable (ro_rely N oid target) P"
    and "\<And>a. stable (ro_rely N oid target) (S a)" and "stable (ro_rely N oid target) L"
    and "\<And>a g. Q (Inr a) g \<Longrightarrow> S a g" and "\<And>x g. Q x g \<Longrightarrow> L g" and "\<And>g. P g \<Longrightarrow> L g"
  shows "triple (tn_rely N oid target) (\<lambda>g. K g \<and> P g) (remote m) (after_res (\<lambda>a g. K g \<and> S a g) (\<lambda>_ g. K g \<and> L g))"
proof (rule triple_remote)
  show "stable (tn_rely N oid target) (\<lambda>g. K g \<and> P g)" using assms(3,4) tn_stable by auto
  show "stable (tn_rely N oid target) (after_res (\<lambda>a g. K g \<and> S a g) (\<lambda>_ g. K g \<and> L g) x)" for x
    using assms(3) tn_stable [OF assms(5)] tn_stable [OF assms(6)] by (cases x) auto
  show "triple (tn_rely N oid target) (\<lambda>g. K g \<and> P g) m (\<lambda>x g. after_res (\<lambda>a g. K g \<and> S a g) (\<lambda>_ g. K g \<and> L g) x g
      \<and> (\<forall>e. after_res (\<lambda>a g. K g \<and> S a g) (\<lambda>_ g. K g \<and> L g) (Inl e) g))"
    by (rule triple_post [OF triple_both [OF assms(1,2)]]) (use assms(7,8) in \<open>auto split: sum.split\<close>)
  show "K g \<and> P g \<Longrightarrow> after_res (\<lambda>a g. K g \<and> S a g) (\<lambda>_ g. K g \<and> L g) (Inl e) g" for g e using assms(9) by simp
qed

lemma triple_attempt:
  assumes "triple R P m (after_res M F)" and "\<And>e. triple R (F e) (h e) Q" and "\<And>a. triple R (M a) (k a) Q"
  shows "triple R P (attempt m h k) Q"
  unfolding triple_def
proof (intro allI impI)
  fix r assume r: "obeys R r" "P (r_now r)"
  obtain x r' where m: "m r = (x, r')" by fastforce
  from tripleD [OF assms(1) r m] assms(2,3)
  show "obeys R (snd (attempt m h k r)) \<and> Q (fst (attempt m h k r)) (r_now (snd (attempt m h k r)))"
    by (cases x) (auto simp: attempt_def m triple_def)
qed

text \<open>Steps of E and of the gate. \<open>gateless\<close> and \<open>memberless\<close> assertions do not look at them.\<close>

definition gateless :: "(('n, 'c, 'z) tn_scheme \<Rightarrow> bool) \<Rightarrow> bool" where
  "gateless P \<longleftrightarrow> (\<forall>g x. P (g\<lparr>tn_gate := x\<rparr>) = P g)"

definition memberless :: "(('n, 'c, 'z) tn_scheme \<Rightarrow> bool) \<Rightarrow> bool" where
  "memberless P \<longleftrightarrow> (\<forall>g x. P (g\<lparr>tn_ce := x\<rparr>) = P g)"

lemma frames_sees [simp]:
  "gateless (sees oid target st kd b pub)" "memberless (sees oid target st kd b pub)"
  "gateless (\<lambda>_. t)" "memberless (\<lambda>_. t)"
  by (simp_all add: gateless_def memberless_def sees_def published_as_def)

lemma triple_ce:
  assumes "memberless P" and "\<And>E a. X E \<Longrightarrow> fst (f E) = Inr a \<Longrightarrow> Y a (snd (f E))"
    and "\<And>E e. X E \<Longrightarrow> fst (f E) = Inl e \<Longrightarrow> Z (snd (f E))"
  shows "triple R (\<lambda>g. owning oid ow ok X g \<and> P g) (on_ce f)
    (after_res (\<lambda>a g. owning oid ow ok (Y a) g \<and> P g) (\<lambda>_ g. owning oid ow ok Z g \<and> P g))"
  unfolding on_ce_def using assms
  by (intro triple_sync) (auto simp: owning_def memberless_def split: sum.split)

lemma triple_guarded:
  assumes "triple R P m (after_res S F)" and "\<And>g. P g \<Longrightarrow> owning oid ow True X g"
    and "\<And>a g. S a g \<Longrightarrow> owning oid ow True (Y a) g"
  shows "triple R P (tn_guard ow m) (after_res S F)"
  unfolding triple_def
proof (intro allI impI)
  fix r assume r: "obeys R r" "P (r_now r)"
  obtain x r' where m: "m r = (x, r')" by fastforce
  have a: "gate_is_active ow (tn_gate (r_now r))" using assms(2) [OF r(2)] by (simp add: owning_def)
  from tripleD [OF assms(1) r m] assms(3)
  show "obeys R (snd (tn_guard ow m r)) \<and> after_res S F (fst (tn_guard ow m r)) (r_now (snd (tn_guard ow m r)))"
    using a by (cases x) (auto simp: tn_guard_def look_def caught_def m gate_guard_def lift_res_def raise_def ret_def owning_def)
qed

lemma triple_block:
  assumes "gateless P" and "reason \<noteq> []"
  shows "triple R (\<lambda>g. owning oid ow ok X g \<and> P g) (block_and_raise ow reason e)
    (\<lambda>x g. (\<exists>e. x = Inl e) \<and> gate_fences oid (tn_gate g) \<and> X (tn_ce g) \<and> P g)"
  unfolding block_and_raise_def tn_block_def on_gate_def
  by (rule triple_then [where M = "\<lambda>_ g. gate_fences oid (tn_gate g) \<and> X (tn_ce g) \<and> P g" and F = "\<lambda>_ _. False"])
    (use assms in \<open>auto intro!: triple_sync triple_raise
       simp: owning_def gate_block_def gate_fences_def gate_healthy_def gateless_def\<close>)

lemma triple_release:
  assumes "\<And>g x. Q (g\<lparr>tn_gate := snd (gate_release ow (tn_gate g))\<rparr>) = Q g"
  shows "triple R Q (tn_release ow) (after_res (\<lambda>_. Q) F)"
  unfolding tn_release_def on_gate_def by (rule triple_sync) (simp add: assms)

lemma release_fences [simp]: "gate_fences oid (snd (gate_release ow g)) = gate_fences oid g"
  by (simp add: gate_fences_def gate_healthy_def gate_release_def)

text \<open>Waiting for the lock: whoever is handed it finds no owner; a healthy gate is then owned.\<close>

lemma wait_lock_triple:
  "stable R P \<Longrightarrow> triple R P tn_wait_lock (after_res (\<lambda>_ g. P g \<and> \<not> g_locked (tn_gate g)) (\<lambda>_. P))"
  unfolding tn_wait_lock_def
  by (rule triple_then [OF triple_pause], assumption, assumption, rule triple_look, rule triple_guard)
    (auto intro: triple_ret)

lemma granted_owning:
  assumes "gateless P"
  shows "triple R P (\<lambda>r. on_gate (gate_acquire_granted (r_time r) oid kind) r)
    (after_res (\<lambda>ow g. owning oid ow True (\<lambda>_. True) g \<and> P g) (\<lambda>_. P))"
  using assms unfolding triple_def on_gate_def sync_def
  by (auto simp: gate_acquire_granted_def Let_def owning_def gate_is_active_def gate_healthy_def gateless_def obeys_def)

lemma acquire_triple:
  assumes "stable R P" and "gateless P"
  shows "triple R P (tn_acquire oid kind) (after_res (\<lambda>ow g. owning oid ow True (\<lambda>_. True) g \<and> P g) (\<lambda>_. P))"
  unfolding tn_acquire_def
proof (rule triple_look)
  fix refused
  have go: "triple R P (andthen tn_wait_lock (\<lambda>_ r. on_gate (gate_acquire_granted (r_time r) oid kind) r))
      (after_res (\<lambda>ow g. owning oid ow True (\<lambda>_. True) g \<and> P g) (\<lambda>_. P))"
    by (rule triple_then [OF wait_lock_triple [OF assms(1)]], simp, rule triple_pre [OF granted_owning [OF assms(2)]]) simp
  show "triple R (\<lambda>g. P g \<and> gate_acquire_entry oid (tn_gate g) = refused)
      (case refused of Some e \<Rightarrow> raise e
       | None \<Rightarrow> andthen tn_wait_lock (\<lambda>_ r. on_gate (gate_acquire_granted (r_time r) oid kind) r))
      (after_res (\<lambda>ow g. owning oid ow True (\<lambda>_. True) g \<and> P g) (\<lambda>_. P))"
    using go by (cases refused) (auto intro: triple_raise triple_pre)
qed

lemma lease_triple:
  assumes "stable R P" and "gateless P" and "\<And>e g. P g \<Longrightarrow> Q (Inl e) g"
    and "\<And>ow. triple R (\<lambda>g. owning oid ow True (\<lambda>_. True) g \<and> P g) (body ow) Q"
    and "\<And>x ow g. Q x (g\<lparr>tn_gate := snd (gate_release ow (tn_gate g))\<rparr>) = Q x g"
  shows "triple R P (with_lease oid kind body) Q"
  unfolding with_lease_def
proof (rule triple_then [OF acquire_triple [OF assms(1,2)]], erule assms(3), rule triple_caught [OF assms(4)])
  fix ow x
  have "triple R (Q x) (lift_res x) Q"
    by (cases x) (auto simp: lift_res_def intro: triple_ret triple_raise)
  then show "triple R (Q x) (andthen (tn_release ow) (\<lambda>_. lift_res x)) Q"
    by (rule triple_then [OF triple_release [where F = "\<lambda>_ _. False"], rotated 2]) (simp_all add: assms(5))
qed

lemma owned_guarded:
  assumes "triple R (\<lambda>g. owning oid ow True X g \<and> P g) m (after_res (\<lambda>a g. owning oid ow True (Y a) g \<and> S a g) F)"
  shows "triple R (\<lambda>g. owning oid ow True X g \<and> P g) (tn_guard ow m) (after_res (\<lambda>a g. owning oid ow True (Y a) g \<and> S a g) F)"
  by (rule triple_guarded [where oid = oid and X = X and Y = Y, OF assms]) simp_all

section \<open>Steps of E and of the service\<close>

lemma ce_effects:
  "member target (snd (ce_register_pending N target rs oid E)) = member target E"
  "fst (ce_register_pending N target rs oid E) = Inr u \<Longrightarrow> \<not> enrolled target E \<Longrightarrow>
     parked target (snd (ce_register_pending N target rs oid E)) = Some rs"
  "member target (ce_discard_pending target E) = member target E" "parked target (ce_discard_pending target E) = None"
  "fst (ce_remove_effective N target E) = Inr u \<Longrightarrow> member target (snd (ce_remove_effective N target E)) = None
     \<and> parked target (snd (ce_remove_effective N target E)) = None"
  "fst (ce_remove_effective N target E) = Inl e \<Longrightarrow> member target (snd (ce_remove_effective N target E)) = member target E
     \<and> parked target (snd (ce_remove_effective N target E)) = parked target E"
  by (auto simp: enrolled_def member_def parked_def ce_register_pending_def ce_discard_pending_def ce_remove_effective_def
      update_conv' delete_conv' split: option.splits sum.splits prod.splits if_splits)

lemma boot_effects:
  "member target (snd (ce_bootstrap_target t nv vd env target oid v E)) = member target E"
  "parked target (snd (ce_bootstrap_target t nv vd env target oid v E)) = parked target E"
  by (cases rule: ce_bootstrap_cases [of t nv vd env target oid v E]; simp add: member_def parked_def)+

lemma commit_effects:
  "fst (ce_commit_pending N target ev v E) = Inr u \<Longrightarrow> enrolled target (snd (ce_commit_pending N target ev v E))"
  "fst (ce_commit_pending N target ev v E) = Inl e \<Longrightarrow> enrolled target (snd (ce_commit_pending N target ev v E)) = enrolled target E"
  by (cases rule: ce_commit_cases [of N target ev v E]; auto simp: enrolled_def member_def update_conv')+

lemma publish_anywhere: "publish_post S oid target kd x g \<Longrightarrow> publish_post UNIV oid target kd x g"
  by (auto simp: publish_post_def elim: unresolved_mono split: sum.splits)

lemma commit_service_triple:
  assumes "oid \<noteq> []"
    and "st = CREATING \<and> kd = BORROWED \<and> pub = None \<or> st = DORMANT \<and> kd = NATIVE \<and> pub = None \<or> st = ACTIVE"
  shows "triple (ro_rely (rc_router C) oid target) (sees oid target st kd (Some target) pub)
    (ro_commit_service C oid) (publish_post UNIV oid target kd)"
proof (rule triple_cong)
  show "triple (ro_rely (rc_router C) oid target) (sees oid target st kd (Some target) pub)
      (case st of ACTIVE \<Rightarrow> ro_reconcile_active C target oid | CREATING \<Rightarrow> ro_publish_borrowed C target kd oid
       | _ \<Rightarrow> ro_publish_native C target kd oid) (publish_post UNIV oid target kd)"
    using assms(2)
    by (elim disjE conjE) (auto intro: triple_post [OF publish_borrowed_view publish_anywhere]
        triple_post [OF publish_native_view publish_anywhere] triple_post [OF reconcile_view publish_anywhere])
  show "ro_commit_service C oid r = (case st of ACTIVE \<Rightarrow> ro_reconcile_active C target oid
      | CREATING \<Rightarrow> ro_publish_borrowed C target kd oid | _ \<Rightarrow> ro_publish_native C target kd oid) r"
    if "sees oid target st kd (Some target) pub (r_now r)" for r
    using commit_service_starts [OF assms(1) that, of C] assms(2) by auto
qed

lemma commit_exit_triple:
  assumes "oid \<noteq> []"
  shows "triple (ro_rely (rc_router C) oid target) (sees oid target DRAINING kd (Some target) None)
    (ro_commit_service C oid) (exit_post oid target kd)"
  by (rule triple_cong [OF commit_exit_view]) (simp add: commit_service_starts [OF assms])

lemma finalize_triple:
  assumes "oid \<noteq> []" and "st = DRAINING \<or> kd = BORROWED \<and> st = CREATING"
  shows "triple (ro_rely N oid target) (sees oid target st kd (Some target) pub) (ro_finalize oid) (release_post oid target kd)"
  by (rule triple_cong [OF finalize_view [OF assms(2)]]) (rule finalize_starts [OF assms(1) _ assms(2)])

lemma results_stable:
  "stable (ro_rely N oid target) (\<lambda>g. case found of Some ev \<Rightarrow> confirmed_by oid target ACTIVE kd None (Some ev) g
     | None \<Rightarrow> sees oid target DRAINING kd (Some target) None g)"
  "stable (ro_rely N oid target) (exit_post oid target kd (Inr found))"
proof -
  show "stable (ro_rely N oid target) (\<lambda>g. case found of Some ev \<Rightarrow> confirmed_by oid target ACTIVE kd None (Some ev) g
     | None \<Rightarrow> sees oid target DRAINING kd (Some target) None g)" by (cases found) simp_all
  have "exit_post oid target kd (Inr (Some ev)) g'"
    if "ro_rely N oid target g g'" "exit_post oid target kd (Inr (Some ev)) g" for ev g g'
    using that stableD [OF sees_stable that(1)] stableD [OF unrouted_stable that(1)] by (simp add: exit_post_def)
  then show "stable (ro_rely N oid target) (exit_post oid target kd (Inr found))"
    by (cases found) (auto simp: stable_def exit_post_def)
qed

text \<open>The same calls from the trainer, which keeps what it owns.\<close>

lemma tn_publish_triple:
  assumes "oid \<noteq> []"
    and "st = CREATING \<and> kd = BORROWED \<and> pub = None \<or> st = DORMANT \<and> kd = NATIVE \<and> pub = None \<or> st = ACTIVE"
  shows "triple (tn_rely (rc_router C) oid target)
    (\<lambda>g. owning oid ow ok X g \<and> sees oid target st kd (Some target) pub g) (tn_commit_service C oid)
    (after_res (\<lambda>found g. owning oid ow ok X g \<and> (case found of
         Some ev \<Rightarrow> confirmed_by oid target ACTIVE kd None (Some ev) g
       | None \<Rightarrow> sees oid target DRAINING kd (Some target) None g))
      (\<lambda>_ g. owning oid ow ok X g \<and> True))"
  unfolding tn_commit_service_def
  by (rule triple_call [OF commit_service_triple [OF assms] keeps_commit_service])
    (auto simp: publish_post_def results_stable split: option.splits)

lemma tn_exit_triple:
  assumes "oid \<noteq> []"
  shows "triple (tn_rely (rc_router C) oid target)
    (\<lambda>g. owning oid ow ok X g \<and> sees oid target DRAINING kd (Some target) None g) (tn_commit_service C oid)
    (after_res (\<lambda>found g. owning oid ow ok X g \<and> exit_post oid target kd (Inr found) g)
      (\<lambda>_ g. owning oid ow ok X g \<and> sees oid target DRAINING kd (Some target) None g))"
  unfolding tn_commit_service_def
  by (rule triple_call [OF commit_exit_triple [OF assms] keeps_commit_service owning_stable sees_stable results_stable(2)])
    (simp_all add: exit_post_def)

lemma tn_finalize_triple:
  assumes "oid \<noteq> []" and "st = DRAINING \<or> kd = BORROWED \<and> st = CREATING"
  shows "triple (tn_rely N oid target)
    (\<lambda>g. (owning oid ow ok X g \<and> published_as oid g = None) \<and> sees oid target st kd (Some target) pub g) (tn_finalize oid)
    (after_res (\<lambda>ev g. (owning oid ow ok X g \<and> published_as oid g = None) \<and> e_operation_id ev = oid \<and> e_type ev = RELEASED
         \<and> m_state (ro_mgr g) target = Some (if kd = NATIVE then DORMANT else RELEASED_STATE))
      (\<lambda>_ g. (owning oid ow ok X g \<and> published_as oid g = None) \<and> True))"
proof -
  have k: "stable (tn_rely N oid target) (\<lambda>g. owning oid ow ok X g \<and> published_as oid g = None)"
    by (auto intro: tn_stable simp: stable_def ro_rely_def owning_def tn_rely_def)
  have f: "own_frame (\<lambda>g. owning oid ow ok X g \<and> published_as oid g = None)"
    by (auto simp: published_as_def own_frame_def owning_def)
  show ?thesis unfolding tn_finalize_def
    by (rule triple_call [OF finalize_triple [OF assms] keeps_finalize [OF k f] k])
      (auto simp: release_post_def sees_def stable_def ro_rely_def)
qed

lemma tn_target_triple:
  assumes "stable (tn_rely N oid target) P" and "\<And>g. P g \<Longrightarrow> ro_targets g oid = Some target" and "oid \<noteq> []"
  shows "triple (tn_rely N oid target) P (tn_target oid) (after_res (\<lambda>t g. t = target \<and> P g) (\<lambda>_. P))"
  unfolding tn_target_def
  by (rule triple_query) (use assms in \<open>auto simp: ro_pending_target_def\<close>)
section \<open>Opening a service\<close>

text \<open>A published replica is a receiver; what an operation that opens a service may end with.\<close>

definition receiving :: "string \<Rightarrow> replica_key \<Rightarrow> ('n, 'c, 'z) tn_scheme \<Rightarrow> bool" where
  "receiving oid target g \<longleftrightarrow> (published_as oid g \<noteq> None \<longrightarrow> enrolled target (tn_ce g))"

definition opened ::
    "string \<Rightarrow> replica_key \<Rightarrow> replica_kind \<Rightarrow> op_evidence \<Rightarrow> ('n, 'c, 'z) tn_scheme \<Rightarrow> bool" where
  "opened oid target kd ev g \<longleftrightarrow> e_operation_id ev = oid \<and>
     (e_type ev = SERVICE_COMMITTED \<and> confirmed_by oid target ACTIVE kd None (Some ev) g \<and> enrolled target (tn_ce g)
      \<or> e_type ev = RELEASED \<and> m_state (ro_mgr g) target = Some (if kd = NATIVE then DORMANT else RELEASED_STATE)
        \<and> published_as oid g = None \<and> \<not> enrolled target (tn_ce g))"

definition service_opening ::
    "string \<Rightarrow> replica_key \<Rightarrow> replica_state \<Rightarrow> replica_kind \<Rightarrow> op_evidence res \<Rightarrow> ('n, 'c, 'z) tn_scheme \<Rightarrow> bool" where
  "service_opening oid target st kd x g \<longleftrightarrow>
     (case x of
        Inr ev \<Rightarrow> gate_healthy (tn_gate g) \<and> opened oid target kd ev g
      | Inl e \<Rightarrow> receiving oid target g \<and> (gate_fences oid (tn_gate g)
          \<or> sees oid target st kd (Some target) None g \<and> \<not> enrolled target (tn_ce g)))"

lemma frames_opening [simp]:
  "gateless (receiving oid target)" "gateless (opened oid target kd ev)"
  "receiving oid target (g\<lparr>tn_gate := x\<rparr>) = receiving oid target g"
  "opened oid target kd ev (g\<lparr>tn_gate := x\<rparr>) = opened oid target kd ev g"
  "sees oid target st kd b pub (g\<lparr>tn_gate := x\<rparr>) = sees oid target st kd b pub g"
  by (simp_all add: gateless_def receiving_def opened_def confirmed_by_def sees_def published_as_def)

lemma release_healthy [simp]: "gate_healthy (snd (gate_release ow g)) = gate_healthy g"
  by (simp add: gate_healthy_def gate_release_def)

lemma service_opening_release:
  "service_opening oid target st kd x (g\<lparr>tn_gate := snd (gate_release ow (tn_gate g))\<rparr>) = service_opening oid target st kd x g"
  by (simp add: service_opening_def split: sum.split)

lemma require_triple:
  assumes "\<And>g ev. found = Some ev \<Longrightarrow> P g \<Longrightarrow> e_operation_id ev = oid \<Longrightarrow> e_type ev = ty \<Longrightarrow> S ev g"
    and "\<And>e g. P g \<Longrightarrow> F e g"
  shows "triple R P (tn_require found oid ty) (after_res S F)"
  unfolding tn_require_def
  by (rule triple_lift) (use assms in \<open>auto simp: require_evidence_def split: option.splits if_splits\<close>)

lemma tn_released:
  assumes "oid \<noteq> []" and "st = DRAINING \<or> kd = BORROWED \<and> st = CREATING"
  shows "triple (tn_rely N oid target)
    (\<lambda>g. owning oid ow ok (\<lambda>E. \<not> enrolled target E) g \<and> sees oid target st kd (Some target) None g) (tn_finalize oid)
    (after_res (\<lambda>ev g. owning oid ow ok (\<lambda>E. \<not> enrolled target E) g \<and> opened oid target kd ev g)
      (\<lambda>_ g. owning oid ow ok (\<lambda>E. \<not> enrolled target E) g \<and> receiving oid target g))"
  by (rule triple_weaken [OF tn_finalize_triple [OF assms, where pub = None and ow = ow and ok = ok and X = "\<lambda>E. \<not> enrolled target E"]])
    (auto simp: sees_def opened_def receiving_def dest: owning_member split: sum.splits)

lemma ce_step_triple:
  assumes "\<And>E. X E \<Longrightarrow> X (snd (f E))"
  shows "triple R (\<lambda>g. owning oid ow ok X g \<and> sees oid target st kd b pub g) (on_ce f)
    (after_res (\<lambda>_ g. owning oid ow ok X g \<and> sees oid target st kd b pub g)
      (\<lambda>_ g. owning oid ow ok X g \<and> sees oid target st kd b pub g))"
  by (rule triple_ce) (simp_all add: assms)

lemma remove_triple:
  "triple R (\<lambda>g. owning oid ow ok (enrolled target) g \<and> sees oid target st kd b pub g)
    (on_ce (ce_remove_effective N target))
    (after_res (\<lambda>_ g. owning oid ow ok (\<lambda>E. \<not> enrolled target E) g \<and> sees oid target st kd b pub g)
      (\<lambda>_ g. owning oid ow ok (enrolled target) g \<and> sees oid target st kd b pub g))"
  by (rule triple_ce) (simp_all add: enrolled_def ce_effects)

lemma bootstrap_triple:
  assumes "\<And>E t nv vd env v. X E \<Longrightarrow> X (snd (ce_bootstrap_target t nv vd env target o' v E))"
  shows "triple (tn_rely N oid target) (\<lambda>g. owning oid ow ok X g \<and> sees oid target st kd b pub g)
    (tn_bootstrap T target o')
    (after_res (\<lambda>_ g. owning oid ow ok X g \<and> sees oid target st kd b pub g)
      (\<lambda>_ g. owning oid ow ok X g \<and> sees oid target st kd b pub g))"
  unfolding tn_bootstrap_def
proof (rule triple_look, rule triple_caught, rule triple_pre [OF triple_outside])
  let ?P = "\<lambda>g. owning oid ow ok X g \<and> sees oid target st kd b pub g"
  show "stable (tn_rely N oid target) ?P" by (auto intro: tn_stable)
  show "triple (tn_rely N oid target) ?P (look ro_clock (\<lambda>clock. on_ce (ce_bootstrap_target clock (tc_naive T)
      (tc_validation T) (tc_boot T reply) target o' v))) (after_res (\<lambda>_. ?P) (\<lambda>_. ?P))" for reply v
    by (rule triple_look, rule triple_pre [OF ce_step_triple]) (simp_all add: assms)
qed simp

section \<open>ADD\<close>

text \<open>\<open>hidden\<close>: the operation owns the gate, its target is not a receiver and not in service.\<close>

abbreviation hidden ::
    "string \<Rightarrow> gate_owner \<Rightarrow> replica_key \<Rightarrow> replica_state \<Rightarrow> replica_kind \<Rightarrow> ('n, 'c, 'z) tn_scheme \<Rightarrow> bool" where
  "hidden oid ow target st kd g \<equiv> owning oid ow True (\<lambda>E. \<not> enrolled target E) g \<and> sees oid target st kd (Some target) None g"

abbreviation effective ::
    "string \<Rightarrow> gate_owner \<Rightarrow> replica_key \<Rightarrow> replica_state \<Rightarrow> replica_kind \<Rightarrow> ('n, 'c, 'z) tn_scheme \<Rightarrow> bool" where
  "effective oid ow target st kd g \<equiv> owning oid ow True (enrolled target) g \<and> sees oid target st kd (Some target) None g"

lemma hidden_stable [simp]:
  "stable (tn_rely N oid target) (\<lambda>g. owning oid ow ok X g \<and> sees oid target st kd b pub g)"
  by (auto intro: tn_stable)

lemma add_register_triple:
  assumes "oid \<noteq> []"
  shows "triple (tn_rely N oid target) (hidden oid ow target CREATING BORROWED) (tn_add_register T ow oid)
    (after_res (\<lambda>t g. t = target \<and> hidden oid ow target CREATING BORROWED g) (\<lambda>_. hidden oid ow target CREATING BORROWED))"
proof -
  let ?H = "hidden oid ow target CREATING BORROWED"
  have register: "triple (tn_rely N oid target) ?H (tn_guard ow (on_ce (ce_register_pending (tc_native T) target replicas oid)))
      (after_res (\<lambda>_. ?H) (\<lambda>_. ?H))" for replicas
    by (rule owned_guarded [OF ce_step_triple]) (simp add: enrolled_def ce_effects)
  have replicas: "triple (tn_rely N oid target) ?H (query (ro_pending_replicas oid)) (after_res (\<lambda>_. ?H) (\<lambda>_. ?H))"
    by (rule triple_query) simp_all
  have go: "triple (tn_rely N oid target) ?H (andthen (query (ro_pending_replicas oid)) (\<lambda>replicas.
      guard_that (replicas \<noteq> []) (RuntimeError ''ADD target has no prepared runtime'')
        (guard_that (tc_kind T ` set replicas = {Some BORROWED}) (ValueError ''ADD requires a prepared BORROWED runtime'')
          (andthen (tn_guard ow (on_ce (ce_register_pending (tc_native T) target replicas oid))) (\<lambda>_. ret target)))))
      (after_res (\<lambda>t g. t = target \<and> ?H g) (\<lambda>_. ?H))"
    by (rule triple_then [OF replicas], simp, (rule triple_guard, simp)+, rule triple_then [OF register], simp)
      (auto intro: triple_ret)
  show ?thesis unfolding tn_add_register_def
    by (rule triple_then [OF tn_target_triple [OF hidden_stable _ assms]])
      (use go in \<open>auto simp: sees_def intro!: triple_some\<close>)
qed

lemma weights_triple:
  "triple (tn_rely N oid target) (hidden oid ow target st kd) (tn_weights T ow target oid)
     (after_res (\<lambda>_. effective oid ow target st kd) (\<lambda>_. hidden oid ow target st kd))"
proof -
  let ?H = "hidden oid ow target st kd"
  have boot: "triple (tn_rely N oid target) ?H (tn_guard ow (tn_bootstrap T target oid)) (after_res (\<lambda>_. ?H) (\<lambda>_. ?H))"
    by (rule owned_guarded [OF bootstrap_triple]) (simp add: enrolled_def boot_effects)
  have commit: "triple (tn_rely N oid target) ?H (tn_guard ow (tn_commit_pending T target ev))
      (after_res (\<lambda>_. effective oid ow target st kd) (\<lambda>_. ?H))" for ev
    unfolding tn_commit_pending_def
    by (rule owned_guarded, rule triple_look, rule triple_pre [OF triple_ce]) (auto simp: commit_effects)
  show ?thesis unfolding tn_weights_def
    by (rule triple_then [OF boot], simp, rule triple_then [OF require_triple [where S = "\<lambda>_. ?H" and F = "\<lambda>_. ?H"] _ commit]) simp_all
qed

lemma publish_guarded:
  assumes "oid \<noteq> []" and "st = CREATING \<and> kd = BORROWED \<or> st = DORMANT \<and> kd = NATIVE"
  shows "triple (tn_rely (rc_router C) oid target) (effective oid ow target st kd) (tn_guard ow (tn_commit_service C oid))
    (after_res (\<lambda>found g. owning oid ow True (enrolled target) g \<and> (case found of
         Some ev \<Rightarrow> confirmed_by oid target ACTIVE kd None (Some ev) g
       | None \<Rightarrow> sees oid target DRAINING kd (Some target) None g))
      (\<lambda>_ g. owning oid ow True (enrolled target) g \<and> True))"
  by (rule owned_guarded [OF tn_publish_triple [OF assms(1)]]) (use assms(2) in auto)

lemma remove_guarded:
  "triple (tn_rely N oid target) (effective oid ow target st kd) (tn_guard ow (on_ce (ce_remove_effective M target)))
    (after_res (\<lambda>_. hidden oid ow target st kd) (\<lambda>_. effective oid ow target st kd))"
  by (rule owned_guarded [OF remove_triple])

lemma released_guarded:
  assumes "oid \<noteq> []" and "st = DRAINING \<or> kd = BORROWED \<and> st = CREATING"
  shows "triple (tn_rely N oid target) (hidden oid ow target st kd)
    (andthen (tn_guard ow (tn_finalize oid)) (\<lambda>ev. tn_require (Some ev) oid RELEASED))
    (after_res (\<lambda>ev g. owning oid ow True (\<lambda>_. True) g \<and> opened oid target kd ev g)
      (\<lambda>_ g. owning oid ow True (\<lambda>_. True) g \<and> receiving oid target g))"
  by (rule triple_then [OF owned_guarded [OF tn_released [OF assms]] _ require_triple])
    (auto simp: owning_def opened_def receiving_def confirmed_by_def split: option.splits)

definition served :: "string \<Rightarrow> gate_owner \<Rightarrow> replica_key \<Rightarrow> replica_kind \<Rightarrow> op_evidence res \<Rightarrow> ('n, 'c, 'z) tn_scheme \<Rightarrow> bool" where
  "served oid ow target kd x g \<longleftrightarrow> owning oid ow True (\<lambda>_. True) g
     \<and> (case x of Inr ev \<Rightarrow> opened oid target kd ev g | Inl e \<Rightarrow> receiving oid target g)"

lemma served_simps:
  "owning oid ow True (enrolled target) g \<Longrightarrow> served oid ow target kd (Inl e) g"
  "hidden oid ow target st kd g \<Longrightarrow> served oid ow target kd (Inl e) g"
  "owning oid ow True (\<lambda>_. True) g \<Longrightarrow> receiving oid target g \<Longrightarrow> served oid ow target kd (Inl e) g"
  "owning oid ow True (enrolled target) g \<Longrightarrow> confirmed_by oid target ACTIVE kd None (Some ev) g \<Longrightarrow> e_operation_id ev = oid \<Longrightarrow>
     e_type ev = SERVICE_COMMITTED \<Longrightarrow> served oid ow target kd (Inr ev) g"
  by (auto simp: served_def receiving_def opened_def owning_def sees_def)

lemma served_release: "triple R P m (after_res (\<lambda>ev g. owning oid ow True (\<lambda>_. True) g \<and> opened oid target kd ev g)
      (\<lambda>_ g. owning oid ow True (\<lambda>_. True) g \<and> receiving oid target g)) \<Longrightarrow> triple R P m (served oid ow target kd)"
  by (erule triple_post) (auto simp: served_def split: sum.splits)

lemma committed_served:
  "triple R (\<lambda>g. owning oid ow True (enrolled target) g \<and> confirmed_by oid target ACTIVE kd None (Some ev) g)
    (tn_require (Some ev) oid SERVICE_COMMITTED) (served oid ow target kd)"
proof (rule triple_post [OF require_triple])
  let ?P = "\<lambda>g. owning oid ow True (enrolled target) g \<and> confirmed_by oid target ACTIVE kd None (Some ev) g"
  show "served oid ow target kd (Inr ev') g" if "Some ev = Some ev'" "?P g" "e_operation_id ev' = oid" "e_type ev' = SERVICE_COMMITTED" for ev' g
    using that by (intro served_simps(4)) simp_all
  show "?P g" if "?P g" for g using that .
  show "served oid ow target kd x g" if "case x of Inr ev' \<Rightarrow> served oid ow target kd (Inr ev') g | Inl _ \<Rightarrow> ?P g" for x g
    using that served_simps(1) by (cases x) auto
qed

lemma add_service_triple:
  assumes "oid \<noteq> []"
  shows "triple (tn_rely (rc_router C) oid target) (effective oid ow target CREATING BORROWED)
    (tn_add_service C T ow target oid) (served oid ow target BORROWED)"
  unfolding tn_add_service_def
proof (rule triple_then [OF publish_guarded [OF assms]])
  show "CREATING = CREATING \<and> BORROWED = BORROWED \<or> CREATING = DORMANT \<and> BORROWED = NATIVE" by simp
  show "served oid ow target BORROWED (Inl e) g" if "owning oid ow True (enrolled target) g \<and> True" for e g
    using that served_simps(1) by blast
  let ?R = "tn_rely (rc_router C) oid target"
  let ?take = "andthen (tn_guard ow (on_ce (ce_remove_effective (tc_native T) target)))
    (\<lambda>_. andthen (tn_guard ow (tn_finalize oid)) (\<lambda>ev. tn_require (Some ev) oid RELEASED))"
  have take: "triple ?R (effective oid ow target DRAINING BORROWED) ?take (served oid ow target BORROWED)"
    by (rule triple_then [OF remove_guarded], use served_simps(1) in blast, rule served_release, rule released_guarded [OF assms]) simp
  show "triple ?R (\<lambda>g. owning oid ow True (enrolled target) g \<and> (case found of
        Some ev \<Rightarrow> confirmed_by oid target ACTIVE BORROWED None (Some ev) g
      | None \<Rightarrow> sees oid target DRAINING BORROWED (Some target) None g))
    (case found of None \<Rightarrow> ?take
     | Some ev \<Rightarrow> if e_type ev = RELEASED then andthen (tn_require (Some ev) oid RELEASED)
           (\<lambda>ev. andthen (tn_guard ow (on_ce (ce_remove_effective (tc_native T) target))) (\<lambda>_. ret ev))
         else tn_require (Some ev) oid SERVICE_COMMITTED) (served oid ow target BORROWED)" for found
  proof (cases found)
    case (Some ev)
    have "triple ?R (\<lambda>g. owning oid ow True (enrolled target) g \<and> confirmed_by oid target ACTIVE BORROWED None (Some ev) g)
        (if e_type ev = RELEASED then andthen (tn_require (Some ev) oid RELEASED)
           (\<lambda>ev. andthen (tn_guard ow (on_ce (ce_remove_effective (tc_native T) target))) (\<lambda>_. ret ev))
         else tn_require (Some ev) oid SERVICE_COMMITTED) (served oid ow target BORROWED)"
      by (rule triple_fact [where F = "e_type ev = SERVICE_COMMITTED"], simp add: confirmed_by_def)
        (simp add: committed_served)
    with Some show ?thesis by simp
  qed (use take in simp)
qed
text \<open>Failing in the service phase fences; the rollback returns evidence or fences.\<close>

lemma fence_triple:
  assumes "reason \<noteq> []"
  shows "triple R (\<lambda>g. owning oid ow True X g \<and> receiving oid target g) (block_and_raise ow reason e)
    (service_opening oid target st kd)"
  by (rule triple_post [OF triple_block [OF _ assms]]) (auto simp: service_opening_def)

lemma hidden_receiving: "hidden oid ow target st kd g \<Longrightarrow> owning oid ow True (\<lambda>_. True) g \<and> receiving oid target g"
  by (auto simp: owning_def receiving_def sees_def)

lemma released_opening:
  "owning oid ow True X g \<Longrightarrow> opened oid target kd ev g \<Longrightarrow> service_opening oid target st kd (Inr ev) g"
  by (simp add: service_opening_def owning_def)

lemma served_fenced:
  assumes "triple R P m (served oid ow target kd)" and "reason \<noteq> []"
  shows "triple R P (rescue m (block_and_raise ow reason)) (service_opening oid target st kd)"
proof (rule triple_try)
  show "triple R P m (after_res (\<lambda>ev g. owning oid ow True (\<lambda>_. True) g \<and> opened oid target kd ev g)
      (\<lambda>_ g. owning oid ow True (\<lambda>_. True) g \<and> receiving oid target g))"
    using assms(1) by (rule triple_post) (auto simp: served_def split: sum.splits)
  show "triple R (\<lambda>g. owning oid ow True (\<lambda>_. True) g \<and> receiving oid target g) (block_and_raise ow reason e)
      (service_opening oid target st kd)" for e
    by (rule fence_triple [OF assms(2)])
qed (blast intro: released_opening)

lemma add_rollback_triple:
  assumes "oid \<noteq> []" and "registered \<in> {None, Some target}"
  shows "triple (tn_rely N oid target) (hidden oid ow target CREATING BORROWED) (tn_add_rollback ow oid registered e)
    (service_opening oid target CREATING BORROWED)"
proof -
  let ?H = "hidden oid ow target CREATING BORROWED" and ?R = "tn_rely N oid target"
  have discard: "triple ?R ?H (case registered of None \<Rightarrow> ret () | Some t \<Rightarrow> tn_guard ow (tn_discard t)) (\<lambda>_. ?H)"
  proof (cases registered)
    case (Some t)
    have "triple ?R ?H (tn_guard ow (tn_discard target)) (after_res (\<lambda>_. ?H) (\<lambda>_. ?H))"
      unfolding tn_discard_def
      by (rule owned_guarded [OF ce_step_triple]) (simp add: ce_effects enrolled_def)
    with Some assms(2) show ?thesis by (simp add: triple_same)
  qed (auto intro: triple_ret)
  have "triple ?R ?H (caught (andthen (tn_guard ow (tn_finalize oid)) (\<lambda>ev. tn_require (Some ev) oid RELEASED)) (\<lambda>released.
      case (released, discarded) of (Inr ev, Inr _) \<Rightarrow> ret ev
      | _ \<Rightarrow> block_and_raise ow ''ADD rollback outcome unknown''
          (RuntimeError ''ADD bootstrap failed and prepared runtime cleanup is unverified'')))
      (service_opening oid target CREATING BORROWED)" for discarded :: "unit res"
  proof (rule triple_caught [OF released_guarded [OF assms(1)]])
    fix released
    let ?b = "block_and_raise ow ''ADD rollback outcome unknown''
      (RuntimeError ''ADD bootstrap failed and prepared runtime cleanup is unverified'') :: (('a, 'b, 'c) tn_scheme, op_evidence) coro"
    let ?P = "after_res (\<lambda>ev g. owning oid ow True (\<lambda>_. True) g \<and> opened oid target BORROWED ev g)
      (\<lambda>_ g. owning oid ow True (\<lambda>_. True) g \<and> receiving oid target g) released"
    have fence: "triple ?R ?P (block_and_raise ow ''ADD rollback outcome unknown'' x) (service_opening oid target CREATING BORROWED)" for x
      by (rule triple_pre [OF fence_triple [where X = "\<lambda>_. True"]])
        (auto simp: receiving_def opened_def split: sum.splits)
    show "triple ?R ?P (case (released, discarded) of (Inr ev, Inr _) \<Rightarrow> ret ev
        | _ \<Rightarrow> block_and_raise ow ''ADD rollback outcome unknown''
          (RuntimeError ''ADD bootstrap failed and prepared runtime cleanup is unverified''))
        (service_opening oid target CREATING BORROWED)"
      using fence by (cases released; cases discarded) (auto intro: triple_ret released_opening)
  qed simp
  then show ?thesis unfolding tn_add_rollback_def by (rule triple_caught [OF discard])
qed

abbreviation unopened :: "string \<Rightarrow> replica_key \<Rightarrow> replica_state \<Rightarrow> replica_kind \<Rightarrow> ('n, 'c, 'z) tn_scheme \<Rightarrow> bool" where
  "unopened oid target st kd g \<equiv> sees oid target st kd (Some target) None g \<and> \<not> enrolled target (tn_ce g)"

lemma unopened_stable [simp]: "stable (tn_rely N oid target) (unopened oid target st kd)" "gateless (unopened oid target st kd)"
  by (auto intro: tn_stable simp: stable_def tn_rely_def enrolled_def ro_rely_def sees_def gateless_def published_as_def)

lemma add_lease_triple:
  assumes "oid \<noteq> []"
  shows "triple (tn_rely (rc_router C) oid target) (unopened oid target CREATING BORROWED)
    (with_lease oid GADD (\<lambda>ow. attempt (tn_add_register T ow oid) (tn_add_rollback ow oid None) (\<lambda>target.
       attempt (tn_weights T ow target oid) (tn_add_rollback ow oid (Some target)) (\<lambda>_.
         rescue (tn_add_service C T ow target oid) (block_and_raise ow ''ADD publish outcome unknown'')))))
    (service_opening oid target CREATING BORROWED)"
proof (rule lease_triple [OF unopened_stable])
  let ?R = "tn_rely (rc_router C) oid target" and ?Q = "service_opening oid target CREATING BORROWED"
  fix ow
  let ?H = "hidden oid ow target CREATING BORROWED"
  note rollback = add_rollback_triple [OF assms]
  have service: "triple ?R ?H (attempt (tn_weights T ow target oid) (tn_add_rollback ow oid (Some target))
      (\<lambda>_. rescue (tn_add_service C T ow target oid) (block_and_raise ow ''ADD publish outcome unknown''))) ?Q"
    by (rule triple_attempt [OF weights_triple rollback served_fenced [OF add_service_triple [OF assms]]]) simp_all
  have "triple ?R ?H (attempt (tn_add_register T ow oid) (tn_add_rollback ow oid None) (\<lambda>target.
       attempt (tn_weights T ow target oid) (tn_add_rollback ow oid (Some target)) (\<lambda>_.
         rescue (tn_add_service C T ow target oid) (block_and_raise ow ''ADD publish outcome unknown'')))) ?Q"
    by (rule triple_attempt [OF add_register_triple [OF assms] rollback]) (auto intro!: triple_some service)
  then show "triple ?R (\<lambda>g. owning oid ow True (\<lambda>_. True) g \<and> unopened oid target CREATING BORROWED g)
      (attempt (tn_add_register T ow oid) (tn_add_rollback ow oid None) (\<lambda>target.
       attempt (tn_weights T ow target oid) (tn_add_rollback ow oid (Some target)) (\<lambda>_.
         rescue (tn_add_service C T ow target oid) (block_and_raise ow ''ADD publish outcome unknown'')))) ?Q"
    by (rule triple_pre) (simp add: owning_def)
  show "service_opening oid target CREATING BORROWED x (g\<lparr>tn_gate := snd (gate_release ow (tn_gate g))\<rparr>) =
      service_opening oid target CREATING BORROWED x g" for x g
    by (rule service_opening_release)
qed (simp_all add: service_opening_def receiving_def sees_def)
section \<open>RESTORE\<close>

lemma register_guarded:
  "triple R (hidden oid ow target st kd) (tn_guard ow (on_ce (ce_register_pending M target replicas o')))
    (after_res (\<lambda>_. hidden oid ow target st kd) (\<lambda>_. hidden oid ow target st kd))"
  by (rule owned_guarded [OF ce_step_triple]) (simp add: enrolled_def ce_effects)

lemma unpark_triple:
  assumes "oid \<noteq> []"
  shows "triple (tn_rely N oid target) (hidden oid ow target st kd) (tn_unpark T ow oid)
    (after_res (\<lambda>(t, rs) g. t = target \<and> hidden oid ow target st kd g) (\<lambda>_. hidden oid ow target st kd))"
proof -
  let ?H = "hidden oid ow target st kd" and ?Q = "after_res (\<lambda>(t, rs). \<lambda>g. t = target \<and> hidden oid ow target st kd g) (\<lambda>_. hidden oid ow target st kd)"
  have discard: "triple (tn_rely N oid target) ?H (tn_guard ow (tn_discard target)) (after_res (\<lambda>_. ?H) (\<lambda>_. ?H))"
    unfolding tn_discard_def by (rule owned_guarded [OF ce_step_triple]) (simp add: ce_effects enrolled_def)
  have go: "triple (tn_rely N oid target) ?H
      (guard_that (tc_kind T ` set rs = {Some NATIVE}) (ValueError ''RESTORE requires a parked NATIVE CE runtime'')
        (andthen (tn_guard ow (tn_discard target)) (\<lambda>_. ret (target, rs)))) ?Q" for rs
    by (rule triple_guard, simp, rule triple_then [OF discard], simp, rule triple_ret) simp
  have "triple (tn_rely N oid target) ?H
      (look (\<lambda>g. map_of (ce_pending (tn_ce g)) target) (\<lambda>held.
        case held of None \<Rightarrow> raise (KeyError ''no parked native CE runtime'')
        | Some (replicas, _) \<Rightarrow>
           guard_that (tc_kind T ` set replicas = {Some NATIVE}) (ValueError ''RESTORE requires a parked NATIVE CE runtime'')
             (andthen (tn_guard ow (tn_discard target)) (\<lambda>_. ret (target, replicas))))) ?Q"
    by (rule triple_look) (auto intro: triple_raise triple_pre [OF go] split: option.split)
  then show ?thesis unfolding tn_unpark_def
    by (intro triple_then [OF tn_target_triple [OF hidden_stable _ assms]]) (auto simp: sees_def intro!: triple_some)
qed

lemma restore_service_triple:
  assumes "oid \<noteq> []"
  shows "triple (tn_rely (rc_router C) oid target) (effective oid ow target DORMANT NATIVE)
    (tn_restore_service C T ow oid target replicas) (served oid ow target NATIVE)"
  unfolding tn_restore_service_def
proof (rule triple_then [OF publish_guarded [OF assms]])
  show "DORMANT = CREATING \<and> NATIVE = BORROWED \<or> DORMANT = DORMANT \<and> NATIVE = NATIVE" by simp
  show "served oid ow target NATIVE (Inl e) g" if "owning oid ow True (enrolled target) g \<and> True" for e g
    using that served_simps(1) by blast
  let ?R = "tn_rely (rc_router C) oid target"
  let ?take = "andthen (tn_guard ow (on_ce (ce_remove_effective (tc_native T) target))) (\<lambda>_.
     andthen (tn_guard ow (on_ce (ce_register_pending (tc_native T) target replicas oid)))
       (\<lambda>_. andthen (tn_guard ow (tn_finalize oid)) (\<lambda>ev. tn_require (Some ev) oid RELEASED)))"
  have take: "triple ?R (effective oid ow target DRAINING NATIVE) ?take (served oid ow target NATIVE)"
    by (rule triple_then [OF remove_guarded], use served_simps(1) in blast, rule triple_then [OF register_guarded],
        use served_simps(2) in blast, rule served_release, rule released_guarded [OF assms]) simp
  show "triple ?R (\<lambda>g. owning oid ow True (enrolled target) g \<and> (case found of
        Some ev \<Rightarrow> confirmed_by oid target ACTIVE NATIVE None (Some ev) g
      | None \<Rightarrow> sees oid target DRAINING NATIVE (Some target) None g))
    (case found of None \<Rightarrow> ?take | Some ev \<Rightarrow> tn_require (Some ev) oid SERVICE_COMMITTED) (served oid ow target NATIVE)" for found
    using take committed_served by (cases found) simp_all
qed

lemma restore_body_triple:
  assumes "oid \<noteq> []"
  shows "triple (tn_rely (rc_router C) oid target) (hidden oid ow target DORMANT NATIVE)
    (tn_restore_body C T ow oid target replicas) (served oid ow target NATIVE)"
proof -
  let ?R = "tn_rely (rc_router C) oid target" and ?H = "hidden oid ow target DORMANT NATIVE"
  have boot: "triple ?R ?H (tn_guard ow (tn_bootstrap T target oid)) (after_res (\<lambda>_. ?H) (\<lambda>_. ?H))"
    by (rule owned_guarded [OF bootstrap_triple]) (simp add: enrolled_def boot_effects)
  have commit: "triple ?R ?H (tn_guard ow (tn_commit_pending T target ev))
      (after_res (\<lambda>_. effective oid ow target DORMANT NATIVE) (\<lambda>_. ?H))" for ev
    unfolding tn_commit_pending_def
    by (rule owned_guarded, rule triple_look, rule triple_pre [OF triple_ce]) (auto simp: commit_effects)
  have asleep: "triple ?R ?H (tn_require (Some ev) oid RELEASED) (served oid ow target NATIVE)" for ev
    by (rule triple_post [OF require_triple [where S = "\<lambda>ev. served oid ow target NATIVE (Inr ev)" and F = "\<lambda>_. ?H"]])
      (auto simp: served_def opened_def owning_def sees_def receiving_def split: sum.splits)
  have ready: "triple ?R ?H (andthen (tn_require (Some ev) oid WEIGHT_READY) (\<lambda>_.
      andthen (tn_guard ow (tn_commit_pending T target ev)) (\<lambda>_. tn_restore_service C T ow oid target replicas)))
      (served oid ow target NATIVE)" for ev
    by (rule triple_then [OF require_triple [where S = "\<lambda>_. ?H" and F = "\<lambda>_. ?H"]], simp, simp, use served_simps(2) in blast,
        rule triple_then [OF commit _ restore_service_triple [OF assms]], use served_simps(2) in blast)
  show ?thesis unfolding tn_restore_body_def
    by (rule triple_then [OF register_guarded], use served_simps(2) in blast, rule triple_then [OF boot],
        use served_simps(2) in blast, rule triple_if, rule asleep, rule ready)
qed

lemma receiving_stable:
  "stable (tn_rely N oid target) (\<lambda>g. owning oid ow ok X g \<and> receiving oid target g)"
  "own_frame (\<lambda>g. owning oid ow ok X g \<and> receiving oid target g)"
  by (auto simp: stable_def receiving_def tn_rely_def ro_rely_def enrolled_def owning_def own_frame_def published_as_def)

lemma restore_failed_triple:
  "triple (tn_rely N oid target) (\<lambda>g. owning oid ow True (\<lambda>_. True) g \<and> receiving oid target g) (tn_restore_failed ow oid e)
    (service_opening oid target st kd)"
  unfolding tn_restore_failed_def
  by (rule triple_caught [OF keeps_remote [OF _ keeps_quarantine_dormant, unfolded keeps_def]])
    (simp_all add: receiving_stable fence_triple)

lemma restore_lease_triple:
  assumes "oid \<noteq> []"
  shows "triple (tn_rely (rc_router C) oid target) (unopened oid target DORMANT NATIVE)
    (with_lease oid GRESTORE (\<lambda>ow. andthen (tn_unpark T ow oid) (\<lambda>(target, replicas).
       rescue (tn_restore_body C T ow oid target replicas) (tn_restore_failed ow oid))))
    (service_opening oid target DORMANT NATIVE)"
proof (rule lease_triple [OF unopened_stable])
  let ?R = "tn_rely (rc_router C) oid target" and ?Q = "service_opening oid target DORMANT NATIVE"
  fix ow
  let ?H = "hidden oid ow target DORMANT NATIVE"
  have body: "triple ?R ?H (rescue (tn_restore_body C T ow oid target replicas) (tn_restore_failed ow oid)) ?Q" for replicas
  proof (rule triple_try)
    show "triple ?R ?H (tn_restore_body C T ow oid target replicas)
        (after_res (\<lambda>ev g. owning oid ow True (\<lambda>_. True) g \<and> opened oid target NATIVE ev g)
          (\<lambda>_ g. owning oid ow True (\<lambda>_. True) g \<and> receiving oid target g))"
      by (rule triple_post [OF restore_body_triple [OF assms]]) (auto simp: served_def split: sum.splits)
  qed (blast intro: released_opening restore_failed_triple)+
  have "triple ?R ?H (andthen (tn_unpark T ow oid) (\<lambda>(target, replicas).
       rescue (tn_restore_body C T ow oid target replicas) (tn_restore_failed ow oid))) ?Q"
    by (rule triple_then [OF unpark_triple [OF assms]], simp add: service_opening_def receiving_def sees_def owning_def)
      (use body in \<open>auto intro!: triple_some\<close>)
  then show "triple ?R (\<lambda>g. owning oid ow True (\<lambda>_. True) g \<and> unopened oid target DORMANT NATIVE g)
      (andthen (tn_unpark T ow oid) (\<lambda>(target, replicas).
       rescue (tn_restore_body C T ow oid target replicas) (tn_restore_failed ow oid))) ?Q"
    by (rule triple_pre) (simp add: owning_def)
  show "service_opening oid target DORMANT NATIVE x (g\<lparr>tn_gate := snd (gate_release ow (tn_gate g))\<rparr>) =
      service_opening oid target DORMANT NATIVE x g" for x g
    by (rule service_opening_release)
qed (simp_all add: service_opening_def receiving_def sees_def)

section \<open>The receiver a RESTORE finds parked\<close>

text \<open>
  A RESTORE that does not publish leaves the parked receiver where it found it, unless it fences: the
  runtimes are discarded only to be registered again for this operation.
\<close>

definition parking :: "string \<Rightarrow> replica_key \<Rightarrow> nat list option \<Rightarrow> op_evidence res \<Rightarrow> ('n, 'c, 'z) tn_scheme \<Rightarrow> bool" where
  "parking oid target p x g \<longleftrightarrow>
     (case x of
        Inr ev \<Rightarrow> e_type ev = RELEASED \<longrightarrow> parked target (tn_ce g) = p
      | Inl e \<Rightarrow> gate_fences oid (tn_gate g) \<or> parked target (tn_ce g) = p)"

abbreviation keeping :: "replica_key \<Rightarrow> nat list option \<Rightarrow> 'c ce \<Rightarrow> bool" where
  "keeping target p E \<equiv> \<not> enrolled target E \<and> parked target E = p"

lemma owned_ce:
  assumes "\<And>E a. X E \<Longrightarrow> fst (f E) = Inr a \<Longrightarrow> Y (snd (f E))" and "\<And>E e. X E \<Longrightarrow> fst (f E) = Inl e \<Longrightarrow> Z (snd (f E))"
  shows "triple R (owning oid ow True X) (tn_guard ow (on_ce f)) (after_res (\<lambda>_. owning oid ow True Y) (\<lambda>_. owning oid ow True Z))"
  by (rule triple_guarded [where X = X and Y = "\<lambda>_. Y"], rule triple_weaken [OF triple_ce [where P = "\<lambda>_. True"]])
    (use assms in \<open>auto split: sum.splits\<close>)

lemma owned_keeps:
  assumes "keeps R (owning oid ow True X) m"
  shows "triple R (owning oid ow True X) (tn_guard ow m) (after_res (\<lambda>_. owning oid ow True X) (\<lambda>_. owning oid ow True X))"
  by (rule triple_guarded [where X = X and Y = "\<lambda>_. X"]) (simp_all add: triple_same keeps_triple [OF assms])

lemma owned_weaken: "owning oid ow ok X g \<Longrightarrow> (\<And>E. X E \<Longrightarrow> Y E) \<Longrightarrow> owning oid ow ok Y g"
  by (simp add: owning_def)

lemma unpark_parked:
  assumes "oid \<noteq> []"
  shows "triple (tn_rely N oid target) (\<lambda>g. owning oid ow True (keeping target p) g \<and> ro_targets g oid = Some target) (tn_unpark T ow oid)
    (after_res (\<lambda>(t, rs) g. t = target \<and> p = Some rs \<and> owning oid ow True (keeping target None) g) (\<lambda>_ g. parked target (tn_ce g) = p))"
proof -
  let ?R = "tn_rely N oid target" and ?P = "\<lambda>g. owning oid ow True (keeping target p) g \<and> ro_targets g oid = Some target"
  let ?Q = "after_res (\<lambda>(t, rs) g. t = target \<and> p = Some rs \<and> owning oid ow True (keeping target None) g) (\<lambda>_ g. parked target (tn_ce g) = p)"
  have st: "stable ?R ?P"
    by (rule stable_conj [OF owning_stable tn_stable]) (simp add: stable_def ro_rely_def)
  have discard: "triple ?R (owning oid ow True (keeping target p)) (tn_guard ow (tn_discard target))
      (after_res (\<lambda>_. owning oid ow True (keeping target None)) (\<lambda>_. owning oid ow True (\<lambda>_. False)))"
    unfolding tn_discard_def by (rule owned_ce) (auto simp: ce_effects enrolled_def)
  have go: "triple ?R (\<lambda>g. ?P g \<and> map_of (ce_pending (tn_ce g)) target = held)
      (case held of None \<Rightarrow> raise (KeyError ''no parked native CE runtime'')
       | Some (replicas, _) \<Rightarrow>
           guard_that (tc_kind T ` set replicas = {Some NATIVE}) (ValueError ''RESTORE requires a parked NATIVE CE runtime'')
             (andthen (tn_guard ow (tn_discard target)) (\<lambda>_. ret (target, replicas)))) ?Q" for held
  proof (cases held)
    case None
    then show ?thesis by (auto intro!: triple_raise simp: owning_def)
  next
    case (Some entry)
    obtain rs o' where entry: "entry = (rs, o')" by fastforce
    have found: "p = Some rs" if "?P g \<and> map_of (ce_pending (tn_ce g)) target = held" for g
      using that Some entry by (auto simp: owning_def parked_def)
    have "triple ?R (\<lambda>g. p = Some rs \<and> owning oid ow True (keeping target p) g)
        (andthen (tn_guard ow (tn_discard target)) (\<lambda>_. ret (target, rs))) ?Q"
      by (rule triple_some, rule triple_then [OF discard]) (auto intro!: triple_ret simp: owning_def)
    then have "triple ?R (\<lambda>g. ?P g \<and> map_of (ce_pending (tn_ce g)) target = held)
        (guard_that (tc_kind T ` set rs = {Some NATIVE}) (ValueError ''RESTORE requires a parked NATIVE CE runtime'')
          (andthen (tn_guard ow (tn_discard target)) (\<lambda>_. ret (target, rs)))) ?Q"
      by (intro triple_guard) (auto simp: owning_def, erule triple_pre, use found in \<open>auto simp: owning_def\<close>)
    with Some entry show ?thesis by simp
  qed
  have "triple ?R ?P (look (\<lambda>g. map_of (ce_pending (tn_ce g)) target) (\<lambda>held.
        case held of None \<Rightarrow> raise (KeyError ''no parked native CE runtime'')
        | Some (replicas, _) \<Rightarrow>
           guard_that (tc_kind T ` set replicas = {Some NATIVE}) (ValueError ''RESTORE requires a parked NATIVE CE runtime'')
             (andthen (tn_guard ow (tn_discard target)) (\<lambda>_. ret (target, replicas))))) ?Q"
    by (rule triple_look) (rule go)
  then show ?thesis unfolding tn_unpark_def
    by (intro triple_then [OF tn_target_triple [OF st _ assms]]) (auto simp: owning_def intro!: triple_some)
qed

lemma restore_service_parked:
  "triple (tn_rely (rc_router C) oid target) (owning oid ow True (\<lambda>_. True)) (tn_restore_service C T ow oid target rs)
    (after_res (\<lambda>ev. owning oid ow True (\<lambda>E. e_type ev = RELEASED \<longrightarrow> parked target E = Some rs)) (\<lambda>_. owning oid ow True (\<lambda>_. True)))"
proof -
  let ?R = "tn_rely (rc_router C) oid target" and ?any = "owning oid ow True (\<lambda>_. True)"
  let ?Q = "after_res (\<lambda>ev. owning oid ow True (\<lambda>E. e_type ev = RELEASED \<longrightarrow> parked target E = Some rs)) (\<lambda>_. ?any)"
  have publish: "triple ?R ?any (tn_guard ow (tn_commit_service C oid)) (after_res (\<lambda>_. ?any) (\<lambda>_. ?any))"
    unfolding tn_commit_service_def by (rule owned_keeps [OF keeps_remote [OF owning_stable keeps_commit_service]]) simp_all
  have remove: "triple ?R ?any (tn_guard ow (on_ce (ce_remove_effective (tc_native T) target)))
      (after_res (\<lambda>_. owning oid ow True (\<lambda>E. \<not> enrolled target E)) (\<lambda>_. ?any))"
    by (rule owned_ce) (auto simp: ce_effects enrolled_def)
  have register: "triple ?R (owning oid ow True (\<lambda>E. \<not> enrolled target E))
      (tn_guard ow (on_ce (ce_register_pending (tc_native T) target rs oid)))
      (after_res (\<lambda>_. owning oid ow True (\<lambda>E. parked target E = Some rs)) (\<lambda>_. ?any))"
    by (rule owned_ce) (auto simp: ce_effects)
  have finalize: "triple ?R (owning oid ow True (\<lambda>E. parked target E = Some rs)) (tn_guard ow (tn_finalize oid))
      (after_res (\<lambda>_. owning oid ow True (\<lambda>E. parked target E = Some rs)) (\<lambda>_. owning oid ow True (\<lambda>E. parked target E = Some rs)))"
    unfolding tn_finalize_def by (rule owned_keeps [OF keeps_remote [OF owning_stable keeps_finalize]]) simp_all
  have released: "triple ?R (owning oid ow True (\<lambda>E. parked target E = Some rs)) (tn_require (Some ev) oid RELEASED) ?Q" for ev
    by (rule require_triple) (auto elim: owned_weaken)
  have committed: "triple ?R ?any (tn_require (Some ev) oid SERVICE_COMMITTED) ?Q" for ev
    by (rule require_triple) (auto elim: owned_weaken)
  have undo: "triple ?R ?any (andthen (tn_guard ow (on_ce (ce_remove_effective (tc_native T) target))) (\<lambda>_.
      andthen (tn_guard ow (on_ce (ce_register_pending (tc_native T) target rs oid))) (\<lambda>_.
        andthen (tn_guard ow (tn_finalize oid)) (\<lambda>ev. tn_require (Some ev) oid RELEASED)))) ?Q"
    by (rule triple_then [OF remove], simp, rule triple_then [OF register], simp,
        rule triple_then [OF finalize _ released]) (auto elim: owned_weaken)
  show ?thesis unfolding tn_restore_service_def
    by (rule triple_then [OF publish], simp, auto intro: undo committed split: option.split)
qed

lemma restore_body_parked:
  "triple (tn_rely (rc_router C) oid target) (owning oid ow True (keeping target None)) (tn_restore_body C T ow oid target rs)
    (after_res (\<lambda>ev. owning oid ow True (\<lambda>E. e_type ev = RELEASED \<longrightarrow> parked target E = Some rs)) (\<lambda>_. owning oid ow True (\<lambda>_. True)))"
proof -
  let ?R = "tn_rely (rc_router C) oid target" and ?any = "owning oid ow True (\<lambda>_. True)"
  let ?K = "owning oid ow True (keeping target (Some rs))"
  let ?Q = "after_res (\<lambda>ev. owning oid ow True (\<lambda>E. e_type ev = RELEASED \<longrightarrow> parked target E = Some rs)) (\<lambda>_. ?any)"
  have register: "triple ?R (owning oid ow True (keeping target None)) (tn_guard ow (on_ce (ce_register_pending (tc_native T) target rs oid)))
      (after_res (\<lambda>_. ?K) (\<lambda>_. ?any))"
    by (rule owned_ce) (auto simp: ce_effects enrolled_def)
  have boot: "triple ?R ?K (tn_guard ow (tn_bootstrap T target oid)) (after_res (\<lambda>_. ?K) (\<lambda>_. ?K))"
  proof (rule owned_keeps, unfold keeps_def tn_bootstrap_def, rule triple_look, rule triple_caught, rule triple_pre)
    show "triple ?R ?K outside (\<lambda>_. ?K)" by (rule triple_outside) simp
    show "triple ?R ?K (look ro_clock (\<lambda>clock. on_ce (ce_bootstrap_target clock (tc_naive T)
        (tc_validation T) (tc_boot T reply) target oid v))) (\<lambda>_. ?K)" for reply v
      by (auto intro!: triple_look triple_sync simp: on_ce_def owning_def boot_effects enrolled_def)
  qed simp
  have commit: "triple ?R ?K (tn_guard ow (tn_commit_pending T target ev)) (after_res (\<lambda>_. ?any) (\<lambda>_. ?any))" for ev
    by (rule triple_guarded [where X = "keeping target (Some rs)" and Y = "\<lambda>_ _. True"])
      (auto simp: tn_commit_pending_def on_ce_def owning_def intro!: triple_look triple_sync split: sum.split)
  have asleep: "triple ?R ?K (tn_require (Some ev) oid RELEASED) ?Q" for ev
    by (rule require_triple) (auto elim: owned_weaken)
  have ready: "triple ?R ?K (andthen (tn_require (Some ev) oid WEIGHT_READY) (\<lambda>_.
      andthen (tn_guard ow (tn_commit_pending T target ev)) (\<lambda>_. tn_restore_service C T ow oid target rs))) ?Q" for ev
    by (rule triple_then [OF require_triple [where S = "\<lambda>_. ?K" and F = "\<lambda>_. ?any"]], simp, erule owned_weaken, simp, simp,
        rule triple_then [OF commit _ restore_service_parked], simp)
  show ?thesis unfolding tn_restore_body_def
    by (rule triple_then [OF register], simp, rule triple_then [OF boot], simp, erule owned_weaken, simp,
        rule triple_if, rule asleep, rule ready)
qed

lemma restore_lease_parked:
  assumes "oid \<noteq> []"
  shows "triple (tn_rely (rc_router C) oid target) (\<lambda>g. ro_targets g oid = Some target \<and> keeping target p (tn_ce g))
    (with_lease oid GRESTORE (\<lambda>ow. andthen (tn_unpark T ow oid) (\<lambda>(target, replicas).
       rescue (tn_restore_body C T ow oid target replicas) (tn_restore_failed ow oid))))
    (parking oid target p)"
proof (rule lease_triple)
  let ?R = "tn_rely (rc_router C) oid target"
  show "stable ?R (\<lambda>g. ro_targets g oid = Some target \<and> keeping target p (tn_ce g))"
    by (auto simp: stable_def tn_rely_def ro_rely_def enrolled_def)
  fix ow
  have failed: "triple ?R (owning oid ow True (\<lambda>_. True)) (tn_restore_failed ow oid e) (parking oid target p)" for e
    unfolding tn_restore_failed_def
  proof (rule triple_caught [OF keeps_triple [OF keeps_remote [OF owning_stable keeps_quarantine_dormant]]])
    show "triple ?R (owning oid ow True (\<lambda>_. True)) (block_and_raise ow ''RESTORE outcome unknown'' e) (parking oid target p)"
      by (rule triple_weaken [OF triple_block [where P = "\<lambda>_. True" and X = "\<lambda>_. True"]]) (auto simp: parking_def)
  qed simp_all
  have body: "triple ?R (owning oid ow True (keeping target None))
      (rescue (tn_restore_body C T ow oid target rs) (tn_restore_failed ow oid)) (parking oid target p)" if "p = Some rs" for rs
    by (rule triple_try [OF restore_body_parked _ failed]) (auto simp: that parking_def owning_def)
  have "triple ?R (\<lambda>g. owning oid ow True (keeping target p) g \<and> ro_targets g oid = Some target)
      (andthen (tn_unpark T ow oid) (\<lambda>(target, replicas).
         rescue (tn_restore_body C T ow oid target replicas) (tn_restore_failed ow oid))) (parking oid target p)"
    by (rule triple_then [OF unpark_parked [OF assms]], simp add: parking_def) (use body in \<open>auto intro!: triple_some\<close>)
  then show "triple ?R (\<lambda>g. owning oid ow True (\<lambda>_. True) g \<and> ro_targets g oid = Some target \<and> keeping target p (tn_ce g))
      (andthen (tn_unpark T ow oid) (\<lambda>(target, replicas).
         rescue (tn_restore_body C T ow oid target replicas) (tn_restore_failed ow oid))) (parking oid target p)"
    by (rule triple_pre) (simp add: owning_def)
qed (auto simp: gateless_def parking_def split: sum.split)

section \<open>DONATE and REMOVE\<close>

definition removal ::
    "'c tn_config \<Rightarrow> string \<Rightarrow> replica_key \<Rightarrow> replica_kind \<Rightarrow> nat list \<Rightarrow> op_evidence res \<Rightarrow> ('n, 'c, 'z) tn_scheme \<Rightarrow> bool" where
  "removal T oid target kd rs x g \<longleftrightarrow> sees oid target DRAINING kd (Some target) None g \<and>
     (case x of
        Inr ev \<Rightarrow> gate_healthy (tn_gate g) \<and> e_operation_id ev = oid \<and> e_type ev = SERVICE_COMMITTED \<and> unrouted target g
          \<and> member target (tn_ce g) = None \<and> (tc_kind T (hd rs) = Some NATIVE \<longrightarrow> parked target (tn_ce g) = Some rs)
      | Inl e \<Rightarrow> gate_fences oid (tn_gate g) \<or> member target (tn_ce g) = Some rs)"

abbreviation retired :: "replica_key \<Rightarrow> nat list \<Rightarrow> bool \<Rightarrow> 'c ce \<Rightarrow> bool" where
  "retired target rs native E \<equiv> member target E = None \<and> (native \<longrightarrow> parked target E = Some rs)"

lemma removal_release:
  "removal T oid target kd rs x (g\<lparr>tn_gate := snd (gate_release ow (tn_gate g))\<rparr>) = removal T oid target kd rs x g"
  by (simp add: removal_def unrouted_def split: sum.split)

lemma remove_member_triple:
  fixes oid :: string
  defines "V \<equiv> \<lambda>ow X target kd g. owning oid ow True X g \<and> sees oid target DRAINING kd (Some target) None g"
  assumes "oid \<noteq> []"
  shows "triple (tn_rely N oid target) (V ow (\<lambda>E. member target E = Some rs) target kd) (tn_remove_member T ow oid)
    (after_res (\<lambda>(t, qs, k) g. (t = target \<and> qs = rs \<and> tc_kind T (hd rs) = Some k)
        \<and> V ow (\<lambda>E. member target E = None) target kd g)
      (\<lambda>_. V ow (\<lambda>E. member target E = Some rs) target kd))"
proof -
  let ?P = "V ow (\<lambda>E. member target E = Some rs) target kd" and ?D = "V ow (\<lambda>E. member target E = None) target kd"
  let ?Q = "after_res (\<lambda>(t, qs, k). \<lambda>g. (t = target \<and> qs = rs \<and> tc_kind T (hd rs) = Some k) \<and> ?D g) (\<lambda>_. ?P)"
  let ?R = "tn_rely N oid target"
  have drop: "triple ?R ?P (tn_guard ow (on_ce (ce_remove_effective (tc_native T) target))) (after_res (\<lambda>_. ?D) (\<lambda>_. ?P))"
    unfolding V_def by (rule owned_guarded, rule triple_ce) (simp_all add: ce_effects)
  have known: "triple ?R ?P (case tc_kind T (hd rs) of None \<Rightarrow> raise (ValueError ''CE member has unsupported replica kind'')
      | Some kind \<Rightarrow> andthen (tn_guard ow (on_ce (ce_remove_effective (tc_native T) target))) (\<lambda>_. ret (target, rs, kind))) ?Q"
    by (cases "tc_kind T (hd rs)") (auto intro: triple_raise triple_ret intro!: triple_then [OF drop])
  have go: "triple ?R (\<lambda>g. ?P g \<and> map_of (ce_effective (tn_ce g)) target = m)
      (case m of None \<Rightarrow> raise (KeyError ''replica is not an effective CE member'')
       | Some (replicas, _) \<Rightarrow>
           guard_that (card (tc_kind T ` set replicas) = 1) (ValueError ''CE member contains inconsistent replica kinds'')
             (case tc_kind T (hd replicas) of
                None \<Rightarrow> raise (ValueError ''CE member has unsupported replica kind'')
              | Some kind \<Rightarrow> andthen (tn_guard ow (on_ce (ce_remove_effective (tc_native T) target)))
                    (\<lambda>_. ret (target, replicas, kind)))) ?Q" for m
  proof (rule triple_fact [where F = "map_option fst m = Some rs"])
    show "?P g \<and> map_of (ce_effective (tn_ce g)) target = m \<Longrightarrow> map_option fst m = Some rs" for g
      by (auto simp: V_def owning_def member_def)
    assume "map_option fst m = Some rs"
    then show ?thesis
      by (auto simp del: One_nat_def intro!: triple_guard intro: triple_pre [OF known])
  qed
  have stable: "stable ?R ?P" unfolding V_def by simp
  show ?thesis unfolding tn_remove_member_def
    by (rule triple_then [OF tn_target_triple [OF stable _ assms(2)]], simp add: V_def sees_def, simp)
      (use triple_look [OF go] in \<open>auto intro!: triple_some\<close>)
qed

lemma remove_service_triple:
  assumes "oid \<noteq> []" and "tc_kind T (hd rs) = Some k"
  shows "triple (tn_rely (rc_router C) oid target)
    (\<lambda>g. owning oid ow True (\<lambda>E. member target E = None) g \<and> sees oid target DRAINING kd (Some target) None g)
    (tn_remove_service C T ow oid target rs k)
    (after_res (\<lambda>ev g. owning oid ow True (\<lambda>_. True) g \<and> removal T oid target kd rs (Inr ev) g)
      (\<lambda>_ g. owning oid ow True (\<lambda>_. True) g \<and> sees oid target DRAINING kd (Some target) None g))"
proof -
  let ?R = "tn_rely (rc_router C) oid target" and ?V = "sees oid target DRAINING kd (Some target) None"
  let ?X = "retired target rs (k = NATIVE)"
  let ?F = "\<lambda>g. owning oid ow True (\<lambda>_. True) g \<and> ?V g"
  have register: "triple ?R (\<lambda>g. owning oid ow True (\<lambda>E. member target E = None) g \<and> ?V g)
      (if k = NATIVE then tn_guard ow (on_ce (ce_register_pending (tc_native T) target rs oid)) else ret ())
      (after_res (\<lambda>_ g. owning oid ow True ?X g \<and> ?V g) (\<lambda>_. ?F))"
  proof (rule triple_if)
    show "triple ?R (\<lambda>g. owning oid ow True (\<lambda>E. member target E = None) g \<and> ?V g)
      (tn_guard ow (on_ce (ce_register_pending (tc_native T) target rs oid)))
      (after_res (\<lambda>_ g. owning oid ow True ?X g \<and> ?V g) (\<lambda>_. ?F))"
      by (rule triple_post [OF owned_guarded [OF triple_ce [where Y = "\<lambda>_. ?X" and Z = "\<lambda>_. True"]]])
        (auto simp: ce_effects enrolled_def split: sum.splits)
  qed (auto intro: triple_ret simp: owning_def)
  have commit: "triple ?R (\<lambda>g. owning oid ow True ?X g \<and> ?V g) (tn_guard ow (tn_commit_service C oid))
      (after_res (\<lambda>found g. owning oid ow True ?X g \<and> exit_post oid target kd (Inr found) g) (\<lambda>_. ?F))"
    by (rule triple_post [OF owned_guarded [OF tn_exit_triple [OF assms(1)]]]) (auto simp: owning_def split: sum.splits)
  have require: "triple ?R (\<lambda>g. owning oid ow True ?X g \<and> exit_post oid target kd (Inr found) g) (tn_require found oid SERVICE_COMMITTED)
      (after_res (\<lambda>ev g. owning oid ow True (\<lambda>_. True) g \<and> removal T oid target kd rs (Inr ev) g) (\<lambda>_. ?F))" for found
    by (rule require_triple)
      (use assms(2) in \<open>auto simp: removal_def exit_post_def owning_def\<close>)
  show ?thesis unfolding tn_remove_service_def
    by (rule triple_then [OF register], simp, rule triple_then [OF commit _ require]) simp
qed

lemma draining_member:
  "stable (tn_rely N oid target) (\<lambda>g. sees oid target DRAINING kd b pub g \<and> member target (tn_ce g) = m)"
  "gateless (\<lambda>g. sees oid target DRAINING kd b pub g \<and> member target (tn_ce g) = m)"
  by (rule stable_conj [OF tn_stable [OF sees_stable]]) (simp_all add: stable_def tn_rely_def gateless_def)

lemma remove_lease_triple:
  assumes "oid \<noteq> []"
  shows "triple (tn_rely (rc_router C) oid target)
    (\<lambda>g. sees oid target DRAINING kd (Some target) None g \<and> member target (tn_ce g) = Some rs)
    (with_lease oid GREMOVE (\<lambda>ow. andthen (tn_remove_member T ow oid) (\<lambda>(target, replicas, kind).
       rescue (tn_remove_service C T ow oid target replicas kind)
         (block_and_raise ow ''Exit service commit outcome unknown'')))) (removal T oid target kd rs)"
proof (rule lease_triple [OF draining_member])
  let ?R = "tn_rely (rc_router C) oid target" and ?V = "sees oid target DRAINING kd (Some target) None"
  let ?Q = "removal T oid target kd rs"
  fix ow
  have service: "triple ?R (\<lambda>g. owning oid ow True (\<lambda>E. member target E = None) g \<and> ?V g)
      (rescue (tn_remove_service C T ow oid target rs k) (block_and_raise ow ''Exit service commit outcome unknown'')) ?Q"
    if "tc_kind T (hd rs) = Some k" for k
  proof (rule triple_try [OF remove_service_triple [OF assms that]])
    show "triple ?R (\<lambda>g. owning oid ow True (\<lambda>_. True) g \<and> ?V g)
        (block_and_raise ow ''Exit service commit outcome unknown'' e) ?Q" for e
      by (rule triple_post [OF triple_block]) (auto simp: removal_def)
  qed simp
  have "triple ?R (\<lambda>g. owning oid ow True (\<lambda>E. member target E = Some rs) g \<and> ?V g)
      (andthen (tn_remove_member T ow oid) (\<lambda>(target, replicas, kind).
       rescue (tn_remove_service C T ow oid target replicas kind)
         (block_and_raise ow ''Exit service commit outcome unknown''))) ?Q"
    by (rule triple_then [OF remove_member_triple [OF assms]], simp add: removal_def owning_def)
      (use service in \<open>auto intro!: triple_some\<close>)
  then show "triple ?R (\<lambda>g. owning oid ow True (\<lambda>_. True) g \<and> ?V g \<and> member target (tn_ce g) = Some rs)
      (andthen (tn_remove_member T ow oid) (\<lambda>(target, replicas, kind).
       rescue (tn_remove_service C T ow oid target replicas kind)
         (block_and_raise ow ''Exit service commit outcome unknown''))) ?Q"
    by (rule triple_pre) (simp add: owning_def)
qed (simp_all add: removal_release, simp add: removal_def)
section \<open>Reconciling a fenced operation\<close>

lemma reconcile_granted_triple:
  assumes "gateless P"
  shows "triple R P (on_gate (\<lambda>g. case gate_reconcile_granted now oid g of (x, g') \<Rightarrow> (Inr x, g')))
    (after_res (\<lambda>granted g. P g \<and> (granted = None \<longrightarrow> (\<exists>ow. owning oid ow False (\<lambda>_. True) g))) (\<lambda>_ _. False))"
  unfolding on_gate_def
  by (rule triple_sync)
    (use assms in \<open>auto simp: gate_reconcile_granted_def Let_def gateless_def owning_def gate_is_active_def gate_fences_def gate_healthy_def\<close>)

lemma reconcile_end_triple:
  assumes "gateless F" and "\<And>a. gateless (S a)"
  shows "triple R (after_res S (\<lambda>_. F) x) (on_gate (gate_reconcile_end (void x)))
    (after_res (\<lambda>_ g. \<exists>a. x = Inr a \<and> gate_healthy (tn_gate g) \<and> S a g) (\<lambda>_. F))"
  unfolding on_gate_def
  by (rule triple_sync)
    (use assms in \<open>auto simp: gate_reconcile_end_def void_def gate_healthy_def gateless_def split: sum.splits\<close>)

lemma reconcile_gate_triple:
  assumes "stable R P" and "gateless P" and "gateless F" and "\<And>a. gateless (S a)" and "\<And>g. P g \<Longrightarrow> F g"
    and "\<And>ow. triple R (\<lambda>g. owning oid ow False (\<lambda>_. True) g \<and> P g) m (after_res S (\<lambda>_. F))"
  shows "triple R P (tn_reconcile oid m)
    (after_res (\<lambda>found g. case found of Some a \<Rightarrow> gate_healthy (tn_gate g) \<and> S a g | None \<Rightarrow> F g) (\<lambda>_. F))"
    (is "triple R P _ ?Q")
  unfolding tn_reconcile_def
proof (rule triple_look)
  fix entry
  have close: "triple R (after_res S (\<lambda>_. F) x) (andthen (on_gate (gate_reconcile_end (void x)))
      (\<lambda>_. andthen (lift_res x) (\<lambda>a. ret (Some a)))) ?Q" for x
    by (rule triple_then [OF reconcile_end_triple [OF assms(3,4)]], simp, rule triple_ex, rule triple_some)
      (auto simp: lift_res_def andthen_def ret_def triple_def)
  have run: "triple R (\<lambda>g. P g \<and> (\<exists>ow. owning oid ow False (\<lambda>_. True) g))
      (caught m (\<lambda>x. andthen (on_gate (gate_reconcile_end (void x))) (\<lambda>_. andthen (lift_res x) (\<lambda>a. ret (Some a))))) ?Q"
  proof (rule triple_caught [OF _ close])
    have "triple R (\<lambda>g. \<exists>ow. owning oid ow False (\<lambda>_. True) g \<and> P g) m (after_res S (\<lambda>_. F))"
      by (rule triple_ex) (rule assms(6))
    then show "triple R (\<lambda>g. P g \<and> (\<exists>ow. owning oid ow False (\<lambda>_. True) g)) m (after_res S (\<lambda>_. F))"
      by (rule triple_pre) blast
  qed
  have granted: "triple R (\<lambda>g. P g \<and> (x = None \<longrightarrow> (\<exists>ow. owning oid ow False (\<lambda>_. True) g)))
      (case x of Some (Inl e) \<Rightarrow> raise e | Some (Inr _) \<Rightarrow> ret None
       | None \<Rightarrow> caught m (\<lambda>x. andthen (on_gate (gate_reconcile_end (void x))) (\<lambda>_. andthen (lift_res x) (\<lambda>a. ret (Some a))))) ?Q"
    for x :: "bool res option"
    using run assms(5) by (cases x) (auto intro: triple_raise triple_ret split: sum.split)
  have locked: "triple R (\<lambda>g. P g \<and> \<not> g_locked (tn_gate g)) (\<lambda>r. andthen
      (on_gate (\<lambda>g. case gate_reconcile_granted (r_time r) oid g of (x, g') \<Rightarrow> (Inr x, g')))
      (\<lambda>x. case x of Some (Inl e) \<Rightarrow> raise e | Some (Inr _) \<Rightarrow> ret None
       | None \<Rightarrow> caught m (\<lambda>x. andthen (on_gate (gate_reconcile_end (void x))) (\<lambda>_. andthen (lift_res x) (\<lambda>a. ret (Some a))))) r) ?Q"
    by (rule triple_at, rule triple_pre [OF triple_then [OF reconcile_granted_triple [OF assms(2)] _ granted]]) simp_all
  show "triple R (\<lambda>g. P g \<and> gate_reconcile_entry oid (tn_gate g) = entry)
    (case entry of Some (Inl e) \<Rightarrow> raise e | Some (Inr _) \<Rightarrow> ret None
     | None \<Rightarrow> andthen tn_wait_lock (\<lambda>_ r. andthen
        (on_gate (\<lambda>g. case gate_reconcile_granted (r_time r) oid g of (x, g') \<Rightarrow> (Inr x, g')))
        (\<lambda>x. case x of Some (Inl e) \<Rightarrow> raise e | Some (Inr _) \<Rightarrow> ret None
         | None \<Rightarrow> caught m (\<lambda>x. andthen (on_gate (gate_reconcile_end (void x))) (\<lambda>_. andthen (lift_res x) (\<lambda>a. ret (Some a))))) r)) ?Q"
  proof (cases entry)
    case None
    have "triple R P (andthen tn_wait_lock (\<lambda>_ r. andthen
        (on_gate (\<lambda>g. case gate_reconcile_granted (r_time r) oid g of (x, g') \<Rightarrow> (Inr x, g')))
        (\<lambda>x. case x of Some (Inl e) \<Rightarrow> raise e | Some (Inr _) \<Rightarrow> ret None
         | None \<Rightarrow> caught m (\<lambda>x. andthen (on_gate (gate_reconcile_end (void x))) (\<lambda>_. andthen (lift_res x) (\<lambda>a. ret (Some a))))) r)) ?Q"
      by (rule triple_then [OF wait_lock_triple [OF assms(1)] _ locked]) (simp add: assms(5))
    with None show ?thesis by (auto intro: triple_pre)
  qed (use assms(5) in \<open>auto intro: triple_raise triple_ret split: sum.split\<close>)
qed

text \<open>Settling a publication: what R holds decides, and E and M follow.\<close>

abbreviation published_out ::
    "string \<Rightarrow> replica_key \<Rightarrow> replica_kind \<Rightarrow> op_evidence option res \<Rightarrow> ('n, 'c, 'z) tn_scheme \<Rightarrow> bool" where
  "published_out oid target kd \<equiv> after_res
     (\<lambda>found g. case found of Some ev \<Rightarrow> gate_healthy (tn_gate g) \<and> opened oid target kd ev g | None \<Rightarrow> receiving oid target g)
     (\<lambda>_. receiving oid target)"

lemma settle_publish_triple:
  assumes "oid \<noteq> []"
  shows "triple (tn_rely (rc_router C) oid target)
    (\<lambda>g. owning oid ow False (enrolled target) g \<and> sees oid target ACTIVE kd (Some target) pub g)
    (tn_settle_publish C T oid target replicas native) (after_res (opened oid target kd) (\<lambda>_. receiving oid target))"
  unfolding tn_settle_publish_def
proof (rule triple_then [OF tn_publish_triple [OF assms]])
  let ?R = "tn_rely (rc_router C) oid target" and ?Q = "after_res (opened oid target kd) (\<lambda>_. receiving oid target)"
  let ?D = "\<lambda>g. owning oid ow False (\<lambda>E. \<not> enrolled target E) g \<and> sees oid target DRAINING kd (Some target) None g"
  have in_E: "receiving oid target g" if "owning oid ow False (enrolled target) g" for g
    using that by (simp add: owning_def receiving_def)
  have out_E: "receiving oid target g" if "?D g" for g
    using that by (simp add: receiving_def sees_def)
  show "?Q (Inl e) g" if "owning oid ow False (enrolled target) g \<and> True" for e g using that in_E by simp
  have park: "triple ?R ?D (if native then on_ce (ce_register_pending (tc_native T) target replicas oid) else ret ())
      (after_res (\<lambda>_. ?D) (\<lambda>_. ?D))"
    by (rule triple_if, rule ce_step_triple, simp add: enrolled_def ce_effects) (auto intro: triple_ret)
  have release: "triple ?R ?D (andthen (tn_finalize oid) (\<lambda>ev. tn_require (Some ev) oid RELEASED)) ?Q"
    by (rule triple_then [OF tn_released [OF assms] _ require_triple]) (auto simp: opened_def receiving_def)
  let ?take = "andthen (on_ce (ce_remove_effective (tc_native T) target)) (\<lambda>_. andthen
     (if native then on_ce (ce_register_pending (tc_native T) target replicas oid) else ret ())
     (\<lambda>_. andthen (tn_finalize oid) (\<lambda>ev. tn_require (Some ev) oid RELEASED)))"
  have take: "triple ?R (\<lambda>g. owning oid ow False (enrolled target) g \<and> sees oid target DRAINING kd (Some target) None g) ?take ?Q"
    by (rule triple_then [OF remove_triple], simp add: in_E, rule triple_then [OF park _ release]) (simp add: out_E)
  have found: "triple ?R (\<lambda>g. owning oid ow False (enrolled target) g \<and> confirmed_by oid target ACTIVE kd None (Some ev) g)
      (if e_type ev = RELEASED then andthen (on_ce (ce_remove_effective (tc_native T) target)) (\<lambda>_. tn_require (Some ev) oid RELEASED)
       else tn_require (Some ev) oid SERVICE_COMMITTED) ?Q" for ev
    by (rule triple_fact [where F = "e_type ev = SERVICE_COMMITTED"], simp add: confirmed_by_def)
      (auto intro!: require_triple simp: opened_def owning_def receiving_def)
  show "triple ?R (\<lambda>g. owning oid ow False (enrolled target) g \<and> (case x of
        Some ev \<Rightarrow> confirmed_by oid target ACTIVE kd None (Some ev) g
      | None \<Rightarrow> sees oid target DRAINING kd (Some target) None g))
    (case x of None \<Rightarrow> ?take
     | Some ev \<Rightarrow> if e_type ev = RELEASED
         then andthen (on_ce (ce_remove_effective (tc_native T) target)) (\<lambda>_. tn_require (Some ev) oid RELEASED)
         else tn_require (Some ev) oid SERVICE_COMMITTED) ?Q" for x
  proof (cases x)
    case None
    with take show ?thesis by simp
  next
    case (Some ev)
    with found [of ev] show ?thesis by simp
  qed
qed simp

abbreviation uncertain :: "string \<Rightarrow> replica_key \<Rightarrow> replica_kind \<Rightarrow> ('n, 'c, 'z) tn_scheme \<Rightarrow> bool" where
  "uncertain oid target kd g \<equiv> sees oid target ACTIVE kd (Some target) (published_as oid g) g \<and> enrolled target (tn_ce g)"

lemma uncertain_stable [simp]: "stable (tn_rely N oid target) (uncertain oid target kd)" "gateless (uncertain oid target kd)"
  by (auto simp: stable_def tn_rely_def enrolled_def ro_rely_def sees_def gateless_def published_as_def)

lemma uncertain_receiving: "uncertain oid target kd g \<Longrightarrow> receiving oid target g"
  by (simp add: receiving_def)

lemma reconcile_publish_triple:
  assumes "oid \<noteq> []"
  shows "triple (tn_rely (rc_router C) oid target) (uncertain oid target kd) (tn_reconcile_publish C T oid native)
    (published_out oid target kd)"
proof -
  let ?R = "tn_rely (rc_router C) oid target" and ?U = "uncertain oid target kd"
  have settle: "triple ?R (\<lambda>g. owning oid ow False (\<lambda>_. True) g \<and> ?U g) (tn_settle_publish C T oid target rs native)
      (after_res (opened oid target kd) (\<lambda>_. receiving oid target))" for ow rs
  proof -
    have "triple ?R (\<lambda>g. \<exists>pub. owning oid ow False (enrolled target) g \<and> sees oid target ACTIVE kd (Some target) pub g)
      (tn_settle_publish C T oid target rs native) (after_res (opened oid target kd) (\<lambda>_. receiving oid target))"
      by (rule triple_ex) (rule settle_publish_triple [OF assms])
    then show ?thesis by (rule triple_pre) (auto simp: owning_def)
  qed
  let ?settle = "\<lambda>rs. tn_reconcile oid (tn_settle_publish C T oid target rs native)"
  let ?none = "RuntimeError ''publication reconciliation returned no evidence''"
  let ?one = "\<lambda>rs. andthen (?settle rs) (\<lambda>evidence. case evidence of None \<Rightarrow> raise ?none | Some ev \<Rightarrow> ret (Some ev))"
  have gate: "triple ?R ?U (?settle rs) (published_out oid target kd)" for rs
    by (rule reconcile_gate_triple [OF uncertain_stable _ _ uncertain_receiving [where kd = kd] settle]) simp_all
  have one: "triple ?R ?U (?one rs) (published_out oid target kd)" for rs
    by (rule triple_then [OF gate]) (auto intro: triple_raise triple_ret split: option.split)
  have member: "triple ?R (\<lambda>g. ?U g \<and> map_of (ce_effective (tn_ce g)) target = m)
      (case m of None \<Rightarrow> ret None | Some (replicas, _) \<Rightarrow> ?one replicas) (published_out oid target kd)" for m
  proof (cases m)
    case (Some p)
    then obtain rs v where "m = Some (rs, v)" by (cases p) simp
    moreover have "triple ?R (\<lambda>g. ?U g \<and> map_of (ce_effective (tn_ce g)) target = m) (?one rs) (published_out oid target kd)"
      by (rule triple_pre [OF one]) simp
    ultimately show ?thesis by simp
  next
    case None
    have "triple ?R (\<lambda>g. ?U g \<and> map_of (ce_effective (tn_ce g)) target = m) (ret None) (published_out oid target kd)"
      by (rule triple_ret) (simp add: receiving_def)
    with None show ?thesis by simp
  qed
  have target: "triple ?R ?U (andthen (tn_target oid) (\<lambda>target. look (\<lambda>g. map_of (ce_effective (tn_ce g)) target)
      (\<lambda>m. case m of None \<Rightarrow> ret None | Some (replicas, _) \<Rightarrow> andthen
         (tn_reconcile oid (tn_settle_publish C T oid target replicas native))
         (\<lambda>evidence. case evidence of None \<Rightarrow> raise ?none | Some ev \<Rightarrow> ret (Some ev))))) (published_out oid target kd)"
    by (rule triple_then [OF tn_target_triple [OF uncertain_stable(1) _ assms]], simp add: sees_def,
        simp add: uncertain_receiving [where kd = kd]) (use triple_look [OF member] in \<open>auto intro!: triple_some\<close>)
  show ?thesis unfolding tn_reconcile_publish_def
    by (rule triple_look, rule triple_if, rule triple_ret, simp add: uncertain_receiving [where kd = kd], rule triple_pre [OF target]) simp
qed
text \<open>
  The Rollouter withdrew the publication and the trainer did not hear of it: the replica is DRAINING while
  the trainer still counts it as a receiver. Settling it commits an exit.
\<close>

abbreviation withdrawn :: "string \<Rightarrow> replica_key \<Rightarrow> replica_kind \<Rightarrow> ('n, 'c, 'z) tn_scheme \<Rightarrow> bool" where
  "withdrawn oid target kd g \<equiv> sees oid target DRAINING kd (Some target) None g \<and> enrolled target (tn_ce g)"

abbreviation misreported :: "string \<Rightarrow> replica_key \<Rightarrow> replica_kind \<Rightarrow> op_evidence \<Rightarrow> ('n, 'c, 'z) tn_scheme \<Rightarrow> bool" where
  "misreported oid target kd ev g \<equiv> e_operation_id ev = oid \<and> e_type ev = SERVICE_COMMITTED \<and> unrouted target g \<and> withdrawn oid target kd g"

lemma withdrawn_stable [simp]: "stable (tn_rely N oid target) (withdrawn oid target kd)" "gateless (withdrawn oid target kd)"
  "gateless (misreported oid target kd ev)"
  by (auto intro: tn_stable simp: stable_def tn_rely_def enrolled_def ro_rely_def sees_def gateless_def published_as_def unrouted_def)

lemma withdrawn_settle:
  assumes "oid \<noteq> []"
  shows "triple (tn_rely (rc_router C) oid target) (\<lambda>g. owning oid ow False (\<lambda>_. True) g \<and> withdrawn oid target kd g)
    (tn_settle_publish C T oid target rs native) (after_res (misreported oid target kd) (\<lambda>_. withdrawn oid target kd))"
proof -
  let ?R = "tn_rely (rc_router C) oid target" and ?Q = "after_res (misreported oid target kd) (\<lambda>_. withdrawn oid target kd)"
  let ?take = "andthen (on_ce (ce_remove_effective (tc_native T) target)) (\<lambda>_.
     andthen (if native then on_ce (ce_register_pending (tc_native T) target rs oid) else ret ())
       (\<lambda>_. andthen (tn_finalize oid) (\<lambda>ev. tn_require (Some ev) oid RELEASED)))"
  have commit: "triple ?R (\<lambda>g. owning oid ow False (\<lambda>_. True) g \<and> withdrawn oid target kd g) (tn_commit_service C oid)
      (after_res (\<lambda>found g. case found of Some ev \<Rightarrow> misreported oid target kd ev g | None \<Rightarrow> False) (\<lambda>_. withdrawn oid target kd))"
    by (rule triple_weaken [OF tn_exit_triple [OF assms, where X = "enrolled target" and ow = ow and ok = False]])
      (auto simp: owning_def exit_post_def split: sum.splits option.splits)
  have found: "triple ?R (\<lambda>g. case found of Some ev \<Rightarrow> misreported oid target kd ev g | None \<Rightarrow> False)
      (case found of None \<Rightarrow> ?take
       | Some ev \<Rightarrow> if e_type ev = RELEASED
           then andthen (on_ce (ce_remove_effective (tc_native T) target)) (\<lambda>_. tn_require (Some ev) oid RELEASED)
           else tn_require (Some ev) oid SERVICE_COMMITTED) ?Q" for found
  proof (cases found)
    case (Some ev)
    have "triple ?R (misreported oid target kd ev)
        (if e_type ev = RELEASED
         then andthen (on_ce (ce_remove_effective (tc_native T) target)) (\<lambda>_. tn_require (Some ev) oid RELEASED)
         else tn_require (Some ev) oid SERVICE_COMMITTED) ?Q"
      by (rule triple_fact [where F = "e_type ev = SERVICE_COMMITTED"]) (auto intro!: require_triple)
    with Some show ?thesis by simp
  qed (simp add: triple_def)
  show ?thesis unfolding tn_settle_publish_def by (rule triple_then [OF commit _ found]) simp
qed

lemma withdrawn_triple:
  assumes "oid \<noteq> []"
  shows "triple (tn_rely (rc_router C) oid target) (\<lambda>g. gate_fences oid (tn_gate g) \<and> withdrawn oid target kd g)
    (tn_reconcile_publish C T oid native)
    (after_res (\<lambda>found g. \<exists>ev. found = Some ev \<and> gate_healthy (tn_gate g) \<and> misreported oid target kd ev g) (\<lambda>_. withdrawn oid target kd))"
proof -
  let ?R = "tn_rely (rc_router C) oid target" and ?W = "withdrawn oid target kd"
  let ?Q = "after_res (\<lambda>found g. \<exists>ev. found = Some ev \<and> gate_healthy (tn_gate g) \<and> misreported oid target kd ev g) (\<lambda>_. ?W)"
  let ?none = "RuntimeError ''publication reconciliation returned no evidence''"
  let ?one = "\<lambda>rs. andthen (tn_reconcile oid (tn_settle_publish C T oid target rs native))
     (\<lambda>evidence. case evidence of None \<Rightarrow> raise ?none | Some ev \<Rightarrow> ret (Some ev))"
  have gate: "triple ?R ?W (tn_reconcile oid (tn_settle_publish C T oid target rs native))
      (after_res (\<lambda>found g. case found of Some ev \<Rightarrow> gate_healthy (tn_gate g) \<and> misreported oid target kd ev g | None \<Rightarrow> ?W g) (\<lambda>_. ?W))" for rs
    by (rule reconcile_gate_triple [OF withdrawn_stable(1,2,2,3) _ withdrawn_settle [OF assms]])
  have one: "triple ?R ?W (?one rs) ?Q" for rs
    by (rule triple_then [OF gate]) (auto intro: triple_raise triple_ret split: option.split)
  have member: "triple ?R (\<lambda>g. ?W g \<and> map_of (ce_effective (tn_ce g)) target = m)
      (case m of None \<Rightarrow> ret None | Some (replicas, _) \<Rightarrow> ?one replicas) ?Q" for m
  proof (cases m)
    case (Some p)
    then obtain rs v where "m = Some (rs, v)" by (cases p) simp
    moreover have "triple ?R (\<lambda>g. ?W g \<and> map_of (ce_effective (tn_ce g)) target = m) (?one rs) ?Q"
      by (rule triple_pre [OF one]) simp
    ultimately show ?thesis by simp
  next
    case None
    then show ?thesis by (auto simp: triple_def enrolled_def member_def)
  qed
  have target: "triple ?R ?W (andthen (tn_target oid) (\<lambda>target. look (\<lambda>g. map_of (ce_effective (tn_ce g)) target)
      (\<lambda>m. case m of None \<Rightarrow> ret None | Some (replicas, _) \<Rightarrow> andthen
         (tn_reconcile oid (tn_settle_publish C T oid target replicas native))
         (\<lambda>evidence. case evidence of None \<Rightarrow> raise ?none | Some ev \<Rightarrow> ret (Some ev))))) ?Q"
    by (rule triple_then [OF tn_target_triple [OF withdrawn_stable(1) _ assms]], simp add: sees_def, simp)
      (use triple_look [OF member] in \<open>auto intro!: triple_some\<close>)
  show ?thesis unfolding tn_reconcile_publish_def
  proof (rule triple_look)
    fix fenced
    show "triple ?R (\<lambda>g. (gate_fences oid (tn_gate g) \<and> ?W g) \<and> gate_fences oid (tn_gate g) = fenced) (if \<not> fenced then ret None else
        andthen (tn_target oid) (\<lambda>target. look (\<lambda>g. map_of (ce_effective (tn_ce g)) target)
          (\<lambda>m. case m of None \<Rightarrow> ret None | Some (replicas, _) \<Rightarrow> andthen
             (tn_reconcile oid (tn_settle_publish C T oid target replicas native))
             (\<lambda>evidence. case evidence of None \<Rightarrow> raise ?none | Some ev \<Rightarrow> ret (Some ev))))) ?Q"
      by (rule triple_fact [where F = fenced]) (auto intro: triple_pre [OF target])
  qed
qed

text \<open>Settling an exit repeats the commit of R and M, which is idempotent.\<close>

lemma reconcile_exit_triple:
  assumes "oid \<noteq> []"
  shows "triple (tn_rely (rc_router C) oid target) (sees oid target DRAINING kd (Some target) None) (tn_reconcile_exit C T oid)
    (after_res (\<lambda>found g. case found of Some ev \<Rightarrow> gate_healthy (tn_gate g) \<and> exit_post oid target kd (Inr (Some ev)) g
         | None \<Rightarrow> sees oid target DRAINING kd (Some target) None g)
       (\<lambda>_. sees oid target DRAINING kd (Some target) None))" (is "triple ?R ?V _ ?Q")
proof -
  let ?S = "\<lambda>ev. exit_post oid target kd (Inr (Some ev))"
  have V: "stable ?R ?V" by (rule tn_stable) simp
  have commit: "triple ?R (\<lambda>g. owning oid ow False (\<lambda>_. True) g \<and> ?V g)
      (andthen (tn_commit_service C oid) (\<lambda>found. tn_require found oid SERVICE_COMMITTED)) (after_res ?S (\<lambda>_. ?V))" for ow
    by (rule triple_then [OF tn_exit_triple [OF assms] _ require_triple]) (auto simp: exit_post_def split: option.splits)
  have "gateless (?S ev :: ('a, 'd, 'e) tn_scheme \<Rightarrow> bool)" for ev
    by (simp add: gateless_def exit_post_def unrouted_def)
  note gate = reconcile_gate_triple [OF V _ _ _ _ commit]
  have once: "triple ?R ?V (tn_reconcile oid (andthen (tn_commit_service C oid) (\<lambda>found. tn_require found oid SERVICE_COMMITTED))) ?Q"
    by (rule gate) (simp_all add: gateless_def exit_post_def unrouted_def)
  have go: "triple ?R (\<lambda>g. ?V g \<and> map_of (ce_effective (tn_ce g)) target = m) (if m \<noteq> None then ret None else andthen
      (tn_reconcile oid (andthen (tn_commit_service C oid) (\<lambda>found. tn_require found oid SERVICE_COMMITTED)))
      (\<lambda>evidence. case evidence of None \<Rightarrow> raise (RuntimeError ''exit reconciliation returned no evidence'') | Some ev \<Rightarrow> ret (Some ev))) ?Q" for m
    by (rule triple_if, rule triple_ret, simp, rule triple_then [OF triple_pre [OF once]], simp, simp)
      (auto intro: triple_raise triple_ret split: option.split)
  show ?thesis unfolding tn_reconcile_exit_def
    by (rule triple_guard, simp, rule triple_look, rule triple_if, rule triple_ret, simp,
        rule triple_then [OF triple_pre [OF tn_target_triple [OF V _ assms]]], simp add: sees_def, simp, simp)
      (use triple_look [OF go] in \<open>auto intro!: triple_some\<close>)
qed

section \<open>Native synchronisation\<close>

definition gate_rely :: "string \<Rightarrow> ('n, 'c, 'z) tn_scheme \<Rightarrow> ('n, 'c, 'z) tn_scheme \<Rightarrow> bool" where
  "gate_rely label g g' \<longleftrightarrow> (\<forall>ow. o_operation_id ow = label \<longrightarrow> gate_is_active ow (tn_gate g) \<longrightarrow>
     tn_gate g' = tn_gate g \<and> tn_ce g' = tn_ce g)"

lemma gate_stable [simp]: "stable (gate_rely label) (owning label ow ok X)"
  by (auto simp: stable_def owning_def gate_rely_def)

definition synced :: "('n, 'c, 'z) tn_scheme \<Rightarrow> bool" where
  "synced g \<longleftrightarrow> (\<forall>(key, rs, version) \<in> set (ce_effective (tn_ce g)). tn_version g = PInt version)"

lemma mark_triple:
  "triple R (owning label ow True (\<lambda>E'. E' = E)) (look tn_version (\<lambda>version. andthen (tn_guard ow (on_ce (ce_mark_all version))) (\<lambda>_. ret v)))
    (after_res (\<lambda>_ g. owning label ow True (\<lambda>_. True) g \<and> synced g) (\<lambda>_. owning label ow True (\<lambda>E'. E' = E)))"
proof (rule triple_look)
  fix version
  have mark: "triple R (\<lambda>g. owning label ow True (\<lambda>E'. E' = E) g \<and> tn_version g = version) (on_ce (ce_mark_all version))
      (after_res (\<lambda>_ g. owning label ow True (\<lambda>_. True) g \<and> synced g) (\<lambda>_. owning label ow True (\<lambda>E'. E' = E)))"
    unfolding on_ce_def
    by (rule triple_sync) (auto simp: ce_mark_all_def owning_def synced_def is_nonneg_int_iff)
  have "triple R (\<lambda>g. owning label ow True (\<lambda>E'. E' = E) g \<and> tn_version g = version) (tn_guard ow (on_ce (ce_mark_all version)))
      (after_res (\<lambda>_ g. owning label ow True (\<lambda>_. True) g \<and> synced g) (\<lambda>_. owning label ow True (\<lambda>E'. E' = E)))"
    by (rule triple_guarded [OF mark]) blast+
  then show "triple R (\<lambda>g. owning label ow True (\<lambda>E'. E' = E) g \<and> tn_version g = version)
      (andthen (tn_guard ow (on_ce (ce_mark_all version))) (\<lambda>_. ret v))
      (after_res (\<lambda>_ g. owning label ow True (\<lambda>_. True) g \<and> synced g) (\<lambda>_. owning label ow True (\<lambda>E'. E' = E)))"
    by (rule triple_then) (auto intro: triple_ret)
qed

lemma guarded_keeps:
  assumes "keeps (gate_rely label) (owning label ow True X) m"
  shows "keeps (gate_rely label) (owning label ow True X) (tn_guard ow m)"
  unfolding keeps_def triple_same [symmetric]
  by (rule triple_guarded [OF assms [unfolded keeps_def, folded triple_same]])

lemma check_sync_keeps: "keeps (gate_rely label) (owning label ow True X) (tn_check_sync T ow)"
  unfolding tn_check_sync_def tn_validate_def
  by (auto intro!: guarded_keeps keeps_outside)

lemma sync_body_triple:
  "triple (gate_rely label) (owning label ow True (\<lambda>E'. E' = E)) (tn_sync_body T ow)
    (after_res (\<lambda>v g. owning label ow True (\<lambda>E'. v = PNone \<or> \<not> tc_manager T \<longrightarrow> E' = E) g
        \<and> (v \<noteq> PNone \<and> tc_manager T \<longrightarrow> synced g))
      (\<lambda>_. owning label ow True (\<lambda>E'. E' = E)))" (is "triple ?R ?P _ ?Q")
proof -
  have native: "triple ?R ?P (tn_guard ow outside) (after_res (\<lambda>_. ?P) (\<lambda>_. ?P))"
    unfolding triple_same by (rule keeps_triple [OF guarded_keeps [OF keeps_outside]]) simp
  have check: "triple ?R ?P (if tc_validation T then tn_check_sync T ow else ret ()) (after_res (\<lambda>_. ?P) (\<lambda>_. ?P))"
    unfolding triple_same using keeps_triple [OF check_sync_keeps] by (auto intro: triple_ret)
  have mark: "triple ?R ?P (look tn_version (\<lambda>version. andthen (tn_guard ow (on_ce (ce_mark_all version))) (\<lambda>_. ret v))) ?Q"
    if "v \<noteq> PNone" "tc_manager T" for v
  proof -
    have "triple ?R ?P (look tn_version (\<lambda>version. andthen (tn_guard ow (on_ce (ce_mark_all version))) (\<lambda>_. ret v)))
        (\<lambda>x g. after_res (\<lambda>_ g. owning label ow True (\<lambda>_. True) g \<and> synced g) (\<lambda>_. ?P) x g \<and> x \<in> range Inl \<union> {Inr v})"
      using mark_triple [of ?R label ow E v] unfolding triple_def
      by (auto simp: look_def andthen_def ret_def split: prod.splits sum.splits)
    then show ?thesis by (rule triple_post) (use that in \<open>auto simp: owning_def\<close>)
  qed
  have rest: "triple ?R ?P (if v = PNone \<or> \<not> tc_manager T then ret v
      else andthen (if tc_validation T then tn_check_sync T ow else ret ())
        (\<lambda>_. look tn_version (\<lambda>version. andthen (tn_guard ow (on_ce (ce_mark_all version))) (\<lambda>_. ret v)))) ?Q" for v
    by (rule triple_if, rule triple_ret, force, rule triple_then [OF check], simp, rule mark) auto
  show ?thesis unfolding tn_sync_body_def by (rule triple_then [OF native _ rest]) simp
qed

end
