(* ===== verification/Trainer_Properties.thy ===== *)
theory Trainer_Properties
  imports Trainer_Safety
begin

text \<open>
  The properties of the trainer's operations, read off the assertions of \<open>Trainer_Safety\<close>, their
  concrete runs, and one run that shows a defect: retrying an ADD whose publication was withdrawn.
\<close>

section \<open>Properties\<close>

lemma not_fenced: "\<not> gate_fences oid (tn_gate (r_now r)) \<Longrightarrow> tn_reconcile_publish C T oid native r = (Inr None, r)"
  by (simp add: tn_reconcile_publish_def look_def ret_def)

lemma opened_iff:
  "opened oid target kd ev g \<longleftrightarrow> e_operation_id ev = oid \<and>
     (e_type ev = SERVICE_COMMITTED \<and> m_state (ro_mgr g) target = Some ACTIVE \<and> m_kind (ro_mgr g) target = Some kd
        \<and> ro_targets g oid = None \<and> (\<exists>key sid. published_as oid g = Some (key, sid, ev)) \<and> enrolled target (tn_ce g)
      \<or> e_type ev = RELEASED \<and> m_state (ro_mgr g) target = Some (if kd = NATIVE then DORMANT else RELEASED_STATE)
        \<and> published_as oid g = None \<and> \<not> enrolled target (tn_ce g))"
  by (auto simp: opened_def confirmed_by_def sees_def)



text \<open>
  C13: DONATE and REMOVE take the replica out of the weight membership before its route goes: success
  means that it has no route and is no receiver, and that a native one is parked for its return; an
  exception leaves the membership as it was or the gate BLOCKED by this operation; the replica stays
  DRAINING and bound in every case.
\<close>

theorem tn_remove_sound:
  assumes "obeys (tn_rely (rc_router C) oid target) r" and "oid \<noteq> []"
    and "m_state (ro_mgr (r_now r)) target = Some DRAINING" and "m_kind (ro_mgr (r_now r)) target = Some kd"
    and "ro_targets (r_now r) oid = Some target" and "published_as oid (r_now r) = None"
    and "member target (tn_ce (r_now r)) = Some rs" and "tn_remove C T oid r = (x, r')"
  shows "m_state (ro_mgr (r_now r')) target = Some DRAINING \<and> ro_targets (r_now r') oid = Some target
    \<and> (case x of
         Inr ev \<Rightarrow> e_operation_id ev = oid \<and> e_type ev = SERVICE_COMMITTED \<and> gate_healthy (tn_gate (r_now r'))
           \<and> map_of (lb_routes (ro_lb (r_now r'))) target = None \<and> member target (tn_ce (r_now r')) = None
           \<and> (tc_kind T (hd rs) = Some NATIVE \<longrightarrow> parked target (tn_ce (r_now r')) = Some rs)
       | Inl e \<Rightarrow> gate_fences oid (tn_gate (r_now r')) \<or> member target (tn_ce (r_now r')) = Some rs)"
proof -
  have v: "sees oid target DRAINING kd (Some target) None (r_now r) \<and> member target (tn_ce (r_now r)) = Some rs"
    using assms(3-7) by (simp add: sees_def)
  have "removal T oid target kd rs x (r_now r')"
  proof (cases "tc_ready T")
    case True
    with assms(8) have "with_lease oid GREMOVE (\<lambda>ow. andthen (tn_remove_member T ow oid) (\<lambda>(target, replicas, kind).
       rescue (tn_remove_service C T ow oid target replicas kind)
         (block_and_raise ow ''Exit service commit outcome unknown''))) r = (x, r')"
      by (simp add: tn_remove_def guard_that_def)
    from tripleD(1) [OF remove_lease_triple [OF assms(2)] assms(1) v this] show ?thesis .
  next
    case False
    then have "\<exists>e. x = Inl e" "r' = r" using assms(8) by (auto simp: tn_remove_def guard_that_def raise_def)
    with v show ?thesis by (auto simp: removal_def)
  qed
  then show ?thesis by (auto simp: removal_def sees_def unrouted_def split: sum.splits)
qed

text \<open>
  Reconciling a BLOCKED publication of a replica that is still ACTIVE ends with what the load
  balancer holds: evidence clears the gate and states where the replica is (published and a receiver,
  or released and neither), and no outcome leaves a published replica outside the membership.
\<close>

theorem tn_publish_reconciled:
  assumes "obeys (tn_rely (rc_router C) oid target) r" and "oid \<noteq> []"
    and "m_state (ro_mgr (r_now r)) target = Some ACTIVE" and "m_kind (ro_mgr (r_now r)) target = Some kd"
    and "ro_targets (r_now r) oid = Some target" and "enrolled target (tn_ce (r_now r))"
    and "tn_reconcile_publish C T oid native r = (x, r')"
  shows "(published_as oid (r_now r') \<noteq> None \<longrightarrow> enrolled target (tn_ce (r_now r')))
    \<and> (case x of
         Inr (Some ev) \<Rightarrow> e_operation_id ev = oid \<and> gate_healthy (tn_gate (r_now r'))
           \<and> (e_type ev = SERVICE_COMMITTED \<and> m_state (ro_mgr (r_now r')) target = Some ACTIVE
                \<and> (\<exists>key sid. published_as oid (r_now r') = Some (key, sid, ev)) \<and> enrolled target (tn_ce (r_now r'))
              \<or> e_type ev = RELEASED \<and> m_state (ro_mgr (r_now r')) target = Some (if kd = NATIVE then DORMANT else RELEASED_STATE)
                \<and> published_as oid (r_now r') = None \<and> \<not> enrolled target (tn_ce (r_now r')))
       | _ \<Rightarrow> True)"
proof -
  have "uncertain oid target kd (r_now r)" using assms(3-6) by (simp add: sees_def)
  from tripleD(1) [OF reconcile_publish_triple [OF assms(2)] assms(1) this assms(7)] show ?thesis
    by (auto simp: opened_iff receiving_def split: sum.splits option.splits)
qed

text \<open>
  C37: A native weight synchronization that is refused the gate raises and does nothing else. One that got it
  ends in one of three ways: it marks every effective receiver with the published version; or the native
  synchronization reported that it had nothing to do, or there is no checkpoint manager, and it leaves the
  membership alone; in both the gate is healthy. Or it raises, and then the membership claims no new
  version and the gate stays BLOCKED by it.
\<close>

theorem tn_sync_fails_closed:
  assumes "obeys (gate_rely label) r" and "tn_acquire label NATIVE_SYNC r = (grant, r1)"
    and "tn_sync T True label r = (x, r')"
  shows "case grant of
      Inl e \<Rightarrow> x = Inl e \<and> r' = r1
    | Inr _ \<Rightarrow> (case x of
          Inr v \<Rightarrow> gate_healthy (tn_gate (r_now r')) \<and>
            (if v = PNone \<or> \<not> tc_manager T then tn_ce (r_now r') = tn_ce (r_now r1)
             else \<forall>(key, rs, version) \<in> set (ce_effective (tn_ce (r_now r'))). tn_version (r_now r') = PInt version)
        | Inl e \<Rightarrow> gate_fences label (tn_gate (r_now r')) \<and> tn_ce (r_now r') = tn_ce (r_now r1))"
proof (cases grant)
  case (Inl e)
  with assms(2,3) show ?thesis by (auto simp: tn_sync_def with_lease_def andthen_def)
next
  case (Inr ow)
  let ?E = "tn_ce (r_now r1)" and ?R = "gate_rely label"
  let ?body = "rescue (tn_sync_body T ow) (block_and_raise ow ''Native synchronization outcome unknown'')"
  let ?Q = "\<lambda>x g. case x of
      Inr v \<Rightarrow> gate_healthy (tn_gate g) \<and> (if v = PNone \<or> \<not> tc_manager T then tn_ce g = ?E else synced g)
    | Inl e \<Rightarrow> gate_fences label (tn_gate g) \<and> tn_ce g = ?E"
  note granted = assms(2) [unfolded Inr]
  have acquired: "owning label ow True (\<lambda>E'. E' = ?E) (r_now r1)" and o: "obeys ?R r1"
    using tripleD [OF acquire_triple [of ?R "\<lambda>_. True"] assms(1) _ granted]
    by (simp_all add: gateless_def owning_def)
  have body: "triple ?R (owning label ow True (\<lambda>E'. E' = ?E)) ?body ?Q"
  proof (rule triple_try [OF sync_body_triple])
    show "?Q (Inr v) g" if "owning label ow True (\<lambda>E'. v = PNone \<or> \<not> tc_manager T \<longrightarrow> E' = ?E) g
        \<and> (v \<noteq> PNone \<and> tc_manager T \<longrightarrow> synced g)" for v g
      using that by (simp add: owning_def)
    have fence: "triple ?R (\<lambda>g. owning label ow True (\<lambda>E'. E' = ?E) g \<and> True)
        (block_and_raise ow ''Native synchronization outcome unknown'' e) ?Q" for e
      by (rule triple_post [OF triple_block]) auto
    show "triple ?R (owning label ow True (\<lambda>E'. E' = ?E))
        (block_and_raise ow ''Native synchronization outcome unknown'' e) ?Q" for e
      using fence [of e] by (simp only: simp_thms)
  qed
  obtain y r2 where b: "?body r1 = (y, r2)" by fastforce
  from tripleD(1) [OF body o acquired b] have q: "?Q y (r_now r2)" .
  have "x = y \<and> r' = snd (tn_release ow r2)"
    using granted assms(3) b by (cases y) (auto simp: tn_sync_def with_lease_def andthen_def caught_def tn_release_def on_gate_def
        sync_def lift_res_def ret_def raise_def)
  with q Inr show ?thesis
    by (auto simp: tn_release_def on_gate_def sync_def synced_def split: sum.splits)
qed

text \<open>
  Reconciling a BLOCKED exit repeats its commit: evidence means that the gate is healthy again and
  the load balancer has no route to the replica; whatever happens, the replica stays DRAINING and
  bound to the operation, so that its release can follow.
\<close>

theorem tn_exit_reconciled:
  assumes "obeys (tn_rely (rc_router C) oid target) r" and "oid \<noteq> []"
    and "m_state (ro_mgr (r_now r)) target = Some DRAINING" and "m_kind (ro_mgr (r_now r)) target = Some kd"
    and "ro_targets (r_now r) oid = Some target" and "published_as oid (r_now r) = None"
    and "tn_reconcile_exit C T oid r = (x, r')"
  shows "m_state (ro_mgr (r_now r')) target = Some DRAINING \<and> ro_targets (r_now r') oid = Some target
    \<and> (case x of
         Inr (Some ev) \<Rightarrow> e_operation_id ev = oid \<and> e_type ev = SERVICE_COMMITTED
           \<and> gate_healthy (tn_gate (r_now r')) \<and> map_of (lb_routes (ro_lb (r_now r'))) target = None
       | _ \<Rightarrow> True)"
proof -
  have "sees oid target DRAINING kd (Some target) None (r_now r)" using assms(3-6) by (simp add: sees_def)
  from tripleD(1) [OF reconcile_exit_triple [OF assms(2)] assms(1) this assms(7)] show ?thesis
    by (auto simp: exit_post_def sees_def unrouted_def split: sum.splits option.splits)
qed

section \<open>A concrete trainer\<close>

text \<open>
  A task with the native demo replica in service works on the replica b with runtime 3. The
  schedule \<open>demo_loss\<close> loses the call of \<open>commit_ready\<close> at the load balancer and the Rollouter's reply
  to the trainer.
\<close>

definition demo_borrowed :: replica_key where "demo_borrowed = ReplicaKey ''T'' ''b'' 0"

definition demo_tconfig :: "nat list tn_config" where
  "demo_tconfig = \<lparr>tc_native = list_native, tc_kind = (\<lambda>_. Some BORROWED), tc_boot = (\<lambda>_. demo_env), tc_workers = (\<lambda>_. 1),
     tc_hash = (\<lambda>_. ''''), tc_naive = False, tc_validation = False, tc_source = False, tc_rollouter = True, tc_manager = True\<rparr>"

definition demo_task :: "replica_state \<Rightarrow> replica_kind \<Rightarrow> gate \<Rightarrow> nat list ce \<Rightarrow> ((string \<times> nat) list, nat list) tn" where
  "demo_task st kd gate E = ro.extend
     ((new_ro ((new_rmgr (Some ''T''))\<lparr>m_state := [demo_borrowed \<mapsto> st], m_kind := [demo_borrowed \<mapsto> kd],
        m_runtime := [demo_borrowed \<mapsto> 3]\<rparr>) demo_lb)\<lparr>ro_targets := [''op'' \<mapsto> demo_borrowed]\<rparr>)
     (tn.fields gate E (PInt 4))"

definition demo_loss :: "nat \<Rightarrow> 'g tick" where
  "demo_loss n = (lossy PNone 1)\<lparr>tk_fate := (if n = 4 then ReplyLost (TimeoutError ''reply lost'')
     else if n = 5 then NeverSent (TimeoutError ''call lost'') else Answered)\<rparr>"

lemmas tn_eval = tn_add_def tn_reconcile_publish_def gate_fences_def gate_healthy_def with_lease_def tn_acquire_def
  gate_acquire_entry_def tn_wait_lock_def on_gate_def gate_acquire_granted_def attempt_def tn_add_register_def tn_target_def
  ro_pending_replicas_def tn_guard_def gate_is_active_def gate_guard_def on_ce_def tn_weights_def tn_bootstrap_def
  tn_require_def tn_commit_pending_def tn_add_service_def tn_commit_service_def block_and_raise_def tn_block_def gate_block_def
  tn_release_def gate_release_def ro_publish_borrowed_def demo_tconfig_def tc_ready_def demo_task_def demo_loss_def ro.extend_def tn.fields_def
  new_gate_def new_ce_def demo_borrowed_def

lemmas ce_eval = ce_register_pending_def ce_validate_membership_def shares_def list_native_def ce_bootstrap_target_def
  demo_env_def boot_stages_def stage_failure_def ce_commit_pending_def ce_add_effective_def ce_remove_effective_def
  ce_discard_pending_def ce_mark_all_def

lemmas settle_eval = tn_reconcile_def gate_reconcile_entry_def gate_reconcile_granted_def gate_reconcile_end_def
  tn_settle_publish_def void_def

text \<open>
  C38: Retrying an ADD whose publication was withdrawn can only report it as done. When the Rollouter took
  the replica back to DRAINING and the trainer, which did not hear of it, still fences for the ADD and counts the
  replica as a receiver, every retry that returns, whatever is lost on the way, returns SERVICE_COMMITTED evidence
  and makes the gate healthy, although the replica is DRAINING, unpublished and without a route; and whether
  it returns or raises, the replica stays DRAINING, bound and a receiver of weights.
\<close>

theorem tn_add_retry_unpublished:
  assumes "obeys (tn_rely (rc_router C) oid target) r" and "oid \<noteq> []" and "gate_fences oid (tn_gate (r_now r))"
    and "m_state (ro_mgr (r_now r)) target = Some DRAINING" and "m_kind (ro_mgr (r_now r)) target = Some BORROWED"
    and "ro_targets (r_now r) oid = Some target" and "published_as oid (r_now r) = None"
    and "enrolled target (tn_ce (r_now r))" and "tn_add C T oid r = (x, r')"
  shows "m_state (ro_mgr (r_now r')) target = Some DRAINING \<and> ro_targets (r_now r') oid = Some target
    \<and> published_as oid (r_now r') = None \<and> enrolled target (tn_ce (r_now r'))
    \<and> (case x of
         Inr ev \<Rightarrow> e_operation_id ev = oid \<and> e_type ev = SERVICE_COMMITTED \<and> gate_healthy (tn_gate (r_now r'))
           \<and> map_of (lb_routes (ro_lb (r_now r'))) target = None
       | Inl e \<Rightarrow> True)"
proof -
  have w: "gate_fences oid (tn_gate (r_now r)) \<and> withdrawn oid target BORROWED (r_now r)" using assms(3-8) by (simp add: sees_def)
  obtain y r1 where p: "tn_reconcile_publish C T oid False r = (y, r1)" by fastforce
  note q = tripleD(1) [OF withdrawn_triple [OF assms(2)] assms(1) w p]
  show ?thesis
  proof (cases "tc_ready T \<and> is_nonneg_int (tn_version (r_now r))")
    case True
    with assms(9) p q have "r' = r1 \<and> (case y of Inl e \<Rightarrow> x = Inl e | Inr found \<Rightarrow> found \<noteq> None \<and> x = Inr (the found))"
      by (auto simp: tn_add_def guard_that_def look_def andthen_def ret_def split: sum.splits)
    with q show ?thesis by (auto simp: sees_def unrouted_def split: sum.splits)
  next
    case False
    then have "\<exists>e. x = Inl e" "r' = r" using assms(9) by (auto simp: tn_add_def guard_that_def look_def raise_def split: if_splits)
    with w show ?thesis by (auto simp: sees_def)
  qed
qed

text \<open>
  A first attempt ends there: the call of commit_ready is lost, the Rollouter finds that R has no route,
  withdraws the replica and answers that there is none, and this answer is lost too.
\<close>

lemma demo_withdrawn:
  "\<exists>e r1 ev r2. tn_add demo_config demo_tconfig ''op'' (run_of demo_loss (demo_task CREATING BORROWED new_gate (new_ce []))) = (Inl e, r1)
     \<and> r_sched r1 = demo_loss \<and> gate_fences ''op'' (tn_gate (r_now r1)) \<and> m_state (ro_mgr (r_now r1)) demo_borrowed = Some DRAINING
     \<and> m_kind (ro_mgr (r_now r1)) demo_borrowed = Some BORROWED \<and> ro_targets (r_now r1) ''op'' = Some demo_borrowed
     \<and> published_as ''op'' (r_now r1) = None \<and> enrolled demo_borrowed (tn_ce (r_now r1))
     \<and> tn_add demo_config demo_tconfig ''op'' r1 = (Inr ev, r2)"
  by (simp add: tn_eval ro_eval coro_eval lb_eval ce_eval settle_eval demo_key_def pop_at_def enrolled_def member_def)

theorem tn_add_retry_unpublished_witness:
  "\<exists>e r1 ev r2. tn_add demo_config demo_tconfig ''op'' (run_of demo_loss (demo_task CREATING BORROWED new_gate (new_ce []))) = (Inl e, r1)
     \<and> tn_add demo_config demo_tconfig ''op'' r1 = (Inr ev, r2) \<and> e_type ev = SERVICE_COMMITTED
     \<and> m_state (ro_mgr (r_now r2)) demo_borrowed = Some DRAINING
     \<and> map_of (lb_routes (ro_lb (r_now r2))) demo_borrowed = None \<and> enrolled demo_borrowed (tn_ce (r_now r2))"
proof -
  obtain e r1 ev r2 where
    first: "tn_add demo_config demo_tconfig ''op'' (run_of demo_loss (demo_task CREATING BORROWED new_gate (new_ce []))) = (Inl e, r1)"
    and l: "r_sched r1 = demo_loss"
    and s: "gate_fences ''op'' (tn_gate (r_now r1))" "m_state (ro_mgr (r_now r1)) demo_borrowed = Some DRAINING"
      "m_kind (ro_mgr (r_now r1)) demo_borrowed = Some BORROWED" "ro_targets (r_now r1) ''op'' = Some demo_borrowed"
      "published_as ''op'' (r_now r1) = None" "enrolled demo_borrowed (tn_ce (r_now r1))"
    and again: "tn_add demo_config demo_tconfig ''op'' r1 = (Inr ev, r2)"
    using demo_withdrawn by blast
  have o: "obeys (tn_rely (rc_router demo_config) ''op'' demo_borrowed) r1"
    by (simp add: obeys_def l demo_loss_def lossy_def tn_rely_def)
  from tn_add_retry_unpublished [OF o _ s again] first again show ?thesis by auto
qed

text \<open>The same task with a native replica, a member or a parked one, under a quiet schedule.\<close>

definition demo_native :: "nat list tn_config" where
  "demo_native = demo_tconfig\<lparr>tc_kind := (\<lambda>_. Some NATIVE),
     tc_boot := (\<lambda>_. demo_env\<lparr>be_kinds := [Some NATIVE], be_placements := [PStr ''u'']\<rparr>)\<rparr>"

definition demo_member :: "nat list ce" where
  "demo_member = (new_ce [3])\<lparr>ce_effective := [(demo_borrowed, [3], 4)]\<rparr>"

definition demo_parked :: "nat list ce" where
  "demo_parked = (new_ce [])\<lparr>ce_pending := [(demo_borrowed, [3], ''old'')]\<rparr>"

lemma quiet_obeys [simp]:
  "obeys (tn_rely N oid target) (run_of (lossy v) g)" "obeys (gate_rely label) (run_of (lossy v) h)"
  by (simp_all add: obeys_def run_of_def lossy_def tn_rely_def gate_rely_def)

lemmas world_eval = demo_task_def demo_native_def demo_member_def demo_parked_def run_of_def ro.extend_def tn.fields_def new_ro_def
  new_rmgr_def published_as_def enrolled_def member_def parked_def demo_lb_def gate_fences_def gate_healthy_def new_gate_def new_ce_def



theorem tn_remove_sound_witness:
  "\<exists>ev r'. tn_remove demo_config demo_native ''op'' (run_of (lossy PNone) (demo_task DRAINING NATIVE new_gate demo_member)) = (Inr ev, r')
     \<and> e_type ev = SERVICE_COMMITTED \<and> parked demo_borrowed (tn_ce (r_now r')) = Some [3]"
proof -
  let ?r = "run_of (lossy PNone) (demo_task DRAINING NATIVE new_gate demo_member)"
  have "\<exists>ev r'. tn_remove demo_config demo_native ''op'' ?r = (Inr ev, r')"
    by (simp add: tn_eval tn_remove_def tn_remove_member_def tn_remove_service_def ro_eval coro_eval
        lb_eval ce_eval demo_key_def demo_task_def demo_native_def demo_member_def pop_at_def)
  then obtain ev r' where e: "tn_remove demo_config demo_native ''op'' ?r = (Inr ev, r')" by blast
  have s: "m_state (ro_mgr (r_now ?r)) demo_borrowed = Some DRAINING" "m_kind (ro_mgr (r_now ?r)) demo_borrowed = Some NATIVE"
    "ro_targets (r_now ?r) ''op'' = Some demo_borrowed" "published_as ''op'' (r_now ?r) = None"
    "member demo_borrowed (tn_ce (r_now ?r)) = Some [3]"
    by (simp_all add: world_eval)
  have "tc_kind demo_native (hd [3]) = Some NATIVE" by (simp add: demo_native_def demo_tconfig_def)
  with tn_remove_sound [OF quiet_obeys(1) _ s e] e show ?thesis by auto
qed

abbreviation demo_fenced :: gate where
  "demo_fenced \<equiv> new_gate\<lparr>g_blocked_reason := Some ''lost'', g_blocked_op := Some ''op''\<rparr>"

theorem tn_publish_reconciled_witness:
  "\<exists>found r'. tn_reconcile_publish demo_config demo_native ''op'' True (run_of (\<lambda>_. lossy (PStr ''g'') 1) (demo_task ACTIVE NATIVE demo_fenced demo_member))
       = (Inr (Some found), r')
     \<and> e_type found = RELEASED \<and> m_state (ro_mgr (r_now r')) demo_borrowed = Some DORMANT \<and> gate_healthy (tn_gate (r_now r'))"
proof -
  let ?r = "run_of (\<lambda>_. lossy (PStr ''g'') 1) (demo_task ACTIVE NATIVE demo_fenced demo_member)"
  have "\<exists>ev r'. tn_reconcile_publish demo_config demo_native ''op'' True ?r = (Inr (Some ev), r') \<and> e_type ev = RELEASED"
    by (simp add: tn_eval settle_eval tn_finalize_def ro_finalize_def ro_release_def ro_sleep_def rm_sleep_begin_def rm_sleep_end_def
        ro_eval coro_eval lb_eval ce_eval demo_key_def demo_task_def demo_native_def demo_member_def pop_at_def)
  then obtain ev r' where e: "tn_reconcile_publish demo_config demo_native ''op'' True ?r = (Inr (Some ev), r')" "e_type ev = RELEASED" by blast
  have o: "obeys (tn_rely (rc_router demo_config) ''op'' demo_borrowed) ?r"
    by (simp add: obeys_def run_of_def lossy_def tn_rely_def)
  have s: "m_state (ro_mgr (r_now ?r)) demo_borrowed = Some ACTIVE" "m_kind (ro_mgr (r_now ?r)) demo_borrowed = Some NATIVE"
    "ro_targets (r_now ?r) ''op'' = Some demo_borrowed" "enrolled demo_borrowed (tn_ce (r_now ?r))"
    by (simp_all add: world_eval)
  from tn_publish_reconciled [OF o _ s e(1)] e show ?thesis by auto
qed

theorem tn_exit_reconciled_witness:
  "\<exists>found r'. tn_reconcile_exit demo_config demo_native ''op'' (run_of (\<lambda>_. lossy PNone 1) (demo_task DRAINING NATIVE demo_fenced (new_ce [])))
       = (Inr (Some found), r') \<and> e_type found = SERVICE_COMMITTED \<and> gate_healthy (tn_gate (r_now r'))"
proof -
  let ?r = "run_of (\<lambda>_. lossy PNone 1) (demo_task DRAINING NATIVE demo_fenced (new_ce []))"
  have "\<exists>ev r'. tn_reconcile_exit demo_config demo_native ''op'' ?r = (Inr (Some ev), r')"
    by (simp add: tn_eval settle_eval tn_reconcile_exit_def
        ro_eval coro_eval lb_eval ce_eval demo_key_def demo_task_def demo_native_def pop_at_def)
  then obtain ev r' where e: "tn_reconcile_exit demo_config demo_native ''op'' ?r = (Inr (Some ev), r')" by blast
  have o: "obeys (tn_rely (rc_router demo_config) ''op'' demo_borrowed) ?r"
    by (simp add: obeys_def run_of_def lossy_def tn_rely_def)
  have s: "m_state (ro_mgr (r_now ?r)) demo_borrowed = Some DRAINING" "m_kind (ro_mgr (r_now ?r)) demo_borrowed = Some NATIVE"
    "ro_targets (r_now ?r) ''op'' = Some demo_borrowed" "published_as ''op'' (r_now ?r) = None"
    by (simp_all add: world_eval)
  from tn_exit_reconciled [OF o _ s e(1)] e show ?thesis by auto
qed

theorem tn_sync_fails_closed_witness:
  "\<exists>v r'. tn_sync demo_tconfig True ''native-sync:4'' (run_of (lossy (PBool True)) (demo_task ACTIVE NATIVE new_gate demo_member)) = (Inr v, r')
     \<and> (\<forall>(key, rs, version) \<in> set (ce_effective (tn_ce (r_now r'))). tn_version (r_now r') = PInt version)"
proof -
  let ?r = "run_of (lossy (PBool True)) (demo_task ACTIVE NATIVE new_gate demo_member)"
  have "\<exists>ow r1. tn_acquire ''native-sync:4'' NATIVE_SYNC ?r = (Inr ow, r1)"
    by (simp add: tn_eval coro_eval demo_task_def new_ro_def Let_def)
  then obtain ow r1 where a: "tn_acquire ''native-sync:4'' NATIVE_SYNC ?r = (Inr ow, r1)" by blast
  have "\<exists>r'. tn_sync demo_tconfig True ''native-sync:4'' ?r = (Inr (PBool True), r')"
    by (simp add: tn_sync_def tn_sync_body_def tn_eval coro_eval demo_task_def new_ro_def ce_mark_all_def Let_def)
  then obtain r' where e: "tn_sync demo_tconfig True ''native-sync:4'' ?r = (Inr (PBool True), r')" by blast
  from tn_sync_fails_closed [OF quiet_obeys(2) a e] e show ?thesis by (auto simp: demo_tconfig_def)
qed

end
