(* ===== verification/Borrow_Spec.thy ===== *)
theory Borrow_Spec
  imports Group_Scheduler Task_Runner Rollouter_Prepare
begin

text \<open>
  The placement spec of an ADD: what \<open>_build_borrowed_spec\<close> of \<open>task_runner.py\<close> builds of a lease, read
  the way the replica manager validates it (\<open>llm_server_manager.py\<close>) and the Rollouter reports its claims.
\<close>

section \<open>What the manager reads in the spec\<close>

lemma borrowed_claim_wf: "wf_claim x \<Longrightarrow> wf_claim (borrowed_claim r x)"
  by (simp add: wf_claim_def borrowed_claim_def)

lemma borrowed_claim_fields [simp]:
  "pyget (borrowed_claim r x) ''gpu_uuid'' = pyget x ''gpu_uuid''"
  "pyget (borrowed_claim r x) ''node_rank'' = PInt 0" "pyget (borrowed_claim r x) ''local_rank'' = PInt (int r)"
  "pyget_default (borrowed_claim r x) ''rank'' d = PInt (int r)"
  by (simp_all add: borrowed_claim_def) (simp add: pyget_default_def)

lemma borrowed_lease:
  assumes "wf_claim x" and "lid \<noteq> []" and "0 \<le> q"
  shows "mk_lease lid [borrowed_claim 0 x] (PFloat (Fin q)) =
    Inr \<lparr>l_lease_id = lid, l_claims = [borrowed_claim 0 x], l_expires_at = q\<rparr>"
proof -
  have "wf_lease \<lparr>l_lease_id = lid, l_claims = [borrowed_claim 0 x], l_expires_at = q\<rparr>"
    using assms borrowed_claim_wf by (simp add: wf_lease_def claim_ids_def gpu_uuids_def bundle_keys_def)
  from wf_lease_normal [OF this] show ?thesis by simp
qed

text \<open>Validating the spec the runner builds for a single-claim lease.\<close>

definition wf_add :: "op_command \<Rightarrow> lease \<Rightarrow> bool" where
  "wf_add c l \<longleftrightarrow> wf_lease l \<and> length (l_claims l) = 1 \<and> c_operation_id c \<noteq> [] \<and> task_session (c_target c) \<noteq> []
     \<and> replica_id (c_target c) \<noteq> [] \<and> 0 \<le> runtime_epoch (c_target c)"

lemma validate_built_spec:
  assumes "tr_build_spec c l = Inr sp" and "wf_add c l"
  obtains x where "l_claims l = [x]" "wf_claim x"
    "rm_validate_spec cfg session now (PDict sp) =
      (if session \<noteq> None \<and> session \<noteq> Some [] \<and> Some (task_session (c_target c)) \<noteq> session
       then Inl (ValueError ''borrowed placement targets another task_session'')
       else if tensor_parallel cfg \<noteq> 1 \<or> data_parallel cfg \<noteq> 1 \<or> pipeline_parallel cfg \<noteq> 1
       then Inl (ValueError ''current borrowed runtime requires TP=DP=PP=1'')
       else if l_expires_at l \<noteq> 0 \<and> l_expires_at l \<le> now
       then Inl (ValueError ''borrowed placement lease is expired'')
       else Inr (normalized_spec sp (borrowed_claim 0 x) (PInt (runtime_epoch (c_target c))) (l_expires_at l)))"
proof -
  from assms(2) have w: "wf_lease l" "length (l_claims l) = 1" by (simp_all add: wf_add_def)
  then obtain x where x: "l_claims l = [x]" by (auto simp: length_Suc_conv)
  with w have wx: "wf_claim x" "l_lease_id l \<noteq> []" "0 \<le> l_expires_at l" by (simp_all add: wf_lease_def)
  have sp: "l_lease_id l = c_lease_id c" "sp =
        [(''operation_id'', PStr (c_operation_id c)), (''lease_id'', PStr (c_lease_id c)),
         (''borrower_task_id'', PStr (task_session (c_target c))), (''borrower_replica_id'', PStr (replica_id (c_target c))),
         (''claims'', PList [PDict (borrowed_claim 0 x)]),
         (''expires_at'', PFloat (Fin (l_expires_at l))), (''placement_epoch'', PInt (runtime_epoch (c_target c)))]"
    using assms(1) x by (auto simp: tr_build_spec_def split: if_splits)
  have ok: "borrowed_claim_ok (borrowed_claim 0 x)" by (simp add: borrowed_claim_ok_def)
  show ?thesis
    by (rule that [OF x wx(1)])
      (use assms(2) ok borrowed_lease [OF wx(1), of "c_lease_id c" "l_expires_at l"] wx sp(1) in
        \<open>simp add: sp(2) rm_validate_spec_def wf_add_def pyget_def pyget_default_def Let_def\<close>)
qed

lemma built_fields:
  assumes "tr_build_spec c l = Inr sp"
  shows "pyget sp ''lease_id'' = PStr (l_lease_id l)" "pyget sp ''borrower_task_id'' = PStr (task_session (c_target c))"
    "pyget sp ''borrower_replica_id'' = PStr (replica_id (c_target c))"
  using assms by (auto simp: tr_build_spec_def pyget_def pyget_default_def split: if_splits)

lemma built_spec:
  assumes "tr_build_spec c l = Inr sp" and "wf_add c l"
  shows "pyget sp ''operation_id'' = PStr (c_operation_id c)" "spec_uuids sp = gpu_uuids l"
proof -
  from assms(2) have w: "wf_lease l" "length (l_claims l) = 1" by (simp_all add: wf_add_def)
  then obtain x where x: "l_claims l = [x]" by (auto simp: length_Suc_conv)
  with w have "wf_claim x" by (simp add: wf_lease_def)
  then obtain u us where u: "pyget x ''gpu_uuid'' = PStr (u # us)"
    by (auto simp: wf_claim_def is_nonempty_str_iff neq_Nil_conv)
  from assms(1) x have sp: "sp = [(''operation_id'', PStr (c_operation_id c)), (''lease_id'', PStr (c_lease_id c)),
         (''borrower_task_id'', PStr (task_session (c_target c))), (''borrower_replica_id'', PStr (replica_id (c_target c))),
         (''claims'', PList [PDict (borrowed_claim 0 x)]),
         (''expires_at'', PFloat (Fin (l_expires_at l))), (''placement_epoch'', PInt (runtime_epoch (c_target c)))]"
    by (auto simp: tr_build_spec_def split: if_splits)
  show "pyget sp ''operation_id'' = PStr (c_operation_id c)" by (simp add: sp pyget_def pyget_default_def)
  have "spec_claims sp = [borrowed_claim 0 x]"
    by (simp add: sp spec_claims_def pyget_def pyget_default_def List.map_filter_simps)
  then show "spec_uuids sp = gpu_uuids l"
    using u by (simp add: spec_uuids_def gpu_uuids_def x List.map_filter_simps dict_fromkeys_def)
qed

section \<open>A concrete ADD\<close>

definition demo_add :: op_command where
  "demo_add = \<lparr>c_operation_id = ''op'', c_kind = ADD, c_target = ReplicaKey ''U'' ''b'' 0, c_lease_id = ''A'', c_force = None\<rparr>"

abbreviation demo_borrow :: lease where
  "demo_borrow \<equiv> demo_lease ''A'' ''c1'' ''pg'' ''g''"

lemma demo_wf_add: "wf_add demo_add demo_borrow"
  using demo_wf [of "''A''" "''c1''" "''pg''" "''g''"] by (simp add: wf_add_def demo_lease_def demo_add_def)

lemma demo_built: "\<exists>sp. tr_build_spec demo_add demo_borrow = Inr sp"
  by (simp add: tr_build_spec_def demo_add_def demo_lease_def)

end
