(* ===== verification/Worker.thy ===== *)
theory Worker
  imports Group_Scheduler Task_Runner Rollouter_Drain Rollouter_Prepare Trainer_Properties
begin

text \<open>
  The worker of one operation on the services it drives: \<open>_execute_operation\<close> of
  \<open>integration/verl/experimental_fully_async/task_runner.py\<close> as a coroutine whose remote calls are the
  operations of the Rollouter, the Trainer and the group scheduler themselves. \<open>Task_Runner\<close> takes the
  replies as given; \<open>worker_runs_body\<close> shows that both describe the same worker.
\<close>

section \<open>The services of a task\<close>

text \<open>The state the calls work on: M, R, G and E of the task, and the scheduler's ledger.\<close>

record ('n, 'c) world = "('n, 'c) tn" +
  wd_ledger :: gs

definition on_ledger :: "(gs \<Rightarrow> 'a res \<times> gs) \<Rightarrow> (('n, 'c, 'z) world_scheme, 'a) coro" where
  "on_ledger f = sync (\<lambda>g. (fst (f (wd_ledger g)), g\<lparr>wd_ledger := snd (f (wd_ledger g))\<rparr>))"

text \<open>What the runner reads of a reply.\<close>

definition replying :: "('a \<Rightarrow> reply) \<Rightarrow> ('g, 'a) coro \<Rightarrow> ('g, reply) coro" where
  "replying f m = andthen m (\<lambda>x. ret (f x))"

definition optional_reply :: "op_evidence option \<Rightarrow> reply" where
  "optional_reply x = (case x of None \<Rightarrow> Absent | Some ev \<Rightarrow> Evid ev)"

definition prepare_reply :: "(create_result + op_evidence) option \<Rightarrow> reply" where
  "prepare_reply x = (case x of None \<Rightarrow> Absent | Some (Inl _) \<Rightarrow> Alien | Some (Inr ev) \<Rightarrow> Evid ev)"

definition perform ::
    "('n, 'x) ro_config \<Rightarrow> 'c tn_config \<Rightarrow> op_command \<Rightarrow> call \<Rightarrow> (('n, 'c, 'z) world_scheme, reply) coro" where
  "perform C T c k = (let oid = c_operation_id c; target = c_target c in
     case k of
       CallPrepare sp \<Rightarrow> replying prepare_reply (remote (ro_prepare C target oid sp))
     | CallBootstrap \<Rightarrow> replying Evid (remote (tn_add C T oid))
     | CallRestore \<Rightarrow> replying Evid (remote (tn_restore C T oid))
     | CallQueryRelease \<Rightarrow> replying optional_reply (query (ro_query_release target oid))
     | CallReconcileExit \<Rightarrow> replying optional_reply (remote (tn_reconcile_exit C T oid))
     | CallPrepareExit \<Rightarrow> replying Evid (remote (ro_prepare_exit C target oid (c_force c = Some True)))
     | CallPendingTarget \<Rightarrow> replying (\<lambda>_. Alien) (query (ro_pending_target oid))
     | CallRemoveCommit \<Rightarrow> replying Evid (remote (tn_remove C T oid))
     | CallFinalize \<Rightarrow> replying Evid (remote (ro_finalize oid))
     | CallAdvance ev \<Rightarrow> replying (\<lambda>_. Alien) (remote (on_ledger (gs_advance_lease (c_lease_id c) ev))))"

section \<open>The worker\<close>

text \<open>
  Its result is the status and the text the journal gets; a raise is what becomes UNKNOWN. The calls
  are an argument, so that the same worker runs on the services or on given replies.
\<close>

type_synonym 'g caller = "call \<Rightarrow> ('g, reply) coro"
type_synonym 'g worker = "('g, op_status \<times> string option) coro"

definition wk_require :: "op_command \<Rightarrow> reply \<Rightarrow> evidence_type \<Rightarrow> ('g, op_evidence) coro" where
  "wk_require c r ty = lift_res (require_evidence (reply_evidence r) (c_operation_id c) ty)"

definition wk_advance :: "'g caller \<Rightarrow> op_evidence \<Rightarrow> ('g, reply) coro" where
  "wk_advance call ev = rescue (call (CallAdvance ev)) (\<lambda>_. call (CallAdvance ev))"

definition wk_succeeded :: "op_evidence \<Rightarrow> 'g worker" where
  "wk_succeeded ev = ret (SUCCEEDED, Some (evidence_value (e_type ev)))"

definition wk_failed_release :: "'g caller \<Rightarrow> op_command \<Rightarrow> reply \<Rightarrow> string \<Rightarrow> 'g worker \<Rightarrow> 'g worker" where
  "wk_failed_release call c r msg k =
     (case reply_evidence r of
        None \<Rightarrow> k
      | Some ev \<Rightarrow>
          if e_type ev \<noteq> RELEASED then k
          else andthen (wk_require c r RELEASED) (\<lambda>released.
                 andthen (wk_advance call released) (\<lambda>_. ret (FAILED, Some msg))))"

definition wk_add :: "'g caller \<Rightarrow> op_command \<Rightarrow> lease option \<Rightarrow> 'g worker" where
  "wk_add call c snapshot =
     (case snapshot of
        None \<Rightarrow> raise (RuntimeError ''ADD lost its immutable Lease snapshot'')
      | Some l \<Rightarrow>
          (case tr_build_spec c l of
             Inl e \<Rightarrow> ret (FAILED, Some (''ADD placement validation failed: '' @ exn_text e))
           | Inr sp \<Rightarrow>
               andthen (call (CallPrepare (Some sp))) (\<lambda>prepared.
                 wk_failed_release call c prepared ''ADD prepare failed; no borrower runtime remains''
                   (andthen (call CallBootstrap) (\<lambda>evidence.
                      wk_failed_release call c evidence ''ADD bootstrap failed; hidden runtime was verified RELEASED''
                        (andthen (wk_require c evidence SERVICE_COMMITTED) wk_succeeded))))))"

definition wk_release :: "'g caller \<Rightarrow> op_command \<Rightarrow> reply \<Rightarrow> 'g worker" where
  "wk_release call c service =
     andthen (wk_require c service SERVICE_COMMITTED) (\<lambda>_.
       andthen (call CallFinalize) (\<lambda>released.
         andthen (wk_require c released RELEASED) (\<lambda>final.
           andthen (wk_advance call final) (\<lambda>_. wk_succeeded final))))"

definition wk_rejected :: "'g caller \<Rightarrow> exn \<Rightarrow> 'g worker" where
  "wk_rejected call e = attempt (call CallPendingTarget)
     (\<lambda>q. case q of
        KeyError _ \<Rightarrow> ret (FAILED, Some (''exit preflight rejected before owner mutation: '' @ exn_text e))
      | _ \<Rightarrow> raise (RuntimeError ''exit target binding query is inconclusive''))
     (\<lambda>_. raise e)"

definition wk_prepare_exit :: "'g caller \<Rightarrow> op_command \<Rightarrow> 'g worker" where
  "wk_prepare_exit call c =
     attempt (call CallPrepareExit) (wk_rejected call) (\<lambda>ready.
       andthen (wk_require c ready EXIT_READY) (\<lambda>_.
         andthen (call CallRemoveCommit) (wk_release call c)))"

definition wk_exit :: "'g caller \<Rightarrow> op_command \<Rightarrow> bool \<Rightarrow> 'g worker" where
  "wk_exit call c reconciling =
     (if \<not> reconciling then wk_prepare_exit call c
      else andthen (call CallQueryRelease) (\<lambda>prior.
        if prior \<noteq> Absent
        then andthen (wk_require c prior RELEASED) (\<lambda>final. andthen (wk_advance call final) (\<lambda>_. wk_succeeded final))
        else andthen (call CallReconcileExit) (\<lambda>service.
          if service = Absent then wk_prepare_exit call c else wk_release call c service)))"

definition wk_restore :: "'g caller \<Rightarrow> op_command \<Rightarrow> 'g worker" where
  "wk_restore call c =
     andthen (call (CallPrepare None)) (\<lambda>_. andthen (call CallRestore) (\<lambda>evidence.
       wk_failed_release call c evidence ''RESTORE bootstrap failed; native runtime was verified re-slept''
         (andthen (wk_require c evidence SERVICE_COMMITTED) (\<lambda>final.
            andthen (wk_advance call final) (\<lambda>_. wk_succeeded final)))))"

definition wk_body :: "'g caller \<Rightarrow> op_command \<Rightarrow> lease option \<Rightarrow> bool \<Rightarrow> 'g worker" where
  "wk_body call c snapshot reconciling =
     (case c_kind c of
        ADD \<Rightarrow> wk_add call c snapshot
      | DONATE \<Rightarrow> wk_exit call c reconciling
      | REMOVE \<Rightarrow> wk_exit call c reconciling
      | RESTORE \<Rightarrow> wk_restore call c)"

section \<open>The same worker on given replies\<close>

text \<open>The reply an environment has for a call; the ledger write may be made a second time.\<close>

definition told :: "tr_env \<Rightarrow> bool \<Rightarrow> call \<Rightarrow> reply res" where
  "told env again k =
     (case k of
        CallPrepare _ \<Rightarrow> ev_prepare env
      | CallBootstrap \<Rightarrow> ev_bootstrap env
      | CallRestore \<Rightarrow> ev_restore env
      | CallQueryRelease \<Rightarrow> ev_query_release env
      | CallReconcileExit \<Rightarrow> ev_reconcile_exit env
      | CallPrepareExit \<Rightarrow> ev_prepare_exit env
      | CallPendingTarget \<Rightarrow> map_res (\<lambda>_. Alien) (ev_pending_target env)
      | CallRemoveCommit \<Rightarrow> ev_remove_commit env
      | CallFinalize \<Rightarrow> ev_finalize env
      | CallAdvance _ \<Rightarrow> map_res (\<lambda>_. Alien) ((if again then snd else fst) (ev_advance env)))"

text \<open>The calls made one after the other, each answered as the environment says.\<close>

primrec answered :: "'g caller \<Rightarrow> tr_env \<Rightarrow> bool \<Rightarrow> call list \<Rightarrow> 'g run \<Rightarrow> 'g run option" where
  "answered call env again [] r = Some r"
| "answered call env again (k # ks) r =
     (case call k r of (x, r') \<Rightarrow>
        if x = told env again k then answered call env (is_CallAdvance k) ks r' else None)"

fun outcome_of :: "(op_status \<times> string option) res \<Rightarrow> outcome" where
  "outcome_of (Inl e) = Raised e"
| "outcome_of (Inr (st, m)) = Finished st m"

definition follows :: "'g caller \<Rightarrow> tr_env \<Rightarrow> call list \<times> outcome \<Rightarrow> 'g worker \<Rightarrow> 'g run \<Rightarrow> bool" where
  "follows call env p m r \<longleftrightarrow>
     snd p = outcome_of (fst (m r)) \<and> answered call env False (fst p) r = Some (snd (m r))"

text \<open>The reply to the query of the binding and to the ledger write is not looked at.\<close>

definition unread :: "'g caller \<Rightarrow> bool" where
  "unread call \<longleftrightarrow> (\<forall>k r x. k = CallPendingTarget \<or> is_CallAdvance k \<longrightarrow> fst (call k r) = Inr x \<longrightarrow> x = Alien)"

lemma unread_reply:
  assumes "unread call" and "k = CallPendingTarget \<or> is_CallAdvance k"
  shows "map_res (\<lambda>_. Alien) (void (fst (call k r))) = fst (call k r)"
  using assms unfolding unread_def void_def by (cases "fst (call k r)") auto

lemma perform_unread: "unread (perform C T c)"
  unfolding unread_def
  by (auto simp: perform_def replying_def andthen_def ret_def Let_def is_CallAdvance_def split: prod.splits sum.splits)

definition advanced :: "'g caller \<Rightarrow> op_evidence \<Rightarrow> 'g run \<Rightarrow> unit res \<times> unit res" where
  "advanced call ev r = (let (x, r1) = call (CallAdvance ev) r in (void x, void (fst (call (CallAdvance ev) r1))))"

lemma follows_done: "outcome_of x = p \<Longrightarrow> follows call env ([], p) (\<lambda>r. (x, r)) r"
  by (simp add: follows_def)

lemma follows_ret [simp]: "follows call env ([], Finished st m) (ret (st, m)) r" "follows call env ([], Raised e) (raise e) r"
  by (simp_all add: follows_def ret_def raise_def)

lemma follows_emit:
  assumes "fst (call k r) = told env False k" and "told env False k = x" and "\<not> is_CallAdvance k"
    and "\<And>v. x = Inr v \<Longrightarrow> follows call env (K v) (M v) (snd (call k r))"
  shows "follows call env (emit k x K) (andthen (call k) M) r"
proof -
  obtain y r1 where c: "call k r = (y, r1)" by fastforce
  with assms(1,2) have "y = x" by simp
  with c assms show ?thesis
    by (cases x) (auto simp: follows_def emit_def prefix_calls_def andthen_def)
qed

lemma follows_require:
  assumes "\<And>ev. x = Evid ev \<Longrightarrow> follows call env (K ev) (M ev) r"
  shows "follows call env (tr_require c x ty K) (andthen (wk_require c x ty) M) r"
  using assms
  by (cases x) (auto simp: tr_require_def wk_require_def require_evidence_def lift_res_def andthen_def ret_def raise_def
      follows_def)

lemma follows_advance:
  assumes "unread call" and "ev_advance env = advanced call ev r" and "\<And>r. M r = (Inr (st, m), r)"
  shows "follows call env (tr_advance env ev (\<lambda>_. ([], Finished st m))) (andthen (wk_advance call ev) (\<lambda>_. M)) r"
proof -
  obtain x r1 where c: "call (CallAdvance ev) r = (x, r1)" by fastforce
  obtain y r2 where d: "call (CallAdvance ev) r1 = (y, r2)" by fastforce
  have "map_res (\<lambda>_. Alien) (void x) = x" "map_res (\<lambda>_. Alien) (void y) = y"
    using unread_reply [OF assms(1), of "CallAdvance ev" r] unread_reply [OF assms(1), of "CallAdvance ev" r1] c d
    by simp_all
  note t = this
  have a: "ev_advance env = (void x, void y)" by (simp add: assms(2) advanced_def c d)
  show ?thesis
  proof (cases x)
    case (Inr v)
    with t(1) have "v = Alien" by (simp add: void_def)
    with Inr a c assms(3) show ?thesis
      by (simp add: follows_def tr_advance_def prefix_calls_def wk_advance_def andthen_def rescue_def told_def void_def)
  next
    case (Inl e)
    with t(2) a c d assms(3) show ?thesis
      by (cases y) (simp_all add: follows_def tr_advance_def emit_def prefix_calls_def wk_advance_def andthen_def
          rescue_def told_def void_def)
  qed
qed

lemma follows_released:
  assumes "unread call" and "\<And>ev. x = Evid ev \<Longrightarrow> ev_advance env = advanced call ev r"
  shows "follows call env (tr_require c x ty (\<lambda>final. tr_advance env final (\<lambda>_. succeeded final)))
    (andthen (wk_require c x ty) (\<lambda>final. andthen (wk_advance call final) (\<lambda>_. wk_succeeded final))) r"
  unfolding succeeded_def
  by (rule follows_require, rule follows_advance [OF assms(1)]) (auto simp: assms(2) wk_succeeded_def ret_def)

lemma follows_failed_release:
  assumes "unread call" and "\<And>ev. x = Evid ev \<Longrightarrow> e_type ev = RELEASED \<Longrightarrow> ev_advance env = advanced call ev r"
    and "(\<forall>ev. x = Evid ev \<longrightarrow> e_type ev \<noteq> RELEASED) \<Longrightarrow> follows call env (K ()) M r"
  shows "follows call env (tr_failed_release env c x msg K) (wk_failed_release call c x msg M) r"
proof (cases "\<exists>ev. x = Evid ev \<and> e_type ev = RELEASED")
  case True
  then obtain ev where x: "x = Evid ev" "e_type ev = RELEASED" by blast
  have "follows call env (tr_require c x RELEASED (\<lambda>released. tr_advance env released (\<lambda>_. ([], Finished FAILED (Some msg)))))
     (andthen (wk_require c x RELEASED) (\<lambda>released. andthen (wk_advance call released) (\<lambda>_. ret (FAILED, Some msg)))) r"
    by (rule follows_require, rule follows_advance [OF assms(1)]) (use x assms(2) in \<open>auto simp: ret_def\<close>)
  with x show ?thesis by (simp add: tr_failed_release_def wk_failed_release_def)
next
  case False
  with assms(3) show ?thesis by (cases x) (auto simp: tr_failed_release_def wk_failed_release_def)
qed

lemma release_follows:
  assumes "unread call" and "ev_finalize env = fst (call CallFinalize r)"
    and "\<And>ev. ev_finalize env = Inr (Evid ev) \<Longrightarrow> ev_advance env = advanced call ev (snd (call CallFinalize r))"
  shows "follows call env (tr_release env c sv) (wk_release call c sv) r"
  unfolding tr_release_def wk_release_def
  by (rule follows_require, rule follows_emit, simp add: told_def assms(2), simp add: told_def, simp,
      rule follows_released [OF assms(1)]) (simp add: assms(3))

lemma prepare_exit_follows:
  fixes call :: "'g caller"
  defines "ready \<equiv> \<lambda>r. snd (call CallPrepareExit r)"
  assumes "unread call" and "ev_prepare_exit env = fst (call CallPrepareExit r)"
    and "ev_pending_target env = void (fst (call CallPendingTarget (ready r)))"
    and "ev_remove_commit env = fst (call CallRemoveCommit (ready r))"
    and "ev_finalize env = fst (call CallFinalize (snd (call CallRemoveCommit (ready r))))"
    and "\<And>ev. ev_finalize env = Inr (Evid ev) \<Longrightarrow>
      ev_advance env = advanced call ev (snd (call CallFinalize (snd (call CallRemoveCommit (ready r)))))"
  shows "follows call env (tr_prepare_exit env c) (wk_prepare_exit call c) r"
proof (cases "ev_prepare_exit env")
  case (Inl e)
  obtain r1 where c1: "call CallPrepareExit r = (Inl e, r1)" "ready r = r1"
    using Inl assms(3) by (cases "call CallPrepareExit r") (simp add: ready_def)
  obtain y r2 where c2: "call CallPendingTarget r1 = (y, r2)" by fastforce
  have "map_res (\<lambda>_. Alien) (void y) = y"
    using unread_reply [OF assms(2), of CallPendingTarget r1] c2 by simp
  then have t: "told env False CallPendingTarget = y" by (simp add: told_def assms(4) c1(2) c2)
  show ?thesis
    using c1(1) c2 t Inl assms(4)
    by (cases y) (auto simp: follows_def tr_prepare_exit_def wk_prepare_exit_def wk_rejected_def attempt_def told_def c1(2)
        void_def raise_def ret_def split: exn.split)
next
  case (Inr rep)
  obtain r1 where c1: "call CallPrepareExit r = (Inr rep, r1)" "ready r = r1"
    using Inr assms(3) by (cases "call CallPrepareExit r") (simp add: ready_def)
  have rest: "follows call env (tr_require c rep EXIT_READY (\<lambda>_. emit CallRemoveCommit (ev_remove_commit env) (tr_release env c)))
      (andthen (wk_require c rep EXIT_READY) (\<lambda>_. andthen (call CallRemoveCommit) (wk_release call c))) r1"
    by (rule follows_require, rule follows_emit, simp add: told_def assms(5) c1(2), simp add: told_def, simp,
        rule release_follows [OF assms(2)]) (simp_all add: assms(6,7) c1(2))
  then show ?thesis
    using c1(1) Inr
    by (simp add: follows_def tr_prepare_exit_def wk_prepare_exit_def attempt_def prefix_calls_def told_def)
qed

text \<open>The replies of a run of the worker.\<close>

definition exit_replies :: "'g caller \<Rightarrow> bool \<Rightarrow> 'g run \<Rightarrow> tr_env" where
  "exit_replies call reconciling r =
     (let queried = call CallQueryRelease r; settled = call CallReconcileExit (snd queried);
          r0 = (if reconciling then snd settled else r);
          ready = call CallPrepareExit r0; removed = call CallRemoveCommit (snd ready);
          final = call CallFinalize (if reconciling \<and> fst settled \<noteq> Inr Absent then r0 else snd removed) in
      \<lparr>ev_prepare = Inr Absent, ev_bootstrap = Inr Absent, ev_restore = Inr Absent,
        ev_query_release = fst queried, ev_reconcile_exit = fst settled, ev_prepare_exit = fst ready,
        ev_pending_target = void (fst (call CallPendingTarget (snd ready))),
        ev_remove_commit = fst removed, ev_finalize = fst final,
        ev_advance = (case (reconciling, fst queried) of
          (True, Inr (Evid ev)) \<Rightarrow> advanced call ev (snd queried)
        | _ \<Rightarrow> (case fst final of Inr (Evid ev) \<Rightarrow> advanced call ev (snd final) | _ \<Rightarrow> (Inr (), Inr ())))\<rparr>)"

lemma settled_follows:
  assumes "unread call" and "fst (call CallQueryRelease r) = Inr Absent"
    and "fst (call CallReconcileExit (snd (call CallQueryRelease r))) = Inr sv"
  shows "follows call (exit_replies call True r)
    (if sv = Absent then tr_prepare_exit (exit_replies call True r) c else tr_release (exit_replies call True r) c sv)
    (if sv = Absent then wk_prepare_exit call c else wk_release call c sv)
    (snd (call CallReconcileExit (snd (call CallQueryRelease r))))"
proof (cases "sv = Absent")
  case True
  have "follows call (exit_replies call True r) (tr_prepare_exit (exit_replies call True r) c) (wk_prepare_exit call c)
      (snd (call CallReconcileExit (snd (call CallQueryRelease r))))"
    by (rule prepare_exit_follows [OF assms(1)]) (use assms True in \<open>simp_all add: exit_replies_def Let_def\<close>)
  with True show ?thesis by simp
next
  case False
  have "follows call (exit_replies call True r) (tr_release (exit_replies call True r) c sv) (wk_release call c sv)
      (snd (call CallReconcileExit (snd (call CallQueryRelease r))))"
    by (rule release_follows [OF assms(1)]) (use assms False in \<open>simp_all add: exit_replies_def Let_def\<close>)
  with False show ?thesis by simp
qed

lemma exit_follows:
  assumes "unread call"
  shows "follows call (exit_replies call reconciling r) (tr_exit (exit_replies call reconciling r) c reconciling)
    (wk_exit call c reconciling) r"
proof (cases reconciling)
  case False
  then show ?thesis unfolding tr_exit_def wk_exit_def
    by (simp, intro prepare_exit_follows [OF assms]) (simp_all add: exit_replies_def Let_def)
next
  case True
  let ?env = "exit_replies call True r"
  let ?q = "call CallQueryRelease r"
  let ?asked = "\<lambda>service. if service = Absent then tr_prepare_exit ?env c else tr_release ?env c service"
  let ?asking = "\<lambda>service. if service = Absent then wk_prepare_exit call c else wk_release call c service"
  have f: "ev_query_release ?env = fst ?q" "ev_reconcile_exit ?env = fst (call CallReconcileExit (snd ?q))"
    by (simp_all add: exit_replies_def Let_def)
  have prior: "follows call ?env (if p \<noteq> Absent then tr_require c p RELEASED (\<lambda>final. tr_advance ?env final (\<lambda>_. succeeded final))
        else emit CallReconcileExit (ev_reconcile_exit ?env) ?asked)
      (if p \<noteq> Absent then andthen (wk_require c p RELEASED) (\<lambda>final. andthen (wk_advance call final) (\<lambda>_. wk_succeeded final))
        else andthen (call CallReconcileExit) ?asking) (snd ?q)"
    if "fst ?q = Inr p" for p
  proof (cases "p = Absent")
    case True
    have "follows call ?env (emit CallReconcileExit (ev_reconcile_exit ?env) ?asked) (andthen (call CallReconcileExit) ?asking) (snd ?q)"
      by (rule follows_emit) (use that True settled_follows [OF assms, of r] f(2) in \<open>simp_all add: told_def\<close>)
    with True show ?thesis by simp
  next
    case False
    have "follows call ?env (tr_require c p RELEASED (\<lambda>final. tr_advance ?env final (\<lambda>_. succeeded final)))
      (andthen (wk_require c p RELEASED) (\<lambda>final. andthen (wk_advance call final) (\<lambda>_. wk_succeeded final))) (snd ?q)"
      by (rule follows_released [OF assms]) (use that in \<open>simp add: exit_replies_def Let_def\<close>)
    with False show ?thesis by simp
  qed
  have "follows call ?env (tr_exit ?env c True) (wk_exit call c True) r"
    unfolding tr_exit_def wk_exit_def if_not_P [OF HOL.notnotD] simp_thms if_False
    by (rule follows_emit) (use f(1) prior in \<open>simp_all add: told_def\<close>)
  with True show ?thesis by simp
qed

text \<open>An ADD and a RESTORE make two calls, and may then write the ledger.\<close>

definition entry_replies :: "'g caller \<Rightarrow> call \<Rightarrow> call \<Rightarrow> 'g run \<Rightarrow> tr_env" where
  "entry_replies call k1 k2 r =
     (let first = call k1 r; second = call k2 (snd first) in
      \<lparr>ev_prepare = fst first, ev_bootstrap = fst second, ev_restore = fst second,
        ev_query_release = Inr Absent, ev_reconcile_exit = Inr Absent, ev_prepare_exit = Inr Absent,
        ev_pending_target = Inr (), ev_remove_commit = Inr Absent, ev_finalize = Inr Absent,
        ev_advance = (case (k2, fst first) of
          (CallBootstrap, Inr (Evid ev)) \<Rightarrow>
            if e_type ev = RELEASED then advanced call ev (snd first)
            else (case fst second of Inr (Evid ev) \<Rightarrow> advanced call ev (snd second) | _ \<Rightarrow> (Inr (), Inr ()))
        | _ \<Rightarrow> (case fst second of Inr (Evid ev) \<Rightarrow> advanced call ev (snd second) | _ \<Rightarrow> (Inr (), Inr ())))\<rparr>)"

abbreviation booted :: "tr_env \<Rightarrow> op_command \<Rightarrow> call list \<times> outcome" where
  "booted env c \<equiv> emit CallBootstrap (ev_bootstrap env) (\<lambda>evidence.
     tr_failed_release env c evidence ''ADD bootstrap failed; hidden runtime was verified RELEASED''
       (\<lambda>_. tr_require c evidence SERVICE_COMMITTED succeeded))"

abbreviation booting :: "'g caller \<Rightarrow> op_command \<Rightarrow> 'g worker" where
  "booting call c \<equiv> andthen (call CallBootstrap) (\<lambda>evidence.
     wk_failed_release call c evidence ''ADD bootstrap failed; hidden runtime was verified RELEASED''
       (andthen (wk_require c evidence SERVICE_COMMITTED) wk_succeeded))"

lemma boot_follows:
  assumes "unread call" and "ev_bootstrap env = fst (call CallBootstrap r)"
    and "\<And>ev. ev_bootstrap env = Inr (Evid ev) \<Longrightarrow> ev_advance env = advanced call ev (snd (call CallBootstrap r))"
  shows "follows call env (booted env c) (booting call c) r"
proof (rule follows_emit)
  fix v assume v: "ev_bootstrap env = Inr v"
  have a: "ev_advance env = advanced call ev (snd (call CallBootstrap r))" if "v = Evid ev" for ev
    using assms(3) v that by simp
  show "follows call env (tr_failed_release env c v ''ADD bootstrap failed; hidden runtime was verified RELEASED''
        (\<lambda>_. tr_require c v SERVICE_COMMITTED succeeded))
      (wk_failed_release call c v ''ADD bootstrap failed; hidden runtime was verified RELEASED''
        (andthen (wk_require c v SERVICE_COMMITTED) wk_succeeded)) (snd (call CallBootstrap r))"
    by (rule follows_failed_release [OF assms(1)], erule a, rule follows_require)
      (simp add: succeeded_def wk_succeeded_def)
qed (simp_all add: told_def assms(2))

lemma add_follows:
  assumes "unread call" and "tr_build_spec c l = Inr sp"
  shows "follows call (entry_replies call (CallPrepare (Some sp)) CallBootstrap r)
    (tr_add (entry_replies call (CallPrepare (Some sp)) CallBootstrap r) c (Some l)) (wk_add call c (Some l)) r"
proof -
  let ?env = "entry_replies call (CallPrepare (Some sp)) CallBootstrap r"
  let ?r1 = "snd (call (CallPrepare (Some sp)) r)"
  have f: "ev_prepare ?env = fst (call (CallPrepare (Some sp)) r)" "ev_bootstrap ?env = fst (call CallBootstrap ?r1)"
    by (simp_all add: entry_replies_def Let_def)
  have "follows call ?env (emit (CallPrepare (Some sp)) (ev_prepare ?env) (\<lambda>prepared.
        tr_failed_release ?env c prepared ''ADD prepare failed; no borrower runtime remains'' (\<lambda>_. booted ?env c)))
      (andthen (call (CallPrepare (Some sp))) (\<lambda>prepared.
        wk_failed_release call c prepared ''ADD prepare failed; no borrower runtime remains'' (booting call c))) r"
  proof (rule follows_emit)
    fix x assume "ev_prepare ?env = Inr x"
    then have x: "fst (call (CallPrepare (Some sp)) r) = Inr x" by (simp add: f)
    have a: "ev_advance ?env = advanced call ev ?r1" if "x = Evid ev" "e_type ev = RELEASED" for ev
      using x that by (simp add: entry_replies_def Let_def)
    have b: "ev_advance ?env = advanced call ev (snd (call CallBootstrap ?r1))"
      if "\<forall>ev. x = Evid ev \<longrightarrow> e_type ev \<noteq> RELEASED" "ev_bootstrap ?env = Inr (Evid ev)" for ev
      using x that f by (cases x) (auto simp: entry_replies_def Let_def)
    show "follows call ?env (tr_failed_release ?env c x ''ADD prepare failed; no borrower runtime remains'' (\<lambda>_. booted ?env c))
        (wk_failed_release call c x ''ADD prepare failed; no borrower runtime remains'' (booting call c)) ?r1"
      by (rule follows_failed_release [OF assms(1)], erule (1) a, rule boot_follows [OF assms(1) f(2)], erule (1) b)
  qed (simp_all add: told_def f(1))
  then show ?thesis by (simp add: tr_add_def wk_add_def assms(2))
qed

lemma restore_follows:
  assumes "unread call"
  shows "follows call (entry_replies call (CallPrepare None) CallRestore r)
    (tr_restore (entry_replies call (CallPrepare None) CallRestore r) c) (wk_restore call c) r"
  unfolding tr_restore_def wk_restore_def
proof (rule follows_emit)
  let ?env = "entry_replies call (CallPrepare None) CallRestore r" and ?r1 = "snd (call (CallPrepare None) r)"
  have f: "ev_restore ?env = fst (call CallRestore ?r1)" by (simp add: entry_replies_def Let_def)
  show "follows call ?env (emit CallRestore (ev_restore ?env) (\<lambda>evidence.
        tr_failed_release ?env c evidence ''RESTORE bootstrap failed; native runtime was verified re-slept''
          (\<lambda>_. tr_require c evidence SERVICE_COMMITTED (\<lambda>final. tr_advance ?env final (\<lambda>_. succeeded final)))))
      (andthen (call CallRestore) (\<lambda>evidence.
        wk_failed_release call c evidence ''RESTORE bootstrap failed; native runtime was verified re-slept''
          (andthen (wk_require c evidence SERVICE_COMMITTED)
            (\<lambda>final. andthen (wk_advance call final) (\<lambda>_. wk_succeeded final))))) ?r1"
  proof (rule follows_emit)
    fix x assume "ev_restore ?env = Inr x"
    then have a: "ev_advance ?env = advanced call ev (snd (call CallRestore ?r1))" if "x = Evid ev" for ev
      using that f by (simp add: entry_replies_def Let_def)
    show "follows call ?env (tr_failed_release ?env c x ''RESTORE bootstrap failed; native runtime was verified re-slept''
          (\<lambda>_. tr_require c x SERVICE_COMMITTED (\<lambda>final. tr_advance ?env final (\<lambda>_. succeeded final))))
        (wk_failed_release call c x ''RESTORE bootstrap failed; native runtime was verified re-slept''
          (andthen (wk_require c x SERVICE_COMMITTED)
            (\<lambda>final. andthen (wk_advance call final) (\<lambda>_. wk_succeeded final)))) (snd (call CallRestore ?r1))"
      by (rule follows_failed_release [OF assms], erule a, rule follows_released [OF assms]) (erule a)
  qed (simp_all add: told_def f)
qed (simp_all add: told_def entry_replies_def Let_def)

text \<open>
  The two models of an operation agree: for every run of the worker on the services there are
  replies on which the body of the operation makes the same calls in the same order, each answered
  exactly so, and ends with the same outcome. What holds of the body for all replies (the order of the
  calls, what SUCCEEDED and FAILED require) therefore holds of the worker on the services.
\<close>

theorem worker_runs_body:
  "\<exists>env calls. tr_body env c snapshot reconciling =
       (calls, outcome_of (fst (wk_body (perform C T c) c snapshot reconciling r)))
     \<and> answered (perform C T c) env False calls r = Some (snd (wk_body (perform C T c) c snapshot reconciling r))"
proof -
  let ?call = "perform C T c"
  have "\<exists>env. follows ?call env (tr_body env c snapshot reconciling) (wk_body ?call c snapshot reconciling) r"
  proof (cases "c_kind c")
    case ADD
    have "\<exists>env. follows ?call env (tr_add env c snapshot) (wk_add ?call c snapshot) r"
    proof (cases snapshot)
      case None
      then show ?thesis by (simp add: tr_add_def wk_add_def)
    next
      case (Some l)
      show ?thesis
      proof (cases "tr_build_spec c l")
        case (Inl e)
        with Some show ?thesis by (simp add: tr_add_def wk_add_def)
      qed (use add_follows [OF perform_unread] Some in blast)
    qed
    with ADD show ?thesis by (simp add: tr_body_def wk_body_def)
  next
    case RESTORE
    with restore_follows [OF perform_unread, of C T c r c] show ?thesis by (auto simp: tr_body_def wk_body_def)
  next
    case DONATE
    with exit_follows [OF perform_unread, of C T c reconciling r c] show ?thesis by (auto simp: tr_body_def wk_body_def)
  next
    case REMOVE
    with exit_follows [OF perform_unread, of C T c reconciling r c] show ?thesis by (auto simp: tr_body_def wk_body_def)
  qed
  then show ?thesis unfolding follows_def by (metis prod.collapse)
qed

end
