(* ===== verification/Worker_Safety.thy ===== *)
theory Worker_Safety
  imports Worker Borrow_Spec
begin

text \<open>
  What the worker of an operation achieves on the services (theory \<open>Worker\<close>): the guarantees of the
  single calls, composed in the order the worker makes them. A SUCCEEDED exit has released its replica, a
  SUCCEEDED ADD or RESTORE has it in service, and a FAILED operation left nothing of it behind.
\<close>

section \<open>No coroutine changes its schedule\<close>

definition tame :: "('g, 'a) coro \<Rightarrow> bool" where
  "tame m \<longleftrightarrow> (\<forall>r. r_sched (snd (m r)) = r_sched r)"

lemma tameD: "tame m \<Longrightarrow> m r = (x, r') \<Longrightarrow> r_sched r' = r_sched r"
  unfolding tame_def by (metis snd_conv)

lemma tame_basic [simp]:
  "tame (ret x)" "tame (raise e)" "tame (sync f)" "tame (lift_res y)" "tame outside" "tame (pause d)"
  by (auto simp: tame_def ret_def raise_def sync_def lift_res_def outside_def pause_def others_before_def
      others_after_def split: prod.splits sum.splits)

lemma tame_guard [intro!]: "tame m \<Longrightarrow> tame (guard_that ok e m)"
  by (simp add: guard_that_def)

lemma tame_look [intro!]: "(\<And>a. tame (k a)) \<Longrightarrow> tame (look f k)"
  by (simp add: tame_def look_def)

lemma tame_at: "(\<And>t. tame (m t)) \<Longrightarrow> tame (\<lambda>r. m (f r) r)"
  by (simp add: tame_def)

lemma tame_caught [intro!]: "tame m \<Longrightarrow> (\<And>x. tame (k x)) \<Longrightarrow> tame (caught m k)"
  by (auto simp: tame_def caught_def split: prod.splits) (metis snd_conv)

lemma tame_andthen [intro!]: "tame m \<Longrightarrow> (\<And>x. tame (k x)) \<Longrightarrow> tame (andthen m k)"
  by (auto simp: tame_def andthen_def split: prod.splits sum.splits) (metis snd_conv)+

lemma tame_rescue [intro!]: "tame m \<Longrightarrow> (\<And>e. tame (h e)) \<Longrightarrow> tame (rescue m h)"
  by (auto simp: tame_def rescue_def split: prod.splits sum.splits) (metis snd_conv)+

lemma tame_attempt [intro!]: "tame m \<Longrightarrow> (\<And>e. tame (h e)) \<Longrightarrow> (\<And>x. tame (k x)) \<Longrightarrow> tame (attempt m h k)"
  by (auto simp: tame_def attempt_def split: prod.splits sum.splits) (metis snd_conv)+

lemma tame_remote [intro!]: "tame m \<Longrightarrow> tame (remote m)"
  by (auto simp: tame_def remote_def Let_def others_before_def others_after_def split_beta split: fate.splits)

lemma tame_retry_read: "tame m \<Longrightarrow> tame (retry_read k d m)"
  by (induction k d m rule: retry_read.induct) auto

lemma tame_query [simp]: "tame (query f)"
  unfolding query_def by auto

lemma tame_calls [simp]:
  "tame (on_mgr f)" "tame (call_lb h)" "tame (read_lb g)" "tame (stamp oid ty us)" "tame (bind_target oid key)"
  "tame (unbind_target oid)" "tame (drop_recovery oid)" "tame (set_state key st)" "tame (set_recovery oid rs n)"
  "tame (update_capacity C)" "tame (ro_unsettled sid)" "tame (ro_handoff_state oid sid)"
  unfolding on_mgr_def call_lb_def read_lb_def stamp_def bind_target_def unbind_target_def drop_recovery_def set_state_def
    set_recovery_def update_capacity_def ro_unsettled_def ro_handoff_state_def
  by (auto intro: tame_retry_read)

lemma tame_natural_wait [simp]: "tame (ro_natural_wait sid d)"
  unfolding tame_def
proof
  fix r show "r_sched (snd (ro_natural_wait sid d r)) = r_sched r"
  proof (induction sid d r rule: ro_natural_wait.induct)
    case (1 sid d r)
    obtain x r1 where u: "ro_unsettled sid r = (x, r1)" by fastforce
    have s: "r_sched r1 = r_sched r" using tame_calls(11) [of sid] u unfolding tame_def by (metis snd_conv)
    have p: "r_sched (snd (pause k r1)) = r_sched r1" for k
      using tame_basic(6) unfolding tame_def by blast
    show ?case
      using 1 [OF u [symmetric]] s p unfolding ro_natural_wait.simps [of sid d r]
      by (cases x) (auto simp: u split: bool.split)
  qed
qed

lemma tame_force_wait [simp]: "tame (ro_force_wait oid sid admitted aborted d)"
  unfolding tame_def
proof
  fix r show "r_sched (snd (ro_force_wait oid sid admitted aborted d r)) = r_sched r"
  proof (induction oid sid admitted aborted d r rule: ro_force_wait.induct)
    case (1 oid sid admitted aborted d r)
    obtain x r1 where u: "ro_handoff_state oid sid r = (x, r1)" by fastforce
    have s: "r_sched r1 = r_sched r" using tame_calls(12) [of oid sid] u unfolding tame_def by (metis snd_conv)
    have p: "r_sched (snd (pause k r1)) = r_sched r1" for k
      using tame_basic(6) unfolding tame_def by blast
    show ?case
      using 1 [OF u [symmetric]] s p unfolding ro_force_wait.simps [of oid sid admitted aborted d r]
      by (cases x) (auto simp: u)
  qed
qed

lemma tame_waits [simp]:
  "tame (\<lambda>r. ro_natural_wait sid (f r) r)" "tame (\<lambda>r. ro_force_wait oid sid admitted aborted (f r) r)"
  by (rule tame_at, simp)+

lemma tame_admitted [simp]: "tame (ro_admitted rs)"
  by (induction rs) auto

text \<open>A guarantee holds under every stronger assumption about the others.\<close>

lemma triple_rely:
  assumes "triple R' P m Q" and "tame m" and "\<And>g g'. R g g' \<Longrightarrow> R' g g'"
  shows "triple R P m Q"
  using assms unfolding triple_def tame_def obeys_def by simp

lemma tame_prepare_exit [simp]: "tame (ro_prepare_exit C key oid force)"
  unfolding ro_prepare_exit_def ro_prepare_force_def ro_prepare_natural_def ro_force_drain_def ro_begin_drain_def
    ro_recovery_def ro_force_abort_def ro_abort_all_def Let_def
  by (auto split: option.split list.split pyval.split)

lemma tame_commit_service [simp]: "tame (ro_commit_service C oid)"
  unfolding ro_commit_service_def ro_reconcile_active_def ro_publish_borrowed_def ro_publish_native_def ro_commit_exit_def
    ro_conclude_def ro_retract_def ro_activate_def ro_commit_ready_def quarantine_from_def
  by (auto split: option.split replica_state.split exn.split)

lemma tame_finalize [simp]: "tame (ro_finalize oid)"
  unfolding ro_finalize_def ro_release_def ro_sleep_def ro_destroy_def by (auto split: sum.split)

lemma tame_prepare [simp]: "tame (ro_prepare C key oid sp)"
  unfolding ro_prepare_def ro_prepare_restore_def ro_failed_create_def ro_create_def
  by (auto split: option.split create_begin.split)

lemma tame_gate_at [simp]: "tame (on_gate f)" "tame (\<lambda>r. on_gate (gate_acquire_granted (r_time r) oid kind) r)"
proof -
  show on: "tame (on_gate f)" for f :: "gate \<Rightarrow> 'd res \<times> gate" by (simp add: on_gate_def)
  show "tame (\<lambda>r. on_gate (gate_acquire_granted (r_time r) oid kind) r)"
    by (rule tame_at [of "\<lambda>t. on_gate (gate_acquire_granted t oid kind)" r_time]) (simp add: on_gate_def)
qed

lemma tame_gate [simp]:
  "tame (on_ce h)" "tame tn_wait_lock" "tame (tn_acquire oid kind)" "tame (tn_release ow)"
  "tame (block_and_raise ow reason e)" "tame (tn_target oid)" "tame (tn_commit_service C oid)" "tame (tn_finalize oid)"
  "tame (tn_require found oid ty)"
  unfolding on_ce_def tn_wait_lock_def tn_acquire_def tn_release_def block_and_raise_def tn_block_def tn_target_def
    tn_commit_service_def tn_finalize_def tn_require_def
  by (auto split: option.split)

lemma tame_tn_guard [intro!]: "tame m \<Longrightarrow> tame (tn_guard ow m)"
  unfolding tn_guard_def by auto

lemma tame_lease [intro!]: "(\<And>ow. tame (body ow)) \<Longrightarrow> tame (with_lease oid kind body)"
  unfolding with_lease_def by auto

lemma tame_tn_reconcile [intro!]:
  assumes "tame m"
  shows "tame (tn_reconcile oid m)"
proof -
  let ?rest = "\<lambda>now. andthen (on_gate (\<lambda>g. case gate_reconcile_granted now oid g of (x, g') \<Rightarrow> (Inr x, g')))
    (\<lambda>granted. case granted of Some (Inl e) \<Rightarrow> raise e | Some (Inr _) \<Rightarrow> ret None
     | None \<Rightarrow> caught m (\<lambda>x. andthen (on_gate (gate_reconcile_end (void x))) (\<lambda>_. andthen (lift_res x) (\<lambda>ev. ret (Some ev)))))"
  have "tame (?rest now)" for now using assms by (auto split: option.split sum.split)
  then have "tame (\<lambda>r. ?rest (r_time r) r)" by (rule tame_at)
  then show ?thesis unfolding tn_reconcile_def by (auto split: option.split sum.split)
qed

lemma tame_quarantine_dormant [simp]: "tame (ro_quarantine_dormant oid)"
  unfolding ro_quarantine_dormant_def by auto

lemma tame_reconcile_publish [simp]: "tame (tn_reconcile_publish C T oid native)"
  unfolding tn_reconcile_publish_def tn_settle_publish_def by (auto split: option.split)

lemma tame_bootstrap [simp]: "tame (tn_bootstrap T target oid)" "tame (tn_commit_pending T target ev)" "tame (tn_discard target)"
  unfolding tn_bootstrap_def tn_commit_pending_def tn_discard_def by auto

lemma tame_add [simp]: "tame (tn_add C T oid)"
  unfolding tn_add_def tn_add_register_def tn_add_rollback_def tn_weights_def tn_add_service_def
  by (auto split: option.split sum.split)

lemma tame_restore [simp]: "tame (tn_restore C T oid)"
  unfolding tn_restore_def tn_unpark_def tn_restore_body_def tn_restore_service_def tn_restore_failed_def
  by (auto split: option.split sum.split)

lemma tame_remove [simp]: "tame (tn_remove C T oid)"
  unfolding tn_remove_def tn_remove_member_def tn_remove_service_def by (auto split: option.split)

section \<open>What the others leave alone\<close>

text \<open>
  While a worker runs, nobody else fences the gate in the name of its operation, creates a borrowed replica
  on its lease, or changes the evidence the scheduler recorded for it: what \<open>tn_rely\<close> adds up to between
  the calls of one operation.
\<close>

definition wd_rely ::
    "('n, nat, 'x) native_router \<Rightarrow> op_command \<Rightarrow> ('n, 'c, 'z) world_scheme \<Rightarrow> ('n, 'c, 'z) world_scheme \<Rightarrow> bool" where
  "wd_rely N c g g' \<longleftrightarrow> tn_rely N (c_operation_id c) (c_target c) g g'
     \<and> (gate_fences (c_operation_id c) (tn_gate g') \<longrightarrow> gate_fences (c_operation_id c) (tn_gate g))
     \<and> (map_of (m_borrowed (ro_mgr g)) (c_lease_id c) = None \<longrightarrow> map_of (m_borrowed (ro_mgr g')) (c_lease_id c) = None)
     \<and> (\<forall>ev. gs_evidence (wd_ledger g) (c_lease_id c, c_operation_id c) = Some ev \<longrightarrow>
          gs_evidence (wd_ledger g') (c_lease_id c, c_operation_id c) = Some ev)"

text \<open>The steps of the gate and of the scheduler justify it.\<close>

lemma others_never_fence:
  assumes "gate_step e c c'" and "\<And>ow reason. e = EBlock ow reason \<Longrightarrow> o_operation_id ow \<noteq> oid"
    and "gate_fences oid (cfg_gate c')"
  shows "gate_fences oid (cfg_gate c)"
  using assms
  by (cases rule: gate_stepE)
    (auto simp: gate_fences_def gate_healthy_def gate_block_def gate_release_def gate_acquire_granted_def
      gate_reconcile_granted_def gate_reconcile_end_def Let_def split: if_splits sum.splits)

lemma recorded_stays:
  "gs_evidence g k = Some ev \<Longrightarrow> gs_evidence (fold gs_step es g) k = Some ev"
  by (induction es arbitrary: g) (auto intro: gs_evidence_kept)

lemma wd_tn: "wd_rely N c g g' \<Longrightarrow> tn_rely N (c_operation_id c) (c_target c) g g'"
  by (simp add: wd_rely_def)

lemma wd_ro: "wd_rely N c g g' \<Longrightarrow> ro_rely N (c_operation_id c) (c_target c) g g'"
  by (simp add: wd_rely_def tn_rely_def)

lemma wd_stable: "stable (tn_rely N (c_operation_id c) (c_target c)) P \<Longrightarrow> stable (wd_rely N c) P"
  unfolding stable_def by (blast dest: wd_tn)

text \<open>A remote call with its guarantee: the answer may be lost after it, or the call before it.\<close>

lemma triple_ask:
  assumes "triple R P m (after_res S L)" and "stable R P" and "\<And>a. stable R (S a)" and "\<And>e. stable R (L e)"
    and "\<And>a e g. S a g \<Longrightarrow> L e g" and "\<And>e g. P g \<Longrightarrow> L e g" and "\<And>e e' g. L e g \<Longrightarrow> L e' g"
  shows "triple R P (replying f (remote m)) (after_res (\<lambda>y g. \<exists>a. y = f a \<and> S a g) L)"
proof -
  have "triple R P (remote m) (after_res S L)"
  proof (rule triple_remote [OF assms(2)])
    show "stable R (after_res S L x)" for x using assms(3,4) by (cases x) simp_all
    show "triple R P m (\<lambda>x g. after_res S L x g \<and> (\<forall>e. after_res S L (Inl e) g))"
      by (rule triple_post [OF assms(1)]) (use assms(5,7) in \<open>auto split: sum.splits\<close>)
  qed (use assms(6) in simp)
  then show ?thesis unfolding replying_def by (rule triple_then) (auto intro!: triple_ret)
qed

text \<open>Writing the ledger, which may be repeated once: an answer means that the evidence is recorded.\<close>

definition recorded :: "op_command \<Rightarrow> op_evidence \<Rightarrow> ('n, 'c, 'z) world_scheme \<Rightarrow> bool" where
  "recorded c ev g \<longleftrightarrow> gs_evidence (wd_ledger g) (c_lease_id c, c_operation_id c) = Some ev"

definition ledgerless :: "(('n, 'c, 'z) world_scheme \<Rightarrow> bool) \<Rightarrow> bool" where
  "ledgerless P \<longleftrightarrow> (\<forall>g x. P (g\<lparr>wd_ledger := x\<rparr>) = P g)"

lemma accounted_stable [simp]: "stable (wd_rely N c) (recorded c ev)"
  by (simp add: stable_def recorded_def wd_rely_def)

lemma advance_triple:
  assumes "stable (wd_rely N c) P" and "ledgerless P" and "e_operation_id ev = c_operation_id c"
  shows "triple (wd_rely N c) P (wk_advance (perform C T c) ev) (after_res (\<lambda>_ g. recorded c ev g \<and> P g) (\<lambda>_. P))"
proof -
  have once: "triple (wd_rely N c) P (perform C T c (CallAdvance ev)) (after_res (\<lambda>_ g. recorded c ev g \<and> P g) (\<lambda>_. P))"
  proof -
    have "triple (wd_rely N c) P (remote (on_ledger (gs_advance_lease (c_lease_id c) ev)))
        (after_res (\<lambda>_ g. recorded c ev g \<and> P g) (\<lambda>_. P))"
    proof (rule triple_remote [OF assms(1)])
      show "stable (wd_rely N c) (after_res (\<lambda>_ g. recorded c ev g \<and> P g) (\<lambda>_. P) x)" for x :: "advance_result res"
        using assms(1) by (cases x) auto
      have "recorded c ev (g\<lparr>wd_ledger := snd (gs_advance_lease (c_lease_id c) ev (wd_ledger g))\<rparr>)"
        if ok: "fst (gs_advance_lease (c_lease_id c) ev (wd_ledger g)) = Inr res" for g res
      proof -
        obtain L where "gs_advance_lease (c_lease_id c) ev (wd_ledger g) = (Inr res, L)"
          using ok by (cases "gs_advance_lease (c_lease_id c) ev (wd_ledger g)") simp
        from gs_advance_success [OF this] this assms(3) show ?thesis by (auto simp: recorded_def)
      qed
      then show "triple (wd_rely N c) P (on_ledger (gs_advance_lease (c_lease_id c) ev))
          (\<lambda>x g. after_res (\<lambda>_ g. recorded c ev g \<and> P g) (\<lambda>_. P) x g
            \<and> (\<forall>e. after_res (\<lambda>_ g. recorded c ev g \<and> P g) (\<lambda>_. P) (Inl e :: advance_result res) g))"
        unfolding on_ledger_def using assms(2)
        by (intro triple_sync) (auto simp: ledgerless_def split: sum.split)
    qed simp
    then show ?thesis unfolding perform_def replying_def Let_def call.case
      by (rule triple_then) (auto intro: triple_ret)
  qed
  show ?thesis unfolding wk_advance_def by (rule triple_try [OF once _ once]) simp
qed

lemma wk_require_triple:
  assumes "\<And>g ev. r = Evid ev \<Longrightarrow> P g \<Longrightarrow> e_operation_id ev = c_operation_id c \<Longrightarrow> e_type ev = ty \<Longrightarrow> S ev g"
    and "\<And>e g. P g \<Longrightarrow> F e g"
  shows "triple R P (wk_require c r ty) (after_res S F)"
  unfolding wk_require_def
  by (rule triple_lift) (use assms in \<open>cases r; auto simp: require_evidence_def split: if_splits\<close>)+

section \<open>Exits\<close>

lemma triple_conj: "triple R P m Q \<Longrightarrow> triple R P m Q' \<Longrightarrow> triple R P m (\<lambda>x g. Q x g \<and> Q' x g)"
  unfolding triple_def by blast

text \<open>What the preparation of an exit leaves alone.\<close>

definition serving :: "string \<Rightarrow> replica_key \<Rightarrow> replica_kind \<Rightarrow> nat list \<Rightarrow> ('n, 'c, 'z) tn_scheme \<Rightarrow> bool" where
  "serving oid target kd rs g \<longleftrightarrow> m_kind (ro_mgr g) target = Some kd \<and> published_as oid g = None
     \<and> member target (tn_ce g) = Some rs"

lemma serving_stable [simp]: "stable (tn_rely N oid target) (serving oid target kd rs)"
  by (auto simp: stable_def serving_def tn_rely_def ro_rely_def)

lemma serving_fields [simp]:
  "serving oid target kd rs (g\<lparr>ro_targets := t\<rparr>) = serving oid target kd rs g"
  "serving oid target kd rs (g\<lparr>ro_force := f\<rparr>) = serving oid target kd rs g"
  "serving oid target kd rs (g\<lparr>ro_aborts := a\<rparr>) = serving oid target kd rs g"
  by (simp_all add: serving_def published_as_def)

lemma drain_ready [simp]: "lb_ready (snd (lb_begin_drain N key oid s)) = lb_ready s"
  by (cases rule: lb_drain_cases [of N key oid s]) simp_all

lemma transition_kind [simp]: "m_kind (snd (rm_transition key st m)) = m_kind m"
  by (auto simp: rm_transition_def split: option.splits)

lemma serving_steps:
  "keeps R (serving oid target kd rs) (bind_target o' key)" "keeps R (serving oid target kd rs) (set_state key st)"
  "keeps R (serving oid target kd rs) (stamp o' ty us)" "keeps R (serving oid target kd rs) (set_recovery o' q n)"
  unfolding bind_target_def set_state_def on_mgr_def stamp_def set_recovery_def
  by (auto simp: serving_def published_as_def)

lemma serving_drain: "keeps (tn_rely N oid target) (serving oid target kd rs) (ro_begin_drain C key o')"
  unfolding ro_begin_drain_def Let_def by (auto intro!: keeps_call_lb simp: serving_def published_as_def)

lemma serving_recovery: "keeps (tn_rely N oid target) (serving oid target kd rs) (ro_recovery o' sid)"
  unfolding ro_recovery_def ro_force_abort_def ro_abort_all_def
  by (auto intro!: keeps_read_lb keeps_admitted keeps_outside serving_steps split: option.split pyval.split)

lemma serving_prepare:
  "keeps (tn_rely N oid target) (serving oid target kd rs) (ro_prepare_exit C key o' force)"
  unfolding ro_prepare_exit_def ro_prepare_force_def ro_prepare_natural_def ro_force_drain_def
  by (auto intro!: keeps_read_lb keeps_natural_wait keeps_force_wait serving_steps serving_drain serving_recovery
      split: option.split list.split)

text \<open>Either the preparation was rejected before it changed anything, or the operation is bound.\<close>

definition rejected_or_bound :: "string \<Rightarrow> replica_key \<Rightarrow> replica_state \<Rightarrow> replica_kind \<Rightarrow> ('n, 'z) ro_scheme \<Rightarrow> bool" where
  "rejected_or_bound oid target st kd g \<longleftrightarrow> sees oid target st kd None None g \<or> Rollouter_Drain.parked oid target g"

lemma rejected_stable [simp]: "stable (ro_rely N oid target) (rejected_or_bound oid target st kd)"
  unfolding rejected_or_bound_def
  by (auto simp: stable_def dest: stableD [OF sees_stable] stableD [OF parked_stable])

lemma bound_steps:
  "keeps R (Rollouter_Drain.parked oid key) (stamp o' ty us)" "keeps R (Rollouter_Drain.parked oid key) (set_recovery o' q n)"
  unfolding stamp_def set_recovery_def by (auto simp: Rollouter_Drain.parked_def)

lemma bound_drain: "keeps (ro_rely N oid target) (Rollouter_Drain.parked oid target) (ro_begin_drain C target o')"
  unfolding ro_begin_drain_def Let_def by (auto intro!: keeps_call_lb simp: Rollouter_Drain.parked_def)

lemma bound_force: "keeps (ro_rely N oid target) (Rollouter_Drain.parked oid target) (ro_force_drain C target oid sid)"
  unfolding ro_force_drain_def ro_recovery_def ro_force_abort_def ro_abort_all_def
  by (auto intro!: bound_drain keeps_read_lb keeps_admitted keeps_outside keeps_force_wait bound_steps
      simp: Rollouter_Drain.parked_def split: option.split pyval.split)

lemma bound_natural:
  "keeps (ro_rely N oid target) (Rollouter_Drain.parked oid target)
     (andthen (ro_begin_drain C target oid) (\<lambda>sid.
        guard_that (0 < rc_drain_timeout C) (ValueError ''multitask.drain_timeout_s must be positive'')
          (andthen (\<lambda>r. ro_natural_wait sid (r_time r + rc_drain_timeout C) r) (\<lambda>_. stamp oid EXIT_READY []))))"
  by (auto intro!: bound_drain keeps_natural_wait bound_steps)

lemma bind_then_bound:
  assumes "keeps R (Rollouter_Drain.parked oid target) m"
  shows "triple R (\<lambda>g. m_state (ro_mgr g) target = Some DRAINING) (andthen (bind_target oid target) (\<lambda>_. m))
    (\<lambda>_. rejected_or_bound oid target st kd)"
proof -
  have bind: "triple R (\<lambda>g. m_state (ro_mgr g) target = Some DRAINING) (bind_target oid target) (after_res (\<lambda>_. Rollouter_Drain.parked oid target) (\<lambda>_ _. False))"
    unfolding bind_target_def by (rule triple_sync) (simp add: Rollouter_Drain.parked_def)
  show ?thesis
    by (rule triple_then [OF bind], simp, rule triple_post [OF keeps_triple [OF assms]]) (simp add: rejected_or_bound_def)
qed


abbreviation unopposed :: "string \<Rightarrow> replica_key \<Rightarrow> replica_state \<Rightarrow> replica_kind \<Rightarrow> ('n, 'z) ro_scheme \<Rightarrow> bool" where
  "unopposed oid target st kd \<equiv> sees oid target st kd None None"

lemma still_unopposed: "unopposed oid target st kd g \<Longrightarrow> rejected_or_bound oid target st kd g"
  by (simp add: rejected_or_bound_def)

lemma drain_state_view:
  assumes "st = ACTIVE \<or> st = DRAINING"
  shows "triple (ro_rely N oid target) (unopposed oid target st kd) (set_state target DRAINING)
    (after_res (\<lambda>_ g. m_state (ro_mgr g) target = Some DRAINING) (\<lambda>_ _. False))"
  by (rule triple_post [OF view_steps(6) [where F = "\<lambda>_ _. False"]])
    (use assms in \<open>auto simp: validate_kind_state_def sees_def split: sum.splits\<close>)

lemma read_view:
  "triple (ro_rely N oid target) (unopposed oid target st kd) (read_lb f)
     (after_res (\<lambda>_. unopposed oid target st kd) (\<lambda>_. unopposed oid target st kd))"
  unfolding triple_same by (rule keeps_triple [OF keeps_read_lb]) simp

lemma natural_rejected:
  "triple (ro_rely N oid target) (unopposed oid target st kd) (ro_prepare_natural C target st oid)
     (\<lambda>_. rejected_or_bound oid target st kd)"
  unfolding ro_prepare_natural_def
proof (rule triple_guard)
  let ?R = "ro_rely N oid target" and ?V = "unopposed oid target st kd"
  assume st: "st = ACTIVE \<or> st = DRAINING"
  have "triple ?R ?V (if st = ACTIVE then andthen (set_state target DRAINING) (\<lambda>_. ret ()) else ret ())
      (after_res (\<lambda>_ g. m_state (ro_mgr g) target = Some DRAINING) (\<lambda>_ _. False))"
    by (rule triple_if, rule triple_then [OF drain_state_view [OF st]]) (use st in \<open>auto simp: sees_def intro: triple_ret\<close>)
  then show "triple ?R ?V (andthen (if st = ACTIVE then andthen (set_state target DRAINING) (\<lambda>_. ret ()) else ret ()) (\<lambda>_.
        andthen (bind_target oid target) (\<lambda>_. andthen (ro_begin_drain C target oid) (\<lambda>sid.
          guard_that (0 < rc_drain_timeout C) (ValueError ''multitask.drain_timeout_s must be positive'')
            (andthen (\<lambda>r. ro_natural_wait sid (r_time r + rc_drain_timeout C) r) (\<lambda>_. stamp oid EXIT_READY []))))))
      (\<lambda>_. rejected_or_bound oid target st kd)"
    by (rule triple_then [OF _ _ bind_then_bound [OF bound_natural]]) simp
qed (rule still_unopposed)

lemma force_drain_rejected:
  "triple (ro_rely N oid target) (unopposed oid target ACTIVE kd)
     (andthen (andthen (set_state target DRAINING) (\<lambda>_. bind_target oid target)) (\<lambda>_. ro_force_drain C target oid sid))
     (\<lambda>_. rejected_or_bound oid target st kd)"
proof -
  let ?R = "ro_rely N oid target"
  have bind: "triple ?R (\<lambda>g. m_state (ro_mgr g) target = Some DRAINING) (bind_target oid target) (after_res (\<lambda>_. Rollouter_Drain.parked oid target) (\<lambda>_ _. False))"
    unfolding bind_target_def by (rule triple_sync) (simp add: Rollouter_Drain.parked_def)
  have left: "triple ?R (unopposed oid target ACTIVE kd) (andthen (set_state target DRAINING) (\<lambda>_. bind_target oid target))
      (after_res (\<lambda>_. Rollouter_Drain.parked oid target) (\<lambda>_ _. False))"
    by (rule triple_then [OF drain_state_view _ bind]) simp_all
  have "triple ?R (Rollouter_Drain.parked oid target) (ro_force_drain C target oid sid) (\<lambda>_. rejected_or_bound oid target st kd)"
    by (rule triple_post [OF keeps_triple [OF bound_force]]) (simp add: rejected_or_bound_def)
  then show ?thesis by (rule triple_then [OF left, rotated]) simp
qed

lemma force_rejected:
  "triple (ro_rely N oid target) (unopposed oid target st kd) (ro_prepare_force C target kd st None oid)
     (\<lambda>_. rejected_or_bound oid target st kd)"
  unfolding ro_prepare_force_def
proof (rule triple_guard, erule still_unopposed, rule triple_guard, erule still_unopposed, rule triple_guard, erule still_unopposed,
    rule triple_then [OF read_view], erule still_unopposed)
  let ?R = "ro_rely N oid target" and ?V = "unopposed oid target st kd" and ?Q = "\<lambda>_. rejected_or_bound oid target st kd"
  let ?leave = "if st = ACTIVE then andthen (set_state target DRAINING) (\<lambda>_. bind_target oid target) else ret ()"
  let ?one = "\<lambda>sid. andthen (read_lb (\<lambda>lb. Inr (ro_servers C lb))) (\<lambda>servers.
      guard_that (\<exists>s \<in> set servers. s \<noteq> sid) (RuntimeError ''FORCE REMOVE requires another active rollout server'')
        (look (\<lambda>g. m_runtime (ro_mgr g) target) (\<lambda>runtime.
          guard_that (runtime \<noteq> None) (RuntimeError ''FORCE target runtime is unavailable'')
            (andthen ?leave (\<lambda>_. ro_force_drain C target oid sid)))))"
  assume "st = ACTIVE \<or> st = DRAINING \<and> None = Some target"
  then have st: "st = ACTIVE" by simp
  have drain: "triple ?R ?V (andthen ?leave (\<lambda>_. ro_force_drain C target oid sid)) ?Q" for sid
    using force_drain_rejected by (simp add: st)
  have one: "triple ?R ?V (?one sid) ?Q" for sid
    by (rule triple_then [OF read_view], erule still_unopposed, rule triple_guard, erule still_unopposed, rule triple_look,
        rule triple_guard, erule conjE, erule still_unopposed, rule triple_pre [OF drain]) simp
  show "triple ?R ?V (case server of
      Some (c # cs) \<Rightarrow> ?one (c # cs)
      | _ \<Rightarrow> raise (RuntimeError ''FORCE target has no active route'')) ?Q" for server
    using one still_unopposed by (auto intro!: triple_raise split: option.split list.split)
qed

lemma prepare_rejected:
  "triple (ro_rely N oid target) (unopposed oid target st kd) (ro_prepare_exit C target oid force)
     (\<lambda>_. rejected_or_bound oid target st kd)"
  unfolding ro_prepare_exit_def
proof (rule triple_guard, erule still_unopposed, rule triple_look, rule lift_then, clarify)
  let ?R = "ro_rely N oid target" and ?V = "unopposed oid target st kd" and ?Q = "\<lambda>_. rejected_or_bound oid target st kd"
  let ?go = "\<lambda>kd st b. guard_that (b \<in> {None, Some target}) (ValueError ''operation_id is already bound to another replica'')
      (if force then ro_prepare_force C target kd st b oid else ro_prepare_natural C target st oid)"
  fix meta kd' st'
  let ?P = "\<lambda>g. ?V g \<and> rm_meta target (ro_mgr g) = Inr (kd', st')"
  have go: "triple ?R (\<lambda>g. ?V g \<and> ro_targets g oid = b) (?go kd st b) ?Q" for b
  proof (rule triple_fact [where F = "b = None"])
    assume b: "b = None"
    have body: "triple ?R ?V (if force then ro_prepare_force C target kd st b oid else ro_prepare_natural C target st oid) ?Q"
      unfolding b by (simp add: force_rejected natural_rejected)
    show ?thesis by (rule triple_guard, erule conjE, erule still_unopposed, rule triple_pre [OF body], erule conjunct1)
  qed (auto simp: sees_def)
  have "triple ?R ?P (look (\<lambda>g. ro_targets g oid) (?go kd st)) ?Q"
    by (rule triple_look, rule triple_pre [OF go]) simp
  moreover have "kd' = kd \<and> st' = st" if "?P g" for g
    using that by (auto simp: rm_meta_def sees_def)
  ultimately show "triple ?R ?P (look (\<lambda>g. ro_targets g oid) (?go kd' st')) ?Q"
    by (rule_tac triple_fact [where F = "kd' = kd \<and> st' = st"]) blast+
qed (erule conjE, erule still_unopposed)

text \<open>The calls of an exit, one by one.\<close>

definition leaving :: "op_command \<Rightarrow> replica_kind \<Rightarrow> nat list \<Rightarrow> ('n, 'c, 'z) tn_scheme \<Rightarrow> bool" where
  "leaving c kd rs g \<longleftrightarrow> sees (c_operation_id c) (c_target c) DRAINING kd (Some (c_target c)) None g
     \<and> member (c_target c) (tn_ce g) = Some rs"

definition standing :: "op_command \<Rightarrow> replica_state \<Rightarrow> replica_kind \<Rightarrow> nat list \<Rightarrow> ('n, 'c, 'z) tn_scheme \<Rightarrow> bool" where
  "standing c st kd rs g \<longleftrightarrow> sees (c_operation_id c) (c_target c) st kd None None g
     \<and> member (c_target c) (tn_ce g) = Some rs"

definition rejected :: "op_command \<Rightarrow> replica_state \<Rightarrow> replica_kind \<Rightarrow> nat list \<Rightarrow> ('n, 'c, 'z) tn_scheme \<Rightarrow> bool" where
  "rejected c st kd rs g \<longleftrightarrow> rejected_or_bound (c_operation_id c) (c_target c) st kd g
     \<and> serving (c_operation_id c) (c_target c) kd rs g"

lemma member_stable: "stable (tn_rely N oid target) (\<lambda>g. member target (tn_ce g) = m)"
  by (simp add: stable_def tn_rely_def)

lemma exit_stable [simp]:
  "stable (wd_rely N c) (leaving c kd rs)" "stable (wd_rely N c) (standing c st kd rs)" "stable (wd_rely N c) (rejected c st kd rs)"
  unfolding leaving_def standing_def rejected_def
  by (intro wd_stable stable_conj member_stable serving_stable tn_stable [OF sees_stable] tn_stable [OF rejected_stable])+

lemma prepare_exit_asked:
  assumes "router_ok (rc_router C)"
  shows "triple (wd_rely (rc_router C) c) (standing c st kd rs) (perform C T c CallPrepareExit)
    (after_res (\<lambda>_. leaving c kd rs) (\<lambda>_. rejected c st kd rs))"
proof -
  let ?N = "rc_router C" and ?oid = "c_operation_id c" and ?t = "c_target c"
  let ?m = "ro_prepare_exit C ?t ?oid (c_force c = Some True)"
  have ready: "triple (tn_rely ?N ?oid ?t) (standing c st kd rs) ?m (exit_ready ?N ?oid ?t)"
    by (rule triple_rely [OF triple_pre [OF prepare_exit_view [OF assms]]]) (simp_all add: tn_ro)
  have serves: "triple (tn_rely ?N ?oid ?t) (standing c st kd rs) ?m (\<lambda>_. serving ?oid ?t kd rs)"
    by (rule triple_pre [OF keeps_triple [OF serving_prepare]]) (simp add: standing_def sees_def serving_def)
  have touched: "triple (tn_rely ?N ?oid ?t) (standing c st kd rs) ?m (\<lambda>_. rejected_or_bound ?oid ?t st kd)"
    by (rule triple_rely [OF triple_pre [OF prepare_rejected [where N = "rc_router C"]]]) (simp_all add: tn_ro standing_def)
  have "triple (tn_rely ?N ?oid ?t) (standing c st kd rs) ?m (after_res (\<lambda>_. leaving c kd rs) (\<lambda>_. rejected c st kd rs))"
    by (rule triple_post [OF triple_conj [OF ready triple_conj [OF serves touched]]])
      (auto simp: exit_ready_def drained_off_def drains_def serving_def leaving_def rejected_def sees_def split: sum.splits)
  from triple_ask [OF triple_rely [OF this tame_prepare_exit wd_tn] exit_stable(2) exit_stable(1,3), where f = Evid]
  have "triple (wd_rely ?N c) (standing c st kd rs) (perform C T c CallPrepareExit)
      (after_res (\<lambda>y g. \<exists>a. y = Evid a \<and> leaving c kd rs g) (\<lambda>_. rejected c st kd rs))"
    by (auto simp: perform_def Let_def leaving_def rejected_def standing_def sees_def serving_def rejected_or_bound_def
        Rollouter_Drain.parked_def)
  then show ?thesis by (rule triple_post) (auto split: sum.splits)
qed

text \<open>Out of service: no route, no receiver, a native replica parked.\<close>

definition withdrawn :: "'c tn_config \<Rightarrow> replica_key \<Rightarrow> nat list \<Rightarrow> ('n, 'c, 'z) tn_scheme \<Rightarrow> bool" where
  "withdrawn T target rs g \<longleftrightarrow> unrouted target g \<and> member target (tn_ce g) = None
     \<and> (tc_kind T (hd rs) = Some NATIVE \<longrightarrow> Trainer_Safety.parked target (tn_ce g) = Some rs)"

lemma withdrawn_frame [simp]:
  "stable (tn_rely N oid target) (withdrawn T target rs)" "own_frame (withdrawn T target rs)"
  "ledgerless (withdrawn T target rs)"
  by (auto simp: withdrawn_def stable_def tn_rely_def ro_rely_def unrouted_def own_frame_def ledgerless_def)

definition vacated :: "'c tn_config \<Rightarrow> op_command \<Rightarrow> replica_kind \<Rightarrow> nat list \<Rightarrow> ('n, 'c, 'z) tn_scheme \<Rightarrow> bool" where
  "vacated T c kd rs g \<longleftrightarrow> withdrawn T (c_target c) rs g
     \<and> sees (c_operation_id c) (c_target c) DRAINING kd (Some (c_target c)) None g"

definition exited :: "'c tn_config \<Rightarrow> op_command \<Rightarrow> replica_kind \<Rightarrow> nat list \<Rightarrow> ('n, 'c, 'z) tn_scheme \<Rightarrow> bool" where
  "exited T c kd rs g \<longleftrightarrow> withdrawn T (c_target c) rs g
     \<and> m_state (ro_mgr g) (c_target c) = Some (if kd = NATIVE then DORMANT else RELEASED_STATE)
     \<and> ro_targets g (c_operation_id c) = None"

lemma exit_end_stable [simp]:
  "stable (wd_rely N c) (vacated T c kd rs)" "stable (wd_rely N c) (exited T c kd rs)" "ledgerless (exited T c kd rs)"
proof -
  show "stable (wd_rely N c) (vacated T c kd rs)" unfolding vacated_def
    by (intro wd_stable stable_conj withdrawn_frame tn_stable [OF sees_stable])
  have end_state: "stable (tn_rely N (c_operation_id c) (c_target c)) (\<lambda>g. m_state (ro_mgr g) (c_target c) = x
      \<and> ro_targets g (c_operation_id c) = None)" for x
    by (simp add: stable_def tn_rely_def ro_rely_def)
  show "stable (wd_rely N c) (exited T c kd rs)" unfolding exited_def
    by (rule wd_stable, rule stable_conj [OF withdrawn_frame(1) end_state])
  show "ledgerless (exited T c kd rs)"
    by (simp add: exited_def ledgerless_def withdrawn_def unrouted_def)
qed

lemma remove_asked:
  assumes "c_operation_id c \<noteq> []"
  shows "triple (wd_rely (rc_router C) c) (leaving c kd rs) (perform C T c CallRemoveCommit)
    (after_res (\<lambda>_. vacated T c kd rs) (\<lambda>_ _. True))"
proof -
  let ?N = "rc_router C" and ?oid = "c_operation_id c" and ?t = "c_target c"
  have "triple (tn_rely ?N ?oid ?t) (leaving c kd rs) (tn_remove C T ?oid) (removal T ?oid ?t kd rs)"
    unfolding tn_remove_def leaving_def
    by (rule triple_guard [OF _ remove_lease_triple [OF assms]]) (simp add: removal_def)
  then have "triple (tn_rely ?N ?oid ?t) (leaving c kd rs) (tn_remove C T ?oid) (after_res (\<lambda>_. vacated T c kd rs) (\<lambda>_ _. True))"
    by (rule triple_post) (auto simp: removal_def vacated_def withdrawn_def split: sum.splits)
  from triple_ask [OF triple_rely [OF this tame_remove wd_tn] exit_stable(1) exit_end_stable(1), where f = Evid]
  have "triple (wd_rely ?N c) (leaving c kd rs) (perform C T c CallRemoveCommit)
      (after_res (\<lambda>y g. \<exists>a. y = Evid a \<and> vacated T c kd rs g) (\<lambda>_ _. True))"
    by (simp add: perform_def Let_def)
  then show ?thesis by (rule triple_post) (auto split: sum.splits)
qed

lemma finalize_asked:
  assumes "c_operation_id c \<noteq> []"
  shows "triple (wd_rely N c) (vacated T c kd rs) (perform C T' c CallFinalize)
    (after_res (\<lambda>_. exited T c kd rs) (\<lambda>_ _. True))"
proof -
  let ?oid = "c_operation_id c" and ?t = "c_target c"
  have "triple (tn_rely N ?oid ?t)
      (\<lambda>g. withdrawn T ?t rs g \<and> sees ?oid ?t DRAINING kd (Some ?t) None g) (ro_finalize ?oid)
      (\<lambda>x g. withdrawn T ?t rs g \<and> release_post ?oid ?t kd x g)"
    by (rule triple_both [OF finalize_triple [OF assms] keeps_finalize]) simp_all
  then have "triple (tn_rely N ?oid ?t) (vacated T c kd rs) (ro_finalize ?oid) (after_res (\<lambda>_. exited T c kd rs) (\<lambda>_ _. True))"
    unfolding vacated_def by (rule triple_post) (auto simp: release_post_def exited_def sees_def split: sum.splits)
  from triple_ask [OF triple_rely [OF this tame_finalize wd_tn] exit_end_stable(1,2), where f = Evid]
  have "triple (wd_rely N c) (vacated T c kd rs) (perform C T' c CallFinalize)
      (after_res (\<lambda>y g. \<exists>a. y = Evid a \<and> exited T c kd rs g) (\<lambda>_ _. True))"
    by (simp add: perform_def Let_def)
  then show ?thesis by (rule triple_post) (auto split: sum.splits)
qed

text \<open>What the worker ends with.\<close>

abbreviation accounted :: "op_command \<Rightarrow> evidence_type \<Rightarrow> ('n, 'c, 'z) world_scheme \<Rightarrow> bool" where
  "accounted c ty g \<equiv> \<exists>ev. e_operation_id ev = c_operation_id c \<and> e_type ev = ty \<and> recorded c ev g"

lemma release_worker:
  assumes "c_operation_id c \<noteq> []"
  shows "triple (wd_rely N c) (vacated T c kd rs) (wk_release (perform C T' c) c sv)
    (after_res (\<lambda>(st, m) g. st = SUCCEEDED \<and> accounted c RELEASED g \<and> exited T c kd rs g) (\<lambda>_ _. True))" (is "triple ?R _ _ ?Q")
proof -
  let ?V = "vacated T c kd rs" and ?D = "exited T c kd rs"
  have req1: "triple ?R ?V (wk_require c sv SERVICE_COMMITTED) (after_res (\<lambda>_. ?V) (\<lambda>_ _. True))"
    by (rule wk_require_triple) simp_all
  have req2: "triple ?R ?D (wk_require c r RELEASED)
      (after_res (\<lambda>ev g. (e_operation_id ev = c_operation_id c \<and> e_type ev = RELEASED) \<and> ?D g) (\<lambda>_ _. True))" for r
    by (rule wk_require_triple) simp_all
  have adv: "triple ?R (\<lambda>g. (e_operation_id ev = c_operation_id c \<and> e_type ev = RELEASED) \<and> ?D g)
      (andthen (wk_advance (perform C T' c) ev) (\<lambda>_. wk_succeeded ev)) ?Q" for ev
    by (rule triple_some, rule triple_then [OF advance_triple [where P = ?D]])
      (auto intro!: triple_ret simp: wk_succeeded_def)
  show ?thesis unfolding wk_release_def
    by (rule triple_then [OF req1], simp, rule triple_then [OF finalize_asked [OF assms]], simp,
        rule triple_then [OF req2 _ adv]) simp
qed

definition exit_end :: "'c tn_config \<Rightarrow> op_command \<Rightarrow> replica_kind \<Rightarrow> nat list \<Rightarrow> op_status \<Rightarrow> ('n, 'c, 'z) world_scheme \<Rightarrow> bool" where
  "exit_end T c kd rs st g \<longleftrightarrow> st = FAILED \<or> st = SUCCEEDED \<and> accounted c RELEASED g \<and> exited T c kd rs g"

lemma rejected_worker:
  "triple R P (wk_rejected call e) (after_res (\<lambda>(st, m) _. st = FAILED) (\<lambda>_ _. True))"
  if "\<And>k. tame (call k)"
  unfolding triple_def
proof (intro allI impI)
  fix r assume r: "obeys R r" "P (r_now r)"
  obtain x r1 where c: "call CallPendingTarget r = (x, r1)" by fastforce
  have "obeys R r1" using tameD [OF that c] r(1) by (simp add: obeys_def)
  then show "obeys R (snd (wk_rejected call e r))
      \<and> after_res (\<lambda>(st, m) _. st = FAILED) (\<lambda>_ _. True) (fst (wk_rejected call e r)) (r_now (snd (wk_rejected call e r)))"
    by (cases x) (auto simp: wk_rejected_def attempt_def c ret_def raise_def split: exn.split)
qed

lemma tame_perform [simp]: "tame (perform C T c k)"
proof -
  have "tame (tn_reconcile_exit C T oid)" for oid
    unfolding tn_reconcile_exit_def by (auto split: option.split)
  moreover have "tame (on_ledger f)" for f :: "gs \<Rightarrow> 'x res \<times> gs" by (simp add: on_ledger_def)
  ultimately show ?thesis
    unfolding perform_def Let_def replying_def by (cases k) auto
qed

lemma exit_worker:
  assumes "router_ok (rc_router C)" and "c_operation_id c \<noteq> []"
  shows "triple (wd_rely (rc_router C) c) (standing c st kd rs) (wk_prepare_exit (perform C T c) c)
    (after_res (\<lambda>(st, m) g. exit_end T c kd rs st g) (\<lambda>_ _. True))" (is "triple ?R _ _ ?Q")
proof -
  let ?call = "perform C T c"
  have req: "triple ?R (leaving c kd rs) (wk_require c ready EXIT_READY) (after_res (\<lambda>_. leaving c kd rs) (\<lambda>_ _. True))" for ready
    by (rule wk_require_triple) simp_all
  have rel: "triple ?R (vacated T c kd rs) (wk_release ?call c sv) ?Q" for sv
    by (rule triple_post [OF release_worker [OF assms(2)]]) (auto simp: exit_end_def split: sum.splits)
  have go: "triple ?R (leaving c kd rs) (andthen (wk_require c ready EXIT_READY)
      (\<lambda>_. andthen (?call CallRemoveCommit) (wk_release ?call c))) ?Q" for ready
    by (rule triple_then [OF req], simp, rule triple_then [OF remove_asked [OF assms(2)] _ rel]) simp
  have no: "triple ?R (rejected c st kd rs) (wk_rejected ?call e) ?Q" for e
    by (rule triple_post [OF rejected_worker]) (auto simp: exit_end_def split: sum.splits)
  show ?thesis unfolding wk_prepare_exit_def
    by (rule triple_attempt [OF prepare_exit_asked [OF assms(1)] no go])
qed

text \<open>
  C4: The end of an exit that succeeded, across all its actors: when the worker of a DONATE or
  REMOVE, at its first attempt and whatever calls and replies are lost on the way, ends SUCCEEDED, then the
  replica is DORMANT (a native one) or RELEASED (a borrowed one), the load balancer has no route to
  it, it is no receiver of weights (a native one is parked with its runtimes), the operation is unbound,
  and the group scheduler has recorded the RELEASED evidence of this operation under the lease.
\<close>

theorem exit_leaves_service:
  assumes "router_ok (rc_router C)" and "obeys (wd_rely (rc_router C) c) r"
    and "c_kind c \<in> {DONATE, REMOVE}" and "c_operation_id c \<noteq> []"
    and "m_state (ro_mgr (r_now r)) (c_target c) = Some st" and "m_kind (ro_mgr (r_now r)) (c_target c) = Some kd"
    and "ro_targets (r_now r) (c_operation_id c) = None" and "published_as (c_operation_id c) (r_now r) = None"
    and "member (c_target c) (tn_ce (r_now r)) = Some rs"
    and "wk_body (perform C T c) c snapshot False r = (Inr (SUCCEEDED, m), r')"
  shows "m_state (ro_mgr (r_now r')) (c_target c) = Some (if kd = NATIVE then DORMANT else RELEASED_STATE)
    \<and> map_of (lb_routes (ro_lb (r_now r'))) (c_target c) = None \<and> member (c_target c) (tn_ce (r_now r')) = None
    \<and> (tc_kind T (hd rs) = Some NATIVE \<longrightarrow> Trainer_Safety.parked (c_target c) (tn_ce (r_now r')) = Some rs)
    \<and> ro_targets (r_now r') (c_operation_id c) = None
    \<and> (\<exists>ev. gs_evidence (wd_ledger (r_now r')) (c_lease_id c, c_operation_id c) = Some ev
         \<and> e_operation_id ev = c_operation_id c \<and> e_type ev = RELEASED)"
proof -
  have "standing c st kd rs (r_now r)" using assms(5-9) by (simp add: standing_def sees_def)
  moreover have "wk_prepare_exit (perform C T c) c r = (Inr (SUCCEEDED, m), r')"
    using assms(3,10) by (auto simp: wk_body_def wk_exit_def)
  ultimately have "exit_end T c kd rs SUCCEEDED (r_now r')"
    using tripleD(1) [OF exit_worker [OF assms(1,4)] assms(2)] by fastforce
  then show ?thesis by (auto simp: exit_end_def exited_def withdrawn_def unrouted_def recorded_def)
qed

text \<open>A lost call is reported with an error of Ray, never with a \<open>KeyError\<close>, which the Rollouter raises.\<close>

definition honest_loss :: "'g run \<Rightarrow> bool" where
  "honest_loss r \<longleftrightarrow> (\<forall>n k. tk_fate (r_sched r n) \<noteq> ReplyLost (KeyError k) \<and> tk_fate (r_sched r n) \<noteq> NeverSent (KeyError k))"

lemma unbound_means_untouched:
  assumes "obeys (wd_rely N c) r" and "honest_loss r" and "rejected c st kd rs (r_now r)"
    and "perform C T c CallPendingTarget r = (Inl (KeyError k), r')"
  shows "standing c st kd rs (r_now r')"
proof -
  let ?b = "others_before r"
  have q: "query (ro_pending_target (c_operation_id c)) r = (Inl (KeyError k), r')"
    using assms(4) by (auto simp: perform_def replying_def andthen_def ret_def Let_def split: prod.splits sum.splits)
  have fate: "tk_fate (tick_of r) = Answered"
  proof (cases "tk_fate (tick_of r)")
    case (ReplyLost e)
    with q have "e = KeyError k" by (simp add: query_def remote_def Let_def)
    with ReplyLost assms(2) show ?thesis by (simp add: honest_loss_def tick_of_def)
  next
    case (NeverSent e)
    with q have "e = KeyError k" by (simp add: query_def remote_def Let_def)
    with NeverSent assms(2) show ?thesis by (simp add: honest_loss_def tick_of_def)
  qed
  have b: "rejected c st kd rs (r_now ?b)" by (rule stable_before [OF assms(1) exit_stable(3) assms(3)])
  from q fate have p: "ro_pending_target (c_operation_id c) (r_now ?b) = Inl (KeyError k)"
    and r': "r' = others_after (tick_of r) 0 ?b"
    by (auto simp: query_def remote_def sync_def Let_def)
  from p have "ro_targets (r_now ?b) (c_operation_id c) = None"
    by (simp add: ro_pending_target_def split: if_splits option.splits)
  with b have "standing c st kd rs (r_now ?b)"
    by (simp add: rejected_def rejected_or_bound_def Rollouter_Drain.parked_def standing_def serving_def)
  then show ?thesis unfolding r' by (rule stable_after [OF assms(1) exit_stable(2)])
qed

text \<open>
  C7: An exit that is closed FAILED touched nothing: when the worker of a DONATE or REMOVE ends FAILED, the
  preparation was rejected before the Rollouter bound the operation, and the replica has the state and the
  place among the receivers it had before, unbound, so that the next operation finds it as if this one had
  never run. That FAILED is decided on a query alone needs that a lost call is not reported as a
  KeyError.
\<close>

theorem failed_exit_untouched:
  assumes "router_ok (rc_router C)" and "obeys (wd_rely (rc_router C) c) r" and "honest_loss r"
    and "c_kind c \<in> {DONATE, REMOVE}" and "c_operation_id c \<noteq> []"
    and "m_state (ro_mgr (r_now r)) (c_target c) = Some st" and "m_kind (ro_mgr (r_now r)) (c_target c) = Some kd"
    and "ro_targets (r_now r) (c_operation_id c) = None" and "published_as (c_operation_id c) (r_now r) = None"
    and "member (c_target c) (tn_ce (r_now r)) = Some rs"
    and "wk_body (perform C T c) c snapshot False r = (Inr (FAILED, m), r')"
  shows "m_state (ro_mgr (r_now r')) (c_target c) = Some st \<and> ro_targets (r_now r') (c_operation_id c) = None
    \<and> member (c_target c) (tn_ce (r_now r')) = Some rs"
proof -
  let ?call = "perform C T c" and ?N = "rc_router C"
  have start: "standing c st kd rs (r_now r)" using assms(6-10) by (simp add: standing_def sees_def)
  have w: "wk_prepare_exit ?call c r = (Inr (FAILED, m), r')"
    using assms(4,11) by (auto simp: wk_body_def wk_exit_def)
  obtain x r1 where c: "?call CallPrepareExit r = (x, r1)" by fastforce
  have o: "obeys (wd_rely ?N c) r1" and p: "after_res (\<lambda>_. leaving c kd rs) (\<lambda>_. rejected c st kd rs) x (r_now r1)"
    using tripleD [OF prepare_exit_asked [OF assms(1)] assms(2) start c] by simp_all
  have h: "honest_loss r1" using assms(3) tameD [OF tame_perform c] by (simp add: honest_loss_def)
  show ?thesis
  proof (cases x)
    case (Inl e)
    obtain y r2 where q: "?call CallPendingTarget r1 = (y, r2)" by fastforce
    from w c Inl q obtain k where "y = Inl (KeyError k)" "r2 = r'"
      by (auto simp: wk_prepare_exit_def wk_rejected_def attempt_def ret_def raise_def split: sum.splits exn.splits)
    with unbound_means_untouched [OF o h _ q [unfolded \<open>y = _\<close>]] p Inl
    have "standing c st kd rs (r_now r')" by simp
    then show ?thesis by (simp add: standing_def sees_def)
  next
    case (Inr ready)
    then have l: "leaving c kd rs (r_now r1)" using p by simp
    let ?rest = "andthen (wk_require c ready EXIT_READY) (\<lambda>_. andthen (?call CallRemoveCommit) (wk_release ?call c))"
    have "triple (wd_rely ?N c) (leaving c kd rs) ?rest (after_res (\<lambda>(st, m) _. st = SUCCEEDED) (\<lambda>_ _. True))"
    proof (rule triple_then [OF wk_require_triple [where S = "\<lambda>_. leaving c kd rs" and F = "\<lambda>_ _. True"]])
      show "triple (wd_rely ?N c) (leaving c kd rs) (andthen (?call CallRemoveCommit) (wk_release ?call c))
          (after_res (\<lambda>(st, m) _. st = SUCCEEDED) (\<lambda>_ _. True))"
        by (rule triple_then [OF remove_asked [OF assms(5)]], simp, rule triple_post [OF release_worker [OF assms(5)]])
          (auto split: sum.splits)
    qed simp_all
    from tripleD(1) [OF this o l] w c Inr show ?thesis
      by (fastforce simp: wk_prepare_exit_def attempt_def)
  qed
qed

end
