(* ===== verification/Worker_Entry.thy ===== *)
theory Worker_Entry
  imports Worker_Safety
begin

text \<open>
  What the worker of an ADD or a RESTORE achieves on the services (theory \<open>Worker\<close>): SUCCEEDED means that
  the replica is in service, FAILED that its runtime is gone (asleep, for a native one) and that the group
  scheduler has recorded the proof.
\<close>

section \<open>Before and after the trainer's part\<close>

text \<open>The operation has not begun: nothing is bound, published or received in its name.\<close>

definition fresh :: "op_command \<Rightarrow> ('n, 'c, 'z) world_scheme \<Rightarrow> bool" where
  "fresh c g \<longleftrightarrow> ro_targets g (c_operation_id c) = None \<and> published_as (c_operation_id c) g = None
     \<and> \<not> enrolled (c_target c) (tn_ce g) \<and> \<not> gate_fences (c_operation_id c) (tn_gate g)"

text \<open>The Rollouter has prepared the replica, which is still hidden.\<close>

definition prepared_as :: "op_command \<Rightarrow> replica_state \<Rightarrow> replica_kind \<Rightarrow> ('n, 'c, 'z) world_scheme \<Rightarrow> bool" where
  "prepared_as c st kd g \<longleftrightarrow> unopened (c_operation_id c) (c_target c) st kd g \<and> \<not> gate_fences (c_operation_id c) (tn_gate g)"

abbreviation opened_as :: "op_command \<Rightarrow> replica_kind \<Rightarrow> op_evidence \<Rightarrow> ('n, 'c, 'z) tn_scheme \<Rightarrow> bool" where
  "opened_as c kd ev \<equiv> Trainer_Safety.opened (c_operation_id c) (c_target c) kd ev"

lemma unfenced_stable: "stable (wd_rely N c) (\<lambda>g. \<not> gate_fences (c_operation_id c) (tn_gate g))"
  by (auto simp: stable_def wd_rely_def)

lemma entry_stable [simp]:
  "stable (wd_rely N c) (fresh c)" "stable (wd_rely N c) (prepared_as c st kd)" "stable (wd_rely N c) (opened_as c kd ev)"
proof -
  show "stable (wd_rely N c) (fresh c)"
    by (auto simp: stable_def fresh_def wd_rely_def tn_rely_def ro_rely_def enrolled_def)
  show "stable (wd_rely N c) (prepared_as c st kd)" unfolding prepared_as_def
    by (rule stable_conj [OF wd_stable [OF unopened_stable(1)] unfenced_stable])
  show "stable (wd_rely N c) (opened_as c kd ev)"
    by (auto simp: stable_def opened_iff wd_rely_def tn_rely_def ro_rely_def enrolled_def)
qed

lemma opened_ledger: "ledgerless (opened_as c kd ev)"
  by (simp add: ledgerless_def opened_iff published_as_def)

text \<open>Bootstrap and restoration, started on a hidden replica while the gate is not fenced by the operation.\<close>

lemma unfenced_run:
  "triple R (prepared_as c st kd) (tn_reconcile_publish C T (c_operation_id c) native)
     (after_res (\<lambda>x g. x = None \<and> prepared_as c st kd g) (\<lambda>_ _. False))"
  by (auto simp: triple_def prepared_as_def not_fenced)

lemma hidden_failure: "unopened oid target st kd g \<Longrightarrow> service_opening oid target st kd (Inl e) g"
  by (simp add: service_opening_def receiving_def sees_def)

lemma entry_triple:
  assumes "triple (wd_rely N c) (unopened (c_operation_id c) (c_target c) st kd) m (service_opening (c_operation_id c) (c_target c) st kd)"
  shows "triple (wd_rely N c) (prepared_as c st kd)
    (guard_that ready e (look tn_version (\<lambda>version. guard_that (known version) e'
       (andthen (tn_reconcile_publish C T (c_operation_id c) native)
         (\<lambda>reconciled. case reconciled of Some ev \<Rightarrow> ret ev | None \<Rightarrow> m)))))
    (after_res (\<lambda>ev. opened_as c kd ev) (\<lambda>_ _. True))"
proof -
  have done': "triple (wd_rely N c) (\<lambda>g. x = None \<and> prepared_as c st kd g) (case x of Some ev \<Rightarrow> ret ev | None \<Rightarrow> m)
      (after_res (\<lambda>ev. opened_as c kd ev) (\<lambda>_ _. True))" for x
    by (rule triple_some) (auto intro!: triple_weaken [OF assms] simp: prepared_as_def service_opening_def split: sum.splits)
  show ?thesis
    by (rule triple_guard, simp, rule triple_look, rule triple_guard, simp,
        rule triple_then [OF triple_pre [OF unfenced_run]], erule conjunct1, simp, rule done')
qed

lemma bootstrap_asked:
  assumes "c_operation_id c \<noteq> []"
  shows "triple (wd_rely (rc_router C) c) (prepared_as c CREATING BORROWED) (perform C T c CallBootstrap)
    (after_res (\<lambda>y g. \<exists>ev. y = Evid ev \<and> opened_as c BORROWED ev g) (\<lambda>_ _. True))"
proof -
  let ?oid = "c_operation_id c"
  have lease: "triple (wd_rely (rc_router C) c) (unopened ?oid (c_target c) CREATING BORROWED)
    (with_lease ?oid GADD (\<lambda>ow. attempt (tn_add_register T ow ?oid) (tn_add_rollback ow ?oid None) (\<lambda>target.
       attempt (tn_weights T ow target ?oid) (tn_add_rollback ow ?oid (Some target)) (\<lambda>_.
         rescue (tn_add_service C T ow target ?oid) (block_and_raise ow ''ADD publish outcome unknown'')))))
    (service_opening ?oid (c_target c) CREATING BORROWED)"
    by (rule triple_rely [OF add_lease_triple [OF assms] _ wd_tn])
      (auto simp: tn_add_register_def tn_add_rollback_def tn_weights_def tn_add_service_def split: option.split sum.split)
  show ?thesis unfolding perform_def Let_def call.case tn_add_def
    by (rule triple_ask [OF entry_triple [OF lease]]) simp_all
qed

lemma restore_asked:
  assumes "c_operation_id c \<noteq> []"
  shows "triple (wd_rely (rc_router C) c) (prepared_as c DORMANT NATIVE) (perform C T c CallRestore)
    (after_res (\<lambda>y g. \<exists>ev. y = Evid ev \<and> opened_as c NATIVE ev g) (\<lambda>_ _. True))"
proof -
  let ?oid = "c_operation_id c"
  have lease: "triple (wd_rely (rc_router C) c) (unopened ?oid (c_target c) DORMANT NATIVE)
    (with_lease ?oid GRESTORE (\<lambda>ow. andthen (tn_unpark T ow ?oid) (\<lambda>(target, replicas).
       rescue (tn_restore_body C T ow ?oid target replicas) (tn_restore_failed ow ?oid))))
    (service_opening ?oid (c_target c) DORMANT NATIVE)"
    by (rule triple_rely [OF restore_lease_triple [OF assms] _ wd_tn])
      (auto simp: tn_unpark_def tn_restore_body_def tn_restore_service_def tn_restore_failed_def split: option.split)
  show ?thesis unfolding perform_def Let_def call.case tn_restore_def
    by (rule triple_ask [OF entry_triple [OF lease]]) simp_all
qed

section \<open>RESTORE\<close>

lemma restore_prepared:
  "triple (wd_rely N c) (fresh c) (perform C T c (CallPrepare None))
     (after_res (\<lambda>_. prepared_as c DORMANT NATIVE) (\<lambda>_ _. True))"
proof -
  let ?oid = "c_operation_id c" and ?t = "c_target c"
  have bind: "triple (wd_rely N c) (\<lambda>g. fresh c g \<and> rm_meta ?t (ro_mgr g) = Inr (NATIVE, DORMANT)) (bind_target ?oid ?t)
      (after_res (\<lambda>_. prepared_as c DORMANT NATIVE) (\<lambda>_ _. True))"
    unfolding bind_target_def
    by (rule triple_sync) (auto simp: fresh_def prepared_as_def sees_def published_as_def rm_meta_def split: option.splits)
  have go: "triple (wd_rely N c) (\<lambda>g. fresh c g \<and> rm_meta ?t (ro_mgr g) = Inr (kd, st))
      (guard_that (kd = NATIVE) e (if st = DORMANT then andthen (bind_target ?oid ?t) (\<lambda>_. ret None)
         else if None = Some ?t \<and> st = ACTIVE then ret None else raise e'))
      (after_res (\<lambda>_. prepared_as c DORMANT NATIVE) (\<lambda>_ _. True))" for kd st e e'
    by (rule triple_guard, simp, rule triple_if, rule triple_then [OF triple_pre [OF bind]])
      (auto intro: triple_ret triple_raise)
  have body: "triple (wd_rely N c) (fresh c) (ro_prepare_restore ?t ?oid None)
      (after_res (\<lambda>_. prepared_as c DORMANT NATIVE) (\<lambda>_ _. True))"
    unfolding ro_prepare_restore_def
    by (rule triple_look, rule lift_then, clarify, rule triple_pre [OF go]) auto
  have "triple (wd_rely N c) (fresh c) (ro_prepare C ?t ?oid None)
      (after_res (\<lambda>_. prepared_as c DORMANT NATIVE) (\<lambda>_ _. True))"
    unfolding ro_prepare_def
  proof (rule triple_guard, simp, rule triple_look)
    fix b
    have "triple (wd_rely N c) (\<lambda>g. fresh c g \<and> ro_targets g ?oid = b) (ro_prepare_restore ?t ?oid b)
        (after_res (\<lambda>_. prepared_as c DORMANT NATIVE) (\<lambda>_ _. True))"
      by (rule triple_fact [where F = "b = None"], auto simp: fresh_def) (rule triple_pre [OF body], simp add: fresh_def)
    then show "triple (wd_rely N c) (\<lambda>g. fresh c g \<and> ro_targets g ?oid = b)
        (guard_that (b \<in> {None, Some ?t}) (ValueError ''operation_id is already bound to another replica'')
          (case None of None \<Rightarrow> ro_prepare_restore ?t ?oid b | Some sp \<Rightarrow> m sp))
        (after_res (\<lambda>_. prepared_as c DORMANT NATIVE) (\<lambda>_ _. True))" for m
      by (intro triple_guard) simp_all
  qed
  from triple_ask [OF this entry_stable(1,2), where f = prepare_reply]
  have "triple (wd_rely N c) (fresh c) (perform C T c (CallPrepare None))
      (after_res (\<lambda>y g. \<exists>a. y = prepare_reply a \<and> prepared_as c DORMANT NATIVE g) (\<lambda>_ _. True))"
    by (simp add: perform_def Let_def)
  then show ?thesis by (rule triple_post) (auto split: sum.splits)
qed

text \<open>A reply with RELEASED evidence closes the operation FAILED once the scheduler has recorded it.\<close>

lemma failed_release_triple:
  assumes "stable (wd_rely N c) P" and "ledgerless P"
    and "\<And>m g. accounted c RELEASED g \<Longrightarrow> P g \<Longrightarrow> x = Evid ev \<Longrightarrow> e_type ev = RELEASED \<Longrightarrow> Q (Inr (FAILED, m)) g"
    and "\<And>e g. Q (Inl e) g" and "\<forall>ev. x = Evid ev \<longrightarrow> e_type ev \<noteq> RELEASED \<Longrightarrow> triple (wd_rely N c) P k Q"
    and "\<And>ev'. x = Evid ev' \<Longrightarrow> ev' = ev"
  shows "triple (wd_rely N c) P (wk_failed_release (perform C T c) c x msg k) Q"
proof (cases "\<exists>ev. x = Evid ev \<and> e_type ev = RELEASED")
  case True
  with assms(6) have x: "x = Evid ev" "e_type ev = RELEASED" by auto
  have req: "triple (wd_rely N c) P (wk_require c x RELEASED)
      (after_res (\<lambda>ev' g. (ev' = ev \<and> e_operation_id ev = c_operation_id c) \<and> P g) (\<lambda>_ _. True))"
    by (rule wk_require_triple) (simp_all add: x)
  have "triple (wd_rely N c) P (andthen (wk_require c x RELEASED)
      (\<lambda>released. andthen (wk_advance (perform C T c) released) (\<lambda>_. ret (FAILED, Some msg)))) Q"
    by (rule triple_then [OF req], rule assms(4), rule triple_some,
        rule triple_then [OF triple_pre [OF advance_triple [OF assms(1,2)]]])
      (auto intro!: triple_ret assms(3,4) simp: x)
  with x show ?thesis by (simp add: wk_failed_release_def)
next
  case False
  with assms(5) show ?thesis by (cases x) (auto simp: wk_failed_release_def)
qed

text \<open>What an operation that brings a replica into service ends with.\<close>

definition entry_end :: "op_command \<Rightarrow> replica_kind \<Rightarrow> op_status \<Rightarrow> ('n, 'c, 'z) world_scheme \<Rightarrow> bool" where
  "entry_end c kd st g \<longleftrightarrow>
     st = SUCCEEDED \<and> (\<exists>ev. e_type ev = SERVICE_COMMITTED \<and> opened_as c kd ev g \<and> (c_kind c = RESTORE \<longrightarrow> recorded c ev g))
   \<or> st = FAILED \<and> accounted c RELEASED g \<and> (\<exists>ev. e_type ev = RELEASED \<and> opened_as c kd ev g)"

lemma restored_triple:
  "triple (wd_rely N c) (opened_as c kd ev)
     (wk_failed_release (perform C T c) c (Evid ev) msg
       (andthen (wk_require c (Evid ev) SERVICE_COMMITTED)
         (\<lambda>final. andthen (wk_advance (perform C T c) final) (\<lambda>_. wk_succeeded final))))
     (after_res (\<lambda>(st, m) g. entry_end c kd st g) (\<lambda>_ _. True))"
proof (rule failed_release_triple [where ev = ev, OF entry_stable(3) opened_ledger])
  let ?Q = "after_res (\<lambda>(st, m) g. entry_end c kd st g) (\<lambda>_ _. True)"
  show "accounted c RELEASED g \<Longrightarrow> opened_as c kd ev g \<Longrightarrow> Evid ev = Evid ev \<Longrightarrow> e_type ev = RELEASED \<Longrightarrow> ?Q (Inr (FAILED, m)) g" for m g
    by (auto simp: entry_end_def)
  have req: "triple (wd_rely N c) (opened_as c kd ev) (wk_require c (Evid ev) SERVICE_COMMITTED)
      (after_res (\<lambda>ev' g. (ev' = ev \<and> e_operation_id ev = c_operation_id c \<and> e_type ev = SERVICE_COMMITTED) \<and> opened_as c kd ev g)
        (\<lambda>_ _. True))"
    by (rule wk_require_triple) simp_all
  show "triple (wd_rely N c) (opened_as c kd ev) (andthen (wk_require c (Evid ev) SERVICE_COMMITTED)
      (\<lambda>final. andthen (wk_advance (perform C T c) final) (\<lambda>_. wk_succeeded final))) ?Q"
    by (rule triple_then [OF req], simp, rule triple_some,
        rule triple_then [OF triple_pre [OF advance_triple [OF entry_stable(3) opened_ledger]]])
      (auto intro!: triple_ret simp: wk_succeeded_def entry_end_def)
qed simp_all

lemma restore_worker:
  assumes "c_operation_id c \<noteq> []"
  shows "triple (wd_rely (rc_router C) c) (fresh c) (wk_restore (perform C T c) c)
    (after_res (\<lambda>(st, m) g. entry_end c NATIVE st g) (\<lambda>_ _. True))"
  unfolding wk_restore_def
  by (rule triple_then [OF restore_prepared], simp, rule triple_then [OF restore_asked [OF assms]], simp,
      rule triple_ex, rule triple_some) (simp add: restored_triple)


section \<open>ADD\<close>

text \<open>The replica and the lease are new to the manager.\<close>

definition unmade :: "op_command \<Rightarrow> ('n, 'c, 'z) world_scheme \<Rightarrow> bool" where
  "unmade c g \<longleftrightarrow> m_state (ro_mgr g) (c_target c) = None \<and> map_of (m_borrowed (ro_mgr g)) (c_lease_id c) = None"

definition unserved :: "op_command \<Rightarrow> ('n, 'c, 'z) world_scheme \<Rightarrow> bool" where
  "unserved c g \<longleftrightarrow> published_as (c_operation_id c) g = None
     \<and> \<not> enrolled (c_target c) (tn_ce g) \<and> \<not> gate_fences (c_operation_id c) (tn_gate g)"

lemma unserved_frame [simp]: "stable (wd_rely N c) (unserved c)" "own_frame (unserved c)" "ledgerless (unserved c)"
  by (auto simp: stable_def unserved_def wd_rely_def tn_rely_def ro_rely_def enrolled_def own_frame_def ledgerless_def
      published_as_def)

lemma made_stable [simp]:
  "stable (wd_rely N c) (\<lambda>g. unmade c g \<and> fresh c g)" "stable (wd_rely N c) (no_runtime (c_target c))"
  "ledgerless (\<lambda>g. unserved c g \<and> no_runtime (c_target c) g)"
  by (auto simp: stable_def unmade_def fresh_def wd_rely_def tn_rely_def ro_rely_def enrolled_def no_runtime_def ledgerless_def
      unserved_def published_as_def)

text \<open>The manager registers the replica of an ADD as CREATING; a creation that succeeds leaves it so.\<close>

lemma create_begins:
  assumes "tr_build_spec c l = Inr sp" and "wf_add c l" and "unmade c g"
    and "rm_create_begin cfg now (PDict sp) (ro_mgr g) = (Inr b, s')"
  shows "(\<exists>lid key rank. b = CreateStarted lid key rank) \<and> m_state s' (c_target c) = Some CREATING
    \<and> m_kind s' (c_target c) = Some BORROWED"
proof -
  obtain x where v: "rm_validate_spec cfg (m_session (ro_mgr g)) now (PDict sp) = Inr n \<Longrightarrow>
      n = normalized_spec sp (borrowed_claim 0 x) (PInt (runtime_epoch (c_target c))) (l_expires_at l)" for n
    by (rule validate_built_spec [OF assms(1,2), of cfg "m_session (ro_mgr g)" now]) (auto split: if_splits)
  have lid: "l_lease_id l = c_lease_id c" using assms(1) by (auto simp: tr_build_spec_def split: if_splits)
  show ?thesis
  proof (cases rule: rm_create_begin_cases [of cfg now "PDict sp" "ro_mgr g"])
    case (1 res)
    with assms(4) have res: "rm_create_begin cfg now (PDict sp) (ro_mgr g) = (Inr b, ro_mgr g)" "s' = ro_mgr g" by simp_all
    then obtain n where n: "rm_validate_spec cfg (m_session (ro_mgr g)) now (PDict sp) = Inr n"
      by (auto simp: rm_create_begin_def split: sum.splits)
    have "pystr_of (pyget n ''lease_id'') = c_lease_id c"
      by (simp add: v [OF n] normalized_fields built_fields [OF assms(1)] lid)
    with res(1) n assms(3) 1 have False
      by (auto simp: rm_create_begin_def unmade_def rm_register_def validate_kind_state_def Let_def split: if_splits)
    then show ?thesis ..
  next
    case (2 n)
    have key: "spec_key n = c_target c"
      by (simp add: v [OF 2(1)] spec_key_def normalized_fields built_fields [OF assms(1)])
    have "b = CreateStarted (pystr_of (pyget n ''lease_id'')) (spec_key n) (m_next_rank (ro_mgr g))"
      "s' = started (pystr_of (pyget n ''lease_id'')) n (ro_mgr g)"
      using 2(4) assms(4) by simp_all
    with started_fields [OF 2(3)] key show ?thesis by simp
  qed
qed

lemma create_end_keeps:
  "rm_create_end lid out s = (Inr r, s') \<Longrightarrow> m_state s' = m_state s \<and> m_kind s' = m_kind s"
  by (auto simp: rm_create_end_def Let_def split: option.splits prod.splits create_outcome.splits)

lemma create_makes:
  assumes "tr_build_spec c l = Inr sp" and "wf_add c l"
  shows "triple (wd_rely N c) (\<lambda>g. unmade c g \<and> unserved c g \<and> ro_targets g (c_operation_id c) = Some (c_target c))
    (ro_create C sp) (after_res (\<lambda>_. prepared_as c CREATING BORROWED) (\<lambda>_ _. True))"
  unfolding ro_create_def
proof (rule triple_look)
  fix clock
  let ?U = "\<lambda>g. unmade c g \<and> unserved c g \<and> ro_targets g (c_operation_id c) = Some (c_target c)"
  let ?H = "prepared_as c CREATING BORROWED"
  have begin': "triple (wd_rely N c) ?U (on_mgr (rm_create_begin (rc_parallel C) (of_int clock / 10 ^ 9) (PDict sp)))
      (after_res (\<lambda>b g. (\<exists>lid key rank. b = CreateStarted lid key rank) \<and> ?H g) (\<lambda>_ _. True))"
    unfolding on_mgr_def
  proof (rule triple_sync)
    fix g assume u: "?U g"
    let ?f = "rm_create_begin (rc_parallel C) (of_int clock / 10 ^ 9) (PDict sp) (ro_mgr g)"
    show "after_res (\<lambda>b g. (\<exists>lid key rank. b = CreateStarted lid key rank) \<and> ?H g) (\<lambda>_ _. True)
        (fst (fst ?f, g\<lparr>ro_mgr := snd ?f\<rparr>)) (snd (fst ?f, g\<lparr>ro_mgr := snd ?f\<rparr>))"
    proof (cases "fst ?f")
      case (Inr b)
      then have "?f = (Inr b, snd ?f)" by (simp add: prod_eq_iff)
      from create_begins [OF assms _ this] u Inr show ?thesis
        by (simp add: prepared_as_def sees_def unserved_def published_as_def)
    qed simp
  qed
  have end': "triple (wd_rely N c) ?H (on_mgr (rm_create_end lid out)) (after_res (\<lambda>_. ?H) (\<lambda>_ _. True))" for lid out
    unfolding on_mgr_def
  proof (rule triple_sync)
    fix g assume h: "?H g"
    show "after_res (\<lambda>_. ?H) (\<lambda>_ _. True) (fst (fst (rm_create_end lid out (ro_mgr g)), g\<lparr>ro_mgr := snd (rm_create_end lid out (ro_mgr g))\<rparr>))
        (snd (fst (rm_create_end lid out (ro_mgr g)), g\<lparr>ro_mgr := snd (rm_create_end lid out (ro_mgr g))\<rparr>))"
      using h create_end_keeps [of lid out "ro_mgr g"]
      by (cases "rm_create_end lid out (ro_mgr g)")
        (auto simp: prepared_as_def sees_def published_as_def split: sum.split)
  qed
  have rest: "triple (wd_rely N c) ?H (caught outside (\<lambda>reply. on_mgr (rm_create_end lid (rc_outcome C reply))))
      (after_res (\<lambda>_. ?H) (\<lambda>_ _. True))" for lid
    by (rule triple_caught [OF triple_outside [OF entry_stable(2)] end'])
  show "triple (wd_rely N c) (\<lambda>g. ?U g \<and> ro_clock g = clock)
      (andthen (on_mgr (rm_create_begin (rc_parallel C) (of_int clock / 10 ^ 9) (PDict sp))) (\<lambda>b.
        case b of CreateReplayed r \<Rightarrow> ret r
        | CreateStarted lid key rank \<Rightarrow> caught outside (\<lambda>reply. on_mgr (rm_create_end lid (rc_outcome C reply)))))
      (after_res (\<lambda>_. ?H) (\<lambda>_ _. True))"
    by (rule triple_then [OF triple_pre [OF begin']], simp, simp, rule triple_some) (auto intro: rest)
qed

definition add_prepared :: "op_command \<Rightarrow> (create_result + op_evidence) option \<Rightarrow> ('n, 'c, 'z) world_scheme \<Rightarrow> bool" where
  "add_prepared c a g \<longleftrightarrow>
     (case a of
        None \<Rightarrow> False
      | Some (Inl _) \<Rightarrow> prepared_as c CREATING BORROWED g
      | Some (Inr ev) \<Rightarrow> e_type ev = RELEASED \<and> unserved c g \<and> no_runtime (c_target c) g)"

lemma add_prepared_cases [simp]:
  "add_prepared c None = (\<lambda>_. False)" "add_prepared c (Some (Inl res)) = prepared_as c CREATING BORROWED"
  "add_prepared c (Some (Inr ev)) = (\<lambda>g. e_type ev = RELEASED \<and> unserved c g \<and> no_runtime (c_target c) g)"
  by (simp_all add: add_prepared_def fun_eq_iff)

lemma add_prepared_stable: "stable (wd_rely N c) (add_prepared c a)"
proof (cases a)
  case (Some x)
  then show ?thesis by (cases x) (simp_all add: stable_conj)
qed simp

lemma unserved_prepare: "keeps (wd_rely N c) (unserved c) (ro_prepare C key oid (Some sp))"
  unfolding ro_prepare_def ro_failed_create_def ro_create_def
  by (auto intro!: keeps_own keeps_outside split: create_begin.split)

lemma failed_create_result:
  "triple R P (ro_failed_create key oid sp e) (after_res (\<lambda>a _. \<exists>ev. a = Some (Inr ev)) (\<lambda>_ _. True))"
proof -
  have t: "triple R P (unbind_target oid) (after_res (\<lambda>_ _. True) (\<lambda>_ _. True))" for P :: "('a, 'b) ro_scheme \<Rightarrow> bool"
    unfolding unbind_target_def by (rule triple_sync) simp
  have s: "triple R P (stamp oid RELEASED us) (after_res (\<lambda>_ _. True) (\<lambda>_ _. True))" for P :: "('a, 'b) ro_scheme \<Rightarrow> bool" and us
    unfolding stamp_def by (rule triple_sync) (simp split: sum.split)
  show ?thesis unfolding ro_failed_create_def
    by (rule triple_look, clarify, rule triple_if, rule triple_then [OF t], simp, rule triple_then [OF s], simp)
      (auto intro: triple_ret triple_raise)
qed

lemma add_made:
  assumes "tr_build_spec c l = Inr sp" and "wf_add c l"
  shows "triple (wd_rely N c) (\<lambda>g. unmade c g \<and> fresh c g) (ro_prepare C (c_target c) (c_operation_id c) (Some sp))
    (after_res (\<lambda>a g. a \<noteq> None \<and> (\<forall>r. a = Some (Inl r) \<longrightarrow> prepared_as c CREATING BORROWED g)) (\<lambda>_ _. True))"
    (is "triple ?R ?P _ ?Q")
proof (rule triple_cong)
  let ?oid = "c_operation_id c" and ?t = "c_target c"
  let ?U = "\<lambda>g. unmade c g \<and> unserved c g \<and> ro_targets g ?oid = Some ?t"
  have bind: "triple ?R ?P (bind_target ?oid ?t) (after_res (\<lambda>_. ?U) (\<lambda>_ _. False))"
    unfolding bind_target_def
    by (rule triple_sync) (simp add: unmade_def fresh_def unserved_def published_as_def)
  have make: "triple ?R ?U (andthen (ro_create C sp) (\<lambda>r. ret (Some (Inl r))))
      (after_res (\<lambda>a g. (\<exists>r. a = Some (Inl r)) \<and> prepared_as c CREATING BORROWED g) (\<lambda>_ _. True))"
    by (rule triple_then [OF create_makes [OF assms]]) (auto intro: triple_ret)
  have undo: "triple ?R (\<lambda>_. True) (ro_failed_create ?t ?oid sp e) ?Q" for e
    by (rule triple_post [OF failed_create_result]) (auto split: sum.splits)
  show "triple ?R ?P (andthen (bind_target ?oid ?t) (\<lambda>_.
      rescue (andthen (ro_create C sp) (\<lambda>r. ret (Some (Inl r)))) (ro_failed_create ?t ?oid sp))) ?Q"
    by (rule triple_then [OF bind], simp, rule triple_try [OF make _ undo]) auto
  show "ro_prepare C ?t ?oid (Some sp) r = andthen (bind_target ?oid ?t) (\<lambda>_.
      rescue (andthen (ro_create C sp) (\<lambda>r. ret (Some (Inl r)))) (ro_failed_create ?t ?oid sp)) r"
    if "?P (r_now r)" for r
    using that assms(2)
    by (intro prepare_starts built_spec(1) [OF assms] built_fields(2,3) [OF assms(1)]) (auto simp: fresh_def wf_add_def)
qed

lemma add_prepare_triple:
  assumes "tr_build_spec c l = Inr sp" and "wf_add c l"
  shows "triple (wd_rely N c) (\<lambda>g. unmade c g \<and> fresh c g) (ro_prepare C (c_target c) (c_operation_id c) (Some sp))
    (after_res (add_prepared c) (\<lambda>_ _. True))"
proof -
  let ?oid = "c_operation_id c" and ?t = "c_target c"
  have view: "triple (wd_rely N c) (\<lambda>g. unmade c g \<and> fresh c g) (ro_prepare C ?t ?oid (Some sp)) (prepared ?oid ?t sp)"
    unfolding triple_def
  proof (intro allI impI conjI)
    fix r assume r: "obeys (wd_rely N c) r" "unmade c (r_now r) \<and> fresh c (r_now r)"
    obtain x r' where p: "ro_prepare C ?t ?oid (Some sp) r = (x, r')" by fastforce
    have o: "obeys (ro_rely N ?oid ?t) r" using r(1) wd_ro unfolding obeys_def by blast
    from r(2) have "ro_targets (r_now r) ?oid \<in> {None, Some ?t}" by (simp add: fresh_def)
    from prepare_view [OF o _ this built_spec(1) [OF assms] built_fields(2,3) [OF assms(1)] p] p assms(2)
    show "prepared ?oid ?t sp (fst (ro_prepare C ?t ?oid (Some sp) r)) (r_now (snd (ro_prepare C ?t ?oid (Some sp) r)))"
      by (simp add: wf_add_def)
    show "obeys (wd_rely N c) (snd (ro_prepare C ?t ?oid (Some sp) r))"
      using r(1) tame_prepare unfolding obeys_def tame_def by metis
  qed
  have "triple (wd_rely N c) (\<lambda>g. unmade c g \<and> fresh c g) (ro_prepare C ?t ?oid (Some sp)) (\<lambda>_. unserved c)"
    by (rule triple_pre [OF keeps_triple [OF unserved_prepare]]) (simp add: fresh_def unserved_def)
  from triple_conj [OF view triple_conj [OF this add_made [OF assms]]]
  show ?thesis
    by (rule triple_post) (auto simp: prepared_def add_prepared_def split: sum.splits option.splits)
qed

lemma add_prepare_asked:
  assumes "tr_build_spec c l = Inr sp" and "wf_add c l"
  shows "triple (wd_rely N c) (\<lambda>g. unmade c g \<and> fresh c g) (perform C T c (CallPrepare (Some sp)))
    (after_res (\<lambda>y g. \<exists>a. y = prepare_reply a \<and> add_prepared c a g) (\<lambda>_ _. True))"
  using triple_ask [OF add_prepare_triple [OF assms] made_stable(1) add_prepared_stable, where f = prepare_reply]
  by (simp add: perform_def Let_def)

text \<open>What an ADD ends with.\<close>

definition add_end :: "op_command \<Rightarrow> op_status \<Rightarrow> ('n, 'c, 'z) world_scheme \<Rightarrow> bool" where
  "add_end c st g \<longleftrightarrow>
     st = SUCCEEDED \<and> (\<exists>ev. e_type ev = SERVICE_COMMITTED \<and> opened_as c BORROWED ev g)
   \<or> st = FAILED \<and> accounted c RELEASED g
       \<and> (unserved c g \<and> no_runtime (c_target c) g \<or> (\<exists>ev. e_type ev = RELEASED \<and> opened_as c BORROWED ev g))"

abbreviation add_result :: "op_command \<Rightarrow> (op_status \<times> string option) res \<Rightarrow> ('n, 'c, 'z) world_scheme \<Rightarrow> bool" where
  "add_result c \<equiv> after_res (\<lambda>(st, m) g. add_end c st g) (\<lambda>_ _. True)"

lemma booted_triple:
  "triple (wd_rely N c) (opened_as c BORROWED ev)
     (wk_failed_release (perform C T c) c (Evid ev) msg (andthen (wk_require c (Evid ev) SERVICE_COMMITTED) wk_succeeded))
     (add_result c)"
proof (rule failed_release_triple [where ev = ev, OF entry_stable(3) opened_ledger])
  show "accounted c RELEASED g \<Longrightarrow> opened_as c BORROWED ev g \<Longrightarrow> Evid ev = Evid ev \<Longrightarrow> e_type ev = RELEASED \<Longrightarrow>
      add_result c (Inr (FAILED, m)) g" for m g
    by (auto simp: add_end_def)
  have req: "triple (wd_rely N c) (opened_as c BORROWED ev) (wk_require c (Evid ev) SERVICE_COMMITTED)
      (after_res (\<lambda>ev' g. e_type ev' = SERVICE_COMMITTED \<and> opened_as c BORROWED ev' g) (\<lambda>_ _. True))"
    by (rule wk_require_triple) simp_all
  show "triple (wd_rely N c) (opened_as c BORROWED ev) (andthen (wk_require c (Evid ev) SERVICE_COMMITTED) wk_succeeded)
      (add_result c)"
    by (rule triple_then [OF req]) (auto intro!: triple_ret simp: wk_succeeded_def add_end_def)
qed simp_all

lemma add_worker:
  assumes "tr_build_spec c l = Inr sp" and "wf_add c l"
  shows "triple (wd_rely (rc_router C) c) (\<lambda>g. unmade c g \<and> fresh c g) (wk_add (perform C T c) c (Some l)) (add_result c)"
proof -
  let ?R = "wd_rely (rc_router C) c" and ?call = "perform C T c"
  let ?boot = "booting ?call c"
  have oid: "c_operation_id c \<noteq> []" using assms(2) by (simp add: wf_add_def)
  have boot: "triple ?R (prepared_as c CREATING BORROWED) ?boot (add_result c)"
    by (rule triple_then [OF bootstrap_asked [OF oid]], simp, rule triple_ex, rule triple_some) (simp add: booted_triple)
  have after: "triple ?R (add_prepared c a) (wk_failed_release ?call c (prepare_reply a) msg ?boot) (add_result c)" for a msg
  proof (cases a)
    case None
    then show ?thesis by (simp add: triple_def)
  next
    case (Some x)
    show ?thesis
    proof (cases x)
      case (Inl res)
      with Some boot show ?thesis
        by (simp add: prepare_reply_def wk_failed_release_def)
    next
      case (Inr ev)
      have "triple ?R (\<lambda>g. e_type ev = RELEASED \<and> unserved c g \<and> no_runtime (c_target c) g)
          (wk_failed_release ?call c (Evid ev) msg ?boot) (add_result c)"
      proof (rule triple_some)
        assume "e_type ev = RELEASED"
        then show "triple ?R (\<lambda>g. unserved c g \<and> no_runtime (c_target c) g)
            (wk_failed_release ?call c (Evid ev) msg ?boot) (add_result c)"
          by (intro failed_release_triple [where ev = ev, OF stable_conj [OF unserved_frame(1) made_stable(2)] made_stable(3)])
            (auto simp: add_end_def)
      qed
      then show ?thesis by (simp add: Some Inr prepare_reply_def)
    qed
  qed
  show ?thesis unfolding wk_add_def assms(1) option.case sum.case
    by (rule triple_then [OF add_prepare_asked [OF assms]], simp, rule triple_ex, rule triple_some) (simp add: after)
qed


section \<open>A concrete world\<close>

text \<open>
  The task of \<open>demo_task\<close> and the group scheduler, which knows the lease and the command. The
  schedule answers every call; a native runtime reports its GPU.
\<close>

definition demo_ledger :: "op_command \<Rightarrow> lease \<Rightarrow> gs" where
  "demo_ledger c l = new_gs\<lparr>gs_leases := [c_lease_id c \<mapsto> l], gs_commands := [c_operation_id c \<mapsto> c],
     gs_bundle_owner := own_all (bundle_keys l) (c_lease_id c) Map.empty,
     gs_gpu_owner := own_all (gpu_uuids l) (c_lease_id c) Map.empty\<rparr>"

definition in_world :: "('n, 'c) tn \<Rightarrow> gs \<Rightarrow> ('n, 'c) world" where
  "in_world g L = tn.extend g (world.fields L)"

definition demo_intent :: "op_kind \<Rightarrow> op_command" where
  "demo_intent kind = \<lparr>c_operation_id = ''op'', c_kind = kind, c_target = demo_borrowed, c_lease_id = ''A'', c_force = None\<rparr>"

lemma quiet_world [simp]: "obeys (wd_rely N c) (run_of (\<lambda>_. lossy v 1) g)"
  by (simp add: obeys_def run_of_def lossy_def wd_rely_def tn_rely_def)

lemma quiet_honest [simp]: "honest_loss (run_of (\<lambda>_. lossy v 1) g)"
  by (simp add: honest_loss_def run_of_def lossy_def)

text \<open>A native replica behind the route of server s2, drained and put to sleep.\<close>

definition demo_serving :: "replica_state \<Rightarrow> nat list ce \<Rightarrow> ((string \<times> nat) list, nat list) world" where
  "demo_serving st E = in_world ((demo_task st NATIVE new_gate E)\<lparr>ro_lb := demo_lb\<lparr>lb_routes := [(demo_borrowed, ''s0'')]\<rparr>,
     ro_targets := Map.empty\<rparr>) (demo_ledger (demo_intent DONATE) demo_borrow)"

lemmas wk_eval = wk_body_def wk_exit_def wk_prepare_exit_def wk_rejected_def wk_release_def wk_require_def wk_advance_def wk_succeeded_def
  perform_def replying_def prepare_reply_def optional_reply_def on_ledger_def demo_intent_def demo_serving_def in_world_def
  tn.extend_def world.fields_def demo_ledger_def

lemma natural_settled:
  "fst (ro_unsettled sid r) = Inr False \<Longrightarrow> ro_natural_wait sid d r = (Inr (), snd (ro_unsettled sid r))"
  by (subst ro_natural_wait.simps) (cases "ro_unsettled sid r", simp)

lemma demo_exit_run:
  "\<exists>m r'. wk_body (perform demo_config demo_native (demo_intent DONATE)) (demo_intent DONATE) None False
     (run_of (\<lambda>_. lossy (PStr ''g'') 1) (demo_serving ACTIVE demo_member)) = (Inr (SUCCEEDED, m), r')"
  by (simp add: wk_eval ro_prepare_exit_def ro_prepare_natural_def ro_begin_drain_def natural_settled
      ro_unsettled_def tn_eval tn_remove_def tn_remove_member_def tn_remove_service_def
      ro_finalize_def ro_release_def ro_sleep_def void_def rm_sleep_begin_def rm_sleep_end_def
      ro_eval coro_eval lb_eval ce_eval demo_key_def demo_task_def demo_native_def demo_member_def pop_at_def
      gs_advance_lease_def new_gs_def advance_check_def advance_effect_def covers_claims_def append_history_def)

theorem exit_leaves_service_witness:
  "\<exists>m r'. wk_body (perform demo_config demo_native (demo_intent DONATE)) (demo_intent DONATE) None False
       (run_of (\<lambda>_. lossy (PStr ''g'') 1) (demo_serving ACTIVE demo_member)) = (Inr (SUCCEEDED, m), r')
     \<and> m_state (ro_mgr (r_now r')) demo_borrowed = Some DORMANT
     \<and> Trainer_Safety.parked demo_borrowed (tn_ce (r_now r')) = Some [3]
     \<and> gs_evidence (wd_ledger (r_now r')) (''A'', ''op'') \<noteq> None"
proof -
  let ?r = "run_of (\<lambda>_. lossy (PStr ''g'') 1) (demo_serving ACTIVE demo_member)" and ?c = "demo_intent DONATE"
  obtain m r' where e: "wk_body (perform demo_config demo_native ?c) ?c None False ?r = (Inr (SUCCEEDED, m), r')"
    using demo_exit_run by blast
  have c: "c_kind ?c \<in> {DONATE, REMOVE}" "c_operation_id ?c \<noteq> []" "c_target ?c = demo_borrowed" "c_operation_id ?c = ''op''"
    "c_lease_id ?c = ''A''"
    by (simp_all add: demo_intent_def)
  have s: "m_state (ro_mgr (r_now ?r)) (c_target ?c) = Some ACTIVE" "m_kind (ro_mgr (r_now ?r)) (c_target ?c) = Some NATIVE"
    "ro_targets (r_now ?r) (c_operation_id ?c) = None" "published_as (c_operation_id ?c) (r_now ?r) = None"
    "member (c_target ?c) (tn_ce (r_now ?r)) = Some [3]"
    by (simp_all add: world_eval demo_serving_def in_world_def tn.extend_def world.fields_def demo_intent_def)
  have "router_ok (rc_router demo_config)" using demo_router_ok by (simp add: demo_config_def)
  moreover have "tc_kind demo_native (hd [3]) = Some NATIVE" by (simp add: demo_native_def)
  ultimately show ?thesis
    using exit_leaves_service [OF _ quiet_world c(1,2) s e] e unfolding c(3-5) by auto
qed

theorem failed_exit_untouched_witness:
  "\<exists>m r'. wk_body (perform demo_config demo_native ((demo_intent REMOVE)\<lparr>c_force := Some True\<rparr>)) ((demo_intent REMOVE)\<lparr>c_force := Some True\<rparr>)
       None False (run_of (\<lambda>_. lossy PNone 1) (demo_serving ACTIVE demo_member)) = (Inr (FAILED, m), r')
     \<and> m_state (ro_mgr (r_now r')) demo_borrowed = Some ACTIVE \<and> member demo_borrowed (tn_ce (r_now r')) = Some [3]"
proof -
  let ?r = "run_of (\<lambda>_. lossy PNone 1) (demo_serving ACTIVE demo_member)" and ?c = "(demo_intent REMOVE)\<lparr>c_force := Some True\<rparr>"
  have "\<exists>m r'. wk_body (perform demo_config demo_native ?c) ?c None False ?r = (Inr (FAILED, m), r')"
    by (simp add: wk_eval ro_prepare_exit_def ro_prepare_force_def tn_eval ro_eval coro_eval lb_eval demo_task_def demo_member_def)
  then obtain m r' where e: "wk_body (perform demo_config demo_native ?c) ?c None False ?r = (Inr (FAILED, m), r')" by blast
  have c: "c_kind ?c \<in> {DONATE, REMOVE}" "c_operation_id ?c \<noteq> []" "c_target ?c = demo_borrowed"
    by (simp_all add: demo_intent_def)
  have s: "m_state (ro_mgr (r_now ?r)) (c_target ?c) = Some ACTIVE" "m_kind (ro_mgr (r_now ?r)) (c_target ?c) = Some NATIVE"
    "ro_targets (r_now ?r) (c_operation_id ?c) = None" "published_as (c_operation_id ?c) (r_now ?r) = None"
    "member (c_target ?c) (tn_ce (r_now ?r)) = Some [3]"
    by (simp_all add: world_eval demo_serving_def in_world_def tn.extend_def world.fields_def demo_intent_def)
  have "router_ok (rc_router demo_config)" using demo_router_ok by (simp add: demo_config_def)
  with failed_exit_untouched [OF _ quiet_world quiet_honest c(1,2) s e] e show ?thesis unfolding c(3) by auto
qed

lemma demo_restore_run:
  "\<exists>m r'. wk_body (perform demo_config demo_native (demo_intent RESTORE)) (demo_intent RESTORE) None False
     (run_of (\<lambda>_. lossy PNone 1) ((demo_serving DORMANT demo_parked)\<lparr>ro_lb := demo_lb,
       wd_ledger := demo_ledger (demo_intent RESTORE) demo_borrow\<rparr>)) = (Inr (SUCCEEDED, m), r')"
  by (simp add: wk_eval wk_restore_def wk_failed_release_def ro_prepare_def ro_prepare_restore_def tn_eval tn_restore_def tn_unpark_def
      tn_discard_def tn_restore_body_def tn_restore_service_def ro_eval coro_eval
      lb_eval ce_eval demo_key_def demo_task_def demo_native_def demo_parked_def released_uuids_def dict_fromkeys_def
      gs_advance_lease_def new_gs_def advance_check_def advance_effect_def covers_claims_def append_history_def own_all_eq)


text \<open>A borrowed replica that comes up: the manager of a new task, and a creation that returns its receipt.\<close>

definition demo_maker :: "((string \<times> nat) list, unit) ro_config" where
  "demo_maker = demo_config\<lparr>rc_outcome := (\<lambda>_. InitReturned 3
     \<lparr>rc_state = Some ''RUNTIME_READY'', rc_rank = Some 0, rc_address = None\<rparr> True)\<rparr>"

definition demo_made :: "(string \<times> borrowed) list \<Rightarrow> rmgr" where
  "demo_made mb = (new_rmgr (Some ''U''))\<lparr>m_state := [ReplicaKey ''U'' ''b'' 0 \<mapsto> CREATING],
     m_kind := [ReplicaKey ''U'' ''b'' 0 \<mapsto> BORROWED], m_runtime := [ReplicaKey ''U'' ''b'' 0 \<mapsto> 3], m_next_rank := 1,
     m_borrowed := mb\<rparr>"

lemma demo_creation:
  assumes "tr_build_spec demo_add demo_borrow = Inr sp"
  obtains mid mb where
    "rm_create_begin demo_parallel 0 (PDict sp) (new_rmgr (Some ''U'')) = (Inr (CreateStarted ''A'' (ReplicaKey ''U'' ''b'' 0) 0), mid)"
    "\<exists>res. rm_create_end ''A'' (rc_outcome demo_maker reply) mid = (Inr res, demo_made mb)"
proof -
  let ?k = "ReplicaKey ''U'' ''b'' 0" and ?s0 = "new_rmgr (Some ''U'')"
  obtain n where n: "rm_validate_spec demo_parallel (Some ''U'') 0 (PDict sp) = Inr n"
      "n = normalized_spec sp (borrowed_claim 0 (demo_claim ''c1'' ''pg'' ''g'')) (PInt (runtime_epoch (c_target demo_add))) 0"
    by (rule validate_built_spec [OF assms demo_wf_add, of demo_parallel "Some ''U''" 0])
      (simp add: demo_parallel_def demo_lease_def demo_add_def)
  have f: "pyget n ''lease_id'' = PStr ''A''" "spec_key n = ?k"
    by (simp_all add: n(2) normalized_fields spec_key_def built_fields [OF assms] demo_add_def demo_lease_def)
  have b: "rm_create_begin demo_parallel 0 (PDict sp) ?s0 = (Inr (CreateStarted ''A'' ?k 0), started ''A'' n ?s0)"
    using n(1) f by (simp add: rm_create_begin_def new_rmgr_def started_def rm_register_def validate_kind_state_def Let_def)
  let ?m = "AList.update ''replica_rank'' (PInt 0) n"
  have k: "spec_key ?m = ?k" "spec_rank ?m = 0"
    using f(2) by (simp_all add: spec_key_def spec_rank_def pyget_def pyget_default_def update_conv')
  have "\<exists>res mb. rm_create_end ''A'' (rc_outcome demo_maker reply) (started ''A'' n ?s0) = (Inr res, demo_made mb)"
    using k by (simp add: rm_create_end_def started_def rm_register_def validate_kind_state_def f demo_maker_def create_failure_def
        new_rmgr_def demo_made_def Let_def)
  with b that show ?thesis by blast
qed
text \<open>The worker of an ADD in a task that has nothing of it yet.\<close>

definition demo_arriving :: "rmgr \<Rightarrow> replica_key option \<Rightarrow> ((string \<times> nat) list, nat list) world" where
  "demo_arriving M target = in_world ((demo_task CREATING BORROWED new_gate (new_ce []))
     \<lparr>ro_mgr := M, ro_targets := (Map.empty(''op'' := target))\<rparr>) (demo_ledger demo_add demo_borrow)"

definition demo_waiting :: "(string \<times> borrowed) list \<Rightarrow> ((string \<times> nat) list, nat list) world run" where
  "demo_waiting mb = (run_of (\<lambda>_. lossy PNone 1) (demo_arriving (demo_made mb) (Some (ReplicaKey ''U'' ''b'' 0))))\<lparr>r_await := 2\<rparr>"

lemma demo_prepared:
  assumes "tr_build_spec demo_add demo_borrow = Inr sp"
  shows "\<exists>mb. perform demo_maker demo_tconfig demo_add (CallPrepare (Some sp))
      (run_of (\<lambda>_. lossy PNone 1) (demo_arriving (new_rmgr (Some ''U'')) None)) = (Inr Alien, demo_waiting mb)"
proof -
  let ?k = "ReplicaKey ''U'' ''b'' 0"
  obtain mid mb where b: "rm_create_begin demo_parallel 0 (PDict sp) (new_rmgr (Some ''U'')) = (Inr (CreateStarted ''A'' ?k 0), mid)"
      "\<exists>res. rm_create_end ''A'' (rc_outcome demo_maker (Inr PNone)) mid = (Inr res, demo_made mb)"
    by (rule demo_creation [OF assms])
  then obtain res where e: "rm_create_end ''A'' (rc_outcome demo_maker (Inr PNone)) mid = (Inr res, demo_made mb)" by blast
  have p: "rc_parallel demo_maker = demo_parallel" by (simp add: demo_maker_def demo_config_def)
  have q: "ro_prepare demo_maker ?k ''op'' (Some sp) r = andthen (bind_target ''op'' ?k) (\<lambda>_.
      rescue (andthen (ro_create demo_maker sp) (\<lambda>r. ret (Some (Inl r)))) (ro_failed_create ?k ''op'' sp)) r"
    if "ro_targets (r_now r) ''op'' = None" for r :: "((string \<times> nat) list, nat list) world run"
    by (rule prepare_starts) (use built_fields [OF assms] built_spec(1) [OF assms demo_wf_add] that in \<open>simp_all add: demo_add_def\<close>)
  show ?thesis
    by (rule exI [of _ mb]) (simp add: perform_def Let_def demo_add_def q replying_def coro_eval bind_target_def prepare_reply_def
      ro_create_def on_mgr_def b(1) e p demo_waiting_def demo_arriving_def in_world_def tn.extend_def world.fields_def demo_task_def
      new_ro_def ro.extend_def tn.fields_def numeral_2_eq_2)
qed

lemma demo_booted:
  "\<exists>m r'. booting (perform demo_maker demo_tconfig demo_add) demo_add (demo_waiting mb) = (Inr (SUCCEEDED, m), r')"
  by (simp add: demo_waiting_def demo_arriving_def wk_eval wk_failed_release_def demo_made_def demo_maker_def demo_add_def
      tn_eval ro_eval coro_eval lb_eval ce_eval demo_key_def)

lemma demo_add_run:
  "\<exists>m r'. wk_body (perform demo_maker demo_tconfig demo_add) demo_add (Some demo_borrow) False
     (run_of (\<lambda>_. lossy PNone 1) (demo_arriving (new_rmgr (Some ''U'')) None)) = (Inr (SUCCEEDED, m), r')"
proof -
  obtain sp where sp: "tr_build_spec demo_add demo_borrow = Inr sp" using demo_built by blast
  obtain mb where p: "perform demo_maker demo_tconfig demo_add (CallPrepare (Some sp))
      (run_of (\<lambda>_. lossy PNone 1) (demo_arriving (new_rmgr (Some ''U'')) None)) = (Inr Alien, demo_waiting mb)"
    using demo_prepared [OF sp] by blast
  have k: "c_kind demo_add = ADD" by (simp add: demo_add_def)
  obtain m r' where b: "booting (perform demo_maker demo_tconfig demo_add) demo_add (demo_waiting mb) = (Inr (SUCCEEDED, m), r')"
    using demo_booted by blast
  have "wk_body (perform demo_maker demo_tconfig demo_add) demo_add (Some demo_borrow) False
     (run_of (\<lambda>_. lossy PNone 1) (demo_arriving (new_rmgr (Some ''U'')) None)) = (Inr (SUCCEEDED, m), r')"
    using b by (simp add: wk_body_def k wk_add_def sp andthen_def [of "perform _ _ _ (CallPrepare _)"] p
        wk_failed_release_def [where r = Alien] del: One_nat_def)
  then show ?thesis by blast
qed


end
