(* ===== verification/Worker_Retry.thy ===== *)
theory Worker_Retry
  imports Worker_Entry
begin

text \<open>
  What becomes of an exit that is tried again: the runner takes an UNKNOWN operation up once more with
  \<open>reconciling\<close> set (theory \<open>Worker\<close>).
\<close>

section \<open>An exit that can not be reconciled\<close>

text \<open>
  The trainer's part is over and was answered, or its answer got lost after the gate was released: the
  replica has no route, the gate is not fenced, and it was not released yet.
\<close>

definition stranded :: "op_command \<Rightarrow> replica_kind \<Rightarrow> ('n, 'c, 'z) tn_scheme \<Rightarrow> bool" where
  "stranded c kd g \<longleftrightarrow> sees (c_operation_id c) (c_target c) DRAINING kd (Some (c_target c)) None g \<and> unrouted (c_target c) g
     \<and> \<not> gate_fences (c_operation_id c) (tn_gate g)
     \<and> rm_query_release (c_target c) (c_operation_id c) (ro_mgr g) = Inr None"

text \<open>During the attempts nobody else releases the replica in the name of the operation.\<close>

definition sole_rely ::
    "('n, nat, 'x) native_router \<Rightarrow> op_command \<Rightarrow> ('n, 'c, 'z) world_scheme \<Rightarrow> ('n, 'c, 'z) world_scheme \<Rightarrow> bool" where
  "sole_rely N c g g' \<longleftrightarrow> wd_rely N c g g'
     \<and> rm_query_release (c_target c) (c_operation_id c) (ro_mgr g') = rm_query_release (c_target c) (c_operation_id c) (ro_mgr g)"

lemma sole_tn: "sole_rely N c g g' \<Longrightarrow> tn_rely N (c_operation_id c) (c_target c) g g'"
  by (simp add: sole_rely_def wd_rely_def)

lemma sole_ro: "sole_rely N c g g' \<Longrightarrow> ro_rely N (c_operation_id c) (c_target c) g g'"
  by (simp add: sole_rely_def wd_ro)

lemma stranded_stable [simp]: "stable (sole_rely N c) (stranded c kd)"
  unfolding Async.stable_def stranded_def sole_rely_def wd_rely_def tn_rely_def ro_rely_def sees_def unrouted_def by auto

text \<open>What follows a step that always raises is not reached.\<close>

lemma triple_stop: "triple R P m (after_res (\<lambda>_ _. False) F) \<Longrightarrow> triple R P (andthen m k) (after_res (\<lambda>_ _. False) F)"
  by (rule triple_then [where M = "\<lambda>_ _. False"]) (simp_all add: triple_def)

text \<open>The calls of an attempt: nothing is found, and the preparation has no route to drain.\<close>

lemma stranded_query:
  "triple (sole_rely N c) (stranded c kd) (perform C T c CallQueryRelease)
     (after_res (\<lambda>y g. y = Absent \<and> stranded c kd g) (\<lambda>_. stranded c kd))"
proof -
  have "triple (sole_rely N c) (stranded c kd) (query (ro_query_release (c_target c) (c_operation_id c)))
      (after_res (\<lambda>a g. a = None \<and> stranded c kd g) (\<lambda>_. stranded c kd))"
    by (rule triple_query) (simp_all add: stable_conj, simp add: stranded_def ro_query_release_def)
  then show ?thesis unfolding perform_def replying_def Let_def call.case
    by (rule triple_then) (auto intro!: triple_ret simp: optional_reply_def)
qed

lemma stranded_reconcile:
  "triple (sole_rely N c) (stranded c kd) (perform C T c CallReconcileExit)
     (after_res (\<lambda>y g. y = Absent \<and> stranded c kd g) (\<lambda>_. stranded c kd))"
proof -
  let ?S = "\<lambda>a g. a = None \<and> stranded c kd g"
  have "triple (sole_rely N c) (stranded c kd) (tn_reconcile_exit C T (c_operation_id c))
      (\<lambda>x g. after_res ?S (\<lambda>_. stranded c kd) x g \<and> stranded c kd g)"
    unfolding tn_reconcile_exit_def
  proof (rule triple_guard, simp, rule triple_look, rule triple_if)
    fix fenced assume "\<not> fenced"
    then show "triple (sole_rely N c) (\<lambda>g. stranded c kd g \<and> gate_fences (c_operation_id c) (tn_gate g) = fenced) (ret None)
        (\<lambda>x g. after_res ?S (\<lambda>_. stranded c kd) x g \<and> stranded c kd g)"
      by (intro triple_ret) simp
  next
    fix fenced assume f: "\<not> \<not> fenced"
    show "triple (sole_rely N c) (\<lambda>g. stranded c kd g \<and> gate_fences (c_operation_id c) (tn_gate g) = fenced) m Q" for m Q
      by (rule triple_fact [where F = False]) (use f in \<open>auto simp: stranded_def\<close>)
  qed
  then have "triple (sole_rely N c) (stranded c kd) (remote (tn_reconcile_exit C T (c_operation_id c))) (after_res ?S (\<lambda>_. stranded c kd))"
    by (intro triple_remote) (auto intro!: stable_after_res elim: triple_post)
  then show ?thesis unfolding perform_def replying_def Let_def call.case
    by (rule triple_then) (auto intro!: triple_ret simp: optional_reply_def)
qed


lemma stranded_bind: "stranded c kd g \<Longrightarrow> stranded c kd (g\<lparr>ro_targets := (ro_targets g)(c_operation_id c \<mapsto> c_target c)\<rparr>)"
  by (simp add: stranded_def sees_def published_as_def unrouted_def)

lemma stranded_drain:
  "triple (sole_rely N c) (stranded c kd) (ro_begin_drain C (c_target c) (c_operation_id c)) (after_res (\<lambda>_ _. False) (\<lambda>_. stranded c kd))"
proof -
  have call: "triple (sole_rely N c) (stranded c kd) (call_lb (\<lambda>_. lb_begin_drain (rc_router C) (c_target c) (c_operation_id c)))
      (after_res (\<lambda>_ _. False) (\<lambda>_. stranded c kd))"
    unfolding call_lb_def
  proof (rule triple_remote)
    show "triple (sole_rely N c) (stranded c kd)
       (sync (\<lambda>g. (fst (lb_begin_drain (rc_router C) (c_target c) (c_operation_id c) (ro_lb g)),
          g\<lparr>ro_lb := snd (lb_begin_drain (rc_router C) (c_target c) (c_operation_id c) (ro_lb g))\<rparr>)))
       (\<lambda>x g. after_res (\<lambda>_ _. False) (\<lambda>_. stranded c kd) x g
          \<and> (\<forall>e. after_res (\<lambda>_ _. False) (\<lambda>_. stranded c kd) (Inl e :: string res) g))"
      by (rule triple_sync) (auto simp: stranded_def unrouted_def lb_begin_drain_def)
  qed (simp_all add: stable_after_res)
  show ?thesis unfolding ro_begin_drain_def Let_def by (rule triple_try [OF call _ call]) simp
qed

lemma stranded_prepare:
  "triple (sole_rely N c) (stranded c kd) (ro_prepare_exit C (c_target c) (c_operation_id c) force)
     (after_res (\<lambda>_ _. False) (\<lambda>_. stranded c kd))" (is "triple ?R ?P _ ?Q")
proof -
  have natural: "triple ?R ?P (ro_prepare_natural C (c_target c) DRAINING (c_operation_id c)) ?Q"
    unfolding ro_prepare_natural_def
  proof (rule triple_guard, simp, simp, rule triple_then)
    show "triple ?R ?P (ret ()) (after_res (\<lambda>_. ?P) (\<lambda>_ _. False))" by (rule triple_ret) simp
    have bind: "triple ?R ?P (bind_target (c_operation_id c) (c_target c)) (after_res (\<lambda>_. ?P) (\<lambda>_ _. False))"
      unfolding bind_target_def by (rule triple_sync) (simp add: stranded_bind)
    show "triple ?R ?P (andthen (bind_target (c_operation_id c) (c_target c)) (\<lambda>_.
        andthen (ro_begin_drain C (c_target c) (c_operation_id c)) (\<lambda>sid.
          guard_that (0 < rc_drain_timeout C) (ValueError ''multitask.drain_timeout_s must be positive'')
            (andthen (\<lambda>r. ro_natural_wait sid (r_time r + rc_drain_timeout C) r)
              (\<lambda>_. stamp (c_operation_id c) EXIT_READY []))))) ?Q"
      by (rule triple_then [OF bind], simp, rule triple_then [OF stranded_drain], simp) (simp add: triple_def)
  qed simp
  have force: "triple ?R ?P (ro_prepare_force C (c_target c) kd DRAINING b (c_operation_id c)) ?Q" for b
    unfolding ro_prepare_force_def
  proof (rule triple_guard, simp, rule triple_guard, simp, rule triple_guard, simp, rule triple_then)
    show "triple ?R ?P (read_lb (\<lambda>lb. Inr (lb_server_for_replica (c_target c) lb))) (after_res (\<lambda>s g. s = None \<and> ?P g) (\<lambda>_. ?P))"
      by (rule read_lb_view [OF stranded_stable]) (simp_all add: stable_conj, simp add: stranded_def unrouted_def lb_server_for_replica_def)
    fix server
    show "triple ?R (\<lambda>g. server = None \<and> ?P g) (case server of
        Some (s # cs) \<Rightarrow> K s cs | _ \<Rightarrow> raise (RuntimeError ''FORCE target has no active route'')) ?Q" for K
      by (rule triple_some) (simp add: triple_raise)
  qed simp
  show ?thesis unfolding ro_prepare_exit_def
  proof (rule triple_guard, simp, rule triple_look, rule lift_then, clarify)
    fix meta kd' st
    show "triple ?R (\<lambda>g. ?P g \<and> rm_meta (c_target c) (ro_mgr g) = Inr (kd', st)) (look (\<lambda>g. ro_targets g (c_operation_id c)) (\<lambda>b.
        guard_that (b \<in> {None, Some (c_target c)}) (ValueError ''operation_id is already bound to another replica'')
          (if force then ro_prepare_force C (c_target c) kd' st b (c_operation_id c)
           else ro_prepare_natural C (c_target c) st (c_operation_id c)))) ?Q"
    proof (rule triple_fact [where F = "kd' = kd \<and> st = DRAINING"])
      assume s: "kd' = kd \<and> st = DRAINING"
      show "triple ?R (\<lambda>g. ?P g \<and> rm_meta (c_target c) (ro_mgr g) = Inr (kd', st)) (look (\<lambda>g. ro_targets g (c_operation_id c)) (\<lambda>b.
          guard_that (b \<in> {None, Some (c_target c)}) (ValueError ''operation_id is already bound to another replica'')
            (if force then ro_prepare_force C (c_target c) kd' st b (c_operation_id c)
             else ro_prepare_natural C (c_target c) st (c_operation_id c)))) ?Q"
        by (rule triple_look, rule triple_guard, simp, rule triple_pre [where P = ?P])
          (use natural force in \<open>simp_all add: s\<close>)
    qed (auto simp: stranded_def sees_def rm_meta_def)
  qed auto
qed

lemma stranded_prepare_asked:
  "triple (sole_rely N c) (stranded c kd) (perform C T c CallPrepareExit) (after_res (\<lambda>_ _. False) (\<lambda>_. stranded c kd))"
proof -
  have "triple (sole_rely N c) (stranded c kd) (remote (ro_prepare_exit C (c_target c) (c_operation_id c) f))
      (after_res (\<lambda>_ _. False) (\<lambda>_. stranded c kd))" for f
  proof (rule triple_remote)
    show "triple (sole_rely N c) (stranded c kd) (ro_prepare_exit C (c_target c) (c_operation_id c) f)
      (\<lambda>x g. after_res (\<lambda>_ _. False) (\<lambda>_. stranded c kd) x g \<and> (\<forall>e. after_res (\<lambda>_ _. False) (\<lambda>_. stranded c kd) (Inl e :: op_evidence res) g))"
      by (rule triple_post [OF stranded_prepare]) (auto split: sum.splits)
  qed (simp_all add: stable_after_res)
  from triple_stop [OF this] show ?thesis by (simp add: perform_def replying_def Let_def)
qed

lemma stranded_bound: "stranded c kd g \<Longrightarrow> c_operation_id c \<noteq> [] \<Longrightarrow> ro_pending_target (c_operation_id c) g = Inr (c_target c)"
  by (simp add: stranded_def sees_def ro_pending_target_def)

lemma lost_query_honest:
  assumes "honest_loss r" and "query f r = (Inl (KeyError k), r')"
  shows "f (r_now (others_before r)) = Inl (KeyError k)"
proof (cases "tk_fate (tick_of r)")
  case Answered
  with assms(2) show ?thesis by (simp add: query_def remote_def sync_def Let_def)
next
  case (ReplyLost e)
  with assms(2) have "e = KeyError k" by (simp add: query_def remote_def Let_def)
  with ReplyLost assms(1) show ?thesis by (simp add: honest_loss_def tick_of_def)
next
  case (NeverSent e)
  with assms(2) have "e = KeyError k" by (simp add: query_def remote_def Let_def)
  with NeverSent assms(1) show ?thesis by (simp add: honest_loss_def tick_of_def)
qed

lemma stranded_rejected:
  assumes "obeys (sole_rely N c) r" and "honest_loss r" and "c_operation_id c \<noteq> []" and "stranded c kd (r_now r)"
  shows "\<exists>e'. fst (wk_rejected (perform C T c) e r) = Inl e'" "stranded c kd (r_now (snd (wk_rejected (perform C T c) e r)))"
proof -
  obtain y r1 where q: "query (ro_pending_target (c_operation_id c)) r = (y, r1)" by fastforce
  have s: "triple (sole_rely N c) (stranded c kd) (query (ro_pending_target (c_operation_id c))) (after_res (\<lambda>_. stranded c kd) (\<lambda>_. stranded c kd))"
    by (rule triple_query) simp_all
  from tripleD(1) [OF s assms(1,4) q] have s1: "stranded c kd (r_now r1)" by (cases y) simp_all
  have k: "y \<noteq> Inl (KeyError k)" for k
  proof
    assume "y = Inl (KeyError k)"
    from lost_query_honest [OF assms(2) q [unfolded this]]
      stranded_bound [OF stable_before [OF assms(1) stranded_stable assms(4)] assms(3)]
    show False by simp
  qed
  have p: "perform C T c CallPendingTarget r = (map_res (\<lambda>_. Alien) y, r1)"
    using q by (cases y) (simp_all add: perform_def Let_def replying_def andthen_def ret_def)
  show "\<exists>e'. fst (wk_rejected (perform C T c) e r) = Inl e'" "stranded c kd (r_now (snd (wk_rejected (perform C T c) e r)))"
    using k s1 by (cases y; auto simp: wk_rejected_def attempt_def p raise_def ret_def split: exn.split)+
qed

lemma stranded_attempt:
  assumes "obeys (sole_rely (rc_router C) c) r" and "honest_loss r" and "c_operation_id c \<noteq> []" and "stranded c kd (r_now r)"
  shows "\<exists>e. fst (wk_prepare_exit (perform C T c) c r) = Inl e" "stranded c kd (r_now (snd (wk_prepare_exit (perform C T c) c r)))"
proof -
  obtain x r1 where p: "perform C T c CallPrepareExit r = (x, r1)" by fastforce
  from tripleD [OF stranded_prepare_asked assms(1,4) p] obtain e where x: "x = Inl e" and s: "stranded c kd (r_now r1)"
    and o: "obeys (sole_rely (rc_router C) c) r1"
    by (cases x) auto
  have h: "honest_loss r1" using assms(2) tameD [OF tame_perform p] by (simp add: honest_loss_def)
  show "\<exists>e. fst (wk_prepare_exit (perform C T c) c r) = Inl e" "stranded c kd (r_now (snd (wk_prepare_exit (perform C T c) c r)))"
    using stranded_rejected [OF o h assms(3) s] by (simp_all add: wk_prepare_exit_def attempt_def p x)
qed

lemma stranded_retry:
  assumes "obeys (sole_rely (rc_router C) c) r" and "honest_loss r" and "c_operation_id c \<noteq> []" and "stranded c kd (r_now r)"
  shows "\<exists>e. fst (wk_exit (perform C T c) c True r) = Inl e \<and> stranded c kd (r_now (snd (wk_exit (perform C T c) c True r)))"
proof -
  let ?call = "perform C T c"
  obtain x r1 where q: "?call CallQueryRelease r = (x, r1)" by fastforce
  have s1: "stranded c kd (r_now r1)" "\<And>v. x = Inr v \<Longrightarrow> v = Absent" "obeys (sole_rely (rc_router C) c) r1"
    using tripleD [OF stranded_query assms(1,4) q] by (cases x; auto)+
  obtain y r2 where w: "?call CallReconcileExit r1 = (y, r2)" by fastforce
  have s2: "stranded c kd (r_now r2)" "\<And>v. y = Inr v \<Longrightarrow> v = Absent" "obeys (sole_rely (rc_router C) c) r2"
    using tripleD [OF stranded_reconcile s1(3,1) w] by (cases y; auto)+
  have h: "honest_loss r2" using assms(2) tameD [OF tame_perform q] tameD [OF tame_perform w] by (simp add: honest_loss_def)
  show ?thesis
    using stranded_attempt [OF s2(3) h assms(3) s2(1)] s1 s2 q w
    by (cases x; cases y; auto simp: wk_exit_def andthen_def)
qed

text \<open>The attempts, one after the other.\<close>

primrec retries :: "nat \<Rightarrow> ('g, 'a) coro \<Rightarrow> 'g run \<Rightarrow> 'a res list \<times> 'g run" where
  "retries 0 m r = ([], r)"
| "retries (Suc n) m r = (fst (m r) # fst (retries n m (snd (m r))), snd (retries n m (snd (m r))))"

lemma retries_raise:
  assumes "triple R P m (after_res (\<lambda>_ _. False) (\<lambda>_. P))" and "obeys R r" and "P (r_now r)"
  shows "list_all (\<lambda>x. \<exists>e. x = Inl e) (fst (retries n m r)) \<and> P (r_now (snd (retries n m r)))"
  using assms(2,3)
proof (induction n arbitrary: r)
  case (Suc n)
  obtain x r1 where m: "m r = (x, r1)" by fastforce
  from tripleD [OF assms(1) Suc.prems m] obtain e where "x = Inl e" "P (r_now r1)" "obeys R r1" by (cases x) auto
  with Suc.IH [of r1] m show ?case by simp
qed simp

lemma tame_worker: "(\<And>k. tame (call k)) \<Longrightarrow> tame (wk_exit call c reconciling)"
  unfolding wk_exit_def wk_prepare_exit_def wk_rejected_def wk_release_def wk_advance_def wk_require_def wk_succeeded_def
  by (auto split: exn.split)

text \<open>
  C9: An exit whose trainer part is over but whose release was not carried out never ends: when the replica is
  DRAINING without a route, bound to the operation, and the gate is not fenced by it, then every further
  attempt raises and is recorded UNKNOWN, however many there are and whatever calls succeed. The
  reconciliation only acts on a fenced gate, and the preparation, which is repeated instead, needs a route.
  One lost call to finalize_release is enough to get there.
\<close>

theorem stranded_exit_never_ends:
  assumes "obeys (sole_rely (rc_router C) c) r" and "honest_loss r" and "c_kind c \<in> {DONATE, REMOVE}" and "c_operation_id c \<noteq> []"
    and "m_state (ro_mgr (r_now r)) (c_target c) = Some DRAINING" and "m_kind (ro_mgr (r_now r)) (c_target c) = Some kd"
    and "ro_targets (r_now r) (c_operation_id c) = Some (c_target c)" and "published_as (c_operation_id c) (r_now r) = None"
    and "map_of (lb_routes (ro_lb (r_now r))) (c_target c) = None" and "\<not> gate_fences (c_operation_id c) (tn_gate (r_now r))"
    and "rm_query_release (c_target c) (c_operation_id c) (ro_mgr (r_now r)) = Inr None"
  shows "list_all (\<lambda>x. \<exists>e. x = Inl e) (fst (retries n (wk_body (perform C T c) c snapshot True) r))
    \<and> m_state (ro_mgr (r_now (snd (retries n (wk_body (perform C T c) c snapshot True) r)))) (c_target c) = Some DRAINING"
proof -
  have b: "wk_body (perform C T c) c snapshot True = wk_exit (perform C T c) c True"
    using assms(3) by (auto simp: wk_body_def)
  have "list_all (\<lambda>x. \<exists>e. x = Inl e) (fst (retries n (wk_exit (perform C T c) c True) r))
      \<and> stranded c kd (r_now (snd (retries n (wk_exit (perform C T c) c True) r)))"
    if "obeys (sole_rely (rc_router C) c) r" "honest_loss r" "stranded c kd (r_now r)" for r
    using that
  proof (induction n arbitrary: r)
    case (Suc n)
    have t: "r_sched (snd (wk_exit (perform C T c) c True r)) = r_sched r"
      by (rule tameD [OF tame_worker [OF tame_perform] prod.collapse [symmetric]])
    with Suc.IH [of "snd (wk_exit (perform C T c) c True r)"] stranded_retry [OF Suc.prems(1,2) assms(4) Suc.prems(3)] Suc.prems(1,2)
    show ?case by (auto simp: obeys_def honest_loss_def)
  qed simp
  from this [OF assms(1,2)] assms(5-11) show ?thesis by (simp add: b stranded_def sees_def unrouted_def)
qed


section \<open>A RESTORE that can not be acknowledged\<close>

text \<open>The replica is in service again, and the publication has unbound the operation.\<close>

definition restored :: "op_command \<Rightarrow> ('n, 'c, 'z) tn_scheme \<Rightarrow> bool" where
  "restored c g \<longleftrightarrow> m_state (ro_mgr g) (c_target c) = Some ACTIVE \<and> m_kind (ro_mgr g) (c_target c) = Some NATIVE
     \<and> ro_targets g (c_operation_id c) = None"

lemma restored_stable [simp]: "stable (wd_rely N c) (restored c)"
  unfolding Async.stable_def restored_def wd_rely_def tn_rely_def ro_rely_def by auto

lemma restored_prepare:
  "triple (wd_rely N c) (restored c) (perform C T c (CallPrepare None)) (after_res (\<lambda>_ _. False) (\<lambda>_. restored c))"
proof -
  let ?Q = "after_res (\<lambda>_ _. False) (\<lambda>_. restored c)"
  have prepare: "triple (wd_rely N c) (restored c) (ro_prepare C (c_target c) (c_operation_id c) None) (\<lambda>x g. \<exists>e. x = Inl e \<and> restored c g)"
    unfolding triple_def
    by (auto simp: ro_prepare_def ro_prepare_restore_def guard_that_def look_def restored_def rm_meta_def lift_res_def andthen_def
        raise_def ret_def)
  have "triple (wd_rely N c) (restored c) (remote (ro_prepare C (c_target c) (c_operation_id c) None)) ?Q"
  proof (rule triple_remote)
    show "triple (wd_rely N c) (restored c) (ro_prepare C (c_target c) (c_operation_id c) None)
        (\<lambda>x g. ?Q x g \<and> (\<forall>e. ?Q (Inl e) g))"
      by (rule triple_post [OF prepare]) auto
  qed (simp_all add: stable_after_res)
  from triple_stop [OF this] show ?thesis by (simp add: perform_def replying_def Let_def)
qed

text \<open>
  C10: A RESTORE whose success did not reach the group scheduler is never acknowledged: when the replica is ACTIVE
  again and the publication has unbound the operation, but the answer or the write to the ledger was lost,
  then every further attempt raises before it does anything and is recorded UNKNOWN. The preparation
  accepts an ACTIVE replica only while the operation is bound to it. So two failed calls to the scheduler
  leave a serving replica on an open lease, and the task without another operation.
\<close>

theorem restore_never_acknowledged:
  assumes "obeys (wd_rely (rc_router C) c) r" and "c_kind c = RESTORE"
    and "m_state (ro_mgr (r_now r)) (c_target c) = Some ACTIVE" and "m_kind (ro_mgr (r_now r)) (c_target c) = Some NATIVE"
    and "ro_targets (r_now r) (c_operation_id c) = None"
  shows "list_all (\<lambda>x. \<exists>e. x = Inl e) (fst (retries n (wk_body (perform C T c) c snapshot True) r))
    \<and> m_state (ro_mgr (r_now (snd (retries n (wk_body (perform C T c) c snapshot True) r)))) (c_target c) = Some ACTIVE"
proof -
  have once: "triple (wd_rely (rc_router C) c) (restored c) (wk_body (perform C T c) c snapshot True)
      (after_res (\<lambda>_ _. False) (\<lambda>_. restored c))"
    using assms(2) triple_stop [OF restored_prepare] by (simp add: wk_body_def wk_restore_def)
  have "list_all (\<lambda>x. \<exists>e. x = Inl e) (fst (retries n (wk_body (perform C T c) c snapshot True) r))
      \<and> restored c (r_now (snd (retries n (wk_body (perform C T c) c snapshot True) r)))"
    by (rule retries_raise [OF once assms(1)]) (simp add: restored_def assms(3-5))
  then show ?thesis by (simp add: restored_def)
qed

section \<open>A lost call\<close>

text \<open>The listed calls of the attempt are lost, here the one of \<open>finalize_release\<close>.\<close>

definition lose_at :: "nat list \<Rightarrow> nat \<Rightarrow> 'g tick" where
  "lose_at ks n = (lossy (PStr ''g'') 1)\<lparr>tk_fate := if n \<in> set ks then NeverSent (TimeoutError ''call lost'') else Answered\<rparr>"

lemma lose_fields [simp]:
  "tk_before (lose_at ks n) = id" "tk_after (lose_at ks n) = id" "tk_elapsed (lose_at ks n) = 0" "tk_reply (lose_at ks n) = Inr (PStr ''g'')"
  "tk_fate (lose_at ks n) = (if n \<in> set ks then NeverSent (TimeoutError ''call lost'') else Answered)"
  by (simp_all add: lose_at_def lossy_def)

lemma lose_answers: "r_sched r = lose_at ks \<Longrightarrow> obeys (sole_rely N c) r \<and> honest_loss r"
  by (simp add: obeys_def honest_loss_def sole_rely_def wd_rely_def tn_rely_def)

lemma demo_stranded:
  "\<exists>e r'. wk_body (perform demo_config demo_native (demo_intent DONATE)) (demo_intent DONATE) None False
       (run_of (lose_at [10]) (demo_serving ACTIVE demo_member)) = (Inl e, r')
     \<and> m_state (ro_mgr (r_now r')) demo_borrowed = Some DRAINING \<and> m_kind (ro_mgr (r_now r')) demo_borrowed = Some NATIVE
     \<and> ro_targets (r_now r') ''op'' = Some demo_borrowed \<and> published_as ''op'' (r_now r') = None
     \<and> map_of (lb_routes (ro_lb (r_now r'))) demo_borrowed = None \<and> \<not> gate_fences ''op'' (tn_gate (r_now r'))
     \<and> rm_query_release demo_borrowed ''op'' (ro_mgr (r_now r')) = Inr None \<and> r_sched r' = lose_at [10]"
  by (simp add: wk_eval ro_prepare_exit_def ro_prepare_natural_def ro_begin_drain_def natural_settled
      ro_unsettled_def tn_eval tn_remove_def tn_remove_member_def tn_remove_service_def
      ro_eval coro_eval lb_eval ce_eval demo_key_def demo_task_def demo_native_def demo_member_def pop_at_def
      published_as_def rm_query_release_def)

theorem stranded_exit_never_ends_witness:
  "\<exists>e r'. wk_body (perform demo_config demo_native (demo_intent DONATE)) (demo_intent DONATE) None False
       (run_of (lose_at [10]) (demo_serving ACTIVE demo_member)) = (Inl e, r')
     \<and> list_all (\<lambda>x. \<exists>e. x = Inl e) (fst (retries 3 (wk_body (perform demo_config demo_native (demo_intent DONATE)) (demo_intent DONATE) None True) r'))"
proof -
  obtain e r' where e: "wk_body (perform demo_config demo_native (demo_intent DONATE)) (demo_intent DONATE) None False
       (run_of (lose_at [10]) (demo_serving ACTIVE demo_member)) = (Inl e, r')"
    and s: "m_state (ro_mgr (r_now r')) demo_borrowed = Some DRAINING" "m_kind (ro_mgr (r_now r')) demo_borrowed = Some NATIVE"
      "ro_targets (r_now r') ''op'' = Some demo_borrowed" "published_as ''op'' (r_now r') = None"
      "map_of (lb_routes (ro_lb (r_now r'))) demo_borrowed = None" "\<not> gate_fences ''op'' (tn_gate (r_now r'))"
      "rm_query_release demo_borrowed ''op'' (ro_mgr (r_now r')) = Inr None"
    and l: "r_sched r' = lose_at [10]"
    using demo_stranded by blast
  have c: "c_kind (demo_intent DONATE) \<in> {DONATE, REMOVE}" "c_operation_id (demo_intent DONATE) \<noteq> []"
    "c_target (demo_intent DONATE) = demo_borrowed" "c_operation_id (demo_intent DONATE) = ''op''"
    by (simp_all add: demo_intent_def)
  have o: "obeys (sole_rely (rc_router demo_config) (demo_intent DONATE)) r'" "honest_loss r'"
    by (rule lose_answers [OF l, THEN conjunct1], rule lose_answers [OF l, THEN conjunct2])
  show ?thesis
    using stranded_exit_never_ends [OF o c(1,2), unfolded c(3,4), OF s] e by blast
qed

lemma lose_obeys: "r_sched r = lose_at ks \<Longrightarrow> obeys (wd_rely N c) r"
  by (simp add: obeys_def wd_rely_def tn_rely_def)

lemma demo_unacknowledged:
  "\<exists>e r'. wk_body (perform demo_config demo_native (demo_intent RESTORE)) (demo_intent RESTORE) None False
       (run_of (lose_at [8, 9]) ((demo_serving DORMANT demo_parked)\<lparr>ro_lb := demo_lb,
         wd_ledger := demo_ledger (demo_intent RESTORE) demo_borrow\<rparr>)) = (Inl e, r')
     \<and> m_state (ro_mgr (r_now r')) demo_borrowed = Some ACTIVE \<and> m_kind (ro_mgr (r_now r')) demo_borrowed = Some NATIVE
     \<and> ro_targets (r_now r') ''op'' = None \<and> r_sched r' = lose_at [8, 9]"
  by (simp add: wk_eval wk_restore_def wk_failed_release_def ro_prepare_def ro_prepare_restore_def tn_eval tn_restore_def tn_unpark_def
      tn_discard_def tn_restore_body_def tn_restore_service_def ro_eval coro_eval
      lb_eval ce_eval demo_key_def demo_task_def demo_native_def demo_parked_def released_uuids_def dict_fromkeys_def)

theorem restore_never_acknowledged_witness:
  "\<exists>e r'. wk_body (perform demo_config demo_native (demo_intent RESTORE)) (demo_intent RESTORE) None False
       (run_of (lose_at [8, 9]) ((demo_serving DORMANT demo_parked)\<lparr>ro_lb := demo_lb,
         wd_ledger := demo_ledger (demo_intent RESTORE) demo_borrow\<rparr>)) = (Inl e, r')
     \<and> list_all (\<lambda>x. \<exists>e. x = Inl e) (fst (retries 3 (wk_body (perform demo_config demo_native (demo_intent RESTORE))
         (demo_intent RESTORE) None True) r'))"
proof -
  obtain e r' where e: "wk_body (perform demo_config demo_native (demo_intent RESTORE)) (demo_intent RESTORE) None False
       (run_of (lose_at [8, 9]) ((demo_serving DORMANT demo_parked)\<lparr>ro_lb := demo_lb,
         wd_ledger := demo_ledger (demo_intent RESTORE) demo_borrow\<rparr>)) = (Inl e, r')"
    and s: "m_state (ro_mgr (r_now r')) demo_borrowed = Some ACTIVE" "m_kind (ro_mgr (r_now r')) demo_borrowed = Some NATIVE"
      "ro_targets (r_now r') ''op'' = None"
    and l: "r_sched r' = lose_at [8, 9]"
    using demo_unacknowledged by blast
  have c: "c_kind (demo_intent RESTORE) = RESTORE" "c_target (demo_intent RESTORE) = demo_borrowed"
    "c_operation_id (demo_intent RESTORE) = ''op''"
    by (simp_all add: demo_intent_def)
  show ?thesis
    using restore_never_acknowledged [OF lose_obeys [OF l] c(1), unfolded c(2,3), OF s] e by blast
qed

end
