(* ===== verification/Worker_Attempts.thy ===== *)
theory Worker_Attempts
  imports Worker_Retry
begin

text \<open>
  An exit of any number of attempts. The task runner keeps an operation whose worker raised as UNKNOWN, and
  when the same command is submitted again it starts a worker that reconciles first (\<open>submit_operation\<close> and
  \<open>_execute_operation\<close> of \<open>fully_async/task_runner.py\<close>), so what holds of an exit is what holds after any number
  of attempts, each cut short by a lost call or reply at any await. The states between two attempts are four: the replica untouched, its exit under way (DRAINING, with or without its
  membership), quarantined, or put away. Each call of the worker gets a triple from each of these
  states, under the rely in which only this operation moves the replica; \<open>retry_attempt\<close> composes them,
  and \<open>pursued_exit_released\<close> follows by induction on the number of attempts.
\<close>


section \<open>What is not released\<close>

definition unreleased :: "op_command \<Rightarrow> ('n, 'z) ro_scheme \<Rightarrow> bool" where
  "unreleased c g \<longleftrightarrow> (\<forall>ev. rm_query_release (c_target c) (c_operation_id c) (ro_mgr g) \<noteq> Inr (Some ev))"

lemma query_release_same:
  assumes "m_kind s' = m_kind s" and "m_evidence s' = m_evidence s" and "m_borrowed s' = m_borrowed s"
  shows "rm_query_release key oid s' = rm_query_release key oid s"
proof -
  have "rm_borrowed_record key s' = rm_borrowed_record key s" by (simp add: rm_borrowed_record_def assms)
  then show ?thesis by (simp add: rm_query_release_def assms split: option.split replica_kind.split)
qed

lemma transition_records [simp]:
  "m_evidence (snd (rm_transition key st m)) = m_evidence m" "m_borrowed (snd (rm_transition key st m)) = m_borrowed m"
  by (auto simp: rm_transition_def split: option.splits)

lemma slot_records [simp]:
  "m_kind (snd (rm_activate sl key m)) = m_kind m" "m_evidence (snd (rm_activate sl key m)) = m_evidence m"
  "m_borrowed (snd (rm_activate sl key m)) = m_borrowed m" "m_kind (snd (rm_deactivate sl key m)) = m_kind m"
  "m_evidence (snd (rm_deactivate sl key m)) = m_evidence m" "m_borrowed (snd (rm_deactivate sl key m)) = m_borrowed m"
  by (auto simp: rm_deactivate_def rm_activate_def Let_def split: sum.split option.split prod.split)

lemma unreleased_mgr:
  assumes "m_kind (snd (f (ro_mgr g))) = m_kind (ro_mgr g)" and "m_evidence (snd (f (ro_mgr g))) = m_evidence (ro_mgr g)"
    and "m_borrowed (snd (f (ro_mgr g))) = m_borrowed (ro_mgr g)"
  shows "unreleased c (g\<lparr>ro_mgr := snd (f (ro_mgr g))\<rparr>) = unreleased c g"
  by (simp add: unreleased_def query_release_same [OF assms])

lemma unreleased_fields [simp]:
  "unreleased c (g\<lparr>ro_lb := l\<rparr>) = unreleased c g" "unreleased c (g\<lparr>ro_targets := t\<rparr>) = unreleased c g"
  "unreleased c (g\<lparr>ro_force := f\<rparr>) = unreleased c g" "unreleased c (g\<lparr>ro_capacity := n\<rparr>) = unreleased c g"
  "unreleased c (g\<lparr>ro_aborts := a\<rparr>) = unreleased c g"
  by (simp_all add: unreleased_def)

lemma unreleased_outer [simp]:
  "unreleased c (h\<lparr>tn_gate := x\<rparr>) = unreleased c h" "unreleased c (h\<lparr>tn_ce := E\<rparr>) = unreleased c h"
  "unreleased c (w\<lparr>wd_ledger := y\<rparr>) = unreleased c w"
  by (simp_all add: unreleased_def)

lemma unreleased_stable [simp]: "stable (sole_rely N c) (unreleased c)"
  by (simp add: Async.stable_def unreleased_def sole_rely_def)

text \<open>The steps of M and R other than a release.\<close>

lemma unreleased_steps [intro!]:
  "keeps R (unreleased c) (set_state key st)" "keeps R (unreleased c) (on_mgr (rm_activate sl key))"
  "keeps R (unreleased c) (on_mgr (rm_deactivate sl key))" "keeps R (unreleased c) (bind_target o' key)"
  "keeps R (unreleased c) (unbind_target o')" "keeps R (unreleased c) (stamp o' ty us)" "keeps R (unreleased c) (update_capacity C)"
  "keeps R (unreleased c) (set_recovery o' q n)"
  unfolding set_state_def on_mgr_def bind_target_def unbind_target_def stamp_def update_capacity_def set_recovery_def
  by (auto simp: unreleased_mgr split: sum.splits)

lemma unreleased_calls:
  assumes "stable R (unreleased c)"
  shows "keeps R (unreleased c) (call_lb f)" "keeps R (unreleased c) (read_lb h)" "keeps R (unreleased c) outside"
  using keeps_call_lb [OF assms] keeps_read_lb [OF assms] keeps_outside [OF assms] by simp_all

lemma unreleased_commit:
  assumes "stable R (unreleased c)"
  shows "keeps R (unreleased c) (ro_commit_service C o')"
  unfolding ro_commit_service_def ro_reconcile_active_def ro_publish_borrowed_def ro_publish_native_def ro_commit_exit_def
    ro_retract_def ro_activate_def ro_conclude_def ro_commit_ready_def quarantine_from_def
  by (auto intro!: unreleased_calls assms split: option.split replica_state.split exn.split)

lemma unreleased_prepare:
  assumes "stable R (unreleased c)"
  shows "keeps R (unreleased c) (ro_prepare_exit C key o' force)"
  unfolding ro_prepare_exit_def ro_prepare_force_def ro_prepare_natural_def ro_force_drain_def ro_begin_drain_def
    ro_recovery_def ro_force_abort_def ro_abort_all_def Let_def
  by (auto intro!: unreleased_calls keeps_natural_wait keeps_force_wait keeps_admitted assms split: option.split list.split pyval.split)

section \<open>The stages of an exit\<close>

definition underway :: "op_command \<Rightarrow> replica_kind \<Rightarrow> nat list option \<Rightarrow> ('n, 'c, 'z) tn_scheme \<Rightarrow> bool" where
  "underway c kd m g \<longleftrightarrow> sees (c_operation_id c) (c_target c) DRAINING kd (Some (c_target c)) None g
     \<and> member (c_target c) (tn_ce g) = m \<and> unreleased c g"

lemma sole_stable: "stable (tn_rely N (c_operation_id c) (c_target c)) P \<Longrightarrow> stable (sole_rely N c) P"
  unfolding Async.stable_def by (blast dest: sole_tn)

lemma underway_stable [simp]: "stable (sole_rely N c) (underway c kd m)"
  unfolding underway_def
  by (intro stable_conj unreleased_stable sole_stable [OF tn_stable [OF sees_stable]] sole_stable [OF member_stable])

lemma drain_again: "m_state m key = Some DRAINING \<Longrightarrow> m_state (snd (rm_transition key DRAINING m)) key = Some DRAINING"
  by (auto simp: rm_transition_def split: option.splits)

lemma underway_steps:
  "keeps R (underway c kd m) (set_state (c_target c) DRAINING)" "keeps R (underway c kd m) (bind_target (c_operation_id c) (c_target c))"
  "keeps R (underway c kd m) (stamp o' ty us)" "keeps R (underway c kd m) (set_recovery o' q n)"
  unfolding set_state_def on_mgr_def bind_target_def stamp_def set_recovery_def
  by (auto simp: underway_def sees_def published_as_def unreleased_mgr drain_again)

lemma underway_aborts [simp]: "underway c kd m (g\<lparr>ro_aborts := a\<rparr>) = underway c kd m g"
  by (simp add: underway_def sees_def published_as_def)

lemma underway_prepare:
  "keeps (sole_rely N c) (underway c kd m) (ro_prepare_exit C (c_target c) (c_operation_id c) force)"
proof -
  have drain: "keeps (sole_rely N c) (underway c kd m) (ro_begin_drain C (c_target c) (c_operation_id c))"
    unfolding ro_begin_drain_def Let_def by (auto intro!: keeps_call_lb simp: underway_def sees_def published_as_def)
  have recovery: "keeps (sole_rely N c) (underway c kd m) (ro_recovery (c_operation_id c) sid)" for sid
    unfolding ro_recovery_def ro_force_abort_def ro_abort_all_def
    by (auto intro!: keeps_read_lb keeps_admitted keeps_outside underway_steps split: option.split pyval.split)
  show ?thesis
    unfolding ro_prepare_exit_def ro_prepare_force_def ro_prepare_natural_def ro_force_drain_def
    by (auto intro!: keeps_read_lb keeps_natural_wait keeps_force_wait underway_steps drain recovery
        split: option.split list.split)
qed

text \<open>The preparation is over: the replica is drained; a refused one is unharmed, or the exit is under way.\<close>

definition untouched :: "op_command \<Rightarrow> replica_state \<Rightarrow> replica_kind \<Rightarrow> nat list \<Rightarrow> ('n, 'c, 'z) tn_scheme \<Rightarrow> bool" where
  "untouched c st kd rs g \<longleftrightarrow> standing c st kd rs g \<and> unreleased c g"

lemma sole_wd: "sole_rely N c g g' \<Longrightarrow> wd_rely N c g g'"
  by (simp add: sole_rely_def)

lemma wd_sole: "stable (wd_rely N c) P \<Longrightarrow> stable (sole_rely N c) P"
  unfolding Async.stable_def by (blast dest: sole_wd)

lemma untouched_stable [simp]: "stable (sole_rely N c) (untouched c st kd rs)"
  unfolding untouched_def by (intro stable_conj wd_sole [OF exit_stable(2)] unreleased_stable)

lemma keeps_perform:
  assumes "keeps R P m" and "stable R P"
  shows "keeps R P (replying f (remote m))" "keeps R P (replying f (query h))"
  unfolding replying_def query_def using assms by (auto intro!: keeps_remote)

lemma underway_prepare_asked:
  "keeps (sole_rely N c) (underway c kd m) (perform C T c CallPrepareExit)"
  by (simp add: perform_def Let_def keeps_perform [OF underway_prepare])

lemma untouched_prepare_asked:
  assumes "router_ok (rc_router C)"
  shows "triple (sole_rely (rc_router C) c) (untouched c st kd rs) (perform C T c CallPrepareExit)
    (after_res (\<lambda>_. underway c kd (Some rs)) (\<lambda>_ g. untouched c st kd rs g \<or> underway c kd (Some rs) g))"
proof -
  have u: "triple (sole_rely (rc_router C) c) (untouched c st kd rs) (perform C T c CallPrepareExit) (\<lambda>_. unreleased c)"
    by (rule triple_pre [OF keeps_triple]) (simp_all add: perform_def Let_def keeps_perform [OF unreleased_prepare] untouched_def)
  have w: "triple (sole_rely (rc_router C) c) (untouched c st kd rs) (perform C T c CallPrepareExit)
      (after_res (\<lambda>_. leaving c kd rs) (\<lambda>_. rejected c st kd rs))"
    by (rule triple_pre [OF triple_rely [OF prepare_exit_asked [OF assms] tame_perform sole_wd]]) (simp_all add: untouched_def)
  show ?thesis
    by (rule triple_post [OF triple_conj [OF w u]])
      (auto simp: leaving_def underway_def rejected_def rejected_or_bound_def serving_def Rollouter_Drain.parked_def sees_def
        untouched_def standing_def split: sum.splits)
qed

text \<open>The replica is put away, or its release failed.\<close>

definition quarantined :: "op_command \<Rightarrow> ('n, 'c, 'z) tn_scheme \<Rightarrow> bool" where
  "quarantined c g \<longleftrightarrow> m_state (ro_mgr g) (c_target c) = Some QUARANTINED \<and> ro_targets g (c_operation_id c) = Some (c_target c)
     \<and> unreleased c g"

definition put_away :: "op_command \<Rightarrow> replica_kind \<Rightarrow> ('n, 'c, 'z) tn_scheme \<Rightarrow> bool" where
  "put_away c kd g \<longleftrightarrow> m_state (ro_mgr g) (c_target c) = Some (if kd = NATIVE then DORMANT else RELEASED_STATE)
     \<and> unrouted (c_target c) g \<and> member (c_target c) (tn_ce g) = None \<and> ro_targets g (c_operation_id c) = None"

lemma put_away_kept: "stable (tn_rely N (c_operation_id c) (c_target c)) (put_away c kd)"
  by (auto simp: Async.stable_def put_away_def unrouted_def tn_rely_def ro_rely_def)

lemma closed_stable [simp]:
  "stable (wd_rely N c) (put_away c kd)" "stable (sole_rely N c) (put_away c kd)" "stable (sole_rely N c) (quarantined c)"
proof -
  show "stable (wd_rely N c) (put_away c kd)" "stable (sole_rely N c) (put_away c kd)"
    by (rule wd_stable [OF put_away_kept], rule sole_stable [OF put_away_kept])
  have "stable (tn_rely N (c_operation_id c) (c_target c)) (\<lambda>g. m_state (ro_mgr g) (c_target c) = Some QUARANTINED
      \<and> ro_targets g (c_operation_id c) = Some (c_target c))"
    by (simp add: Async.stable_def tn_rely_def ro_rely_def)
  from stable_conj [OF sole_stable [OF this] unreleased_stable] show "stable (sole_rely N c) (quarantined c)"
    by (simp add: quarantined_def [abs_def] conj_assoc)
qed

lemma put_away_ledger [simp]: "ledgerless (put_away c kd)"
  by (simp add: ledgerless_def put_away_def unrouted_def)

text \<open>A replica in neither of these states is not prepared, and nothing is changed.\<close>

lemma closed_prepare:
  assumes "stable R P" and "\<And>g. P g \<Longrightarrow> m_state (ro_mgr g) (c_target c) \<notin> {None, Some ACTIVE, Some DRAINING}"
  shows "triple R P (perform C T c CallPrepareExit) (after_res (\<lambda>_ _. False) (\<lambda>_. P))"
proof -
  let ?Q = "after_res (\<lambda>_ _. False) (\<lambda>_. P)"
  have raises: "triple R P (ro_prepare_exit C (c_target c) (c_operation_id c) f) (\<lambda>x g. \<exists>e. x = Inl e \<and> P g)" for f
    unfolding triple_def
  proof (intro allI impI)
    fix r assume r: "obeys R r" "P (r_now r)"
    have "\<exists>e. ro_prepare_exit C (c_target c) (c_operation_id c) f r = (Inl e, r)"
      using assms(2) [OF r(2)]
      by (auto simp: ro_prepare_exit_def ro_prepare_force_def ro_prepare_natural_def guard_that_def look_def lift_res_def andthen_def
          raise_def ret_def rm_meta_def split: option.splits)
    with r show "obeys R (snd (ro_prepare_exit C (c_target c) (c_operation_id c) f r))
        \<and> (\<exists>e. fst (ro_prepare_exit C (c_target c) (c_operation_id c) f r) = Inl e
             \<and> P (r_now (snd (ro_prepare_exit C (c_target c) (c_operation_id c) f r))))"
      by auto
  qed
  have "triple R P (remote (ro_prepare_exit C (c_target c) (c_operation_id c) f)) ?Q" for f
  proof (rule triple_remote [OF assms(1)])
    show "triple R P (ro_prepare_exit C (c_target c) (c_operation_id c) f) (\<lambda>x g. ?Q x g \<and> (\<forall>e. ?Q (Inl e) g))"
      by (rule triple_post [OF raises]) auto
  qed (simp_all add: stable_after_res assms(1))
  from triple_stop [OF this] show ?thesis by (simp add: perform_def replying_def Let_def)
qed

text \<open>The reconciliation of a fenced gate.\<close>

lemma reconcile_asked:
  assumes "stable R P" and "\<And>e. stable R (S e)" and "stable R L" and "\<And>e g. S e g \<Longrightarrow> L g" and "\<And>g. P g \<Longrightarrow> L g"
    and "triple R P (tn_reconcile_exit C T (c_operation_id c)) (after_res (\<lambda>found g. case found of None \<Rightarrow> P g | Some ev \<Rightarrow> S ev g) (\<lambda>_. L))"
  shows "triple R P (perform C T c CallReconcileExit)
    (after_res (\<lambda>y g. y = Absent \<and> P g \<or> (\<exists>ev. y = Evid ev \<and> S ev g)) (\<lambda>_. L))"
proof -
  let ?S = "\<lambda>found g. case found of None \<Rightarrow> P g | Some ev \<Rightarrow> S ev g"
  have s: "stable R (?S found)" for found using assms(1,2) by (cases found) simp_all
  have "triple R P (remote (tn_reconcile_exit C T (c_operation_id c))) (after_res ?S (\<lambda>_. L))"
  proof (rule triple_remote [OF assms(1)])
    show "stable R (after_res ?S (\<lambda>_. L) x)" for x using s assms(3) by (cases x) simp_all
    show "triple R P (tn_reconcile_exit C T (c_operation_id c)) (\<lambda>x g. after_res ?S (\<lambda>_. L) x g \<and> (\<forall>e. after_res ?S (\<lambda>_. L) (Inl e) g))"
      by (rule triple_post [OF assms(6)]) (auto split: sum.splits option.splits dest: assms(4,5))
  qed (simp add: assms(5))
  then show ?thesis unfolding perform_def replying_def Let_def call.case
    by (rule triple_then) (auto intro!: triple_ret simp: optional_reply_def split: option.splits)
qed

lemma keeps_at: "(\<And>t. keeps R P (m t)) \<Longrightarrow> keeps R P (\<lambda>r. m (f r) r)"
  by (simp add: keeps_def triple_def)

lemma keeps_gate:
  assumes "gateless P"
  shows "keeps R P (on_gate f)"
  unfolding on_gate_def using assms by (auto simp: gateless_def)

lemma keeps_reconcile_exit:
  assumes "stable R P" and "gateless P" and "keeps R P (ro_commit_service C oid)"
  shows "keeps R P (tn_reconcile_exit C T oid)"
proof -
  let ?m = "andthen (tn_commit_service C oid) (\<lambda>found. tn_require found oid SERVICE_COMMITTED)"
  let ?rest = "\<lambda>now. andthen (on_gate (\<lambda>g. case gate_reconcile_granted now oid g of (x, g') \<Rightarrow> (Inr x, g')))
    (\<lambda>granted. case granted of Some (Inl e) \<Rightarrow> raise e | Some (Inr _) \<Rightarrow> ret None
     | None \<Rightarrow> caught ?m (\<lambda>x. andthen (on_gate (gate_reconcile_end (void x))) (\<lambda>_. andthen (lift_res x) (\<lambda>ev. ret (Some ev)))))"
  have m: "keeps R P ?m" unfolding tn_commit_service_def tn_require_def using assms by (auto intro: keeps_remote)
  have "keeps R P (?rest now)" for now
    by (auto intro!: m keeps_gate assms(2) split: option.split sum.split)
  then have rest: "keeps R P (\<lambda>r. ?rest (r_time r) r)" by (rule keeps_at)
  have query: "keeps R P (tn_target oid)" "keeps R P tn_wait_lock"
    unfolding tn_target_def query_def tn_wait_lock_def using assms(1) by (auto intro!: keeps_remote keeps_pause)
  have "keeps R P (tn_reconcile oid ?m)"
    unfolding tn_reconcile_def using rest query by (auto split: option.split sum.split)
  with query show ?thesis unfolding tn_reconcile_exit_def by (auto split: option.split)
qed

lemma reconcile_member:
  assumes "stable R P" and "\<And>g. P g \<Longrightarrow> ro_targets g oid = Some target \<and> member target (tn_ce g) = Some rs" and "oid \<noteq> []"
  shows "triple R P (tn_reconcile_exit C T oid) (after_res (\<lambda>found g. found = None \<and> P g) (\<lambda>_. P))"
proof -
  have t: "triple R P (tn_target oid) (after_res (\<lambda>t g. t = target \<and> P g) (\<lambda>_. P))"
    unfolding tn_target_def
    by (rule triple_query) (use assms in \<open>auto simp: ro_pending_target_def\<close>)
  have go: "triple R P (andthen (tn_target oid) (\<lambda>target. look (\<lambda>g. map_of (ce_effective (tn_ce g)) target) (\<lambda>member.
      if member \<noteq> None then ret None else K target))) (after_res (\<lambda>found g. found = None \<and> P g) (\<lambda>_. P))" for K
  proof (rule triple_then [OF t], simp, rule triple_some, hypsubst, rule triple_look)
    fix m :: "(nat list \<times> int) option"
    show "triple R (\<lambda>g. P g \<and> map_of (ce_effective (tn_ce g)) target = m) (if m \<noteq> None then ret None else K target)
        (after_res (\<lambda>found g. found = None \<and> P g) (\<lambda>_. P))"
    proof (rule triple_fact [where F = "m \<noteq> None"])
      show "m \<noteq> None" if "P g \<and> map_of (ce_effective (tn_ce g)) target = m" for g
        using assms(2) [of g] that by (auto simp: member_def)
    qed (auto intro: triple_ret)
  qed
  show ?thesis unfolding tn_reconcile_exit_def
    by (rule triple_guard, simp, rule triple_look, rule triple_if, rule triple_ret, simp, rule triple_pre [OF go]) simp
qed

definition gone :: "op_command \<Rightarrow> replica_kind \<Rightarrow> ('n, 'c, 'z) tn_scheme \<Rightarrow> bool" where
  "gone c kd g \<longleftrightarrow> underway c kd None g \<and> unrouted (c_target c) g"

lemma gone_stable [simp]: "stable (sole_rely N c) (gone c kd)"
  unfolding gone_def by (intro stable_conj underway_stable sole_stable [OF tn_stable [OF unrouted_stable]])

lemma underway_outer [simp]:
  "underway c kd m (h\<lparr>tn_gate := x\<rparr>) = underway c kd m h" "gateless (underway c kd m)" "gateless (unreleased c)"
  "gateless (quarantined c)" "gateless (put_away c kd)"
  by (simp_all add: underway_def gateless_def sees_def published_as_def quarantined_def put_away_def unrouted_def)

lemma member_frame:
  "own_frame (\<lambda>g. member target (tn_ce g) = m)" "lb_frame (\<lambda>g. member target (tn_ce g) = m)" "gateless (\<lambda>g. member target (tn_ce g) = m)"
  by (simp_all add: own_frame_def lb_frame_def gateless_def)

lemma underway_reconcile:
  assumes "c_operation_id c \<noteq> []"
  shows "triple (sole_rely (rc_router C) c) (underway c kd m) (tn_reconcile_exit C T (c_operation_id c))
    (after_res (\<lambda>found g. case found of None \<Rightarrow> underway c kd m g | Some ev \<Rightarrow> gone c kd g) (\<lambda>_. underway c kd m))"
proof (cases m)
  case (Some rs)
  show ?thesis
    by (rule triple_post [OF reconcile_member [OF underway_stable _ assms]])
      (auto simp: underway_def sees_def Some split: sum.splits option.splits)
next
  case None
  let ?R = "sole_rely (rc_router C) c" and ?m = "tn_reconcile_exit C T (c_operation_id c)"
  have tame: "tame ?m" unfolding tn_reconcile_exit_def by (auto split: option.split)
  have mem: "stable ?R (\<lambda>g. member (c_target c) (tn_ce g) = None)" by (rule sole_stable [OF member_stable])
  have k: "keeps ?R (\<lambda>g. member (c_target c) (tn_ce g) = None) ?m" "keeps ?R (unreleased c) ?m"
    by (rule keeps_reconcile_exit [OF mem member_frame(3) keeps_commit_service [OF mem member_frame(1,2)]],
        rule keeps_reconcile_exit) (simp_all add: unreleased_commit)
  have u: "triple ?R (underway c kd m) ?m (\<lambda>_ g. member (c_target c) (tn_ce g) = None \<and> unreleased c g)"
    by (rule triple_conj [OF triple_pre [OF keeps_triple [OF k(1)]] triple_pre [OF keeps_triple [OF k(2)]]])
      (simp_all add: underway_def None)
  have v: "triple ?R (underway c kd m) ?m
      (after_res (\<lambda>found g. case found of Some ev \<Rightarrow> gate_healthy (tn_gate g) \<and> exit_post (c_operation_id c) (c_target c) kd (Inr (Some ev)) g
         | None \<Rightarrow> sees (c_operation_id c) (c_target c) DRAINING kd (Some (c_target c)) None g)
       (\<lambda>_. sees (c_operation_id c) (c_target c) DRAINING kd (Some (c_target c)) None))"
    by (rule triple_pre [OF triple_rely [OF reconcile_exit_triple [OF assms] tame sole_tn]]) (simp_all add: underway_def)
  show ?thesis
    by (rule triple_post [OF triple_conj [OF v u]])
      (auto simp: underway_def gone_def None exit_post_def split: sum.splits option.splits)
qed

text \<open>The removal under the gate.\<close>

lemma unreleased_lease:
  assumes "stable R (unreleased c)" and "\<And>ow. keeps R (unreleased c) (body ow)"
  shows "keeps R (unreleased c) (with_lease o' kind body)"
proof -
  have at: "keeps R (unreleased c) (\<lambda>r. on_gate (gate_acquire_granted (r_time r) o' kind) r)"
    by (rule keeps_at [of R "unreleased c" "\<lambda>t. on_gate (gate_acquire_granted t o' kind)"]) (rule keeps_gate, simp)
  show ?thesis unfolding with_lease_def tn_acquire_def tn_release_def tn_wait_lock_def
    by (auto intro!: at keeps_gate assms keeps_pause split: option.split)
qed

lemma unreleased_ce: "keeps R (unreleased c) (on_ce f)"
  unfolding on_ce_def by auto

lemma unreleased_remove:
  assumes "stable R (unreleased c)"
  shows "keeps R (unreleased c) (tn_remove C T o')"
    unfolding tn_remove_def tn_remove_member_def tn_remove_service_def tn_guard_def tn_target_def query_def tn_commit_service_def
      block_and_raise_def tn_block_def tn_require_def
    by (auto intro!: unreleased_lease keeps_gate unreleased_ce keeps_remote unreleased_commit assms split: option.split)


text \<open>A removal from any stage: done, or under way, whatever became of the membership.\<close>

lemma remove_none:
  assumes "oid \<noteq> []"
  shows "triple (tn_rely (rc_router C) oid target)
    (\<lambda>g. sees oid target DRAINING kd (Some target) None g \<and> member target (tn_ce g) = None) (tn_remove C T oid)
    (after_res (\<lambda>_ _. False) (\<lambda>_. sees oid target DRAINING kd (Some target) None))"
proof -
  let ?R = "tn_rely (rc_router C) oid target" and ?V = "sees oid target DRAINING kd (Some target) None"
  let ?P = "\<lambda>g. ?V g \<and> member target (tn_ce g) = None" and ?Q = "after_res (\<lambda>_ _. False) (\<lambda>_. ?V)"
  have lookup: "triple ?R (\<lambda>g. t = target \<and> ?P g) (look (\<lambda>g. map_of (ce_effective (tn_ce g)) t) (\<lambda>member. case member of
      None \<Rightarrow> raise (KeyError ''replica is not an effective CE member'') | Some (replicas, y) \<Rightarrow> K replicas y)) ?Q" for t K
  proof (rule triple_some, hypsubst, rule triple_look)
    fix m :: "(nat list \<times> int) option"
    show "triple ?R (\<lambda>g. ?P g \<and> map_of (ce_effective (tn_ce g)) target = m) (case m of
        None \<Rightarrow> raise (KeyError ''replica is not an effective CE member'') | Some (replicas, y) \<Rightarrow> K replicas y) ?Q"
      by (rule triple_fact [where F = "m = None"]) (auto simp: member_def intro!: triple_raise)
  qed
  have member: "triple ?R ?P (tn_remove_member T ow oid) ?Q" for ow
    unfolding tn_remove_member_def
    by (rule triple_then [OF tn_target_triple [OF draining_member(1) _ assms]], simp add: sees_def, simp, rule lookup)
  have body: "triple ?R (\<lambda>g. owning oid ow True (\<lambda>_. True) g \<and> ?P g) (andthen (tn_remove_member T ow oid) (\<lambda>(target, replicas, kind).
       rescue (tn_remove_service C T ow oid target replicas kind) (block_and_raise ow ''Exit service commit outcome unknown''))) ?Q" for ow
    by (rule triple_stop [OF triple_pre [OF member]]) simp
  show ?thesis unfolding tn_remove_def
    by (rule triple_guard, simp, rule lease_triple [OF draining_member _ body]) (auto simp: sees_def published_as_def split: sum.split)
qed


lemma underway_remove:
  assumes "c_operation_id c \<noteq> []"
  shows "triple (sole_rely (rc_router C) c) (underway c kd m) (tn_remove C T (c_operation_id c))
    (after_res (\<lambda>_. gone c kd) (\<lambda>_ g. \<exists>m. underway c kd m g))"
proof -
  let ?R = "sole_rely (rc_router C) c" and ?oid = "c_operation_id c" and ?t = "c_target c"
  have u: "triple ?R (underway c kd m) (tn_remove C T ?oid) (\<lambda>_. unreleased c)"
    by (rule triple_pre [OF keeps_triple [OF unreleased_remove]]) (simp_all add: underway_def)
  have "triple (tn_rely (rc_router C) ?oid ?t) (\<lambda>g. sees ?oid ?t DRAINING kd (Some ?t) None g \<and> member ?t (tn_ce g) = m)
      (tn_remove C T ?oid) (\<lambda>x g. sees ?oid ?t DRAINING kd (Some ?t) None g
        \<and> (\<forall>ev. x = Inr ev \<longrightarrow> unrouted ?t g \<and> member ?t (tn_ce g) = None))"
  proof (cases m)
    case None
    show ?thesis unfolding None by (rule triple_post [OF remove_none [OF assms]]) (auto split: sum.splits)
  next
    case (Some rs)
    show ?thesis unfolding Some tn_remove_def
      by (rule triple_guard [OF _ triple_post [OF remove_lease_triple [OF assms]]]) (auto simp: removal_def split: sum.splits)
  qed
  then have v: "triple ?R (underway c kd m) (tn_remove C T ?oid) (\<lambda>x g. sees ?oid ?t DRAINING kd (Some ?t) None g
        \<and> (\<forall>ev. x = Inr ev \<longrightarrow> unrouted ?t g \<and> member ?t (tn_ce g) = None))"
    by (rule triple_pre [OF triple_rely [OF _ tame_remove sole_tn]]) (simp_all add: underway_def)
  show ?thesis
    by (rule triple_post [OF triple_conj [OF v u]]) (auto simp: underway_def gone_def split: sum.splits)
qed

text \<open>The release: a failed one recorded nothing.\<close>

lemma sleep_recorded:
  "rm_sleep_end t key oid p sl s = (Inl e, s') \<Longrightarrow> s' = s"
  "rm_sleep_end t key oid p sl s = (Inr ev, s') \<Longrightarrow> e_operation_id ev = oid \<and> e_type ev = RELEASED"
  "rm_destroy_end t key oid cl s = (Inl e, s') \<Longrightarrow> s' = s"
  "rm_destroy_end t key oid cl s = (Inr ev, s') \<Longrightarrow> e_operation_id ev = oid \<and> e_type ev = RELEASED"
  by (auto simp: rm_sleep_end_def rm_destroy_end_def evidence_now_def mk_evidence_Inr_iff split: sum.splits if_splits prod.splits)

lemma released_begin:
  assumes "unreleased c g"
  shows "rm_sleep_begin (c_target c) (c_operation_id c) (ro_mgr g) \<noteq> Inr (Inl ev)"
    and "rm_destroy_begin (c_target c) (c_operation_id c) (ro_mgr g) \<noteq> Inr (Inl ev)"
  using assms by (auto simp: unreleased_def rm_query_release_def rm_sleep_begin_def rm_destroy_begin_def
      split: if_splits option.splits sum.splits prod.splits)

abbreviation good_release :: "op_command \<Rightarrow> op_evidence \<Rightarrow> bool" where
  "good_release c ev \<equiv> e_operation_id ev = c_operation_id c \<and> e_type ev = RELEASED"

lemma end_unreleased:
  "triple R (unreleased c) (on_mgr (rm_sleep_end t (c_target c) (c_operation_id c) p sl)) (after_res (\<lambda>ev _. good_release c ev) (\<lambda>_. unreleased c))"
  "triple R (unreleased c) (on_mgr (rm_destroy_end t (c_target c) (c_operation_id c) cl)) (after_res (\<lambda>ev _. good_release c ev) (\<lambda>_. unreleased c))"
proof -
  have sync: "triple R (unreleased c) (on_mgr f) (after_res (\<lambda>ev _. good_release c ev) (\<lambda>_. unreleased c))"
    if "\<And>s e s'. f s = (Inl e, s') \<Longrightarrow> s' = s" "\<And>s ev s'. f s = (Inr ev, s') \<Longrightarrow> good_release c ev"
    for f :: "rmgr \<Rightarrow> op_evidence res \<times> rmgr"
    unfolding on_mgr_def
    by (rule triple_sync) (use that in \<open>auto split: sum.splits; metis prod.collapse ro.surjective ro.update_convs(1)\<close>)
  show "triple R (unreleased c) (on_mgr (rm_sleep_end t (c_target c) (c_operation_id c) p sl)) (after_res (\<lambda>ev _. good_release c ev) (\<lambda>_. unreleased c))"
    by (rule sync) (auto dest: sleep_recorded)
  show "triple R (unreleased c) (on_mgr (rm_destroy_end t (c_target c) (c_operation_id c) cl)) (after_res (\<lambda>ev _. good_release c ev) (\<lambda>_. unreleased c))"
    by (rule sync) (auto dest: sleep_recorded)
qed


lemma outside_unreleased:
  assumes "stable R P" shows "triple R P outside (\<lambda>_. P)"
  using keeps_outside [OF assms] by (simp add: keeps_def)

lemma sleep_unreleased:
  assumes "stable R (unreleased c)"
  shows "triple R (unreleased c) (ro_sleep (c_target c) (c_operation_id c)) (after_res (\<lambda>ev _. good_release c ev) (\<lambda>_. unreleased c))"
  unfolding ro_sleep_def
proof (rule triple_look, rule lift_then)
  let ?Q = "after_res (\<lambda>ev _. good_release c ev) (\<lambda>_. unreleased c)"
  fix b :: "(op_evidence + nat) res" and start assume b: "b = Inr start"
  let ?P = "\<lambda>g. unreleased c g \<and> rm_sleep_begin (c_target c) (c_operation_id c) (ro_mgr g) = b"
  have end1: "triple R (unreleased c) (look ro_clock (\<lambda>clock. on_mgr (rm_sleep_end clock (c_target c) (c_operation_id c) p sl))) ?Q" for p sl
    by (rule triple_look, rule triple_pre [OF end_unreleased(1)]) simp
  have end2: "triple R (unreleased c) (look ro_clock (\<lambda>clock. case p of
       Inr gpu \<Rightarrow> if is_nonempty_str gpu
         then caught outside (\<lambda>slept. look ro_clock (\<lambda>clock. on_mgr (rm_sleep_end clock (c_target c) (c_operation_id c) p (void slept))))
         else on_mgr (rm_sleep_end clock (c_target c) (c_operation_id c) p (Inr ()))
     | Inl e \<Rightarrow> on_mgr (rm_sleep_end clock (c_target c) (c_operation_id c) p (Inr ())))) ?Q" for p
  proof (rule triple_look)
    have one: "triple R (unreleased c) (on_mgr (rm_sleep_end clock (c_target c) (c_operation_id c) p (Inr ()))) ?Q" for clock
      by (rule end_unreleased)
    have two: "triple R (unreleased c) (caught outside (\<lambda>slept. look ro_clock (\<lambda>clock.
        on_mgr (rm_sleep_end clock (c_target c) (c_operation_id c) p (void slept))))) ?Q"
      by (rule triple_caught [OF outside_unreleased [OF assms] end1])
    fix clock
    show "triple R (\<lambda>g. unreleased c g \<and> ro_clock g = clock) (case p of
       Inr gpu \<Rightarrow> if is_nonempty_str gpu
         then caught outside (\<lambda>slept. look ro_clock (\<lambda>clock. on_mgr (rm_sleep_end clock (c_target c) (c_operation_id c) p (void slept))))
         else on_mgr (rm_sleep_end clock (c_target c) (c_operation_id c) p (Inr ()))
     | Inl e \<Rightarrow> on_mgr (rm_sleep_end clock (c_target c) (c_operation_id c) p (Inr ()))) ?Q"
      using triple_pre [OF one conjunct1] triple_pre [OF two conjunct1] by (cases p) (simp_all split del: sum.split)
  qed
  show "triple R ?P (case start of Inl ev \<Rightarrow> ret ev | Inr rt \<Rightarrow> caught outside (\<lambda>placement. look ro_clock (\<lambda>clock. case placement of
       Inr gpu \<Rightarrow> if is_nonempty_str gpu
         then caught outside (\<lambda>slept. look ro_clock (\<lambda>clock. on_mgr (rm_sleep_end clock (c_target c) (c_operation_id c) placement (void slept))))
         else on_mgr (rm_sleep_end clock (c_target c) (c_operation_id c) placement (Inr ()))
     | Inl _ \<Rightarrow> on_mgr (rm_sleep_end clock (c_target c) (c_operation_id c) placement (Inr ()))))) ?Q"
  proof (cases start)
    case (Inl ev)
    show ?thesis by (rule triple_fact [where F = False]) (auto simp: b Inl dest: released_begin)
  next
    case (Inr rt)
    show ?thesis unfolding Inr sum.case
      by (rule triple_pre [OF triple_caught [OF outside_unreleased [OF assms] end2]]) simp
  qed
qed simp

lemma destroy_unreleased:
  assumes "stable R (unreleased c)"
  shows "triple R (unreleased c) (ro_destroy (c_target c) (c_operation_id c)) (after_res (\<lambda>ev _. good_release c ev) (\<lambda>_. unreleased c))"
  unfolding ro_destroy_def
proof (rule triple_look, rule lift_then)
  let ?Q = "after_res (\<lambda>ev _. good_release c ev) (\<lambda>_. unreleased c)"
  fix b :: "(op_evidence + nat) res" and start assume b: "b = Inr start"
  let ?P = "\<lambda>g. unreleased c g \<and> rm_destroy_begin (c_target c) (c_operation_id c) (ro_mgr g) = b"
  have end1: "triple R (unreleased c) (look ro_clock (\<lambda>clock. on_mgr (rm_destroy_end clock (c_target c) (c_operation_id c) (void cl)))) ?Q"
    for cl :: "pyval res"
    by (rule triple_look, rule triple_pre [OF end_unreleased(2)]) simp
  show "triple R ?P (case start of Inl ev \<Rightarrow> ret ev | Inr rt \<Rightarrow> caught outside (\<lambda>cleaned. look ro_clock (\<lambda>clock.
      on_mgr (rm_destroy_end clock (c_target c) (c_operation_id c) (void cleaned))))) ?Q"
  proof (cases start)
    case (Inl ev)
    show ?thesis by (rule triple_fact [where F = False]) (auto simp: b Inl dest: released_begin)
  next
    case (Inr rt)
    show ?thesis unfolding Inr sum.case
      by (rule triple_pre [OF triple_caught [OF outside_unreleased [OF assms] end1]]) simp
  qed
qed simp

lemma release_unreleased:
  fixes c kd
  defines "V \<equiv> sees (c_operation_id c) (c_target c) DRAINING kd (Some (c_target c)) None"
  shows "triple (sole_rely N c) (\<lambda>g. V g \<and> unreleased c g) (ro_release (c_target c) kd (c_operation_id c)) (after_res (\<lambda>_ _. True) (\<lambda>_. unreleased c))"
proof -
  let ?R = "sole_rely N c" and ?oid = "c_operation_id c" and ?t = "c_target c"
  let ?final = "if kd = NATIVE then DORMANT else RELEASED_STATE" and ?Q = "after_res (\<lambda>_ _. True) (\<lambda>_. unreleased c)"
  let ?body = "if kd = NATIVE then ro_sleep ?t ?oid else ro_destroy ?t ?oid"
  have ok: "?final = DRAINING \<or> ?final \<in> allowed DRAINING \<and> validate_kind_state kd ?final = None"
    by (cases kd) (auto simp: validate_kind_state_def)
  have tame: "tame ?body" unfolding ro_sleep_def ro_destroy_def by (auto split: sum.split)
  have b1: "triple ?R V ?body (\<lambda>_. V)"
    unfolding V_def
    by (rule triple_rely [OF _ tame sole_ro], rule triple_if, rule keeps_triple [OF keeps_sleep_destroy(1)],
        rule keeps_triple [OF keeps_sleep_destroy(2)])
  have b2: "triple ?R (unreleased c) ?body (after_res (\<lambda>ev _. good_release c ev) (\<lambda>_. unreleased c))"
    by (rule triple_if, rule sleep_unreleased, simp, rule destroy_unreleased, simp)
  have body: "triple ?R (\<lambda>g. V g \<and> unreleased c g) ?body (after_res (\<lambda>ev g. good_release c ev \<and> V g) (\<lambda>_. unreleased c))"
    by (rule triple_post [OF triple_conj [OF triple_pre [OF b1] triple_pre [OF b2]]]) (auto split: sum.splits)
  have state: "triple ?R V (set_state ?t ?final) (after_res (\<lambda>_ _. True) (\<lambda>_ _. False))"
    unfolding V_def
    by (rule triple_post [OF triple_rely [OF view_steps(6) [OF ok, where F = "\<lambda>_ _. False"] tame_calls(8) sole_ro]]) (auto split: sum.splits)
  have rest: "triple ?R (\<lambda>_. True) (andthen (unbind_target ?oid) (\<lambda>_. andthen (drop_recovery ?oid) (\<lambda>_. ret ev))) ?Q" for ev :: op_evidence
    unfolding unbind_target_def drop_recovery_def
    by (auto simp: triple_def andthen_def sync_def ret_def obeys_def)
  have req: "triple ?R (\<lambda>g. good_release c ev \<and> V g) (lift_res (require_evidence (Some ev) ?oid RELEASED)) (after_res (\<lambda>_. V) (\<lambda>_ _. False))" for ev
    by (rule triple_lift) (auto simp: require_evidence_def)
  show ?thesis unfolding ro_release_def
    by (rule triple_then [OF body], simp, rule triple_then [OF req], simp, rule triple_then [OF state _ rest]) simp
qed


lemma finalize_unreleased:
  assumes "c_operation_id c \<noteq> []"
  shows "triple (sole_rely N c) (\<lambda>g. sees (c_operation_id c) (c_target c) DRAINING kd (Some (c_target c)) None g \<and> unreleased c g)
    (ro_finalize (c_operation_id c)) (after_res (\<lambda>_ _. True) (\<lambda>_. unreleased c))"
proof (rule triple_cong)
  let ?V = "sees (c_operation_id c) (c_target c) DRAINING kd (Some (c_target c)) None" and ?t = "c_target c"
  let ?h = "\<lambda>e. look (\<lambda>g. m_state (ro_mgr g) ?t) (\<lambda>cur. if cur = Some CREATING \<or> cur = Some DRAINING
      then andthen (set_state ?t QUARANTINED) (\<lambda>_. raise e) else raise e)"
  have h: "keeps (sole_rely N c) (unreleased c) (?h e)" for e by (auto split: option.split)
  show "triple (sole_rely N c) (\<lambda>g. ?V g \<and> unreleased c g) (rescue (ro_release ?t kd (c_operation_id c)) ?h)
      (after_res (\<lambda>_ _. True) (\<lambda>_. unreleased c))"
    by (rule triple_try [OF release_unreleased _ triple_post [OF keeps_triple [OF h]]]) (auto split: sum.split)
  show "ro_finalize (c_operation_id c) r = rescue (ro_release ?t kd (c_operation_id c)) ?h r"
    if "?V (r_now r) \<and> unreleased c (r_now r)" for r
    by (rule finalize_starts [OF assms]) (use that in auto)
qed

definition ended :: "op_command \<Rightarrow> replica_kind \<Rightarrow> ('n, 'c, 'z) tn_scheme \<Rightarrow> bool" where
  "ended c kd g \<longleftrightarrow> gone c kd g \<or> quarantined c g \<or> put_away c kd g"

lemma stable_disj: "stable R P \<Longrightarrow> stable R Q \<Longrightarrow> stable R (\<lambda>g. P g \<or> Q g)"
  by (auto simp: Async.stable_def)

lemma ended_stable [simp]: "stable (sole_rely N c) (ended c kd)"
  unfolding ended_def by (intro stable_disj) simp_all

lemma finalize_gone:
  assumes "c_operation_id c \<noteq> []"
  shows "triple (sole_rely N c) (gone c kd) (ro_finalize (c_operation_id c)) (after_res (\<lambda>_. put_away c kd) (\<lambda>_. quarantined c))"
proof -
  let ?oid = "c_operation_id c" and ?t = "c_target c" and ?R = "sole_rely N c"
  let ?F = "\<lambda>g. member ?t (tn_ce g) = None \<and> unrouted ?t g"
  have f: "stable (tn_rely N ?oid ?t) ?F" "own_frame ?F"
    by (rule stable_conj [OF member_stable tn_stable [OF unrouted_stable]]) (simp add: own_frame_def unrouted_def)
  have a: "triple ?R (gone c kd) (ro_finalize ?oid) (release_post ?oid ?t kd)"
    by (rule triple_rely [OF triple_pre [OF finalize_triple [OF assms, where st = DRAINING and kd = kd and pub = None]] tame_finalize sole_ro])
      (simp_all add: gone_def underway_def)
  have b: "triple ?R (gone c kd) (ro_finalize ?oid) (\<lambda>_. ?F)"
    by (rule triple_rely [OF triple_pre [OF keeps_triple [OF keeps_finalize [OF f]]] tame_finalize sole_tn]) (simp_all add: gone_def underway_def)
  have u: "triple ?R (gone c kd) (ro_finalize ?oid) (after_res (\<lambda>_ _. True) (\<lambda>_. unreleased c))"
    by (rule triple_pre [OF finalize_unreleased [OF assms, where kd = kd]]) (simp add: gone_def underway_def)
  show ?thesis
    by (rule triple_post [OF triple_conj [OF triple_conj [OF a b] u]])
      (auto simp: release_post_def put_away_def quarantined_def sees_def split: sum.splits)
qed

lemma finalize_again:
  assumes "c_operation_id c \<noteq> []"
  shows "triple (sole_rely N c) (gone c kd) (perform C T c CallFinalize) (after_res (\<lambda>_. put_away c kd) (\<lambda>_. ended c kd))"
proof -
  have fin: "triple (sole_rely N c) (gone c kd) (ro_finalize (c_operation_id c)) (after_res (\<lambda>_. put_away c kd) (\<lambda>_. ended c kd))"
    by (rule triple_post [OF finalize_gone [OF assms]]) (auto simp: ended_def split: sum.splits)
  have "triple (sole_rely N c) (gone c kd) (perform C T c CallFinalize)
      (after_res (\<lambda>y g. \<exists>a. y = Evid a \<and> put_away c kd g) (\<lambda>_. ended c kd))"
    unfolding perform_def Let_def call.case
    by (rule triple_ask [OF fin gone_stable closed_stable(2) ended_stable]) (simp_all add: ended_def)
  then show ?thesis by (rule triple_post) (auto split: sum.splits)
qed


section \<open>A stage from which nothing can be reconciled\<close>

lemma reconcile_nothing:
  assumes "stable R P" and "gateless P" and "\<And>r. P (r_now r) \<Longrightarrow> \<exists>e. ro_commit_service C oid r = (Inl e, r)"
  shows "triple R P (tn_reconcile_exit C T oid) (after_res (\<lambda>found g. found = None \<and> P g) (\<lambda>_. P))"
proof -
  let ?Q = "after_res (\<lambda>found g. found = None \<and> P g) (\<lambda>_. P)"
  let ?m = "andthen (tn_commit_service C oid) (\<lambda>found. tn_require found oid SERVICE_COMMITTED)"
  have fails: "triple R P (ro_commit_service C oid) (\<lambda>x g. (\<exists>e. x = Inl e) \<and> P g)"
    unfolding triple_def using assms(3) by (metis fst_conv snd_conv)
  have commit: "triple R P (tn_commit_service C oid) (after_res (\<lambda>_ _. False) (\<lambda>_. P))"
    unfolding tn_commit_service_def
  proof (rule triple_remote [OF assms(1)])
    show "triple R P (ro_commit_service C oid) (\<lambda>x g. after_res (\<lambda>_ _. False) (\<lambda>_. P) x g
        \<and> (\<forall>e. after_res (\<lambda>_ _. False) (\<lambda>_. P) (Inl e) g))"
      by (rule triple_post [OF fails]) auto
  qed (simp_all add: stable_after_res assms(1))
  have m: "triple R (\<lambda>g. owning oid ow False (\<lambda>_. True) g \<and> P g) ?m (after_res (\<lambda>_ _. False) (\<lambda>_. P))" for ow
    by (rule triple_pre [OF triple_stop [OF commit]]) simp
  have gate: "triple R P (tn_reconcile oid ?m) (after_res (\<lambda>found g. found = None \<and> P g) (\<lambda>_. P))"
    by (rule triple_post [OF reconcile_gate_triple [OF assms(1,2,2) _ _ m]]) (auto simp: gateless_def split: sum.splits option.splits)
  have go: "triple R P (look (\<lambda>g. map_of (ce_effective (tn_ce g)) target) (\<lambda>member. if member \<noteq> None then ret None else andthen
      (tn_reconcile oid ?m)
      (\<lambda>evidence. case evidence of None \<Rightarrow> raise (RuntimeError ''exit reconciliation returned no evidence'') | Some ev \<Rightarrow> ret (Some ev)))) ?Q"
    for target
  proof (rule triple_look, rule triple_pre [where P = P], rule triple_if, rule triple_ret, simp, rule triple_then [OF gate])
    show "triple R (\<lambda>g. found = None \<and> P g) (case found of
        None \<Rightarrow> raise (RuntimeError ''exit reconciliation returned no evidence'') | Some ev \<Rightarrow> ret (Some ev)) ?Q" for found
      by (rule triple_some) (simp add: triple_raise)
  qed simp_all
  have target: "triple R P (tn_target oid) (after_res (\<lambda>_. P) (\<lambda>_. P))"
    unfolding tn_target_def by (rule triple_query) (simp_all add: assms(1))
  show ?thesis unfolding tn_reconcile_exit_def
    by (rule triple_guard, simp, rule triple_look, rule triple_pre [where P = P], rule triple_if, rule triple_ret, simp,
        rule triple_then [OF target _ go], simp_all)
qed

text \<open>An operation that is not bound, or whose replica is quarantined.\<close>

definition closed :: "op_command \<Rightarrow> ('n, 'z) ro_scheme \<Rightarrow> bool" where
  "closed c g \<longleftrightarrow> ro_targets g (c_operation_id c) = None
     \<or> ro_targets g (c_operation_id c) = Some (c_target c) \<and> m_state (ro_mgr g) (c_target c) = Some QUARANTINED"

lemma closed_commit: "closed c (r_now r) \<Longrightarrow> \<exists>e. ro_commit_service C (c_operation_id c) r = (Inl e, r)"
  by (auto simp: closed_def ro_commit_service_def look_def ro_pending_target_def rm_meta_def lift_res_def andthen_def raise_def ret_def
      split: option.splits)

lemma reconcile_closed:
  assumes "stable R P" and "gateless P" and "\<And>g. P g \<Longrightarrow> closed c g"
  shows "triple R P (perform C T c CallReconcileExit) (after_res (\<lambda>y g. y = Absent \<and> P g) (\<lambda>_. P))"
proof -
  have "triple R P (perform C T c CallReconcileExit) (after_res (\<lambda>y g. y = Absent \<and> P g \<or> (\<exists>ev. y = Evid ev \<and> (\<lambda>_ _. False) ev g)) (\<lambda>_. P))"
    by (rule reconcile_asked [OF assms(1) _ assms(1)], simp_all,
        rule triple_post [OF reconcile_nothing [OF assms(1,2) closed_commit [OF assms(3)]]]) (auto split: sum.splits option.splits)
  then show ?thesis by (rule triple_post) (auto split: sum.splits)
qed

text \<open>The other calls.\<close>

lemma query_stage:
  assumes "stable R P" and "\<And>g. P g \<Longrightarrow> unreleased c g"
  shows "triple R P (perform C T c CallQueryRelease) (after_res (\<lambda>y g. y = Absent \<and> P g) (\<lambda>_. P))"
proof -
  have "triple R P (query (ro_query_release (c_target c) (c_operation_id c))) (after_res (\<lambda>a g. a = None \<and> P g) (\<lambda>_. P))"
  proof (rule triple_query)
    show "a = None \<and> P g" if "P g" "ro_query_release (c_target c) (c_operation_id c) g = Inr a" for g a
      using that assms(2) [OF that(1)] by (cases a) (auto simp: unreleased_def ro_query_release_def)
  qed (use assms(1) in \<open>simp_all add: stable_conj\<close>)
  then show ?thesis unfolding perform_def replying_def Let_def call.case
    by (rule triple_then) (auto intro!: triple_ret simp: optional_reply_def)
qed

lemma keeps_query_reply: "stable R P \<Longrightarrow> keeps R P (replying f (query h))"
  unfolding replying_def query_def by (auto intro!: keeps_remote)

lemma query_any:
  assumes "stable R P"
  shows "triple R P (perform C T c CallQueryRelease) (after_res (\<lambda>_. P) (\<lambda>_. P))"
    "triple R P (perform C T c CallPendingTarget) (after_res (\<lambda>_. P) (\<lambda>_. P))"
  unfolding triple_same perform_def Let_def call.case by (rule keeps_triple [OF keeps_query_reply [OF assms]])+

lemma rejected_stage:
  assumes "stable R P"
  shows "triple R P (wk_rejected (perform C T c) e) (after_res (\<lambda>(st, m) g. st = FAILED \<and> P g) (\<lambda>_. P))"
  unfolding wk_rejected_def
  by (rule triple_attempt [OF query_any(2) [OF assms]]) (auto intro!: triple_ret triple_raise split: exn.split)


section \<open>An attempt\<close>

definition afoot :: "op_command \<Rightarrow> replica_state \<Rightarrow> replica_kind \<Rightarrow> nat list \<Rightarrow> ('n, 'c, 'z) tn_scheme \<Rightarrow> bool" where
  "afoot c st kd rs g \<longleftrightarrow> untouched c st kd rs g \<or> (\<exists>m. underway c kd m g) \<or> quarantined c g \<or> put_away c kd g"

lemma afoot_stages:
  "untouched c st kd rs g \<Longrightarrow> afoot c st kd rs g" "underway c kd m g \<Longrightarrow> afoot c st kd rs g" "gone c kd g \<Longrightarrow> afoot c st kd rs g"
  "quarantined c g \<Longrightarrow> afoot c st kd rs g" "put_away c kd g \<Longrightarrow> afoot c st kd rs g" "ended c kd g \<Longrightarrow> afoot c st kd rs g"
  by (auto simp: afoot_def ended_def gone_def)

abbreviation outcome_ok ::
    "op_command \<Rightarrow> replica_state \<Rightarrow> replica_kind \<Rightarrow> nat list \<Rightarrow> (op_status \<times> string option) res \<Rightarrow> ('n, 'c, 'z) world_scheme \<Rightarrow> bool" where
  "outcome_ok c st kd rs \<equiv> after_res
     (\<lambda>(s, m) g. (s = SUCCEEDED \<longrightarrow> put_away c kd g \<and> accounted c RELEASED g) \<and> (s \<noteq> SUCCEEDED \<longrightarrow> afoot c st kd rs g)) (\<lambda>_. afoot c st kd rs)"

lemma tame_wk_advance: "tame (wk_advance (perform C T c) ev)"
  unfolding wk_advance_def by auto

lemma settle_worker:
  "triple (sole_rely N c) (put_away c kd) (andthen (wk_require c r RELEASED) (\<lambda>final. andthen (wk_advance (perform C T c) final) (\<lambda>_. wk_succeeded final)))
     (outcome_ok c st kd rs)"
proof -
  have req: "triple (sole_rely N c) (put_away c kd) (wk_require c r RELEASED)
      (after_res (\<lambda>ev g. good_release c ev \<and> put_away c kd g) (\<lambda>_. put_away c kd))"
    by (rule wk_require_triple) simp_all
  have adv: "triple (sole_rely N c) (\<lambda>g. good_release c ev \<and> put_away c kd g)
      (andthen (wk_advance (perform C T c) ev) (\<lambda>_. wk_succeeded ev)) (outcome_ok c st kd rs)" for ev
  proof (rule triple_some)
    assume ev: "good_release c ev"
    have "triple (sole_rely N c) (put_away c kd) (wk_advance (perform C T c) ev) (after_res (\<lambda>_ g. recorded c ev g \<and> put_away c kd g) (\<lambda>_. put_away c kd))"
      by (rule triple_rely [OF advance_triple tame_wk_advance sole_wd]) (simp_all add: ev)
    then show "triple (sole_rely N c) (put_away c kd) (andthen (wk_advance (perform C T c) ev) (\<lambda>_. wk_succeeded ev)) (outcome_ok c st kd rs)"
      by (rule triple_then) (use ev in \<open>auto intro!: triple_ret simp: wk_succeeded_def afoot_stages\<close>)
  qed
  show ?thesis by (rule triple_then [OF req _ adv]) (simp add: afoot_stages)
qed

lemma release_stage:
  assumes "c_operation_id c \<noteq> []"
  shows "triple (sole_rely N c) (gone c kd) (wk_release (perform C T c) c service) (outcome_ok c st kd rs)"
proof -
  have req: "triple (sole_rely N c) (gone c kd) (wk_require c service SERVICE_COMMITTED) (after_res (\<lambda>_. gone c kd) (\<lambda>_. gone c kd))"
    by (rule wk_require_triple) simp_all
  show ?thesis unfolding wk_release_def
    by (rule triple_then [OF req], simp add: afoot_stages, rule triple_then [OF finalize_again [OF assms] _ settle_worker], simp add: afoot_stages)
qed

lemma underway_some_stable: "stable (sole_rely N c) (\<lambda>g. \<exists>m. underway c kd m g)"
  unfolding Async.stable_def by (blast dest: stableD [OF underway_stable])

lemma prepared_stage:
  assumes "c_operation_id c \<noteq> []"
  shows "triple (sole_rely (rc_router C) c) (underway c kd m) (andthen (wk_require c ready EXIT_READY)
      (\<lambda>_. andthen (perform C T c CallRemoveCommit) (wk_release (perform C T c) c))) (outcome_ok c st kd rs)"
proof -
  let ?R = "sole_rely (rc_router C) c" and ?L = "\<lambda>g. \<exists>m. underway c kd m g"
  have req: "triple ?R (underway c kd m) (wk_require c ready EXIT_READY) (after_res (\<lambda>_. underway c kd m) (\<lambda>_. underway c kd m))"
    by (rule wk_require_triple) simp_all
  have "triple ?R (underway c kd m) (perform C T c CallRemoveCommit) (after_res (\<lambda>y g. \<exists>a. y = Evid a \<and> gone c kd g) (\<lambda>_. ?L))"
    unfolding perform_def Let_def call.case
    by (rule triple_ask [OF underway_remove [OF assms] underway_stable gone_stable underway_some_stable]) (auto simp: gone_def)
  then have remove: "triple ?R (underway c kd m) (perform C T c CallRemoveCommit) (after_res (\<lambda>_. gone c kd) (\<lambda>_. ?L))"
    by (rule triple_post) (auto split: sum.splits)
  show ?thesis
    by (rule triple_then [OF req], simp add: afoot_stages, rule triple_then [OF remove _ release_stage [OF assms]]) (auto dest: afoot_stages)
qed

lemma rejected_attempt:
  assumes "stable (sole_rely N c) P" and "\<And>g. P g \<Longrightarrow> afoot c st kd rs g"
  shows "triple (sole_rely N c) P (wk_rejected (perform C T c) e) (outcome_ok c st kd rs)"
  by (rule triple_post [OF rejected_stage [OF assms(1)]]) (use assms(2) in \<open>auto split: sum.splits\<close>)

lemma prepare_untouched:
  assumes "router_ok (rc_router C)" and "c_operation_id c \<noteq> []"
  shows "triple (sole_rely (rc_router C) c) (untouched c st kd rs) (wk_prepare_exit (perform C T c) c) (outcome_ok c st kd rs)"
  unfolding wk_prepare_exit_def
  by (rule triple_attempt [OF untouched_prepare_asked [OF assms(1)] rejected_attempt prepared_stage [OF assms(2)]])
    (auto intro: stable_disj dest: afoot_stages)

lemma prepare_underway:
  assumes "c_operation_id c \<noteq> []"
  shows "triple (sole_rely (rc_router C) c) (underway c kd m) (wk_prepare_exit (perform C T c) c) (outcome_ok c st kd rs)"
proof -
  have p: "triple (sole_rely (rc_router C) c) (underway c kd m) (perform C T c CallPrepareExit) (after_res (\<lambda>_. underway c kd m) (\<lambda>_. underway c kd m))"
    unfolding triple_same by (rule keeps_triple [OF underway_prepare_asked])
  show ?thesis unfolding wk_prepare_exit_def
    by (rule triple_attempt [OF p rejected_attempt prepared_stage [OF assms]]) (auto dest: afoot_stages)
qed

lemma prepare_closed:
  assumes "stable (sole_rely N c) P" and "\<And>g. P g \<Longrightarrow> afoot c st kd rs g"
    and "\<And>g. P g \<Longrightarrow> m_state (ro_mgr g) (c_target c) \<notin> {None, Some ACTIVE, Some DRAINING}"
  shows "triple (sole_rely N c) P (wk_prepare_exit (perform C T c) c) (outcome_ok c st kd rs)"
  unfolding wk_prepare_exit_def
  by (rule triple_attempt [OF closed_prepare [OF assms(1,3)] rejected_attempt [OF assms(1,2)]]) (simp_all add: triple_def)


section \<open>Attempt after attempt\<close>

lemma triple_cases: "triple R P m Q \<Longrightarrow> triple R P' m Q \<Longrightarrow> triple R (\<lambda>g. P g \<or> P' g) m Q"
  unfolding triple_def by blast

lemma retry_stage:
  assumes "c_operation_id c \<noteq> []" and "stable (sole_rely N c) P" and "\<And>g. P g \<Longrightarrow> unreleased c g" and "\<And>g. P g \<Longrightarrow> afoot c st kd rs g"
    and "triple (sole_rely N c) P (perform C T c CallReconcileExit)
      (after_res (\<lambda>y g. y = Absent \<and> P g \<or> (\<exists>ev. y = Evid ev \<and> gone c kd g)) (\<lambda>_. afoot c st kd rs))"
    and "triple (sole_rely N c) P (wk_prepare_exit (perform C T c) c) (outcome_ok c st kd rs)"
  shows "triple (sole_rely N c) P (wk_exit (perform C T c) c True) (outcome_ok c st kd rs)"
proof -
  let ?R = "sole_rely N c" and ?call = "perform C T c" and ?Q = "outcome_ok c st kd rs"
  have service: "triple ?R (\<lambda>g. y = Absent \<and> P g \<or> (\<exists>ev. y = Evid ev \<and> gone c kd g))
      (if y = Absent then wk_prepare_exit ?call c else wk_release ?call c y) ?Q" for y
    by (rule triple_if, rule triple_pre [OF assms(6)], simp, rule triple_pre [OF release_stage [OF assms(1)]]) auto
  have go: "triple ?R (\<lambda>g. prior = Absent \<and> P g)
      (if prior \<noteq> Absent
       then andthen (wk_require c prior RELEASED) (\<lambda>final. andthen (wk_advance ?call final) (\<lambda>_. wk_succeeded final))
       else andthen (?call CallReconcileExit) (\<lambda>service.
         if service = Absent then wk_prepare_exit ?call c else wk_release ?call c service)) ?Q" for prior
    by (rule triple_some) (simp add: triple_then [OF assms(5) _ service] assms(4))
  show ?thesis unfolding wk_exit_def
    by (simp, rule triple_then [OF query_stage [OF assms(2,3)] _ go [unfolded if_not_P]]) (simp_all add: assms(4))
qed

lemma retry_settled:
  "triple (sole_rely N c) (put_away c kd) (wk_exit (perform C T c) c True) (outcome_ok c st kd rs)"
proof -
  let ?R = "sole_rely N c" and ?call = "perform C T c" and ?Q = "outcome_ok c st kd rs" and ?P = "put_away c kd"
  have closed: "closed c g" "m_state (ro_mgr g) (c_target c) \<notin> {None, Some ACTIVE, Some DRAINING}" if "?P g" for g
    using that by (auto simp: put_away_def closed_def)
  have prepare: "triple ?R ?P (wk_prepare_exit ?call c) ?Q"
    by (rule prepare_closed) (use closed(2) in \<open>auto simp: afoot_stages\<close>)
  have service: "triple ?R (\<lambda>g. y = Absent \<and> ?P g) (if y = Absent then wk_prepare_exit ?call c else wk_release ?call c y) ?Q" for y
    by (rule triple_some) (simp add: prepare)
  have reconcile: "triple ?R ?P (?call CallReconcileExit) (after_res (\<lambda>y g. y = Absent \<and> ?P g) (\<lambda>_. ?P))"
    by (rule reconcile_closed) (use closed(1) in auto)
  have again: "triple ?R ?P (andthen (?call CallReconcileExit) (\<lambda>service.
      if service = Absent then wk_prepare_exit ?call c else wk_release ?call c service)) ?Q"
    by (rule triple_then [OF reconcile _ service]) (simp add: afoot_stages)
  show ?thesis unfolding wk_exit_def
    by (simp, rule triple_then [OF query_any(1)]) (simp_all add: afoot_stages settle_worker again)
qed

lemma retry_attempt:
  assumes "router_ok (rc_router C)" and "c_operation_id c \<noteq> []"
  shows "triple (sole_rely (rc_router C) c) (afoot c st kd rs) (wk_exit (perform C T c) c True) (outcome_ok c st kd rs)"
proof -
  let ?R = "sole_rely (rc_router C) c" and ?m = "wk_exit (perform C T c) c True" and ?Q = "outcome_ok c st kd rs"
  have untouched: "triple ?R (untouched c st kd rs) ?m ?Q"
  proof (rule retry_stage [OF assms(2)])
    show "triple ?R (untouched c st kd rs) (perform C T c CallReconcileExit)
        (after_res (\<lambda>y g. y = Absent \<and> untouched c st kd rs g \<or> (\<exists>ev. y = Evid ev \<and> gone c kd g)) (\<lambda>_. afoot c st kd rs))"
    proof (rule triple_post [OF reconcile_closed [where P = "untouched c st kd rs"]])
      show "gateless (untouched c st kd rs)"
        by (simp add: gateless_def untouched_def standing_def sees_def published_as_def)
    qed (auto simp: untouched_def standing_def sees_def closed_def, auto simp: afoot_def split: sum.splits)
  qed (simp_all add: prepare_untouched assms afoot_stages, simp add: untouched_def)
  have underway: "triple ?R (underway c kd m) ?m ?Q" for m
  proof (rule retry_stage [OF assms(2)])
    show "triple ?R (underway c kd m) (perform C T c CallReconcileExit)
        (after_res (\<lambda>y g. y = Absent \<and> underway c kd m g \<or> (\<exists>ev. y = Evid ev \<and> gone c kd g)) (\<lambda>_. afoot c st kd rs))"
      by (rule triple_post [OF reconcile_asked [where L = "\<lambda>g. \<exists>m. underway c kd m g",
          OF underway_stable gone_stable underway_some_stable _ _ triple_post [OF underway_reconcile [OF assms(2)]]]])
        (auto simp: gone_def dest: afoot_stages split: sum.splits option.splits)
  qed (simp_all add: prepare_underway assms afoot_stages, simp add: underway_def)
  have quarantined: "triple ?R (quarantined c) ?m ?Q"
  proof (rule retry_stage [OF assms(2)])
    show "triple ?R (quarantined c) (perform C T c CallReconcileExit)
        (after_res (\<lambda>y g. y = Absent \<and> quarantined c g \<or> (\<exists>ev. y = Evid ev \<and> gone c kd g)) (\<lambda>_. afoot c st kd rs))"
      by (rule triple_post [OF reconcile_closed]) (auto simp: closed_def, auto simp: quarantined_def afoot_def split: sum.splits)
    show "triple ?R (quarantined c) (wk_prepare_exit (perform C T c) c) ?Q"
      by (rule prepare_closed) (simp_all add: afoot_stages, simp add: quarantined_def)
  qed (simp_all add: afoot_stages, simp add: quarantined_def)
  have "triple ?R (\<lambda>g. untouched c st kd rs g \<or> (\<exists>m. underway c kd m g) \<or> quarantined c g \<or> put_away c kd g) ?m ?Q"
    by (intro triple_cases triple_ex untouched underway quarantined retry_settled)
  then show ?thesis by (rule triple_pre) (simp add: afoot_def)
qed

text \<open>A first attempt, and up to \<open>n\<close> more for as long as they raise.\<close>

primrec pursue :: "nat \<Rightarrow> 'g worker \<Rightarrow> 'g worker \<Rightarrow> 'g worker" where
  "pursue 0 first again = first"
| "pursue (Suc n) first again = rescue first (\<lambda>_. pursue n again again)"

lemma pursue_triple:
  assumes "triple R P first (after_res S (\<lambda>_. A))" and "triple R A again (after_res S (\<lambda>_. A))"
  shows "triple R P (pursue n first again) (after_res S (\<lambda>_. A))"
  using assms
proof (induction n arbitrary: P first)
  case (Suc n)
  show ?case unfolding pursue.simps
    by (rule triple_try [OF Suc.prems(1) _ Suc.IH [OF Suc.prems(2,2)]]) simp
qed simp

text \<open>
  C8: An exit that is tried again and again never reports more than was done: when the worker of a DONATE or
  REMOVE, at its first attempt or at any later one and whatever calls and replies are lost in all of
  them, ends SUCCEEDED, then the replica is DORMANT (a native one) or RELEASED (a borrowed one), the load
  balancer has no route to it, it is no receiver of weights, the operation is unbound, and the scheduler
  has recorded the RELEASED evidence of this operation. When it ends FAILED or all attempts raise, then
  the replica is where it was, still a receiver of the same shards and not bound, or it is DRAINING or
  QUARANTINED and still bound to this operation, or it is put away with no route and no membership left.
\<close>

theorem pursued_exit_released:
  assumes "router_ok (rc_router C)" and "obeys (sole_rely (rc_router C) c) r"
    and "c_kind c \<in> {DONATE, REMOVE}" and "c_operation_id c \<noteq> []"
    and "m_state (ro_mgr (r_now r)) (c_target c) = Some st" and "m_kind (ro_mgr (r_now r)) (c_target c) = Some kd"
    and "ro_targets (r_now r) (c_operation_id c) = None" and "published_as (c_operation_id c) (r_now r) = None"
    and "member (c_target c) (tn_ce (r_now r)) = Some rs"
    and "rm_query_release (c_target c) (c_operation_id c) (ro_mgr (r_now r)) = Inr None"
    and "pursue n (wk_body (perform C T c) c snapshot False) (wk_body (perform C T c) c snapshot True) r = (x, r')"
  shows "if \<exists>m. x = Inr (SUCCEEDED, m)
    then m_state (ro_mgr (r_now r')) (c_target c) = Some (if kd = NATIVE then DORMANT else RELEASED_STATE)
      \<and> map_of (lb_routes (ro_lb (r_now r'))) (c_target c) = None \<and> member (c_target c) (tn_ce (r_now r')) = None
      \<and> ro_targets (r_now r') (c_operation_id c) = None
      \<and> (\<exists>ev. gs_evidence (wd_ledger (r_now r')) (c_lease_id c, c_operation_id c) = Some ev
           \<and> e_operation_id ev = c_operation_id c \<and> e_type ev = RELEASED)
    else ro_targets (r_now r') (c_operation_id c) = None \<and> m_state (ro_mgr (r_now r')) (c_target c) = Some st
        \<and> member (c_target c) (tn_ce (r_now r')) = Some rs
      \<or> ro_targets (r_now r') (c_operation_id c) = Some (c_target c)
        \<and> m_state (ro_mgr (r_now r')) (c_target c) \<in> {Some DRAINING, Some QUARANTINED}
      \<or> ro_targets (r_now r') (c_operation_id c) = None
        \<and> m_state (ro_mgr (r_now r')) (c_target c) = Some (if kd = NATIVE then DORMANT else RELEASED_STATE)
        \<and> map_of (lb_routes (ro_lb (r_now r'))) (c_target c) = None \<and> member (c_target c) (tn_ce (r_now r')) = None"
proof -
  have start: "untouched c st kd rs (r_now r)" using assms(5-10) by (simp add: untouched_def standing_def sees_def unreleased_def)
  have b: "wk_body (perform C T c) c snapshot False = wk_prepare_exit (perform C T c) c"
      "wk_body (perform C T c) c snapshot True = wk_exit (perform C T c) c True"
    using assms(3) by (auto simp: wk_body_def wk_exit_def)
  from tripleD(1) [OF pursue_triple [OF prepare_untouched [OF assms(1,4)] retry_attempt [OF assms(1,4)]] assms(2) start
      assms(11) [unfolded b]]
  show ?thesis
    by (auto simp: afoot_def untouched_def standing_def underway_def quarantined_def put_away_def sees_def unrouted_def recorded_def
        split: sum.splits op_status.splits)
qed


text \<open>The reply that commits the exit is lost, the first attempt raises, and the second one reconciles and releases.\<close>

lemma demo_pursued:
  "\<exists>m r'. pursue 1 (wk_body (perform demo_config demo_native (demo_intent DONATE)) (demo_intent DONATE) None False)
       (wk_body (perform demo_config demo_native (demo_intent DONATE)) (demo_intent DONATE) None True)
       (run_of (lose_at [9]) (demo_serving ACTIVE demo_member)) = (Inr (SUCCEEDED, m), r')"
  by (simp add: rescue_def ro_query_release_def rm_query_release_def tn_reconcile_exit_def settle_eval
      wk_eval ro_prepare_exit_def ro_prepare_natural_def ro_begin_drain_def natural_settled
      ro_unsettled_def tn_eval tn_remove_def tn_remove_member_def tn_remove_service_def
      ro_finalize_def ro_release_def ro_sleep_def void_def rm_sleep_begin_def rm_sleep_end_def
      ro_eval coro_eval lb_eval ce_eval demo_key_def demo_task_def demo_native_def demo_member_def pop_at_def
      gs_advance_lease_def new_gs_def advance_check_def advance_effect_def covers_claims_def append_history_def)

theorem pursued_exit_released_witness:
  "\<exists>m r'. pursue 1 (wk_body (perform demo_config demo_native (demo_intent DONATE)) (demo_intent DONATE) None False)
       (wk_body (perform demo_config demo_native (demo_intent DONATE)) (demo_intent DONATE) None True)
       (run_of (lose_at [9]) (demo_serving ACTIVE demo_member)) = (Inr (SUCCEEDED, m), r')
     \<and> m_state (ro_mgr (r_now r')) demo_borrowed = Some DORMANT \<and> member demo_borrowed (tn_ce (r_now r')) = None
     \<and> gs_evidence (wd_ledger (r_now r')) (''A'', ''op'') \<noteq> None"
proof -
  let ?r = "run_of (lose_at [9]) (demo_serving ACTIVE demo_member)" and ?c = "demo_intent DONATE"
  obtain m r' where e: "pursue 1 (wk_body (perform demo_config demo_native ?c) ?c None False)
      (wk_body (perform demo_config demo_native ?c) ?c None True) ?r = (Inr (SUCCEEDED, m), r')"
    using demo_pursued by blast
  have c: "c_kind ?c \<in> {DONATE, REMOVE}" "c_operation_id ?c \<noteq> []" "c_target ?c = demo_borrowed" "c_operation_id ?c = ''op''"
    "c_lease_id ?c = ''A''"
    by (simp_all add: demo_intent_def)
  have s: "m_state (ro_mgr (r_now ?r)) (c_target ?c) = Some ACTIVE" "m_kind (ro_mgr (r_now ?r)) (c_target ?c) = Some NATIVE"
    "ro_targets (r_now ?r) (c_operation_id ?c) = None" "published_as (c_operation_id ?c) (r_now ?r) = None"
    "member (c_target ?c) (tn_ce (r_now ?r)) = Some [3]"
    "rm_query_release (c_target ?c) (c_operation_id ?c) (ro_mgr (r_now ?r)) = Inr None"
    by (simp_all add: world_eval demo_serving_def in_world_def tn.extend_def world.fields_def demo_intent_def
        rm_query_release_def rm_meta_def)
  have "r_sched ?r = lose_at [9]" by (simp add: run_of_def)
  then have o: "obeys (sole_rely (rc_router demo_config) ?c) ?r" by (rule lose_answers [THEN conjunct1])
  have k: "router_ok (rc_router demo_config)" using demo_router_ok by (simp add: demo_config_def)
  have "m_state (ro_mgr (r_now r')) demo_borrowed = Some DORMANT \<and> member demo_borrowed (tn_ce (r_now r')) = None
     \<and> gs_evidence (wd_ledger (r_now r')) (''A'', ''op'') \<noteq> None"
    using pursued_exit_released [OF k o c(1,2) s e] unfolding c(3-5) by auto
  with e show ?thesis by blast
qed

end
