(* ===== verification/Replica.thy ===== *)
theory Replica
  imports Async Replica_Manager Http_Server
begin

text \<open>
  Model of \<open>rollout/replica.py\<close> (\<open>MultiTaskvLLMReplica\<close>): one inference replica. A borrowed replica is
  built on the placement groups of its lease and destroyed with a proof that its actors are dead; a
  native one sleeps and wakes with receipts of its server. The operations are coroutines (theory
  \<open>Async\<close>) over the replica and the state of the Ray cluster.

  Parameters: Ray (the listing of actor states, \<open>ray.kill\<close>, the creation of the worker) and the
  inherited \<open>launch_servers\<close>, as operations on an abstract cluster. What workers and servers answer
  comes with the schedule. Handles are numbers.
\<close>

section \<open>The accelerator of a worker\<close>

text \<open>\<open>str.strip\<close>, \<open>str.splitlines\<close> and \<open>str.isdigit\<close> on the characters up to U+00FF.\<close>

definition py_space :: "char \<Rightarrow> bool" where
  "py_space c \<longleftrightarrow> (of_char c :: nat) \<in> {9, 10, 11, 12, 13, 28, 29, 30, 31, 32, 133, 160}"

definition line_break :: "char \<Rightarrow> bool" where
  "line_break c \<longleftrightarrow> (of_char c :: nat) \<in> {10, 11, 12, 13, 28, 29, 30, 133}"

definition py_isdigit :: "string \<Rightarrow> bool" where
  "py_isdigit s \<longleftrightarrow> s \<noteq> [] \<and> list_all (\<lambda>c. 48 \<le> (of_char c :: nat) \<and> of_char c \<le> (57 :: nat)
     \<or> (of_char c :: nat) \<in> {178, 179, 185}) s"

definition py_strip :: "string \<Rightarrow> string" where
  "py_strip s = rev (dropWhile py_space (rev (dropWhile py_space s)))"

function splitlines :: "string \<Rightarrow> string list" where
  "splitlines [] = []"
| "splitlines (c # cs) =
     (if line_break c
      then [] # splitlines (if c = CHR 0x0D \<and> cs \<noteq> [] \<and> hd cs = CHR 0x0A then tl cs else cs)
      else (case splitlines cs of [] \<Rightarrow> [[c]] | l # ls \<Rightarrow> (c # l) # ls))"
  by pat_completeness auto
termination by (relation "measure length") auto

text \<open>One line of \<open>nvidia-smi\<close>: the index and the UUID around the first comma.\<close>

definition smi_row :: "string \<Rightarrow> (string \<times> string) res" where
  "smi_row line =
     (case dropWhile (\<lambda>c. c \<noteq> CHR '','') line of
        [] \<Rightarrow> Inl (ValueError ''not enough values to unpack'')
      | _ # rest \<Rightarrow> Inr (py_strip (takeWhile (\<lambda>c. c \<noteq> CHR '','') line), py_strip rest))"

definition smi_table :: "string \<Rightarrow> (string \<times> string) list res" where
  "smi_table out = map_res (\<lambda>rows. fold (\<lambda>(i, u). AList.update i u) rows [])
     (traverse smi_row (filter (\<lambda>line. py_strip line \<noteq> []) (splitlines out)))"

definition begins_with :: "string \<Rightarrow> string \<Rightarrow> bool" where
  "begins_with p s \<longleftrightarrow> take (length p) s = p"

definition gpu_identity :: "string \<Rightarrow> string res \<Rightarrow> string res" where
  "gpu_identity aid smi =
     (if begins_with ''GPU-'' aid then Inr aid
      else if begins_with ''MIG-'' aid
      then Inl (NotImplementedError ''first release does not support MIG placement'')
      else if py_isdigit aid
      then (case smi of
              Inl e \<Rightarrow> Inl e
            | Inr out \<Rightarrow>
                (case smi_table out of
                   Inl e \<Rightarrow> Inl e
                 | Inr table \<Rightarrow>
                     (case map_of table aid of
                        None \<Rightarrow> Inl (RuntimeError ''nvidia-smi did not report Ray GPU id'')
                      | Some uuid \<Rightarrow> Inr uuid)))
      else Inl (RuntimeError ''cannot map Ray GPU accelerator id to a UUID''))"

text \<open>
  \<open>_runtime_placement_probe\<close>, inside the worker: \<open>ids\<close> are Ray's accelerator ids of the actor, \<open>smi\<close> is
  what \<open>nvidia-smi\<close> prints, which is only run for a numeric id.
\<close>

definition vr_probe :: "string \<Rightarrow> string \<Rightarrow> pyval \<Rightarrow> string list \<Rightarrow> string res \<Rightarrow> pydict res" where
  "vr_probe resource node pg ids smi =
     (if resource \<notin> {''GPU'', ''NPU''}
      then Inl (NotImplementedError ''first release placement probe supports GPU/NPU accelerators'')
      else
        (case ids of
           [aid] \<Rightarrow>
             map_res (\<lambda>uuid. [(''node_id'', PStr node), (''pg_id'', pg), (''gpu_uuid'', PStr uuid),
                 (''resource_name'', PStr resource), (''accelerator_id'', PStr aid)])
               (if resource = ''NPU'' then Inr (''NPU:'' @ node @ '':'' @ aid) else gpu_identity aid smi)
         | _ \<Rightarrow> Inl (RuntimeError ''expected exactly one Ray accelerator id for CE actor'')))"

section \<open>State\<close>

record vr =
  vr_kind :: replica_kind
  vr_rank :: nat
  vr_epoch :: nat
  vr_suffix :: string
  vr_world :: nat
  vr_nnodes :: nat
  vr_gpus_per_node :: nat
  vr_standalone :: bool
  vr_claims :: "pydict list"
  vr_workers :: "nat list"
  vr_worker_names :: "string list"
  vr_servers :: "nat list"
  vr_server_names :: "string list"
  vr_handle :: "nat option"
  vr_address :: string
  vr_verified :: bool

text \<open>The constructor; \<open>base\<close> is what the inherited constructor sets up.\<close>

definition vr_new :: "replica_kind \<Rightarrow> pydict list \<Rightarrow> nat \<Rightarrow> nat \<Rightarrow> vr \<Rightarrow> vr res" where
  "vr_new kind claims epoch colocate base =
     (if colocate \<noteq> FIRST_RELEASE_MAX_COLOCATE_COUNT
      then Inl (ValueError ''first release requires max_colocate_count'')
      else Inr (base\<lparr>vr_kind := kind, vr_claims := claims, vr_epoch := epoch\<rparr>))"

record worker_plan =
  wp_claim_id :: pyval
  wp_actor_name :: string
  wp_pg_id :: pyval
  wp_bundle :: pyval
  wp_node :: pyval
  wp_gpu :: pyval
  wp_num_gpus :: pyval
  wp_num_cpus :: pyval
  wp_env :: "(string \<times> string) list"

record 'w vr_sys =
  vs_self :: vr
  vs_ray :: 'w

record 'w ray_ops =
  ry_list :: "string \<Rightarrow> string \<Rightarrow> 'w \<Rightarrow> string list res"
  ry_kill :: "nat \<Rightarrow> 'w \<Rightarrow> unit res \<times> 'w"
  ry_spawn :: "worker_plan \<Rightarrow> pyval \<Rightarrow> pyval \<Rightarrow> 'w \<Rightarrow> nat res \<times> 'w"
  ry_group :: "nat \<Rightarrow> nat list res"
  ry_launch :: "vr \<Rightarrow> 'w \<Rightarrow> unit res \<times> vr \<times> 'w"
  ry_namespace :: string
  ry_server_prefix :: string
  ry_resource :: string

definition on_self :: "(vr \<Rightarrow> vr) \<Rightarrow> ('w vr_sys, unit) coro" where
  "on_self f = sync (\<lambda>g. (Inr (), g\<lparr>vs_self := f (vs_self g)\<rparr>))"

definition self :: "(vr \<Rightarrow> 'b) \<Rightarrow> ('b \<Rightarrow> ('w vr_sys, 'a) coro) \<Rightarrow> ('w vr_sys, 'a) coro" where
  "self f = look (\<lambda>g. f (vs_self g))"

text \<open>\<open>d[k]\<close>, and \<open>tuple(v or ())\<close>.\<close>

definition pyindex :: "pydict \<Rightarrow> string \<Rightarrow> pyval res" where
  "pyindex d k = (case map_of d k of None \<Rightarrow> Inl (KeyError k) | Some v \<Rightarrow> Inr v)"

fun py_tuple :: "pyval \<Rightarrow> pyval list res" where
  "py_tuple (PList xs) = Inr xs"
| "py_tuple (PTuple xs) = Inr xs"
| "py_tuple (PDict d) = Inr (map (PStr \<circ> fst) d)"
| "py_tuple (PStr s) = Inr (map (\<lambda>c. PStr [c]) s)"
| "py_tuple v = (if py_truth v then Inl (TypeError ''object is not iterable'') else Inr [])"

section \<open>The plan of a borrowed worker\<close>
definition vr_validate_placement :: "vr \<Rightarrow> pyval \<Rightarrow> unit res" where
  "vr_validate_placement v value =
     (if vr_kind v \<noteq> BORROWED then Inl (ValueError ''lease placement is valid only for BORROWED replicas'')
      else
        (case value of
           PDict spec \<Rightarrow>
             if \<not> py_eq (pyget spec ''replica_rank'') (PInt (int (vr_rank v)))
             then Inl (ValueError ''placement replica_rank does not match runtime identity'')
             else if \<not> py_eq (pyget_default spec ''placement_epoch'' (PInt 0)) (PInt (int (vr_epoch v)))
             then Inl (ValueError ''placement_epoch does not match runtime identity'')
             else
               (case pyindex spec ''lease_id'' of
                  Inl e \<Rightarrow> Inl e
                | Inr lid \<Rightarrow>
                    (case py_tuple (pyget spec ''claims'') of
                       Inl e \<Rightarrow> Inl e
                     | Inr items \<Rightarrow>
                         if pystr_of lid = [] then Inl (ValueError ''lease_id'')
                         else
                           (case traverse as_dict items of
                              Inl e \<Rightarrow> Inl e
                            | Inr raw \<Rightarrow>
                                (case mk_lease (pystr_of lid) raw (pyget_default spec ''expires_at'' (PInt 0)) of
                                   Inl e \<Rightarrow> Inl e
                                 | Inr l \<Rightarrow>
                                     if vr_world v \<noteq> 1 \<or> length (l_claims l) \<noteq> 1
                                     then Inl (ValueError ''current borrowed runtime requires one TP=1 claim'')
                                     else if \<not> list_all (\<lambda>k. py_eq (pyget (hd (l_claims l)) k) (PInt 0))
                                               [''rank'', ''node_rank'', ''local_rank'']
                                     then Inl (ValueError ''current borrowed claim requires rank=node_rank=local_rank=0'')
                                     else Inr ()))))
         | _ \<Rightarrow> Inl (TypeError ''borrowed placement spec must be a dict'')))"

definition ce_prefix :: "vr \<Rightarrow> string" where
  "ce_prefix v = ''borrowed_ce_'' @ nat_str (vr_rank v) @ vr_suffix v @ ''_''"

definition server_name :: "string \<Rightarrow> vr \<Rightarrow> string" where
  "server_name prefix v = prefix @ ''server_'' @ nat_str (vr_rank v) @ ''_0'' @ vr_suffix v"

text \<open>The dictionary the method returns, read in the order the code reads the claim.\<close>

definition worker_plan_of :: "vr \<Rightarrow> pydict \<Rightarrow> worker_plan res" where
  "worker_plan_of v claim =
     (case traverse (pyindex claim) [''claim_id'', ''pg_id'', ''bundle_index'', ''node_id'', ''gpu_uuid'',
              ''gpu_fraction'', ''cpu_request''] of
        Inl e \<Rightarrow> Inl e
      | Inr vs \<Rightarrow>
          Inr \<lparr>wp_claim_id = vs ! 0, wp_actor_name = ce_prefix v @ ''r0'', wp_pg_id = vs ! 1, wp_bundle = vs ! 2,
               wp_node = vs ! 3, wp_gpu = vs ! 4, wp_num_gpus = vs ! 5, wp_num_cpus = vs ! 6,
               wp_env = [(''WORLD_SIZE'', ''1''), (''RANK'', ''0''), (''RAY_LOCAL_WORLD_SIZE'', ''1''),
                 (''WG_PREFIX'', ce_prefix v), (''WG_BACKEND'', ''ray'')]\<rparr>)"

text \<open>After the validation the claims are a nonempty list or tuple of dictionaries.\<close>

definition spec_first_claim :: "pydict \<Rightarrow> pydict res" where
  "spec_first_claim spec =
     (case py_tuple (pyget spec ''claims'') of Inr (PDict c # _) \<Rightarrow> Inr c | _ \<Rightarrow> Inl (TypeError ''claims''))"

definition vr_build_plan :: "string \<Rightarrow> pydict \<Rightarrow> vr \<Rightarrow> worker_plan res \<times> vr" where
  "vr_build_plan prefix spec v =
     (case vr_validate_placement v (PDict spec) of
        Inl e \<Rightarrow> (Inl e, v)
      | Inr _ \<Rightarrow>
          (case spec_first_claim spec of
             Inl e \<Rightarrow> (Inl e, v)
           | Inr claim \<Rightarrow>
               (worker_plan_of v claim, v\<lparr>vr_claims := [claim], vr_server_names := [server_name prefix v]\<rparr>)))"

section \<open>Placements of the workers\<close>

definition vr_worker_placements :: "('w vr_sys, pydict list) coro" where
  "vr_worker_placements = self vr_workers (\<lambda>ws.
     guard_that (length ws = 1) (RuntimeError ''current verified runtime requires one CE worker'')
       (andthen outside (\<lambda>placement.
          case placement of
            PDict d \<Rightarrow> ret [d]
          | _ \<Rightarrow> raise (TypeError ''runtime placement probe returned a non-dict result''))))"

definition located :: "pydict \<Rightarrow> pydict \<Rightarrow> string \<Rightarrow> string \<Rightarrow> unit res" where
  "located claim actual field what =
     (case pyindex claim field of
        Inl e \<Rightarrow> Inl e
      | Inr v \<Rightarrow>
          if py_eq (pyget actual field) v then Inr ()
          else (case pyindex claim ''rank'' of
                  Inl e \<Rightarrow> Inl e
                | Inr _ \<Rightarrow> Inl (RuntimeError (''borrower rank landed on unexpected '' @ what))))"

definition placement_check :: "pydict \<times> pydict \<Rightarrow> unit res" where
  "placement_check p =
     (case located (fst p) (snd p) ''node_id'' ''node'' of
        Inl e \<Rightarrow> Inl e
      | Inr _ \<Rightarrow> located (fst p) (snd p) ''gpu_uuid'' ''physical accelerator'')"

definition vr_validate_workers :: "('w vr_sys, pydict list) coro" where
  "vr_validate_workers = self vr_claims (\<lambda>claims. self vr_workers (\<lambda>ws.
     guard_that (length ws = length claims)
       (RuntimeError ''borrower worker count does not match normalized placement claims'')
       (andthen vr_worker_placements (\<lambda>placements.
          guard_that (length claims = length placements) (ValueError ''zip() arguments differ in length'')
            (andthen (lift_res (traverse placement_check (zip claims placements))) (\<lambda>_. ret placements))))))"

section \<open>The proof that actors are dead\<close>

text \<open>Every actor the State API lists under the name is DEAD, and it lists one.\<close>

definition dead_proof :: "string list \<Rightarrow> bool" where
  "dead_proof states \<longleftrightarrow> states \<noteq> [] \<and> list_all (\<lambda>s. s = ''DEAD'') states"

fun vr_non_dead :: "'w ray_ops \<Rightarrow> string list \<Rightarrow> ('w vr_sys, string list) coro" where
  "vr_non_dead ry [] = ret []"
| "vr_non_dead ry (n # ns) =
     andthen (query (\<lambda>g. ry_list ry (ry_namespace ry) n (vs_ray g))) (\<lambda>states.
       andthen (vr_non_dead ry ns) (\<lambda>rest. ret (if dead_proof states then rest else n # rest)))"

lemma steady_non_dead [simp]: "steady (vr_non_dead ry ns)"
  by (induction ns) (auto intro!: steady_andthen)

lemma non_dead_time: "(x, r1) = vr_non_dead ry ns r \<Longrightarrow> r_time r \<le> r_time r1"
  using steadyD [OF steady_non_dead, of r ry ns] by (metis snd_conv)

function vr_poll_dead :: "'w ray_ops \<Rightarrow> string list \<Rightarrow> rat \<Rightarrow> ('w vr_sys, unit) coro" where
  "vr_poll_dead ry names deadline r =
     (case vr_non_dead ry names r of
        (Inl e, r1) \<Rightarrow> (Inl e, r1)
      | (Inr active, r1) \<Rightarrow>
          if active = [] then (Inr (), r1)
          else if deadline \<le> r_time r1
          then (Inl (RuntimeError ''Ray actors did not reach DEAD before timeout''), r1)
          else vr_poll_dead ry names deadline (snd (pause (1 / 10) r1)))"
  by pat_completeness auto
termination
  by (relation "measure (\<lambda>(ry, names, deadline, r). polls_left (1 / 10) deadline (r_time r))")
    (auto simp: pause_def dest!: non_dead_time intro!: polls_left_decreases)

declare vr_poll_dead.simps [simp del]

definition vr_wait_dead :: "'w ray_ops \<Rightarrow> string list \<Rightarrow> ('w vr_sys, unit) coro" where
  "vr_wait_dead ry names r = (if names = [] then (Inr (), r) else vr_poll_dead ry names (r_time r + 10) r)"

section \<open>Cleanup\<close>

text \<open>\<open>ray.kill\<close> of each handle; a failing kill is ignored.\<close>

fun vr_kill_all :: "'w ray_ops \<Rightarrow> nat list \<Rightarrow> ('w vr_sys, unit) coro" where
  "vr_kill_all ry [] = ret ()"
| "vr_kill_all ry (a # as) =
     andthen (sync (\<lambda>g. (Inr (), g\<lparr>vs_ray := snd (ry_kill ry a (vs_ray g))\<rparr>))) (\<lambda>_. vr_kill_all ry as)"

definition vr_kill_workers :: "'w ray_ops \<Rightarrow> nat list \<Rightarrow> string list \<Rightarrow> ('w vr_sys, unit) coro" where
  "vr_kill_workers ry workers names = andthen (vr_kill_all ry workers) (\<lambda>_.
     guard_that (workers = [] \<or> names \<noteq> [])
       (RuntimeError ''borrowed CE worker cleanup has no actor names for DEAD proof'') (vr_wait_dead ry names))"

definition vr_stop_servers :: "'w ray_ops \<Rightarrow> nat list \<Rightarrow> string list \<Rightarrow> ('w vr_sys, unit) coro" where
  "vr_stop_servers ry servers names =
     (if servers = [] then ret ()
      else andthen (caught outside (\<lambda>_. ret ())) (\<lambda>_.
             andthen (vr_kill_all ry servers) (\<lambda>_.
               guard_that (names \<noteq> []) (RuntimeError ''borrowed server cleanup has no actor names for DEAD proof'')
                 (ret ()))))"

definition vr_shutdown_servers :: "'w ray_ops \<Rightarrow> ('w vr_sys, unit) coro" where
  "vr_shutdown_servers ry = self vr_servers (\<lambda>servers. self vr_server_names (\<lambda>names.
     andthen (vr_stop_servers ry servers names) (\<lambda>_.
       andthen (vr_wait_dead ry names) (\<lambda>_.
         on_self (\<lambda>v. v\<lparr>vr_servers := [], vr_handle := None, vr_address := []\<rparr>)))))"

definition is_ok :: "'a res \<Rightarrow> bool" where
  "is_ok x \<longleftrightarrow> (case x of Inl _ \<Rightarrow> False | Inr _ \<Rightarrow> True)"

definition vr_cleanup :: "'w ray_ops \<Rightarrow> ('w vr_sys, unit) coro" where
  "vr_cleanup ry = self vr_kind (\<lambda>kind.
     guard_that (kind = BORROWED) (ValueError ''borrowed cleanup is BORROWED-only'')
       (andthen (on_self (\<lambda>v. v\<lparr>vr_verified := False\<rparr>)) (\<lambda>_.
          caught (vr_shutdown_servers ry) (\<lambda>x.
            self vr_workers (\<lambda>ws. self vr_worker_names (\<lambda>names.
              caught (vr_kill_workers ry ws names) (\<lambda>y.
                andthen (if is_ok y then on_self (\<lambda>v. v\<lparr>vr_workers := []\<rparr>) else ret ()) (\<lambda>_.
                  guard_that (is_ok x \<and> is_ok y) (RuntimeError ''borrowed runtime cleanup is unverified'')
                    (on_self (\<lambda>v. v\<lparr>vr_verified := True\<rparr>))))))))))"

section \<open>Creation\<close>

definition vr_adopt :: "'w ray_ops \<Rightarrow> worker_plan \<Rightarrow> nat \<Rightarrow> ('w vr_sys, unit) coro" where
  "vr_adopt ry item worker = andthen (lift_res (ry_group ry worker)) (\<lambda>ws.
     andthen (on_self (\<lambda>v. v\<lparr>vr_workers := ws, vr_worker_names := [wp_actor_name item]\<rparr>)) (\<lambda>_.
       andthen vr_validate_workers (\<lambda>_. ret ())))"

text \<open>The \<open>except\<close> clause of the creation, for the worker that was started, if one was.\<close>

definition vr_worker_failed :: "'w ray_ops \<Rightarrow> worker_plan \<Rightarrow> nat option \<Rightarrow> exn \<Rightarrow> ('w vr_sys, unit) coro" where
  "vr_worker_failed ry item worker e =
     caught (case worker of
               None \<Rightarrow> vr_kill_workers ry [] []
             | Some w \<Rightarrow> vr_kill_workers ry [w] [wp_actor_name item]) (\<lambda>c.
       case c of
         Inr _ \<Rightarrow> andthen (on_self (\<lambda>v. v\<lparr>vr_workers := []\<rparr>)) (\<lambda>_. raise e)
       | Inl _ \<Rightarrow>
           andthen (case worker of
                      None \<Rightarrow> ret ()
                    | Some w \<Rightarrow> on_self (\<lambda>v. v\<lparr>vr_workers := [w], vr_worker_names := [wp_actor_name item]\<rparr>))
             (\<lambda>_. raise (RuntimeError ''borrowed CE creation failed; actor cleanup is unverified'')))"

definition vr_start_worker :: "'w ray_ops \<Rightarrow> worker_plan \<Rightarrow> pyval \<Rightarrow> pyval \<Rightarrow> ('w vr_sys, unit) coro" where
  "vr_start_worker ry item addr port =
     caught (sync (\<lambda>g. (case ry_spawn ry item addr port (vs_ray g) of (x, w) \<Rightarrow> (x, g\<lparr>vs_ray := w\<rparr>)))) (\<lambda>x.
       case x of
         Inl e \<Rightarrow> vr_worker_failed ry item None e
       | Inr worker \<Rightarrow> rescue (vr_adopt ry item worker) (vr_worker_failed ry item (Some worker)))"

text \<open>\<open>pgs\<close>: the ids of the placement groups whose handles the manager passes.\<close>

definition vr_create_workers :: "'w ray_ops \<Rightarrow> pydict \<Rightarrow> string set \<Rightarrow> ('w vr_sys, unit) coro" where
  "vr_create_workers ry spec pgs =
     andthen (sync (\<lambda>g. (case vr_build_plan (ry_server_prefix ry) spec (vs_self g) of (x, v) \<Rightarrow> (x, g\<lparr>vs_self := v\<rparr>))))
       (\<lambda>item.
          guard_that (PStr ` pgs = {wp_pg_id item}) (ValueError ''placement-group handles do not exactly cover claims'')
            (andthen outside (\<lambda>master.
               case master of
                 PTuple [addr, port] \<Rightarrow> vr_start_worker ry item addr port
               | PList [addr, port] \<Rightarrow> vr_start_worker ry item addr port
               | _ \<Rightarrow> raise (ValueError ''cannot unpack the master address''))))"

section \<open>Runtime validation\<close>

fun hashable :: "pyval \<Rightarrow> bool" where
  "hashable (PList _) = False"
| "hashable (PDict _) = False"
| "hashable (PTuple xs) = list_all hashable xs"
| "hashable _ = True"

definition vr_health_placement :: "pydict \<Rightarrow> ('w vr_sys, unit) coro" where
  "vr_health_placement health = self (\<lambda>v. (vr_kind v, vr_claims v, vr_workers v)) (\<lambda>(kind, claims, ws).
     case kind of
       BORROWED \<Rightarrow>
         (case claims of
            [] \<Rightarrow> raise (RuntimeError ''borrowed runtime has no placement claims'')
          | claim # _ \<Rightarrow> andthen (lift_res (pyindex claim ''node_id'')) (\<lambda>node.
              guard_that (py_eq (pyget health ''node_id'') node)
                (RuntimeError ''borrowed server landed on unexpected node'') (ret ())))
     | NATIVE \<Rightarrow>
         guard_that (ws \<noteq> []) (RuntimeError ''native runtime has no CE workers for health validation'')
           (andthen vr_worker_placements (\<lambda>placements.
              let nodes = map (\<lambda>d. pyget d ''node_id'') placements in
              guard_that (list_all hashable nodes \<and> hashable (pyget health ''node_id'')) (TypeError ''unhashable type'')
                (guard_that (nodes \<noteq> [] \<and> list_all (py_eq (hd nodes)) nodes \<and> py_eq (pyget health ''node_id'') (hd nodes))
                   (RuntimeError ''native server/worker node placement mismatch'') (ret ())))))"

definition vr_check_health :: "pydict \<Rightarrow> ('w vr_sys, pydict) coro" where
  "vr_check_health health = self id (\<lambda>v.
     guard_that (py_eq (pyget health ''replica_rank'') (PInt (int (vr_rank v))))
       (RuntimeError ''server replica_rank mismatch'')
     (guard_that (py_truth (pyget health ''server_address'') \<and> py_truth (pyget health ''server_port''))
       (RuntimeError ''HTTP server address is incomplete'')
     (guard_that (vr_servers v \<noteq> [] \<and> vr_handle v = Some (hd (vr_servers v)))
       (RuntimeError ''primary server handle is inconsistent'')
     (guard_that (vr_address v \<noteq> []) (RuntimeError ''primary server address is missing'')
       (andthen (vr_health_placement health) (\<lambda>_. ret health))))))"

definition vr_validate_server :: "('w vr_sys, pydict) coro" where
  "vr_validate_server = self (\<lambda>v. vr_nnodes v = 1 \<and> length (vr_servers v) = 1) (\<lambda>one.
     guard_that one (RuntimeError ''first release runtime validation requires exactly one server'')
       (andthen outside (\<lambda>reply.
          case reply of
            PDict health \<Rightarrow> vr_check_health health
          | _ \<Rightarrow> raise (TypeError ''server runtime health returned a non-dict result''))))"

section \<open>The creation transaction\<close>

record vr_receipt =
  rr_rank :: nat
  rr_worker_names :: "string list"
  rr_server_names :: "string list"
  rr_address :: string
  rr_health :: pydict

definition vr_launch :: "'w ray_ops \<Rightarrow> ('w vr_sys, unit) coro" where
  "vr_launch ry = remote (sync (\<lambda>g. (case ry_launch ry (vs_self g) (vs_ray g) of
     (x, v, w) \<Rightarrow> (x, g\<lparr>vs_self := v, vs_ray := w\<rparr>))))"

definition vr_init_body :: "'w ray_ops \<Rightarrow> pydict \<Rightarrow> string set \<Rightarrow> ('w vr_sys, vr_receipt) coro" where
  "vr_init_body ry spec pgs =
     andthen (vr_create_workers ry spec pgs) (\<lambda>_.
       andthen (vr_launch ry) (\<lambda>_.
         andthen vr_validate_server (\<lambda>health. self id (\<lambda>v.
           ret \<lparr>rr_rank = vr_rank v, rr_worker_names = vr_worker_names v, rr_server_names = vr_server_names v,
                rr_address = vr_address v, rr_health = health\<rparr>))))"

definition vr_init :: "'w ray_ops \<Rightarrow> pydict \<Rightarrow> string set \<Rightarrow> ('w vr_sys, vr_receipt) coro" where
  "vr_init ry spec pgs =
     andthen (on_self (\<lambda>v. v\<lparr>vr_standalone := True, vr_nnodes := 1, vr_gpus_per_node := vr_world v, vr_verified := False\<rparr>))
       (\<lambda>_. rescue (vr_init_body ry spec pgs) (\<lambda>e.
          caught (vr_cleanup ry) (\<lambda>c.
            case c of
              Inl _ \<Rightarrow> raise (RuntimeError ''borrowed runtime creation failed; cleanup is unverified'')
            | Inr _ \<Rightarrow> raise e)))"

section \<open>Sleep and wake of a native replica\<close>

definition vr_sleep_level :: "string \<Rightarrow> int res" where
  "vr_sleep_level resource =
     (if resource = ''GPU'' then Inr 2 else if resource = ''NPU'' then Inr 1
      else Inl (NotImplementedError ''native sleep is unsupported for Ray resource''))"

definition sleep_confirmed :: "int \<Rightarrow> pyval \<Rightarrow> bool" where
  "sleep_confirmed level receipt \<longleftrightarrow>
     (case receipt of
        PDict d \<Rightarrow> py_eq (pyget d ''sleep_level'') (PInt level) \<and> pyget d ''sleeping'' = PBool True
      | _ \<Rightarrow> False)"

definition vr_sleep :: "'w ray_ops \<Rightarrow> ('w vr_sys, pyval) coro" where
  "vr_sleep ry = self (\<lambda>v. (vr_kind v, vr_servers v)) (\<lambda>(kind, servers).
     guard_that (kind = NATIVE) (ValueError ''sleep is valid only for retained NATIVE replicas'')
       (guard_that (length servers = 1) (RuntimeError ''current verified native runtime requires one server'')
          (andthen (lift_res (vr_sleep_level (ry_resource ry))) (\<lambda>level.
             andthen outside (\<lambda>receipt.
               guard_that (sleep_confirmed level receipt) (RuntimeError ''native server did not confirm sleep'')
                 (ret receipt))))))"

definition wake_confirmed :: "string list option \<Rightarrow> pydict \<Rightarrow> bool" where
  "wake_confirmed tags d \<longleftrightarrow>
     (let weights = (tags = Some [''weights'']) in
      py_eq (pyget d ''sleeping'') (PBool weights) \<and> py_eq (pyget d ''fully_awake'') (PBool (\<not> weights)))"

definition vr_wake :: "string list option \<Rightarrow> ('w vr_sys, pyval) coro" where
  "vr_wake tags = self (\<lambda>v. (vr_kind v, vr_servers v)) (\<lambda>(kind, servers).
     guard_that (kind = NATIVE) (ValueError ''wake_up is valid only for retained NATIVE replicas'')
       (guard_that (length servers = 1) (RuntimeError ''current verified native runtime requires one server'')
          (andthen outside (\<lambda>receipt.
             case receipt of
               PDict d \<Rightarrow> guard_that (wake_confirmed tags d) (RuntimeError ''native server wake residency is inconsistent'')
                 (ret receipt)
             | _ \<Rightarrow> raise (TypeError ''native server wake returned a non-dict receipt'')))))"

end
