(* ===== verification/Replica_Safety.thy ===== *)
theory Replica_Safety
  imports Replica
begin

text \<open>
  What the borrowed runtime of \<open>Replica\<close> guarantees about its actors: a verified cleanup, and with it
  every failure of the creation that the manager records as RELEASED, leaves no actor of the runtime
  alive; an unverified one keeps the handles. The cluster is a parameter with the documented behaviour
  \<open>ray_ok\<close>; \<open>alive n w\<close> says that a live actor has the name \<open>n\<close>.
\<close>

section \<open>The cluster\<close>

text \<open>
  A name that is listed, and only as DEAD, has no live actor; killing starts none; creating the worker
  starts at most the actor it names, and none when it raises; \<open>launch_servers\<close> starts only the server
  of the replica and sets only its servers, handle and address.
\<close>

definition same_but_servers :: "vr \<Rightarrow> vr \<Rightarrow> bool" where
  "same_but_servers v v' \<longleftrightarrow>
     v' = v\<lparr>vr_servers := vr_servers v', vr_handle := vr_handle v', vr_address := vr_address v'\<rparr>"

definition ray_ok :: "'w ray_ops \<Rightarrow> (string \<Rightarrow> 'w \<Rightarrow> bool) \<Rightarrow> bool" where
  "ray_ok ry alive \<longleftrightarrow>
     (\<forall>n w states. ry_list ry (ry_namespace ry) n w = Inr states \<longrightarrow> states \<noteq> [] \<longrightarrow> set states \<subseteq> {''DEAD''} \<longrightarrow> \<not> alive n w)
     \<and> (\<forall>a n w. \<not> alive n w \<longrightarrow> \<not> alive n (snd (ry_kill ry a w)))
     \<and> (\<forall>item a p n w. \<not> alive n w \<longrightarrow> alive n (snd (ry_spawn ry item a p w)) \<longrightarrow>
          n = wp_actor_name item \<and> is_ok (fst (ry_spawn ry item a p w)))
     \<and> (\<forall>v n w. \<not> alive n w \<longrightarrow> alive n (snd (snd (ry_launch ry v w))) \<longrightarrow> n \<in> set (vr_server_names v))
     \<and> (\<forall>v w. same_but_servers v (fst (snd (ry_launch ry v w))))"

lemma ray_listed: "ray_ok ry alive \<Longrightarrow> ry_list ry (ry_namespace ry) n w = Inr states \<Longrightarrow> dead_proof states \<Longrightarrow> \<not> alive n w"
  by (auto simp: ray_ok_def dead_proof_def list_all_iff subset_iff)

lemma ray_killed: "ray_ok ry alive \<Longrightarrow> \<not> alive n w \<Longrightarrow> \<not> alive n (snd (ry_kill ry a w))"
  by (auto simp: ray_ok_def)

lemma ray_spawned:
  "ray_ok ry alive \<Longrightarrow> ry_spawn ry item a p w = (x, w') \<Longrightarrow> \<not> alive n w \<Longrightarrow> alive n w' \<Longrightarrow> n = wp_actor_name item \<and> is_ok x"
  unfolding ray_ok_def by (metis fst_conv snd_conv)

lemma ray_launched:
  assumes "ray_ok ry alive" and "ry_launch ry v w = (x, v', w')"
  shows "same_but_servers v v'" "\<not> alive n w \<Longrightarrow> alive n w' \<Longrightarrow> n \<in> set (vr_server_names v)"
  using assms unfolding ray_ok_def by (metis fst_conv snd_conv)+

text \<open>The others leave the replica alone and start no actor of its names.\<close>

definition vr_rely :: "(string \<Rightarrow> 'w \<Rightarrow> bool) \<Rightarrow> string set \<Rightarrow> 'w vr_sys \<Rightarrow> 'w vr_sys \<Rightarrow> bool" where
  "vr_rely alive N g g' \<longleftrightarrow> vs_self g' = vs_self g
     \<and> (\<forall>n \<in> N. \<not> alive n (vs_ray g) \<longrightarrow> \<not> alive n (vs_ray g'))"

definition dead_at :: "(string \<Rightarrow> 'w \<Rightarrow> bool) \<Rightarrow> vr \<Rightarrow> string set \<Rightarrow> 'w vr_sys \<Rightarrow> bool" where
  "dead_at alive v D g \<longleftrightarrow> vs_self g = v \<and> (\<forall>n \<in> D. \<not> alive n (vs_ray g))"

lemma dead_at_stable: "D \<subseteq> N \<Longrightarrow> stable (vr_rely alive N) (dead_at alive v D)"
  by (auto simp: stable_def vr_rely_def dead_at_def)

lemma dead_at_weaken: "dead_at alive v D g \<Longrightarrow> D' \<subseteq> D \<Longrightarrow> dead_at alive v D' g"
  by (auto simp: dead_at_def)

lemma self_triple: "(triple R (dead_at alive v D) (k (f v)) Q) \<Longrightarrow> triple R (dead_at alive v D) (self f k) Q"
  by (auto simp: self_def triple_def look_def dead_at_def)

lemma self_look: "(\<And>a. triple R (\<lambda>g. P g \<and> f (vs_self g) = a) (k a) Q) \<Longrightarrow> triple R P (self f k) Q"
  unfolding self_def by (rule triple_look)

lemma on_self_triple: "triple R (dead_at alive v D) (on_self f) (after_res (\<lambda>_. dead_at alive (f v) D) F)"
  unfolding on_self_def by (rule triple_sync) (simp add: dead_at_def)

lemma on_self_then:
  "triple R (dead_at alive (f v) D) k Q \<Longrightarrow> triple R (dead_at alive v D) (andthen (on_self f) (\<lambda>_. k)) Q"
  by (rule triple_then [OF on_self_triple [where F = "\<lambda>_ _. False"]]) auto

section \<open>Waiting for the dead\<close>

lemma non_dead_triple:
  assumes "ray_ok ry alive" and "set names \<subseteq> N" and "D \<subseteq> N"
  shows "triple (vr_rely alive N) (dead_at alive v D) (vr_non_dead ry names)
    (after_res (\<lambda>active. dead_at alive v (D \<union> (set names - set active))) (\<lambda>_. dead_at alive v D))"
  using assms(2,3)
proof (induction names arbitrary: D)
  case Nil
  then show ?case by (auto intro: triple_ret)
next
  case (Cons n names)
  let ?Q = "after_res (\<lambda>active. dead_at alive v (D \<union> (set (n # names) - set active))) (\<lambda>_. dead_at alive v D)"
  let ?S = "\<lambda>states. dead_at alive v (D \<union> (if dead_proof states then {n} else {}))"
  have rest: "triple (vr_rely alive N) (?S states)
      (andthen (vr_non_dead ry names) (\<lambda>rest. ret (if dead_proof states then rest else n # rest))) ?Q" for states
  proof (rule triple_then [OF Cons.IH])
    show "set names \<subseteq> N" "D \<union> (if dead_proof states then {n} else {}) \<subseteq> N" using Cons.prems by auto
  qed (auto intro!: triple_ret elim: dead_at_weaken)
  have "triple (vr_rely alive N) (dead_at alive v D) (query (\<lambda>g. ry_list ry (ry_namespace ry) n (vs_ray g)))
      (after_res ?S (\<lambda>_. dead_at alive v D))"
  proof (rule triple_query)
    show "stable (vr_rely alive N) (dead_at alive v D)" "stable (vr_rely alive N) (?S states)" for states
      using Cons.prems by (auto intro: dead_at_stable)
    show "?S states g" if "dead_at alive v D g" "ry_list ry (ry_namespace ry) n (vs_ray g) = Inr states" for g states
      using that ray_listed [OF assms(1)] by (auto simp: dead_at_def)
  qed
  then show ?case unfolding vr_non_dead.simps by (rule triple_then) (use rest in auto)
qed

lemma dead_polling:
  "polling (vr_non_dead ry names) (\<lambda>x. case x of Inl _ \<Rightarrow> False | Inr active \<Rightarrow> active \<noteq> [])
     (\<lambda>x. case x of Inl e \<Rightarrow> Inl e | Inr active \<Rightarrow> if active = [] then Inr ()
        else Inl (RuntimeError ''Ray actors did not reach DEAD before timeout''))
     (\<lambda>_. 1 / 10) deadline (vr_poll_dead ry names deadline)"
  unfolding polling_def
  by (subst vr_poll_dead.simps) (auto split: prod.splits sum.splits)

lemma wait_dead_triple:
  assumes "ray_ok ry alive" and "set names \<subseteq> N" and "D \<subseteq> N"
  shows "triple (vr_rely alive N) (dead_at alive v D) (vr_wait_dead ry names)
    (after_res (\<lambda>_. dead_at alive v (D \<union> set names)) (\<lambda>_. dead_at alive v D))"
proof (cases "names = []")
  case True
  then show ?thesis by (simp add: triple_def vr_wait_dead_def)
next
  case False
  have "triple (vr_rely alive N) (dead_at alive v D) (vr_poll_dead ry names deadline)
    (after_res (\<lambda>_. dead_at alive v (D \<union> set names)) (\<lambda>_. dead_at alive v D))" for deadline
    by (rule poll_triple [OF dead_polling, where g = "1 / 10", OF _ _ _ _ non_dead_triple [OF assms]])
      (use assms(3) in \<open>auto simp: dead_at_stable min_def split: sum.splits if_splits elim: dead_at_weaken\<close>)
  then have "triple (vr_rely alive N) (dead_at alive v D) (\<lambda>r. vr_poll_dead ry names (r_time r + 10) r)
    (after_res (\<lambda>_. dead_at alive v (D \<union> set names)) (\<lambda>_. dead_at alive v D))" by (rule triple_at)
  then show ?thesis by (rule triple_cong) (simp add: vr_wait_dead_def False)
qed

lemma kill_all_triple:
  assumes "ray_ok ry alive"
  shows "triple R (dead_at alive v D) (vr_kill_all ry as) (after_res (\<lambda>_. dead_at alive v D) F)"
proof (induction as)
  case Nil
  show ?case by (auto intro: triple_ret)
next
  case (Cons a as)
  have "triple R (dead_at alive v D) (sync (\<lambda>g. (Inr (), g\<lparr>vs_ray := snd (ry_kill ry a (vs_ray g))\<rparr>)))
      (after_res (\<lambda>_. dead_at alive v D) (\<lambda>_ _. False))"
    by (rule triple_sync) (use ray_killed [OF assms] in \<open>auto simp: dead_at_def\<close>)
  then show ?case unfolding vr_kill_all.simps by (rule triple_then) (use Cons.IH in auto)
qed

lemma kill_workers_triple:
  assumes "ray_ok ry alive" and "set names \<subseteq> N" and "D \<subseteq> N"
  shows "triple (vr_rely alive N) (dead_at alive v D) (vr_kill_workers ry ws names)
    (after_res (\<lambda>_. dead_at alive v (D \<union> set names)) (\<lambda>_. dead_at alive v D))"
  unfolding vr_kill_workers_def
  by (rule triple_then [OF kill_all_triple [OF assms(1), where F = "\<lambda>_ _. False"]])
    (auto intro!: triple_guard wait_dead_triple [OF assms])

section \<open>Cleanup\<close>

definition clear_servers :: "bool \<Rightarrow> vr \<Rightarrow> vr" where
  "clear_servers c v = (if c then v\<lparr>vr_servers := [], vr_handle := None, vr_address := []\<rparr> else v)"

definition clear_workers :: "bool \<Rightarrow> vr \<Rightarrow> vr" where
  "clear_workers b v = (if b then v\<lparr>vr_workers := []\<rparr> else v)"

lemma cleared_fields [simp]:
  "vr_kind (clear_servers c v) = vr_kind v" "vr_workers (clear_servers c v) = vr_workers v"
  "vr_worker_names (clear_servers c v) = vr_worker_names v" "vr_server_names (clear_servers c v) = vr_server_names v"
  "vr_verified (clear_servers c v) = vr_verified v"
  "vr_kind (clear_workers c v) = vr_kind v" "vr_worker_names (clear_workers c v) = vr_worker_names v"
  "vr_server_names (clear_workers c v) = vr_server_names v" "vr_verified (clear_workers c v) = vr_verified v"
  "ce_prefix (clear_workers c v) = ce_prefix v" "ce_prefix (clear_servers c v) = ce_prefix v"
  "server_name p (clear_workers c v) = server_name p v" "server_name p (clear_servers c v) = server_name p v"
  by (simp_all add: clear_servers_def clear_workers_def ce_prefix_def server_name_def)

text \<open>The parts of the cleanup that were proved: the workers when \<open>b\<close>, the servers when \<open>c\<close>.\<close>

definition proved :: "(string \<Rightarrow> 'w \<Rightarrow> bool) \<Rightarrow> vr \<Rightarrow> string set \<Rightarrow> bool \<Rightarrow> bool \<Rightarrow> 'w vr_sys \<Rightarrow> bool" where
  "proved alive v D b c = dead_at alive (clear_workers b (clear_servers c v))
     (D \<union> (if b then set (vr_worker_names v) else {}) \<union> (if c then set (vr_server_names v) else {}))"

lemma shutdown_servers_triple:
  assumes "ray_ok ry alive" and "set (vr_server_names v) \<subseteq> N" and "D \<subseteq> N"
  shows "triple (vr_rely alive N) (dead_at alive v D) (vr_shutdown_servers ry)
    (after_res (\<lambda>_. proved alive v D False True) (\<lambda>_. proved alive v D False False))"
proof -
  have stop: "triple (vr_rely alive N) (dead_at alive v D) (vr_stop_servers ry servers names)
      (after_res (\<lambda>_. dead_at alive v D) (\<lambda>_. dead_at alive v D))" for servers names
  proof -
    have o: "triple (vr_rely alive N) (dead_at alive v D) (caught outside (\<lambda>_. ret ())) (after_res (\<lambda>_. dead_at alive v D) (\<lambda>_ _. False))"
      by (rule triple_caught [OF triple_outside [OF dead_at_stable [OF assms(3)]]]) (auto intro: triple_ret)
    show ?thesis unfolding vr_stop_servers_def
      by (auto intro!: triple_if triple_ret triple_guard triple_then [OF o] triple_then [OF kill_all_triple [OF assms(1), where F = "\<lambda>_ _. False"]])
  qed
  show ?thesis unfolding vr_shutdown_servers_def
    by (intro self_triple triple_then [OF stop] triple_then [OF wait_dead_triple [OF assms]]
          triple_post [OF on_self_triple [where F = "\<lambda>_ _. False"]])
      (auto simp: proved_def clear_servers_def clear_workers_def split: sum.splits)
qed

definition cleaned :: "(string \<Rightarrow> 'w \<Rightarrow> bool) \<Rightarrow> vr \<Rightarrow> string set \<Rightarrow> unit res \<Rightarrow> 'w vr_sys \<Rightarrow> bool" where
  "cleaned alive v D x g \<longleftrightarrow>
     (case x of
        Inr _ \<Rightarrow> proved alive (v\<lparr>vr_verified := True\<rparr>) D True True g
      | Inl e \<Rightarrow> e = RuntimeError ''borrowed runtime cleanup is unverified''
          \<and> (\<exists>b c. \<not> (b \<and> c) \<and> proved alive (v\<lparr>vr_verified := False\<rparr>) D b c g))"

lemma is_ok_simps [simp]: "is_ok (Inl e) = False" "is_ok (Inr a) = True"
  by (simp_all add: is_ok_def)

text \<open>What the cleanup does after the kill of the workers, whose outcome is \<open>y\<close>.\<close>

lemma cleaned_fail:
  "proved alive (v\<lparr>vr_verified := False\<rparr>) D b c g \<Longrightarrow> \<not> (b \<and> c) \<Longrightarrow>
   cleaned alive v D (Inl (RuntimeError ''borrowed runtime cleanup is unverified'')) g"
  by (auto simp: cleaned_def)

lemma clear_commute:
  "(clear_servers c (v\<lparr>vr_verified := b\<rparr>))\<lparr>vr_workers := []\<rparr> = clear_workers True (clear_servers c (v\<lparr>vr_verified := b\<rparr>))"
  "(clear_workers d (clear_servers c (v\<lparr>vr_verified := b\<rparr>)))\<lparr>vr_verified := b'\<rparr> = clear_workers d (clear_servers c (v\<lparr>vr_verified := b'\<rparr>))"
  by (simp_all add: clear_servers_def clear_workers_def)

lemma conclude_cleanup:
  fixes x y :: "unit res" and v :: vr and D :: "string set"
  defines "v' \<equiv> clear_servers (is_ok x) (v\<lparr>vr_verified := False\<rparr>)"
    and "D' \<equiv> D \<union> (if is_ok x then set (vr_server_names v) else {})"
  shows "triple R (after_res (\<lambda>_. dead_at alive v' (D' \<union> set (vr_worker_names v))) (\<lambda>_. dead_at alive v' D') y)
     (andthen (if is_ok y then on_self (\<lambda>v. v\<lparr>vr_workers := []\<rparr>) else ret ()) (\<lambda>_.
        guard_that (is_ok x \<and> is_ok y) (RuntimeError ''borrowed runtime cleanup is unverified'')
          (on_self (\<lambda>v. v\<lparr>vr_verified := True\<rparr>)))) (cleaned alive v D)"
proof -
  let ?C = "cleaned alive v D" and ?e = "RuntimeError ''borrowed runtime cleanup is unverified''"
  let ?d = "\<lambda>b. dead_at alive (clear_workers b v') (D' \<union> (if b then set (vr_worker_names v) else {}))"
  have eq: "proved alive (v\<lparr>vr_verified := False\<rparr>) D b (is_ok x) = ?d b" for b
    by (auto simp: proved_def v'_def D'_def ac_simps)
  have fail: "triple R (?d b) (raise ?e) ?C" if "\<not> (b \<and> is_ok x)" for b
    by (rule triple_raise, rule cleaned_fail [of _ _ _ b "is_ok x"]) (use that in \<open>simp_all add: eq\<close>)
  have success: "triple R (?d True) (on_self (\<lambda>v. v\<lparr>vr_verified := True\<rparr>)) ?C" if "is_ok x"
    by (rule triple_post [OF on_self_triple [where F = "\<lambda>_ _. False"]])
      (use that in \<open>auto simp: cleaned_def proved_def v'_def D'_def clear_commute ac_simps split: sum.splits\<close>)
  show ?thesis
  proof (cases y)
    case (Inl e)
    have "triple R (dead_at alive v' D') (raise ?e) ?C" using fail [of False] by (simp add: clear_workers_def)
    then show ?thesis by (simp add: Inl guard_that_def triple_def andthen_def ret_def)
  next
    case (Inr u)
    have "triple R (?d True) (guard_that (is_ok x) ?e (on_self (\<lambda>v. v\<lparr>vr_verified := True\<rparr>))) ?C"
      using fail [of True] success by (auto simp: guard_that_def)
    then show ?thesis unfolding Inr v'_def
      by (simp add: clear_commute(1) [symmetric]) (rule on_self_then)
  qed
qed

lemma cleanup_triple:
  assumes "ray_ok ry alive" and "vr_kind v = BORROWED"
    and "set (vr_server_names v) \<subseteq> N" and "set (vr_worker_names v) \<subseteq> N" and "D \<subseteq> N"
  shows "triple (vr_rely alive N) (dead_at alive v D) (vr_cleanup ry) (cleaned alive v D)"
proof -
  let ?v = "v\<lparr>vr_verified := False\<rparr>"
  have servers: "triple (vr_rely alive N) (dead_at alive ?v D) (vr_shutdown_servers ry)
      (\<lambda>x. dead_at alive (clear_servers (is_ok x) ?v) (D \<union> (if is_ok x then set (vr_server_names v) else {})))"
    by (rule triple_post [OF shutdown_servers_triple [OF assms(1)]])
      (use assms in \<open>auto simp: proved_def is_ok_def clear_servers_def clear_workers_def split: sum.splits\<close>)
  show ?thesis unfolding vr_cleanup_def
  proof (intro self_triple triple_guard on_self_then triple_caught [OF servers] triple_caught [OF kill_workers_triple [OF assms(1)]])
    fix x y :: "unit res"
    let ?v' = "clear_servers (is_ok x) ?v" and ?D' = "D \<union> (if is_ok x then set (vr_server_names v) else {})"
    have names: "vr_worker_names ?v' = vr_worker_names v" by simp
    show "set (vr_worker_names ?v') \<subseteq> N" "?D' \<subseteq> N" using assms by auto
    show "triple (vr_rely alive N) (after_res (\<lambda>_. dead_at alive ?v' (?D' \<union> set (vr_worker_names ?v'))) (\<lambda>_. dead_at alive ?v' ?D') y)
       (andthen (if is_ok y then on_self (\<lambda>v. v\<lparr>vr_workers := []\<rparr>) else ret ()) (\<lambda>_.
          guard_that (is_ok x \<and> is_ok y) (RuntimeError ''borrowed runtime cleanup is unverified'')
            (on_self (\<lambda>v. v\<lparr>vr_verified := True\<rparr>)))) (cleaned alive v D)"
      unfolding names by (rule conclude_cleanup)
  qed (use assms(2) in simp)
qed
section \<open>Every live actor is recorded\<close>

definition worker_name :: "vr \<Rightarrow> string" where
  "worker_name v = ce_prefix v @ ''r0''"

definition names_of :: "vr \<Rightarrow> string set" where
  "names_of v = set (vr_worker_names v) \<union> set (vr_server_names v)"

text \<open>\<open>N\<close> are the two names the replica gives its actors.\<close>

definition fits :: "string \<Rightarrow> string set \<Rightarrow> vr \<Rightarrow> bool" where
  "fits p N v \<longleftrightarrow> vr_kind v = BORROWED \<and> N = {worker_name v, server_name p v}
     \<and> set (vr_worker_names v) \<subseteq> {worker_name v} \<and> set (vr_server_names v) \<subseteq> {server_name p v}"

text \<open>A live actor of the replica has one of the names it records, or one of \<open>X\<close>.\<close>

definition recorded :: "string \<Rightarrow> (string \<Rightarrow> 'w \<Rightarrow> bool) \<Rightarrow> string set \<Rightarrow> string set \<Rightarrow> 'w vr_sys \<Rightarrow> bool" where
  "recorded p alive N X g \<longleftrightarrow> fits p N (vs_self g)
     \<and> (\<forall>n \<in> N. alive n (vs_ray g) \<longrightarrow> n \<in> names_of (vs_self g) \<or> n \<in> X)"

lemma recorded_stable [simp]: "stable (vr_rely alive N) (recorded p alive N X)"
  by (auto simp: stable_def vr_rely_def recorded_def)

lemma recorded_mono: "recorded p alive N X g \<Longrightarrow> X \<subseteq> Y \<Longrightarrow> recorded p alive N Y g"
  by (auto simp: recorded_def)

lemma recorded_at:
  assumes "\<And>v. fits p N v \<Longrightarrow> triple R (dead_at alive v (N - names_of v - X)) m Q"
  shows "triple R (recorded p alive N X) m Q"
  unfolding triple_def
proof (intro allI impI)
  fix r assume r: "obeys R r" "recorded p alive N X (r_now r)"
  let ?v = "vs_self (r_now r)"
  have "fits p N ?v" "dead_at alive ?v (N - names_of ?v - X) (r_now r)" using r(2) by (auto simp: recorded_def dead_at_def)
  with assms [of ?v] r(1) show "obeys R (snd (m r)) \<and> Q (fst (m r)) (r_now (snd (m r)))"
    by (simp add: triple_def)
qed

lemma dead_at_recorded: "dead_at alive v D g \<Longrightarrow> fits p N v \<Longrightarrow> N - names_of v - X \<subseteq> D \<Longrightarrow> recorded p alive N X g"
  by (auto simp: dead_at_def recorded_def)

lemma fits_updates [simp]:
  "fits p N (v\<lparr>vr_workers := ws\<rparr>) = fits p N v" "fits p N (v\<lparr>vr_verified := b\<rparr>) = fits p N v"
  "fits p N (v\<lparr>vr_claims := cs\<rparr>) = fits p N v" "fits p N (v\<lparr>vr_standalone := t, vr_nnodes := n, vr_gpus_per_node := k\<rparr>) = fits p N v"
  "fits p N (clear_workers b v) = fits p N v" "fits p N (clear_servers c v) = fits p N v"
  by (simp_all add: fits_def worker_name_def ce_prefix_def server_name_def clear_workers_def clear_servers_def)

lemma names_updates [simp]:
  "names_of (v\<lparr>vr_workers := ws\<rparr>) = names_of v" "names_of (v\<lparr>vr_verified := b\<rparr>) = names_of v"
  "names_of (clear_workers b v) = names_of v" "names_of (clear_servers c v) = names_of v"
  by (simp_all add: names_of_def)

text \<open>The end of an operation that owns every live actor, or proved that there is none.\<close>

definition none_alive :: "(string \<Rightarrow> 'w \<Rightarrow> bool) \<Rightarrow> string set \<Rightarrow> 'w vr_sys \<Rightarrow> bool" where
  "none_alive alive N g \<longleftrightarrow> vr_verified (vs_self g) \<and> vr_workers (vs_self g) = [] \<and> vr_servers (vs_self g) = []
     \<and> (\<forall>n \<in> N. \<not> alive n (vs_ray g))"

definition still_owned :: "string \<Rightarrow> (string \<Rightarrow> 'w \<Rightarrow> bool) \<Rightarrow> string set \<Rightarrow> 'w vr_sys \<Rightarrow> bool" where
  "still_owned p alive N g \<longleftrightarrow> \<not> vr_verified (vs_self g) \<and> recorded p alive N {} g"

lemma cleanup_recorded:
  assumes "ray_ok ry alive"
  shows "triple (vr_rely alive N) (recorded p alive N {}) (vr_cleanup ry)
    (after_res (\<lambda>_. none_alive alive N) (\<lambda>_. still_owned p alive N))"
proof (rule recorded_at)
  fix v assume v: "fits p N v"
  have n: "names_of v \<subseteq> N" using v by (auto simp: fits_def names_of_def)
  show "triple (vr_rely alive N) (dead_at alive v (N - names_of v - {})) (vr_cleanup ry)
     (after_res (\<lambda>_. none_alive alive N) (\<lambda>_. still_owned p alive N))"
  proof (rule triple_post [OF cleanup_triple [OF assms]])
    show "vr_kind v = BORROWED" "set (vr_server_names v) \<subseteq> N" "set (vr_worker_names v) \<subseteq> N" "N - names_of v - {} \<subseteq> N"
      using v n by (auto simp: fits_def names_of_def)
    fix x g assume c: "cleaned alive v (N - names_of v - {}) x g"
    show "after_res (\<lambda>_. none_alive alive N) (\<lambda>_. still_owned p alive N) x g"
    proof (cases x)
      case (Inr u)
      with c show ?thesis
        by (auto simp: cleaned_def proved_def none_alive_def dead_at_def clear_workers_def clear_servers_def names_of_def)
    next
      case (Inl e)
      with c obtain b c where d: "proved alive (v\<lparr>vr_verified := False\<rparr>) (N - names_of v) b c g" by (auto simp: cleaned_def)
      then have "recorded p alive N {} g" unfolding proved_def
        by (rule dead_at_recorded) (use v in auto)
      moreover have "\<not> vr_verified (vs_self g)" using d by (simp add: proved_def dead_at_def)
      ultimately show ?thesis by (simp add: Inl still_owned_def)
    qed
  qed
qed

section \<open>Creation\<close>

definition built :: "string \<Rightarrow> pydict \<Rightarrow> vr \<Rightarrow> bool" where
  "built p claim v \<longleftrightarrow> vr_claims v = [claim] \<and> vr_worker_names v = [worker_name v] \<and> vr_server_names v = [server_name p v]"

definition plan_made :: "string \<Rightarrow> pydict \<Rightarrow> vr \<Rightarrow> bool" where
  "plan_made p claim v \<longleftrightarrow> vr_claims v = [claim] \<and> vr_server_names v = [server_name p v]"

definition holds :: "(vr \<Rightarrow> bool) \<Rightarrow> 'w vr_sys \<Rightarrow> bool" where
  "holds P g \<longleftrightarrow> P (vs_self g)"

lemma holds_stable [simp]: "stable (vr_rely alive N) (holds P)"
  by (auto simp: stable_def vr_rely_def holds_def)
lemma plan_triple:
  assumes "p = ry_server_prefix ry"
  shows "triple R (recorded p alive N {})
    (sync (\<lambda>g. (case vr_build_plan (ry_server_prefix ry) spec (vs_self g) of (x, v) \<Rightarrow> (x, g\<lparr>vs_self := v\<rparr>))))
    (after_res (\<lambda>item g. recorded p alive N {} g \<and> (\<exists>claim. spec_first_claim spec = Inr claim \<and> holds (plan_made p claim) g
        \<and> worker_plan_of (vs_self g) claim = Inr item)) (\<lambda>_. recorded p alive N {}))"
proof (rule triple_sync)
  fix g assume g: "recorded p alive N {} g"
  have "ce_prefix (v\<lparr>vr_claims := cs, vr_server_names := ns\<rparr>) = ce_prefix v" for v cs ns by (simp add: ce_prefix_def)
  then have same: "worker_plan_of (v\<lparr>vr_claims := cs, vr_server_names := ns\<rparr>) c = worker_plan_of v c" for v cs ns c
    unfolding worker_plan_of_def by (simp only:)
  have "recorded p alive N {} (g\<lparr>vs_self := (vs_self g)\<lparr>vr_claims := [c], vr_server_names := [server_name p (vs_self g)]\<rparr>\<rparr>)" for c
    using g by (auto simp: recorded_def fits_def names_of_def worker_name_def ce_prefix_def server_name_def)
  with g show "after_res (\<lambda>item g. recorded p alive N {} g \<and> (\<exists>claim. spec_first_claim spec = Inr claim \<and> holds (plan_made p claim) g
        \<and> worker_plan_of (vs_self g) claim = Inr item)) (\<lambda>_. recorded p alive N {})
      (fst (case vr_build_plan (ry_server_prefix ry) spec (vs_self g) of (x, v) \<Rightarrow> (x, g\<lparr>vs_self := v\<rparr>)))
      (snd (case vr_build_plan (ry_server_prefix ry) spec (vs_self g) of (x, v) \<Rightarrow> (x, g\<lparr>vs_self := v\<rparr>)))"
    by (auto simp: vr_build_plan_def holds_def plan_made_def same server_name_def assms split: sum.splits prod.splits)
qed

lemma plan_name: "worker_plan_of v claim = Inr item \<Longrightarrow> wp_actor_name item = worker_name v"
  by (auto simp: worker_plan_of_def worker_name_def split: sum.splits)

text \<open>The \<open>except\<close> clause: the worker is dead, or its name is recorded.\<close>

definition names_worker :: "worker_plan \<Rightarrow> vr \<Rightarrow> bool" where
  "names_worker item v \<longleftrightarrow> wp_actor_name item = worker_name v"

lemma worker_failed_none:
  "triple R (recorded p alive N {}) (vr_worker_failed ry item None e) (\<lambda>x g. is_ok x = False \<and> recorded p alive N {} g)"
  by (auto simp: vr_worker_failed_def vr_kill_workers_def vr_wait_dead_def triple_def caught_def andthen_def ret_def
      guard_that_def on_self_def sync_def raise_def recorded_def split: sum.splits)

lemma worker_failed_some:
  assumes "ray_ok ry alive"
  shows "triple (vr_rely alive N) (\<lambda>g. recorded p alive N {wp_actor_name item} g \<and> holds (names_worker item) g)
     (vr_worker_failed ry item (Some w) e) (\<lambda>x g. is_ok x = False \<and> recorded p alive N {} g)"
proof -
  let ?n = "wp_actor_name item" and ?Q = "\<lambda>x g. is_ok x = False \<and> recorded p alive N {} g"
  have "triple (vr_rely alive N) (dead_at alive v (N - names_of v - {?n})) (vr_worker_failed ry item (Some w) e) ?Q"
    if v: "fits p N v" "names_worker item v" for v
  proof -
    let ?D = "N - names_of v - {?n}"
    have n: "?n \<in> N" using v by (auto simp: fits_def names_worker_def)
    have bad: "triple (vr_rely alive N) (dead_at alive v ?D)
        (andthen (on_self (\<lambda>v. v\<lparr>vr_workers := [w], vr_worker_names := [?n]\<rparr>)) (\<lambda>_. raise e')) ?Q" for e'
      by (rule on_self_then, rule triple_raise)
        (use v in \<open>auto simp: names_worker_def recorded_def dead_at_def fits_def names_of_def worker_name_def ce_prefix_def server_name_def\<close>)
    have good: "triple (vr_rely alive N) (dead_at alive v (?D \<union> set [?n])) (andthen (on_self (\<lambda>v. v\<lparr>vr_workers := []\<rparr>)) (\<lambda>_. raise e)) ?Q"
      by (rule on_self_then, rule triple_raise) (use v in \<open>auto elim!: dead_at_recorded\<close>)
    show ?thesis unfolding vr_worker_failed_def option.case
      by (rule triple_caught [OF kill_workers_triple [OF assms]])
        (use n bad good in \<open>auto split: sum.split\<close>)
  qed
  then show ?thesis unfolding triple_def
    by (auto simp: recorded_def dead_at_def holds_def)
qed

lemma read_only_validation [intro!]:
  assumes "stable R P"
  shows "keeps R P vr_worker_placements" "keeps R P vr_validate_workers"
proof -
  note o = keeps_outside [OF assms]
  show p: "keeps R P vr_worker_placements"
    by (auto simp: vr_worker_placements_def self_def intro!: o split: pyval.split)
  show "keeps R P vr_validate_workers"
    by (auto simp: vr_validate_workers_def self_def intro!: p)
qed
text \<open>Starting the worker: afterwards it is recorded.\<close>

definition planned :: "string \<Rightarrow> pydict \<Rightarrow> worker_plan \<Rightarrow> vr \<Rightarrow> bool" where
  "planned p claim item v \<longleftrightarrow> plan_made p claim v \<and> names_worker item v"

lemma adopt_triple:
  "triple (vr_rely alive N) (\<lambda>g. recorded p alive N {wp_actor_name item} g \<and> holds (planned p claim item) g) (vr_adopt ry item w)
     (after_res (\<lambda>_ g. recorded p alive N {} g \<and> holds (built p claim) g)
        (\<lambda>_ g. recorded p alive N {wp_actor_name item} g \<and> holds (names_worker item) g))"
proof -
  let ?P = "\<lambda>g. recorded p alive N {wp_actor_name item} g \<and> holds (planned p claim item) g"
  let ?B = "\<lambda>g. recorded p alive N {} g \<and> holds (\<lambda>v. built p claim v \<and> names_worker item v) g"
  let ?F = "\<lambda>g. recorded p alive N {wp_actor_name item} g \<and> holds (names_worker item) g"
  have weak: "?B g \<Longrightarrow> ?F g" for g by (auto simp: holds_def elim: recorded_mono)
  have set: "triple (vr_rely alive N) ?P (on_self (\<lambda>v. v\<lparr>vr_workers := ws, vr_worker_names := [wp_actor_name item]\<rparr>))
      (after_res (\<lambda>_. ?B) (\<lambda>_ _. False))" for ws
    unfolding on_self_def
    by (rule triple_sync)
      (auto simp: recorded_def fits_def holds_def planned_def plan_made_def names_worker_def built_def names_of_def
        worker_name_def ce_prefix_def server_name_def)
  have valid: "triple (vr_rely alive N) ?B vr_validate_workers (after_res (\<lambda>_. ?B) (\<lambda>_. ?B))"
    unfolding triple_same by (rule keeps_triple) (auto simp: stable_conj)
  show ?thesis unfolding vr_adopt_def
    by (intro triple_then [OF triple_lift [where S = "\<lambda>_. ?P" and F = "\<lambda>_. ?P"]] triple_then [OF set] triple_then [OF valid] triple_ret)
      (use weak in \<open>auto simp: holds_def planned_def\<close>)
qed

lemma spawn_triple:
  assumes "ray_ok ry alive"
  shows "triple R (\<lambda>g. recorded p alive N {} g \<and> holds P g)
    (sync (\<lambda>g. (case ry_spawn ry item addr port (vs_ray g) of (x, w) \<Rightarrow> (x, g\<lparr>vs_ray := w\<rparr>))))
    (after_res (\<lambda>_ g. recorded p alive N {wp_actor_name item} g \<and> holds P g) (\<lambda>_. recorded p alive N {}))"
proof (rule triple_sync)
  fix g assume g: "recorded p alive N {} g \<and> holds P g"
  obtain x w where s: "ry_spawn ry item addr port (vs_ray g) = (x, w)" by fastforce
  note new = ray_spawned [OF assms s]
  show "after_res (\<lambda>_ g. recorded p alive N {wp_actor_name item} g \<and> holds P g) (\<lambda>_. recorded p alive N {})
      (fst (case ry_spawn ry item addr port (vs_ray g) of (x, w) \<Rightarrow> (x, g\<lparr>vs_ray := w\<rparr>)))
      (snd (case ry_spawn ry item addr port (vs_ray g) of (x, w) \<Rightarrow> (x, g\<lparr>vs_ray := w\<rparr>)))"
    using g new by (cases x) (auto simp: s recorded_def holds_def)
qed

lemma start_worker_triple:
  assumes "ray_ok ry alive"
  shows "triple (vr_rely alive N) (\<lambda>g. recorded p alive N {} g \<and> holds (planned p claim item) g) (vr_start_worker ry item addr port)
    (after_res (\<lambda>_ g. recorded p alive N {} g \<and> holds (built p claim) g) (\<lambda>_. recorded p alive N {}))"
  unfolding vr_start_worker_def
proof (rule triple_caught [OF spawn_triple [OF assms]])
  fix x :: "nat res"
  let ?Q = "after_res (\<lambda>_ g. recorded p alive N {} g \<and> holds (built p claim) g) (\<lambda>_. recorded p alive N {})"
  show "triple (vr_rely alive N) (after_res (\<lambda>_ g. recorded p alive N {wp_actor_name item} g \<and> holds (planned p claim item) g)
          (\<lambda>_. recorded p alive N {}) x)
      (case x of Inl e \<Rightarrow> vr_worker_failed ry item None e
        | Inr worker \<Rightarrow> rescue (vr_adopt ry item worker) (vr_worker_failed ry item (Some worker))) ?Q"
  proof (cases x)
    case (Inl e)
    then show ?thesis
      by simp (rule triple_post [OF worker_failed_none], auto split: sum.splits)
  next
    case (Inr w)
    show ?thesis unfolding Inr sum.case
      by (rule triple_try [OF adopt_triple], simp, rule triple_post [OF worker_failed_some [OF assms]])
        (auto split: sum.splits)
  qed
qed

lemma create_workers_triple:
  assumes "ray_ok ry alive" and "p = ry_server_prefix ry"
  shows "triple (vr_rely alive N) (recorded p alive N {}) (vr_create_workers ry spec pgs)
    (after_res (\<lambda>_ g. recorded p alive N {} g \<and> (\<exists>claim. spec_first_claim spec = Inr claim \<and> holds (built p claim) g))
       (\<lambda>_. recorded p alive N {}))"
  unfolding vr_create_workers_def
proof (rule triple_then [OF plan_triple [OF assms(2)]], simp)
  fix item
  let ?Q = "after_res (\<lambda>_ g. recorded p alive N {} g \<and> (\<exists>claim. spec_first_claim spec = Inr claim \<and> holds (built p claim) g))
       (\<lambda>_. recorded p alive N {})"
  let ?P = "\<lambda>claim g. recorded p alive N {} g \<and> holds (planned p claim item) g"
  have body: "triple (vr_rely alive N) (?P claim)
      (andthen outside (\<lambda>master. case master of PTuple [addr, port] \<Rightarrow> vr_start_worker ry item addr port
               | PList [addr, port] \<Rightarrow> vr_start_worker ry item addr port
               | _ \<Rightarrow> raise (ValueError ''cannot unpack the master address''))) ?Q"
    if "spec_first_claim spec = Inr claim" for claim
  proof (rule triple_then [OF triple_post [OF triple_outside [of _ "?P claim"]]])
    show "stable (vr_rely alive N) (?P claim)" by auto
    show "after_res (\<lambda>_. ?P claim) (\<lambda>_. ?P claim) x g" if "?P claim g" for x :: "pyval res" and g
      using that by (simp split: sum.splits)
    have go: "triple (vr_rely alive N) (?P claim) (vr_start_worker ry item addr port) ?Q" for addr port
      by (rule triple_post [OF start_worker_triple [OF assms(1)]]) (use that in \<open>auto split: sum.splits\<close>)
    show "triple (vr_rely alive N) (?P claim)
      (case m of PTuple [addr, port] \<Rightarrow> vr_start_worker ry item addr port
               | PList [addr, port] \<Rightarrow> vr_start_worker ry item addr port
               | _ \<Rightarrow> raise (ValueError ''cannot unpack the master address'')) ?Q" for m
      by (auto split: pyval.split list.split intro!: go triple_raise)
  qed (auto simp: holds_def)
  have "triple (vr_rely alive N) (\<lambda>g. \<exists>claim. spec_first_claim spec = Inr claim \<and> ?P claim g)
      (guard_that (PStr ` pgs = {wp_pg_id item}) (ValueError ''placement-group handles do not exactly cover claims'')
            (andthen outside (\<lambda>master.
               case master of PTuple [addr, port] \<Rightarrow> vr_start_worker ry item addr port
               | PList [addr, port] \<Rightarrow> vr_start_worker ry item addr port
               | _ \<Rightarrow> raise (ValueError ''cannot unpack the master address'')))) ?Q"
    by (intro triple_ex triple_some triple_guard body) auto
  then show "triple (vr_rely alive N) (\<lambda>g. recorded p alive N {} g \<and> (\<exists>claim. spec_first_claim spec = Inr claim
        \<and> holds (plan_made p claim) g \<and> worker_plan_of (vs_self g) claim = Inr item))
      (guard_that (PStr ` pgs = {wp_pg_id item}) (ValueError ''placement-group handles do not exactly cover claims'')
            (andthen outside (\<lambda>master.
               case master of PTuple [addr, port] \<Rightarrow> vr_start_worker ry item addr port
               | PList [addr, port] \<Rightarrow> vr_start_worker ry item addr port
               | _ \<Rightarrow> raise (ValueError ''cannot unpack the master address'')))) ?Q"
    by (rule triple_pre) (auto simp: holds_def planned_def names_worker_def dest: plan_name)
qed

lemma launch_triple:
  assumes "ray_ok ry alive"
  shows "triple (vr_rely alive N) (\<lambda>g. recorded p alive N {} g \<and> holds (built p claim) g) (vr_launch ry)
    (\<lambda>_ g. recorded p alive N {} g \<and> holds (built p claim) g)"
  unfolding vr_launch_def
proof (rule triple_remote)
  let ?P = "\<lambda>g. recorded p alive N {} g \<and> holds (built p claim) g"
  show "stable (vr_rely alive N) ?P" by auto
  show "stable (vr_rely alive N) ?P" by auto
  have keep: "?P (g\<lparr>vs_self := v', vs_ray := w'\<rparr>)" if g: "?P g" and l: "ry_launch ry (vs_self g) (vs_ray g) = (x, v', w')" for g x v' w'
  proof -
    obtain ss h a where v': "v' = (vs_self g)\<lparr>vr_servers := ss, vr_handle := h, vr_address := a\<rparr>"
      using ray_launched(1) [OF assms l] by (auto simp: same_but_servers_def)
    have eq: "vr_kind v' = vr_kind (vs_self g)" "vr_worker_names v' = vr_worker_names (vs_self g)"
      "vr_server_names v' = vr_server_names (vs_self g)" "worker_name v' = worker_name (vs_self g)"
      "server_name p v' = server_name p (vs_self g)" "vr_claims v' = vr_claims (vs_self g)"
      by (simp_all add: v' worker_name_def ce_prefix_def server_name_def)
    have "alive n w' \<Longrightarrow> alive n (vs_ray g) \<or> n \<in> set (vr_server_names (vs_self g))" for n
      using ray_launched(2) [OF assms l] by blast
    with g show ?thesis by (auto simp: recorded_def fits_def names_of_def holds_def built_def eq)
  qed
  show "triple (vr_rely alive N) ?P (sync (\<lambda>g. (case ry_launch ry (vs_self g) (vs_ray g) of
       (x, v, w) \<Rightarrow> (x, g\<lparr>vs_self := v, vs_ray := w\<rparr>)))) (\<lambda>x g. ?P g \<and> (\<forall>e::exn. ?P g))"
    by (rule triple_sync) (use keep in \<open>auto split: prod.splits\<close>)
qed auto
section \<open>The flag of a verified cleanup\<close>

text \<open>Only the cleanup sets the flag.\<close>

definition unverified :: "'w vr_sys \<Rightarrow> bool" where
  "unverified = holds (\<lambda>v. \<not> vr_verified v)"

lemma unverified_stable [simp]: "stable (vr_rely alive N) unverified"
  by (simp add: unverified_def)

lemma keeps_query: "stable R P \<Longrightarrow> keeps R P (query f)"
  unfolding query_def by (rule keeps_remote) (auto intro: keeps_basic)

lemma keeps_non_dead: "stable R P \<Longrightarrow> keeps R P (vr_non_dead ry names)"
  by (induction names) (auto intro: keeps_query)

lemma keeps_wait_dead:
  assumes "stable R P" shows "keeps R P (vr_wait_dead ry names)"
proof -
  have "triple R P (vr_poll_dead ry names d) (\<lambda>_. P)" for d
    by (rule poll_triple [OF dead_polling, where g = "1 / 10", OF _ _ _ assms keeps_triple [OF keeps_non_dead [OF assms]]])
      (auto simp: min_def)
  then show ?thesis by (simp add: keeps_def triple_def vr_wait_dead_def)
qed

lemma keeps_unverified_parts:
  "keeps R unverified (vr_kill_all ry as)"
  "(\<And>v. \<not> vr_verified v \<Longrightarrow> \<not> vr_verified (f v)) \<Longrightarrow> keeps R unverified (on_self f)"
  by (induction "as") (auto simp: unverified_def holds_def on_self_def)

lemma keeps_kill_workers: "keeps (vr_rely alive N) unverified (vr_kill_workers ry ws names)"
  unfolding vr_kill_workers_def by (intro keeps_andthen keeps_unverified_parts keeps_basic(4) keeps_wait_dead unverified_stable)

lemma keeps_worker_failed: "keeps (vr_rely alive N) unverified (vr_worker_failed ry item w e)"
  unfolding vr_worker_failed_def
  by (rule keeps_caught) (auto split: option.split sum.split intro!: keeps_kill_workers keeps_unverified_parts(2))

lemma keeps_start_worker: "keeps (vr_rely alive N) unverified (vr_start_worker ry item addr port)"
  unfolding vr_start_worker_def vr_adopt_def
  by (rule keeps_caught)
    (auto simp: unverified_def holds_def split: prod.splits sum.split
      intro!: keeps_worker_failed [unfolded unverified_def] keeps_unverified_parts(2) [unfolded unverified_def] read_only_validation)

lemma keeps_create_workers: "keeps (vr_rely alive N) unverified (vr_create_workers ry spec pgs)"
proof -
  have p: "keeps (vr_rely alive N) unverified
      (sync (\<lambda>g. (case vr_build_plan (ry_server_prefix ry) spec (vs_self g) of (x, v) \<Rightarrow> (x, g\<lparr>vs_self := v\<rparr>))))"
    by (rule keeps_basic(5)) (auto simp: unverified_def holds_def vr_build_plan_def split: prod.splits sum.splits)
  show ?thesis unfolding vr_create_workers_def
    by (intro keeps_andthen p keeps_basic(4) keeps_outside unverified_stable)
      (auto split: pyval.split list.split intro: keeps_start_worker)
qed

lemma keeps_launch:
  fixes ry :: "'w ray_ops"
  assumes "ray_ok ry alive" shows "keeps (vr_rely alive N) unverified (vr_launch ry)"
  unfolding vr_launch_def
proof (intro keeps_remote keeps_basic(5) unverified_stable)
  fix g :: "'w vr_sys" assume g: "unverified g"
  obtain x v w where l: "ry_launch ry (vs_self g) (vs_ray g) = (x, v, w)" by (metis prod_cases3)
  obtain ss h a where "v = (vs_self g)\<lparr>vr_servers := ss, vr_handle := h, vr_address := a\<rparr>"
    using ray_launched(1) [OF assms l] by (auto simp: same_but_servers_def)
  with g l show "unverified (snd (case ry_launch ry (vs_self g) (vs_ray g) of (x, v, w) \<Rightarrow> (x, g\<lparr>vs_self := v, vs_ray := w\<rparr>)))"
    by (simp add: unverified_def holds_def)
qed

lemma keeps_validate_server: "keeps (vr_rely alive N) unverified vr_validate_server"
  unfolding vr_validate_server_def vr_check_health_def vr_health_placement_def self_def
  by (auto simp: Let_def intro!: keeps_outside read_only_validation split: pyval.split replica_kind.split list.split)

lemma keeps_init_body: "ray_ok ry alive \<Longrightarrow> keeps (vr_rely alive N) unverified (vr_init_body ry spec pgs)"
  unfolding vr_init_body_def self_def
  by (intro keeps_andthen keeps_create_workers keeps_launch keeps_validate_server keeps_look keeps_basic(1))

lemma triple_and:
  "triple R P m Q \<Longrightarrow> keeps R P' m \<Longrightarrow> triple R (\<lambda>g. P g \<and> P' g) m (\<lambda>x g. Q x g \<and> P' g)"
  by (simp add: keeps_def triple_def)

section \<open>The creation transaction\<close>

definition answers :: "pydict \<Rightarrow> pydict \<Rightarrow> vr \<Rightarrow> bool" where
  "answers claim health v \<longleftrightarrow> py_eq (pyget health ''replica_rank'') (PInt (int (vr_rank v)))
     \<and> py_truth (pyget health ''server_address'') \<and> py_truth (pyget health ''server_port'')
     \<and> vr_servers v \<noteq> [] \<and> vr_handle v = Some (hd (vr_servers v)) \<and> vr_address v \<noteq> []
     \<and> (\<exists>node. pyindex claim ''node_id'' = Inr node \<and> py_eq (pyget health ''node_id'') node)"

text \<open>A hidden runtime that is ready: its actors are recorded, and its server runs on the claimed node.\<close>

definition ready :: "string \<Rightarrow> (string \<Rightarrow> 'w \<Rightarrow> bool) \<Rightarrow> string set \<Rightarrow> pydict \<Rightarrow> vr_receipt \<Rightarrow> 'w vr_sys \<Rightarrow> bool" where
  "ready p alive N spec rec g \<longleftrightarrow> recorded p alive N {} g \<and> unverified g
     \<and> (\<exists>claim. spec_first_claim spec = Inr claim \<and> built p claim (vs_self g) \<and> answers claim (rr_health rec) (vs_self g))
     \<and> rr_rank rec = vr_rank (vs_self g) \<and> rr_address rec = vr_address (vs_self g)
     \<and> rr_worker_names rec = vr_worker_names (vs_self g) \<and> rr_server_names rec = vr_server_names (vs_self g)"

lemma validate_server_triple:
  "triple (vr_rely alive N) (\<lambda>g. recorded p alive N {} g \<and> holds (built p claim) g) vr_validate_server
    (after_res (\<lambda>health g. recorded p alive N {} g \<and> holds (built p claim) g \<and> holds (answers claim health) g)
       (\<lambda>_. recorded p alive N {}))"
proof -
  let ?R = "vr_rely alive N" and ?P = "\<lambda>v g. recorded p alive N {} g \<and> vs_self g = v"
  let ?Q = "after_res (\<lambda>health g. recorded p alive N {} g \<and> holds (built p claim) g \<and> holds (answers claim health) g)
       (\<lambda>_. recorded p alive N {})"
  have st: "stable ?R (?P v)" for v by (auto simp: stable_def vr_rely_def recorded_def)
  have self: "triple ?R (?P v) (k (f v)) Q \<Longrightarrow> triple ?R (?P v) (self f k) Q" for v f Q and k :: "'b \<Rightarrow> ('a vr_sys, 'c) coro"
    by (auto simp: self_def triple_def look_def)
  have node: "triple ?R (?P v) (vr_health_placement health)
      (after_res (\<lambda>_ g. ?P v g \<and> (\<exists>node. pyindex claim ''node_id'' = Inr node \<and> py_eq (pyget health ''node_id'') node))
        (\<lambda>_. recorded p alive N {}))" if "built p claim v" and "vr_kind v = BORROWED" for health v
    unfolding vr_health_placement_def using that
    by (intro self) (auto simp: built_def intro!: lift_then triple_guard triple_ret)
  have main: "triple ?R (?P v) vr_validate_server ?Q" if v: "built p claim v \<and> vr_kind v = BORROWED" for v
  proof -
    have o: "triple ?R (?P v) outside (after_res (\<lambda>_. ?P v) (\<lambda>_. recorded p alive N {}))"
      by (rule triple_post [OF triple_outside [OF st]]) (auto split: sum.splits)
    have dict: "triple ?R (?P v) (vr_check_health health) ?Q" for health
      unfolding vr_check_health_def
      by (intro self triple_guard triple_then [OF node] triple_ret)
        (use v in \<open>auto simp: holds_def answers_def\<close>)
    have bad: "triple ?R (?P v) (raise (TypeError ''server runtime health returned a non-dict result'')) ?Q"
      by (rule triple_raise) simp
    have reply: "triple ?R (?P v) (case reply of PDict health \<Rightarrow> vr_check_health health
        | _ \<Rightarrow> raise (TypeError ''server runtime health returned a non-dict result'')) ?Q" for reply
      by (cases reply) (simp_all only: pyval.case dict bad)
    show ?thesis unfolding vr_validate_server_def
      by (rule self, rule triple_guard, simp, rule triple_then [OF o _ reply], simp)
  qed
  have "triple ?R (\<lambda>g. \<exists>v. (built p claim v \<and> vr_kind v = BORROWED) \<and> ?P v g) vr_validate_server ?Q"
    by (intro triple_ex triple_some main)
  then show ?thesis by (rule triple_pre) (simp add: holds_def recorded_def fits_def)
qed

definition init_outcome ::
    "string \<Rightarrow> (string \<Rightarrow> 'w \<Rightarrow> bool) \<Rightarrow> string set \<Rightarrow> pydict \<Rightarrow> vr_receipt res \<Rightarrow> 'w vr_sys \<Rightarrow> bool" where
  "init_outcome p alive N spec x g \<longleftrightarrow>
     (case x of
        Inr rec \<Rightarrow> ready p alive N spec rec g
      | Inl e \<Rightarrow> none_alive alive N g
          \<or> e = RuntimeError ''borrowed runtime creation failed; cleanup is unverified'' \<and> still_owned p alive N g)"

lemma init_triple:
  assumes "ray_ok ry alive" and "p = ry_server_prefix ry"
  shows "triple (vr_rely alive N) (recorded p alive N {}) (vr_init ry spec pgs) (init_outcome p alive N spec)"
proof -
  let ?R = "vr_rely alive N" and ?I = "recorded p alive N {}"
  have start: "triple ?R ?I (on_self (\<lambda>v. v\<lparr>vr_standalone := True, vr_nnodes := 1, vr_gpus_per_node := vr_world v, vr_verified := False\<rparr>))
      (after_res (\<lambda>_ g. ?I g \<and> unverified g) (\<lambda>_ _. False))"
    unfolding on_self_def by (rule triple_sync) (auto simp: recorded_def names_of_def unverified_def holds_def)
  let ?ready = "\<lambda>rec g. unverified g \<longrightarrow> ready p alive N spec rec g"
  have body: "triple ?R ?I (vr_init_body ry spec pgs) (after_res ?ready (\<lambda>_. ?I))"
  proof -
    have tail: "triple ?R (\<lambda>g. ?I g \<and> holds (built p claim) g)
        (andthen (vr_launch ry) (\<lambda>_. andthen vr_validate_server (\<lambda>health. self id (\<lambda>v.
           ret \<lparr>rr_rank = vr_rank v, rr_worker_names = vr_worker_names v, rr_server_names = vr_server_names v,
                rr_address = vr_address v, rr_health = health\<rparr>))))
        (after_res ?ready (\<lambda>_. ?I))" if "spec_first_claim spec = Inr claim" for claim
    proof (rule triple_then [where F = "\<lambda>_. ?I"])
      show "triple ?R (\<lambda>g. ?I g \<and> holds (built p claim) g) (vr_launch ry) (after_res (\<lambda>_ g. ?I g \<and> holds (built p claim) g) (\<lambda>_. ?I))"
        by (rule triple_post [OF launch_triple [OF assms(1)]]) (auto split: sum.splits)
      show "triple ?R (\<lambda>g. ?I g \<and> holds (built p claim) g) (andthen vr_validate_server (\<lambda>health. self id (\<lambda>v.
           ret \<lparr>rr_rank = vr_rank v, rr_worker_names = vr_worker_names v, rr_server_names = vr_server_names v,
                rr_address = vr_address v, rr_health = health\<rparr>)))
        (after_res ?ready (\<lambda>_. ?I))"
        unfolding self_def
        by (intro triple_then [OF validate_server_triple] triple_look triple_ret)
          (use that in \<open>auto simp: ready_def holds_def\<close>)
    qed simp
    show ?thesis unfolding vr_init_body_def
      by (rule triple_then [OF create_workers_triple [OF assms]], simp)
        (rule triple_pre [OF triple_ex [OF triple_some [OF tail]]], auto)
  qed
  have body': "triple ?R (\<lambda>g. ?I g \<and> unverified g) (vr_init_body ry spec pgs)
      (after_res (\<lambda>rec. ready p alive N spec rec) (\<lambda>_. ?I))"
    by (rule triple_post [OF triple_and [OF body keeps_init_body [OF assms(1)]]]) (auto split: sum.splits)
  have fail: "triple ?R ?I (caught (vr_cleanup ry) (\<lambda>c. case c of
              Inl _ \<Rightarrow> raise (RuntimeError ''borrowed runtime creation failed; cleanup is unverified'')
            | Inr _ \<Rightarrow> raise e)) (init_outcome p alive N spec)" for e
  proof (rule triple_caught [OF cleanup_recorded [OF assms(1)]])
    show "triple ?R (after_res (\<lambda>_. none_alive alive N) (\<lambda>_. still_owned p alive N) c)
        (case c of Inl _ \<Rightarrow> raise (RuntimeError ''borrowed runtime creation failed; cleanup is unverified'') | Inr _ \<Rightarrow> raise e)
        (init_outcome p alive N spec)" for c :: "unit res"
      by (cases c) (auto intro!: triple_raise simp: init_outcome_def)
  qed
  show ?thesis unfolding vr_init_def
    by (rule triple_then [OF start], simp, rule triple_try [OF body' _ fail]) (simp add: init_outcome_def)
qed

end
