(* ===== verification/Replica_Properties.thy ===== *)
theory Replica_Properties
  imports Replica_Safety
begin

text \<open>
  The properties of a replica: what a cleanup proves and how long it takes, what the manager may
  conclude from a creation that failed, the identity of an accelerator, and the agreement of the
  native sleep and wake with the server's stages. At the end, concrete runs.
\<close>

section \<open>Cleanup\<close>

definition names_dead :: "(string \<Rightarrow> 'w \<Rightarrow> bool) \<Rightarrow> string list \<Rightarrow> 'w vr_sys \<Rightarrow> bool" where
  "names_dead alive names g \<longleftrightarrow> (\<forall>n \<in> set names. \<not> alive n (vs_ray g))"

text \<open>
  The cleanup of a borrowed runtime is verified exactly when it returns: then every actor whose name
  the runtime recorded is dead and its handles are dropped. Otherwise it raises, the flag is off, the
  names are kept, and a list of handles is only dropped when the actors it stands for are dead.
\<close>

theorem vr_cleanup_verified:
  assumes "ray_ok ry alive" and "obeys (vr_rely alive (names_of v)) r"
    and "vs_self (r_now r) = v" and "vr_kind v = BORROWED"
    and "vr_cleanup ry r = (x, r')"
  shows "let g = r_now r'; v' = vs_self g in
     vr_verified v' = is_ok x \<and> vr_worker_names v' = vr_worker_names v \<and> vr_server_names v' = vr_server_names v
     \<and> (is_ok x \<longrightarrow> vr_workers v' = [] \<and> vr_servers v' = [] \<and> vr_handle v' = None)
     \<and> (vr_workers v' = vr_workers v \<or> vr_workers v' = [] \<and> names_dead alive (vr_worker_names v) g)
     \<and> (vr_servers v' = vr_servers v \<or> vr_servers v' = [] \<and> names_dead alive (vr_server_names v) g)
     \<and> (is_ok x \<longrightarrow> names_dead alive (vr_worker_names v) g \<and> names_dead alive (vr_server_names v) g)"
proof -
  have pre: "dead_at alive v {} (r_now r)" using assms(3) by (simp add: dead_at_def)
  have n: "set (vr_server_names v) \<subseteq> names_of v" "set (vr_worker_names v) \<subseteq> names_of v" "{} \<subseteq> names_of v"
    by (auto simp: names_of_def)
  have c: "cleaned alive v {} x (r_now r')"
    by (rule tripleD(1) [OF cleanup_triple [OF assms(1,4) n] assms(2) pre assms(5)])
  show ?thesis
  proof (cases x)
    case (Inr u)
    with c show ?thesis
      by (auto simp: cleaned_def proved_def dead_at_def clear_workers_def clear_servers_def names_dead_def)
  next
    case (Inl e)
    with c obtain b d where "\<not> (b \<and> d)" "proved alive (v\<lparr>vr_verified := False\<rparr>) {} b d (r_now r')"
      by (auto simp: cleaned_def)
    then show ?thesis
      by (cases b; cases d; simp add: Inl proved_def dead_at_def clear_workers_def clear_servers_def names_dead_def)
  qed
qed

section \<open>How long a cleanup takes\<close>

lemma non_dead_awaits: "r_await (snd (vr_non_dead ry names r)) \<le> r_await r + length names"
proof (induction names arbitrary: r)
  case Nil
  show ?case by (simp add: ret_def)
next
  case (Cons n names)
  obtain x r1 where q: "query (\<lambda>g. ry_list ry (ry_namespace ry) n (vs_ray g)) r = (x, r1)" by fastforce
  have r1: "r_await r1 \<le> Suc (r_await r)" using query_awaits [of "\<lambda>g. ry_list ry (ry_namespace ry) n (vs_ray g)" r] q by simp
  show ?case
  proof (cases x)
    case (Inl e)
    then show ?thesis using q r1 by (simp add: andthen_def)
  next
    case (Inr a)
    obtain y r2 where y: "vr_non_dead ry names r1 = (y, r2)" by fastforce
    then show ?thesis using Cons.IH [of r1] q r1 Inr by (cases y) (auto simp: andthen_def ret_def)
  qed
qed

lemma wait_dead_takes: "takes (vr_wait_dead ry names) (102 * Suc (length names))"
  unfolding takes_def
proof
  fix r :: "'a vr_sys run"
  have p: "polls_left (1 / 10) (r_time r + 10) (r_time r) = 101" by (simp add: polls_left_def)
  have "r_await (snd (vr_poll_dead ry names (r_time r + 10) r))
      \<le> r_await r + Suc (length names) * Suc (polls_left (1 / 10) (r_time r + 10) (r_time r))"
    by (rule poll_bound [OF dead_polling]) (auto simp: non_dead_awaits min_def)
  also have "\<dots> = r_await r + 102 * Suc (length names)" unfolding p by simp
  finally show "r_await (snd (vr_wait_dead ry names r)) \<le> r_await r + 102 * Suc (length names)"
    by (auto simp: vr_wait_dead_def)
qed

lemma kill_all_takes: "takes (vr_kill_all ry as) 0"
proof (induction "as")
  case (Cons a as)
  from takes_andthen [OF takes_basic(4) [of _ 0] Cons.IH] show ?case by simp
qed (simp add: takes_basic)

lemma kill_workers_takes: "takes (vr_kill_workers ry ws names) (102 * Suc (length names))"
  using takes_andthen [OF kill_all_takes takes_guard [OF wait_dead_takes]] by (simp add: vr_kill_workers_def)

lemma stop_servers_takes: "takes (vr_stop_servers ry servers names) 1"
proof -
  have "takes (caught outside (\<lambda>_. ret ())) 1"
    by (simp add: takes_def caught_def outside_def ret_def others_after_def others_before_def)
  note o = this
  have "takes (andthen (caught outside (\<lambda>_. ret ())) (\<lambda>_. andthen (vr_kill_all ry servers) (\<lambda>_.
      guard_that (names \<noteq> []) (RuntimeError ''borrowed server cleanup has no actor names for DEAD proof'') (ret ()))))
      (1 + (0 + 0))"
    by (intro takes_andthen o takes_guard kill_all_takes takes_basic)
  then show ?thesis by (simp add: vr_stop_servers_def takes_basic)
qed

lemma shutdown_awaits:
  "r_await (snd (vr_shutdown_servers ry r)) \<le> r_await r + 1 + 102 * Suc (length (vr_server_names (vs_self (r_now r))))"
proof -
  have "takes (andthen (vr_stop_servers ry servers names) (\<lambda>_. andthen (vr_wait_dead ry names) (\<lambda>_.
      on_self (\<lambda>v. v\<lparr>vr_servers := [], vr_handle := None, vr_address := []\<rparr>)))) (1 + (102 * Suc (length names) + 0))"
    for servers names
    unfolding on_self_def by (intro takes_andthen stop_servers_takes wait_dead_takes takes_basic)
  from this [of "vr_servers (vs_self (r_now r))" "vr_server_names (vs_self (r_now r))", unfolded takes_def, rule_format, of r]
  show ?thesis by (simp add: vr_shutdown_servers_def self_def look_def)
qed

text \<open>
  A cleanup ends: it takes at most a hundred polls for the servers and for the workers, whatever the
  cluster reports and however often the calls fail.
\<close>

theorem vr_cleanup_bounded:
  assumes "ray_ok ry alive" and "obeys (vr_rely alive (names_of v)) r" and "vs_self (r_now r) = v"
    and "vr_cleanup ry r = (x, r')"
  shows "r_await r' \<le> r_await r + 1 + 102 * (2 + length (vr_server_names v) + length (vr_worker_names v))"
proof (cases "vr_kind v = BORROWED")
  case False
  with assms(3,4) show ?thesis by (auto simp: vr_cleanup_def self_def look_def guard_that_def raise_def)
next
  case True
  let ?r0 = "r\<lparr>r_now := (r_now r)\<lparr>vs_self := v\<lparr>vr_verified := False\<rparr>\<rparr>\<rparr>"
  obtain y r1 where y: "vr_shutdown_servers ry ?r0 = (y, r1)" by fastforce
  have "dead_at alive (v\<lparr>vr_verified := False\<rparr>) {} (r_now ?r0)" by (simp add: dead_at_def)
  moreover have "obeys (vr_rely alive (names_of v)) ?r0" using assms(2) by simp
  moreover have "set (vr_server_names (v\<lparr>vr_verified := False\<rparr>)) \<subseteq> names_of v" by (auto simp: names_of_def)
  ultimately have "after_res (\<lambda>_. proved alive (v\<lparr>vr_verified := False\<rparr>) {} False True)
      (\<lambda>_. proved alive (v\<lparr>vr_verified := False\<rparr>) {} False False) y (r_now r1)"
    using tripleD(1) [OF shutdown_servers_triple [OF assms(1)] _ _ y] by blast
  then have w: "vr_worker_names (vs_self (r_now r1)) = vr_worker_names v"
    by (auto simp: proved_def dead_at_def split: sum.splits)
  have a: "r_await r1 \<le> r_await r + 1 + 102 * Suc (length (vr_server_names v))"
    using shutdown_awaits [of ry ?r0] y by simp
  define W where "W = vr_kill_workers ry (vr_workers (vs_self (r_now r1))) (vr_worker_names v)"
  obtain z r2 where z: "W r1 = (z, r2)" by fastforce
  have b: "r_await r2 \<le> r_await r1 + 102 * Suc (length (vr_worker_names v))"
    using takesD [OF kill_workers_takes z [unfolded W_def]] .
  have "r_await r' \<le> r_await r2"
    using assms(4) True y z w assms(3)
    by (auto simp: vr_cleanup_def self_def look_def guard_that_def andthen_def on_self_def sync_def caught_def ret_def raise_def
        W_def [symmetric] split: if_splits)
  with a b show ?thesis by simp
qed

section \<open>What the manager concludes from a creation\<close>

definition spec_conflict :: "pydict \<Rightarrow> vr_receipt res \<Rightarrow> bool" where
  "spec_conflict spec x \<longleftrightarrow> (case x of Inl _ \<Rightarrow> True | Inr rec \<Rightarrow> int (rr_rank rec) \<noteq> spec_rank spec)"

definition manager_receipt :: "vr_receipt \<Rightarrow> receipt" where
  "manager_receipt rec = \<lparr>rc_state = Some ''RUNTIME_READY'', rc_rank = Some (int (rr_rank rec)), rc_address = Some (rr_address rec)\<rparr>"

definition init_result :: "nat \<Rightarrow> vr_receipt res \<Rightarrow> bool \<Rightarrow> create_outcome" where
  "init_result rt x verified =
     (case x of Inl e \<Rightarrow> InitFailed rt e verified | Inr rec \<Rightarrow> InitReturned rt (manager_receipt rec) verified)"

text \<open>
  The awaited part of \<open>create_borrowed_replica\<close> once the runtime \<open>rt\<close> is constructed: the initialisation,
  the check of its receipt, and, when either fails without a verified cleanup, one more cleanup whose
  failure is ignored. The result is what \<open>rm_create_end\<close> records under the manager's lock.
\<close>

definition rm_bring_up :: "'w ray_ops \<Rightarrow> nat \<Rightarrow> pydict \<Rightarrow> string set \<Rightarrow> ('w vr_sys, create_outcome) coro" where
  "rm_bring_up ry rt spec pgs = caught (vr_init ry spec pgs) (\<lambda>x.
     if \<not> spec_conflict spec x then ret (init_result rt x False)
     else self vr_verified (\<lambda>verified.
       andthen (if verified then ret () else caught (vr_cleanup ry) (\<lambda>_. ret ())) (\<lambda>_.
         self vr_verified (\<lambda>verified. ret (init_result rt x verified)))))"

definition brought_up ::
    "string \<Rightarrow> (string \<Rightarrow> 'w \<Rightarrow> bool) \<Rightarrow> string set \<Rightarrow> pydict \<Rightarrow> nat \<Rightarrow> create_outcome \<Rightarrow> 'w vr_sys \<Rightarrow> bool" where
  "brought_up p alive N spec rt out g \<longleftrightarrow>
     (case create_failure (spec_rank spec) out of
        None \<Rightarrow> \<exists>rec. out = init_result rt (Inr rec) False \<and> ready p alive N spec rec g
      | Some (_, verified) \<Rightarrow> if verified then none_alive alive N g else still_owned p alive N g)"

lemma none_alive_stable [simp]: "stable (vr_rely alive N) (none_alive alive N)"
  by (auto simp: stable_def vr_rely_def none_alive_def)

lemma still_owned_stable [simp]: "stable (vr_rely alive N) (still_owned p alive N)"
  by (auto simp: stable_def vr_rely_def still_owned_def recorded_def)

lemma failure_flag:
  assumes "spec_conflict spec x"
  shows "\<exists>e. create_failure (spec_rank spec) (init_result rt x b) = Some (e, b)"
  using assms
  by (auto simp: create_failure_def init_result_def spec_conflict_def manager_receipt_def split: sum.splits)

lemma no_failure:
  assumes "\<not> spec_conflict spec x"
  shows "create_failure (spec_rank spec) (init_result rt x b) = None" "\<exists>rec. x = Inr rec"
  using assms
  by (auto simp: create_failure_def init_result_def spec_conflict_def manager_receipt_def split: sum.splits)

lemma andthen_ret: "andthen (ret x) k = k x"
  by (rule ext) (simp add: andthen_def ret_def)

lemma concluded:
  assumes "spec_conflict spec x" and "none_alive alive N g \<or> still_owned p alive N g"
  shows "brought_up p alive N spec rt (init_result rt x (vr_verified (vs_self g))) g"
proof -
  obtain e where "create_failure (spec_rank spec) (init_result rt x (vr_verified (vs_self g))) = Some (e, vr_verified (vs_self g))"
    using failure_flag [OF assms(1)] by blast
  with assms(2) show ?thesis by (auto simp: brought_up_def none_alive_def still_owned_def)
qed

lemma bring_up_triple:
  assumes "ray_ok ry alive" and "p = ry_server_prefix ry"
  shows "triple (vr_rely alive N) (recorded p alive N {}) (rm_bring_up ry rt spec pgs)
    (after_res (brought_up p alive N spec rt) (\<lambda>_ _. False))"
  unfolding rm_bring_up_def
proof (rule triple_caught [OF init_triple [OF assms]])
  fix x :: "vr_receipt res"
  let ?R = "vr_rely alive N" and ?Q = "after_res (brought_up p alive N spec rt) (\<lambda>_ _. False)"
  let ?O = "\<lambda>g. none_alive alive N g \<or> still_owned p alive N g"
  let ?last = "self vr_verified (\<lambda>verified. ret (init_result rt x verified))"
  let ?mid = "\<lambda>verified. andthen (if verified then ret () else caught (vr_cleanup ry) (\<lambda>_. ret ())) (\<lambda>_. ?last)"
  show "triple ?R (init_outcome p alive N spec x)
      (if \<not> spec_conflict spec x then ret (init_result rt x False) else self vr_verified ?mid) ?Q"
  proof (cases "spec_conflict spec x")
    case c: True
    have fin: "triple ?R ?O ?last ?Q"
      unfolding self_def
      by (intro triple_look triple_ret)
        (use concluded [OF c, of alive N _ p rt] in auto)
    have "triple ?R (recorded p alive N {}) (caught (vr_cleanup ry) (\<lambda>_. ret ())) (after_res (\<lambda>_. ?O) (\<lambda>_ _. False))"
    proof (rule triple_caught [OF cleanup_recorded [OF assms(1)]])
      show "triple ?R (after_res (\<lambda>_. none_alive alive N) (\<lambda>_. still_owned p alive N) c) (ret ()) (after_res (\<lambda>_. ?O) (\<lambda>_ _. False))"
        for c :: "unit res" by (cases c) (auto intro!: triple_ret)
    qed
    from triple_then [OF this _ fin] have clean: "triple ?R (recorded p alive N {}) (?mid False) ?Q" by simp
    have keep: "triple ?R ?O (?mid True) ?Q"
      using fin by (simp add: andthen_ret)
    have "triple ?R (\<lambda>g. none_alive alive N g \<or> recorded p alive N {} g \<and> unverified g) (self vr_verified ?mid) ?Q"
    proof (rule self_look)
      fix verified :: bool
      show "triple ?R (\<lambda>g. (none_alive alive N g \<or> recorded p alive N {} g \<and> unverified g) \<and> vr_verified (vs_self g) = verified)
          (?mid verified) ?Q"
      proof (cases verified)
        case True
        then have eq: "verified = True" by simp
        show ?thesis unfolding eq
          by (rule triple_pre [OF keep]) (auto simp: unverified_def holds_def)
      next
        case False
        then have eq: "verified = False" by simp
        show ?thesis unfolding eq
          by (rule triple_pre [OF clean]) (auto simp: none_alive_def)
      qed
    qed
    then show ?thesis using c
      by (auto elim!: triple_pre simp: init_outcome_def still_owned_def ready_def unverified_def holds_def split: sum.splits)
  next
    case False
    then obtain rec where "x = Inr rec" using no_failure(2) by blast
    with no_failure(1) [OF False] show ?thesis using False
      by (auto intro!: triple_ret simp: brought_up_def init_outcome_def)
  qed
qed


text \<open>
  C18: What the manager records of a destruction is true of the actors: when a borrowed runtime whose
  creation succeeded is destroyed, whatever calls fail and whatever the cluster reports in between, RELEASED
  evidence is recorded only when no actor of the runtime is alive and it holds no handle, and the evidence
  names the GPUs of the lease; otherwise the manager's records stay as they are, and every actor that
  may be alive is one whose name the runtime keeps, so that the destruction can be repeated.
\<close>

theorem rm_destroyed_means_dead:
  assumes "ray_ok ry alive" and "N = {worker_name v, server_name (ry_server_prefix ry) v}"
    and "obeys (vr_rely alive N) r" and "vs_self (r_now r) = v" and "vr_kind v = BORROWED"
    and "vr_worker_names v = []" and "vr_server_names v = []" and "\<forall>n \<in> N. \<not> alive n (vs_ray (r_now r))"
    and "rm_bring_up ry rt spec pgs r = (Inr out, r1)" and "create_failure (spec_rank spec) out = None"
    and "obeys (vr_rely alive N) r2" and "vr_rely alive N (r_now r1) (r_now r2)"
    and "vr_cleanup ry r2 = (z, r3)" and "rm_destroy_end clock key oid z m = (y, m')"
  shows "case y of
      Inr ev \<Rightarrow> e_operation_id ev = oid \<and> e_type ev = RELEASED \<and> none_alive alive N (r_now r3)
        \<and> (\<exists>lid b. rm_borrowed_record key m = Inr (lid, b)
             \<and> e_gpu_uuids ev = map (\<lambda>c. pystr_of (pyget c ''gpu_uuid'')) (spec_claims (b_spec b)))
    | Inl e \<Rightarrow> m' = m \<and> (is_ok z \<and> none_alive alive N (r_now r3)
        \<or> \<not> is_ok z \<and> still_owned (ry_server_prefix ry) alive N (r_now r3))"
proof -
  let ?p = "ry_server_prefix ry"
  have pre: "recorded ?p alive N {} (r_now r)"
    using assms(2,4-8) by (auto simp: recorded_def fits_def)
  have "brought_up ?p alive N spec rt out (r_now r1)"
    using tripleD(1) [OF bring_up_triple [OF assms(1) HOL.refl] assms(3) pre assms(9)] by simp
  then have "recorded ?p alive N {} (r_now r1)" using assms(10) by (auto simp: brought_up_def ready_def)
  then have rec: "recorded ?p alive N {} (r_now r2)" by (rule stableD [OF recorded_stable assms(12)])
  from tripleD(1) [OF cleanup_recorded [OF assms(1)] assms(11) rec assms(13)]
  have c: "after_res (\<lambda>_. none_alive alive N) (\<lambda>_. still_owned ?p alive N) z (r_now r3)" .
  show ?thesis
  proof (cases z)
    case (Inl e)
    with assms(14) c show ?thesis by (auto simp: rm_destroy_end_def is_ok_def)
  next
    case (Inr u)
    with assms(14) c show ?thesis
      by (auto simp: rm_destroy_end_def is_ok_def evidence_now_def mk_evidence_Inr_iff split: sum.splits)
  qed
qed

section \<open>The identity of an accelerator\<close>

text \<open>The table \<open>nvidia-smi\<close> prints for \<open>--query-gpu=index,uuid --format=csv,noheader,nounits\<close>.\<close>

definition smi_output :: "(string \<times> string) list \<Rightarrow> string" where
  "smi_output rows = concat (map (\<lambda>(i, u). i @ '', '' @ u @ [CHR 0x0A]) rows)"

definition plain_row :: "string \<times> string \<Rightarrow> bool" where
  "plain_row row \<longleftrightarrow> py_isdigit (fst row) \<and> snd row \<noteq> [] \<and> py_strip (snd row) = snd row
     \<and> list_all (\<lambda>c. \<not> line_break c) (snd row)"

lemma digit_chars:
  assumes "py_isdigit s"
  shows "list_all (\<lambda>c. \<not> py_space c \<and> \<not> line_break c \<and> c \<noteq> CHR '','') s"
proof -
  have "\<not> py_space c \<and> \<not> line_break c \<and> c \<noteq> CHR '',''"
    if "48 \<le> (of_char c :: nat) \<and> of_char c \<le> (57 :: nat) \<or> (of_char c :: nat) \<in> {178, 179, 185}" for c
    using that by (auto simp: py_space_def line_break_def)
  with assms show ?thesis by (auto simp: py_isdigit_def list_all_iff)
qed

lemma dropWhile_none: "list_all (\<lambda>c. \<not> P c) xs \<Longrightarrow> dropWhile P xs = xs"
  by (cases xs) auto

lemma strip_plain: "list_all (\<lambda>c. \<not> py_space c) s \<Longrightarrow> py_strip s = s"
  by (simp add: py_strip_def dropWhile_none)

lemma splitlines_line:
  "list_all (\<lambda>c. \<not> line_break c) l \<Longrightarrow> splitlines (l @ CHR 0x0A # rest) = l # splitlines rest"
  by (induction l) (simp_all add: line_break_def)

lemma smi_row_plain:
  assumes "plain_row (i, u)"
  shows "smi_row (i @ '', '' @ u) = Inr (i, u)"
proof -
  from assms have d: "list_all (\<lambda>c. \<not> py_space c \<and> \<not> line_break c \<and> c \<noteq> CHR '','') i"
    by (simp add: plain_row_def digit_chars)
  then have c: "\<forall>c \<in> set i. c \<noteq> CHR '',''" by (auto simp: list_all_iff)
  have "dropWhile (\<lambda>c. c \<noteq> CHR '','') (i @ '', '' @ u) = '', '' @ u" using c by (simp add: dropWhile_append3)
  moreover have "takeWhile (\<lambda>c. c \<noteq> CHR '','') (i @ '', '' @ u) = i" using c by (simp add: takeWhile_tail)
  moreover have "py_strip i = i" using d by (intro strip_plain) (auto simp: list_all_iff)
  moreover have "py_strip ('' '' @ u) = u" using assms by (simp add: plain_row_def py_strip_def py_space_def)
  ultimately show ?thesis by (simp add: smi_row_def)
qed

lemma strip_nonempty:
  assumes "c \<in> set s" and "\<not> py_space c"
  shows "py_strip s \<noteq> []"
proof -
  have "dropWhile py_space s \<noteq> []" using assms by (auto simp: dropWhile_eq_Nil_conv)
  then have "hd (dropWhile py_space s) \<in> set (dropWhile py_space s)" "\<not> py_space (hd (dropWhile py_space s))"
    by (simp, rule hd_dropWhile)
  then show ?thesis by (auto simp: py_strip_def dropWhile_eq_Nil_conv)
qed

lemma smi_rows:
  assumes "list_all plain_row rows"
  shows "traverse smi_row (filter (\<lambda>line. py_strip line \<noteq> []) (splitlines (smi_output rows))) = Inr rows"
  using assms
proof (induction rows)
  case Nil
  show ?case by (simp add: smi_output_def)
next
  case (Cons row rows)
  obtain i u where row: "row = (i, u)" by fastforce
  have p: "plain_row (i, u)" using Cons.prems row by simp
  then have i: "i \<noteq> []" "list_all (\<lambda>c. \<not> py_space c \<and> \<not> line_break c \<and> c \<noteq> CHR '','') i"
    by (auto simp: plain_row_def digit_chars) (simp add: py_isdigit_def)
  have "list_all (\<lambda>c. \<not> line_break c) (i @ '', '' @ u)"
    using p i(2) by (auto simp: plain_row_def list_all_iff line_break_def)
  from splitlines_line [OF this] have "splitlines (smi_output (row # rows)) = (i @ '', '' @ u) # splitlines (smi_output rows)"
    by (simp add: smi_output_def row)
  moreover have "py_strip (i @ '', '' @ u) \<noteq> []"
    by (rule strip_nonempty [of "hd i"]) (use i in \<open>auto simp: neq_Nil_conv\<close>)
  ultimately show ?case using Cons p smi_row_plain [OF p] by (simp add: row)
qed

lemma fold_update_map: "map_of (fold (\<lambda>(i, u). AList.update i u) rows al) = map_of al ++ map_of (rev rows)"
  by (induction rows arbitrary: al) (auto simp: fun_eq_iff map_add_def split: option.splits)

text \<open>
  C32: Inside a worker that Ray gave one GPU by its number, the probe reports the UUID nvidia-smi printed
  for that number, the last one when it is printed twice, and raises when there is none: parsing the
  printed table gives the table back.
\<close>

theorem vr_probe_reads_table:
  assumes "list_all plain_row rows" and "py_isdigit aid"
  shows "vr_probe ''GPU'' node pg [aid] (Inr (smi_output rows)) =
     (case map_of (rev rows) aid of
        None \<Rightarrow> Inl (RuntimeError ''nvidia-smi did not report Ray GPU id'')
      | Some uuid \<Rightarrow> Inr [(''node_id'', PStr node), (''pg_id'', pg), (''gpu_uuid'', PStr uuid),
          (''resource_name'', PStr ''GPU''), (''accelerator_id'', PStr aid)])"
proof -
  have "\<not> begins_with ''GPU-'' aid" "\<not> begins_with ''MIG-'' aid"
    using assms(2) by (cases aid; auto simp: begins_with_def py_isdigit_def)+
  moreover have "smi_table (smi_output rows) = Inr (fold (\<lambda>(i, u). AList.update i u) rows [])"
    using smi_rows [OF assms(1)] by (simp add: smi_table_def)
  ultimately show ?thesis
    using assms(2) by (simp add: vr_probe_def gpu_identity_def fold_update_map split: option.split)
qed

theorem vr_probe_reads_table_witness:
  "vr_probe ''GPU'' ''n'' PNone [''1''] (Inr (smi_output [(''0'', ''GPU-a''), (''1'', ''GPU-b'')])) =
     Inr [(''node_id'', PStr ''n''), (''pg_id'', PNone), (''gpu_uuid'', PStr ''GPU-b''),
          (''resource_name'', PStr ''GPU''), (''accelerator_id'', PStr ''1'')]"
proof -
  have "list_all plain_row [(''0'', ''GPU-a''), (''1'', ''GPU-b'')]" "py_isdigit ''1''"
    by (simp_all add: plain_row_def py_isdigit_def py_strip_def py_space_def line_break_def)
  from vr_probe_reads_table [OF this, of "''n''" PNone] show ?thesis by simp
qed

section \<open>The native sleep and the server's stages\<close>

text \<open>The dictionary \<open>_receipt\<close> of the server builds.\<close>

definition receipt_dict :: "int \<Rightarrow> int \<Rightarrow> hs_receipt \<Rightarrow> pydict" where
  "receipt_dict rank node rc =
     [(''replica_rank'', PInt rank), (''node_rank'', PInt node), (''global_steps'', hr_steps rc)]
     @ (case hr_sleep_level rc of None \<Rightarrow> [] | Some n \<Rightarrow> [(''sleep_level'', PInt (int n))])
     @ [(''sleeping'', PBool (hr_sleeping rc))]
     @ (case hr_fully_awake rc of None \<Rightarrow> [] | Some b \<Rightarrow> [(''fully_awake'', PBool b)])"

lemma with_engineE:
  assumes "with_engine call k s = (Inr r, s')"
  obtains e v e' where "hs_engine s = Some e" "call e = (Inr v, e')" "k v (s\<lparr>hs_engine := Some e'\<rparr>) = (Inr r, s')"
  using assms by (auto simp: with_engine_def split: option.splits prod.splits sum.splits)

lemma sleepingE:
  assumes "with_engine (en_sleeping E) k s = (Inr r, s')" and "engine_ok E asleep"
  obtains e where "k (asleep e) (s\<lparr>hs_engine := Some e\<rparr>) = (Inr r, s')"
proof (rule with_engineE [OF assms(1)])
  fix e v e' assume c: "en_sleeping E e = (Inr v, e')" "k v (s\<lparr>hs_engine := Some e'\<rparr>) = (Inr r, s')"
  have "v = asleep e'" using assms(2) c(1) unfolding engine_ok_def by (metis fst_conv snd_conv)
  with c(2) that show thesis by simp
qed

lemma enter_sleep_result:
  assumes "engine_ok E asleep" and "hs_enter_sleep cfg E b s = (Inr rc, s')"
  shows "\<not> gate_open s' \<and> hr_sleep_level rc = Some (cf_sleep_level cfg) \<and> hr_sleeping rc \<and> hs_stage s' = level_stage (cf_sleep_level cfg)
    \<and> cf_sleep_level cfg \<in> {1, 2} \<and> (\<exists>e. hs_engine s' = Some e \<and> asleep e)"
proof -
  have asleep: "en_sleeping E e = (Inr v, e') \<Longrightarrow> v = asleep e'" for e v e'
    using assms(1) unfolding engine_ok_def by (metis fst_conv snd_conv)
  from assms(2) show ?thesis
    by (auto simp: hs_enter_sleep_def Let_def with_engine_def sleep_receipt_def gate_open_def hs_close_def
        dest: asleep split: option.splits prod.splits sum.splits if_splits)
qed

lemma sleep_result:
  assumes "engine_ok E asleep" and "hs_sleep cfg E b s = (Inr rc, s')"
  shows "\<not> gate_open s' \<and> hr_sleeping rc \<and> (\<exists>n. hr_sleep_level rc = Some n \<and> n \<in> {1, 2} \<and> hs_stage s' = level_stage n)
    \<and> (\<exists>e. hs_engine s' = Some e \<and> asleep e)"
proof -
  have asleep: "en_sleeping E e = (Inr v, e') \<Longrightarrow> v = asleep e'" for e v e'
    using assms(1) unfolding engine_ok_def by (metis fst_conv snd_conv)
  note enter = enter_sleep_result [OF assms(1)]
  show ?thesis
  proof (cases "hs_stage s \<in> {Level1, Level2}")
    case True
    then have "with_engine (en_sleeping E) (\<lambda>asleep s.
        if \<not> asleep then (Inl (RuntimeError ''sleep ledger disagrees with vLLM engine''), s)
        else (Inr (sleep_receipt (if hs_stage s = Level1 then 1 else 2) s), hs_close s)) s = (Inr rc, s')"
      using assms(2) by (auto simp: hs_sleep_def split: option.splits)
    note t = this
    obtain e where e: "asleep e" "rc = sleep_receipt (if hs_stage s = Level1 then 1 else 2) (s\<lparr>hs_engine := Some e\<rparr>)"
        "s' = hs_close (s\<lparr>hs_engine := Some e\<rparr>)"
      by (rule sleepingE [OF t assms(1)]) (simp split: if_split_asm)
    from True show ?thesis
      by (cases "hs_stage s = Level1") (simp_all add: e sleep_receipt_def gate_open_def hs_close_def)
  next
    case False
    have "\<exists>s1. hs_enter_sleep cfg E b s1 = (Inr rc, s')"
    proof (cases "hs_stage s = Weights")
      case w: True
      then have "with_engine (en_sleeping E) (\<lambda>asleep s. if \<not> asleep then hs_enter_sleep cfg E b s
          else with_engine (en_resume_kv E) (\<lambda>_. with_engine (en_sleeping E) (\<lambda>asleep s.
             if asleep then (Inl (RuntimeError ''RESTORE rollback could not restore KV before sleep''), s)
             else hs_enter_sleep cfg E b s)) s) (hs_close s) = (Inr rc, s')"
        using assms(2) by (simp add: hs_sleep_def split: option.splits)
      then show ?thesis
        by (elim with_engineE) (simp split: if_splits, blast, elim with_engineE, simp split: if_splits, blast)
    qed (use assms(2) False in \<open>auto simp: hs_sleep_def split: option.splits\<close>)
    then obtain s1 where "hs_enter_sleep cfg E b s1 = (Inr rc, s')" by blast
    from enter [OF this] show ?thesis by blast
  qed
qed

text \<open>
  C27: The evidence of a native release is true of the server: when the manager records RELEASED for a
  DONATE, from the replica's sleep and the receipt its one server sent, the engine is asleep at the level of
  the platform, admission is closed, and the evidence names the operation and the GPU the worker reported;
  when it records nothing, it raises and leaves its registry as it was.
\<close>

theorem native_release_sleeps:
  assumes "engine_ok E asleep" and "hs_sleep cfg E barrier s = (x, s')"
    and "tk_reply (tick_of r) = map_res (\<lambda>rc. PDict (receipt_dict rank node rc)) x" and "vr_sleep ry r = (y, r')"
    and "rm_sleep_end clock key oid placement (map_res (\<lambda>_. ()) y) m = (z, m')"
  shows "case z of
      Inr ev \<Rightarrow> \<not> gate_open s' \<and> (\<exists>e. hs_engine s' = Some e \<and> asleep e)
        \<and> (\<exists>n. vr_sleep_level (ry_resource ry) = Inr (int n) \<and> hs_stage s' = level_stage n)
        \<and> e_operation_id ev = oid \<and> e_type ev = RELEASED \<and> (\<exists>g. placement = Inr (PStr g) \<and> e_gpu_uuids ev = [g])
        \<and> m' = m\<lparr>m_evidence := (m_evidence m)(oid \<mapsto> (key, ev))\<rparr>
    | Inl e \<Rightarrow> m' = m"
proof (cases z)
  case (Inl e)
  with assms(5) show ?thesis by (auto simp: rm_sleep_end_def split: sum.splits if_splits)
next
  case (Inr ev)
  note recorded = assms(5) [unfolded Inr]
  from recorded have m': "m' = m\<lparr>m_evidence := (m_evidence m)(oid \<mapsto> (key, ev))\<rparr>"
    by (auto simp: rm_sleep_end_def split: sum.splits if_splits)
  from recorded obtain g receipt where g: "placement = Inr (PStr g)" "y = Inr receipt" "evidence_now clock oid RELEASED [g] = Inr ev"
    by (auto simp: rm_sleep_end_def is_nonempty_str_iff map_res_def split: sum.splits if_splits)
  from assms(4) g(2) obtain level where l: "vr_sleep_level (ry_resource ry) = Inr level"
    and c: "tk_reply (tick_of r) = Inr receipt" "sleep_confirmed level receipt"
    by (auto simp: vr_sleep_def self_def look_def guard_that_def andthen_def lift_res_def outside_def ret_def raise_def
        split: sum.splits prod.splits if_splits)
  with assms(3) obtain rc where rc: "x = Inr rc" "receipt = PDict (receipt_dict rank node rc)"
    by (cases x) auto
  from sleep_result [OF assms(1)] assms(2) rc obtain n where n: "hr_sleep_level rc = Some n" "hs_stage s' = level_stage n"
    "\<not> gate_open s'" "\<exists>e. hs_engine s' = Some e \<and> asleep e" by blast
  have "level = int n"
    using c(2) n(1) by (auto simp: rc sleep_confirmed_def receipt_dict_def pyget_def pyget_default_def)
  with l n g(1,3) m' Inr show ?thesis
    by (auto simp: evidence_now_def mk_evidence_Inr_iff)
qed

section \<open>The manager's specification and the runtime\<close>

lemma validated_spec_cases:
  assumes "rm_validate_spec cfg session now value = Inr n"
  obtains spec claim epoch l where "n = normalized_spec spec claim (PInt epoch) (l_expires_at l)" "0 \<le> epoch" "wf_lease l"
    "l_claims l = [claim]" "borrowed_claim_ok claim" "pyget spec ''lease_id'' = PStr (l_lease_id l)"
proof -
  from assms obtain spec raw claims l claim rest where v: "value = PDict spec" "pyget spec ''lease_id'' \<noteq> PNone"
      "required_fields spec [''operation_id'', ''lease_id'', ''borrower_task_id'', ''borrower_replica_id''] = None"
      "claim_items (pyget spec ''claims'') = Some raw" "length raw = 1" "traverse as_dict raw = Inr claims"
      "mk_lease (pystr_of (pyget spec ''lease_id'')) claims (pyget_default spec ''expires_at'' (PInt 0)) = Inr l"
      "l_claims l = claim # rest" "borrowed_claim_ok claim"
      "is_nonneg_int (pyget_default spec ''placement_epoch'' (PInt 0))"
      "n = normalized_spec spec claim (pyget_default spec ''placement_epoch'' (PInt 0)) (l_expires_at l)"
    unfolding rm_validate_spec_def Let_def
    by (force split: pyval.splits option.splits if_splits sum.splits list.splits)
  from mk_lease_wf [OF v(7)] have w: "wf_lease l" "l_lease_id l = pystr_of (pyget spec ''lease_id'')" "length (l_claims l) = length claims"
    by simp_all
  have "length claims = 1" using v(5,6) by (auto simp: traverse_Inr_iff dest: list_all2_lengthD)
  then have "rest = []" using v(8) w(3) by simp
  moreover have "pyget spec ''lease_id'' = PStr (l_lease_id l)"
    using v(3) w(2) by (auto simp: is_nonempty_str_iff split: if_splits)
  moreover obtain epoch where "pyget_default spec ''placement_epoch'' (PInt 0) = PInt epoch" "0 \<le> epoch"
    using v(10) by (auto simp: is_nonneg_int_iff)
  ultimately show thesis using that v w(1) by metis
qed

lemma wf_claim_index:
  assumes "wf_claim c" and "k \<in> {''claim_id'', ''pg_id'', ''bundle_index'', ''node_id'', ''gpu_uuid''}"
  shows "pyindex c k = Inr (pyget c k)"
  using assms map_of_pyget [of c k] by (auto simp: wf_claim_def pyindex_def is_nonempty_str_iff is_nonneg_int_iff)

text \<open>
  A placement the manager accepted is never refused by the runtime it constructs for it: the plan of
  the worker is made, for exactly the GPU and the bundle of the lease's claim.
\<close>

theorem vr_accepts_manager_spec:
  assumes "rm_validate_spec cfg session now value = Inr n" and "spec = AList.update ''replica_rank'' (PInt (int (vr_rank v))) n"
    and "vr_kind v = BORROWED" and "int (vr_epoch v) = pyint_of (pyget spec ''placement_epoch'')" and "vr_world v = 1"
  shows "\<exists>claim item. spec_claims spec = [claim] \<and> wf_claim claim
     \<and> vr_build_plan p spec v = (Inr item, v\<lparr>vr_claims := [claim], vr_server_names := [server_name p v]\<rparr>)
     \<and> wp_gpu item = pyget claim ''gpu_uuid'' \<and> wp_pg_id item = pyget claim ''pg_id'' \<and> wp_bundle item = pyget claim ''bundle_index''
     \<and> wp_node item = pyget claim ''node_id''"
proof -
  obtain sp c epoch l where n: "n = normalized_spec sp c (PInt epoch) (l_expires_at l)" "0 \<le> epoch" "wf_lease l"
    "l_claims l = [c]" "borrowed_claim_ok c" "pyget sp ''lease_id'' = PStr (l_lease_id l)"
    by (rule validated_spec_cases [OF assms(1)])
  let ?c = "AList.update ''rank'' (PInt 0) c"
  have c: "wf_claim c" using n(3,4) by (simp add: wf_lease_def)
  then have wc: "wf_claim ?c" by (simp add: wf_claim_def)
  have f: "pyget spec ''claims'' = PList [PDict ?c]" "pyget spec ''lease_id'' = PStr (l_lease_id l)"
    "pyget spec ''placement_epoch'' = PInt epoch" "pyget spec ''replica_rank'' = PInt (int (vr_rank v))"
    "pyget spec ''expires_at'' = PFloat (Fin (l_expires_at l))"
    by (simp_all add: assms(2) n(1,6) normalized_fields) (simp add: normalized_spec_def)
  have d: "pyindex spec k = Inr (pyget spec k)" "pyget_default spec k x = pyget spec k" if "pyget spec k \<noteq> PNone" for k x
    using map_of_pyget [OF that] by (simp_all add: pyindex_def pyget_default_def)
  let ?l = "l\<lparr>l_claims := [?c]\<rparr>"
  have "wf_lease ?l" using n(3,4) wc by (simp add: wf_lease_def claim_ids_def gpu_uuids_def bundle_keys_def claim_donor_def)
  from wf_lease_normal [OF this] have l: "mk_lease (l_lease_id l) [?c] (PFloat (Fin (l_expires_at l))) = Inr ?l" by simp
  have ok: "list_all (\<lambda>k. py_eq (pyget ?c k) (PInt 0)) [''rank'', ''node_rank'', ''local_rank'']"
    using n(5) by (simp add: borrowed_claim_ok_def)
  have "l_lease_id l \<noteq> []" "int (vr_epoch v) = epoch" using n(3) assms(4) f by (simp_all add: wf_lease_def)
  then have valid: "vr_validate_placement v (PDict spec) = Inr ()"
    using assms(3,5) l ok by (simp add: vr_validate_placement_def f d)
  have keys: "pyindex ?c ''gpu_fraction'' = Inr (PFloat (Fin FIRST_RELEASE_RAY_GPU_FRACTION))" "pyindex ?c ''cpu_request'' = Inr (PFloat (Fin 1))"
    using wc by (simp_all add: wf_claim_def pyindex_def)
  have "\<exists>item. worker_plan_of v ?c = Inr item \<and> wp_gpu item = pyget ?c ''gpu_uuid'' \<and> wp_pg_id item = pyget ?c ''pg_id''
      \<and> wp_bundle item = pyget ?c ''bundle_index'' \<and> wp_node item = pyget ?c ''node_id''"
    using keys wf_claim_index [OF wc] by (simp add: worker_plan_of_def)
  then obtain item where item: "worker_plan_of v ?c = Inr item" "wp_gpu item = pyget ?c ''gpu_uuid''" "wp_pg_id item = pyget ?c ''pg_id''"
      "wp_bundle item = pyget ?c ''bundle_index''" "wp_node item = pyget ?c ''node_id''" by blast
  moreover have "spec_claims spec = [?c]" by (simp add: spec_claims_def f List.map_filter_simps)
  ultimately show ?thesis using wc valid by (auto simp: vr_build_plan_def spec_first_claim_def f)
qed

section \<open>A worker that never started\<close>

text \<open>
  The plan records the name of the server before anything is started, and every cleanup from then on
  asks for a DEAD entry of that name. While no server was ever started there is none.
\<close>

definition never_listed :: "'w ray_ops \<Rightarrow> string \<Rightarrow> bool" where
  "never_listed ry n \<longleftrightarrow> (\<forall>w. ry_list ry (ry_namespace ry) n w = Inr [])"

definition awaits_server :: "string \<Rightarrow> vr \<Rightarrow> bool" where
  "awaits_server n v \<longleftrightarrow> vr_kind v = BORROWED \<and> vr_server_names v = [n] \<and> vr_servers v = []"

abbreviation unmoved :: "'w vr_sys \<Rightarrow> 'w vr_sys \<Rightarrow> bool" where
  "unmoved \<equiv> vr_rely (\<lambda>_ _. False) {}"

lemma never_dead:
  assumes "never_listed ry n"
  shows "triple unmoved (holds P) (vr_wait_dead ry [n]) (after_res (\<lambda>_ _. False) (\<lambda>_. holds P))"
proof -
  have "triple unmoved (holds P) (query (\<lambda>g. ry_list ry (ry_namespace ry) n (vs_ray g)))
      (after_res (\<lambda>states g. states = [] \<and> holds P g) (\<lambda>_. holds P))"
    by (rule triple_query) (use assms in \<open>auto simp: never_listed_def\<close>)
  then have check: "triple unmoved (holds P) (vr_non_dead ry [n]) (after_res (\<lambda>active g. active = [n] \<and> holds P g) (\<lambda>_. holds P))"
    unfolding vr_non_dead.simps
    by (rule triple_then) (auto simp: dead_proof_def andthen_ret intro!: triple_some triple_ret)
  have "triple unmoved (holds P) (vr_poll_dead ry [n] d) (after_res (\<lambda>_ _. False) (\<lambda>_. holds P))" for d
    by (rule poll_triple [OF dead_polling, where g = "1 / 10", OF _ _ _ _ check])
      (auto simp: min_def simp del: vr_non_dead.simps split: sum.splits)
  then have "triple unmoved (holds P) (\<lambda>r. vr_poll_dead ry [n] (r_time r + 10) r) (after_res (\<lambda>_ _. False) (\<lambda>_. holds P))"
    by (rule triple_at)
  then show ?thesis by (rule triple_cong) (simp add: vr_wait_dead_def)
qed

lemma cleanup_never_verified:
  assumes "never_listed ry n"
  shows "triple unmoved (holds (awaits_server n)) (vr_cleanup ry)
    (after_res (\<lambda>_ _. False) (\<lambda>_ g. holds (awaits_server n) g \<and> unverified g))"
proof -
  let ?P = "\<lambda>g :: 'a vr_sys. holds (awaits_server n) g \<and> unverified g"
  have conj: "?P = holds (\<lambda>v. awaits_server n v \<and> \<not> vr_verified v)" by (auto simp: holds_def unverified_def)
  have start: "triple unmoved (holds (awaits_server n)) (on_self (\<lambda>v. v\<lparr>vr_verified := False\<rparr>)) (after_res (\<lambda>_. ?P) (\<lambda>_ _. False))"
    unfolding on_self_def by (rule triple_sync) (auto simp: holds_def awaits_server_def unverified_def)
  have wait: "triple unmoved ?P (andthen (vr_wait_dead ry [n]) k) (after_res (\<lambda>_ _. False) (\<lambda>_. ?P))"
    for k :: "unit \<Rightarrow> ('a vr_sys, unit) coro"
    unfolding conj by (rule triple_then [OF never_dead [OF assms]]) (auto simp: triple_def holds_def unverified_def)
  have servers: "triple unmoved ?P (vr_shutdown_servers ry) (after_res (\<lambda>_ _. False) (\<lambda>_. ?P))"
    unfolding vr_shutdown_servers_def
  proof (intro self_look)
    fix servers names
    show "triple unmoved (\<lambda>g. (?P g \<and> vr_servers (vs_self g) = servers) \<and> vr_server_names (vs_self g) = names)
       (andthen (vr_stop_servers ry servers names) (\<lambda>_. andthen (vr_wait_dead ry names) (\<lambda>_.
         on_self (\<lambda>v. v\<lparr>vr_servers := [], vr_handle := None, vr_address := []\<rparr>)))) (after_res (\<lambda>_ _. False) (\<lambda>_. ?P))"
    proof (rule triple_fact [where F = "servers = [] \<and> names = [n]"])
      assume f: "servers = [] \<and> names = [n]"
      show "triple unmoved (\<lambda>g. (?P g \<and> vr_servers (vs_self g) = servers) \<and> vr_server_names (vs_self g) = names)
         (andthen (vr_stop_servers ry servers names) (\<lambda>_. andthen (vr_wait_dead ry names) (\<lambda>_.
           on_self (\<lambda>v. v\<lparr>vr_servers := [], vr_handle := None, vr_address := []\<rparr>)))) (after_res (\<lambda>_ _. False) (\<lambda>_. ?P))"
        using f
        by (simp add: vr_stop_servers_def andthen_ret) (rule triple_pre [OF wait], blast)
    qed (auto simp: holds_def awaits_server_def)
  qed
  have kill: "keeps unmoved ?P (vr_kill_workers ry ws names)" for ws names
    unfolding vr_kill_workers_def
  proof (intro keeps_andthen keeps_basic(4) keeps_wait_dead)
    show "keeps unmoved ?P (vr_kill_all ry ws)" by (induction ws) (auto simp: holds_def unverified_def)
  qed (simp add: conj)
  have rest: "triple unmoved ?P (self vr_workers (\<lambda>ws. self vr_worker_names (\<lambda>names.
      caught (vr_kill_workers ry ws names) (\<lambda>y.
        andthen (if is_ok y then on_self (\<lambda>v. v\<lparr>vr_workers := []\<rparr>) else ret ()) (\<lambda>_.
          guard_that (is_ok (Inl e :: unit res) \<and> is_ok y) (RuntimeError ''borrowed runtime cleanup is unverified'')
            (on_self (\<lambda>v. v\<lparr>vr_verified := True\<rparr>))))))) (after_res (\<lambda>_ _. False) (\<lambda>_. ?P))" for e
  proof (intro self_look, rule triple_pre [OF triple_caught [OF keeps_triple [OF kill]]])
    fix y :: "unit res"
    have "triple unmoved ?P (if is_ok y then on_self (\<lambda>v. v\<lparr>vr_workers := []\<rparr>) else ret ()) (after_res (\<lambda>_. ?P) (\<lambda>_ _. False))"
      by (auto simp: on_self_def holds_def awaits_server_def unverified_def intro!: triple_sync triple_ret)
    then show "triple unmoved ?P (andthen (if is_ok y then on_self (\<lambda>v. v\<lparr>vr_workers := []\<rparr>) else ret ()) (\<lambda>_.
          guard_that (is_ok (Inl e :: unit res) \<and> is_ok y) (RuntimeError ''borrowed runtime cleanup is unverified'')
            (on_self (\<lambda>v. v\<lparr>vr_verified := True\<rparr>)))) (after_res (\<lambda>_ _. False) (\<lambda>_. ?P))"
      by (rule triple_then) (auto simp: guard_that_def intro: triple_raise)
  qed simp
  show ?thesis unfolding vr_cleanup_def
  proof (intro self_look triple_guard)
    fix kind
    show "triple unmoved (\<lambda>g. holds (awaits_server n) g \<and> vr_kind (vs_self g) = kind)
        (andthen (on_self (\<lambda>v. v\<lparr>vr_verified := False\<rparr>)) (\<lambda>_. caught (vr_shutdown_servers ry) (\<lambda>x.
            self vr_workers (\<lambda>ws. self vr_worker_names (\<lambda>names.
              caught (vr_kill_workers ry ws names) (\<lambda>y.
                andthen (if is_ok y then on_self (\<lambda>v. v\<lparr>vr_workers := []\<rparr>) else ret ()) (\<lambda>_.
                  guard_that (is_ok x \<and> is_ok y) (RuntimeError ''borrowed runtime cleanup is unverified'')
                    (on_self (\<lambda>v. v\<lparr>vr_verified := True\<rparr>)))))))))
        (after_res (\<lambda>_ _. False) (\<lambda>_. ?P))"
    proof (rule triple_pre [OF triple_then [OF start _ triple_caught [OF servers]]])
      fix x :: "unit res"
      show "triple unmoved (after_res (\<lambda>_ _. False) (\<lambda>_. ?P) x) (self vr_workers (\<lambda>ws. self vr_worker_names (\<lambda>names.
              caught (vr_kill_workers ry ws names) (\<lambda>y.
                andthen (if is_ok y then on_self (\<lambda>v. v\<lparr>vr_workers := []\<rparr>) else ret ()) (\<lambda>_.
                  guard_that (is_ok x \<and> is_ok y) (RuntimeError ''borrowed runtime cleanup is unverified'')
                    (on_self (\<lambda>v. v\<lparr>vr_verified := True\<rparr>))))))) (after_res (\<lambda>_ _. False) (\<lambda>_. ?P))"
        by (cases x) (use rest in \<open>auto simp: triple_def\<close>)
    qed auto
  qed (auto simp: holds_def awaits_server_def)
qed

definition plan_ok :: "string \<Rightarrow> pydict \<Rightarrow> string \<Rightarrow> vr \<Rightarrow> bool" where
  "plan_ok p spec n v \<longleftrightarrow> vr_kind v = BORROWED \<and> vr_servers v = [] \<and> server_name p v = n \<and> is_ok (fst (vr_build_plan p spec v))"

lemma plan_ok_start:
  assumes "plan_ok p spec n v"
  shows "plan_ok p spec n (v\<lparr>vr_standalone := t, vr_nnodes := k, vr_gpus_per_node := j, vr_verified := b\<rparr>)"
proof -
  let ?v = "v\<lparr>vr_standalone := t, vr_nnodes := k, vr_gpus_per_node := j, vr_verified := b\<rparr>"
  have fields: "vr_kind ?v = vr_kind v" "vr_rank ?v = vr_rank v" "vr_epoch ?v = vr_epoch v" "vr_world ?v = vr_world v"
    "vr_suffix ?v = vr_suffix v" by simp_all
  have same: "vr_validate_placement ?v x = vr_validate_placement v x" "ce_prefix ?v = ce_prefix v" for x
    unfolding vr_validate_placement_def ce_prefix_def fields by (rule HOL.refl)+
  have "worker_plan_of ?v c = worker_plan_of v c" for c unfolding worker_plan_of_def by (simp only: same)
  with assms same(1) show ?thesis by (auto simp: plan_ok_def vr_build_plan_def server_name_def split: sum.splits)
qed

lemma start_worker_fails:
  assumes "\<And>item a q w. \<not> is_ok (fst (ry_spawn ry item a q w))"
  shows "triple R (holds (awaits_server n)) (vr_start_worker ry item addr port) (after_res (\<lambda>_ _. False) (\<lambda>_. holds (awaits_server n)))"
proof -
  have s: "triple R (holds (awaits_server n)) (sync (\<lambda>g. (case ry_spawn ry item addr port (vs_ray g) of (x, w) \<Rightarrow> (x, g\<lparr>vs_ray := w\<rparr>))))
      (after_res (\<lambda>_ _. False) (\<lambda>_. holds (awaits_server n)))"
  proof (rule triple_sync)
    fix g :: "'a vr_sys" assume "holds (awaits_server n) g"
    then show "after_res (\<lambda>_ _. False) (\<lambda>_. holds (awaits_server n))
        (fst (case ry_spawn ry item addr port (vs_ray g) of (x, w) \<Rightarrow> (x, g\<lparr>vs_ray := w\<rparr>)))
        (snd (case ry_spawn ry item addr port (vs_ray g) of (x, w) \<Rightarrow> (x, g\<lparr>vs_ray := w\<rparr>)))"
      using assms [of item addr port "vs_ray g"]
      by (cases "ry_spawn ry item addr port (vs_ray g)") (auto simp: holds_def is_ok_def split: sum.splits)
  qed
  have f: "triple R (holds (awaits_server n)) (vr_worker_failed ry item None e) (after_res (\<lambda>_ _. False) (\<lambda>_. holds (awaits_server n)))" for e
    by (simp add: triple_def vr_worker_failed_def vr_kill_workers_def vr_wait_dead_def caught_def andthen_def ret_def
        guard_that_def on_self_def sync_def raise_def holds_def awaits_server_def)
  show ?thesis unfolding vr_start_worker_def
  proof (rule triple_caught [OF s])
    fix x :: "nat res"
    show "triple R (after_res (\<lambda>_ _. False) (\<lambda>_. holds (awaits_server n)) x)
      (case x of Inl e \<Rightarrow> vr_worker_failed ry item None e
        | Inr worker \<Rightarrow> rescue (vr_adopt ry item worker) (vr_worker_failed ry item (Some worker)))
      (after_res (\<lambda>_ _. False) (\<lambda>_. holds (awaits_server n)))"
      by (cases x) (use f in \<open>auto simp: triple_def\<close>)
  qed
qed

lemma init_never_verified:
  assumes "never_listed ry n" and "p = ry_server_prefix ry" and "\<And>item a q w. \<not> is_ok (fst (ry_spawn ry item a q w))"
  shows "triple unmoved (holds (plan_ok p spec n)) (vr_init ry spec pgs)
    (after_res (\<lambda>_ _. False) (\<lambda>_ g. holds (awaits_server n) g \<and> unverified g))"
proof -
  let ?A = "holds (awaits_server n)" and ?Q = "after_res (\<lambda>_ _. False) (\<lambda>_. holds (awaits_server n))"
  have start: "triple unmoved (holds (plan_ok p spec n))
      (on_self (\<lambda>v. v\<lparr>vr_standalone := True, vr_nnodes := 1, vr_gpus_per_node := vr_world v, vr_verified := False\<rparr>))
      (after_res (\<lambda>_. holds (plan_ok p spec n)) (\<lambda>_ _. False))"
    unfolding on_self_def by (rule triple_sync) (simp add: holds_def plan_ok_start)
  have plan: "triple unmoved (holds (plan_ok p spec n))
      (sync (\<lambda>g. (case vr_build_plan (ry_server_prefix ry) spec (vs_self g) of (x, v) \<Rightarrow> (x, g\<lparr>vs_self := v\<rparr>))))
      (after_res (\<lambda>_. ?A) (\<lambda>_ _. False))"
    by (rule triple_sync)
      (auto simp: assms(2) holds_def plan_ok_def vr_build_plan_def awaits_server_def split: prod.splits sum.splits)
  have master: "triple unmoved ?A outside (after_res (\<lambda>_. ?A) (\<lambda>_. ?A))"
    by (rule triple_post [OF triple_outside]) (auto split: sum.splits)
  have go: "triple unmoved ?A (case m of PTuple [addr, port] \<Rightarrow> vr_start_worker ry item addr port
               | PList [addr, port] \<Rightarrow> vr_start_worker ry item addr port
               | _ \<Rightarrow> raise (ValueError ''cannot unpack the master address'')) ?Q" for m item
    by (auto split: pyval.split list.split intro!: start_worker_fails assms(3) triple_raise)
  have create: "triple unmoved (holds (plan_ok p spec n)) (vr_create_workers ry spec pgs) ?Q"
    unfolding vr_create_workers_def
    by (rule triple_then [OF plan], simp, rule triple_guard, simp, rule triple_then [OF master _ go], simp)
  have body: "triple unmoved (holds (plan_ok p spec n)) (vr_init_body ry spec pgs) ?Q"
    unfolding vr_init_body_def by (rule triple_then [OF create]) (auto simp: triple_def)
  show ?thesis unfolding vr_init_def
  proof (rule triple_then [OF start], simp, rule triple_try [OF body], simp)
    fix e
    show "triple unmoved ?A (caught (vr_cleanup ry) (\<lambda>c. case c of
         Inl _ \<Rightarrow> raise (RuntimeError ''borrowed runtime creation failed; cleanup is unverified'') | Inr _ \<Rightarrow> raise e))
       (after_res (\<lambda>_ _. False) (\<lambda>_ g. ?A g \<and> unverified g))"
    proof (rule triple_caught [OF cleanup_never_verified [OF assms(1)]])
      fix c :: "unit res"
      show "triple unmoved (after_res (\<lambda>_ _. False) (\<lambda>_ g. ?A g \<and> unverified g) c)
          (case c of Inl _ \<Rightarrow> raise (RuntimeError ''borrowed runtime creation failed; cleanup is unverified'') | Inr _ \<Rightarrow> raise e)
          (after_res (\<lambda>_ _. False) (\<lambda>_ g. ?A g \<and> unverified g))"
        by (cases c) (auto intro: triple_raise simp: triple_def raise_def)
    qed
  qed
qed

text \<open>
  C39: A borrowed replica whose worker could not be created is quarantined, although no actor of it was
  ever started: its cleanup waits for a DEAD entry of the server that was planned but never launched,
  so it can never be verified, and the lease's GPU is never reported as released.
\<close>

theorem rm_failed_worker_quarantined:
  assumes "never_listed ry (server_name (ry_server_prefix ry) v)" and "\<forall>item a q w. \<not> is_ok (fst (ry_spawn ry item a q w))"
    and "obeys unmoved r" and "vs_self (r_now r) = v" and "vr_kind v = BORROWED" and "vr_servers v = []"
    and "is_ok (fst (vr_build_plan (ry_server_prefix ry) spec v))"
    and "rm_bring_up ry rt spec pgs r = (x, r')" and "x = Inr out"
    and "map_of (m_borrowed s) lid = Some b" and "m_state s (spec_key (b_spec b)) = Some CREATING"
    and "m_kind s (spec_key (b_spec b)) = Some BORROWED" and "rm_create_end lid out s = (y, s')"
  shows "m_state s' (spec_key (b_spec b)) = Some QUARANTINED \<and> \<not> is_ok y \<and> \<not> vr_verified (vs_self (r_now r'))"
proof -
  let ?n = "server_name (ry_server_prefix ry) v"
  let ?D = "\<lambda>g. holds (awaits_server ?n) g \<and> unverified g"
  have pre: "holds (plan_ok (ry_server_prefix ry) spec ?n) (r_now r)" using assms(4-7) by (simp add: holds_def plan_ok_def)
  have "triple unmoved (holds (plan_ok (ry_server_prefix ry) spec ?n)) (rm_bring_up ry rt spec pgs)
      (after_res (\<lambda>out g. (\<exists>e. out = InitFailed rt e False) \<and> unverified g) (\<lambda>_ _. False))"
    unfolding rm_bring_up_def
  proof (rule triple_caught [OF init_never_verified [OF assms(1) HOL.refl]])
    fix z :: "vr_receipt res"
    let ?last = "self vr_verified (\<lambda>verified. ret (init_result rt z verified))"
    let ?mid = "\<lambda>verified. andthen (if verified then ret () else caught (vr_cleanup ry) (\<lambda>_. ret ())) (\<lambda>_. ?last)"
    let ?Q = "after_res (\<lambda>out g. (\<exists>e. out = InitFailed rt e False) \<and> unverified g) (\<lambda>_ _. False)"
    show "triple unmoved (after_res (\<lambda>_ _. False) (\<lambda>_. ?D) z)
        (if \<not> spec_conflict spec z then ret (init_result rt z False) else self vr_verified ?mid) ?Q"
    proof (cases z)
      case (Inl e)
      have fin: "triple unmoved ?D ?last ?Q"
        by (rule self_look, rule triple_ret) (auto simp: Inl init_result_def unverified_def holds_def)
      have "triple unmoved (holds (awaits_server ?n)) (caught (vr_cleanup ry) (\<lambda>_. ret ())) (after_res (\<lambda>_. ?D) (\<lambda>_ _. False))"
      proof (rule triple_caught [OF cleanup_never_verified [OF assms(1)]])
        fix c :: "unit res"
        show "triple unmoved (after_res (\<lambda>_ _. False) (\<lambda>_. ?D) c) (ret ()) (after_res (\<lambda>_. ?D) (\<lambda>_ _. False))"
          by (cases c) (auto intro: triple_ret simp: triple_def ret_def)
      qed
      from triple_then [OF this _ fin] have again: "triple unmoved (holds (awaits_server ?n)) (?mid False) ?Q" by simp
      have "triple unmoved ?D (self vr_verified ?mid) ?Q"
      proof (rule self_look)
        fix verified :: bool
        show "triple unmoved (\<lambda>g. ?D g \<and> vr_verified (vs_self g) = verified) (?mid verified) ?Q"
        proof (cases verified)
          case True
          then show ?thesis by (auto simp: triple_def unverified_def holds_def)
        next
          case False
          then have eq: "verified = False" by simp
          show ?thesis unfolding eq by (rule triple_pre [OF again]) simp
        qed
      qed
      then show ?thesis by (simp add: Inl spec_conflict_def)
    qed (simp add: triple_def)
  qed (use assms(2) in blast)
  from tripleD(1) [OF this assms(3) pre assms(8)] assms(9)
  obtain e where out: "out = InitFailed rt e False" "unverified (r_now r')" by auto
  then show ?thesis using assms(10-13)
    by (auto simp: rm_create_end_def Let_def create_failure_def rm_transition_def validate_kind_state_def unverified_def holds_def)
qed

section \<open>Concrete runs\<close>

text \<open>A cluster: the handle, the name and the state of every actor that was started.\<close>

type_synonym cluster = "(nat \<times> string \<times> string) list"

definition actor_live :: "string \<Rightarrow> cluster \<Rightarrow> bool" where
  "actor_live n w \<longleftrightarrow> (\<exists>(h, m, st) \<in> set w. m = n \<and> st \<noteq> ''DEAD'')"

definition demo_ray :: "bool \<Rightarrow> cluster ray_ops" where
  "demo_ray gives = \<lparr>ry_list = (\<lambda>_ n w. Inr (map (snd \<circ> snd) (filter (\<lambda>a. fst (snd a) = n) w))),
     ry_kill = (\<lambda>h w. (Inr (), map (\<lambda>(k, n, st). (k, n, if k = h then ''DEAD'' else st)) w)),
     ry_spawn = (\<lambda>item _ _ w. if gives then (Inr (length w), w @ [(length w, wp_actor_name item, ''ALIVE'')])
                  else (Inl (BackendError ''no GPU''), w)),
     ry_group = (\<lambda>h. Inr [h]),
     ry_launch = (\<lambda>v w. case vr_server_names v of
        n # _ \<Rightarrow> (Inr (), v\<lparr>vr_servers := [length w], vr_handle := Some (length w), vr_address := ''a:1''\<rparr>,
                  w @ [(length w, n, ''ALIVE'')])
      | [] \<Rightarrow> (Inl (RuntimeError ''no name''), v, w)),
     ry_namespace = ''ns'', ry_server_prefix = ''vllm_'', ry_resource = ''GPU''\<rparr>"

lemma demo_ray_ok: "ray_ok (demo_ray gives) actor_live"
  unfolding ray_ok_def
proof (intro conjI allI impI)
  fix n w states assume l: "ry_list (demo_ray gives) (ry_namespace (demo_ray gives)) n w = Inr states" "set states \<subseteq> {''DEAD''}"
  show "\<not> actor_live n w"
  proof
    assume "actor_live n w"
    then obtain h st where m: "(h, n, st) \<in> set w" "st \<noteq> ''DEAD''" by (auto simp: actor_live_def)
    then have "st \<in> set states" using l(1) by (auto simp: demo_ray_def image_iff intro!: bexI [of _ "(h, n, st)"])
    with m(2) l(2) show False by auto
  qed
next
  fix a n w assume "\<not> actor_live n w"
  then show "\<not> actor_live n (snd (ry_kill (demo_ray gives) a w))" by (fastforce simp: demo_ray_def actor_live_def split: if_splits)
qed (auto simp: demo_ray_def actor_live_def is_ok_def same_but_servers_def split: if_splits list.splits)

definition demo_replica :: vr where
  "demo_replica = \<lparr>vr_kind = BORROWED, vr_rank = 1, vr_epoch = 0, vr_suffix = ''_s'', vr_world = 1, vr_nnodes = 1,
     vr_gpus_per_node = 1, vr_standalone = False, vr_claims = [], vr_workers = [], vr_worker_names = [], vr_servers = [],
     vr_server_names = [], vr_handle = None, vr_address = [], vr_verified = False\<rparr>"

definition quiet :: "(nat \<Rightarrow> pyval) \<Rightarrow> nat \<Rightarrow> 'g tick" where
  "quiet reply n = \<lparr>tk_fate = Answered, tk_before = id, tk_after = id, tk_reply = Inr (reply n), tk_elapsed = 10\<rparr>"

lemma quiet_runtime [simp]: "obeys (vr_rely alive N) (run_of (quiet reply) g)"
  by (simp add: obeys_def run_of_def quiet_def vr_rely_def)

lemmas run_eval = run_of_def look_def andthen_def rescue_def caught_def lift_res_def ret_def raise_def guard_that_def sync_def
  remote_def outside_def pause_def query_def tick_of_def others_before_def others_after_def quiet_def self_def on_self_def Let_def

lemmas cleanup_eval = vr_cleanup_def vr_shutdown_servers_def vr_stop_servers_def vr_kill_workers_def vr_wait_dead_def
  vr_poll_dead.simps dead_proof_def

text \<open>A runtime with a live worker and a live server.\<close>

definition demo_running :: vr where
  "demo_running = demo_replica\<lparr>vr_workers := [0], vr_worker_names := [''w''], vr_servers := [1], vr_server_names := [''v'']\<rparr>"

definition demo_cluster :: cluster where
  "demo_cluster = [(0, ''w'', ''ALIVE''), (1, ''v'', ''ALIVE'')]"

lemma demo_cleanup:
  "\<exists>r'. vr_cleanup (demo_ray True) (run_of (quiet (\<lambda>_. PNone)) \<lparr>vs_self = demo_running, vs_ray = demo_cluster\<rparr>) = (Inr (), r')"
  by (simp add: cleanup_eval run_eval demo_running_def demo_replica_def demo_cluster_def demo_ray_def)

theorem vr_cleanup_verified_witness:
  "\<exists>r'. vr_cleanup (demo_ray True) (run_of (quiet (\<lambda>_. PNone)) \<lparr>vs_self = demo_running, vs_ray = demo_cluster\<rparr>) = (Inr (), r')
     \<and> vr_verified (vs_self (r_now r')) \<and> \<not> actor_live ''w'' (vs_ray (r_now r'))"
proof -
  let ?r = "run_of (quiet (\<lambda>_. PNone)) \<lparr>vs_self = demo_running, vs_ray = demo_cluster\<rparr>"
  obtain r' where c: "vr_cleanup (demo_ray True) ?r = (Inr (), r')" using demo_cleanup by blast
  have s: "vs_self (r_now ?r) = demo_running" "vr_kind demo_running = BORROWED" "vr_worker_names demo_running = [''w'']"
    by (simp_all add: run_of_def demo_running_def demo_replica_def)
  from vr_cleanup_verified [OF demo_ray_ok quiet_runtime s(1,2) c] c s(3) show ?thesis
    by (auto simp: Let_def names_dead_def)
qed

theorem vr_cleanup_bounded_witness:
  "\<exists>r'. vr_cleanup (demo_ray True) (run_of (quiet (\<lambda>_. PNone)) \<lparr>vs_self = demo_running, vs_ray = demo_cluster\<rparr>) = (Inr (), r')
     \<and> r_await r' \<le> 409"
proof -
  let ?r = "run_of (quiet (\<lambda>_. PNone)) \<lparr>vs_self = demo_running, vs_ray = demo_cluster\<rparr>"
  obtain r' where c: "vr_cleanup (demo_ray True) ?r = (Inr (), r')" using demo_cleanup by blast
  have s: "vs_self (r_now ?r) = demo_running" by (simp add: run_of_def)
  from vr_cleanup_bounded [OF demo_ray_ok quiet_runtime s c] c show ?thesis
    by (simp add: run_of_def demo_running_def demo_replica_def)
qed

text \<open>A placement, the specification the manager makes of it, and its claim.\<close>

definition demo_borrow_claim :: pydict where
  "demo_borrow_claim =
     [(''claim_id'', PStr ''c''), (''source_lease_id'', PStr ''s''), (''donor_task_id'', PStr ''T''),
      (''donor_replica_rank'', PInt 0), (''pg_id'', PStr ''pg''), (''node_id'', PStr ''n''),
      (''gpu_uuid'', PStr ''g''), (''bundle_index'', PInt 0), (''node_rank'', PInt 0), (''local_rank'', PInt 0),
      (''gpu_fraction'', PFloat (Fin FIRST_RELEASE_RAY_GPU_FRACTION)), (''cpu_request'', PFloat (Fin 1)), (''rank'', PInt 0)]"

definition demo_norm :: pydict where
  "demo_norm = (case rm_validate_spec demo_parallel None 0 (demo_placement ''A'') of Inl _ \<Rightarrow> [] | Inr n \<Rightarrow> n)"

definition demo_spec :: pydict where
  "demo_spec = AList.update ''replica_rank'' (PInt (int (vr_rank demo_replica))) demo_norm"

lemma demo_norm_valid: "rm_validate_spec demo_parallel None 0 (demo_placement ''A'') = Inr demo_norm"
  by (rule demo_validate [of "''A''"]) (simp_all add: demo_norm_def)

lemma demo_norm_fields:
  "pyget demo_norm ''claims'' = PList [PDict demo_borrow_claim]" "pyget demo_norm ''placement_epoch'' = PInt 0"
  "pyget demo_norm ''lease_id'' = PStr ''A''"
  by (simp_all add: demo_norm_def demo_borrow_claim_def rm_eval)

lemma demo_spec_fields: "spec_claims demo_spec = [demo_borrow_claim]" "spec_rank demo_spec = 1"
  by (simp_all add: demo_spec_def demo_norm_fields spec_claims_def spec_rank_def List.map_filter_simps demo_replica_def)

theorem vr_accepts_manager_spec_witness:
  "\<exists>item. fst (vr_build_plan ''vllm_'' demo_spec demo_replica) = Inr item \<and> wp_gpu item = PStr ''g''"
proof -
  have v: "vr_kind demo_replica = BORROWED" "vr_world demo_replica = 1"
    "int (vr_epoch demo_replica) = pyint_of (pyget demo_spec ''placement_epoch'')"
    by (simp_all add: demo_replica_def demo_spec_def demo_norm_fields)
  from vr_accepts_manager_spec [where p = "''vllm_''", OF demo_norm_valid demo_spec_def v(1,3,2)] demo_spec_fields(1) show ?thesis
    by (auto simp: demo_borrow_claim_def pyget_def pyget_default_def)
qed

text \<open>The creation on the demo cluster: the server's health names no rank, so everything is cleaned up.\<close>

definition demo_started :: vr where
  "demo_started = demo_replica\<lparr>vr_standalone := True, vr_nnodes := 1, vr_gpus_per_node := 1, vr_verified := False\<rparr>"

lemma demo_names: "worker_name demo_replica = ''borrowed_ce_1_s_r0''" "server_name ''vllm_'' demo_replica = ''vllm_server_1_0_s''"
  by (simp_all add: worker_name_def ce_prefix_def server_name_def demo_replica_def nat_str.simps char_of_def bit_0)

lemma demo_plan:
  obtains item where "vr_build_plan ''vllm_'' demo_spec demo_started =
      (Inr item, demo_started\<lparr>vr_claims := [demo_borrow_claim], vr_server_names := [''vllm_server_1_0_s'']\<rparr>)"
    "wp_pg_id item = PStr ''pg''" "wp_actor_name item = ''borrowed_ce_1_s_r0''"
proof -
  have v: "vr_kind demo_started = BORROWED" "vr_world demo_started = 1"
    "int (vr_epoch demo_started) = pyint_of (pyget demo_spec ''placement_epoch'')"
    "demo_spec = AList.update ''replica_rank'' (PInt (int (vr_rank demo_started))) demo_norm"
    "server_name ''vllm_'' demo_started = server_name ''vllm_'' demo_replica" "worker_name demo_started = worker_name demo_replica"
    by (simp_all add: demo_started_def demo_replica_def demo_spec_def demo_norm_fields server_name_def worker_name_def ce_prefix_def)
  from vr_accepts_manager_spec [where p = "''vllm_''", OF demo_norm_valid v(4,1,3,2)] demo_spec_fields(1)
  obtain item where i: "vr_build_plan ''vllm_'' demo_spec demo_started =
      (Inr item, demo_started\<lparr>vr_claims := [demo_borrow_claim], vr_server_names := [server_name ''vllm_'' demo_started]\<rparr>)"
    "wp_pg_id item = pyget demo_borrow_claim ''pg_id''" by auto
  moreover have "wp_actor_name item = worker_name demo_started"
    using i(1) by (auto simp: vr_build_plan_def dest: plan_name split: sum.splits)
  moreover have "pyget demo_borrow_claim ''pg_id'' = PStr ''pg''" by (simp add: demo_borrow_claim_def pyget_def pyget_default_def)
  ultimately show ?thesis using that v(5,6) demo_names by metis
qed

definition demo_replies :: "nat \<Rightarrow> pyval" where
  "demo_replies n = (if n = 0 then PTuple [PStr ''h'', PInt 1] else PDict [(''node_id'', PStr ''n''), (''gpu_uuid'', PStr ''g'')])"

lemmas init_eval = vr_init_def vr_init_body_def vr_create_workers_def vr_start_worker_def vr_adopt_def vr_worker_failed_def
  vr_validate_workers_def vr_worker_placements_def vr_launch_def vr_validate_server_def vr_check_health_def

definition demo_begin :: "cluster vr_sys" where
  "demo_begin = \<lparr>vs_self = demo_replica, vs_ray = []\<rparr>"

lemma demo_create:
  "\<exists>e r'. rm_bring_up (demo_ray True) 7 demo_spec {''pg''} (run_of (quiet demo_replies) demo_begin) = (Inr (InitFailed 7 e True), r')"
proof -
  obtain item where p: "vr_build_plan ''vllm_'' demo_spec demo_started =
      (Inr item, demo_started\<lparr>vr_claims := [demo_borrow_claim], vr_server_names := [''vllm_server_1_0_s'']\<rparr>)"
    "wp_pg_id item = PStr ''pg''" "wp_actor_name item = ''borrowed_ce_1_s_r0''" by (rule demo_plan)
  have s: "demo_replica\<lparr>vr_standalone := True, vr_nnodes := 1, vr_gpus_per_node := vr_world demo_replica, vr_verified := False\<rparr> = demo_started"
    by (simp add: demo_started_def demo_replica_def)
  have located: "placement_check (demo_borrow_claim, [(''node_id'', PStr ''n''), (''gpu_uuid'', PStr ''g'')]) = Inr ()"
    by (simp add: placement_check_def located_def demo_borrow_claim_def pyindex_def pyget_def pyget_default_def)
  have f: "vr_kind demo_started = BORROWED" "vr_rank demo_started = 1" by (simp_all add: demo_started_def demo_replica_def)
  have "\<exists>e r'. vr_init (demo_ray True) demo_spec {''pg''} (run_of (quiet demo_replies) demo_begin) = (Inl e, r') \<and> vr_verified (vs_self (r_now r'))"
    using s located
    by (simp add: init_eval cleanup_eval run_eval demo_begin_def demo_replies_def p demo_ray_def f pyget_def pyget_default_def)
  then show ?thesis by (auto simp: rm_bring_up_def caught_def spec_conflict_def self_def look_def andthen_ret ret_def init_result_def)
qed

definition lent_manager :: rmgr where
  "lent_manager = (new_rmgr None)\<lparr>m_borrowed := [(''A'', \<lparr>b_spec = demo_spec, b_result = None, b_error = None, b_destroy = None\<rparr>)],
     m_state := [spec_key demo_spec \<mapsto> CREATING], m_kind := [spec_key demo_spec \<mapsto> BORROWED]\<rparr>"

lemma demo_manager_fields:
  "map_of (m_borrowed lent_manager) ''A'' = Some \<lparr>b_spec = demo_spec, b_result = None, b_error = None, b_destroy = None\<rparr>"
  "m_state lent_manager (spec_key demo_spec) = Some CREATING" "m_kind lent_manager (spec_key demo_spec) = Some BORROWED"
  by (simp_all add: lent_manager_def)

lemma demo_begin_fields: "vs_self (r_now (run_of t demo_begin)) = demo_replica" "vs_ray (r_now (run_of t demo_begin)) = []"
  "vr_kind demo_replica = BORROWED" "vr_worker_names demo_replica = []" "vr_server_names demo_replica = []" "vr_servers demo_replica = []"
  by (simp_all add: demo_begin_def run_of_def demo_replica_def)


text \<open>A creation that succeeds, and the destruction of its runtime.\<close>

definition demo_answers :: "nat \<Rightarrow> pyval" where
  "demo_answers n = (if n = 0 then PTuple [PStr ''h'', PInt 1]
     else PDict [(''node_id'', PStr ''n''), (''gpu_uuid'', PStr ''g''), (''replica_rank'', PInt 1), (''server_address'', PStr ''a''),
       (''server_port'', PInt 1)])"

definition demo_created :: vr where
  "demo_created = demo_started\<lparr>vr_claims := [demo_borrow_claim], vr_server_names := [''vllm_server_1_0_s''],
     vr_workers := [0], vr_worker_names := [''borrowed_ce_1_s_r0''], vr_servers := [1], vr_handle := Some 1, vr_address := ''a:1''\<rparr>"

definition demo_up :: cluster where
  "demo_up = [(0, ''borrowed_ce_1_s_r0'', ''ALIVE''), (1, ''vllm_server_1_0_s'', ''ALIVE'')]"

lemma demo_brought_up:
  "\<exists>rec r'. rm_bring_up (demo_ray True) 7 demo_spec {''pg''} (run_of (quiet demo_answers) demo_begin) =
       (Inr (init_result 7 (Inr rec) False), r')
     \<and> rr_rank rec = 1 \<and> rr_address rec = ''a:1'' \<and> r_now r' = \<lparr>vs_self = demo_created, vs_ray = demo_up\<rparr>"
proof -
  obtain item where p: "vr_build_plan ''vllm_'' demo_spec demo_started =
      (Inr item, demo_started\<lparr>vr_claims := [demo_borrow_claim], vr_server_names := [''vllm_server_1_0_s'']\<rparr>)"
    "wp_pg_id item = PStr ''pg''" "wp_actor_name item = ''borrowed_ce_1_s_r0''" by (rule demo_plan)
  have s: "demo_replica\<lparr>vr_standalone := True, vr_nnodes := 1, vr_gpus_per_node := vr_world demo_replica, vr_verified := False\<rparr> = demo_started"
    by (simp add: demo_started_def demo_replica_def)
  have located: "placement_check (demo_borrow_claim, [(''node_id'', PStr ''n''), (''gpu_uuid'', PStr ''g''), (''replica_rank'', PInt 1),
      (''server_address'', PStr ''a''), (''server_port'', PInt 1)]) = Inr ()"
    "pyindex demo_borrow_claim ''node_id'' = Inr (PStr ''n'')"
    by (simp_all add: placement_check_def located_def demo_borrow_claim_def pyindex_def pyget_def pyget_default_def)
  have f: "vr_kind demo_started = BORROWED" "vr_rank demo_started = 1" "vr_nnodes demo_started = 1"
    by (simp_all add: demo_started_def demo_replica_def)
  have "\<exists>rec r'. vr_init (demo_ray True) demo_spec {''pg''} (run_of (quiet demo_answers) demo_begin) = (Inr rec, r')
      \<and> rr_rank rec = 1 \<and> rr_address rec = ''a:1'' \<and> r_now r' = \<lparr>vs_self = demo_created, vs_ray = demo_up\<rparr>"
    using s located
    by (simp add: init_eval cleanup_eval run_eval demo_begin_def demo_answers_def p demo_ray_def f pyget_def pyget_default_def
        vr_health_placement_def demo_created_def demo_up_def)
  then show ?thesis
    by (auto simp: rm_bring_up_def caught_def spec_conflict_def demo_spec_fields ret_def)
qed

definition holding_manager :: rmgr where
  "holding_manager = (new_rmgr None)\<lparr>m_borrowed := [(''A'', \<lparr>b_spec = demo_spec, b_result = None, b_error = None, b_destroy = None\<rparr>)],
     m_state := [spec_key demo_spec \<mapsto> DRAINING], m_kind := [spec_key demo_spec \<mapsto> BORROWED], m_runtime := [spec_key demo_spec \<mapsto> 7]\<rparr>"

theorem rm_destroyed_means_dead_witness:
  "\<exists>out r1 r3 ev m'. rm_bring_up (demo_ray True) 7 demo_spec {''pg''} (run_of (quiet demo_answers) demo_begin) = (Inr out, r1)
     \<and> vr_cleanup (demo_ray True) (run_of (quiet demo_answers) (r_now r1)) = (Inr (), r3)
     \<and> rm_destroy_end 0 (spec_key demo_spec) ''op'' (Inr ()) holding_manager = (Inr ev, m')
     \<and> e_gpu_uuids ev = [''g''] \<and> \<not> actor_live ''vllm_server_1_0_s'' (vs_ray (r_now r3))"
proof -
  let ?r = "run_of (quiet demo_answers) demo_begin"
  obtain rec r1 where up: "rm_bring_up (demo_ray True) 7 demo_spec {''pg''} ?r = (Inr (init_result 7 (Inr rec) False), r1)"
    "rr_rank rec = 1" "rr_address rec = ''a:1''" "r_now r1 = \<lparr>vs_self = demo_created, vs_ray = demo_up\<rparr>" using demo_brought_up by blast
  let ?r2 = "run_of (quiet demo_answers) (r_now r1)"
  have ok: "create_failure (spec_rank demo_spec) (init_result 7 (Inr rec) False) = None"
    by (rule no_failure(1)) (simp add: spec_conflict_def demo_spec_fields up(2))
  have "\<exists>r3. vr_cleanup (demo_ray True) ?r2 = (Inr (), r3)"
    unfolding up(4) by (simp add: cleanup_eval run_eval demo_created_def demo_started_def demo_replica_def demo_up_def demo_ray_def)
  then obtain r3 where down: "vr_cleanup (demo_ray True) ?r2 = (Inr (), r3)" by blast
  have "\<exists>ev m'. rm_destroy_end 0 (spec_key demo_spec) ''op'' (Inr ()) holding_manager = (Inr ev, m')
      \<and> rm_borrowed_record (spec_key demo_spec) holding_manager
        = Inr (''A'', \<lparr>b_spec = demo_spec, b_result = None, b_error = None, b_destroy = None\<rparr>)"
    by (simp add: rm_destroy_end_def rm_borrowed_record_def holding_manager_def evidence_now_def mk_evidence_def demo_spec_fields
        demo_borrow_claim_def pyget_def pyget_default_def)
  then obtain ev m' where gone: "rm_destroy_end 0 (spec_key demo_spec) ''op'' (Inr ()) holding_manager = (Inr ev, m')"
    "rm_borrowed_record (spec_key demo_spec) holding_manager
      = Inr (''A'', \<lparr>b_spec = demo_spec, b_result = None, b_error = None, b_destroy = None\<rparr>)" by blast
  have N: "{''borrowed_ce_1_s_r0'', ''vllm_server_1_0_s''} = {worker_name demo_replica, server_name (ry_server_prefix (demo_ray True)) demo_replica}"
    using demo_names by (simp add: demo_ray_def)
  have none: "\<forall>n \<in> {''borrowed_ce_1_s_r0'', ''vllm_server_1_0_s''}. \<not> actor_live n (vs_ray (r_now ?r))" by (simp add: demo_begin_fields actor_live_def)
  have same: "vr_rely actor_live {''borrowed_ce_1_s_r0'', ''vllm_server_1_0_s''} (r_now r1) (r_now ?r2)"
    by (simp add: vr_rely_def run_of_def)
  from rm_destroyed_means_dead [OF demo_ray_ok N quiet_runtime demo_begin_fields(1,3-5) none up(1) ok quiet_runtime same down gone(1)] gone(2)
  have "none_alive actor_live {''borrowed_ce_1_s_r0'', ''vllm_server_1_0_s''} (r_now r3)" "e_gpu_uuids ev = [''g'']"
    by (auto simp: demo_spec_fields demo_borrow_claim_def pyget_def pyget_default_def)
  with up(1) down gone(1) show ?thesis by (auto simp: none_alive_def)
qed

text \<open>A cluster without resources: no actor is ever started or listed.\<close>

definition full_ray :: "cluster ray_ops" where
  "full_ray = (demo_ray False)\<lparr>ry_list := \<lambda>_ _ _. Inr []\<rparr>"

lemma full_create:
  "\<exists>e r'. rm_bring_up full_ray 7 demo_spec {''pg''} (run_of (quiet demo_replies) demo_begin) = (Inr (InitFailed 7 e False), r')"
proof -
  obtain item where p: "vr_build_plan ''vllm_'' demo_spec demo_started =
      (Inr item, demo_started\<lparr>vr_claims := [demo_borrow_claim], vr_server_names := [''vllm_server_1_0_s'']\<rparr>)"
    "wp_pg_id item = PStr ''pg''" "wp_actor_name item = ''borrowed_ce_1_s_r0''" by (rule demo_plan)
  have s: "demo_replica\<lparr>vr_standalone := True, vr_nnodes := 1, vr_gpus_per_node := vr_world demo_replica, vr_verified := False\<rparr> = demo_started"
    by (simp add: demo_started_def demo_replica_def)
  have f: "vr_kind demo_started = BORROWED" "vr_rank demo_started = 1" "vr_workers demo_started = []" "vr_worker_names demo_started = []"
    "vr_servers demo_started = []"
    by (simp_all add: demo_started_def demo_replica_def)
  show ?thesis
    using s by (simp add: rm_bring_up_def spec_conflict_def init_result_def init_eval cleanup_eval run_eval demo_begin_def
        demo_replies_def p full_ray_def demo_ray_def f)
qed

theorem rm_failed_worker_quarantined_witness:
  "\<exists>e r' y s'. rm_bring_up full_ray 7 demo_spec {''pg''} (run_of (quiet demo_replies) demo_begin) = (Inr (InitFailed 7 e False), r')
     \<and> rm_create_end ''A'' (InitFailed 7 e False) lent_manager = (y, s')
     \<and> m_state s' (spec_key demo_spec) = Some QUARANTINED"
proof -
  let ?r = "run_of (quiet demo_replies) demo_begin"
  obtain e r' where c: "rm_bring_up full_ray 7 demo_spec {''pg''} ?r = (Inr (InitFailed 7 e False), r')" using full_create by blast
  obtain y s' where m: "rm_create_end ''A'' (InitFailed 7 e False) lent_manager = (y, s')" by fastforce
  have never: "never_listed full_ray (server_name (ry_server_prefix full_ray) demo_replica)" by (simp add: never_listed_def full_ray_def)
  have fails: "\<forall>item a q w. \<not> is_ok (fst (ry_spawn full_ray item a q w))" by (simp add: full_ray_def demo_ray_def is_ok_def)
  have v: "vr_kind demo_replica = BORROWED" "vr_world demo_replica = 1"
    "int (vr_epoch demo_replica) = pyint_of (pyget demo_spec ''placement_epoch'')"
    by (simp_all add: demo_replica_def demo_spec_def demo_norm_fields)
  have plan: "is_ok (fst (vr_build_plan (ry_server_prefix full_ray) demo_spec demo_replica))"
    using vr_accepts_manager_spec [where p = "ry_server_prefix full_ray", OF demo_norm_valid demo_spec_def v(1,3,2)]
    by (auto simp: is_ok_def)
  from rm_failed_worker_quarantined [OF never fails quiet_runtime demo_begin_fields(1,3,6) plan c HOL.refl demo_manager_fields(1) _ _ m]
    demo_manager_fields
  show ?thesis using c m by auto
qed

text \<open>A native replica whose server puts its engine to sleep and says so.\<close>

definition lent_native :: vr where
  "lent_native = demo_replica\<lparr>vr_kind := NATIVE, vr_servers := [3]\<rparr>"

definition demo_receipt :: hs_receipt where
  "demo_receipt = \<lparr>hr_steps = PNone, hr_sleep_level = Some 2, hr_sleeping = True, hr_fully_awake = None\<rparr>"

theorem native_release_sleeps_witness:
  "\<exists>s' y r' ev m'. hs_sleep gpu_config bool_engine (Inr ()) (new_http False 80) = (Inr demo_receipt, s')
     \<and> vr_sleep (demo_ray True) (run_of (quiet (\<lambda>_. PDict (receipt_dict 1 0 demo_receipt))) \<lparr>vs_self = lent_native, vs_ray = []\<rparr>) = (y, r')
     \<and> rm_sleep_end 5 (ReplicaKey ''T'' ''r'' 1) ''op'' (Inr (PStr ''g'')) (map_res (\<lambda>_. ()) y) (new_rmgr None) = (Inr ev, m')
     \<and> hs_stage s' = Level2 \<and> e_gpu_uuids ev = [''g'']"
proof -
  let ?r = "run_of (quiet (\<lambda>_. PDict (receipt_dict 1 0 demo_receipt))) \<lparr>vs_self = lent_native, vs_ray = ([] :: cluster)\<rparr>"
  have ok: "engine_ok bool_engine (\<lambda>b. b)" by (simp add: engine_ok_def bool_engine_def)
  obtain s' where s: "hs_sleep gpu_config bool_engine (Inr ()) (new_http False 80) = (Inr demo_receipt, s')"
    by (simp add: hs_eval demo_receipt_def)
  have reply: "tk_reply (tick_of ?r) = map_res (\<lambda>rc. PDict (receipt_dict 1 0 rc)) (Inr demo_receipt)"
    by (simp add: run_of_def tick_of_def quiet_def)
  obtain y r' where v: "vr_sleep (demo_ray True) ?r = (y, r')" "is_ok y"
    by (simp add: vr_sleep_def run_eval lent_native_def demo_replica_def demo_ray_def vr_sleep_level_def sleep_confirmed_def
        receipt_dict_def demo_receipt_def pyget_def pyget_default_def is_ok_def)
  obtain ev m' where m: "rm_sleep_end 5 (ReplicaKey ''T'' ''r'' 1) ''op'' (Inr (PStr ''g'')) (map_res (\<lambda>_. ()) y) (new_rmgr None) = (Inr ev, m')"
    using v(2) by (auto simp: rm_sleep_end_def evidence_now_def mk_evidence_def is_ok_def split: sum.splits)
  from native_release_sleeps [OF ok s reply v(1) m] s v(1) m show ?thesis
    by (auto simp: vr_sleep_level_def demo_ray_def)
qed

end
