(* ===== verification/Parameter_Audit.thy ===== *)
theory Parameter_Audit
  imports Interfaces Checkpoint_Manager Replica
begin

text \<open>
  Model of \<open>checkpoint/checkpoint_engine_worker.py\<close> and \<open>checkpoint/hccl_checkpoint_engine.py\<close>: the
  manifests that a weight transfer leaves at the receiver and at the sender, and the release of the
  sender's communicator. Both ends wrap the native stream of named tensors in a generator that records
  each one before it passes it on; the transfer that pulls from it is native code, so the model is a
  machine whose events are the begin of a transfer, a pull of its stream, its closing and the end of
  the transfer, in any order and with several transfers under way. \<open>sha256\<close> is a parameter.
\<close>

section \<open>Tensors and manifests\<close>

text \<open>The bytes of a tensor are what copying it to the host yields, which may fail.\<close>

record tensor =
  ts_shape :: "nat list"
  ts_dtype :: string
  ts_bytes :: "string res"

type_synonym named = "string \<times> tensor"

definition tensor_numel :: "tensor \<Rightarrow> int" where
  "tensor_numel t = prod_list (map int (ts_shape t))"

definition tensor_sha256 :: "(string \<Rightarrow> string) \<Rightarrow> tensor \<Rightarrow> string res" where
  "tensor_sha256 sha t = map_res sha (ts_bytes t)"

record manifest =
  mf_complete :: bool
  mf_steps :: pyval
  mf_wire :: pyval
  mf_params :: "param list"
  mf_count :: int
  mf_total :: int

definition blank_manifest :: "pyval \<Rightarrow> pyval \<Rightarrow> manifest" where
  "blank_manifest steps wire =
     \<lparr>mf_complete = False, mf_steps = steps, mf_wire = wire, mf_params = [], mf_count = 0, mf_total = 0\<rparr>"

definition param_of :: "string \<Rightarrow> tensor \<Rightarrow> string \<Rightarrow> param" where
  "param_of name t h = (name, map int (ts_shape t), ts_dtype t, tensor_numel t, h)"

definition record_param :: "string \<Rightarrow> tensor \<Rightarrow> string \<Rightarrow> manifest \<Rightarrow> manifest" where
  "record_param name t h m =
     m\<lparr>mf_params := mf_params m @ [param_of name t h], mf_count := mf_count m + 1,
       mf_total := mf_total m + tensor_numel t\<rparr>"

text \<open>The dictionaries the manager reads.\<close>

fun param_dict :: "param \<Rightarrow> pydict" where
  "param_dict (name, shape, dtype, n, h) =
     [(''name'', PStr name), (''shape'', PList (map PInt shape)), (''dtype'', PStr dtype), (''numel'', PInt n), (''sha256'', PStr h)]"

definition manifest_dict :: "manifest \<Rightarrow> pydict" where
  "manifest_dict m =
     [(''complete'', PBool (mf_complete m)), (''global_steps'', mf_steps m), (''wire_format'', mf_wire m),
      (''parameters'', PList (map (PDict \<circ> param_dict) (mf_params m))), (''parameter_count'', PInt (mf_count m)),
      (''total_numel'', PInt (mf_total m))]"

section \<open>The audited stream\<close>

text \<open>What a native stream yields before it ends, and the exception it ends with, if any.\<close>

type_synonym feed = "named list \<times> exn option"

record pull_attempt =
  at_manifest :: manifest
  at_fed :: "named list"
  at_end :: "exn option"
  at_pos :: nat
  at_open :: bool
  at_consumed :: bool
  at_running :: bool

definition new_attempt :: "pyval \<Rightarrow> pyval \<Rightarrow> feed \<Rightarrow> bool \<Rightarrow> pull_attempt" where
  "new_attempt steps wire feed runs =
     \<lparr>at_manifest = blank_manifest steps wire, at_fed = fst feed, at_end = snd feed, at_pos = 0,
      at_open = runs, at_consumed = False, at_running = runs\<rparr>"

text \<open>One \<open>__anext__\<close> of \<open>audited_weights()\<close>: \<open>None\<close> is the end of the iteration.\<close>

definition audit_pull :: "(string \<Rightarrow> string) \<Rightarrow> pull_attempt \<Rightarrow> named option res \<times> pull_attempt" where
  "audit_pull sha a =
     (if \<not> at_open a then (Inr None, a)
      else if at_pos a < length (at_fed a)
      then (case at_fed a ! at_pos a of
              (name, t) \<Rightarrow>
                (case tensor_sha256 sha t of
                   Inl e \<Rightarrow> (Inl e, a\<lparr>at_open := False\<rparr>)
                 | Inr h \<Rightarrow> (Inr (Some (name, t)),
                     a\<lparr>at_pos := Suc (at_pos a), at_manifest := record_param name t h (at_manifest a)\<rparr>)))
      else (case at_end a of
              Some e \<Rightarrow> (Inl e, a\<lparr>at_open := False\<rparr>)
            | None \<Rightarrow> (Inr None, a\<lparr>at_open := False, at_consumed := True\<rparr>)))"

text \<open>The native transfer ended with \<open>r\<close>.\<close>

definition audit_finish :: "'r res \<Rightarrow> pull_attempt \<Rightarrow> 'r res \<times> pull_attempt" where
  "audit_finish r a =
     (let stop = a\<lparr>at_running := False\<rparr> in
      case r of
        Inl e \<Rightarrow> (Inl e, stop)
      | Inr v \<Rightarrow>
          if \<not> at_consumed a \<or> mf_params (at_manifest a) = [] 
          then (Inl (RuntimeError ''manifest requires a fully consumed nonempty weight stream''), stop)
          else (Inr v, stop\<lparr>at_manifest := (at_manifest a)\<lparr>mf_complete := True\<rparr>\<rparr>))"

section \<open>Receiver and sender\<close>

text \<open>
  Every transfer has a manifest object of its own; \<open>au_last\<close> is the one the attribute of the actor
  refers to, which a transfer sets before its first await. The native transfer of a disabled audit
  does not touch it.
\<close>

record audit =
  au_enabled :: bool
  au_initial :: manifest
  au_attempts :: "pull_attempt list"
  au_last :: "nat option"

definition new_receiver :: "string option \<Rightarrow> string option \<Rightarrow> audit" where
  "new_receiver parameter_validation source_validation =
     \<lparr>au_enabled = (parameter_validation = Some ''1'' \<or> source_validation = Some ''1''),
      au_initial = blank_manifest PNone PNone, au_attempts = [], au_last = None\<rparr>"

definition new_sender :: "string option \<Rightarrow> audit" where
  "new_sender source_validation =
     \<lparr>au_enabled = (source_validation = Some ''1''), au_initial = blank_manifest PNone (PStr ''named_tensors''),
      au_attempts = [], au_last = None\<rparr>"

definition audit_publish :: "pull_attempt \<Rightarrow> audit \<Rightarrow> audit" where
  "audit_publish a s = s\<lparr>au_attempts := au_attempts s @ [a], au_last := Some (length (au_attempts s))\<rparr>"

definition audit_manifest :: "audit \<Rightarrow> manifest" where
  "audit_manifest s = (case au_last s of None \<Rightarrow> au_initial s | Some i \<Rightarrow> at_manifest (au_attempts s ! i))"

definition receive_begin :: "pyval \<Rightarrow> string \<Rightarrow> feed res \<Rightarrow> audit \<Rightarrow> unit res \<times> audit" where
  "receive_begin steps wire received s =
     (if \<not> au_enabled s then (Inr (), s)
      else if wire \<noteq> ''named_tensors''
      then (Inl (NotImplementedError ''per-parameter validation currently requires named_tensors''),
            audit_publish (new_attempt steps (PStr wire) ([], None) False) s)
      else (case received of
              Inl e \<Rightarrow> (Inl e, audit_publish (new_attempt steps (PStr wire) ([], None) False) s)
            | Inr feed \<Rightarrow> (Inr (), audit_publish (new_attempt steps (PStr wire) feed True) s)))"

text \<open>A rank other than 0 only sends, with a manifest that stays blank.\<close>

definition send_begin :: "int option \<Rightarrow> pyval \<Rightarrow> feed \<Rightarrow> audit \<Rightarrow> audit" where
  "send_begin rank steps feed s =
     (if \<not> au_enabled s then s
      else if rank \<noteq> Some 0 then audit_publish (new_attempt steps (PStr ''named_tensors'') ([], None) False) s
      else audit_publish (new_attempt steps (PStr ''named_tensors'') feed True) s)"

definition on_attempt :: "nat \<Rightarrow> (pull_attempt \<Rightarrow> pull_attempt) \<Rightarrow> audit \<Rightarrow> audit" where
  "on_attempt i f s =
     (if i < length (au_attempts s) then s\<lparr>au_attempts := (au_attempts s)[i := f (au_attempts s ! i)]\<rparr> else s)"

datatype audit_event =
    Receive pyval string "feed res"
  | Send "int option" pyval feed
  | Pull nat
  | CloseStream nat
  | Finish nat "unit res"

fun audit_step :: "(string \<Rightarrow> string) \<Rightarrow> audit_event \<Rightarrow> audit \<Rightarrow> audit" where
  "audit_step sha (Receive steps wire received) s = snd (receive_begin steps wire received s)"
| "audit_step sha (Send rank steps feed) s = send_begin rank steps feed s"
| "audit_step sha (Pull i) s = on_attempt i (\<lambda>a. snd (audit_pull sha a)) s"
| "audit_step sha (CloseStream i) s = on_attempt i (\<lambda>a. a\<lparr>at_open := False\<rparr>) s"
| "audit_step sha (Finish i r) s =
     on_attempt i (\<lambda>a. if at_running a then snd (audit_finish r a) else a) s"

section \<open>What a manifest proves\<close>

definition describes :: "(string \<Rightarrow> string) \<Rightarrow> named \<Rightarrow> param \<Rightarrow> bool" where
  "describes sha x p \<longleftrightarrow> (\<exists>h. tensor_sha256 sha (snd x) = Inr h \<and> p = param_of (fst x) (snd x) h)"

definition attempt_ok :: "(string \<Rightarrow> string) \<Rightarrow> pull_attempt \<Rightarrow> bool" where
  "attempt_ok sha a \<longleftrightarrow>
     (let m = at_manifest a; got = take (at_pos a) (at_fed a) in
      at_pos a \<le> length (at_fed a) \<and> list_all2 (describes sha) got (mf_params m)
      \<and> mf_count m = int (at_pos a) \<and> mf_total m = sum_list (map (tensor_numel \<circ> snd) got)
      \<and> (at_consumed a \<longrightarrow> at_pos a = length (at_fed a) \<and> at_end a = None \<and> \<not> at_open a)
      \<and> (mf_complete m \<longrightarrow> at_consumed a \<and> mf_params m \<noteq> [] \<and> \<not> at_running a))"

definition audit_ok :: "(string \<Rightarrow> string) \<Rightarrow> audit \<Rightarrow> bool" where
  "audit_ok sha s \<longleftrightarrow> list_all (attempt_ok sha) (au_attempts s) \<and> \<not> mf_complete (au_initial s)
     \<and> au_last s = (if au_attempts s = [] then None else Some (length (au_attempts s) - 1))"

lemma new_attempt_ok: "attempt_ok sha (new_attempt steps wire feed runs)"
  by (simp add: attempt_ok_def new_attempt_def blank_manifest_def)

lemma pull_ok:
  assumes "attempt_ok sha a"
  shows "attempt_ok sha (snd (audit_pull sha a))"
proof (cases "at_open a \<and> at_pos a < length (at_fed a)")
  case True
  obtain name t where x: "at_fed a ! at_pos a = (name, t)" by fastforce
  show ?thesis
  proof (cases "tensor_sha256 sha t")
    case (Inl e)
    with assms True x show ?thesis by (auto simp: audit_pull_def attempt_ok_def Let_def)
  next
    case (Inr h)
    have "describes sha (name, t) (param_of name t h)" using Inr by (simp add: describes_def)
    with assms True x Inr show ?thesis
      by (auto simp: audit_pull_def attempt_ok_def Let_def record_param_def take_Suc_conv_app_nth intro!: list_all2_appendI)
  qed
next
  case False
  with assms show ?thesis by (auto simp: audit_pull_def attempt_ok_def Let_def split: option.split)
qed

lemma finish_ok: "attempt_ok sha a \<Longrightarrow> attempt_ok sha (snd (audit_finish r a))"
  by (auto simp: audit_finish_def attempt_ok_def Let_def split: sum.split)

lemma publish_ok: "audit_ok sha s \<Longrightarrow> attempt_ok sha a \<Longrightarrow> audit_ok sha (audit_publish a s)"
  by (auto simp: audit_ok_def audit_publish_def)

lemma on_attempt_ok:
  "audit_ok sha s \<Longrightarrow> (\<And>a. attempt_ok sha a \<Longrightarrow> attempt_ok sha (f a)) \<Longrightarrow> audit_ok sha (on_attempt i f s)"
  by (auto simp: audit_ok_def on_attempt_def list_all_length nth_list_update)

lemma audit_step_ok: "audit_ok sha s \<Longrightarrow> audit_ok sha (audit_step sha e s)"
proof (cases e)
  case (Pull i)
  then show "audit_ok sha s \<Longrightarrow> ?thesis" by (auto intro!: on_attempt_ok pull_ok)
next
  case (CloseStream i)
  then show "audit_ok sha s \<Longrightarrow> ?thesis" by (auto intro!: on_attempt_ok simp: attempt_ok_def Let_def)
next
  case (Finish i r)
  then show "audit_ok sha s \<Longrightarrow> ?thesis" by (auto intro!: on_attempt_ok finish_ok)
qed (auto simp: receive_begin_def send_begin_def intro!: publish_ok new_attempt_ok split: sum.split)

interpretation au: invariant_machine "audit_ok sha" "audit_step sha" for sha
  by unfold_locales (rule audit_step_ok)

text \<open>The audits of a running actor.\<close>

definition audited :: "(string \<Rightarrow> string) \<Rightarrow> audit \<Rightarrow> bool" where
  "audited sha s \<longleftrightarrow> (\<exists>es s0. (s0 \<in> range (case_prod new_receiver) \<or> s0 \<in> range new_sender) \<and> s = fold (audit_step sha) es s0)"

lemma new_audit_ok: "audit_ok sha (new_receiver p q)" "audit_ok sha (new_sender q)"
  by (simp_all add: new_receiver_def new_sender_def audit_ok_def blank_manifest_def)

lemma audited_ok: "audited sha s \<Longrightarrow> audit_ok sha s"
  by (auto simp: audited_def intro!: au.run_inv new_audit_ok)

definition last_attempt :: "audit \<Rightarrow> pull_attempt" where
  "last_attempt s = last (au_attempts s)"

lemma audit_manifest_last:
  assumes "audit_ok sha s" and "mf_complete (audit_manifest s)"
  shows "au_attempts s \<noteq> []" and "audit_manifest s = at_manifest (last_attempt s)" and "attempt_ok sha (last_attempt s)"
proof -
  show n: "au_attempts s \<noteq> []" using assms by (auto simp: audit_ok_def audit_manifest_def)
  then show "audit_manifest s = at_manifest (last_attempt s)"
    using assms(1) by (simp add: audit_ok_def audit_manifest_def last_attempt_def last_conv_nth)
  show "attempt_ok sha (last_attempt s)" using assms(1) n by (simp add: audit_ok_def last_attempt_def list_all_iff)
qed

text \<open>
  C22: A manifest is shown as complete only for the transfer begun last, once that transfer has
  returned: its stream ended normally, was not empty and was handed over to the end, and the manifest
  lists exactly its tensors, in their order, whatever other transfers are cut off or end late.
\<close>

theorem audit_complete_is_whole_stream:
  assumes "audited sha s" and "mf_complete (audit_manifest s)"
  shows "let a = last_attempt s; m = audit_manifest s in
     au_attempts s \<noteq> [] \<and> m = at_manifest a \<and> \<not> at_running a \<and> at_end a = None \<and> at_fed a \<noteq> []
     \<and> list_all2 (describes sha) (at_fed a) (mf_params m)
     \<and> mf_count m = int (length (at_fed a)) \<and> mf_total m = sum_list (map (tensor_numel \<circ> snd) (at_fed a))"
  using audit_manifest_last [OF audited_ok [OF assms(1)] assms(2)] assms(2)
  by (auto simp: attempt_ok_def Let_def)

section \<open>Validation of audited transfers\<close>

definition param_ok :: "param \<Rightarrow> bool" where
  "param_ok p \<longleftrightarrow> list_all (\<lambda>k. 0 \<le> k) (fst (snd p)) \<and> fst (snd (snd (snd p))) = prod_list (fst (snd p))"

definition named_entry :: "param \<Rightarrow> bool" where
  "named_entry p \<longleftrightarrow> fst p \<noteq> [] \<and> fst (snd (snd p)) \<noteq> [] \<and> snd (snd (snd (snd p))) \<noteq> []"

lemma manifest_dict_get:
  "pyget (manifest_dict m) ''complete'' = PBool (mf_complete m)" "pyget (manifest_dict m) ''global_steps'' = mf_steps m"
  "pyget (manifest_dict m) ''parameters'' = PList (map (PDict \<circ> param_dict) (mf_params m))"
  "pyget (manifest_dict m) ''parameter_count'' = PInt (mf_count m)" "pyget (manifest_dict m) ''total_numel'' = PInt (mf_total m)"
  by (simp_all add: manifest_dict_def pyget_def pyget_default_def)

lemma shape_ints_list: "list_all (\<lambda>k. 0 \<le> k) ks \<Longrightarrow> shape_ints (PList (map PInt ks)) = Some ks"
  by (simp add: shape_ints_def list_all_iff comp_def)

lemma prod_list_nonneg: "list_all (\<lambda>k. (0::int) \<le> k) ks \<Longrightarrow> 0 \<le> prod_list ks"
  by (induction ks) auto

lemma param_dict_get:
  assumes "param_ok p"
  shows "pyget (param_dict p) ''name'' = PStr (fst p)" "shape_ints (pyget (param_dict p) ''shape'') = Some (fst (snd p))"
    "pyget (param_dict p) ''dtype'' = PStr (fst (snd (snd p)))" "pyget (param_dict p) ''numel'' = PInt (fst (snd (snd (snd p))))"
    "pyget (param_dict p) ''sha256'' = PStr (snd (snd (snd (snd p))))" "is_nonneg_int (pyget (param_dict p) ''numel'')"
  using assms by (cases p; simp add: pyget_def pyget_default_def param_ok_def shape_ints_list prod_list_nonneg)+

lemma entry_name_param [simp]: "entry_name (param_dict p) = fst p"
  by (cases p) (simp add: entry_name_def pyget_def pyget_default_def)

declare param_dict.simps [simp del]

lemma canonical_param: "param_ok p \<Longrightarrow> canonical_entry (param_dict p) = p"
  by (simp add: canonical_entry_def param_dict_get)

lemma entry_failure_param:
  assumes "param_ok p"
  shows "entry_failure names (param_dict p) = None \<longleftrightarrow> named_entry p \<and> fst p \<notin> set names"
proof -
  have n: "fst (snd (snd (snd p))) = prod_list (fst (snd p))" "0 \<le> prod_list (fst (snd p))"
    using assms by (simp_all add: param_ok_def prod_list_nonneg)
  show ?thesis by (auto simp: entry_failure_def param_dict_get [OF assms] named_entry_def n)
qed

lemma validate_params:
  assumes "list_all param_ok ps"
  shows "validate_entries names tot (map (PDict \<circ> param_dict) ps) = Inr t \<longleftrightarrow>
    list_all named_entry ps \<and> distinct (map fst ps) \<and> set names \<inter> set (map fst ps) = {}
    \<and> t = tot + sum_list (map (\<lambda>p. fst (snd (snd (snd p)))) ps)"
  using assms
proof (induction ps arbitrary: names tot)
  case (Cons p ps)
  then have p: "param_ok p" and ps: "list_all param_ok ps" by simp_all
  show ?case
  proof (cases "entry_failure names (param_dict p)")
    case None
    with Cons.IH [OF ps] show ?thesis
      using None entry_failure_param [OF p, of names] by (auto simp: param_dict_get [OF p])
  next
    case (Some e)
    with entry_failure_param [OF p, of names] show ?thesis by auto
  qed
qed auto

lemma entries_of_manifest: "manifest_entries (manifest_dict m) = map param_dict (mf_params m)"
  using map_filter_PDict [of "map param_dict (mf_params m)"] by (simp add: manifest_entries_def manifest_dict_get)

lemma described_params: "list_all2 (describes sha) xs ps \<Longrightarrow> list_all param_ok ps"
  by (induction rule: list_all2_induct)
    (auto simp: describes_def param_of_def param_ok_def tensor_numel_def list_all_iff)

text \<open>What a stream whose tensors can all be read records of each of them.\<close>

definition param_at :: "(string \<Rightarrow> string) \<Rightarrow> named \<Rightarrow> param" where
  "param_at sha x = param_of (fst x) (snd x) (case tensor_sha256 sha (snd x) of Inr h \<Rightarrow> h | Inl _ \<Rightarrow> [])"

definition readable :: "named \<Rightarrow> bool" where
  "readable x \<longleftrightarrow> is_ok (ts_bytes (snd x))"

lemma describes_iff: "describes sha x p \<longleftrightarrow> readable x \<and> p = param_at sha x"
  by (cases "ts_bytes (snd x)") (auto simp: describes_def readable_def param_at_def tensor_sha256_def is_ok_def)

lemma described_iff: "list_all2 (describes sha) xs ps \<longleftrightarrow> list_all readable xs \<and> ps = map (param_at sha) xs"
  by (auto simp: list_all2_conv_all_nth describes_iff list_all_length intro!: nth_equalityI)

text \<open>The conditions on a transfer: a stream with unique names, delivered to its end at version \<open>v\<close>.\<close>

definition well_named :: "named list \<Rightarrow> bool" where
  "well_named xs \<longleftrightarrow> distinct (map fst xs) \<and> list_all (\<lambda>(name, t). name \<noteq> [] \<and> ts_dtype t \<noteq> []) xs"

definition delivered :: "int \<Rightarrow> audit \<Rightarrow> bool" where
  "delivered v s \<longleftrightarrow> mf_complete (audit_manifest s) \<and> py_eq (mf_steps (audit_manifest s)) (PInt v)
     \<and> well_named (at_fed (last_attempt s))"

lemma param_at_name [simp]: "fst (param_at sha x) = fst x" "fst \<circ> param_at sha = fst"
  by (simp_all add: param_at_def param_of_def fun_eq_iff)

lemma named_params:
  assumes "\<forall>b. sha b \<noteq> []" and "list_all readable xs"
  shows "list_all named_entry (map (param_at sha) xs) \<and> distinct (map fst (map (param_at sha) xs)) \<longleftrightarrow> well_named xs"
proof -
  have "named_entry (param_at sha x) \<longleftrightarrow> fst x \<noteq> [] \<and> ts_dtype (snd x) \<noteq> []" if "readable x" for x
    using that assms(1) by (auto simp: named_entry_def param_at_def param_of_def tensor_sha256_def readable_def is_ok_def split: sum.splits)
  then have "list_all named_entry (map (param_at sha) xs) \<longleftrightarrow> list_all (\<lambda>(name, t). name \<noteq> [] \<and> ts_dtype t \<noteq> []) xs"
    using assms(2) by (simp add: list_all_iff split_beta)
  then show ?thesis by (auto simp: well_named_def)
qed

lemma total_params: "sum_list (map (\<lambda>p. fst (snd (snd (snd p)))) (map (param_at sha) xs)) = sum_list (map (tensor_numel \<circ> snd) xs)"
  by (simp add: param_at_def param_of_def comp_def)

lemma valid_iff:
  assumes "audit_ok sha s" and "\<forall>b. sha b \<noteq> []"
  shows "ce_validate_manifest (PDict (manifest_dict (audit_manifest s))) = Inr m \<longleftrightarrow>
     m = manifest_dict (audit_manifest s) \<and> mf_complete (audit_manifest s) \<and> well_named (at_fed (last_attempt s))"
proof (cases "mf_complete (audit_manifest s)")
  case True
  let ?a = "last_attempt s"
  note l = audit_manifest_last [OF assms(1) True]
  have f: "list_all readable (at_fed ?a)" "mf_params (at_manifest ?a) = map (param_at sha) (at_fed ?a)" "at_fed ?a \<noteq> []"
    "mf_count (at_manifest ?a) = int (length (at_fed ?a))" "mf_total (at_manifest ?a) = sum_list (map (tensor_numel \<circ> snd) (at_fed ?a))"
    using l True by (auto simp: attempt_ok_def Let_def described_iff)
  then have "list_all2 (describes sha) (at_fed ?a) (mf_params (at_manifest ?a))" by (simp add: described_iff)
  from validate_params [OF described_params [OF this], of "[]" 0] f named_params [OF assms(2) f(1)] total_params [of sha "at_fed ?a"]
  show ?thesis using True
    by (auto simp: ce_validate_manifest_def manifest_dict_get l(2) split: sum.splits)
next
  case False
  then show ?thesis by (simp add: ce_validate_manifest_def manifest_dict_get)
qed

text \<open>Two manifests with the same entries, each under a name of its own.\<close>

lemma lookup_distinct:
  assumes "distinct (map fst (mf_params m))"
  shows "lookup_entry n (manifest_dict m) = Some d \<longleftrightarrow> (\<exists>p \<in> set (mf_params m). d = param_dict p \<and> n = fst p)"
proof -
  let ?al = "rev (map (\<lambda>e. (entry_name e, e)) (map param_dict (mf_params m)))"
  have keys: "map fst ?al = rev (map fst (mf_params m))" by (simp add: rev_map comp_def)
  have "distinct (map fst ?al)" unfolding keys using assms by simp
  then show ?thesis by (auto simp: lookup_entry_def entries_of_manifest image_iff)
qed

lemma no_difference [simp]: "\<not> entry_differs (param_dict p) (param_dict p)"
  by (cases p) (auto simp: param_dict.simps entry_differs_def pyget_def pyget_default_def py_wfs_iff intro!: py_eq_refl)

lemma collect_nothing:
  assumes "\<forall>n \<in> set names. \<exists>x y. lookup_entry n e = Some x \<and> lookup_entry n a = Some y \<and> \<not> entry_differs x y"
  shows "collect_mismatches 8 [] e a names = []"
  using assms by (induction names) auto

lemma same_entries_match:
  assumes "mset (mf_params m) = mset (mf_params k)" and "distinct (map fst (mf_params k))"
  shows "ce_manifest_mismatches (manifest_dict k) (manifest_dict m) = []"
proof -
  have s: "set (mf_params m) = set (mf_params k)" using assms(1) by (rule mset_eq_setD)
  have "distinct (map fst (mf_params m))"
    using assms(1,2) by (metis mset_eq_imp_distinct_iff mset_map)
  note l = lookup_distinct [OF this] lookup_distinct [OF assms(2)]
  have "\<exists>x y. lookup_entry n (manifest_dict k) = Some x \<and> lookup_entry n (manifest_dict m) = Some y \<and> \<not> entry_differs x y"
    if "n \<in> entry_name ` set (manifest_entries (manifest_dict k)) \<union> entry_name ` set (manifest_entries (manifest_dict m))" for n
  proof -
    from that s obtain p where p: "p \<in> set (mf_params k)" "n = fst p" by (auto simp: entries_of_manifest)
    then show ?thesis using s by (intro exI [of _ "param_dict p"]) (auto simp: l)
  qed
  then show ?thesis unfolding ce_manifest_mismatches_def by (intro collect_nothing) simp
qed

lemma same_entry:
  assumes "p \<in> set (mf_params a)" and "distinct (map fst (mf_params a))" and "distinct (map fst (mf_params b))"
    and "list_all param_ok (mf_params a)" and "list_all param_ok (mf_params b)"
    and "map_option canonical_entry (lookup_entry (fst p) (manifest_dict b)) = map_option canonical_entry (lookup_entry (fst p) (manifest_dict a))"
  shows "p \<in> set (mf_params b)"
proof -
  have "lookup_entry (fst p) (manifest_dict a) = Some (param_dict p)" using assms(1) by (auto simp: lookup_distinct [OF assms(2)])
  then obtain y where y: "lookup_entry (fst p) (manifest_dict b) = Some y" "canonical_entry y = canonical_entry (param_dict p)"
    using assms(6) by auto
  then obtain q where q: "q \<in> set (mf_params b)" "y = param_dict q" using lookup_distinct [OF assms(3)] by auto
  have "param_ok p" "param_ok q" using assms(1,4,5) q(1) by (simp_all add: list_all_iff)
  then show ?thesis using y(2) q canonical_param by metis
qed

lemma matching_entries:
  assumes "ce_manifest_mismatches (manifest_dict k) (manifest_dict m) = []"
    and "wf_manifest (manifest_dict k)" and "wf_manifest (manifest_dict m)"
    and "list_all param_ok (mf_params k)" and "list_all param_ok (mf_params m)"
  shows "mset (mf_params m) = mset (mf_params k)"
proof -
  have d: "distinct (map fst (mf_params k))" "distinct (map fst (mf_params m))"
    using assms(2,3) by (simp_all add: wf_manifest_def entries_of_manifest comp_def)
  have same: "map_option canonical_entry (lookup_entry n (manifest_dict m)) = map_option canonical_entry (lookup_entry n (manifest_dict k))" for n
    by (rule no_mismatch_same [OF assms(2,3,1)])
  from same_entry [OF _ d(1,2) assms(4,5) same] same_entry [OF _ d(2,1) assms(5,4) same [symmetric]]
  have "set (mf_params m) = set (mf_params k)" by blast
  moreover have "distinct (mf_params k)" "distinct (mf_params m)" using d by (simp_all add: distinct_map)
  ultimately show ?thesis by (simp add: set_eq_iff_mset_eq_distinct)
qed

lemma same_digest:
  assumes "mset xs = mset ys" and "distinct (map fst ys)"
  shows "sort_key fst xs = sort_key fst ys"
proof (rule map_sorted_distinct_set_unique)
  have "distinct (map fst xs)" using assms by (metis mset_eq_imp_distinct_iff mset_map)
  then show "distinct (map fst (sort_key fst xs))" "distinct (map fst (sort_key fst ys))"
    using assms(2) by (simp_all add: distinct_map)
  show "set (sort_key fst xs) = set (sort_key fst ys)" using mset_eq_setD [OF assms(1)] by simp
  then show "inj_on fst (set (sort_key fst xs) \<union> set (sort_key fst ys))" using assms(2) by (simp add: distinct_map)
qed simp_all

text \<open>The digests that the streams of some actors show.\<close>

definition stream_bytes :: "audit set \<Rightarrow> string set" where
  "stream_bytes S = {b. \<exists>s \<in> S. \<exists>x \<in> set (at_fed (last_attempt s)). ts_bytes (snd x) = Inr b}"

lemma param_at_inject:
  assumes "param_at sha x = param_at sha y" and "readable x" and "readable y"
    and "inj_on sha B" and "\<And>z b. z \<in> {x, y} \<Longrightarrow> ts_bytes (snd z) = Inr b \<Longrightarrow> b \<in> B"
  shows "x = y"
proof -
  from assms(2,3) obtain b c where b: "ts_bytes (snd x) = Inr b" "ts_bytes (snd y) = Inr c"
    by (auto simp: readable_def is_ok_def split: sum.splits)
  with assms(1) have "sha b = sha c" "fst x = fst y" "map int (ts_shape (snd x)) = map int (ts_shape (snd y))"
    "ts_dtype (snd x) = ts_dtype (snd y)"
    by (simp_all add: param_at_def param_of_def tensor_sha256_def)
  moreover have "b = c"
  proof (rule inj_onD [OF assms(4)])
    show "sha b = sha c" by fact
    show "b \<in> B" "c \<in> B" using assms(5) [of x b] assms(5) [of y c] b by simp_all
  qed
  moreover have "ts_shape (snd x) = ts_shape (snd y)" using calculation(3) by (simp add: inj_map_eq_map)
  ultimately show ?thesis using b by (intro prod_eqI) (auto intro: tensor.equality)
qed

lemma delivered_params:
  assumes "audit_ok sha s" and "delivered v s"
  shows "mf_params (audit_manifest s) = map (param_at sha) (at_fed (last_attempt s))" "list_all readable (at_fed (last_attempt s))"
    "list_all param_ok (mf_params (audit_manifest s))" "distinct (map fst (mf_params (audit_manifest s)))"
proof -
  from assms(2) have c: "mf_complete (audit_manifest s)" "well_named (at_fed (last_attempt s))" by (simp_all add: delivered_def)
  note l = audit_manifest_last [OF assms(1) c(1)]
  have d: "list_all2 (describes sha) (at_fed (last_attempt s)) (mf_params (audit_manifest s))"
    using l c(1) by (auto simp: attempt_ok_def Let_def)
  then show p: "mf_params (audit_manifest s) = map (param_at sha) (at_fed (last_attempt s))" "list_all readable (at_fed (last_attempt s))"
    by (simp_all add: described_iff)
  show "list_all param_ok (mf_params (audit_manifest s))" by (rule described_params [OF d])
  show "distinct (map fst (mf_params (audit_manifest s)))" unfolding p using c(2) by (simp add: well_named_def)
qed

lemma same_stream:
  assumes "audit_ok sha s" and "audit_ok sha src" and "delivered v s" and "delivered v src" and "inj_on sha (stream_bytes {s, src})"
  shows "mset (mf_params (audit_manifest s)) = mset (mf_params (audit_manifest src)) \<longleftrightarrow>
    mset (at_fed (last_attempt s)) = mset (at_fed (last_attempt src))"
proof -
  note p = delivered_params [OF assms(1,3)] and q = delivered_params [OF assms(2,4)]
  have "inj_on (param_at sha) (set (at_fed (last_attempt s)) \<union> set (at_fed (last_attempt src)))"
    using p(2) q(2) assms(5) by (intro inj_onI, elim param_at_inject) (auto simp: list_all_iff stream_bytes_def)
  then have "param_at sha ` set (at_fed (last_attempt s)) = param_at sha ` set (at_fed (last_attempt src)) \<longleftrightarrow>
      set (at_fed (last_attempt s)) = set (at_fed (last_attempt src))"
    by (rule inj_on_image_eq_iff) auto
  moreover have "distinct (at_fed (last_attempt s))" "distinct (at_fed (last_attempt src))"
    using assms(3,4) by (simp_all add: delivered_def well_named_def distinct_map)
  moreover have "distinct (mf_params (audit_manifest s))" "distinct (mf_params (audit_manifest src))"
    using p(4) q(4) by (simp_all add: distinct_map)
  ultimately show ?thesis
    using set_eq_iff_mset_eq_distinct [of "mf_params (audit_manifest s)" "mf_params (audit_manifest src)"]
      set_eq_iff_mset_eq_distinct [of "at_fed (last_attempt s)" "at_fed (last_attempt src)"]
    by (simp only: p(1) q(1) set_map)
qed

text \<open>
  The validation of a weight transfer against the sender's manifest succeeds exactly when every
  receiver and the sender completed a transfer of the expected version and every receiver's stream
  carried the tensors of the sender's stream, no more and no fewer: same names, shapes, types and bytes.
\<close>

theorem audited_validation_iff:
  assumes "audited sha src" and "\<forall>s \<in> set ss. audited sha s"
    and "0 \<notin> set workers" and "workers \<noteq> []" and "length ss = sum_list workers"
    and "inj_on sha (stream_bytes (set (src # ss)))" and "\<forall>b. sha b \<noteq> []"
  shows "(\<exists>r. ce_validate_sync hash workers (Some v) (Some (PDict (manifest_dict (audit_manifest src))))
       (map (\<lambda>s. PDict (manifest_dict (audit_manifest s))) ss) = Inr r) \<longleftrightarrow>
     (\<forall>s \<in> set (src # ss). delivered v s)
     \<and> (\<forall>s \<in> set ss. mset (at_fed (last_attempt s)) = mset (at_fed (last_attempt src)))"
proof -
  have ok: "audit_ok sha s" if "s \<in> set (src # ss)" for s using that assms(1,2) audited_ok by auto
  let ?m = "\<lambda>s. manifest_dict (audit_manifest s)"
  let ?valid = "\<lambda>s. mf_complete (audit_manifest s) \<and> well_named (at_fed (last_attempt s))"
  have valid: "ce_validate_manifest (PDict (?m s)) = Inr d \<longleftrightarrow> d = ?m s \<and> ?valid s" if "s \<in> set (src # ss)" for s d
    by (rule valid_iff [OF ok [OF that] assms(7)])
  have trav: "traverse ce_validate_manifest (map (\<lambda>s. PDict (?m s)) ss) = Inr ds \<longleftrightarrow> ds = map ?m ss \<and> (\<forall>s \<in> set ss. ?valid s)" for ds
    using valid by (auto simp: traverse_Inr_iff list_all2_conv_all_nth in_set_conv_nth intro!: nth_equalityI) (metis nth_mem)+
  have match: "ce_manifest_mismatches (?m src) (?m s) = [] \<longleftrightarrow> mset (at_fed (last_attempt s)) = mset (at_fed (last_attempt src))"
    if s: "s \<in> set ss" and d: "delivered v s" "delivered v src" for s
  proof -
    have o: "audit_ok sha s" "audit_ok sha src" using ok s by simp_all
    note p = delivered_params [OF o(1) d(1)] and q = delivered_params [OF o(2) d(2)]
    have "inj_on sha (stream_bytes {s, src})"
      by (rule inj_on_subset [OF assms(6)]) (use s in \<open>auto simp: stream_bytes_def\<close>)
    note stream = same_stream [OF o d this]
    have "ce_validate_manifest (PDict (?m s)) = Inr (?m s)" "ce_validate_manifest (PDict (?m src)) = Inr (?m src)"
      using valid s d by (auto simp: delivered_def)
    then have wf: "wf_manifest (?m s)" "wf_manifest (?m src)" by (auto dest: ce_validate_manifest_Inr)
    show ?thesis unfolding stream [symmetric]
      using matching_entries [OF _ wf(2,1) q(3) p(3)] same_entries_match [OF _ q(4)] by blast
  qed
  have digest: "ce_manifest_digest hash (?m s) = ce_manifest_digest hash (?m src)"
    if s: "s \<in> set ss" and d: "delivered v s" "delivered v src" and e: "mset (at_fed (last_attempt s)) = mset (at_fed (last_attempt src))" for s
  proof -
    have o: "audit_ok sha s" "audit_ok sha src" using ok s by simp_all
    note p = delivered_params [OF o(1) d(1)] and q = delivered_params [OF o(2) d(2)]
    have c: "map canonical_entry (map param_dict ps) = ps" if "list_all param_ok ps" for ps
      using that by (induction ps) (simp_all add: canonical_param)
    have "mset (mf_params (audit_manifest s)) = mset (mf_params (audit_manifest src))" using e by (simp add: p(1) q(1))
    from same_digest [OF this q(4)] show ?thesis
      by (simp only: ce_manifest_digest_def entries_of_manifest c [OF p(3)] c [OF q(3)])
  qed
  have ne: "ss \<noteq> []" using assms(3,4,5) by (cases workers) auto
  let ?ok = "\<lambda>s. ?valid s \<and> py_eq (mf_steps (audit_manifest s)) (PInt v)"
  let ?run = "ce_validate_sync hash workers (Some v) (Some (PDict (?m src))) (map (\<lambda>s. PDict (?m s)) ss)"
  have run: "(\<exists>r. ?run = Inr r) \<longleftrightarrow> (\<forall>s \<in> set ss. ?ok s) \<and> ?ok src
      \<and> (\<forall>s \<in> set ss. ce_manifest_mismatches (?m src) (?m s) = [])
      \<and> length (remdups (map (ce_manifest_digest hash) (map ?m ss))) = 1"
  proof (cases "(\<forall>s \<in> set ss. ?valid s) \<and> ?valid src")
    case True
    then have "traverse ce_validate_manifest (map (\<lambda>s. PDict (?m s)) ss) = Inr (map ?m ss)"
      "ce_validate_manifest (PDict (?m src)) = Inr (?m src)" using trav valid by auto
    then show ?thesis using assms(3,4,5) True by (auto simp: ce_validate_sync_def Let_def manifest_dict_get)
  next
    case False
    have "ce_validate_sync hash workers (Some v) (Some (PDict (?m src))) (map (\<lambda>s. PDict (?m s)) ss) \<noteq> Inr r" for r
    proof
      assume r: "?run = Inr r"
      then obtain ds d where "traverse ce_validate_manifest (map (\<lambda>s. PDict (?m s)) ss) = Inr ds"
        "ce_validate_manifest (PDict (?m src)) = Inr d"
        by (auto simp: ce_validate_sync_def Let_def split: if_splits sum.splits)
      with trav valid False show False by auto
    qed
    with False show ?thesis by auto
  qed
  have del: "delivered v s \<longleftrightarrow> ?ok s" for s by (auto simp: delivered_def)
  have one: "length (remdups (map (ce_manifest_digest hash) (map ?m ss))) = 1"
    if "\<forall>s \<in> set ss. ce_manifest_digest hash (?m s) = ce_manifest_digest hash (?m src)"
  proof -
    have "set (map (ce_manifest_digest hash) (map ?m ss)) = {ce_manifest_digest hash (?m src)}" using that ne by (auto simp: neq_Nil_conv)
    then show ?thesis by (simp only: length_remdups_card_conv) simp
  qed
  show ?thesis unfolding run using match digest one by (auto simp: del)
qed

section \<open>The adapter of the receiver\<close>

text \<open>
  \<open>_MultiTaskServerAdapter\<close>: the receiver hands the weights to the server of its own replica, which it
  finds by name.
\<close>

record adapter =
  ad_has_server :: bool
  ad_handle :: "nat option"
  ad_pd_role :: "string option"
  ad_rank :: nat
  ad_node_rank :: nat
  ad_suffix :: string

definition new_adapter :: "pyval \<Rightarrow> adapter \<Rightarrow> adapter res" where
  "new_adapter suffix base =
     (if \<not> begins_with ''_'' (pystr_of suffix) then Inl (ValueError ''MultiTask vLLM server name_suffix must begin with _'')
      else Inr (base\<lparr>ad_suffix := pystr_of suffix\<rparr>))"

text \<open>The arguments \<open>get_ray_class_with_init_args\<close> of the replica passes; the suffix is its own.\<close>

definition ce_init_args :: "pyval \<Rightarrow> pyval \<Rightarrow> vr \<Rightarrow> pydict" where
  "ce_init_args rollout model v =
     [(''rollout_config'', rollout), (''model_config'', model), (''replica_rank'', PInt (int (vr_rank v)))]"

definition adapter_name :: "string \<Rightarrow> adapter \<Rightarrow> string" where
  "adapter_name prefix a = prefix @ ''server_'' @ nat_str (ad_rank a) @ ''_'' @ nat_str (ad_node_rank a) @ ad_suffix a"

text \<open>\<open>actors\<close> is \<open>ray.get_actor\<close>.\<close>

definition ensure_server :: "string \<Rightarrow> (string \<Rightarrow> nat res) \<Rightarrow> adapter \<Rightarrow> bool res \<times> adapter" where
  "ensure_server prefix actors a =
     (if \<not> ad_has_server a then (Inr False, a)
      else if ad_handle a \<noteq> None then (Inr True, a)
      else if ad_pd_role a \<noteq> None
      then (Inl (NotImplementedError ''MultiTask task-scoped ServerAdapter does not support PD routing''), a)
      else (case actors (adapter_name prefix a) of
              Inl e \<Rightarrow> (Inl e, a)
            | Inr h \<Rightarrow> (Inr True, a\<lparr>ad_handle := Some h\<rparr>)))"

text \<open>
  The adapter the constructor of the receiver makes: \<open>args\<close> are the positional arguments, \<open>kwargs\<close> the
  others; without a suffix the native adapter is used.
\<close>

definition receiver_adapter :: "pyval list \<Rightarrow> pydict \<Rightarrow> string \<Rightarrow> (pyval \<Rightarrow> adapter) \<Rightarrow> adapter option res" where
  "receiver_adapter args kwargs suffix native =
     (if suffix = [] then Inr None
      else if pyget kwargs ''server_adapter'' \<noteq> PNone \<or> 2 < length args
      then Inl (ValueError ''MultiTask CE requires one explicit task-scoped vLLM adapter'')
      else
        (let rollout = pyget_default kwargs ''rollout_config'' (case args of a # _ \<Rightarrow> a | [] \<Rightarrow> PNone);
             model = pyget_default kwargs ''model_config'' (if 1 < length args then args ! 1 else PNone) in
         if rollout = PNone \<or> model = PNone
         then Inl (ValueError ''MultiTask CE requires rollout_config and model_config'')
         else map_res Some (new_adapter (PStr suffix) (native (pyget_default kwargs ''replica_rank'' (PInt (-1)))))))"

text \<open>
  The weights a receiver got reach only the server of its own replica: the name it looks up is the
  name the replica planned for its server, which no replica of another rank or suffix plans, and no
  server without a task suffix has.
\<close>

theorem adapter_resolves_own_server:
  assumes "receiver_adapter [] (ce_init_args rollout model v) (vr_suffix v) native = Inr (Some a)"
    and "base = native (PInt (int (vr_rank v)))"
    and "ad_rank base = vr_rank v" and "ad_node_rank base = 0" and "ad_handle base = None"
    and "ensure_server p actors a = (Inr True, a')"
  shows "\<exists>h. ad_handle a' = Some h \<and> actors (server_name p v) = Inr h
    \<and> (\<forall>w. server_name p w = server_name p v \<longrightarrow> vr_rank w = vr_rank v \<and> vr_suffix w = vr_suffix v)
    \<and> (\<forall>i j. server_name p v \<noteq> p @ ''server_'' @ nat_str i @ ''_'' @ nat_str j)"
proof -
  from assms(1) have a: "a = base\<lparr>ad_suffix := vr_suffix v\<rparr>" and s: "begins_with ''_'' (vr_suffix v)"
    by (auto simp: receiver_adapter_def new_adapter_def Let_def ce_init_args_def pyget_default_def assms(2) split: if_splits)
  then obtain rest where rest: "vr_suffix v = CHR ''_'' # rest"
    by (cases "vr_suffix v") (auto simp: begins_with_def)
  have "nat_str 0 = ''0''" by (simp add: nat_str.simps char_of_def bit_0)
  then have "adapter_name p a = server_name p v" using assms(3,4) by (simp add: a adapter_name_def server_name_def)
  with assms(5,6) obtain h where h: "ad_handle a' = Some h" "actors (server_name p v) = Inr h"
    by (auto simp: ensure_server_def a split: if_splits sum.splits)
  have "vr_rank w = vr_rank v \<and> vr_suffix w = vr_suffix v" if "server_name p w = server_name p v" for w
    using that split_at_underscore [of "vr_rank w" "CHR ''0'' # vr_suffix w" "vr_rank v" "CHR ''0'' # vr_suffix v"]
    by (simp add: server_name_def)
  moreover have "server_name p v \<noteq> p @ ''server_'' @ nat_str i @ ''_'' @ nat_str j" for i j
  proof
    assume "server_name p v = p @ ''server_'' @ nat_str i @ ''_'' @ nat_str j"
    then have "nat_str j = CHR ''0'' # vr_suffix v"
      using split_at_underscore [of "vr_rank v" "CHR ''0'' # vr_suffix v" i "nat_str j"] by (simp add: server_name_def)
    then have "CHR ''_'' \<in> set (nat_str j)" using rest by simp
    with no_underscore show False by blast
  qed
  ultimately show ?thesis using h by blast
qed

section \<open>Releasing the communicator of the sender\<close>

text \<open>
  \<open>finalize\<close> of the HCCL engine. \<open>hw\<close>: what synchronizing the device does and which way of destroying
  the communicator the library offers. The result lists the destructions that were asked for.
\<close>

record hccl =
  hc_rebuild :: bool
  hc_comm :: "nat option"
  hc_rank :: "int option"
  hc_world :: "int option"
  hc_buffers :: bool

record hccl_api =
  ha_synchronize :: "unit res"
  ha_close :: "unit res option"
  ha_destroy :: "unit res option"
  ha_library :: "unit res option"
  ha_empty_cache :: "unit res"

definition hccl_destroy :: "hccl_api \<Rightarrow> nat \<Rightarrow> unit res \<times> nat list" where
  "hccl_destroy hw c =
     (case ha_synchronize hw of
        Inl e \<Rightarrow> (Inl e, [])
      | Inr _ \<Rightarrow>
          (case List.map_filter id [ha_close hw, ha_destroy hw, ha_library hw] of
             [] \<Rightarrow> (Inl (RuntimeError ''PyHcclCommunicator exposes no supported HCCL destruction API''), [])
           | r # _ \<Rightarrow> (r, [c])))"

definition hccl_finalize :: "hccl_api \<Rightarrow> hccl \<Rightarrow> unit res \<times> nat list \<times> hccl" where
  "hccl_finalize hw s =
     (let free = (\<lambda>calls s. (ha_empty_cache hw, calls, s\<lparr>hc_buffers := False\<rparr>));
          forget = (\<lambda>s. s\<lparr>hc_rank := None, hc_world := None\<rparr>) in
      if \<not> hc_rebuild s then free [] s
      else (case hc_comm s of
              None \<Rightarrow> free [] (forget s)
            | Some c \<Rightarrow>
                (case hccl_destroy hw c of
                   (Inl e, calls) \<Rightarrow> (Inl e, calls, s)
                 | (Inr _, calls) \<Rightarrow> free calls (forget (s\<lparr>hc_comm := None\<rparr>)))))"

text \<open>
  The communicator is destroyed at most once with success: a failed attempt keeps the handle and the
  buffers, so it can be repeated, and after a successful one no further call is made for it.
\<close>

fun hccl_runs :: "hccl_api list \<Rightarrow> hccl \<Rightarrow> hccl" where
  "hccl_runs [] s = s"
| "hccl_runs (hw # hws) s = hccl_runs hws (snd (snd (hccl_finalize hw s)))"

lemma hccl_finalize_cases:
  assumes "hc_rebuild s" and "hc_comm s = Some c" and "hccl_finalize hw s = (r, calls, s')"
  shows "(s' = s \<and> \<not> is_ok r) \<or> (hc_comm s' = None \<and> hc_rank s' = None \<and> \<not> hc_buffers s' \<and> calls = [c])"
  using assms
  by (cases "hccl_destroy hw c")
    (auto simp: hccl_finalize_def Let_def hccl_destroy_def is_ok_def split: sum.splits list.splits)

lemma hccl_runs_none: "hc_comm s = None \<Longrightarrow> hc_comm (hccl_runs hws s) = None"
  by (induction hws arbitrary: s) (simp_all add: hccl_finalize_def Let_def)

theorem hccl_destroyed_once:
  assumes "hccl_finalize hw s = (Inr (), calls, s')" and "hc_rebuild s"
  shows "hc_comm s' = None \<and> fst (snd (hccl_finalize hw' (hccl_runs hws s'))) = []"
proof -
  have "hc_comm s' = None"
  proof (cases "hc_comm s")
    case None
    then show ?thesis using assms by (auto simp: hccl_finalize_def Let_def)
  next
    case (Some c)
    from hccl_finalize_cases [OF assms(2) this assms(1)] show ?thesis by (simp add: is_ok_def)
  qed
  moreover from hccl_runs_none [OF this, of hws] have "fst (snd (hccl_finalize hw' (hccl_runs hws s'))) = []"
    by (simp add: hccl_finalize_def Let_def)
  ultimately show ?thesis by simp
qed

section \<open>Witnesses\<close>

definition demo_tensor :: tensor where
  "demo_tensor = \<lparr>ts_shape = [2, 3], ts_dtype = ''f'', ts_bytes = Inr ''b''\<rparr>"

definition demo_sha :: "string \<Rightarrow> string" where
  "demo_sha b = CHR ''s'' # b"

definition demo_received :: audit where
  "demo_received = fold (audit_step demo_sha)
     [Receive (PInt 4) ''named_tensors'' (Inr ([(''w'', demo_tensor)], None)), Pull 0, Pull 0, Finish 0 (Inr ())]
     (new_receiver (Some ''1'') None)"

definition demo_sent :: audit where
  "demo_sent = fold (audit_step demo_sha)
     [Send (Some 0) (PInt 4) ([(''w'', demo_tensor)], None), Pull 0, Pull 0, Finish 0 (Inr ())] (new_sender (Some ''1''))"

lemma demo_audited: "audited demo_sha demo_received" "audited demo_sha demo_sent"
  unfolding audited_def demo_received_def demo_sent_def by blast+

lemmas audit_eval = new_receiver_def new_sender_def receive_begin_def send_begin_def audit_publish_def new_attempt_def
  blank_manifest_def on_attempt_def audit_pull_def tensor_sha256_def record_param_def audit_finish_def Let_def
  audit_manifest_def last_attempt_def

lemma demo_transfer:
  "mf_complete (audit_manifest demo_received)" "mf_complete (audit_manifest demo_sent)"
  "mf_steps (audit_manifest demo_received) = PInt 4" "mf_steps (audit_manifest demo_sent) = PInt 4"
  "at_fed (last_attempt demo_received) = [(''w'', demo_tensor)]" "at_fed (last_attempt demo_sent) = [(''w'', demo_tensor)]"
  by (simp_all add: demo_received_def demo_sent_def audit_eval demo_tensor_def)

theorem audit_complete_is_whole_stream_witness:
  "mf_complete (audit_manifest demo_received) \<and> mf_count (audit_manifest demo_received) = 1"
  using audit_complete_is_whole_stream [OF demo_audited(1) demo_transfer(1)]
  unfolding Let_def demo_transfer(5) using demo_transfer(1) by (metis One_nat_def length_Cons list.size(3) of_nat_1)

theorem audited_validation_iff_witness:
  "\<exists>r. ce_validate_sync (\<lambda>_. []) [1] (Some 4) (Some (PDict (manifest_dict (audit_manifest demo_sent))))
       (map (\<lambda>s. PDict (manifest_dict (audit_manifest s))) [demo_received]) = Inr r"
proof -
  have inj: "inj_on demo_sha (stream_bytes (set [demo_sent, demo_received]))" by (auto simp: inj_on_def demo_sha_def)
  have "(0::nat) \<notin> set [1]" "[1::nat] \<noteq> []" "length [demo_received] = sum_list [1]" "\<forall>b. demo_sha b \<noteq> []"
    "\<forall>s \<in> set [demo_received]. audited demo_sha s"
    using demo_audited by (simp_all add: demo_sha_def)
  from audited_validation_iff [OF demo_audited(2) this(5,1-3) inj this(4), of "\<lambda>_. []" 4] show ?thesis
    by (simp add: delivered_def demo_transfer well_named_def demo_tensor_def)
qed

definition demo_vr :: vr where
  "demo_vr = \<lparr>vr_kind = NATIVE, vr_rank = 0, vr_epoch = 0, vr_suffix = ''_mt_a'', vr_world = 1, vr_nnodes = 1,
     vr_gpus_per_node = 1, vr_standalone = True, vr_claims = [], vr_workers = [], vr_worker_names = [], vr_servers = [],
     vr_server_names = [], vr_handle = None, vr_address = [], vr_verified = False\<rparr>"

definition demo_adapter :: "pyval \<Rightarrow> adapter" where
  "demo_adapter rank = \<lparr>ad_has_server = True, ad_handle = None, ad_pd_role = None, ad_rank = nat (pyint_of rank),
     ad_node_rank = 0, ad_suffix = []\<rparr>"

theorem adapter_resolves_own_server_witness:
  "\<exists>a a'. receiver_adapter [] (ce_init_args (PObj 1) (PObj 2) demo_vr) (vr_suffix demo_vr) demo_adapter = Inr (Some a)
     \<and> ensure_server ''vllm_'' (\<lambda>_. Inr 5) a = (Inr True, a') \<and> ad_handle a' = Some 5"
proof -
  obtain a where a: "receiver_adapter [] (ce_init_args (PObj 1) (PObj 2) demo_vr) (vr_suffix demo_vr) demo_adapter = Inr (Some a)"
    by (simp add: receiver_adapter_def new_adapter_def ce_init_args_def demo_vr_def begins_with_def pyget_def pyget_default_def)
  moreover obtain a' where e: "ensure_server ''vllm_'' (\<lambda>_. Inr 5) a = (Inr True, a')"
    using a by (auto simp: ensure_server_def receiver_adapter_def new_adapter_def demo_adapter_def Let_def split: if_splits)
  moreover from adapter_resolves_own_server [OF a HOL.refl _ _ _ e] have "ad_handle a' = Some 5"
    by (auto simp: demo_adapter_def demo_vr_def)
  ultimately show ?thesis by blast
qed

theorem hccl_destroyed_once_witness:
  "\<exists>s'. hccl_finalize \<lparr>ha_synchronize = Inr (), ha_close = None, ha_destroy = Some (Inr ()), ha_library = None, ha_empty_cache = Inr ()\<rparr>
       \<lparr>hc_rebuild = True, hc_comm = Some 3, hc_rank = Some 0, hc_world = Some 2, hc_buffers = True\<rparr> = (Inr (), [3], s')
     \<and> hc_comm s' = None"
proof -
  let ?hw = "\<lparr>ha_synchronize = Inr (), ha_close = None, ha_destroy = Some (Inr ()), ha_library = None, ha_empty_cache = Inr ()\<rparr>"
  let ?s = "\<lparr>hc_rebuild = True, hc_comm = Some 3, hc_rank = Some 0, hc_world = Some 2, hc_buffers = True\<rparr>"
  obtain s' where f: "hccl_finalize ?hw ?s = (Inr (), [3], s')"
    by (simp add: hccl_finalize_def hccl_destroy_def Let_def List.map_filter_simps)
  from hccl_destroyed_once [OF f] f show ?thesis by simp
qed

end
