(* ===== verification/Idle_Reporter.thy ===== *)
theory Idle_Reporter
  imports Async Replica_Manager Group_Scheduler Replica
begin

text \<open>
  Model of what the Rollouter tells the scheduler about its replicas
  (\<open>integration/verl/experimental_fully_async/rollouter.py\<close>): which ACTIVE replicas it could do without
  (\<open>collect_idle_candidates\<close>, \<open>submit_idle_report\<close>, \<open>_idle_report_loop\<close>) and where its native replicas run
  (\<open>native_placement_candidates\<close>). Coroutines (theory \<open>Async\<close>) over the Rollouter's fields, the replica
  manager and the scheduler, which is another actor. Cancellation of the reporter is not modelled.
\<close>

section \<open>State\<close>

text \<open>
  \<open>id_order\<close> is the order of \<open>replica_state\<close>, a dictionary. The signature of a report is a tuple of the
  fields of its keys and the kinds, here the pairs themselves.
\<close>

record idle_sys =
  id_task :: string
  id_scheduler :: bool
  id_running :: bool
  id_paused :: bool
  id_capacity :: int
  id_per_replica :: int
  id_order :: "replica_key list"
  id_mgr :: rmgr
  id_observed :: bool
  id_signature :: "(replica_key \<times> replica_kind) list option"
  id_last_sent :: "rat option"
  id_gs :: gs
  id_clock :: rat

definition on_reporter :: "(idle_sys \<Rightarrow> idle_sys) \<Rightarrow> (idle_sys, unit) coro" where
  "on_reporter f = sync (\<lambda>g. (Inr (), f g))"

section \<open>Idle candidates\<close>

definition kind_of :: "rmgr \<Rightarrow> replica_key \<Rightarrow> (replica_key \<times> replica_kind) res" where
  "kind_of m k = (case m_kind m k of None \<Rightarrow> Inl (KeyError ''replica_kind'') | Some kind \<Rightarrow> Inr (k, kind))"

definition active_keys :: "idle_sys \<Rightarrow> replica_key list" where
  "active_keys g = filter (\<lambda>k. m_state (id_mgr g) k = Some ACTIVE) (id_order g)"

definition collect_idle :: "idle_sys \<Rightarrow> (replica_key \<times> replica_kind) list res" where
  "collect_idle g =
     (if \<not> id_paused g \<or> id_capacity g \<le> 0 then Inr []
      else if id_per_replica g \<le> 0 then Inr []
      else map_res
        (\<lambda>active. let required = (id_capacity g + id_per_replica g - 1) div id_per_replica g in
           take (nat (max 0 (int (length active) - required))) active)
        (traverse (kind_of (id_mgr g)) (active_keys g)))"

text \<open>What the method is for: giving up as many replicas as the committed capacity allows.\<close>

definition spare :: "int \<Rightarrow> int \<Rightarrow> nat \<Rightarrow> nat \<Rightarrow> bool" where
  "spare capacity per n k \<longleftrightarrow> k \<le> n \<and> capacity \<le> int (n - k) * per"

definition most_spare :: "int \<Rightarrow> int \<Rightarrow> nat \<Rightarrow> nat" where
  "most_spare capacity per n = Max (insert 0 {k \<in> {0..n}. spare capacity per n k})"

lemma required_iff:
  fixes capacity per :: int
  assumes "0 < per"
  shows "(capacity + per - 1) div per \<le> j \<longleftrightarrow> capacity \<le> j * per"
proof -
  let ?q = "(capacity + per - 1) div per"
  have "per * ?q + (capacity + per - 1) mod per = capacity + per - 1" by (rule mult_div_mod_eq)
  moreover have "0 \<le> (capacity + per - 1) mod per" "(capacity + per - 1) mod per < per" using assms by simp_all
  ultimately have q: "per * ?q \<le> capacity + per - 1" "capacity + per - 1 < per * ?q + per" by linarith+
  show ?thesis
  proof
    assume "?q \<le> j"
    then have "per * ?q \<le> per * j" using assms by (intro mult_left_mono) auto
    also have "per * j = j * per" by (rule mult.commute)
    finally show "capacity \<le> j * per" using q by linarith
  next
    assume c: "capacity \<le> j * per"
    show "?q \<le> j"
    proof (rule ccontr)
      assume "\<not> ?q \<le> j"
      then have "per * (j + 1) \<le> per * ?q" using assms by (intro mult_left_mono) auto
      with q c show False by (simp add: algebra_simps)
    qed
  qed
qed

lemma surplus_is_most_spare:
  assumes "0 < per" and "0 < capacity"
  shows "nat (max 0 (int n - (capacity + per - 1) div per)) = most_spare capacity per n"
proof -
  let ?req = "(capacity + per - 1) div per"
  let ?k = "nat (max 0 (int n - ?req))"
  have req: "0 < ?req" using required_iff [OF assms(1), of capacity 0] assms(2) by simp
  have spare: "spare capacity per n k \<longleftrightarrow> int k \<le> int n - ?req" if "k \<le> n" for k
    using required_iff [OF assms(1), of capacity "int (n - k)"] that by (auto simp: spare_def of_nat_diff)
  have "most_spare capacity per n = ?k"
    unfolding most_spare_def
  proof (rule Max_eqI)
    show "finite (insert 0 {k \<in> {0..n}. spare capacity per n k})" by simp
    show "y \<le> ?k" if "y \<in> insert 0 {k \<in> {0..n}. spare capacity per n k}" for y
      using that spare by auto
    have "?k = 0 \<or> (?k \<le> n \<and> spare capacity per n ?k)" using req spare [of ?k] by auto
    then show "?k \<in> insert 0 {k \<in> {0..n}. spare capacity per n k}" by auto
  qed
  then show ?thesis by simp
qed

text \<open>
  While production is paused, the replicas reported as idle are the longest prefix of the ACTIVE
  ones, in the order of their registration, that leaves the committed capacity to the others.
\<close>

theorem idle_surplus_exact:
  assumes "id_paused g" and "0 < id_capacity g" and "0 < id_per_replica g"
    and "\<forall>k \<in> set (id_order g). m_kind (id_mgr g) k \<noteq> None"
  shows "collect_idle g = Inr (map (\<lambda>k. (k, the (m_kind (id_mgr g) k)))
      (take (most_spare (id_capacity g) (id_per_replica g) (length (active_keys g))) (active_keys g)))"
proof -
  have "traverse (kind_of (id_mgr g)) ks = Inr (map (\<lambda>k. (k, the (m_kind (id_mgr g) k))) ks)"
    if "set ks \<subseteq> set (id_order g)" for ks
    using that assms(4) by (induction ks) (auto simp: kind_of_def split: option.splits)
  moreover have "set (active_keys g) \<subseteq> set (id_order g)" by (auto simp: active_keys_def)
  ultimately show ?thesis using assms(1-3)
    by (simp add: collect_idle_def Let_def surplus_is_most_spare take_map)
qed

section \<open>Reports\<close>

definition report_of :: "string \<Rightarrow> (replica_key \<times> replica_kind) list \<Rightarrow> raw_report" where
  "report_of task cs = \<lparr>rr_task_session = PStr task,
     rr_candidates = Some (map (\<lambda>(k, kind). Some \<lparr>rc_key = Some k, rc_kind = Some kind\<rparr>) cs)\<rparr>"

definition send_report :: "string \<Rightarrow> (replica_key \<times> replica_kind) list \<Rightarrow> (idle_sys, nat) coro" where
  "send_report task cs = remote (sync (\<lambda>g.
     (case gs_submit_idle_report (id_clock g) (Some (report_of task cs)) (id_gs g) of (x, gs) \<Rightarrow> (x, g\<lparr>id_gs := gs\<rparr>))))"

definition submit_report :: "(idle_sys, nat option) coro" where
  "submit_report = look id_scheduler (\<lambda>scheduler.
     guard_that scheduler (RuntimeError ''GroupScheduler handle is required for idle reporting'')
       (look collect_idle (\<lambda>found. andthen (lift_res found) (\<lambda>cs.
          if cs = [] then ret None
          else guard_that (length (remdups (map (task_session \<circ> fst) cs)) = 1)
            (ValueError ''one Rollouter may report candidates for only one task_session'')
            (andthen (send_report (task_session (fst (hd cs))) cs) (\<lambda>n. ret (Some n)))))))"

definition forget_report :: "(idle_sys, unit) coro" where
  "forget_report = on_reporter (\<lambda>g. g\<lparr>id_signature := None, id_last_sent := None\<rparr>)"

text \<open>One round of the loop after its sleep, at the time \<open>now\<close> of the loop; \<open>True\<close> ends the loop.\<close>

definition retract_report :: "(idle_sys, bool) coro" where
  "retract_report = look (\<lambda>g. (id_signature g, id_task g)) (\<lambda>(signature, task).
     if signature = None then andthen forget_report (\<lambda>_. ret False)
     else caught (send_report task []) (\<lambda>x.
       case x of Inl _ \<Rightarrow> ret False | Inr _ \<Rightarrow> andthen forget_report (\<lambda>_. ret False)))"

definition refresh_report :: "(replica_key \<times> replica_kind) list \<Rightarrow> rat \<Rightarrow> (idle_sys, bool) coro" where
  "refresh_report cs now = look (\<lambda>g. (id_signature g, id_last_sent g)) (\<lambda>(signature, sent).
     if signature = Some cs \<and> (\<exists>t \<in> set_option sent. now - t < 5) then ret False
     else caught submit_report (\<lambda>x.
       case x of
         Inl _ \<Rightarrow> ret False
       | Inr _ \<Rightarrow> andthen (on_reporter (\<lambda>g. g\<lparr>id_signature := Some cs, id_last_sent := Some now\<rparr>)) (\<lambda>_. ret False)))"

definition report_round :: "(idle_sys, bool) coro" where
  "report_round = look (\<lambda>g. (id_running g, id_observed g)) (\<lambda>(running, observed).
     if \<not> running then andthen forget_report (\<lambda>_. ret observed)
     else andthen (on_reporter (\<lambda>g. g\<lparr>id_observed := True\<rparr>)) (\<lambda>_. look id_scheduler (\<lambda>scheduler.
       if \<not> scheduler then andthen forget_report (\<lambda>_. ret False)
       else look collect_idle (\<lambda>found. andthen (lift_res found) (\<lambda>cs.
         if cs = [] then retract_report else (\<lambda>r. refresh_report cs (r_time r) r))))))"

definition reporter_tick :: "(idle_sys, bool) coro" where
  "reporter_tick = andthen (pause 1) (\<lambda>_. report_round)"

section \<open>What the scheduler knows\<close>

lemma normalize_report:
  assumes "\<forall>(k, kind) \<in> set cs. task_session k = task" and "distinct (map fst cs)" and "set (map fst cs) \<inter> set seen = {}"
  shows "normalize_candidates task seen (map (\<lambda>(k, kind). Some \<lparr>rc_key = Some k, rc_kind = Some kind\<rparr>) cs) = Inr cs"
  using assms by (induction cs arbitrary: seen) (auto split: prod.splits)

text \<open>
  The scheduler accepts every report the Rollouter makes of its own replicas, and stores exactly the
  candidates it collected, with the time of its own clock.
\<close>

theorem idle_report_accepted:
  assumes "collect_idle g = Inr cs" and "distinct (id_order g)" and "\<forall>k \<in> set (id_order g). task_session k = task"
    and "task \<noteq> []" and "gs_runners (id_gs g) task \<noteq> None"
  shows "gs_submit_idle_report now (Some (report_of task cs)) (id_gs g) =
    (Inr (length cs), (id_gs g)\<lparr>gs_idle := (gs_idle (id_gs g))(task \<mapsto> \<lparr>ir_observed_at = now, ir_candidates = cs\<rparr>)\<rparr>)"
proof -
  have keys: "map fst ds = ks" if "traverse (kind_of (id_mgr g)) ks = Inr ds" for ks ds
    using that unfolding traverse_Inr_iff
    by (induction rule: list_all2_induct) (auto simp: kind_of_def split: option.splits)
  have "\<exists>n. map fst cs = take n (active_keys g)"
    using assms(1) keys
    by (auto simp: collect_idle_def Let_def map_res_Inr_iff take_map [symmetric] split: if_splits)
  then obtain n where n: "map fst cs = take n (active_keys g)" by blast
  have "distinct (active_keys g)" "set (active_keys g) \<subseteq> set (id_order g)" using assms(2) by (auto simp: active_keys_def)
  then have "distinct (map fst cs)" "set (map fst cs) \<subseteq> set (id_order g)" using n set_take_subset [of n "active_keys g"] by auto
  then have "normalize_candidates task [] (map (\<lambda>(k, kind). Some \<lparr>rc_key = Some k, rc_kind = Some kind\<rparr>) cs) = Inr cs"
    using assms(3) by (intro normalize_report) force+
  then show ?thesis using assms(4,5) by (simp add: gs_submit_idle_report_def report_of_def)
qed

definition listed :: "idle_sys \<Rightarrow> (replica_key \<times> replica_kind) list" where
  "listed g = (case gs_idle (id_gs g) (id_task g) of None \<Rightarrow> [] | Some rep \<Rightarrow> ir_candidates rep)"

text \<open>The reporter remembers a report that authorizes a DONATE.\<close>

definition remembers :: "idle_sys \<Rightarrow> bool" where
  "remembers g \<longleftrightarrow> (listed g \<noteq> [] \<longrightarrow> id_signature g \<noteq> None)"

text \<open>
  The rest of the system: only this reporter reports for its task, its fields are its own, and the
  task's registration at the scheduler stays as it is.
\<close>

definition attached :: "idle_sys \<Rightarrow> bool" where
  "attached g \<longleftrightarrow> gs_runners (id_gs g) (id_task g) \<noteq> None"

definition idle_rely :: "idle_sys \<Rightarrow> idle_sys \<Rightarrow> bool" where
  "idle_rely g g' \<longleftrightarrow> id_signature g' = id_signature g \<and> id_last_sent g' = id_last_sent g \<and> id_observed g' = id_observed g
     \<and> id_task g' = id_task g \<and> id_scheduler g' = id_scheduler g \<and> listed g' = listed g \<and> attached g' = attached g"

definition nothing_lost :: "idle_sys run \<Rightarrow> bool" where
  "nothing_lost r \<longleftrightarrow> (\<forall>n e. tk_fate (r_sched r n) \<noteq> ReplyLost e)"

lemma submitted_listed:
  assumes "gs_submit_idle_report now (Some (report_of task cs)) G = (x, G')"
  shows "(case x of Inl _ \<Rightarrow> G' = G | Inr _ \<Rightarrow> \<exists>rep. gs_idle G' task = Some rep \<and> (cs = [] \<longrightarrow> ir_candidates rep = []))
    \<and> (\<forall>t. t \<noteq> task \<longrightarrow> gs_idle G' t = gs_idle G t) \<and> gs_runners G' = gs_runners G"
  using assms by (auto simp: gs_submit_idle_report_def report_of_def Let_def split: if_splits sum.splits)

definition own_fields :: "idle_sys \<Rightarrow> string \<times> bool \<times> bool \<times> bool \<times> (replica_key \<times> replica_kind) list option" where
  "own_fields g = (id_task g, attached g, id_scheduler g, id_observed g, id_signature g)"

lemma rely_own: "idle_rely g g' \<Longrightarrow> own_fields g' = own_fields g \<and> listed g' = listed g"
  by (simp add: idle_rely_def own_fields_def)

lemma others_own:
  assumes "obeys idle_rely r"
  shows "own_fields (r_now (others_before r)) = own_fields (r_now r) \<and> listed (r_now (others_before r)) = listed (r_now r)"
    and "own_fields (r_now (others_after (tick_of r) d r')) = own_fields (r_now r') \<and> listed (r_now (others_after (tick_of r) d r')) = listed (r_now r')"
  using assms by (auto simp: obeys_def others_before_def others_after_def tick_of_def intro!: rely_own)

lemma send_own:
  assumes "obeys idle_rely r" and "nothing_lost r" and "send_report task cs r = (x, r')"
  shows "own_fields (r_now r') = own_fields (r_now r)
    \<and> (case x of Inl _ \<Rightarrow> listed (r_now r') = listed (r_now r) | Inr _ \<Rightarrow> task = id_task (r_now r) \<longrightarrow> cs = [] \<longrightarrow> listed (r_now r') = [])"
proof -
  let ?b = "others_before r"
  let ?g = "r_now ?b"
  note o = others_own [OF assms(1)]
  obtain y G where call: "gs_submit_idle_report (id_clock ?g) (Some (report_of task cs)) (id_gs ?g) = (y, G)" by fastforce
  let ?g' = "?g\<lparr>id_gs := G\<rparr>"
  have own: "own_fields ?g' = own_fields ?g" using submitted_listed [OF call] by (simp add: own_fields_def attached_def)
  have effect: "case y of Inl _ \<Rightarrow> listed ?g' = listed ?g | Inr _ \<Rightarrow> task = id_task ?g \<longrightarrow> cs = [] \<longrightarrow> listed ?g' = []"
    using submitted_listed [OF call] by (auto simp: listed_def split: sum.splits option.splits)
  have "tk_fate (tick_of r) \<noteq> ReplyLost e" for e using assms(2) by (simp add: nothing_lost_def tick_of_def)
  then show ?thesis
    using assms(3) o(1) o(2) [of 0 "?b\<lparr>r_now := ?g'\<rparr>"] o(2) [of 0 ?b] own effect call
    by (cases "tk_fate (tick_of r)")
      (auto simp: send_report_def remote_def sync_def Let_def own_fields_def split: sum.splits)
qed

lemma submit_own:
  assumes "obeys idle_rely r" and "nothing_lost r" and "submit_report r = (x, r')"
  shows "own_fields (r_now r') = own_fields (r_now r) \<and> (case x of Inl _ \<Rightarrow> listed (r_now r') = listed (r_now r) | Inr _ \<Rightarrow> True)"
  using assms(3)
  by (auto simp: submit_report_def look_def guard_that_def lift_res_def andthen_def ret_def raise_def
      split: if_splits sum.splits prod.splits dest!: send_own [OF assms(1,2)])

definition reporter_ok :: "idle_sys \<Rightarrow> bool" where
  "reporter_ok g \<longleftrightarrow> id_scheduler g \<and> remembers g \<and> (id_signature g \<noteq> None \<longrightarrow> id_observed g)"

lemma reporter_ok_own: "own_fields g' = own_fields g \<Longrightarrow> listed g' = listed g \<Longrightarrow> reporter_ok g' = reporter_ok g"
  by (simp add: reporter_ok_def remembers_def own_fields_def)

lemmas tick_eval = look_def andthen_def lift_res_def ret_def raise_def caught_def forget_report_def on_reporter_def sync_def Let_def

lemma retract_own:
  assumes "obeys idle_rely r" and "nothing_lost r" and "reporter_ok (r_now r)" and "retract_report r = (x, r')"
  shows "reporter_ok (r_now r') \<and> x = Inr False"
proof (cases "id_signature (r_now r)")
  case None
  with assms(3,4) show ?thesis
    by (auto simp: retract_report_def tick_eval reporter_ok_def remembers_def listed_def)
next
  case (Some sig)
  obtain y r1 where s: "send_report (id_task (r_now r)) [] r = (y, r1)" by fastforce
  note o = send_own [OF assms(1,2) s]
  show ?thesis
  proof (cases y)
    case (Inl e)
    with o assms(3,4) s Some show ?thesis
      by (auto simp: retract_report_def tick_eval dest: reporter_ok_own)
  next
    case (Inr n)
    with o assms(3,4) s Some show ?thesis
      by (auto simp: retract_report_def tick_eval reporter_ok_def remembers_def listed_def own_fields_def)
  qed
qed

lemma refresh_own:
  assumes "obeys idle_rely r" and "nothing_lost r" and "reporter_ok (r_now r)" and "id_observed (r_now r)"
    and "refresh_report cs now r = (x, r')"
  shows "reporter_ok (r_now r') \<and> x = Inr False"
proof (cases "id_signature (r_now r) = Some cs \<and> (\<exists>t. id_last_sent (r_now r) = Some t \<and> now - t < 5)")
  case True
  with assms show ?thesis by (auto simp: refresh_report_def tick_eval)
next
  case False
  obtain y r1 where s: "submit_report r = (y, r1)" by fastforce
  note o = submit_own [OF assms(1,2) s]
  show ?thesis
  proof (cases y)
    case (Inl e)
    with o assms(3,5) s False show ?thesis
      by (auto simp: refresh_report_def tick_eval dest: reporter_ok_own split: if_splits)
  next
    case (Inr n)
    with o assms(3,4,5) s False show ?thesis
      by (auto simp: refresh_report_def tick_eval reporter_ok_def remembers_def own_fields_def split: if_splits)
  qed
qed

lemma round_running:
  assumes "id_running (r_now r)" and "id_scheduler (r_now r)" and "r1 = r\<lparr>r_now := (r_now r)\<lparr>id_observed := True\<rparr>\<rparr>"
  shows "report_round r = (case collect_idle (r_now r1) of Inl e \<Rightarrow> (Inl e, r1)
      | Inr cs \<Rightarrow> if cs = [] then retract_report r1 else refresh_report cs (r_time r1) r1)"
  using assms by (simp add: report_round_def tick_eval split: sum.split)

lemma round_own:
  assumes "obeys idle_rely r" and "nothing_lost r" and "reporter_ok (r_now r)" and "report_round r = (x, r')" and "x \<noteq> Inr True"
  shows "reporter_ok (r_now r')"
proof (cases "id_running (r_now r)")
  case False
  have "\<not> id_observed (r_now r)" using assms(4,5) False by (auto simp: report_round_def tick_eval)
  then have none: "id_signature (r_now r) = None" "listed (r_now r) = []" "id_scheduler (r_now r)" using assms(3) by (auto simp: reporter_ok_def remembers_def)
  have "r_now r' = (r_now r)\<lparr>id_signature := None, id_last_sent := None\<rparr>" using assms(4) False by (auto simp: report_round_def tick_eval)
  then show ?thesis using none by (simp add: reporter_ok_def remembers_def listed_def)
next
  case True
  let ?r = "r\<lparr>r_now := (r_now r)\<lparr>id_observed := True\<rparr>\<rparr>"
  have p: "obeys idle_rely ?r" "nothing_lost ?r" "reporter_ok (r_now ?r)" "id_observed (r_now ?r)"
    using assms(1-3) by (auto simp: nothing_lost_def reporter_ok_def remembers_def listed_def)
  have "id_scheduler (r_now r)" using assms(3) by (simp add: reporter_ok_def)
  note run = round_running [OF True this HOL.refl]
  show ?thesis
  proof (cases "collect_idle (r_now ?r)")
    case (Inl e)
    with run assms(4) p(3) show ?thesis by auto
  next
    case (Inr cs)
    show ?thesis
    proof (cases "cs = []")
      case True
      with run Inr assms(4) have "retract_report ?r = (x, r')" by simp
      from retract_own [OF p(1-3) this] show ?thesis by simp
    next
      case False
      with run Inr assms(4) have "refresh_report cs (r_time ?r) ?r = (x, r')" by simp
      from refresh_own [OF p this] show ?thesis by simp
    qed
  qed
qed

lemma collect_observed [simp]: "collect_idle (g\<lparr>id_observed := b\<rparr>) = collect_idle g"
  by (simp add: collect_idle_def active_keys_def)

lemma pause_own:
  assumes "obeys idle_rely r" and "nothing_lost r" and "reporter_ok (r_now r)"
  shows "obeys idle_rely (snd (pause d r))" "nothing_lost (snd (pause d r))" "reporter_ok (r_now (snd (pause d r)))"
    "id_task (r_now (snd (pause d r))) = id_task (r_now r)" "attached (r_now (snd (pause d r))) = attached (r_now r)"
proof -
  let ?r = "snd (pause d r)"
  have own: "own_fields (r_now ?r) = own_fields (r_now r)" "listed (r_now ?r) = listed (r_now r)"
    unfolding pause_def snd_conv
    using others_own(1) [OF assms(1)] others_own(2) [OF assms(1), of d "others_before r"] by simp_all
  show "reporter_ok (r_now ?r)" using reporter_ok_own [OF own] assms(3) by simp
  show "id_task (r_now ?r) = id_task (r_now r)" "attached (r_now ?r) = attached (r_now r)" using own(1) by (simp_all add: own_fields_def)
  show "obeys idle_rely ?r" using assms(1) by (simp add: pause_def)
  show "nothing_lost ?r" using assms(2) by (simp add: nothing_lost_def pause_def others_before_def others_after_def)
qed

lemma retract_answered:
  assumes "obeys idle_rely r" and "nothing_lost r" and "reporter_ok (r_now r)" and "retract_report r = (x, r')"
    and "tk_fate (tick_of r) = Answered" and "attached (r_now r)" and "id_task (r_now r) \<noteq> []"
  shows "listed (r_now r') = [] \<and> id_task (r_now r') = id_task (r_now r)"
proof (cases "id_signature (r_now r)")
  case None
  with assms(3,4) show ?thesis by (auto simp: retract_report_def tick_eval reporter_ok_def remembers_def listed_def)
next
  case (Some sig)
  obtain y r1 where s: "send_report (id_task (r_now r)) [] r = (y, r1)" by fastforce
  have "own_fields (r_now (others_before r)) = own_fields (r_now r)" using others_own(1) [OF assms(1)] by simp
  then have "gs_runners (id_gs (r_now (others_before r))) (id_task (r_now r)) \<noteq> None"
    using assms(6) by (auto simp: own_fields_def attached_def)
  then have "\<exists>n. y = Inr n"
    using s assms(5,7)
    by (auto simp: send_report_def remote_def sync_def Let_def gs_submit_idle_report_def report_of_def split: prod.splits)
  then obtain n where n: "y = Inr n" by blast
  with send_own [OF assms(1,2) s] have "listed (r_now r1) = []" "id_task (r_now r1) = id_task (r_now r)"
    by (simp_all add: own_fields_def)
  with s Some n assms(4) show ?thesis by (auto simp: retract_report_def tick_eval listed_def)
qed

text \<open>
  While no reply is lost, a report that authorizes a DONATE is one the reporter remembers; so the
  round in which the surplus is gone retracts it, and from the answered retraction on the scheduler
  either has no report of the task or refuses every DONATE of it, at any time.
\<close>

theorem idle_report_retracted:
  assumes "obeys idle_rely r" and "nothing_lost r" and "reporter_ok (r_now r)" and "reporter_tick r = (x, r')" and "x \<noteq> Inr True"
    and "snd (pause 1 r) = r1" and "task = id_task (r_now r)" and "task_session (c_target c) = task"
  shows "reporter_ok (r_now r')
    \<and> (id_running (r_now r1) \<and> collect_idle (r_now r1) = Inr []
         \<and> tk_fate (tick_of r1) = Answered \<and> attached (r_now r) \<and> task \<noteq> []
       \<longrightarrow> gs_idle (id_gs (r_now r')) task = None \<or> donate_idle_check clock c (id_gs (r_now r')) \<noteq> None)"
proof -
  have p: "obeys idle_rely r1" "nothing_lost r1" "reporter_ok (r_now r1)" "id_task (r_now r1) = task"
    using pause_own [OF assms(1-3), of 1] assms(6,7) by auto
  have run: "report_round r1 = (x, r')" using assms(4,6) by (auto simp: reporter_tick_def andthen_def pause_def)
  have "gs_idle (id_gs (r_now r')) task = None \<or> donate_idle_check clock c (id_gs (r_now r')) \<noteq> None"
    if g: "id_running (r_now r1)" "collect_idle (r_now r1) = Inr []" "tk_fate (tick_of r1) = Answered"
      "attached (r_now r)" "task \<noteq> []"
  proof -
    let ?r = "r1\<lparr>r_now := (r_now r1)\<lparr>id_observed := True\<rparr>\<rparr>"
    have q: "obeys idle_rely ?r" "nothing_lost ?r" "reporter_ok (r_now ?r)" "id_task (r_now ?r) = task" "tick_of ?r = tick_of r1"
      using p by (auto simp: nothing_lost_def reporter_ok_def remembers_def listed_def tick_of_def)
    have "id_scheduler (r_now r1)" using p(3) by (simp add: reporter_ok_def)
    from round_running [OF g(1) this HOL.refl] run g(2) have ret: "retract_report ?r = (x, r')" by simp
    have "attached (r_now ?r)" using pause_own(5) [OF assms(1-3), of 1] g(4) assms(6) by (auto simp: attached_def)
    with retract_answered [OF q(1-3) ret] q(4,5) g(3,5) have none: "listed (r_now r') = []" "id_task (r_now r') = task" by simp_all
    with none assms(8) show ?thesis
      by (auto simp: listed_def donate_idle_check_def first_failure.simps split: option.splits)
  qed
  then show ?thesis using round_own [OF p(1-3) run assms(5)] by blast
qed

section \<open>A report whose reply is lost\<close>

definition idle_key :: "string \<Rightarrow> replica_key" where
  "idle_key n = ReplicaKey ''T'' (''native-'' @ n) 0"

definition demo_idle :: idle_sys where
  "demo_idle = \<lparr>id_task = ''T'', id_scheduler = True, id_running = True, id_paused = True, id_capacity = 1, id_per_replica = 1,
     id_order = [idle_key ''0'', idle_key ''1''],
     id_mgr = (new_rmgr (Some ''T''))\<lparr>m_state := [idle_key ''0'' \<mapsto> ACTIVE, idle_key ''1'' \<mapsto> ACTIVE],
       m_kind := [idle_key ''0'' \<mapsto> NATIVE, idle_key ''1'' \<mapsto> NATIVE]\<rparr>,
     id_observed = False, id_signature = None, id_last_sent = None, id_gs = new_gs\<lparr>gs_runners := [''T'' \<mapsto> 1]\<rparr>, id_clock = 0\<rparr>"

definition calm :: "idle_sys tick" where
  "calm = \<lparr>tk_fate = Answered, tk_before = id, tk_after = id, tk_reply = Inr PNone, tk_elapsed = 0\<rparr>"

text \<open>The reply of the first report is lost; before the next round production resumes.\<close>

definition one_lost :: "nat \<Rightarrow> idle_sys tick" where
  "one_lost n = (if n = 1 then calm\<lparr>tk_fate := ReplyLost (BackendError ''lost''), tk_after := (\<lambda>g. g\<lparr>id_paused := False\<rparr>)\<rparr> else calm)"

lemmas idle_eval = reporter_tick_def report_round_def retract_report_def refresh_report_def submit_report_def send_report_def tick_eval
  guard_that_def remote_def pause_def others_before_def others_after_def tick_of_def run_of_def calm_def demo_idle_def idle_key_def
  collect_idle_def active_keys_def kind_of_def gs_submit_idle_report_def report_of_def new_gs_def new_rmgr_def

lemma calm_obeys: "obeys idle_rely (run_of (\<lambda>_. calm) g)" "obeys idle_rely (run_of one_lost g)"
  by (auto simp: obeys_def run_of_def calm_def one_lost_def idle_rely_def listed_def attached_def)

lemma demo_idle_ok: "reporter_ok demo_idle"
  by (simp add: reporter_ok_def remembers_def demo_idle_def listed_def new_gs_def)

text \<open>
  A report whose reply is lost is forgotten by the reporter: when production resumes it sends no
  retraction, so for up to ten seconds the scheduler still accepts a DONATE of a replica that is needed.
\<close>

theorem idle_lost_reply_not_retracted:
  "\<exists>r r' c. obeys idle_rely r \<and> reporter_ok (r_now r)
     \<and> andthen reporter_tick (\<lambda>_. reporter_tick) r = (Inr False, r') \<and> r_await r' = 3
     \<and> collect_idle (r_now r') = Inr [] \<and> id_signature (r_now r') = None
     \<and> c_kind c = DONATE \<and> donate_idle_check 10 c (id_gs (r_now r')) = None"
proof -
  let ?r = "run_of one_lost demo_idle"
  let ?c = "\<lparr>c_operation_id = ''o'', c_kind = DONATE, c_target = idle_key ''0'', c_lease_id = ''l'', c_force = None\<rparr>"
  obtain r' where t: "andthen reporter_tick (\<lambda>_. reporter_tick) ?r = (Inr False, r')"
    and n: "r_await r' = 3" and s: "collect_idle (r_now r') = Inr []" "id_signature (r_now r') = None"
      "gs_idle (id_gs (r_now r')) ''T'' = Some \<lparr>ir_observed_at = 0, ir_candidates = [(idle_key ''0'', NATIVE)]\<rparr>"
    by (simp add: idle_eval one_lost_def)
  have "donate_idle_check 10 ?c (id_gs (r_now r')) = None"
    using s(3) by (simp add: donate_idle_check_def idle_key_def IDLE_REPORT_MAX_AGE_def)
  with t n s calm_obeys(2) demo_idle_ok show ?thesis
    by (intro exI [of _ ?r] exI [of _ r'] exI [of _ ?c]) (simp add: run_of_def)
qed

section \<open>Where the native replicas run\<close>

text \<open>
  What the Rollouter reads of a replica's runtime, of Ray's table of placement groups and of a group
  looked up by its name. The table is read once; the placement of a worker is awaited.
\<close>

record runtime_view =
  rv_rank :: nat
  rv_world :: nat
  rv_workers :: nat
  rv_pgs :: "pg_handle list"

record np_env =
  np_inspect :: "replica_key \<Rightarrow> runtime_view option"
  np_table :: "string \<rightharpoonup> pg_info"
  np_get_pg :: "string \<Rightarrow> pg_handle res"

text \<open>\<open>float(v)\<close> of a number.\<close>

fun py_float :: "pyval \<Rightarrow> pyfloat res" where
  "py_float (PBool b) = Inr (Fin (if b then 1 else 0))"
| "py_float (PInt i) = float_of_int i"
| "py_float (PFloat f) = Inr f"
| "py_float _ = Inl (TypeError ''float() argument must be a number'')"

fun less_one :: "pyfloat \<Rightarrow> bool" where
  "less_one (Fin q) = (q < 1)"
| "less_one NegInf = True"
| "less_one _ = False"

text \<open>The checks before the worker is asked.\<close>

definition np_static :: "np_env \<Rightarrow> replica_key \<Rightarrow> (nat \<times> string \<times> pg_info \<times> string) res" where
  "np_static env key =
     (case np_inspect env key of
        None \<Rightarrow> Inl (RuntimeError ''native replica lacks a verifiable TP=1 CE worker'')
      | Some rt \<Rightarrow>
          if rv_world rt \<noteq> 1 \<or> rv_workers rt \<noteq> 1
          then Inl (RuntimeError ''native replica lacks a verifiable TP=1 CE worker'')
          else
            (case rv_pgs rt of
               [pg] \<Rightarrow>
                 if pgh_bundle_count pg \<noteq> 1 then Inl (RuntimeError ''native replica lacks a unique single-bundle PG'')
                 else
                   (case np_table env (pgh_id pg) of
                      None \<Rightarrow> Inl (RuntimeError ''native replica PG is not CREATED'')
                    | Some info \<Rightarrow>
                        if pgi_state info \<noteq> Some ''CREATED'' then Inl (RuntimeError ''native replica PG is not CREATED'')
                        else
                          (case pgi_name info of
                             Some (c # cs) \<Rightarrow>
                               (case np_get_pg env (c # cs) of
                                  Inl e \<Rightarrow> Inl e
                                | Inr named \<Rightarrow>
                                    if pgh_id named \<noteq> pgh_id pg
                                    then Inl (RuntimeError ''native replica named PG identity changed'')
                                    else Inr (rv_rank rt, pgh_id pg, info, c # cs))
                           | _ \<Rightarrow> Inl (RuntimeError ''native replica PG is not named'')))
             | _ \<Rightarrow> Inl (RuntimeError ''native replica lacks a unique single-bundle PG'')))"

definition np_bundle :: "pyval option \<Rightarrow> string \<Rightarrow> unit res" where
  "np_bundle bundle device =
     (case bundle of
        Some (PDict b) \<Rightarrow>
          (case py_float (pyget_default b device (PInt 0)) of
             Inl e \<Rightarrow> Inl e
           | Inr whole \<Rightarrow>
               if whole \<noteq> Fin 1 then Inl (RuntimeError ''native PG bundle lacks one whole device allocation'')
               else (case py_float (pyget_default b ''CPU'' (PInt 0)) of
                       Inl e \<Rightarrow> Inl e
                     | Inr cpu \<Rightarrow>
                         if less_one cpu then Inl (RuntimeError ''native PG bundle lacks CPU for a borrowed CE actor'')
                         else Inr ()))
      | _ \<Rightarrow> Inl (RuntimeError ''native PG bundle lacks one whole device allocation''))"

text \<open>The checks of what the worker answered, and the row of the result.\<close>

definition np_row :: "replica_key \<Rightarrow> nat \<times> string \<times> pg_info \<times> string \<Rightarrow> pydict \<Rightarrow> pydict res" where
  "np_row key found physical =
     (case found of (rank, pg_id, info, name) \<Rightarrow>
        let node = (case by_index (pgi_nodes info) 0 of None \<Rightarrow> PNone | Some n \<Rightarrow> PStr n);
            device = pyget physical ''resource_name''; gpu = pyget physical ''gpu_uuid'' in
        if pyget physical ''pg_id'' \<noteq> PStr pg_id
        then Inl (RuntimeError ''native CE worker is not a member of its replica-owned PG'')
        else if device \<notin> {PStr ''GPU'', PStr ''NPU''} then Inl (RuntimeError ''unsupported CE resource type'')
        else
          (case np_bundle (by_index (pgi_bundles info) 0) (pystr_of device) of
             Inl e \<Rightarrow> Inl e
           | Inr _ \<Rightarrow>
               if node \<noteq> pyget physical ''node_id'' then Inl (RuntimeError ''native CE node does not match PG bundle'')
               else if \<not> is_nonempty_str gpu
               then Inl (RuntimeError ''native CE did not prove physical accelerator identity'')
               else if \<not> begins_with ''native-'' (replica_id key) then Inl (RuntimeError ''unexpected native replica ID'')
               else if replica_id key \<noteq> ''native-'' @ nat_str rank then Inl (RuntimeError ''native replica rank mismatch'')
               else Inr [(''donor_replica_rank'', PInt (int rank)), (''pg_id'', PStr pg_id), (''pg_name'', PStr name),
                 (''node_id'', node), (''gpu_uuid'', gpu), (''bundle_index'', PInt 0), (''resource_name'', device)]))"

definition np_candidate :: "np_env \<Rightarrow> replica_key \<Rightarrow> (idle_sys, pydict) coro" where
  "np_candidate env key = andthen (lift_res (np_static env key)) (\<lambda>found. andthen outside (\<lambda>placements.
     case placements of
       PTuple [PDict physical] \<Rightarrow> lift_res (np_row key found physical)
     | _ \<Rightarrow> raise (RuntimeError ''native replica has ambiguous CE placement'')))"

text \<open>The loop over the registry; \<open>None\<close> is a replica that is skipped.\<close>

definition np_wanted :: "replica_key \<Rightarrow> idle_sys \<Rightarrow> bool res" where
  "np_wanted key g =
     (if task_session key \<noteq> id_task g \<or> m_kind (id_mgr g) key \<noteq> Some NATIVE then Inr False
      else case m_state (id_mgr g) key of
             None \<Rightarrow> Inl (KeyError ''replica_state'')
           | Some st \<Rightarrow> Inr (st = ACTIVE))"

fun np_collect :: "np_env \<Rightarrow> replica_key list \<Rightarrow> (idle_sys, pydict list) coro" where
  "np_collect env [] = ret []"
| "np_collect env (key # keys) = look (np_wanted key) (\<lambda>wanted. andthen (lift_res wanted) (\<lambda>w.
     if \<not> w then np_collect env keys
     else andthen (np_candidate env key) (\<lambda>row. andthen (np_collect env keys) (\<lambda>rows. ret (row # rows)))))"

definition native_candidates :: "np_env \<Rightarrow> (idle_sys, pydict list) coro" where
  "native_candidates env = look (\<lambda>g. (id_task g, id_order g)) (\<lambda>(task, order).
     guard_that (task \<noteq> []) (RuntimeError ''native placement is unavailable before rollout initialization'')
       (andthen (np_collect env order) (\<lambda>rows.
          ret (sort_key (\<lambda>row. pyint_of (pyget row ''donor_replica_rank'')) rows))))"

text \<open>\<open>K\<close>: the keys a row may belong to.\<close>

definition row_of :: "np_env \<Rightarrow> string \<Rightarrow> replica_key set \<Rightarrow> pydict \<Rightarrow> bool" where
  "row_of env task K row \<longleftrightarrow> (\<exists>key \<in> K. \<exists>found physical. task_session key = task \<and> np_static env key = Inr found
     \<and> np_row key found physical = Inr row)"

definition serving_native :: "idle_sys \<Rightarrow> replica_key set" where
  "serving_native g = {k. m_kind (id_mgr g) k = Some NATIVE \<and> m_state (id_mgr g) k = Some ACTIVE}"

text \<open>The others keep the task's identity and put no further native replica into service; one may leave.\<close>

definition same_task :: "idle_sys \<Rightarrow> idle_sys \<Rightarrow> bool" where
  "same_task g g' \<longleftrightarrow> id_task g' = id_task g \<and> serving_native g' \<subseteq> serving_native g"

abbreviation standing_in :: "string \<Rightarrow> replica_key set \<Rightarrow> idle_sys \<Rightarrow> bool" where
  "standing_in task K g \<equiv> id_task g = task \<and> serving_native g \<subseteq> K"

lemma standing_in_stable [simp]: "stable same_task (standing_in task K)"
  by (auto simp: stable_def same_task_def)

lemma np_candidate_triple:
  assumes "task_session key = task" and "key \<in> K"
  shows "triple same_task (standing_in task K) (np_candidate env key)
    (after_res (\<lambda>row g. row_of env task K row \<and> standing_in task K g) (\<lambda>_ _. True))"
  unfolding np_candidate_def
proof (rule lift_then)
  fix found assume found: "np_static env key = Inr found"
  have "triple same_task (standing_in task K) outside (after_res (\<lambda>_. standing_in task K) (\<lambda>_ _. True))"
    by (rule triple_post [OF triple_outside]) (auto split: sum.splits)
  then show "triple same_task (standing_in task K) (andthen outside (\<lambda>placements.
     case placements of
       PTuple [PDict physical] \<Rightarrow> lift_res (np_row key found physical)
     | _ \<Rightarrow> raise (RuntimeError ''native replica has ambiguous CE placement'')))
    (after_res (\<lambda>row g. row_of env task K row \<and> standing_in task K g) (\<lambda>_ _. True))"
  proof (rule triple_then)
    fix placements
    have lift: "triple same_task (standing_in task K) (lift_res (np_row key found physical))
        (after_res (\<lambda>row g. row_of env task K row \<and> standing_in task K g) (\<lambda>_ _. True))" for physical
      by (rule triple_lift) (use assms found in \<open>unfold row_of_def, blast+\<close>)
    show "triple same_task (standing_in task K) (case placements of
           PTuple [PDict physical] \<Rightarrow> lift_res (np_row key found physical)
         | _ \<Rightarrow> raise (RuntimeError ''native replica has ambiguous CE placement''))
        (after_res (\<lambda>row g. row_of env task K row \<and> standing_in task K g) (\<lambda>_ _. True))"
      by (auto split: pyval.split list.split intro: lift triple_raise)
  qed simp
qed simp

lemma np_collect_triple:
  "triple same_task (standing_in task K) (np_collect env keys)
    (after_res (\<lambda>rows g. list_all (row_of env task K) rows \<and> standing_in task K g) (\<lambda>_ _. True))"
proof (induction keys)
  case Nil
  show ?case by (simp add: triple_ret)
next
  case (Cons key keys)
  let ?Q = "after_res (\<lambda>rows g. list_all (row_of env task K) rows \<and> standing_in task K g) (\<lambda>_ _. True)"
  show ?case unfolding np_collect.simps
  proof (rule triple_look, rule lift_then)
    fix wanted :: "bool res" and w assume w: "wanted = Inr w"
    show "triple same_task (\<lambda>g. standing_in task K g \<and> np_wanted key g = wanted)
       (if \<not> w then np_collect env keys
        else andthen (np_candidate env key) (\<lambda>row. andthen (np_collect env keys) (\<lambda>rows. ret (row # rows)))) ?Q"
    proof (rule triple_if)
      show "triple same_task (\<lambda>g. standing_in task K g \<and> np_wanted key g = wanted) (np_collect env keys) ?Q"
        by (rule triple_pre [OF Cons.IH]) simp
      assume "\<not> \<not> w"
      show "triple same_task (\<lambda>g. standing_in task K g \<and> np_wanted key g = wanted)
          (andthen (np_candidate env key) (\<lambda>row. andthen (np_collect env keys) (\<lambda>rows. ret (row # rows)))) ?Q"
      proof (rule triple_fact [where F = "task_session key = task \<and> key \<in> K"])
        assume k: "task_session key = task \<and> key \<in> K"
        have rest: "triple same_task (\<lambda>g. row_of env task K row \<and> standing_in task K g)
            (andthen (np_collect env keys) (\<lambda>rows. ret (row # rows))) ?Q" for row
          by (rule triple_some, rule triple_then [OF Cons.IH]) (auto intro: triple_ret)
        show ?thesis
          by (rule triple_pre [OF triple_then [OF np_candidate_triple _ rest]]) (use k in auto)
      qed (use w \<open>\<not> \<not> w\<close> in \<open>auto simp: np_wanted_def serving_native_def split: if_splits option.splits\<close>)
    qed
  qed simp
qed

lemma np_bundle_some: "np_bundle x d = Inr () \<Longrightarrow> \<exists>b. x = Some (PDict b)"
  by (auto simp: np_bundle_def split: option.splits pyval.splits)

lemma np_bundle_whole: "np_bundle x d = Inr () \<Longrightarrow> \<exists>b. x = Some (PDict b) \<and> py_float (pyget_default b d (PInt 0)) = Inr (Fin 1)"
  by (auto simp: np_bundle_def split: option.splits pyval.splits sum.splits if_splits)


section \<open>Witnesses\<close>

lemma demo_collect: "collect_idle demo_idle = Inr [(idle_key ''0'', NATIVE)]"
  by (simp add: idle_eval)

theorem idle_surplus_exact_witness:
  "collect_idle demo_idle = Inr (map (\<lambda>k. (k, the (m_kind (id_mgr demo_idle) k)))
      (take (most_spare 1 1 2) (active_keys demo_idle))) \<and> most_spare 1 1 2 = 1"
proof -
  have h: "id_paused demo_idle" "0 < id_capacity demo_idle" "0 < id_per_replica demo_idle"
    "\<forall>k \<in> set (id_order demo_idle). m_kind (id_mgr demo_idle) k \<noteq> None"
    by (simp_all add: demo_idle_def idle_key_def)
  have n: "length (active_keys demo_idle) = 2" by (simp add: active_keys_def demo_idle_def idle_key_def)
  have "nat (max 0 (int 2 - (1 + 1 - 1) div 1)) = most_spare 1 1 2" by (rule surplus_is_most_spare) simp_all
  then have "most_spare 1 1 2 = 1" by simp
  with idle_surplus_exact [OF h] n show ?thesis by (simp add: demo_idle_def)
qed

theorem idle_report_accepted_witness:
  "\<exists>g. gs_submit_idle_report 3 (Some (report_of ''T'' [(idle_key ''0'', NATIVE)])) (id_gs demo_idle) = (Inr 1, g)"
proof -
  have h: "distinct (id_order demo_idle)" "\<forall>k \<in> set (id_order demo_idle). task_session k = ''T''" "''T'' \<noteq> []"
    "gs_runners (id_gs demo_idle) ''T'' \<noteq> None"
    by (simp_all add: demo_idle_def idle_key_def)
  from idle_report_accepted [OF demo_collect h] show ?thesis by simp
qed

theorem idle_report_retracted_witness:
  "\<exists>r'. reporter_tick (run_of (\<lambda>_. calm) (demo_idle\<lparr>id_paused := False, id_observed := True, id_signature := Some [(idle_key ''0'', NATIVE)],
       id_gs := new_gs\<lparr>gs_runners := [''T'' \<mapsto> 1], gs_idle := [''T'' \<mapsto> \<lparr>ir_observed_at = 0, ir_candidates = [(idle_key ''0'', NATIVE)]\<rparr>]\<rparr>\<rparr>))
     = (Inr False, r') \<and> reporter_ok (r_now r')
     \<and> donate_idle_check 5 \<lparr>c_operation_id = ''o'', c_kind = DONATE, c_target = idle_key ''0'', c_lease_id = ''l'', c_force = None\<rparr>
         (id_gs (r_now r')) \<noteq> None"
proof -
  let ?g = "demo_idle\<lparr>id_paused := False, id_observed := True, id_signature := Some [(idle_key ''0'', NATIVE)],
       id_gs := new_gs\<lparr>gs_runners := [''T'' \<mapsto> 1], gs_idle := [''T'' \<mapsto> \<lparr>ir_observed_at = 0, ir_candidates = [(idle_key ''0'', NATIVE)]\<rparr>]\<rparr>\<rparr>"
  let ?c = "\<lparr>c_operation_id = ''o'', c_kind = DONATE, c_target = idle_key ''0'', c_lease_id = ''l'', c_force = None\<rparr>"
  let ?r = "run_of (\<lambda>_. calm) ?g"
  have h: "nothing_lost ?r" "reporter_ok (r_now ?r)"
    by (simp_all add: nothing_lost_def run_of_def calm_def reporter_ok_def remembers_def demo_idle_def)
  obtain r' where t: "reporter_tick ?r = (Inr False, r')" and s: "gs_idle (id_gs (r_now r')) ''T'' \<noteq> None"
    by (simp add: idle_eval)
  have c: "task_session (c_target ?c) = id_task (r_now ?r)" by (simp add: idle_key_def run_of_def demo_idle_def)
  have at: "id_running (r_now (snd (pause 1 ?r))) \<and> collect_idle (r_now (snd (pause 1 ?r))) = Inr []
      \<and> tk_fate (tick_of (snd (pause 1 ?r))) = Answered \<and> attached (r_now ?r) \<and> id_task (r_now ?r) \<noteq> []"
    by (simp add: idle_eval attached_def)
  from idle_report_retracted [OF calm_obeys(1) h t _ HOL.refl HOL.refl c, of 5] at t s c show ?thesis
    by (simp add: run_of_def demo_idle_def)
qed

definition demo_placements :: np_env where
  "demo_placements = \<lparr>np_inspect = (\<lambda>_. Some \<lparr>rv_rank = 0, rv_world = 1, rv_workers = 1, rv_pgs = [\<lparr>pgh_id = ''pg'', pgh_bundle_count = 1\<rparr>]\<rparr>),
     np_table = [''pg'' \<mapsto> \<lparr>pgi_state = Some ''CREATED'', pgi_bundles = [BInt 0 \<mapsto> PDict [(''GPU'', PInt 1), (''CPU'', PInt 1)]],
       pgi_nodes = [BInt 0 \<mapsto> ''n''], pgi_name = Some ''p''\<rparr>],
     np_get_pg = (\<lambda>_. Inr \<lparr>pgh_id = ''pg'', pgh_bundle_count = 1\<rparr>)\<rparr>"


end
