(* ===== verification/Rollout_Client.thy ===== *)
theory Rollout_Client
  imports Async Load_Balancer Rollouter_Drain Replica
begin

text \<open>
  Model of the rollout client of \<open>integration/verl/experimental_fully_async/rollouter.py\<close>: the evidence a
  request leaves when a FORCE exit aborts it (\<open>_ContinuationAwareServer\<close>), the order of a request's
  releases and its next admission (\<open>_release_server\<close>, \<open>_clear_release_fence\<close>, \<open>_acquire_server\<close>), the wait for
  a server during a hand-over, and the names of the reward workers (\<open>_TaskScopedRewardLoopManager\<close>).

  The native client's \<open>_acquire_server\<close> and the server's \<open>generate\<close> are not part of this repository: the
  first is a parameter, the second answers from the schedule. \<open>sha256\<close> is a parameter.
\<close>

section \<open>The digest of a continuation\<close>

definition int_str :: "int \<Rightarrow> string" where
  "int_str i = (if i < 0 then CHR ''-'' # nat_str (nat (- i)) else nat_str (nat i))"

definition prefix_text :: "int list \<Rightarrow> string" where
  "prefix_text xs = concat (map (\<lambda>i. int_str i @ '','') xs)"

definition prefix_digest :: "(string \<Rightarrow> string) \<Rightarrow> int list \<Rightarrow> int list \<Rightarrow> string" where
  "prefix_digest sha prompt tokens = sha (prefix_text (prompt @ tokens))"

text \<open>Reading the tokens back from the text.\<close>

definition parse_int :: "string \<Rightarrow> int" where
  "parse_int s = (case s of c # cs \<Rightarrow> if c = CHR ''-'' then - int (parse_digits cs) else int (parse_digits s) | [] \<Rightarrow> 0)"

fun split_commas :: "string \<Rightarrow> string \<Rightarrow> string list" where
  "split_commas acc [] = []"
| "split_commas acc (c # cs) = (if c = CHR '','' then rev acc # split_commas [] cs else split_commas (c # acc) cs)"

definition parse_prefix :: "string \<Rightarrow> int list" where
  "parse_prefix s = map parse_int (split_commas [] s)"

lemma nat_str_no_sign: "CHR ''-'' \<notin> set (nat_str n)" "CHR '','' \<notin> set (nat_str n)" "nat_str n \<noteq> []"
proof -
  show "CHR ''-'' \<notin> set (nat_str n)" "CHR '','' \<notin> set (nat_str n)" using nat_str_digit by fastforce+
  show "nat_str n \<noteq> []" by (subst nat_str.simps) simp
qed

lemma parse_int_str: "parse_int (int_str i) = i"
proof (cases "i < 0")
  case True
  then show ?thesis by (simp add: int_str_def parse_int_def parse_nat_str)
next
  case False
  then obtain c cs where c: "nat_str (nat i) = c # cs" using nat_str_no_sign(3) by (meson neq_Nil_conv)
  then have "c \<noteq> CHR ''-''" using nat_str_no_sign(1) [of "nat i"] by auto
  then show ?thesis using False c by (simp add: int_str_def parse_int_def) (metis c nat_0_le not_less parse_nat_str)
qed

lemma split_item: "CHR '','' \<notin> set s \<Longrightarrow> split_commas acc (s @ CHR '','' # rest) = (rev acc @ s) # split_commas [] rest"
  by (induction s arbitrary: acc) auto

text \<open>
  The digested text determines the tokens: reading it back gives the prompt and the tokens emitted
  so far, in order, so two different continuations are never digested from the same text.
\<close>

theorem prefix_text_roundtrip: "parse_prefix (prefix_text xs) = xs"
proof (induction xs)
  case (Cons i xs)
  have "CHR '','' \<notin> set (int_str i)" by (simp add: int_str_def nat_str_no_sign)
  then have "split_commas [] (prefix_text (i # xs)) = int_str i # split_commas [] (prefix_text xs)"
    by (simp add: prefix_text_def split_item)
  with Cons show ?case by (simp add: parse_prefix_def parse_int_str)
qed (simp add: parse_prefix_def prefix_text_def)

lemma prefix_text_inject: "prefix_text xs = prefix_text ys \<longleftrightarrow> xs = ys"
  by (metis prefix_text_roundtrip)

section \<open>The minimum of tokens still to emit\<close>

text \<open>The sampling parameters are the caller's dictionary, changed in place.\<close>

definition reduce_minimum :: "nat \<Rightarrow> pyval \<Rightarrow> pyval" where
  "reduce_minimum emitted params =
     (case params of
        PDict d \<Rightarrow>
          (case pyget d ''min_tokens'' of
             PInt m \<Rightarrow> if 0 < emitted then PDict (AList.update ''min_tokens'' (PInt (max 0 (m - int emitted))) d) else params
           | _ \<Rightarrow> params)
      | _ \<Rightarrow> params)"

definition minimum_of :: "pyval \<Rightarrow> pyval" where
  "minimum_of params = (case params of PDict d \<Rightarrow> pyget d ''min_tokens'' | _ \<Rightarrow> PNone)"

text \<open>However a generation is cut into attempts, the minimum counts down by what was emitted, to 0.\<close>

lemma reduce_minimum_of:
  assumes "minimum_of params = PInt m" and "0 \<le> m"
  shows "minimum_of (fold reduce_minimum ns params) = PInt (max 0 (m - int (sum_list ns)))"
  using assms
proof (induction ns arbitrary: params m)
  case (Cons n ns)
  then obtain d where d: "params = PDict d" "pyget d ''min_tokens'' = PInt m" by (cases params) (auto simp: minimum_of_def)
  have "minimum_of (reduce_minimum n params) = PInt (max 0 (m - int n))"
    using Cons.prems(2) by (auto simp: d reduce_minimum_def minimum_of_def)
  from Cons.IH [OF this] have "minimum_of (fold reduce_minimum (n # ns) params) = PInt (max 0 (max 0 (m - int n) - int (sum_list ns)))"
    by simp
  moreover have "max 0 (max 0 (m - int n) - int (sum_list ns)) = max 0 (m - int (sum_list (n # ns)))" by simp
  ultimately show ?case by simp
qed simp

section \<open>An aborted generation\<close>

record 'n cl =
  cl_lb :: "'n lb"
  cl_clock :: int
  cl_sampling :: pyval

text \<open>The attributes of the server's output are read as keys; token ids are integers.\<close>

fun as_int :: "pyval \<Rightarrow> int res" where
  "as_int (PInt i) = Inr i"
| "as_int (PBool b) = Inr (if b then 1 else 0)"
| "as_int _ = Inl (TypeError ''int() argument must be a number'')"

fun attribute :: "pyval \<Rightarrow> string \<Rightarrow> pyval" where
  "attribute (PDict d) k = pyget d k"
| "attribute _ k = PNone"

definition aborted :: "pyval \<Rightarrow> bool" where
  "aborted output \<longleftrightarrow> attribute output ''stop_reason'' \<in> {PStr ''abort'', PStr ''aborted''}"

definition ints_of :: "pyval \<Rightarrow> int list res" where
  "ints_of v = (case py_tuple v of Inl e \<Rightarrow> Inl e | Inr items \<Rightarrow> traverse as_int items)"

definition is_key_error :: "exn \<Rightarrow> bool" where
  "is_key_error e \<longleftrightarrow> (case e of KeyError _ \<Rightarrow> True | _ \<Rightarrow> False)"

text \<open>A remote \<open>KeyError\<close> arrives as it is or as the cause of Ray's error.\<close>

definition confirm_call :: "string \<Rightarrow> string \<Rightarrow> string \<Rightarrow> ('n cl, op_evidence) coro" where
  "confirm_call req client dg = remote (sync (\<lambda>g.
     case lb_confirm (cl_clock g) req client dg (cl_lb g) of (x, s) \<Rightarrow> (x, g\<lparr>cl_lb := s\<rparr>)))"

definition cl_abort :: "(string \<Rightarrow> string) \<Rightarrow> string \<Rightarrow> string \<Rightarrow> pyval \<Rightarrow> pyval \<Rightarrow> ('n cl, pyval) coro" where
  "cl_abort sha req client prompt output =
     andthen (lift_res (py_tuple (attribute output ''token_ids''))) (\<lambda>emitted.
     andthen (sync (\<lambda>g. (Inr (), g\<lparr>cl_sampling := reduce_minimum (length emitted) (cl_sampling g)\<rparr>))) (\<lambda>_.
     andthen (lift_res (ints_of prompt)) (\<lambda>ps. andthen (lift_res (ints_of (attribute output ''token_ids''))) (\<lambda>ts.
       rescue (andthen (confirm_call req client (prefix_digest sha ps ts)) (\<lambda>_. ret output))
         (\<lambda>e. if is_key_error e then ret output else raise e)))))"

definition cl_generate :: "(string \<Rightarrow> string) \<Rightarrow> string \<Rightarrow> string \<Rightarrow> pyval \<Rightarrow> ('n cl, pyval) coro" where
  "cl_generate sha req client prompt = andthen outside (\<lambda>output.
     if aborted output then cl_abort sha req client prompt output else ret output)"

text \<open>
  The rest of the system leaves the request to its owner while it is under way. A drain of its server may
  begin at any time; once begun it stays until the exit is over.
\<close>

definition alone :: "string \<Rightarrow> string \<Rightarrow> 'n cl \<Rightarrow> 'n cl \<Rightarrow> bool" where
  "alone req sid g g' \<longleftrightarrow> map_of (lb_attempt (cl_lb g')) req = map_of (lb_attempt (cl_lb g)) req
     \<and> lb_proofs (cl_lb g') req = lb_proofs (cl_lb g) req \<and> map_of (lb_active (cl_lb g')) req = map_of (lb_active (cl_lb g)) req
     \<and> lb_draining (cl_lb g') sid \<in> (case lb_draining (cl_lb g) sid of None \<Rightarrow> UNIV | Some oid \<Rightarrow> {Some oid})"

text \<open>
  The load balancer's own steps leave it alone: as long as no step is about the request itself, and
  nobody publishes a server under the drained one's name or key, every event keeps its record, and a drain
  of its server that has begun.
\<close>

lemma other_proofs:
  assumes "lb_proofs s req = None" and "request_of e \<noteq> Some req"
  shows "lb_proofs (lb_step N e s) req = None"
proof (cases e)
  case (LAcquire r x)
  then show ?thesis using assms by (cases rule: lb_acquire_cases [of N r x s]) (auto simp: admit_def Let_def)
next
  case (LRelease v rid)
  then show ?thesis using assms by (cases rule: lb_release_cases [of N v rid s]) (auto simp: gc_proofs settle_def)
next
  case (LConfirm t r c d)
  then show ?thesis using assms by (cases rule: lb_confirm_cases [of t r c d s]) (auto simp: request_of_def confirmed_def)
next
  case (LCommit t k v h o')
  then show ?thesis using assms by (cases rule: lb_commit_cases [of N t k v h o' s]) (auto simp: published_def)
next
  case (LDrain k o')
  then show ?thesis using assms by (cases rule: lb_drain_cases [of N k o' s]) auto
next
  case (LFinish k)
  then show ?thesis using assms by (cases rule: lb_finish_cases [of s k N]) (auto simp: gc_proofs)
qed

lemma others_leave_request:
  assumes "router_ok N" and "ledger_inv s" and "lb_draining s sid = None \<or> draining_by N oid target sid s"
    and "map_of (lb_attempt s) req = Some ADMITTED" and "map_of (lb_active s) req = Some sid" and "lb_proofs s req = None"
    and "request_of e \<noteq> Some req" and "cl_lb g = s"
    and "\<forall>t k h o'. e \<noteq> LCommit t k sid h o'" and "\<forall>t v h o'. e \<noteq> LCommit t target v h o'"
  shows "alone req sid g (g\<lparr>cl_lb := lb_step N e s\<rparr>)"
proof (cases "lb_draining s sid = None")
  case True
  with other_request [OF assms(2,7,4)] other_proofs [OF assms(6,7)] assms(4,6,8) show ?thesis by (simp add: alone_def)
next
  case draining: False
  with assms(3) have d: "draining_by N oid target sid s" by blast
  show ?thesis
  proof (cases "\<exists>k. e = LFinish k \<and> map_of (lb_routes s) k = Some sid")
    case True
    have "lb_has_unsettled sid s"
      using assms(4) map_of_SomeD [OF assms(5)] by (force simp: lb_has_unsettled_def lb_requests_for_server_def)
    then have "lb_step N e s = s" using True by (auto simp: lb_finish_remove_def)
    then show ?thesis using assms(8) by (auto simp: alone_def split: option.split)
  next
    case False
    then have "\<forall>k. e = LFinish k \<longrightarrow> map_of (lb_routes s) k \<noteq> Some sid" by blast
    from drain_kept [OF assms(1,2) d assms(9,10) this] have "lb_draining (lb_step N e s) sid = lb_draining s sid"
      using d by (simp add: draining_by_def)
    with other_request [OF assms(2,7,4)] other_proofs [OF assms(6,7)] assms(4,6,8) show ?thesis
      by (auto simp: alone_def split: option.split)
  qed
qed

definition view :: "string \<Rightarrow> 'n cl
    \<Rightarrow> attempt_state option \<times> (string \<times> string \<times> string \<times> op_evidence) option \<times> string option" where
  "view req g = (map_of (lb_attempt (cl_lb g)) req, lb_proofs (cl_lb g) req, map_of (lb_active (cl_lb g)) req)"

definition drains_on :: "string \<Rightarrow> 'n cl \<Rightarrow> 'n cl \<Rightarrow> bool" where
  "drains_on sid g g' \<longleftrightarrow> (\<forall>oid. lb_draining (cl_lb g) sid = Some oid \<longrightarrow> lb_draining (cl_lb g') sid = Some oid)"

lemma drains_on_trans: "drains_on sid g h \<Longrightarrow> drains_on sid h k \<Longrightarrow> drains_on sid g k"
  by (simp add: drains_on_def)

lemma alone_view: "alone req sid g g' \<Longrightarrow> view req g' = view req g \<and> drains_on sid g g'"
  by (simp add: alone_def view_def drains_on_def split: option.splits)

lemma others_view:
  assumes "obeys (alone req sid) r"
  shows "view req (r_now (others_before r)) = view req (r_now r)"
    and "view req (r_now (others_after (tick_of r) d r')) = view req (r_now r')"
    and "drains_on sid (r_now r) (r_now (others_before r))"
    and "drains_on sid (r_now r') (r_now (others_after (tick_of r) d r'))"
  using assms by (auto simp: obeys_def others_before_def others_after_def tick_of_def dest: alone_view)

definition no_key_loss :: "'g run \<Rightarrow> bool" where
  "no_key_loss r \<longleftrightarrow> (\<forall>n e. tk_fate (r_sched r n) \<in> {ReplyLost e, NeverSent e} \<longrightarrow> \<not> is_key_error e)"

text \<open>What the abort does once the output is there.\<close>

lemma abort_steps:
  assumes "cl_abort sha req client prompt output r = (Inr out, r')"
  shows "\<exists>ps ts sp x. ints_of prompt = Inr ps \<and> ints_of (attribute output ''token_ids'') = Inr ts \<and> out = output
    \<and> confirm_call req client (prefix_digest sha ps ts) (r\<lparr>r_now := (r_now r)\<lparr>cl_sampling := sp\<rparr>\<rparr>) = (x, r')
    \<and> (case x of Inl e \<Rightarrow> is_key_error e | Inr _ \<Rightarrow> True)"
  using assms
  by (auto simp: cl_abort_def andthen_def lift_res_def sync_def rescue_def ret_def raise_def split: sum.splits prod.splits if_splits)

lemma confirm_steps:
  assumes "confirm_call req client dg r = (x, r')" and "obeys (alone req sid) r" and "no_key_loss r"
    and "case x of Inl e \<Rightarrow> is_key_error e | Inr _ \<Rightarrow> True" and "g = r_now (others_before r)"
  shows "lb_confirm (cl_clock g) req client dg (cl_lb g) = (x, s)
        \<Longrightarrow> view req (r_now r') = view req (g\<lparr>cl_lb := s\<rparr>) \<and> drains_on sid (g\<lparr>cl_lb := s\<rparr>) (r_now r')"
    and "x = fst (lb_confirm (cl_clock g) req client dg (cl_lb g))"
proof -
  have n: "\<not> is_key_error e" if "tk_fate (tick_of r) = ReplyLost e \<or> tk_fate (tick_of r) = NeverSent e" for e
    using assms(3) that by (auto simp: no_key_loss_def tick_of_def)
  have f: "tk_fate (tick_of r) = Answered"
    using assms(1,4) by (cases "tk_fate (tick_of r)") (auto simp: confirm_call_def remote_def Let_def dest: n [OF disjI1] n [OF disjI2])
  obtain y s' where c: "lb_confirm (cl_clock g) req client dg (cl_lb g) = (y, s')" by fastforce
  have r': "x = y" "r' = others_after (tick_of r) 0 ((others_before r)\<lparr>r_now := g\<lparr>cl_lb := s'\<rparr>\<rparr>)"
    using assms(1,5) f c by (auto simp: confirm_call_def remote_def sync_def Let_def)
  show "x = fst (lb_confirm (cl_clock g) req client dg (cl_lb g))" using r'(1) c by simp
  show "view req (r_now r') = view req (g\<lparr>cl_lb := s\<rparr>) \<and> drains_on sid (g\<lparr>cl_lb := s\<rparr>) (r_now r')"
    if "lb_confirm (cl_clock g) req client dg (cl_lb g) = (x, s)"
    using that c r' others_view(2) [OF assms(2)] others_view(4) [OF assms(2), of "(others_before r)\<lparr>r_now := g\<lparr>cl_lb := s\<rparr>\<rparr>" 0]
    by simp
qed

lemma generate_steps:
  fixes r :: "'n cl run"
  assumes "cl_generate sha req client prompt r = (Inr output, r')" and "aborted output" and "obeys (alone req sid) r" and "no_key_loss r"
  shows "\<exists>ps ts (g :: 'n cl) x s. ints_of prompt = Inr ps \<and> ints_of (attribute output ''token_ids'') = Inr ts
    \<and> view req g = view req (r_now r) \<and> drains_on sid (r_now (snd (outside r))) g
    \<and> lb_confirm (cl_clock g) req client (prefix_digest sha ps ts) (cl_lb g) = (x, s)
    \<and> (case x of Inl e \<Rightarrow> is_key_error e | Inr _ \<Rightarrow> True)
    \<and> view req (r_now r') = view req (g\<lparr>cl_lb := s\<rparr>) \<and> drains_on sid (g\<lparr>cl_lb := s\<rparr>) (r_now r')"
proof -
  let ?r1 = "others_after (tick_of r) 0 (others_before r)"
  have a: "cl_abort sha req client prompt output ?r1 = (Inr output, r')"
    using assms(1,2) abort_steps by (fastforce simp: cl_generate_def andthen_def outside_def ret_def split: sum.splits if_splits)
  from abort_steps [OF a] obtain ps ts sp x where b: "ints_of prompt = Inr ps" "ints_of (attribute output ''token_ids'') = Inr ts"
      "confirm_call req client (prefix_digest sha ps ts) (?r1\<lparr>r_now := (r_now ?r1)\<lparr>cl_sampling := sp\<rparr>\<rparr>) = (x, r')"
      "case x of Inl e \<Rightarrow> is_key_error e | Inr _ \<Rightarrow> True" by blast
  let ?r2 = "?r1\<lparr>r_now := (r_now ?r1)\<lparr>cl_sampling := sp\<rparr>\<rparr>"
  have o: "obeys (alone req sid) ?r2" using assms(3) by simp
  have n: "no_key_loss ?r2" using assms(4) by (simp add: no_key_loss_def others_after_def others_before_def)
  let ?g = "r_now (others_before ?r2)"
  obtain y s where c: "lb_confirm (cl_clock ?g) req client (prefix_digest sha ps ts) (cl_lb ?g) = (y, s)" by fastforce
  note k = confirm_steps [OF b(3) o n b(4) HOL.refl]
  have "view req ?g = view req (r_now ?r2)" by (rule others_view(1) [OF o])
  also have "\<dots> = view req (r_now ?r1)" by (simp add: view_def)
  also have "\<dots> = view req (r_now r)" using others_view(1,2) [OF assms(3)] by simp
  finally have g: "view req ?g = view req (r_now r)" .
  have d: "drains_on sid (r_now (snd (outside r))) ?g"
    using others_view(3) [OF o] by (simp add: drains_on_def outside_def)
  have l: "lb_confirm (cl_clock ?g) req client (prefix_digest sha ps ts) (cl_lb ?g) = (x, s)" using c k(2) by simp
  note f = b(1,2) g d l b(4) conjunct1 [OF k(1) [OF l]] conjunct2 [OF k(1) [OF l]]
  show ?thesis
    by (rule exI [of _ ps], rule exI [of _ ts], rule exI [of _ ?g], rule exI [of _ x], rule exI [of _ s], intro conjI) (rule f)+
qed

definition collision :: "(string \<Rightarrow> string) \<Rightarrow> int list \<Rightarrow> int list \<Rightarrow> bool" where
  "collision sha xs ys \<longleftrightarrow> prefix_text xs \<noteq> prefix_text ys \<and> sha (prefix_text xs) = sha (prefix_text ys)"

text \<open>
  C23: When a generation of an admitted request comes back aborted while its server drains, the drain
  having begun before or during the generation, the client sees the output only after a proof of it is
  with the load balancer: the request counts as terminated by that exit, the proof names the exact tokens
  the client retries with, and but for a collision of the hash it is refused for every other continuation.
  The rest of the system leaves this request to its client and the drain to the exit, and no lost
  confirmation is reported as a KeyError, which the client takes for an abort outside of a drain.
\<close>

theorem force_abort_proven:
  fixes r :: "'n cl run"
  assumes "cl_generate sha req client prompt r = (Inr output, r')" and "aborted output"
    and "obeys (alone req sid) r" and "no_key_loss r" and "s = cl_lb (r_now r)" and "s' = cl_lb (r_now r')"
    and "map_of (lb_attempt s) req = Some ADMITTED" and "map_of (lb_active s) req = Some sid" and "lb_proofs s req = None"
    and "lb_draining (cl_lb (r_now (snd (outside r)))) sid = Some oid"
  shows "\<exists>ps ts ev. ints_of prompt = Inr ps \<and> ints_of (attribute output ''token_ids'') = Inr ts
    \<and> map_of (lb_attempt s') req = Some TERMINATED \<and> lb_proofs s' req = Some (client, prefix_digest sha ps ts, oid, ev)
    \<and> e_type ev = EXIT_READY \<and> e_operation_id ev = oid \<and> lb_draining s' sid = Some oid
    \<and> (\<forall>clock c ps' ts'. is_ok (fst (lb_confirm clock req c (prefix_digest sha ps' ts') s')) \<longrightarrow>
         c = client \<and> (ps' @ ts' = ps @ ts \<or> collision sha (ps' @ ts') (ps @ ts)))"
proof -
  from generate_steps [OF assms(1-4)] obtain ps ts x t and g :: "'n cl" where g: "ints_of prompt = Inr ps"
      "ints_of (attribute output ''token_ids'') = Inr ts" "view req g = view req (r_now r)" "drains_on sid (r_now (snd (outside r))) g"
      "lb_confirm (cl_clock g) req client (prefix_digest sha ps ts) (cl_lb g) = (x, t)"
      "case x of Inl e \<Rightarrow> is_key_error e | Inr _ \<Rightarrow> True" "view req (r_now r') = view req (g\<lparr>cl_lb := t\<rparr>)"
      "drains_on sid (g\<lparr>cl_lb := t\<rparr>) (r_now r')" by blast
  have v: "map_of (lb_attempt (cl_lb g)) req = Some ADMITTED" "map_of (lb_active (cl_lb g)) req = Some sid"
    "lb_draining (cl_lb g) sid = Some oid" "lb_proofs (cl_lb g) req = None"
    using g(3,4) assms(5,7-10) by (simp_all add: view_def drains_on_def)
  then obtain ev where ev: "evidence_now (cl_clock g) oid EXIT_READY [] = Inr ev" "x = Inr ev"
      "lb_proofs t req = Some (client, prefix_digest sha ps ts, oid, ev)" "map_of (lb_attempt t) req = Some TERMINATED"
      "lb_draining t sid = Some oid"
    using g(5,6) by (auto simp: lb_confirm_def is_key_error_def evidence_now_def mk_evidence_def split: if_splits sum.splits)
  then have p: "map_of (lb_attempt s') req = Some TERMINATED" "lb_proofs s' req = Some (client, prefix_digest sha ps ts, oid, ev)"
    "lb_draining s' sid = Some oid"
    using g(7,8) assms(6) by (simp_all add: view_def drains_on_def)
  have "c = client \<and> (ps' @ ts' = ps @ ts \<or> collision sha (ps' @ ts') (ps @ ts))"
    if "is_ok (fst (lb_confirm clock req c (prefix_digest sha ps' ts') s'))" for clock c ps' ts'
    using that p(2) by (auto simp: lb_confirm_def is_ok_def prefix_digest_def collision_def prefix_text_inject split: if_splits)
  moreover have "e_type ev = EXIT_READY" "e_operation_id ev = oid"
    using ev(1) by (auto simp: evidence_now_def mk_evidence_Inr_iff)
  ultimately show ?thesis using g(1,2) p by blast
qed

text \<open>
  An abort outside of a drain, for a weight synchronization, leaves the request as it was; only a drain
  that begins before the confirmation runs still turns it into a proof for that exit.
\<close>

lemma ordinary_abort_untouched:
  fixes r :: "'n cl run"
  assumes "cl_generate sha req client prompt r = (Inr output, r')" and "aborted output"
    and "obeys (alone req sid) r" and "no_key_loss r"
    and "map_of (lb_active (cl_lb (r_now r))) req = Some sid" and "lb_proofs (cl_lb (r_now r)) req = None"
    and "lb_draining (cl_lb (r_now r')) sid = None"
  shows "view req (r_now r') = view req (r_now r)"
proof -
  from generate_steps [OF assms(1-4)] obtain ps ts x t and g :: "'n cl" where g: "view req g = view req (r_now r)"
      "lb_confirm (cl_clock g) req client (prefix_digest sha ps ts) (cl_lb g) = (x, t)"
      "view req (r_now r') = view req (g\<lparr>cl_lb := t\<rparr>)" "drains_on sid (g\<lparr>cl_lb := t\<rparr>) (r_now r')" by blast
  have "t = cl_lb g"
    using g(1,2,4) assms(5-7) by (auto simp: view_def lb_confirm_def drains_on_def split: if_splits option.splits sum.splits)
  with g(1,3) show ?thesis by simp
qed

section \<open>Releases and admissions of one request\<close>

text \<open>
  A release is sent without waiting; its \<open>ObjectRef\<close> is kept as the fence of the request until it is
  done. \<open>cf_refs\<close> are the releases sent so far, \<open>rf_result\<close> the result once the reference is ready. A
  request is idle, waits for its fence, is past it (the native client calls the load balancer, more
  than once when the pool is empty), or holds a server, for which the native client releases it later.
\<close>

record ref =
  rf_server :: string
  rf_request :: string
  rf_result :: "unit res option"

datatype client_phase = Idle | Waiting nat | Admitting | Holding string

record 'n client =
  cf_lb :: "'n lb"
  cf_refs :: "ref list"
  cf_fences :: "string \<rightharpoonup> nat"
  cf_phase :: "string \<Rightarrow> client_phase"

definition in_phase :: "string \<Rightarrow> client_phase \<Rightarrow> 'n client \<Rightarrow> 'n client" where
  "in_phase req p c = c\<lparr>cf_phase := (cf_phase c)(req := p)\<rparr>"

definition cl_release_server :: "string \<Rightarrow> string \<Rightarrow> 'n client \<Rightarrow> 'n client" where
  "cl_release_server sid req c =
     (let c' = c\<lparr>cf_refs := cf_refs c @ [\<lparr>rf_server = sid, rf_request = req, rf_result = None\<rparr>]\<rparr> in
      if req = [] then c' else c'\<lparr>cf_fences := (cf_fences c)(req \<mapsto> length (cf_refs c))\<rparr>)"

text \<open>The end of \<open>_clear_release_fence\<close>, and the same step of \<open>_acquire_server\<close>.\<close>

definition cl_clear_fence :: "string \<Rightarrow> nat \<Rightarrow> 'n client \<Rightarrow> 'n client" where
  "cl_clear_fence req n c = (if cf_fences c req = Some n then c\<lparr>cf_fences := (cf_fences c)(req := None)\<rparr> else c)"

definition cl_enter :: "string \<Rightarrow> 'n client \<Rightarrow> 'n client" where
  "cl_enter req c = in_phase req (case cf_fences c req of None \<Rightarrow> Admitting | Some n \<Rightarrow> Waiting n) c"

text \<open>The awaited release is done; its failure is raised.\<close>

definition cl_pass :: "string \<Rightarrow> nat \<Rightarrow> unit res \<Rightarrow> 'n client \<Rightarrow> 'n client" where
  "cl_pass req n x c = (case x of Inl _ \<Rightarrow> in_phase req Idle c | Inr _ \<Rightarrow> in_phase req Admitting (cl_clear_fence req n c))"

definition settle_ref :: "nat \<Rightarrow> unit res \<Rightarrow> 'n client \<Rightarrow> 'n client" where
  "settle_ref n x c = c\<lparr>cf_refs := (cf_refs c)[n := (cf_refs c ! n)\<lparr>rf_result := Some x\<rparr>]\<rparr>"

text \<open>The load balancer executes a release, whose answer may be lost.\<close>

definition execute_release :: "('n, 'h, 'x) native_router \<Rightarrow> nat \<Rightarrow> exn option \<Rightarrow> 'n client \<Rightarrow> 'n client" where
  "execute_release N n lost c =
     (let req = rf_request (cf_refs c ! n) in
      case lb_release N (rf_server (cf_refs c ! n)) (if req = [] then None else Some req) (cf_lb c) of
        (x, s) \<Rightarrow> settle_ref n (case lost of None \<Rightarrow> x | Some e \<Rightarrow> Inl e) (c\<lparr>cf_lb := s\<rparr>))"

definition pending :: "'n client \<Rightarrow> nat \<Rightarrow> string \<Rightarrow> bool" where
  "pending c n req \<longleftrightarrow> n < length (cf_refs c) \<and> rf_request (cf_refs c ! n) = req \<and> rf_result (cf_refs c ! n) = None"

text \<open>One step of the client, its releases or the load balancer.\<close>

inductive client_step :: "('n, 'h, 'x) native_router \<Rightarrow> 'n client \<Rightarrow> 'n client \<Rightarrow> bool" for N where
  release: "cf_phase c req = Holding sid \<Longrightarrow> client_step N c (in_phase req Idle (cl_release_server sid req c))"
| execute: "pending c n req \<Longrightarrow> client_step N c (execute_release N n lost c)"
| fail: "pending c n req \<Longrightarrow> client_step N c (settle_ref n (Inl e) c)"
| clear: "n < length (cf_refs c) \<Longrightarrow> rf_result (cf_refs c ! n) \<noteq> None \<Longrightarrow> client_step N c (cl_clear_fence req n c)"
| enter: "cf_phase c req = Idle \<Longrightarrow> req \<noteq> [] \<Longrightarrow> client_step N c (cl_enter req c)"
| pass: "cf_phase c req = Waiting n \<Longrightarrow> rf_result (cf_refs c ! n) = Some x \<Longrightarrow> client_step N c (cl_pass req n x c)"
| admit: "cf_phase c req = Admitting \<Longrightarrow> lb_acquire N req x (cf_lb c) = (Inr (sid, h), s)
    \<Longrightarrow> client_step N c (in_phase req (Holding sid) (c\<lparr>cf_lb := s\<rparr>))"
| refuse: "cf_phase c req = Admitting \<Longrightarrow> lb_acquire N req x (cf_lb c) = (y, s) \<Longrightarrow> client_step N c (c\<lparr>cf_lb := s\<rparr>)"
| give_up: "cf_phase c req = Admitting \<Longrightarrow> client_step N c (in_phase req Idle c)"

inductive_cases client_stepE: "client_step N c c'"

definition ref_of :: "'n client \<Rightarrow> string \<Rightarrow> nat \<Rightarrow> bool" where
  "ref_of c req n \<longleftrightarrow> n < length (cf_refs c) \<and> rf_request (cf_refs c ! n) = req"

definition fenced :: "'n client \<Rightarrow> bool" where
  "fenced c \<longleftrightarrow> (\<forall>req n. req \<noteq> [] \<longrightarrow> pending c n req \<longrightarrow> cf_fences c req = Some n
     \<and> (cf_phase c req = Idle \<or> cf_phase c req = Waiting n))
     \<and> (\<forall>req n. cf_phase c req = Waiting n \<or> cf_fences c req = Some n \<longrightarrow> ref_of c req n)"

lemma phase_fields [simp]:
  "cf_refs (in_phase req p c) = cf_refs c" "cf_fences (in_phase req p c) = cf_fences c" "cf_lb (in_phase req p c) = cf_lb c"
  "cf_phase (in_phase req p c) = (cf_phase c)(req := p)" "pending (in_phase req p c) n r = pending c n r"
  "ref_of (in_phase req p c) r n = ref_of c r n"
  by (simp_all add: in_phase_def pending_def ref_of_def)

lemma clear_fields [simp]:
  "cf_refs (cl_clear_fence req n c) = cf_refs c" "cf_phase (cl_clear_fence req n c) = cf_phase c"
  "pending (cl_clear_fence req n c) m r = pending c m r" "ref_of (cl_clear_fence req n c) r m = ref_of c r m"
  "cf_fences (cl_clear_fence req n c) r = (if r = req \<and> cf_fences c r = Some n then None else cf_fences c r)"
  by (auto simp: cl_clear_fence_def pending_def ref_of_def)

lemma done_not_pending: "rf_result (cf_refs c ! n) \<noteq> None \<Longrightarrow> \<not> pending c n r"
  by (simp add: pending_def)

lemma settle_client:
  "cf_phase (settle_ref n x c) = cf_phase c" "cf_fences (settle_ref n x c) = cf_fences c" "length (cf_refs (settle_ref n x c)) = length (cf_refs c)"
  "ref_of (settle_ref n x c) r m = ref_of c r m"
  "pending (settle_ref n x c) m r \<Longrightarrow> pending c m r"
  by (cases "m = n"; auto simp: settle_ref_def pending_def ref_of_def)+

lemma settle_fenced: "fenced c \<Longrightarrow> fenced (settle_ref n x c)"
  by (auto simp: fenced_def settle_client dest: settle_client(5))

lemma release_fields:
  "cf_phase (cl_release_server sid req c) = cf_phase c" "length (cf_refs (cl_release_server sid req c)) = Suc (length (cf_refs c))"
  "cf_fences (cl_release_server sid req c) = (if req = [] then cf_fences c else (cf_fences c)(req \<mapsto> length (cf_refs c)))"
  "ref_of (cl_release_server sid req c) r m \<longleftrightarrow> ref_of c r m \<or> m = length (cf_refs c) \<and> r = req"
  "pending (cl_release_server sid req c) m r \<longleftrightarrow> pending c m r \<or> m = length (cf_refs c) \<and> r = req"
  by (auto simp: cl_release_server_def Let_def pending_def ref_of_def nth_append)

lemma lb_fields [simp]:
  "pending (c\<lparr>cf_lb := s\<rparr>) n r = pending c n r" "ref_of (c\<lparr>cf_lb := s\<rparr>) r n = ref_of c r n"
  "fenced (c\<lparr>cf_lb := s\<rparr>) = fenced c"
  by (simp_all add: fenced_def pending_def ref_of_def)

lemma step_fenced: "client_step N c c' \<Longrightarrow> fenced c \<Longrightarrow> fenced c'"
proof (induction rule: client_step.induct)
  case (release c req sid)
  then show ?case
    by (auto simp: fenced_def release_fields)
next
  case (execute c n req lost)
  then show ?case
    by (auto simp: execute_release_def Let_def intro!: settle_fenced split: prod.splits)
next
  case (fail c n req e)
  then show ?case by (intro settle_fenced)
next
  case (clear n c req)
  then show ?case using done_not_pending [of c n] by (auto simp: fenced_def)
next
  case (enter c req)
  then show ?case by (auto simp: fenced_def cl_enter_def split: option.splits)
next
  case (pass c req n x)
  then show ?case using done_not_pending [of c n] by (auto simp: fenced_def cl_pass_def split: sum.splits)
qed (auto simp: fenced_def)
text \<open>A client starts with no release; what it reaches by any steps is fenced.\<close>

inductive reachable :: "('n, 'h, 'x) native_router \<Rightarrow> 'n client \<Rightarrow> bool" for N where
  start: "reachable N \<lparr>cf_lb = s, cf_refs = [], cf_fences = Map.empty, cf_phase = (\<lambda>_. Idle)\<rparr>"
| more: "reachable N c \<Longrightarrow> client_step N c c' \<Longrightarrow> reachable N c'"

lemma reachable_fenced: "reachable N c \<Longrightarrow> fenced c"
  by (induction rule: reachable.induct) (auto intro: step_fenced, simp add: fenced_def pending_def)

text \<open>
  C30: A retry never overtakes the release of its own request: whenever the client is past its fence
  for a request, or holds a server for it, every release it has sent for that request is over, in
  whatever order releases are executed, lost, failed or cleared and admissions granted or refused.
\<close>

theorem admission_after_releases:
  assumes "reachable N c" and "req \<noteq> []" and "cf_phase c req = Admitting \<or> cf_phase c req = Holding sid"
    and "n < length (cf_refs c)" and "rf_request (cf_refs c ! n) = req"
  shows "rf_result (cf_refs c ! n) \<noteq> None"
  using reachable_fenced [OF assms(1)] assms(2-) unfolding fenced_def pending_def by fastforce

text \<open>
  The request is admitted, released, and the release still under way when the client asks for the next
  server: the client waits; once the load balancer has executed the release, it goes on.
\<close>

definition fresh_client :: "(string \<times> nat) list client" where
  "fresh_client = \<lparr>cf_lb = demo_lb, cf_refs = [], cf_fences = Map.empty, cf_phase = (\<lambda>_. Idle)\<rparr>"

definition holding_client :: "(string \<times> nat) list client" where
  "holding_client = in_phase ''r'' (Holding ''s0'') ((cl_enter ''r'' fresh_client)\<lparr>cf_lb := snd (lb_acquire demo_router ''r'' () demo_lb)\<rparr>)"

definition waiting_client :: "(string \<times> nat) list client" where
  "waiting_client = cl_enter ''r'' (in_phase ''r'' Idle (cl_release_server ''s0'' ''r'' holding_client))"

definition demo_client :: "(string \<times> nat) list client" where
  "demo_client = cl_pass ''r'' 0 (Inr ()) (execute_release demo_router 0 None waiting_client)"

lemmas client_eval = fresh_client_def holding_client_def waiting_client_def demo_client_def cl_enter_def in_phase_def
  cl_release_server_def execute_release_def settle_ref_def cl_pass_def cl_clear_fence_def pending_def Let_def lb_eval

lemma holding_reachable: "reachable demo_router holding_client"
proof -
  have "reachable demo_router fresh_client" by (simp add: fresh_client_def reachable.start)
  then have "reachable demo_router (cl_enter ''r'' fresh_client)"
    by (rule reachable.more) (simp add: client_step.enter fresh_client_def)
  then show ?thesis unfolding holding_client_def
    by (rule reachable.more, intro client_step.admit [where x = "()" and h = 7]) (simp_all add: client_eval)
qed

lemma demo_reachable: "reachable demo_router demo_client"
proof -
  have "reachable demo_router (in_phase ''r'' Idle (cl_release_server ''s0'' ''r'' holding_client))"
    by (rule reachable.more [OF holding_reachable], rule client_step.release) (simp add: holding_client_def)
  then have "reachable demo_router waiting_client"
    unfolding waiting_client_def by (rule reachable.more) (simp add: client_step.enter)
  moreover have "pending waiting_client 0 ''r''" by (simp add: client_eval)
  ultimately have "reachable demo_router (execute_release demo_router 0 None waiting_client)"
    by (blast intro: reachable.more client_step.execute)
  then show ?thesis unfolding demo_client_def
    by (rule reachable.more, intro client_step.pass) (simp_all add: client_eval)
qed

theorem admission_after_releases_witness:
  "cf_phase demo_client ''r'' = Admitting \<and> length (cf_refs demo_client) = 1 \<and> rf_result (cf_refs demo_client ! 0) \<noteq> None"
proof -
  have "cf_phase demo_client ''r'' = Admitting" "length (cf_refs demo_client) = 1" "rf_request (cf_refs demo_client ! 0) = ''r''"
    by (simp_all add: client_eval)
  with admission_after_releases [OF demo_reachable, of "''r''" _ 0] show ?thesis by simp
qed

section \<open>The wait for a server during a hand-over\<close>

text \<open>
  \<open>_acquire_server\<close> past the fence: the native client's answer is the schedule's. An empty pool is
  polled while the load balancer says that a restore is pending, until a deadline.
\<close>

definition EMPTY_POOL :: string where "EMPTY_POOL = ''No available servers in load balancer''"

fun has_text :: "string \<Rightarrow> string \<Rightarrow> bool" where
  "has_text p [] = (p = [])"
| "has_text p (c # cs) = (take (length p) (c # cs) = p \<or> has_text p cs)"

fun is_empty_pool :: "exn \<Rightarrow> bool" where
  "is_empty_pool (RuntimeError m) = has_text EMPTY_POOL m"
| "is_empty_pool (NotImplementedError m) = has_text EMPTY_POOL m"
| "is_empty_pool (GateReentryError m) = has_text EMPTY_POOL m"
| "is_empty_pool (GateFencedError m) = has_text EMPTY_POOL m"
| "is_empty_pool (OperationIdentityError m) = has_text EMPTY_POOL m"
| "is_empty_pool (DuplicateCompletionError m) = has_text EMPTY_POOL m"
| "is_empty_pool _ = False"

definition cl_try :: "('n, 'h, 'x) native_router \<Rightarrow> ('n cl, pyval option) coro" where
  "cl_try N = caught outside (\<lambda>x. case x of
     Inr server \<Rightarrow> ret (Some server)
   | Inl e \<Rightarrow> if is_empty_pool e
       then andthen (query (\<lambda>g. Inr (lb_restore_pending N (cl_lb g)))) (\<lambda>p. if p then ret None else raise e)
       else raise e)"

lemma steady_try [simp]: "steady (cl_try N)"
  unfolding cl_try_def by (rule steady_caught) (auto intro!: steady_andthen split: sum.split)

lemma try_time: "(x, r1) = cl_try N r \<Longrightarrow> r_time r \<le> r_time r1"
  using steadyD [OF steady_try, of r N] by (metis snd_conv)

function cl_wait :: "('n, 'h, 'x) native_router \<Rightarrow> rat \<Rightarrow> ('n cl, pyval) coro" where
  "cl_wait N deadline r =
     (case cl_try N r of
        (Inl e, r1) \<Rightarrow> (Inl e, r1)
      | (Inr (Some server), r1) \<Rightarrow> (Inr server, r1)
      | (Inr None, r1) \<Rightarrow>
          if deadline \<le> r_time r1
          then (Inl (TimeoutError ''No rollout server restored before lifecycle wait deadline''), r1)
          else cl_wait N deadline (snd (pause (1 / 2) r1)))"
  by pat_completeness auto
termination
  by (relation "measure (\<lambda>(N, deadline, r). polls_left (1 / 2) deadline (r_time r))")
    (auto simp: pause_def dest!: try_time intro!: polls_left_decreases)

declare cl_wait.simps [simp del]
definition cl_acquire_wait :: "('n, 'h, 'x) native_router \<Rightarrow> rat \<Rightarrow> ('n cl, pyval) coro" where
  "cl_acquire_wait N drain_timeout r = cl_wait N (r_time r + max 300 drain_timeout) r"

lemma wait_polling:
  "polling (cl_try N) (\<lambda>x. x = Inr None)
     (\<lambda>x. case x of Inl e \<Rightarrow> Inl e | Inr (Some server) \<Rightarrow> Inr server
        | Inr None \<Rightarrow> Inl (TimeoutError ''No rollout server restored before lifecycle wait deadline''))
     (\<lambda>_. 1 / 2) d (cl_wait N d)"
  unfolding polling_def
  by (intro allI, subst cl_wait.simps) (auto split: prod.split sum.split option.split)

lemma try_awaits: "r_await (snd (cl_try N r)) \<le> r_await r + 2"
proof -
  obtain x r1 where o: "outside r = (x, r1)" by fastforce
  then have "r_await r1 = Suc (r_await r)" by (auto simp: outside_def others_before_def others_after_def)
  then show ?thesis
    using query_awaits [of "\<lambda>g. Inr (lb_restore_pending N (cl_lb g))" r1]
    by (auto simp: cl_try_def caught_def o ret_def raise_def andthen_def split: sum.splits prod.splits)
qed

text \<open>The wait ends: with a drain timeout of at most \<open>T \<ge> 300\<close> seconds, after at most \<open>6 T + 6\<close> awaits.\<close>

theorem acquire_wait_bounded:
  assumes "drain_timeout \<le> of_nat T" and "300 \<le> T"
  shows "r_await (snd (cl_acquire_wait N drain_timeout r)) \<le> r_await r + (6 * T + 6)"
proof -
  let ?d = "r_time r + max 300 drain_timeout"
  have "(300 :: rat) \<le> of_nat T" using assms(2) by (metis of_nat_le_iff of_nat_numeral)
  then have "max 300 drain_timeout * 2 \<le> of_int (int (2 * T))" using assms(1) by simp
  then have "\<lceil>max 300 drain_timeout * 2\<rceil> \<le> int (2 * T)" by (simp only: ceiling_le_iff)
  then have p: "polls_left (1 / 2) ?d (r_time r) \<le> Suc (2 * T)" by (simp add: polls_left_def)
  have "r_await (snd (cl_wait N ?d r)) \<le> r_await r + Suc 2 * Suc (polls_left (1 / 2) ?d (r_time r))"
    by (rule poll_bound [OF wait_polling]) (auto simp: min_def intro: order_trans [OF try_awaits])
  with p show ?thesis by (simp add: cl_acquire_wait_def)
qed

text \<open>An empty pool with no restore pending is not waited for: the native error is raised at once.\<close>

lemma wait_fails_fast:
  assumes "outside r = (Inl e, r1)" and "is_empty_pool e"
    and "query (\<lambda>g. Inr (lb_restore_pending N (cl_lb g))) r1 = (Inr False, r2)"
  shows "cl_wait N d r = (Inl e, r2)"
  using assms by (subst cl_wait.simps) (simp add: cl_try_def caught_def andthen_def raise_def)

text \<open>Whatever server the wait returns is an answer of the native client, never made up.\<close>

lemma wait_answer: "cl_wait N d r = (Inr server, r') \<Longrightarrow> \<exists>n. tk_reply (r_sched r n) = Inr server"
proof (induction N d r rule: cl_wait.induct)
  case (1 N d r)
  have s: "r_sched (snd (query f r0)) = r_sched r0" for f and r0 :: "'a cl run"
    by (simp add: query_def remote_def sync_def others_before_def others_after_def Let_def split: fate.split)
  have o: "r_sched (snd (outside r)) = r_sched r" "fst (outside r) = tk_reply (r_sched r (r_await r))"
    by (simp_all add: outside_def others_before_def others_after_def tick_of_def)
  have sch: "r_sched r1 = r_sched r" if "cl_try N r = (x, r1)" for x r1
    using that o(1) by (auto simp: cl_try_def caught_def ret_def raise_def andthen_def split: sum.splits prod.splits if_splits
        dest: arg_cong [where f = "\<lambda>p. r_sched (snd p)"] simp: s)
  obtain x r1 where t: "cl_try N r = (x, r1)" by fastforce
  show ?case
  proof (cases "x = Inr None")
    case True
    then have "cl_wait N d (snd (pause (1 / 2) r1)) = (Inr server, r')" "\<not> d \<le> r_time r1"
      using 1(2) t by (subst (asm) cl_wait.simps; simp split: if_splits)+
    from 1(1) [OF t [symmetric] True HOL.refl this(2,1)] show ?thesis
      using sch [OF t] by (simp add: pause_def others_before_def others_after_def)
  next
    case False
    then have "x = Inr (Some server)" using 1(2) t by (subst (asm) cl_wait.simps) (auto split: sum.splits option.splits)
    then have "tk_reply (r_sched r (r_await r)) = Inr server"
      using t o(2) by (auto simp: cl_try_def caught_def ret_def raise_def andthen_def split: sum.splits prod.splits if_splits)
    then show ?thesis by blast
  qed
qed

section \<open>Names of the reward workers\<close>

text \<open>The index, name and node of every worker; the worker itself is native. No alive node: \<open>i % 0\<close> raises.\<close>

definition reward_name :: "string \<Rightarrow> nat \<Rightarrow> string" where
  "reward_name session i = ''reward_loop_worker_'' @ nat_str i @ ''_mt_'' @ session"

definition reward_workers :: "string \<Rightarrow> nat \<Rightarrow> string list \<Rightarrow> (string \<times> string) list res" where
  "reward_workers session n nodes =
     (if 0 < n \<and> nodes = [] then Inl (BackendError ''integer modulo by zero'')
      else Inr (map (\<lambda>i. (reward_name session i, nodes ! (i mod length nodes))) [0..<n]))"

lemma reward_name_inject: "reward_name s i = reward_name t j \<longleftrightarrow> i = j \<and> s = t"
  using split_at_underscore [of i "''mt_'' @ s" j "''mt_'' @ t"] by (auto simp: reward_name_def)

text \<open>Workers of one task, and of two tasks with different sessions, never share a name.\<close>

lemma reward_workers_distinct:
  assumes "reward_workers s n nodes = Inr ws" and "reward_workers t m nodes' = Inr vs"
  shows "distinct (map fst ws)" and "s \<noteq> t \<Longrightarrow> set (map fst ws) \<inter> set (map fst vs) = {}"
    and "set (map snd ws) \<subseteq> set nodes"
  using assms
  by (auto simp: reward_workers_def distinct_map inj_on_def reward_name_inject comp_def split: if_splits)

text \<open>
  A request of two prompt tokens is under way when a FORCE exit begins to drain its replica; its
  generation comes back aborted after one token.
\<close>

definition drained_cl :: "(string \<times> nat) list cl" where
  "drained_cl = \<lparr>cl_lb = snd (lb_begin_drain demo_router demo_key ''op'' (snd (lb_acquire demo_router ''r'' () demo_lb))),
     cl_clock = 1, cl_sampling = PDict [(''min_tokens'', PInt 4)]\<rparr>"

definition admitted_cl :: "(string \<times> nat) list cl" where
  "admitted_cl = drained_cl\<lparr>cl_lb := snd (lb_acquire demo_router ''r'' () demo_lb)\<rparr>"

definition aborted_output :: pyval where
  "aborted_output = PDict [(''stop_reason'', PStr ''abort''), (''token_ids'', PList [PInt 9])]"

definition drain_begins :: "(string \<times> nat) list cl \<Rightarrow> (string \<times> nat) list cl" where
  "drain_begins g = g\<lparr>cl_lb := snd (lb_begin_drain demo_router demo_key ''op'' (cl_lb g))\<rparr>"

definition answering :: "nat \<Rightarrow> (string \<times> nat) list cl tick" where
  "answering n = \<lparr>tk_fate = Answered, tk_before = drain_begins, tk_after = id, tk_reply = Inr aborted_output, tk_elapsed = 0\<rparr>"

definition demo_prompt :: pyval where "demo_prompt = PList [PInt 7, PInt 8]"

lemma drain_begins_alone: "alone req sid g (drain_begins g)"
  by (auto simp: alone_def drain_begins_def lb_begin_drain_def Let_def split: option.split sum.split prod.split)

theorem force_abort_proven_witness:
  "\<exists>r'. cl_generate id ''r'' ''c'' demo_prompt (run_of answering admitted_cl) = (Inr aborted_output, r')
     \<and> lb_draining (cl_lb admitted_cl) ''s0'' = None
     \<and> map_of (lb_attempt (cl_lb (r_now r'))) ''r'' = Some TERMINATED \<and> cl_sampling (r_now r') = PDict [(''min_tokens'', PInt 3)]"
proof -
  let ?r = "run_of answering admitted_cl"
  have "\<exists>r'. cl_generate id ''r'' ''c'' demo_prompt ?r = (Inr aborted_output, r') \<and> cl_sampling (r_now r') = PDict [(''min_tokens'', PInt 3)]"
    by (simp add: pyget_def pyget_default_def cl_generate_def cl_abort_def confirm_call_def drained_cl_def admitted_cl_def answering_def
        drain_begins_def aborted_output_def demo_prompt_def aborted_def
        ints_of_def reduce_minimum_def prefix_digest_def prefix_text_def run_of_def andthen_def lift_res_def rescue_def ret_def raise_def
        sync_def outside_def remote_def tick_of_def others_before_def others_after_def lb_eval demo_key_def)
  then obtain r' where r: "cl_generate id ''r'' ''c'' demo_prompt ?r = (Inr aborted_output, r')"
      "cl_sampling (r_now r') = PDict [(''min_tokens'', PInt 3)]" by blast
  have "aborted aborted_output" "no_key_loss ?r"
    by (simp_all add: pyget_def pyget_default_def aborted_def aborted_output_def no_key_loss_def run_of_def answering_def)
  moreover have "obeys (alone ''r'' ''s0'') ?r"
    using drain_begins_alone by (auto simp: obeys_def run_of_def answering_def alone_def split: option.split)
  moreover have s: "map_of (lb_attempt (cl_lb (r_now ?r))) ''r'' = Some ADMITTED" "map_of (lb_active (cl_lb (r_now ?r))) ''r'' = Some ''s0''"
      "lb_proofs (cl_lb (r_now ?r)) ''r'' = None" "lb_draining (cl_lb admitted_cl) ''s0'' = None"
    by (simp_all add: run_of_def admitted_cl_def lb_eval demo_key_def)
  moreover have "lb_draining (cl_lb (r_now (snd (outside ?r)))) ''s0'' = Some ''op''"
    by (simp add: run_of_def outside_def others_before_def others_after_def tick_of_def answering_def drain_begins_def
        admitted_cl_def lb_eval demo_key_def)
  ultimately have "map_of (lb_attempt (cl_lb (r_now r'))) ''r'' = Some TERMINATED"
    using force_abort_proven [OF r(1) _ _ _ HOL.refl HOL.refl] by blast
  with r s(4) show ?thesis by blast
qed

end
