(* ===== verification/Startup.thy ===== *)
theory Startup
  imports Replica_Manager Load_Balancer Checkpoint_Manager Group_Scheduler Rollouter
begin

text \<open>
  Model of what brings a task up and ties its components together: the initial routes of the load
  balancer (\<open>llm_server_manager.py\<close>), the initial members of the weight synchronization
  (\<open>trainer.py\<close>, \<open>_setup_checkpoint_manager\<close>), the names of the trainer's resource pools, the
  replacement of the message queue and the notification of a terminal operation (\<open>task_runner.py\<close>), and the
  discovery of the scheduler (\<open>scheduler/discovery.py\<close>). Creating the actors is native: handles,
  answers and failures are arguments.
\<close>

section \<open>The initial members\<close>

text \<open>\<open>getattr(replica, "replica_rank", index)\<close> for every native replica.\<close>

definition ranked :: "(int option \<times> nat) list \<Rightarrow> (int \<times> nat) list" where
  "ranked rs = map (\<lambda>(i, rank, rt). (case rank of None \<Rightarrow> int i | Some r \<Rightarrow> r, rt)) (enumerate 0 rs)"

fun tn_enroll :: "'n native_ce \<Rightarrow> string \<Rightarrow> pyval \<Rightarrow> (int \<times> nat) list \<Rightarrow> 'n ce \<Rightarrow> unit res \<times> 'n ce" where
  "tn_enroll N task version [] E = (Inr (), E)"
| "tn_enroll N task version ((rank, rt) # rest) E =
     (case native_replica_key task rank 0 of
        Inl e \<Rightarrow> (Inl e, E)
      | Inr key \<Rightarrow>
          (case ce_add_effective N key [rt] version E of
             (Inl e, E') \<Rightarrow> (Inl e, E')
           | (Inr _, E') \<Rightarrow> tn_enroll N task version rest E'))"

text \<open>\<open>n\<close> is the native manager, constructed with the replicas of the rollouter.\<close>

definition tn_setup ::
    "'n native_ce \<Rightarrow> string option \<Rightarrow> pyval \<Rightarrow> (int option \<times> nat) list \<Rightarrow> 'n \<Rightarrow> unit res \<times> 'n ce" where
  "tn_setup N session version replicas n =
     (case session of
        Some (c # cs) \<Rightarrow> tn_enroll N (c # cs) version (ranked replicas) (new_ce n)
      | _ \<Rightarrow> (Inl (RuntimeError ''Trainer requires task_session before CE membership setup''), new_ce n))"

section \<open>The initial routes\<close>

text \<open>The items of the dictionary, in the order in which the runtimes were registered.\<close>

definition route_items :: "(nat \<Rightarrow> string option \<times> nat option) \<Rightarrow> replica_key list \<Rightarrow> rmgr \<Rightarrow> (replica_key \<times> string) list" where
  "route_items slot order s = List.map_filter (\<lambda>k. map_option (Pair k) (rm_initial_routes slot s k)) order"

section \<open>The three views agree\<close>

text \<open>All registered replicas are ACTIVE and native.\<close>

definition all_native :: "rmgr \<Rightarrow> bool" where
  "all_native s \<longleftrightarrow> (\<forall>k. m_state s k = map_option (\<lambda>_. ACTIVE) (m_runtime s k)
     \<and> m_kind s k = map_option (\<lambda>_. NATIVE) (m_runtime s k))"

lemma register_native:
  assumes "rm_register key NATIVE ACTIVE (Some rt) s = (Inr u, s')" and "all_native s"
  shows "all_native s'" and "m_runtime s' = (m_runtime s)(key \<mapsto> rt)"
    and "m_runtime s key = None \<or> m_runtime s key = Some rt"
proof -
  have "s' = s \<and> m_runtime s key = Some rt \<or> m_runtime s key = None
      \<and> s' = s\<lparr>m_kind := (m_kind s)(key \<mapsto> NATIVE), m_state := (m_state s)(key \<mapsto> ACTIVE), m_runtime := (m_runtime s)(key \<mapsto> rt)\<rparr>"
    using assms by (cases "m_runtime s key")
      (auto simp: rm_register_def all_native_def validate_kind_state_def split: if_splits option.splits)
  then show "all_native s'" "m_runtime s' = (m_runtime s)(key \<mapsto> rt)" "m_runtime s key = None \<or> m_runtime s key = Some rt"
    using assms(2) by (auto simp: all_native_def fun_upd_idem)
qed

lemma graph_iff: "(k, v) \<in> Map.graph m \<longleftrightarrow> m k = Some v"
  by (simp add: Map.graph_def)

lemma graph_insert: "m k = None \<or> m k = Some v \<Longrightarrow> Map.graph (m(k \<mapsto> v)) = insert (k, v) (Map.graph m)"
  by (auto simp: Map.graph_def split: if_splits)

text \<open>What a replica list means, whichever component reads it.\<close>

definition keyed :: "string \<Rightarrow> (int \<times> nat) list \<Rightarrow> (replica_key \<times> nat) set" where
  "keyed task ns = {(k, rt). \<exists>rank. (rank, rt) \<in> set ns \<and> native_replica_key task rank 0 = Inr k}"

lemma keyed_Cons: "native_replica_key task rank 0 = Inr k \<Longrightarrow> keyed task ((rank, rt) # ns) = insert (k, rt) (keyed task ns)"
  by (auto simp: keyed_def)

lemma manager_views:
  assumes "rm_register_native task ns s = (Inr u, s')" and "all_native s"
  shows "all_native s' \<and> Map.graph (m_runtime s') = Map.graph (m_runtime s) \<union> keyed task ns"
  using assms
proof (induction task ns s rule: rm_register_native.induct)
  case (1 task s)
  then show ?case by (simp add: keyed_def)
next
  case (2 task rank rt rest s)
  from 2(2) obtain key v s1 where k: "native_replica_key task rank 0 = Inr key"
      "rm_register key NATIVE ACTIVE (Some rt) s = (Inr v, s1)"
      "rm_register_native task rest (s1\<lparr>m_next_rank := max (m_next_rank s1) (rank + 1)\<rparr>) = (Inr u, s')"
    by (auto split: sum.splits prod.splits)
  note r = register_native [OF k(2) 2(3)]
  let ?s1 = "s1\<lparr>m_next_rank := max (m_next_rank s1) (rank + 1)\<rparr>"
  have "all_native ?s1" using r(1) by (simp add: all_native_def)
  from 2(1) [OF k(1) k(2) [symmetric] HOL.refl k(3) this]
  have "all_native s'" "Map.graph (m_runtime s') = Map.graph (m_runtime s1) \<union> keyed task rest" by simp_all
  moreover have "Map.graph (m_runtime s1) = insert (key, rt) (Map.graph (m_runtime s))"
    using graph_insert [of "m_runtime s" key rt] r(2,3) by simp
  ultimately show ?case by (simp add: keyed_Cons [OF k(1)])
qed

lemma trainer_views:
  assumes "tn_enroll N task version ns E = (Inr u, E')"
  shows "Map.graph (map_of (ce_effective E')) = Map.graph (map_of (ce_effective E)) \<union> (\<lambda>(k, rt). (k, [rt], pyint_of version)) ` keyed task ns
    \<and> ce_pending E' = ce_pending E"
  using assms
proof (induction ns arbitrary: E)
  case Nil
  then show ?case by (simp add: keyed_def)
next
  case (Cons n ns)
  obtain rank rt where n: "n = (rank, rt)" by fastforce
  with Cons.prems obtain key v E1 where k: "native_replica_key task rank 0 = Inr key"
      "ce_add_effective N key [rt] version E = (Inr v, E1)" "tn_enroll N task version ns E1 = (Inr u, E')"
    by (auto split: sum.splits prod.splits)
  let ?m = "map_of (ce_effective E)" and ?x = "([rt], pyint_of version)"
  have "map_of (ce_effective E1) = ?m(key \<mapsto> ?x)" "?m key = None \<or> ?m key = Some ?x" "ce_pending E1 = ce_pending E"
    using k(2) by (cases rule: ce_add_cases [of N key "[rt]" version E]; auto simp: update_conv')+
  with graph_insert [of ?m key ?x]
  have "Map.graph (map_of (ce_effective E1)) = insert (key, ?x) (Map.graph ?m) \<and> ce_pending E1 = ce_pending E" by metis
  with Cons.IH [OF k(3)] show ?case by (simp add: n keyed_Cons [OF k(1)])
qed

lemma routes_exact:
  "init_routes servers acc items = Inr routes \<Longrightarrow> distinct (map fst items) \<Longrightarrow>
     map_of routes k = (case map_of items k of None \<Rightarrow> map_of acc k | Some sid \<Rightarrow> Some sid)
     \<and> (\<forall>sid. map_of items k = Some sid \<longrightarrow> map_of servers sid \<noteq> None)"
  by (induction servers acc items arbitrary: routes rule: init_routes.induct)
    (auto simp: update_conv' split: if_splits option.splits dest: map_of_SomeD, (force dest: map_of_SomeD)+)

lemma route_items_exact:
  assumes "distinct order"
  shows "distinct (map fst (route_items slot order M))"
    and "map_of (route_items slot order M) k = (if k \<in> set order then rm_initial_routes slot M k else None)"
  using assms by (induction order) (auto simp: route_items_def map_filter_def map_of_eq_None_iff image_iff split: option.splits)

text \<open>
  C14: A task starts in agreement: when the manager, the trainer and the load balancer came up from the
  same native replicas, a replica is registered exactly when it is an effective receiver of weights, as
  the same runtime in both and at the version of the trainer; it is ACTIVE and native; nothing is
  pending; and it is routed exactly when its runtime has an address, to the server at that address, which the
  load balancer knows.
\<close>

theorem startup_agrees:
  assumes "rm_initialize (ranked replicas) addresses handles (new_rmgr session) = (Inr u, M)"
    and "tn_setup N session version replicas n = (Inr v, E)"
    and "new_lb R r0 (route_items slot order M) = Inr L" and "distinct order" and "set order = dom (m_runtime M)"
  shows "(m_runtime M key = Some rt \<longleftrightarrow> map_of (ce_effective E) key = Some ([rt], pyint_of version))
    \<and> (m_state M key \<noteq> None \<longleftrightarrow> map_of (ce_effective E) key \<noteq> None)
    \<and> (m_runtime M key = Some rt \<longrightarrow> m_state M key = Some ACTIVE \<and> m_kind M key = Some NATIVE) \<and> ce_pending E = []
    \<and> (map_of (lb_routes L) key = Some sid \<longleftrightarrow>
         (\<exists>rt. map_of (ce_effective E) key = Some ([rt], pyint_of version) \<and> fst (slot rt) = Some sid \<and> sid \<noteq> []))
    \<and> (map_of (lb_routes L) key = Some sid \<longrightarrow> map_of (nr_servers R r0) sid \<noteq> None)"
proof -
  obtain task where t: "session = Some task" "rm_register_native task (ranked replicas)
        ((new_rmgr session)\<lparr>m_replicas := map snd (ranked replicas), m_addresses := addresses, m_handles := handles\<rparr>) = (Inr u, M)"
      "tn_enroll N task version (ranked replicas) (new_ce n) = (Inr v, E)"
    using assms(1,2) by (auto simp: rm_initialize_def tn_setup_def new_rmgr_def Let_def split: option.splits list.splits)
  have m: "all_native M" "Map.graph (m_runtime M) = keyed task (ranked replicas)"
    using manager_views [OF t(2)] by (auto simp: all_native_def new_rmgr_def Map.graph_def)
  have e: "Map.graph (map_of (ce_effective E)) = (\<lambda>(k, rt). (k, [rt], pyint_of version)) ` keyed task (ranked replicas)"
      "ce_pending E = []"
    using trainer_views [OF t(3)] by (auto simp: new_ce_def Map.graph_def)
  have same: "map_of (ce_effective E) k = map_option (\<lambda>rt. ([rt], pyint_of version)) (m_runtime M k)" for k
  proof (cases "m_runtime M k")
    case None
    then have "(k, rt) \<notin> keyed task (ranked replicas)" for rt unfolding m(2) [symmetric] by (simp add: graph_iff)
    then have "(k, x) \<notin> Map.graph (map_of (ce_effective E))" for x unfolding e(1) by auto
    then have "map_of (ce_effective E) k \<noteq> Some x" for x by (simp add: graph_iff)
    then show ?thesis using None by (cases "map_of (ce_effective E) k") auto
  next
    case (Some rt)
    then have "(k, [rt], pyint_of version) \<in> Map.graph (map_of (ce_effective E))" unfolding e(1) m(2) [symmetric]
      by (force simp: graph_iff)
    then show ?thesis using Some by (simp add: graph_iff)
  qed
  have st: "m_state M k = map_option (\<lambda>_. ACTIVE) (m_runtime M k)" "m_kind M k = map_option (\<lambda>_. NATIVE) (m_runtime M k)" for k
    using m(1) by (simp_all add: all_native_def)
  have routes: "map_of (lb_routes L) key = rm_initial_routes slot M key"
    "map_of (lb_routes L) key = Some sid \<Longrightarrow> map_of (nr_servers R r0) sid \<noteq> None"
  proof -
    have "rm_initial_routes slot M key = None" if "key \<notin> dom (m_runtime M)"
      using that by (auto simp: rm_initial_routes_def split: option.splits)
    moreover have "init_routes (nr_servers R r0) [] (route_items slot order M) = Inr (lb_routes L)"
      using assms(3) by (auto simp: new_lb_def map_res_Inr_iff)
    moreover note exact = routes_exact [OF this route_items_exact(1) [OF assms(4)], of key, unfolded route_items_exact(2) [OF assms(4)]]
    ultimately show "map_of (lb_routes L) key = rm_initial_routes slot M key"
      "map_of (lb_routes L) key = Some sid \<Longrightarrow> map_of (nr_servers R r0) sid \<noteq> None"
      using assms(5) by (auto split: option.splits if_splits)
  qed
  show ?thesis
    using routes(2) unfolding routes(1)
    by (auto simp: same st e(2) rm_initial_routes_def split: option.splits list.splits if_splits)
qed

text \<open>Two native replicas of which the second has no rank of its own.\<close>

definition demo_replicas :: "(int option \<times> nat) list" where "demo_replicas = [(Some 0, 5), (None, 6)]"

definition demo_slots :: "nat \<Rightarrow> string option \<times> nat option" where
  "demo_slots rt = (if rt = 5 then (Some ''s0'', Some 7) else (Some ''s1'', Some 8))"

theorem startup_agrees_witness:
  "\<exists>M E L. rm_initialize (ranked demo_replicas) [''s0'', ''s1''] [7, 8] (new_rmgr (Some ''T'')) = (Inr (), M)
     \<and> tn_setup list_native (Some ''T'') (PInt 3) demo_replicas [5, 6] = (Inr (), E)
     \<and> new_lb demo_router [(''s0'', 7), (''s1'', 8)]
         (route_items demo_slots [ReplicaKey ''T'' ''native-0'' 0, ReplicaKey ''T'' ''native-1'' 0] M) = Inr L
     \<and> map_of (lb_routes L) (ReplicaKey ''T'' ''native-0'' 0) = Some ''s0''
     \<and> map_of (lb_routes L) (ReplicaKey ''T'' ''native-1'' 0) = Some ''s1''
     \<and> map_of (ce_effective E) (ReplicaKey ''T'' ''native-0'' 0) = Some ([5], 3)
     \<and> map_of (ce_effective E) (ReplicaKey ''T'' ''native-1'' 0) = Some ([6], 3)"
proof -
  let ?k0 = "ReplicaKey ''T'' ''native-0'' 0" and ?k1 = "ReplicaKey ''T'' ''native-1'' 0"
  let ?servers = "[(''s0'', 7), (''s1'', 8)] :: (string \<times> nat) list"
  have n: "nat_str 0 = ''0''" "nat_str (Suc 0) = ''1''" by (simp_all add: nat_str.simps char_of_def bit_0)
  note start = rm_initialize_def ranked_def demo_replicas_def new_rmgr_def native_replica_key_def mk_replica_key_def
    rm_register_def validate_kind_state_def Let_def n route_items_def map_filter_def rm_initial_routes_def demo_slots_def
    new_lb_def demo_router_def
  obtain M where m: "rm_initialize (ranked demo_replicas) [''s0'', ''s1''] [7, 8] (new_rmgr (Some ''T'')) = (Inr (), M)"
      "m_runtime M = [?k0 \<mapsto> 5, ?k1 \<mapsto> 6]"
      "\<exists>L. new_lb demo_router ?servers (route_items demo_slots [?k0, ?k1] M) = Inr L"
    by (simp add: start)
  then obtain L where l: "new_lb demo_router ?servers (route_items demo_slots [?k0, ?k1] M) = Inr L"
    by blast
  obtain E where e: "tn_setup list_native (Some ''T'') (PInt 3) demo_replicas [5, 6] = (Inr (), E)"
    by (simp add: tn_setup_def ranked_def demo_replicas_def new_ce_def native_replica_key_def mk_replica_key_def
        ce_add_effective_def ce_validate_membership_def shares_def list_native_def Let_def n)
  have order: "distinct [?k0, ?k1]" "set [?k0, ?k1] = dom (m_runtime M)" by (auto simp: m(2))
  note a = startup_agrees [OF m(1) e l order]
  have k: "map_of (ce_effective E) ?k0 = Some ([5], 3)" "map_of (ce_effective E) ?k1 = Some ([6], 3)"
    using a [of ?k0 5] a [of ?k1 6] m(2) by auto
  then have "map_of (lb_routes L) ?k0 = Some ''s0''" "map_of (lb_routes L) ?k1 = Some ''s1''"
    using a [of ?k0 5 "''s0''"] a [of ?k1 6 "''s1''"] by (auto simp: demo_slots_def)
  with m(1) e l k show ?thesis by blast
qed

section \<open>The trainer's resource pools\<close>

definition pool_name :: "string \<Rightarrow> string \<Rightarrow> string" where
  "pool_name session name = name @ ''_mt_'' @ session @ ''_''"

text \<open>\<open>spec\<close> and \<open>mapping\<close> are the items of the two dictionaries; a role of an unknown pool raises.\<close>

definition scope_pools ::
    "string option \<Rightarrow> (string \<times> 'p) list \<Rightarrow> ('r \<times> string) list \<Rightarrow> ((string \<times> 'p) list \<times> ('r \<times> string) list) res" where
  "scope_pools session spec mapping =
     (case session of
        Some (c # cs) \<Rightarrow>
          map_res (Pair (map (\<lambda>(name, p). (pool_name (c # cs) name, p)) spec))
            (traverse (\<lambda>(role, name). if map_of spec name = None then Inl (KeyError ''pool_names'')
               else Inr (role, pool_name (c # cs) name)) mapping)
      | _ \<Rightarrow> Inl (RuntimeError ''Trainer resource pools require task_session''))"

lemma pool_name_inject [simp]: "pool_name s n = pool_name s m \<longleftrightarrow> n = m"
  by (simp add: pool_name_def)

lemma scoped_spec: "map_of (map (\<lambda>(name, p). (pool_name s name, p)) spec) (pool_name s n) = map_of spec n"
  by (induction spec) auto

lemma scoped_roles:
  "traverse (\<lambda>(role, name). if map_of spec name = None then Inl (KeyError ''pool_names'') else Inr (role, pool_name s name)) mapping = Inr roles
    \<Longrightarrow> map_of roles r = map_option (pool_name s) (map_of mapping r)"
proof (induction mapping arbitrary: roles)
  case (Cons x mapping)
  then show ?case by (cases x) (auto simp: map_res_Inr_iff split: if_splits)
qed simp

text \<open>
  Scoping the pools changes their names and nothing else: every role gets the resources it had, no two
  pools of the task get one name, and another task's pool of the same native name has another name.
\<close>

theorem pools_scoped:
  assumes "scope_pools session spec mapping = Inr (spec', mapping')" and "distinct (map fst spec)"
  shows "distinct (map fst spec') \<and> map snd spec' = map snd spec
    \<and> Option.bind (map_of mapping' role) (map_of spec') = Option.bind (map_of mapping role) (map_of spec)
    \<and> (other \<noteq> the session \<longrightarrow> map_of spec n \<noteq> None \<longrightarrow> pool_name other n \<noteq> pool_name (the session) n)"
proof -
  obtain s where s: "session = Some s" "spec' = map (\<lambda>(name, p). (pool_name s name, p)) spec"
      "map_of mapping' role = map_option (pool_name s) (map_of mapping role)"
    using assms(1) scoped_roles by (fastforce simp: scope_pools_def map_res_Inr_iff split: option.splits list.splits)
  have "Option.bind (map_of mapping' role) (map_of spec') = Option.bind (map_of mapping role) (map_of spec)"
    by (cases "map_of mapping role") (simp_all add: s scoped_spec)
  moreover have "distinct (map (pool_name s) (map fst spec))"
    unfolding distinct_map [of "pool_name s"] using assms(2) by (simp add: inj_on_def)
  then have "distinct (map fst spec')" by (simp add: s(2) comp_def split_beta)
  moreover have "map snd spec' = map snd spec" by (simp add: s(2) split_beta)
  ultimately show ?thesis by (simp add: s(1) pool_name_def)
qed

theorem pools_scoped_witness:
  "\<exists>spec mapping. scope_pools (Some ''A'') [(''train'', [8 :: nat])] [(0 :: nat, ''train'')] = Inr (spec, mapping)
     \<and> distinct (map fst spec) \<and> Option.bind (map_of mapping 0) (map_of spec) = Some [8]"
proof -
  have s: "scope_pools (Some ''A'') [(''train'', [8 :: nat])] [(0 :: nat, ''train'')]
      = Inr ([(''train_mt_A_'', [8])], [(0, ''train_mt_A_'')])"
    by (simp add: scope_pools_def pool_name_def)
  from pools_scoped [OF s, of 0] s show ?thesis by simp
qed

section \<open>The message queue of the task\<close>

text \<open>
  The components the runner keeps, the queue clients of the two actors, and which queues were killed.
  \<open>qe_size\<close> and the others are the answers of the calls, in their order.
\<close>

record queue_sys =
  qs_queue :: nat
  qs_client :: nat
  qs_rollouter :: "nat option"
  qs_trainer :: "nat option"
  qs_killed :: "nat set"

record queue_env =
  qe_size :: "int res"
  qe_max :: "int res"
  qe_kill :: "exn option"
  qe_new :: "nat res"
  qe_rollouter :: "exn option"
  qe_trainer :: "exn option"

definition tr_set_clients :: "queue_env \<Rightarrow> nat \<Rightarrow> queue_sys \<Rightarrow> unit res \<times> queue_sys" where
  "tr_set_clients env q s =
     (let s' = s\<lparr>qs_rollouter := (if qe_rollouter env = None then Some q else qs_rollouter s),
                qs_trainer := (if qe_trainer env = None then Some q else qs_trainer s)\<rparr> in
      case (qe_rollouter env, qe_trainer env) of
        (Some e, _) \<Rightarrow> (Inl e, s')
      | (None, Some e) \<Rightarrow> (Inl e, s')
      | (None, None) \<Rightarrow> (Inr (), s'))"

definition tr_replace_queue :: "queue_env \<Rightarrow> queue_sys \<Rightarrow> unit res \<times> queue_sys" where
  "tr_replace_queue env s =
     (case qe_size env of
        Inl e \<Rightarrow> (Inl e, s)
      | Inr n \<Rightarrow>
          if n \<noteq> 0 then (Inl (RuntimeError ''cannot replace native MessageQueue after samples have been enqueued''), s)
          else (case qe_max env of
                  Inl e \<Rightarrow> (Inl e, s)
                | Inr _ \<Rightarrow>
                    (case qe_kill env of
                       Some e \<Rightarrow> (Inl e, s)
                     | None \<Rightarrow>
                         (let s1 = s\<lparr>qs_killed := insert (qs_queue s) (qs_killed s)\<rparr> in
                          case qe_new env of
                            Inl e \<Rightarrow> (Inl e, s1)
                          | Inr q \<Rightarrow> tr_set_clients env q (s1\<lparr>qs_queue := q, qs_client := q\<rparr>)))))"

text \<open>No sample is lost: only a queue seen empty is killed; and the task only starts with both actors on
  the new queue, which is the one the runner keeps.\<close>

lemma replace_queue_safe:
  assumes "tr_replace_queue env s = (x, s')"
  shows "qs_killed s' \<noteq> qs_killed s \<longrightarrow> qe_size env = Inr 0 \<and> qs_killed s' = insert (qs_queue s) (qs_killed s)"
    and "x = Inr u \<Longrightarrow> qs_rollouter s' = Some (qs_queue s') \<and> qs_trainer s' = Some (qs_queue s')
      \<and> qs_client s' = qs_queue s' \<and> qe_size env = Inr 0"
  using assms by (auto simp: tr_replace_queue_def tr_set_clients_def Let_def split: sum.splits if_splits option.splits)

section \<open>The notification of a terminal operation\<close>

text \<open>
  The end of \<open>_finish\<close>: the Rollouter is asked twice at most to drop its binding; failures are logged.
  Each attempt has a fate; the operation itself never raises for a nonempty id.
\<close>

fun tr_clear_binding :: "string \<Rightarrow> fate list \<Rightarrow> ('n, 'z) ro_scheme \<Rightarrow> ('n, 'z) ro_scheme" where
  "tr_clear_binding oid [] g = g"
| "tr_clear_binding oid (Answered # fs) g =
     (case ro_clear_binding oid g of (Inr _, g') \<Rightarrow> g' | (Inl _, g') \<Rightarrow> tr_clear_binding oid fs g')"
| "tr_clear_binding oid (ReplyLost e # fs) g = tr_clear_binding oid fs (snd (ro_clear_binding oid g))"
| "tr_clear_binding oid (NeverSent e # fs) g = tr_clear_binding oid fs g"

definition tr_notify :: "op_status \<Rightarrow> string \<Rightarrow> fate \<times> fate \<Rightarrow> ('n, 'z) ro_scheme \<Rightarrow> ('n, 'z) ro_scheme" where
  "tr_notify st oid fates g = (if st \<in> {SUCCEEDED, FAILED} then tr_clear_binding oid [fst fates, snd fates] g else g)"

definition unsent :: "fate \<Rightarrow> bool" where
  "unsent f \<longleftrightarrow> (case f of NeverSent _ \<Rightarrow> True | _ \<Rightarrow> False)"

text \<open>
  A terminal operation's binding is dropped unless both calls never reached the Rollouter; an UNKNOWN
  operation keeps its binding, and no other operation's binding, no replica and no route is touched.
\<close>

lemma notify_binding:
  assumes "oid \<noteq> []"
  shows "ro_targets (tr_notify st oid fates g) = (if st \<in> {SUCCEEDED, FAILED} \<and> \<not> (unsent (fst fates) \<and> unsent (snd fates))
      then (ro_targets g)(oid := None) else ro_targets g)"
    and "ro_mgr (tr_notify st oid fates g) = ro_mgr g" and "ro_lb (tr_notify st oid fates g) = ro_lb g"
  using assms by (cases fates; cases "fst fates"; cases "snd fates"; simp add: tr_notify_def ro_clear_binding_def unsent_def)+

section \<open>Discovery of the scheduler\<close>

definition RUNTIME_KIND :: string where
  "RUNTIME_KIND = ''verl-multi-task:experimental_fully_async_standalone:092203-r2''"

text \<open>The named actors of the cluster; the creation of the scheduler returns the existing one, if any.\<close>

definition find_scheduler :: "bool \<Rightarrow> nat res \<Rightarrow> (nat \<Rightarrow> string res) \<Rightarrow> nat res" where
  "find_scheduler initialized get_or_create kind_of_actor =
     (if \<not> initialized then Inl (RuntimeError ''GroupScheduler discovery requires native Ray initialization first'')
      else case get_or_create of
        Inl e \<Rightarrow> Inl e
      | Inr h \<Rightarrow> (case kind_of_actor h of
          Inl e \<Rightarrow> Inl e
        | Inr k \<Rightarrow> if k \<noteq> RUNTIME_KIND then Inl (RuntimeError ''The named GroupScheduler belongs to an incompatible runtime'')
                  else Inr h))"

lemma find_scheduler_Inr_iff:
  "find_scheduler i c k = Inr h \<longleftrightarrow> i \<and> c = Inr h \<and> k h = Inr RUNTIME_KIND"
  by (auto simp: find_scheduler_def split: sum.splits if_splits)

end
