(* ===== verification/Construction.thy ===== *)
theory Construction
  imports Startup Idle_Reporter Rollout_Client Runtime_Profile
begin

text \<open>
  Model of the construction of the actors: the class an actor extends (\<open>integration/verl/ray_actor.py\<close>), the
  drain timeout of the rollouter, its request client, its reward workers and its managers
  (\<open>rollouter.py\<close>), and the two actors of a task runner (\<open>task_runner.py\<close>, \<open>_create_rollouter\<close> and
  \<open>_create_trainer\<close>). What the native constructors return or raise is an argument.
\<close>

section \<open>The class behind an actor\<close>

text \<open>The attribute \<open>__ray_actor_class__\<close>, if there is one: whether it is a type, and which.\<close>

definition unwrap_native_actor_class :: "(bool \<times> nat) option \<Rightarrow> nat res" where
  "unwrap_native_actor_class attr =
     (case attr of
        Some (True, cls) \<Rightarrow> Inr cls
      | _ \<Rightarrow> Inl (TypeError ''Expected a Ray ActorClass exposing __ray_actor_class__''))"

section \<open>The drain timeout\<close>

text \<open>
  \<open>attr\<close> is what \<open>getattr(config, "multitask", None)\<close> gives. \<open>float(text)\<close> is the argument \<open>read\<close>.
\<close>

definition to_float :: "(string \<Rightarrow> pyfloat res) \<Rightarrow> pyval \<Rightarrow> pyfloat res" where
  "to_float read v = (case v of PStr s \<Rightarrow> read s | _ \<Rightarrow> py_float v)"

definition multitask_config :: "pyval \<Rightarrow> pyval \<Rightarrow> pyval" where
  "multitask_config attr config =
     (if attr \<noteq> PNone then attr else case config of PDict d \<Rightarrow> pyget d ''multitask'' | _ \<Rightarrow> PNone)"

definition drain_timeout :: "(string \<Rightarrow> pyfloat res) \<Rightarrow> pyval \<Rightarrow> pyval \<Rightarrow> pyfloat res" where
  "drain_timeout read attr config =
     (case multitask_config attr config of
        PNone \<Rightarrow> Inr (Fin 300)
      | PDict d \<Rightarrow> to_float read (pyget_default d ''drain_timeout_s'' (PFloat (Fin 300)))
      | _ \<Rightarrow> Inl (BackendError ''AttributeError: get''))"

text \<open>\<open>timeout <= 0\<close>, \<open>time + timeout\<close> and \<open>now >= deadline\<close> on floats.\<close>

fun not_positive :: "pyfloat \<Rightarrow> bool" where
  "not_positive (Fin q) = (q \<le> 0)"
| "not_positive NegInf = True"
| "not_positive _ = False"

fun due_at :: "rat \<Rightarrow> pyfloat \<Rightarrow> pyfloat" where
  "due_at t (Fin q) = Fin (t + q)"
| "due_at t x = x"

fun due :: "pyfloat \<Rightarrow> rat \<Rightarrow> bool" where
  "due (Fin d) now = (d \<le> now)"
| "due NegInf now = True"
| "due _ now = False"

text \<open>\<open>min(0.1, max(0.0, deadline - now))\<close>; \<open>max\<close> and \<open>min\<close> keep their first argument when a comparison with NaN fails.\<close>

fun nap :: "pyfloat \<Rightarrow> rat \<Rightarrow> rat" where
  "nap (Fin d) now = min (1 / 10) (max 0 (d - now))"
| "nap PosInf now = 1 / 10"
| "nap _ now = 0"

text \<open>The natural drain with the timeout as it is configured; \<open>None\<close>: still waiting after \<open>n\<close> polls.\<close>

fun natural_polls :: "nat \<Rightarrow> string \<Rightarrow> pyfloat \<Rightarrow> ('n, 'z) ro_scheme run \<Rightarrow> (unit res \<times> ('n, 'z) ro_scheme run) option" where
  "natural_polls 0 sid deadline r = None"
| "natural_polls (Suc n) sid deadline r =
     (case ro_unsettled sid r of
        (Inl e, r1) \<Rightarrow> Some (Inl e, r1)
      | (Inr False, r1) \<Rightarrow> Some (Inr (), r1)
      | (Inr True, r1) \<Rightarrow>
          if due deadline (r_time r1)
          then Some (Inl (TimeoutError ''natural drain did not settle before its deadline''), r1)
          else natural_polls n sid deadline (snd (pause (nap deadline (r_time r1)) r1)))"

definition natural_drain :: "nat \<Rightarrow> string \<Rightarrow> pyfloat \<Rightarrow> ('n, 'z) ro_scheme run \<Rightarrow> (unit res \<times> ('n, 'z) ro_scheme run) option" where
  "natural_drain n sid timeout r =
     (if not_positive timeout then Some (Inl (ValueError ''multitask.drain_timeout_s must be positive''), r)
      else natural_polls n sid (due_at (r_time r) timeout) r)"

text \<open>A finite timeout: enough polls give what the life cycle's wait gives.\<close>

lemma finite_polls: "\<exists>n. \<forall>k\<ge>n. natural_polls k sid (Fin d) r = Some (ro_natural_wait sid d r)"
proof (induction sid d r rule: ro_natural_wait.induct)
  case (1 sid d r)
  show ?case
  proof (cases "\<exists>r1. ro_unsettled sid r = (Inr True, r1) \<and> \<not> d \<le> r_time r1")
    case True
    then obtain r1 where r1: "ro_unsettled sid r = (Inr True, r1)" "\<not> d \<le> r_time r1" by blast
    from 1 [OF r1(1) [symmetric] HOL.refl _ r1(2)] obtain n where
      n: "\<forall>k\<ge>n. natural_polls k sid (Fin d) (snd (pause (min (1 / 10) (max 0 (d - r_time r1))) r1))
        = Some (ro_natural_wait sid d (snd (pause (min (1 / 10) (max 0 (d - r_time r1))) r1)))"
      by auto
    have "natural_polls k sid (Fin d) r = Some (ro_natural_wait sid d r)" if "Suc n \<le> k" for k
    proof -
      from that obtain j where "k = Suc j" "n \<le> j" by (cases k) auto
      then show ?thesis using n r1 by (simp add: ro_natural_wait.simps [of sid d r])
    qed
    then show ?thesis by blast
  next
    case False
    have "natural_polls k sid (Fin d) r = Some (ro_natural_wait sid d r)" if "Suc 0 \<le> k" for k
    proof -
      from that obtain j where "k = Suc j" by (cases k) auto
      then show ?thesis using False by (auto simp: ro_natural_wait.simps [of sid d r] split: prod.split sum.split bool.split)
    qed
    then show ?thesis by blast
  qed
qed

text \<open>
  How long it takes when no await takes longer than \<open>e\<close>: \<open>ends_by c k e m\<close> says that \<open>m\<close> ends within \<open>c\<close>
  seconds of its own pauses and \<open>k\<close> awaits.
\<close>

definition quick :: "rat \<Rightarrow> 'g run \<Rightarrow> bool" where
  "quick e r \<longleftrightarrow> (\<forall>n. \<bar>tk_elapsed (r_sched r n)\<bar> \<le> e)"

definition ends_by :: "rat \<Rightarrow> rat \<Rightarrow> rat \<Rightarrow> ('g, 'a) coro \<Rightarrow> bool" where
  "ends_by c k e m \<longleftrightarrow> (\<forall>r. quick e r \<longrightarrow> quick e (snd (m r)) \<and> r_time (snd (m r)) \<le> r_time r + c + k * e)"

lemma ends_byD: "ends_by c k e m \<Longrightarrow> quick e r \<Longrightarrow> quick e (snd (m r)) \<and> r_time (snd (m r)) \<le> r_time r + c + k * e"
  by (simp add: ends_by_def)

lemma quick_nonneg: "quick e r \<Longrightarrow> 0 \<le> e"
  by (metis quick_def abs_ge_zero order_trans)

lemma ends_by_pause: "ends_by d 1 e (pause d)"
  by (auto simp: ends_by_def quick_def pause_def others_after_def others_before_def tick_of_def)

lemma ends_by_query: "ends_by 0 1 e (query f)"
  by (auto simp: ends_by_def quick_def query_def remote_def sync_def Let_def others_after_def others_before_def tick_of_def
      split: fate.split)

lemma ends_by_raise: "ends_by 0 0 e (raise x)"
  by (simp add: ends_by_def raise_def)

lemma ends_by_andthen:
  assumes "ends_by c k e m" and "\<And>x. ends_by c' k' e (f x)" and "0 \<le> c'" and "0 \<le> k'"
  shows "ends_by (c + c') (k + k') e (andthen m f)"
  unfolding ends_by_def
proof (intro allI impI)
  fix r :: "'a run" assume r: "quick e r"
  note m = ends_byD [OF assms(1) r]
  have e: "0 \<le> k' * e" using assms(4) quick_nonneg [OF r] by simp
  show "quick e (snd (andthen m f r)) \<and> r_time (snd (andthen m f r)) \<le> r_time r + (c + c') + (k + k') * e"
  proof (cases "fst (m r)")
    case (Inl y)
    then have "andthen m f r = (Inl y, snd (m r))" by (cases "m r") (simp add: andthen_def)
    then show ?thesis using m e assms(3) by (simp add: distrib_right)
  next
    case (Inr y)
    then have "andthen m f r = f y (snd (m r))" by (cases "m r") (simp add: andthen_def)
    then show ?thesis using m ends_byD [OF assms(2), of "snd (m r)" y] by (simp add: distrib_right)
  qed
qed

lemma ends_by_rescue:
  assumes "ends_by c k e m" and "\<And>x. ends_by c' k' e (f x)" and "0 \<le> c'" and "0 \<le> k'"
  shows "ends_by (c + c') (k + k') e (rescue m f)"
  unfolding ends_by_def
proof (intro allI impI)
  fix r :: "'a run" assume r: "quick e r"
  note m = ends_byD [OF assms(1) r]
  have e: "0 \<le> k' * e" using assms(4) quick_nonneg [OF r] by simp
  show "quick e (snd (rescue m f r)) \<and> r_time (snd (rescue m f r)) \<le> r_time r + (c + c') + (k + k') * e"
  proof (cases "fst (m r)")
    case (Inr y)
    then have "rescue m f r = (Inr y, snd (m r))" by (cases "m r") (simp add: rescue_def)
    then show ?thesis using m e assms(3) by (simp add: distrib_right)
  next
    case (Inl y)
    then have "rescue m f r = f y (snd (m r))" by (cases "m r") (simp add: rescue_def)
    then show ?thesis using m ends_byD [OF assms(2), of "snd (m r)" y] by (simp add: distrib_right)
  qed
qed

lemma ends_by_unsettled: "ends_by (3 / 20) 5 e (ro_unsettled sid)"
proof -
  let ?q = "query (\<lambda>g :: ('n, 'z) ro_scheme. Inr (lb_has_unsettled sid (ro_lb g)))"
  have one: "ends_by 0 1 e (retry_read 1 d ?q)" for d
    using ends_by_rescue [OF ends_by_query [of e "\<lambda>g :: ('n, 'z) ro_scheme. Inr (lb_has_unsettled sid (ro_lb g))"] ends_by_raise]
    by (simp add: numeral_eq_Suc)
  have two: "ends_by d 3 e (retry_read 2 d ?q)" if "0 \<le> d" for d
    using ends_by_rescue [OF ends_by_query [of e "\<lambda>g :: ('n, 'z) ro_scheme. Inr (lb_has_unsettled sid (ro_lb g))"]
        ends_by_andthen [OF ends_by_pause [of d e] one [of "2 * d"]]] that
    by (simp add: numeral_eq_Suc)
  have "ends_by (3 / 20) 5 e (retry_read 3 (1 / 20) ?q)"
    using ends_by_rescue [OF ends_by_query [of e "\<lambda>g :: ('n, 'z) ro_scheme. Inr (lb_has_unsettled sid (ro_lb g))"]
        ends_by_andthen [OF ends_by_pause [of "1 / 20" e] two [of "1 / 10"]]]
    by (simp add: numeral_eq_Suc)
  then show ?thesis by (simp add: ro_unsettled_def read_lb_def)
qed

text \<open>The natural drain ends with its deadline: after it there is at most the last pause and one more poll.\<close>

lemma natural_wait_time:
  "quick e r \<Longrightarrow> r_time (snd (ro_natural_wait sid d r)) \<le> max (r_time r) (d + e) + 3 / 20 + 5 * e"
proof (induction sid d r rule: ro_natural_wait.induct)
  case (1 sid d r)
  obtain x r1 where p: "ro_unsettled sid r = (x, r1)" by fastforce
  have r1: "quick e r1" "r_time r1 \<le> r_time r + 3 / 20 + 5 * e"
    using ends_byD [OF ends_by_unsettled [of e sid] 1(2)] p by simp_all
  show ?case
  proof (cases "x = Inr True \<and> \<not> d \<le> r_time r1")
    case True
    let ?r2 = "snd (pause (min (1 / 10) (max 0 (d - r_time r1))) r1)"
    have r2: "quick e ?r2" "r_time ?r2 \<le> d + e"
      using ends_byD [OF ends_by_pause r1(1), of "min (1 / 10) (max 0 (d - r_time r1))"] True by auto
    have "r_time (snd (ro_natural_wait sid d ?r2)) \<le> max (r_time ?r2) (d + e) + 3 / 20 + 5 * e"
      using 1(1) [OF _ _ _ _ r2(1)] p True by auto
    with r2(2) p True show ?thesis by (simp add: ro_natural_wait.simps [of sid d r])
  next
    case False
    then have "snd (ro_natural_wait sid d r) = r1"
      using p by (auto simp: ro_natural_wait.simps [of sid d r] split: sum.split bool.split)
    with r1(2) show ?thesis by simp
  qed
qed

lemma finite_timeout_ends:
  assumes "0 < q"
  shows "\<exists>n. \<forall>k\<ge>n. natural_drain k sid (Fin q) r = Some (ro_natural_wait sid (r_time r + q) r)"
  using finite_polls [of sid "r_time r + q" r] assms by (simp add: natural_drain_def)

lemma finite_timeout_time:
  assumes "0 < q" and "quick e r"
  shows "r_time (snd (ro_natural_wait sid (r_time r + q) r)) \<le> r_time r + q + 3 / 20 + 6 * e"
  using natural_wait_time [OF assms(2), of sid "r_time r + q"] quick_nonneg [OF assms(2)] assms(1) by simp

text \<open>The rest of the system never settles the requests of the server, and every poll is answered.\<close>

definition never_settles :: "string \<Rightarrow> ('n, 'z) ro_scheme run \<Rightarrow> bool" where
  "never_settles sid r \<longleftrightarrow> lb_has_unsettled sid (ro_lb (r_now r))
     \<and> (\<forall>n. tk_fate (r_sched r n) = Answered)
     \<and> (\<forall>n g. lb_has_unsettled sid (ro_lb g) \<longrightarrow> lb_has_unsettled sid (ro_lb (tk_before (r_sched r n) g))
          \<and> lb_has_unsettled sid (ro_lb (tk_after (r_sched r n) g)))"

lemma never_settles_turn:
  "never_settles sid r \<Longrightarrow> never_settles sid (others_after (tick_of r) d (others_before r))"
  by (simp add: never_settles_def others_before_def others_after_def tick_of_def)

lemma never_settles_poll:
  assumes "never_settles sid r"
  shows "\<exists>r1. ro_unsettled sid r = (Inr True, r1) \<and> never_settles sid r1"
  using never_settles_turn [OF assms, of 0] assms
  by (simp add: ro_unsettled_def read_lb_def numeral_3_eq_3 rescue_def query_def remote_def Let_def sync_def never_settles_def
      tick_of_def others_before_def others_after_def)

text \<open>An infinite timeout, and a timeout that is not a number: the wait has no deadline.\<close>

lemma undefined_timeout_never_ends:
  assumes "never_settles sid r" and "timeout \<in> {NaN, PosInf}"
  shows "natural_drain n sid timeout r = None"
proof -
  have "natural_polls n sid timeout r = None" if "never_settles sid r" for r
    using that
  proof (induction n arbitrary: r)
    case (Suc n)
    from never_settles_poll [OF Suc.prems] obtain r1 where r1: "ro_unsettled sid r = (Inr True, r1)" "never_settles sid r1" by blast
    have "never_settles sid (snd (pause (nap timeout (r_time r1)) r1))"
      using never_settles_turn [OF r1(2)] by (simp add: pause_def)
    from Suc.IH [OF this] show ?case using r1(1) assms(2) by auto
  qed simp
  then show ?thesis using assms by (auto simp: natural_drain_def)
qed

subsection \<open>What the runtime profile lets through\<close>

lemma bit_length_least: "0 < n \<Longrightarrow> 2 ^ (bit_length n - 1) \<le> n"
proof (induction n rule: bit_length.induct)
  case (1 n)
  show ?case
  proof (cases "n div 2 = 0")
    case True
    then show ?thesis using 1(2) by (simp add: bit_length.simps [of n] bit_length.simps [of 0])
  next
    case False
    then have "2 ^ (bit_length (n div 2) - 1) \<le> n div 2" using 1 by simp
    moreover have "bit_length (n div 2) \<noteq> 0" using False by (simp add: bit_length.simps [of "n div 2"])
    then have "(2::nat) ^ bit_length (n div 2) = 2 * 2 ^ (bit_length (n div 2) - 1)" by (cases "bit_length (n div 2)") simp_all
    ultimately show ?thesis using 1(2) by (simp add: bit_length.simps [of n])
  qed
qed

lemma round53_pos: "0 < n \<Longrightarrow> 0 < round53 n"
proof -
  assume n: "0 < n"
  have "0 < n div 2 ^ (bit_length n - 53)" if "\<not> bit_length n \<le> 53"
  proof -
    have "(2::nat) ^ (bit_length n - 53) \<le> 2 ^ (bit_length n - 1)" by (rule power_increasing) simp_all
    with bit_length_least [OF n] have "2 ^ (bit_length n - 53) \<le> n" by linarith
    then show ?thesis by (simp add: div_greater_zero_iff)
  qed
  with n show ?thesis by (simp add: round53_def Let_def)
qed

lemma positive_float: "positive_number v \<Longrightarrow> to_float read v = Inr f \<Longrightarrow> \<not> not_positive f"
  using round53_pos [of "nat (case v of PInt i \<Rightarrow> i | _ \<Rightarrow> 0)"]
  by (cases v rule: positive_number.cases)
    (auto simp: to_float_def float_of_int_def Let_def sgn_if not_le split: if_splits)

lemma multitask_found:
  assumes "rp_select cfg [''multitask''] (Some PNone) = Inr m" and "attr \<in> {PNone, m}" and "is_mapping cfg"
  shows "multitask_config attr cfg = m"
  using assms by (cases cfg) (auto simp: multitask_config_def pyget_def pyget_default_def split: option.splits)

lemma accepted_timeout:
  assumes "rp_validate cfg = Inr True" and "rp_select cfg [''multitask''] (Some PNone) = Inr m"
  shows "is_mapping cfg" and "\<exists>d. m = PDict d \<and> positive_number (pyget_default d ''drain_timeout_s'' (PFloat (Fin 300)))"
  using assms by (auto simp: rp_validate_def first_error_None split: if_splits option.splits pyval.splits bool.splits elim: is_mapping.elims)

text \<open>A timeout that the profile accepts is never rejected by the drain, but it may be no deadline at all.\<close>

lemma profile_timeout_positive:
  assumes "rp_validate cfg = Inr True" and "rp_select cfg [''multitask''] (Some PNone) = Inr m" and "attr \<in> {PNone, m}"
    and "drain_timeout read attr cfg = Inr f"
  shows "\<not> not_positive f"
proof -
  from accepted_timeout [OF assms(1,2)] obtain d where d: "is_mapping cfg" "m = PDict d"
      "positive_number (pyget_default d ''drain_timeout_s'' (PFloat (Fin 300)))" by blast
  with assms(4) multitask_found [OF assms(2,3) d(1)] have
    "to_float read (pyget_default d ''drain_timeout_s'' (PFloat (Fin 300))) = Inr f" by (simp add: drain_timeout_def)
  then show ?thesis by (rule positive_float [OF d(3)])
qed

definition nan_profile :: pyval where
  "nan_profile = PDict (AList.update ''multitask'' (PDict [(''enabled'', PBool True), (''drain_timeout_s'', PFloat NaN)])
     (dict_items demo_profile))"

lemma nan_accepted: "rp_validate nan_profile = Inr True \<and> drain_timeout read PNone nan_profile = Inr NaN"
proof
  show "rp_validate nan_profile = Inr True" by code_simp
  show "drain_timeout read PNone nan_profile = Inr NaN"
    by (simp add: drain_timeout_def nan_profile_def multitask_config_def pyget_default_def to_float_def)
qed
section \<open>The request client\<close>

text \<open>The name of the client and whether continuations are recorded (\<open>async_training.partial_rollout\<close>);
  \<open>native\<close> is the failure of the native constructor.\<close>

definition init_client :: "pyval \<Rightarrow> exn option \<Rightarrow> pyval \<Rightarrow> (string \<times> bool) res" where
  "init_client client_id native async_training =
     (case client_id of
        PStr (c # cs) \<Rightarrow> (case native of Some e \<Rightarrow> Inl e | None \<Rightarrow> Inr (c # cs, py_truth (attribute async_training ''partial_rollout'')))
      | _ \<Rightarrow> Inl (ValueError ''continuation client_id must be a nonempty string''))"

text \<open>The native handle, or the wrapper with the request and the name of the client.\<close>

datatype served = Native nat | Aware nat string string

definition wrap_server :: "string \<times> bool \<Rightarrow> string \<Rightarrow> nat \<Rightarrow> served" where
  "wrap_server conf req h = (if snd conf then Aware h req (fst conf) else Native h)"

definition cl_acquire ::
    "('n, 'h, 'x) native_router \<Rightarrow> rat \<Rightarrow> string \<times> bool \<Rightarrow> string \<Rightarrow> ('n cl, string \<times> served) coro" where
  "cl_acquire N timeout conf req = andthen (cl_acquire_wait N timeout) (\<lambda>server.
     case server of
       PTuple [PStr sid, PObj h] \<Rightarrow> ret (sid, wrap_server conf req h)
     | _ \<Rightarrow> raise (TypeError ''cannot unpack the acquired server''))"

text \<open>\<open>server.generate.remote(...)\<close>\<close>

definition generate_remote :: "(string \<Rightarrow> string) \<Rightarrow> served \<Rightarrow> pyval \<Rightarrow> ('n cl, pyval) coro" where
  "generate_remote sha server prompt =
     (case server of Native h \<Rightarrow> outside | Aware h req client \<Rightarrow> cl_generate sha req client prompt)"

text \<open>Without partial rollout a generation leaves the load balancer and the sampling parameters alone.\<close>

lemma native_generation:
  assumes "\<not> snd conf"
  shows "generate_remote sha (wrap_server conf req h) prompt = (outside :: ('n cl, pyval) coro)"
  using assms by (simp add: generate_remote_def wrap_server_def)

section \<open>The reward workers\<close>

text \<open>\<open>_create_reward_loop_manager\<close> constructs the manager, whose native constructor makes the workers.\<close>

definition init_reward_manager :: "pyval \<Rightarrow> exn option \<Rightarrow> nat \<Rightarrow> string list \<Rightarrow> (string \<times> string) list res" where
  "init_reward_manager session native n nodes =
     (case session of
        PStr (c # cs) \<Rightarrow> (case native of Some e \<Rightarrow> Inl e | None \<Rightarrow> reward_workers (c # cs) n nodes)
      | _ \<Rightarrow> Inl (ValueError ''RewardLoop workers require task_session''))"

definition create_reward_manager :: "pyval \<Rightarrow> exn option \<Rightarrow> nat \<Rightarrow> string list \<Rightarrow> (string \<times> string) list res" where
  "create_reward_manager session native n nodes =
     (if \<not> py_truth session then Inl (RuntimeError ''RewardLoop manager requires task_session'')
      else init_reward_manager session native n nodes)"

lemma created_rewards:
  "create_reward_manager session native n nodes = Inr ws \<longleftrightarrow>
     (\<exists>task. session = PStr task \<and> task \<noteq> [] \<and> native = None \<and> reward_workers task n nodes = Inr ws)"
  by (cases session) (auto simp: create_reward_manager_def init_reward_manager_def split: option.split list.split)

section \<open>The managers of the rollouter\<close>

text \<open>\<open>rb_reporter\<close> is the idle reporter's task: none, or whether it is done.\<close>

record agent_args =
  ag_client :: "string \<times> bool"
  ag_rewards :: "(string \<times> string) list option"
  ag_teacher :: "nat option"

record rollout_parts =
  rp_async :: bool
  rp_manager :: "nat option"
  rp_agent :: "(nat \<times> agent_args) option"
  rp_reporter :: "bool option"

record rollout_env =
  re_use_rm :: bool
  re_pool :: bool
  re_rewards :: "(string \<times> string) list"
  re_mode :: string
  re_manager :: "nat res"
  re_client :: "exn option"
  re_training :: pyval
  re_teacher :: "nat res option"
  re_agent :: "nat res"

definition reward_handles :: "rollout_env \<Rightarrow> (string \<times> string) list option" where
  "reward_handles env = (if \<not> re_use_rm env \<or> re_pool env then Some (re_rewards env) else None)"

definition teacher_client :: "rollout_env \<Rightarrow> nat option res" where
  "teacher_client env = (case re_teacher env of None \<Rightarrow> Inr None | Some x \<Rightarrow> map_res Some x)"

definition attach_reporter :: "bool \<Rightarrow> rollout_parts \<Rightarrow> rollout_parts" where
  "attach_reporter scheduler s =
     (if scheduler \<and> (rp_reporter s = None \<or> rp_reporter s = Some True) then s\<lparr>rp_reporter := Some False\<rparr> else s)"

definition init_agent :: "pyval \<Rightarrow> rollout_env \<Rightarrow> (nat \<times> agent_args) res" where
  "init_agent session env =
     (case init_client session (re_client env) (re_training env) of
        Inl e \<Rightarrow> Inl e
      | Inr client \<Rightarrow>
          (case teacher_client env of
             Inl e \<Rightarrow> Inl e
           | Inr t \<Rightarrow> map_res (\<lambda>h. (h, \<lparr>ag_client = client, ag_rewards = reward_handles env, ag_teacher = t\<rparr>)) (re_agent env)))"

definition init_async_rollout_manager ::
    "pyval \<Rightarrow> bool \<Rightarrow> rollout_env \<Rightarrow> rollout_parts \<Rightarrow> unit res \<times> rollout_parts" where
  "init_async_rollout_manager session scheduler env s =
     (if re_mode env \<noteq> ''async'' then (Inl (BackendError ''AssertionError''), s)
      else
        (let s1 = s\<lparr>rp_async := True\<rparr> in
         case re_manager env of
           Inl e \<Rightarrow> (Inl e, s1)
         | Inr m \<Rightarrow>
             (let s2 = s1\<lparr>rp_manager := Some m\<rparr> in
              case init_agent session env of
                Inl e \<Rightarrow> (Inl e, s2)
              | Inr a \<Rightarrow> (Inr (), attach_reporter scheduler (s2\<lparr>rp_agent := Some a\<rparr>)))))"

text \<open>
  What a rollouter that came up has: its agent loop's client carries the name of the task, the reward
  workers go to the agent loop unless a reward model without a pool of its own computes the rewards, and
  a task with a scheduler has a live idle reporter. One that did not come up started no reporter.
\<close>

theorem rollouter_built:
  assumes "init_async_rollout_manager session scheduler env s = (Inr u, s')"
  shows "\<exists>task h a. session = PStr task \<and> task \<noteq> [] \<and> re_manager env = Inr (the (rp_manager s')) \<and> rp_agent s' = Some (h, a)
     \<and> ag_client a = (task, py_truth (attribute (re_training env) ''partial_rollout''))
     \<and> (ag_rewards a = None \<longleftrightarrow> re_use_rm env \<and> \<not> re_pool env) \<and> (scheduler \<longrightarrow> rp_reporter s' = Some False)
     \<and> (\<not> scheduler \<longrightarrow> rp_reporter s' = rp_reporter s)"
  using assms
  by (auto simp: init_async_rollout_manager_def init_agent_def init_client_def attach_reporter_def Let_def map_res_Inr_iff
      reward_handles_def split: if_splits sum.splits pyval.splits list.splits option.splits)

lemma rollouter_not_built:
  assumes "init_async_rollout_manager session scheduler env s = (Inl e, s')"
  shows "rp_agent s' = rp_agent s \<and> rp_reporter s' = rp_reporter s"
  using assms by (auto simp: init_async_rollout_manager_def Let_def split: if_splits sum.splits)
section \<open>The actors of the task runner\<close>

text \<open>
  \<open>pt_rollouter\<close> and \<open>pt_trainer\<close> are the entries of \<open>components\<close>; \<open>pt_hybrid\<close> is the hybrid worker group,
  if there is one. A remote call has an outcome: none, or the exception it raises.
\<close>

record parts =
  pt_hybrid :: "nat option"
  pt_rollouter :: "nat option"
  pt_trainer :: "nat option"

datatype actor_call = SetHybrid nat | InitWorkers | SetMaxSamples

text \<open>The calls in order, up to the first one that fails; the calls made.\<close>

fun run_calls :: "(actor_call \<Rightarrow> exn option) \<Rightarrow> actor_call list \<Rightarrow> exn option \<times> actor_call list" where
  "run_calls answer [] = (None, [])"
| "run_calls answer (c # cs) =
     (case answer c of
        Some e \<Rightarrow> (Some e, [c])
      | None \<Rightarrow> (case run_calls answer cs of (x, made) \<Rightarrow> (x, c # made)))"

lemma run_calls_answered: "\<forall>c \<in> set cs. answer c = None \<Longrightarrow> run_calls answer cs = (None, cs)"
  by (induction cs) auto

lemma run_calls_done: "run_calls answer cs = (None, made) \<Longrightarrow> made = cs \<and> (\<forall>c \<in> set cs. answer c = None)"
  by (induction cs arbitrary: made) (auto split: option.splits prod.splits)

lemma run_calls_failed: "run_calls answer cs = (Some e, made) \<Longrightarrow> \<exists>c \<in> set cs. answer c = Some e"
  by (induction cs arbitrary: made) (auto split: option.splits prod.splits)

definition rollouter_calls :: "parts \<Rightarrow> actor_call list" where
  "rollouter_calls s = (case pt_hybrid s of None \<Rightarrow> [] | Some g \<Rightarrow> [SetHybrid g]) @ [InitWorkers, SetMaxSamples]"

definition tr_create_rollouter ::
    "nat res \<Rightarrow> (actor_call \<Rightarrow> exn option) \<Rightarrow> parts \<Rightarrow> (unit res \<times> actor_call list) \<times> parts" where
  "tr_create_rollouter new answer s =
     (case new of
        Inl e \<Rightarrow> ((Inl e, []), s)
      | Inr h \<Rightarrow>
          (case run_calls answer (rollouter_calls s) of
             (Some e, made) \<Rightarrow> ((Inl e, made), s)
           | (None, made) \<Rightarrow> ((Inr (), made), s\<lparr>pt_rollouter := Some h\<rparr>)))"

text \<open>
  The rollouter is published among the components exactly when every call of its start-up was answered;
  the hybrid worker group, if there is one, is set before the workers are initialized.
\<close>

lemma rollouter_published:
  "tr_create_rollouter new answer s = ((Inr u, made), s') \<Longrightarrow>
     \<exists>h. new = Inr h \<and> made = rollouter_calls s \<and> (\<forall>c \<in> set made. answer c = None) \<and> s' = s\<lparr>pt_rollouter := Some h\<rparr>"
  by (auto simp: tr_create_rollouter_def split: sum.splits prod.splits option.splits dest!: run_calls_done)

lemma rollouter_answered:
  "\<forall>c \<in> set (rollouter_calls s). answer c = None \<Longrightarrow>
     tr_create_rollouter (Inr h) answer s = ((Inr (), rollouter_calls s), s\<lparr>pt_rollouter := Some h\<rparr>)"
  by (simp add: tr_create_rollouter_def run_calls_answered)

lemma rollouter_failed: "tr_create_rollouter new answer s = ((Inl e, made), s') \<Longrightarrow> s' = s"
  by (auto simp: tr_create_rollouter_def split: sum.splits prod.splits option.splits)

text \<open>
  \<open>pools\<close> is \<open>create_resource_pool_manager\<close>, \<open>new\<close> the constructor of the trainer with its roles, its pools
  and the pool of every role.
\<close>

record ('r, 'w, 'p) trainer_env =
  te_rollout :: 'r
  te_roles :: "('r \<times> 'w) list"
  te_pools :: "'r list \<Rightarrow> ((string \<times> 'p) list \<times> ('r \<times> string) list) res"
  te_new :: "('r \<times> 'w) list \<Rightarrow> (string \<times> 'p) list \<times> ('r \<times> string) list \<Rightarrow> nat res"
  te_init :: "exn option"

definition trainer_roles :: "('r, 'w, 'p) trainer_env \<Rightarrow> ('r \<times> 'w) list" where
  "trainer_roles env = filter (\<lambda>(role, w). role \<noteq> te_rollout env) (te_roles env)"

definition trainer_pools ::
    "string option \<Rightarrow> ('r, 'w, 'p) trainer_env \<Rightarrow> ((string \<times> 'p) list \<times> ('r \<times> string) list) res" where
  "trainer_pools session env =
     (case session of
        Some (c # cs) \<Rightarrow>
          (case te_pools env (map fst (trainer_roles env)) of
             Inl e \<Rightarrow> Inl e
           | Inr (spec, mapping) \<Rightarrow> scope_pools session spec mapping)
      | _ \<Rightarrow> Inl (RuntimeError ''Trainer resource pools require task_session''))"

definition tr_create_trainer :: "string option \<Rightarrow> ('r, 'w, 'p) trainer_env \<Rightarrow> parts \<Rightarrow> unit res \<times> parts" where
  "tr_create_trainer session env s =
     (case trainer_pools session env of
        Inl e \<Rightarrow> (Inl e, s)
      | Inr pools \<Rightarrow>
          (case te_new env (trainer_roles env) pools of
             Inl e \<Rightarrow> (Inl e, s)
           | Inr h \<Rightarrow> (case te_init env of Some e \<Rightarrow> (Inl e, s) | None \<Rightarrow> (Inr (), s\<lparr>pt_trainer := Some h\<rparr>))))"

text \<open>A trainer that came up does not run the rollout, and all its pools carry the name of its task.\<close>

lemma trainer_created:
  assumes "tr_create_trainer session env s = (Inr u, s')"
  shows "\<exists>h task spec mapping. s' = s\<lparr>pt_trainer := Some h\<rparr> \<and> session = Some task \<and> task \<noteq> []
     \<and> te_new env (trainer_roles env) (spec, mapping) = Inr h \<and> te_rollout env \<notin> fst ` set (trainer_roles env)
     \<and> (\<forall>name \<in> fst ` set spec \<union> snd ` set mapping. \<exists>pool. name = pool_name task pool)"
proof -
  from assms obtain h pools where h: "trainer_pools session env = Inr pools" "te_new env (trainer_roles env) pools = Inr h"
      "s' = s\<lparr>pt_trainer := Some h\<rparr>"
    by (auto simp: tr_create_trainer_def split: sum.splits option.splits)
  then obtain task spec0 mapping0 where t: "session = Some task" "task \<noteq> []" "scope_pools (Some task) spec0 mapping0 = Inr pools"
    by (auto simp: trainer_pools_def split: option.splits list.splits sum.splits)
  obtain spec mapping where p: "pools = (spec, mapping)" by fastforce
  obtain c cs where c: "task = c # cs" using t(2) by (cases task) auto
  have m: "list_all2 (\<lambda>x y. (case x of (role, name) \<Rightarrow> if map_of spec0 name = None then Inl (KeyError ''pool_names'')
      else Inr (role, pool_name task name)) = Inr y) mapping0 mapping"
      "spec = map (\<lambda>(name, p). (pool_name task name, p)) spec0"
    using t(3) unfolding c by (simp_all add: p scope_pools_def map_res_Inr_iff traverse_Inr_iff)
  have "\<exists>pool. snd y = pool_name task pool" if y: "y \<in> set mapping" for y
  proof -
    from y obtain i where "i < length mapping" "mapping ! i = y" by (auto simp: in_set_conv_nth)
    with list_all2_nthD2 [OF m(1), of i] obtain x where "(case x of (role, name) \<Rightarrow> if map_of spec0 name = None then Inl (KeyError ''pool_names'')
        else Inr (role, pool_name task name)) = Inr y"
      by blast
    then show ?thesis by (cases x) (auto split: if_splits)
  qed
  then have "\<forall>name \<in> fst ` set spec \<union> snd ` set mapping. \<exists>pool. name = pool_name task pool"
    unfolding m(2) by auto
  moreover have "te_rollout env \<notin> fst ` set (trainer_roles env)" by (auto simp: trainer_roles_def)
  ultimately show ?thesis using h t(1,2) unfolding p by blast
qed

section \<open>The relay of the placement candidates\<close>

definition tr_native_candidates ::
    "bool \<Rightarrow> string option \<Rightarrow> parts \<Rightarrow> np_env \<Rightarrow> (idle_sys, pydict list) coro" where
  "tr_native_candidates ready session s env =
     guard_that (ready \<and> session \<notin> {None, Some []}) (RuntimeError ''TaskRunner is not ready for placement inspection'')
       (guard_that (pt_rollouter s \<noteq> None) (RuntimeError ''TaskRunner has no initialized Rollouter'')
         (remote (native_candidates env)))"

text \<open>A runner that is still starting answers nothing: the rollouter is not asked.\<close>

lemma relay_closed:
  assumes "\<not> ready \<or> session \<in> {None, Some []} \<or> pt_rollouter s = None"
  shows "\<exists>e. tr_native_candidates ready session s env r = (Inl (RuntimeError e), r)"
  using assms by (auto simp: tr_native_candidates_def guard_that_def raise_def)
section \<open>A profile's timeout and the drain\<close>

text \<open>
  C36: A drain timeout that the profile accepts is either a finite number q: then the natural drain returns,
  whatever the load balancer answers, at most q seconds, one poll and one await after it began (a poll is
  five awaits and 0.15 seconds of its own pauses). Or it is infinite or not a number, which the checks let
  through, and then the drain of a server whose requests do not settle never returns.
\<close>

theorem accepted_timeout_waits:
  assumes "rp_validate cfg = Inr True" and "rp_select cfg [''multitask''] (Some PNone) = Inr m" and "attr \<in> {PNone, m}"
    and "drain_timeout read attr cfg = Inr timeout"
  shows "case timeout of
      Fin q \<Rightarrow> \<exists>n x r'. (\<forall>k\<ge>n. natural_drain k sid timeout r = Some (x, r'))
        \<and> (x, r') = ro_natural_wait sid (r_time r + q) r
        \<and> (\<forall>e. quick e r \<longrightarrow> r_time r' \<le> r_time r + q + 3 / 20 + 6 * e)
    | NegInf \<Rightarrow> False
    | _ \<Rightarrow> never_settles sid r \<longrightarrow> (\<forall>n. natural_drain n sid timeout r = None)"
proof (cases timeout)
  case (Fin q)
  have q: "0 < q" using profile_timeout_positive [OF assms(1-4)] by (simp add: Fin not_le)
  obtain x r' where w: "ro_natural_wait sid (r_time r + q) r = (x, r')" by fastforce
  show ?thesis using finite_timeout_ends [OF q, of sid r] finite_timeout_time [OF q, of _ r sid] by (simp add: Fin w)
next
  case NegInf
  then show ?thesis using profile_timeout_positive [OF assms(1-4)] by simp
qed (use undefined_timeout_never_ends [of sid r timeout] in simp_all)

definition busy_ro :: "(string \<times> nat) list ro" where "busy_ro = demo_ro DRAINING (cl_lb drained_cl)"

definition idle_others :: "nat \<Rightarrow> (string \<times> nat) list ro tick" where
  "idle_others n = \<lparr>tk_fate = Answered, tk_before = id, tk_after = id, tk_reply = Inr PNone, tk_elapsed = 0\<rparr>"

lemma default_accepted:
  "rp_validate demo_profile = Inr True \<and> drain_timeout read PNone demo_profile = Inr (Fin 300)
    \<and> (\<exists>m. rp_select demo_profile [''multitask''] (Some PNone) = Inr m)"
proof (intro conjI)
  show "rp_validate demo_profile = Inr True" by code_simp
  show "drain_timeout read PNone demo_profile = Inr (Fin 300)"
    by (simp add: drain_timeout_def demo_profile_def multitask_config_def pyget_def pyget_default_def to_float_def)
  show "\<exists>m. rp_select demo_profile [''multitask''] (Some PNone) = Inr m" by (simp add: demo_profile_def)
qed

theorem accepted_timeout_waits_witness:
  "rp_validate nan_profile = Inr True \<and> natural_drain 100000 ''s0'' NaN (run_of idle_others busy_ro) = None
    \<and> (\<exists>n x r'. natural_drain n ''s0'' (Fin 300) (run_of idle_others busy_ro) = Some (x, r') \<and> r_time r' \<le> 301)"
proof -
  let ?r = "run_of idle_others busy_ro"
  have "never_settles ''s0'' ?r"
    by (simp add: never_settles_def run_of_def idle_others_def busy_ro_def demo_ro_def new_ro_def drained_cl_def lb_eval demo_key_def
        lb_has_unsettled_def lb_requests_for_server_def)
  moreover have "\<exists>m. rp_select nan_profile [''multitask''] (Some PNone) = Inr m" by (simp add: nan_profile_def)
  ultimately have "rp_validate nan_profile = Inr True \<and> natural_drain 100000 ''s0'' NaN ?r = None"
    using accepted_timeout_waits [OF nan_accepted [THEN conjunct1] _ insertI1 nan_accepted [THEN conjunct2], of _ "''s0''" ?r]
      nan_accepted by auto
  moreover obtain m where "rp_select demo_profile [''multitask''] (Some PNone) = Inr m" using default_accepted by blast
  note finite = accepted_timeout_waits [OF default_accepted [THEN conjunct1] this insertI1
      default_accepted [THEN conjunct2, THEN conjunct1], of "''s0''" ?r]
  have "quick 0 ?r" by (simp add: quick_def run_of_def idle_others_def)
  then have "\<exists>n x r'. natural_drain n ''s0'' (Fin 300) ?r = Some (x, r') \<and> r_time r' \<le> 301"
    using finite by (fastforce simp: run_of_def)
  ultimately show ?thesis by blast
qed

end
