(* ===== verification/Support.thy ===== *)
theory Support
  imports Rollout_Client
begin

text \<open>
  Model of \<open>testing/startup_diagnostics.py\<close>, which decides from a log whether a failed start may be retried
  and which ports to look at, and of \<open>testing/npu_restore_sender.py\<close>, the training worker that zeroes the
  output weights before a RESTORE and checks that the export shows it. Texts are lists of Latin-1
  characters. \<open>json.loads\<close>, the \<open>ss\<close> process and the FSDP engine are arguments.
\<close>

section \<open>Characters\<close>

abbreviation code :: "char \<Rightarrow> nat" where "code \<equiv> of_char"

definition is_digit :: "char \<Rightarrow> bool" where
  "is_digit c \<longleftrightarrow> 48 \<le> code c \<and> code c \<le> 57"

definition is_space :: "char \<Rightarrow> bool" where
  "is_space c \<longleftrightarrow> 9 \<le> code c \<and> code c \<le> 13 \<or> 28 \<le> code c \<and> code c \<le> 32 \<or> code c \<in> {133, 160}"

text \<open>\<open>\w\<close>: letters, digits and other numerals, and the underscore.\<close>

definition is_word :: "char \<Rightarrow> bool" where
  "is_word c \<longleftrightarrow> is_digit c \<or> 65 \<le> code c \<and> code c \<le> 90 \<or> 97 \<le> code c \<and> code c \<le> 122
     \<or> code c \<in> {95, 170, 178, 179, 181, 185, 186, 188, 189, 190} \<or> 192 \<le> code c \<and> code c \<notin> {215, 247}"

definition lower_char :: "char \<Rightarrow> char" where
  "lower_char c = (if 65 \<le> code c \<and> code c \<le> 90 \<or> 192 \<le> code c \<and> code c \<le> 222 \<and> code c \<noteq> 215
     then char_of (code c + 32) else c)"

definition lower :: "string \<Rightarrow> string" where "lower = map lower_char"

text \<open>\<open>str.splitlines\<close>; a carriage return and a line feed are one break.\<close>

definition is_break :: "char \<Rightarrow> bool" where
  "is_break c \<longleftrightarrow> 10 \<le> code c \<and> code c \<le> 13 \<or> 28 \<le> code c \<and> code c \<le> 30 \<or> code c = 133"

fun split_lines :: "string \<Rightarrow> string \<Rightarrow> string list" where
  "split_lines acc [] = (if acc = [] then [] else [rev acc])"
| "split_lines acc [c] = [rev (if is_break c then acc else c # acc)]"
| "split_lines acc (c # d # cs) =
     (if code c = 13 \<and> code d = 10 then rev acc # split_lines [] cs
      else if is_break c then rev acc # split_lines [] (d # cs)
      else split_lines (c # acc) (d # cs))"

section \<open>The retry decision\<close>

definition in_use :: "string \<Rightarrow> bool" where
  "in_use out \<longleftrightarrow> has_text ''EADDRINUSE'' out \<or> has_text ''address already in use'' (lower out)"

definition CONFLICT :: string where "CONFLICT = ''CE_RENDEZVOUS_CONFLICT ''"

definition training_started :: "string \<Rightarrow> bool" where
  "training_started out \<longleftrightarrow> list_ex (\<lambda>t. has_text t out)
     [''MULTITASK_TRAINING_COMPLETE'', ''Starting FullyAsyncTrainer'', ''_fit_update_actor'', ''.fit()'', ''D0_D4_E2E_START '']"

definition is_ce_startup_collision :: "string \<Rightarrow> bool" where
  "is_ce_startup_collision out \<longleftrightarrow> in_use out \<and> (has_text ''CheckpointEngineWorker'' out \<or> has_text CONFLICT out)
     \<and> list_ex (\<lambda>t. has_text t out) [''init_workers'', ''init_process_group'', ''TCPStore''] \<and> \<not> training_started out"

section \<open>The ports of a log\<close>

text \<open>\<open>re.findall(r"\bport\s*[:=]\s*(\d+)", line)\<close>: one match at the start of the text, and all matches;
  \<open>after\<close> tells whether a word character comes before.\<close>

definition match_port :: "string \<Rightarrow> (string \<times> string) option" where
  "match_port s =
     (if take 4 s \<noteq> ''port'' then None
      else case dropWhile is_space (drop 4 s) of
        [] \<Rightarrow> None
      | c # r \<Rightarrow>
          (let t = dropWhile is_space r; ds = takeWhile is_digit t in
           if c \<notin> {CHR '':'', CHR ''=''} \<or> ds = [] then None else Some (ds, dropWhile is_digit t)))"

lemma drop_shorter: "length (dropWhile p xs) \<le> length xs"
  by (rule length_dropWhile_le)

lemma match_shorter: "match_port s = Some (ds, rest) \<Longrightarrow> length rest < length s"
proof -
  assume m: "match_port s = Some (ds, rest)"
  then obtain c r where r: "dropWhile is_space (drop 4 s) = c # r" "rest = dropWhile is_digit (dropWhile is_space r)"
    by (auto simp: match_port_def Let_def split: if_splits list.splits)
  have "length rest \<le> length r" unfolding r(2) by (meson drop_shorter le_trans)
  moreover have "length (c # r) \<le> length s" using drop_shorter [of is_space "drop 4 s"] unfolding r(1) by simp
  ultimately show ?thesis by simp
qed

function find_ports :: "bool \<Rightarrow> string \<Rightarrow> nat list" where
  "find_ports after [] = []"
| "find_ports after (c # cs) =
     (case if after then None else match_port (c # cs) of
        Some (ds, rest) \<Rightarrow> parse_digits ds # find_ports True rest
      | None \<Rightarrow> find_ports (is_word c) cs)"
  by pat_completeness auto
termination
  by (relation "measure (length \<circ> snd)") (auto dest!: match_shorter split: if_splits)

text \<open>The text after the first marker; the value of a port; \<open>loads\<close> is \<open>json.loads\<close>.\<close>

fun after_text :: "string \<Rightarrow> string \<Rightarrow> string option" where
  "after_text p [] = (if p = [] then Some [] else None)"
| "after_text p (c # cs) = (if take (length p) (c # cs) = p then Some (drop (length p) (c # cs)) else after_text p cs)"

fun port_value :: "pyval \<Rightarrow> nat list" where
  "port_value (PInt i) = (if 0 \<le> i then [nat i] else [])"
| "port_value (PStr s) = (if s \<noteq> [] \<and> list_all is_digit s then [parse_digits s] else [])"
| "port_value _ = []"

definition marker_ports :: "(string \<Rightarrow> pyval res) \<Rightarrow> string \<Rightarrow> nat list res" where
  "marker_ports loads line =
     (case after_text CONFLICT line of
        None \<Rightarrow> Inr []
      | Some t \<Rightarrow>
          (case loads t of
             Inl (ValueError m) \<Rightarrow> Inr []
           | Inl (TypeError m) \<Rightarrow> Inr []
           | Inl e \<Rightarrow> Inl e
           | Inr (PDict d) \<Rightarrow> Inr (port_value (pyget d ''MASTER_PORT''))
           | Inr _ \<Rightarrow> Inl (BackendError ''AttributeError: get'')))"

definition line_ports :: "(string \<Rightarrow> pyval res) \<Rightarrow> string \<Rightarrow> nat list res" where
  "line_ports loads line =
     map_res ((@) (if in_use line then find_ports False line else [])) (marker_ports loads line)"

definition log_ports :: "(string \<Rightarrow> pyval res) \<Rightarrow> string \<Rightarrow> nat list res" where
  "log_ports loads out =
     map_res (\<lambda>ps. filter (\<lambda>p. 1 \<le> p \<and> p \<le> 65535) (sort (remdups (concat ps)))) (traverse (line_ports loads) (split_lines [] out))"

text \<open>\<open>probe\<close> is the run of \<open>ss\<close>: its exit code and outputs, or why there is none.\<close>

datatype listing = Unavailable string | Probed int string string

definition diagnose ::
    "(string \<Rightarrow> pyval res) \<Rightarrow> bool \<Rightarrow> (nat \<Rightarrow> listing) \<Rightarrow> string \<Rightarrow> (bool \<times> (string \<times> listing) list) res" where
  "diagnose loads ss probe out =
     map_res (\<lambda>ports. (is_ce_startup_collision out,
         map (\<lambda>p. (nat_str p, if ss then probe p else Unavailable ''ss is not installed'')) ports))
       (log_ports loads out)"

definition diagnose_main :: "(string \<Rightarrow> pyval res) \<Rightarrow> bool \<Rightarrow> (nat \<Rightarrow> listing) \<Rightarrow> string \<Rightarrow> nat res" where
  "diagnose_main loads ss probe out = map_res (\<lambda>(retry, _). if retry then 0 else 1) (diagnose loads ss probe out)"

subsection \<open>Lemmas\<close>

lemma nat_str_digits: "list_all is_digit (nat_str n)"
  using nat_str_digit [of _ n] by (auto simp: list_all_iff is_digit_def)

text \<open>A port that a line names is found, whatever follows it.\<close>

lemma named_port_found:
  assumes "rest = [] \<or> \<not> is_digit (hd rest)"
  shows "find_ports False (''port='' @ nat_str n @ rest) = n # find_ports True rest"
proof -
  have d: "takeWhile is_digit (nat_str n @ rest) = nat_str n" "dropWhile is_digit (nat_str n @ rest) = rest"
    using assms nat_str_digits [of n] by (cases rest; auto simp: list_all_iff takeWhile_append dropWhile_append)+
  have sp: "dropWhile is_space (nat_str n @ rest) = nat_str n @ rest"
    using nat_str_digits [of n] nat_str_no_sign(3) [of n] by (cases "nat_str n") (auto simp: is_digit_def is_space_def)
  have "match_port (''port='' @ nat_str n @ rest) = Some (nat_str n, rest)"
    using d sp nat_str_no_sign(3) [of n] by (simp add: match_port_def Let_def is_space_def)
  then show ?thesis by (simp add: parse_nat_str)
qed

text \<open>Every port that is probed is a port number, once, in order; a start that trained is never retried.\<close>

lemma log_ports_valid:
  assumes "log_ports loads out = Inr ps"
  shows "sorted ps \<and> distinct ps \<and> (\<forall>p \<in> set ps. 1 \<le> p \<and> p \<le> 65535)"
  using assms by (auto simp: log_ports_def map_res_Inr_iff sorted_filter [where f = "\<lambda>x. x", simplified])

lemma diagnosed:
  assumes "diagnose_main loads ss probe out = Inr 0"
  shows "in_use out \<and> \<not> training_started out"
  using assms by (auto simp: diagnose_main_def diagnose_def map_res_Inr_iff is_ce_startup_collision_def split: if_splits)
section \<open>The conflict that a worker reports\<close>

text \<open>The text of an exception.\<close>

fun message_of :: "exn \<Rightarrow> string" where
  "message_of (ValueError m) = m"
| "message_of (TypeError m) = m"
| "message_of (KeyError m) = m"
| "message_of (RuntimeError m) = m"
| "message_of (NotImplementedError m) = m"
| "message_of (TimeoutError m) = m"
| "message_of (OverflowError m) = m"
| "message_of (OperationIdentityError m) = m"
| "message_of (GateFencedError m) = m"
| "message_of (GateReentryError m) = m"
| "message_of (GateTimeoutError m) = m"
| "message_of (DuplicateCompletionError m) = m"
| "message_of (ProfileConfigurationError m) = m"
| "message_of (BackendError m) = m"

text \<open>
  The constructor of a checkpoint engine worker prints a line about a rendezvous conflict and raises
  again; \<open>dumps\<close> is \<open>json.dumps\<close>, \<open>env\<close> the process's environment.
\<close>

definition conflict_fields :: "(string \<Rightarrow> string option) \<Rightarrow> nat \<Rightarrow> pyval \<Rightarrow> exn \<Rightarrow> pydict" where
  "conflict_fields env pid rank e =
     map (\<lambda>k. (k, case env k of None \<Rightarrow> PNone | Some v \<Rightarrow> PStr v))
       [''RANK'', ''WORLD_SIZE'', ''MASTER_ADDR'', ''MASTER_PORT'', ''DIST_INIT_METHOD'', ''WG_PREFIX'']
     @ [(''pid'', PInt (int pid)), (''replica_rank'', rank), (''error'', PStr (message_of e))]"

definition worker_init ::
    "(pydict \<Rightarrow> string) \<Rightarrow> (string \<Rightarrow> string option) \<Rightarrow> nat \<Rightarrow> pyval \<Rightarrow> 'w res \<Rightarrow> 'w res \<times> string list" where
  "worker_init dumps env pid rank native =
     (native, case native of
        Inr w \<Rightarrow> []
      | Inl e \<Rightarrow> if in_use (message_of e) then [CONFLICT @ dumps (conflict_fields env pid rank e)] else [])"

text \<open>
  The two ends agree: the port of a conflict that a worker printed is among the ports that the diagnosis
  of its log looks at, when \<open>loads\<close> reads back the entries that \<open>dumps\<close> wrote, in any order.
\<close>

lemma text_ahead: "after_text p (p @ t) = Some t"
proof (cases "p @ t")
  case (Cons c cs)
  then have "take (length p) (c # cs) = p" "drop (length p) (c # cs) = t" unfolding Cons [symmetric] by simp_all
  then show ?thesis using Cons by simp
qed simp

lemma reported_port_diagnosed:
  assumes "worker_init dumps env pid rank (Inl e :: 'w res) = (x, [line])" and "env ''MASTER_PORT'' = Some (nat_str p)"
    and "1 \<le> p" and "p \<le> 65535" and "\<And>d. \<exists>d'. loads (dumps d) = Inr (PDict d') \<and> map_of d' = map_of d"
    and "line \<in> set (split_lines [] out)" and "log_ports loads out = Inr ps"
  shows "p \<in> set ps"
proof -
  have line: "line = CONFLICT @ dumps (conflict_fields env pid rank e)"
    using assms(1) by (simp add: worker_init_def split: if_splits)
  obtain d where "loads (dumps (conflict_fields env pid rank e)) = Inr (PDict d)" "map_of d = map_of (conflict_fields env pid rank e)"
    using assms(5) by blast
  then have "loads (dumps (conflict_fields env pid rank e)) = Inr (PDict d)" "pyget d ''MASTER_PORT'' = PStr (nat_str p)"
    using assms(2) by (simp_all add: conflict_fields_def pyget_def pyget_default_def)
  then have m: "marker_ports loads line = Inr [p]"
    using nat_str_digits [of p] nat_str_no_sign(3) [of p]
    by (simp add: marker_ports_def line text_ahead parse_nat_str)
  obtain pss where pss: "traverse (line_ports loads) (split_lines [] out) = Inr pss"
      "ps = filter (\<lambda>p. 1 \<le> p \<and> p \<le> 65535) (sort (remdups (concat pss)))"
    using assms(7) by (auto simp: log_ports_def map_res_Inr_iff)
  from assms(6) obtain i where i: "i < length (split_lines [] out)" "split_lines [] out ! i = line" by (auto simp: in_set_conv_nth)
  from list_all2_nthD [OF pss(1) [unfolded traverse_Inr_iff] i(1)] have "line_ports loads line = Inr (pss ! i)" by (simp add: i(2))
  then have "p \<in> set (pss ! i)" using m by (simp add: line_ports_def) (metis UnCI list.set_intros(1) set_append)
  moreover have "i < length pss" using i(1) pss(1) by (auto simp: traverse_Inr_iff dest: list_all2_lengthD)
  ultimately have "p \<in> set (concat pss)" using nth_mem [of i pss] by auto
  then show ?thesis using assms(3,4) by (simp add: pss(2))
qed

section \<open>The sender of a RESTORE acceptance\<close>

text \<open>
  \<open>en_tied\<close> is \<open>tie_word_embeddings\<close> of the model's configuration, if there is one. \<open>'s\<close> is the storage of the
  FSDP module: \<open>en_names\<close> are the parameters it shows while it is summoned, \<open>en_zero\<close> zeroes one of them and
  the write-back is part of it, \<open>en_export\<close> are the exported tensors with their numbers of nonzero elements.
\<close>

record 's engine =
  en_fsdp :: bool
  en_tied :: "bool option"
  en_names :: "'s \<Rightarrow> string list"
  en_zero :: "string \<Rightarrow> 's \<Rightarrow> 's"
  en_export :: "'s \<Rightarrow> (string \<times> nat) list"

definition ends_with :: "string \<Rightarrow> string \<Rightarrow> bool" where
  "ends_with p s \<longleftrightarrow> take (length p) (rev s) = rev p"

definition is_input :: "string \<Rightarrow> bool" where "is_input = ends_with ''embed_tokens.weight''"

definition is_output :: "bool \<Rightarrow> string \<Rightarrow> bool" where
  "is_output tied name \<longleftrightarrow> ends_with ''lm_head.weight'' name \<or> tied \<and> is_input name"

definition exported :: "bool \<Rightarrow> (string \<times> nat) list \<Rightarrow> (string \<times> nat) list" where
  "exported tied tensors = fold (\<lambda>(name, n). AList.update name n) (filter (\<lambda>(name, n). is_output tied name) tensors) []"

definition check_export :: "bool \<Rightarrow> (string \<times> nat) list \<Rightarrow> exn option" where
  "check_export tied seen = first_failure
     [(tied \<and> \<not> list_ex (is_input \<circ> fst) seen, RuntimeError ''tied RESTORE model export omitted canonical input embeddings''),
      (seen = [], RuntimeError ''RESTORE acceptance cannot find output projection in Vpub export''),
      (list_ex (\<lambda>(name, n). n \<noteq> 0) seen, RuntimeError ''RESTORE mutation did not reach the actual Vpub export'')]"

definition zero_and_verify ::
    "'s engine \<Rightarrow> 's \<Rightarrow> (bool \<times> string list \<times> (string \<times> nat) list) res \<times> 's" where
  "zero_and_verify E s =
     (if \<not> en_fsdp E then (Inl (NotImplementedError ''NPU RESTORE Vpub mutation requires the FSDP1 training module''), s)
      else case en_tied E of
        None \<Rightarrow> (Inl (RuntimeError ''RESTORE acceptance cannot determine weight tying''), s)
      | Some tied \<Rightarrow>
          (let modified = filter (is_output tied) (en_names E s); s' = fold (en_zero E) modified s in
           if tied \<and> \<not> list_ex is_input modified
           then (Inl (RuntimeError ''tied RESTORE model lacks live input embedding parameter''), s')
           else if modified = [] then (Inl (RuntimeError ''RESTORE acceptance cannot locate live output projection''), s')
           else
             (let seen = exported tied (en_export E s') in
              case check_export tied seen of Some e \<Rightarrow> (Inl e, s') | None \<Rightarrow> (Inr (tied, modified, seen), s'))))"

text \<open>The constructor's arguments of the sending engine: the bucket in bytes and the keywords.\<close>

definition sender_args :: "nat \<Rightarrow> (string \<times> pydict) list \<Rightarrow> string \<Rightarrow> nat \<Rightarrow> nat \<times> pydict" where
  "sender_args rank kwargs backend megabytes =
     (let d = (case map_of kwargs backend of None \<Rightarrow> [] | Some d \<Rightarrow> d) in
      (push_bit 20 megabytes, if rank = 0 then AList.update ''is_master'' (PBool True) d else d))"

text \<open>What a sending worker prints; \<open>send\<close> is the native transfer: its result, and how many weights it took.\<close>

datatype restore_stage = ExportStart pyval | FirstWeight string | SendDone pyval

definition restore_update ::
    "((string \<times> 'w) list \<Rightarrow> unit res \<times> nat) \<Rightarrow> pyval \<Rightarrow> (string \<times> 'w) list \<Rightarrow> unit res \<times> restore_stage list" where
  "restore_update send steps weights =
     (case send weights of (x, taken) \<Rightarrow>
        (x, [ExportStart steps] @ map (FirstWeight \<circ> fst) (take 1 (take taken weights))
          @ (case x of Inl e \<Rightarrow> [] | Inr _ \<Rightarrow> [SendDone steps])))"

subsection \<open>What a passed check means\<close>

lemma exported_map:
  "map_of (fold (\<lambda>(name, n). AList.update name n) xs acc) = (map_of acc) ++ map_of (rev xs)"
proof (induction xs arbitrary: acc)
  case (Cons x xs)
  then show ?case by (cases x) (auto simp: update_conv' map_add_def split: option.splits)
qed simp

lemma exported_of: "map_of (exported tied tensors) = map_of (rev (filter (\<lambda>(name, n). is_output tied name) tensors))"
  by (simp add: exported_def exported_map)

lemma exported_distinct: "distinct (map fst (exported tied tensors))"
proof -
  have "distinct (map fst acc) \<Longrightarrow> distinct (map fst (fold (\<lambda>(name, n). AList.update name n) xs acc))" for xs and acc :: "(string \<times> nat) list"
    by (induction xs arbitrary: acc) (auto simp: distinct_update)
  then show ?thesis by (simp add: exported_def)
qed

text \<open>
  A passed check means: at least one output weight was zeroed, the input embeddings among them when the
  weights are tied; the last tensor that is exported under the name of an output weight has no nonzero
  element; and the input embeddings are exported when the weights are tied.
\<close>

theorem zeroed_reaches_export:
  assumes "zero_and_verify E s = (Inr (tied, modified, seen), s')"
  shows "en_tied E = Some tied \<and> modified \<noteq> [] \<and> set modified = {name \<in> set (en_names E s). is_output tied name}
    \<and> s' = fold (en_zero E) modified s
    \<and> (map_of (rev (filter (\<lambda>(name, n). is_output tied name) (en_export E s'))) name = Some n \<longrightarrow> n = 0)
    \<and> (tied \<longrightarrow> (\<exists>name \<in> set modified. is_input name) \<and> (\<exists>(name, n) \<in> set seen. is_input name))"
proof -
  from assms have z: "en_tied E = Some tied" "modified = filter (is_output tied) (en_names E s)" "modified \<noteq> []"
      "s' = fold (en_zero E) modified s" "tied \<longrightarrow> list_ex is_input modified" "seen = exported tied (en_export E s')"
      "check_export tied seen = None"
    by (auto simp: zero_and_verify_def Let_def split: if_splits option.splits)
  then have c: "tied \<longrightarrow> list_ex (is_input \<circ> fst) seen" "\<forall>(name, n) \<in> set seen. n = 0"
    by (auto simp: check_export_def first_failure.simps list_ex_iff split: if_splits)
  have "n = 0" if "map_of (rev (filter (\<lambda>(name, n). is_output tied name) (en_export E s'))) name = Some n"
    using that c(2) map_of_SomeD [of seen name n] by (auto simp: z(6) exported_of)
  moreover have "tied \<longrightarrow> (\<exists>(name, n) \<in> set seen. is_input name)" using c(1) by (auto simp: list_ex_iff split_beta)
  ultimately show ?thesis using z by (auto simp: list_ex_iff)
qed

text \<open>Another strategy, or a model whose tying is not known, is refused with the weights untouched.\<close>

lemma unknown_model_untouched:
  "\<not> en_fsdp E \<or> en_tied E = None \<Longrightarrow> snd (zero_and_verify E s) = s \<and> (\<exists>e. fst (zero_and_verify E s) = Inl e)"
  by (auto simp: zero_and_verify_def)

end
