(* ===== verification/Spec2Isabelle.thy ===== *)
theory Spec2Isabelle
  imports Prelude Interfaces Contracts Operation_Journal Sync_Gate Group_Scheduler Load_Balancer Message_Queue
    Replica_Manager Checkpoint_Manager Http_Server Runtime_Profile Task_Runner
    Async Rollouter Rollouter_Drain Rollouter_Prepare Trainer Trainer_Safety Trainer_Properties
    Borrow_Spec Worker Worker_Safety Worker_Entry Worker_Retry Worker_Attempts Replica Replica_Safety Replica_Properties Parameter_Audit Idle_Reporter Rollout_Client Startup
    Construction Support
begin

text \<open>
  A verification development for the MultiTask extension of \<open>verl\<close> (\<open>src/src/multi_task_scheduler\<close>):
  training tasks that run side by side lend their idle rollout GPUs to each other. Paths below are
  relative to that directory; \<open>fully_async/\<close> stands for \<open>integration/verl/experimental_fully_async/\<close>.

  \<^bold>\<open>The program.\<close> One \<open>GroupScheduler\<close> actor holds the leases: which task's GPUs are lent to
  whom. Each task has a \<open>TaskRunner\<close> which accepts the four life-cycle operations and journals them:
  DONATE takes a native replica out of service and puts it to sleep, ADD builds a borrowed replica on
  a donated GPU, REMOVE destroys it, RESTORE wakes the donated replica. The runner drives two
  actors of its task. The \<open>Rollouter\<close> owns the replicas: the \<open>LLMServerManager\<close> M with their life
  cycles, and the request load balancer R. The \<open>Trainer\<close> owns the membership E of
  weight receivers (\<open>CheckpointEngineManager\<close>) and the gate G that serializes membership changes with
  weight synchronization. What one component promises another is an \<open>OperationEvidence\<close>: WEIGHT_READY,
  SERVICE_COMMITTED, EXIT_READY or RELEASED. All calls between actors can fail after they took effect,
  so most of the code is about replays, lost replies and what may be concluded after them.

  \<^bold>\<open>The theories\<close>, with the file each models:
  \<^item> \<open>Prelude\<close>: exceptions and \<open>res\<close> (a raise is \<open>Inl\<close>), Python values, ordered dictionaries.
  \<^item> \<open>Interfaces\<close>: the contracts components share, as locales: \<open>invariant_machine\<close>, \<open>write_once\<close> and
    \<open>retryable\<close>; each component that offers one interprets it on its own step function.
  \<^item> \<open>Contracts\<close> (\<open>orchestration/contracts.py\<close>): keys, commands, records, evidence and leases with the
    checks of their constructors.
  \<^item> \<open>Operation_Journal\<close> (\<open>orchestration/operation_journal.py\<close>): one unresolved operation per task,
    results that never change.
  \<^item> \<open>Sync_Gate\<close> (\<open>orchestration/replica_sync_gate.py\<close>): the gate with its fencing epochs and its blocked
    latch; \<open>gate_step\<close> interleaves any number of coroutines.
  \<^item> \<open>Group_Scheduler\<close> (\<open>scheduler/group_scheduler.py\<close>): leases, owner tables, staged operations;
    exclusiveness of the GPUs that leases hold and hand over.
  \<^item> \<open>Load_Balancer\<close> (\<open>rollout/load_balancer.py\<close>): request attempts, drains, published routes; soundness
    of the ledger and that a drain closes admission.
  \<^item> \<open>Message_Queue\<close> (\<open>fully_async/message_queue.py\<close>): the completion ledger; a sample reaches the
    native queue at most once.
  \<^item> \<open>Replica_Manager\<close> (\<open>fully_async/llm_server_manager.py\<close>): registry and life cycles, service lists,
    borrowed creation and destruction.
  \<^item> \<open>Checkpoint_Manager\<close> (\<open>checkpoint/checkpoint_engine_manager.py\<close>): pending and effective receivers,
    bootstrap, parameter manifests.
  \<^item> \<open>Http_Server\<close> (\<open>rollout/http_server.py\<close>): the sleep and wake stages of one server and its admission gate.
  \<^item> \<open>Replica\<close>, \<open>Replica_Safety\<close>, \<open>Replica_Properties\<close> (\<open>rollout/replica.py\<close>): creation of a borrowed runtime
    on its lease and its verified cleanup, as coroutines over the Ray cluster; sleep and wake of a native one.
  \<^item> \<open>Parameter_Audit\<close> (\<open>checkpoint/checkpoint_engine_worker.py\<close>, \<open>checkpoint/hccl_checkpoint_engine.py\<close>): the
    manifests both ends of a weight transfer record, what the validation of \<open>Checkpoint_Manager\<close> proves about
    the tensors, the server a receiver talks to, and the release of the communicator.
  \<^item> \<open>Runtime_Profile\<close> (\<open>integration/verl/runtime_profile.py\<close>): the configurations that are accepted.
  \<^item> \<open>Task_Runner\<close> (\<open>fully_async/task_runner.py\<close>): submission and execution of operations, as a refinement
    of the abstract order of their remote calls.
  \<^item> \<open>Async\<close>: coroutines, schedules, and the triples that state what a coroutine guarantees.
  \<^item> \<open>Rollouter\<close>, \<open>Rollouter_Drain\<close>, \<open>Rollouter_Prepare\<close> (\<open>fully_async/rollouter.py\<close>): the coroutines over M
    and R: publication and release, the drain before an exit, preparation.
  \<^item> \<open>Idle_Reporter\<close> (\<open>fully_async/rollouter.py\<close>): the surplus of replicas, the loop that reports and retracts
    it at the scheduler, and the placement candidates of the native replicas.
  \<^item> \<open>Rollout_Client\<close> (\<open>fully_async/rollouter.py\<close>): the proof an aborted request leaves, the order of a
    request's releases and admissions as a step relation, the wait for a server, the reward workers' names.
  \<^item> \<open>Startup\<close> (\<open>trainer.py\<close>, \<open>task_runner.py\<close> and \<open>llm_server_manager.py\<close> of \<open>fully_async/\<close>, \<open>scheduler/discovery.py\<close>): the
    initial members and routes, from which the invariants of the operations start, the message queue, the
    notification of terminal operations, pool names and discovery.
  \<^item> \<open>Construction\<close> (\<open>rollouter.py\<close> and \<open>task_runner.py\<close> of \<open>fully_async/\<close>, \<open>integration/verl/ray_actor.py\<close>): the
    constructors, the two actors of a runner, the relay of the placement candidates, and the drain
    timeout with its float arithmetic.
  \<^item> \<open>Support\<close> (\<open>testing/startup_diagnostics.py\<close>, \<open>testing/npu_restore_sender.py\<close>): the retry decision and the ports
    of a log, and the zeroing of the output weights with the check of their export.
  \<^item> \<open>Trainer\<close>, \<open>Trainer_Safety\<close>, \<open>Trainer_Properties\<close> (\<open>fully_async/trainer.py\<close>): the coroutines over
    E, G and the Rollouter's state, their triples, and the properties read off them.
  \<^item> \<open>Borrow_Spec\<close>: what the spec the runner builds of a lease says, as the manager reads it.
  \<^item> \<open>Worker\<close> (\<open>_execute_operation\<close> of \<open>fully_async/task_runner.py\<close>): the worker of one operation on the
    services themselves, and its agreement with the body in \<open>Task_Runner\<close>. \<open>Worker_Safety\<close>: what an exit
    that SUCCEEDED or FAILED leaves behind; \<open>Worker_Entry\<close>: the same for ADD and RESTORE;
    \<open>Worker_Retry\<close>: further attempts, and the two places from which no attempt can end the operation;
    \<open>Worker_Attempts\<close>: what an exit leaves behind after any number of attempts.
  \<^item> \<open>Spec2Isabelle\<close>: the properties that span components: a lease, the spec the runner builds of it, what
    the manager accepts, and the evidence the scheduler gets back.

  \<^bold>\<open>How code becomes definitions.\<close> An object's fields are a record, a method is a function that returns
  its result with the new state, and a raise leaves exactly what the code had changed by then. A
  method of a Ray actor runs alone between its awaits. Three forms of interleaving are used, by what
  the code needs: a \<open>step\<close> function over all operations (the actors that never await), operations
  split at their awaits into parts (\<open>rm_create_begin\<close>, \<open>rm_create_end\<close>; the worker thread of the
  runner), and coroutines over a schedule (\<open>Async\<close>) for the long protocols of Rollouter and Trainer. A
  schedule says for each await whether the call was executed and answered, what everybody else did
  before and after, and how much time passed; theorems quantify over it. Handles of actors and
  runtimes are numbers, clocks and answers of code outside the repository are arguments. Times are
  rational; a \<open>float\<close> of Python that is compared or stored as metadata is \<open>pyfloat\<close>, with infinity and NaN.

  \<^bold>\<open>Hypotheses about the others.\<close> \<open>obeys R\<close> says that everything the others do between two steps lies in
  R. \<open>ro_rely\<close> is what the rest of the task leaves alone during an operation of the Rollouter; that R's
  own operations do so is \<open>drain_kept\<close>. \<open>tn_rely\<close> adds that nobody changes an owned gate nor the
  membership under it; that the gate's own steps do so is \<open>others_keep_gate\<close>. \<open>gate_rely\<close> is its part about
  the gate. About code outside the repository: \<open>router_ok\<close> (the native router admits only to servers of its pool, and only \<open>add_servers\<close> adds one) and
  \<open>removal_total\<close> (its removals do not raise), \<open>engine_ok\<close> (\<open>is_sleeping\<close> tells the truth, and the health check and
  the cache reset wake nothing), \<open>counts_puts\<close> (a ghost count of the puts of each sample), \<open>ray_ok\<close> (an actor
  that is listed, and only as DEAD, is dead, and only creating an actor starts one), \<open>never_listed\<close> (Ray does not list
  an actor that was never created), and that the hash of the tensors in one validation has no collision.
  \<open>wd_rely\<close> adds to \<open>tn_rely\<close> what the rest of the system leaves alone between the calls of a worker: it does not
  fence the gate in the operation's name (\<open>others_never_fence\<close>), borrow on its lease or change the recorded
  evidence (\<open>recorded_stays\<close>); \<open>sole_rely\<close> adds that it releases nothing in the operation's name.
  \<open>honest_loss\<close> says that Ray does not report a lost call as a \<open>KeyError\<close>.
  \<open>alone\<close> says that the rest of the system leaves a request under way to its client, and a drain of its server,
  which may begin at any time, to its exit; \<open>idle_rely\<close> protects the reporter's own fields, and \<open>same_task\<close> says that
  during a query of candidates the task keeps its id and no replica joins the ACTIVE native ones. Each is shown to hold of a concrete instance
  by the witness of the property that uses it.

  \<^bold>\<open>Bounds.\<close> Nothing depends on chosen fuel. \<open>hs_barrier\<close> takes fuel because its loop ends by the
  clock; 1001 polls are shown to be enough: a poll every hundredth of a second against ten seconds.
  \<open>natural_polls\<close> counts polls: with a finite timeout some number is enough (\<open>finite_timeout_ends\<close>, and
  \<open>natural_wait_time\<close> bounds the time), with an
  infinite or undefined one none is. The other polling loops of the Rollouter are total functions, whose measure is the number of polls
  left before the deadline; \<open>ro_natural_drain_bounded\<close> counts the awaits. The constants of the code are
  definitions: the retention of 10000 settled attempts, 8 reported mismatches, 3 read attempts.

  \<^bold>\<open>Simplifications.\<close>
  A cancellation is an exception like another, \<open>BackendError\<close>: no \<open>except\<close> clause of the modelled code
  tells it apart where both are caught; the wait for the gate's lock ends with the lock or with it.
  The awaits inside one bootstrap are one await whose answers (\<open>boot_env\<close>) come with the schedule, since
  the trainer owns the gate throughout. Logging, error text and metrics carry no state and are left out; messages are
  kept where a test or a caller distinguishes them.

  \<^bold>\<open>Not modelled.\<close> What the native constructors do beside returning or raising, the serving pool and
  the training loop (\<open>verl\<close> and Ray calls around no state of their own), the native transfer and the
  device collectives of HCCL, the native client below the fence (its answers come with the
  schedule), the tests and the end-to-end scripts. The rest of a task shares no lock with the idle
  reporter, so its cancellation, which only ends the loop, is left out.
  \<open>acquire\<close> of the gate is modelled for the kinds its callers use; RECOVERY is the kind of
  \<open>reconcile\<close>, which has its own steps. A FORCE abort is proved for the request under way alone (\<open>alone\<close>); that the
  load balancer's steps for everything else leave it so is \<open>others_leave_request\<close>.

  \<^bold>\<open>Open.\<close> \<open>Worker_Attempts\<close> is about DONATE and REMOVE. For ADD and RESTORE, \<open>Worker_Entry\<close> is about a first
  attempt; of the attempts after it only those of \<open>Worker_Retry\<close> are covered, and the trainer's part of one more kind by
  \<open>tn_add_retry_unpublished\<close>. \<open>failed_exit_untouched\<close> is about a first attempt too. That a DRAINING exit ends at
  some attempt is not claimed: \<open>stranded_exit_never_ends\<close> is a state from which it does not.
\<close>

section \<open>From the task runner to the replica manager\<close>

text \<open>
  The placement spec a task runner builds for an ADD is always one its replica manager takes: for a
  single-GPU lease that has not expired, on an unsharded rollout of the same task, the validation
  succeeds and yields the command's target key and exactly the GPU of the lease.
\<close>

theorem borrow_spec_accepted:
  assumes "tr_build_spec c l = Inr sp" and "wf_add c l"
    and "session = Some (task_session (c_target c))"
    and "tensor_parallel cfg = 1" and "data_parallel cfg = 1" and "pipeline_parallel cfg = 1"
    and "l_expires_at l = 0 \<or> now < l_expires_at l"
  shows "\<exists>n. rm_validate_spec cfg session now (PDict sp) = Inr n \<and> spec_key n = c_target c
    \<and> pyget n ''lease_id'' = PStr (l_lease_id l)
    \<and> map (\<lambda>x. pystr_of (pyget x ''gpu_uuid'')) (spec_claims n) = gpu_uuids l"
proof -
  obtain x where x: "l_claims l = [x]" "rm_validate_spec cfg session now (PDict sp) =
      Inr (normalized_spec sp (borrowed_claim 0 x) (PInt (runtime_epoch (c_target c))) (l_expires_at l))"
    by (rule validate_built_spec [OF assms(1,2), of cfg session now]) (use assms(3-7) in auto)
  then show ?thesis
    by (simp add: spec_key_def spec_claims_def normalized_fields built_fields [OF assms(1)] gpu_uuids_def
        List.map_filter_simps)
qed

text \<open>
  C34: The release evidence of a borrowed replica is the one the group scheduler asks for: when an ADD's
  spec started a borrowed replica and that replica is destroyed at any later point, the RELEASED
  evidence covers exactly the claims of the lease the ADD was submitted with.
\<close>

theorem borrow_release_covers_lease:
  assumes "tr_build_spec c l = Inr sp" and "wf_add c l"
    and "rm_create_begin cfg now (PDict sp) (fold rm_step es (new_rmgr session)) = (Inr (CreateStarted lid key rank), s1)"
    and "later = fold rm_step fs s1"
    and "rm_destroy_end clock key oid (Inr ()) later = (Inr ev, s2)"
  shows "lid = l_lease_id l \<and> key = c_target c \<and> e_operation_id ev = oid \<and> e_type ev = RELEASED \<and> covers_claims ev l"
proof -
  let ?s0 = "fold rm_step es (new_rmgr session)"
  have inv0: "borrow_inv ?s0" by (rule borrows.run_inv [OF new_rmgr_inv])
  from assms(3) obtain n where n: "rm_validate_spec cfg (m_session ?s0) now (PDict sp) = Inr n"
    "lid = pystr_of (pyget n ''lease_id'')" "key = spec_key n" "s1 = started lid n ?s0"
    "map_of (m_borrowed ?s0) lid = None" "m_state ?s0 key = None"
    by (cases rule: rm_create_begin_cases [of cfg now "PDict sp" ?s0]) auto
  obtain x where x: "l_claims l = [x]"
    "n = normalized_spec sp (borrowed_claim 0 x) (PInt (runtime_epoch (c_target c))) (l_expires_at l)"
    by (rule validate_built_spec [OF assms(1,2), of cfg "m_session ?s0" now]) (use n(1) in \<open>auto split: if_splits\<close>)
  have ids: "lid = l_lease_id l" "key = c_target c"
    by (simp_all add: n(2,3) x(2) spec_key_def normalized_fields built_fields [OF assms(1)])
  have inv1: "borrow_inv s1" unfolding n(4) by (rule borrow_inv_started [OF inv0 n(5)]) (use n(3,6) in simp)
  let ?sp = "AList.update ''replica_rank'' (PInt (m_next_rank ?s0)) n"
  have sp1: "spec_of s1 lid = Some ?sp" using n(3,6) by (simp add: n(4) spec_of_def started_fields)
  have sp2: "spec_of later lid = Some ?sp" unfolding assms(4) by (rule borrow_specs.run_keeps [OF inv1 sp1])
  have inv2: "borrow_inv later" unfolding assms(4) by (rule borrows.run_inv [OF inv1])
  from assms(5) obtain lid' r where r: "rm_borrowed_record key later = Inr (lid', r)"
    "evidence_now clock oid RELEASED (map (\<lambda>c. pystr_of (pyget c ''gpu_uuid'')) (spec_claims (b_spec r))) = Inr ev"
    by (auto simp: rm_destroy_end_def split: sum.splits)
  then have mem: "(lid', r) \<in> set (m_borrowed later)" "spec_key (b_spec r) = key"
    by (auto simp: rm_borrowed_record_def filter_eq_Cons_iff split: list.splits)
  with inv2 have "spec_of later lid' = Some (b_spec r)" by (simp add: spec_of_def borrow_inv_def)
  moreover from this have "lid' = lid"
    using inv2 sp2 mem(2) n(3) unfolding borrow_inv_def by (metis spec_fields(1))
  ultimately have "b_spec r = ?sp" using sp2 by simp
  then have "map (\<lambda>c. pystr_of (pyget c ''gpu_uuid'')) (spec_claims (b_spec r)) = gpu_uuids l"
    by (simp add: x spec_claims_def normalized_fields gpu_uuids_def List.map_filter_simps)
  with r(2) ids show ?thesis
    by (auto simp: evidence_now_def mk_evidence_Inr_iff covers_claims_def)
qed

section \<open>The evidence of an ADD that failed in preparation\<close>

text \<open>
  When preparing a borrowed replica fails, what the Rollouter reports is what the group scheduler
  asks for: RELEASED evidence of this operation covers exactly the claims of the lease of the ADD, it
  is only given when the manager has no runtime of the target, and then the operation is unbound;
  otherwise the operation stays bound to its target.
\<close>

theorem failed_add_covers_lease:
  assumes "tr_build_spec c l = Inr sp" and "wf_add c l" and "c_operation_id c \<noteq> []"
    and "obeys (ro_rely N (c_operation_id c) (c_target c)) r"
    and "ro_targets (r_now r) (c_operation_id c) \<in> {None, Some (c_target c)}"
    and "ro_prepare C (c_target c) (c_operation_id c) (Some sp) r = (x, r')"
  shows "case x of
      Inr (Some (Inr ev)) \<Rightarrow> e_operation_id ev = c_operation_id c \<and> e_type ev = RELEASED \<and> covers_claims ev l
        \<and> no_runtime (c_target c) (r_now r') \<and> ro_targets (r_now r') (c_operation_id c) = None
    | _ \<Rightarrow> ro_targets (r_now r') (c_operation_id c) = Some (c_target c) \<or> no_runtime (c_target c) (r_now r')"
  using prepare_view [OF assms(4,3,5) built_spec(1) [OF assms(1,2)] built_fields(2,3) [OF assms(1)] assms(6)]
    built_spec(2) [OF assms(1,2)]
  by (auto simp: prepared_def covers_claims_def split: sum.splits option.splits)

section \<open>Concrete runs\<close>

theorem borrow_spec_accepted_witness:
  "\<exists>sp n. tr_build_spec demo_add demo_borrow = Inr sp
     \<and> rm_validate_spec demo_parallel (Some ''U'') 0 (PDict sp) = Inr n \<and> spec_key n = ReplicaKey ''U'' ''b'' 0"
proof -
  obtain sp where sp: "tr_build_spec demo_add demo_borrow = Inr sp" using demo_built by blast
  have "Some ''U'' = Some (task_session (c_target demo_add))" by (simp add: demo_add_def)
  from borrow_spec_accepted [OF sp demo_wf_add this, of demo_parallel 0]
  obtain n where n: "rm_validate_spec demo_parallel (Some ''U'') 0 (PDict sp) = Inr n" "spec_key n = c_target demo_add"
    by (auto simp: demo_parallel_def demo_lease_def)
  have "c_target demo_add = ReplicaKey ''U'' ''b'' 0" by (simp add: demo_add_def)
  with sp n show ?thesis by simp
qed

theorem borrow_release_covers_lease_witness:
  "\<exists>sp later ev s2. rm_destroy_end 0 (c_target demo_add) ''op'' (Inr ()) later = (Inr ev, s2)
     \<and> tr_build_spec demo_add demo_borrow = Inr sp \<and> covers_claims ev demo_borrow"
proof -
  let ?k = "ReplicaKey ''U'' ''b'' 0" and ?s0 = "fold rm_step [] (new_rmgr (Some ''U''))"
  obtain sp where sp: "tr_build_spec demo_add demo_borrow = Inr sp" using demo_built by blast
  obtain n where n: "rm_validate_spec demo_parallel (Some ''U'') 0 (PDict sp) = Inr n"
      "n = normalized_spec sp (borrowed_claim 0 (demo_claim ''c1'' ''pg'' ''g'')) (PInt 0) 0"
    by (rule validate_built_spec [OF sp demo_wf_add, of demo_parallel "Some ''U''" 0])
      (simp add: demo_parallel_def demo_lease_def demo_add_def)
  have f: "pyget n ''lease_id'' = PStr ''A''" "spec_key n = ?k"
    by (simp_all add: n(2) normalized_fields spec_key_def built_fields [OF sp] demo_add_def demo_lease_def)
  have b: "rm_create_begin demo_parallel 0 (PDict sp) ?s0 = (Inr (CreateStarted ''A'' ?k 0), started ''A'' n ?s0)"
    using n(1) f by (simp add: rm_create_begin_def new_rmgr_def started_def rm_register_def validate_kind_state_def Let_def)
  define later where "later = fold rm_step [] (started ''A'' n ?s0)"
  have l: "m_borrowed later = [(''A'', \<lparr>b_spec = AList.update ''replica_rank'' (PInt 0) n,
      b_result = None, b_error = None, b_destroy = None\<rparr>)]" "m_state later ?k = Some CREATING" "m_kind later ?k = Some BORROWED"
    by (simp_all add: later_def f started_def new_rmgr_def rm_register_def validate_kind_state_def Let_def)
  have "map (\<lambda>c. pystr_of (pyget c ''gpu_uuid'')) (spec_claims (AList.update ''replica_rank'' (PInt 0) n)) = [''g'']"
    by (simp add: n(2) normalized_fields spec_claims_def List.map_filter_simps)
      (simp add: demo_claim_def pyget_def pyget_default_def)
  then have "\<exists>ev s2. rm_destroy_end 0 ?k ''op'' (Inr ()) later = (Inr ev, s2)"
    using f by (simp add: rm_destroy_end_def rm_borrowed_record_def l evidence_now_def mk_evidence_def)
  then obtain ev s2 where d: "rm_destroy_end 0 ?k ''op'' (Inr ()) later = (Inr ev, s2)" by blast
  have "c_target demo_add = ?k" by (simp add: demo_add_def)
  with borrow_release_covers_lease [OF sp demo_wf_add b later_def d] sp d show ?thesis by metis
qed

theorem failed_add_covers_lease_witness:
  "\<exists>sp ev r'. tr_build_spec demo_add demo_borrow = Inr sp
     \<and> ro_prepare demo_config (c_target demo_add) ''op'' (Some sp) (run_of (lossy PNone) (new_ro (new_rmgr (Some ''V'')) demo_lb))
         = (Inr (Some (Inr ev)), r') \<and> covers_claims ev demo_borrow"
proof -
  let ?r = "run_of (lossy PNone) (new_ro (new_rmgr (Some ''V'')) demo_lb)"
  obtain sp where sp: "tr_build_spec demo_add demo_borrow = Inr sp" using demo_built by blast
  have key: "c_target demo_add = ReplicaKey ''U'' ''b'' 0" "c_operation_id demo_add = ''op''" by (simp_all add: demo_add_def)
  have refused: "\<exists>e. rm_validate_spec demo_parallel (Some ''V'') 0 (PDict sp) = Inl e"
    by (rule validate_built_spec [OF sp demo_wf_add, of demo_parallel "Some ''V''" 0]) (simp add: key)
  have uuids: "spec_uuids sp = [''g'']"
    using built_spec(2) [OF sp demo_wf_add] by (simp add: gpu_uuids_def demo_lease_def demo_claim_def pyget_def pyget_default_def)
  have "\<exists>ev r'. ro_prepare demo_config (c_target demo_add) ''op'' (Some sp) ?r = (Inr (Some (Inr ev)), r')"
    using refused uuids built_spec(1) [OF sp demo_wf_add] built_fields(2,3) [OF sp]
    by (auto simp: ro_prepare_def ro_create_def ro_failed_create_def rm_create_begin_def key ro_eval coro_eval evidence_now_def
        mk_evidence_def)
  then obtain ev r' where e: "ro_prepare demo_config (c_target demo_add) ''op'' (Some sp) ?r = (Inr (Some (Inr ev)), r')" by blast
  have n: "c_operation_id demo_add \<noteq> []" and b: "ro_targets (r_now ?r) (c_operation_id demo_add) \<in> {None, Some (c_target demo_add)}"
    by (simp_all add: demo_add_def run_of_def new_ro_def)
  from failed_add_covers_lease [OF sp demo_wf_add n lossy_obeys [of demo_router] b, unfolded key(2), OF e] sp e show ?thesis by auto
qed

section \<open>From the profile to the components\<close>

text \<open>The manager and the servers read the \<open>actor_rollout_ref.rollout\<close> section of the accepted configuration.\<close>

definition rollout_flag :: "pyval \<Rightarrow> string \<Rightarrow> bool" where
  "rollout_flag cfg field = (case rp_select cfg (rollout_path [field]) None of Inr v \<Rightarrow> py_truth v | Inl _ \<Rightarrow> False)"

definition rollout_parallel :: "pyval \<Rightarrow> parallel_config" where
  "rollout_parallel cfg = \<lparr>tensor_parallel = rp_size cfg ''tensor_model_parallel_size'',
     data_parallel = rp_size cfg ''data_parallel_size'', pipeline_parallel = rp_size cfg ''pipeline_model_parallel_size''\<rparr>"

definition server_config :: "pyval \<Rightarrow> nat \<Rightarrow> string \<Rightarrow> hs_config" where
  "server_config cfg level resource = \<lparr>cf_nnodes = rp_size cfg ''nnodes'', cf_node_rank = 0,
     cf_sleep_mode = rollout_flag cfg ''enable_sleep_mode'', cf_free_cache = rollout_flag cfg ''free_cache_engine'',
     cf_sleep_level = level, cf_resource = resource\<rparr>"

text \<open>
  A configuration the profile accepts never makes a component refuse for configuration reasons: the
  manager's parallelism check passes for every ADD, and a server with a live engine always gets past
  the sleep and wake preconditions.
\<close>

theorem profile_enables_lending:
  assumes "rp_validate cfg = Inr True" and "tr_build_spec c l = Inr sp" and "wf_add c l"
    and "l_expires_at l = 0 \<or> now < l_expires_at l" and "hs_engine s \<noteq> None"
  shows "(\<exists>n. rm_validate_spec (rollout_parallel cfg) (Some (task_session (c_target c))) now (PDict sp) = Inr n
        \<and> spec_key n = c_target c)
    \<and> hs_require_engine (server_config cfg level resource) s = None"
proof
  note acc = rp_accepts_supported [OF assms(1)]
  show "\<exists>n. rm_validate_spec (rollout_parallel cfg) (Some (task_session (c_target c))) now (PDict sp) = Inr n
        \<and> spec_key n = c_target c"
    using borrow_spec_accepted [OF assms(2,3) HOL.refl _ _ _ assms(4), of "rollout_parallel cfg"] acc
    by (auto simp: rollout_parallel_def)
  have "rp_select cfg [''actor_rollout_ref'', ''rollout'', ''enable_sleep_mode''] None = Inr (PBool True)"
    "rp_select cfg [''actor_rollout_ref'', ''rollout'', ''free_cache_engine''] None = Inr (PBool True)"
    by (rule accepted_setting [OF assms(1)], simp add: required_settings_def rollout_path_def)+
  with acc assms(5) show "hs_require_engine (server_config cfg level resource) s = None"
    by (simp add: hs_require_engine_def server_config_def rollout_flag_def rollout_path_def)
qed


theorem profile_enables_lending_witness:
  "\<exists>sp n. rm_validate_spec (rollout_parallel demo_profile) (Some ''U'') 0 (PDict sp) = Inr n
     \<and> spec_key n = ReplicaKey ''U'' ''b'' 0"
proof -
  obtain sp where sp: "tr_build_spec demo_add demo_borrow = Inr sp" using demo_built by blast
  have q: "l_expires_at demo_borrow = 0 \<or> 0 < l_expires_at demo_borrow" by (simp add: demo_lease_def)
  have e: "hs_engine (new_http (0::nat) 0) \<noteq> None" by (simp add: new_http_def)
  have "c_target demo_add = ReplicaKey ''U'' ''b'' 0" "task_session (c_target demo_add) = ''U''" by (simp_all add: demo_add_def)
  with profile_enables_lending [OF demo_accepted sp demo_wf_add q e, of undefined undefined] show ?thesis by auto
qed

end
